(* ===== verification/Prelude.thy ===== *)
theory Prelude
  imports Main "HOL-Library.Word" "HOL-Library.Signed_Division"
begin

unbundle bit_operations_syntax

section \<open>Shared types, collections and generic lemmas\<close>

text \<open>
  The machine integers of the runtime, the fact collections the component theories fill, the
  generic lemmas on words and lists they share, and two interface contracts that several
  components implement: a chunked byte consumer (the checksums) and a counter advanced in
  bulk (the devices driven by the guest cycle clock).
\<close>

type_synonym u8 = "8 word"
type_synonym u16 = "16 word"
type_synonym u32 = "32 word"
type_synonym u64 = "64 word"

named_theorems frame_simps \<open>fields an operation leaves alone\<close>
named_theorems inv_intros \<open>preservation of a component's invariant by its operations\<close>

subsection \<open>Words\<close>

text \<open>C's conversion of a signed value to an unsigned one, and the arithmetic right shift.\<close>

abbreviation of_sint :: "int \<Rightarrow> u32" where
  "of_sint i \<equiv> word_of_int i"

abbreviation asr :: "u32 \<Rightarrow> nat \<Rightarrow> u32" where
  "asr w n \<equiv> signed_drop_bit n w"

lemma xor_left_commute_word:
  "(a :: 'a::len word) XOR (b XOR c) = b XOR (a XOR c)"
  by (simp add: xor.left_commute)

lemmas xor_ac = xor.assoc xor.commute xor_left_commute_word

lemma unat_and_mask: "unat ((w :: 'a::len word) AND mask n) = unat w mod 2 ^ n"
proof -
  have "unat (w AND mask n) = take_bit n (unat w)"
    by (simp add: unsigned_and_eq unsigned_take_bit_eq flip: take_bit_eq_mask)
  then show ?thesis by (simp add: take_bit_eq_mod)
qed

lemma unat_and_mask_less: "unat ((w :: 'a::len word) AND mask n) < 2 ^ n"
  by (simp add: unat_and_mask)

lemma mask8_eq: "(0xFF :: 'a::len word) = mask 8"
  by (simp add: mask_eq_exp_minus_1)

lemma unat_and_ff_less: "unat ((w :: 'a::len word) AND 0xFF) < 256"
  using unat_and_mask_less [of w 8] by (simp add: mask8_eq)

lemma ffff_bit: "bit (0xFFFF :: int) n \<longleftrightarrow> n < 16"
proof -
  have "(0xFFFF :: int) = mask 16" by (simp add: mask_eq_exp_minus_1)
  then have "bit (0xFFFF :: int) n = bit (mask 16 :: int) n" by (simp only:)
  also have "\<dots> \<longleftrightarrow> n < 16" by (simp only: bit_mask_iff) auto
  finally show ?thesis .
qed

lemma low16: "ucast (ucast (w :: u32) :: u16) = w AND 0xFFFF"
  by (rule bit_word_eqI) (auto simp: bit_simps ffff_bit)

lemma low16_low16 [simp]: "(w AND 0xFFFF) AND 0xFFFF = w AND 0xFFFF" for w :: u32
  by (simp add: and.assoc)

lemma unat_u16_less: "unat (b :: u16) < 65536"
  using unsigned_less [of b] by simp

lemma unat_u32_less: "unat (b :: u32) < 4294967296"
  using unsigned_less [of b] by simp

lemma unat_inc:
  fixes w :: u32
  assumes "w \<noteq> 0xFFFFFFFF"
  shows "unat (w + 1) = Suc (unat w)"
proof -
  have "unat w \<noteq> 0xFFFFFFFF" using assms by (simp add: word_unat_eq_iff)
  then have "unat w + 1 < 2 ^ 32" using unat_u32_less [of w] by simp
  then show ?thesis by (simp add: unat_word_ariths)
qed

lemma unat_ucast_up:
  assumes "LENGTH('a::len) \<le> LENGTH('b::len)"
  shows "unat (ucast (w :: 'a word) :: 'b word) = unat w"
proof -
  have "unat w < 2 ^ LENGTH('a)" by (rule unsigned_less)
  also have "\<dots> \<le> 2 ^ LENGTH('b)" using assms by simp
  finally show ?thesis by (simp add: unsigned_ucast_eq take_bit_nat_eq_self)
qed

lemmas unat_ucast_widen [simp] =
  unat_ucast_up [where 'a = 8 and 'b = 16, simplified] unat_ucast_up [where 'a = 8 and 'b = 32, simplified]
  unat_ucast_up [where 'a = 16 and 'b = 32, simplified] unat_ucast_up [where 'a = 32 and 'b = 64, simplified]

lemma unat_u8_less: "unat (b :: u8) < 256"
  using unsigned_less [of b] by simp

subsection \<open>Iteration\<close>

lemma funpow_commute_step: "(f ^^ n) (f x) = f ((f ^^ n) x)"
  by (induction n) simp_all

lemma funpow_8: "(f ^^ 8) x = f (f (f (f (f (f (f (f x)))))))"
  by (simp add: eval_nat_numeral)

lemma funpow_invariant: "P x \<Longrightarrow> (\<And>y. P y \<Longrightarrow> P (f y)) \<Longrightarrow> P ((f ^^ n) x)"
  by (induction n) simp_all

subsection \<open>Contract: a consumer of byte chunks\<close>

text \<open>
  \<open>upd s bs\<close> absorbs a buffer. The contract is that splitting the input over calls does not
  matter on the states that satisfy \<open>ok\<close>, which every call keeps.
\<close>

locale byte_sink =
  fixes ok :: "'s \<Rightarrow> bool"
    and upd :: "'s \<Rightarrow> 'b list \<Rightarrow> 's"
    and view :: "'s \<Rightarrow> 'v"
  assumes ok_upd: "ok s \<Longrightarrow> ok (upd s bs)"
    and upd_append: "ok s \<Longrightarrow> view (upd (upd s bs) cs) = view (upd s (bs @ cs))"
    and view_cong: "ok s \<Longrightarrow> ok t \<Longrightarrow> view s = view t \<Longrightarrow> view (upd s bs) = view (upd t bs)"
    and upd_Nil: "ok s \<Longrightarrow> view (upd s []) = view s"
begin

lemma ok_foldl: "ok s \<Longrightarrow> ok (foldl upd s chunks)"
  by (induction chunks arbitrary: s) (simp_all add: ok_upd)

lemma foldl_concat: "ok s \<Longrightarrow> view (foldl upd s chunks) = view (upd s (concat chunks))"
proof (induction chunks arbitrary: s rule: rev_induct)
  case Nil
  then show ?case by (simp add: upd_Nil)
next
  case (snoc c cs)
  have "view (foldl upd s (cs @ [c])) = view (upd (foldl upd s cs) c)"
    by simp
  also have "\<dots> = view (upd (upd s (concat cs)) c)"
    by (rule view_cong) (use snoc in \<open>simp_all add: ok_foldl ok_upd\<close>)
  also have "\<dots> = view (upd s (concat (cs @ [c])))"
    using snoc.prems by (simp add: upd_append)
  finally show ?case .
qed

text \<open>Two ways of cutting the same input into chunks give the same result.\<close>

lemma rechunk: "ok s \<Longrightarrow> concat xs = concat ys \<Longrightarrow> view (foldl upd s xs) = view (foldl upd s ys)"
  by (simp add: foldl_concat)

end

subsection \<open>Contract: a counter advanced in bulk\<close>

text \<open>
  \<open>adv n\<close> is the optimised bulk step a device takes when the clock moves by \<open>n\<close>, valid for
  steps below \<open>limit\<close> on the states that satisfy \<open>ok\<close>; \<open>one\<close> is the tick it stands for.
\<close>

locale bulk_clock =
  fixes ok :: "'s \<Rightarrow> bool"
    and limit :: nat
    and adv :: "nat \<Rightarrow> 's \<Rightarrow> 's"
    and one :: "'s \<Rightarrow> 's"
  assumes adv_ticks: "ok s \<Longrightarrow> n < limit \<Longrightarrow> adv n s = (one ^^ n) s"
    and ok_one: "ok s \<Longrightarrow> ok (one s)"
begin

lemma ok_ticks: "ok s \<Longrightarrow> ok ((one ^^ n) s)"
  by (rule funpow_invariant) (simp_all add: ok_one)

lemma ok_adv: "ok s \<Longrightarrow> n < limit \<Longrightarrow> ok (adv n s)"
  by (simp add: adv_ticks ok_ticks)

lemma adv_add: "ok s \<Longrightarrow> m + n < limit \<Longrightarrow> adv (m + n) s = adv n (adv m s)"
proof -
  assume a: "ok s" "m + n < limit"
  then have "adv (m + n) s = (one ^^ n) ((one ^^ m) s)"
    by (simp add: adv_ticks funpow_add add.commute [of m n])
  with a show ?thesis by (simp add: adv_ticks ok_ticks)
qed

lemma adv_slices:
  assumes "ok s" "sum_list ns < limit"
  shows "foldl (\<lambda>t n. adv n t) s ns = adv (sum_list ns) s"
  using assms
proof (induction ns rule: rev_induct)
  case Nil
  then show ?case by (simp add: adv_ticks)
next
  case (snoc n ns)
  then show ?case by (simp add: adv_add)
qed

end

subsection \<open>Contract: an eviction-bounded ring of records\<close>

text \<open>
  The always-on diagnostic rings: record number \<open>k\<close> goes to slot \<open>k mod cap\<close>. The contract
  gives the window: the last \<open>cap\<close> records are each where their number says, as long as the
  sequence counter stays below its \<open>limit\<close>.
\<close>

locale record_ring =
  fixes cap :: nat
    and limit :: nat
    and seq :: "'s \<Rightarrow> nat"
    and slot :: "'s \<Rightarrow> nat \<Rightarrow> 'e"
    and row :: "'a \<Rightarrow> 'e"
    and push :: "'a \<Rightarrow> 's \<Rightarrow> 's"
  assumes cap_pos: "0 < cap"
    and seq_push: "Suc (seq s) < limit \<Longrightarrow> seq (push e s) = Suc (seq s)"
    and slot_push: "Suc (seq s) < limit \<Longrightarrow>
      slot (push e s) i = (if i = seq s mod cap then row e else slot s i)"
begin

lemma seq_pushes: "seq s + length es < limit \<Longrightarrow> seq (foldl (\<lambda>t e. push e t) s es) = seq s + length es"
  by (induction es rule: rev_induct) (simp_all add: seq_push)

lemma window:
  assumes "seq s + length es < limit" "k < length es" "length es \<le> k + cap"
  shows "slot (foldl (\<lambda>t e. push e t) s es) ((seq s + k) mod cap) = row (es ! k)"
  using assms
proof (induction es rule: rev_induct)
  case Nil
  then show ?case by simp
next
  case (snoc e es)
  let ?t = "foldl (\<lambda>t e. push e t) s es"
  have lim: "Suc (seq ?t) < limit" and sq: "seq ?t = seq s + length es"
    using snoc.prems(1) by (simp_all add: seq_pushes)
  show ?case
  proof (cases "k = length es")
    case True
    then show ?thesis using lim sq by (simp add: slot_push)
  next
    case False
    with snoc.prems have k: "k < length es" "length es < k + cap" by simp_all
    have "(seq s + k) mod cap \<noteq> (seq s + length es) mod cap"
    proof
      assume eq: "(seq s + k) mod cap = (seq s + length es) mod cap"
      have "cap dvd (seq s + length es) - (seq s + k)"
        using eq k by (subst mod_eq_dvd_iff_nat [symmetric]) simp_all
      then have "cap dvd length es - k" by simp
      moreover have "0 < length es - k" "length es - k < cap" using k by simp_all
      ultimately show False using nat_dvd_not_less by blast
    qed
    then show ?thesis
      using snoc.IH snoc.prems k lim sq by (simp add: slot_push nth_append)
  qed
qed

end

subsection \<open>Contract: a word-addressed memory\<close>

text \<open>
  What the clients of main memory rely on: on the states \<open>ok\<close> and the addresses \<open>valid\<close>, a
  write is read back, leaves the other words alone and stays in \<open>ok\<close>.
\<close>

locale word_memory =
  fixes ok :: "'s \<Rightarrow> bool"
    and valid :: "u32 \<Rightarrow> bool"
    and rd :: "u32 \<Rightarrow> 's \<Rightarrow> u32"
    and wr :: "u32 \<Rightarrow> u32 \<Rightarrow> 's \<Rightarrow> 's"
  assumes ok_wr: "ok s \<Longrightarrow> valid a \<Longrightarrow> ok (wr a v s)"
    and rd_wr: "ok s \<Longrightarrow> valid a \<Longrightarrow> valid b \<Longrightarrow> rd b (wr a v s) = (if a = b then v else rd b s)"
begin

lemma rd_wr_same: "ok s \<Longrightarrow> valid a \<Longrightarrow> rd a (wr a v s) = v"
  by (simp add: rd_wr)

lemma rd_wr_other: "ok s \<Longrightarrow> valid a \<Longrightarrow> valid b \<Longrightarrow> a \<noteq> b \<Longrightarrow> rd b (wr a v s) = rd b s"
  by (simp add: rd_wr)

lemma ok_wrs:
  "ok s \<Longrightarrow> \<forall>w\<in>set ws. valid (fst w) \<Longrightarrow> ok (foldl (\<lambda>s (a, v). wr a v s) s ws)"
  by (induction ws rule: rev_induct) (auto simp: ok_wr)

text \<open>A sequence of writes: each word holds the last value written to it, or what it held.\<close>

lemma rd_wrs:
  assumes "ok s" "valid b" "\<forall>w\<in>set ws. valid (fst w)"
  shows "rd b (foldl (\<lambda>s (a, v). wr a v s) s ws)
       = (case map_of (rev ws) b of None \<Rightarrow> rd b s | Some v \<Rightarrow> v)"
  using assms(3)
proof (induction ws rule: rev_induct)
  case (snoc w ws)
  obtain a v where w: "w = (a, v)" by (cases w)
  have "rd b (foldl (\<lambda>s (a, v). wr a v s) s (ws @ [w]))
      = (if a = b then v else rd b (foldl (\<lambda>s (a, v). wr a v s) s ws))"
    using assms(1,2) snoc.prems by (simp add: w rd_wr ok_wrs)
  then show ?case using snoc by (simp add: w)
qed simp

end

subsection \<open>Contract: a device that answers byte by byte\<close>

text \<open>
  A device on a serial bus: \<open>step s b\<close> is its state after a byte. While it is in the middle of a
  transaction every byte brings it nearer to the end, whatever the byte, so a transaction ends.
\<close>

locale byte_device =
  fixes step :: "'s \<Rightarrow> u8 \<Rightarrow> 's"
    and ok :: "'s \<Rightarrow> bool"
    and rank :: "'s \<Rightarrow> nat"
    and limit :: nat
  assumes step_ok: "ok s \<Longrightarrow> ok (step s b)"
    and step_rank: "ok s \<Longrightarrow> rank s \<noteq> 0 \<Longrightarrow> rank (step s b) < rank s"
    and rank_limit: "ok s \<Longrightarrow> rank s \<le> limit"
begin

lemma run_ok: "ok s \<Longrightarrow> ok (foldl step s bs)"
  by (induction bs arbitrary: s) (simp_all add: step_ok)

lemma ends: "ok s \<Longrightarrow> rank s \<le> length bs \<Longrightarrow> \<exists>n \<le> length bs. rank (foldl step s (take n bs)) = 0"
proof (induction bs arbitrary: s)
  case (Cons b bs)
  show ?case
  proof (cases "rank s = 0")
    case False
    then have "rank (step s b) \<le> length bs" using step_rank [OF Cons.prems(1), of b] Cons.prems(2) by simp
    then obtain n where "n \<le> length bs" "rank (foldl step (step s b) (take n bs)) = 0"
      using Cons.IH [OF step_ok [OF Cons.prems(1)]] by blast
    then show ?thesis by (intro exI [of _ "Suc n"]) simp
  qed (auto intro: exI [of _ 0])
qed simp

lemma ends_within: "ok s \<Longrightarrow> limit \<le> length bs \<Longrightarrow> \<exists>n \<le> limit. rank (foldl step s (take n bs)) = 0"
  using ends [of s "take limit bs"] rank_limit [of s] by (auto simp: min_absorb1)

end

end
