(* ===== verification/Crc32.thy ===== *)
theory Crc32
  imports Prelude
begin

section \<open>CRC-32 with slicing by eight (\<^verbatim>\<open>runtime/src/crc32.c\<close>)\<close>

text \<open>
  The module's statics (the two lazily built lookup tables and their ready flags) are the
  record \<open>crc_statics\<close>; \<open>crc32_update\<close> takes and returns them. The reference is the
  bit-serial register \<open>crc_bit\<close>; the theorems show that the eight-byte slicing loop, the
  byte loop and the bit-serial register agree on every input, whatever way it is cut into
  calls.
\<close>

record crc_statics =
  s_table :: "u32 list"
  s_table_ready :: bool
  s_table8 :: "u32 list list"
  s_table8_ready :: bool

definition crc_statics_init :: crc_statics where
  "crc_statics_init =
     \<lparr>s_table = replicate 256 0, s_table_ready = False,
      s_table8 = replicate 8 (replicate 256 0), s_table8_ready = False\<rparr>"

definition crc_bit :: "u32 \<Rightarrow> u32" where
  "crc_bit c = (if c AND 1 \<noteq> 0 then 0xEDB88320 XOR drop_bit 1 c else drop_bit 1 c)"

definition crc32_init_table :: "crc_statics \<Rightarrow> crc_statics" where
  "crc32_init_table st =
     st\<lparr>s_table := map (\<lambda>i. (crc_bit ^^ 8) (of_nat i)) [0..<256], s_table_ready := True\<rparr>"

text \<open>One column of \<open>s_table8\<close>: the inner loop over \<open>k\<close>, starting from row 0.\<close>

fun crc_column :: "u32 list \<Rightarrow> nat \<Rightarrow> u32 \<Rightarrow> u32 list" where
  "crc_column row0 0 c = []"
| "crc_column row0 (Suc k) c =
     (let c' = row0 ! unat (c AND 0xFF) XOR drop_bit 8 c in c' # crc_column row0 k c')"

definition crc32_init_table8 :: "crc_statics \<Rightarrow> crc_statics" where
  "crc32_init_table8 st0 =
     (let st = (if s_table_ready st0 then st0 else crc32_init_table st0);
          row0 = map (\<lambda>n. s_table st ! n) [0..<256];
          cols = map (\<lambda>n. row0 ! n # crc_column row0 7 (row0 ! n)) [0..<256]
      in st\<lparr>s_table8 := map (\<lambda>k. map (\<lambda>n. cols ! n ! k) [0..<256]) [0..<8],
            s_table8_ready := True\<rparr>)"

definition crc_slice :: "u32 list list \<Rightarrow> u32 \<Rightarrow> u8 list \<Rightarrow> u32" where
  "crc_slice t8 crc d =
     (let b0 = d ! 0 XOR ucast crc;
          b1 = d ! 1 XOR ucast (drop_bit 8 crc);
          b2 = d ! 2 XOR ucast (drop_bit 16 crc);
          b3 = d ! 3 XOR ucast (drop_bit 24 crc)
      in t8 ! 7 ! unat b0 XOR t8 ! 6 ! unat b1 XOR t8 ! 5 ! unat b2 XOR t8 ! 4 ! unat b3
         XOR t8 ! 3 ! unat (d ! 4) XOR t8 ! 2 ! unat (d ! 5) XOR t8 ! 1 ! unat (d ! 6)
         XOR t8 ! 0 ! unat (d ! 7))"

definition crc_byte :: "u32 list \<Rightarrow> u32 \<Rightarrow> u8 \<Rightarrow> u32" where
  "crc_byte t crc d = t ! unat ((crc XOR ucast d) AND 0xFF) XOR drop_bit 8 crc"

text \<open>\<open>while (len >= 8)\<close> and then \<open>while (len--)\<close>.\<close>

fun crc_tail :: "u32 list \<Rightarrow> u32 \<Rightarrow> u8 list \<Rightarrow> u32" where
  "crc_tail t crc [] = crc"
| "crc_tail t crc (d # ds) = crc_tail t (crc_byte t crc d) ds"

fun crc_loop :: "u32 list \<Rightarrow> u32 list list \<Rightarrow> u32 \<Rightarrow> u8 list \<Rightarrow> u32" where
  "crc_loop t t8 crc (d0 # d1 # d2 # d3 # d4 # d5 # d6 # d7 # ds) =
     crc_loop t t8 (crc_slice t8 crc [d0, d1, d2, d3, d4, d5, d6, d7]) ds"
| "crc_loop t t8 crc ds = crc_tail t crc ds"

definition crc32_update :: "u32 \<Rightarrow> u8 list \<Rightarrow> crc_statics \<Rightarrow> u32 \<times> crc_statics" where
  "crc32_update crc data st0 =
     (let st1 = (if s_table_ready st0 then st0 else crc32_init_table st0);
          st2 = (if s_table8_ready st1 then st1 else crc32_init_table8 st1)
      in (crc_loop (s_table st2) (s_table8 st2) crc data, st2))"

definition crc32_compute :: "u8 list \<Rightarrow> crc_statics \<Rightarrow> u32 \<times> crc_statics" where
  "crc32_compute data st =
     (let (c, st') = crc32_update 0xFFFFFFFF data st in (c XOR 0xFFFFFFFF, st'))"

subsection \<open>The bit-serial reference\<close>

abbreviation crc_step8 :: "u32 \<Rightarrow> u32" where
  "crc_step8 c \<equiv> (crc_bit ^^ 8) c"

definition crc_ref :: "u32 \<Rightarrow> u8 list \<Rightarrow> u32" where
  "crc_ref crc data = foldl (\<lambda>c d. crc_step8 (c XOR ucast d)) crc data"

lemmas crc_bit_numeral = crc_bit_def [of "numeral n" for n]

lemma and_one_neq_zero: "(c :: u32) AND 1 \<noteq> 0 \<longleftrightarrow> bit c 0"
  by (simp add: and_one_eq odd_iff_mod_2_eq_one bit_0)

lemma crc_bit_alt: "crc_bit c = (if bit c 0 then 0xEDB88320 XOR drop_bit 1 c else drop_bit 1 c)"
  by (simp only: crc_bit_def and_one_neq_zero)

text \<open>The register is linear over exclusive or.\<close>

lemma crc_bit_xor: "crc_bit (a XOR b) = crc_bit a XOR crc_bit b"
  by (auto simp: crc_bit_alt bit_xor_iff drop_bit_xor xor_ac)

lemma crc_pow_xor: "(crc_bit ^^ n) (a XOR b) = (crc_bit ^^ n) a XOR (crc_bit ^^ n) b"
  by (induction n) (simp_all add: crc_bit_xor)

lemma crc_bit_even: "\<not> bit c 0 \<Longrightarrow> crc_bit c = drop_bit 1 c"
  by (simp add: crc_bit_alt)

lemma crc_pow_shift:
  "(\<And>k. k < n \<Longrightarrow> \<not> bit c k) \<Longrightarrow> (crc_bit ^^ n) c = drop_bit n c"
proof (induction n)
  case 0
  then show ?case by simp
next
  case (Suc n)
  then have "(crc_bit ^^ n) c = drop_bit n c" by simp
  moreover have "\<not> bit (drop_bit n c) 0"
    using Suc.prems [of n] by (simp add: bit_drop_bit_eq)
  ultimately show ?case
    by (simp add: crc_bit_even)
qed

text \<open>Eight steps split a register into its low byte and the rest, which is only shifted.\<close>

lemma crc_step8_shift: "crc_step8 (push_bit 8 c) = drop_bit 8 (push_bit 8 c)"
  by (rule crc_pow_shift) (simp add: bit_push_bit_iff)

lemma low_byte_split: "c = (c AND 0xFF) XOR push_bit 8 (drop_bit 8 c)" for c :: u32
  by (rule bit_word_eqI)
     (auto simp: mask8_eq bit_simps)

lemma drop_push_8: "drop_bit 8 (push_bit 8 (drop_bit 8 c)) = drop_bit 8 c" for c :: u32
  by (rule bit_word_eqI) (auto simp: bit_simps dest: bit_imp_le_length)

lemma crc_step8_split: "crc_step8 c = crc_step8 (c AND 0xFF) XOR drop_bit 8 c"
proof -
  have "crc_step8 c = crc_step8 ((c AND 0xFF) XOR push_bit 8 (drop_bit 8 c))"
    by (subst low_byte_split [of c]) (rule refl)
  also have "\<dots> = crc_step8 (c AND 0xFF) XOR drop_bit 8 c"
    by (simp only: crc_pow_xor crc_step8_shift drop_push_8)
  finally show ?thesis .
qed

subsection \<open>The tables hold the register's powers\<close>

definition crc_table :: "u32 list" where
  "crc_table = map (\<lambda>i. crc_step8 (of_nat i)) [0..<256]"

definition crc_table8 :: "u32 list list" where
  "crc_table8 = map (\<lambda>k. map (\<lambda>i. (crc_step8 ^^ Suc k) (of_nat i)) [0..<256]) [0..<8]"

definition crc_ok :: "crc_statics \<Rightarrow> bool" where
  "crc_ok st \<longleftrightarrow> (s_table_ready st \<longrightarrow> s_table st = crc_table) \<and>
     (s_table8_ready st \<longrightarrow> s_table8 st = crc_table8)"

lemma crc_table_nth: "i < 256 \<Longrightarrow> crc_table ! i = crc_step8 (of_nat i)"
  by (simp add: crc_table_def)

lemma crc_table_lookup:
  "crc_table ! unat ((c :: u32) AND 0xFF) = crc_step8 (c AND 0xFF)"
  using unat_and_ff_less [of c] by (simp add: crc_table_nth)

lemma crc_table_step: "crc_table ! unat (c AND 0xFF) XOR drop_bit 8 c = crc_step8 c"
  by (simp only: crc_table_lookup crc_step8_split [of c, symmetric])

lemma crc_column_nth:
  "k < n \<Longrightarrow> crc_column crc_table n c ! k = (crc_step8 ^^ Suc k) c"
proof (induction n arbitrary: k c)
  case 0
  then show ?case by simp
next
  case (Suc n)
  show ?case
  proof (cases k)
    case 0
    then show ?thesis by (simp add: crc_table_step Let_def)
  next
    case (Suc j)
    with Suc.prems Suc.IH [of j "crc_step8 c"] show ?thesis
      by (simp only: crc_column.simps Let_def crc_table_step nth_Cons_Suc)
         (simp add: funpow_Suc_right del: funpow.simps)
  qed
qed

lemma crc_table8_nth:
  "k < 8 \<Longrightarrow> i < 256 \<Longrightarrow> crc_table8 ! k ! i = (crc_step8 ^^ Suc k) (of_nat i)"
  by (simp add: crc_table8_def del: funpow.simps)

lemma crc32_init_table_ok:
  "s_table (crc32_init_table st) = crc_table \<and> s_table_ready (crc32_init_table st) \<and>
   s_table8 (crc32_init_table st) = s_table8 st \<and>
   s_table8_ready (crc32_init_table st) = s_table8_ready st"
  by (simp add: crc32_init_table_def crc_table_def)

lemma crc32_init_table8_rows:
  assumes "s_table st = crc_table" and "s_table_ready st"
  shows "s_table8 (crc32_init_table8 st) = crc_table8"
proof -
  have row0: "map (\<lambda>n. crc_table ! n) [0..<256] = crc_table"
    by (rule nth_equalityI) (simp_all add: crc_table_def)
  have col: "(crc_table ! n # crc_column crc_table 7 (crc_table ! n)) ! k
      = (crc_step8 ^^ Suc k) (of_nat n)" if "n < 256" and "k < 8" for n k
  proof (cases k)
    case 0
    with that show ?thesis by (simp add: crc_table_nth)
  next
    case (Suc j)
    with that have "(crc_table ! n # crc_column crc_table 7 (crc_table ! n)) ! k
        = (crc_step8 ^^ Suc j) (crc_step8 (of_nat n))"
      by (simp only: nth_Cons_Suc crc_column_nth crc_table_nth)
    with Suc show ?thesis by (simp add: funpow_Suc_right del: funpow.simps)
  qed
  show ?thesis
    unfolding crc32_init_table8_def crc_table8_def
    by (rule nth_equalityI)
       (auto simp: assms row0 col Let_def simp del: funpow.simps intro!: nth_equalityI)
qed

lemma crc32_init_table8_fields:
  "s_table_ready st \<Longrightarrow> s_table (crc32_init_table8 st) = s_table st \<and>
     s_table_ready (crc32_init_table8 st) \<and> s_table8_ready (crc32_init_table8 st)"
  by (simp add: crc32_init_table8_def Let_def)

lemma crc_statics_init_ok: "crc_ok crc_statics_init"
  by (simp add: crc_ok_def crc_statics_init_def)

text \<open>After the lazy initialisation at the head of \<open>crc32_update\<close> both tables are the right ones.\<close>

lemma crc32_update_tables:
  assumes "crc_ok st"
  shows "fst (crc32_update crc data st) = crc_loop crc_table crc_table8 crc data"
    and "crc_ok (snd (crc32_update crc data st))"
proof -
  define st1 where "st1 = (if s_table_ready st then st else crc32_init_table st)"
  have 1: "s_table st1 = crc_table \<and> s_table_ready st1 \<and> crc_ok st1"
    using assms by (auto simp: st1_def crc_ok_def crc32_init_table_ok)
  define st2 where "st2 = (if s_table8_ready st1 then st1 else crc32_init_table8 st1)"
  have 2: "s_table st2 = crc_table \<and> s_table8 st2 = crc_table8"
    using 1 by (auto simp: st2_def crc_ok_def crc32_init_table8_fields crc32_init_table8_rows)
  have eq: "crc32_update crc data st = (crc_loop (s_table st2) (s_table8 st2) crc data, st2)"
    by (simp add: crc32_update_def Let_def flip: st1_def st2_def)
  show "fst (crc32_update crc data st) = crc_loop crc_table crc_table8 crc data"
    by (simp add: eq 2)
  show "crc_ok (snd (crc32_update crc data st))"
    using 2 by (simp add: eq crc_ok_def)
qed

subsection \<open>The eight-byte step is eight one-byte steps\<close>

abbreviation crc_at :: "nat \<Rightarrow> u8 \<Rightarrow> u32" where
  "crc_at k b \<equiv> push_bit k (ucast b)"

lemma crc_step_pow_xor: "(crc_step8 ^^ n) (a XOR b) = (crc_step8 ^^ n) a XOR (crc_step8 ^^ n) b"
  by (induction n) (simp_all only: funpow.simps id_apply o_apply crc_pow_xor)

lemma crc_step8_at: "k \<le> 16 \<Longrightarrow> crc_step8 (crc_at (k + 8) b) = crc_at k b"
proof -
  assume k: "k \<le> 16"
  have "crc_step8 (crc_at (k + 8) b) = drop_bit 8 (crc_at (k + 8) b)"
    by (rule crc_pow_shift) (simp add: bit_push_bit_iff)
  also have "\<dots> = crc_at k b"
    using k by (intro bit_word_eqI) (auto simp: bit_simps dest: bit_imp_le_length)
  finally show ?thesis .
qed

lemma crc_at_pow:
  "(crc_step8 ^^ 8) (crc_at 8 b) = (crc_step8 ^^ 7) (crc_at 0 b)"
  "(crc_step8 ^^ 8) (crc_at 16 b) = (crc_step8 ^^ 6) (crc_at 0 b)"
  "(crc_step8 ^^ 8) (crc_at 24 b) = (crc_step8 ^^ 5) (crc_at 0 b)"
  using crc_step8_at [of 0 b] crc_step8_at [of 8 b] crc_step8_at [of 16 b]
  by (simp_all only: numeral_nat funpow_Suc_right o_apply pred_numeral_simps) simp_all

lemma crc_register_bytes:
  "crc = crc_at 0 (ucast crc) XOR crc_at 8 (ucast (drop_bit 8 crc)) XOR
         crc_at 16 (ucast (drop_bit 16 crc)) XOR crc_at 24 (ucast (drop_bit 24 crc))" for crc :: u32
proof (rule bit_word_eqI)
  fix n assume "n < LENGTH(32)"
  then consider "n < 8" | "8 \<le> n" "n < 16" | "16 \<le> n" "n < 24" | "24 \<le> n" "n < 32"
    by fastforce
  then show "bit crc n = bit (crc_at 0 (ucast crc) XOR crc_at 8 (ucast (drop_bit 8 crc)) XOR
         crc_at 16 (ucast (drop_bit 16 crc)) XOR crc_at 24 (ucast (drop_bit 24 crc))) n"
    by cases (simp_all add: bit_simps less_diff_conv2)
qed

lemma crc_table8_byte:
  "k < 8 \<Longrightarrow> n = Suc k \<Longrightarrow> crc_table8 ! k ! unat (b :: u8) = (crc_step8 ^^ n) (crc_at 0 b)"
  using unat_u8_less [of b] by (simp add: crc_table8_nth del: funpow.simps)

lemma linear_chain8:
  fixes f :: "'a::len word \<Rightarrow> 'a word"
  assumes lin: "\<And>a b. f (a XOR b) = f a XOR f b"
  shows "foldl (\<lambda>c x. f (c XOR x)) c [x0, x1, x2, x3, x4, x5, x6, x7]
    = (f ^^ 8) c XOR (f ^^ 8) x0 XOR (f ^^ 7) x1 XOR (f ^^ 6) x2 XOR (f ^^ 5) x3
      XOR (f ^^ 4) x4 XOR (f ^^ 3) x5 XOR (f ^^ 2) x6 XOR (f ^^ 1) x7"
proof -
  have pows: "(f ^^ 1) x = f x" "(f ^^ 2) x = f (f x)" "(f ^^ 3) x = f (f (f x))"
    "(f ^^ 4) x = f (f (f (f x)))" "(f ^^ 5) x = f (f (f (f (f x))))"
    "(f ^^ 6) x = f (f (f (f (f (f x)))))" "(f ^^ 7) x = f (f (f (f (f (f (f x))))))" for x
    by (simp_all add: eval_nat_numeral)
  show ?thesis
    by (simp only: foldl.simps lin pows funpow_8 xor.assoc)
qed

lemma crc_slice_correct:
  "crc_slice crc_table8 crc [d0, d1, d2, d3, d4, d5, d6, d7]
   = crc_ref crc [d0, d1, d2, d3, d4, d5, d6, d7]"
proof -
  let ?S = "\<lambda>n b. (crc_step8 ^^ n) (crc_at 0 b)"
  let ?c0 = "ucast crc :: u8" and ?c1 = "ucast (drop_bit 8 crc) :: u8"
    and ?c2 = "ucast (drop_bit 16 crc) :: u8" and ?c3 = "ucast (drop_bit 24 crc) :: u8"
  have "(crc_step8 ^^ 8) crc = (crc_step8 ^^ 8) (crc_at 0 ?c0 XOR crc_at 8 ?c1 XOR
         crc_at 16 ?c2 XOR crc_at 24 ?c3)"
    by (subst crc_register_bytes [of crc]) (rule refl)
  also have "\<dots> = ?S 8 ?c0 XOR ?S 7 ?c1 XOR ?S 6 ?c2 XOR ?S 5 ?c3"
    by (simp only: crc_step_pow_xor crc_at_pow)
  finally have reg: "(crc_step8 ^^ 8) crc = ?S 8 ?c0 XOR ?S 7 ?c1 XOR ?S 6 ?c2 XOR ?S 5 ?c3" .
  have "crc_ref crc [d0, d1, d2, d3, d4, d5, d6, d7] = foldl (\<lambda>c x. crc_step8 (c XOR x)) crc
      [crc_at 0 d0, crc_at 0 d1, crc_at 0 d2, crc_at 0 d3, crc_at 0 d4, crc_at 0 d5,
       crc_at 0 d6, crc_at 0 d7]"
    by (simp only: crc_ref_def foldl.simps push_bit_0_id id_apply)
  also have "\<dots> = (crc_step8 ^^ 8) crc XOR ?S 8 d0 XOR ?S 7 d1 XOR ?S 6 d2 XOR ?S 5 d3
       XOR ?S 4 d4 XOR ?S 3 d5 XOR ?S 2 d6 XOR ?S 1 d7"
    by (rule linear_chain8) (rule crc_pow_xor)
  finally have unroll: "crc_ref crc [d0, d1, d2, d3, d4, d5, d6, d7] = \<dots>" .
  have at_xor: "crc_at 0 (a XOR b) = crc_at 0 a XOR crc_at 0 b" for a b
    by (simp add: unsigned_xor_eq)
  have rows: "crc_table8 ! 7 ! unat b = ?S 8 b" "crc_table8 ! 6 ! unat b = ?S 7 b"
    "crc_table8 ! 5 ! unat b = ?S 6 b" "crc_table8 ! 4 ! unat b = ?S 5 b"
    "crc_table8 ! 3 ! unat b = ?S 4 b" "crc_table8 ! 2 ! unat b = ?S 3 b"
    "crc_table8 ! 1 ! unat b = ?S 2 b" "crc_table8 ! 0 ! unat b = ?S 1 b" for b
    by (rule crc_table8_byte; simp)+
  have idx: "[d0, d1, d2, d3, d4, d5, d6, d7] ! 0 = d0" "[d0, d1, d2, d3, d4, d5, d6, d7] ! 1 = d1"
    "[d0, d1, d2, d3, d4, d5, d6, d7] ! 2 = d2" "[d0, d1, d2, d3, d4, d5, d6, d7] ! 3 = d3"
    "[d0, d1, d2, d3, d4, d5, d6, d7] ! 4 = d4" "[d0, d1, d2, d3, d4, d5, d6, d7] ! 5 = d5"
    "[d0, d1, d2, d3, d4, d5, d6, d7] ! 6 = d6" "[d0, d1, d2, d3, d4, d5, d6, d7] ! 7 = d7"
    by simp_all
  show ?thesis
    unfolding unroll reg crc_slice_def Let_def idx rows at_xor crc_step_pow_xor
    by (simp only: xor_ac)
qed

lemma crc_tail_ref: "crc_tail crc_table crc data = crc_ref crc data"
proof (induction data arbitrary: crc)
  case Nil
  then show ?case by (simp add: crc_ref_def)
next
  case (Cons d ds)
  have "drop_bit 8 (crc XOR ucast d) = drop_bit 8 crc"
    by (rule bit_word_eqI) (auto simp: bit_simps dest: bit_imp_le_length)
  then have "crc_byte crc_table crc d = crc_step8 (crc XOR ucast d)"
    using crc_table_step [of "crc XOR ucast d"] by (simp only: crc_byte_def)
  with Cons show ?case by (simp add: crc_ref_def del: funpow.simps)
qed

lemma crc_ref_append: "crc_ref crc (xs @ ys) = crc_ref (crc_ref crc xs) ys"
  by (simp add: crc_ref_def)

lemma crc_ref_Nil: "crc_ref crc [] = crc"
  by (simp add: crc_ref_def)

lemma crc_loop_ref: "crc_loop crc_table crc_table8 crc data = crc_ref crc data"
proof (induction crc_table crc_table8 crc data rule: crc_loop.induct)
  case (1 crc d0 d1 d2 d3 d4 d5 d6 d7 ds)
  then show ?case
    using crc_ref_append [of crc "[d0, d1, d2, d3, d4, d5, d6, d7]" ds]
    by (simp add: crc_slice_correct)
qed (simp_all only: crc_loop.simps crc_tail_ref)

text \<open>What the two entry points return, from any state the module can be in.\<close>

lemma crc32_update_ref: "crc_ok st \<Longrightarrow> fst (crc32_update crc data st) = crc_ref crc data"
  by (simp add: crc32_update_tables crc_loop_ref)

definition crc_feed :: "u32 \<times> crc_statics \<Rightarrow> u8 list \<Rightarrow> u32 \<times> crc_statics" where
  "crc_feed s data = crc32_update (fst s) data (snd s)"

interpretation crc: byte_sink "\<lambda>s. crc_ok (snd s)" crc_feed fst
  by unfold_locales
     (simp_all add: crc_feed_def crc32_update_tables crc_loop_ref crc_ref_append crc_ref_Nil)

subsection \<open>Properties\<close>

text \<open>C28. \<open>crc32_update\<close> (lazy tables, eight-byte slicing loop, byte tail) returns, for every
  running value and every buffer, what the bit-serial polynomial register computes, and leaves
  the module's tables valid for the next call.\<close>

theorem crc32_update_correct:
  assumes "crc_ok st"
  shows "fst (crc32_update crc data st) = crc_ref crc data \<and> crc_ok (snd (crc32_update crc data st))"
  using assms by (simp add: crc32_update_ref crc32_update_tables)

text \<open>The standard check value of the polynomial.\<close>

theorem crc32_update_correct_witness:
  "crc_ok crc_statics_init \<and>
   fst (crc32_compute [0x31, 0x32, 0x33, 0x34, 0x35, 0x36, 0x37, 0x38, 0x39] crc_statics_init)
     = 0xCBF43926"
proof -
  let ?msg = "[0x31, 0x32, 0x33, 0x34, 0x35, 0x36, 0x37, 0x38, 0x39] :: u8 list"
  have "fst (crc32_update 0xFFFFFFFF ?msg crc_statics_init) = crc_ref 0xFFFFFFFF ?msg"
    using crc32_update_correct [OF crc_statics_init_ok] by blast
  also have "\<dots> = 0x340BC6D9"
    by (simp add: crc_ref_def crc_bit_numeral funpow_8)
  finally show ?thesis
    by (simp add: crc32_compute_def crc_statics_init_ok split_beta)
qed

text \<open>Incremental use: folding any chunks through \<open>crc32_update\<close> from \<open>0xFFFFFFFF\<close> and
  inverting the result equals \<open>crc32_compute\<close> over their concatenation, as the header of the
  module promises, whatever tables have been built so far.\<close>

theorem crc32_chunked:
  assumes "crc_ok st"
  shows "fst (foldl crc_feed (0xFFFFFFFF, st) chunks) XOR 0xFFFFFFFF
    = fst (crc32_compute (concat chunks) st)"
  using crc.foldl_concat [of "(0xFFFFFFFF, st)" chunks] assms
  by (simp add: crc_feed_def crc32_compute_def split_beta)

theorem crc32_chunked_witness:
  "fst (foldl crc_feed (0xFFFFFFFF, crc_statics_init) [[1, 2, 3], [], [4, 5, 6, 7, 8, 9, 10]])
     XOR 0xFFFFFFFF
   = fst (crc32_compute [1, 2, 3, 4, 5, 6, 7, 8, 9, 10] crc_statics_init)"
  using crc32_chunked [OF crc_statics_init_ok, of "[[1, 2, 3], [], [4, 5, 6, 7, 8, 9, 10]]"]
  by simp

end
