(* ===== verification/Sha256.thy ===== *)
theory Sha256
  imports Prelude
begin

section \<open>SHA-256 (\<^verbatim>\<open>runtime/src/psx_sha256.c\<close>)\<close>

text \<open>
  The streaming context, the compression function \<open>block\<close> and the three entry points, with
  the buffer handled by offsets as the code does. The reference pads the whole message at once
  and folds \<open>block\<close> over its 64-byte blocks; the theorems show that any sequence of updates
  followed by \<open>psx_sha256_final\<close> computes it.
\<close>

text \<open>The round constants, a row of the source per list.\<close>

definition sha_K :: "u32 list" where
  "sha_K = concat [
    [0x428a2f98, 0x71374491, 0xb5c0fbcf, 0xe9b5dba5,
     0x3956c25b, 0x59f111f1, 0x923f82a4, 0xab1c5ed5],
    [0xd807aa98, 0x12835b01, 0x243185be, 0x550c7dc3,
     0x72be5d74, 0x80deb1fe, 0x9bdc06a7, 0xc19bf174],
    [0xe49b69c1, 0xefbe4786, 0x0fc19dc6, 0x240ca1cc,
     0x2de92c6f, 0x4a7484aa, 0x5cb0a9dc, 0x76f988da],
    [0x983e5152, 0xa831c66d, 0xb00327c8, 0xbf597fc7,
     0xc6e00bf3, 0xd5a79147, 0x06ca6351, 0x14292967],
    [0x27b70a85, 0x2e1b2138, 0x4d2c6dfc, 0x53380d13,
     0x650a7354, 0x766a0abb, 0x81c2c92e, 0x92722c85],
    [0xa2bfe8a1, 0xa81a664b, 0xc24b8b70, 0xc76c51a3,
     0xd192e819, 0xd6990624, 0xf40e3585, 0x106aa070],
    [0x19a4c116, 0x1e376c08, 0x2748774c, 0x34b0bcb5,
     0x391c0cb3, 0x4ed8aa4a, 0x5b9cca4f, 0x682e6ff3],
    [0x748f82ee, 0x78a5636f, 0x84c87814, 0x8cc70208,
     0x90befffa, 0xa4506ceb, 0xbef9a3f7, 0xc67178f2]]"

definition rotr32 :: "u32 \<Rightarrow> nat \<Rightarrow> u32" where
  "rotr32 x n = drop_bit n x OR push_bit (32 - n) x"

definition be32_of :: "u8 list \<Rightarrow> nat \<Rightarrow> u32" where
  "be32_of b i = push_bit 24 (ucast (b ! (4 * i))) OR push_bit 16 (ucast (b ! (4 * i + 1))) OR
     push_bit 8 (ucast (b ! (4 * i + 2))) OR ucast (b ! (4 * i + 3))"

text \<open>The loop \<open>for (i = 16; i < 64; i++)\<close> of the message schedule, appending \<open>w[i]\<close>.\<close>

fun sha_extend :: "nat \<Rightarrow> u32 list \<Rightarrow> u32 list" where
  "sha_extend 0 w = w"
| "sha_extend (Suc n) w =
     (let i = length w;
          s0 = rotr32 (w ! (i - 15)) 7 XOR rotr32 (w ! (i - 15)) 18 XOR drop_bit 3 (w ! (i - 15));
          s1 = rotr32 (w ! (i - 2)) 17 XOR rotr32 (w ! (i - 2)) 19 XOR drop_bit 10 (w ! (i - 2))
      in sha_extend n (w @ [w ! (i - 16) + s0 + w ! (i - 7) + s1]))"

type_synonym sha_regs = "u32 \<times> u32 \<times> u32 \<times> u32 \<times> u32 \<times> u32 \<times> u32 \<times> u32"

fun sha_round :: "sha_regs \<Rightarrow> u32 \<times> u32 \<Rightarrow> sha_regs" where
  "sha_round (a, c0, c, d, e, f, g, x) (k, w) =
     (let s1 = rotr32 e 6 XOR rotr32 e 11 XOR rotr32 e 25;
          t1 = x + s1 + ((e AND f) XOR (NOT e AND g)) + k + w;
          s0 = rotr32 a 2 XOR rotr32 a 13 XOR rotr32 a 22;
          t2 = s0 + ((a AND c0) XOR (a AND c) XOR (c0 AND c))
      in (t1 + t2, a, c0, c, d + t1, e, f, g))"

definition sha_block :: "u32 list \<Rightarrow> u8 list \<Rightarrow> u32 list" where
  "sha_block h b =
     (let w = sha_extend 48 (map (be32_of b) [0..<16]);
          (a, c0, c, d, e, f, g, x) = foldl sha_round
            (h ! 0, h ! 1, h ! 2, h ! 3, h ! 4, h ! 5, h ! 6, h ! 7) (zip sha_K w)
      in [h ! 0 + a, h ! 1 + c0, h ! 2 + c, h ! 3 + d, h ! 4 + e, h ! 5 + f, h ! 6 + g,
          h ! 7 + x])"

record sha_ctx =
  ctx_h :: "u32 list"
  ctx_total :: u64
  ctx_buffer :: "u8 list"
  ctx_buffered :: nat

definition sha_initial :: "u32 list" where
  "sha_initial = [0x6a09e667, 0xbb67ae85, 0x3c6ef372, 0xa54ff53a,
                  0x510e527f, 0x9b05688c, 0x1f83d9ab, 0x5be0cd19]"

text \<open>\<open>psx_sha256_init\<close> leaves the buffer bytes as they were on the stack.\<close>

definition psx_sha256_init :: "sha_ctx \<Rightarrow> sha_ctx" where
  "psx_sha256_init ctx = ctx\<lparr>ctx_h := sha_initial, ctx_total := 0, ctx_buffered := 0\<rparr>"

text \<open>\<open>memcpy(buf + at, src, n)\<close>.\<close>

definition copy_at :: "'a list \<Rightarrow> nat \<Rightarrow> 'a list \<Rightarrow> 'a list" where
  "copy_at buf at src = take at buf @ src @ drop (at + length src) buf"

text \<open>\<open>while (len >= 64)\<close>: the chaining value and the bytes not consumed.\<close>

function sha_blocks :: "u32 list \<Rightarrow> u8 list \<Rightarrow> u32 list \<times> u8 list" where
  "sha_blocks h data =
     (if length data \<ge> 64 then sha_blocks (sha_block h (take 64 data)) (drop 64 data)
      else (h, data))"
  by pat_completeness auto
termination
  by (relation "measure (\<lambda>(h, data). length data)") auto

declare sha_blocks.simps [simp del]

definition psx_sha256_update :: "sha_ctx \<Rightarrow> u8 list \<Rightarrow> sha_ctx" where
  "psx_sha256_update ctx0 data0 =
     (let ctx1 = ctx0\<lparr>ctx_total := ctx_total ctx0 + of_nat (length data0)\<rparr>;
          (ctx2, data2) =
            (if ctx_buffered ctx1 \<noteq> 0 then
               let n = min (64 - ctx_buffered ctx1) (length data0);
                   c = ctx1\<lparr>ctx_buffer := copy_at (ctx_buffer ctx1) (ctx_buffered ctx1) (take n data0),
                            ctx_buffered := ctx_buffered ctx1 + n\<rparr>
               in (if ctx_buffered c = 64
                   then c\<lparr>ctx_h := sha_block (ctx_h c) (ctx_buffer c), ctx_buffered := 0\<rparr> else c,
                   drop n data0)
             else (ctx1, data0));
          (h, rest) = sha_blocks (ctx_h ctx2) data2;
          ctx3 = ctx2\<lparr>ctx_h := h\<rparr>
      in if rest \<noteq> []
         then ctx3\<lparr>ctx_buffer := copy_at (ctx_buffer ctx3) 0 rest, ctx_buffered := length rest\<rparr>
         else ctx3)"

definition be64_bytes :: "u64 \<Rightarrow> u8 list" where
  "be64_bytes v = map (\<lambda>i. ucast (drop_bit (8 * (7 - i)) v)) [0..<8]"

definition be32_bytes :: "u32 \<Rightarrow> u8 list" where
  "be32_bytes v = [ucast (drop_bit 24 v), ucast (drop_bit 16 v), ucast (drop_bit 8 v), ucast v]"

definition psx_sha256_final :: "sha_ctx \<Rightarrow> u8 list \<times> sha_ctx" where
  "psx_sha256_final ctx =
     (let n = ctx_buffered ctx;
          total = (if n < 56 then 64 else 128);
          bits = ctx_total ctx * 8;
          tail = take n (ctx_buffer ctx) @ [0x80] @ replicate (total - n - 1 - 8) 0 @ be64_bytes bits;
          h1 = sha_block (ctx_h ctx) (take 64 tail);
          h2 = (if total = 128 then sha_block h1 (drop 64 tail) else h1)
      in (concat (map be32_bytes h2), ctx\<lparr>ctx_h := h2\<rparr>))"

definition psx_sha256_compute :: "sha_ctx \<Rightarrow> u8 list \<Rightarrow> u8 list" where
  "psx_sha256_compute stack data =
     fst (psx_sha256_final (psx_sha256_update (psx_sha256_init stack) data))"

subsection \<open>The one-shot reference\<close>

definition sha_pad :: "u8 list \<Rightarrow> u8 list" where
  "sha_pad msg =
     (let r = length msg mod 64;
          zeros = (if r < 56 then 55 - r else 119 - r)
      in msg @ [0x80] @ replicate zeros 0 @ be64_bytes (of_nat (length msg) * 8))"

definition sha_ref :: "u8 list \<Rightarrow> u8 list" where
  "sha_ref msg = concat (map be32_bytes (fst (sha_blocks sha_initial (sha_pad msg))))"

subsection \<open>What an update does to the context\<close>

definition sha_inv :: "sha_ctx \<Rightarrow> bool" where
  "sha_inv ctx \<longleftrightarrow> length (ctx_buffer ctx) = 64 \<and> ctx_buffered ctx < 64"

definition sha_pending :: "sha_ctx \<Rightarrow> u8 list" where
  "sha_pending ctx = take (ctx_buffered ctx) (ctx_buffer ctx)"

definition sha_view :: "sha_ctx \<Rightarrow> u32 list \<times> u64 \<times> u8 list" where
  "sha_view ctx = (ctx_h ctx, ctx_total ctx, sha_pending ctx)"

lemma sha_blocks_short: "length data < 64 \<Longrightarrow> sha_blocks h data = (h, data)"
  by (simp add: sha_blocks.simps)

lemma sha_blocks_long:
  "64 \<le> length data \<Longrightarrow> sha_blocks h data = sha_blocks (sha_block h (take 64 data)) (drop 64 data)"
  by (subst sha_blocks.simps) simp

lemma sha_blocks_rest: "length (snd (sha_blocks h data)) < 64"
proof (induction h data rule: sha_blocks.induct)
  case (1 h data)
  then show ?case
    by (cases "64 \<le> length data")
       (simp_all only: sha_blocks_long [of data h] sha_blocks_short not_le snd_conv)
qed

lemma sha_blocks_append:
  "sha_blocks h (m @ n) = sha_blocks (fst (sha_blocks h m)) (snd (sha_blocks h m) @ n)"
proof (induction h m rule: sha_blocks.induct)
  case (1 h m)
  show ?case
  proof (cases "64 \<le> length m")
    case True
    then have "sha_blocks h (m @ n) = sha_blocks (sha_block h (take 64 m)) (drop 64 m @ n)"
      by (subst sha_blocks_long) simp_all
    with True 1 show ?thesis by (simp only: sha_blocks_long [of m h])
  next
    case False
    then show ?thesis by (simp only: sha_blocks_short not_le fst_conv snd_conv)
  qed
qed

lemma copy_at_pending:
  "length buf = 64 \<Longrightarrow> at + length src \<le> 64 \<Longrightarrow>
     take (at + length src) (copy_at buf at src) = take at buf @ src \<and> length (copy_at buf at src) = 64"
  by (auto simp: copy_at_def)

text \<open>The tail of the routine, from the while loop on.\<close>

lemma sha_update_rest:
  assumes "length (ctx_buffer c) = 64" and "ctx_buffered c = 0"
    and "(h, rest) = sha_blocks (ctx_h c) d"
    and "c' = (if rest \<noteq> []
         then c\<lparr>ctx_h := h, ctx_buffer := copy_at (ctx_buffer c) 0 rest, ctx_buffered := length rest\<rparr>
         else c\<lparr>ctx_h := h\<rparr>)"
  shows "sha_inv c' \<and> sha_view c' = (h, ctx_total c, rest)"
proof -
  have "length rest < 64"
    using sha_blocks_rest [of "ctx_h c" d] by (simp flip: assms(3))
  then show ?thesis
    using assms copy_at_pending [of "ctx_buffer c" 0 rest]
    by (auto simp: sha_inv_def sha_view_def sha_pending_def)
qed

lemma sha_update_view:
  assumes inv: "sha_inv ctx"
  shows "sha_inv (psx_sha256_update ctx d) \<and>
    sha_view (psx_sha256_update ctx d) =
      (fst (sha_blocks (ctx_h ctx) (sha_pending ctx @ d)), ctx_total ctx + of_nat (length d),
       snd (sha_blocks (ctx_h ctx) (sha_pending ctx @ d)))"
proof -
  let ?b = "ctx_buffered ctx" and ?buf = "ctx_buffer ctx"
  define c1 where "c1 = ctx\<lparr>ctx_total := ctx_total ctx + of_nat (length d)\<rparr>"
  have len: "length ?buf = 64" "?b < 64" using inv by (auto simp: sha_inv_def)
  have split: "\<And>x. (fst x, snd x) = x" by simp
  consider (zero) "?b = 0" | (part) "?b \<noteq> 0" "?b + length d < 64" | (full) "?b \<noteq> 0" "64 \<le> ?b + length d"
    by linarith
  then show ?thesis
  proof cases
    case zero
    have "sha_inv (psx_sha256_update ctx d) \<and> sha_view (psx_sha256_update ctx d)
        = (fst (sha_blocks (ctx_h c1) d), ctx_total c1, snd (sha_blocks (ctx_h c1) d))"
      by (rule sha_update_rest [where c = c1, OF _ _ split])
         (simp_all add: c1_def len zero psx_sha256_update_def Let_def split_beta)
    with zero show ?thesis by (simp add: c1_def sha_pending_def)
  next
    case part
    have n: "min (64 - ?b) (length d) = length d" using part by simp
    have cp: "take (?b + length d) (copy_at ?buf ?b d) = take ?b ?buf @ d"
      "length (copy_at ?buf ?b d) = 64"
      using copy_at_pending [of ?buf ?b d] len part by simp_all
    have "psx_sha256_update ctx d =
        c1\<lparr>ctx_buffer := copy_at ?buf ?b d, ctx_buffered := ?b + length d\<rparr>"
      using part by (simp add: psx_sha256_update_def n Let_def c1_def sha_blocks_short)
    moreover have "sha_blocks (ctx_h ctx) (sha_pending ctx @ d) = (ctx_h ctx, sha_pending ctx @ d)"
      using part len by (intro sha_blocks_short) (simp add: sha_pending_def)
    ultimately show ?thesis
      using part by (simp add: sha_inv_def sha_view_def sha_pending_def c1_def cp)
  next
    case full
    let ?n = "64 - ?b"
    have n: "min (64 - ?b) (length d) = ?n" using full by simp
    have cp: "copy_at ?buf ?b (take ?n d) = take ?b ?buf @ take ?n d"
      using full len by (simp add: copy_at_def)
    let ?c = "c1\<lparr>ctx_buffer := take ?b ?buf @ take ?n d, ctx_buffered := 0,
                ctx_h := sha_block (ctx_h ctx) (take ?b ?buf @ take ?n d)\<rparr>"
    have "sha_inv (psx_sha256_update ctx d) \<and> sha_view (psx_sha256_update ctx d)
        = (fst (sha_blocks (ctx_h ?c) (drop ?n d)), ctx_total ?c, snd (sha_blocks (ctx_h ?c) (drop ?n d)))"
      by (rule sha_update_rest [where c = ?c, OF _ _ split])
         (use full len in \<open>simp_all add: c1_def psx_sha256_update_def n cp Let_def split_beta\<close>)
    moreover have "sha_blocks (ctx_h ctx) (sha_pending ctx @ d) = sha_blocks (ctx_h ?c) (drop ?n d)"
      using full len by (subst sha_blocks_long) (simp_all add: sha_pending_def)
    ultimately show ?thesis by (simp add: c1_def)
  qed
qed

interpretation sha: byte_sink sha_inv psx_sha256_update sha_view
proof unfold_locales
  fix s t bs cs
  assume s: "sha_inv s"
  note u = sha_update_view [OF s]
  show "sha_inv (psx_sha256_update s bs)" using u by blast
  show "sha_view (psx_sha256_update s []) = sha_view s"
    using u [of "[]"] s by (simp add: sha_view_def sha_blocks_short sha_inv_def sha_pending_def)
  have f: "ctx_h (psx_sha256_update s bs) = fst (sha_blocks (ctx_h s) (sha_pending s @ bs))"
    "ctx_total (psx_sha256_update s bs) = ctx_total s + of_nat (length bs)"
    "sha_pending (psx_sha256_update s bs) = snd (sha_blocks (ctx_h s) (sha_pending s @ bs))"
    using u [of bs] by (simp_all add: sha_view_def)
  have "sha_inv (psx_sha256_update s bs)" using u by blast
  from sha_update_view [OF this, of cs] u [of "bs @ cs"]
  show "sha_view (psx_sha256_update (psx_sha256_update s bs) cs) = sha_view (psx_sha256_update s (bs @ cs))"
    by (simp add: f sha_blocks_append [of _ "sha_pending s @ bs" cs, simplified])
  assume "sha_inv t" "sha_view s = sha_view t"
  then show "sha_view (psx_sha256_update s bs) = sha_view (psx_sha256_update t bs)"
    using u sha_update_view [of t bs] by (simp add: sha_view_def)
qed

subsection \<open>Finalisation is the padding rule\<close>

lemma sha_blocks_mod: "length (snd (sha_blocks h m)) = length m mod 64"
proof (induction h m rule: sha_blocks.induct)
  case (1 h m)
  show ?case
  proof (cases "64 \<le> length m")
    case True
    with 1 have "length (snd (sha_blocks h m)) = (length m - 64) mod 64"
      by (simp only: sha_blocks_long [of m h] length_drop)
    with True show ?thesis by (simp add: le_mod_geq)
  next
    case False
    then show ?thesis by (simp add: sha_blocks_short)
  qed
qed

lemma sha_blocks_one: "length d = 64 \<Longrightarrow> sha_blocks h d = (sha_block h d, [])"
  by (subst sha_blocks_long) (simp_all add: sha_blocks_short)

lemma sha_blocks_two:
  "length d = 128 \<Longrightarrow> sha_blocks h d = (sha_block (sha_block h (take 64 d)) (drop 64 d), [])"
  by (subst sha_blocks_long) (simp_all add: sha_blocks_one)

lemma length_be64_bytes: "length (be64_bytes v) = 8"
  by (simp add: be64_bytes_def)

text \<open>What the padding appends after the last whole block, given its remainder \<open>n\<close>.\<close>

definition sha_suffix :: "nat \<Rightarrow> u64 \<Rightarrow> u8 list" where
  "sha_suffix n bits = [0x80] @ replicate (if n < 56 then 55 - n else 119 - n) 0 @ be64_bytes bits"

lemma sha_pad_suffix:
  "sha_pad msg = msg @ sha_suffix (length msg mod 64) (of_nat (length msg) * 8)"
  by (simp add: sha_pad_def sha_suffix_def Let_def)

lemma sha_final_view:
  assumes "sha_inv ctx"
  shows "fst (psx_sha256_final ctx) =
    concat (map be32_bytes (fst (sha_blocks (ctx_h ctx)
      (sha_pending ctx @ sha_suffix (ctx_buffered ctx) (ctx_total ctx * 8)))))"
proof -
  let ?n = "ctx_buffered ctx"
  let ?tail = "sha_pending ctx @ sha_suffix ?n (ctx_total ctx * 8)"
  have n: "?n < 64" "length (sha_pending ctx) = ?n"
    using assms by (auto simp: sha_inv_def sha_pending_def)
  show ?thesis
  proof (cases "?n < 56")
    case True
    then have "length ?tail = 64" using n by (simp add: sha_suffix_def length_be64_bytes)
    then show ?thesis
      using True by (simp add: psx_sha256_final_def Let_def sha_blocks_one sha_suffix_def sha_pending_def)
  next
    case False
    then have "length ?tail = 128" using n by (simp add: sha_suffix_def length_be64_bytes)
    then show ?thesis
      using False by (simp add: psx_sha256_final_def Let_def sha_blocks_two sha_suffix_def sha_pending_def)
  qed
qed

lemma sha_init_inv:
  "length (ctx_buffer stack) = 64 \<Longrightarrow> sha_inv (psx_sha256_init stack)"
  by (simp add: psx_sha256_init_def sha_inv_def)

lemma sha_init_view: "sha_view (psx_sha256_init stack) = (sha_initial, 0, [])"
  by (simp add: psx_sha256_init_def sha_view_def sha_pending_def)

subsection \<open>Properties\<close>

text \<open>Streaming: initialising a context, absorbing any sequence of buffers with
  \<open>psx_sha256_update\<close> and finalising gives the digest of the concatenation, that is, the
  compression function folded over the padded message; the uninitialised buffer bytes do not
  matter.\<close>

theorem sha256_streaming:
  assumes "length (ctx_buffer stack) = 64"
  shows "fst (psx_sha256_final (foldl psx_sha256_update (psx_sha256_init stack) chunks))
    = sha_ref (concat chunks)"
proof -
  let ?s = "psx_sha256_init stack" and ?m = "concat chunks"
  let ?c = "foldl psx_sha256_update ?s chunks" and ?d = "psx_sha256_update ?s ?m"
  have inv: "sha_inv ?s" "sha_inv ?c" "sha_inv ?d"
    using sha_init_inv [OF assms] by (simp_all add: sha.ok_foldl sha.ok_upd)
  have init: "ctx_h ?s = sha_initial" "sha_pending ?s = []" "ctx_total ?s = 0"
    using sha_init_view [of stack] by (simp_all add: sha_view_def)
  have "sha_view ?c = (fst (sha_blocks sha_initial ?m), of_nat (length ?m), snd (sha_blocks sha_initial ?m))"
    using sha.foldl_concat [OF inv(1)] sha_update_view [OF inv(1), of ?m] by (simp add: init)
  moreover have "ctx_buffered ?c = length (sha_pending ?c)"
    using inv(2) by (simp add: sha_inv_def sha_pending_def)
  ultimately show ?thesis
    by (simp add: sha_final_view [OF inv(2)] sha_ref_def sha_pad_suffix sha_view_def
        sha_blocks_append [of _ ?m] sha_blocks_mod)
qed

theorem sha256_streaming_witness:
  "fst (psx_sha256_final (foldl psx_sha256_update
      (psx_sha256_init \<lparr>ctx_h = [], ctx_total = 7, ctx_buffer = replicate 64 0xAA, ctx_buffered = 3\<rparr>)
      [[0x61], [0x62, 0x63]]))
   = sha_ref [0x61, 0x62, 0x63]"
  using sha256_streaming [of "\<lparr>ctx_h = [], ctx_total = 7, ctx_buffer = replicate 64 0xAA,
      ctx_buffered = 3\<rparr>" "[[0x61], [0x62, 0x63]]"]
  by simp

end
