(* ===== verification/TraceRings.thy ===== *)
theory TraceRings
  imports Prelude
begin

section \<open>Diagnostic rings: device_trace.c and event_ring.c\<close>

text \<open>
  The two always-on timelines the devices write to: \<open>device_trace.c\<close> (one row per raise of an
  interrupt bit, recorded only when armed) and \<open>event_ring.c\<close> (one row per scheduling
  decision). A ring is its array as a function of the slot number plus its 64-bit sequence
  counter. The values read from the host process at record time (cycle, frame, program
  counter, execution mode) are arguments. The last section interprets the ring contract.
\<close>

subsection \<open>device_trace.c\<close>

record dev_event =
  de_seq :: u64
  de_cycle :: u64
  de_frame :: u32
  de_source :: u32
  de_detail :: u32

record dev_trace =
  dt_ring :: "nat \<Rightarrow> dev_event"
  dt_seq :: u64
  dt_armed :: u32

definition DEVTRACE_RING_CAP :: u64 where "DEVTRACE_RING_CAP = push_bit 20 1"

definition dev_event_zero :: dev_event where
  "dev_event_zero = \<lparr>de_seq = 0, de_cycle = 0, de_frame = 0, de_source = 0, de_detail = 0\<rparr>"

definition device_trace_arm :: "bool \<Rightarrow> dev_trace \<Rightarrow> dev_trace" where
  "device_trace_arm on d = d\<lparr>dt_armed := (if on then 1 else 0)\<rparr>"

definition device_trace_reset :: "dev_trace \<Rightarrow> dev_trace" where
  "device_trace_reset d = d\<lparr>dt_seq := 0, dt_ring := (\<lambda>_. dev_event_zero)\<rparr>"

definition device_trace_is_armed :: "dev_trace \<Rightarrow> u32" where
  "device_trace_is_armed d = dt_armed d"

definition device_trace_total :: "dev_trace \<Rightarrow> u64" where
  "device_trace_total d = dt_seq d"

definition device_trace_note :: "u64 \<Rightarrow> u32 \<Rightarrow> u32 \<Rightarrow> u32 \<Rightarrow> dev_trace \<Rightarrow> dev_trace" where
  "device_trace_note cycle frame source detail d =
     (if dt_armed d = 0 then d
      else d\<lparr>dt_ring := (dt_ring d)(unat (dt_seq d AND (DEVTRACE_RING_CAP - 1)) :=
               \<lparr>de_seq = dt_seq d, de_cycle = cycle, de_frame = frame,
                de_source = source, de_detail = detail\<rparr>),
             dt_seq := dt_seq d + 1\<rparr>)"

definition device_trace_get :: "u32 \<Rightarrow> dev_trace \<Rightarrow> dev_event list" where
  "device_trace_get max_rows d =
     (if max_rows = 0 then []
      else let total = dt_seq d;
               avail = (if total < DEVTRACE_RING_CAP then ucast total else ucast DEVTRACE_RING_CAP) :: u32;
               n = (if avail < max_rows then avail else max_rows);
               start = total - ucast n
           in map (\<lambda>i. dt_ring d (unat ((start + of_nat i) AND (DEVTRACE_RING_CAP - 1))))
                [0..<unat n])"

subsection \<open>event_ring.c\<close>

text \<open>The kinds and sources the modelled components record (event\_ring.h).\<close>

abbreviation EV_DMA_KICK :: u16 where "EV_DMA_KICK \<equiv> 5"
abbreviation EV_DMA_DONE :: u16 where "EV_DMA_DONE \<equiv> 6"
abbreviation EV_DMA_SCHED :: u16 where "EV_DMA_SCHED \<equiv> 8"
abbreviation EV_ENQ :: u16 where "EV_ENQ \<equiv> 9"
abbreviation EV_DEQ :: u16 where "EV_DEQ \<equiv> 10"
abbreviation SRC_DMA0 :: u8 where "SRC_DMA0 \<equiv> 1"
abbreviation SRC_TIMER0 :: u8 where "SRC_TIMER0 \<equiv> 24"

record event_entry =
  ee_seq :: u64
  ee_cycle :: u64
  ee_pc :: u32
  ee_func :: u32
  ee_overlay :: u32
  ee_i_stat :: u32
  ee_i_mask :: u32
  ee_aux :: u32
  ee_kind :: u16
  ee_mode :: u8
  ee_detail :: u8

text \<open>What the recorder reads from the rest of the process.\<close>

record ev_context =
  ec_cycle :: u64
  ec_pc :: u32
  ec_func :: u32
  ec_overlay :: u32
  ec_interp :: bool

record ev_ring =
  er_ring :: "nat \<Rightarrow> event_entry"
  er_seq :: u64

definition EVENT_RING_CAP :: u64 where "EVENT_RING_CAP = push_bit 16 1"

definition event_entry_zero :: event_entry where
  "event_entry_zero = \<lparr>ee_seq = 0, ee_cycle = 0, ee_pc = 0, ee_func = 0, ee_overlay = 0,
     ee_i_stat = 0, ee_i_mask = 0, ee_aux = 0, ee_kind = 0, ee_mode = 0, ee_detail = 0\<rparr>"

definition current_mode :: "ev_context \<Rightarrow> u8" where
  "current_mode c = (if ec_overlay c \<noteq> 0 then 2 else if ec_interp c then 3 else 1)"

definition event_ring_record_aux ::
  "ev_context \<Rightarrow> u32 \<Rightarrow> u32 \<Rightarrow> u16 \<Rightarrow> u8 \<Rightarrow> u32 \<Rightarrow> ev_ring \<Rightarrow> ev_ring" where
  "event_ring_record_aux c i_stat i_mask kind detail aux r =
     r\<lparr>er_ring := (er_ring r)(unat (er_seq r AND (EVENT_RING_CAP - 1)) :=
         \<lparr>ee_seq = er_seq r, ee_cycle = ec_cycle c, ee_pc = ec_pc c, ee_func = ec_func c,
          ee_overlay = ec_overlay c, ee_i_stat = i_stat, ee_i_mask = i_mask, ee_aux = aux,
          ee_kind = kind, ee_mode = current_mode c, ee_detail = detail\<rparr>),
       er_seq := er_seq r + 1\<rparr>"

definition event_ring_record :: "ev_context \<Rightarrow> u32 \<Rightarrow> u32 \<Rightarrow> u16 \<Rightarrow> u8 \<Rightarrow> ev_ring \<Rightarrow> ev_ring" where
  "event_ring_record c i_stat i_mask kind detail =
     event_ring_record_aux c i_stat i_mask kind detail 0"

definition event_ring_clear :: "ev_ring \<Rightarrow> ev_ring" where
  "event_ring_clear r = r\<lparr>er_seq := 0, er_ring := (\<lambda>_. event_entry_zero)\<rparr>"

text \<open>
  The rows the dump writes, oldest first; \<open>None\<close> is a failed open, and the row count the
  function returns is the length of the list. The text format of a row is not modelled.
\<close>

definition event_ring_dump_file :: "bool \<Rightarrow> ev_ring \<Rightarrow> event_entry list option" where
  "event_ring_dump_file opened r =
     (if \<not> opened then None
      else let total = er_seq r;
               start = (if total > EVENT_RING_CAP then total - EVENT_RING_CAP else 0)
           in Some (map (\<lambda>s. er_ring r (unat (of_nat s AND (EVENT_RING_CAP - 1))))
                [unat start..<unat total]))"

subsection \<open>Both rings keep the record-ring contract\<close>

lemma cap20: "unat ((x :: u64) AND (DEVTRACE_RING_CAP - 1)) = unat x mod 2 ^ 20"
proof -
  have "DEVTRACE_RING_CAP - 1 = mask 20"
    by (simp add: DEVTRACE_RING_CAP_def mask_eq_exp_minus_1)
  then show ?thesis by (simp only: unat_and_mask)
qed

lemma cap16: "unat ((x :: u64) AND (EVENT_RING_CAP - 1)) = unat x mod 2 ^ 16"
proof -
  have "EVENT_RING_CAP - 1 = mask 16"
    by (simp add: EVENT_RING_CAP_def mask_eq_exp_minus_1)
  then show ?thesis by (simp only: unat_and_mask)
qed

lemma unat_Suc_u64: "Suc (unat (x :: u64)) < 2 ^ 64 \<Longrightarrow> unat (x + 1) = Suc (unat x)"
  by (simp add: unat_word_ariths(1))

text \<open>
  One push of the device trace while it is armed; the sequence number is stamped by the
  recorder, so the element pushed is the row without it.
\<close>

definition dev_view :: "dev_event \<Rightarrow> u64 \<times> u32 \<times> u32 \<times> u32" where
  "dev_view e = (de_cycle e, de_frame e, de_source e, de_detail e)"

definition dev_push :: "u64 \<times> u32 \<times> u32 \<times> u32 \<Rightarrow> dev_trace \<Rightarrow> dev_trace" where
  "dev_push r d = (case r of (c, f, s, x) \<Rightarrow>
     device_trace_note c f s x (d\<lparr>dt_armed := 1\<rparr>))"

interpretation dev: record_ring "2 ^ 20" "2 ^ 64" "\<lambda>d. unat (dt_seq d)"
    "\<lambda>d i. dev_view (dt_ring d i)" id dev_push
  by unfold_locales
    (auto simp: dev_push_def device_trace_note_def dev_view_def unat_Suc_u64 cap20 split: prod.splits)

lemma dt_armed_note [simp]: "dt_armed (device_trace_note c f s x d) = dt_armed d"
  by (simp add: device_trace_note_def)

lemma dev_push_note:
  "dt_armed d = 1 \<Longrightarrow> dev_push (c, f, s, x) d = device_trace_note c f s x d"
  by (cases d) (simp add: dev_push_def)

lemma dev_push_armed: "dt_armed d = 1 \<Longrightarrow> dt_armed (dev_push r d) = 1"
  by (cases r) (simp add: dev_push_note)

lemma dev_notes_pushes:
  "dt_armed d = 1 \<Longrightarrow>
   foldl (\<lambda>t (c, f, s, x). device_trace_note c f s x t) d rs = foldl (\<lambda>t r. dev_push r t) d rs
   \<and> dt_armed (foldl (\<lambda>t r. dev_push r t) d rs) = 1"
proof (induction rs rule: rev_induct)
  case Nil
  then show ?case by simp
next
  case (snoc r rs)
  then show ?case
    by (cases r) (simp add: dev_push_note)
qed

lemma dev_cap_cast: "ucast DEVTRACE_RING_CAP = (0x100000 :: u32)" "unat DEVTRACE_RING_CAP = 0x100000"
  by (simp_all add: DEVTRACE_RING_CAP_def)

text \<open>
  What the device ring hands out: after a reset and any number of raises noted while the
  trace is armed, \<open>device_trace_get\<close> returns exactly the most recent raises, oldest first, the
  number asked for or as many as the ring still holds.
\<close>

theorem device_trace_get_recent:
  fixes d :: dev_trace and max_rows :: u32 and rs :: "(u64 \<times> u32 \<times> u32 \<times> u32) list"
  assumes "length rs < 2 ^ 64"
  defines "t \<equiv> foldl (\<lambda>t (c, f, s, x). device_trace_note c f s x t)
                 (device_trace_arm True (device_trace_reset d)) rs"
  defines "n \<equiv> min (unat max_rows) (min (length rs) (2 ^ 20))"
  shows "map dev_view (device_trace_get max_rows t) = drop (length rs - n) rs"
proof -
  let ?d = "device_trace_arm True (device_trace_reset d)"
  have armed: "dt_armed ?d = 1" and seq0: "dt_seq ?d = 0"
    by (simp_all add: device_trace_arm_def device_trace_reset_def)
  have t: "t = foldl (\<lambda>t r. dev_push r t) ?d rs"
    using dev_notes_pushes [OF armed, of rs] by (simp add: t_def)
  have len: "length rs < 18446744073709551616" using assms(1) by simp
  have seq: "unat (dt_seq t) = length rs"
    using dev.seq_pushes [of ?d rs] len seq0 by (simp add: t)
  have win: "dev_view (dt_ring t (k mod 2 ^ 20)) = rs ! k"
    if "k < length rs" "length rs \<le> k + 2 ^ 20" for k
    using dev.window [of ?d rs k] len seq0 that by (simp add: t)
  have seqw: "dt_seq t = of_nat (length rs)"
    by (simp add: flip: seq)
  show ?thesis
  proof (cases "max_rows = 0")
    case True
    then show ?thesis by (simp add: device_trace_get_def n_def)
  next
    case False
    define avail :: u32 where "avail = (if dt_seq t < DEVTRACE_RING_CAP then ucast (dt_seq t) else ucast DEVTRACE_RING_CAP)"
    have avail: "unat avail = min (length rs) (2 ^ 20)"
    proof (cases "dt_seq t < DEVTRACE_RING_CAP")
      case True
      then have "length rs < 0x100000" using seq dev_cap_cast(2) by (simp add: word_less_nat_alt)
      then show ?thesis using True seq by (simp add: avail_def unsigned_ucast_eq take_bit_nat_eq_self)
    next
      case False
      then have "0x100000 \<le> length rs" using seq dev_cap_cast(2) by (simp add: word_less_nat_alt)
      then show ?thesis using False by (simp add: avail_def dev_cap_cast)
    qed
    define nw where "nw = (if avail < max_rows then avail else max_rows)"
    have nw: "unat nw = n"
      using avail by (auto simp: nw_def n_def word_less_nat_alt)
    have n_le: "n \<le> length rs" "n \<le> 2 ^ 20" by (simp_all add: n_def)
    have un: "unat (ucast nw :: u64) = n" using nw n_le by (simp add: unsigned_ucast_eq take_bit_nat_eq_self)
    have "ucast nw = (of_nat (unat (ucast nw :: u64)) :: u64)" by simp
    then have unw: "ucast nw = (of_nat n :: u64)" by (simp only: un)
    have start: "unat (dt_seq t - ucast nw + of_nat i) = length rs - n + i" if "i < n" for i
    proof -
      have "dt_seq t - ucast nw + of_nat i = (of_nat (length rs - n + i) :: u64)"
        using n_le by (simp add: seqw unw of_nat_diff)
      then show ?thesis
        using that n_le len by (simp only: unsigned_of_nat) (simp add: take_bit_nat_eq_self)
    qed
    have row: "dev_view (dt_ring t (unat ((dt_seq t - ucast nw + of_nat i) AND (DEVTRACE_RING_CAP - 1))))
        = rs ! (length rs - n + i)" if "i < n" for i
      using win [of "length rs - n + i"] that n_le by (simp add: cap20 start)
    have "map dev_view (device_trace_get max_rows t)
        = map (\<lambda>i. rs ! (length rs - n + i)) [0..<n]"
      using False row unfolding device_trace_get_def Let_def avail_def [symmetric] nw_def [symmetric] nw
      by simp
    also have "\<dots> = drop (length rs - n) rs"
      using n_le by (intro nth_equalityI) (simp_all)
    finally show ?thesis .
  qed
qed

theorem device_trace_get_recent_witness:
  "map dev_view (device_trace_get 2
     (foldl (\<lambda>t (c, f, s, x). device_trace_note c f s x t)
       (device_trace_arm True (device_trace_reset
          \<lparr>dt_ring = \<lambda>_. dev_event_zero, dt_seq = 7, dt_armed = 0\<rparr>))
       [(10, 0, 4, 0), (20, 1, 5, 1), (30, 1, 6, 2)]))
   = [(20, 1, 5, 1), (30, 1, 6, 2)]"
  using device_trace_get_recent [where rs = "[(10, 0, 4, 0), (20, 1, 5, 1), (30, 1, 6, 2)]"
      and max_rows = 2 and d = "\<lparr>dt_ring = \<lambda>_. dev_event_zero, dt_seq = 7, dt_armed = 0\<rparr>"]
  by (simp add: min_def)

text \<open>One call of the event recorder: what its caller and the process supply, and its row.\<close>

type_synonym ev_call = "ev_context \<times> u32 \<times> u32 \<times> u16 \<times> u8 \<times> u32"

definition ev_push :: "ev_call \<Rightarrow> ev_ring \<Rightarrow> ev_ring" where
  "ev_push a r = (case a of (c, st, mk, k, x, aux) \<Rightarrow> event_ring_record_aux c st mk k x aux r)"

definition ev_view :: "event_entry \<Rightarrow> u64 \<times> u32 \<times> u32 \<times> u32 \<times> u16 \<times> u8 \<times> u8" where
  "ev_view e = (ee_cycle e, ee_i_stat e, ee_i_mask e, ee_aux e, ee_kind e, ee_mode e, ee_detail e)"

definition ev_row :: "ev_call \<Rightarrow> u64 \<times> u32 \<times> u32 \<times> u32 \<times> u16 \<times> u8 \<times> u8" where
  "ev_row a = (case a of (c, st, mk, k, x, aux) \<Rightarrow>
     (ec_cycle c, st, mk, aux, k, current_mode c, x))"

interpretation ev: record_ring "2 ^ 16" "2 ^ 64" "\<lambda>r. unat (er_seq r)"
    "\<lambda>r i. ev_view (er_ring r i)" ev_row ev_push
  by unfold_locales
    (auto simp: ev_push_def event_ring_record_aux_def ev_view_def ev_row_def unat_Suc_u64 cap16
       split: prod.splits)

text \<open>
  What the event timeline keeps: after a clear and any number of records, a dump holds
  exactly the most recent 65536 of them, oldest first, each with the cycle, the interrupt
  registers and the payload it was recorded with.
\<close>

theorem event_ring_dump_recent:
  assumes "length calls < 2 ^ 64"
  shows "map_option (map ev_view)
      (event_ring_dump_file True (foldl (\<lambda>t a. ev_push a t) (event_ring_clear r) calls))
    = Some (map ev_row (drop (length calls - 2 ^ 16) calls))"
proof -
  let ?c = "event_ring_clear r"
  define t where "t = foldl (\<lambda>t a. ev_push a t) ?c calls"
  define st where "st = (if er_seq t > EVENT_RING_CAP then er_seq t - EVENT_RING_CAP else 0)"
  have seq0: "er_seq ?c = 0" by (simp add: event_ring_clear_def)
  have len: "length calls < 18446744073709551616" using assms by simp
  have seq: "unat (er_seq t) = length calls"
    using ev.seq_pushes [of ?c calls] len seq0 by (simp add: t_def)
  have cap: "unat EVENT_RING_CAP = 65536" by (simp add: EVENT_RING_CAP_def)
  have st: "unat st = length calls - 2 ^ 16"
    using seq cap by (simp add: st_def word_less_nat_alt unat_sub word_le_nat_alt)
  have row: "ev_view (er_ring t (unat ((of_nat k :: u64) AND (EVENT_RING_CAP - 1)))) = ev_row (calls ! k)"
    if "k \<in> set [length calls - 2 ^ 16..<length calls]" for k
  proof -
    have "unat (of_nat k :: u64) = k"
      using that len by (simp only: unsigned_of_nat) (simp add: take_bit_nat_eq_self)
    moreover have "length calls \<le> k + 65536" using that by (auto simp: le_diff_conv)
    ultimately show ?thesis
      using ev.window [of ?c calls k] that len seq0 by (simp add: t_def cap16)
  qed
  have "map_option (map ev_view) (event_ring_dump_file True t)
      = Some (map (\<lambda>k. ev_row (calls ! k)) [length calls - 2 ^ 16..<length calls])"
    unfolding event_ring_dump_file_def Let_def st_def [symmetric] seq st
    using row by simp
  also have "map (\<lambda>k. ev_row (calls ! k)) [length calls - 2 ^ 16..<length calls]
      = map ev_row (drop (length calls - 2 ^ 16) calls)"
    by (intro nth_equalityI) (simp_all)
  finally show ?thesis by (simp add: t_def)
qed

definition ev_demo :: ev_call where
  "ev_demo = (\<lparr>ec_cycle = 99, ec_pc = 0, ec_func = 0, ec_overlay = 0, ec_interp = True\<rparr>,
     0x10, 0x1F, EV_DEQ, SRC_TIMER0, 7)"

theorem event_ring_dump_recent_witness:
  "map_option (map ev_view)
     (event_ring_dump_file True (foldl (\<lambda>t a. ev_push a t)
        (event_ring_clear \<lparr>er_ring = \<lambda>_. event_entry_zero, er_seq = 3\<rparr>) [ev_demo, ev_demo]))
   = Some [(99, 0x10, 0x1F, 7, 10, 3, 24), (99, 0x10, 0x1F, 7, 10, 3, 24)]"
  using event_ring_dump_recent [of "[ev_demo, ev_demo]"
      "\<lparr>er_ring = \<lambda>_. event_entry_zero, er_seq = 3\<rparr>"]
  by (simp add: ev_row_def ev_demo_def current_mode_def)

end
