(* ===== verification/Irq.thy ===== *)
theory Irq
  imports TraceRings
begin

section \<open>The interrupt controller: interrupts.c and the register writers of memory.c\<close>

text \<open>
  \<open>I_STAT\<close> and \<open>I_MASK\<close> (memory.c), the \<open>CAUSE\<close> cell that \<open>interrupts.c\<close> mirrors the
  interrupt line into (the target of \<open>s_cause_ptr\<close>, with a flag for the pointer being set),
  the two diagnostic rings every raise and every scheduling decision writes to, and the
  process values those rings stamp. The record is the shared state of the devices: the
  timers, the DMA controller and the interpreter carry one.
\<close>

record irq_env =
  i_stat :: u32
  i_mask :: u32
  cause :: u32
  cause_bound :: bool
  dtrace :: dev_trace
  evring :: ev_ring
  ctx :: ev_context
  frame_no :: u32
  vblank_acks :: u64

subsection \<open>CAUSE.IP2\<close>

definition psx_irq_refresh_cause_ip2 :: "irq_env \<Rightarrow> irq_env" where
  "psx_irq_refresh_cause_ip2 e =
     (if \<not> cause_bound e then e
      else if i_stat e AND i_mask e AND 0x7FF \<noteq> 0
      then e\<lparr>cause := cause e OR push_bit 10 1\<rparr>
      else e\<lparr>cause := cause e AND NOT (push_bit 10 1)\<rparr>)"

text \<open>Binding the pointer to a cell that holds \<open>c\<close>.\<close>

definition psx_irq_set_cause_ptr :: "u32 \<Rightarrow> irq_env \<Rightarrow> irq_env" where
  "psx_irq_set_cause_ptr c e = psx_irq_refresh_cause_ip2 (e\<lparr>cause := c, cause_bound := True\<rparr>)"

definition dev_note :: "u32 \<Rightarrow> u32 \<Rightarrow> irq_env \<Rightarrow> irq_env" where
  "dev_note src detail e =
     e\<lparr>dtrace := device_trace_note (ec_cycle (ctx e)) (frame_no e) src detail (dtrace e)\<rparr>"

definition psx_irq_raise :: "u32 \<Rightarrow> u32 \<Rightarrow> irq_env \<Rightarrow> irq_env" where
  "psx_irq_raise line detail e =
     dev_note line detail
       (psx_irq_refresh_cause_ip2 (e\<lparr>i_stat := i_stat e OR push_bit (unat line) 1\<rparr>))"

definition record_ev :: "u16 \<Rightarrow> u8 \<Rightarrow> u32 \<Rightarrow> irq_env \<Rightarrow> irq_env" where
  "record_ev kind detail aux e =
     e\<lparr>evring := event_ring_record_aux (ctx e) (i_stat e) (i_mask e) kind detail aux (evring e)\<rparr>"

subsection \<open>Writes to I\_STAT and I\_MASK\<close>

definition interrupt_write_stat_masked :: "u32 \<Rightarrow> u32 \<Rightarrow> irq_env \<Rightarrow> irq_env" where
  "interrupt_write_stat_masked val msk e =
     (let ack_mask = msk AND 0x7FF;
          before = i_stat e;
          e1 = e\<lparr>i_stat := (i_stat e AND NOT ack_mask) OR (i_stat e AND val AND ack_mask)\<rparr>;
          e2 = (if before AND 1 \<noteq> 0 \<and> i_stat e1 AND 1 = 0
                then e1\<lparr>vblank_acks := vblank_acks e1 + 1\<rparr> else e1)
      in psx_irq_refresh_cause_ip2 e2)"

text \<open>
  \<open>hold\<close> is the answer of \<open>sio_card_should_hold_imask_bit7\<close> and \<open>handoff\<close> what
  \<open>sio_card_handoff_on_imask\<close> does: both belong to the serial port (Sio),
  which is a parameter here.
  The ring of mask writes (\<open>imask_trace_record\<close>) is diagnostic only and is left out.
\<close>

definition interrupt_write_mask_masked ::
  "bool \<Rightarrow> (u32 \<Rightarrow> u32 \<Rightarrow> irq_env \<Rightarrow> irq_env) \<Rightarrow> u32 \<Rightarrow> u32 \<Rightarrow> irq_env \<Rightarrow> irq_env" where
  "interrupt_write_mask_masked hold handoff val msk e =
     (let old = i_mask e;
          next = ((i_mask e AND NOT msk) OR (val AND msk)) AND 0x7FF;
          held = old AND 0x80 \<noteq> 0 \<and> next AND 0x80 = 0 \<and> hold;
          next' = (if held then next OR 0x80 else next);
          e1 = (if held \<and> i_stat e AND 0x80 = 0 then e\<lparr>i_stat := i_stat e OR 0x80\<rparr> else e);
          e2 = e1\<lparr>i_mask := next'\<rparr>
      in psx_irq_refresh_cause_ip2 (handoff old next' e2))"

subsection \<open>The pending line\<close>

text \<open>The controller's output line, and the mirror the code keeps of it.\<close>

definition irq_pending :: "irq_env \<Rightarrow> bool" where
  "irq_pending e \<longleftrightarrow> i_stat e AND i_mask e AND 0x7FF \<noteq> 0"

definition ip2_mirrors :: "irq_env \<Rightarrow> bool" where
  "ip2_mirrors e \<longleftrightarrow> (cause_bound e \<longrightarrow> bit (cause e) 10 = irq_pending e)"

lemma refresh_fields [simp]:
  "i_stat (psx_irq_refresh_cause_ip2 e) = i_stat e"
  "i_mask (psx_irq_refresh_cause_ip2 e) = i_mask e"
  "cause_bound (psx_irq_refresh_cause_ip2 e) = cause_bound e"
  "dtrace (psx_irq_refresh_cause_ip2 e) = dtrace e"
  "evring (psx_irq_refresh_cause_ip2 e) = evring e"
  "ctx (psx_irq_refresh_cause_ip2 e) = ctx e"
  "frame_no (psx_irq_refresh_cause_ip2 e) = frame_no e"
  "vblank_acks (psx_irq_refresh_cause_ip2 e) = vblank_acks e"
  by (simp_all add: psx_irq_refresh_cause_ip2_def)

lemma dev_note_fields [simp]:
  "i_stat (dev_note b d e) = i_stat e" "i_mask (dev_note b d e) = i_mask e"
  "cause (dev_note b d e) = cause e" "cause_bound (dev_note b d e) = cause_bound e"
  "evring (dev_note b d e) = evring e" "ctx (dev_note b d e) = ctx e"
  "frame_no (dev_note b d e) = frame_no e" "vblank_acks (dev_note b d e) = vblank_acks e"
  by (simp_all add: dev_note_def)

lemma record_ev_fields [simp]:
  "i_stat (record_ev k d x e) = i_stat e" "i_mask (record_ev k d x e) = i_mask e"
  "cause (record_ev k d x e) = cause e" "cause_bound (record_ev k d x e) = cause_bound e"
  "dtrace (record_ev k d x e) = dtrace e" "ctx (record_ev k d x e) = ctx e"
  "frame_no (record_ev k d x e) = frame_no e" "vblank_acks (record_ev k d x e) = vblank_acks e"
  by (simp_all add: record_ev_def)

lemma raise_fields [simp]:
  "i_stat (psx_irq_raise b d e) = i_stat e OR push_bit (unat b) 1"
  "i_mask (psx_irq_raise b d e) = i_mask e"
  "cause_bound (psx_irq_raise b d e) = cause_bound e"
  "ctx (psx_irq_raise b d e) = ctx e"
  "frame_no (psx_irq_raise b d e) = frame_no e"
  "vblank_acks (psx_irq_raise b d e) = vblank_acks e"
  "evring (psx_irq_raise b d e) = evring e"
  by (simp_all add: psx_irq_raise_def)

lemma refresh_mirrors [inv_intros]: "ip2_mirrors (psx_irq_refresh_cause_ip2 e)"
  by (auto simp: ip2_mirrors_def irq_pending_def psx_irq_refresh_cause_ip2_def bit_simps)

lemma dev_note_mirrors [inv_intros]: "ip2_mirrors e \<Longrightarrow> ip2_mirrors (dev_note b d e)"
  by (simp add: ip2_mirrors_def irq_pending_def)

lemma record_ev_mirrors [inv_intros]: "ip2_mirrors e \<Longrightarrow> ip2_mirrors (record_ev k d x e)"
  by (simp add: ip2_mirrors_def irq_pending_def)

lemma raise_mirrors [inv_intros]: "ip2_mirrors (psx_irq_raise b d e)"
  by (simp add: psx_irq_raise_def inv_intros)

lemma write_stat_mirrors [inv_intros]: "ip2_mirrors (interrupt_write_stat_masked v k e)"
  by (simp add: interrupt_write_stat_masked_def Let_def inv_intros)

lemma write_mask_mirrors [inv_intros]: "ip2_mirrors (interrupt_write_mask_masked h f v k e)"
  by (simp add: interrupt_write_mask_masked_def Let_def inv_intros)

subsection \<open>The controller as a transition system\<close>

inductive irq_step :: "irq_env \<Rightarrow> irq_env \<Rightarrow> bool" where
  Raise: "irq_step e (psx_irq_raise b d e)"
| Ack: "irq_step e (interrupt_write_stat_masked v k e)"
| SetMask: "irq_step e (interrupt_write_mask_masked h (\<lambda>_ _. f) v k e)"
| Bind: "irq_step e (psx_irq_set_cause_ptr c e)"
| Record: "irq_step e (record_ev k d x e)"

inductive_cases irq_stepE: "irq_step e e'"

text \<open>
  C25. CAUSE.IP2 is a pure mirror of the interrupt line: from any state in which it is (such as
  one where no CAUSE cell has been bound yet), every sequence of raises, acknowledgements, mask
  writes, rebindings of the CAUSE cell and event records, whatever the serial port's handoff
  does, leads to a state in which bit 10 of the bound CAUSE is set exactly when an unmasked
  interrupt is pending.
\<close>

theorem cause_ip2_mirrors_line:
  assumes "irq_step\<^sup>*\<^sup>* e e'" "ip2_mirrors e"
  shows "ip2_mirrors e'"
  using assms
proof (induction rule: rtranclp_induct)
  case (step y z)
  from step.hyps(2) step.IH [OF step.prems] show ?case
    by cases (simp_all add: inv_intros psx_irq_set_cause_ptr_def)
qed

definition irq_power_on :: irq_env where
  "irq_power_on = \<lparr>i_stat = 0, i_mask = 0, cause = 0, cause_bound = False,
     dtrace = \<lparr>dt_ring = \<lambda>_. dev_event_zero, dt_seq = 0, dt_armed = 0\<rparr>,
     evring = \<lparr>er_ring = \<lambda>_. event_entry_zero, er_seq = 0\<rparr>,
     ctx = \<lparr>ec_cycle = 0, ec_pc = 0, ec_func = 0, ec_overlay = 0, ec_interp = False\<rparr>,
     frame_no = 0, vblank_acks = 0\<rparr>"

definition irq_demo :: irq_env where
  "irq_demo = psx_irq_raise 4 0
     (interrupt_write_mask_masked False (\<lambda>_ _ e. e) 0x10 0xFFFFFFFF
       (psx_irq_set_cause_ptr 0 irq_power_on))"

theorem cause_ip2_mirrors_line_witness: "ip2_mirrors irq_demo \<and> cause irq_demo = 0x400"
proof
  have "irq_step\<^sup>*\<^sup>* irq_power_on irq_demo"
    unfolding irq_demo_def
    by (rule rtranclp_trans [OF _ rtranclp_trans]) (rule r_into_rtranclp irq_step.intros)+
  then show "ip2_mirrors irq_demo"
    by (rule cause_ip2_mirrors_line) (simp add: ip2_mirrors_def irq_power_on_def)
  show "cause irq_demo = 0x400"
    by (simp add: irq_demo_def irq_power_on_def psx_irq_raise_def dev_note_def
      psx_irq_refresh_cause_ip2_def psx_irq_set_cause_ptr_def interrupt_write_mask_masked_def)
qed

end
