(* ===== verification/Timers.thy ===== *)
theory Timers
  imports Irq
begin

section \<open>Root counters: timers.c\<close>

text \<open>
  The three root counters. \<open>tms\<close> is the array \<open>timers\<close>, \<open>frac\<close> is \<open>timer_frac\<close> and \<open>fired\<close> is
  \<open>g_timer_irq_fired\<close>, as functions of the timer number; \<open>tenv\<close> is the interrupt state the
  counters raise into. Widths are those of the C declarations; \<open>irq_line\<close> is the 32-bit
  pattern of the \<open>int\<close>.
\<close>

record timer =
  counter :: u16
  tmode :: u32
  target :: u16
  irq_line :: u32

record timers =
  tms :: "nat \<Rightarrow> timer"
  frac :: "nat \<Rightarrow> u32"
  fired :: "nat \<Rightarrow> u64"
  tenv :: irq_env

abbreviation MODE_RESET_TARGET :: u32 where "MODE_RESET_TARGET \<equiv> 0x8"
abbreviation MODE_IRQ_TARGET :: u32 where "MODE_IRQ_TARGET \<equiv> 0x10"
abbreviation MODE_IRQ_OVERFLOW :: u32 where "MODE_IRQ_OVERFLOW \<equiv> 0x20"
abbreviation MODE_IRQ_REPEAT :: u32 where "MODE_IRQ_REPEAT \<equiv> 0x40"
abbreviation MODE_IRQ_TOGGLE :: u32 where "MODE_IRQ_TOGGLE \<equiv> 0x80"
abbreviation MODE_CLK_SRC1 :: u32 where "MODE_CLK_SRC1 \<equiv> 0x200"
abbreviation MODE_IRQ_REQUEST :: u32 where "MODE_IRQ_REQUEST \<equiv> 0x400"
abbreviation MODE_TARGET_FLAG :: u32 where "MODE_TARGET_FLAG \<equiv> 0x800"
abbreviation MODE_OVERFLOW_FLAG :: u32 where "MODE_OVERFLOW_FLAG \<equiv> 0x1000"

definition timer_irq :: "nat \<Rightarrow> u32" where
  "timer_irq t = [4, 5, 6] ! t"

text \<open>Update of one array element, and of the fields the code assigns.\<close>

definition upd_timer :: "nat \<Rightarrow> (timer \<Rightarrow> timer) \<Rightarrow> timers \<Rightarrow> timers" where
  "upd_timer t f s = s\<lparr>tms := (tms s)(t := f (tms s t))\<rparr>"

abbreviation set_counter :: "nat \<Rightarrow> u16 \<Rightarrow> timers \<Rightarrow> timers" where
  "set_counter t c \<equiv> upd_timer t (\<lambda>x. x\<lparr>counter := c\<rparr>)"

abbreviation or_mode :: "nat \<Rightarrow> u32 \<Rightarrow> timers \<Rightarrow> timers" where
  "or_mode t b \<equiv> upd_timer t (\<lambda>x. x\<lparr>tmode := tmode x OR b\<rparr>)"

abbreviation clear_mode :: "nat \<Rightarrow> u32 \<Rightarrow> timers \<Rightarrow> timers" where
  "clear_mode t b \<equiv> upd_timer t (\<lambda>x. x\<lparr>tmode := tmode x AND NOT b\<rparr>)"

abbreviation mode_has :: "nat \<Rightarrow> u32 \<Rightarrow> timers \<Rightarrow> bool" where
  "mode_has t b s \<equiv> tmode (tms s t) AND b \<noteq> 0"

subsection \<open>Reset, snapshot and debug views\<close>

definition timer_zero :: timer where
  "timer_zero = \<lparr>counter = 0, tmode = 0, target = 0, irq_line = 0\<rparr>"

definition timers_init :: "timers \<Rightarrow> timers" where
  "timers_init s = s\<lparr>tms := (\<lambda>_. timer_zero), frac := (\<lambda>_. 0)\<rparr>"

text \<open>The five arrays the snapshot functions copy out and in.\<close>

record timers_snapshot =
  sn_counter :: "u16 list"
  sn_mode :: "u32 list"
  sn_target :: "u16 list"
  sn_irq_line :: "u32 list"
  sn_frac :: "u32 list"

definition timers_get_snapshot :: "timers \<Rightarrow> timers_snapshot" where
  "timers_get_snapshot s =
     \<lparr>sn_counter = map (\<lambda>i. counter (tms s i)) [0..<3],
      sn_mode = map (\<lambda>i. tmode (tms s i)) [0..<3],
      sn_target = map (\<lambda>i. target (tms s i)) [0..<3],
      sn_irq_line = map (\<lambda>i. irq_line (tms s i)) [0..<3],
      sn_frac = map (\<lambda>i. frac s i) [0..<3]\<rparr>"

definition timers_set_snapshot :: "timers_snapshot \<Rightarrow> timers \<Rightarrow> timers" where
  "timers_set_snapshot n s =
     foldl (\<lambda>s i. s\<lparr>tms := (tms s)(i :=
                 \<lparr>counter = sn_counter n ! i, tmode = sn_mode n ! i,
                  target = sn_target n ! i, irq_line = sn_irq_line n ! i\<rparr>),
               frac := (frac s)(i := sn_frac n ! i)\<rparr>)
       s [0..<3]"

definition timers_get_debug :: "int \<Rightarrow> timers \<Rightarrow> (u16 \<times> u16 \<times> u32 \<times> u64) option" where
  "timers_get_debug t s =
     (if t < 0 \<or> t > 2 then None
      else let x = tms s (nat t) in Some (counter x, target x, tmode x, fired s (nat t)))"

subsection \<open>Counting\<close>

definition clk_src :: "nat \<Rightarrow> timers \<Rightarrow> u32" where
  "clk_src t s = drop_bit 8 (tmode (tms s t)) AND 3"

definition timer_uses_sysclk :: "nat \<Rightarrow> timers \<Rightarrow> bool" where
  "timer_uses_sysclk t s =
     (let src = clk_src t s
      in if t = 0 then src = 0 \<or> src = 2
         else if t = 1 then src = 0 \<or> src = 2
         else if t = 2 then src = 0 \<or> src = 1
         else True)"

definition raise_timer :: "nat \<Rightarrow> timers \<Rightarrow> timers" where
  "raise_timer t s = s\<lparr>tenv := psx_irq_raise (timer_irq t) (of_nat t) (tenv s)\<rparr>"

definition timer_fire_irq :: "nat \<Rightarrow> timers \<Rightarrow> timers" where
  "timer_fire_irq t s =
     (let s1 = s\<lparr>fired := (fired s)(t := fired s t + 1)\<rparr>;
          s2 = (if mode_has t MODE_IRQ_TOGGLE s1
                then let s' = upd_timer t (\<lambda>x. x\<lparr>irq_line := irq_line x XOR 1\<rparr>) s1
                     in if irq_line (tms s' t) \<noteq> 0
                        then raise_timer t (clear_mode t MODE_IRQ_REQUEST s')
                        else or_mode t MODE_IRQ_REQUEST s'
                else or_mode t MODE_IRQ_REQUEST
                       (raise_timer t (clear_mode t MODE_IRQ_REQUEST s1)));
          s3 = (if \<not> mode_has t MODE_IRQ_REPEAT s2
                then clear_mode t (MODE_IRQ_TARGET OR MODE_IRQ_OVERFLOW) s2 else s2)
      in s3\<lparr>tenv := record_ev EV_DEQ (SRC_TIMER0 + of_nat t)
              (ucast (counter (tms s3 t))) (tenv s3)\<rparr>)"

text \<open>The two flag-and-fire blocks that the tick and the bulk advance share.\<close>

definition timer_at_target :: "nat \<Rightarrow> timers \<Rightarrow> timers" where
  "timer_at_target t s =
     (let s1 = or_mode t MODE_TARGET_FLAG s;
          s2 = (if mode_has t MODE_IRQ_TARGET s1 then timer_fire_irq t s1 else s1)
      in if mode_has t MODE_RESET_TARGET s2 then set_counter t 0 s2 else s2)"

definition timer_at_overflow :: "nat \<Rightarrow> timers \<Rightarrow> timers" where
  "timer_at_overflow t s =
     (let s1 = or_mode t MODE_OVERFLOW_FLAG s
      in if mode_has t MODE_IRQ_OVERFLOW s1 then timer_fire_irq t s1 else s1)"

definition timer_tick_one :: "nat \<Rightarrow> timers \<Rightarrow> timers" where
  "timer_tick_one t s =
     (let old = counter (tms s t);
          s1 = set_counter t (old + 1) s;
          s2 = (if counter (tms s1 t) = target (tms s1 t) then timer_at_target t s1 else s1)
      in if old = 0xFFFF then timer_at_overflow t s2 else s2)"

definition target_dist :: "timer \<Rightarrow> u32" where
  "target_dist x =
     (let d = (ucast (target x) - ucast (counter x)) AND 0xFFFF
      in if d = 0 then 0x10000 else d)"

definition overflow_dist :: "timer \<Rightarrow> u32" where
  "overflow_dist x = 0x10000 - ucast (counter x)"

definition advance_step :: "timer \<Rightarrow> u32 \<Rightarrow> u32" where
  "advance_step x ticks =
     (let step = ticks;
          step = (if step > target_dist x then target_dist x else step);
          step = (if step > overflow_dist x then overflow_dist x else step)
      in if step = 0 then 1 else step)"

definition advance_body :: "nat \<Rightarrow> u32 \<Rightarrow> timers \<Rightarrow> timers" where
  "advance_body t step s =
     (let x = tms s t;
          old = counter x;
          s1 = set_counter t (ucast (ucast old + step)) s;
          s2 = (if step = target_dist x then timer_at_target t s1 else s1)
      in if ucast old + step > 0xFFFF \<or> step = overflow_dist x
         then timer_at_overflow t s2 else s2)"

lemma advance_step_bounds: "ticks \<noteq> 0 \<Longrightarrow> 0 < advance_step x ticks \<and> advance_step x ticks \<le> ticks"
  by (simp add: advance_step_def Let_def word_less_nat_alt word_le_nat_alt unat_eq_0 [symmetric]
      split: if_splits)

function timer_advance_counts :: "nat \<Rightarrow> u32 \<Rightarrow> timers \<Rightarrow> timers" where
  "timer_advance_counts t ticks s =
     (if ticks = 0 then s
      else let step = advance_step (tms s t) ticks
           in timer_advance_counts t (ticks - step) (advance_body t step s))"
  by pat_completeness auto
termination
proof (relation "measure (\<lambda>(t, ticks, s). unat ticks)")
  fix t :: nat and ticks step :: u32 and s :: timers
  assume "ticks \<noteq> 0" "step = advance_step (tms s t) ticks"
  with advance_step_bounds [of ticks "tms s t"]
  show "((t, ticks - step, advance_body t step s), t, ticks, s)
      \<in> measure (\<lambda>(t, ticks, s). unat ticks)"
    by (simp add: unat_sub word_less_nat_alt word_le_nat_alt)
qed simp

declare timer_advance_counts.simps [simp del]

definition timer_advance_divided :: "nat \<Rightarrow> u32 \<Rightarrow> u32 \<Rightarrow> timers \<Rightarrow> timers" where
  "timer_advance_divided t cycles divisor s =
     (let divisor = (if divisor = 0 then 1 else divisor);
          total = frac s t + cycles;
          ticks = total div divisor;
          s1 = s\<lparr>frac := (frac s)(t := total mod divisor)\<rparr>
      in if ticks \<noteq> 0 then timer_advance_counts t ticks s1 else s1)"

definition timers_advance_at :: "u32 \<Rightarrow> nat \<Rightarrow> timers \<Rightarrow> timers" where
  "timers_advance_at cycles t s =
     (let src = clk_src t s
      in if t = 2 \<and> (src = 2 \<or> src = 3) then timer_advance_divided t cycles 8 s
         else if timer_uses_sysclk t s then timer_advance_counts t cycles s
         else if t = 1 then timer_advance_divided t cycles 2146 s
         else if t = 0 then timer_advance_divided t cycles 5 s
         else s)"

definition timers_advance :: "u32 \<Rightarrow> timers \<Rightarrow> timers" where
  "timers_advance cycles s =
     (if cycles = 0 then s
      else foldl (\<lambda>s t. timers_advance_at cycles t s) s [0..<3])"

subsection \<open>The event horizon\<close>

definition timer_divisor :: "nat \<Rightarrow> timers \<Rightarrow> u32" where
  "timer_divisor t s =
     (let src = clk_src t s
      in if t = 2 \<and> (src = 2 \<or> src = 3) then 8
         else if timer_uses_sysclk t s then 1
         else if t = 1 then 2146
         else if t = 0 then 5
         else 1)"

definition ticks_to_irq :: "timer \<Rightarrow> u32" where
  "ticks_to_irq x =
     (let ticks = 0xFFFFFFFF;
          ticks = (if tmode x AND MODE_IRQ_TARGET \<noteq> 0 \<and> target_dist x < ticks
                   then target_dist x else ticks)
      in if tmode x AND MODE_IRQ_OVERFLOW \<noteq> 0 \<and> overflow_dist x < ticks
         then overflow_dist x else ticks)"

definition cycles_to_irq_at :: "u32 \<Rightarrow> timers \<Rightarrow> u32 \<Rightarrow> nat \<Rightarrow> u32" where
  "cycles_to_irq_at msk s best t =
     (let x = tms s t in
      if msk AND push_bit (unat (timer_irq t)) 1 = 0 then best
      else if tmode x AND MODE_IRQ_TARGET = 0 \<and> tmode x AND MODE_IRQ_OVERFLOW = 0 then best
      else let ticks = ticks_to_irq x in
      if ticks = 0xFFFFFFFF then best
      else let cyc = ucast ticks * ucast (timer_divisor t s) :: u64;
               cyc = (if cyc > ucast (frac s t) then cyc - ucast (frac s t) else 0);
               cyc = (if cyc > 0xFFFFFFFF then 0xFFFFFFFF else cyc)
           in if ucast cyc < best then ucast cyc else best)"

definition timers_cycles_to_irq :: "u32 \<Rightarrow> timers \<Rightarrow> u32" where
  "timers_cycles_to_irq msk s = foldl (cycles_to_irq_at msk s) 0xFFFFFFFF [0..<3]"

subsection \<open>Register access\<close>

text \<open>
  \<open>block_cycles\<close> is the build switch \<open>PSX_ENABLE_BLOCK_CYCLES\<close>. The timer number is a C
  \<open>int\<close> computed from an unsigned shift, so it is never negative.
\<close>

abbreviation TIMER_BASE :: u32 where "TIMER_BASE \<equiv> 0x1F801100"

definition timer_of :: "u32 \<Rightarrow> nat" where
  "timer_of addr = unat (drop_bit 4 (addr - TIMER_BASE))"

definition timer_reg :: "u32 \<Rightarrow> u32" where
  "timer_reg addr = (addr - TIMER_BASE) AND 0x0F"

definition read_counter :: "bool \<Rightarrow> nat \<Rightarrow> timers \<Rightarrow> u32 \<times> timers" where
  "read_counter block_cycles n s =
     (let s' = (if block_cycles then s
                else let inc = (if n = 2 \<and> mode_has n MODE_CLK_SRC1 s then 1 else 8);
                         old = counter (tms s n);
                         s1 = set_counter n (old + inc) s
                     in if target (tms s1 n) \<noteq> 0 \<and> old < target (tms s1 n)
                           \<and> counter (tms s1 n) \<ge> target (tms s1 n)
                        then let s2 = or_mode n MODE_TARGET_FLAG s1
                             in if mode_has n MODE_RESET_TARGET s2 then set_counter n 0 s2 else s2
                        else s1)
      in (ucast (counter (tms s' n)), s'))"

definition timers_read :: "bool \<Rightarrow> u32 \<Rightarrow> timers \<Rightarrow> u32 \<times> timers" where
  "timers_read block_cycles addr s =
     (let n = timer_of addr; reg = timer_reg addr in
      if n > 2 then (0, s)
      else if reg = 0 then read_counter block_cycles n s
      else if reg = 4
      then (tmode (tms s n), clear_mode n (MODE_TARGET_FLAG OR MODE_OVERFLOW_FLAG) s)
      else if reg = 8 then (ucast (target (tms s n)), s)
      else (0, s))"

definition timers_write :: "u32 \<Rightarrow> u32 \<Rightarrow> timers \<Rightarrow> timers" where
  "timers_write addr value s =
     (let n = timer_of addr; reg = timer_reg addr in
      if n > 2 then s
      else if reg = 0 then set_counter n (ucast (value AND 0xFFFF)) s
      else if reg = 4
      then let s1 = upd_timer n (\<lambda>x. x\<lparr>tmode := (value AND 0x3FF) OR MODE_IRQ_REQUEST,
                                        counter := 0, irq_line := 0\<rparr>) s;
               s2 = s1\<lparr>frac := (frac s1)(n := 0)\<rparr>
           in s2\<lparr>tenv := record_ev EV_ENQ (SRC_TIMER0 + of_nat n)
                   (ucast (target (tms s2 n))) (tenv s2)\<rparr>
      else if reg = 8 then upd_timer n (\<lambda>x. x\<lparr>target := ucast (value AND 0xFFFF)\<rparr>) s
      else s)"

subsection \<open>The legacy per-frame tick\<close>

text \<open>\<open>cycles\<close> is a C \<open>int\<close>; a loop up to a negative bound runs no iteration.\<close>

definition timers_tick_at :: "int \<Rightarrow> timers \<Rightarrow> nat \<Rightarrow> timers" where
  "timers_tick_at cycles s t =
     (if timer_uses_sysclk t s then (timer_tick_one t ^^ nat cycles) s
      else if t = 2 then (timer_tick_one t ^^ nat (cycles sdiv 8)) s
      else s)"

definition timers_tick :: "int \<Rightarrow> timers \<Rightarrow> timers" where
  "timers_tick cycles s =
     (let s1 = (if \<not> timer_uses_sysclk 1 s then (timer_tick_one 1 ^^ 263) s else s)
      in foldl (timers_tick_at cycles) s1 [0..<3])"

subsection \<open>The bulk advance is the tick, iterated\<close>

lemma counter_bound: "unat (counter x) < 65536" "unat (target x) < 65536"
  using unsigned_less [of "counter x"] unsigned_less [of "target x"] by simp_all

lemma unat_overflow_dist: "unat (overflow_dist x) = 65536 - unat (counter x)"
proof -
  have "ucast (counter x) \<le> (0x10000 :: u32)"
    using counter_bound(1) [of x] by (simp add: word_le_nat_alt unsigned_ucast_eq take_bit_nat_eq_self)
  then show ?thesis
    using counter_bound(1) [of x]
    by (simp add: overflow_dist_def unat_sub unsigned_ucast_eq take_bit_nat_eq_self)
qed

lemma nat_mod_diff16:
  assumes "c < 65536" "g < 65536"
  shows "(if c \<le> g then g - c else g + 4294967296 - c) mod 65536 = (g + 65536 - c) mod (65536 :: nat)"
proof (cases "c \<le> g")
  case True
  then have eq: "g + 65536 - c = (g - c) + 65536" by simp
  show ?thesis using True by (simp only: if_True eq mod_add_self2)
next
  case False
  from assms have eq: "g + 4294967296 - c = (g + 65536 - c) + 65535 * 65536" by simp
  show ?thesis using False by (simp only: if_False eq mod_mult_self1)
qed

lemma unat_target_dist:
  "unat (target_dist x) =
     (let d = (unat (target x) + 65536 - unat (counter x)) mod 65536 in if d = 0 then 65536 else d)"
proof -
  let ?c = "ucast (counter x) :: u32" and ?g = "ucast (target x) :: u32"
  have m: "(0xFFFF :: u32) = mask 16" by (simp add: mask_eq_exp_minus_1)
  have u: "unat ?c = unat (counter x)" "unat ?g = unat (target x)"
    using counter_bound [of x] by (simp_all add: unsigned_ucast_eq take_bit_nat_eq_self)
  have "unat (?g - ?c) = (if unat ?c \<le> unat ?g then unat ?g - unat ?c else unat ?g + 4294967296 - unat ?c)"
    by (simp add: unat_sub_if')
  then have "unat ((?g - ?c) AND 0xFFFF) = (unat (target x) + 65536 - unat (counter x)) mod 65536"
    using nat_mod_diff16 [OF counter_bound [of x]] by (simp only: m unat_and_mask u) simp
  then show ?thesis
    by (simp add: target_dist_def Let_def unat_eq_0 [symmetric] del: unat_eq_0)
qed

text \<open>The counter after \<open>m\<close> increments, and when it meets the target.\<close>

lemma unat_counter_add: "unat (counter x + of_nat m) = (unat (counter x) + m) mod 65536"
  by (simp add: unat_word_ariths(1) unsigned_of_nat take_bit_eq_mod mod_add_right_eq)

lemma meets_target:
  assumes "0 < m" "m \<le> unat (target_dist x)"
  shows "counter x + of_nat m = target x \<longleftrightarrow> m = unat (target_dist x)"
proof -
  define c g where "c = unat (counter x)" and "g = unat (target x)"
  have b: "c < 65536" "g < 65536" using counter_bound [of x] by (simp_all add: c_def g_def)
  have td: "unat (target_dist x) = (if c < g then g - c else g + 65536 - c)"
  proof (cases "c < g")
    case True
    then have "g + 65536 - c = (g - c) + 65536" by simp
    then have "(g + 65536 - c) mod 65536 = (g - c) mod 65536" by (simp only: mod_add_self2)
    with b have "(g + 65536 - c) mod 65536 = g - c" by simp
    with True show ?thesis by (simp only: unat_target_dist Let_def flip: c_def g_def) simp
  next
    case False
    with b show ?thesis
      by (cases "c = g") (simp_all add: unat_target_dist flip: c_def g_def)
  qed
  have "counter x + of_nat m = target x \<longleftrightarrow> (c + m) mod 65536 = g"
    by (simp add: word_unat_eq_iff unat_counter_add c_def g_def)
  also have "\<dots> \<longleftrightarrow> m = unat (target_dist x)"
  proof (cases "c + m < 65536")
    case True
    with assms td b show ?thesis by (auto split: if_splits)
  next
    case False
    moreover have "c + m < 131072" using assms td b by (auto split: if_splits)
    ultimately have "(c + m) mod 65536 = c + m - 65536" by (simp add: le_mod_geq)
    with assms td b False show ?thesis by (auto split: if_splits)
  qed
  finally show ?thesis .
qed

lemma upd_timer_sel [simp]:
  "tms (upd_timer t f s) = (tms s)(t := f (tms s t))"
  "frac (upd_timer t f s) = frac s" "fired (upd_timer t f s) = fired s"
  "tenv (upd_timer t f s) = tenv s"
  by (simp_all add: upd_timer_def)

lemma upd_timer_twice: "upd_timer t f (upd_timer t g s) = upd_timer t (\<lambda>x. f (g x)) s"
  by (simp add: upd_timer_def)

lemma set_counter_idle: "set_counter t (counter (tms s t)) s = s"
  by (simp add: upd_timer_def)

lemma target_dist_counter:
  "target_dist (x\<lparr>counter := c\<rparr>) = target_dist (timer.make c (tmode x) (target x) (irq_line x))"
  by (simp add: target_dist_def timer.defs)

lemma tick_quiet:
  assumes "Suc m < unat (target_dist (tms s t))" "Suc m < unat (overflow_dist (tms s t))"
  shows "timer_tick_one t (set_counter t (counter (tms s t) + of_nat m) s)
       = set_counter t (counter (tms s t) + of_nat (Suc m)) s"
proof -
  let ?x = "tms s t"
  have "unat (counter ?x + of_nat m) = unat (counter ?x) + m"
    using assms(2) by (simp add: unat_counter_add unat_overflow_dist)
  then have "counter ?x + of_nat m \<noteq> 0xFFFF"
    using assms(2) by (auto simp: unat_overflow_dist)
  moreover have "counter ?x + of_nat m + 1 \<noteq> target ?x"
    using meets_target [of "Suc m" ?x] assms(1) by (simp add: add.assoc add.commute [of 1])
  ultimately show ?thesis
    by (simp add: timer_tick_one_def Let_def upd_timer_twice add.assoc add.commute [of 1])
qed

lemma ticks_quiet:
  "m < unat (target_dist (tms s t)) \<Longrightarrow> m < unat (overflow_dist (tms s t)) \<Longrightarrow>
   (timer_tick_one t ^^ m) s = set_counter t (counter (tms s t) + of_nat m) s"
proof (induction m)
  case 0
  then show ?case by (simp add: set_counter_idle)
next
  case (Suc m)
  then show ?case using tick_quiet [of m s t] by simp
qed

lemma ucast_add_32_16: "(ucast (ucast (a :: u16) + (b :: u32)) :: u16) = a + ucast b"
proof -
  have "(x + y mod 4294967296) mod 65536 = (x + y) mod (65536 :: int)" for x y
    using mod_add_right_eq [of x "y mod 4294967296" 65536] mod_mod_cancel [of 65536 4294967296 y]
    by (simp add: mod_simps)
  then show ?thesis
    by transfer (simp add: take_bit_eq_mod mod_simps mod_mod_cancel)
qed

lemma ucast_of_nat_32_16: "(ucast (of_nat n :: u32) :: u16) = of_nat n"
  by transfer (simp add: take_bit_eq_mod mod_mod_cancel)

lemma advance_body_ticks:
  assumes "0 < step" "step \<le> target_dist (tms s t)" "step \<le> overflow_dist (tms s t)"
  shows "advance_body t step s = (timer_tick_one t ^^ unat step) s"
proof -
  let ?x = "tms s t"
  define m where "m = unat step - 1"
  have sm: "unat step = Suc m" using assms(1) by (simp add: m_def word_less_nat_alt)
  have lt: "m < unat (target_dist ?x)" "m < unat (overflow_dist ?x)"
    using assms(2,3) sm by (simp_all add: word_le_nat_alt)
  have sw: "step = of_nat (Suc m)" by (simp only: sm [symmetric]) simp
  have c: "(ucast (ucast (counter ?x) + step) :: u16) = counter ?x + of_nat (Suc m)"
    by (simp add: sw ucast_add_32_16 ucast_of_nat_32_16 del: of_nat_Suc)
  have tgt: "counter ?x + of_nat m + 1 = target ?x \<longleftrightarrow> step = target_dist ?x"
    using meets_target [of "Suc m" ?x] lt sm
    by (simp add: add.assoc add.commute [of 1] word_unat_eq_iff)
  have ov: "counter ?x + of_nat m = 0xFFFF \<longleftrightarrow> step = overflow_dist ?x"
    using lt(2) sm
    by (auto simp: word_unat_eq_iff unat_counter_add unat_overflow_dist)
  have ov': "ucast (counter ?x) + step > 0xFFFF \<longleftrightarrow> step = overflow_dist ?x"
    using lt(2) sm counter_bound(1) [of ?x]
    by (auto simp: word_less_nat_alt unat_overflow_dist unat_word_ariths(1) unsigned_ucast_eq
        take_bit_nat_eq_self word_unat_eq_iff)
  define P Q where "P \<longleftrightarrow> step = target_dist ?x" and "Q \<longleftrightarrow> step = overflow_dist ?x"
  have P: "(counter ?x + (of_nat m + 1) = target ?x) = P" "(step = target_dist ?x) = P"
    using tgt by (simp_all add: P_def add.assoc)
  have Q: "(counter ?x + of_nat m = 0xFFFF) = Q" "(step = overflow_dist ?x) = Q"
      "(0xFFFF < ucast (counter ?x) + step) = Q"
    using ov ov' by (simp_all add: Q_def)
  have "(timer_tick_one t ^^ unat step) s
      = timer_tick_one t (set_counter t (counter ?x + of_nat m) s)"
    using lt by (simp add: sm ticks_quiet)
  also have "\<dots> = advance_body t step s"
    by (simp add: timer_tick_one_def advance_body_def Let_def upd_timer_twice add.assoc
        add.commute [of 1] P Q c)
  finally show ?thesis ..
qed

lemma timer_advance_counts_ticks:
  "timer_advance_counts t ticks s = (timer_tick_one t ^^ unat ticks) s"
proof (induction t ticks s rule: timer_advance_counts.induct)
  case (1 t ticks s)
  show ?case
  proof (cases "ticks = 0")
    case True
    then show ?thesis by (subst timer_advance_counts.simps) simp
  next
    case False
    let ?x = "tms s t"
    define step where "step = advance_step ?x ticks"
    have st: "0 < step" "step \<le> ticks" using advance_step_bounds [OF False] by (simp_all add: step_def)
    have "0 < unat (target_dist ?x)" "0 < unat (overflow_dist ?x)"
      using counter_bound(1) [of ?x] by (simp_all add: unat_target_dist unat_overflow_dist Let_def)
    then have "step \<le> target_dist ?x" "step \<le> overflow_dist ?x"
      using False by (auto simp: step_def advance_step_def Let_def word_le_nat_alt word_less_nat_alt
          unat_eq_0 [symmetric] simp del: unat_eq_0)
    then have body: "advance_body t step s = (timer_tick_one t ^^ unat step) s"
      using st(1) by (rule advance_body_ticks [rotated 1])
    have "timer_advance_counts t ticks s
        = (timer_tick_one t ^^ unat (ticks - step)) (advance_body t step s)"
      using False 1 [OF False step_def] by (subst timer_advance_counts.simps) (simp add: Let_def flip: step_def)
    also have "\<dots> = (timer_tick_one t ^^ (unat (ticks - step) + unat step)) s"
      by (simp add: body funpow_add)
    also have "unat (ticks - step) + unat step = unat ticks"
      using st(2) by (simp add: unat_sub word_le_nat_alt)
    finally show ?thesis .
  qed
qed

interpretation sysclk: bulk_clock "\<lambda>_. True" "2 ^ 32" "\<lambda>n. timer_advance_counts t (of_nat n)"
    "timer_tick_one t" for t :: nat
  by unfold_locales
    (simp_all add: timer_advance_counts_ticks unsigned_of_nat take_bit_nat_eq_self)

subsection \<open>One timer at a time\<close>

text \<open>
  Everything a timer owns: its registers, its fraction, its fire count and its \<open>I_STAT\<close> bit.
  The three timers only share the rings and the interrupt registers, so each evolves on its own.
\<close>

definition tview :: "nat \<Rightarrow> timers \<Rightarrow> timer \<times> u32 \<times> u64 \<times> bool" where
  "tview t s = (tms s t, frac s t, fired s t, bit (i_stat (tenv s)) (4 + t))"

lemma timer_irq_bit: "t < 3 \<Longrightarrow> unat (timer_irq t) = 4 + t"
  by (auto simp: timer_irq_def less_Suc_eq numeral_3_eq_3)

lemma raise_timer_sel [simp]:
  "tms (raise_timer t s) = tms s" "frac (raise_timer t s) = frac s"
  "fired (raise_timer t s) = fired s"
  "i_stat (tenv (raise_timer t s)) = i_stat (tenv s) OR push_bit (unat (timer_irq t)) 1"
  "i_mask (tenv (raise_timer t s)) = i_mask (tenv s)"
  by (simp_all add: raise_timer_def)

lemma fire_frac [frame_simps]: "frac (timer_fire_irq t s) = frac s"
  by (simp add: timer_fire_irq_def Let_def)

lemma fire_frame: "t < 3 \<Longrightarrow> u < 3 \<Longrightarrow> u \<noteq> t \<Longrightarrow> tview u (timer_fire_irq t s) = tview u s"
  by (simp add: timer_fire_irq_def Let_def tview_def timer_irq_bit bit_simps)

lemma fire_cong: "t < 3 \<Longrightarrow> tview t s = tview t s' \<Longrightarrow>
  tview t (timer_fire_irq t s) = tview t (timer_fire_irq t s')"
  by (simp add: timer_fire_irq_def Let_def tview_def timer_irq_bit bit_simps)

lemma fire_other_bits: "t < 3 \<Longrightarrow> n \<noteq> 4 + t \<Longrightarrow>
  bit (i_stat (tenv (timer_fire_irq t s))) n = bit (i_stat (tenv s)) n"
  by (simp add: timer_fire_irq_def Let_def timer_irq_bit bit_simps)

lemma upd_frame: "u \<noteq> t \<Longrightarrow> tview u (upd_timer t f s) = tview u s"
  by (simp add: tview_def)

lemma upd_cong: "tview t s = tview t s' \<Longrightarrow> tview t (upd_timer t f s) = tview t (upd_timer t f s')"
  by (simp add: tview_def)

lemma tview_tms: "tview t s = tview t s' \<Longrightarrow> tms s t = tms s' t"
  by (simp add: tview_def)

lemma at_target_frame: "t < 3 \<Longrightarrow> u < 3 \<Longrightarrow> u \<noteq> t \<Longrightarrow> tview u (timer_at_target t s) = tview u s"
  by (simp add: timer_at_target_def Let_def upd_frame fire_frame)

lemma at_overflow_frame: "t < 3 \<Longrightarrow> u < 3 \<Longrightarrow> u \<noteq> t \<Longrightarrow> tview u (timer_at_overflow t s) = tview u s"
  by (simp add: timer_at_overflow_def Let_def upd_frame fire_frame)

lemma tick_frame: "t < 3 \<Longrightarrow> u < 3 \<Longrightarrow> u \<noteq> t \<Longrightarrow> tview u (timer_tick_one t s) = tview u s"
  by (simp add: timer_tick_one_def Let_def upd_frame at_target_frame at_overflow_frame)

lemma or_mode_cong: "tview t s = tview t s' \<Longrightarrow>
  tms (or_mode t b s) t = tms (or_mode t b s') t"
  by (simp add: tview_def)

lemma at_target_cong: "t < 3 \<Longrightarrow> tview t s = tview t s' \<Longrightarrow>
  tview t (timer_at_target t s) = tview t (timer_at_target t s')"
proof -
  assume t: "t < 3" and v: "tview t s = tview t s'"
  let ?o = "or_mode t MODE_TARGET_FLAG"
  let ?f = "\<lambda>s. if mode_has t MODE_IRQ_TARGET s then timer_fire_irq t s else s"
  have 1: "tview t (?o s) = tview t (?o s')" using v by (rule upd_cong)
  have 2: "tview t (?f (?o s)) = tview t (?f (?o s'))"
    using fire_cong [OF t 1] 1 tview_tms [OF v] by simp
  show ?thesis
    using 2 tview_tms [OF 2] upd_cong [OF 2] by (simp add: timer_at_target_def Let_def)
qed

lemma at_overflow_cong: "t < 3 \<Longrightarrow> tview t s = tview t s' \<Longrightarrow>
  tview t (timer_at_overflow t s) = tview t (timer_at_overflow t s')"
proof -
  assume t: "t < 3" and v: "tview t s = tview t s'"
  let ?o = "or_mode t MODE_OVERFLOW_FLAG"
  have 1: "tview t (?o s) = tview t (?o s')" using v by (rule upd_cong)
  show ?thesis
    using fire_cong [OF t 1] 1 tview_tms [OF v] by (simp add: timer_at_overflow_def Let_def)
qed

lemma tick_cong:
  assumes t: "t < 3" and v: "tview t s = tview t s'"
  shows "tview t (timer_tick_one t s) = tview t (timer_tick_one t s')"
proof -
  define c where "c = counter (tms s t)"
  define a a' where "a = set_counter t (c + 1) s" and "a' = set_counter t (c + 1) s'"
  have c': "counter (tms s' t) = c" using tview_tms [OF v] by (simp add: c_def)
  have 1: "tview t a = tview t a'"
    unfolding a_def a'_def using v by (rule upd_cong)
  define g where "g = (\<lambda>s. if counter (tms s t) = target (tms s t) then timer_at_target t s else s)"
  have 2: "tview t (g a) = tview t (g a')"
    using at_target_cong [OF t 1] 1 tview_tms [OF 1] by (simp add: g_def)
  have "timer_tick_one t s = (if c = 0xFFFF then timer_at_overflow t (g a) else g a)"
    by (simp only: timer_tick_one_def Let_def g_def a_def c_def)
  moreover have "timer_tick_one t s' = (if c = 0xFFFF then timer_at_overflow t (g a') else g a')"
    by (simp only: timer_tick_one_def Let_def g_def a'_def c')
  ultimately show ?thesis
    using at_overflow_cong [OF t 2] 2 by simp
qed

lemma ticks_frame: "t < 3 \<Longrightarrow> u < 3 \<Longrightarrow> u \<noteq> t \<Longrightarrow> tview u ((timer_tick_one t ^^ n) s) = tview u s"
  by (induction n) (simp_all add: tick_frame)

lemma ticks_cong: "t < 3 \<Longrightarrow> tview t s = tview t s' \<Longrightarrow>
  tview t ((timer_tick_one t ^^ n) s) = tview t ((timer_tick_one t ^^ n) s')"
proof (induction n)
  case (Suc n)
  from tick_cong [OF Suc.prems(1) Suc.IH [OF Suc.prems]] show ?case by simp
qed simp

subsection \<open>The clock source and the fraction\<close>

text \<open>Ticking never changes the clock-source bits of the mode, and never looks at the fraction.\<close>

abbreviation same_src :: "nat \<Rightarrow> timers \<Rightarrow> timers \<Rightarrow> bool" where
  "same_src t s s' \<equiv> (\<forall>u n. n = 8 \<or> n = 9 \<longrightarrow> bit (tmode (tms s' u)) n = bit (tmode (tms s u)) n)"

lemma fire_src: "n = 8 \<or> n = 9 \<Longrightarrow>
  bit (tmode (tms (timer_fire_irq t s) u)) n = bit (tmode (tms s u)) n"
  by (auto simp: timer_fire_irq_def Let_def bit_simps)

lemma at_target_src: "n = 8 \<or> n = 9 \<Longrightarrow>
  bit (tmode (tms (timer_at_target t s) u)) n = bit (tmode (tms s u)) n"
  by (auto simp: timer_at_target_def Let_def bit_simps fire_src)

lemma at_overflow_src: "n = 8 \<or> n = 9 \<Longrightarrow>
  bit (tmode (tms (timer_at_overflow t s) u)) n = bit (tmode (tms s u)) n"
  by (auto simp: timer_at_overflow_def Let_def bit_simps fire_src)

lemma tick_src: "n = 8 \<or> n = 9 \<Longrightarrow>
  bit (tmode (tms (timer_tick_one t s) u)) n = bit (tmode (tms s u)) n"
  by (auto simp: timer_tick_one_def Let_def at_target_src at_overflow_src)

lemma clk_src_cong:
  assumes "\<And>n. n = 8 \<or> n = 9 \<Longrightarrow> bit (tmode (tms s u)) n = bit (tmode (tms s' u)) n"
  shows "clk_src u s = clk_src u s'"
proof -
  have m: "(3 :: u32) = mask 2" by (simp add: mask_eq_exp_minus_1)
  show ?thesis
    unfolding clk_src_def m
  proof (rule bit_word_eqI)
    fix n :: nat
    have "n < 2 \<Longrightarrow> 8 + n = 8 \<or> 8 + n = 9" by auto
    then show "bit (drop_bit 8 (tmode (tms s u)) AND mask 2) n
        = bit (drop_bit 8 (tmode (tms s' u)) AND mask 2) n"
      using assms [of "8 + n"] by (auto simp: bit_simps)
  qed
qed

lemma tick_clk_src [simp]: "clk_src u (timer_tick_one t s) = clk_src u s"
  by (rule clk_src_cong) (rule tick_src)

lemma ticks_clk_src [simp]: "clk_src u ((timer_tick_one t ^^ n) s) = clk_src u s"
  by (induction n) simp_all

lemma clk_src_frac [simp]: "clk_src u (s\<lparr>frac := f\<rparr>) = clk_src u s"
  by (simp add: clk_src_def)

lemma divisor_cong: "clk_src u s = clk_src u s' \<Longrightarrow> timer_divisor u s = timer_divisor u s'"
  by (simp only: timer_divisor_def timer_uses_sysclk_def Let_def)

lemma upd_timer_frac: "upd_timer t g (s\<lparr>frac := f\<rparr>) = (upd_timer t g s)\<lparr>frac := f\<rparr>"
  by (simp add: upd_timer_def)

lemma fire_frac_upd: "timer_fire_irq t (s\<lparr>frac := f\<rparr>) = (timer_fire_irq t s)\<lparr>frac := f\<rparr>"
  by (simp add: timer_fire_irq_def Let_def upd_timer_def raise_timer_def)

lemma tick_frac_upd: "timer_tick_one t (s\<lparr>frac := f\<rparr>) = (timer_tick_one t s)\<lparr>frac := f\<rparr>"
  by (simp add: timer_tick_one_def timer_at_target_def timer_at_overflow_def Let_def
      upd_timer_frac fire_frac_upd)

lemma ticks_frac_upd: "(timer_tick_one t ^^ n) (s\<lparr>frac := f\<rparr>) = ((timer_tick_one t ^^ n) s)\<lparr>frac := f\<rparr>"
  by (induction n) (simp_all add: tick_frac_upd)

lemma tick_frac [simp]: "frac (timer_tick_one t s) = frac s"
  by (simp add: timer_tick_one_def timer_at_target_def timer_at_overflow_def Let_def frame_simps)

lemma ticks_frac [simp]: "frac ((timer_tick_one t ^^ n) s) = frac s"
  by (induction n) simp_all

text \<open>What one timer does when the clock moves by \<open>c\<close> cycles, in terms of its divisor.\<close>

definition ticks_in :: "u32 \<Rightarrow> nat \<Rightarrow> timers \<Rightarrow> nat" where
  "ticks_in c t s = (unat (frac s t) + unat c) div unat (timer_divisor t s)"

definition frac_after :: "u32 \<Rightarrow> nat \<Rightarrow> timers \<Rightarrow> u32" where
  "frac_after c t s = of_nat ((unat (frac s t) + unat c) mod unat (timer_divisor t s))"

definition timers_wf :: "timers \<Rightarrow> bool" where
  "timers_wf s \<longleftrightarrow> (\<forall>t < 3. frac s t < timer_divisor t s)"

lemma timer_divisor_cases: "timer_divisor t s \<in> {1, 5, 8, 2146}"
  by (simp add: timer_divisor_def Let_def)

lemma timer_divisor_pos: "0 < unat (timer_divisor t s)"
  using timer_divisor_cases [of t s] by auto

lemma divided_ticks:
  assumes "unat (frac s t) + unat c < 2 ^ 32" "d \<noteq> 0"
  shows "timer_advance_divided t c d s =
     ((timer_tick_one t ^^ ((unat (frac s t) + unat c) div unat d)) s)
       \<lparr>frac := (frac s)(t := of_nat ((unat (frac s t) + unat c) mod unat d))\<rparr>"
proof -
  have tot: "unat (frac s t + c) = unat (frac s t) + unat c"
    using assms(1) by (simp add: unat_word_ariths(1))
  have m: "(frac s t + c) mod d = of_nat ((unat (frac s t) + unat c) mod unat d)"
    using tot by (simp add: word_arith_nat_mod)
  have q: "unat ((frac s t + c) div d) = (unat (frac s t) + unat c) div unat d"
    using tot by (simp add: unat_div_distrib)
  have z: "(frac s t + c) div d = 0 \<longleftrightarrow> (unat (frac s t) + unat c) div unat d = 0"
    using q by (metis unat_eq_0)
  show ?thesis
    using assms(2)
    by (simp add: timer_advance_divided_def Let_def timer_advance_counts_ticks q z m ticks_frac_upd)
qed

lemma clk_src_cases: "clk_src t s = 0 \<or> clk_src t s = 1 \<or> clk_src t s = 2 \<or> clk_src t s = 3"
proof -
  have m: "(3 :: u32) = mask 2" by (simp add: mask_eq_exp_minus_1)
  have "unat (clk_src t s) < 4"
    using unat_and_mask_less [of "drop_bit 8 (tmode (tms s t))" 2] by (simp add: clk_src_def m)
  then have "unat (clk_src t s) \<in> {0, 1, 2, 3}" by auto
  then show ?thesis by (simp add: word_unat_eq_iff)
qed

lemma advance_at_cases:
  assumes "t < 3"
  shows "timers_advance_at c t s = (if timer_divisor t s = 1 then timer_advance_counts t c s
           else timer_advance_divided t c (timer_divisor t s) s)"
proof -
  consider "t = 0" | "t = 1" | "t = 2" using assms by linarith
  then show ?thesis
    using clk_src_cases [of t s]
    by cases (auto simp add: timers_advance_at_def timer_divisor_def timer_uses_sysclk_def Let_def)
qed

lemma advance_at_ticks:
  assumes "t < 3" "frac s t < timer_divisor t s" "unat (frac s t) + unat c < 2 ^ 32"
  shows "timers_advance_at c t s
       = ((timer_tick_one t ^^ ticks_in c t s) s)\<lparr>frac := (frac s)(t := frac_after c t s)\<rparr>"
proof -
  consider "timer_divisor t s = 1" "timers_advance_at c t s = timer_advance_counts t c s"
    | d where "d \<noteq> 0" "timer_divisor t s = d" "timers_advance_at c t s = timer_advance_divided t c d s"
    using advance_at_cases [OF assms(1)] timer_divisor_cases [of t s] by (cases "timer_divisor t s = 1") auto
  then show ?thesis
  proof cases
    case 1
    then have z: "frac s t = 0" using assms(2) by (simp add: word_less_nat_alt unat_eq_0)
    then have id: "(frac s)(t := frac_after c t s) = frac s"
      using 1 by (simp add: frac_after_def fun_upd_idem)
    have "s\<lparr>frac := frac s\<rparr> = s" by simp
    then have "((timer_tick_one t ^^ n) s)\<lparr>frac := frac s\<rparr> = (timer_tick_one t ^^ n) s" for n
      by (metis ticks_frac_upd)
    then show ?thesis
      using 1 z by (simp add: id timer_advance_counts_ticks ticks_in_def)
  next
    case 2
    then show ?thesis using assms(3) by (simp add: divided_ticks ticks_in_def frac_after_def)
  qed
qed

lemma advance_at_clk_src: "clk_src u (timers_advance_at c t s) = clk_src u s"
  by (simp add: timers_advance_at_def timer_advance_divided_def Let_def timer_advance_counts_ticks)

lemma advance_at_divisor [simp]: "timer_divisor u (timers_advance_at c t s) = timer_divisor u s"
  by (rule divisor_cong) (rule advance_at_clk_src)

lemma unat_frac_after: "unat (frac_after c t s) = (unat (frac s t) + unat c) mod unat (timer_divisor t s)"
proof -
  have "(unat (frac s t) + unat c) mod unat (timer_divisor t s) < unat (timer_divisor t s)"
    using timer_divisor_pos by (rule mod_less_divisor)
  also have "\<dots> < 4294967296" using unsigned_less [of "timer_divisor t s"] by simp
  finally show ?thesis
    by (simp only: frac_after_def unsigned_of_nat) (simp add: take_bit_nat_eq_self)
qed

lemma frac_after_less: "frac_after c t s < timer_divisor t s"
  using timer_divisor_pos [of t s] by (simp add: word_less_nat_alt unat_frac_after)

lemma div_mod_split: "0 < d \<Longrightarrow> (x + b) div d = x div d + (x mod d + b) div (d :: nat)"
proof -
  assume d: "0 < d"
  have "x + b = (x mod d + b) + (x div d) * d" by simp
  then show ?thesis using d by (simp only: div_mult_self1 neq0_conv)
qed

lemma advance_at_add:
  assumes "t < 3" "frac s t < timer_divisor t s" "unat (frac s t) + unat a + unat b < 2 ^ 32"
  shows "timers_advance_at b t (timers_advance_at a t s) = timers_advance_at (a + b) t s"
proof -
  let ?f = "unat (frac s t)" and ?d = "unat (timer_divisor t s)"
  let ?s1 = "timers_advance_at a t s"
  have ab: "unat (a + b) = unat a + unat b"
    using assms(3) by (simp add: unat_word_ariths(1))
  have s1: "?s1 = ((timer_tick_one t ^^ ticks_in a t s) s)\<lparr>frac := (frac s)(t := frac_after a t s)\<rparr>"
    using assms by (intro advance_at_ticks) simp_all
  have f1: "frac ?s1 = (frac s)(t := frac_after a t s)" by (simp add: s1)
  have "unat (frac ?s1 t) + unat b < 2 ^ 32"
    using assms(3) mod_less_eq_dividend [of "?f + unat a" ?d]
    by (simp add: f1 unat_frac_after del: mod_less_eq_dividend)
  then have "timers_advance_at b t ?s1 = ((timer_tick_one t ^^ ticks_in b t ?s1) ?s1)
      \<lparr>frac := (frac ?s1)(t := frac_after b t ?s1)\<rparr>"
    using assms(1) by (intro advance_at_ticks) (simp_all add: f1 frac_after_less)
  also have "\<dots> = ((timer_tick_one t ^^ (ticks_in b t ?s1 + ticks_in a t s)) s)
      \<lparr>frac := (frac s)(t := frac_after b t ?s1)\<rparr>"
    by (simp add: f1) (simp add: s1 ticks_frac_upd funpow_add)
  also have "ticks_in b t ?s1 + ticks_in a t s = ticks_in (a + b) t s"
    using div_mod_split [OF timer_divisor_pos, of "?f + unat a" "unat b" t s]
    by (simp add: ticks_in_def f1 unat_frac_after ab add.assoc)
  also have "frac_after b t ?s1 = frac_after (a + b) t s"
    by (simp add: frac_after_def f1 unat_frac_after [unfolded frac_after_def] ab mod_simps add.assoc)
  also have "((timer_tick_one t ^^ ticks_in (a + b) t s) s)\<lparr>frac := (frac s)(t := frac_after (a + b) t s)\<rparr>
      = timers_advance_at (a + b) t s"
    using assms ab by (intro advance_at_ticks [symmetric]) simp_all
  finally show ?thesis .
qed

subsection \<open>The whole block, one timer at a time\<close>

lemma advance_divided_frame:
  "t < 3 \<Longrightarrow> u < 3 \<Longrightarrow> u \<noteq> t \<Longrightarrow> tview u (timer_advance_divided t c d s) = tview u s"
proof -
  assume t: "t < 3" "u < 3" "u \<noteq> t"
  have "tview u (s\<lparr>frac := (frac s)(t := r)\<rparr>) = tview u s" for r
    using t by (simp add: tview_def)
  then show ?thesis
    using t by (simp add: timer_advance_divided_def Let_def timer_advance_counts_ticks ticks_frame)
qed

lemma advance_at_frame:
  "t < 3 \<Longrightarrow> u < 3 \<Longrightarrow> u \<noteq> t \<Longrightarrow> tview u (timers_advance_at c t s) = tview u s"
  by (simp add: advance_at_cases advance_divided_frame timer_advance_counts_ticks ticks_frame)

lemma tview_clk_src: "tview t s = tview t s' \<Longrightarrow> clk_src t s = clk_src t s'"
  by (simp add: tview_def clk_src_def)

lemma advance_divided_cong:
  assumes "t < 3" "tview t s = tview t s'"
  shows "tview t (timer_advance_divided t c d s) = tview t (timer_advance_divided t c d s')"
proof -
  have f: "frac s t = frac s' t" using assms(2) by (simp add: tview_def)
  have r: "tview t (s\<lparr>frac := (frac s)(t := r)\<rparr>) = tview t (s'\<lparr>frac := (frac s')(t := r)\<rparr>)" for r
    using assms(2) by (simp add: tview_def)
  show ?thesis
    using ticks_cong [OF assms(1) r] r
    by (simp add: timer_advance_divided_def Let_def timer_advance_counts_ticks f)
qed

lemma advance_at_cong:
  assumes "t < 3" "tview t s = tview t s'"
  shows "tview t (timers_advance_at c t s) = tview t (timers_advance_at c t s')"
proof -
  have d: "timer_divisor t s = timer_divisor t s'"
    by (rule divisor_cong) (rule tview_clk_src [OF assms(2)])
  show ?thesis
    using assms ticks_cong [OF assms] advance_divided_cong [OF assms]
    by (simp add: advance_at_cases d timer_advance_counts_ticks)
qed

lemma foldl_range3: "foldl f s [0..<3] = f (f (f s 0) 1) 2"
  by (simp add: numeral_3_eq_3 numeral_2_eq_2 upt_rec)

lemma advance_view:
  assumes "u < 3" "c \<noteq> 0"
  shows "tview u (timers_advance c s) = tview u (timers_advance_at c u s)"
proof -
  let ?a = "timers_advance_at c"
  have adv: "timers_advance c s = ?a 2 (?a 1 (?a 0 s))"
    using assms(2) by (simp add: timers_advance_def foldl_range3)
  consider "u = 0" | "u = 1" | "u = 2" using assms(1) by linarith
  then show ?thesis
  proof cases
    case 1
    then show ?thesis by (simp add: adv advance_at_frame)
  next
    case 2
    have "tview 1 (?a 1 (?a 0 s)) = tview 1 (?a 1 s)"
      by (rule advance_at_cong) (simp_all add: advance_at_frame)
    with 2 show ?thesis by (simp add: adv advance_at_frame)
  next
    case 3
    have "tview 2 (?a 1 (?a 0 s)) = tview 2 s" by (simp add: advance_at_frame)
    then have "tview 2 (?a 2 (?a 1 (?a 0 s))) = tview 2 (?a 2 s)"
      by (intro advance_at_cong) simp_all
    with 3 show ?thesis by (simp add: adv)
  qed
qed

text \<open>Fractions stay below the divisor: the invariant of every operation but a snapshot load.\<close>

lemma wf_of_views:
  "timers_wf s \<longleftrightarrow> (\<forall>t<3. fst (snd (tview t s)) < timer_divisor t s)"
  by (simp add: timers_wf_def tview_def)

lemma wf_cong: "timers_wf s \<Longrightarrow> (\<And>t. t < 3 \<Longrightarrow> tview t s' = tview t s) \<Longrightarrow> timers_wf s'"
  by (metis wf_of_views divisor_cong tview_clk_src)

lemma wf_bound: "timers_wf s \<Longrightarrow> t < 3 \<Longrightarrow> unat (frac s t) < 2146"
  using timer_divisor_cases [of t s] by (auto simp: timers_wf_def word_less_nat_alt)

lemma wf_advance [inv_intros]:
  assumes "timers_wf s" "unat c < 2 ^ 32 - 2146"
  shows "timers_wf (timers_advance c s)"
proof (cases "c = 0")
  case True
  then show ?thesis using assms(1) by (simp add: timers_advance_def)
next
  case False
  show ?thesis
    unfolding timers_wf_def
  proof (intro allI impI)
    fix t :: nat assume t: "t < 3"
    have v: "tview t (timers_advance c s) = tview t (timers_advance_at c t s)"
      by (rule advance_view [OF t False])
    have "timers_advance_at c t s
        = ((timer_tick_one t ^^ ticks_in c t s) s)\<lparr>frac := (frac s)(t := frac_after c t s)\<rparr>"
      using assms t wf_bound [OF assms(1) t]
      by (intro advance_at_ticks) (simp_all add: timers_wf_def)
    then have f: "frac (timers_advance_at c t s) t = frac_after c t s" by simp
    have "frac (timers_advance c s) t = frac_after c t s"
      using v by (simp add: tview_def f)
    moreover have "timer_divisor t (timers_advance c s) = timer_divisor t s"
      using divisor_cong [OF tview_clk_src [OF v]] by simp
    ultimately show "frac (timers_advance c s) t < timer_divisor t (timers_advance c s)"
      by (simp add: frac_after_less)
  qed
qed

lemma wf_init [inv_intros]: "timers_wf (timers_init s)"
  using timer_divisor_pos by (simp add: timers_wf_def timers_init_def word_less_nat_alt)

lemma advance_add:
  assumes "timers_wf s" "u < 3" "unat a + unat b < 2 ^ 32 - 2146"
  shows "tview u (timers_advance b (timers_advance a s)) = tview u (timers_advance (a + b) s)"
proof (cases "a = 0 \<or> b = 0")
  case True
  then show ?thesis by (auto simp: timers_advance_def)
next
  case False
  have "unat (a + b) = unat a + unat b" using assms(3) by (simp add: unat_word_ariths(1))
  with False have ab: "a + b \<noteq> 0" by (metis add_is_0 unat_eq_0)
  let ?a = "timers_advance_at"
  have "tview u (timers_advance b (timers_advance a s)) = tview u (?a b u (timers_advance a s))"
    using False assms(2) by (intro advance_view) simp_all
  also have "\<dots> = tview u (?a b u (?a a u s))"
    using False assms(2) by (intro advance_at_cong advance_view) simp_all
  also have "?a b u (?a a u s) = ?a (a + b) u s"
    using assms wf_bound [OF assms(1,2)]
    by (intro advance_at_add) (simp_all add: timers_wf_def)
  also have "tview u (?a (a + b) u s) = tview u (timers_advance (a + b) s)"
    using ab assms(2) by (simp add: advance_view)
  finally show ?thesis .
qed

lemma unat_sum_list_u32:
  "sum_list (map unat cs) < 2 ^ 32 \<Longrightarrow> unat (sum_list (cs :: u32 list)) = sum_list (map unat cs)"
proof (induction cs)
  case (Cons c cs)
  then have "unat (sum_list cs) = sum_list (map unat cs)" by simp
  then show ?case using Cons.prems by (simp add: unat_word_ariths(1))
qed simp

lemma advance_slices:
  assumes "timers_wf s" "u < 3" "sum_list (map unat cs) < 2 ^ 32 - 2146"
  shows "timers_wf (foldl (\<lambda>s c. timers_advance c s) s cs)
    \<and> (\<forall>u<3. tview u (foldl (\<lambda>s c. timers_advance c s) s cs) = tview u (timers_advance (sum_list cs) s))"
  using assms(3)
proof (induction cs rule: rev_induct)
  case Nil
  then show ?case using assms by (simp add: timers_advance_def)
next
  case (snoc c cs)
  let ?f = "foldl (\<lambda>s c. timers_advance c s) s cs" and ?g = "timers_advance (sum_list cs) s"
  have IH: "timers_wf ?f" "\<And>u. u < 3 \<Longrightarrow> tview u ?f = tview u ?g"
    using snoc by simp_all
  have sum: "unat (sum_list cs) = sum_list (map unat cs)"
    using snoc.prems by (intro unat_sum_list_u32) simp
  have "tview u (timers_advance c ?f) = tview u (timers_advance c ?g)" if "u < 3" for u
  proof (cases "c = 0")
    case True
    then show ?thesis using IH(2) [OF that] by (simp add: timers_advance_def)
  next
    case False
    have "tview u (timers_advance_at c u ?f) = tview u (timers_advance_at c u ?g)"
      by (rule advance_at_cong [OF that IH(2) [OF that]])
    then show ?thesis by (simp only: advance_view [OF that False])
  qed
  moreover have "tview u (timers_advance c ?g) = tview u (timers_advance (sum_list cs + c) s)"
    if "u < 3" for u
    using snoc.prems sum by (intro advance_add assms that) simp_all
  ultimately show ?case
    using wf_advance [OF IH(1), of c] snoc.prems by simp
qed

subsection \<open>The horizon is sound\<close>

text \<open>A tick that raises nothing only touches the registers of its timer.\<close>

abbreviation armed_target :: "timer \<Rightarrow> bool" where
  "armed_target x \<equiv> tmode x AND MODE_IRQ_TARGET \<noteq> 0"

abbreviation armed_overflow :: "timer \<Rightarrow> bool" where
  "armed_overflow x \<equiv> tmode x AND MODE_IRQ_OVERFLOW \<noteq> 0"

definition quiet_for :: "nat \<Rightarrow> timer \<Rightarrow> bool" where
  "quiet_for n x \<longleftrightarrow> (armed_target x \<longrightarrow> n < unat (target_dist x))
                 \<and> (armed_overflow x \<longrightarrow> n < unat (overflow_dist x))"

lemma next_meets_target: "counter x + 1 = target x \<longleftrightarrow> unat (target_dist x) = 1"
  using meets_target [of 1 x] by (auto simp: unat_target_dist Let_def)

lemma at_top: "counter x = 0xFFFF \<longleftrightarrow> unat (overflow_dist x) = 1"
  using counter_bound(1) [of x] by (auto simp: unat_overflow_dist word_unat_eq_iff)

lemma or_flags_armed [simp]:
  "(m OR MODE_TARGET_FLAG) AND MODE_IRQ_TARGET = m AND MODE_IRQ_TARGET"
  "(m OR MODE_TARGET_FLAG) AND MODE_IRQ_OVERFLOW = m AND MODE_IRQ_OVERFLOW"
  "(m OR MODE_OVERFLOW_FLAG) AND MODE_IRQ_TARGET = m AND MODE_IRQ_TARGET"
  "(m OR MODE_OVERFLOW_FLAG) AND MODE_IRQ_OVERFLOW = m AND MODE_IRQ_OVERFLOW"
  for m :: u32
  by (simp_all add: bit.conj_disj_distrib2)

definition quiet_target :: "timer \<Rightarrow> timer" where
  "quiet_target x =
     (let y = x\<lparr>tmode := tmode x OR MODE_TARGET_FLAG\<rparr>
      in if tmode y AND MODE_RESET_TARGET \<noteq> 0 then y\<lparr>counter := 0\<rparr> else y)"

definition quiet_overflow :: "timer \<Rightarrow> timer" where
  "quiet_overflow x = x\<lparr>tmode := tmode x OR MODE_OVERFLOW_FLAG\<rparr>"

lemma at_target_quiet:
  "\<not> armed_target (tms s t) \<Longrightarrow> timer_at_target t s = upd_timer t quiet_target s"
  by (simp add: timer_at_target_def Let_def quiet_target_def upd_timer_twice)

lemma at_overflow_quiet:
  "\<not> armed_overflow (tms s t) \<Longrightarrow> timer_at_overflow t s = upd_timer t quiet_overflow s"
  by (simp add: timer_at_overflow_def Let_def upd_timer_def quiet_overflow_def)

definition quiet_tick :: "timer \<Rightarrow> timer" where
  "quiet_tick x =
     (let x1 = x\<lparr>counter := counter x + 1\<rparr>;
          x2 = (if counter x1 = target x1 then quiet_target x1 else x1)
      in if counter x = 0xFFFF then quiet_overflow x2 else x2)"

lemma tick_quiet_step:
  assumes "quiet_for 1 (tms s t)"
  shows "timer_tick_one t s = upd_timer t quiet_tick s"
proof -
  let ?x = "tms s t"
  have 1: "\<not> (armed_target ?x \<and> counter ?x + 1 = target ?x)"
    using assms by (auto simp: quiet_for_def next_meets_target)
  have 2: "\<not> (armed_overflow ?x \<and> counter ?x = 0xFFFF)"
    using assms by (auto simp: quiet_for_def at_top)
  define s1 where "s1 = set_counter t (counter ?x + 1) s"
  define s2 where "s2 = (if counter ?x + 1 = target ?x then upd_timer t quiet_target s1 else s1)"
  have tgt: "counter ?x + 1 = target ?x \<Longrightarrow> timer_at_target t s1 = upd_timer t quiet_target s1"
    using 1 by (intro at_target_quiet) (simp add: s1_def)
  have sel: "counter (tms s1 t) = counter ?x + 1" "target (tms s1 t) = target ?x"
    by (simp_all add: s1_def)
  have "timer_tick_one t s = (if counter ?x = 0xFFFF then timer_at_overflow t s2 else s2)"
    unfolding timer_tick_one_def Let_def s1_def [symmetric] sel s2_def
    using tgt by (simp only: if_cancel cong: if_cong)
  also have "\<dots> = (if counter ?x = 0xFFFF then upd_timer t quiet_overflow s2 else s2)"
  proof (cases "counter ?x = 0xFFFF")
    case True
    with 2 have "\<not> armed_overflow ?x" by simp
    then have "\<not> armed_overflow (tms s2 t)" by (simp add: s2_def s1_def quiet_target_def Let_def)
    then show ?thesis by (simp add: at_overflow_quiet)
  qed simp
  also have "\<dots> = upd_timer t quiet_tick s"
    by (simp add: s2_def s1_def quiet_tick_def Let_def upd_timer_def)
  finally show ?thesis .
qed

lemma quiet_tick_armed [simp]:
  "tmode (quiet_tick x) AND MODE_IRQ_TARGET = tmode x AND MODE_IRQ_TARGET"
  "tmode (quiet_tick x) AND MODE_IRQ_OVERFLOW = tmode x AND MODE_IRQ_OVERFLOW"
  "target (quiet_tick x) = target x"
  by (simp_all add: quiet_tick_def quiet_target_def quiet_overflow_def Let_def)

lemma target_dist_next:
  assumes "1 < unat (target_dist x)" "counter y = counter x + 1" "target y = target x"
  shows "unat (target_dist y) = unat (target_dist x) - 1"
proof -
  define c g where "c = unat (counter x)" and "g = unat (target x)"
  have b: "c < 65536" "g < 65536" using counter_bound [of x] by (simp_all add: c_def g_def)
  have cy: "unat (counter y) = (c + 1) mod 65536"
    using unat_counter_add [of x 1] assms(2) by (simp add: c_def)
  have td: "unat (target_dist x) = (let d = (g + 65536 - c) mod 65536 in if d = 0 then 65536 else d)"
    by (simp only: unat_target_dist c_def g_def)
  have tdy: "unat (target_dist y) =
      (let d = (g + 65536 - (c + 1) mod 65536) mod 65536 in if d = 0 then 65536 else d)"
    by (simp only: unat_target_dist cy assms(3) g_def)
  show ?thesis
  proof (cases "c = 65535")
    case True
    with assms(1) td have "g \<noteq> 0" by (cases "g = 0") simp_all
    with True b show ?thesis unfolding td tdy by (cases "g = 65535") (simp_all add: mod_simps)
  next
    case False
    with b have c1: "(c + 1) mod 65536 = c + 1" by simp
    consider "g < c" | "g = c" | "g = c + 1" | "c + 1 < g" by linarith
    then show ?thesis
    proof cases
      case 4
      then have "g + 65536 - c = g - c + 65536" "g + 65536 - (c + 1) = g - (c + 1) + 65536" by simp_all
      then have "(g + 65536 - c) mod 65536 = g - c" "(g + 65536 - (c + 1)) mod 65536 = g - (c + 1)"
        using b by (simp_all only: mod_add_self2) simp_all
      with 4 show ?thesis unfolding td tdy c1 Let_def by simp
    next
      case 3
      with assms(1) td show ?thesis by simp
    qed (use b False in \<open>simp_all only: td tdy c1, simp_all add: Let_def\<close>)
  qed
qed

lemma quiet_tick_counter:
  "counter (quiet_tick x) = counter x + 1 \<or> counter (quiet_tick x) = 0 \<and> counter x + 1 = target x"
  by (simp add: quiet_tick_def quiet_target_def quiet_overflow_def Let_def)

lemma quiet_for_tick:
  assumes "quiet_for (Suc n) x"
  shows "quiet_for n (quiet_tick x)"
  unfolding quiet_for_def quiet_tick_armed
proof (intro conjI impI)
  assume a: "armed_target x"
  with assms have td: "Suc n < unat (target_dist x)" by (simp add: quiet_for_def)
  then have "counter x + 1 \<noteq> target x" by (simp add: next_meets_target)
  then have "counter (quiet_tick x) = counter x + 1" using quiet_tick_counter by blast
  with td show "n < unat (target_dist (quiet_tick x))"
    using target_dist_next [of x "quiet_tick x"] by simp
next
  assume "armed_overflow x"
  with assms have od: "Suc n < 65536 - unat (counter x)"
    by (simp add: quiet_for_def unat_overflow_dist)
  from quiet_tick_counter [of x] have "unat (counter (quiet_tick x)) \<le> unat (counter x) + 1"
    using unat_counter_add [of x 1] by (auto simp: mod_less_eq_dividend)
  with od show "n < unat (overflow_dist (quiet_tick x))"
    by (simp add: unat_overflow_dist)
qed

lemma quiet_for_mono: "quiet_for n x \<Longrightarrow> m \<le> n \<Longrightarrow> quiet_for m x"
  by (auto simp: quiet_for_def)

lemma quiet_for_0: "quiet_for 0 x"
  by (simp add: quiet_for_def unat_overflow_dist unat_target_dist Let_def counter_bound(1))

lemma ticks_quiet_env:
  "quiet_for n (tms s t) \<Longrightarrow>
     tenv ((timer_tick_one t ^^ n) s) = tenv s \<and> fired ((timer_tick_one t ^^ n) s) = fired s"
proof (induction n arbitrary: s)
  case (Suc n)
  have "quiet_for 1 (tms s t)" using Suc.prems by (rule quiet_for_mono) simp
  then have "timer_tick_one t s = upd_timer t quiet_tick s" by (rule tick_quiet_step)
  moreover have "quiet_for n (tms (upd_timer t quiet_tick s) t)"
    using quiet_for_tick [OF Suc.prems] by simp
  ultimately show ?case
    using Suc.IH [of "upd_timer t quiet_tick s"] by (simp only: funpow_Suc_right o_apply) simp
qed simp

text \<open>What the horizon says about one timer.\<close>

lemma ticks_to_irq_quiet:
  assumes "n < unat (ticks_to_irq x)"
  shows "quiet_for n x"
  using assms
  by (auto simp: quiet_for_def ticks_to_irq_def Let_def word_less_nat_alt split: if_splits)

lemma ticks_to_irq_armed:
  "armed_target x \<or> armed_overflow x \<Longrightarrow> unat (ticks_to_irq x) \<le> 65536"
  using counter_bound(1) [of x]
  by (auto simp: ticks_to_irq_def Let_def word_less_nat_alt unat_overflow_dist unat_target_dist)

lemma horizon_step_le: "cycles_to_irq_at msk s best t \<le> best"
  by (auto simp: cycles_to_irq_at_def Let_def)

lemma horizon_step_bound:
  assumes "t < 3" "bit msk (4 + t)" "armed_target (tms s t) \<or> armed_overflow (tms s t)"
    and c: "unat c < unat (cycles_to_irq_at msk s best t)"
  shows "unat c + unat (frac s t) < unat (ticks_to_irq (tms s t)) * unat (timer_divisor t s)"
proof -
  let ?k = "ticks_to_irq (tms s t)" and ?d = "timer_divisor t s" and ?f = "frac s t"
  have k: "unat ?k \<le> 65536" by (rule ticks_to_irq_armed [OF assms(3)])
  then have k': "?k \<noteq> 0xFFFFFFFF" by auto
  have d: "unat ?d \<le> 2146" using timer_divisor_cases [of t s] by auto
  have msk: "msk AND push_bit (unat (timer_irq t)) 1 \<noteq> 0"
  proof
    assume z: "msk AND push_bit (unat (timer_irq t)) 1 = 0"
    have "bit (msk AND push_bit (unat (timer_irq t)) 1) (4 + t)"
      using assms(1,2) by (simp add: timer_irq_bit bit_simps)
    then have "bit (0 :: u32) (4 + t)" by (simp only: z)
    then show False by simp
  qed
  have unarmed: "(tmode (tms s t) AND MODE_IRQ_TARGET = 0
      \<and> tmode (tms s t) AND MODE_IRQ_OVERFLOW = 0) = False"
    using assms(3) by blast
  have prod: "unat ?k * unat ?d \<le> 65536 * 2146" using k d by (rule mult_le_mono)
  define cyc :: u64 where "cyc = ucast ?k * ucast ?d"
  have uc: "unat cyc = unat ?k * unat ?d"
    using prod k d by (simp add: cyc_def unat_word_ariths(2) unsigned_ucast_eq take_bit_nat_eq_self)
  have uf: "unat (ucast ?f :: u64) = unat ?f"
    by simp
  define r where "r = (if cyc > ucast ?f then cyc - ucast ?f else 0)"
  define r' where "r' = (if r > 0xFFFFFFFF then 0xFFFFFFFF else r)"
  have ur: "unat r = unat ?k * unat ?d - unat ?f"
    using uc uf by (simp add: r_def unat_sub word_less_nat_alt word_le_nat_alt)
  then have r_small: "unat r < 4294967296" using prod by simp
  then have "r' = r" by (simp add: r'_def word_less_nat_alt)
  moreover have "cycles_to_irq_at msk s best t = (if ucast r' < best then ucast r' else best)"
    by (simp only: cycles_to_irq_at_def Let_def r'_def r_def cyc_def msk k' unarmed if_False)
  ultimately have "cycles_to_irq_at msk s best t \<le> ucast r" by auto
  then have "unat (cycles_to_irq_at msk s best t) \<le> unat (ucast r :: u32)"
    by (simp add: word_le_nat_alt)
  also have "\<dots> = unat r"
    using r_small by (simp add: unsigned_ucast_eq take_bit_nat_eq_self)
  finally show ?thesis using c ur by simp
qed

lemma quiet_unarmed: "\<not> armed_target x \<Longrightarrow> \<not> armed_overflow x \<Longrightarrow> quiet_for n x"
  by (simp add: quiet_for_def)

lemma fraction_tms: "tms (s\<lparr>frac := f\<rparr>) = tms s" by simp

lemma advance_divided_env:
  assumes "quiet_for (unat ((frac s t + c) div (if d = 0 then 1 else d))) (tms s t)"
  shows "tenv (timer_advance_divided t c d s) = tenv s \<and> fired (timer_advance_divided t c d s) = fired s"
  using assms ticks_quiet_env [of _ "s\<lparr>frac := f\<rparr>" t for f]
  by (simp add: timer_advance_divided_def Let_def timer_advance_counts_ticks)

lemma advance_at_quiet:
  assumes "t < 3" "\<And>n. n * unat (timer_divisor t s) \<le> unat (frac s t) + unat c \<Longrightarrow> quiet_for n (tms s t)"
  shows "tenv (timers_advance_at c t s) = tenv s \<and> fired (timers_advance_at c t s) = fired s"
proof (cases "timer_divisor t s = 1")
  case True
  then show ?thesis
    using assms ticks_quiet_env [of "unat c" s t] by (simp add: advance_at_cases timer_advance_counts_ticks)
next
  case False
  let ?d = "timer_divisor t s" and ?n = "unat ((frac s t + c) div timer_divisor t s)"
  have dne: "?d \<noteq> 0" using timer_divisor_pos [of t s] by auto
  have "?n * unat ?d \<le> unat (frac s t + c)" by (simp add: unat_div_distrib)
  also have "\<dots> \<le> unat (frac s t) + unat c"
    by (simp add: unat_word_ariths(1))
  finally have "quiet_for ?n (tms s t)" by (rule assms(2))
  then have "quiet_for (unat ((frac s t + c) div (if ?d = 0 then 1 else ?d))) (tms s t)"
    using dne by simp
  from advance_divided_env [OF this] show ?thesis
    using assms(1) False by (simp add: advance_at_cases)
qed

lemma tick_other_bits:
  assumes "t < 3" "n \<noteq> 4 + t"
  shows "bit (i_stat (tenv (timer_tick_one t s))) n = bit (i_stat (tenv s)) n"
  using fire_other_bits [OF assms]
  by (simp add: timer_tick_one_def timer_at_target_def timer_at_overflow_def Let_def)

lemma ticks_other_bits:
  "t < 3 \<Longrightarrow> n \<noteq> 4 + t \<Longrightarrow>
   bit (i_stat (tenv ((timer_tick_one t ^^ k) s))) n = bit (i_stat (tenv s)) n"
  by (induction k) (simp_all add: tick_other_bits)

lemma advance_at_other_bits:
  "t < 3 \<Longrightarrow> n \<noteq> 4 + t \<Longrightarrow>
   bit (i_stat (tenv (timers_advance_at c t s))) n = bit (i_stat (tenv s)) n"
  by (simp add: advance_at_cases timer_advance_divided_def Let_def timer_advance_counts_ticks
      ticks_other_bits)

lemma advance_other_bits:
  "n < 4 \<or> 6 < n \<Longrightarrow> bit (i_stat (tenv (timers_advance c s))) n = bit (i_stat (tenv s)) n"
  by (auto simp: timers_advance_def foldl_range3 advance_at_other_bits)

lemma horizon_below:
  assumes "c < timers_cycles_to_irq msk s" "t < 3"
  shows "\<exists>best. c < cycles_to_irq_at msk s best t"
proof -
  let ?h = "cycles_to_irq_at msk s"
  have H: "c < ?h (?h (?h 0xFFFFFFFF 0) 1) 2"
    using assms(1) by (simp add: timers_cycles_to_irq_def foldl_range3)
  also have "\<dots> \<le> ?h (?h 0xFFFFFFFF 0) 1" by (rule horizon_step_le)
  finally have H1: "c < ?h (?h 0xFFFFFFFF 0) 1" .
  also have "\<dots> \<le> ?h 0xFFFFFFFF 0" by (rule horizon_step_le)
  finally have H0: "c < ?h 0xFFFFFFFF 0" .
  consider "t = 0" | "t = 1" | "t = 2" using assms(2) by linarith
  then show ?thesis using H H1 H0 by cases blast+
qed

lemma horizon_at:
  assumes "c < timers_cycles_to_irq msk s" "t < 3" "bit msk (4 + t)"
  shows "tenv (timers_advance_at c t s) = tenv s \<and> fired (timers_advance_at c t s) = fired s"
proof (rule advance_at_quiet [OF assms(2)])
  fix n assume n: "n * unat (timer_divisor t s) \<le> unat (frac s t) + unat c"
  show "quiet_for n (tms s t)"
  proof (cases "armed_target (tms s t) \<or> armed_overflow (tms s t)")
    case False
    then show ?thesis by (simp add: quiet_unarmed)
  next
    case True
    obtain best where "unat c < unat (cycles_to_irq_at msk s best t)"
      using horizon_below [OF assms(1,2)] by (auto simp: word_less_nat_alt)
    then have "n * unat (timer_divisor t s) < unat (ticks_to_irq (tms s t)) * unat (timer_divisor t s)"
      using horizon_step_bound [OF assms(2,3) True, of c best] n by linarith
    then show ?thesis by (intro ticks_to_irq_quiet) simp
  qed
qed

subsection \<open>Properties\<close>

text \<open>
  C20. The optimised advance is exact: moving the block by any number of cycles leaves each timer
  (registers, fraction, fire count, status bit) as if it had been ticked one count at a time, as
  many counts as its clock source yields from the fraction carried over, with the remainder kept.
\<close>

theorem timers_advance_is_ticking:
  assumes "timers_wf s" "t < 3" "unat c < 2 ^ 32 - 2146"
  shows "tview t (timers_advance c s)
       = tview t (((timer_tick_one t ^^ ticks_in c t s) s)
           \<lparr>frac := (frac s)(t := frac_after c t s)\<rparr>)"
proof -
  have at: "timers_advance_at c t s
      = ((timer_tick_one t ^^ ticks_in c t s) s)\<lparr>frac := (frac s)(t := frac_after c t s)\<rparr>"
    using assms wf_bound [OF assms(1,2)] by (intro advance_at_ticks) (simp_all add: timers_wf_def)
  show ?thesis
  proof (cases "c = 0")
    case False
    from advance_view [OF assms(2) False, of s] show ?thesis by (simp only: at)
  next
    case True
    have f: "unat (frac s t) < unat (timer_divisor t s)"
      using assms(1,2) by (simp add: timers_wf_def word_less_nat_alt)
    then have "ticks_in c t s = 0" "frac_after c t s = frac s t"
      using True by (simp_all add: ticks_in_def frac_after_def)
    then show ?thesis using True by (simp add: timers_advance_def tview_def)
  qed
qed

text \<open>
  Event slicing is harmless: advancing in any sequence of slices gives every timer the same
  registers, fraction, fire count and status bit as one advance by the total, and keeps the
  fractions in range.
\<close>

theorem timers_advance_sliced:
  assumes "timers_wf s" "u < 3" "sum_list (map unat cs) < 2 ^ 32 - 2146"
  shows "tview u (foldl (\<lambda>s c. timers_advance c s) s cs) = tview u (timers_advance (sum_list cs) s)
       \<and> timers_wf (foldl (\<lambda>s c. timers_advance c s) s cs)"
  using advance_slices [OF assms] assms(2) by blast

text \<open>
  C21. The event horizon is sound: while fewer cycles pass than \<open>timers_cycles_to_irq\<close> answers for
  a mask, no status bit of the mask changes and no unmasked timer fires, whatever the modes,
  targets and fractions.
\<close>

theorem timers_horizon_sound:
  assumes "c < timers_cycles_to_irq msk s"
  shows "i_stat (tenv (timers_advance c s)) AND msk = i_stat (tenv s) AND msk
    \<and> (\<forall>t<3. bit msk (4 + t) \<longrightarrow> fired (timers_advance c s) t = fired s t)"
proof (cases "c = 0")
  case True
  then show ?thesis by (simp add: timers_advance_def)
next
  case False
  have v: "bit (i_stat (tenv (timers_advance c s))) (4 + t) = bit (i_stat (tenv s)) (4 + t)
      \<and> fired (timers_advance c s) t = fired s t" if "t < 3" "bit msk (4 + t)" for t
    using advance_view [OF that(1) False, of s] horizon_at [OF assms that] by (simp add: tview_def)
  have "bit (i_stat (tenv (timers_advance c s)) AND msk) n = bit (i_stat (tenv s) AND msk) n" for n
  proof (cases "n < 4 \<or> 6 < n")
    case True
    then show ?thesis by (simp add: bit_simps advance_other_bits)
  next
    case False
    then show ?thesis using v [of "n - 4"] by (auto simp: bit_simps)
  qed
  then show ?thesis using v by (auto intro: bit_eqI)
qed

text \<open>The address of register \<open>r\<close> of timer \<open>n\<close>.\<close>

definition timer_addr :: "nat \<Rightarrow> u32 \<Rightarrow> u32" where
  "timer_addr n r = TIMER_BASE + of_nat n * 0x10 + r"

lemma timer_addr_decode:
  assumes "n < 3" "r \<in> {0, 4, 8}"
  shows "timer_of (timer_addr n r) = n" "timer_reg (timer_addr n r) = r"
proof -
  consider "n = 0" | "n = 1" | "n = 2" using assms(1) by linarith
  then show "timer_of (timer_addr n r) = n" "timer_reg (timer_addr n r) = r"
    using assms(2) by (cases; auto simp: timer_of_def timer_reg_def timer_addr_def)+
qed

text \<open>
  Register access: what a write to the counter, the mode or the target leaves is what the
  next read of that register returns (16 bits of a counter or target, the ten writable mode bits
  with the request bit set), a mode write restarts the counter, reading the mode a second time
  shows the two event flags cleared, and the other timers are not affected.
\<close>

theorem timers_registers:
  assumes "n < 3"
  shows "fst (timers_read True (timer_addr n 0) (timers_write (timer_addr n 0) v s)) = v AND 0xFFFF
    \<and> fst (timers_read b (timer_addr n 8) (timers_write (timer_addr n 8) v s)) = v AND 0xFFFF
    \<and> fst (timers_read b (timer_addr n 4) (timers_write (timer_addr n 4) v s)) = (v AND 0x3FF) OR 0x400
    \<and> fst (timers_read True (timer_addr n 0) (timers_write (timer_addr n 4) v s)) = 0
    \<and> fst (timers_read b (timer_addr n 4) (snd (timers_read b (timer_addr n 4) s)))
        = tmode (tms s n) AND NOT 0x1800
    \<and> (\<forall>u<3. \<forall>r\<in>{0, 4, 8}. u \<noteq> n \<longrightarrow> tview u (timers_write (timer_addr n r) v s) = tview u s)"
proof -
  have n: "\<not> n > 2" using assms by simp
  have m: "ucast (ucast (v AND 0xFFFF) :: u16) = v AND 0xFFFF"
    by (simp only: low16 low16_low16)
  show ?thesis
    using assms n m
    by (auto simp: timers_read_def timers_write_def Let_def timer_addr_decode read_counter_def
        tview_def)
qed

text \<open>
  Saving and loading: loading a saved snapshot into any state gives the three timers and
  their fractions back exactly as they were, and saving again gives the same snapshot.
\<close>

theorem timers_snapshot_roundtrip:
  "timers_get_snapshot (timers_set_snapshot (timers_get_snapshot s) s') = timers_get_snapshot s
   \<and> map (tms (timers_set_snapshot (timers_get_snapshot s) s')) [0..<3] = map (tms s) [0..<3]
   \<and> map (frac (timers_set_snapshot (timers_get_snapshot s) s')) [0..<3] = map (frac s) [0..<3]"
  by (simp add: timers_get_snapshot_def timers_set_snapshot_def foldl_range3 numeral_3_eq_3)


subsection \<open>Concrete inputs\<close>

text \<open>
  Timer 2 on the divided clock, counting to 5 with the target interrupt armed; the others idle.
\<close>

definition timers_demo :: timers where
  "timers_demo =
     \<lparr>tms = (\<lambda>_. timer_zero)(2 := \<lparr>counter = 3, tmode = 0x258, target = 5, irq_line = 0\<rparr>),
      frac = (\<lambda>_. 0)(2 := 6), fired = (\<lambda>_. 0),
      tenv = irq_power_on\<lparr>i_mask := 0x40\<rparr>\<rparr>"

lemma demo_src: "clk_src 0 timers_demo = 0" "clk_src 1 timers_demo = 0" "clk_src 2 timers_demo = 2"
  by (simp_all add: clk_src_def timers_demo_def timer_zero_def)

lemma demo_divisor:
  "timer_divisor 0 timers_demo = 1" "timer_divisor 1 timers_demo = 1" "timer_divisor 2 timers_demo = 8"
  by (simp_all add: timer_divisor_def timer_uses_sysclk_def demo_src demo_src [simplified] Let_def)

lemma demo_wf: "timers_wf timers_demo"
  unfolding timers_wf_def
proof (intro allI impI)
  fix t :: nat assume "t < 3"
  then consider "t = 0" | "t = 1" | "t = 2" by linarith
  then show "frac timers_demo t < timer_divisor t timers_demo"
    by cases (simp_all only: demo_divisor, simp_all add: timers_demo_def)
qed

lemma demo_horizon: "timers_cycles_to_irq 0x40 timers_demo = 10"
  by (simp add: timers_cycles_to_irq_def foldl_range3 cycles_to_irq_at_def timer_irq_def Let_def
      demo_divisor) (simp add: timers_demo_def ticks_to_irq_def target_dist_def timer_zero_def)

theorem timers_advance_is_ticking_witness:
  "tview 2 (timers_advance 10 timers_demo)
     = tview 2 (((timer_tick_one 2 ^^ 2) timers_demo)\<lparr>frac := (frac timers_demo)(2 := 0)\<rparr>)"
proof -
  have "ticks_in 10 2 timers_demo = 2" "frac_after 10 2 timers_demo = 0"
    by (simp_all add: ticks_in_def frac_after_def demo_divisor) (simp_all add: timers_demo_def)
  then show ?thesis
    using timers_advance_is_ticking [OF demo_wf, where t = 2 and c = 10] by simp
qed

theorem timers_advance_sliced_witness:
  "tview 2 (timers_advance 4 (timers_advance 6 timers_demo)) = tview 2 (timers_advance 10 timers_demo)"
  using timers_advance_sliced [OF demo_wf, where u = 2 and cs = "[6, 4]"] by simp

theorem timers_horizon_sound_witness:
  "i_stat (tenv (timers_advance 9 timers_demo)) AND 0x40 = 0
   \<and> fired (timers_advance 9 timers_demo) 2 = 0"
proof -
  have "(9 :: u32) < timers_cycles_to_irq 0x40 timers_demo" by (simp add: demo_horizon)
  from timers_horizon_sound [OF this] have
    "i_stat (tenv (timers_advance 9 timers_demo)) AND 0x40 = i_stat (tenv timers_demo) AND 0x40"
    "bit (0x40 :: u32) (4 + 2) \<longrightarrow> fired (timers_advance 9 timers_demo) 2 = fired timers_demo 2"
    by simp_all
  then show ?thesis
    by (simp add: timers_demo_def irq_power_on_def bit_numeral_rec)
qed

theorem timers_registers_witness:
  "fst (timers_read True 0x1F801118 (timers_write 0x1F801118 0x12345 timers_demo)) = 0x2345"
  using timers_registers [where n = 1 and v = "0x12345" and s = timers_demo] by (simp add: timer_addr_def)

end
