(* ===== verification/GuestMem.thy ===== *)
theory GuestMem
  imports Timers
begin

section \<open>The guest memory map: memory.c and mod\_memory.h\<close>

text \<open>
  The physical memory of the console and the routing of every CPU access to it: main RAM with
  its mirrors, the two arenas trusted mods may allocate, the scratchpad, the BIOS ROM, the
  register window and the regions where nothing answers. The devices behind the register window
  that are modelled (interrupt registers and timers) are called directly; the others are
  functions of a \<open>devices\<close> record over the whole state. Hooks that only feed the recompiler's
  bookkeeping or a trace act on the extension \<open>ext\<close>. The lockstep and shard-recording wrappers
  around the raw accessors are not modelled.
\<close>

record 'x gsys =
  ram :: "nat \<Rightarrow> u8"
  scratchpad :: "nat \<Rightarrow> u8"
  bios_rom :: "nat \<Rightarrow> u8"
  mod_memory :: "nat \<Rightarrow> u8"
  mod_memory_used :: u32
  mod_gpu_memory :: "nat \<Rightarrow> u8"
  mod_gpu_memory_used :: u32
  mem_ctrl :: "nat \<Rightarrow> u32"
  ram_size_reg :: u32
  cache_ctrl :: u32
  sr_cell :: "u32 option"
  kseg2_ignored_reads :: u64
  kseg2_ignored_writes :: u64
  io_openbus_reads :: u64
  io_openbus_writes :: u64
  guest_store_count :: u64
  game_started :: bool
  last_store_pc :: u32
  evcb_protect :: bool
  tmr :: timers
  ext :: 'x

record 'x devices =
  mmio_sync :: "'x gsys \<Rightarrow> 'x gsys"
  sio_poll :: "'x gsys \<Rightarrow> 'x gsys"
  sio_read :: "u32 \<Rightarrow> 'x gsys \<Rightarrow> u32 \<times> 'x gsys"
  sio_write :: "u32 \<Rightarrow> u32 \<Rightarrow> 'x gsys \<Rightarrow> 'x gsys"
  dev_dma_read :: "u32 \<Rightarrow> 'x gsys \<Rightarrow> u32 \<times> 'x gsys"
  dev_dma_write :: "u32 \<Rightarrow> u32 \<Rightarrow> 'x gsys \<Rightarrow> 'x gsys"
  dev_dma_write_masked :: "u32 \<Rightarrow> u32 \<Rightarrow> u32 \<Rightarrow> 'x gsys \<Rightarrow> 'x gsys"
  cdrom_read :: "u32 \<Rightarrow> 'x gsys \<Rightarrow> u32 \<times> 'x gsys"
  cdrom_write :: "u32 \<Rightarrow> u32 \<Rightarrow> 'x gsys \<Rightarrow> 'x gsys"
  gpu_read :: "'x gsys \<Rightarrow> u32 \<times> 'x gsys"
  gpu_stat :: "'x gsys \<Rightarrow> u32 \<times> 'x gsys"
  gpu_gp0 :: "u32 \<Rightarrow> 'x gsys \<Rightarrow> 'x gsys"
  gpu_gp1 :: "u32 \<Rightarrow> 'x gsys \<Rightarrow> 'x gsys"
  dev_mdec_read :: "u32 \<Rightarrow> 'x gsys \<Rightarrow> u32 \<times> 'x gsys"
  dev_mdec_write :: "u32 \<Rightarrow> u32 \<Rightarrow> 'x gsys \<Rightarrow> 'x gsys"
  spu_read :: "u32 \<Rightarrow> 'x gsys \<Rightarrow> u32 \<times> 'x gsys"
  spu_write :: "u32 \<Rightarrow> u32 \<Rightarrow> 'x gsys \<Rightarrow> 'x gsys"
  hold_imask7 :: "'x gsys \<Rightarrow> bool"
  imask_handoff :: "u32 \<Rightarrow> u32 \<Rightarrow> irq_env \<Rightarrow> irq_env"
  ram_note :: "u32 \<Rightarrow> u32 \<Rightarrow> nat \<Rightarrow> 'x \<Rightarrow> 'x"
  gte_invalidate :: "u32 \<Rightarrow> 'x \<Rightarrow> 'x"

subsection \<open>Address translation\<close>

abbreviation RAM_SIZE :: u32 where "RAM_SIZE \<equiv> 0x200000"

definition psx_phys_addr :: "u32 \<Rightarrow> u32" where
  "psx_phys_addr addr =
     (let phys = addr AND 0x1FFFFFFF
      in if phys < 0x00800000 then phys AND 0x1FFFFF else phys)"

subsection \<open>The mod arenas\<close>

abbreviation MOD_MEMORY_BASE :: u32 where "MOD_MEMORY_BASE \<equiv> 0x1F000000"
abbreviation MOD_MEMORY_SIZE :: u32 where "MOD_MEMORY_SIZE \<equiv> 0x100000"

definition zero_range :: "u32 \<Rightarrow> u32 \<Rightarrow> (nat \<Rightarrow> u8) \<Rightarrow> nat \<Rightarrow> u8" where
  "zero_range start sz f i = (if unat start \<le> i \<and> i < unat start + unat sz then 0 else f i)"

text \<open>The placement both allocators compute: \<open>None\<close> is a refusal.\<close>

definition arena_place :: "u32 \<Rightarrow> u32 \<Rightarrow> u32 \<Rightarrow> u32 option" where
  "arena_place used sz alignment =
     (if sz = 0 then None
      else let alignment = (if alignment = 0 then 1 else alignment) in
      if alignment AND (alignment - 1) \<noteq> 0 \<or> alignment > 4096 then None
      else let start = (used + alignment - 1) AND NOT (alignment - 1) in
      if start > MOD_MEMORY_SIZE \<or> sz > MOD_MEMORY_SIZE - start then None
      else Some start)"

definition psx_mod_memory_alloc :: "u32 \<Rightarrow> u32 \<Rightarrow> 'x gsys \<Rightarrow> u32 \<times> 'x gsys" where
  "psx_mod_memory_alloc sz alignment s =
     (case arena_place (mod_memory_used s) sz alignment of
        None \<Rightarrow> (0, s)
      | Some start \<Rightarrow>
          (0x9F000000 + start,
           s\<lparr>mod_memory := zero_range start sz (mod_memory s),
             mod_memory_used := start + sz\<rparr>))"

definition mod_memory_offset :: "u32 \<Rightarrow> u32 \<Rightarrow> 'x gsys \<Rightarrow> u32 option" where
  "mod_memory_offset phys width s =
     (if phys < MOD_MEMORY_BASE then None
      else let off = phys - MOD_MEMORY_BASE in
      if off > mod_memory_used s \<or> width > mod_memory_used s - off then None
      else Some off)"

abbreviation GPU_APERTURE_BASE :: u32 where "GPU_APERTURE_BASE \<equiv> 0x00F00000"

definition psx_mod_gpu_dma_memory_alloc :: "u32 \<Rightarrow> u32 \<Rightarrow> 'x gsys \<Rightarrow> u32 \<times> 'x gsys" where
  "psx_mod_gpu_dma_memory_alloc sz alignment s =
     (case arena_place (mod_gpu_memory_used s) sz alignment of
        None \<Rightarrow> (0, s)
      | Some start \<Rightarrow>
          (0x80F00000 + start,
           s\<lparr>mod_gpu_memory := zero_range start sz (mod_gpu_memory s),
             mod_gpu_memory_used := start + sz\<rparr>))"

definition psx_mod_gpu_dma_aperture_offset_for :: "u32 \<Rightarrow> u32 \<Rightarrow> u32 \<Rightarrow> u32 option" where
  "psx_mod_gpu_dma_aperture_offset_for address width used =
     (let canonical = address AND 0x00FFFFFF in
      if canonical < GPU_APERTURE_BASE then None
      else let off = canonical - GPU_APERTURE_BASE in
      if off > used \<or> width > used - off then None
      else Some off)"

definition mod_gpu_dma_memory_offset :: "u32 \<Rightarrow> u32 \<Rightarrow> 'x gsys \<Rightarrow> u32 option" where
  "mod_gpu_dma_memory_offset phys width s =
     psx_mod_gpu_dma_aperture_offset_for phys width (mod_gpu_memory_used s)"

definition psx_mod_gpu_dma_resolve_address_for :: "u32 \<Rightarrow> u32 \<Rightarrow> u32" where
  "psx_mod_gpu_dma_resolve_address_for address used =
     (let canonical = address AND 0x00FFFFFC
      in if psx_mod_gpu_dma_aperture_offset_for canonical 4 used \<noteq> None then canonical
         else canonical AND 0x001FFFFC)"

definition psx_mod_gpu_dma_resolve_address :: "u32 \<Rightarrow> 'x gsys \<Rightarrow> u32" where
  "psx_mod_gpu_dma_resolve_address address s =
     psx_mod_gpu_dma_resolve_address_for address (mod_gpu_memory_used s)"

subsection \<open>Little-endian access to a byte array\<close>

definition get8 :: "(nat \<Rightarrow> u8) \<Rightarrow> u32 \<Rightarrow> u8" where
  "get8 f off = f (unat off)"

definition get16 :: "(nat \<Rightarrow> u8) \<Rightarrow> u32 \<Rightarrow> u16" where
  "get16 f off = ucast (get8 f off) OR push_bit 8 (ucast (get8 f (off + 1)))"

definition get32 :: "(nat \<Rightarrow> u8) \<Rightarrow> u32 \<Rightarrow> u32" where
  "get32 f off = ucast (get8 f off) OR push_bit 8 (ucast (get8 f (off + 1)))
     OR push_bit 16 (ucast (get8 f (off + 2))) OR push_bit 24 (ucast (get8 f (off + 3)))"

definition put8 :: "u32 \<Rightarrow> u8 \<Rightarrow> (nat \<Rightarrow> u8) \<Rightarrow> nat \<Rightarrow> u8" where
  "put8 off v f = f(unat off := v)"

definition put16 :: "u32 \<Rightarrow> u16 \<Rightarrow> (nat \<Rightarrow> u8) \<Rightarrow> nat \<Rightarrow> u8" where
  "put16 off v f = put8 (off + 1) (ucast (drop_bit 8 v)) (put8 off (ucast v) f)"

definition put32 :: "u32 \<Rightarrow> u32 \<Rightarrow> (nat \<Rightarrow> u8) \<Rightarrow> nat \<Rightarrow> u8" where
  "put32 off v f =
     put8 (off + 3) (ucast (drop_bit 24 v)) (put8 (off + 2) (ucast (drop_bit 16 v))
       (put8 (off + 1) (ucast (drop_bit 8 v)) (put8 off (ucast v) f)))"

subsection \<open>The register window\<close>

text \<open>Access to the interrupt state and the timers inside the whole.\<close>

definition upd_env :: "(irq_env \<Rightarrow> irq_env) \<Rightarrow> 'x gsys \<Rightarrow> 'x gsys" where
  "upd_env f s = s\<lparr>tmr := (tmr s)\<lparr>tenv := f (tenv (tmr s))\<rparr>\<rparr>"

definition tm_read :: "u32 \<Rightarrow> 'x gsys \<Rightarrow> u32 \<times> 'x gsys" where
  "tm_read addr s = (let (v, t) = timers_read True addr (tmr s) in (v, s\<lparr>tmr := t\<rparr>))"

definition tm_write :: "u32 \<Rightarrow> u32 \<Rightarrow> 'x gsys \<Rightarrow> 'x gsys" where
  "tm_write addr v s = s\<lparr>tmr := timers_write addr v (tmr s)\<rparr>"

definition write_stat :: "u32 \<Rightarrow> u32 \<Rightarrow> 'x gsys \<Rightarrow> 'x gsys" where
  "write_stat val msk = upd_env (interrupt_write_stat_masked val msk)"

definition write_mask :: "'x devices \<Rightarrow> u32 \<Rightarrow> u32 \<Rightarrow> 'x gsys \<Rightarrow> 'x gsys" where
  "write_mask d val msk s =
     upd_env (interrupt_write_mask_masked (hold_imask7 d s) (imask_handoff d) val msk) s"

definition in_window :: "u32 \<Rightarrow> u32 \<Rightarrow> u32 \<Rightarrow> bool" where
  "in_window lo hi addr \<longleftrightarrow> lo \<le> addr \<and> addr \<le> hi"

definition mem_ctrl_index :: "u32 \<Rightarrow> nat" where
  "mem_ctrl_index addr = unat (drop_bit 2 (addr - 0x1F801000))"

definition io_open_read :: "'x gsys \<Rightarrow> u32 \<times> 'x gsys" where
  "io_open_read s = (0, s\<lparr>io_openbus_reads := io_openbus_reads s + 1\<rparr>)"

definition io_open_write :: "'x gsys \<Rightarrow> 'x gsys" where
  "io_open_write s = s\<lparr>io_openbus_writes := io_openbus_writes s + 1\<rparr>"

definition mmio_read32_impl :: "'x devices \<Rightarrow> u32 \<Rightarrow> 'x gsys \<Rightarrow> u32 \<times> 'x gsys" where
  "mmio_read32_impl d addr s =
     (if in_window 0x1F801000 0x1F80103C addr then (mem_ctrl s (mem_ctrl_index addr), s)
      else if in_window 0x1F801040 0x1F80105F addr then sio_read d addr s
      else if addr = 0x1F801060 then (ram_size_reg s, s)
      else if addr = 0x1F801070 then (let s1 = sio_poll d s in (i_stat (tenv (tmr s1)), s1))
      else if addr = 0x1F801074 then (i_mask (tenv (tmr s)), s)
      else if in_window 0x1F801080 0x1F8010FF addr then dev_dma_read d addr s
      else if in_window 0x1F801100 0x1F80112F addr then tm_read addr s
      else if in_window 0x1F801800 0x1F801803 addr then cdrom_read d addr s
      else if addr = 0x1F801810 then gpu_read d s
      else if addr = 0x1F801814 then gpu_stat d s
      else if addr = 0x1F801820 \<or> addr = 0x1F801824 then dev_mdec_read d addr s
      else if in_window 0x1F801C00 0x1F801FFF addr then spu_read d addr s
      else if in_window 0x1F802000 0x1F802FFF addr then (0, s)
      else io_open_read s)"

definition mmio_read32 :: "'x devices \<Rightarrow> u32 \<Rightarrow> 'x gsys \<Rightarrow> u32 \<times> 'x gsys" where
  "mmio_read32 d addr s = mmio_read32_impl d addr (mmio_sync d s)"

definition mmio_write32 :: "'x devices \<Rightarrow> u32 \<Rightarrow> u32 \<Rightarrow> 'x gsys \<Rightarrow> 'x gsys" where
  "mmio_write32 d addr val s0 =
     (let s = mmio_sync d s0 in
      if in_window 0x1F801000 0x1F80103C addr
      then s\<lparr>mem_ctrl := (mem_ctrl s)(mem_ctrl_index addr := val)\<rparr>
      else if in_window 0x1F801040 0x1F80105F addr then sio_write d addr val s
      else if addr = 0x1F801060 then s\<lparr>ram_size_reg := val\<rparr>
      else if addr = 0x1F801070 then write_stat val 0xFFFFFFFF s
      else if addr = 0x1F801074 then write_mask d val 0xFFFFFFFF s
      else if in_window 0x1F801080 0x1F8010FF addr then dev_dma_write d addr val s
      else if in_window 0x1F801100 0x1F80112F addr then tm_write addr val s
      else if in_window 0x1F801800 0x1F801803 addr then cdrom_write d addr val s
      else if addr = 0x1F801810 then gpu_gp0 d val s
      else if addr = 0x1F801814 then gpu_gp1 d val s
      else if addr = 0x1F801820 \<or> addr = 0x1F801824 then dev_mdec_write d addr val s
      else if in_window 0x1F801C00 0x1F801FFF addr then spu_write d addr val s
      else if in_window 0x1F802000 0x1F802FFF addr then s
      else io_open_write s)"

text \<open>Byte-lane arithmetic of the sub-word accesses.\<close>

definition lane_read :: "u32 \<Rightarrow> nat \<Rightarrow> u32" where
  "lane_read v shift = drop_bit shift v"

definition lane_write :: "u32 \<Rightarrow> nat \<Rightarrow> u32 \<Rightarrow> u32 \<Rightarrow> u32" where
  "lane_write cur shift lanes val = (cur AND NOT (push_bit shift lanes)) OR push_bit shift val"

definition half_shift :: "u32 \<Rightarrow> nat" where
  "half_shift addr = 8 * unat (addr AND 2)"

definition byte_shift :: "u32 \<Rightarrow> nat" where
  "byte_shift addr = 8 * unat (addr AND 3)"

definition word_of :: "u32 \<Rightarrow> u32" where
  "word_of addr = addr AND NOT 3"

definition half_of :: "u32 \<times> 'x gsys \<Rightarrow> u16 \<times> 'x gsys" where
  "half_of p = (ucast (fst p), snd p)"

definition byte_of :: "u32 \<times> 'x gsys \<Rightarrow> u8 \<times> 'x gsys" where
  "byte_of p = (ucast (fst p), snd p)"

definition mmio_read16_impl :: "'x devices \<Rightarrow> u32 \<Rightarrow> 'x gsys \<Rightarrow> u16 \<times> 'x gsys" where
  "mmio_read16_impl d addr s =
     (if in_window 0x1F801000 0x1F80103F addr
      then (ucast (lane_read (mem_ctrl s (mem_ctrl_index addr)) (half_shift addr)), s)
      else if in_window 0x1F801060 0x1F801063 addr
      then (ucast (lane_read (ram_size_reg s) (half_shift addr)), s)
      else if in_window 0x1F801040 0x1F80105F addr then half_of (sio_read d addr s)
      else if in_window 0x1F801070 0x1F801072 addr
      then (let s1 = sio_poll d s
            in (ucast (lane_read (i_stat (tenv (tmr s1))) (half_shift addr)), s1))
      else if in_window 0x1F801074 0x1F801076 addr
      then (ucast (lane_read (i_mask (tenv (tmr s))) (half_shift addr)), s)
      else if in_window 0x1F801100 0x1F80112F addr then half_of (tm_read addr s)
      else if in_window 0x1F801080 0x1F8010FF addr
      then (let (v, s1) = dev_dma_read d (word_of addr) s
            in (if addr AND 2 \<noteq> 0 then ucast (drop_bit 16 v) else ucast v, s1))
      else if in_window 0x1F801820 0x1F801827 addr
      then (let (v, s1) = dev_mdec_read d (word_of addr) s
            in (if addr AND 2 \<noteq> 0 then ucast (drop_bit 16 v) else ucast v, s1))
      else if in_window 0x1F801C00 0x1F801FFF addr then half_of (spu_read d addr s)
      else half_of (io_open_read s))"

definition mmio_read16 :: "'x devices \<Rightarrow> u32 \<Rightarrow> 'x gsys \<Rightarrow> u16 \<times> 'x gsys" where
  "mmio_read16 d addr s = mmio_read16_impl d addr (mmio_sync d s)"

definition mmio_write16 :: "'x devices \<Rightarrow> u32 \<Rightarrow> u16 \<Rightarrow> 'x gsys \<Rightarrow> 'x gsys" where
  "mmio_write16 d addr val s0 =
     (let s = mmio_sync d s0; v = ucast val :: u32; sh = half_shift addr in
      if in_window 0x1F801000 0x1F80103F addr
      then s\<lparr>mem_ctrl := (mem_ctrl s)(mem_ctrl_index addr :=
             lane_write (mem_ctrl s (mem_ctrl_index addr)) sh 0xFFFF v)\<rparr>
      else if in_window 0x1F801060 0x1F801063 addr
      then s\<lparr>ram_size_reg := lane_write (ram_size_reg s) sh 0xFFFF v\<rparr>
      else if in_window 0x1F801040 0x1F80105F addr then sio_write d addr v s
      else if in_window 0x1F801070 0x1F801072 addr
      then write_stat (push_bit sh v) (push_bit sh 0xFFFF) s
      else if in_window 0x1F801074 0x1F801076 addr
      then write_mask d (push_bit sh v) (push_bit sh 0xFFFF) s
      else if in_window 0x1F801100 0x1F80112F addr then tm_write addr v s
      else if in_window 0x1F801080 0x1F8010FF addr
      then dev_dma_write_masked d (word_of addr) (push_bit sh v) (push_bit sh 0xFFFF) s
      else if in_window 0x1F801820 0x1F801827 addr
      then (let (cur, s1) = dev_mdec_read d (word_of addr) s
            in dev_mdec_write d (word_of addr)
                 (if addr AND 2 \<noteq> 0 then (cur AND 0x0000FFFF) OR push_bit 16 v
                  else (cur AND 0xFFFF0000) OR v) s1)
      else if in_window 0x1F801C00 0x1F801FFF addr then spu_write d addr v s
      else io_open_write s)"

definition mmio_read8_impl :: "'x devices \<Rightarrow> u32 \<Rightarrow> 'x gsys \<Rightarrow> u8 \<times> 'x gsys" where
  "mmio_read8_impl d addr s =
     (if in_window 0x1F801000 0x1F80103F addr
      then (ucast (lane_read (mem_ctrl s (mem_ctrl_index addr)) (byte_shift addr)), s)
      else if in_window 0x1F801060 0x1F801063 addr
      then (ucast (lane_read (ram_size_reg s) (byte_shift addr)), s)
      else if in_window 0x1F801070 0x1F801077 addr
      then (let s1 = (if addr < 0x1F801074 then sio_poll d s else s);
                v = (if addr < 0x1F801074 then i_stat (tenv (tmr s1)) else i_mask (tenv (tmr s1)))
            in (ucast (lane_read v (byte_shift addr)), s1))
      else if in_window 0x1F801040 0x1F80104F addr then byte_of (sio_read d (word_of addr) s)
      else if in_window 0x1F801080 0x1F8010FF addr
      then (let (v, s1) = dev_dma_read d (word_of addr) s
            in (ucast (lane_read v (byte_shift addr)), s1))
      else if in_window 0x1F801820 0x1F801827 addr
      then (let (v, s1) = dev_mdec_read d (word_of addr) s
            in (ucast (lane_read v (byte_shift addr)), s1))
      else if in_window 0x1F801800 0x1F801803 addr then byte_of (cdrom_read d addr s)
      else if in_window 0x1F802000 0x1F802FFF addr then (0, s)
      else byte_of (io_open_read s))"

definition mmio_read8 :: "'x devices \<Rightarrow> u32 \<Rightarrow> 'x gsys \<Rightarrow> u8 \<times> 'x gsys" where
  "mmio_read8 d addr s = mmio_read8_impl d addr (mmio_sync d s)"

definition mmio_write8 :: "'x devices \<Rightarrow> u32 \<Rightarrow> u8 \<Rightarrow> 'x gsys \<Rightarrow> 'x gsys" where
  "mmio_write8 d addr val s0 =
     (let s = mmio_sync d s0; v = ucast val :: u32; sh = byte_shift addr in
      if in_window 0x1F801000 0x1F80103F addr
      then s\<lparr>mem_ctrl := (mem_ctrl s)(mem_ctrl_index addr :=
             lane_write (mem_ctrl s (mem_ctrl_index addr)) sh 0xFF v)\<rparr>
      else if in_window 0x1F801060 0x1F801063 addr
      then s\<lparr>ram_size_reg := lane_write (ram_size_reg s) sh 0xFF v\<rparr>
      else if in_window 0x1F801070 0x1F801073 addr
      then write_stat (push_bit sh v) (push_bit sh 0xFF) s
      else if in_window 0x1F801074 0x1F801077 addr
      then write_mask d (push_bit sh v) (push_bit sh 0xFF) s
      else if in_window 0x1F801040 0x1F80105F addr then sio_write d (word_of addr) v s
      else if in_window 0x1F801080 0x1F8010FF addr
      then dev_dma_write_masked d (word_of addr) (push_bit sh v) (push_bit sh 0xFF) s
      else if in_window 0x1F801100 0x1F80112F addr
      then (let (cur, s1) = tm_read (word_of addr) s
            in tm_write (word_of addr) (lane_write cur sh 0xFF v) s1)
      else if in_window 0x1F801820 0x1F801827 addr
      then (let (cur, s1) = dev_mdec_read d (word_of addr) s
            in dev_mdec_write d (word_of addr) (lane_write cur sh 0xFF v) s1)
      else if in_window 0x1F801800 0x1F801803 addr then cdrom_write d addr v s
      else if in_window 0x1F802000 0x1F802FFF addr then s
      else io_open_write s)"

subsection \<open>Reads\<close>

abbreviation is_expansion :: "u32 \<Rightarrow> bool" where
  "is_expansion phys \<equiv> in_window 0x1F000000 0x1F7FFFFF phys"
abbreviation is_scratchpad :: "u32 \<Rightarrow> bool" where
  "is_scratchpad phys \<equiv> in_window 0x1F800000 0x1F8003FF phys"
abbreviation is_mmio :: "u32 \<Rightarrow> bool" where
  "is_mmio phys \<equiv> in_window 0x1F801000 0x1F803FFF phys"
abbreviation is_bios :: "u32 \<Rightarrow> bool" where
  "is_bios phys \<equiv> in_window 0x1FC00000 0x1FC7FFFF phys"

definition ignore_read :: "'x gsys \<Rightarrow> 'x gsys" where
  "ignore_read s = s\<lparr>kseg2_ignored_reads := kseg2_ignored_reads s + 1\<rparr>"

definition psx_read_word_raw :: "'x devices \<Rightarrow> u32 \<Rightarrow> 'x gsys \<Rightarrow> u32 \<times> 'x gsys" where
  "psx_read_word_raw d addr s =
     (if addr = 0xFFFE0130 then (cache_ctrl s, s)
      else if addr \<ge> 0xC0000000 then (0, ignore_read s)
      else let phys = psx_phys_addr addr in
      if phys < RAM_SIZE then (get32 (ram s) phys, s)
      else case mod_gpu_dma_memory_offset phys 4 s of
        Some off \<Rightarrow> (get32 (mod_gpu_memory s) off, s)
      | None \<Rightarrow>
      (case mod_memory_offset phys 4 s of
        Some off \<Rightarrow> (get32 (mod_memory s) off, s)
      | None \<Rightarrow>
      if is_expansion phys then (0xFFFFFFFF, s)
      else if is_scratchpad phys then (get32 (scratchpad s) (phys - 0x1F800000), s)
      else if is_mmio phys then mmio_read32 d phys s
      else if is_bios phys then (get32 (bios_rom s) (phys - 0x1FC00000), s)
      else (0, s)))"

definition psx_read_half_raw :: "'x devices \<Rightarrow> u32 \<Rightarrow> 'x gsys \<Rightarrow> u16 \<times> 'x gsys" where
  "psx_read_half_raw d addr s =
     (if addr \<ge> 0xC0000000 then (0, ignore_read s)
      else let phys = psx_phys_addr addr in
      if phys < RAM_SIZE then (get16 (ram s) phys, s)
      else case mod_gpu_dma_memory_offset phys 2 s of
        Some off \<Rightarrow> (get16 (mod_gpu_memory s) off, s)
      | None \<Rightarrow>
      (case mod_memory_offset phys 2 s of
        Some off \<Rightarrow> (get16 (mod_memory s) off, s)
      | None \<Rightarrow>
      if is_expansion phys then (0xFFFF, s)
      else if is_scratchpad phys then (get16 (scratchpad s) (phys - 0x1F800000), s)
      else if is_mmio phys then mmio_read16 d phys s
      else if is_bios phys then (get16 (bios_rom s) (phys - 0x1FC00000), s)
      else (0, s)))"

definition psx_read_byte_raw :: "'x devices \<Rightarrow> u32 \<Rightarrow> 'x gsys \<Rightarrow> u8 \<times> 'x gsys" where
  "psx_read_byte_raw d addr s =
     (if addr \<ge> 0xC0000000 then (0, ignore_read s)
      else let phys = psx_phys_addr addr in
      if phys < RAM_SIZE then (get8 (ram s) phys, s)
      else case mod_gpu_dma_memory_offset phys 1 s of
        Some off \<Rightarrow> (get8 (mod_gpu_memory s) off, s)
      | None \<Rightarrow>
      (case mod_memory_offset phys 1 s of
        Some off \<Rightarrow> (get8 (mod_memory s) off, s)
      | None \<Rightarrow>
      if is_expansion phys then (0xFF, s)
      else if is_scratchpad phys then (get8 (scratchpad s) (phys - 0x1F800000), s)
      else if is_mmio phys then mmio_read8 d phys s
      else if is_bios phys then (get8 (bios_rom s) (phys - 0x1FC00000), s)
      else (0, s)))"

subsection \<open>Writes\<close>

definition cache_isolated :: "'x gsys \<Rightarrow> bool" where
  "cache_isolated s = (case sr_cell s of None \<Rightarrow> False | Some sr \<Rightarrow> sr AND 0x10000 \<noteq> 0)"

text \<open>The stores of the BIOS that the code keeps out of RAM.\<close>

definition bios_dummy_pcs :: "u32 list" where
  "bios_dummy_pcs = [0xBFC04E90, 0xBFC04EF0, 0xBFC05164, 0xBFC0D634, 0xBFC3EEB4, 0xBFC405E4,
     0xBFC40788, 0xBFC41C50, 0x80012434, 0x800125AC]"

definition bios_store_hidden :: "u32 \<Rightarrow> 'x gsys \<Rightarrow> bool" where
  "bios_store_hidden phys s \<longleftrightarrow>
     game_started s \<and>
     (phys < 0x10 \<and> last_store_pc s = 0xBFC10A00
      \<or> phys = 0 \<and> last_store_pc s \<in> set bios_dummy_pcs)"

definition evcb_store_hidden :: "u32 \<Rightarrow> u32 \<Rightarrow> 'x gsys \<Rightarrow> bool" where
  "evcb_store_hidden phys val s \<longleftrightarrow>
     evcb_protect s \<and> game_started s \<and> last_store_pc s = 0xBFC117E4 \<and> val = 0x2000 \<and>
     phys \<ge> 4 \<and> phys + 8 < RAM_SIZE \<and>
     get32 (ram s) phys = 0x4000 \<and> get32 (ram s) (phys - 4) = 0xF0000011 \<and>
     get32 (ram s) (phys + 8) = 0x2000 \<and>
     get32 (ram s) (phys + 4) \<in> {0x4, 0x8000, 0x100, 0x200, 0x2000}"

definition count_store :: "'x devices \<Rightarrow> u32 \<Rightarrow> 'x gsys \<Rightarrow> 'x gsys" where
  "count_store d addr s =
     s\<lparr>guest_store_count := guest_store_count s + 1, ext := gte_invalidate d addr (ext s)\<rparr>"

definition note_ram :: "'x devices \<Rightarrow> u32 \<Rightarrow> u32 \<Rightarrow> nat \<Rightarrow> 'x gsys \<Rightarrow> 'x gsys" where
  "note_ram d phys val width s = s\<lparr>ext := ram_note d phys val width (ext s)\<rparr>"

definition ignore_write :: "'x gsys \<Rightarrow> 'x gsys" where
  "ignore_write s = s\<lparr>kseg2_ignored_writes := kseg2_ignored_writes s + 1\<rparr>"

definition psx_write_word_raw :: "'x devices \<Rightarrow> u32 \<Rightarrow> u32 \<Rightarrow> 'x gsys \<Rightarrow> 'x gsys" where
  "psx_write_word_raw d addr val s0 =
     (let s = count_store d addr s0 in
      if addr = 0xFFFE0130 then s\<lparr>cache_ctrl := val\<rparr>
      else if addr \<ge> 0xC0000000 then ignore_write s
      else if cache_isolated s then s
      else let phys = psx_phys_addr addr in
      if bios_store_hidden phys s then s
      else if phys < RAM_SIZE
      then (if evcb_store_hidden phys val s then s
            else (note_ram d phys val 4 s)\<lparr>ram := put32 phys val (ram s)\<rparr>)
      else case mod_gpu_dma_memory_offset phys 4 s of
        Some off \<Rightarrow> s\<lparr>mod_gpu_memory := put32 off val (mod_gpu_memory s)\<rparr>
      | None \<Rightarrow>
      (case mod_memory_offset phys 4 s of
        Some off \<Rightarrow> s\<lparr>mod_memory := put32 off val (mod_memory s)\<rparr>
      | None \<Rightarrow>
      if is_expansion phys then s
      else if is_scratchpad phys
      then s\<lparr>scratchpad := put32 (phys - 0x1F800000) val (scratchpad s)\<rparr>
      else if is_mmio phys then mmio_write32 d phys val s
      else s))"

definition psx_write_half_raw :: "'x devices \<Rightarrow> u32 \<Rightarrow> u16 \<Rightarrow> 'x gsys \<Rightarrow> 'x gsys" where
  "psx_write_half_raw d addr val s0 =
     (let s = count_store d addr s0 in
      if cache_isolated s then s
      else if addr \<ge> 0xC0000000 then ignore_write s
      else let phys = psx_phys_addr addr in
      if phys < RAM_SIZE
      then (note_ram d phys (ucast val) 2 s)\<lparr>ram := put16 phys val (ram s)\<rparr>
      else case mod_gpu_dma_memory_offset phys 2 s of
        Some off \<Rightarrow> s\<lparr>mod_gpu_memory := put16 off val (mod_gpu_memory s)\<rparr>
      | None \<Rightarrow>
      (case mod_memory_offset phys 2 s of
        Some off \<Rightarrow> s\<lparr>mod_memory := put16 off val (mod_memory s)\<rparr>
      | None \<Rightarrow>
      if is_expansion phys then s
      else if is_scratchpad phys
      then s\<lparr>scratchpad := put16 (phys - 0x1F800000) val (scratchpad s)\<rparr>
      else if is_mmio phys then mmio_write16 d phys val s
      else s))"

definition psx_write_byte_raw :: "'x devices \<Rightarrow> u32 \<Rightarrow> u8 \<Rightarrow> 'x gsys \<Rightarrow> 'x gsys" where
  "psx_write_byte_raw d addr val s0 =
     (let s = count_store d addr s0 in
      if cache_isolated s then s
      else if addr \<ge> 0xC0000000 then ignore_write s
      else let phys = psx_phys_addr addr in
      if phys < RAM_SIZE
      then (note_ram d phys (ucast val) 1 s)\<lparr>ram := put8 phys val (ram s)\<rparr>
      else case mod_gpu_dma_memory_offset phys 1 s of
        Some off \<Rightarrow> s\<lparr>mod_gpu_memory := put8 off val (mod_gpu_memory s)\<rparr>
      | None \<Rightarrow>
      (case mod_memory_offset phys 1 s of
        Some off \<Rightarrow> s\<lparr>mod_memory := put8 off val (mod_memory s)\<rparr>
      | None \<Rightarrow>
      if is_expansion phys then s
      else if is_scratchpad phys
      then s\<lparr>scratchpad := put8 (phys - 0x1F800000) val (scratchpad s)\<rparr>
      else if is_mmio phys then mmio_write8 d phys val s
      else s))"

subsection \<open>Bytes of a word\<close>

lemma unat_plus_small:
  "unat (off :: u32) + k < 2 ^ 32 \<Longrightarrow> unat (off + of_nat k) = unat off + k"
  by (simp add: unat_word_ariths(1) unsigned_of_nat take_bit_nat_eq_self)

lemma unat_plus_123:
  assumes "unat (off :: u32) + 3 < 2 ^ 32"
  shows "unat (off + 1) = unat off + 1" "unat (off + 2) = unat off + 2" "unat (off + 3) = unat off + 3"
  using unat_plus_small [of off 1] unat_plus_small [of off 2] unat_plus_small [of off 3] assms
  by simp_all

lemma bytes_join:
  "ucast (ucast (v :: u32) :: u8) OR push_bit 8 (ucast (ucast (drop_bit 8 v) :: u8))
     OR push_bit 16 (ucast (ucast (drop_bit 16 v) :: u8))
     OR push_bit 24 (ucast (ucast (drop_bit 24 v) :: u8)) = v"
proof (rule bit_word_eqI)
  fix n assume "n < LENGTH(32)"
  then consider "n < 8" | "8 \<le> n" "n < 16" | "16 \<le> n" "n < 24" | "24 \<le> n" "n < 32" by fastforce
  then show "bit (ucast (ucast (v :: u32) :: u8) OR push_bit 8 (ucast (ucast (drop_bit 8 v) :: u8))
     OR push_bit 16 (ucast (ucast (drop_bit 16 v) :: u8))
     OR push_bit 24 (ucast (ucast (drop_bit 24 v) :: u8)) :: u32) n = bit v n"
    by cases (auto simp: bit_simps)
qed

lemma get32_put32: "unat off + 3 < 2 ^ 32 \<Longrightarrow> get32 (put32 off v f) off = v"
  by (simp add: get32_def put32_def get8_def put8_def unat_plus_123 bytes_join)

lemma get32_put32_other:
  assumes "unat a + 3 < 2 ^ 32" "unat b + 3 < 2 ^ 32" "unat a + 3 < unat b \<or> unat b + 3 < unat a"
  shows "get32 (put32 a v f) b = get32 f b"
  using assms by (auto simp: get32_def put32_def get8_def put8_def unat_plus_123)

definition word_aligned :: "u32 \<Rightarrow> bool" where
  "word_aligned a \<longleftrightarrow> unat a mod 4 = 0"

lemma aligned_apart:
  assumes "word_aligned a" "word_aligned b" "a \<noteq> b"
  shows "unat a + 3 < unat b \<or> unat b + 3 < unat a"
proof -
  have "unat a \<noteq> unat b" using assms(3) by (simp add: word_unat_eq_iff)
  then show ?thesis using assms(1,2) unfolding word_aligned_def by presburger
qed

lemma aligned_room:
  assumes "word_aligned a"
  shows "unat a + 3 < 2 ^ 32"
proof -
  have "unat a < 4294967296" by (rule unat_u32_less)
  then have "unat a + 3 < 4294967296" using assms unfolding word_aligned_def by presburger
  then show ?thesis by simp
qed

lemma get32_put32_aligned:
  "word_aligned a \<Longrightarrow> word_aligned b \<Longrightarrow>
   get32 (put32 a v f) b = (if a = b then v else get32 f b)"
  using get32_put32 [OF aligned_room, of a v f]
    get32_put32_other [OF aligned_room aligned_room aligned_apart, of a b v f]
  by (cases "a = b") auto

subsection \<open>Main RAM is a word memory\<close>

text \<open>A CPU address in one of the four mirrors of main RAM, in any of the three segments.\<close>

definition ram_addr :: "u32 \<Rightarrow> bool" where
  "ram_addr a \<longleftrightarrow> a < 0xC0000000 \<and> a AND 0x1FFFFFFF < 0x00800000"

lemma mask_1F: "(0x1FFFFF :: u32) = mask 21"
  by (simp add: mask_eq_exp_minus_1)

lemma ram_phys: "ram_addr a \<Longrightarrow> psx_phys_addr a < RAM_SIZE"
  using unat_and_mask_less [of "a AND 0x1FFFFFFF" 21]
  by (simp add: ram_addr_def psx_phys_addr_def word_less_nat_alt mask_1F [symmetric] Let_def)

lemma ram_not_cache: "ram_addr a \<Longrightarrow> a \<noteq> 0xFFFE0130 \<and> \<not> 0xC0000000 \<le> a"
  by (auto simp: ram_addr_def)

text \<open>No store of the BIOS is being hidden and the data cache is not isolated.\<close>

definition plain_stores :: "'x gsys \<Rightarrow> bool" where
  "plain_stores s \<longleftrightarrow> \<not> cache_isolated s \<and>
     (game_started s \<longrightarrow> last_store_pc s \<notin> {0xBFC10A00, 0xBFC117E4} \<union> set bios_dummy_pcs)"

lemma plain_not_hidden:
  "plain_stores s \<Longrightarrow> \<not> cache_isolated s \<and> \<not> bios_store_hidden p s \<and> \<not> evcb_store_hidden p v s"
  by (auto simp: plain_stores_def bios_store_hidden_def evcb_store_hidden_def)

lemma count_store_fields [simp]:
  "ram (count_store d a s) = ram s" "scratchpad (count_store d a s) = scratchpad s"
  "bios_rom (count_store d a s) = bios_rom s" "mod_memory (count_store d a s) = mod_memory s"
  "mod_gpu_memory (count_store d a s) = mod_gpu_memory s" "tmr (count_store d a s) = tmr s"
  "mod_memory_used (count_store d a s) = mod_memory_used s"
  "mod_gpu_memory_used (count_store d a s) = mod_gpu_memory_used s"
  "mem_ctrl (count_store d a s) = mem_ctrl s" "sr_cell (count_store d a s) = sr_cell s"
  "game_started (count_store d a s) = game_started s"
  "last_store_pc (count_store d a s) = last_store_pc s"
  "plain_stores (count_store d a s) = plain_stores s"
  "cache_isolated (count_store d a s) = cache_isolated s"
  by (simp_all add: count_store_def plain_stores_def cache_isolated_def)

lemma note_ram_fields [simp]:
  "ram (note_ram d p v w s) = ram s" "scratchpad (note_ram d p v w s) = scratchpad s"
  "bios_rom (note_ram d p v w s) = bios_rom s" "tmr (note_ram d p v w s) = tmr s"
  "mod_memory (note_ram d p v w s) = mod_memory s"
  "mod_gpu_memory (note_ram d p v w s) = mod_gpu_memory s"
  "mem_ctrl (note_ram d p v w s) = mem_ctrl s"
  "plain_stores (note_ram d p v w s) = plain_stores s"
  "cache_isolated (note_ram d p v w s) = cache_isolated s"
  by (simp_all add: note_ram_def plain_stores_def cache_isolated_def)

lemma plain_ram [simp]: "plain_stores (s\<lparr>ram := r\<rparr>) = plain_stores s"
  by (simp add: plain_stores_def cache_isolated_def)

lemma read_ram: "ram_addr a \<Longrightarrow> psx_read_word_raw d a s = (get32 (ram s) (psx_phys_addr a), s)"
  using ram_phys ram_not_cache by (simp add: psx_read_word_raw_def Let_def)

lemma write_ram:
  "ram_addr a \<Longrightarrow> plain_stores s \<Longrightarrow> psx_write_word_raw d a v s =
     (note_ram d (psx_phys_addr a) v 4 (count_store d a s))
        \<lparr>ram := put32 (psx_phys_addr a) v (ram s)\<rparr>"
  using ram_phys ram_not_cache plain_not_hidden [of "count_store d a s"]
  by (simp add: psx_write_word_raw_def Let_def)

definition ram_word :: "u32 \<Rightarrow> bool" where
  "ram_word a \<longleftrightarrow> a < RAM_SIZE \<and> word_aligned a"

lemma and_low:
  assumes "unat (a :: u32) < 2 ^ n"
  shows "a AND mask n = a"
  using assms by (simp add: word_unat_eq_iff unat_and_mask)

lemma ram_word_phys:
  assumes "ram_word a"
  shows "psx_phys_addr a = a" "ram_addr a"
proof -
  have lt: "unat a < 0x200000" using assms by (simp add: ram_word_def word_less_nat_alt)
  have m29: "(0x1FFFFFFF :: u32) = mask 29" by (simp add: mask_eq_exp_minus_1)
  have 1: "a AND 0x1FFFFFFF = a" unfolding m29 by (rule and_low) (use lt in simp)
  have 2: "a AND 0x1FFFFF = a" unfolding mask_1F by (rule and_low) (use lt in simp)
  have "a < 0x00800000" "a < 0xC0000000" using lt by (simp_all add: word_less_nat_alt)
  then show "psx_phys_addr a = a" "ram_addr a"
    using 1 2 by (simp_all add: psx_phys_addr_def ram_addr_def)
qed

interpretation main_ram: word_memory plain_stores ram_word
    "\<lambda>a s. fst (psx_read_word_raw d a s)" "psx_write_word_raw d" for d :: "'x devices"
proof unfold_locales
  fix s :: "'x gsys" and a b v :: u32
  assume ok: "plain_stores s"
  show "ram_word a \<Longrightarrow> ram_word b \<Longrightarrow> fst (psx_read_word_raw d b (psx_write_word_raw d a v s))
      = (if a = b then v else fst (psx_read_word_raw d b s))"
    using ok ram_word_phys [of a] ram_word_phys [of b]
    by (simp add: write_ram read_ram get32_put32_aligned ram_word_def)
  show "ram_word a \<Longrightarrow> plain_stores (psx_write_word_raw d a v s)"
    using ok ram_word_phys [of a] by (simp add: write_ram)
qed

subsection \<open>Sub-word stores\<close>

lemma aligned_and_mask:
  assumes "word_aligned a" "2 \<le> n"
  shows "word_aligned (a AND mask n)"
proof -
  have "(4 :: nat) dvd 2 ^ n"
    using le_imp_power_dvd [of 2 n "2 :: nat"] assms(2) by simp
  then show ?thesis
    using assms(1) by (simp add: word_aligned_def unat_and_mask mod_mod_cancel)
qed

lemma mask_29: "(0x1FFFFFFF :: u32) = mask 29"
  by (simp add: mask_eq_exp_minus_1)

lemma ram_phys_eq: "ram_addr a \<Longrightarrow> psx_phys_addr a = (a AND mask 29) AND mask 21"
  by (simp only: psx_phys_addr_def Let_def ram_addr_def mask_29 mask_1F if_True)

lemma ram_phys_aligned: "ram_addr a \<Longrightarrow> word_aligned a \<Longrightarrow> word_aligned (psx_phys_addr a)"
  by (simp only: ram_phys_eq) (intro aligned_and_mask, simp_all)

lemma unat_low_lane:
  assumes "word_aligned a" "k < 4" "2 \<le> n"
  shows "(unat a + k) mod 2 ^ n = unat a mod 2 ^ n + k"
proof -
  obtain q where q: "(2 :: nat) ^ n = 4 * q"
    using le_imp_power_dvd [of 2 n "2 :: nat"] assms(3) by (auto elim!: dvdE)
  obtain r where r: "unat a mod 2 ^ n = 4 * r"
    using aligned_and_mask [OF assms(1,3)] by (auto simp: word_aligned_def unat_and_mask mod_eq_0_iff_dvd elim!: dvdE)
  have "unat a mod 2 ^ n < 2 ^ n" by simp
  then have "4 * r < 2 ^ n" by (simp only: r)
  then have "4 * r < 4 * q" by (simp only: q)
  then have "4 * r + k < 4 * q" using assms(2) by simp
  then have "4 * r + k < 2 ^ n" by (simp only: q)
  then have "unat a mod 2 ^ n + k < 2 ^ n" by (simp only: r)
  then have "(unat a mod 2 ^ n + k) mod 2 ^ n = unat a mod 2 ^ n + k" by (rule mod_less)
  then show ?thesis by (simp only: mod_add_left_eq)
qed

lemma ram_lane:
  assumes "ram_addr a" "word_aligned a" "k < 4"
  shows "ram_addr (a + of_nat k)" "psx_phys_addr (a + of_nat k) = psx_phys_addr a + of_nat k"
    "unat (psx_phys_addr a) + k < 0x200000"
proof -
  have ua: "unat (a + of_nat k) = unat a + k"
    using aligned_room [OF assms(2)] assms(3) by (intro unat_plus_small) simp
  have 29: "unat ((a + of_nat k) AND mask 29) = unat (a AND mask 29) + k"
    using unat_low_lane [OF assms(2,3), of 29] by (simp only: unat_and_mask ua)
  have al: "word_aligned (a AND mask 29)" using assms(2) by (rule aligned_and_mask) simp
  have lt: "unat (a AND mask 29) < 0x800000"
    using assms(1) by (simp add: ram_addr_def mask_29 word_less_nat_alt unat_and_mask)
  have lt': "unat (a AND mask 29) + k < 0x800000"
    using lt al assms(3) unfolding word_aligned_def by presburger
  have c: "unat a + k < 0xC0000000"
    using assms unfolding ram_addr_def word_aligned_def word_less_nat_alt by simp presburger
  show ra: "ram_addr (a + of_nat k)"
    using c lt' by (simp only: ram_addr_def mask_29 word_less_nat_alt ua 29) simp
  have "unat (psx_phys_addr (a + of_nat k)) = (unat (a AND mask 29) + k) mod 2 ^ 21"
    by (simp only: ram_phys_eq [OF ra] unat_and_mask [of _ 21] 29)
  also have "\<dots> = unat (psx_phys_addr a) + k"
    using unat_low_lane [OF al assms(3), of 21]
    by (simp only: ram_phys_eq [OF assms(1)] unat_and_mask [of _ 21])
  finally have u: "unat (psx_phys_addr (a + of_nat k)) = unat (psx_phys_addr a) + k" .
  have "unat (psx_phys_addr a + of_nat k) = unat (psx_phys_addr a) + k"
    using aligned_room [OF ram_phys_aligned [OF assms(1,2)]] assms(3) by (intro unat_plus_small) simp
  with u show "psx_phys_addr (a + of_nat k) = psx_phys_addr a + of_nat k"
    by (simp add: word_unat_eq_iff)
  show "unat (psx_phys_addr a) + k < 0x200000"
    using ram_phys [OF ra] u by (simp add: word_less_nat_alt)
qed

lemma write_ram_byte:
  "ram_addr a \<Longrightarrow> \<not> cache_isolated s \<Longrightarrow> psx_write_byte_raw d a v s =
     (note_ram d (psx_phys_addr a) (ucast v) 1 (count_store d a s))
        \<lparr>ram := put8 (psx_phys_addr a) v (ram s)\<rparr>"
  using ram_phys ram_not_cache by (simp add: psx_write_byte_raw_def Let_def)

lemma isolated_ram [simp]: "cache_isolated (s\<lparr>ram := r\<rparr>) = cache_isolated s"
  by (simp add: cache_isolated_def)

subsection \<open>The arenas\<close>

definition arenas_wf :: "'x gsys \<Rightarrow> bool" where
  "arenas_wf s \<longleftrightarrow> mod_memory_used s \<le> MOD_MEMORY_SIZE \<and> mod_gpu_memory_used s \<le> MOD_MEMORY_SIZE"

lemma and_not_minus: "x AND NOT m = x - (x AND m)" for x m :: u32
proof -
  have "(x AND m) + (x AND NOT m) = ((x AND m) AND (x AND NOT m)) + ((x AND m) OR (x AND NOT m))"
    by (rule word_plus_and_or [symmetric])
  also have "(x AND m) AND (x AND NOT m) = 0" by (rule bit_word_eqI) (auto simp: bit_simps)
  also have "(x AND m) OR (x AND NOT m) = x" by (rule bit_word_eqI) (auto simp: bit_simps)
  finally show ?thesis by (simp add: algebra_simps)
qed

lemma and_le_words: "x AND m \<le> m" "x AND m \<le> x" for x m :: u32
  by (simp_all add: word_le_def unsigned_and_eq AND_upper1 AND_upper2)

lemma unat_and_le: "unat (x AND m) \<le> unat m" for x m :: u32
  using and_le_words(1) [of x m] by (simp add: word_le_nat_alt)

lemma arena_place_spec:
  assumes "arena_place used sz al = Some start" "used \<le> MOD_MEMORY_SIZE"
  shows "unat used \<le> unat start" "unat start + unat sz \<le> 0x100000" "0 < unat sz"
    "start AND ((if al = 0 then 1 else al) - 1) = 0"
proof -
  define m where "m = (if al = 0 then 1 else al) - 1"
  have al: "(if al = 0 then 1 else al) \<le> 4096" "sz \<noteq> 0"
    and st: "start = (used + (if al = 0 then 1 else al) - 1) AND NOT m"
    and fit: "start \<le> MOD_MEMORY_SIZE" "sz \<le> MOD_MEMORY_SIZE - start"
    using assms(1) by (auto simp: arena_place_def Let_def m_def not_less split: if_splits)
  have st': "start = (used + m) AND NOT m" using st by (simp add: m_def algebra_simps)
  have m: "unat m < 4096"
  proof -
    have "(if al = 0 then 1 else al) \<noteq> 0" by simp
    then have "unat m = unat (if al = 0 then 1 else al) - 1"
      unfolding m_def by (rule unat_minus_one)
    then show ?thesis using al(1) by (simp add: word_le_nat_alt split: if_splits)
  qed
  have u: "unat used \<le> 0x100000" using assms(2) by (simp add: word_le_nat_alt)
  have um: "unat (used + m) = unat used + unat m"
    using m u by (simp add: unat_word_ariths(1))
  have "unat start = unat (used + m) - unat ((used + m) AND m)"
    unfolding st' and_not_minus using and_le_words(2) [of "used + m" m] by (simp add: unat_sub)
  then show "unat used \<le> unat start"
    using um unat_and_le [of "used + m" m] by simp
  show "unat start + unat sz \<le> 0x100000"
    using fit by (simp add: word_le_nat_alt unat_sub)
  show "0 < unat sz" using al(2) by (simp add: unat_gt_0)
  show "start AND ((if al = 0 then 1 else al) - 1) = 0"
    unfolding m_def [symmetric] st' by (rule bit_word_eqI) (auto simp: bit_simps)
qed

lemma offset_hardware:
  assumes "arenas_wf s" "is_scratchpad phys \<or> is_mmio phys \<or> is_bios phys" "0 < w"
  shows "mod_memory_offset phys w s = None" "mod_gpu_dma_memory_offset phys w s = None"
proof -
  have p: "0x1F800000 \<le> unat phys" "unat phys < 0x1FC80000"
    using assms(2) by (auto simp: in_window_def word_le_nat_alt)
  have "unat (phys - MOD_MEMORY_BASE) = unat phys - 0x1F000000"
    using p by (simp add: unat_sub word_le_nat_alt)
  moreover have "unat (mod_memory_used s) \<le> 0x100000"
    using assms(1) by (simp add: arenas_wf_def word_le_nat_alt)
  then have "unat (mod_memory_used s) < unat phys - 0x1F000000" using p by linarith
  ultimately show "mod_memory_offset phys w s = None"
    by (simp add: mod_memory_offset_def Let_def word_less_nat_alt)
  have m: "(0x00FFFFFF :: u32) = mask 24" by (simp add: mask_eq_exp_minus_1)
  have "unat (phys AND 0x00FFFFFF) < 0x00F00000"
  proof -
    obtain j where j: "unat phys = j + 31 * 2 ^ 24" "j < 0xC80000"
      using p by (intro that [of "unat phys - 31 * 2 ^ 24"]) simp_all
    then have "unat phys mod 2 ^ 24 = j mod 2 ^ 24" by (simp only: mod_mult_self1)
    with j(2) show ?thesis unfolding m unat_and_mask by simp
  qed
  then show "mod_gpu_dma_memory_offset phys w s = None"
    by (simp add: mod_gpu_dma_memory_offset_def psx_mod_gpu_dma_aperture_offset_for_def
        word_less_nat_alt)
qed

subsection \<open>Properties\<close>

text \<open>
  C26. Main RAM through its mirrors: while the cache is not isolated and no BIOS store is being
  hidden, a word written through any segment and mirror is read back through any other address
  of the same physical word, and every other aligned word of RAM reads as before.
\<close>

theorem ram_read_after_write:
  assumes "plain_stores s" "ram_addr a" "ram_addr b" "word_aligned a" "word_aligned b"
  shows "fst (psx_read_word_raw d b (psx_write_word_raw d a v s)) =
    (if psx_phys_addr a = psx_phys_addr b then v else fst (psx_read_word_raw d b s))"
  using assms ram_phys_aligned [of a] ram_phys_aligned [of b]
  by (simp add: write_ram read_ram get32_put32_aligned)

text \<open>
  A word store is four byte stores: storing the four bytes of a value at consecutive
  addresses leaves RAM exactly as the word store of the value does.
\<close>

theorem ram_bytes_make_word:
  assumes "plain_stores s" "ram_addr a" "word_aligned a"
  shows "ram (psx_write_byte_raw d (a + 3) (ucast (drop_bit 24 v))
           (psx_write_byte_raw d (a + 2) (ucast (drop_bit 16 v))
             (psx_write_byte_raw d (a + 1) (ucast (drop_bit 8 v))
               (psx_write_byte_raw d a (ucast v) s)))) = ram (psx_write_word_raw d a v s)"
proof -
  have iso: "\<not> cache_isolated s" using assms(1) by (simp add: plain_stores_def)
  show ?thesis
    using iso assms ram_lane [OF assms(2,3), of 1] ram_lane [OF assms(2,3), of 2]
      ram_lane [OF assms(2,3), of 3]
    by (simp add: write_ram_byte write_ram put32_def)
qed

text \<open>
  Stores that must not land: a word store to KSEG2, one made while the data cache is isolated,
  or one to the BIOS ROM changes no byte of RAM, of the scratchpad, of the ROM or of the two mod
  arenas, and no device register.
\<close>

theorem blocked_stores:
  fixes d :: "'x devices" and s :: "'x gsys" and addr v :: u32
  assumes "arenas_wf s"
    and "addr \<ge> 0xC0000000 \<or> cache_isolated s \<or> is_bios (psx_phys_addr addr)"
  defines "s' \<equiv> psx_write_word_raw d addr v s"
  shows "ram s' = ram s \<and> scratchpad s' = scratchpad s \<and> bios_rom s' = bios_rom s
    \<and> mod_memory s' = mod_memory s \<and> mod_gpu_memory s' = mod_gpu_memory s
    \<and> tmr s' = tmr s \<and> mem_ctrl s' = mem_ctrl s"
proof -
  let ?s = "count_store d addr s" and ?p = "psx_phys_addr addr"
  have wf: "arenas_wf ?s" using assms(1) by (simp add: arenas_wf_def)
  have bios: "mod_gpu_dma_memory_offset ?p 4 ?s = None \<and> mod_memory_offset ?p 4 ?s = None
      \<and> \<not> ?p < RAM_SIZE \<and> \<not> is_expansion ?p \<and> \<not> is_scratchpad ?p \<and> \<not> is_mmio ?p"
    if "is_bios ?p"
    using offset_hardware [OF wf, of ?p 4] that
    by (auto simp: in_window_def word_le_nat_alt word_less_nat_alt)
  consider "addr \<ge> 0xC0000000" | "\<not> addr \<ge> 0xC0000000" "cache_isolated s"
    | "\<not> addr \<ge> 0xC0000000" "is_bios ?p"
    using assms(2) by blast
  then show ?thesis
  proof cases
    case 1
    then show ?thesis by (simp add: s'_def psx_write_word_raw_def Let_def ignore_write_def)
  next
    case 2
    then have "addr \<noteq> 0xFFFE0130" by auto
    with 2 show ?thesis by (simp add: s'_def psx_write_word_raw_def Let_def)
  next
    case 3
    then have "addr \<noteq> 0xFFFE0130" by auto
    with 3 bios show ?thesis by (simp add: s'_def psx_write_word_raw_def Let_def)
  qed
qed

text \<open>
  The mod arena: a granted block starts at or after everything granted before, is aligned as
  asked, fits the arena and is zeroed; bytes granted earlier are kept; the arena bound is kept;
  and every byte of the block is reachable at the address returned.
\<close>

theorem mod_alloc_block:
  assumes "arenas_wf s" "psx_mod_memory_alloc sz al s = (p, s')" "p \<noteq> 0"
  shows "\<exists>start. p = 0x9F000000 + start
    \<and> unat (mod_memory_used s) \<le> unat start \<and> unat start + unat sz \<le> 0x100000 \<and> 0 < unat sz
    \<and> start AND ((if al = 0 then 1 else al) - 1) = 0
    \<and> (\<forall>i. unat start \<le> i \<longrightarrow> i < unat start + unat sz \<longrightarrow> mod_memory s' i = 0)
    \<and> (\<forall>i < unat (mod_memory_used s). mod_memory s' i = mod_memory s i)
    \<and> arenas_wf s'
    \<and> (\<forall>k < unat sz. mod_memory_offset (psx_phys_addr (p + of_nat k)) 1 s' = Some (start + of_nat k))"
proof -
  obtain start where pl: "arena_place (mod_memory_used s) sz al = Some start"
    using assms(2,3) by (auto simp: psx_mod_memory_alloc_def split: option.splits)
  then have p: "p = 0x9F000000 + start" and s': "s' = s\<lparr>mod_memory := zero_range start sz (mod_memory s),
      mod_memory_used := start + sz\<rparr>"
    using assms(2) by (simp_all add: psx_mod_memory_alloc_def)
  note spec = arena_place_spec [OF pl]
  have used: "mod_memory_used s \<le> MOD_MEMORY_SIZE" using assms(1) by (simp add: arenas_wf_def)
  note sp = spec [OF used]
  have end_: "unat (start + sz) = unat start + unat sz"
    using sp(2) by (simp add: unat_word_ariths(1))
  have wf: "arenas_wf s'" using assms(1) sp(2) by (simp add: s' arenas_wf_def word_le_nat_alt end_)
  have reach: "mod_memory_offset (psx_phys_addr (p + of_nat k)) 1 s' = Some (start + of_nat k)"
    if "k < unat sz" for k
  proof -
    have sk: "unat (start + of_nat k) = unat start + k"
      using that sp(2) by (intro unat_plus_small) simp
    have pk: "unat (p + of_nat k) = 0x9F000000 + (unat start + k)"
      using that sp(2) sk by (simp add: p add.assoc unat_word_ariths(1))
    have "(0x9F000000 :: nat) + (unat start + k) = (0x1F000000 + (unat start + k)) + 4 * 2 ^ 29"
      by simp
    then have "unat ((p + of_nat k) AND 0x1FFFFFFF) = (0x1F000000 + (unat start + k)) mod 2 ^ 29"
      unfolding mask_29 unat_and_mask pk by (simp only: mod_mult_self1)
    then have "unat ((p + of_nat k) AND 0x1FFFFFFF) = 0x1F000000 + (unat start + k)"
      using that sp(2) by simp
    then have ph: "psx_phys_addr (p + of_nat k) = 0x1F000000 + (start + of_nat k)"
      using sk that sp(2)
      by (simp add: psx_phys_addr_def Let_def word_less_nat_alt)
        (simp add: word_unat_eq_iff unat_word_ariths(1))
    have lt1: "start + of_nat k \<le> start + sz"
      using sk end_ that by (simp add: word_le_nat_alt)
    have "unat (start + sz - (start + of_nat k)) = unat sz - k"
      using unat_sub [OF lt1] sk end_ by simp
    then have "(1 :: u32) \<le> start + sz - (start + of_nat k)"
      using that by (simp only: word_le_nat_alt) simp
    note lt = lt1 this
    have "sz \<noteq> of_nat k" using lt(2) by auto
    have ge: "\<not> (0x1F000000 + (start + of_nat k) < MOD_MEMORY_BASE)"
      using sk that sp(2) by (simp add: word_less_nat_alt unat_word_ariths(1))
    show ?thesis
      unfolding ph using lt ge \<open>sz \<noteq> of_nat k\<close>
      by (simp add: mod_memory_offset_def Let_def s' not_less)
  qed
  show ?thesis
    using p sp wf reach by (intro exI [of _ start]) (auto simp: s' zero_range_def)
qed

lemma ff_bit: "bit (0xFF :: int) n \<longleftrightarrow> n < 8"
proof -
  have "(0xFF :: int) = mask 8" by (simp add: mask_eq_exp_minus_1)
  then have "bit (0xFF :: int) n = bit (mask 8 :: int) n" by (simp only:)
  also have "\<dots> \<longleftrightarrow> n < 8" by (simp only: bit_mask_iff) auto
  finally show ?thesis .
qed

lemma seven_ff_bit: "bit (0x7FF :: int) n \<longleftrightarrow> n < 11"
proof -
  have "(0x7FF :: int) = mask 11" by (simp add: mask_eq_exp_minus_1)
  then have "bit (0x7FF :: int) n = bit (mask 11 :: int) n" by (simp only:)
  also have "\<dots> \<longleftrightarrow> n < 11" by (simp only: bit_mask_iff) auto
  finally show ?thesis .
qed

text \<open>
  Acknowledging by byte: a byte store to lane \<open>k\<close> of I\_STAT clears exactly the status bits of
  that lane whose bit in the stored byte is zero; no bit is ever set, the other lanes and the mask
  are left alone.
\<close>

theorem byte_ack_lane:
  fixes d :: "'x devices" and s :: "'x gsys" and k n :: nat and v :: u8
  assumes "k < 4"
  defines "s1 \<equiv> mmio_sync d s"
  defines "s2 \<equiv> mmio_write8 d (0x1F801070 + of_nat k) v s"
  shows "(bit (i_stat (tenv (tmr s2))) n \<longleftrightarrow> bit (i_stat (tenv (tmr s1))) n
      \<and> (n div 8 \<noteq> k \<or> 11 \<le> n \<or> bit v (n - 8 * k)))
    \<and> i_mask (tenv (tmr s2)) = i_mask (tenv (tmr s1))"
proof -
  let ?a = "0x1F801070 + of_nat k :: u32"
  have k: "k = 0 \<or> k = 1 \<or> k = 2 \<or> k = 3" using assms(1) by auto
  then have sh: "byte_shift ?a = 8 * k" by (auto simp: byte_shift_def)
  have s2: "s2 = write_stat (push_bit (8 * k) (ucast v)) (push_bit (8 * k) 0xFF) s1"
  proof -
    have w: "\<not> in_window 0x1F801000 0x1F80103F ?a" "\<not> in_window 0x1F801060 0x1F801063 ?a"
      "in_window 0x1F801070 0x1F801073 ?a"
      using k by (auto simp: in_window_def)
    show ?thesis
      unfolding s2_def mmio_write8_def Let_def s1_def [symmetric] by (simp only: w sh if_False if_True)
  qed
  let ?e = "tenv (tmr s1)"
  have st: "i_stat (tenv (tmr s2)) =
      (i_stat ?e AND NOT (push_bit (8 * k) 0xFF AND 0x7FF))
      OR (i_stat ?e AND push_bit (8 * k) (ucast v) AND (push_bit (8 * k) 0xFF AND 0x7FF))"
    and mk: "i_mask (tenv (tmr s2)) = i_mask ?e"
    by (simp_all add: s2 write_stat_def upd_env_def interrupt_write_stat_masked_def Let_def)
  have lane: "n div 8 = k \<longleftrightarrow> 8 * k \<le> n \<and> n - 8 * k < 8" by linarith
  have "bit (i_stat (tenv (tmr s2))) n \<longleftrightarrow> bit (i_stat ?e) n
      \<and> (n div 8 \<noteq> k \<or> 11 \<le> n \<or> bit v (n - 8 * k))"
  proof (cases "n < 32")
    case False
    then show ?thesis using bit_imp_le_length [of "i_stat (tenv (tmr s2))" n] bit_imp_le_length [of "i_stat ?e" n] by auto
  next
    case True
    have M: "bit (push_bit (8 * k) 0xFF AND 0x7FF :: u32) n \<longleftrightarrow> n div 8 = k \<and> n < 11"
      unfolding lane using True by (simp add: bit_simps ff_bit seven_ff_bit) auto
    have V: "bit (push_bit (8 * k) (ucast v) :: u32) n \<longleftrightarrow> 8 * k \<le> n \<and> bit v (n - 8 * k)"
      using True by (auto simp: bit_simps)
    define L :: u32 where "L = push_bit (8 * k) 0xFF AND 0x7FF"
    have st': "i_stat (tenv (tmr s2)) =
        (i_stat ?e AND NOT L) OR (i_stat ?e AND push_bit (8 * k) (ucast v) AND L)"
      unfolding st L_def ..
    show ?thesis
      unfolding st' bit_or_iff bit_and_iff bit_not_iff M [folded L_def] V
      using True lane by auto
  qed
  with mk show ?thesis by simp
qed

text \<open>
  Byte access to the root counters is one-sided: a byte store merges into the word register,
  but a byte load of the same address is not routed to the timers and reads 0 from the open bus,
  where the half-word load returns the register.
\<close>

theorem timer_byte_load_unrouted:
  assumes "in_window 0x1F801100 0x1F80112F addr"
  shows "fst (mmio_read8 d addr s) = 0
    \<and> fst (mmio_read16 d addr s) = ucast (fst (timers_read True addr (tmr (mmio_sync d s))))
    \<and> mmio_write8 d addr v s = (let s1 = mmio_sync d s; (cur, s2) = tm_read (word_of addr) s1
        in tm_write (word_of addr) (lane_write cur (byte_shift addr) 0xFF (ucast v)) s2)"
proof -
  have a: "0x1F801100 \<le> unat addr" "unat addr \<le> 0x1F80112F"
    using assms by (simp_all add: in_window_def word_le_nat_alt)
  have w: "\<not> in_window 0x1F801000 0x1F80103F addr" "\<not> in_window 0x1F801060 0x1F801063 addr"
    "\<not> in_window 0x1F801070 0x1F801077 addr" "\<not> in_window 0x1F801040 0x1F80104F addr"
    "\<not> in_window 0x1F801080 0x1F8010FF addr" "\<not> in_window 0x1F801820 0x1F801827 addr"
    "\<not> in_window 0x1F801800 0x1F801803 addr" "\<not> in_window 0x1F802000 0x1F802FFF addr"
    "\<not> in_window 0x1F801040 0x1F80105F addr" "\<not> in_window 0x1F801070 0x1F801072 addr"
    "\<not> in_window 0x1F801074 0x1F801076 addr" "\<not> in_window 0x1F801070 0x1F801073 addr"
    "\<not> in_window 0x1F801074 0x1F801077 addr"
    using a by (simp_all add: in_window_def word_le_nat_alt)
  show ?thesis
    using assms w
    by (simp add: mmio_read8_def mmio_read8_impl_def mmio_read16_def mmio_read16_impl_def
        mmio_write8_def half_of_def byte_of_def io_open_read_def tm_read_def Let_def
        split: prod.splits)
qed

subsection \<open>Concrete inputs\<close>

definition null_devices :: "unit devices" where
  "null_devices = \<lparr>mmio_sync = id, sio_poll = id,
     sio_read = (\<lambda>_ s. (0, s)), sio_write = (\<lambda>_ _. id),
     dev_dma_read = (\<lambda>_ s. (0, s)), dev_dma_write = (\<lambda>_ _. id), dev_dma_write_masked = (\<lambda>_ _ _. id),
     cdrom_read = (\<lambda>_ s. (0, s)), cdrom_write = (\<lambda>_ _. id),
     gpu_read = (\<lambda>s. (0, s)), gpu_stat = (\<lambda>s. (0, s)), gpu_gp0 = (\<lambda>_. id), gpu_gp1 = (\<lambda>_. id),
     dev_mdec_read = (\<lambda>_ s. (0, s)), dev_mdec_write = (\<lambda>_ _. id),
     spu_read = (\<lambda>_ s. (0, s)), spu_write = (\<lambda>_ _. id),
     hold_imask7 = (\<lambda>_. False), imask_handoff = (\<lambda>_ _. id),
     ram_note = (\<lambda>_ _ _. id), gte_invalidate = (\<lambda>_. id)\<rparr>"

definition guest_demo :: "unit gsys" where
  "guest_demo = \<lparr>ram = (\<lambda>_. 0), scratchpad = (\<lambda>_. 0), bios_rom = (\<lambda>_. 0), mod_memory = (\<lambda>_. 1),
     mod_memory_used = 5, mod_gpu_memory = (\<lambda>_. 0), mod_gpu_memory_used = 0, mem_ctrl = (\<lambda>_. 0),
     ram_size_reg = 0, cache_ctrl = 0, sr_cell = None, kseg2_ignored_reads = 0,
     kseg2_ignored_writes = 0, io_openbus_reads = 0, io_openbus_writes = 0, guest_store_count = 0,
     game_started = False, last_store_pc = 0, evcb_protect = False,
     tmr = timers_demo\<lparr>tenv := irq_power_on\<lparr>i_stat := 0x701\<rparr>\<rparr>, ext = ()\<rparr>"

lemma demo_plain: "plain_stores guest_demo"
  by (simp add: guest_demo_def plain_stores_def cache_isolated_def)

lemma demo_arenas: "arenas_wf guest_demo"
  by (simp add: guest_demo_def arenas_wf_def)

theorem ram_read_after_write_witness:
  "fst (psx_read_word_raw null_devices 0xA0001000
     (psx_write_word_raw null_devices 0x80601000 0x12345678 guest_demo)) = 0x12345678"
  using ram_read_after_write [OF demo_plain, of "0x80601000" "0xA0001000" null_devices "0x12345678"]
  by (simp add: ram_addr_def word_aligned_def psx_phys_addr_def)

theorem ram_bytes_make_word_witness:
  "ram (psx_write_byte_raw null_devices 0x80001003 (ucast (drop_bit 24 (0x12345678 :: u32)))
     (psx_write_byte_raw null_devices 0x80001002 (ucast (drop_bit 16 (0x12345678 :: u32)))
       (psx_write_byte_raw null_devices 0x80001001 (ucast (drop_bit 8 (0x12345678 :: u32)))
         (psx_write_byte_raw null_devices 0x80001000 (ucast (0x12345678 :: u32)) guest_demo))))
   = ram (psx_write_word_raw null_devices 0x80001000 0x12345678 guest_demo)"
  using ram_bytes_make_word [OF demo_plain, of "0x80001000" null_devices "0x12345678"]
  by (simp add: ram_addr_def word_aligned_def)

theorem blocked_stores_witness:
  "ram (psx_write_word_raw null_devices 0xBFC00000 7 guest_demo) = ram guest_demo"
  using blocked_stores [OF demo_arenas, of "0xBFC00000" null_devices 7]
  by (simp add: in_window_def psx_phys_addr_def)

theorem mod_alloc_block_witness:
  "mod_memory_offset (psx_phys_addr (0x9F000010 + 3)) 1
     (snd (psx_mod_memory_alloc 0x20 0x10 guest_demo)) = Some (0x10 + 3)"
proof -
  obtain p s' where a: "psx_mod_memory_alloc 0x20 0x10 guest_demo = (p, s')" by fastforce
  have p: "p = 0x9F000010"
    using a by (simp add: psx_mod_memory_alloc_def arena_place_def guest_demo_def)
  with mod_alloc_block [OF demo_arenas a] obtain start where
    "0x9F000010 = (0x9F000000 :: u32) + start"
    "\<forall>k < 0x20. mod_memory_offset (psx_phys_addr (p + of_nat k)) 1 s' = Some (start + of_nat k)"
    by auto
  moreover from this(1) have "start = 0x10" by (simp add: algebra_simps)
  ultimately show ?thesis using p a by (auto dest: spec [of _ 3])
qed

theorem byte_ack_lane_witness:
  "bit (i_stat (tenv (tmr (mmio_write8 null_devices 0x1F801071 0x04 guest_demo)))) 10
   \<and> \<not> bit (i_stat (tenv (tmr (mmio_write8 null_devices 0x1F801071 0x04 guest_demo)))) 8
   \<and> bit (i_stat (tenv (tmr (mmio_write8 null_devices 0x1F801071 0x04 guest_demo)))) 0"
  using byte_ack_lane [of 1 null_devices "0x04" guest_demo 10]
    byte_ack_lane [of 1 null_devices "0x04" guest_demo 8]
    byte_ack_lane [of 1 null_devices "0x04" guest_demo 0]
  by (simp add: null_devices_def guest_demo_def timers_demo_def irq_power_on_def bit_numeral_rec)

theorem timer_byte_load_unrouted_witness:
  "fst (mmio_read8 null_devices 0x1F801124 guest_demo) = 0
   \<and> fst (mmio_read16 null_devices 0x1F801124 guest_demo) = 0x258"
  using timer_byte_load_unrouted [of "0x1F801124" null_devices guest_demo 0]
  by (simp add: in_window_def null_devices_def guest_demo_def timers_demo_def timers_read_def
      timer_of_def timer_reg_def)

end
