(* ===== verification/Interp.thy ===== *)
theory Interp
  imports GuestMem "HOL-Library.Multiset"
begin

section \<open>The reference interpreter: psx\_interpreter.c\<close>

text \<open>
  The R3000A interpreter of the oracle build. The machine is \<open>CPUState\<close> (registers as functions
  of their number) with the file's static variables: the pending load, the breakpoints, the
  trace ring and the vblank counter. Coprocessor-0 register 13 is the CAUSE cell the interrupt
  controller mirrors its line into, so it lives in the interrupt state; every other coprocessor-0
  register is in \<open>cop0\<close>. The rest of the console is \<open>io\<close>: the timers (with the interrupt state)
  and a world \<open>'w\<close> for the memory, the GTE and the other devices, reached through the functions
  of a \<open>bus\<close>, which are parameters: the C calls them through the pointers of \<open>CPUState\<close> and
  the GTE and device entry points.
\<close>

record trace_entry =
  te_pc :: u32
  te_gpr :: "nat \<Rightarrow> u32"
  te_hi :: u32
  te_lo :: u32
  te_sr :: u32
  te_cause :: u32
  te_epc :: u32
  te_insn :: u32
  te_seq :: u64

record 'w machine =
  gpr :: "nat \<Rightarrow> u32"
  r_hi :: u32
  r_lo :: u32
  r_pc :: u32
  cop0 :: "nat \<Rightarrow> u32"
  io :: "timers \<times> 'w"
  load_reg :: u32
  load_val :: u32
  hit_bp :: bool
  trace_on :: bool
  halted :: bool
  bps :: "u32 list"
  trace_ring :: "nat \<Rightarrow> trace_entry"
  trace_seq :: u64
  trace_write_idx :: u32
  vblank_count :: u32

type_synonym 'w dev = "timers \<times> 'w"

record 'w bus =
  rd_word :: "u32 \<Rightarrow> 'w dev \<Rightarrow> u32 \<times> 'w dev"
  wr_word :: "u32 \<Rightarrow> u32 \<Rightarrow> 'w dev \<Rightarrow> 'w dev"
  rd_half :: "u32 \<Rightarrow> 'w dev \<Rightarrow> u16 \<times> 'w dev"
  wr_half :: "u32 \<Rightarrow> u16 \<Rightarrow> 'w dev \<Rightarrow> 'w dev"
  rd_byte :: "u32 \<Rightarrow> 'w dev \<Rightarrow> u8 \<times> 'w dev"
  wr_byte :: "u32 \<Rightarrow> u8 \<Rightarrow> 'w dev \<Rightarrow> 'w dev"
  gte_rd_data :: "u32 \<Rightarrow> 'w dev \<Rightarrow> u32 \<times> 'w dev"
  gte_rd_ctrl :: "u32 \<Rightarrow> 'w dev \<Rightarrow> u32 \<times> 'w dev"
  gte_wr_data :: "u32 \<Rightarrow> u32 \<Rightarrow> 'w dev \<Rightarrow> 'w dev"
  gte_wr_ctrl :: "u32 \<Rightarrow> u32 \<Rightarrow> 'w dev \<Rightarrow> 'w dev"
  gte_exec :: "u32 \<Rightarrow> 'w dev \<Rightarrow> 'w dev"
  gte_store_word :: "u32 \<Rightarrow> u32 \<Rightarrow> 'w dev \<Rightarrow> 'w dev"
  sio_tick :: "'w dev \<Rightarrow> 'w dev"
  gpu_vblank_tick :: "'w dev \<Rightarrow> 'w dev"
  cdrom_tick :: "'w dev \<Rightarrow> 'w dev"

subsection \<open>Access to the parts\<close>

definition menv :: "'w machine \<Rightarrow> irq_env" where
  "menv m = tenv (fst (io m))"

definition upd_menv :: "(irq_env \<Rightarrow> irq_env) \<Rightarrow> 'w machine \<Rightarrow> 'w machine" where
  "upd_menv f m = m\<lparr>io := ((fst (io m))\<lparr>tenv := f (menv m)\<rparr>, snd (io m))\<rparr>"

abbreviation COP0_SR :: nat where "COP0_SR \<equiv> 12"
abbreviation COP0_CAUSE :: nat where "COP0_CAUSE \<equiv> 13"
abbreviation COP0_EPC :: nat where "COP0_EPC \<equiv> 14"

definition get_cop0 :: "nat \<Rightarrow> 'w machine \<Rightarrow> u32" where
  "get_cop0 r m = (if r = COP0_CAUSE then cause (menv m) else cop0 m r)"

definition set_cop0 :: "nat \<Rightarrow> u32 \<Rightarrow> 'w machine \<Rightarrow> 'w machine" where
  "set_cop0 r v m = (if r = COP0_CAUSE then upd_menv (\<lambda>e. e\<lparr>cause := v\<rparr>) m
                     else m\<lparr>cop0 := (cop0 m)(r := v)\<rparr>)"

text \<open>A read on the bus, and an action on it.\<close>

definition bus_read :: "('w dev \<Rightarrow> 'v \<times> 'w dev) \<Rightarrow> 'w machine \<Rightarrow> 'v \<times> 'w machine" where
  "bus_read f m = (let (v, d) = f (io m) in (v, m\<lparr>io := d\<rparr>))"

definition bus_do :: "('w dev \<Rightarrow> 'w dev) \<Rightarrow> 'w machine \<Rightarrow> 'w machine" where
  "bus_do f m = m\<lparr>io := f (io m)\<rparr>"

subsection \<open>Decoding\<close>

definition OP :: "u32 \<Rightarrow> u32" where "OP i = drop_bit 26 i AND 0x3F"
definition RS :: "u32 \<Rightarrow> u32" where "RS i = drop_bit 21 i AND 0x1F"
definition RT :: "u32 \<Rightarrow> u32" where "RT i = drop_bit 16 i AND 0x1F"
definition RD :: "u32 \<Rightarrow> u32" where "RD i = drop_bit 11 i AND 0x1F"
definition SA :: "u32 \<Rightarrow> u32" where "SA i = drop_bit 6 i AND 0x1F"
definition FUNC :: "u32 \<Rightarrow> u32" where "FUNC i = i AND 0x3F"
definition IMM16 :: "u32 \<Rightarrow> u16" where "IMM16 i = ucast (i AND 0xFFFF)"
definition SIMM :: "u32 \<Rightarrow> u32" where "SIMM i = scast (ucast (i AND 0xFFFF) :: u16)"
definition JTARGET :: "u32 \<Rightarrow> u32 \<Rightarrow> u32" where
  "JTARGET i pc = ((pc + 4) AND 0xF0000000) OR push_bit 2 (i AND 0x03FFFFFF)"

subsection \<open>Initialisation, breakpoints and the trace ring\<close>

definition trace_zero :: trace_entry where
  "trace_zero = \<lparr>te_pc = 0, te_gpr = (\<lambda>_. 0), te_hi = 0, te_lo = 0, te_sr = 0, te_cause = 0,
     te_epc = 0, te_insn = 0, te_seq = 0\<rparr>"

definition interp_init :: "'w machine \<Rightarrow> 'w machine" where
  "interp_init m = m\<lparr>hit_bp := False, trace_on := False, halted := False, bps := [],
     trace_seq := 0, trace_write_idx := 0, load_reg := 0, load_val := 0, vblank_count := 0,
     trace_ring := (\<lambda>_. trace_zero)\<rparr>"

definition interp_ld_delay_discard :: "'w machine \<Rightarrow> 'w machine" where
  "interp_ld_delay_discard m = m\<lparr>load_reg := 0, load_val := 0\<rparr>"

abbreviation MAX_BREAKPOINTS :: nat where "MAX_BREAKPOINTS \<equiv> 64"

definition interp_break_add :: "u32 \<Rightarrow> 'w machine \<Rightarrow> int \<times> 'w machine" where
  "interp_break_add pc m =
     (if length (bps m) \<ge> MAX_BREAKPOINTS then (-1, m)
      else (int (length (bps m)), m\<lparr>bps := bps m @ [pc]\<rparr>))"

text \<open>The first match is replaced by the last entry, and the count goes down.\<close>

fun bp_index :: "u32 \<Rightarrow> u32 list \<Rightarrow> nat option" where
  "bp_index pc [] = None"
| "bp_index pc (x # xs) = (if x = pc then Some 0 else map_option Suc (bp_index pc xs))"

definition interp_break_remove :: "u32 \<Rightarrow> 'w machine \<Rightarrow> bool \<times> 'w machine" where
  "interp_break_remove pc m =
     (case bp_index pc (bps m) of
        None \<Rightarrow> (False, m)
      | Some i \<Rightarrow> (True, m\<lparr>bps := butlast ((bps m)[i := last (bps m)])\<rparr>))"

definition interp_break_clear_all :: "'w machine \<Rightarrow> 'w machine" where
  "interp_break_clear_all m = m\<lparr>bps := []\<rparr>"

definition interp_trace_enable :: "bool \<Rightarrow> 'w machine \<Rightarrow> 'w machine" where
  "interp_trace_enable on m = m\<lparr>trace_on := on\<rparr>"

abbreviation TRACE_RING_SIZE :: u32 where "TRACE_RING_SIZE \<equiv> 0x100000"
abbreviation TRACE_RING_MASK :: u32 where "TRACE_RING_MASK \<equiv> 0xFFFFF"

definition interp_trace_get :: "u32 \<Rightarrow> 'w machine \<Rightarrow> trace_entry option" where
  "interp_trace_get ring_idx m =
     (if ring_idx \<ge> TRACE_RING_SIZE then None
      else let avail = (if trace_seq m < ucast TRACE_RING_SIZE then ucast (trace_seq m)
                        else TRACE_RING_SIZE)
           in if ring_idx \<ge> avail then None
              else let idx = (trace_write_idx m - avail + ring_idx) AND TRACE_RING_MASK
                   in Some (trace_ring m (unat idx)))"

definition trace_record :: "u32 \<Rightarrow> 'w machine \<Rightarrow> 'w machine" where
  "trace_record insn m =
     m\<lparr>trace_ring := (trace_ring m)(unat (trace_write_idx m) :=
         \<lparr>te_pc = r_pc m, te_gpr = gpr m, te_hi = r_hi m, te_lo = r_lo m,
          te_sr = get_cop0 12 m, te_cause = get_cop0 13 m, te_epc = get_cop0 14 m,
          te_insn = insn, te_seq = trace_seq m\<rparr>),
       trace_seq := trace_seq m + 1,
       trace_write_idx := (trace_write_idx m + 1) AND TRACE_RING_MASK\<rparr>"

subsection \<open>Registers, pending loads and exceptions\<close>

definition set_reg :: "u32 \<Rightarrow> u32 \<Rightarrow> 'w machine \<Rightarrow> 'w machine" where
  "set_reg r v m = (if r \<noteq> 0 then m\<lparr>gpr := (gpr m)(unat r := v)\<rparr> else m)"

definition apply_load_delay :: "'w machine \<Rightarrow> 'w machine" where
  "apply_load_delay m =
     (if load_reg m \<noteq> 0
      then m\<lparr>gpr := (gpr m)(unat (load_reg m) := load_val m), load_reg := 0\<rparr>
      else m)"

definition set_load_delay :: "u32 \<Rightarrow> u32 \<Rightarrow> 'w machine \<Rightarrow> 'w machine" where
  "set_load_delay reg val m = m\<lparr>load_reg := reg, load_val := val\<rparr>"

definition exc_vector :: "u32 \<Rightarrow> u32" where
  "exc_vector sr = (if sr AND 0x00400000 \<noteq> 0 then 0xBFC00180 else 0x80000080)"

definition sr_push :: "u32 \<Rightarrow> u32" where
  "sr_push sr = (sr AND NOT 0x3F) OR push_bit 2 (sr AND 0x0F)"

definition sr_pop :: "u32 \<Rightarrow> u32" where
  "sr_pop sr = (sr AND 0xFFFFFFC0) OR (drop_bit 2 sr AND 0x0F)"

definition raise_exception :: "u32 \<Rightarrow> bool \<Rightarrow> 'w machine \<Rightarrow> 'w machine" where
  "raise_exception exccode in_delay m =
     (let sr = get_cop0 12 m;
          m1 = set_cop0 12 (sr_push sr) m;
          m2 = set_cop0 13 ((get_cop0 13 m1 AND NOT 0x7C) OR push_bit 2 exccode) m1;
          m3 = (if in_delay then set_cop0 13 (get_cop0 13 m2 OR push_bit 31 1) m2
                else set_cop0 13 (get_cop0 13 m2 AND NOT (push_bit 31 1)) m2);
          m4 = set_cop0 14 (if in_delay then r_pc m3 - 4 else r_pc m3) m3
      in m4\<lparr>r_pc := exc_vector sr\<rparr>)"

subsection \<open>One instruction\<close>

text \<open>
  How an opcode's arm leaves the switch: it falls out of it, it returns, or it executes the
  delay slot and then jumps.
\<close>

datatype 'w outcome = Fall "'w machine" | Ret "'w machine" | Branch u32 "'w machine"

abbreviation nonneg :: "u32 \<Rightarrow> bool" where "nonneg v \<equiv> 0 \<le> sint v"

text \<open>The 64-bit sum or difference and its range check (ADD, SUB, ADDI).\<close>

definition trap_arith :: "u32 \<Rightarrow> int \<Rightarrow> 'w machine \<Rightarrow> 'w outcome" where
  "trap_arith rd r m =
     (if r < - (2 ^ 31) \<or> r > 2 ^ 31 - 1 then Ret (raise_exception 12 False m)
      else Fall (set_reg rd (of_sint r) m))"

text \<open>The products and quotients that go to HI and LO.\<close>

definition mult_hilo :: "u32 \<Rightarrow> u32 \<Rightarrow> u32 \<times> u32" where
  "mult_hilo a b = (let r = word_of_int (sint a * sint b) :: u64
                    in (ucast (signed_drop_bit 32 r), ucast r))"

definition multu_hilo :: "u32 \<Rightarrow> u32 \<Rightarrow> u32 \<times> u32" where
  "multu_hilo a b = (let r = ucast a * ucast b :: u64 in (ucast (drop_bit 32 r), ucast r))"

definition div_hilo :: "u32 \<Rightarrow> u32 \<Rightarrow> u32 \<times> u32" where
  "div_hilo a b =
     (if b = 0 then (a, if a AND 0x80000000 \<noteq> 0 then 1 else 0xFFFFFFFF)
      else if a = 0x80000000 \<and> b = 0xFFFFFFFF then (0, 0x80000000)
      else (of_sint (sint a smod sint b), of_sint (sint a sdiv sint b)))"

definition divu_hilo :: "u32 \<Rightarrow> u32 \<Rightarrow> u32 \<times> u32" where
  "divu_hilo a b = (if b = 0 then (a, 0xFFFFFFFF) else (a mod b, a div b))"

definition set_hilo :: "u32 \<times> u32 \<Rightarrow> 'w machine \<Rightarrow> 'w machine" where
  "set_hilo p m = m\<lparr>r_hi := fst p, r_lo := snd p\<rparr>"

definition exec_special :: "u32 \<Rightarrow> u32 \<Rightarrow> u32 \<Rightarrow> u32 \<Rightarrow> 'w machine \<Rightarrow> 'w outcome" where
  "exec_special insn pc rs_val rt_val m =
     (let func = FUNC insn; rd = RD insn; sa = SA insn in
      if func = 0x00 then Fall (set_reg rd (push_bit (unat sa) rt_val) m)
      else if func = 0x02 then Fall (set_reg rd (drop_bit (unat sa) rt_val) m)
      else if func = 0x03 then Fall (set_reg rd (asr rt_val (unat sa)) m)
      else if func = 0x04 then Fall (set_reg rd (push_bit (unat (rs_val AND 31)) rt_val) m)
      else if func = 0x06 then Fall (set_reg rd (drop_bit (unat (rs_val AND 31)) rt_val) m)
      else if func = 0x07 then Fall (set_reg rd (asr rt_val (unat (rs_val AND 31))) m)
      else if func = 0x08 then Branch rs_val m
      else if func = 0x09 then Branch rs_val (set_reg rd (pc + 8) m)
      else if func = 0x0C then Ret (raise_exception 8 False m)
      else if func = 0x0D then Ret (raise_exception 9 False m)
      else if func = 0x10 then Fall (set_reg rd (r_hi m) m)
      else if func = 0x11 then Fall (m\<lparr>r_hi := rs_val\<rparr>)
      else if func = 0x12 then Fall (set_reg rd (r_lo m) m)
      else if func = 0x13 then Fall (m\<lparr>r_lo := rs_val\<rparr>)
      else if func = 0x18 then Fall (set_hilo (mult_hilo rs_val rt_val) m)
      else if func = 0x19 then Fall (set_hilo (multu_hilo rs_val rt_val) m)
      else if func = 0x1A then Fall (set_hilo (div_hilo rs_val rt_val) m)
      else if func = 0x1B then Fall (set_hilo (divu_hilo rs_val rt_val) m)
      else if func = 0x20 then trap_arith rd (sint rs_val + sint rt_val) m
      else if func = 0x21 then Fall (set_reg rd (rs_val + rt_val) m)
      else if func = 0x22 then trap_arith rd (sint rs_val - sint rt_val) m
      else if func = 0x23 then Fall (set_reg rd (rs_val - rt_val) m)
      else if func = 0x24 then Fall (set_reg rd (rs_val AND rt_val) m)
      else if func = 0x25 then Fall (set_reg rd (rs_val OR rt_val) m)
      else if func = 0x26 then Fall (set_reg rd (rs_val XOR rt_val) m)
      else if func = 0x27 then Fall (set_reg rd (NOT (rs_val OR rt_val)) m)
      else if func = 0x2A then Fall (set_reg rd (if sint rs_val < sint rt_val then 1 else 0) m)
      else if func = 0x2B then Fall (set_reg rd (if rs_val < rt_val then 1 else 0) m)
      else Fall m)"

definition branch_target :: "u32 \<Rightarrow> u32 \<Rightarrow> u32" where
  "branch_target insn pc = pc + 4 + push_bit 2 (SIMM insn)"

definition branch_if :: "bool \<Rightarrow> u32 \<Rightarrow> u32 \<Rightarrow> 'w machine \<Rightarrow> 'w outcome" where
  "branch_if c insn pc m = (if c then Branch (branch_target insn pc) m else Fall m)"

definition exec_regimm :: "u32 \<Rightarrow> u32 \<Rightarrow> u32 \<Rightarrow> 'w machine \<Rightarrow> 'w outcome" where
  "exec_regimm insn pc rs_val m =
     (let rt = RT insn;
          link = rt AND 0x10 \<noteq> 0;
          cond = (if rt AND 0x01 \<noteq> 0 then sint rs_val \<ge> 0 else sint rs_val < 0);
          m1 = (if link then set_reg 31 (pc + 8) m else m)
      in branch_if cond insn pc m1)"

definition exec_immediate :: "u32 \<Rightarrow> u32 \<Rightarrow> u32 \<Rightarrow> 'w machine \<Rightarrow> 'w outcome" where
  "exec_immediate op insn rs_val m =
     (let rt = RT insn in
      if op = 0x08 then trap_arith rt (sint rs_val + sint (SIMM insn)) m
      else if op = 0x09 then Fall (set_reg rt (rs_val + SIMM insn) m)
      else if op = 0x0A then Fall (set_reg rt (if sint rs_val < sint (SIMM insn) then 1 else 0) m)
      else if op = 0x0B then Fall (set_reg rt (if rs_val < SIMM insn then 1 else 0) m)
      else if op = 0x0C then Fall (set_reg rt (rs_val AND ucast (IMM16 insn)) m)
      else if op = 0x0D then Fall (set_reg rt (rs_val OR ucast (IMM16 insn)) m)
      else if op = 0x0E then Fall (set_reg rt (rs_val XOR ucast (IMM16 insn)) m)
      else Fall (set_reg rt (push_bit 16 (ucast (IMM16 insn))) m))"

definition exec_cop0 :: "u32 \<Rightarrow> u32 \<Rightarrow> 'w machine \<Rightarrow> 'w outcome" where
  "exec_cop0 insn rt_val m =
     (let cop_op = RS insn in
      if cop_op = 0x00 then Fall (set_load_delay (RT insn) (get_cop0 (unat (RD insn)) m) m)
      else if cop_op = 0x04 then Fall (set_cop0 (unat (RD insn)) rt_val m)
      else if cop_op = 0x10
      then (if insn AND 0x3F = 0x10 then Fall (set_cop0 12 (sr_pop (get_cop0 12 m)) m) else Fall m)
      else Fall m)"

definition exec_cop2 :: "'w bus \<Rightarrow> u32 \<Rightarrow> u32 \<Rightarrow> 'w machine \<Rightarrow> 'w outcome" where
  "exec_cop2 b insn rt_val m =
     (let cop_op = RS insn in
      if cop_op = 0x00
      then (let (v, m1) = bus_read (gte_rd_data b (RD insn)) m in Fall (set_load_delay (RT insn) v m1))
      else if cop_op = 0x02
      then (let (v, m1) = bus_read (gte_rd_ctrl b (RD insn)) m in Fall (set_load_delay (RT insn) v m1))
      else if cop_op = 0x04 then Fall (bus_do (gte_wr_data b (RD insn) rt_val) m)
      else if cop_op = 0x06 then Fall (bus_do (gte_wr_ctrl b (RD insn) rt_val) m)
      else if cop_op AND 0x10 \<noteq> 0 then Fall (bus_do (gte_exec b (insn AND 0x1FFFFFF)) m)
      else Fall m)"

text \<open>The four merges of the unaligned accesses.\<close>

definition lwl_merge :: "u32 \<Rightarrow> u32 \<Rightarrow> u32 \<Rightarrow> u32" where
  "lwl_merge addr word cur =
     (let k = addr AND 3 in
      if k = 0 then (cur AND 0x00FFFFFF) OR push_bit 24 word
      else if k = 1 then (cur AND 0x0000FFFF) OR push_bit 16 word
      else if k = 2 then (cur AND 0x000000FF) OR push_bit 8 word
      else word)"

definition lwr_merge :: "u32 \<Rightarrow> u32 \<Rightarrow> u32 \<Rightarrow> u32" where
  "lwr_merge addr word cur =
     (let k = addr AND 3 in
      if k = 0 then word
      else if k = 1 then (cur AND 0xFF000000) OR drop_bit 8 word
      else if k = 2 then (cur AND 0xFFFF0000) OR drop_bit 16 word
      else (cur AND 0xFFFFFF00) OR drop_bit 24 word)"

definition swl_merge :: "u32 \<Rightarrow> u32 \<Rightarrow> u32 \<Rightarrow> u32" where
  "swl_merge addr rt_val cur =
     (let k = addr AND 3 in
      if k = 0 then (cur AND 0xFFFFFF00) OR drop_bit 24 rt_val
      else if k = 1 then (cur AND 0xFFFF0000) OR drop_bit 16 rt_val
      else if k = 2 then (cur AND 0xFF000000) OR drop_bit 8 rt_val
      else rt_val)"

definition swr_merge :: "u32 \<Rightarrow> u32 \<Rightarrow> u32 \<Rightarrow> u32" where
  "swr_merge addr rt_val cur =
     (let k = addr AND 3 in
      if k = 0 then rt_val
      else if k = 1 then (cur AND 0x000000FF) OR push_bit 8 rt_val
      else if k = 2 then (cur AND 0x0000FFFF) OR push_bit 16 rt_val
      else (cur AND 0x00FFFFFF) OR push_bit 24 rt_val)"

definition aligned :: "u32 \<Rightarrow> u32" where
  "aligned addr = addr AND NOT 3"

definition exec_load :: "'w bus \<Rightarrow> u32 \<Rightarrow> u32 \<Rightarrow> u32 \<Rightarrow> 'w machine \<Rightarrow> 'w outcome" where
  "exec_load b op insn rs_val m =
     (let addr = rs_val + SIMM insn; rt = RT insn in
      if op = 0x20
      then (let (v, m1) = bus_read (rd_byte b addr) m in Fall (set_load_delay rt (scast v) m1))
      else if op = 0x21
      then (let (v, m1) = bus_read (rd_half b addr) m in Fall (set_load_delay rt (scast v) m1))
      else if op = 0x22
      then (let (word, m1) = bus_read (rd_word b (aligned addr)) m
            in Fall (set_reg rt (lwl_merge addr word (gpr m1 (unat rt))) m1))
      else if op = 0x23
      then (let (v, m1) = bus_read (rd_word b addr) m in Fall (set_load_delay rt v m1))
      else if op = 0x24
      then (let (v, m1) = bus_read (rd_byte b addr) m in Fall (set_load_delay rt (ucast v) m1))
      else if op = 0x25
      then (let (v, m1) = bus_read (rd_half b addr) m in Fall (set_load_delay rt (ucast v) m1))
      else (let (word, m1) = bus_read (rd_word b (aligned addr)) m
            in Fall (set_reg rt (lwr_merge addr word (gpr m1 (unat rt))) m1)))"

definition exec_store :: "'w bus \<Rightarrow> u32 \<Rightarrow> u32 \<Rightarrow> u32 \<Rightarrow> u32 \<Rightarrow> 'w machine \<Rightarrow> 'w outcome" where
  "exec_store b op insn rs_val rt_val m =
     (let addr = rs_val + SIMM insn in
      if op = 0x28 then Fall (bus_do (wr_byte b addr (ucast (rt_val AND 0xFF))) m)
      else if op = 0x29 then Fall (bus_do (wr_half b addr (ucast (rt_val AND 0xFFFF))) m)
      else if op = 0x2A
      then (let (cur, m1) = bus_read (rd_word b (aligned addr)) m
            in Fall (bus_do (wr_word b (aligned addr) (swl_merge addr rt_val cur)) m1))
      else if op = 0x2B then Fall (bus_do (wr_word b addr rt_val) m)
      else (let (cur, m1) = bus_read (rd_word b (aligned addr)) m
            in Fall (bus_do (wr_word b (aligned addr) (swr_merge addr rt_val cur)) m1)))"

definition exec_lwc2 :: "'w bus \<Rightarrow> u32 \<Rightarrow> u32 \<Rightarrow> 'w machine \<Rightarrow> 'w outcome" where
  "exec_lwc2 b insn rs_val m =
     (let addr = rs_val + SIMM insn; (v, m1) = bus_read (rd_word b addr) m
      in Fall (bus_do (gte_wr_data b (RT insn) v) m1))"

definition exec_swc2 :: "'w bus \<Rightarrow> u32 \<Rightarrow> u32 \<Rightarrow> 'w machine \<Rightarrow> 'w outcome" where
  "exec_swc2 b insn rs_val m =
     (let addr = rs_val + SIMM insn;
          (v, m1) = bus_read (gte_rd_data b (RT insn)) m;
          m2 = bus_do (wr_word b addr v) m1
      in Fall (bus_do (gte_store_word b addr (RT insn)) m2))"

text \<open>The outer switch; \<open>pc\<close> is the address of the instruction.\<close>

definition exec_op :: "'w bus \<Rightarrow> u32 \<Rightarrow> u32 \<Rightarrow> 'w machine \<Rightarrow> 'w outcome" where
  "exec_op b insn pc m =
     (let op = OP insn;
          rs_val = gpr m (unat (RS insn));
          rt_val = gpr m (unat (RT insn)) in
      if op = 0x00 then exec_special insn pc rs_val rt_val m
      else if op = 0x01 then exec_regimm insn pc rs_val m
      else if op = 0x02 then Branch (JTARGET insn pc) m
      else if op = 0x03 then Branch (JTARGET insn pc) (set_reg 31 (pc + 8) m)
      else if op = 0x04 then branch_if (rs_val = rt_val) insn pc m
      else if op = 0x05 then branch_if (rs_val \<noteq> rt_val) insn pc m
      else if op = 0x06 then branch_if (sint rs_val \<le> 0) insn pc m
      else if op = 0x07 then branch_if (sint rs_val > 0) insn pc m
      else if 0x08 \<le> op \<and> op \<le> 0x0F then exec_immediate op insn rs_val m
      else if op = 0x10 then exec_cop0 insn rt_val m
      else if op = 0x12 then exec_cop2 b insn rt_val m
      else if 0x20 \<le> op \<and> op \<le> 0x26 then exec_load b op insn rs_val m
      else if op = 0x28 \<or> op = 0x29 \<or> op = 0x2A \<or> op = 0x2B \<or> op = 0x2E
      then exec_store b op insn rs_val rt_val m
      else if op = 0x32 then exec_lwc2 b insn rs_val m
      else if op = 0x3A then exec_swc2 b insn rs_val m
      else Fall m)"

text \<open>Fetch: the word, its trace record, the next program counter, the pending load.\<close>

definition fetch :: "'w bus \<Rightarrow> 'w machine \<Rightarrow> u32 \<times> 'w machine" where
  "fetch b m =
     (let pc = r_pc m;
          (insn, m1) = bus_read (rd_word b pc) m;
          m2 = (if trace_on m1 then trace_record insn m1 else m1)
      in (insn, apply_load_delay (m2\<lparr>r_pc := pc + 4\<rparr>)))"

text \<open>
  The C recursion into the delay slot is unbounded (a chain of taken branches in delay slots
  nests as deep as the chain); \<open>None\<close> is a nesting deeper than the fuel.
\<close>

fun exec_one :: "'w bus \<Rightarrow> nat \<Rightarrow> 'w machine \<Rightarrow> 'w machine option" where
  "exec_one b 0 m = None"
| "exec_one b (Suc n) m =
     (if r_pc m = 0 then Some (m\<lparr>halted := True\<rparr>)
      else let (insn, m1) = fetch b m in
        case exec_op b insn (r_pc m) m1 of
          Fall m2 \<Rightarrow> Some (m2\<lparr>gpr := (gpr m2)(0 := 0)\<rparr>)
        | Ret m2 \<Rightarrow> Some m2
        | Branch dest m2 \<Rightarrow> map_option (\<lambda>m3. m3\<lparr>r_pc := dest\<rparr>) (exec_one b n m2))"

subsection \<open>Interrupts and the step loop\<close>

abbreviation VBLANK_INTERVAL :: u32 where "VBLANK_INTERVAL \<equiv> 50000"

definition schedule_tick :: "'w bus \<Rightarrow> 'w machine \<Rightarrow> 'w machine" where
  "schedule_tick b m =
     (let m1 = bus_do (sio_tick b) m;
          m2 = m1\<lparr>vblank_count := vblank_count m1 + 1\<rparr>
      in if vblank_count m2 \<ge> VBLANK_INTERVAL
         then let m3 = upd_menv (psx_irq_raise 0 0) (m2\<lparr>vblank_count := 0\<rparr>);
                  m4 = bus_do (gpu_vblank_tick b) m3;
                  m5 = bus_do (\<lambda>(t, w). (timers_tick 33868 t, w)) m4
              in bus_do (cdrom_tick b) m5
         else m2)"

definition deliver :: "'w machine \<Rightarrow> 'w machine" where
  "deliver m =
     (let sr = get_cop0 COP0_SR m;
          m1 = set_cop0 COP0_CAUSE (get_cop0 COP0_CAUSE m AND NOT 0x7C) m;
          m2 = upd_menv psx_irq_refresh_cause_ip2 m1;
          m3 = set_cop0 COP0_SR (sr_push sr) m2;
          m4 = set_cop0 COP0_EPC (r_pc m3) m3
      in m4\<lparr>r_pc := exc_vector sr\<rparr>)"

definition interp_check_interrupts :: "'w bus \<Rightarrow> 'w machine \<Rightarrow> 'w machine" where
  "interp_check_interrupts b m =
     (let m1 = schedule_tick b m in
      if i_stat (menv m1) AND i_mask (menv m1) = 0 then m1
      else let sr = get_cop0 COP0_SR m1 in
      if sr AND 1 = 0 then m1
      else if sr AND push_bit 10 1 = 0 then m1
      else deliver m1)"

text \<open>\<open>left\<close> is \<open>count - i\<close>; the result is the executed count and the machine.\<close>

fun step_loop :: "'w bus \<Rightarrow> nat \<Rightarrow> nat \<Rightarrow> u32 \<Rightarrow> 'w machine \<Rightarrow> (u32 \<times> 'w machine) option" where
  "step_loop b fuel 0 executed m = Some (executed, m)"
| "step_loop b fuel (Suc left) executed m =
     (if r_pc m \<in> set (bps m) then Some (executed, m\<lparr>hit_bp := True\<rparr>)
      else case exec_one b fuel m of
        None \<Rightarrow> None
      | Some m1 \<Rightarrow>
          let executed = executed + 1 in
          if halted m1 then Some (executed, m1)
          else step_loop b fuel left executed
            (if executed AND 0xF = 0 then interp_check_interrupts b m1 else m1))"

definition interp_step :: "'w bus \<Rightarrow> nat \<Rightarrow> u32 \<Rightarrow> 'w machine \<Rightarrow> (u32 \<times> 'w machine) option" where
  "interp_step b fuel cnt m = step_loop b fuel (unat cnt) 0 (m\<lparr>hit_bp := False\<rparr>)"

definition interp_run :: "'w bus \<Rightarrow> nat \<Rightarrow> u32 \<Rightarrow> 'w machine \<Rightarrow> (u32 \<times> 'w machine) option" where
  "interp_run b fuel max_instructions m = interp_step b fuel max_instructions m"

subsection \<open>What an operation leaves alone\<close>

fun out_state :: "'w outcome \<Rightarrow> 'w machine" where
  "out_state (Fall m) = m"
| "out_state (Ret m) = m"
| "out_state (Branch t m) = m"

lemma upd_menv_frame [simp]:
  "gpr (upd_menv f m) = gpr m" "load_reg (upd_menv f m) = load_reg m"
  "r_pc (upd_menv f m) = r_pc m" "cop0 (upd_menv f m) = cop0 m" "bps (upd_menv f m) = bps m"
  "menv (upd_menv f m) = f (menv m)" "hit_bp (upd_menv f m) = hit_bp m"
  "halted (upd_menv f m) = halted m" "load_val (upd_menv f m) = load_val m"
  by (simp_all add: upd_menv_def menv_def)

lemma menv_pc [simp]: "menv (m\<lparr>r_pc := p\<rparr>) = menv m"
  by (simp add: menv_def)

lemma get_cop0_pc [simp]: "get_cop0 r (m\<lparr>r_pc := p\<rparr>) = get_cop0 r m"
  by (simp add: get_cop0_def)

lemma set_cop0_frame [simp]:
  "gpr (set_cop0 r v m) = gpr m" "load_reg (set_cop0 r v m) = load_reg m"
  "r_pc (set_cop0 r v m) = r_pc m" "bps (set_cop0 r v m) = bps m"
  "hit_bp (set_cop0 r v m) = hit_bp m" "halted (set_cop0 r v m) = halted m"
  "i_stat (menv (set_cop0 r v m)) = i_stat (menv m)"
  "i_mask (menv (set_cop0 r v m)) = i_mask (menv m)"
  "cause_bound (menv (set_cop0 r v m)) = cause_bound (menv m)"
  by (simp_all add: set_cop0_def menv_def upd_menv_def)

lemma get_set_cop0: "get_cop0 r (set_cop0 q v m) = (if r = q then v else get_cop0 r m)"
  by (simp add: get_cop0_def set_cop0_def menv_def upd_menv_def)

lemma get_cop0_upd_menv: "r \<noteq> 13 \<Longrightarrow> get_cop0 r (upd_menv f m) = get_cop0 r m"
  by (simp add: get_cop0_def)

lemma bus_do_frame [simp]:
  "gpr (bus_do f m) = gpr m" "load_reg (bus_do f m) = load_reg m" "r_pc (bus_do f m) = r_pc m"
  "bps (bus_do f m) = bps m" "hit_bp (bus_do f m) = hit_bp m" "halted (bus_do f m) = halted m"
  "io (bus_do f m) = f (io m)"
  by (simp_all add: bus_do_def)

lemma bus_read_snd: "snd (bus_read f m) = m\<lparr>io := snd (f (io m))\<rparr>" "fst (bus_read f m) = fst (f (io m))"
  by (simp_all add: bus_read_def split_beta)

lemma bus_readD: "bus_read f m = (v, m1) \<Longrightarrow> m1 = m\<lparr>io := snd (f (io m))\<rparr> \<and> v = fst (f (io m))"
  by (auto simp: bus_read_def split_beta)

lemma raise_frame [simp]:
  "gpr (raise_exception c dl m) = gpr m" "load_reg (raise_exception c dl m) = load_reg m"
  "bps (raise_exception c dl m) = bps m" "hit_bp (raise_exception c dl m) = hit_bp m"
  "halted (raise_exception c dl m) = halted m"
  by (simp_all add: raise_exception_def Let_def)

lemma set_hilo_frame [simp]:
  "gpr (set_hilo p m) = gpr m" "load_reg (set_hilo p m) = load_reg m" "r_pc (set_hilo p m) = r_pc m"
  "bps (set_hilo p m) = bps m" "hit_bp (set_hilo p m) = hit_bp m" "halted (set_hilo p m) = halted m"
  by (simp_all add: set_hilo_def)

lemma set_reg_frame [simp]:
  "load_reg (set_reg r v m) = load_reg m" "r_pc (set_reg r v m) = r_pc m"
  "bps (set_reg r v m) = bps m" "hit_bp (set_reg r v m) = hit_bp m"
  "halted (set_reg r v m) = halted m" "io (set_reg r v m) = io m"
  by (simp_all add: set_reg_def)

lemma set_load_delay_frame [simp]:
  "gpr (set_load_delay r v m) = gpr m" "load_reg (set_load_delay r v m) = r"
  "r_pc (set_load_delay r v m) = r_pc m" "bps (set_load_delay r v m) = bps m"
  "hit_bp (set_load_delay r v m) = hit_bp m" "halted (set_load_delay r v m) = halted m"
  by (simp_all add: set_load_delay_def)

lemma trace_record_frame [simp]:
  "gpr (trace_record i m) = gpr m" "load_reg (trace_record i m) = load_reg m"
  "r_pc (trace_record i m) = r_pc m" "bps (trace_record i m) = bps m"
  "hit_bp (trace_record i m) = hit_bp m" "halted (trace_record i m) = halted m"
  "io (trace_record i m) = io m" "load_val (trace_record i m) = load_val m"
  by (simp_all add: trace_record_def)

subsection \<open>The register invariant\<close>

text \<open>Register 0 holds zero and a pending load names one of the 32 registers.\<close>

definition mwf :: "'w machine \<Rightarrow> bool" where
  "mwf m \<longleftrightarrow> gpr m 0 = 0 \<and> load_reg m < 32"

lemma mask5: "(0x1F :: u32) = mask 5"
  by (simp add: mask_eq_exp_minus_1)

lemma reg_less [simp]: "RS i < 32" "RT i < 32" "RD i < 32" "SA i < 32"
  using unat_and_mask_less [of _ 5]
  by (simp_all add: RS_def RT_def RD_def SA_def word_less_nat_alt mask5 del: mask_numeral)

lemma set_reg_mwf [simp]: "mwf (set_reg r v m) = mwf m"
  by (auto simp: mwf_def set_reg_def unat_eq_0)

lemma mwf_cong: "gpr m' = gpr m \<Longrightarrow> load_reg m' = load_reg m \<Longrightarrow> mwf m' = mwf m"
  by (simp add: mwf_def)

lemma mwf_frames [simp]:
  "mwf (bus_do f m) = mwf m" "mwf (set_cop0 r v m) = mwf m" "mwf (upd_menv g m) = mwf m"
  "mwf (raise_exception c dl m) = mwf m" "mwf (set_hilo p m) = mwf m"
  "mwf (trace_record i m) = mwf m" "mwf (m\<lparr>io := d\<rparr>) = mwf m" "mwf (m\<lparr>r_pc := q\<rparr>) = mwf m"
  "mwf (m\<lparr>r_hi := w\<rparr>) = mwf m" "mwf (m\<lparr>r_lo := w\<rparr>) = mwf m" "mwf (m\<lparr>halted := h\<rparr>) = mwf m"
  "mwf (m\<lparr>hit_bp := h\<rparr>) = mwf m" "mwf (m\<lparr>vblank_count := c2\<rparr>) = mwf m"
  by (rule mwf_cong; simp)+

lemma set_load_delay_mwf: "mwf m \<Longrightarrow> r < 32 \<Longrightarrow> mwf (set_load_delay r v m)"
  by (simp add: mwf_def)

lemma apply_load_delay_mwf: "mwf m \<Longrightarrow> mwf (apply_load_delay m)"
  by (auto simp: mwf_def apply_load_delay_def unat_eq_0)

lemma trap_arith_mwf: "mwf m \<Longrightarrow> mwf (out_state (trap_arith rd r m))"
  by (simp add: trap_arith_def)

lemma branch_if_mwf: "mwf m \<Longrightarrow> mwf (out_state (branch_if c i pc m))"
  by (simp add: branch_if_def)

lemma exec_special_mwf: "mwf m \<Longrightarrow> mwf (out_state (exec_special i pc a b m))"
  by (simp add: exec_special_def Let_def trap_arith_mwf)

lemma exec_regimm_mwf: "mwf m \<Longrightarrow> mwf (out_state (exec_regimm i pc a m))"
  by (simp add: exec_regimm_def Let_def branch_if_mwf)

lemma exec_immediate_mwf: "mwf m \<Longrightarrow> mwf (out_state (exec_immediate op i a m))"
  by (simp add: exec_immediate_def Let_def trap_arith_mwf)

lemma exec_cop0_mwf: "mwf m \<Longrightarrow> mwf (out_state (exec_cop0 i a m))"
  by (simp add: exec_cop0_def Let_def set_load_delay_mwf)

lemma exec_cop2_mwf: "mwf m \<Longrightarrow> mwf (out_state (exec_cop2 b i a m))"
  by (auto simp: exec_cop2_def Let_def split_beta bus_read_snd intro!: set_load_delay_mwf)

lemma exec_load_mwf: "mwf m \<Longrightarrow> mwf (out_state (exec_load b op i a m))"
  by (auto simp: exec_load_def Let_def split_beta bus_read_snd intro!: set_load_delay_mwf)

lemma exec_store_mwf: "mwf m \<Longrightarrow> mwf (out_state (exec_store b op i a v m))"
  by (auto simp: exec_store_def Let_def split_beta bus_read_snd)

lemma exec_lwc2_mwf: "mwf m \<Longrightarrow> mwf (out_state (exec_lwc2 b i a m))"
  by (auto simp: exec_lwc2_def Let_def split_beta bus_read_snd)

lemma exec_swc2_mwf: "mwf m \<Longrightarrow> mwf (out_state (exec_swc2 b i a m))"
  by (auto simp: exec_swc2_def Let_def split_beta bus_read_snd)

lemmas exec_group_mwf = exec_special_mwf exec_regimm_mwf exec_immediate_mwf exec_cop0_mwf
  exec_cop2_mwf exec_load_mwf exec_store_mwf exec_lwc2_mwf exec_swc2_mwf branch_if_mwf

lemma exec_op_mwf: "mwf m \<Longrightarrow> mwf (out_state (exec_op b i pc m))"
  by (simp add: exec_op_def Let_def exec_group_mwf)

lemma fetch_mwf: "mwf m \<Longrightarrow> mwf (snd (fetch b m))"
  by (simp add: fetch_def Let_def split_beta bus_read_snd apply_load_delay_mwf)

lemma exec_one_mwf: "exec_one b n m = Some m' \<Longrightarrow> mwf m \<Longrightarrow> mwf m'"
proof (induction n arbitrary: m m')
  case (Suc n)
  let ?f = "fetch b m"
  have f: "mwf (out_state (exec_op b (fst ?f) (r_pc m) (snd ?f)))"
    using Suc.prems(2) by (intro exec_op_mwf fetch_mwf)
  show ?case
  proof (cases "r_pc m = 0")
    case True
    then show ?thesis using Suc.prems by auto
  next
    case False
    then show ?thesis
      using Suc.prems(1) f Suc.IH
      by (cases "exec_op b (fst ?f) (r_pc m) (snd ?f)")
        (auto simp: Let_def split_beta mwf_def)
  qed
qed simp

lemma schedule_tick_mwf [simp]: "mwf (schedule_tick b m) = mwf m"
  by (simp add: schedule_tick_def Let_def)

lemma check_interrupts_mwf: "mwf m \<Longrightarrow> mwf (interp_check_interrupts b m)"
  by (simp add: interp_check_interrupts_def deliver_def Let_def)

lemma step_loop_mwf: "step_loop b f left k m = Some (k', m') \<Longrightarrow> mwf m \<Longrightarrow> mwf m'"
proof (induction b f left k m rule: step_loop.induct)
  case (2 b fuel left executed m)
  then show ?case
    by (auto simp: Let_def check_interrupts_mwf exec_one_mwf split: if_splits option.splits)
qed simp

subsection \<open>Breakpoints are not touched by execution\<close>

definition dbg :: "'w machine \<Rightarrow> u32 list \<times> bool" where
  "dbg m = (bps m, hit_bp m)"

lemma dbg_cong: "bps m' = bps m \<Longrightarrow> hit_bp m' = hit_bp m \<Longrightarrow> dbg m' = dbg m"
  by (simp add: dbg_def)

lemma dbg_frames [simp]:
  "dbg (bus_do f m) = dbg m" "dbg (set_cop0 r v m) = dbg m" "dbg (upd_menv g m) = dbg m"
  "dbg (raise_exception c dl m) = dbg m" "dbg (set_hilo p m) = dbg m" "dbg (set_reg r2 v m) = dbg m"
  "dbg (set_load_delay r2 v m) = dbg m"
  "dbg (trace_record i m) = dbg m" "dbg (m\<lparr>io := d\<rparr>) = dbg m" "dbg (m\<lparr>r_pc := q\<rparr>) = dbg m"
  "dbg (m\<lparr>r_hi := w\<rparr>) = dbg m" "dbg (m\<lparr>r_lo := w\<rparr>) = dbg m" "dbg (m\<lparr>halted := h\<rparr>) = dbg m"
  "dbg (m\<lparr>vblank_count := c2\<rparr>) = dbg m" "dbg (m\<lparr>gpr := gg\<rparr>) = dbg m"
  by (rule dbg_cong; simp)+

text \<open>Instructions other than branches do not leave through the delay slot.\<close>

fun falls :: "'w outcome \<Rightarrow> bool" where
  "falls (Branch t m) = False"
| "falls (Fall m) = True"
| "falls (Ret m) = True"

lemma trap_arith_dbg [simp]: "dbg (out_state (trap_arith rd r m)) = dbg m" "falls (trap_arith rd r m)"
  by (simp_all add: trap_arith_def)

lemma branch_if_dbg [simp]: "dbg (out_state (branch_if c i pc m)) = dbg m"
  by (simp add: branch_if_def)

lemma exec_special_dbg: "dbg (out_state (exec_special i pc a b m)) = dbg m"
  by (simp add: exec_special_def Let_def)

lemma exec_regimm_dbg: "dbg (out_state (exec_regimm i pc a m)) = dbg m"
  by (simp add: exec_regimm_def Let_def)

lemma exec_immediate_dbg: "dbg (out_state (exec_immediate op i a m)) = dbg m"
  by (simp add: exec_immediate_def Let_def)

lemma exec_cop0_dbg: "dbg (out_state (exec_cop0 i a m)) = dbg m"
  by (simp add: exec_cop0_def Let_def)

lemma exec_cop2_dbg: "dbg (out_state (exec_cop2 b i a m)) = dbg m"
  by (simp add: exec_cop2_def Let_def split_beta bus_read_snd)

lemma exec_load_dbg: "dbg (out_state (exec_load b op i a m)) = dbg m"
  by (simp add: exec_load_def Let_def split_beta bus_read_snd)

lemma exec_store_dbg: "dbg (out_state (exec_store b op i a v m)) = dbg m"
  by (simp add: exec_store_def Let_def split_beta bus_read_snd)

lemma exec_lwc2_dbg: "dbg (out_state (exec_lwc2 b i a m)) = dbg m"
  by (simp add: exec_lwc2_def Let_def split_beta bus_read_snd)

lemma exec_swc2_dbg: "dbg (out_state (exec_swc2 b i a m)) = dbg m"
  by (simp add: exec_swc2_def Let_def split_beta bus_read_snd)

lemma exec_op_dbg: "dbg (out_state (exec_op b i pc m)) = dbg m"
  by (simp add: exec_op_def Let_def exec_special_dbg exec_regimm_dbg exec_immediate_dbg
      exec_cop0_dbg exec_cop2_dbg exec_load_dbg exec_store_dbg exec_lwc2_dbg exec_swc2_dbg)

lemma apply_load_delay_bps [simp]:
  "bps (apply_load_delay m) = bps m" "hit_bp (apply_load_delay m) = hit_bp m"
  "r_pc (apply_load_delay m) = r_pc m" "halted (apply_load_delay m) = halted m"
  by (simp_all add: apply_load_delay_def)

lemma fetch_dbg: "dbg (snd (fetch b m)) = dbg m"
  by (simp add: fetch_def Let_def split_beta bus_read_snd dbg_def)

text \<open>One step of the interpreter as three equations, by the way the opcode leaves.\<close>

lemma exec_one_null: "r_pc m = 0 \<Longrightarrow> exec_one b (Suc n) m = Some (m\<lparr>halted := True\<rparr>)"
  by simp

lemma exec_one_live:
  "r_pc m \<noteq> 0 \<Longrightarrow> fetch b m = (i, m1) \<Longrightarrow> exec_one b (Suc n) m =
     (case exec_op b i (r_pc m) m1 of
        Fall m2 \<Rightarrow> Some (m2\<lparr>gpr := (gpr m2)(0 := 0)\<rparr>)
      | Ret m2 \<Rightarrow> Some m2
      | Branch dest m2 \<Rightarrow> map_option (\<lambda>m3. m3\<lparr>r_pc := dest\<rparr>) (exec_one b n m2))"
  by simp

declare exec_one.simps [simp del]

lemma exec_one_0 [simp]: "exec_one b 0 m = None"
  by (simp add: exec_one.simps)

lemma exec_one_dbg: "exec_one b n m = Some m' \<Longrightarrow> dbg m' = dbg m"
proof (induction n arbitrary: m m')
  case (Suc n)
  obtain i m1 where f: "fetch b m = (i, m1)" by fastforce
  then have m1: "dbg m1 = dbg m" using fetch_dbg [of b m] by simp
  have o: "dbg (out_state (exec_op b i (r_pc m) m1)) = dbg m" by (simp add: exec_op_dbg m1)
  show ?case
  proof (cases "r_pc m = 0")
    case True
    then show ?thesis using Suc.prems by (auto simp: exec_one_null)
  next
    case False
    show ?thesis
    proof (cases "exec_op b i (r_pc m) m1")
      case (Branch t m2)
      then show ?thesis
        using Suc.prems Suc.IH [of m2] o by (auto simp: exec_one_live [OF False f])
    qed (use Suc.prems o in \<open>auto simp: exec_one_live [OF False f]\<close>)
  qed
qed simp

lemma schedule_tick_frame [simp]:
  "bps (schedule_tick b m) = bps m" "hit_bp (schedule_tick b m) = hit_bp m"
  "r_pc (schedule_tick b m) = r_pc m" "gpr (schedule_tick b m) = gpr m"
  "halted (schedule_tick b m) = halted m"
  by (simp_all add: schedule_tick_def Let_def)

lemma check_interrupts_bps [simp]:
  "bps (interp_check_interrupts b m) = bps m" "hit_bp (interp_check_interrupts b m) = hit_bp m"
  "halted (interp_check_interrupts b m) = halted m"
  by (simp_all add: interp_check_interrupts_def deliver_def Let_def)

text \<open>What the step loop returns, over the number of steps left.\<close>

lemma step_loop_result:
  assumes "step_loop b fuel left k m = Some (k', m')" "\<not> hit_bp m" "unat k + left < 2 ^ 32"
  shows "unat k \<le> unat k' \<and> unat k' \<le> unat k + left \<and> bps m' = bps m
    \<and> (hit_bp m' \<longrightarrow> r_pc m' \<in> set (bps m'))
    \<and> (\<not> hit_bp m' \<longrightarrow> halted m' \<or> unat k' = unat k + left)"
  using assms
proof (induction b fuel left k m arbitrary: k' m' rule: step_loop.induct)
  case (1 b fuel executed m)
  then show ?case by simp
next
  case (2 b fuel left executed m)
  show ?case
  proof (cases "r_pc m \<in> set (bps m)")
    case True
    then show ?thesis using 2(2,3) by auto
  next
    case False
    then obtain m1 where m1: "exec_one b fuel m = Some m1" using 2(2) by (auto split: option.splits)
    have bp: "bps m1 = bps m \<and> hit_bp m1 = hit_bp m"
      using exec_one_dbg [OF m1] by (simp add: dbg_def)
    have k1: "unat (executed + 1) = unat executed + 1"
      using 2(4) by (simp add: unat_word_ariths(1))
    show ?thesis
    proof (cases "halted m1")
      case True
      then show ?thesis using 2(2,3) False m1 bp k1 by (auto simp: Let_def)
    next
      case run: False
      define m2 where "m2 = (if (executed + 1) AND 0xF = 0 then interp_check_interrupts b m1 else m1)"
      have m2: "bps m2 = bps m" "\<not> hit_bp m2" using bp 2(3) by (simp_all add: m2_def)
      have "step_loop b fuel left (executed + 1) m2 = Some (k', m')"
        using 2(2) False m1 run by (simp add: Let_def m2_def)
      from 2(1) [OF False m1 refl run this [unfolded m2_def]] show ?thesis
        using m2 k1 2(4) by (auto simp: m2_def)
    qed
  qed
qed

subsection \<open>Fuel\<close>

definition is_branch :: "u32 \<Rightarrow> bool" where
  "is_branch i \<longleftrightarrow> OP i \<in> {1, 2, 3, 4, 5, 6, 7} \<or> OP i = 0 \<and> FUNC i \<in> {8, 9}"

lemma exec_special_falls: "FUNC i \<noteq> 8 \<Longrightarrow> FUNC i \<noteq> 9 \<Longrightarrow> falls (exec_special i pc a b m)"
  by (simp add: exec_special_def Let_def)

lemma exec_groups_fall:
  "falls (exec_immediate op i a m)" "falls (exec_cop0 i a m)" "falls (exec_cop2 b i a m)"
  "falls (exec_load b op i a m)" "falls (exec_store b op i a v m)"
  "falls (exec_lwc2 b i a m)" "falls (exec_swc2 b i a m)"
  by (simp_all add: exec_immediate_def exec_cop0_def exec_cop2_def exec_load_def exec_store_def
      exec_lwc2_def exec_swc2_def Let_def split_beta)

lemma exec_op_falls: "\<not> is_branch i \<Longrightarrow> falls (exec_op b i pc m)"
  by (simp add: is_branch_def exec_op_def Let_def exec_groups_fall exec_special_falls)

lemma exec_one_more: "exec_one b n m = Some m' \<Longrightarrow> exec_one b (n + k) m = Some m'"
proof (induction n arbitrary: m m')
  case (Suc n)
  obtain i m1 where f: "fetch b m = (i, m1)" by fastforce
  show ?case
  proof (cases "r_pc m = 0")
    case True
    then show ?thesis using Suc.prems by (simp add: exec_one_null)
  next
    case False
    show ?thesis
    proof (cases "exec_op b i (r_pc m) m1")
      case (Branch t m2)
      then show ?thesis
        using Suc.prems Suc.IH [of m2] by (auto simp: exec_one_live [OF False f])
    qed (use Suc.prems in \<open>auto simp: exec_one_live [OF False f]\<close>)
  qed
qed simp

text \<open>
  A chain of \<open>n\<close> branches, each in the delay slot of the one before: what one instruction needs more
  than \<open>n\<close> levels of recursion for.
\<close>

fun slot_chain :: "'w bus \<Rightarrow> nat \<Rightarrow> 'w machine \<Rightarrow> bool" where
  "slot_chain b 0 m \<longleftrightarrow> True"
| "slot_chain b (Suc n) m \<longleftrightarrow>
     r_pc m \<noteq> 0 \<and> (case exec_op b (fst (fetch b m)) (r_pc m) (snd (fetch b m)) of
       Branch dest m2 \<Rightarrow> slot_chain b n m2 | Fall m2 \<Rightarrow> False | Ret m2 \<Rightarrow> False)"

lemma exec_one_None: "exec_one b n m = None \<longleftrightarrow> slot_chain b n m"
proof (induction n arbitrary: m)
  case (Suc n)
  obtain i m1 where f: "fetch b m = (i, m1)" by fastforce
  show ?case
  proof (cases "r_pc m = 0")
    case False
    then show ?thesis
      by (cases "exec_op b i (r_pc m) m1") (simp_all add: exec_one_live [OF False f] f Suc.IH)
  qed (simp add: exec_one_null)
qed simp

lemma step_loop_fuel: "step_loop b fuel left k m = Some r \<Longrightarrow> step_loop b (fuel + f) left k m = Some r"
proof (induction b fuel left k m rule: step_loop.induct)
  case (2 b fuel left executed m)
  show ?case
  proof (cases "r_pc m \<in> set (bps m)")
    case False
    then obtain m1 where m1: "exec_one b fuel m = Some m1" using "2.prems" by (auto split: option.splits)
    show ?thesis
    proof (cases "halted m1")
      case run: False
      then show ?thesis
        using "2.IH" [OF False m1 refl run] "2.prems" False m1 exec_one_more [OF m1, of f] by (simp add: Let_def)
    qed (use "2.prems" False m1 exec_one_more [OF m1, of f] in \<open>simp add: Let_def\<close>)
  qed (use "2.prems" in simp)
qed simp

text \<open>A loop that runs out of fuel ran to the end up to an instruction that starts a chain of that length.\<close>

lemma step_loop_None:
  "step_loop b fuel left k m = None \<Longrightarrow>
   \<exists>j x. j < left \<and> step_loop b fuel j k m = Some (k + of_nat j, x) \<and> slot_chain b fuel x"
proof (induction b fuel left k m rule: step_loop.induct)
  case (2 b fuel left executed m)
  have bp: "r_pc m \<notin> set (bps m)" using "2.prems" by auto
  show ?case
  proof (cases "exec_one b fuel m")
    case None
    then have "slot_chain b fuel m" by (simp add: exec_one_None)
    then have "0 < Suc left \<and> step_loop b fuel 0 executed m = Some (executed + of_nat 0, m) \<and> slot_chain b fuel m"
      by simp
    then show ?thesis by blast
  next
    case (Some m1)
    let ?m2 = "if (executed + 1) AND 0xF = 0 then interp_check_interrupts b m1 else m1"
    have run: "\<not> halted m1" using "2.prems" bp Some by (auto simp: Let_def)
    have "step_loop b fuel left (executed + 1) ?m2 = None" using "2.prems" bp Some run by (simp add: Let_def)
    from "2.IH" [OF bp Some refl run this] obtain j x where
      "j < left" "step_loop b fuel j (executed + 1) ?m2 = Some (executed + 1 + of_nat j, x)" "slot_chain b fuel x"
      by blast
    then have "Suc j < Suc left \<and> step_loop b fuel (Suc j) executed m = Some (executed + of_nat (Suc j), x)
        \<and> slot_chain b fuel x"
      using bp Some run by (simp add: Let_def ac_simps)
    then show ?thesis by blast
  qed
qed simp

lemma exec_one_plain:
  assumes "fetch b m = (i, m1)" "r_pc m = 0 \<or> falls (exec_op b i (r_pc m) m1)"
  shows "\<exists>m'. exec_one b (Suc n) m = Some m'"
proof (cases "r_pc m = 0")
  case True
  then show ?thesis by (simp add: exec_one_null)
next
  case False
  then show ?thesis
    using assms by (cases "exec_op b i (r_pc m) m1") (auto simp: exec_one_live [OF False assms(1)])
qed

subsection \<open>Word arithmetic of the multiplier and the status stack\<close>

lemma sint_bounds32: "- (2 ^ 31) \<le> sint (a :: u32)" "sint (a :: u32) < 2 ^ 31"
  using sint_range_size [of a] by (simp_all add: word_size)

lemma mult_range: "- (2 ^ 62) \<le> sint (a :: u32) * sint (b :: u32)" "sint a * sint b \<le> 2 ^ 62"
proof -
  have "\<bar>sint a\<bar> \<le> 2 ^ 31" "\<bar>sint b\<bar> \<le> 2 ^ 31"
    using sint_bounds32 [of a] sint_bounds32 [of b] by linarith+
  then have "\<bar>sint a\<bar> * \<bar>sint b\<bar> \<le> 2 ^ 31 * 2 ^ 31" by (intro mult_mono) simp_all
  then have "\<bar>sint a * sint b\<bar> \<le> 2 ^ 62" by (simp add: abs_mult)
  then show "- (2 ^ 62) \<le> sint a * sint b" "sint a * sint b \<le> 2 ^ 62" by linarith+
qed

lemma hi_lo_words:
  fixes p :: int
  shows "ucast (signed_drop_bit 32 (word_of_int p :: u64)) = (word_of_int (drop_bit 32 p) :: u32)"
    "ucast (drop_bit 32 (word_of_int p :: u64)) = (word_of_int (drop_bit 32 p) :: u32)"
    "ucast (word_of_int p :: u64) = (word_of_int p :: u32)"
  by (rule bit_word_eqI; auto simp: bit_simps)+

lemma mult_hilo_word:
  "mult_hilo a b = (word_of_int ((sint a * sint b) div 2 ^ 32), word_of_int (sint a * sint b))"
  by (simp only: mult_hilo_def Let_def hi_lo_words drop_bit_eq_div)

lemma multu_hilo_word:
  "multu_hilo a b = (word_of_int ((uint a * uint b) div 2 ^ 32), word_of_int (uint a * uint b))"
proof -
  have "ucast a * ucast b = (word_of_int (uint a * uint b) :: u64)"
    by simp
  then show ?thesis by (simp only: multu_hilo_def Let_def hi_lo_words) (simp only: drop_bit_eq_div)
qed

lemma uint_woi: "uint (word_of_int i :: u32) = i mod 2 ^ 32"
  by (simp add: unsigned_of_int take_bit_eq_mod)

lemma sint_woi: "- (2 ^ 31) \<le> i \<Longrightarrow> i < 2 ^ 31 \<Longrightarrow> sint (word_of_int i :: u32) = i"
  by (simp add: signed_of_int signed_take_bit_int_eq_self)

lemma mult_exact_int: "sint (fst (mult_hilo a b)) * 2 ^ 32 + uint (snd (mult_hilo a b)) = sint a * sint b"
proof -
  let ?p = "sint a * sint b"
  have "- (2 ^ 31) \<le> ?p div 2 ^ 32" "?p div 2 ^ 32 < 2 ^ 31" using mult_range [of a b] by auto
  then show ?thesis by (simp only: mult_hilo_word fst_conv snd_conv sint_woi uint_woi div_mult_mod_eq)
qed

lemma multu_exact_int: "uint (fst (multu_hilo a b)) * 2 ^ 32 + uint (snd (multu_hilo a b)) = uint a * uint b"
proof -
  let ?p = "uint a * uint b"
  have "uint a \<le> 2 ^ 32 - 1" "uint b \<le> 2 ^ 32 - 1" "0 \<le> uint a" "0 \<le> uint b"
    using uint_bounded [of a] uint_bounded [of b] by simp_all
  then have "?p \<le> (2 ^ 32 - 1) * (2 ^ 32 - 1)" by (intro mult_mono) simp_all
  then have "?p div 2 ^ 32 \<le> 2 ^ 32 - 1" by simp
  moreover have "0 \<le> ?p div 2 ^ 32" by (intro pos_imp_zdiv_nonneg_iff [THEN iffD2]) simp_all
  ultimately have "?p div 2 ^ 32 mod 2 ^ 32 = ?p div 2 ^ 32" by (intro mod_pos_pos_trivial) simp_all
  then show ?thesis by (simp only: multu_hilo_word fst_conv snd_conv uint_woi div_mult_mod_eq)
qed


lemma sdiv_abs: "\<bar>x sdiv y\<bar> = \<bar>x\<bar> div \<bar>y\<bar>" if "y \<noteq> 0" for x y :: int
proof (cases "x = 0")
  case False
  then have "\<bar>sgn x\<bar> * \<bar>sgn y\<bar> = 1" using that by (simp add: abs_sgn_eq)
  moreover have "0 \<le> \<bar>x\<bar> div \<bar>y\<bar>" using that by (simp add: pos_imp_zdiv_nonneg_iff)
  ultimately show ?thesis by (simp add: signed_divide_int_def abs_mult)
qed (simp add: signed_divide_int_def)

lemma smod_facts:
  fixes x y :: int
  assumes "y \<noteq> 0"
  shows "\<bar>x smod y\<bar> < \<bar>y\<bar>" "x smod y = 0 \<or> sgn (x smod y) = sgn x"
proof -
  have m: "0 \<le> \<bar>x\<bar> mod \<bar>y\<bar>" "\<bar>x\<bar> mod \<bar>y\<bar> < \<bar>y\<bar>" using assms by simp_all
  show "\<bar>x smod y\<bar> < \<bar>y\<bar>"
    using m assms by (cases "x = 0") (simp_all add: signed_modulo_int_def abs_mult)
  show "x smod y = 0 \<or> sgn (x smod y) = sgn x"
    using m by (auto simp: signed_modulo_int_def sgn_mult sgn_if)
qed

lemma sint_nonzero: "b \<noteq> 0 \<Longrightarrow> sint b \<noteq> 0" for b :: u32
proof
  assume "b \<noteq> 0" "sint b = 0"
  then have "(word_of_int (sint b) :: u32) = word_of_int 0" by (simp only:)
  with \<open>b \<noteq> 0\<close> show False by simp
qed

lemma sdiv_range:
  fixes a b :: u32
  assumes "b \<noteq> 0" "\<not> (a = 0x80000000 \<and> b = 0xFFFFFFFF)"
  shows "- (2 ^ 31) \<le> sint a sdiv sint b" "sint a sdiv sint b < 2 ^ 31"
proof -
  let ?x = "sint a" and ?y = "sint b"
  have y0: "?y \<noteq> 0" using assms(1) by (rule sint_nonzero)
  have x: "\<bar>?x\<bar> \<le> 2 ^ 31" using sint_bounds32 [of a] by linarith
  have abs: "\<bar>?x sdiv ?y\<bar> = \<bar>?x\<bar> div \<bar>?y\<bar>" using y0 by (rule sdiv_abs)
  have le: "\<bar>?x\<bar> div \<bar>?y\<bar> \<le> \<bar>?x\<bar>"
    using y0 zdiv_mono2 [of "\<bar>?x\<bar>" 1 "\<bar>?y\<bar>"] by simp
  show "- (2 ^ 31) \<le> ?x sdiv ?y" using abs le x by linarith
  consider "?y = 1" | "?y = -1" | "2 \<le> \<bar>?y\<bar>" using y0 by linarith
  then show "?x sdiv ?y < 2 ^ 31"
  proof cases
    case 1
    have "?x smod 1 = 0" using smod_facts(1) [of 1 ?x] by simp
    then have "?x sdiv 1 = ?x" using sdiv_mult_smod_eq [of ?x 1] by simp
    then show ?thesis using sint_bounds32 [of a] 1 by simp
  next
    case 2
    have "?x \<noteq> - (2 ^ 31)"
    proof
      assume "?x = - (2 ^ 31)"
      then have "(word_of_int ?x :: u32) = word_of_int (- (2 ^ 31))" by simp
      then have "a = 0x80000000" by simp
      moreover have "(word_of_int ?y :: u32) = word_of_int (- 1)" using 2 by simp
      then have "b = 0xFFFFFFFF" by simp
      ultimately show False using assms(2) by simp
    qed
    then have "\<bar>?x\<bar> < 2 ^ 31" using sint_bounds32 [of a] by linarith
    then show ?thesis using abs le by linarith
  next
    case 3
    have "\<bar>?x\<bar> div \<bar>?y\<bar> \<le> \<bar>?x\<bar> div 2" using 3 by (intro zdiv_mono2) auto
    also have "\<dots> < 2 ^ 31" using x by simp
    finally show ?thesis using abs by linarith
  qed
qed

lemma div_exact_int:
  assumes "b \<noteq> 0" "\<not> (a = 0x80000000 \<and> b = 0xFFFFFFFF)"
  shows "sint (snd (div_hilo a b)) * sint b + sint (fst (div_hilo a b)) = sint a
    \<and> \<bar>sint (fst (div_hilo a b))\<bar> < \<bar>sint b\<bar>
    \<and> (sint (fst (div_hilo a b)) = 0 \<or> sgn (sint (fst (div_hilo a b))) = sgn (sint a))"
proof -
  have y0: "sint b \<noteq> 0" using assms(1) by (rule sint_nonzero)
  have "\<bar>sint a smod sint b\<bar> < \<bar>sint b\<bar>" by (rule smod_facts(1) [OF y0])
  then have r: "- (2 ^ 31) \<le> sint a smod sint b" "sint a smod sint b < 2 ^ 31"
    using sint_bounds32 [of b] by linarith+
  have d: "div_hilo a b = (word_of_int (sint a smod sint b), word_of_int (sint a sdiv sint b))"
    by (simp only: div_hilo_def assms if_False)
  show ?thesis
    using smod_facts [OF y0, of "sint a"] sdiv_mult_smod_eq [of "sint a" "sint b"]
    by (simp only: d fst_conv snd_conv sint_woi [OF r] sint_woi [OF sdiv_range [OF assms]])
qed


lemma sr_pop_push: "sr_pop (sr_push sr) = sr AND NOT 0x30"
proof (rule bit_word_eqI)
  fix n assume n: "n < LENGTH(32)"
  have c: "(0x3F :: u32) = mask 6" "(0x0F :: u32) = mask 4" "(0xFFFFFFC0 :: u32) = NOT (mask 6)"
    "(0x30 :: u32) = mask 6 AND NOT (mask 4)"
    by (simp_all add: mask_eq_exp_minus_1)
  show "bit (sr_pop (sr_push sr)) n = bit (sr AND NOT 0x30) n"
    unfolding sr_pop_def sr_push_def c using n by (auto simp: bit_simps simp del: mask_numeral)
qed


subsection \<open>Unaligned access over a word memory\<close>

lemma and3_mask: "(3 :: u32) = mask 2"
  by (simp add: mask_eq_exp_minus_1)

lemma unat_and3: "unat (a AND 3) = unat (a :: u32) mod 4"
  by (simp add: and3_mask unat_and_mask del: mask_numeral)

lemma and3_cases: "a AND 3 = 0 \<or> a AND 3 = 1 \<or> a AND 3 = 2 \<or> a AND 3 = (3 :: u32)"
proof -
  have "unat (a AND 3) < 4" by (simp add: unat_and3)
  then have "unat (a AND 3) \<in> {0, 1, 2, 3}" by auto
  then show ?thesis by (simp add: word_unat_eq_iff)
qed

lemma and3_plus3: "(a + 3) AND 3 = (if a AND 3 = 0 then 3 else (a AND 3) - (1 :: u32))"
proof -
  have "(2 ^ 32 :: nat) mod 4 = 0" by simp
  then have "unat ((a + 3) AND 3) = (unat a + 3) mod 4"
    by (simp add: unat_and3 unat_word_ariths(1) mod_mod_cancel)
  also have "\<dots> = (unat (a AND 3) + 3) mod 4" by (simp add: unat_and3 mod_simps)
  finally have "unat ((a + 3) AND 3) = (unat (a AND 3) + 3) mod 4" .
  then have "of_nat (unat ((a + 3) AND 3)) = (of_nat ((unat (a AND 3) + 3) mod 4) :: u32)"
    by (simp only:)
  then have w: "(a + 3) AND 3 = of_nat ((unat (a AND 3) + 3) mod 4)" by simp
  show ?thesis
    unfolding w using and3_cases [of a] by (elim disjE) simp_all
qed

lemma aligned_plus3:
  "aligned (a + 3) = (if a AND 3 = 0 then aligned a else aligned a + 4)"
  unfolding aligned_def and_not_minus and3_plus3 by simp

lemma word_masks:
  "(0x000000FF :: u32) = mask 8" "(0x0000FFFF :: u32) = mask 16" "(0x00FFFFFF :: u32) = mask 24"
  "(0xFFFFFF00 :: u32) = NOT (mask 8)" "(0xFFFF0000 :: u32) = NOT (mask 16)"
  "(0xFF000000 :: u32) = NOT (mask 24)"
  by (simp_all add: mask_eq_exp_minus_1)

lemma split_merge:
  fixes v w w' cur :: u32
  shows "(((cur AND NOT (mask 24)) OR drop_bit 8 ((w AND mask 8) OR push_bit 8 v)) AND mask 24)
      OR push_bit 24 ((w' AND NOT (mask 8)) OR drop_bit 24 v) = v"
    "(((cur AND NOT (mask 16)) OR drop_bit 16 ((w AND mask 16) OR push_bit 16 v)) AND mask 16)
      OR push_bit 16 ((w' AND NOT (mask 16)) OR drop_bit 16 v) = v"
    "(((cur AND NOT (mask 8)) OR drop_bit 24 ((w AND mask 24) OR push_bit 24 v)) AND mask 8)
      OR push_bit 8 ((w' AND NOT (mask 24)) OR drop_bit 8 v) = v"
  by (rule bit_word_eqI; auto simp: bit_simps simp del: mask_numeral)+

lemma word_digits:
  "((1 :: u32) = 0) = False" "((2 :: u32) = 0) = False" "((2 :: u32) = 1) = False"
  "((3 :: u32) = 0) = False" "((3 :: u32) = 1) = False" "((3 :: u32) = 2) = False"
  "((0 :: u32) = 0) = True" "((1 :: u32) = 1) = True" "((2 :: u32) = 2) = True"
  "(1 :: u32) - 1 = 0" "(2 :: u32) - 1 = 1" "(3 :: u32) - 1 = 2"
  by simp_all

lemma unaligned_words:
  assumes "a AND 3 \<noteq> 0"
  shows "lwl_merge (a + 3) (swl_merge (a + 3) v w') (lwr_merge a (swr_merge a v w) cur) = v"
proof -
  note unfold = lwl_merge_def lwr_merge_def swl_merge_def swr_merge_def Let_def
  have k3: "(a + 3) AND 3 = (a AND 3) - 1" using assms by (simp add: and3_plus3)
  consider "a AND 3 = 1" | "a AND 3 = 2" | "a AND 3 = 3" using and3_cases [of a] assms by blast
  then show ?thesis
    by cases (simp_all only: unfold k3 word_digits word_masks split_merge if_True if_False)
qed

context word_memory begin

text \<open>The SWR and SWL pair that stores an unaligned word.\<close>

lemma unaligned_roundtrip:
  assumes "ok s" "valid (aligned a)" "valid (aligned (a + 3))"
    and "s1 = wr (aligned a) (swr_merge a v (rd (aligned a) s)) s"
    and "s2 = wr (aligned (a + 3)) (swl_merge (a + 3) v (rd (aligned (a + 3)) s1)) s1"
  shows "lwl_merge (a + 3) (rd (aligned (a + 3)) s2) (lwr_merge a (rd (aligned a) s2) cur) = v"
proof -
  have ok1: "ok s1" using assms by (simp add: ok_wr)
  show ?thesis
  proof (cases "a AND 3 = 0")
    case True
    then have "(a + 3) AND 3 = 3" by (simp add: and3_plus3)
    then show ?thesis
      using assms ok1 by (simp add: rd_wr_same lwl_merge_def swl_merge_def Let_def)
  next
    case False
    then have ne: "aligned (a + 3) \<noteq> aligned a" by (simp add: aligned_plus3)
    have "rd (aligned (a + 3)) s2 = swl_merge (a + 3) v (rd (aligned (a + 3)) s1)"
      using assms ok1 by (simp add: rd_wr_same)
    moreover have "rd (aligned a) s2 = swr_merge a v (rd (aligned a) s)"
      using assms ok1 ne by (simp add: rd_wr_same rd_wr_other)
    ultimately show ?thesis using False by (simp add: unaligned_words)
  qed
qed

end

lemma bit31: "bit (2147483648 :: int) n \<longleftrightarrow> n = 31"
proof -
  have "(2147483648 :: int) = 2 ^ 31" by simp
  then have "bit (2147483648 :: int) n = bit ((2 :: int) ^ 31) n" by (simp only:)
  then show ?thesis by (simp only: bit_exp_iff) auto
qed

lemma and_push_bit_1_iff: "(x AND push_bit n 1 \<noteq> 0) = bit x n" for x :: u32
  by (simp only: bit_iff_and_push_bit_not_eq_0)
subsection \<open>The guest bus\<close>

text \<open>
  The memory functions of \<open>CPUState\<close> wired to the guest memory map, as the runtime does at start
  up; the GTE and the tick functions are those of a given bus.
\<close>

definition on_guest :: "('x gsys \<Rightarrow> 'v \<times> 'x gsys) \<Rightarrow> ('x gsys) dev \<Rightarrow> 'v \<times> ('x gsys) dev" where
  "on_guest f p = (case p of (t, g) \<Rightarrow>
     let (v, g') = f (g\<lparr>tmr := t\<rparr>) in (v, (tmr g', g')))"

definition do_guest :: "('x gsys \<Rightarrow> 'x gsys) \<Rightarrow> ('x gsys) dev \<Rightarrow> ('x gsys) dev" where
  "do_guest f p = (case p of (t, g) \<Rightarrow> let g' = f (g\<lparr>tmr := t\<rparr>) in (tmr g', g'))"

definition guest_bus :: "'x devices \<Rightarrow> ('x gsys) bus \<Rightarrow> ('x gsys) bus" where
  "guest_bus d b = b\<lparr>rd_word := (\<lambda>a. on_guest (psx_read_word_raw d a)),
     wr_word := (\<lambda>a v. do_guest (psx_write_word_raw d a v)),
     rd_half := (\<lambda>a. on_guest (psx_read_half_raw d a)),
     wr_half := (\<lambda>a v. do_guest (psx_write_half_raw d a v)),
     rd_byte := (\<lambda>a. on_guest (psx_read_byte_raw d a)),
     wr_byte := (\<lambda>a v. do_guest (psx_write_byte_raw d a v))\<rparr>"

subsection \<open>Properties\<close>

lemma interp_step_None:
  assumes "interp_step b fuel n m = None"
  shows "\<exists>j x. j < n \<and> interp_step b fuel j m = Some (j, x) \<and> slot_chain b fuel x"
proof -
  obtain j x where j: "j < unat n" "step_loop b fuel j 0 (m\<lparr>hit_bp := False\<rparr>) = Some (0 + of_nat j, x)" "slot_chain b fuel x"
    using step_loop_None assms unfolding interp_step_def by blast
  then have "unat (of_nat j :: u32) = j" using unat_u32_less [of n] by (simp add: unat_of_nat take_bit_nat_eq_self)
  then have "(of_nat j :: u32) < n \<and> interp_step b fuel (of_nat j) m = Some (of_nat j, x)"
    using j(1,2) by (simp add: word_less_nat_alt interp_step_def)
  then show ?thesis using j(3) by blast
qed

lemma interp_step_mwf: "mwf m \<Longrightarrow> interp_step b fuel n m = Some (k, m') \<Longrightarrow> mwf m'"
  unfolding interp_step_def by (erule step_loop_mwf) simp

text \<open>
  C22. Register zero: from a state where register 0 holds zero and the pending load names a real
  register, \<open>interp_step\<close> on any bus, asked for any number of instructions, leads to such a state
  again, taken branches, delay slots, exceptions and interrupts included, and more fuel leads to the
  same count and state. The fuel bounds the recursion of \<open>exec_one\<close> into delay slots, and it runs out
  only in one way: after some number \<open>j\<close> of the instructions the machine is at a branch whose delay slot
  holds a branch whose delay slot holds a branch, and so on, as many deep as the fuel.
\<close>

theorem interp_register_zero:
  assumes "mwf m"
  shows "case interp_step b fuel n m of
      Some (k, m') \<Rightarrow> gpr m' 0 = 0 \<and> load_reg m' < 32 \<and> (\<forall>f. interp_step b (fuel + f) n m = Some (k, m'))
    | None \<Rightarrow> \<exists>j x. j < n \<and> interp_step b fuel j m = Some (j, x) \<and> slot_chain b fuel x"
proof (cases "interp_step b fuel n m")
  case None
  then show ?thesis using interp_step_None by simp
next
  case (Some r)
  obtain k m' where r: "r = (k, m')" by fastforce
  have "mwf m'" using interp_step_mwf [OF assms] Some r by blast
  moreover have "interp_step b (fuel + f) n m = Some (k, m')" for f
    using step_loop_fuel Some r unfolding interp_step_def by blast
  ultimately show ?thesis using Some r by (simp add: mwf_def)
qed

text \<open>
  The step count: \<open>interp_step\<close> never executes more than it was asked for; it stops early
  only at a breakpoint, which the program counter is then on, or halted; it leaves the breakpoint
  list alone.
\<close>

theorem interp_step_stops:
  assumes "interp_step b fuel n m = Some (k, m')"
  shows "k \<le> n \<and> bps m' = bps m \<and> (hit_bp m' \<longrightarrow> r_pc m' \<in> set (bps m'))
    \<and> (\<not> hit_bp m' \<longrightarrow> halted m' \<or> k = n)"
proof -
  have lim: "unat (0 :: u32) + unat n < 2 ^ 32" using unat_u32_less [of n] by simp
  show ?thesis
    using step_loop_result [OF assms [unfolded interp_step_def] _ lim]
    by (auto simp: word_le_nat_alt word_unat_eq_iff)
qed

text \<open>
  Nesting is one level deep for real code: if the instruction in the delay slot of a taken
  branch is not itself a branch or jump, one instruction completes with fuel 2, and with any more
  fuel to the same machine.
\<close>

theorem interp_delay_slot_depth:
  assumes "\<And>t m2. exec_op b (fst (fetch b m)) (r_pc m) (snd (fetch b m)) = Branch t m2 \<Longrightarrow>
             \<not> is_branch (fst (fetch b m2))"
  shows "\<exists>m'. \<forall>n. exec_one b (2 + n) m = Some m'"
proof -
  obtain i m1 where f: "fetch b m = (i, m1)" by fastforce
  have "\<exists>m'. exec_one b 2 m = Some m'"
  proof (cases "r_pc m = 0")
    case True
    then show ?thesis by (simp add: exec_one_null numeral_2_eq_2)
  next
    case False
    show ?thesis
    proof (cases "exec_op b i (r_pc m) m1")
      case (Branch t m2)
      obtain j m3 where f2: "fetch b m2 = (j, m3)" by fastforce
      have "\<not> is_branch j" using assms [of t m2] Branch f f2 by simp
      then obtain m' where "exec_one b 1 m2 = Some m'"
        using exec_one_plain [OF f2, of 0] exec_op_falls [of j b "r_pc m2" m3] by auto
      then show ?thesis using Branch by (simp add: exec_one_live [OF False f] numeral_2_eq_2)
    qed (simp_all add: exec_one_live [OF False f] numeral_2_eq_2)
  qed
  then show ?thesis using exec_one_more by blast
qed

text \<open>
  C27. Traps lose their place: a SYSCALL leaves EPC at the instruction after it (the program
  counter has already been advanced), and a SYSCALL in the delay slot of a taken branch never
  reaches the exception vector, since the branch then overwrites the program counter.
\<close>

theorem syscall_epc:
  assumes "r_pc m \<noteq> 0" "fetch b m = (i, m1)" "OP i = 0" "FUNC i = 0xC"
  shows "exec_one b (Suc n) m = Some (raise_exception 8 False m1)
    \<and> get_cop0 14 (raise_exception 8 False m1) = r_pc m + 4
    \<and> (\<forall>j m0 t. r_pc m0 \<noteq> 0 \<and> exec_op b (fst (fetch b m0)) (r_pc m0) (snd (fetch b m0)) = Branch t m
         \<longrightarrow> exec_one b (Suc (Suc n)) m0 = Some ((raise_exception 8 False m1)\<lparr>r_pc := t\<rparr>))"
proof -
  have op: "exec_op b i (r_pc m) m1 = Ret (raise_exception 8 False m1)"
    using assms(3,4) by (simp add: exec_op_def exec_special_def Let_def)
  then have one: "exec_one b (Suc n) m = Some (raise_exception 8 False m1)"
    by (simp add: exec_one_live [OF assms(1,2)])
  have pc: "r_pc m1 = r_pc m + 4"
    using assms(2) by (auto simp: fetch_def Let_def split_beta)
  have "exec_one b (Suc (Suc n)) m0 = Some ((raise_exception 8 False m1)\<lparr>r_pc := t\<rparr>)"
    if "r_pc m0 \<noteq> 0" "exec_op b (fst (fetch b m0)) (r_pc m0) (snd (fetch b m0)) = Branch t m" for m0 t
    using exec_one_live [OF that(1), of b "fst (fetch b m0)" "snd (fetch b m0)" "Suc n"] that(2) one
    by simp
  then show ?thesis
    using one pc by (auto simp: raise_exception_def Let_def get_set_cop0)
qed

text \<open>
  C24. Exception entry and return: entry pushes the mode stack (leaving kernel mode with interrupts
  off), records the code, clears the branch-delay flag, saves the program counter and jumps to the
  vector the BEV bit selects; the RFE instruction then brings every status bit back except bits 4
  and 5, which it clears.
\<close>

theorem exception_and_rfe:
  fixes b :: "'w bus" and m :: "'w machine" and c pc :: u32
  assumes "c < 32"
  defines "m1 \<equiv> raise_exception c False m"
  shows "get_cop0 12 m1 AND 3 = 0 \<and> get_cop0 13 m1 AND 0x7C = push_bit 2 c
    \<and> \<not> bit (get_cop0 13 m1) 31 \<and> get_cop0 14 m1 = r_pc m
    \<and> r_pc m1 = (if bit (get_cop0 12 m) 22 then 0xBFC00180 else 0x80000080)
    \<and> gpr m1 = gpr m
    \<and> (\<exists>m2. exec_op b 0x42000010 pc m1 = Fall m2 \<and> get_cop0 12 m2 = get_cop0 12 m AND NOT 0x30
         \<and> gpr m2 = gpr m \<and> get_cop0 14 m2 = r_pc m)"
proof -
  have sr: "get_cop0 12 m1 = sr_push (get_cop0 12 m)" and epc: "get_cop0 14 m1 = r_pc m"
    and pc: "r_pc m1 = exc_vector (get_cop0 12 m)" and gp: "gpr m1 = gpr m"
    and ca: "get_cop0 13 m1 = ((get_cop0 13 m AND NOT 0x7C) OR push_bit 2 c) AND NOT (push_bit 31 1)"
    by (simp_all add: m1_def raise_exception_def Let_def get_set_cop0)
  have masks: "(3 :: u32) = mask 2" "(0x3F :: u32) = mask 6" "(0x0F :: u32) = mask 4"
    "(0x7C :: u32) = mask 7 AND NOT (mask 2)"
    by (simp_all add: mask_eq_exp_minus_1)
  have c5: "c = c AND mask 5"
    using assms(1) by (intro and_low [symmetric]) (simp add: word_less_nat_alt)
  have c5': "n < 5" if "bit c n" for n
  proof -
    have "bit (c AND mask 5) n" using c5 that by simp
    then show ?thesis by (simp add: bit_simps del: mask_numeral)
  qed
  have 1: "get_cop0 12 m1 AND 3 = 0"
    unfolding sr sr_push_def masks by (rule bit_word_eqI) (auto simp: bit_simps simp del: mask_numeral)
  have 2: "get_cop0 13 m1 AND 0x7C = push_bit 2 c"
    unfolding ca masks
    by (rule bit_word_eqI) (auto simp: bit_simps bit31 dest: c5' simp del: mask_numeral)
  have 3: "\<not> bit (get_cop0 13 m1) 31"
    unfolding ca by (simp add: bit_simps)
  have v: "exc_vector sr = (if bit sr 22 then 0xBFC00180 else 0x80000080)" for sr
  proof -
    have p: "(0x00400000 :: u32) = push_bit 22 1" by simp
    have "(sr AND 0x00400000 \<noteq> 0) = bit sr 22"
      unfolding p by (simp only: and_push_bit_1_iff)
    then show ?thesis by (simp add: exc_vector_def)
  qed
  have rfe: "exec_op b 0x42000010 pc m1 = Fall (set_cop0 12 (sr_pop (get_cop0 12 m1)) m1)"
    by (simp add: exec_op_def OP_def exec_cop0_def RS_def Let_def)
  show ?thesis
    using 1 2 3 epc pc v gp rfe by (simp add: sr sr_pop_push get_set_cop0)
qed

text \<open>
  C23. Interrupt delivery: after the devices have been ticked, an interrupt is taken exactly when an
  unmasked request is pending and the status register has both IEc and IM2 set. Taking it saves the
  program counter, selects the vector, disables further interrupts, sets exception code 0 and
  leaves CAUSE.IP2 showing the request line; otherwise nothing changes.
\<close>

theorem interrupt_delivery:
  fixes b :: "'w bus" and m :: "'w machine"
  defines "m1 \<equiv> schedule_tick b m"
  defines "taken \<equiv> i_stat (menv m1) AND i_mask (menv m1) \<noteq> 0
                 \<and> bit (get_cop0 12 m1) 0 \<and> bit (get_cop0 12 m1) 10"
  defines "m2 \<equiv> interp_check_interrupts b m"
  shows "(taken \<longrightarrow> get_cop0 14 m2 = r_pc m \<and> r_pc m2 = exc_vector (get_cop0 12 m1)
           \<and> get_cop0 12 m2 = sr_push (get_cop0 12 m1) \<and> \<not> bit (get_cop0 12 m2) 0
           \<and> get_cop0 13 m2 AND 0x7C = 0 \<and> ip2_mirrors (menv m2))
       \<and> (\<not> taken \<longrightarrow> m2 = m1)"
proof -
  have b0: "(get_cop0 12 m1 AND 1 = 0) = (\<not> bit (get_cop0 12 m1) 0)"
    and b10: "(get_cop0 12 m1 AND push_bit 10 1 = 0) = (\<not> bit (get_cop0 12 m1) 10)"
    using and_push_bit_1_iff [of "get_cop0 12 m1" 0] and_push_bit_1_iff [of "get_cop0 12 m1" 10]
    by auto
  have m2: "m2 = (if taken then deliver m1 else m1)"
    unfolding m2_def interp_check_interrupts_def Let_def m1_def [symmetric] b0 b10 taken_def by auto
  have pc: "r_pc m1 = r_pc m" by (simp add: m1_def)
  have sr: "get_cop0 12 (deliver m1) = sr_push (get_cop0 12 m1)"
    and epc: "get_cop0 14 (deliver m1) = r_pc m1"
    and vec: "r_pc (deliver m1) = exc_vector (get_cop0 12 m1)"
    by (simp_all add: deliver_def Let_def get_set_cop0 get_cop0_upd_menv)
  have ie: "\<not> bit (sr_push x) 0" for x
    by (simp add: sr_push_def bit_simps)
  define e where "e = (menv m1)\<lparr>cause := cause (menv m1) AND NOT 0x7C\<rparr>"
  have env: "menv (deliver m1) = psx_irq_refresh_cause_ip2 e"
    by (simp add: deliver_def Let_def set_cop0_def menv_def upd_menv_def get_cop0_def e_def)
  have "cause (psx_irq_refresh_cause_ip2 e) AND 0x7C = 0"
    by (simp add: psx_irq_refresh_cause_ip2_def e_def bit.conj_disj_distrib2 and.assoc)
  then show ?thesis
    using m2 sr epc vec ie pc env refresh_mirrors [of e] by (simp add: get_cop0_def)
qed

text \<open>
  Multiply and divide: the HI and LO results read together are the exact signed or unsigned
  64-bit product; a signed division gives the truncated quotient and the remainder with the sign of
  the dividend; division by zero and the one signed overflow give the values the machine defines.
\<close>

theorem muldiv_exact:
  "sint (fst (mult_hilo x y)) * 2 ^ 32 + uint (snd (mult_hilo x y)) = sint x * sint y
   \<and> uint (fst (multu_hilo x y)) * 2 ^ 32 + uint (snd (multu_hilo x y)) = uint x * uint y
   \<and> (y \<noteq> 0 \<longrightarrow> \<not> (x = 0x80000000 \<and> y = 0xFFFFFFFF) \<longrightarrow>
        sint (snd (div_hilo x y)) * sint y + sint (fst (div_hilo x y)) = sint x
        \<and> \<bar>sint (fst (div_hilo x y))\<bar> < \<bar>sint y\<bar>
        \<and> (sint (fst (div_hilo x y)) = 0 \<or> sgn (sint (fst (div_hilo x y))) = sgn (sint x)))
   \<and> (y \<noteq> 0 \<longrightarrow> snd (divu_hilo x y) * y + fst (divu_hilo x y) = x \<and> fst (divu_hilo x y) < y)
   \<and> div_hilo x 0 = (x, if sint x < 0 then 1 else 0xFFFFFFFF) \<and> divu_hilo x 0 = (x, 0xFFFFFFFF)
   \<and> div_hilo 0x80000000 0xFFFFFFFF = (0, 0x80000000)"
proof -
  have neg: "(x AND 0x80000000 \<noteq> 0) = (sint x < 0)"
  proof -
    have "(0x80000000 :: u32) = push_bit 31 1" by simp
    then have "(x AND 0x80000000 \<noteq> 0) = bit x 31" by (simp only: and_push_bit_1_iff)
    then show ?thesis using bit_last_iff [of x] by simp
  qed
  have "x div y * y + x mod y = x" by (rule div_mult_mod_eq)
  moreover have "y \<noteq> 0 \<Longrightarrow> x mod y < y"
    by (simp add: word_less_nat_alt unat_mod_distrib unat_gt_0)
  ultimately show ?thesis
    using mult_exact_int [of x y] multu_exact_int [of x y] div_exact_int [of y x] neg
    by (simp add: divu_hilo_def) (simp add: div_hilo_def)
qed

text \<open>
  Trapping arithmetic: ADD, SUB and ADDI write the wrapped sum or difference (the one ADDU and
  SUBU write) exactly when the signed result fits 32 bits, and otherwise raise the overflow
  exception and leave every register alone.
\<close>

theorem trapping_arith:
  fixes x y rd :: u32 and m :: "'w machine"
  defines "fits r \<equiv> - (2 ^ 31) \<le> r \<and> r < 2 ^ 31"
  shows "(fits (sint x + sint y) \<longrightarrow> trap_arith rd (sint x + sint y) m = Fall (set_reg rd (x + y) m))
    \<and> (fits (sint x - sint y) \<longrightarrow> trap_arith rd (sint x - sint y) m = Fall (set_reg rd (x - y) m))
    \<and> (\<not> fits r \<longrightarrow> trap_arith rd r m = Ret (raise_exception 12 False m)
         \<and> gpr (raise_exception 12 False m) = gpr m
         \<and> get_cop0 13 (raise_exception 12 False m) AND 0x7C = 0x30)"
proof -
  have c: "get_cop0 13 (raise_exception 12 False m) AND 0x7C = 0x30"
    by (simp add: raise_exception_def Let_def get_set_cop0 bit.conj_disj_distrib2 and.assoc)
  show ?thesis using c by (auto simp: fits_def trap_arith_def)
qed

text \<open>
  Unaligned words: in main RAM, the SWR and SWL pair that stores a word at any address,
  followed by the LWR and LWL pair that loads from it, gives the word back, whatever the register
  held.
\<close>

theorem unaligned_store_load:
  fixes d :: "'x devices" and s :: "'x gsys" and a v cur :: u32
  assumes "plain_stores s" "ram_word (aligned a)" "ram_word (aligned (a + 3))"
  defines "rd \<equiv> \<lambda>q s. fst (psx_read_word_raw d q s)"
  defines "s1 \<equiv> psx_write_word_raw d (aligned a) (swr_merge a v (rd (aligned a) s)) s"
  defines "s2 \<equiv> psx_write_word_raw d (aligned (a + 3))
                  (swl_merge (a + 3) v (rd (aligned (a + 3)) s1)) s1"
  shows "lwl_merge (a + 3) (rd (aligned (a + 3)) s2) (lwr_merge a (rd (aligned a) s2) cur) = v"
  unfolding rd_def
  by (rule main_ram.unaligned_roundtrip [OF assms(1-3) _ _])
    (simp_all add: s1_def s2_def rd_def)

text \<open>
  Breakpoints: adding appends and answers the slot, or refuses when 64 are set; removing takes
  out exactly one occurrence and reports whether there was one.
\<close>

theorem breakpoint_set:
  "(length (bps m) < 64 \<longrightarrow> interp_break_add p m = (int (length (bps m)), m\<lparr>bps := bps m @ [p]\<rparr>))
   \<and> (\<not> length (bps m) < 64 \<longrightarrow> interp_break_add p m = (-1, m))
   \<and> fst (interp_break_remove p m) = (p \<in> set (bps m))
   \<and> mset (bps (snd (interp_break_remove p m))) = mset (bps m) - {#p#}"
proof -
  have idx: "(bp_index p xs = None \<longleftrightarrow> p \<notin> set xs)
      \<and> (\<forall>i. bp_index p xs = Some i \<longrightarrow> i < length xs \<and> xs ! i = p)" for xs
    by (induction xs) (auto simp: nth_Cons split: nat.splits)
  have rm: "mset (butlast (xs[i := last xs])) = mset xs - {#xs ! i#}" if i0: "i < length xs" for i and xs :: "u32 list"
  proof -
    obtain ys z where xs: "xs = ys @ [z]" using i0 by (cases xs rule: rev_cases) auto
    show ?thesis
    proof (cases "i = length ys")
      case True
      then show ?thesis by (simp add: xs)
    next
      case False
      with i0 have i: "i < length ys" by (simp add: xs)
      then show ?thesis by (simp add: xs list_update_append mset_update nth_append)
    qed
  qed
  show ?thesis
    using idx [of "bps m"] rm
    by (auto simp: interp_break_add_def interp_break_remove_def split: option.splits)
qed


text \<open>
  The rows the trace holds: record number \<open>k\<close> is in slot \<open>k\<close> modulo the size while fewer than
  the size have followed it.
\<close>

definition trace_log :: "'w machine \<Rightarrow> trace_entry list \<Rightarrow> bool" where
  "trace_log m rows \<longleftrightarrow> unat (trace_seq m) = length rows
     \<and> unat (trace_write_idx m) = length rows mod 2 ^ 20
     \<and> (\<forall>k < length rows. length rows \<le> k + 2 ^ 20 \<longrightarrow> trace_ring m (k mod 2 ^ 20) = rows ! k)"

definition trace_row :: "u32 \<Rightarrow> 'w machine \<Rightarrow> trace_entry" where
  "trace_row i m = \<lparr>te_pc = r_pc m, te_gpr = gpr m, te_hi = r_hi m, te_lo = r_lo m,
     te_sr = get_cop0 12 m, te_cause = get_cop0 13 m, te_epc = get_cop0 14 m, te_insn = i,
     te_seq = trace_seq m\<rparr>"

lemma len_u32: "LENGTH(32) = 32"
  by simp

lemma mask20: "TRACE_RING_MASK = mask 20"
  by (simp add: mask_eq_exp_minus_1)

lemma mod_differ:
  fixes k n c :: nat
  assumes "k < n" "n < k + c"
  shows "k mod c \<noteq> n mod c"
proof
  assume eq: "k mod c = n mod c"
  have "c dvd n - k" using eq assms(1) by (subst mod_eq_dvd_iff_nat [symmetric]) simp_all
  moreover have "0 < n - k" "n - k < c" using assms by simp_all
  ultimately show False using nat_dvd_not_less by blast
qed

lemma trace_log_record:
  assumes "trace_log m rows" "length rows + 1 < 2 ^ 64"
  shows "trace_log (trace_record i m) (rows @ [trace_row i m])"
proof -
  have seq: "unat (trace_seq m + 1) = length rows + 1"
    using assms by (simp add: trace_log_def unat_Suc_u64)
  have "unat (trace_write_idx m) < 2 ^ 20" using assms(1) by (simp add: trace_log_def)
  then have "unat (trace_write_idx m + 1) = unat (trace_write_idx m) + 1"
    by (simp add: unat_word_ariths(1))
  then have idx: "unat ((trace_write_idx m + 1) AND TRACE_RING_MASK) = (length rows + 1) mod 2 ^ 20"
    using assms(1) unfolding mask20 unat_and_mask trace_log_def by (simp add: mod_simps)
  have slot: "trace_ring (trace_record i m) (k mod 2 ^ 20) = (rows @ [trace_row i m]) ! k"
    if "k < length rows + 1" "length rows + 1 \<le> k + 2 ^ 20" for k
  proof (cases "k = length rows")
    case True
    then show ?thesis using assms(1) by (simp add: trace_record_def trace_log_def trace_row_def)
  next
    case False
    then have "k mod 2 ^ 20 \<noteq> length rows mod 2 ^ 20" using that by (intro mod_differ) simp_all
    then show ?thesis
      using assms(1) False that by (simp add: trace_record_def trace_log_def nth_append)
  qed
  show ?thesis
    using seq idx slot by (simp add: trace_log_def) (simp add: trace_record_def)
qed

text \<open>
  The instruction trace: recording appends the machine's row, and reading entry \<open>k\<close> of the ring
  returns the \<open>k\<close>-th oldest of the rows still held (the last 1048576), or nothing past them.
\<close>

theorem trace_readback:
  assumes "trace_log m rows" "length rows + 1 < 2 ^ 64"
  shows "trace_log (trace_record i m) (rows @ [trace_row i m])
    \<and> interp_trace_get k m =
       (let n = min (length rows) (2 ^ 20)
        in if unat k < n then Some (rows ! (length rows - n + unat k)) else None)"
proof (intro conjI trace_log_record [OF assms])
  let ?L = "length rows" and ?n = "min (length rows) (2 ^ 20)"
  have seq: "unat (trace_seq m) = ?L" and w: "unat (trace_write_idx m) = ?L mod 2 ^ 20"
    using assms(1) by (simp_all add: trace_log_def)
  define avail :: u32 where "avail = (if trace_seq m < ucast TRACE_RING_SIZE then ucast (trace_seq m)
                        else TRACE_RING_SIZE)"
  have av: "unat avail = ?n"
    using seq by (auto simp: avail_def word_less_nat_alt unsigned_ucast_eq take_bit_nat_eq_self)
  have get: "interp_trace_get k m = (if TRACE_RING_SIZE \<le> k \<or> avail \<le> k then None
      else Some (trace_ring m (unat ((trace_write_idx m - avail + k) AND TRACE_RING_MASK))))"
    by (simp add: interp_trace_get_def Let_def avail_def)
  show "interp_trace_get k m = (let n = ?n
        in if unat k < n then Some (rows ! (?L - n + unat k)) else None)"
  proof (cases "unat k < ?n")
    case False
    then have "avail \<le> k" unfolding word_le_nat_alt av by (simp only: not_less)
    with False show ?thesis by (simp add: get)
  next
    case True
    have k: "\<not> TRACE_RING_SIZE \<le> k" "\<not> avail \<le> k"
      unfolding word_le_nat_alt av using True by (simp, simp only: not_le)
    have n: "?n \<le> ?L" "?n \<le> 2 ^ 20" by simp_all
    let ?j = "?L - ?n + unat k"
    have "unat ((trace_write_idx m - avail + k) AND TRACE_RING_MASK) = ?j mod 2 ^ 20"
    proof -
      have c: "(2 ^ 20 :: nat) dvd 2 ^ 32" by simp
      have "unat (trace_write_idx m - avail) mod 2 ^ 20 = (?L - ?n) mod 2 ^ 20"
      proof (cases "?L < 2 ^ 20")
        case True
        then have "unat (trace_write_idx m) = unat avail" using w av by simp
        then have "trace_write_idx m = avail" by (simp add: word_unat_eq_iff)
        with True show ?thesis by simp
      next
        case False
        then have n20: "?n = 2 ^ 20" by simp
        have lt: "unat (trace_write_idx m) < 2 ^ 20" using w by simp
        then have "unat (trace_write_idx m - avail) = unat (trace_write_idx m) + 4095 * 2 ^ 20"
          using av n20 by (simp add: unat_sub_if')
        then have "unat (trace_write_idx m - avail) mod 2 ^ 20 = ?L mod 2 ^ 20"
          by (simp only: mod_mult_self1 w mod_mod_trivial)
        also have "\<dots> = (?L - ?n) mod 2 ^ 20"
          using False unfolding n20 by (simp add: le_mod_geq)
        finally show ?thesis .
      qed
      then have "(unat (trace_write_idx m - avail) + unat k) mod 2 ^ 20 = ?j mod 2 ^ 20"
        by (rule mod_add_cong) (rule refl)
      then have "unat (trace_write_idx m - avail + k) mod 2 ^ 20 = ?j mod 2 ^ 20"
        unfolding unat_word_ariths(1) by (simp only: mod_mod_cancel [OF c] len_u32)
      then show ?thesis unfolding mask20 unat_and_mask .
    qed
    moreover have "trace_ring m (?j mod 2 ^ 20) = rows ! ?j"
    proof -
      have "?j < ?L" "?L \<le> ?j + 2 ^ 20" using True n by linarith+
      then show ?thesis using assms(1) unfolding trace_log_def by blast
    qed
    ultimately show ?thesis using k True by (simp add: get)
  qed
qed


subsection \<open>Concrete inputs\<close>

text \<open>A bus whose world is a read-only word store, and a machine at the start of it.\<close>

definition rom_bus :: "(u32 \<Rightarrow> u32) bus" where
  "rom_bus = \<lparr>rd_word = (\<lambda>a p. (snd p a, p)), wr_word = (\<lambda>_ _. id),
     rd_half = (\<lambda>a p. (0, p)), wr_half = (\<lambda>_ _. id), rd_byte = (\<lambda>a p. (0, p)), wr_byte = (\<lambda>_ _. id),
     gte_rd_data = (\<lambda>a p. (0, p)), gte_rd_ctrl = (\<lambda>a p. (0, p)),
     gte_wr_data = (\<lambda>_ _. id), gte_wr_ctrl = (\<lambda>_ _. id), gte_exec = (\<lambda>_. id),
     gte_store_word = (\<lambda>_ _. id), sio_tick = id, gpu_vblank_tick = id, cdrom_tick = id\<rparr>"

definition rom_machine :: "(u32 \<Rightarrow> u32) \<Rightarrow> (u32 \<Rightarrow> u32) machine" where
  "rom_machine w = \<lparr>gpr = (\<lambda>_. 0), r_hi = 0, r_lo = 0, r_pc = 0x80001000, cop0 = (\<lambda>_. 0),
     io = (timers_demo, w), load_reg = 0, load_val = 0, hit_bp = False, trace_on = False,
     halted = False, bps = [0x80001008], trace_ring = (\<lambda>_. trace_zero), trace_seq = 0,
     trace_write_idx = 0, vblank_count = 0\<rparr>"

text \<open>ADDIU r1, r0, 5 and then ADDU r0, r1, r1: the second writes register 0.\<close>

definition rom_code :: "u32 \<Rightarrow> u32" where
  "rom_code a = (if a = 0x80001000 then 0x24010005 else if a = 0x80001004 then 0x00210021 else 0)"

definition rom_after :: "(u32 \<Rightarrow> u32) machine" where
  "rom_after = (rom_machine rom_code)\<lparr>gpr := (\<lambda>_. 0)(1 := 5), r_pc := 0x80001008, hit_bp := True\<rparr>"

lemma rom_fetch:
  "fetch rom_bus m = (snd (io m) (r_pc m), apply_load_delay
     ((if trace_on m then trace_record (snd (io m) (r_pc m)) m else m)\<lparr>r_pc := r_pc m + 4\<rparr>))"
  by (simp add: fetch_def bus_read_def rom_bus_def Let_def)

lemma zero_regs: "(\<lambda>_. 0 :: u32)(0 := 0, Suc 0 := v) = (\<lambda>_. 0)(Suc 0 := v)"
  "(\<lambda>_. 0 :: u32)(Suc 0 := v, 0 := 0) = (\<lambda>_. 0)(Suc 0 := v)"
  "(\<lambda>_. 0 :: u32)(0 := 0) = (\<lambda>_. 0)"
  by (simp_all add: fun_eq_iff)

lemma rom_step1:
  "exec_one rom_bus (Suc n) (rom_machine rom_code) =
     Some ((rom_machine rom_code)\<lparr>gpr := (\<lambda>_. 0)(1 := 5), r_pc := 0x80001004\<rparr>)"
  by (simp add: exec_one.simps rom_fetch Let_def)
    (simp add: rom_machine_def rom_code_def apply_load_delay_def exec_op_def OP_def RS_def RT_def
      exec_immediate_def SIMM_def set_reg_def zero_regs)

lemma rom_step2:
  "exec_one rom_bus (Suc n) ((rom_machine rom_code)\<lparr>gpr := (\<lambda>_. 0)(1 := 5), r_pc := 0x80001004\<rparr>) =
     Some ((rom_machine rom_code)\<lparr>gpr := (\<lambda>_. 0)(1 := 5), r_pc := 0x80001008\<rparr>)"
  by (simp add: exec_one.simps rom_fetch Let_def)
    (simp add: rom_machine_def rom_code_def apply_load_delay_def exec_op_def OP_def RS_def RT_def
      exec_special_def FUNC_def RD_def SA_def set_reg_def zero_regs fun_upd_idem)

lemma step_loop_break:
  "r_pc m \<in> set (bps m) \<Longrightarrow> step_loop b fuel (Suc left) n m = Some (n, m\<lparr>hit_bp := True\<rparr>)"
  by simp

lemma step_loop_more:
  assumes "r_pc m \<notin> set (bps m)" "exec_one b fuel m = Some m1" "\<not> halted m1" "(n + 1) AND 0xF \<noteq> 0"
  shows "step_loop b fuel (Suc left) n m = step_loop b fuel left (n + 1) m1"
  using assms by (simp add: Let_def)

lemma rom_run: "interp_step rom_bus 1 5 (rom_machine rom_code) = Some (2, rom_after)"
proof -
  let ?m = "rom_machine rom_code"
  let ?s1 = "?m\<lparr>gpr := (\<lambda>_. 0)(1 := 5), r_pc := 0x80001004\<rparr>"
  let ?s2 = "?m\<lparr>gpr := (\<lambda>_. 0)(1 := 5), r_pc := 0x80001008\<rparr>"
  have sel: "bps ?m = [0x80001008]" "r_pc ?m = 0x80001000" "halted ?m = False"
    "?m\<lparr>hit_bp := False\<rparr> = ?m"
    by (simp_all add: rom_machine_def)
  have c5: "unat (5 :: u32) = Suc (Suc (Suc 2))" by simp
  have one: "(1 :: nat) = Suc 0" by simp
  have "interp_step rom_bus 1 5 ?m = step_loop rom_bus (Suc 0) (Suc (Suc (Suc 2))) 0 ?m"
    unfolding interp_step_def sel(4) c5 one ..
  also have "\<dots> = step_loop rom_bus (Suc 0) (Suc (Suc 2)) (0 + 1) ?s1"
    by (rule step_loop_more [OF _ rom_step1]) (simp_all add: sel)
  also have "\<dots> = step_loop rom_bus (Suc 0) (Suc 2) (0 + 1 + 1) ?s2"
    by (rule step_loop_more [OF _ rom_step2]) (simp_all add: sel)
  also have "\<dots> = Some (0 + 1 + 1, ?s2\<lparr>hit_bp := True\<rparr>)"
    unfolding numeral_2_eq_2 by (rule step_loop_break) (simp add: sel)
  also have "\<dots> = Some (2, rom_after)" by (simp add: rom_after_def)
  finally show ?thesis .
qed

theorem interp_register_zero_witness:
  "interp_step rom_bus 1 5 (rom_machine rom_code) = Some (2, rom_after) \<and> gpr rom_after 0 = 0"
  using interp_register_zero [where m = "rom_machine rom_code" and b = rom_bus and fuel = 1 and n = 5] rom_run by (simp add: mwf_def rom_machine_def)

theorem interp_step_stops_witness:
  "interp_step rom_bus 1 5 (rom_machine rom_code) = Some (2, rom_after)
   \<and> r_pc rom_after \<in> set (bps rom_after)"
  using interp_step_stops [OF rom_run] rom_run by (simp add: rom_after_def)

text \<open>BEQ r0, r0, +1 with a NOP in its delay slot; and a SYSCALL.\<close>

definition rom_branch :: "u32 \<Rightarrow> u32" where
  "rom_branch a = (if a = 0x80001000 then 0x10000001 else 0)"

definition rom_syscall :: "u32 \<Rightarrow> u32" where
  "rom_syscall a = 0xC"

lemma rom_branch_op:
  "exec_op rom_bus (fst (fetch rom_bus (rom_machine rom_branch))) (r_pc (rom_machine rom_branch))
     (snd (fetch rom_bus (rom_machine rom_branch))) =
   Branch 0x80001008 ((rom_machine rom_branch)\<lparr>r_pc := 0x80001004\<rparr>)"
  by (simp add: rom_fetch)
    (simp add: rom_machine_def rom_branch_def apply_load_delay_def exec_op_def OP_def RS_def RT_def
      branch_if_def branch_target_def SIMM_def)

theorem interp_delay_slot_depth_witness:
  "\<exists>m'. \<forall>n. exec_one rom_bus (2 + n) (rom_machine rom_branch) = Some m'"
proof (rule interp_delay_slot_depth)
  fix t m2
  assume "exec_op rom_bus (fst (fetch rom_bus (rom_machine rom_branch)))
    (r_pc (rom_machine rom_branch)) (snd (fetch rom_bus (rom_machine rom_branch))) = Branch t m2"
  then have "m2 = (rom_machine rom_branch)\<lparr>r_pc := 0x80001004\<rparr>" by (simp add: rom_branch_op)
  then show "\<not> is_branch (fst (fetch rom_bus m2))"
    by (simp add: rom_fetch) (simp add: rom_machine_def rom_branch_def is_branch_def OP_def FUNC_def)
qed

theorem syscall_epc_witness:
  "get_cop0 14 (raise_exception 8 False (snd (fetch rom_bus (rom_machine rom_syscall)))) = 0x80001004"
proof -
  have pc: "r_pc (rom_machine rom_syscall) = 0x80001000" by (simp add: rom_machine_def)
  have "fetch rom_bus (rom_machine rom_syscall) = (0xC, snd (fetch rom_bus (rom_machine rom_syscall)))"
    by (simp add: rom_fetch) (simp add: rom_machine_def rom_syscall_def)
  from syscall_epc [OF _ this, of 0] pc show ?thesis by (simp add: OP_def FUNC_def)
qed

theorem exception_and_rfe_witness:
  "get_cop0 14 (raise_exception 9 False (rom_machine rom_code)) = 0x80001000
   \<and> r_pc (raise_exception 9 False (rom_machine rom_code)) = 0x80000080"
  using exception_and_rfe [of 9 "rom_machine rom_code"]
  by (simp add: rom_machine_def get_cop0_def menv_def)

theorem muldiv_exact_witness:
  "sint (snd (div_hilo 0xFFFFFFF9 2)) * 2 + sint (fst (div_hilo 0xFFFFFFF9 2)) = -7
   \<and> \<bar>sint (fst (div_hilo 0xFFFFFFF9 2))\<bar> < 2"
  using muldiv_exact [of "0xFFFFFFF9" 2] by simp

theorem trapping_arith_witness:
  "trap_arith 3 (sint (0x7FFFFFFE :: u32) + sint (1 :: u32)) (rom_machine rom_code)
     = Fall (set_reg 3 0x7FFFFFFF (rom_machine rom_code))
   \<and> trap_arith 3 (2 ^ 31) (rom_machine rom_code) = Ret (raise_exception 12 False (rom_machine rom_code))"
  using trapping_arith [of "0x7FFFFFFE" 1 3 "rom_machine rom_code" "2 ^ 31"] by simp

theorem unaligned_store_load_witness:
  "let r = (\<lambda>a s. fst (psx_read_word_raw null_devices a s));
       s1 = psx_write_word_raw null_devices 0x1000 (swr_merge 0x1001 0x12345678 (r 0x1000 guest_demo)) guest_demo;
       s2 = psx_write_word_raw null_devices 0x1004 (swl_merge 0x1004 0x12345678 (r 0x1004 s1)) s1
   in lwl_merge 0x1004 (r 0x1004 s2) (lwr_merge 0x1001 (r 0x1000 s2) 0xDEAD) = 0x12345678"
  using unaligned_store_load [OF demo_plain, of "0x1001" null_devices "0x12345678" "0xDEAD"]
  by (simp add: aligned_def ram_word_def word_aligned_def Let_def)

theorem breakpoint_set_witness:
  "interp_break_add 0x80002000 (rom_machine rom_code)
     = (1, (rom_machine rom_code)\<lparr>bps := [0x80001008, 0x80002000]\<rparr>)"
  using breakpoint_set [of "rom_machine rom_code" "0x80002000"] by (simp add: rom_machine_def)

theorem trace_readback_witness:
  "interp_trace_get 0 (trace_record 7 (rom_machine rom_code)) = Some (trace_row 7 (rom_machine rom_code))"
proof -
  have "trace_log (rom_machine rom_code) []" by (simp add: trace_log_def rom_machine_def)
  then have "trace_log (trace_record 7 (rom_machine rom_code)) [trace_row 7 (rom_machine rom_code)]"
    using trace_readback [of "rom_machine rom_code" "[]" 7 0] by simp
  then show ?thesis
    using trace_readback [of "trace_record 7 (rom_machine rom_code)"
      "[trace_row 7 (rom_machine rom_code)]" 0 0] by simp
qed

text \<open>A vertical blank requested and unmasked, interrupts enabled.\<close>

definition irq_machine :: "(u32 \<Rightarrow> u32) machine" where
  "irq_machine = (rom_machine rom_code)\<lparr>cop0 := (\<lambda>_. 0)(12 := 0x401),
     io := (timers_demo\<lparr>tenv := irq_power_on\<lparr>i_stat := 1, i_mask := 1\<rparr>\<rparr>, rom_code)\<rparr>"

lemma irq_machine_tick:
  "menv (schedule_tick rom_bus irq_machine) = irq_power_on\<lparr>i_stat := 1, i_mask := 1\<rparr>"
  "get_cop0 12 (schedule_tick rom_bus irq_machine) = 0x401"
  by (simp_all add: schedule_tick_def Let_def bus_do_def rom_bus_def)
    (simp_all add: irq_machine_def rom_machine_def menv_def get_cop0_def word_le_nat_alt)

lemma irq_machine_pc: "r_pc irq_machine = 0x80001000"
  by (simp add: irq_machine_def rom_machine_def)

theorem interrupt_delivery_witness:
  "r_pc (interp_check_interrupts rom_bus irq_machine) = 0x80000080
   \<and> get_cop0 14 (interp_check_interrupts rom_bus irq_machine) = 0x80001000
   \<and> \<not> bit (get_cop0 12 (interp_check_interrupts rom_bus irq_machine)) 0"
  using interrupt_delivery [of rom_bus irq_machine]
  by (simp add: irq_machine_tick irq_machine_pc exc_vector_def sr_push_def bit_numeral_rec)

end
