(* ===== verification/PstWire.thy ===== *)
theory PstWire
  imports Prelude
begin

section \<open>The snapshot wire format: pst\_wire.h\<close>

text \<open>
  The little-endian field cursors every device snapshot is written and read with. A writer holds
  the bytes written so far and the room left, or is a size probe (the null buffer, which only
  counts); a reader is the bytes still ahead, or \<open>None\<close> for a null pointer. A read returns
  \<open>None\<close> where the C returns 0, and then consumes nothing. The locale is the contract of a
  fixed-width field: what is written is read back, whatever follows.
\<close>

subsection \<open>Cursors\<close>

record pst_w =
  pw_null :: bool
  pw_buf :: "u8 list"
  pw_room :: nat
  pw_written :: nat

type_synonym pst_r = "u8 list option"

definition pst_w_init :: "nat option \<Rightarrow> pst_w" where
  "pst_w_init cap = \<lparr>pw_null = (cap = None), pw_buf = [],
     pw_room = (case cap of None \<Rightarrow> 0 | Some n \<Rightarrow> n), pw_written = 0\<rparr>"

definition pst_r_init :: "u8 list \<Rightarrow> pst_r" where
  "pst_r_init bs = Some bs"

definition pst_w_bytes :: "u8 list \<Rightarrow> pst_w \<Rightarrow> bool \<times> pst_w" where
  "pst_w_bytes src w =
     (if pw_null w then (True, w\<lparr>pw_written := pw_written w + length src\<rparr>)
      else if pw_room w < length src then (False, w)
      else (True, w\<lparr>pw_buf := pw_buf w @ src, pw_room := pw_room w - length src,
                    pw_written := pw_written w + length src\<rparr>))"

definition pst_r_bytes :: "nat \<Rightarrow> pst_r \<Rightarrow> (u8 list \<times> pst_r) option" where
  "pst_r_bytes n r =
     (case r of None \<Rightarrow> None
      | Some bs \<Rightarrow> if length bs < n then None else Some (take n bs, Some (drop n bs)))"

subsection \<open>Scalars\<close>

definition le16 :: "u16 \<Rightarrow> u8 list" where
  "le16 v = [ucast v, ucast (drop_bit 8 v)]"

definition le32 :: "u32 \<Rightarrow> u8 list" where
  "le32 v = [ucast v, ucast (drop_bit 8 v), ucast (drop_bit 16 v), ucast (drop_bit 24 v)]"

definition le64 :: "u64 \<Rightarrow> u8 list" where
  "le64 v = map (\<lambda>i. ucast (drop_bit (8 * i) v)) [0..<8]"

definition of_le16 :: "u8 list \<Rightarrow> u16" where
  "of_le16 b = ucast (b ! 0) OR push_bit 8 (ucast (b ! 1))"

definition of_le32 :: "u8 list \<Rightarrow> u32" where
  "of_le32 b = ucast (b ! 0) OR push_bit 8 (ucast (b ! 1)) OR push_bit 16 (ucast (b ! 2))
     OR push_bit 24 (ucast (b ! 3))"

definition of_le64 :: "u8 list \<Rightarrow> u64" where
  "of_le64 b = foldl (\<lambda>x i. x OR push_bit (8 * i) (ucast (b ! i))) 0 [0..<8]"

definition pst_w_u8 :: "u8 \<Rightarrow> pst_w \<Rightarrow> bool \<times> pst_w" where
  "pst_w_u8 v = pst_w_bytes [v]"

definition pst_r_u8 :: "pst_r \<Rightarrow> (u8 \<times> pst_r) option" where
  "pst_r_u8 r = (case pst_r_bytes 1 r of None \<Rightarrow> None | Some (b, r') \<Rightarrow> Some (b ! 0, r'))"

definition pst_w_u16 :: "u16 \<Rightarrow> pst_w \<Rightarrow> bool \<times> pst_w" where
  "pst_w_u16 v = pst_w_bytes (le16 v)"

definition pst_r_u16 :: "pst_r \<Rightarrow> (u16 \<times> pst_r) option" where
  "pst_r_u16 r = (case pst_r_bytes 2 r of None \<Rightarrow> None | Some (b, r') \<Rightarrow> Some (of_le16 b, r'))"

definition pst_w_u32 :: "u32 \<Rightarrow> pst_w \<Rightarrow> bool \<times> pst_w" where
  "pst_w_u32 v = pst_w_bytes (le32 v)"

definition pst_r_u32 :: "pst_r \<Rightarrow> (u32 \<times> pst_r) option" where
  "pst_r_u32 r = (case pst_r_bytes 4 r of None \<Rightarrow> None | Some (b, r') \<Rightarrow> Some (of_le32 b, r'))"

definition pst_w_u64 :: "u64 \<Rightarrow> pst_w \<Rightarrow> bool \<times> pst_w" where
  "pst_w_u64 v = pst_w_bytes (le64 v)"

definition pst_r_u64 :: "pst_r \<Rightarrow> (u64 \<times> pst_r) option" where
  "pst_r_u64 r = (case pst_r_bytes 8 r of None \<Rightarrow> None | Some (b, r') \<Rightarrow> Some (of_le64 b, r'))"

definition pst_w_bool :: "bool \<Rightarrow> pst_w \<Rightarrow> bool \<times> pst_w" where
  "pst_w_bool v = pst_w_u8 (if v then 1 else 0)"

definition pst_r_bool :: "pst_r \<Rightarrow> (bool \<times> pst_r) option" where
  "pst_r_bool r = (case pst_r_u8 r of None \<Rightarrow> None | Some (b, r') \<Rightarrow> Some (b \<noteq> 0, r'))"

subsection \<open>Sequences of fields\<close>

text \<open>C's \<open>a && b\<close> on two writes, and a run of writes whose results are ignored.\<close>

definition w_and :: "(pst_w \<Rightarrow> bool \<times> pst_w) \<Rightarrow> (pst_w \<Rightarrow> bool \<times> pst_w) \<Rightarrow> pst_w \<Rightarrow> bool \<times> pst_w" where
  "w_and f g w = (case f w of (True, w') \<Rightarrow> g w' | (False, w') \<Rightarrow> (False, w'))"

definition w_all :: "(pst_w \<Rightarrow> bool \<times> pst_w) list \<Rightarrow> pst_w \<Rightarrow> pst_w" where
  "w_all fs w = foldl (\<lambda>w f. snd (f w)) w fs"

text \<open>A read per element, giving up at the first that fails.\<close>

fun r_many :: "(pst_r \<Rightarrow> ('a \<times> pst_r) option) \<Rightarrow> nat \<Rightarrow> pst_r \<Rightarrow> ('a list \<times> pst_r) option" where
  "r_many get 0 r = Some ([], r)"
| "r_many get (Suc n) r =
     (case get r of None \<Rightarrow> None
      | Some (x, r1) \<Rightarrow>
          (case r_many get n r1 of None \<Rightarrow> None | Some (xs, r2) \<Rightarrow> Some (x # xs, r2)))"

text \<open>The writes of a condition joined by \<open>&&\<close>.\<close>

definition w_seq :: "(pst_w \<Rightarrow> bool \<times> pst_w) list \<Rightarrow> pst_w \<Rightarrow> bool \<times> pst_w" where
  "w_seq fs = foldr w_and fs (\<lambda>w. (True, w))"

text \<open>A read and what follows it, or the early return.\<close>

definition r_then :: "('a \<times> pst_r) option \<Rightarrow> ('a \<Rightarrow> pst_r \<Rightarrow> 'b option) \<Rightarrow> 'b option" where
  "r_then m f = (case m of None \<Rightarrow> None | Some (x, r) \<Rightarrow> f x r)"

lemma r_then_simps [simp]: "r_then None f = None" "r_then (Some (x, r)) f = f x r"
  by (simp_all add: r_then_def)

definition pst_w_i32 :: "int \<Rightarrow> pst_w \<Rightarrow> bool \<times> pst_w" where
  "pst_w_i32 v = pst_w_u32 (word_of_int v)"

definition pst_r_i32 :: "pst_r \<Rightarrow> (int \<times> pst_r) option" where
  "pst_r_i32 r = r_then (pst_r_u32 r) (\<lambda>u r. Some (sint u, r))"

text \<open>What a write puts on the wire when there is room for it, and what it counts in a probe.\<close>

definition emits :: "(pst_w \<Rightarrow> bool \<times> pst_w) \<Rightarrow> u8 list \<Rightarrow> bool" where
  "emits f bs \<longleftrightarrow> (\<forall>w. pw_null w \<or> length bs \<le> pw_room w \<longrightarrow> f w = pst_w_bytes bs w)"

lemma emits_bytes: "emits (pst_w_bytes bs) bs"
  by (simp add: emits_def)

lemma emits_u8: "emits (pst_w_u8 v) [v]"
  and emits_u16: "emits (pst_w_u16 h) (le16 h)"
  and emits_u32: "emits (pst_w_u32 x) (le32 x)"
  and emits_u64: "emits (pst_w_u64 q) (le64 q)"
  by (simp_all add: emits_def pst_w_u8_def pst_w_u16_def pst_w_u32_def pst_w_u64_def)

lemma emits_and:
  assumes "emits f xs" "emits g ys"
  shows "emits (w_and f g) (xs @ ys)"
  unfolding emits_def
proof (intro allI impI)
  fix w :: pst_w assume room: "pw_null w \<or> length (xs @ ys) \<le> pw_room w"
  then have "pw_null w \<or> length xs \<le> pw_room w" by auto
  then have f: "f w = pst_w_bytes xs w" using assms(1) unfolding emits_def by blast
  show "w_and f g w = pst_w_bytes (xs @ ys) w"
    using assms(2) room by (auto simp: w_and_def f pst_w_bytes_def emits_def)
qed

lemma w_all_emits:
  assumes "list_all2 emits fs bss" "pw_null w \<or> length (concat bss) \<le> pw_room w"
  shows "w_all fs w = snd (pst_w_bytes (concat bss) w)"
  using assms
proof (induction fs arbitrary: bss w)
  case Nil
  then show ?case by (simp add: w_all_def pst_w_bytes_def)
next
  case (Cons f fs)
  from Cons.prems(1) obtain b cs where bss: "bss = b # cs" "emits f b" "list_all2 emits fs cs"
    by (auto simp: list_all2_Cons1)
  have room: "pw_null w \<or> length b \<le> pw_room w" using Cons.prems(2) bss(1) by auto
  have f: "f w = pst_w_bytes b w" using bss(2) room unfolding emits_def by blast
  have "w_all (f # fs) w = w_all fs (snd (f w))" by (simp add: w_all_def)
  also have "\<dots> = snd (pst_w_bytes (concat cs) (snd (f w)))"
    by (rule Cons.IH [OF bss(3)]) (use Cons.prems(2) bss(1) in \<open>auto simp: f pst_w_bytes_def\<close>)
  also have "\<dots> = snd (pst_w_bytes (concat bss) w)"
    using Cons.prems(2) by (auto simp: f bss(1) pst_w_bytes_def)
  finally show ?case .
qed

text \<open>Writing fields into a buffer of exactly their size fills it with them.\<close>

lemma w_all_exact:
  assumes "list_all2 emits fs bss" "n = length (concat bss)"
  shows "pw_buf (w_all fs (pst_w_init (Some n))) = concat bss"
    and "pw_room (w_all fs (pst_w_init (Some n))) = 0"
    and "pw_written (w_all fs (pst_w_init None)) = n"
  using w_all_emits [OF assms(1), of "pst_w_init (Some n)"]
    w_all_emits [OF assms(1), of "pst_w_init None"] assms(2)
  by (simp_all add: pst_w_init_def pst_w_bytes_def)

subsection \<open>Contract: a fixed-width field\<close>

locale wire_codec =
  fixes width :: nat
    and put :: "'a \<Rightarrow> u8 list"
    and get :: "pst_r \<Rightarrow> ('a \<times> pst_r) option"
  assumes length_put: "length (put x) = width"
    and get_put: "get (Some (put x @ rest)) = Some (x, Some rest)"
begin

lemma put_inject: "put x = put y \<Longrightarrow> x = y"
  using get_put [of x "[]"] get_put [of y "[]"] by simp

lemma length_puts: "length (concat (map put xs)) = width * length xs"
  by (induction xs) (simp_all add: length_put)

lemma get_puts:
  "length xs = n \<Longrightarrow> r_many get n (Some (concat (map put xs) @ rest)) = Some (xs, Some rest)"
proof (induction xs arbitrary: n)
  case (Cons x xs)
  then obtain k where "n = Suc k" "length xs = k" by auto
  then show ?case using Cons.IH [of k] get_put [of x "concat (map put xs) @ rest"] by simp
qed simp

end

lemma le16_join: "ucast (ucast (v :: u16) :: u8) OR push_bit 8 (ucast (ucast (drop_bit 8 v) :: u8)) = v"
  by (rule bit_word_eqI) (auto simp: bit_simps)

lemma of_le16_le16: "of_le16 (le16 v) = v"
  by (simp add: of_le16_def le16_def le16_join)

lemma byte_slice32: "push_bit k (ucast (ucast (drop_bit k (v :: u32)) :: u8)) = v AND push_bit k (mask 8)"
  and byte_slice64: "push_bit k (ucast (ucast (drop_bit k (w :: u64)) :: u8)) = w AND push_bit k (mask 8)"
  by (rule bit_word_eqI; auto simp: bit_simps)+

lemma and_all_ones: "(v :: u32) AND 0xFFFFFFFF = v" "(w :: u64) AND 0xFFFFFFFFFFFFFFFF = w"
proof -
  have "(0xFFFFFFFF :: u32) = - 1" "(0xFFFFFFFFFFFFFFFF :: u64) = - 1" by simp_all
  then show "(v :: u32) AND 0xFFFFFFFF = v" "(w :: u64) AND 0xFFFFFFFFFFFFFFFF = w"
    by (simp_all only: and.right_neutral)
qed

lemma of_le32_le32: "of_le32 (le32 v) = v"
proof -
  have "of_le32 (le32 v) = v AND (mask 8 OR push_bit 8 (mask 8) OR push_bit 16 (mask 8)
      OR push_bit 24 (mask 8))"
    using byte_slice32 [of 0 v] by (simp add: of_le32_def le32_def byte_slice32 bit.conj_disj_distrib
        del: mask_numeral)
  then show ?thesis by (simp add: mask_eq_exp_minus_1 and_all_ones)
qed

lemma upt8: "[0..<8] = [0, 1, 2, 3, 4, 5, 6, 7]"
  by (simp add: upt_conv_Cons)

lemma of_le64_le64: "of_le64 (le64 v) = v"
proof -
  have "of_le64 (le64 v) = v AND (mask 8 OR push_bit 8 (mask 8) OR push_bit 16 (mask 8)
      OR push_bit 24 (mask 8) OR push_bit 32 (mask 8) OR push_bit 40 (mask 8) OR push_bit 48 (mask 8)
      OR push_bit 56 (mask 8))"
    using byte_slice64 [of 0 v] by (simp add: of_le64_def le64_def upt8 byte_slice64 bit.conj_disj_distrib
        or.assoc del: mask_numeral)
  then show ?thesis by (simp add: mask_eq_exp_minus_1 and_all_ones)
qed

interpretation w8: wire_codec 1 "\<lambda>v. [v]" pst_r_u8
  by unfold_locales (simp_all add: pst_r_u8_def pst_r_bytes_def)

interpretation w16: wire_codec 2 le16 pst_r_u16
proof unfold_locales
  show "length (le16 x) = 2" for x by (simp add: le16_def)
  show "pst_r_u16 (Some (le16 x @ rest)) = Some (x, Some rest)" for x rest
    using of_le16_le16 [of x] by (simp add: pst_r_u16_def pst_r_bytes_def le16_def)
qed

interpretation w32: wire_codec 4 le32 pst_r_u32
proof unfold_locales
  show "length (le32 x) = 4" for x by (simp add: le32_def)
  show "pst_r_u32 (Some (le32 x @ rest)) = Some (x, Some rest)" for x rest
    using of_le32_le32 [of x] by (simp add: pst_r_u32_def pst_r_bytes_def le32_def)
qed

interpretation w64: wire_codec 8 le64 pst_r_u64
proof unfold_locales
  show len: "length (le64 x) = 8" for x by (simp add: le64_def)
  show "pst_r_u64 (Some (le64 x @ rest)) = Some (x, Some rest)" for x rest
    using of_le64_le64 [of x] len [of x] by (simp add: pst_r_u64_def pst_r_bytes_def)
qed

lemma r_bytes_append: "length bs = n \<Longrightarrow> pst_r_bytes n (Some (bs @ rest)) = Some (bs, Some rest)"
  by (simp add: pst_r_bytes_def)

subsection \<open>Signed integers and sequences\<close>

lemma r_many_each:
  assumes "\<And>x rest. x \<in> set xs \<Longrightarrow> get (Some (put x @ rest)) = Some (f x, Some rest)"
  shows "r_many get (length xs) (Some (concat (map put xs) @ rest)) = Some (map f xs, Some rest)"
  using assms by (induction xs) simp_all

lemma emits_seq: "list_all2 emits fs bss \<Longrightarrow> emits (w_seq fs) (concat bss)"
proof (induction fs bss rule: list_all2_induct)
  case Nil
  then show ?case by (simp add: w_seq_def emits_def pst_w_bytes_def)
next
  case (Cons f fs b bss)
  then show ?case using emits_and [of f b "w_seq fs"] by (simp add: w_seq_def)
qed

definition le_i32 :: "int \<Rightarrow> u8 list" where
  "le_i32 v = le32 (word_of_int v)"

lemma emits_i32: "emits (pst_w_i32 v) (le_i32 v)"
  by (simp add: pst_w_i32_def le_i32_def emits_u32)

lemma get_i32:
  assumes "- (2 ^ 31) \<le> v" "v < 2 ^ 31"
  shows "pst_r_i32 (Some (le_i32 v @ rest)) = Some (v, Some rest)"
proof -
  have "sint (word_of_int v :: u32) = v"
    using assms by (simp add: signed_of_int signed_take_bit_int_eq_self)
  then show ?thesis by (simp add: pst_r_i32_def le_i32_def w32.get_put)
qed

lemma length_i32 [simp]: "length (le_i32 v) = 4"
  by (simp add: le_i32_def w32.length_put)

lemma emits_map: "(\<And>x. emits (w x) (put x)) \<Longrightarrow> list_all2 emits (map w xs) (map put xs)"
  by (simp add: list_all2_conv_all_nth)

end
