(* ===== verification/Mdec.thy ===== *)
theory Mdec
  imports PstWire
begin

section \<open>The motion decoder: mdec.c\<close>

text \<open>
  The decoder of \<open>mdec.c\<close> as its portable build runs it: the state \<open>MDECState\<close> with the
  file's static variables, the command FIFO, the run-length decoder, the inverse cosine transform,
  the colour conversion, the register interface, the DMA side and the snapshot. The transform of the
  SSE2 build (\<open>idct_block_sse2\<close>) stands beside the scalar one; the SSE2 row encoder
  (\<open>mdec_encode_row24_sse2\<close>) and the comparison of both that \<open>mdec_init\<close> runs at start up, aborting
  the process on a difference, are not modelled.

  The FIFOs are functions of the index with their capacities (\<open>input_cap\<close>, \<open>output_cap\<close>), so
  that staying inside the allocation is a statement. C's \<open>int\<close> arithmetic is on integers, and a
  bound shows that it stays in 32 bits.
\<close>

text \<open>
  What the code reads from the host: the display frame and guest cycle counters, whether the
  trace is silenced (or compiled out), and which sizes \<open>realloc\<close> can serve.
\<close>

record mdec_host =
  h_frame :: u64
  h_cycle :: u64
  h_quiet :: bool
  h_alloc :: "u32 \<Rightarrow> bool"

record mdec_event =
  me_seq :: u64
  me_frame :: u32
  me_kind :: u32
  me_value :: u32
  me_command :: u32
  me_input_count :: u32
  me_expected :: u32
  me_output_size :: u32
  me_output_pos :: u32
  me_macroblocks :: u32
  me_blocks :: u32
  me_stop :: u32
  me_underruns :: u32

record mdec =
  command :: u32
  expected_halfwords :: u32
  input_count :: u32
  input :: "nat \<Rightarrow> u16"
  input_cap :: u32
  outb :: "nat \<Rightarrow> u8"
  output_size :: u32
  output_pos :: u32
  output_cap :: u32
  y_quant :: "nat \<Rightarrow> u8"
  uv_quant :: "nat \<Rightarrow> u8"
  scale :: "nat \<Rightarrow> u16"
  output_bit15 :: u8
  output_signed :: u8
  output_depth :: u8
  current_block :: u8
  busy :: u8
  input_full :: u8
  enable_dma_in :: u8
  enable_dma_out :: u8
  last_status :: u32
  decode_macroblocks :: u32
  decode_blocks :: u32
  decode_stop_reason :: u32
  decode_input_pos :: u32
  decode_input_end :: u32
  dma_in_words :: u32
  dma_out_words :: u32
  dma_read_underflows :: u32
  mtrace :: "nat \<Rightarrow> mdec_event"
  mtrace_seq :: u64
  mtrace_head :: u32
  color_frame :: u64
  color_cycle :: u64
  decode_count :: u32

abbreviation MDEC_CMD_DECODE :: u32 where "MDEC_CMD_DECODE \<equiv> 1"
abbreviation MDEC_CMD_SET_QUANT :: u32 where "MDEC_CMD_SET_QUANT \<equiv> 2"
abbreviation MDEC_CMD_SET_SCALE :: u32 where "MDEC_CMD_SET_SCALE \<equiv> 3"

abbreviation MDEC_EVT_RESET :: u32 where "MDEC_EVT_RESET \<equiv> 1"
abbreviation MDEC_EVT_CTRL_WRITE :: u32 where "MDEC_EVT_CTRL_WRITE \<equiv> 2"
abbreviation MDEC_EVT_CMD_BEGIN :: u32 where "MDEC_EVT_CMD_BEGIN \<equiv> 3"
abbreviation MDEC_EVT_CMD_DONE :: u32 where "MDEC_EVT_CMD_DONE \<equiv> 4"
abbreviation MDEC_EVT_DECODE_DONE :: u32 where "MDEC_EVT_DECODE_DONE \<equiv> 5"
abbreviation MDEC_EVT_DMA_IN_START :: u32 where "MDEC_EVT_DMA_IN_START \<equiv> 6"
abbreviation MDEC_EVT_DMA_IN_END :: u32 where "MDEC_EVT_DMA_IN_END \<equiv> 7"
abbreviation MDEC_EVT_DMA_OUT_START :: u32 where "MDEC_EVT_DMA_OUT_START \<equiv> 8"
abbreviation MDEC_EVT_DMA_OUT_END :: u32 where "MDEC_EVT_DMA_OUT_END \<equiv> 9"
abbreviation MDEC_EVT_OUTPUT_DRAINED :: u32 where "MDEC_EVT_OUTPUT_DRAINED \<equiv> 10"
abbreviation MDEC_EVT_READ_UNDERFLOW :: u32 where "MDEC_EVT_READ_UNDERFLOW \<equiv> 11"

definition zigzag_to_linear :: "nat list" where
  "zigzag_to_linear = [
    0x00, 0x08, 0x01, 0x02, 0x09, 0x10, 0x18, 0x11,
    0x0a, 0x03, 0x04, 0x0b, 0x12, 0x19, 0x20, 0x28,
    0x21, 0x1a, 0x13, 0x0c, 0x05, 0x06, 0x0d, 0x14,
    0x1b, 0x22, 0x29, 0x30, 0x38, 0x31, 0x2a, 0x23,
    0x1c, 0x15, 0x0e, 0x07, 0x0f, 0x16, 0x1d, 0x24,
    0x2b, 0x32, 0x39, 0x3a, 0x33, 0x2c, 0x25, 0x1e,
    0x17, 0x1f, 0x26, 0x2d, 0x34, 0x3b, 0x3c, 0x35,
    0x2e, 0x27, 0x2f, 0x36, 0x3d, 0x3e, 0x37, 0x3f]"

subsection \<open>The event trace and the buffers\<close>

definition trace_event :: "mdec_host \<Rightarrow> u32 \<Rightarrow> u32 \<Rightarrow> mdec \<Rightarrow> mdec" where
  "trace_event h kind val m =
     (if h_quiet h then m
      else m\<lparr>mtrace := (mtrace m)(unat (mtrace_head m) :=
               \<lparr>me_seq = mtrace_seq m, me_frame = ucast (h_frame h), me_kind = kind, me_value = val,
                me_command = command m, me_input_count = input_count m,
                me_expected = expected_halfwords m, me_output_size = output_size m,
                me_output_pos = output_pos m, me_macroblocks = decode_macroblocks m,
                me_blocks = decode_blocks m, me_stop = decode_stop_reason m,
                me_underruns = dma_read_underflows m\<rparr>),
             mtrace_seq := mtrace_seq m + 1,
             mtrace_head := (mtrace_head m + 1) mod 4096\<rparr>)"

definition clear_output :: "mdec \<Rightarrow> mdec" where
  "clear_output m = m\<lparr>output_size := 0, output_pos := 0\<rparr>"

text \<open>
  \<open>while (new_cap < need) new_cap *= 2\<close>, with 32 rounds: from a capacity of at least 1 they
  reach any need up to \<open>2 ^ 31\<close>, and beyond that the C loop does not end.
\<close>

fun grow_cap :: "nat \<Rightarrow> u32 \<Rightarrow> u32 \<Rightarrow> u32" where
  "grow_cap 0 new_cap need = new_cap"
| "grow_cap (Suc n) new_cap need =
     (if new_cap < need then grow_cap n (new_cap * 2) need else new_cap)"

definition ensure_input_capacity :: "mdec_host \<Rightarrow> u32 \<Rightarrow> mdec \<Rightarrow> bool \<times> mdec" where
  "ensure_input_capacity h halfwords m =
     (if halfwords \<le> input_cap m then (True, m)
      else let new_cap = grow_cap 32 (if input_cap m \<noteq> 0 then input_cap m else 256) halfwords in
      if \<not> h_alloc h (new_cap * 2) then (False, m)
      else (True, m\<lparr>input_cap := new_cap\<rparr>))"

definition ensure_output_capacity :: "mdec_host \<Rightarrow> u32 \<Rightarrow> mdec \<Rightarrow> bool \<times> mdec" where
  "ensure_output_capacity h bytes m =
     (if bytes \<le> output_cap m then (True, m)
      else let new_cap = grow_cap 32 (if output_cap m \<noteq> 0 then output_cap m else 4096) bytes in
      if \<not> h_alloc h new_cap then (False, m)
      else (True, m\<lparr>output_cap := new_cap\<rparr>))"

text \<open>Room for a run of bytes, and the run stored there: what follows every reservation.\<close>

definition output_reserve :: "mdec_host \<Rightarrow> u32 \<Rightarrow> mdec \<Rightarrow> bool \<times> mdec" where
  "output_reserve h bytes m = ensure_output_capacity h (output_size m + bytes) m"

definition store_out :: "u8 list \<Rightarrow> mdec \<Rightarrow> mdec" where
  "store_out bs m =
     m\<lparr>outb := (\<lambda>i. if unat (output_size m) \<le> i \<and> i < unat (output_size m) + length bs
                    then bs ! (i - unat (output_size m)) else outb m i),
       output_size := output_size m + of_nat (length bs)\<rparr>"

definition input_byte :: "mdec \<Rightarrow> u32 \<Rightarrow> u8" where
  "input_byte m i =
     (let hw = input m (unat (drop_bit 1 i))
      in if i AND 1 \<noteq> 0 then ucast (drop_bit 8 hw) else ucast hw)"

definition finish_command :: "mdec_host \<Rightarrow> mdec \<Rightarrow> mdec" where
  "finish_command h m =
     (let m1 = m\<lparr>expected_halfwords := 0, input_count := 0, busy := 0, input_full := 0\<rparr>
      in trace_event h MDEC_EVT_CMD_DONE (command m1) m1)"

definition soft_reset :: "mdec \<Rightarrow> mdec" where
  "soft_reset m =
     m\<lparr>command := 0, expected_halfwords := 0, input_count := 0, output_size := 0, output_pos := 0,
       output_bit15 := 0, output_signed := 0, output_depth := 3, current_block := 4, busy := 0,
       input_full := 0, enable_dma_in := 0, enable_dma_out := 0, last_status := 0,
       decode_macroblocks := 0, decode_blocks := 0, decode_stop_reason := 0,
       decode_input_pos := 0, decode_input_end := 0, dma_in_words := 0, dma_out_words := 0,
       dma_read_underflows := 0\<rparr>"

subsection \<open>Arithmetic\<close>

definition sign_extend_10 :: "u16 \<Rightarrow> int" where
  "sign_extend_10 v = sint (signed_drop_bit 6 (push_bit 6 v))"

definition clamp_int :: "int \<Rightarrow> int \<Rightarrow> int \<Rightarrow> int" where
  "clamp_int v lo hi = (if v < lo then lo else if v > hi then hi else v)"

definition sign_x_to_s32 :: "nat \<Rightarrow> int \<Rightarrow> int" where
  "sign_x_to_s32 bits v = (let shift = 32 - bits in sint (asr (push_bit shift (of_sint v)) shift))"

definition mask9_clamp_s8 :: "int \<Rightarrow> int" where
  "mask9_clamp_s8 v =
     (let v = sign_x_to_s32 9 v
      in if v < - 128 then - 128 else if v > 127 then 127 else v)"

subsection \<open>The inverse cosine transform\<close>

text \<open>\<open>(sum + 0x4000) >> 15\<close>, cut to the \<open>int16_t\<close> it is stored in or clamped first.\<close>

definition round15 :: "int \<Rightarrow> int" where
  "round15 s = drop_bit 15 (s + 0x4000)"

definition idct_block_dc_only :: "(nat \<Rightarrow> u16) \<Rightarrow> (nat \<Rightarrow> u16) \<Rightarrow> nat \<Rightarrow> u16" where
  "idct_block_dc_only sc block =
     (let dc = sint (block 0);
          tmp0 = (\<lambda>x. word_of_int (round15 (dc * sint (sc (x * 8)))) :: u16)
      in (\<lambda>i. if i < 64
              then word_of_int (mask9_clamp_s8 (round15 (sint (tmp0 (i div 8)) * sint (sc (i mod 8 * 8)))))
              else block i))"

definition col_zero :: "(nat \<Rightarrow> u16) \<Rightarrow> nat \<Rightarrow> bool" where
  "col_zero f col = list_all (\<lambda>u. f (col * 8 + u) = 0) [0..<8]"

definition idct_dot :: "(nat \<Rightarrow> u16) \<Rightarrow> (nat \<Rightarrow> u16) \<Rightarrow> nat \<Rightarrow> nat \<Rightarrow> int" where
  "idct_dot f sc col x =
     foldl (\<lambda>s u. s + sint (f (col * 8 + u)) * sint (sc (x * 8 + u))) 0 [0..<8]"

definition idct_block_scalar :: "(nat \<Rightarrow> u16) \<Rightarrow> (nat \<Rightarrow> u16) \<Rightarrow> nat \<Rightarrow> u16" where
  "idct_block_scalar sc block =
     (if list_all (\<lambda>i. block i = 0) [1..<64] then idct_block_dc_only sc block
      else
        let tmp = (\<lambda>i. let x = i div 8; col = i mod 8 in
                     if col_zero block col then 0
                     else word_of_int (round15 (idct_dot block sc col x)) :: u16)
        in (\<lambda>i. if i < 64
                then (let col = i div 8; x = i mod 8 in
                      if col_zero tmp col then 0
                      else word_of_int (mask9_clamp_s8 (round15 (idct_dot tmp sc col x))))
                else block i))"

text \<open>
  The SSE2 build of the same transform: \<open>_mm_madd_epi16\<close> multiplies lanes of 16 bits and adds
  neighbours in 32 bits, \<open>_mm_shuffle_epi32\<close> permutes the four sums.
\<close>

definition madd_epi16 :: "(nat \<Rightarrow> u16) \<Rightarrow> (nat \<Rightarrow> u16) \<Rightarrow> nat \<Rightarrow> u32" where
  "madd_epi16 a b j =
     word_of_int (sint (a (2 * j)) * sint (b (2 * j)) + sint (a (2 * j + 1)) * sint (b (2 * j + 1)))"

definition shuffle_epi32 :: "nat \<Rightarrow> nat \<Rightarrow> nat \<Rightarrow> nat \<Rightarrow> (nat \<Rightarrow> u32) \<Rightarrow> nat \<Rightarrow> u32" where
  "shuffle_epi32 z y x w v j = v ([w, x, y, z] ! j)"

definition idct_sse2_dot8 :: "(nat \<Rightarrow> u16) \<Rightarrow> (nat \<Rightarrow> u16) \<Rightarrow> nat \<Rightarrow> nat \<Rightarrow> int" where
  "idct_sse2_dot8 f sc col x =
     (let sum0 = madd_epi16 (\<lambda>u. f (col * 8 + u)) (\<lambda>u. sc (x * 8 + u));
          sum1 = (\<lambda>j. sum0 j + shuffle_epi32 0 1 2 3 sum0 j);
          sum2 = (\<lambda>j. sum1 j + shuffle_epi32 0 0 0 1 sum1 j)
      in sint (sum2 0))"

definition idct_block_sse2 :: "(nat \<Rightarrow> u16) \<Rightarrow> (nat \<Rightarrow> u16) \<Rightarrow> nat \<Rightarrow> u16" where
  "idct_block_sse2 sc block =
     (if list_all (\<lambda>i. block i = 0) [1..<64] then idct_block_dc_only sc block
      else
        let tmp = (\<lambda>i. let x = i div 8; col = i mod 8 in
                     if col_zero block col then 0
                     else word_of_int (round15 (idct_sse2_dot8 block sc col x)) :: u16)
        in (\<lambda>i. if i < 64
                then (let col = i div 8; x = i mod 8 in
                      if col_zero tmp col then 0
                      else word_of_int (mask9_clamp_s8 (round15 (idct_sse2_dot8 tmp sc col x))))
                else block i))"

subsection \<open>The run-length decoder\<close>

text \<open>The padding words before a block; \<open>n\<close> halfwords are left.\<close>

fun skip_pad :: "(nat \<Rightarrow> u16) \<Rightarrow> nat \<Rightarrow> u32 \<Rightarrow> u16 \<Rightarrow> u16 \<times> u32" where
  "skip_pad inp 0 pos word = (word, pos)"
| "skip_pad inp (Suc n) pos word =
     (if word = 0xFE00 then skip_pad inp n (pos + 1) (inp (unat pos)) else (word, pos))"

definition coef_bias :: "int \<Rightarrow> int" where
  "coef_bias ci = (if ci \<noteq> 0 then (if ci < 0 then 8 else - 8) else 0)"

definition dequant_dc :: "int \<Rightarrow> int \<Rightarrow> u16" where
  "dequant_dc ci q =
     word_of_int (clamp_int (if q \<noteq> 0 then push_bit 4 (ci * q) + coef_bias ci else push_bit 4 (ci * 2))
       (- 0x4000) 0x3FFF)"

definition dequant_ac :: "int \<Rightarrow> int \<Rightarrow> u16" where
  "dequant_ac ci q =
     word_of_int (clamp_int (if q \<noteq> 0 then push_bit 4 (drop_bit 3 (ci * q)) + coef_bias ci
                             else push_bit 4 (ci * 2)) (- 0x4000) 0x3FFF)"

definition rle_run :: "u16 \<Rightarrow> nat" where
  "rle_run word = unat (drop_bit 10 word AND 0x3F)"

fun rle_ac :: "(nat \<Rightarrow> u16) \<Rightarrow> (nat \<Rightarrow> u8) \<Rightarrow> int \<Rightarrow> nat \<Rightarrow> u32 \<Rightarrow> nat \<Rightarrow> (nat \<Rightarrow> u16) \<Rightarrow> (nat \<Rightarrow> u16) \<times> u32" where
  "rle_ac inp quant qscale 0 pos k block = (block, pos)"
| "rle_ac inp quant qscale (Suc n) pos k block =
     (if \<not> k < 63 then (block, pos)
      else let word = inp (unat pos); pos = pos + 1 in
      if word = 0xFE00 then (block, pos)
      else let k = k + rle_run word + 1 in
      if k \<ge> 64 then (block, pos)
      else rle_ac inp quant qscale n pos k
             (block(zigzag_to_linear ! k :=
                dequant_ac (sign_extend_10 (word AND 0x3FF)) (qscale * uint (quant k)))))"

text \<open>Whether there was a block, the block, the position after it, and the decoder.\<close>

definition decode_rle_block ::
  "(nat \<Rightarrow> u8) \<Rightarrow> u32 \<Rightarrow> u32 \<Rightarrow> mdec \<Rightarrow> bool \<times> (nat \<Rightarrow> u16) \<times> u32 \<times> mdec" where
  "decode_rle_block quant pos fin m =
     (if pos \<ge> fin then (False, (\<lambda>_. 0), pos, m)
      else let m = m\<lparr>decode_blocks := decode_blocks m + 1\<rparr>;
               word0 = input m (unat pos);
               (word, pos) = skip_pad (input m) (unat (fin - (pos + 1))) (pos + 1) word0;
               qscale = int (rle_run word);
               block = (\<lambda>_. 0)(0 := dequant_dc (sign_extend_10 (word AND 0x3FF)) (uint (quant 0)));
               (block, pos) = rle_ac (input m) quant qscale (unat (fin - pos)) pos 0 block
      in (True, idct_block_scalar (scale m) block, pos, m))"

subsection \<open>Pixels\<close>

definition to_output_u8 :: "mdec \<Rightarrow> int \<Rightarrow> u8" where
  "to_output_u8 m v =
     (let v = clamp_int v (- 128) 127
      in if output_signed m \<noteq> 0 then word_of_int v else word_of_int (v + 128))"

definition rgb_to_555_chan :: "u8 \<Rightarrow> int" where
  "rgb_to_555_chan c = (let v = drop_bit 3 (uint c + 4) in if v > 0x1F then 0x1F else v)"

definition emit_rgb_pixel :: "mdec \<Rightarrow> int \<Rightarrow> int \<Rightarrow> int \<Rightarrow> u8 list" where
  "emit_rgb_pixel m y cr cb =
     (let r = mask9_clamp_s8 (y + drop_bit 8 (359 * cr + 0x80));
          g = mask9_clamp_s8 (y + drop_bit 8 (((- 88 * cb) AND NOT 0x1F) + ((- 183 * cr) AND NOT 0x07) + 0x80));
          b = mask9_clamp_s8 (y + drop_bit 8 (454 * cb + 0x80));
          ru = word_of_int (r XOR 0x80) :: u8;
          gu = word_of_int (g XOR 0x80) :: u8;
          bu = word_of_int (b XOR 0x80) :: u8
      in if output_depth m = 3
         then let packed = word_of_int (rgb_to_555_chan ru OR push_bit 5 (rgb_to_555_chan gu)
                             OR push_bit 10 (rgb_to_555_chan bu)) :: u16;
                  pixel_xor = (if output_bit15 m \<noteq> 0 then 0x8000 else 0)
                              OR (if output_signed m \<noteq> 0 then 0x4210 else 0);
                  packed = packed XOR pixel_xor
              in [ucast packed, ucast (drop_bit 8 packed)]
         else let rgb_xor = (if output_signed m \<noteq> 0 then 0x80 else 0)
              in [ru XOR rgb_xor, gu XOR rgb_xor, bu XOR rgb_xor])"

definition append_luma_block :: "mdec_host \<Rightarrow> (nat \<Rightarrow> u16) \<Rightarrow> mdec \<Rightarrow> mdec" where
  "append_luma_block h yblk m =
     (case output_reserve h 64 m of
        (False, m) \<Rightarrow> m
      | (True, m) \<Rightarrow> store_out (map (\<lambda>i. to_output_u8 m (sint (yblk i))) [0..<64]) m)"

definition mb_pixel :: "mdec \<Rightarrow> (nat \<Rightarrow> u16) \<Rightarrow> (nat \<Rightarrow> u16) \<Rightarrow> (nat \<Rightarrow> nat \<Rightarrow> u16) \<Rightarrow> nat \<Rightarrow> nat \<Rightarrow> u8 list" where
  "mb_pixel m crblk cbblk yblk py px =
     (let y_index = (if py \<ge> 8 then 2 else 0) + (if px \<ge> 8 then 1 else 0);
          lx = px mod 8;
          ly = py mod 8;
          chroma = px div 2 + py div 2 * 8
      in emit_rgb_pixel m (sint (yblk y_index (lx + ly * 8))) (sint (crblk chroma)) (sint (cbblk chroma)))"

definition append_color_macroblock ::
  "mdec_host \<Rightarrow> (nat \<Rightarrow> u16) \<Rightarrow> (nat \<Rightarrow> u16) \<Rightarrow> (nat \<Rightarrow> nat \<Rightarrow> u16) \<Rightarrow> mdec \<Rightarrow> mdec" where
  "append_color_macroblock h crblk cbblk yblk m =
     (let need = (if output_depth m = 3 then 512 else 768) in
      case output_reserve h need m of
        (False, m) \<Rightarrow> m
      | (True, m) \<Rightarrow>
          store_out (concat (map (\<lambda>py. concat (map (mb_pixel m crblk cbblk yblk py) [0..<16])) [0..<16])) m)"

subsection \<open>Decoding\<close>

text \<open>
  The luma loop and the colour loop. Every block consumes at least one halfword, so a fuel of the
  number of halfwords is enough.
\<close>

fun decode_luma :: "mdec_host \<Rightarrow> nat \<Rightarrow> u32 \<Rightarrow> u32 \<Rightarrow> mdec \<Rightarrow> u32 \<times> mdec" where
  "decode_luma h 0 pos fin m = (pos, m)"
| "decode_luma h (Suc n) pos fin m =
     (if \<not> pos < fin then (pos, m)
      else case decode_rle_block (y_quant m) pos fin m of
        (False, _, pos, m) \<Rightarrow> (pos, m)
      | (True, yblk, pos, m) \<Rightarrow>
          let m = append_luma_block h yblk m;
              m = m\<lparr>decode_macroblocks := decode_macroblocks m + 1\<rparr>
          in decode_luma h n pos fin m)"

text \<open>The six blocks of a macroblock, in order, up to the first that is missing.\<close>

fun decode_run ::
  "(nat \<Rightarrow> u8) list \<Rightarrow> u32 \<Rightarrow> u32 \<Rightarrow> mdec \<Rightarrow> (nat \<Rightarrow> u16) list \<times> u32 \<times> mdec" where
  "decode_run [] pos fin m = ([], pos, m)"
| "decode_run (q # qs) pos fin m =
     (case decode_rle_block q pos fin m of
        (False, _, pos, m) \<Rightarrow> ([], pos, m)
      | (True, blk, pos, m) \<Rightarrow>
          (case decode_run qs pos fin m of (blks, pos, m) \<Rightarrow> (blk # blks, pos, m)))"

fun decode_color :: "mdec_host \<Rightarrow> nat \<Rightarrow> u32 \<Rightarrow> u32 \<Rightarrow> mdec \<Rightarrow> u32 \<times> mdec" where
  "decode_color h 0 pos fin m = (pos, m)"
| "decode_color h (Suc n) pos fin m =
     (if \<not> pos < fin then (pos, m)
      else case decode_run [uv_quant m, uv_quant m, y_quant m, y_quant m, y_quant m, y_quant m] pos fin m of
        (blks, pos, m) \<Rightarrow>
          if length blks < 6
          then (pos, m\<lparr>decode_stop_reason := 2 + of_nat (length blks)\<rparr>)
          else
            let m = append_color_macroblock h (blks ! 0) (blks ! 1) (\<lambda>i. blks ! (2 + i)) m;
                m = m\<lparr>decode_macroblocks := decode_macroblocks m + 1\<rparr>
            in decode_color h n pos fin m)"

definition execute_decode :: "mdec_host \<Rightarrow> mdec \<Rightarrow> mdec" where
  "execute_decode h m =
     (let fin = input_count m;
          m = clear_output (m\<lparr>decode_count := decode_count m + 1\<rparr>);
          m = m\<lparr>decode_macroblocks := 0, decode_blocks := 0, decode_stop_reason := 0,
                decode_input_pos := 0, decode_input_end := fin, dma_out_words := 0,
                dma_read_underflows := 0\<rparr>
      in if output_depth m < 2
         then let (pos, m) = decode_luma h (unat fin) 0 fin m;
                  m = m\<lparr>decode_stop_reason := (if pos \<ge> fin then 1 else 4), decode_input_pos := pos\<rparr>
              in trace_event h MDEC_EVT_DECODE_DONE (output_size m) m
         else let (pos, m) = decode_color h (unat fin) 0 fin m;
                  m = (if pos \<ge> fin \<and> decode_stop_reason m = 0 then m\<lparr>decode_stop_reason := 1\<rparr> else m);
                  m = m\<lparr>decode_input_pos := pos, color_frame := h_frame h, color_cycle := h_cycle h\<rparr>
              in trace_event h MDEC_EVT_DECODE_DONE (output_size m) m)"

subsection \<open>Commands\<close>

definition load_quant :: "mdec \<Rightarrow> mdec" where
  "load_quant m =
     (let m1 = m\<lparr>y_quant := (\<lambda>i. if i < 64 then input_byte m (of_nat i) else y_quant m i)\<rparr>
      in if command m AND 1 \<noteq> 0
         then m1\<lparr>uv_quant := (\<lambda>i. if i < 64 then input_byte m (64 + of_nat i) else uv_quant m i)\<rparr>
         else m1\<lparr>uv_quant := (\<lambda>i. if i < 64 then y_quant m1 i else uv_quant m i)\<rparr>)"

definition load_scale :: "mdec \<Rightarrow> mdec" where
  "load_scale m =
     m\<lparr>scale := (\<lambda>t. if t < 64 then signed_drop_bit 3 (input m (t mod 8 * 8 + t div 8)) else scale m t)\<rparr>"

definition execute_command :: "mdec_host \<Rightarrow> mdec \<Rightarrow> mdec" where
  "execute_command h m =
     (let op = drop_bit 29 (command m);
          m = (if op = MDEC_CMD_SET_QUANT then load_quant m
               else if op = MDEC_CMD_SET_SCALE then load_scale m
               else if op = MDEC_CMD_DECODE then execute_decode h m
               else m)
      in finish_command h m)"

definition expected_for :: "u32 \<Rightarrow> u32" where
  "expected_for val =
     (let op = drop_bit 29 val in
      if op = MDEC_CMD_DECODE then (val AND 0xFFFF) * 2
      else if op = MDEC_CMD_SET_QUANT then (if val AND 1 \<noteq> 0 then 64 else 32)
      else if op = MDEC_CMD_SET_SCALE then 64
      else 0)"

definition begin_command :: "mdec_host \<Rightarrow> u32 \<Rightarrow> mdec \<Rightarrow> mdec" where
  "begin_command h val m =
     (let m = m\<lparr>command := val, output_bit15 := ucast (drop_bit 25 val AND 1),
                output_signed := ucast (drop_bit 26 val AND 1),
                output_depth := ucast (drop_bit 27 val AND 3),
                current_block := 4, input_count := 0, input_full := 0, busy := 1,
                expected_halfwords := expected_for val\<rparr>
      in if expected_halfwords m = 0 then finish_command h m
         else case ensure_input_capacity h (expected_halfwords m) m of
           (False, m) \<Rightarrow> finish_command h m
         | (True, m) \<Rightarrow> trace_event h MDEC_EVT_CMD_BEGIN val m)"

text \<open>One halfword, and one word, into the input FIFO while there is a place for it.\<close>

definition push_half :: "u16 \<Rightarrow> mdec \<Rightarrow> mdec" where
  "push_half hw m =
     m\<lparr>input := (input m)(unat (input_count m) := hw), input_count := input_count m + 1\<rparr>"

definition push_word :: "u32 \<Rightarrow> mdec \<Rightarrow> mdec" where
  "push_word val m =
     (let m = push_half (ucast val) m
      in if input_count m < expected_halfwords m then push_half (ucast (drop_bit 16 val)) m else m)"

definition collecting :: "mdec \<Rightarrow> bool" where
  "collecting m \<longleftrightarrow> busy m \<noteq> 0 \<and> input_count m < expected_halfwords m"

definition write_data :: "mdec_host \<Rightarrow> u32 \<Rightarrow> mdec \<Rightarrow> mdec" where
  "write_data h val m =
     (if collecting m
      then let m = push_word val m
           in if input_count m \<ge> expected_halfwords m then execute_command h m else m
      else begin_command h val m)"

subsection \<open>Initialisation and the activity detector\<close>

definition mdec_event_zero :: mdec_event where
  "mdec_event_zero = \<lparr>me_seq = 0, me_frame = 0, me_kind = 0, me_value = 0, me_command = 0,
     me_input_count = 0, me_expected = 0, me_output_size = 0, me_output_pos = 0, me_macroblocks = 0,
     me_blocks = 0, me_stop = 0, me_underruns = 0\<rparr>"

definition mdec_init :: "mdec \<Rightarrow> mdec" where
  "mdec_init m =
     (soft_reset m)\<lparr>input := (\<lambda>_. 0), input_cap := 0, outb := (\<lambda>_. 0), output_cap := 0,
       y_quant := (\<lambda>_. 1), uv_quant := (\<lambda>_. 1), scale := (\<lambda>_. 0),
       mtrace := (\<lambda>_. mdec_event_zero), mtrace_seq := 0, mtrace_head := 0,
       color_frame := 0 - 1000, color_cycle := 0 - 1000\<rparr>"

definition mdec_recently_active :: "mdec_host \<Rightarrow> u32 \<Rightarrow> mdec \<Rightarrow> bool" where
  "mdec_recently_active h within_frames m =
     (let window = ucast within_frames * 338688 + 338688 div 2 :: u64
      in if h_cycle h < color_cycle m then False
         else h_cycle h - color_cycle m \<le> window)"

definition mdec_color_age_cycles :: "mdec_host \<Rightarrow> mdec \<Rightarrow> u64" where
  "mdec_color_age_cycles h m =
     (if color_cycle m = 0 - 1000 then 0 - 1
      else if h_cycle h < color_cycle m then 0 - 1
      else h_cycle h - color_cycle m)"

subsection \<open>The register and DMA interfaces\<close>

definition mdec_dma_write_ready :: "mdec \<Rightarrow> bool" where
  "mdec_dma_write_ready m =
     (if output_pos m < output_size m then False
      else \<not> busy m \<noteq> 0 \<or> input_count m < expected_halfwords m)"

definition mdec_dma_read_ready :: "mdec \<Rightarrow> bool" where
  "mdec_dma_read_ready m \<longleftrightarrow> output_pos m < output_size m"

text \<open>The bytes at the read position as a little-endian word.\<close>

definition out_byte :: "nat \<Rightarrow> mdec \<Rightarrow> u32" where
  "out_byte i m = push_bit (i * 8) (ucast (outb m (unat (output_pos m))))"

text \<open>A step of the byte loop of a short read: byte \<open>i\<close>, if there is one.\<close>

definition read_out_byte :: "u32 \<times> mdec \<Rightarrow> nat \<Rightarrow> u32 \<times> mdec" where
  "read_out_byte p i =
     (case p of (val, m) \<Rightarrow>
        if output_pos m < output_size m
        then (val OR out_byte i m, m\<lparr>output_pos := output_pos m + 1\<rparr>)
        else (val, m))"

definition mdec_dma_read_word :: "mdec_host \<Rightarrow> mdec \<Rightarrow> u32 \<times> mdec" where
  "mdec_dma_read_word h m =
     (let start_pos = output_pos m;
          avail = (if start_pos < output_size m then output_size m - start_pos else 0);
          p = unat start_pos;
          (val, m) = (if avail \<ge> 4
             then (ucast (outb m p) OR push_bit 8 (ucast (outb m (p + 1)))
                     OR push_bit 16 (ucast (outb m (p + 2))) OR push_bit 24 (ucast (outb m (p + 3))),
                   m\<lparr>output_pos := start_pos + 4\<rparr>)
             else foldl read_out_byte (0, m) [0..<4]);
          m = m\<lparr>dma_out_words := dma_out_words m + 1\<rparr>;
          m = (if start_pos \<ge> output_size m
               then let m = m\<lparr>dma_read_underflows := dma_read_underflows m + 1\<rparr>
                    in if dma_read_underflows m = 1
                       then trace_event h MDEC_EVT_READ_UNDERFLOW (dma_out_words m) m else m
               else m);
          m = (if output_pos m \<ge> output_size m
               then clear_output (trace_event h MDEC_EVT_OUTPUT_DRAINED (output_size m) m) else m)
      in (val, m))"

definition mdec_read :: "mdec_host \<Rightarrow> u32 \<Rightarrow> mdec \<Rightarrow> u32 \<times> mdec" where
  "mdec_read h addr m =
     (if addr AND 7 = 0 then mdec_dma_read_word h m
      else
        let remaining_words = (if busy m \<noteq> 0 \<and> expected_halfwords m > input_count m
                               then (expected_halfwords m - input_count m + 1) div 2 else 0);
            status = (if remaining_words \<noteq> 0 then (remaining_words - 1) AND 0xFFFF else 0xFFFF);
            status = status OR push_bit 16 (ucast (current_block m) AND 7);
            status = status OR push_bit 23 (ucast (output_bit15 m) AND 1);
            status = status OR push_bit 24 (ucast (output_signed m) AND 1);
            status = status OR push_bit 25 (ucast (output_depth m) AND 3);
            write_ready = mdec_dma_write_ready m;
            status = (if \<not> write_ready then status OR push_bit 30 1 else status);
            status = (if enable_dma_out m \<noteq> 0 \<and> mdec_dma_read_ready m then status OR push_bit 27 1 else status);
            status = (if enable_dma_in m \<noteq> 0 \<and> write_ready then status OR push_bit 28 1 else status);
            status = (if busy m \<noteq> 0 then status OR push_bit 29 1 else status);
            status = (if output_pos m \<ge> output_size m then status OR push_bit 31 1 else status)
        in (status, m\<lparr>last_status := status\<rparr>))"

definition mdec_write :: "mdec_host \<Rightarrow> u32 \<Rightarrow> u32 \<Rightarrow> mdec \<Rightarrow> mdec" where
  "mdec_write h addr val m =
     (if addr AND 7 = 0 then write_data h val m
      else
        let m = (if val AND 0x80000000 \<noteq> 0 then trace_event h MDEC_EVT_RESET val (soft_reset m) else m);
            m = m\<lparr>enable_dma_in := ucast (drop_bit 30 val AND 1),
                  enable_dma_out := ucast (drop_bit 29 val AND 1)\<rparr>
        in trace_event h MDEC_EVT_CTRL_WRITE val m)"

definition mdec_dma_write_word :: "mdec_host \<Rightarrow> u32 \<Rightarrow> mdec \<Rightarrow> mdec" where
  "mdec_dma_write_word h val m = write_data h val m"

text \<open>The words a collecting command still needs, and the fast fill with them.\<close>

definition need_words :: "mdec \<Rightarrow> nat" where
  "need_words m = unat ((expected_halfwords m - input_count m + 1) div 2)"

definition fill_words :: "u32 list \<Rightarrow> mdec \<Rightarrow> mdec" where
  "fill_words ws m = foldl (\<lambda>m w. push_word w m) m ws"

text \<open>
  \<open>None\<close> is the one way the C loop does not return: a command whose remaining count is
  \<open>2 ^ 32 - 1\<close>, for which the number of words needed wraps to zero.
\<close>

function mdec_dma_write_words :: "mdec_host \<Rightarrow> u32 list \<Rightarrow> mdec \<Rightarrow> (nat \<times> mdec) option" where
  "mdec_dma_write_words h src m =
     (if src = [] \<or> \<not> mdec_dma_write_ready m then Some (0, m)
      else if collecting m
      then let n = min (length src) (need_words m) in
           if n = 0 then None
           else
             let m = fill_words (take n src) m;
                 m = (if input_count m \<ge> expected_halfwords m then execute_command h m else m)
             in (case mdec_dma_write_words h (drop n src) m of
                   None \<Rightarrow> None | Some (moved, m) \<Rightarrow> Some (n + moved, m))
      else (case mdec_dma_write_words h (tl src) (write_data h (hd src) m) of
              None \<Rightarrow> None | Some (moved, m) \<Rightarrow> Some (1 + moved, m)))"
  by pat_completeness auto

termination
  by (relation "measure (\<lambda>(h, src, m). length src)") auto

fun mdec_dma_read_words :: "mdec_host \<Rightarrow> nat \<Rightarrow> mdec \<Rightarrow> u32 list \<times> mdec" where
  "mdec_dma_read_words h 0 m = ([], m)"
| "mdec_dma_read_words h (Suc n) m =
     (if output_pos m < output_size m
      then let (w, m) = mdec_dma_read_word h m; (ws, m) = mdec_dma_read_words h n m in (w # ws, m)
      else ([], m))"

definition mdec_get_decode_count :: "mdec \<Rightarrow> u32" where
  "mdec_get_decode_count m = decode_count m"

definition mdec_debug_get_event_total :: "mdec \<Rightarrow> u64" where
  "mdec_debug_get_event_total m = mtrace_seq m"

definition mdec_debug_dma_in_start :: "mdec_host \<Rightarrow> u32 \<Rightarrow> mdec \<Rightarrow> mdec" where
  "mdec_debug_dma_in_start h words = trace_event h MDEC_EVT_DMA_IN_START words"

definition mdec_debug_dma_in_end :: "mdec_host \<Rightarrow> u32 \<Rightarrow> mdec \<Rightarrow> mdec" where
  "mdec_debug_dma_in_end h words m =
     trace_event h MDEC_EVT_DMA_IN_END words (m\<lparr>dma_in_words := dma_in_words m + words\<rparr>)"

definition mdec_debug_dma_out_start :: "mdec_host \<Rightarrow> u32 \<Rightarrow> mdec \<Rightarrow> mdec" where
  "mdec_debug_dma_out_start h words = trace_event h MDEC_EVT_DMA_OUT_START words"

definition mdec_debug_dma_out_end :: "mdec_host \<Rightarrow> u32 \<Rightarrow> mdec \<Rightarrow> mdec" where
  "mdec_debug_dma_out_end h words = trace_event h MDEC_EVT_DMA_OUT_END words"

definition mdec_debug_copy_events :: "u64 \<Rightarrow> u64 \<Rightarrow> u32 \<Rightarrow> mdec \<Rightarrow> mdec_event list" where
  "mdec_debug_copy_events seq_lo seq_hi max_count m =
     (let total = unat (mtrace_seq m);
          oldest = (if total > 4096 then total - 4096 else 0);
          lo = max (unat seq_lo) oldest;
          hi = min (unat seq_hi) total
      in map (\<lambda>seq. mtrace m (seq mod 4096)) (take (unat max_count) [lo..<hi]))"

definition mdec_debug_clear :: "mdec \<Rightarrow> mdec" where
  "mdec_debug_clear m = m\<lparr>mtrace := (\<lambda>_. mdec_event_zero), mtrace_seq := 0, mtrace_head := 0\<rparr>"

subsection \<open>The snapshot\<close>

abbreviation MDEC_SNAP_INPUT_MAX :: u32 where "MDEC_SNAP_INPUT_MAX \<equiv> 0x400000"
abbreviation MDEC_SNAP_OUTPUT_MAX :: u32 where "MDEC_SNAP_OUTPUT_MAX \<equiv> 0x800000"

definition mdec_snap_fixed_bytes :: nat where
  "mdec_snap_fixed_bytes = 4 + 4 * 14 + 1 * 8 + 64 + 64 + 64 * 2 + 4 + 4 + 8"

definition mdec_snapshot_bytes :: "mdec \<Rightarrow> nat" where
  "mdec_snapshot_bytes m =
     (let n = mdec_snap_fixed_bytes + unat (input_count m) * 2 + unat (output_size m)
      in if n > 0xFFFFFFFF then 0 else n)"

definition snap_age :: "mdec_host \<Rightarrow> mdec \<Rightarrow> u64" where
  "snap_age h m = (if h_cycle h \<ge> color_cycle m then h_cycle h - color_cycle m else 1000)"

definition mdec_snapshot_write :: "mdec_host \<Rightarrow> mdec \<Rightarrow> u8 list" where
  "mdec_snapshot_write h m =
     (let n = mdec_snapshot_bytes m in
      if n = 0 then []
      else pw_buf (w_all
        ([pst_w_u32 1] @
         map pst_w_u32 [command m, expected_halfwords m, last_status m, decode_macroblocks m,
           decode_blocks m, decode_stop_reason m, decode_input_pos m, decode_input_end m,
           dma_in_words m, dma_out_words m, dma_read_underflows m, output_pos m, 0, 0] @
         map pst_w_u8 [output_bit15 m, output_signed m, output_depth m, current_block m, busy m,
           input_full m, enable_dma_in m, enable_dma_out m] @
         [pst_w_bytes (map (y_quant m) [0..<64]), pst_w_bytes (map (uv_quant m) [0..<64])] @
         map (\<lambda>i. pst_w_u16 (scale m i)) [0..<64] @
         [pst_w_u32 (input_count m), pst_w_u32 (output_size m), pst_w_u64 (snap_age h m)] @
         map (\<lambda>i. pst_w_u16 (if input_cap m \<noteq> 0 then input m i else 0)) [0..<unat (input_count m)] @
         (if output_size m \<noteq> 0 \<and> output_cap m \<noteq> 0
          then [pst_w_bytes (map (outb m) [0..<unat (output_size m)])] else []))
        (pst_w_init (Some n))))"

text \<open>
  The scalars and tables are stored as they are read; once the length covers them and the version
  is right these reads cannot fail. A refusal after that leaves them stored.
\<close>

definition snap_scalars :: "u32 list \<Rightarrow> u8 list \<Rightarrow> u8 list \<Rightarrow> u8 list \<Rightarrow> u16 list \<Rightarrow> mdec \<Rightarrow> mdec" where
  "snap_scalars ws fs yq uq sc m =
     m\<lparr>command := ws ! 0, expected_halfwords := ws ! 1, last_status := ws ! 2,
       decode_macroblocks := ws ! 3, decode_blocks := ws ! 4, decode_stop_reason := ws ! 5,
       decode_input_pos := ws ! 6, decode_input_end := ws ! 7, dma_in_words := ws ! 8,
       dma_out_words := ws ! 9, dma_read_underflows := ws ! 10, output_pos := ws ! 11,
       output_bit15 := fs ! 0, output_signed := fs ! 1, output_depth := fs ! 2,
       current_block := fs ! 3, busy := fs ! 4, input_full := fs ! 5, enable_dma_in := fs ! 6,
       enable_dma_out := fs ! 7,
       y_quant := (\<lambda>i. if i < 64 then yq ! i else y_quant m i),
       uv_quant := (\<lambda>i. if i < 64 then uq ! i else uv_quant m i),
       scale := (\<lambda>i. if i < 64 then sc ! i else scale m i)\<rparr>"

definition snap_header :: "pst_r \<Rightarrow> mdec \<Rightarrow> (mdec \<times> u32 \<times> u32 \<times> u64 \<times> pst_r) option" where
  "snap_header r m =
     (case r_many pst_r_u32 14 r of None \<Rightarrow> None | Some (ws, r) \<Rightarrow>
      case r_many pst_r_u8 8 r of None \<Rightarrow> None | Some (fs, r) \<Rightarrow>
      case pst_r_bytes 64 r of None \<Rightarrow> None | Some (yq, r) \<Rightarrow>
      case pst_r_bytes 64 r of None \<Rightarrow> None | Some (uq, r) \<Rightarrow>
      case r_many pst_r_u16 64 r of None \<Rightarrow> None | Some (sc, r) \<Rightarrow>
      case pst_r_u32 r of None \<Rightarrow> None | Some (ic, r) \<Rightarrow>
      case pst_r_u32 r of None \<Rightarrow> None | Some (os, r) \<Rightarrow>
      case pst_r_u64 r of None \<Rightarrow> None | Some (age, r) \<Rightarrow>
        Some (snap_scalars ws fs yq uq sc m, ic, os, age, r))"

definition snap_stamp :: "mdec_host \<Rightarrow> u64 \<Rightarrow> mdec \<Rightarrow> mdec" where
  "snap_stamp h age m =
     (let age = (if age > 0x10000000000 then 0x10000000000 else age);
          frames_ago = age div 338688;
          frames_ago = (if frames_ago > 100000 then 100000 else frames_ago)
      in m\<lparr>color_cycle := (if age \<ge> h_cycle h then 0 else h_cycle h - age),
           color_frame := (if frames_ago \<ge> h_frame h then 0 else h_frame h - frames_ago)\<rparr>)"

definition snap_fifos :: "mdec_host \<Rightarrow> u32 \<Rightarrow> u32 \<Rightarrow> u64 \<Rightarrow> pst_r \<Rightarrow> mdec \<Rightarrow> bool \<times> mdec" where
  "snap_fifos h ic os age r m =
     (let m = m\<lparr>input_count := ic, output_size := os\<rparr> in
      case r_many pst_r_u16 (unat ic) r of None \<Rightarrow> (False, m) | Some (hws, r) \<Rightarrow>
      let m = m\<lparr>input := (\<lambda>i. if i < unat ic then hws ! i else input m i)\<rparr> in
      case pst_r_bytes (unat os) r of None \<Rightarrow> (False, m) | Some (bs, r) \<Rightarrow>
      (True, snap_stamp h age (m\<lparr>outb := (\<lambda>i. if i < unat os then bs ! i else outb m i)\<rparr>)))"

definition mdec_snapshot_read :: "mdec_host \<Rightarrow> u8 list \<Rightarrow> mdec \<Rightarrow> bool \<times> mdec" where
  "mdec_snapshot_read h p m =
     (if length p < mdec_snap_fixed_bytes then (False, m)
      else case pst_r_u32 (pst_r_init p) of
        None \<Rightarrow> (False, m)
      | Some (ver, r) \<Rightarrow>
        if ver \<noteq> 1 then (False, m)
        else case snap_header r m of
          None \<Rightarrow> (False, m)
        | Some (m, ic, os, age, r) \<Rightarrow>
          if ic > MDEC_SNAP_INPUT_MAX \<or> os > MDEC_SNAP_OUTPUT_MAX then (False, m)
          else if output_pos m > os then (False, m)
          else if length p - mdec_snap_fixed_bytes < unat ic * 2 + unat os then (False, m)
          else case ensure_input_capacity h (if ic \<noteq> 0 then ic else 1) m of
            (False, m) \<Rightarrow> (False, m)
          | (True, m) \<Rightarrow>
            (case ensure_output_capacity h (if os \<noteq> 0 then os else 1) m of
               (False, m) \<Rightarrow> (False, m)
             | (True, m) \<Rightarrow> snap_fifos h ic os age r m))"

end
