(* ===== verification/MdecProps.thy ===== *)
theory MdecProps
  imports Mdec
begin

unbundle bit_operations_syntax

text \<open>
  What the decoder of Mdec keeps: the transform is the exact matrix product and fits the machine's
  integers, a decode consumes its input and accounts for its output, the queues stay inside their
  allocations whatever is written, a burst is its words, the output is a byte queue, and the
  snapshot restores it.
\<close>

subsection \<open>The transform is the matrix product\<close>

text \<open>The two passes with no special case for zero columns or blocks.\<close>

definition idct_ref :: "(nat \<Rightarrow> u16) \<Rightarrow> (nat \<Rightarrow> u16) \<Rightarrow> nat \<Rightarrow> u16" where
  "idct_ref sc block =
     (let tmp = (\<lambda>i. word_of_int (round15 (\<Sum>u<8. sint (block (i mod 8 * 8 + u)) * sint (sc (i div 8 * 8 + u)))) :: u16)
      in (\<lambda>i. if i < 64
              then word_of_int (mask9_clamp_s8 (round15
                     (\<Sum>u<8. sint (tmp (i div 8 * 8 + u)) * sint (sc (i mod 8 * 8 + u)))))
              else block i))"

lemma round15_0 [simp]: "round15 0 = 0"
  by (simp add: round15_def drop_bit_eq_div)

lemma mask9_0 [simp]: "mask9_clamp_s8 0 = 0"
  by (simp add: mask9_clamp_s8_def sign_x_to_s32_def)

lemma sum_upto8: "(\<Sum>u<8. f u) = f 0 + f 1 + f 2 + f 3 + f 4 + f 5 + f 6 + (f 7 :: int)" for f :: "nat \<Rightarrow> int"
  by (simp add: eval_nat_numeral)

lemma idct_dot_sum:
  "idct_dot f sc col x = (\<Sum>u<8. sint (f (col * 8 + u)) * sint (sc (x * 8 + u)))"
  by (simp add: idct_dot_def upt8 sum_upto8)

lemma col_zero_dot: "col_zero f col \<Longrightarrow> idct_dot f sc col x = 0"
  by (simp add: col_zero_def idct_dot_def upt8)

lemma dot_dc:
  fixes block :: "nat \<Rightarrow> u16"
  assumes "\<And>i. 1 \<le> i \<Longrightarrow> i < 64 \<Longrightarrow> block i = 0" "col < 8"
  shows "(\<Sum>u<8. sint (block (col * 8 + u)) * sint (sc (x * 8 + u)))
       = (if col = 0 then sint (block 0) * sint (sc (x * 8)) else 0)"
proof -
  have "block (col * 8 + u) = 0" if "col * 8 + u \<noteq> 0" "u < 8" for u
    using assms(1) [of "col * 8 + u"] assms(2) that by linarith
  from this [of 0] this [of 1] this [of 2] this [of 3] this [of 4] this [of 5] this [of 6] this [of 7]
  show ?thesis by (cases "col = 0") (simp_all add: sum_upto8 numeral_2_eq_2)
qed

lemma idct_dc_is_ref:
  assumes "\<And>i. 1 \<le> i \<Longrightarrow> i < 64 \<Longrightarrow> block i = 0"
  shows "idct_block_dc_only sc block = idct_ref sc block"
proof -
  define tmp where "tmp = (\<lambda>i. word_of_int (round15
      (\<Sum>u<8. sint (block (i mod 8 * 8 + u)) * sint (sc (i div 8 * 8 + u)))) :: u16)"
  have tmp: "tmp (c * 8 + u) = (if u = 0 then word_of_int (round15 (sint (block 0) * sint (sc (c * 8)))) else 0)"
    if "u < 8" for c u
    unfolding tmp_def using that by (subst dot_dc [OF assms]) simp_all
  have "(\<Sum>u<8. sint (tmp (c * 8 + u)) * g u)
      = sint (word_of_int (round15 (sint (block 0) * sint (sc (c * 8)))) :: u16) * g 0" for c g
    using tmp [of 0 c] by (simp add: sum_upto8 tmp)
  then show ?thesis
    unfolding idct_ref_def idct_block_dc_only_def Let_def tmp_def [symmetric] by (simp add: fun_eq_iff)
qed

lemma idct_ref_dots:
  "idct_ref sc block =
     (let tmp = (\<lambda>i. word_of_int (round15 (idct_dot block sc (i mod 8) (i div 8))) :: u16)
      in (\<lambda>i. if i < 64 then word_of_int (mask9_clamp_s8 (round15 (idct_dot tmp sc (i div 8) (i mod 8))))
              else block i))"
  by (simp only: idct_ref_def idct_dot_sum)

text \<open>
  C29. The transform is exact: skipping zero columns and taking the short path for a block with only
  its first coefficient gives, sample for sample, the two-pass matrix product with the rounding and
  the nine-bit clamp of the hardware.
\<close>

theorem idct_is_matrix_product: "idct_block_scalar sc block = idct_ref sc block"
proof (cases "list_all (\<lambda>i. block i = 0) [1..<64]")
  case True
  then have "block i = 0" if "1 \<le> i" "i < 64" for i
    using that by (simp add: list_all_iff)
  with True show ?thesis by (simp add: idct_block_scalar_def idct_dc_is_ref)
next
  case False
  have z: "(if col_zero f c then 0 else word_of_int (g (idct_dot f sc c x))) = (word_of_int (g (idct_dot f sc c x)) :: u16)"
    if "g 0 = 0" for f c x g
    using that by (simp add: col_zero_dot)
  show ?thesis
    using False z [of round15] z [of "\<lambda>s. mask9_clamp_s8 (round15 s)"]
    by (simp add: idct_block_scalar_def idct_ref_dots Let_def cong del: if_weak_cong)
qed

text \<open>The sums fit \<open>int\<close>: what the decoder and the scale command store bounds every term.\<close>

lemma dot_bound:
  fixes f g :: "nat \<Rightarrow> int"
  assumes "\<And>u. u < 8 \<Longrightarrow> \<bar>f u\<bar> \<le> A" "\<And>u. u < 8 \<Longrightarrow> \<bar>g u\<bar> \<le> B"
  shows "\<bar>\<Sum>u<8. f u * g u\<bar> \<le> 8 * (A * B)"
proof -
  have "\<bar>\<Sum>u<8. f u * g u\<bar> \<le> (\<Sum>u<8. \<bar>f u * g u\<bar>)" by (rule sum_abs)
  also have "\<dots> \<le> (\<Sum>u<(8::nat). A * B)"
    using assms by (intro sum_mono) (auto simp: abs_mult intro: mult_mono order_trans [OF abs_ge_zero])
  finally show ?thesis by simp
qed

lemma dot_fits:
  assumes "\<And>u. u < 8 \<Longrightarrow> \<bar>sint (sc (x * 8 + u))\<bar> \<le> 4096"
  shows "\<bar>idct_dot f sc c x\<bar> \<le> 2 ^ 30"
proof -
  have f: "\<bar>sint w\<bar> \<le> 32768" for w :: u16
    using sint_range_size [of w] by (simp add: word_size) linarith
  have "\<bar>idct_dot f sc c x\<bar> \<le> 8 * (32768 * 4096)"
    unfolding idct_dot_sum by (rule dot_bound) (use f assms in auto)
  then show ?thesis by simp
qed

lemma load_scale_bound:
  assumes "i < 64"
  shows "\<bar>sint (scale (load_scale m) i)\<bar> \<le> 4096"
proof -
  have "sint (signed_drop_bit 3 w :: u16) = sint w div 8" for w :: u16
    by (simp add: sint_signed_drop_bit_eq drop_bit_eq_div)
  moreover have "- (2 ^ 15) \<le> sint w \<and> sint w < 2 ^ 15" for w :: u16
    using sint_range_size [of w] by (simp add: word_size)
  moreover have "\<bar>s div 8\<bar> \<le> 4096" if "- 32768 \<le> s" "s < 32768" for s :: int
    using that by presburger
  ultimately have "\<bar>sint (signed_drop_bit 3 w :: u16)\<bar> \<le> 4096" for w :: u16
    by simp
  then show ?thesis using assms by (simp add: load_scale_def)
qed

text \<open>
  No overflow: with a scale matrix loaded by the command, every sum of the transform, rounding
  included, stays inside C's \<open>int\<close>, whatever the block holds.
\<close>

theorem transform_fits_int:
  assumes "x < 8"
  shows "- (2 ^ 31) \<le> idct_dot f (scale (load_scale m)) c x + 0x4000
    \<and> idct_dot f (scale (load_scale m)) c x + 0x4000 < 2 ^ 31"
proof -
  have "\<bar>idct_dot f (scale (load_scale m)) c x\<bar> \<le> 2 ^ 30"
    by (rule dot_fits) (use assms in \<open>simp add: load_scale_bound\<close>)
  then show ?thesis by (auto simp: abs_le_iff)
qed

lemma sse2_dot:
  assumes "\<And>u. u < 8 \<Longrightarrow> \<bar>sint (sc (x * 8 + u))\<bar> \<le> 4096"
  shows "idct_sse2_dot8 f sc c x = idct_dot f sc c x"
proof -
  define a b where "a = (\<lambda>u. f (c * 8 + u))" and "b = (\<lambda>u. sc (x * 8 + u))"
  have "idct_sse2_dot8 f sc c x = sint (madd_epi16 a b 0 + madd_epi16 a b 3 + (madd_epi16 a b 1 + madd_epi16 a b 2))"
    by (simp add: idct_sse2_dot8_def shuffle_epi32_def Let_def a_def [symmetric] b_def [symmetric])
  also have "\<dots> = sint (word_of_int (foldl (\<lambda>s u. s + sint (a u) * sint (b u)) 0 [0..<8]) :: u32)"
    by (simp add: madd_epi16_def upt8 wi_hom_add ac_simps del: upt_rec_numeral of_int_add wi_hom_mult)
      (simp add: eval_nat_numeral ac_simps)
  also have "foldl (\<lambda>s u. s + sint (a u) * sint (b u)) 0 [0..<8] = idct_dot f sc c x"
    by (simp only: idct_dot_def a_def b_def)
  also have "sint (word_of_int (idct_dot f sc c x) :: u32) = idct_dot f sc c x"
    using dot_fits [of sc x f c] assms by (simp add: signed_of_int signed_take_bit_int_eq_self abs_le_iff)
  finally show ?thesis .
qed

text \<open>
  C30. The SSE2 transform, with its multiply-add lanes and its shuffles, gives the scalar transform
  bit for bit, for every block and every scale matrix the scale command can load.
\<close>

theorem idct_simd_is_scalar:
  assumes "\<forall>i<64. \<bar>sint (sc i)\<bar> \<le> 4096"
  shows "idct_block_sse2 sc block = idct_block_scalar sc block"
proof -
  have "\<bar>sint (sc (x * 8 + u))\<bar> \<le> 4096" if "x < 8" "u < 8" for x u
    using assms that by simp
  then have dot: "idct_sse2_dot8 f sc c x = idct_dot f sc c x" if "x < 8" for f c x
    using that by (intro sse2_dot) blast
  have tmp: "idct_dot (\<lambda>i. g (i div 8) i) sc c x = idct_dot (\<lambda>i. h (i div 8) i) sc c x
      \<and> col_zero (\<lambda>i. g (i div 8) i) c = col_zero (\<lambda>i. h (i div 8) i) c"
    if "c < 8" "\<And>x i. x < 8 \<Longrightarrow> g x i = h x i" for g h :: "nat \<Rightarrow> nat \<Rightarrow> u16" and c x
    using that by (simp add: idct_dot_def col_zero_def upt8 div_add1_eq del: upt_rec_numeral)
  show ?thesis
  proof (cases "list_all (\<lambda>i. block i = 0) [1..<64]")
    case True
    then show ?thesis by (simp add: idct_block_sse2_def idct_block_scalar_def)
  next
    case False
    show ?thesis
    proof
      fix i :: nat
      let ?g = "\<lambda>x i. if col_zero block (i mod 8) then 0 else word_of_int (round15 (idct_sse2_dot8 block sc (i mod 8) x)) :: u16"
      let ?h = "\<lambda>x i. if col_zero block (i mod 8) then 0 else word_of_int (round15 (idct_dot block sc (i mod 8) x)) :: u16"
      have gh: "?g x i = ?h x i" if "x < 8" for x i using that by (simp add: dot)
      have "i div 8 < 8" if "i < 64" using that by (simp add: div_less_iff_less_mult)
      then show "idct_block_sse2 sc block i = idct_block_scalar sc block i"
        using False tmp [of "i div 8" ?g ?h "i mod 8"] gh
        unfolding idct_block_sse2_def idct_block_scalar_def Let_def
        by (cases "i < 64") (simp_all add: dot del: upt_rec_numeral cong: if_cong)
    qed
  qed
qed

lemma idct_simd_is_scalar_witness:
  "idct_block_sse2 (\<lambda>i. if i = 3 then - 4096 else 4096) (\<lambda>i. of_nat i)
     = idct_block_scalar (\<lambda>i. if i = 3 then - 4096 else 4096) (\<lambda>i. of_nat i)"
  by (rule idct_simd_is_scalar) simp

subsection \<open>What the bookkeeping leaves alone\<close>

lemma trace_event_frame [simp]:
  "command (trace_event h k v m) = command m"
  "expected_halfwords (trace_event h k v m) = expected_halfwords m"
  "input_count (trace_event h k v m) = input_count m"
  "input (trace_event h k v m) = input m"
  "input_cap (trace_event h k v m) = input_cap m"
  "outb (trace_event h k v m) = outb m"
  "output_size (trace_event h k v m) = output_size m"
  "output_pos (trace_event h k v m) = output_pos m"
  "output_cap (trace_event h k v m) = output_cap m"
  "output_depth (trace_event h k v m) = output_depth m"
  "busy (trace_event h k v m) = busy m"
  "decode_macroblocks (trace_event h k v m) = decode_macroblocks m"
  "decode_stop_reason (trace_event h k v m) = decode_stop_reason m"
  "decode_input_pos (trace_event h k v m) = decode_input_pos m"
  by (simp_all add: trace_event_def)

text \<open>The buffers: positions inside sizes, sizes inside allocations.\<close>

definition in_ok :: "mdec \<Rightarrow> bool" where
  "in_ok m \<longleftrightarrow> unat (expected_halfwords m) \<le> 0x1FFFE
     \<and> input_count m \<le> expected_halfwords m \<and> expected_halfwords m \<le> input_cap m"

definition out_ok :: "mdec \<Rightarrow> bool" where
  "out_ok m \<longleftrightarrow> output_pos m \<le> output_size m \<and> output_size m \<le> output_cap m
     \<and> output_size m \<le> MDEC_SNAP_OUTPUT_MAX"

definition mdec_ok :: "mdec \<Rightarrow> bool" where
  "mdec_ok m \<longleftrightarrow> in_ok m \<and> out_ok m"

lemma trace_event_ok [simp]:
  "in_ok (trace_event h k v m) = in_ok m" "out_ok (trace_event h k v m) = out_ok m"
  by (simp_all add: in_ok_def out_ok_def)

subsection \<open>Growing a buffer\<close>

lemma unat_double: "unat c < 2 ^ 31 \<Longrightarrow> unat (c * 2 :: u32) = 2 * unat c"
  by (simp add: unat_word_ariths(2))

lemma grow_cap_ge:
  assumes "unat need \<le> 2 ^ 31" "unat need \<le> unat c * 2 ^ n"
  shows "need \<le> grow_cap n c need"
  using assms
proof (induction n arbitrary: c)
  case 0
  then show ?case by (simp add: word_le_nat_alt)
next
  case (Suc n)
  show ?case
  proof (cases "c < need")
    case True
    then have "unat c < 2 ^ 31" using Suc.prems(1) by (simp add: word_less_nat_alt)
    then have "unat (c * 2) = 2 * unat c" by (rule unat_double)
    then have "need \<le> grow_cap n (c * 2) need" using Suc by simp
    then show ?thesis using True by simp
  qed simp
qed

lemma grow_cap_reaches:
  assumes "unat need \<le> 2 ^ 31" "c \<noteq> 0"
  shows "need \<le> grow_cap 32 c need"
proof (rule grow_cap_ge [OF assms(1)])
  have "1 \<le> unat c" using assms(2) by (simp add: Suc_leI unat_gt_0)
  then have "1 * 2 ^ 32 \<le> unat c * 2 ^ 32" by (intro mult_right_mono) simp_all
  then show "unat need \<le> unat c * 2 ^ 32" using assms(1) by simp
qed

lemma ensure_input_result:
  assumes "ensure_input_capacity h n m = (b, m')" "unat n \<le> 2 ^ 31"
  shows "m' = m\<lparr>input_cap := input_cap m'\<rparr> \<and> input_cap m \<le> input_cap m' \<and> (b \<longrightarrow> n \<le> input_cap m')"
proof (cases "n \<le> input_cap m")
  case True
  then show ?thesis using assms(1) by (auto simp: ensure_input_capacity_def)
next
  case False
  let ?c = "grow_cap 32 (if input_cap m \<noteq> 0 then input_cap m else 256) n"
  have "n \<le> ?c" by (rule grow_cap_reaches [OF assms(2)]) simp
  moreover have "input_cap m \<le> n" using False by simp
  ultimately show ?thesis
    using assms(1) False by (auto simp: ensure_input_capacity_def Let_def split: if_splits intro: order_trans)
qed

lemma ensure_output_result:
  assumes "ensure_output_capacity h n m = (b, m')" "unat n \<le> 2 ^ 31"
  shows "m' = m\<lparr>output_cap := output_cap m'\<rparr> \<and> output_cap m \<le> output_cap m' \<and> (b \<longrightarrow> n \<le> output_cap m')"
proof (cases "n \<le> output_cap m")
  case True
  then show ?thesis using assms(1) by (auto simp: ensure_output_capacity_def)
next
  case False
  let ?c = "grow_cap 32 (if output_cap m \<noteq> 0 then output_cap m else 4096) n"
  have "n \<le> ?c" by (rule grow_cap_reaches [OF assms(2)]) simp
  moreover have "output_cap m \<le> n" using False by simp
  ultimately show ?thesis
    using assms(1) False by (auto simp: ensure_output_capacity_def Let_def split: if_splits intro: order_trans)
qed

subsection \<open>How far a block reads\<close>

lemma unat_pos_Suc: "unat (pos :: u32) < unat (fin :: u32) \<Longrightarrow> unat (pos + 1) = Suc (unat pos)"
  using unat_u32_less [of fin] by (simp add: unat_word_ariths(1))

lemma skip_pad_pos:
  assumes "skip_pad inp n pos w = (w', pos')" "unat pos + n \<le> unat (fin :: u32)"
  shows "unat pos \<le> unat pos' \<and> unat pos' \<le> unat pos + n"
  using assms
proof (induction inp n pos w rule: skip_pad.induct)
  case (2 inp n pos w)
  then show ?case using unat_pos_Suc [of pos fin] by (auto split: if_splits)
qed simp

lemma rle_ac_pos:
  assumes "rle_ac inp q s n pos k b = (b', pos')" "unat pos + n \<le> unat (fin :: u32)"
  shows "unat pos \<le> unat pos' \<and> unat pos' \<le> unat pos + n
    \<and> (k < 63 \<and> 0 < n \<longrightarrow> unat pos < unat pos')"
  using assms
proof (induction n arbitrary: pos k b)
  case (Suc n)
  let ?w = "inp (unat pos)"
  let ?k = "k + rle_run ?w + 1"
  have p: "unat (pos + 1) = Suc (unat pos)" using Suc.prems(2) by (intro unat_pos_Suc [of pos fin]) simp
  show ?case
  proof (cases "k < 63 \<and> ?w \<noteq> 0xFE00 \<and> ?k < 64")
    case True
    then have "rle_ac inp q s n (pos + 1) ?k
        (b(zigzag_to_linear ! ?k := dequant_ac (sign_extend_10 (?w AND 0x3FF)) (s * uint (q ?k)))) = (b', pos')"
      using Suc.prems(1) by (simp add: Let_def)
    from Suc.IH [OF this] Suc.prems(2) p show ?thesis by simp
  next
    case False
    then have "pos' = (if k < 63 then pos + 1 else pos)"
      using Suc.prems(1) by (auto simp: Let_def split: if_splits)
    then show ?thesis using p by auto
  qed
qed simp

lemma unat_pos_diff: "pos \<le> fin \<Longrightarrow> unat ((fin :: u32) - pos) = unat fin - unat pos"
  by (simp add: unat_sub word_le_nat_alt)

text \<open>
  A block starts exactly when there is input; it takes at least two halfwords unless it ends at the
  end, and touches nothing of the decoder but the block count.
\<close>

lemma decode_rle_block_result:
  assumes "decode_rle_block q pos fin m = (b, blk, pos', m')"
  shows "b = (pos < fin)
    \<and> m' = m\<lparr>decode_blocks := decode_blocks m + (if b then 1 else 0)\<rparr>
    \<and> (b \<longrightarrow> unat pos + 1 \<le> unat pos' \<and> unat pos' \<le> unat fin
           \<and> (unat pos + 2 \<le> unat pos' \<or> pos' = fin))
    \<and> (\<not> b \<longrightarrow> pos' = pos)"
proof (cases "pos < fin")
  case False
  then show ?thesis using assms by (auto simp: decode_rle_block_def not_less)
next
  case True
  then have lt: "unat pos < unat fin" by (simp add: word_less_nat_alt)
  let ?m = "m\<lparr>decode_blocks := decode_blocks m + 1\<rparr>"
  obtain w p1 where sp: "skip_pad (input m) (unat (fin - (pos + 1))) (pos + 1) (input m (unat pos)) = (w, p1)"
    by fastforce
  define blk0 where "blk0 = (\<lambda>_::nat. 0 :: u16)(0 := dequant_dc (sign_extend_10 (w AND 0x3FF)) (uint (q 0)))"
  obtain b1 p2 where ac: "rle_ac (input m) q (int (rle_run w)) (unat (fin - p1)) p1 0 blk0 = (b1, p2)"
    by fastforce
  have p: "unat (pos + 1) = unat pos + 1" using unat_pos_Suc [OF lt] by simp
  have d: "unat (fin - (pos + 1)) = unat fin - (unat pos + 1)"
    using lt p by (subst unat_pos_diff) (simp_all add: word_le_nat_alt)
  have 1: "unat pos + 1 \<le> unat p1" "unat p1 \<le> unat fin"
    using skip_pad_pos [OF sp, of fin] lt p d by simp_all
  have e: "unat (fin - p1) = unat fin - unat p1"
    using 1 by (subst unat_pos_diff) (simp_all add: word_le_nat_alt)
  have 2: "unat p1 \<le> unat p2" "unat p2 \<le> unat fin" "unat p1 < unat fin \<longrightarrow> unat p1 < unat p2"
    using rle_ac_pos [OF ac, of fin] 1 e by simp_all
  have np: "\<not> fin \<le> pos" using True by simp
  have "b" "m' = ?m" "pos' = p2"
    using assms np sp ac by (auto simp: decode_rle_block_def Let_def blk0_def)
  moreover have "unat pos + 2 \<le> unat p2 \<or> p2 = fin"
    using 1 2 by (cases "unat p1 = unat fin") (auto simp: word_unat_eq_iff)
  ultimately show ?thesis using True 1 2 by simp
qed

subsection \<open>What a decode puts out\<close>

definition core :: "mdec \<Rightarrow> u32 \<times> u32 \<times> u32 \<times> (nat \<Rightarrow> u16) \<times> u32 \<times> u32 \<times> u8 \<times> u8" where
  "core m = (command m, expected_halfwords m, input_count m, input m, input_cap m, output_pos m,
     output_depth m, busy m)"

lemma core_upd [simp]:
  "core (m\<lparr>decode_blocks := x\<rparr>) = core m" "core (m\<lparr>decode_macroblocks := x\<rparr>) = core m"
  "core (m\<lparr>decode_stop_reason := x\<rparr>) = core m" "core (m\<lparr>decode_input_pos := x\<rparr>) = core m"
  "core (m\<lparr>outb := o1\<rparr>) = core m" "core (m\<lparr>output_size := x\<rparr>) = core m"
  "core (m\<lparr>output_cap := x\<rparr>) = core m" "core (trace_event h k v m) = core m"
  by (simp_all add: core_def)

text \<open>A run of bytes appended under a reservation, or dropped when there is no memory.\<close>

definition appended :: "mdec_host \<Rightarrow> nat \<Rightarrow> mdec \<Rightarrow> mdec \<Rightarrow> bool" where
  "appended h n m m' \<longleftrightarrow> core m' = core m \<and> decode_macroblocks m' = decode_macroblocks m
     \<and> decode_stop_reason m' = decode_stop_reason m
     \<and> y_quant m' = y_quant m \<and> uv_quant m' = uv_quant m
     \<and> output_size m' \<le> output_cap m'
     \<and> (output_size m' = output_size m \<and> \<not> (\<forall>k. h_alloc h k) \<or> output_size m' = output_size m + of_nat n)
     \<and> unat (output_size m') \<le> unat (output_size m) + n"

lemma reserve_store_appended:
  assumes "output_size m \<le> output_cap m" "unat (output_size m) + n \<le> 2 ^ 31"
    and "m' = (case output_reserve h (of_nat n) m of (False, m1) \<Rightarrow> m1 | (True, m1) \<Rightarrow> store_out (bs m1) m1)"
    and "\<And>m1. length (bs m1) = n"
  shows "appended h n m m'"
proof -
  obtain b m1 where r: "output_reserve h (of_nat n) m = (b, m1)" by fastforce
  have n: "unat (of_nat n :: u32) = n"
    using assms(2) by (simp add: unsigned_of_nat take_bit_nat_eq_self)
  then have sum: "unat (output_size m + of_nat n) = unat (output_size m) + n"
    using assms(2) by (simp add: unat_word_ariths(1))
  have res: "m1 = m\<lparr>output_cap := output_cap m1\<rparr>" "output_cap m \<le> output_cap m1"
    "b \<longrightarrow> output_size m + of_nat n \<le> output_cap m1"
    using ensure_output_result [OF r [unfolded output_reserve_def]] sum assms(2) by simp_all
  have "\<not> b \<longrightarrow> \<not> (\<forall>k. h_alloc h k)"
    using r by (auto simp: output_reserve_def ensure_output_capacity_def Let_def split: if_splits)
  moreover have "core m1 = core m" "decode_macroblocks m1 = decode_macroblocks m"
    "decode_stop_reason m1 = decode_stop_reason m" "output_size m1 = output_size m"
    "y_quant m1 = y_quant m" "uv_quant m1 = uv_quant m"
    by (subst res(1), simp)+
  ultimately show ?thesis
    using assms(1,3) assms(4) [of m1] res(2,3) r sum
    by (cases b) (simp_all add: appended_def store_out_def core_def order_trans)
qed

lemma append_luma_appended:
  assumes "output_size m \<le> output_cap m" "unat (output_size m) + 64 \<le> 2 ^ 31"
  shows "appended h 64 m (append_luma_block h blk m)"
  by (rule reserve_store_appended [OF assms, where bs = "\<lambda>m1. map (\<lambda>i. to_output_u8 m1 (sint (blk i))) [0..<64]"])
    (simp_all add: append_luma_block_def)

lemma length_pixel: "length (emit_rgb_pixel m y cr cb) = (if output_depth m = 3 then 2 else 3)"
  by (simp add: emit_rgb_pixel_def Let_def)

lemma length_concat_same: "(\<And>x. x \<in> set xs \<Longrightarrow> length (f x) = k) \<Longrightarrow> length (concat (map f xs)) = k * length xs"
  by (induction xs) auto

lemma length_macroblock:
  "length (concat (map (\<lambda>py. concat (map (mb_pixel m cr cb y py) [0..<16])) [0..<16]))
     = (if output_depth m = 3 then 512 else 768)"
proof -
  let ?k = "if output_depth m = 3 then 2 else 3 :: nat"
  have "length (concat (map (mb_pixel m cr cb y py) [0..<16])) = ?k * 16" for py
    by (subst length_concat_same [where k = ?k]) (simp_all add: mb_pixel_def Let_def length_pixel)
  then show ?thesis by (subst length_concat_same [where k = "?k * 16"]) simp_all
qed

definition mb_size :: "mdec \<Rightarrow> nat" where
  "mb_size m = (if output_depth m < 2 then 64 else if output_depth m = 3 then 512 else 768)"

lemma append_color_appended:
  assumes "output_size m \<le> output_cap m" "unat (output_size m) + 768 \<le> 2 ^ 31" "\<not> output_depth m < 2"
  shows "appended h (mb_size m) m (append_color_macroblock h cr cb y m)"
proof -
  let ?bs = "\<lambda>m1. concat (map (\<lambda>py. concat (map (mb_pixel (m1\<lparr>output_depth := output_depth m\<rparr>) cr cb y py) [0..<16])) [0..<16])"
  obtain b m1 where r: "output_reserve h (of_nat (mb_size m)) m = (b, m1)" by fastforce
  have k: "of_nat (mb_size m) = (if output_depth m = 3 then 512 else 768 :: u32)"
    using assms(3) by (simp add: mb_size_def)
  have "output_depth m1 = output_depth m"
    using r by (auto simp: output_reserve_def ensure_output_capacity_def Let_def split: if_splits)
  then have d: "m1\<lparr>output_depth := output_depth m\<rparr> = m1" by simp
  show ?thesis
  proof (rule reserve_store_appended [OF assms(1), where bs = ?bs])
    show "unat (output_size m) + mb_size m \<le> 2 ^ 31" using assms(2) by (simp add: mb_size_def)
    show "length (?bs m2) = mb_size m" for m2
      using assms(3) by (simp add: length_macroblock mb_size_def)
    show "append_color_macroblock h cr cb y m = (case output_reserve h (of_nat (mb_size m)) m of
        (False, m1) \<Rightarrow> m1 | (True, m1) \<Rightarrow> store_out (?bs m1) m1)"
      using r d unfolding append_color_macroblock_def k [symmetric] by (simp add: Let_def split: bool.splits)
  qed
qed

lemma decode_run_result:
  assumes "decode_run qs pos fin m = (blks, pos', m')" "pos \<le> fin"
  shows "(\<exists>x. m' = m\<lparr>decode_blocks := x\<rparr>) \<and> pos' \<le> fin \<and> length blks \<le> length qs
    \<and> (length blks < length qs \<longrightarrow> pos' = fin)
    \<and> (unat pos + 2 * length blks \<le> unat pos'
       \<or> pos' = fin \<and> unat pos + 2 * length blks \<le> unat pos' + 1)"
  using assms
proof (induction qs arbitrary: pos m blks)
  case Nil
  then have "m' = m\<lparr>decode_blocks := decode_blocks m\<rparr>" by simp
  then have "\<exists>x. m' = m\<lparr>decode_blocks := x\<rparr>" by blast
  then show ?case using Nil by auto
next
  case (Cons q qs)
  obtain b blk p1 m1 where d: "decode_rle_block q pos fin m = (b, blk, p1, m1)"
    by (metis prod_cases4)
  note r = decode_rle_block_result [OF d]
  show ?case
  proof (cases b)
    case False
    with r Cons.prems d have e: "m' = m\<lparr>decode_blocks := decode_blocks m\<rparr>" "pos' = pos" "blks = []" "pos = fin"
      by auto
    have "\<exists>x. m' = m\<lparr>decode_blocks := x\<rparr>" using e(1) by blast
    then show ?thesis using e(2,3,4) by (intro conjI) simp_all
  next
    case True
    obtain bs p2 m2 where d2: "decode_run qs p1 fin m1 = (bs, p2, m2)" by (metis prod_cases3)
    have p1: "p1 \<le> fin" using r True by (simp add: word_le_nat_alt)
    from Cons.prems(1) d d2 True have eq: "blks = blk # bs" "pos' = p2" "m' = m2" by auto
    note IH = Cons.IH [OF d2 [folded eq(2,3)] p1]
    obtain x where "m' = m1\<lparr>decode_blocks := x\<rparr>" using IH by blast
    then have 1: "\<exists>x. m' = m\<lparr>decode_blocks := x\<rparr>" using r by auto
    have 2: "pos' \<le> fin" "unat pos' \<le> unat fin" using IH by (simp_all add: word_le_nat_alt)
    have 3: "unat p1 + 2 * length bs \<le> unat pos' \<or> pos' = fin \<and> unat p1 + 2 * length bs \<le> unat pos' + 1"
      using IH by blast
    have 4: "unat pos + 2 \<le> unat p1 \<or> p1 = fin" "unat pos + 1 \<le> unat p1" using r True by auto
    have "unat pos + 2 * length blks \<le> unat pos' \<or> pos' = fin \<and> unat pos + 2 * length blks \<le> unat pos' + 1"
    proof (cases "p1 = fin")
      case end1: True
      then have "2 * length bs \<le> 1" using 2 3 by auto
      then have bs: "bs = []" by (cases bs) simp_all
      have "pos' = fin" using 2 3 end1 bs by (auto simp: word_unat_eq_iff)
      then show ?thesis using 4(2) end1 bs eq(1) by simp
    next
      case False
      then show ?thesis using 3 4(1) eq(1) by auto
    qed
    moreover have "length blks \<le> length (q # qs)" "length blks < length (q # qs) \<longrightarrow> pos' = fin"
      using IH eq(1) by auto
    ultimately show ?thesis using 1 2(1) by blast
  qed
qed

text \<open>The invariant of the two loops: \<open>k\<close> units out of \<open>pos\<close> halfwords, at \<open>d\<close> halfwords a unit.\<close>

definition paced :: "nat \<Rightarrow> nat \<Rightarrow> u32 \<Rightarrow> u32 \<Rightarrow> bool" where
  "paced d k pos fin \<longleftrightarrow> pos \<le> fin \<and> (d * k \<le> unat pos \<or> pos = fin \<and> d * k \<le> unat pos + 1)"

lemma paced_done: "paced d k pos fin \<Longrightarrow> d * k \<le> unat fin + 1"
  by (auto simp: paced_def word_le_nat_alt)

text \<open>What a loop keeps: \<open>k\<close> units of \<open>u\<close> bytes are out, fewer bytes when memory was refused.\<close>

definition loop_inv :: "mdec_host \<Rightarrow> mdec \<Rightarrow> nat \<Rightarrow> nat \<Rightarrow> nat \<Rightarrow> u32 \<Rightarrow> u32 \<Rightarrow> mdec \<Rightarrow> bool" where
  "loop_inv h m0 u d k pos fin m \<longleftrightarrow> core m = core m0 \<and> y_quant m = y_quant m0 \<and> uv_quant m = uv_quant m0
     \<and> paced d k pos fin \<and> decode_macroblocks m = of_nat k
     \<and> output_size m \<le> output_cap m \<and> unat (output_size m) \<le> u * k
     \<and> ((\<forall>n. h_alloc h n) \<longrightarrow> output_size m = of_nat (u * k))"

lemma loop_inv_blocks: "loop_inv h m0 u d k pos fin (m\<lparr>decode_blocks := x\<rparr>) = loop_inv h m0 u d k pos fin m"
  by (simp add: loop_inv_def)

lemma loop_inv_step:
  assumes "loop_inv h m0 u d k pos fin m" "appended h u m m1" "unat pos < unat fin"
    and "pos' \<le> fin" "unat pos + d \<le> unat pos' \<or> pos' = fin \<and> unat pos + d \<le> unat pos' + 1"
  shows "loop_inv h m0 u d (Suc k) pos' fin (m1\<lparr>decode_macroblocks := decode_macroblocks m1 + 1\<rparr>)"
proof -
  have "d * k \<le> unat pos" using assms(1,3) by (auto simp: loop_inv_def paced_def)
  then have "paced d (Suc k) pos' fin" using assms(4,5) by (auto simp: paced_def)
  moreover have "core m1 = core m" "decode_macroblocks m1 = decode_macroblocks m"
    "y_quant m1 = y_quant m" "uv_quant m1 = uv_quant m" "output_size m1 \<le> output_cap m1"
    "unat (output_size m1) \<le> unat (output_size m) + u"
    "(\<forall>n. h_alloc h n) \<longrightarrow> output_size m1 = output_size m + of_nat u"
    using assms(2) by (auto simp: appended_def)
  ultimately show ?thesis
    using assms(1) by (auto simp: loop_inv_def algebra_simps)
qed

lemma decode_luma_inv:
  assumes "decode_luma h n pos fin m = (pos', m')" "loop_inv h m0 64 2 k pos fin m"
    and "unat fin \<le> 0x1FFFE" "unat fin \<le> unat pos + n"
  shows "\<exists>k'. loop_inv h m0 64 2 k' pos' fin m' \<and> pos' = fin"
  using assms(1,2,4)
proof (induction n arbitrary: pos m k)
  case 0
  then have "pos' = fin" by (auto simp: loop_inv_def paced_def word_le_nat_alt word_unat_eq_iff)
  then show ?case using 0 by auto
next
  case (Suc n)
  show ?case
  proof (cases "pos < fin")
    case False
    then have "pos' = fin" "m' = m" using Suc.prems by (auto simp: loop_inv_def paced_def)
    then show ?thesis using Suc.prems(1,2) False by auto
  next
    case True
    obtain b blk p1 m1 where d: "decode_rle_block (y_quant m) pos fin m = (b, blk, p1, m1)"
      by (metis prod_cases4)
    note r = decode_rle_block_result [OF d]
    with True have b: "b" by simp
    let ?m2 = "append_luma_block h blk m1"
    have inv1: "loop_inv h m0 64 2 k pos fin m1" using Suc.prems(2) r by (simp add: loop_inv_blocks)
    then have "64 * k \<le> 32 * (unat fin + 1)" using paced_done [of 2 k pos fin] by (simp add: loop_inv_def)
    then have sz: "output_size m1 \<le> output_cap m1" "unat (output_size m1) + 64 \<le> 2 ^ 31"
      using inv1 assms(3) by (simp_all add: loop_inv_def)
    have inv2: "loop_inv h m0 64 2 (Suc k) p1 fin (?m2\<lparr>decode_macroblocks := decode_macroblocks ?m2 + 1\<rparr>)"
      by (rule loop_inv_step [OF inv1 append_luma_appended [OF sz]])
        (use r b True in \<open>auto simp: word_less_nat_alt word_le_nat_alt\<close>)
    show ?thesis
      by (rule Suc.IH [OF _ inv2]) (use Suc.prems r b d True in \<open>auto simp: Let_def\<close>)
  qed
qed

lemma decode_color_inv:
  assumes "decode_color h n pos fin m = (pos', m')" "loop_inv h m0 (mb_size m0) 12 k pos fin m"
    and "unat fin \<le> 0x1FFFE" "unat fin \<le> unat pos + n" "\<not> output_depth m0 < 2"
  shows "\<exists>k'. loop_inv h m0 (mb_size m0) 12 k' pos' fin m' \<and> pos' = fin"
  using assms(1,2,4)
proof (induction n arbitrary: pos m k)
  case 0
  then have "pos' = fin" by (auto simp: loop_inv_def paced_def word_le_nat_alt word_unat_eq_iff)
  then show ?case using 0 by auto
next
  case (Suc n)
  let ?u = "mb_size m0"
  have depth: "output_depth m = output_depth m0" using Suc.prems(2) by (simp add: loop_inv_def core_def)
  show ?case
  proof (cases "pos < fin")
    case False
    then have "pos' = fin" "m' = m" using Suc.prems by (auto simp: loop_inv_def paced_def)
    then show ?thesis using Suc.prems(1,2) False by auto
  next
    case True
    obtain blks p1 m1 where d: "decode_run [uv_quant m, uv_quant m, y_quant m, y_quant m, y_quant m, y_quant m] pos fin m
        = (blks, p1, m1)" by (metis prod_cases3)
    note r = decode_run_result [OF d less_imp_le [OF True]]
    then obtain x where m1: "m1 = m\<lparr>decode_blocks := x\<rparr>" by blast
    have inv1: "loop_inv h m0 ?u 12 k pos fin m1" using Suc.prems(2) by (simp add: m1 loop_inv_blocks)
    show ?thesis
    proof (cases "length blks < 6")
      case short: True
      then have "pos' = fin" "m' = m1\<lparr>decode_stop_reason := 2 + of_nat (length blks)\<rparr>"
        using Suc.prems(1) d r True by auto
      moreover have "paced 12 k fin fin" using inv1 True by (auto simp: loop_inv_def paced_def word_less_nat_alt)
      ultimately have "loop_inv h m0 ?u 12 k pos' fin m'" using inv1 by (simp add: loop_inv_def)
      then show ?thesis using \<open>pos' = fin\<close> by auto
    next
      case False
      with r have six: "length blks = 6" by simp
      let ?m2 = "append_color_macroblock h (blks ! 0) (blks ! 1) (\<lambda>i. blks ! (2 + i)) m1"
      have "12 * k \<le> unat fin + 1" using inv1 paced_done [of 12 k pos fin] by (simp add: loop_inv_def)
      moreover have "unat (output_size m1) \<le> ?u * k" using inv1 by (simp add: loop_inv_def)
      then have "unat (output_size m1) \<le> 768 * k"
        by (rule order_trans) (simp add: mb_size_def)
      ultimately have "unat (output_size m1) + 768 \<le> 2 ^ 31" using assms(3) by simp
      then have sz: "output_size m1 \<le> output_cap m1" "unat (output_size m1) + 768 \<le> 2 ^ 31"
        using inv1 assms(3) by (simp_all add: loop_inv_def)
      have "mb_size m1 = ?u" using depth by (simp add: m1 mb_size_def)
      then have app: "appended h ?u m1 ?m2"
        using append_color_appended [OF sz] assms(5) depth by (simp add: m1)
      have inv2: "loop_inv h m0 ?u 12 (Suc k) p1 fin (?m2\<lparr>decode_macroblocks := decode_macroblocks ?m2 + 1\<rparr>)"
        by (rule loop_inv_step [OF inv1 app])
          (use r six True in \<open>auto simp: word_less_nat_alt word_le_nat_alt\<close>)
      have "unat fin \<le> unat p1 + n" using r six True Suc.prems(3) by (auto simp: word_le_nat_alt)
      then show ?thesis
        by (intro Suc.IH [OF _ inv2]) (use Suc.prems(1) d True False in \<open>auto simp: Let_def\<close>)
    qed
  qed
qed

definition decode_start :: "mdec \<Rightarrow> mdec" where
  "decode_start m = (clear_output (m\<lparr>decode_count := decode_count m + 1\<rparr>))\<lparr>decode_macroblocks := 0,
     decode_blocks := 0, decode_stop_reason := 0, decode_input_pos := 0,
     decode_input_end := input_count m, dma_out_words := 0, dma_read_underflows := 0\<rparr>"

lemma decode_start_inv: "loop_inv h (decode_start m) u d 0 0 (input_count m) (decode_start m)"
  by (simp add: loop_inv_def decode_start_def clear_output_def paced_def)

lemma decode_start_sel:
  "command (decode_start m) = command m" "expected_halfwords (decode_start m) = expected_halfwords m"
  "input_count (decode_start m) = input_count m" "input (decode_start m) = input m"
  "input_cap (decode_start m) = input_cap m" "output_pos (decode_start m) = 0"
  "output_depth (decode_start m) = output_depth m" "busy (decode_start m) = busy m"
  by (simp_all add: decode_start_def clear_output_def)

lemma execute_decode_loop:
  assumes "unat (input_count m) \<le> 0x1FFFE"
  shows "\<exists>k. let m' = execute_decode h m in
    core m' = core (decode_start m) \<and> decode_input_pos m' = input_count m
    \<and> decode_macroblocks m' = of_nat k \<and> output_size m' \<le> output_cap m'
    \<and> unat (output_size m') \<le> mb_size m * k
    \<and> (if output_depth m < 2 then 2 else 12) * k \<le> unat (input_count m) + 1
    \<and> ((\<forall>n. h_alloc h n) \<longrightarrow> output_size m' = of_nat (mb_size m * k))"
proof -
  let ?m0 = "decode_start m" and ?fin = "input_count m"
  have fin: "unat ?fin \<le> unat (0 :: u32) + unat ?fin" by simp
  show ?thesis
  proof (cases "output_depth m < 2")
    case True
    obtain p m1 where d: "decode_luma h (unat ?fin) 0 ?fin ?m0 = (p, m1)" by fastforce
    from decode_luma_inv [OF d decode_start_inv assms fin] obtain k where
      k: "loop_inv h ?m0 64 2 k p ?fin m1" "p = ?fin" by blast
    have "execute_decode h m = trace_event h MDEC_EVT_DECODE_DONE (output_size m1)
        (m1\<lparr>decode_stop_reason := (if p \<ge> ?fin then 1 else 4), decode_input_pos := p\<rparr>)"
      using True d by (simp add: execute_decode_def Let_def clear_output_def decode_start_def)
    moreover have "mb_size m = 64" using True by (simp add: mb_size_def)
    ultimately show ?thesis
      using k paced_done [of 2 k ?fin ?fin] True by (intro exI [of _ k]) (simp add: loop_inv_def Let_def)
  next
    case False
    obtain p m1 where d: "decode_color h (unat ?fin) 0 ?fin ?m0 = (p, m1)" by fastforce
    have "\<not> output_depth ?m0 < 2" using False by (simp add: decode_start_sel)
    from decode_color_inv [OF d decode_start_inv assms fin this] obtain k where
      k: "loop_inv h ?m0 (mb_size ?m0) 12 k p ?fin m1" "p = ?fin" by blast
    define m2 where "m2 = (if p \<ge> ?fin \<and> decode_stop_reason m1 = 0 then m1\<lparr>decode_stop_reason := 1\<rparr> else m1)"
    have "execute_decode h m = trace_event h MDEC_EVT_DECODE_DONE (output_size m2)
        (m2\<lparr>decode_input_pos := p, color_frame := h_frame h, color_cycle := h_cycle h\<rparr>)"
      using False d by (simp add: execute_decode_def Let_def clear_output_def decode_start_def m2_def)
    moreover have "mb_size ?m0 = mb_size m" by (simp add: mb_size_def decode_start_sel)
    moreover have "core (m2\<lparr>decode_input_pos := p, color_frame := h_frame h, color_cycle := h_cycle h\<rparr>) = core m1"
      by (simp add: m2_def core_def)
    ultimately show ?thesis
      using k paced_done [of 12 k ?fin ?fin] False
      by (intro exI [of _ k]) (simp add: loop_inv_def Let_def m2_def)
  qed
qed

lemma decode_result:
  assumes "unat (input_count m) \<le> 0x1FFFE"
  shows "decode_input_pos (execute_decode h m) = input_count m
    \<and> output_size (execute_decode h m) \<le> output_cap (execute_decode h m)
    \<and> output_size (execute_decode h m) \<le> MDEC_SNAP_OUTPUT_MAX
    \<and> ((\<forall>n. h_alloc h n) \<longrightarrow> unat (output_size (execute_decode h m))
         = mb_size m * unat (decode_macroblocks (execute_decode h m)))"
proof -
  let ?m = "execute_decode h m"
  obtain k where k: "decode_input_pos ?m = input_count m" "decode_macroblocks ?m = of_nat k"
    "output_size ?m \<le> output_cap ?m" "unat (output_size ?m) \<le> mb_size m * k"
    "(if output_depth m < 2 then 2 else 12) * k \<le> unat (input_count m) + 1"
    "(\<forall>n. h_alloc h n) \<longrightarrow> output_size ?m = of_nat (mb_size m * k)"
    using execute_decode_loop [OF assms, of h] by (auto simp: Let_def)
  have bound: "mb_size m * k \<le> 0x800000"
    using k(5) assms by (auto simp: mb_size_def split: if_splits)
  have "k \<le> 0x1FFFF" using k(5) assms by (simp split: if_splits)
  then have "unat (of_nat k :: u32) = k" by (simp add: unsigned_of_nat take_bit_nat_eq_self)
  moreover have "unat (of_nat (mb_size m * k) :: u32) = mb_size m * k"
    using bound by (simp add: unsigned_of_nat take_bit_nat_eq_self del: of_nat_mult)
  moreover have "output_size ?m \<le> MDEC_SNAP_OUTPUT_MAX"
    using bound k(4) by (simp add: word_le_nat_alt)
  ultimately show ?thesis using k by auto
qed

text \<open>
  What a decode leaves: it always consumes the whole input, and, when memory is granted, puts
  out exactly one unit (64 bytes of luma, 512 or 768 bytes of colour) for every block or macroblock
  it counts. However short the blocks, the output stays within its allocation and within the 8 MiB
  a snapshot accepts.
\<close>

theorem decode_accounting:
  assumes "unat (input_count m) \<le> 0x1FFFE"
  shows "decode_input_pos (execute_decode h m) = input_count m
    \<and> output_size (execute_decode h m) \<le> output_cap (execute_decode h m)
    \<and> output_size (execute_decode h m) \<le> MDEC_SNAP_OUTPUT_MAX
    \<and> ((\<forall>n. h_alloc h n) \<longrightarrow> unat (output_size (execute_decode h m))
         = mb_size m * unat (decode_macroblocks (execute_decode h m)))"
  by (rule decode_result [OF assms])

subsection \<open>The input side\<close>

lemma finish_command_ok: "out_ok m \<Longrightarrow> mdec_ok (finish_command h m)"
  by (simp add: finish_command_def Let_def mdec_ok_def in_ok_def out_ok_def)

lemma execute_decode_out:
  assumes "in_ok m"
  shows "out_ok (execute_decode h m)"
proof -
  have n: "unat (input_count m) \<le> 0x1FFFE"
    using assms by (auto simp: in_ok_def word_le_nat_alt)
  obtain k where "core (execute_decode h m) = core (decode_start m)"
    using execute_decode_loop [OF n, of h] by (auto simp: Let_def)
  then have "output_pos (execute_decode h m) = 0"
    by (simp add: core_def decode_start_sel)
  then show ?thesis using decode_result [OF n, of h] by (simp add: out_ok_def)
qed

lemma load_frames:
  "out_ok (load_quant m) = out_ok m" "out_ok (load_scale m) = out_ok m"
  by (simp_all add: load_quant_def load_scale_def Let_def out_ok_def)

lemma execute_command_ok: "mdec_ok m \<Longrightarrow> mdec_ok (execute_command h m)"
  unfolding execute_command_def Let_def
  by (rule finish_command_ok) (simp add: mdec_ok_def execute_decode_out load_frames)

lemma ucast_low2_bound: "unat (val AND 0xFFFF :: u32) \<le> 0xFFFF"
proof -
  have "(0xFFFF :: u32) = mask 16" by (simp add: mask_eq_exp_minus_1)
  then have "unat (val AND 0xFFFF) < 2 ^ 16" by (simp only: unat_and_mask_less)
  then show ?thesis by simp
qed

lemma expected_for_bound: "unat (expected_for val) \<le> 0x1FFFE"
proof -
  have "unat ((val AND 0xFFFF) * 2) = 2 * unat (val AND 0xFFFF)"
    using ucast_low2_bound [of val] by (intro unat_double) simp
  then show ?thesis using ucast_low2_bound [of val] by (simp add: expected_for_def Let_def)
qed

lemma begin_command_ok:
  assumes "mdec_ok m"
  shows "mdec_ok (begin_command h val m)"
proof -
  define m1 where "m1 = m\<lparr>command := val, output_bit15 := ucast (drop_bit 25 val AND 1),
      output_signed := ucast (drop_bit 26 val AND 1), output_depth := ucast (drop_bit 27 val AND 3),
      current_block := 4, input_count := 0, input_full := 0, busy := 1,
      expected_halfwords := expected_for val\<rparr>"
  have o1: "out_ok m1" using assms by (simp add: m1_def mdec_ok_def out_ok_def)
  obtain b m2 where e: "ensure_input_capacity h (expected_for val) m1 = (b, m2)" by fastforce
  have b: "unat (expected_for val) \<le> 2 ^ 31" using expected_for_bound [of val] by simp
  note r = ensure_input_result [OF e b]
  have eq: "begin_command h val m = (if expected_for val = 0 then finish_command h m1
      else if b then trace_event h MDEC_EVT_CMD_BEGIN val m2 else finish_command h m2)"
    using e by (simp add: begin_command_def Let_def m1_def split: bool.splits)
  obtain c where m2: "m2 = m1\<lparr>input_cap := c\<rparr>" "b \<longrightarrow> expected_for val \<le> c"
    using r by (metis mdec.select_convs(5) mdec.update_convs(5) mdec.surjective)
  have o2: "out_ok m2" using o1 by (simp add: m2 out_ok_def)
  have "in_ok m2" if b
    using m2(2) that expected_for_bound [of val] by (simp add: m2(1) in_ok_def m1_def)
  then show ?thesis
    using eq o2 finish_command_ok [OF o1, of h] finish_command_ok [OF o2, of h] by (auto simp: mdec_ok_def)
qed

text \<open>A word pushed while collecting lands inside the allocation.\<close>

lemma count_Suc: "input_count m < expected_halfwords m \<Longrightarrow> in_ok m \<Longrightarrow> unat (input_count m + 1) = unat (input_count m) + 1"
  unfolding in_ok_def by (simp add: unat_word_ariths(1) word_less_nat_alt)

lemma push_half_ok:
  assumes "input_count m < expected_halfwords m" "in_ok m"
  shows "in_ok (push_half hw m)" "unat (input_count m) < unat (input_cap m)"
  using assms count_Suc [OF assms]
  by (auto simp: push_half_def in_ok_def word_less_nat_alt word_le_nat_alt)

lemma push_half_sel [simp]:
  "expected_halfwords (push_half hw m) = expected_halfwords m" "busy (push_half hw m) = busy m"
  "output_pos (push_half hw m) = output_pos m" "output_size (push_half hw m) = output_size m"
  "output_cap (push_half hw m) = output_cap m" "input_cap (push_half hw m) = input_cap m"
  "input_count (push_half hw m) = input_count m + 1" "out_ok (push_half hw m) = out_ok m"
  by (simp_all add: push_half_def out_ok_def)

lemma push_word_sel [simp]:
  "expected_halfwords (push_word w m) = expected_halfwords m" "busy (push_word w m) = busy m"
  "output_pos (push_word w m) = output_pos m" "output_size (push_word w m) = output_size m"
  "out_ok (push_word w m) = out_ok m"
  by (simp_all add: push_word_def Let_def)

lemma push_word_ok: "collecting m \<Longrightarrow> in_ok m \<Longrightarrow> in_ok (push_word w m)"
  by (auto simp: collecting_def push_word_def Let_def push_half_ok)

lemma write_data_ok:
  assumes "mdec_ok m"
  shows "mdec_ok (write_data h val m)"
proof (cases "collecting m")
  case True
  then have "mdec_ok (push_word val m)" using assms by (simp add: mdec_ok_def push_word_ok)
  then show ?thesis using True by (simp add: write_data_def Let_def execute_command_ok)
next
  case False
  then show ?thesis using assms by (simp add: write_data_def begin_command_ok)
qed

lemma soft_reset_ok: "mdec_ok (soft_reset m)"
  by (simp add: soft_reset_def mdec_ok_def in_ok_def out_ok_def)

lemma mdec_init_ok: "mdec_ok (mdec_init m)"
  by (simp add: mdec_init_def soft_reset_def mdec_ok_def in_ok_def out_ok_def)

lemma enable_ok: "mdec_ok (m\<lparr>enable_dma_in := a, enable_dma_out := b\<rparr>) = mdec_ok m"
  by (simp add: mdec_ok_def in_ok_def out_ok_def)

lemma trace_event_mdec_ok [simp]: "mdec_ok (trace_event h k v m) = mdec_ok m"
  by (simp add: mdec_ok_def)

lemma mdec_write_ok: "mdec_ok m \<Longrightarrow> mdec_ok (mdec_write h addr val m)"
  by (simp add: mdec_write_def Let_def write_data_ok enable_ok soft_reset_ok)

subsection \<open>Bursts are words\<close>

fun feed_words :: "mdec_host \<Rightarrow> u32 list \<Rightarrow> mdec \<Rightarrow> nat \<times> mdec" where
  "feed_words h [] m = (0, m)"
| "feed_words h (w # ws) m =
     (if mdec_dma_write_ready m
      then let (k, m') = feed_words h ws (mdec_dma_write_word h w m) in (Suc k, m')
      else (0, m))"

lemma need_words_half:
  assumes "collecting m" "in_ok m"
  shows "need_words m = (unat (expected_halfwords m) - unat (input_count m) + 1) div 2"
proof -
  have d: "unat (expected_halfwords m - input_count m) = unat (expected_halfwords m) - unat (input_count m)"
    using assms(1) by (simp add: collecting_def unat_sub word_less_nat_alt word_le_nat_alt)
  have "unat (expected_halfwords m) \<le> 0x1FFFE" using assms(2) by (simp add: in_ok_def)
  then have "unat (expected_halfwords m - input_count m + 1) = unat (expected_halfwords m) - unat (input_count m) + 1"
    using d by (simp add: unat_word_ariths(1))
  then show ?thesis by (simp add: need_words_def unat_div)
qed

lemma push_word_collecting:
  assumes "collecting m" "in_ok m" "1 < need_words m"
  shows "collecting (push_word w m)" "need_words (push_word w m) = need_words m - 1"
proof -
  let ?e = "unat (expected_halfwords m)" and ?c = "unat (input_count m)"
  have lt: "input_count m < expected_halfwords m" "busy m \<noteq> 0" using assms(1) by (simp_all add: collecting_def)
  have n: "1 < (?e - ?c + 1) div 2" using assms need_words_half [OF assms(1,2)] by simp
  have c1: "unat (input_count m + 1) = ?c + 1" using lt assms(2) by (intro count_Suc)
  then have "input_count (push_half (ucast w) m) < expected_halfwords (push_half (ucast w) m)"
    using n by (simp add: word_less_nat_alt)
  moreover have "in_ok (push_half (ucast w) m)" using lt assms(2) by (simp add: push_half_ok)
  ultimately have c2: "unat (input_count m + 1 + 1) = ?c + 2"
    using count_Suc [of "push_half (ucast w) m"] c1 by simp
  have pw: "input_count (push_word w m) = input_count m + 1 + 1"
    using n c1 by (simp add: push_word_def Let_def word_less_nat_alt)
  show col: "collecting (push_word w m)"
    using lt n c2 unfolding collecting_def word_less_nat_alt by (simp add: pw)
  show "need_words (push_word w m) = need_words m - 1"
    using need_words_half [OF col push_word_ok [OF assms(1,2)]] need_words_half [OF assms(1,2)] c2 n
    by (simp add: pw) linarith
qed

lemma ready_collecting:
  "collecting m \<Longrightarrow> mdec_dma_write_ready m = (\<not> output_pos m < output_size m)"
  by (simp add: mdec_dma_write_ready_def collecting_def)

text \<open>While more words are needed than are fed, the fill is a run of single writes.\<close>

lemma fill_is_feed:
  assumes "collecting m" "in_ok m" "mdec_dma_write_ready m" "ws \<noteq> []" "length ws \<le> need_words m"
  shows "feed_words h (ws @ rest) m =
     (let m' = fill_words ws m;
          m' = (if input_count m' \<ge> expected_halfwords m' then execute_command h m' else m');
          (k, m'') = feed_words h rest m'
      in (length ws + k, m''))"
  using assms
proof (induction ws arbitrary: m)
  case (Cons w ws)
  have out: "\<not> output_pos m < output_size m" using Cons.prems by (simp add: ready_collecting)
  show ?case
  proof (cases ws)
    case Nil
    then show ?thesis
      using Cons.prems by (simp add: fill_words_def mdec_dma_write_word_def write_data_def Let_def)
  next
    case (Cons v vs)
    then have more: "1 < need_words m" using Cons.prems(5) by simp
    note pc = push_word_collecting [OF Cons.prems(1,2) more, of w]
    have rdy: "mdec_dma_write_ready (push_word w m)" using out pc(1) by (simp add: ready_collecting)
    have "mdec_dma_write_word h w m = push_word w m"
      using Cons.prems(1) pc(1) by (simp add: mdec_dma_write_word_def write_data_def Let_def collecting_def)
    moreover have "fill_words (w # ws) m = fill_words ws (push_word w m)" by (simp add: fill_words_def)
    ultimately show ?thesis
      using Cons.IH [OF pc(1) push_word_ok [OF Cons.prems(1,2)] rdy] Cons Cons.prems(3,5) pc(2)
      by (auto simp: Let_def split: prod.splits)
  qed
qed simp

lemma fill_words_out:
  "out_ok (fill_words ws m) = out_ok m" "expected_halfwords (fill_words ws m) = expected_halfwords m"
  "busy (fill_words ws m) = busy m"
  by (induction ws arbitrary: m) (simp_all add: fill_words_def)

lemma fill_words_ok:
  assumes "collecting m" "in_ok m" "length ws \<le> need_words m"
  shows "in_ok (fill_words ws m)"
  using assms
proof (induction ws arbitrary: m)
  case (Cons w ws)
  have ok: "in_ok (push_word w m)" using Cons.prems by (simp add: push_word_ok)
  show ?case
  proof (cases ws)
    case Nil
    then show ?thesis using ok by (simp add: fill_words_def)
  next
    case (Cons v vs)
    then have "1 < need_words m" using Cons.prems(3) by simp
    from push_word_collecting [OF Cons.prems(1,2) this, of w]
    have "in_ok (fill_words ws (push_word w m))"
      using Cons.IH [OF _ ok] Cons.prems(3) by simp
    then show ?thesis by (simp add: fill_words_def)
  qed
qed (simp add: fill_words_def)

lemma burst_stop:
  "src = [] \<or> \<not> mdec_dma_write_ready m \<Longrightarrow> mdec_dma_write_words h src m = Some (0, m)"
  by (subst mdec_dma_write_words.simps) (simp only: if_True)

lemma burst_single:
  assumes "mdec_dma_write_ready m" "\<not> collecting m"
    and "mdec_dma_write_words h ws (write_data h w m) = Some (k, m')"
  shows "mdec_dma_write_words h (w # ws) m = Some (Suc k, m')"
  using assms by (subst mdec_dma_write_words.simps) simp

lemma burst_batch:
  assumes "src \<noteq> []" "mdec_dma_write_ready m" "collecting m"
    and "n = min (length src) (need_words m)" "n \<noteq> 0" "m1 = fill_words (take n src) m"
    and "m2 = (if input_count m1 \<ge> expected_halfwords m1 then execute_command h m1 else m1)"
    and "mdec_dma_write_words h (drop n src) m2 = Some (k, m')"
  shows "mdec_dma_write_words h src m = Some (n + k, m')"
proof -
  have "min (length src) (need_words m) = n" using assms(4) by simp
  then show ?thesis
    using assms(1-3,5,8) unfolding assms(7) assms(6)
    by (subst mdec_dma_write_words.simps) (simp add: Let_def)
qed

lemma burst_words:
  assumes "mdec_ok m"
  shows "mdec_dma_write_words h src m = Some (feed_words h src m)"
  using assms
proof (induction "length src" arbitrary: src m rule: less_induct)
  case less
  show ?case
  proof (cases "src = [] \<or> \<not> mdec_dma_write_ready m")
    case True
    then show ?thesis by (cases src) (auto simp: burst_stop)
  next
    case go: False
    then obtain w ws where src: "src = w # ws" by (cases src) auto
    show ?thesis
    proof (cases "collecting m")
      case False
      obtain k m' where f: "feed_words h ws (write_data h w m) = (k, m')" by fastforce
      have "mdec_dma_write_words h ws (write_data h w m) = Some (k, m')"
        using less.hyps [of ws "write_data h w m"] less.prems src f by (simp add: write_data_ok)
      from burst_single [OF _ False this] show ?thesis
        using go src f by (simp add: mdec_dma_write_word_def)
    next
      case True
      define n where "n = min (length src) (need_words m)"
      have ok: "in_ok m" using less.prems by (simp add: mdec_ok_def)
      have "0 < need_words m"
        using need_words_half [OF True ok] True by (simp add: collecting_def word_less_nat_alt)
      then have n: "n \<noteq> 0" "n \<le> length src" "n \<le> need_words m" "take n src \<noteq> []"
        using src by (simp_all add: n_def)
      define m1 where "m1 = fill_words (take n src) m"
      define m2 where "m2 = (if input_count m1 \<ge> expected_halfwords m1 then execute_command h m1 else m1)"
      have "mdec_ok m1"
        using less.prems True ok n(3) by (simp add: m1_def mdec_ok_def fill_words_out fill_words_ok)
      then have ok2: "mdec_ok m2" by (simp add: m2_def execute_command_ok)
      obtain k m' where f: "feed_words h (drop n src) m2 = (k, m')" by fastforce
      have rest: "mdec_dma_write_words h (drop n src) m2 = Some (k, m')"
        using less.hyps [OF _ ok2, of "drop n src"] n f by simp
      have "feed_words h (take n src @ drop n src) m = (n + k, m')"
        using fill_is_feed [OF True ok _ n(4), of h "drop n src"] n go f
        by (simp add: m1_def [symmetric] Let_def m2_def [symmetric])
      then show ?thesis
        using burst_batch [OF _ _ True n_def n(1) m1_def m2_def rest] go by simp
    qed
  qed
qed

text \<open>
  Bursts: feeding a run of words through the DMA burst, with its batched filling and its single
  test per batch, returns, moves as many words, and leaves the decoder exactly as feeding them one
  by one while it is ready does.
\<close>

theorem mdec_burst_is_words:
  assumes "mdec_ok m"
  shows "mdec_dma_write_words h src m = Some (feed_words h src m)"
  by (rule burst_words [OF assms])

subsection \<open>The output side is a byte queue\<close>

definition out_bytes :: "mdec \<Rightarrow> u8 list" where
  "out_bytes m = map (outb m) [unat (output_pos m)..<unat (output_size m)]"

lemma out_bytes_trace [simp]: "out_bytes (trace_event h k v m) = out_bytes m"
  by (simp add: out_bytes_def)

lemma read_out_byte_step:
  assumes "output_pos m \<le> output_size m"
  shows "read_out_byte (v, m) i =
    (if out_bytes m = [] then (v, m)
     else (v OR push_bit (i * 8) (ucast (hd (out_bytes m))), m\<lparr>output_pos := output_pos m + 1\<rparr>))"
  using assms
  by (auto simp: read_out_byte_def out_byte_def out_bytes_def word_less_nat_alt word_le_nat_alt upt_conv_Cons)

lemma out_bytes_pos_Suc:
  assumes "output_pos m \<le> output_size m" "out_bytes m \<noteq> []"
  shows "out_bytes (m\<lparr>output_pos := output_pos m + 1\<rparr>) = tl (out_bytes m)"
    and "output_pos m + 1 \<le> output_size m"
proof -
  have lt: "unat (output_pos m) < unat (output_size m)" using assms(2) by (simp add: out_bytes_def)
  note s = unat_pos_Suc [OF lt]
  show "out_bytes (m\<lparr>output_pos := output_pos m + 1\<rparr>) = tl (out_bytes m)"
    using lt s by (simp add: out_bytes_def upt_conv_Cons)
  show "output_pos m + 1 \<le> output_size m" using lt s by (simp add: word_le_nat_alt)
qed

text \<open>The byte loop takes what there is, up to the four bytes.\<close>

definition le_word :: "u8 list \<Rightarrow> u32" where
  "le_word bs = foldr (\<lambda>b w. ucast b OR push_bit 8 w) bs 0"

lemma le_word_simps [simp]:
  "le_word [] = 0" "le_word (b # bs) = ucast b OR push_bit 8 (le_word bs)"
  by (simp_all add: le_word_def)

lemma read_out_bytes:
  assumes "output_pos m \<le> output_size m"
  shows "\<exists>m'. foldl read_out_byte (v, m) [k..<k + n] =
      (v OR push_bit (k * 8) (le_word (take n (out_bytes m))), m')
      \<and> out_bytes m' = drop n (out_bytes m) \<and> output_pos m' \<le> output_size m'
      \<and> (\<exists>p. m' = m\<lparr>output_pos := p\<rparr>)"
  using assms
proof (induction n arbitrary: v m k)
  case 0
  have "m = m\<lparr>output_pos := output_pos m\<rparr>" by simp
  then have "\<exists>p. m = m\<lparr>output_pos := p\<rparr>" ..
  then show ?case using 0 by simp
next
  case (Suc n)
  have upt: "[k..<k + Suc n] = k # [Suc k..<Suc k + n]" by (simp add: upt_conv_Cons del: upt_Suc)
  show ?case
  proof (cases "out_bytes m = []")
    case True
    then have "foldl read_out_byte (v, m) [k..<k + Suc n] = foldl read_out_byte (v, m) [Suc k..<Suc k + n]"
      unfolding upt by (simp add: read_out_byte_step [OF Suc.prems])
    then show ?thesis using Suc.IH [OF Suc.prems, of v "Suc k"] True by (simp del: upt_Suc)
  next
    case False
    then obtain b bs where b: "out_bytes m = b # bs" by (cases "out_bytes m") auto
    let ?m = "m\<lparr>output_pos := output_pos m + 1\<rparr>" and ?v = "v OR push_bit (k * 8) (ucast b)"
    have t: "out_bytes ?m = bs" "output_pos ?m \<le> output_size ?m"
      using out_bytes_pos_Suc [OF Suc.prems False] b by simp_all
    have "foldl read_out_byte (v, m) [k..<k + Suc n] = foldl read_out_byte (?v, ?m) [Suc k..<Suc k + n]"
      unfolding upt using b by (simp add: read_out_byte_step [OF Suc.prems])
    moreover obtain m' p where m': "foldl read_out_byte (?v, ?m) [Suc k..<Suc k + n] =
        (?v OR push_bit (Suc k * 8) (le_word (take n bs)), m')"
      "out_bytes m' = drop n bs" "output_pos m' \<le> output_size m'" "m' = ?m\<lparr>output_pos := p\<rparr>"
      using Suc.IH [OF t(2), of ?v "Suc k"] unfolding t(1) by auto
    moreover have "?v OR push_bit (Suc k * 8) (le_word (take n bs)) =
        v OR push_bit (k * 8) (le_word (take (Suc n) (out_bytes m)))"
      by (simp add: b push_bit_or push_bit_push_bit or.assoc ac_simps)
    moreover have "m' = m\<lparr>output_pos := p\<rparr>" by (simp add: m'(4))
    ultimately show ?thesis using b by auto
  qed
qed

lemma out_bytes_nth:
  "i < length (out_bytes m) \<Longrightarrow> out_bytes m ! i = outb m (unat (output_pos m) + i)"
  by (simp add: out_bytes_def)

lemma out_bytes_length: "length (out_bytes m) = unat (output_size m) - unat (output_pos m)"
  by (simp add: out_bytes_def)

lemma take_4: "4 \<le> length xs \<Longrightarrow> take 4 xs = [xs ! 0, xs ! 1, xs ! 2, xs ! 3]"
  by (rule nth_equalityI) (auto simp: less_Suc_eq numeral_eq_Suc)

text \<open>The two branches of the read: four bytes at once, or the byte loop.\<close>

definition read_core :: "mdec \<Rightarrow> u32 \<times> mdec" where
  "read_core m =
     (if (if output_pos m < output_size m then output_size m - output_pos m else 0) \<ge> 4
      then (ucast (outb m (unat (output_pos m))) OR push_bit 8 (ucast (outb m (unat (output_pos m) + 1)))
              OR push_bit 16 (ucast (outb m (unat (output_pos m) + 2)))
              OR push_bit 24 (ucast (outb m (unat (output_pos m) + 3))),
            m\<lparr>output_pos := output_pos m + 4\<rparr>)
      else foldl read_out_byte (0, m) [0..<4])"

lemma read_core_result:
  assumes "output_pos m \<le> output_size m"
  shows "\<exists>m' p. read_core m = (le_word (take 4 (out_bytes m)), m')
      \<and> out_bytes m' = drop 4 (out_bytes m) \<and> output_pos m' \<le> output_size m' \<and> m' = m\<lparr>output_pos := p\<rparr>"
proof (cases "4 \<le> length (out_bytes m)")
  case True
  then have l: "unat (output_pos m) + 4 \<le> unat (output_size m)" by (simp add: out_bytes_length)
  then have s4: "unat (output_pos m + 4) = unat (output_pos m) + 4"
    using unat_u32_less [of "output_size m"] by (simp add: unat_word_ariths(1))
  have "unat (output_size m - output_pos m) = unat (output_size m) - unat (output_pos m)"
    using assms by (simp add: unat_sub)
  then have c: "output_pos m < output_size m" "output_size m - output_pos m \<ge> 4"
    using l by (simp_all add: word_less_nat_alt word_le_nat_alt)
  have nth: "out_bytes m ! i = outb m (unat (output_pos m) + i)" if "i < 4" for i
    using True that by (simp add: out_bytes_nth)
  have "le_word (take 4 (out_bytes m)) = ucast (outb m (unat (output_pos m)))
      OR push_bit 8 (ucast (outb m (unat (output_pos m) + 1)))
      OR push_bit 16 (ucast (outb m (unat (output_pos m) + 2)))
      OR push_bit 24 (ucast (outb m (unat (output_pos m) + 3)))"
    using nth [of 0] nth [of 1] nth [of 2] nth [of 3] True
    by (simp only: take_4 le_word_simps) (simp add: push_bit_or or.assoc)
  moreover have "out_bytes (m\<lparr>output_pos := output_pos m + 4\<rparr>) = drop 4 (out_bytes m)"
    by (simp add: out_bytes_def s4 drop_map)
  moreover have "output_pos m + 4 \<le> output_size m" using l s4 by (simp add: word_le_nat_alt)
  ultimately show ?thesis using c by (auto simp: read_core_def)
next
  case False
  have "\<not> 4 \<le> (if output_pos m < output_size m then output_size m - output_pos m else 0)"
  proof (cases "output_pos m < output_size m")
    case True
    have "unat (output_size m - output_pos m) = length (out_bytes m)"
      using assms by (simp add: unat_sub out_bytes_length)
    then show ?thesis using True False by (simp add: word_le_nat_alt)
  qed simp
  then have "read_core m = foldl read_out_byte (0, m) [0..<0 + 4]" by (simp add: read_core_def)
  then show ?thesis using read_out_bytes [OF assms, of 0 0 4] by auto
qed

lemma clear_output_queue [simp]: "out_bytes (clear_output m) = []" "out_ok (clear_output m)"
  by (simp_all add: clear_output_def out_bytes_def out_ok_def)

lemma out_counters [simp]:
  "out_bytes (m\<lparr>dma_out_words := a\<rparr>) = out_bytes m" "out_ok (m\<lparr>dma_out_words := a\<rparr>) = out_ok m"
  "out_bytes (m\<lparr>dma_read_underflows := b\<rparr>) = out_bytes m" "out_ok (m\<lparr>dma_read_underflows := b\<rparr>) = out_ok m"
  by (simp_all add: out_bytes_def out_ok_def)

text \<open>The counters and the drain after the branches.\<close>

definition read_end :: "mdec_host \<Rightarrow> u32 \<Rightarrow> mdec \<Rightarrow> mdec" where
  "read_end h start m =
     (let m = m\<lparr>dma_out_words := dma_out_words m + 1\<rparr>;
          m = (if start \<ge> output_size m
               then let m = m\<lparr>dma_read_underflows := dma_read_underflows m + 1\<rparr>
                    in if dma_read_underflows m = 1
                       then trace_event h MDEC_EVT_READ_UNDERFLOW (dma_out_words m) m else m
               else m)
      in if output_pos m \<ge> output_size m
         then clear_output (trace_event h MDEC_EVT_OUTPUT_DRAINED (output_size m) m) else m)"

lemma read_word_split:
  "mdec_dma_read_word h m = (fst (read_core m), read_end h (output_pos m) (snd (read_core m)))"
  by (simp add: mdec_dma_read_word_def read_core_def read_end_def Let_def split: prod.splits)

lemma out_bytes_empty: "output_size m \<le> output_pos m \<Longrightarrow> out_bytes m = []"
  by (simp add: out_bytes_def word_le_nat_alt)

lemma read_end_result:
  assumes "out_ok m"
  shows "out_bytes (read_end h s m) = out_bytes m \<and> out_ok (read_end h s m)"
  using assms by (simp add: read_end_def Let_def out_bytes_empty)

lemma read_word_queue:
  assumes "out_ok m"
  shows "\<exists>m'. mdec_dma_read_word h m = (le_word (take 4 (out_bytes m)), m')
    \<and> out_bytes m' = drop 4 (out_bytes m) \<and> out_ok m'"
proof -
  have "output_pos m \<le> output_size m" using assms by (simp add: out_ok_def)
  from read_core_result [OF this] obtain m' p where r:
    "read_core m = (le_word (take 4 (out_bytes m)), m')" "out_bytes m' = drop 4 (out_bytes m)"
    "output_pos m' \<le> output_size m'" "m' = m\<lparr>output_pos := p\<rparr>" by blast
  then have "out_ok m'" using assms by (simp add: out_ok_def)
  then show ?thesis
    using read_end_result [of m' h "output_pos m"] r(1,2) by (simp add: read_word_split)
qed

text \<open>
  The output FIFO refines a byte queue: a word read from it is its first four bytes in
  little-endian order, missing bytes zero, and what is left is the rest of the queue; the drained
  buffer is reset and stays consistent.
\<close>

theorem mdec_output_queue:
  assumes "out_ok m"
  shows "\<exists>m'. mdec_dma_read_word h m = (le_word (take 4 (out_bytes m)), m')
    \<and> out_bytes m' = drop 4 (out_bytes m) \<and> out_ok m'"
  by (rule read_word_queue [OF assms])

subsection \<open>Whatever the bus does\<close>

text \<open>
  What the bus and the DMA controller can ask of the decoder, each call with the frame, the cycle
  and the allocator it finds.
\<close>

datatype mdec_op =
    M_write u32 u32
  | M_read u32
  | M_dma_in "u32 list"
  | M_dma_out nat

definition mdec_apply :: "mdec_host \<Rightarrow> mdec_op \<Rightarrow> mdec \<Rightarrow> mdec option" where
  "mdec_apply h opn m =
     (case opn of
        M_write addr val \<Rightarrow> Some (mdec_write h addr val m)
      | M_read addr \<Rightarrow> Some (snd (mdec_read h addr m))
      | M_dma_in src \<Rightarrow> map_option snd (mdec_dma_write_words h src m)
      | M_dma_out n \<Rightarrow> Some (snd (mdec_dma_read_words h n m)))"

inductive mdec_reaches :: "mdec \<Rightarrow> bool" where
  start: "mdec_reaches (mdec_init m)"
| step: "mdec_reaches m \<Longrightarrow> mdec_apply h opn m = Some m' \<Longrightarrow> mdec_reaches m'"

lemma feed_words_ok: "mdec_ok m \<Longrightarrow> mdec_ok (snd (feed_words h src m))"
proof (induction src arbitrary: m)
  case (Cons w ws)
  have "mdec_ok (snd (feed_words h ws (write_data h w m)))" using Cons by (simp add: write_data_ok)
  then show ?case using Cons.prems by (auto simp: mdec_dma_write_word_def split: prod.splits)
qed simp

lemma read_word_in_ok: "in_ok (snd (mdec_dma_read_word h m)) = in_ok m"
proof -
  have f: "in_ok (m\<lparr>output_pos := a\<rparr>) = in_ok m" "in_ok (m\<lparr>dma_out_words := b\<rparr>) = in_ok m"
    "in_ok (m\<lparr>dma_read_underflows := b\<rparr>) = in_ok m" "in_ok (clear_output m) = in_ok m" for a b m
    by (simp_all add: in_ok_def clear_output_def)
  have "in_ok (snd (foldl read_out_byte (v, m) is)) = in_ok m" for v "is"
    by (induction "is" arbitrary: v m) (simp_all add: read_out_byte_def f)
  moreover have "in_ok (snd (read_core m)) = in_ok m" if "\<And>v is. in_ok (snd (foldl read_out_byte (v, m) is)) = in_ok m"
    using that by (simp add: read_core_def f)
  ultimately have "in_ok (snd (read_core m)) = in_ok m" by blast
  moreover have "in_ok (read_end h s m') = in_ok m'" for s m'
    by (simp add: read_end_def Let_def f)
  ultimately show ?thesis by (simp add: read_word_split)
qed

lemma read_word_ok:
  assumes "mdec_ok m"
  shows "mdec_ok (snd (mdec_dma_read_word h m))"
proof -
  have "out_ok m" using assms by (simp add: mdec_ok_def)
  from read_word_queue [OF this, of h] show ?thesis
    using assms read_word_in_ok [of h m] by (auto simp: mdec_ok_def)
qed

lemma read_words_ok: "mdec_ok m \<Longrightarrow> mdec_ok (snd (mdec_dma_read_words h n m))"
proof (induction n arbitrary: m)
  case (Suc n)
  obtain w m1 where r: "mdec_dma_read_word h m = (w, m1)" by fastforce
  then have "mdec_ok m1" using read_word_ok [OF Suc.prems, of h] by simp
  from Suc.IH [OF this] show ?case using Suc.prems r by (auto simp: Let_def split: prod.splits)
qed simp

lemma mdec_read_ok: "mdec_ok m \<Longrightarrow> mdec_ok (snd (mdec_read h addr m))"
proof -
  assume "mdec_ok m"
  moreover have "mdec_ok (m\<lparr>last_status := s\<rparr>) = mdec_ok m" for s by (simp add: mdec_ok_def in_ok_def out_ok_def)
  ultimately show ?thesis by (simp add: mdec_read_def Let_def read_word_ok)
qed

lemma mdec_apply_ok:
  assumes "mdec_ok m" "mdec_apply h opn m = Some m'"
  shows "mdec_ok m'"
proof (cases opn)
  case (M_dma_in src)
  then show ?thesis
    using assms burst_words [OF assms(1), of h src] feed_words_ok [OF assms(1), of h src]
    by (auto simp: mdec_apply_def simp del: mdec_dma_write_words.simps)
qed (use assms in \<open>auto simp: mdec_apply_def mdec_write_ok mdec_read_ok read_words_ok\<close>)

text \<open>
  C31. In every state reachable from power-on by register accesses and DMA in any order, with
  allocations failing as they like, both queues lie inside their allocations: the halfwords
  collected are fewer than the command wants, which the input buffer holds, and the read position is
  within the output, which the output buffer holds.
\<close>

theorem mdec_buffers_in_bounds:
  assumes "mdec_reaches m"
  shows "input_count m \<le> expected_halfwords m \<and> expected_halfwords m \<le> input_cap m
    \<and> output_pos m \<le> output_size m \<and> output_size m \<le> output_cap m"
proof -
  from assms have "mdec_ok m"
    by induction (auto simp: mdec_init_ok intro: mdec_apply_ok)
  then show ?thesis by (simp add: mdec_ok_def in_ok_def out_ok_def)
qed

subsection \<open>Commands complete\<close>

lemma execute_command_idle: "busy (execute_command h m) = 0" "input_count (execute_command h m) = 0"
  by (simp_all add: execute_command_def finish_command_def Let_def)

lemma fill_words_full:
  assumes "collecting m" "in_ok m" "length ws = need_words m"
  shows "input_count (fill_words ws m) \<ge> expected_halfwords (fill_words ws m)"
  using assms
proof (induction ws arbitrary: m)
  case Nil
  then show ?case
    using need_words_half [OF Nil(1,2)] by (simp add: collecting_def word_less_nat_alt div_eq_0_iff)
next
  case (Cons w ws)
  have split: "fill_words (w # ws) m = fill_words ws (push_word w m)" by (simp add: fill_words_def)
  show ?case
  proof (cases ws)
    case Nil
    let ?e = "unat (expected_halfwords m)" and ?c = "unat (input_count m)"
    have lt: "input_count m < expected_halfwords m" using Cons.prems(1) by (simp add: collecting_def)
    have n: "(?e - ?c + 1) div 2 = 1" using Cons.prems(3) Nil need_words_half [OF Cons.prems(1,2)] by (metis One_nat_def length_Cons list.size(3))
    have c1: "unat (input_count m + 1) = ?c + 1" using lt Cons.prems(2) by (rule count_Suc)
    have "input_count (push_word w m) \<ge> expected_halfwords m"
    proof (cases "input_count m + 1 < expected_halfwords m")
      case True
      have "in_ok (push_half (ucast w) m)" using lt Cons.prems(2) by (simp add: push_half_ok)
      then have "unat (input_count m + 1 + 1) = ?c + 2"
        using count_Suc [of "push_half (ucast w) m"] True c1 by simp
      then show ?thesis using True n c1 by (simp add: push_word_def Let_def word_le_nat_alt)
    next
      case False
      then show ?thesis by (auto simp: push_word_def Let_def not_less [symmetric])
    qed
    then show ?thesis using Nil by (simp add: fill_words_def)
  next
    case (Cons v vs)
    then have more: "1 < need_words m" using Cons.prems(3) by simp
    note pc = push_word_collecting [OF Cons.prems(1,2) more, of w]
    show ?thesis
      unfolding split
      by (rule Cons.IH [OF pc(1) push_word_ok [OF Cons.prems(1,2)]])
        (use Cons.prems(3) pc(2) in simp)
  qed
qed

text \<open>
  Liveness: once a command is collecting and the output is drained, feeding the number of words
  the status register reports as missing completes it: the burst takes all of them, and the decoder
  is idle again.
\<close>

theorem mdec_command_completes:
  assumes "mdec_ok m" "collecting m" "mdec_dma_write_ready m" "length ws = need_words m"
  shows "\<exists>m'. mdec_dma_write_words h ws m = Some (length ws, m') \<and> busy m' = 0"
proof -
  have ok: "in_ok m" using assms(1) by (simp add: mdec_ok_def)
  have "0 < need_words m"
    using need_words_half [OF assms(2) ok] assms(2) by (simp add: collecting_def word_less_nat_alt)
  then have ne: "ws \<noteq> []" using assms(4) by auto
  have "feed_words h (ws @ []) m = (length ws, execute_command h (fill_words ws m))"
    by (subst fill_is_feed [OF assms(2) ok assms(3) ne])
      (use assms(4) fill_words_full [OF assms(2) ok assms(4)] in \<open>simp_all add: Let_def\<close>)
  then show ?thesis
    using burst_words [OF assms(1), of h ws]
    by (simp add: execute_command_idle del: mdec_dma_write_words.simps)
qed

text \<open>A two-halfword command: one word completes it.\<close>

definition quiet_host :: mdec_host where
  "quiet_host = \<lparr>h_frame = 0, h_cycle = 0, h_quiet = False, h_alloc = (\<lambda>_. True)\<rparr>"

definition collecting_mdec :: mdec where
  "collecting_mdec = \<lparr>command = 0x20000001, expected_halfwords = 2, input_count = 0,
     input = (\<lambda>_. 0), input_cap = 2, outb = (\<lambda>_. 0), output_size = 0, output_pos = 0, output_cap = 0,
     y_quant = (\<lambda>_. 1), uv_quant = (\<lambda>_. 1), scale = (\<lambda>_. 0), output_bit15 = 0, output_signed = 0,
     output_depth = 3, current_block = 4, busy = 1, input_full = 0, enable_dma_in = 1,
     enable_dma_out = 1, last_status = 0, decode_macroblocks = 0, decode_blocks = 0,
     decode_stop_reason = 0, decode_input_pos = 0, decode_input_end = 0, dma_in_words = 0,
     dma_out_words = 0, dma_read_underflows = 0, mtrace = (\<lambda>_. mdec_event_zero), mtrace_seq = 0,
     mtrace_head = 0, color_frame = 0, color_cycle = 0, decode_count = 0\<rparr>"

lemma collecting_mdec_ok:
  "mdec_ok collecting_mdec" "collecting collecting_mdec" "mdec_dma_write_ready collecting_mdec"
  "need_words collecting_mdec = 1"
  by (simp_all add: collecting_mdec_def mdec_ok_def in_ok_def out_ok_def collecting_def
      mdec_dma_write_ready_def need_words_def)

lemma mdec_command_completes_witness:
  "\<exists>m'. mdec_dma_write_words quiet_host [0xFE00FE00] collecting_mdec = Some (1, m') \<and> busy m' = 0"
  using mdec_command_completes [OF collecting_mdec_ok(1-3), of "[0xFE00FE00]" quiet_host]
  by (simp add: collecting_mdec_ok del: mdec_dma_write_words.simps)

lemma mdec_buffers_in_bounds_witness:
  "output_pos (mdec_init collecting_mdec) \<le> output_size (mdec_init collecting_mdec)"
  using mdec_buffers_in_bounds [OF mdec_reaches.start [of collecting_mdec]] by blast

lemma mdec_burst_is_words_witness:
  "mdec_dma_write_words quiet_host [1, 2, 3] collecting_mdec = Some (feed_words quiet_host [1, 2, 3] collecting_mdec)"
  by (rule mdec_burst_is_words [OF collecting_mdec_ok(1)])

lemma mdec_output_queue_witness:
  "\<exists>m'. mdec_dma_read_word quiet_host (collecting_mdec\<lparr>outb := (\<lambda>i. of_nat i), output_size := 6, output_pos := 1,
        output_cap := 8\<rparr>) = (0x04030201, m') \<and> out_bytes m' = [5]"
proof -
  let ?m = "collecting_mdec\<lparr>outb := (\<lambda>i. of_nat i), output_size := 6, output_pos := 1, output_cap := 8\<rparr>"
  have "out_bytes ?m = [1, 2, 3, 4, 5]" by (simp add: out_bytes_def upt_rec)
  moreover have "out_ok ?m" by (simp add: out_ok_def)
  ultimately show ?thesis using mdec_output_queue [of ?m quiet_host] by auto
qed

lemma decode_accounting_witness:
  "decode_input_pos (execute_decode quiet_host collecting_mdec) = 0"
  using decode_accounting [of collecting_mdec quiet_host] by (simp add: collecting_mdec_def)

lemma transform_fits_int_witness:
  "idct_dot (\<lambda>i. of_nat i) (scale (load_scale collecting_mdec)) 0 7 + 0x4000 < 2 ^ 31"
  using transform_fits_int [of 7 "\<lambda>i. of_nat i" collecting_mdec 0] by simp

subsection \<open>The snapshot restores the decoder\<close>

text \<open>The fields of a snapshot, in order.\<close>

definition snap_words :: "mdec \<Rightarrow> u32 list" where
  "snap_words m = [command m, expected_halfwords m, last_status m, decode_macroblocks m,
     decode_blocks m, decode_stop_reason m, decode_input_pos m, decode_input_end m,
     dma_in_words m, dma_out_words m, dma_read_underflows m, output_pos m, 0, 0]"

definition snap_flags :: "mdec \<Rightarrow> u8 list" where
  "snap_flags m = [output_bit15 m, output_signed m, output_depth m, current_block m, busy m,
     input_full m, enable_dma_in m, enable_dma_out m]"

definition snap_layout :: "mdec_host \<Rightarrow> mdec \<Rightarrow> u8 list list" where
  "snap_layout h m =
     [le32 1] @ map le32 (snap_words m) @ map (\<lambda>v. [v]) (snap_flags m) @
     [map (y_quant m) [0..<64], map (uv_quant m) [0..<64]] @
     map le16 (map (scale m) [0..<64]) @
     [le32 (input_count m), le32 (output_size m), le64 (snap_age h m)] @
     map le16 (map (input m) [0..<unat (input_count m)]) @
     [map (outb m) [0..<unat (output_size m)]]"

lemma snap_layout_length:
  "length (concat (snap_layout h m)) = mdec_snap_fixed_bytes + unat (input_count m) * 2 + unat (output_size m)"
  by (simp add: snap_layout_def snap_words_def snap_flags_def mdec_snap_fixed_bytes_def
      w16.length_puts w32.length_put w64.length_put del: upt_rec_numeral map_map)

lemma snapshot_bytes_ok:
  assumes "mdec_ok m"
  shows "mdec_snapshot_bytes m = length (concat (snap_layout h m))" "mdec_snapshot_bytes m \<noteq> 0"
proof -
  have "unat (input_count m) \<le> 0x1FFFE" "unat (output_size m) \<le> 0x800000"
    using assms by (auto simp: mdec_ok_def in_ok_def out_ok_def word_le_nat_alt)
  then show "mdec_snapshot_bytes m = length (concat (snap_layout h m))" "mdec_snapshot_bytes m \<noteq> 0"
    by (simp_all add: snap_layout_length mdec_snapshot_bytes_def mdec_snap_fixed_bytes_def Let_def)
qed

lemma snapshot_write_layout:
  assumes "mdec_ok m"
  shows "mdec_snapshot_write h m = concat (snap_layout h m)"
proof -
  have caps: "input_cap m \<noteq> 0 \<or> input_count m = 0" "output_cap m \<noteq> 0 \<or> output_size m = 0"
    using assms by (auto simp: mdec_ok_def in_ok_def out_ok_def)
  let ?fs = "[pst_w_u32 1] @ map pst_w_u32 (snap_words m) @ map pst_w_u8 (snap_flags m) @
     [pst_w_bytes (map (y_quant m) [0..<64]), pst_w_bytes (map (uv_quant m) [0..<64])] @
     map pst_w_u16 (map (scale m) [0..<64]) @
     [pst_w_u32 (input_count m), pst_w_u32 (output_size m), pst_w_u64 (snap_age h m)] @
     map pst_w_u16 (map (input m) [0..<unat (input_count m)]) @
     [pst_w_bytes (map (outb m) [0..<unat (output_size m)])]"
  have maps: "list_all2 emits (map pst_w_u32 xs) (map le32 xs)"
    "list_all2 emits (map pst_w_u16 ys) (map le16 ys)"
    "list_all2 emits (map pst_w_u8 zs) (map (\<lambda>v. [v]) zs)" for xs ys zs
    by (simp_all add: list_all2_map1 list_all2_map2 list_all2_same emits_u8 emits_u16 emits_u32)
  have "list_all2 emits ?fs (snap_layout h m)"
    unfolding snap_layout_def
    by (intro list_all2_appendI maps) (simp_all only: list_all2_Cons list_all2_Nil emits_u32 emits_u64 emits_bytes simp_thms)
  from w_all_exact(1) [OF this snapshot_bytes_ok(1) [OF assms, of h]]
  have all: "pw_buf (w_all ?fs (pst_w_init (Some (mdec_snapshot_bytes m)))) = concat (snap_layout h m)" .
  have inp: "map (\<lambda>i. pst_w_u16 (if input_cap m \<noteq> 0 then input m i else 0)) [0..<unat (input_count m)] =
      map pst_w_u16 (map (input m) [0..<unat (input_count m)])"
    using caps(1) by auto
  have nil: "pst_w_bytes [] w = (True, w)" for w
    by (simp add: pst_w_bytes_def)
  have fs: "w_all ?fs w = w_all
        ([pst_w_u32 1] @
         map pst_w_u32 [command m, expected_halfwords m, last_status m, decode_macroblocks m,
           decode_blocks m, decode_stop_reason m, decode_input_pos m, decode_input_end m,
           dma_in_words m, dma_out_words m, dma_read_underflows m, output_pos m, 0, 0] @
         map pst_w_u8 [output_bit15 m, output_signed m, output_depth m, current_block m, busy m,
           input_full m, enable_dma_in m, enable_dma_out m] @
         [pst_w_bytes (map (y_quant m) [0..<64]), pst_w_bytes (map (uv_quant m) [0..<64])] @
         map (\<lambda>i. pst_w_u16 (scale m i)) [0..<64] @
         [pst_w_u32 (input_count m), pst_w_u32 (output_size m), pst_w_u64 (snap_age h m)] @
         map (\<lambda>i. pst_w_u16 (if input_cap m \<noteq> 0 then input m i else 0)) [0..<unat (input_count m)] @
         (if output_size m \<noteq> 0 \<and> output_cap m \<noteq> 0
          then [pst_w_bytes (map (outb m) [0..<unat (output_size m)])] else [])) w" for w
  proof (cases "output_size m = 0")
    case True
    then show ?thesis unfolding inp snap_words_def snap_flags_def
      by (simp add: w_all_def nil comp_def del: upt_rec_numeral)
  next
    case False
    then show ?thesis using caps(2) unfolding inp snap_words_def snap_flags_def
      by (simp add: comp_def del: upt_rec_numeral)
  qed
  show ?thesis
    using all snapshot_bytes_ok(2) [OF assms] unfolding fs mdec_snapshot_write_def Let_def by simp
qed

text \<open>What a snapshot carries of the decoder: everything but the traces, the capacities and the stamp.\<close>

definition snap_state :: "mdec \<Rightarrow> u32 list \<times> u8 list \<times> u8 list \<times> u8 list \<times> u16 list \<times> u16 list \<times> u8 list" where
  "snap_state m = (snap_words m, snap_flags m, map (y_quant m) [0..<64], map (uv_quant m) [0..<64],
     map (scale m) [0..<64], map (input m) [0..<unat (input_count m)], map (outb m) [0..<unat (output_size m)])"

lemma snap_scalars_state:
  fixes m n :: mdec
  defines "s \<equiv> snap_scalars (snap_words m) (snap_flags m) (map (y_quant m) [0..<64]) (map (uv_quant m) [0..<64])
      (map (scale m) [0..<64]) n"
  shows "snap_words s = snap_words m" "snap_flags s = snap_flags m"
    "map (y_quant s) [0..<64] = map (y_quant m) [0..<64]" "map (uv_quant s) [0..<64] = map (uv_quant m) [0..<64]"
    "map (scale s) [0..<64] = map (scale m) [0..<64]" "output_pos s = output_pos m"
    "input_cap s = input_cap n" "output_cap s = output_cap n"
  by (simp_all add: s_def snap_scalars_def snap_words_def snap_flags_def numeral_eq_Suc del: upt_Suc upt_rec_numeral)

lemma snap_header_layout:
  "snap_header (Some (concat (map le32 (snap_words m)) @ concat (map (\<lambda>v. [v]) (snap_flags m)) @
       map (y_quant m) [0..<64] @ map (uv_quant m) [0..<64] @ concat (map le16 (map (scale m) [0..<64])) @
       le32 ic @ le32 os @ le64 age @ rest)) n =
   Some (snap_scalars (snap_words m) (snap_flags m) (map (y_quant m) [0..<64]) (map (uv_quant m) [0..<64])
      (map (scale m) [0..<64]) n, ic, os, age, Some rest)"
proof -
  have l: "length (snap_words m) = 14" "length (snap_flags m) = 8" "length (map f [0..<64]) = 64" for f :: "nat \<Rightarrow> 'a"
    by (simp_all add: snap_words_def snap_flags_def)
  show ?thesis
    unfolding snap_header_def
    by (simp only: w32.get_puts [OF l(1)] w8.get_puts [OF l(2)] r_bytes_append [OF l(3)]
        w16.get_puts [OF l(3)] w32.get_put w64.get_put option.case prod.case)
qed

lemma snap_fifos_layout:
  assumes "length hws = unat ic" "length bs = unat os"
  shows "snap_fifos h ic os age (Some (concat (map le16 hws) @ bs)) m =
    (True, snap_stamp h age (m\<lparr>input_count := ic, output_size := os,
       input := (\<lambda>i. if i < unat ic then hws ! i else input m i),
       outb := (\<lambda>i. if i < unat os then bs ! i else outb m i)\<rparr>))"
proof -
  have "pst_r_bytes (unat os) (Some bs) = Some (bs, Some [])"
    using r_bytes_append [OF assms(2), of "[]"] by simp
  then show ?thesis
    by (simp add: snap_fifos_def Let_def w16.get_puts [OF assms(1)] cong: if_cong)
qed

lemma concat_layout:
  "concat (snap_layout h m) = le32 1 @ (concat (map le32 (snap_words m)) @ concat (map (\<lambda>v. [v]) (snap_flags m)) @
       map (y_quant m) [0..<64] @ map (uv_quant m) [0..<64] @ concat (map le16 (map (scale m) [0..<64])) @
       le32 (input_count m) @ le32 (output_size m) @ le64 (snap_age h m) @
       concat (map le16 (map (input m) [0..<unat (input_count m)])) @ map (outb m) [0..<unat (output_size m)])"
  by (simp add: snap_layout_def del: map_map upt_rec_numeral)

lemma ensure_input_granted:
  assumes "\<forall>n. h_alloc h n"
  shows "ensure_input_capacity h c m = (True, m\<lparr>input_cap :=
     if c \<le> input_cap m then input_cap m else grow_cap 32 (if input_cap m \<noteq> 0 then input_cap m else 256) c\<rparr>)"
  using assms by (simp add: ensure_input_capacity_def Let_def)

lemma ensure_output_granted:
  assumes "\<forall>n. h_alloc h n"
  shows "\<exists>k. ensure_output_capacity h c m = (True, m\<lparr>output_cap := k\<rparr>)"
proof (cases "c \<le> output_cap m")
  case True
  moreover have "m = m\<lparr>output_cap := output_cap m\<rparr>" by simp
  ultimately show ?thesis by (metis ensure_output_capacity_def)
next
  case False
  then show ?thesis using assms by (auto simp: ensure_output_capacity_def Let_def)
qed

text \<open>Reading back what was written, with memory granted: every check passes.\<close>

lemma snapshot_read_raw:
  assumes "mdec_ok m" "\<forall>n. h_alloc h' n"
  shows "\<exists>k. mdec_snapshot_read h' (mdec_snapshot_write h m) n =
    (let s = snap_scalars (snap_words m) (snap_flags m) (map (y_quant m) [0..<64]) (map (uv_quant m) [0..<64])
               (map (scale m) [0..<64]) n;
         c = (if input_count m \<noteq> 0 then input_count m else 1)
     in (True, snap_stamp h' (snap_age h m) (s\<lparr>
       input_cap := (if c \<le> input_cap n then input_cap n
                     else grow_cap 32 (if input_cap n \<noteq> 0 then input_cap n else 256) c),
       output_cap := k, input_count := input_count m, output_size := output_size m,
       input := (\<lambda>i. if i < unat (input_count m) then map (input m) [0..<unat (input_count m)] ! i else input s i),
       outb := (\<lambda>i. if i < unat (output_size m) then map (outb m) [0..<unat (output_size m)] ! i else outb s i)\<rparr>)))"
proof -
  let ?p = "concat (snap_layout h m)"
  define s where "s = snap_scalars (snap_words m) (snap_flags m) (map (y_quant m) [0..<64])
      (map (uv_quant m) [0..<64]) (map (scale m) [0..<64]) n"
  let ?fifos = "concat (map le16 (map (input m) [0..<unat (input_count m)])) @ map (outb m) [0..<unat (output_size m)]"
  define c where "c = (if input_count m \<noteq> 0 then input_count m else 1)"
  let ?o = "if output_size m \<noteq> 0 then output_size m else 1"
  define cap where "cap = (if c \<le> input_cap n then input_cap n
      else grow_cap 32 (if input_cap n \<noteq> 0 then input_cap n else 256) c)"
  have bnd: "\<not> input_count m > MDEC_SNAP_INPUT_MAX" "\<not> output_size m > MDEC_SNAP_OUTPUT_MAX"
    "\<not> output_pos m > output_size m"
    using assms(1) by (auto simp: mdec_ok_def in_ok_def out_ok_def word_less_nat_alt word_le_nat_alt)
  have len: "length ?p = mdec_snap_fixed_bytes + unat (input_count m) * 2 + unat (output_size m)"
    by (rule snap_layout_length)
  have ver: "pst_r_u32 (pst_r_init ?p) = Some (1, Some (concat (map le32 (snap_words m)) @
       concat (map (\<lambda>v. [v]) (snap_flags m)) @
       map (y_quant m) [0..<64] @ map (uv_quant m) [0..<64] @ concat (map le16 (map (scale m) [0..<64])) @
       le32 (input_count m) @ le32 (output_size m) @ le64 (snap_age h m) @ ?fifos))"
    unfolding concat_layout pst_r_init_def by (rule w32.get_put)
  have pos: "output_pos s = output_pos m" "input_cap s = input_cap n"
    unfolding s_def by (rule snap_scalars_state)+
  have e1: "ensure_input_capacity h' c s = (True, (s\<lparr>input_cap := cap\<rparr>))"
    using ensure_input_granted [OF assms(2), of c s] by (simp only: pos(2) cap_def)
  obtain k where e2: "ensure_output_capacity h' ?o (s\<lparr>input_cap := cap\<rparr>) = (True, s\<lparr>input_cap := cap, output_cap := k\<rparr>)"
    using ensure_output_granted [OF assms(2), of _ "s\<lparr>input_cap := cap\<rparr>"] by fastforce
  have f: "snap_fifos h' (input_count m) (output_size m) (snap_age h m) (Some ?fifos) (s\<lparr>input_cap := cap, output_cap := k\<rparr>) =
    (True, snap_stamp h' (snap_age h m) (s\<lparr>input_cap := cap, output_cap := k, input_count := input_count m, output_size := output_size m,
       input := (\<lambda>i. if i < unat (input_count m) then map (input m) [0..<unat (input_count m)] ! i else input s i),
       outb := (\<lambda>i. if i < unat (output_size m) then map (outb m) [0..<unat (output_size m)] ! i else outb s i)\<rparr>))"
    by (subst snap_fifos_layout) (simp_all cong: if_cong)
  note hdr = snap_header_layout [of m "input_count m" "output_size m" "snap_age h m" ?fifos n, folded s_def]
  have l1: "\<not> length ?p < mdec_snap_fixed_bytes"
    "\<not> length ?p - mdec_snap_fixed_bytes < unat (input_count m) * 2 + unat (output_size m)"
    by (simp_all add: len)
  have "mdec_snapshot_read h' ?p n = snap_fifos h' (input_count m) (output_size m) (snap_age h m) (Some ?fifos) (s\<lparr>input_cap := cap, output_cap := k\<rparr>)"
    unfolding mdec_snapshot_read_def ver
    by (simp only: option.case prod.case hdr c_def [symmetric] bnd pos(1) l1 e1 e2 bool.case simp_thms
        if_False if_True)
  then show ?thesis
    unfolding f snapshot_write_layout [OF assms(1)] Let_def s_def [symmetric] c_def [symmetric] cap_def [symmetric]
    by (intro exI [of _ k])
qed

lemma age_cut:
  "(if (if k < a then k else a) \<ge> h then 0 else h - (if k < a then k else a)) = h - min h (min k a)" for h k a :: u64
  by (cases "k < a"; cases "h \<le> k"; cases "h \<le> a") (auto simp: min_def)

lemma snap_state_stamp [simp]: "snap_state (snap_stamp h a m) = snap_state m"
  by (simp add: snap_state_def snap_stamp_def Let_def snap_words_def snap_flags_def)

lemma snap_state_fifos:
  "snap_state (s\<lparr>input_cap := c, output_cap := k, input_count := ic, output_size := os, input := f, outb := g\<rparr>) =
     (snap_words s, snap_flags s, map (y_quant s) [0..<64], map (uv_quant s) [0..<64],
      map (scale s) [0..<64], map f [0..<unat ic], map g [0..<unat os])"
  by (simp add: snap_state_def snap_words_def snap_flags_def del: upt_rec_numeral)

lemma snapshot_read_written:
  assumes "mdec_ok m" "\<forall>n. h_alloc h' n"
  shows "\<exists>n'. mdec_snapshot_read h' (mdec_snapshot_write h m) n = (True, n') \<and> snap_state n' = snap_state m
    \<and> input_count n' = input_count m \<and> busy n' = busy m \<and> expected_halfwords n' = expected_halfwords m
    \<and> input_cap n' = (let c = (if input_count m \<noteq> 0 then input_count m else 1)
         in if c \<le> input_cap n then input_cap n
            else grow_cap 32 (if input_cap n \<noteq> 0 then input_cap n else 256) c)
    \<and> color_cycle n' = h_cycle h' - min (h_cycle h') (min 0x10000000000 (snap_age h m))"
proof -
  define s where "s = snap_scalars (snap_words m) (snap_flags m) (map (y_quant m) [0..<64])
      (map (uv_quant m) [0..<64]) (map (scale m) [0..<64]) n"
  define f where "f = (\<lambda>i. if i < unat (input_count m) then map (input m) [0..<unat (input_count m)] ! i else input s i)"
  define g where "g = (\<lambda>i. if i < unat (output_size m) then map (outb m) [0..<unat (output_size m)] ! i else outb s i)"
  obtain n' k cap where r: "mdec_snapshot_read h' (mdec_snapshot_write h m) n = (True, n')"
    and n': "n' = snap_stamp h' (snap_age h m) (s\<lparr>input_cap := cap, output_cap := k,
      input_count := input_count m, output_size := output_size m, input := f, outb := g\<rparr>)"
    and cap: "cap = (let c = (if input_count m \<noteq> 0 then input_count m else 1)
         in if c \<le> input_cap n then input_cap n
            else grow_cap 32 (if input_cap n \<noteq> 0 then input_cap n else 256) c)"
    using snapshot_read_raw [OF assms, of h n, unfolded Let_def, folded s_def f_def g_def]
    unfolding Let_def by blast
  have fg: "map f [0..<unat (input_count m)] = map (input m) [0..<unat (input_count m)]"
    "map g [0..<unat (output_size m)] = map (outb m) [0..<unat (output_size m)]"
    by (simp_all add: f_def g_def)
  have "snap_state n' = snap_state m"
    unfolding n' snap_state_stamp snap_state_fifos fg unfolding s_def
    by (simp only: snap_scalars_state) (simp only: snap_state_def)
  moreover have "input_count n' = input_count m" "input_cap n' = cap" "busy n' = busy s"
    "expected_halfwords n' = expected_halfwords s"
    by (simp_all add: n' snap_stamp_def Let_def)
  moreover have "color_cycle n' = h_cycle h' - min (h_cycle h') (min 0x10000000000 (snap_age h m))"
    by (simp add: n' snap_stamp_def Let_def age_cut)
  moreover have "busy s = busy m" "expected_halfwords s = expected_halfwords m"
    by (simp_all add: s_def snap_scalars_def snap_words_def snap_flags_def)
  ultimately show ?thesis using r cap by simp
qed

text \<open>A fresh decoder makes room for 256 halfwords, which holds what a short command has so far.\<close>

lemma grow_cap_first: "c \<le> 256 \<Longrightarrow> grow_cap 32 256 c = 256"
proof -
  assume "c \<le> 256"
  then have "\<not> 256 < c" by (simp only: not_less)
  moreover have "(32 :: nat) = Suc 31" by simp
  ultimately show "grow_cap 32 256 c = 256" by (simp only: grow_cap.simps if_False)
qed

text \<open>
  C32. Round trip: the snapshot of a consistent decoder (\<open>mdec_ok\<close>: both queues inside their
  allocations), read into any decoder with memory granted, is accepted and restores what it holds
  (\<open>snap_state\<close>): the command, the status, the flags, the tables, the counters, the halfwords that
  came in and the bytes that go out; and the age of the last colour picture in guest cycles, cut at
  2 to the 40 and at the new cycle count. It does not restore the room the rest of a command needs: a
  decoder without an input allocation that reads a snapshot taken while a command is collecting, with
  at most 256 halfwords in and more than 256 wanted, is left collecting with less room than the
  command wants.
\<close>

theorem mdec_snapshot_roundtrip:
  assumes "mdec_ok m" "\<forall>n. h_alloc h' n"
  shows "\<exists>n'. mdec_snapshot_read h' (mdec_snapshot_write h m) n = (True, n') \<and> snap_state n' = snap_state m
    \<and> color_cycle n' = h_cycle h' - min (h_cycle h') (min 0x10000000000 (snap_age h m))
    \<and> (input_cap n = 0 \<and> collecting m \<and> input_count m \<le> 256 \<and> 256 < expected_halfwords m
        \<longrightarrow> collecting n' \<and> input_cap n' < expected_halfwords n')"
proof -
  define c where "c = (if input_count m \<noteq> 0 then input_count m else 1)"
  obtain n' where n': "mdec_snapshot_read h' (mdec_snapshot_write h m) n = (True, n')" "snap_state n' = snap_state m"
      "color_cycle n' = h_cycle h' - min (h_cycle h') (min 0x10000000000 (snap_age h m))"
      "busy n' = busy m" "input_count n' = input_count m" "expected_halfwords n' = expected_halfwords m"
    and cap: "input_cap n' = (if c \<le> input_cap n then input_cap n
          else grow_cap 32 (if input_cap n \<noteq> 0 then input_cap n else 256) c)"
    using snapshot_read_written [OF assms, of h n] unfolding Let_def c_def [symmetric] by blast
  have "c \<noteq> 0" by (simp add: c_def)
  then have "input_count m \<le> 256 \<Longrightarrow> input_cap n = 0 \<Longrightarrow> input_cap n' = 256"
    using grow_cap_first [of c] cap by (simp add: c_def split: if_splits)
  then show ?thesis using n' by (auto simp: collecting_def)
qed

text \<open>A command that wants 1000 halfwords and has its first ones, read into a decoder that has just started.\<close>

lemma mdec_snapshot_roundtrip_witness:
  "\<exists>m n'. collecting m \<and> mdec_snapshot_read quiet_host (mdec_snapshot_write quiet_host m) (mdec_init m) = (True, n')
     \<and> snap_state n' = snap_state m \<and> collecting n' \<and> input_cap n' < expected_halfwords n'"
proof -
  let ?m = "collecting_mdec\<lparr>expected_halfwords := 1000, input_cap := 1024\<rparr>"
  have m: "mdec_ok ?m" "collecting ?m" "input_count ?m \<le> 256" "256 < expected_halfwords ?m" "input_cap (mdec_init ?m) = 0"
    by (simp_all add: collecting_mdec_def mdec_ok_def in_ok_def out_ok_def collecting_def mdec_init_def)
  have "\<forall>n. h_alloc quiet_host n" by (simp add: quiet_host_def)
  then show ?thesis
    using mdec_snapshot_roundtrip [OF m(1), of quiet_host quiet_host "mdec_init ?m"] m(2-) by blast
qed

end
