(* ===== verification/Dma.thy ===== *)
theory Dma
  imports GuestMem Mdec
begin

unbundle bit_operations_syntax

section \<open>The DMA controller: dma.c\<close>

text \<open>
  The seven channels, their registers and the interrupt register; immediate, delayed and
  cycle-paced transfers. Guest memory (GuestMem), the interrupt lines (Irq) and the motion decoder
  (Mdec) are the modelled ones. The GPU, SPU and CD-ROM ends, the overlay capture and the traces of
  other files are functions of a \<open>dports\<close> record over the guest state. \<open>psx_fatal_halt\<close>, which does
  not return, and a burst that does not end are \<open>None\<close>. \<open>g_debug_last_store_pc\<close> and
  \<open>g_debug_current_func_addr\<close> are read from the context of the event ring.
\<close>

subsection \<open>State\<close>

record dma_channel =
  madr :: u32
  bcr :: u32
  chcr :: u32

record dma_async =
  as_active :: u8
  as_started :: u8
  as_total :: u32
  as_remaining :: u32
  as_accum :: u32
  as_start :: u32

record dma_delay =
  dl_active :: u8
  dl_total :: u32
  dl_remaining :: u32

record cd_log_entry =
  cl_lba :: int
  cl_dest :: u32
  cl_size :: u32

record dma_trace_entry =
  te_seq :: u64
  te_frame :: u32
  te_kind :: u32
  te_channel :: u32
  te_total :: u32
  te_addr :: u32
  te_val :: u32
  te_mask :: u32
  te_madr :: u32
  te_bcr :: u32
  te_chcr :: u32
  te_dpcr :: u32
  te_dicr_before :: u32
  te_dicr_after :: u32
  te_i_stat_before :: u32
  te_i_stat_after :: u32
  te_func :: u32
  te_pc :: u32

record cd_history =
  hc_seq :: u64
  hc_frame_start :: u32
  hc_frame_end :: u32
  hc_start_addr :: u32
  hc_final_addr :: u32
  hc_requested :: u32
  hc_moved :: u32
  hc_bcr :: u32
  hc_chcr :: u32
  hc_dpcr :: u32
  hc_dicr_start :: u32
  hc_dicr_end :: u32
  hc_i_stat_start :: u32
  hc_i_stat_end :: u32
  hc_func :: u32
  hc_pc :: u32
  hc_lba :: int
  hc_sector_size :: int
  hc_pos_start :: int
  hc_pos_end :: int
  hc_mode :: u8
  hc_avail_start :: u8
  hc_avail_end :: u8
  hc_completed :: u8
  hc_first_count :: u8
  hc_last_count :: u8
  hc_first :: "nat \<Rightarrow> u32"
  hc_last :: "nat \<Rightarrow> u32"

text \<open>The fields of \<open>CDROMDebugState\<close> the capture reads.\<close>

record cd_debug =
  cb_mode_reg :: u8
  cb_sector_read_pos :: int
  cb_sector_available :: int
  cb_sector_size :: int
  cb_last_sector_lba :: int
  cb_last_sector_size :: int
  cb_last_sector_mode :: u8

record dma_state =
  chan :: "nat \<Rightarrow> dma_channel"
  mdec_async :: "nat \<Rightarrow> dma_async"
  cdrom_async :: dma_async
  delayed :: "nat \<Rightarrow> dma_delay"
  dpcr :: u32
  dicr :: u32
  cd_log :: "nat \<Rightarrow> cd_log_entry"
  cd_log_head :: u32
  cd_log_total :: u32
  dtr :: "nat \<Rightarrow> dma_trace_entry"
  dtr_seq :: u64
  cd_hist :: "nat \<Rightarrow> cd_history"
  cd_hist_seq :: u64
  cd_hist_cur :: cd_history
  cd_hist_on :: u8
  exec_depth :: int
  cur_ch :: int
  cur_madr :: u32
  cur_bcr :: u32
  initiator_pc :: u32
  ch_initiator :: "nat \<Rightarrow> u32"

record 'x dsys =
  dma :: dma_state
  mdc :: mdec
  gs :: "'x gsys"

record 'x dports =
  devs :: "'x devices"
  gp0_source :: "u32 \<Rightarrow> 'x gsys \<Rightarrow> 'x gsys"
  ws_begin :: "'x gsys \<Rightarrow> 'x gsys"
  ws_prepass :: "u32 \<Rightarrow> 'x gsys \<Rightarrow> 'x gsys"
  ws_end :: "'x gsys \<Rightarrow> 'x gsys"
  gp0_node :: "u32 \<Rightarrow> u32 \<Rightarrow> 'x gsys \<Rightarrow> 'x gsys"
  flap_last :: bool
  spu_put :: "u32 \<Rightarrow> 'x gsys \<Rightarrow> 'x gsys"
  spu_get :: "'x gsys \<Rightarrow> u32 \<times> 'x gsys"
  audio_event :: "u32 \<Rightarrow> u32 \<Rightarrow> u32 \<Rightarrow> 'x gsys \<Rightarrow> 'x gsys"
  cd_ready :: "'x gsys \<Rightarrow> bool"
  cd_get :: "'x gsys \<Rightarrow> u32 \<times> 'x gsys"
  cd_sector_words :: "'x gsys \<Rightarrow> u32"
  cd_setloc_lba :: "'x gsys \<Rightarrow> int"
  cd_debug_snapshot :: "'x gsys \<Rightarrow> cd_debug"
  overlay_before :: "u32 \<Rightarrow> u32 \<Rightarrow> 'x gsys \<Rightarrow> 'x gsys"
  overlay_on :: "u32 \<Rightarrow> u32 \<Rightarrow> 'x gsys \<Rightarrow> 'x gsys"
  mark_exec :: "u32 \<Rightarrow> u32 \<Rightarrow> 'x gsys \<Rightarrow> 'x gsys"
  mdec_view :: "'x gsys \<Rightarrow> mdec_host"

abbreviation ienv :: "'x dsys \<Rightarrow> irq_env" where "ienv s \<equiv> tenv (tmr (gs s))"

abbreviation DICR_WRITE_MASK :: u32 where "DICR_WRITE_MASK \<equiv> 0x00FF807F"
abbreviation DICR_RESET_MASK :: u32 where "DICR_RESET_MASK \<equiv> 0x7F000000"
abbreviation DMA_MAX_TRANSFER_WORDS :: u32 where "DMA_MAX_TRANSFER_WORDS \<equiv> 0x80000"
abbreviation UINT32_MAX :: u32 where "UINT32_MAX \<equiv> 0xFFFFFFFF"

text \<open>Updates of one part.\<close>

definition upd_dma :: "(dma_state \<Rightarrow> dma_state) \<Rightarrow> 'x dsys \<Rightarrow> 'x dsys" where
  "upd_dma f s = s\<lparr>dma := f (dma s)\<rparr>"

definition upd_gs :: "('x gsys \<Rightarrow> 'x gsys) \<Rightarrow> 'x dsys \<Rightarrow> 'x dsys" where
  "upd_gs f s = s\<lparr>gs := f (gs s)\<rparr>"

definition upd_chan :: "nat \<Rightarrow> (dma_channel \<Rightarrow> dma_channel) \<Rightarrow> 'x dsys \<Rightarrow> 'x dsys" where
  "upd_chan ch f = upd_dma (\<lambda>d. d\<lparr>chan := (chan d)(ch := f (chan d ch))\<rparr>)"

definition set_madr :: "nat \<Rightarrow> u32 \<Rightarrow> 'x dsys \<Rightarrow> 'x dsys" where
  "set_madr ch v = upd_chan ch (\<lambda>c. c\<lparr>madr := v\<rparr>)"

definition event_aux :: "u16 \<Rightarrow> u8 \<Rightarrow> u32 \<Rightarrow> 'x dsys \<Rightarrow> 'x dsys" where
  "event_aux kind detail aux = upd_gs (upd_env (record_ev kind detail aux))"

definition chcr_of :: "nat \<Rightarrow> 'x dsys \<Rightarrow> u32" where
  "chcr_of ch s = chcr (chan (dma s) ch)"

subsection \<open>The CD read log\<close>

definition cd_dma_log_push :: "int \<Rightarrow> u32 \<Rightarrow> u32 \<Rightarrow> dma_state \<Rightarrow> dma_state" where
  "cd_dma_log_push lba dest sz d =
     d\<lparr>cd_log := (cd_log d)(unat (cd_log_head d mod 65536) := \<lparr>cl_lba = lba, cl_dest = dest, cl_size = sz\<rparr>),
       cd_log_head := (cd_log_head d + 1) mod 65536,
       cd_log_total := cd_log_total d + 1\<rparr>"

definition cd_dma_log_get_total :: "dma_state \<Rightarrow> u32" where
  "cd_dma_log_get_total d = cd_log_total d"

text \<open>\<open>None\<close> stands for \<open>*lba = -1\<close> with the other outputs untouched.\<close>

definition cd_dma_log_get_entry :: "u32 \<Rightarrow> dma_state \<Rightarrow> (int \<times> u32 \<times> u32) option" where
  "cd_dma_log_get_entry idx d =
     (let oldest = (if cd_log_total d > 65536 then cd_log_total d - 65536 else 0)
      in if idx < oldest \<or> idx \<ge> cd_log_total d then None
         else let e = cd_log d (unat (idx mod 65536)) in Some (cl_lba e, cl_dest e, cl_size e))"

subsection \<open>The interrupt register and the trace\<close>

definition dicr_master_flag :: "u32 \<Rightarrow> u32" where
  "dicr_master_flag v =
     (if v AND push_bit 15 1 \<noteq> 0 \<or> (v AND push_bit 23 1 \<noteq> 0 \<and> v AND DICR_RESET_MASK \<noteq> 0)
      then push_bit 31 1 else 0)"

definition dicr_read_value :: "u32 \<Rightarrow> u32" where
  "dicr_read_value v = (v AND NOT (push_bit 31 1)) OR dicr_master_flag v"

definition trace_push :: "dma_trace_entry \<Rightarrow> dma_state \<Rightarrow> dma_state" where
  "trace_push e d =
     d\<lparr>dtr := (dtr d)(unat (dtr_seq d mod 16384) := e\<lparr>te_seq := dtr_seq d\<rparr>), dtr_seq := dtr_seq d + 1\<rparr>"

definition trace_dma :: "u32 \<Rightarrow> nat \<Rightarrow> u32 \<Rightarrow> u32 \<Rightarrow> u32 \<Rightarrow> 'x dsys \<Rightarrow> 'x dsys" where
  "trace_dma kind ch total_words dicr_before i_stat_before s =
     (let e = ienv s; d = dma s; c = chan d ch in
      upd_dma (trace_push
        \<lparr>te_seq = 0, te_frame = frame_no e, te_kind = kind, te_channel = of_nat ch, te_total = total_words,
         te_addr = 0, te_val = 0, te_mask = 0,
         te_madr = (if ch < 7 then madr c else 0), te_bcr = (if ch < 7 then bcr c else 0),
         te_chcr = (if ch < 7 then chcr c else 0), te_dpcr = dpcr d,
         te_dicr_before = dicr_read_value dicr_before, te_dicr_after = dicr_read_value (dicr d),
         te_i_stat_before = i_stat_before, te_i_stat_after = i_stat e,
         te_func = ec_func (ctx e), te_pc = ec_pc (ctx e)\<rparr>) s)"

definition trace_dma_reg_write :: "u32 \<Rightarrow> u32 \<Rightarrow> u32 \<Rightarrow> u32 \<Rightarrow> u32 \<Rightarrow> 'x dsys \<Rightarrow> 'x dsys" where
  "trace_dma_reg_write addr val msk dicr_before i_stat_before s =
     (let e = ienv s; d = dma s in
      upd_dma (trace_push
        \<lparr>te_seq = 0, te_frame = frame_no e, te_kind = 0x57, te_channel = 0xFFFFFFFF, te_total = 0,
         te_addr = addr, te_val = val, te_mask = msk, te_madr = 0, te_bcr = 0, te_chcr = 0,
         te_dpcr = dpcr d, te_dicr_before = dicr_read_value dicr_before,
         te_dicr_after = dicr_read_value (dicr d), te_i_stat_before = i_stat_before,
         te_i_stat_after = i_stat e, te_func = ec_func (ctx e), te_pc = ec_pc (ctx e)\<rparr>) s)"

definition raise_dma_irq_on_master_edge :: "u32 \<Rightarrow> 'x dsys \<Rightarrow> 'x dsys" where
  "raise_dma_irq_on_master_edge before s =
     (if dicr_master_flag before = 0 \<and> dicr_master_flag (dicr (dma s)) \<noteq> 0
      then upd_gs (upd_env (psx_irq_raise 3 (drop_bit 24 (dicr (dma s)) AND 0x7F))) s
      else s)"

subsection \<open>The CD capture\<close>

definition cd_history_zero :: cd_history where
  "cd_history_zero = \<lparr>hc_seq = 0, hc_frame_start = 0, hc_frame_end = 0, hc_start_addr = 0,
     hc_final_addr = 0, hc_requested = 0, hc_moved = 0, hc_bcr = 0, hc_chcr = 0, hc_dpcr = 0,
     hc_dicr_start = 0, hc_dicr_end = 0, hc_i_stat_start = 0, hc_i_stat_end = 0, hc_func = 0, hc_pc = 0,
     hc_lba = 0, hc_sector_size = 0, hc_pos_start = 0, hc_pos_end = 0, hc_mode = 0,
     hc_avail_start = 0, hc_avail_end = 0, hc_completed = 0, hc_first_count = 0, hc_last_count = 0,
     hc_first = (\<lambda>_. 0), hc_last = (\<lambda>_. 0)\<rparr>"

definition start_cdrom_dma_capture :: "'x dports \<Rightarrow> u32 \<Rightarrow> 'x dsys \<Rightarrow> 'x dsys" where
  "start_cdrom_dma_capture p requested s =
     (let c = cd_debug_snapshot p (gs s); d = dma s; e = ienv s; a = madr (chan d 3) AND 0x1FFFFC in
      upd_dma (\<lambda>d. d\<lparr>
        cd_hist_seq := cd_hist_seq d + 1,
        cd_hist_cur := cd_history_zero\<lparr>hc_seq := cd_hist_seq d, hc_frame_start := frame_no e,
          hc_start_addr := a, hc_final_addr := a, hc_requested := requested,
          hc_bcr := bcr (chan d 3), hc_chcr := chcr (chan d 3), hc_dpcr := dpcr d,
          hc_dicr_start := dicr_read_value (dicr d), hc_i_stat_start := i_stat e,
          hc_func := ec_func (ctx e), hc_pc := ec_pc (ctx e), hc_lba := cb_last_sector_lba c,
          hc_sector_size := (if cb_sector_size c > 0 then cb_sector_size c else cb_last_sector_size c),
          hc_pos_start := cb_sector_read_pos c,
          hc_mode := (if cb_last_sector_mode c \<noteq> 0 then cb_last_sector_mode c else cb_mode_reg c),
          hc_avail_start := (if cb_sector_available c \<noteq> 0 then 1 else 0)\<rparr>,
        cd_hist_on := 1\<rparr>) s)"

definition record_cdrom_dma_word :: "u32 \<Rightarrow> dma_state \<Rightarrow> dma_state" where
  "record_cdrom_dma_word w d =
     (if cd_hist_on d = 0 then d
      else let e = cd_hist_cur d;
               e = (if hc_first_count e < 16
                    then e\<lparr>hc_first := (hc_first e)(unat (hc_first_count e) := w),
                           hc_first_count := hc_first_count e + 1\<rparr> else e);
               e = (if hc_last_count e < 16
                    then e\<lparr>hc_last := (hc_last e)(unat (hc_last_count e) := w),
                           hc_last_count := hc_last_count e + 1\<rparr>
                    else e\<lparr>hc_last := (\<lambda>i. if i < 15 then hc_last e (i + 1)
                                         else if i = 15 then w else hc_last e i)\<rparr>);
               e = e\<lparr>hc_moved := hc_moved e + 1\<rparr>
           in d\<lparr>cd_hist_cur := e\<rparr>)"

definition finish_cdrom_dma_capture :: "'x dports \<Rightarrow> u32 \<Rightarrow> u8 \<Rightarrow> 'x dsys \<Rightarrow> 'x dsys" where
  "finish_cdrom_dma_capture p final_addr completed s =
     (if cd_hist_on (dma s) = 0 then s
      else let c = cd_debug_snapshot p (gs s); e = ienv s in
      upd_dma (\<lambda>d.
        let h = (cd_hist_cur d)\<lparr>hc_frame_end := frame_no e, hc_final_addr := final_addr AND 0x1FFFFC,
              hc_dicr_end := dicr_read_value (dicr d), hc_i_stat_end := i_stat e,
              hc_pos_end := cb_sector_read_pos c,
              hc_avail_end := (if cb_sector_available c \<noteq> 0 then 1 else 0),
              hc_completed := (if completed \<noteq> 0 then 1 else 0)\<rparr>
        in d\<lparr>cd_hist_cur := h, cd_hist := (cd_hist d)(unat (hc_seq h mod 8192) := h), cd_hist_on := 0\<rparr>) s)"

subsection \<open>Kicks and completions\<close>

definition channel_enabled :: "nat \<Rightarrow> dma_state \<Rightarrow> bool" where
  "channel_enabled ch d \<longleftrightarrow> drop_bit (ch * 4 + 3) (dpcr d) AND 1 \<noteq> 0"

definition channel_irq_flag_armed :: "nat \<Rightarrow> dma_state \<Rightarrow> bool" where
  "channel_irq_flag_armed ch d \<longleftrightarrow>
     drop_bit (16 + ch) (dicr d) AND 1 \<noteq> 0 \<and> drop_bit 23 (dicr d) AND 1 \<noteq> 0"

definition transfer_word_count :: "'x dports \<Rightarrow> nat \<Rightarrow> 'x dsys \<Rightarrow> u32" where
  "transfer_word_count p ch s =
     (let c = chan (dma s) ch;
          sync_mode = drop_bit 9 (chcr c) AND 3;
          block_size = bcr c AND 0xFFFF;
          block_count = drop_bit 16 (bcr c) AND 0xFFFF
      in if ch = 3 \<and> block_size = 0 then cd_sector_words p (gs s)
         else if sync_mode = 1
         then (if block_size = 0 then 0x10000 else block_size) * (if block_count = 0 then 1 else block_count)
         else (if block_size = 0 then 0x10000 else block_size))"

text \<open>False where the code halts.\<close>

definition validate_transfer_length :: "'x dports \<Rightarrow> nat \<Rightarrow> 'x dsys \<Rightarrow> bool" where
  "validate_transfer_length p ch s \<longleftrightarrow>
     ch = 2 \<and> drop_bit 9 (chcr_of ch s) AND 3 = 2
     \<or> \<not> transfer_word_count p ch s > DMA_MAX_TRANSFER_WORDS"

definition complete_transfer :: "nat \<Rightarrow> 'x dsys \<Rightarrow> 'x dsys" where
  "complete_transfer ch s =
     (let dicr_before = dicr (dma s);
          i_stat_before = i_stat (ienv s);
          s = upd_chan ch (\<lambda>c. c\<lparr>chcr := chcr c AND NOT (push_bit 24 1 OR push_bit 28 1)\<rparr>) s;
          s = (if channel_irq_flag_armed ch (dma s)
               then raise_dma_irq_on_master_edge dicr_before
                      (upd_dma (\<lambda>d. d\<lparr>dicr := dicr d OR push_bit (24 + ch) 1\<rparr>) s)
               else s);
          s = trace_dma 0x43 ch 0 dicr_before i_stat_before s;
          s = event_aux EV_DMA_DONE (of_nat ch) (chcr_of ch s) s
      in event_aux EV_DEQ (SRC_DMA0 + of_nat ch) (chcr_of ch s) s)"

definition async_clear :: "dma_async \<Rightarrow> dma_async" where
  "async_clear a = a\<lparr>as_active := 0, as_started := 0, as_total := 0, as_remaining := 0, as_accum := 0\<rparr>"

definition cancel_async_transfer :: "'x dports \<Rightarrow> nat \<Rightarrow> 'x dsys \<Rightarrow> 'x dsys" where
  "cancel_async_transfer p ch s =
     (let s = (if ch < 2
               then upd_dma (\<lambda>d. d\<lparr>mdec_async := (mdec_async d)(ch := async_clear (mdec_async d ch))\<rparr>) s else s);
          s = (if ch = 3
               then upd_dma (\<lambda>d. d\<lparr>cdrom_async := async_clear (cdrom_async d)\<rparr>)
                      (finish_cdrom_dma_capture p (madr (chan (dma s) 3) AND 0x1FFFFC) 0 s)
               else s)
      in if ch < 7
         then upd_dma (\<lambda>d. d\<lparr>delayed := (delayed d)(ch := \<lparr>dl_active = 0, dl_total = 0, dl_remaining = 0\<rparr>)\<rparr>) s
         else s)"

definition schedule_delayed_complete :: "nat \<Rightarrow> u32 \<Rightarrow> u32 \<Rightarrow> 'x dsys \<Rightarrow> 'x dsys" where
  "schedule_delayed_complete ch total_words cycles_per_word s =
     (if total_words = 0 \<or> cycles_per_word = 0 then complete_transfer ch s
      else let cycles = ucast total_words * ucast cycles_per_word :: u64;
               cycles = (if cycles > 0xFFFFFFFF then 0xFFFFFFFF else cycles);
               s = upd_dma (\<lambda>d. d\<lparr>delayed := (delayed d)(ch :=
                     \<lparr>dl_active = 1, dl_total = total_words, dl_remaining = ucast cycles\<rparr>)\<rparr>) s
           in event_aux EV_DMA_SCHED (of_nat ch) (chcr_of ch s) s)"

definition advance_delayed_complete :: "nat \<Rightarrow> u32 \<Rightarrow> 'x dsys \<Rightarrow> 'x dsys" where
  "advance_delayed_complete ch cycles s =
     (let l = delayed (dma s) ch in
      if dl_active l = 0 then s
      else if cycles < dl_remaining l
      then upd_dma (\<lambda>d. d\<lparr>delayed := (delayed d)(ch := l\<lparr>dl_remaining := dl_remaining l - cycles\<rparr>)\<rparr>) s
      else complete_transfer ch
             (upd_dma (\<lambda>d. d\<lparr>delayed := (delayed d)(ch :=
                \<lparr>dl_active = 0, dl_total = 0, dl_remaining = 0\<rparr>)\<rparr>) s))"

subsection \<open>The motion decoder channels\<close>

definition mdec_do :: "(mdec \<Rightarrow> mdec) \<Rightarrow> 'x dsys \<Rightarrow> 'x dsys" where
  "mdec_do f s = s\<lparr>mdc := f (mdc s)\<rparr>"

definition next_addr :: "bool \<Rightarrow> u32 \<Rightarrow> u32" where
  "next_addr step addr = (addr + (if step then - 4 else 4)) AND 0x1FFFFC"

definition chan_step :: "nat \<Rightarrow> 'x dsys \<Rightarrow> bool" where
  "chan_step ch s \<longleftrightarrow> drop_bit 1 (chcr_of ch s) AND 1 \<noteq> 0"

definition chan_addr :: "nat \<Rightarrow> 'x dsys \<Rightarrow> u32" where
  "chan_addr ch s = madr (chan (dma s) ch) AND 0x1FFFFC"

definition dma_load :: "'x dports \<Rightarrow> u32 \<Rightarrow> 'x dsys \<Rightarrow> u32 \<times> 'x dsys" where
  "dma_load p addr s = (let (v, g) = psx_read_word_raw (devs p) addr (gs s) in (v, s\<lparr>gs := g\<rparr>))"

definition dma_store :: "'x dports \<Rightarrow> u32 \<Rightarrow> u32 \<Rightarrow> 'x dsys \<Rightarrow> 'x dsys" where
  "dma_store p addr v = upd_gs (psx_write_word_raw (devs p) addr v)"

definition start_async_mdec_transfer :: "'x dports \<Rightarrow> nat \<Rightarrow> 'x dsys \<Rightarrow> 'x dsys" where
  "start_async_mdec_transfer p ch s =
     (if as_active (mdec_async (dma s) ch) \<noteq> 0 then s
      else let total = transfer_word_count p ch s; h = mdec_view p (gs s);
               s = mdec_do (if ch = 0 then mdec_debug_dma_in_start h total else mdec_debug_dma_out_start h total) s
           in upd_dma (\<lambda>d. d\<lparr>mdec_async := (mdec_async d)(ch :=
                (mdec_async d ch)\<lparr>as_active := 1, as_started := 1, as_total := total,
                                  as_remaining := total, as_accum := 0\<rparr>)\<rparr>) s)"

definition finish_async_mdec_transfer :: "'x dports \<Rightarrow> nat \<Rightarrow> u32 \<Rightarrow> u32 \<Rightarrow> 'x dsys \<Rightarrow> 'x dsys" where
  "finish_async_mdec_transfer p ch final_addr total_words s =
     (let h = mdec_view p (gs s);
          s = mdec_do (if ch = 0 then mdec_debug_dma_in_end h total_words
                       else mdec_debug_dma_out_end h total_words) s
      in complete_transfer ch (cancel_async_transfer p ch s))"

definition use_words :: "nat \<Rightarrow> u32 \<Rightarrow> 'x dsys \<Rightarrow> 'x dsys" where
  "use_words ch n = upd_dma (\<lambda>d. d\<lparr>mdec_async := (mdec_async d)(ch :=
     (mdec_async d ch)\<lparr>as_remaining := as_remaining (mdec_async d ch) - n\<rparr>)\<rparr>)"

text \<open>
  The two inner loops of \<open>advance_mdec_channel\<close>: address, budget left, words moved and state. Every
  round takes at least one of the remaining words, so they are the fuel. The host words of the burst
  are RAM's own bytes.
\<close>

definition ram_words :: "u32 \<Rightarrow> nat \<Rightarrow> 'x gsys \<Rightarrow> u32 list" where
  "ram_words addr n g = map (\<lambda>i. get32 (ram g) (addr + 4 * of_nat i)) [0..<n]"

fun mdec_burst ::
  "'x dports \<Rightarrow> nat \<Rightarrow> u32 \<Rightarrow> u32 \<Rightarrow> u32 \<Rightarrow> 'x dsys \<Rightarrow> (u32 \<times> u32 \<times> 'x dsys) option" where
  "mdec_burst p 0 addr budget moved s = Some (addr, moved, s)"
| "mdec_burst p (Suc k) addr budget moved s =
     (let left = as_remaining (mdec_async (dma s) 0);
          n = (if left < budget then left else budget);
          max_by_ram = (0x200000 - addr) div 4;
          n = (if n > max_by_ram then max_by_ram else n)
      in if \<not> (left > 0 \<and> budget > 0) \<or> \<not> mdec_dma_write_ready (mdc s) \<or> max_by_ram = 0
         then Some (addr, moved, s)
         else case mdec_dma_write_words (mdec_view p (gs s)) (ram_words addr (unat n) (gs s)) (mdc s) of
           None \<Rightarrow> None
         | Some (got, m) \<Rightarrow>
             let s = s\<lparr>mdc := m\<rparr> in
             if got = 0 then Some (addr, moved, s)
             else mdec_burst p k ((addr + of_nat got * 4) AND 0x1FFFFC) (budget - of_nat got)
                    (moved + of_nat got) (use_words 0 (of_nat got) s))"

fun mdec_word_loop ::
  "'x dports \<Rightarrow> nat \<Rightarrow> bool \<Rightarrow> nat \<Rightarrow> u32 \<Rightarrow> u32 \<Rightarrow> u32 \<Rightarrow> 'x dsys \<Rightarrow> u32 \<times> u32 \<times> 'x dsys" where
  "mdec_word_loop p ch step 0 addr budget moved s = (addr, moved, s)"
| "mdec_word_loop p ch step (Suc k) addr budget moved s =
     (if \<not> (as_remaining (mdec_async (dma s) ch) > 0 \<and> budget > 0) then (addr, moved, s)
      else if ch = 0
      then (if \<not> mdec_dma_write_ready (mdc s) then (addr, moved, s)
            else let (v, s) = dma_load p addr s;
                     s = mdec_do (mdec_dma_write_word (mdec_view p (gs s)) v) s
                 in mdec_word_loop p ch step k (next_addr step addr) (budget - 1) (moved + 1) (use_words ch 1 s))
      else (if \<not> mdec_dma_read_ready (mdc s) then (addr, moved, s)
            else let s = upd_dma (\<lambda>d. d\<lparr>cur_madr := addr\<rparr>) s;
                     (v, m) = mdec_dma_read_word (mdec_view p (gs s)) (mdc s);
                     s = dma_store p addr v (s\<lparr>mdc := m\<rparr>)
                 in mdec_word_loop p ch step k (next_addr step addr) (budget - 1) (moved + 1) (use_words ch 1 s)))"

definition mdec_cpw :: "nat \<Rightarrow> u32" where
  "mdec_cpw ch = (if ch = 0 then 1 else 14)"

definition sat_add :: "u32 \<Rightarrow> u32 \<Rightarrow> u32" where
  "sat_add accum cycles = (if cycles > UINT32_MAX - accum then UINT32_MAX else accum + cycles)"

definition set_accum :: "nat \<Rightarrow> u32 \<Rightarrow> 'x dsys \<Rightarrow> 'x dsys" where
  "set_accum ch v = upd_dma (\<lambda>d. d\<lparr>mdec_async := (mdec_async d)(ch := (mdec_async d ch)\<lparr>as_accum := v\<rparr>)\<rparr>)"

definition mdec_move ::
  "'x dports \<Rightarrow> nat \<Rightarrow> u32 \<Rightarrow> 'x dsys \<Rightarrow> (u32 \<times> u32 \<times> 'x dsys) option" where
  "mdec_move p ch budget s =
     (let addr = chan_addr ch s; fuel = unat (as_remaining (mdec_async (dma s) ch));
          s = (if ch = 1
               then upd_dma (\<lambda>d. d\<lparr>exec_depth := exec_depth d + 1, cur_ch := 1, cur_bcr := bcr (chan d 1),
                                   initiator_pc := ch_initiator d 1\<rparr>) s
               else s)
      in case (if ch = 0 \<and> \<not> chan_step ch s then mdec_burst p fuel addr budget 0 s
               else Some (mdec_word_loop p ch (chan_step ch s) fuel addr budget 0 s)) of
        None \<Rightarrow> None
      | Some (addr, moved, s) \<Rightarrow>
          Some (addr, moved,
            if ch = 1 then upd_dma (\<lambda>d. d\<lparr>cur_ch := - 1, exec_depth := exec_depth d - 1\<rparr>) s else s))"

definition advance_mdec_channel :: "'x dports \<Rightarrow> nat \<Rightarrow> u32 \<Rightarrow> 'x dsys \<Rightarrow> 'x dsys option" where
  "advance_mdec_channel p ch cycles s =
     (let a = mdec_async (dma s) ch; direction = chcr_of ch s AND 1 in
      if as_active a = 0 then Some s
      else if drop_bit 24 (chcr_of ch s) AND 1 = 0 \<or> \<not> channel_enabled ch (dma s) then Some s
      else if ch = 0 \<and> direction = 0 \<or> ch = 1 \<and> direction \<noteq> 0
      then Some (finish_async_mdec_transfer p ch (chan_addr ch s) (as_total a) s)
      else if (if ch = 0 then \<not> mdec_dma_write_ready (mdc s) else \<not> mdec_dma_read_ready (mdc s)) then Some s
      else
        let s = set_accum ch (sat_add (as_accum a) cycles) s;
            words_budget = as_accum (mdec_async (dma s) ch) div mdec_cpw ch
        in if words_budget = 0 then Some s
           else case mdec_move p ch words_budget s of
             None \<Rightarrow> None
           | Some (addr, moved, s) \<Rightarrow>
               if moved = 0 then Some s
               else let s = set_madr ch addr
                          (set_accum ch (as_accum (mdec_async (dma s) ch) - moved * mdec_cpw ch) s)
                    in Some (if as_remaining (mdec_async (dma s) ch) = 0
                             then finish_async_mdec_transfer p ch addr (as_total (mdec_async (dma s) ch)) s
                             else s))"

text \<open>The synchronous forms of the two decoder transfers, which no caller uses.\<close>

fun feed_mdec :: "'x dports \<Rightarrow> bool \<Rightarrow> nat \<Rightarrow> u32 \<Rightarrow> 'x dsys \<Rightarrow> u32 \<times> 'x dsys" where
  "feed_mdec p step 0 addr s = (addr, s)"
| "feed_mdec p step (Suc n) addr s =
     (let (v, s) = dma_load p addr s
      in feed_mdec p step n (next_addr step addr) (mdec_do (mdec_dma_write_word (mdec_view p (gs s)) v) s))"

definition execute_ch0_mdec_in :: "'x dports \<Rightarrow> 'x dsys \<Rightarrow> 'x dsys option" where
  "execute_ch0_mdec_in p s =
     (if chcr_of 0 s AND 1 = 0 then Some (complete_transfer 0 s)
      else
        let total = transfer_word_count p 0 s; addr = chan_addr 0 s; step = chan_step 0 s;
            s = mdec_do (mdec_debug_dma_in_start (mdec_view p (gs s)) total) s
        in case (if \<not> step \<and> total > 0 \<and> addr + total * 4 \<le> 0x200000
                 then (case mdec_dma_write_words (mdec_view p (gs s)) (ram_words addr (unat total) (gs s)) (mdc s) of
                         None \<Rightarrow> None
                       | Some (got, m) \<Rightarrow>
                           Some (feed_mdec p False (unat total - got) ((addr + of_nat got * 4) AND 0x1FFFFC) (s\<lparr>mdc := m\<rparr>)))
                 else Some (feed_mdec p step (unat total) addr s)) of
          None \<Rightarrow> None
        | Some (addr, s) \<Rightarrow>
            Some (complete_transfer 0 (set_madr 0 addr
              (mdec_do (mdec_debug_dma_in_end (mdec_view p (gs s)) total) s))))"

fun drain_mdec :: "'x dports \<Rightarrow> bool \<Rightarrow> nat \<Rightarrow> u32 \<Rightarrow> 'x dsys \<Rightarrow> u32 \<times> 'x dsys" where
  "drain_mdec p step 0 addr s = (addr, s)"
| "drain_mdec p step (Suc n) addr s =
     (let (v, m) = mdec_dma_read_word (mdec_view p (gs s)) (mdc s)
      in drain_mdec p step n (next_addr step addr) (dma_store p addr v (s\<lparr>mdc := m\<rparr>)))"

definition execute_ch1_mdec_out :: "'x dports \<Rightarrow> 'x dsys \<Rightarrow> 'x dsys" where
  "execute_ch1_mdec_out p s =
     (if chcr_of 1 s AND 1 \<noteq> 0 then complete_transfer 1 s
      else
        let total = transfer_word_count p 1 s; addr = chan_addr 1 s;
            s = mdec_do (mdec_debug_dma_out_start (mdec_view p (gs s)) total) s;
            (addr, s) = drain_mdec p (chan_step 1 s) (unat total) addr s
        in complete_transfer 1 (set_madr 1 addr
             (mdec_do (mdec_debug_dma_out_end (mdec_view p (gs s)) total) s)))"

subsection \<open>The CD channel\<close>

definition start_async_cdrom_transfer :: "'x dports \<Rightarrow> 'x dsys \<Rightarrow> 'x dsys" where
  "start_async_cdrom_transfer p s =
     (if as_active (cdrom_async (dma s)) \<noteq> 0 then s
      else
        let total = transfer_word_count p 3 s; addr = chan_addr 3 s;
            s = upd_dma (\<lambda>d. d\<lparr>cdrom_async := \<lparr>as_active = 1, as_started = 0, as_total = total,
                  as_remaining = total, as_accum = 0, as_start = addr\<rparr>\<rparr>) s;
            s = start_cdrom_dma_capture p total s
        in if total = 0
           then complete_transfer 3 (cancel_async_transfer p 3 (finish_cdrom_dma_capture p (chan_addr 3 s) 1 s))
           else s)"

definition finish_async_cdrom_transfer :: "'x dports \<Rightarrow> u32 \<Rightarrow> 'x dsys \<Rightarrow> 'x dsys" where
  "finish_async_cdrom_transfer p final_addr s0 =
     (let s = finish_cdrom_dma_capture p final_addr 1 s0;
          a = cdrom_async (dma s);
          load_start = as_start a;
          sz = as_total a * 4;
          s = (if \<not> chan_step 3 s \<and> sz > 0 \<and> load_start < 0x1C0000
               then let sz = (if sz > 0x200000 - load_start then 0x200000 - load_start else sz);
                        lba = cd_setloc_lba p (gs s);
                        s = (if lba \<ge> 0 then upd_dma (cd_dma_log_push lba load_start sz) s else s)
                    in upd_gs (overlay_on p load_start sz) s
               else s)
      in complete_transfer 3 (cancel_async_transfer p 3 (set_madr 3 final_addr s)))"

definition execute_ch3_cdrom :: "'x dports \<Rightarrow> 'x dsys \<Rightarrow> 'x dsys" where
  "execute_ch3_cdrom p s =
     (if chcr_of 3 s AND 1 \<noteq> 0
      then upd_chan 3 (\<lambda>c. c\<lparr>chcr := chcr c AND NOT (push_bit 24 1 OR push_bit 28 1)\<rparr>) s
      else start_async_cdrom_transfer p s)"

subsection \<open>The GPU channel\<close>

text \<open>The GPU's answers into RAM, and RAM words to the GPU's port.\<close>

fun gpu_to_ram :: "'x dports \<Rightarrow> bool \<Rightarrow> nat \<Rightarrow> u32 \<Rightarrow> 'x dsys \<Rightarrow> u32 \<times> 'x dsys" where
  "gpu_to_ram p step 0 addr s = (addr, s)"
| "gpu_to_ram p step (Suc n) addr s =
     (let (v, g) = gpu_read (devs p) (gs s)
      in gpu_to_ram p step n (next_addr step addr) (dma_store p addr v (s\<lparr>gs := g\<rparr>)))"

definition gp0_word :: "'x dports \<Rightarrow> u32 \<Rightarrow> 'x dsys \<Rightarrow> 'x dsys" where
  "gp0_word p addr s =
     (let (w, s) = dma_load p addr s
      in upd_gs (gpu_gp0 (devs p) w) (upd_gs (gp0_source p addr) s))"

fun ram_to_gpu :: "'x dports \<Rightarrow> bool \<Rightarrow> nat \<Rightarrow> u32 \<Rightarrow> 'x dsys \<Rightarrow> u32 \<times> 'x dsys" where
  "ram_to_gpu p step 0 addr s = (addr, s)"
| "ram_to_gpu p step (Suc n) addr s = ram_to_gpu p step n (next_addr step addr) (gp0_word p addr s)"

definition resolve :: "u32 \<Rightarrow> 'x dsys \<Rightarrow> u32" where
  "resolve addr s = psx_mod_gpu_dma_resolve_address addr (gs s)"

text \<open>The words of a node, each address resolved again.\<close>

fun ll_words :: "'x dports \<Rightarrow> nat \<Rightarrow> u32 \<Rightarrow> 'x dsys \<Rightarrow> 'x dsys" where
  "ll_words p 0 addr s = s"
| "ll_words p (Suc n) addr s = (let s = gp0_word p addr s in ll_words p n (resolve (addr + 4) s) s)"

text \<open>The signed 11-bit abscissa of a vertex word.\<close>

definition vertex_sx :: "u32 \<Rightarrow> int" where
  "vertex_sx xy = (let sx = uint (xy AND 0x7FF) in if sx AND 0x400 \<noteq> 0 then sx - 0x800 else sx)"

text \<open>The opt-in filter on glow packets of one band of the ordering table.\<close>

fun sx_scan :: "'x dports \<Rightarrow> u32 list \<Rightarrow> u32 \<Rightarrow> int \<Rightarrow> 'x dsys \<Rightarrow> int \<times> 'x dsys" where
  "sx_scan p [] word_addr sx_max s = (sx_max, s)"
| "sx_scan p (vi # vis) word_addr sx_max s =
     (let (xy, s) = dma_load p (resolve (word_addr + vi * 4) s) s;
          sx = vertex_sx xy
      in sx_scan p vis word_addr (if sx > sx_max then sx else sx_max) s)"

definition ll_emit :: "'x dports \<Rightarrow> u32 \<Rightarrow> u32 \<Rightarrow> u32 \<Rightarrow> 'x dsys \<Rightarrow> bool \<times> 'x dsys" where
  "ll_emit p num_words ot_rank word_addr s =
     (if flap_last p \<and> num_words \<ge> 6 \<and> ot_rank \<ge> 1600 \<and> ot_rank < 2100
      then let (cmd, s) = dma_load p word_addr s in
           if drop_bit 24 cmd AND 0xFF = 0x36
           then let (sx_max, s) = sx_scan p [1, 3, 5] word_addr (- 0x8000) s in (\<not> sx_max \<ge> 280, s)
           else (True, s)
      else (True, s))"

text \<open>
  The walk over the nodes: the last address, the words counted and the state. \<open>MAX_NODES\<close> lets
  \<open>0x40001\<close> nodes through; the count of nodes still allowed is the fuel.
\<close>

fun ll_walk :: "'x dports \<Rightarrow> nat \<Rightarrow> u32 \<Rightarrow> u32 \<Rightarrow> u32 \<Rightarrow> 'x dsys \<Rightarrow> u32 \<times> u32 \<times> 'x dsys" where
  "ll_walk p 0 addr ot_rank words s = (addr, words, s)"
| "ll_walk p (Suc k) addr ot_rank words s =
     (let (header, s) = dma_load p addr s;
          num_words = drop_bit 24 header AND 0xFF;
          word_addr = resolve (addr + 4) s;
          ot_rank = (if num_words = 0 then (if ot_rank = 0xFFFFFFFF then 0 else ot_rank + 1) else ot_rank);
          (emit, s) = ll_emit p num_words ot_rank word_addr s;
          (words, s) = (if emit
             then (words + 1 + num_words,
                   ll_words p (unat num_words) word_addr (upd_gs (gp0_node p addr num_words) s))
             else (words, s));
          next = header AND 0xFFFFFF
      in if next = 0xFFFFFF then (0x00FFFFFF, words, s)
         else ll_walk p k (resolve next s) ot_rank words s)"

definition execute_ch2_gpu :: "'x dports \<Rightarrow> 'x dsys \<Rightarrow> u32 \<times> 'x dsys" where
  "execute_ch2_gpu p s =
     (let direction = chcr_of 2 s AND 1; step = chan_step 2 s;
          sync_mode = drop_bit 9 (chcr_of 2 s) AND 3;
          b = bcr (chan (dma s) 2);
          block_words = (b AND 0xFFFF) * (drop_bit 16 b AND 0xFFFF);
          addr = chan_addr 2 s
      in if direction = 0
         then (if sync_mode = 1
               then let (a, s) = gpu_to_ram p step (unat block_words) addr s in (block_words, set_madr 2 a s)
               else (0, s))
         else if sync_mode = 1
         then (let (a, s) = ram_to_gpu p step (unat block_words) addr s in (block_words, set_madr 2 a s))
         else if sync_mode = 2
         then (let s = upd_gs (ws_begin p) s;
                   start_addr = resolve (madr (chan (dma s) 2)) s;
                   s = upd_gs (ws_prepass p start_addr) s;
                   (last_addr, words, s) = ll_walk p 0x40001 start_addr 0xFFFFFFFF 0 s
               in (words, upd_gs (ws_end p) (set_madr 2 last_addr s)))
         else (let n = (if b AND 0xFFFF = 0 then 0x10000 else b AND 0xFFFF);
                   (a, s) = ram_to_gpu p step (unat n) addr s
               in (n, set_madr 2 a s)))"

subsection \<open>The SPU, PIO and ordering-table channels\<close>

fun ram_to_spu :: "'x dports \<Rightarrow> bool \<Rightarrow> nat \<Rightarrow> u32 \<Rightarrow> 'x dsys \<Rightarrow> u32 \<times> 'x dsys" where
  "ram_to_spu p step 0 addr s = (addr, s)"
| "ram_to_spu p step (Suc n) addr s =
     (let (w, s) = dma_load p addr s in ram_to_spu p step n (next_addr step addr) (upd_gs (spu_put p w) s))"

fun spu_to_ram :: "'x dports \<Rightarrow> bool \<Rightarrow> nat \<Rightarrow> u32 \<Rightarrow> 'x dsys \<Rightarrow> u32 \<times> 'x dsys" where
  "spu_to_ram p step 0 addr s = (addr, s)"
| "spu_to_ram p step (Suc n) addr s =
     (let (w, g) = spu_get p (gs s)
      in spu_to_ram p step n (next_addr step addr) (dma_store p addr w (s\<lparr>gs := g\<rparr>)))"

definition execute_ch4_spu :: "'x dports \<Rightarrow> 'x dsys \<Rightarrow> u32 \<times> 'x dsys" where
  "execute_ch4_spu p s =
     (let total = transfer_word_count p 4 s; addr = chan_addr 4 s;
          to_spu = chcr_of 4 s AND 1 \<noteq> 0;
          (a, s) = (if to_spu then ram_to_spu p (chan_step 4 s) (unat total) addr s
                    else spu_to_ram p (chan_step 4 s) (unat total) addr s);
          s = upd_gs (audio_event p (if to_spu then 8 else 11) total (chan_addr 4 s)) s
      in (total, set_madr 4 a s))"

fun otc_fill :: "'x dports \<Rightarrow> nat \<Rightarrow> u32 \<Rightarrow> 'x dsys \<Rightarrow> 'x dsys" where
  "otc_fill p 0 addr s = s"
| "otc_fill p (Suc n) addr s =
     otc_fill p n ((addr - 4) AND 0x1FFFFC)
       (dma_store p addr (if n = 0 then 0x00FFFFFF else (addr - 4) AND 0x00FFFFFF) s)"

definition execute_ch6_otc :: "'x dports \<Rightarrow> 'x dsys \<Rightarrow> 'x dsys" where
  "execute_ch6_otc p s =
     (let n = bcr (chan (dma s) 6) AND 0xFFFF; n = (if n = 0 then 0x10000 else n)
      in complete_transfer 6 (otc_fill p (unat n) (chan_addr 6 s) s))"

fun pio_read :: "'x dports \<Rightarrow> bool \<Rightarrow> nat \<Rightarrow> u32 \<Rightarrow> 'x dsys \<Rightarrow> u32 \<times> 'x dsys" where
  "pio_read p step 0 addr s = (addr, s)"
| "pio_read p step (Suc n) addr s = pio_read p step n (next_addr step addr) (snd (dma_load p addr s))"

fun pio_clear :: "'x dports \<Rightarrow> bool \<Rightarrow> nat \<Rightarrow> u32 \<Rightarrow> 'x dsys \<Rightarrow> u32 \<times> 'x dsys" where
  "pio_clear p step 0 addr s = (addr, s)"
| "pio_clear p step (Suc n) addr s = pio_clear p step n (next_addr step addr) (dma_store p addr 0 s)"

definition execute_ch5_pio :: "'x dports \<Rightarrow> 'x dsys \<Rightarrow> 'x dsys" where
  "execute_ch5_pio p s =
     (let total = transfer_word_count p 5 s; addr = chan_addr 5 s;
          (a, s) = (if chcr_of 5 s AND 1 = 1 then pio_read p (chan_step 5 s) (unat total) addr s
                    else pio_clear p (chan_step 5 s) (unat total) addr s)
      in complete_transfer 5 (set_madr 5 a s))"

subsection \<open>The kick\<close>

definition run_channel :: "'x dports \<Rightarrow> nat \<Rightarrow> 'x dsys \<Rightarrow> 'x dsys option" where
  "run_channel p ch s =
     (if ch = 0 then Some (start_async_mdec_transfer p 0 s)
      else if ch = 1 then Some (start_async_mdec_transfer p 1 s)
      else if ch = 2 then (let (n, s) = execute_ch2_gpu p s in Some (schedule_delayed_complete 2 n 1 s))
      else if ch = 3 then Some (execute_ch3_cdrom p s)
      else if ch = 4 then (let (n, s) = execute_ch4_spu p s in Some (schedule_delayed_complete 4 n 48 s))
      else if ch = 5 then Some (execute_ch5_pio p s)
      else if ch = 6 then Some (execute_ch6_otc p s)
      else None)"

definition try_execute :: "'x dports \<Rightarrow> nat \<Rightarrow> 'x dsys \<Rightarrow> 'x dsys option" where
  "try_execute p ch s =
     (if drop_bit 24 (chcr_of ch s) AND 1 = 0 then Some s
      else if \<not> channel_enabled ch (dma s) then Some s
      else
        let s = upd_chan ch (\<lambda>c. c\<lparr>chcr := chcr c AND NOT (push_bit 28 1)\<rparr>) s;
            s = trace_dma 0x53 ch (transfer_word_count p ch s) (dicr (dma s)) (i_stat (ienv s)) s;
            s = event_aux EV_DMA_KICK (of_nat ch) (chcr_of ch s) s;
            s = event_aux EV_ENQ (SRC_DMA0 + of_nat ch) (transfer_word_count p ch s) s
        in if \<not> validate_transfer_length p ch s then None
           else
             let pc = ec_pc (ctx (ienv s));
                 s = upd_dma (\<lambda>d. d\<lparr>ch_initiator := (ch_initiator d)(ch := pc), initiator_pc := pc,
                       exec_depth := exec_depth d + 1, cur_ch := int ch,
                       cur_madr := madr (chan d ch), cur_bcr := bcr (chan d ch)\<rparr>) s
             in map_option (upd_dma (\<lambda>d. d\<lparr>exec_depth := exec_depth d - 1, cur_ch := - 1\<rparr>)) (run_channel p ch s))"

subsection \<open>Time\<close>

definition dma_cdrom_transfer_active :: "dma_state \<Rightarrow> bool" where
  "dma_cdrom_transfer_active d \<longleftrightarrow>
     as_active (cdrom_async d) \<noteq> 0 \<and> drop_bit 24 (chcr (chan d 3)) AND 1 \<noteq> 0
     \<and> channel_enabled 3 d \<and> chcr (chan d 3) AND 1 = 0"

definition async_estimate :: "dma_async \<Rightarrow> u32" where
  "async_estimate a = (if as_remaining a > as_accum a then as_remaining a - as_accum a else 0)"

text \<open>The channels with an async transfer: channel number and its state.\<close>

definition async_channels :: "dma_state \<Rightarrow> (nat \<times> dma_async) list" where
  "async_channels d = [(0, mdec_async d 0), (1, mdec_async d 1), (3, cdrom_async d)]"

definition earlier :: "bool \<Rightarrow> u32 \<Rightarrow> u32 \<Rightarrow> u32" where
  "earlier cond est best = (if cond \<and> est < best then est else best)"

definition dma_cycles_to_irq :: "u32 \<Rightarrow> dma_state \<Rightarrow> u32" where
  "dma_cycles_to_irq im d =
     (if im AND push_bit 3 1 = 0 then UINT32_MAX
      else
        let best = foldl (\<lambda>best (ch, a). earlier (as_active a \<noteq> 0 \<and> as_remaining a \<noteq> 0) (async_estimate a) best)
                     UINT32_MAX (async_channels d)
        in foldl (\<lambda>best ch. earlier (dl_active (delayed d ch) \<noteq> 0) (dl_remaining (delayed d ch)) best)
             best [0..<7])"

definition dma_cycles_to_deliverable_irq :: "u32 \<Rightarrow> dma_state \<Rightarrow> u32" where
  "dma_cycles_to_deliverable_irq im d =
     (if im AND push_bit 3 1 = 0 then UINT32_MAX
      else
        let best = foldl (\<lambda>best (ch, a). earlier
                       (channel_irq_flag_armed ch d \<and> as_active a \<noteq> 0 \<and> as_remaining a \<noteq> 0) (async_estimate a) best)
                     UINT32_MAX (async_channels d)
        in foldl (\<lambda>best ch. earlier (channel_irq_flag_armed ch d \<and> dl_active (delayed d ch) \<noteq> 0)
                     (dl_remaining (delayed d ch)) best) best [0..<7])"

text \<open>\<open>Inl 1\<close> is an early return of 1.\<close>

definition mdec_event_step :: "mdec \<Rightarrow> dma_state \<Rightarrow> nat \<Rightarrow> u32 + u32 \<Rightarrow> u32 + u32" where
  "mdec_event_step m d ch r =
     (case r of Inl v \<Rightarrow> Inl v
      | Inr best \<Rightarrow>
        let a = mdec_async d ch; c = chcr (chan d ch); direction = c AND 1 in
        if as_active a = 0 \<or> as_remaining a = 0 \<or> drop_bit 24 c AND 1 = 0 \<or> \<not> channel_enabled ch d
        then Inr best
        else if ch = 0 \<and> direction = 0 \<or> ch = 1 \<and> direction \<noteq> 0 then Inl 1
        else if ch = 0 \<and> \<not> mdec_dma_write_ready m \<or> ch = 1 \<and> \<not> mdec_dma_read_ready m then Inr best
        else Inr (earlier True (if as_accum a < mdec_cpw ch then mdec_cpw ch - as_accum a else 1) best))"

definition cdrom_event_step :: "bool \<Rightarrow> dma_state \<Rightarrow> u32 + u32 \<Rightarrow> u32 + u32" where
  "cdrom_event_step ready d r =
     (case r of Inl v \<Rightarrow> Inl v
      | Inr best \<Rightarrow>
        let a = cdrom_async d; c = chcr (chan d 3) in
        if as_active a \<noteq> 0 \<and> as_remaining a \<noteq> 0 \<and> drop_bit 24 c AND 1 \<noteq> 0 \<and> channel_enabled 3 d
        then (if c AND 1 \<noteq> 0 then Inl 1
              else if ready then Inr (earlier True (if as_accum a < 1 then 1 - as_accum a else 1) best)
              else Inr best)
        else Inr best)"

definition dma_cycles_to_internal_event :: "'x dports \<Rightarrow> 'x dsys \<Rightarrow> u32" where
  "dma_cycles_to_internal_event p s =
     (let d = dma s in
      case cdrom_event_step (cd_ready p (gs s)) d
             (mdec_event_step (mdc s) d 1 (mdec_event_step (mdc s) d 0 (Inr UINT32_MAX))) of
        Inl v \<Rightarrow> v
      | Inr best \<Rightarrow> foldl (\<lambda>best ch. earlier (dl_active (delayed d ch) \<noteq> 0) (dl_remaining (delayed d ch)) best)
                      best [0..<7])"

text \<open>The CD word loop: address, words moved and state.\<close>

fun cd_words :: "'x dports \<Rightarrow> nat \<Rightarrow> bool \<Rightarrow> u32 \<Rightarrow> u32 \<Rightarrow> u32 \<Rightarrow> 'x dsys \<Rightarrow> u32 \<times> u32 \<times> 'x dsys" where
  "cd_words p 0 step addr budget moved s = (addr, moved, s)"
| "cd_words p (Suc k) step addr budget moved s =
     (if \<not> (as_remaining (cdrom_async (dma s)) > 0 \<and> budget > 0 \<and> cd_ready p (gs s)) then (addr, moved, s)
      else let (w, g) = cd_get p (gs s);
               s = upd_dma (\<lambda>d. d\<lparr>cur_madr := addr\<rparr>) (s\<lparr>gs := g\<rparr>);
               s = dma_store p addr w s;
               s = upd_dma (record_cdrom_dma_word w) s;
               s = upd_gs (mark_exec p addr 4) s;
               s = upd_dma (\<lambda>d. d\<lparr>cdrom_async := (cdrom_async d)\<lparr>as_remaining := as_remaining (cdrom_async d) - 1\<rparr>\<rparr>) s
           in cd_words p k step (next_addr step addr) (budget - 1) (moved + 1) s)"

definition set_cd_accum :: "u32 \<Rightarrow> 'x dsys \<Rightarrow> 'x dsys" where
  "set_cd_accum v = upd_dma (\<lambda>d. d\<lparr>cdrom_async := (cdrom_async d)\<lparr>as_accum := v\<rparr>\<rparr>)"

text \<open>The provenance of the deferred writes, and the capture of outgoing code before the first word.\<close>

definition cd_prepare :: "'x dports \<Rightarrow> u32 \<Rightarrow> u32 \<Rightarrow> 'x dsys \<Rightarrow> 'x dsys" where
  "cd_prepare p words_budget addr s =
     (let a = cdrom_async (dma s);
          s = upd_dma (\<lambda>d. d\<lparr>cur_ch := 3, cur_bcr := bcr (chan d 3), initiator_pc := ch_initiator d 3\<rparr>) s
      in if as_remaining a = as_total a \<and> words_budget > 0 \<and> addr < 0x1C0000
         then let bytes = as_total a * 4;
                  bytes = (if bytes > 0x200000 - addr then 0x200000 - addr else bytes)
              in upd_gs (overlay_before p addr bytes) s
         else s)"

definition advance_cdrom :: "'x dports \<Rightarrow> u32 \<Rightarrow> 'x dsys \<Rightarrow> 'x dsys" where
  "advance_cdrom p cycles s =
     (if \<not> dma_cdrom_transfer_active (dma s) then s
      else if chcr_of 3 s AND 1 \<noteq> 0
      then upd_chan 3 (\<lambda>c. c\<lparr>chcr := chcr c AND NOT (push_bit 24 1 OR push_bit 28 1)\<rparr>) (cancel_async_transfer p 3 s)
      else if \<not> cd_ready p (gs s) then s
      else
        let s = set_cd_accum (sat_add (as_accum (cdrom_async (dma s))) cycles) s;
            words_budget = as_accum (cdrom_async (dma s)) div 1;
            addr = chan_addr 3 s;
            s = cd_prepare p words_budget addr s;
            (addr, moved, s) =
              cd_words p (unat (as_remaining (cdrom_async (dma s)))) (chan_step 3 s) addr words_budget 0 s
        in if moved > 0
           then let s = set_madr 3 addr (set_cd_accum (as_accum (cdrom_async (dma s)) - moved * 1) s)
                in if as_remaining (cdrom_async (dma s)) = 0 then finish_async_cdrom_transfer p addr s else s
           else s)"

definition dma_advance :: "'x dports \<Rightarrow> u32 \<Rightarrow> 'x dsys \<Rightarrow> 'x dsys option" where
  "dma_advance p cycles s =
     (if cycles = 0 then Some s
      else case advance_mdec_channel p 0 cycles (upd_dma (\<lambda>d. d\<lparr>exec_depth := exec_depth d + 1\<rparr>) s) of
        None \<Rightarrow> None
      | Some s \<Rightarrow>
        (case advance_mdec_channel p 1 cycles s of
           None \<Rightarrow> None
         | Some s \<Rightarrow>
           let s = advance_cdrom p cycles s;
               s = foldl (\<lambda>s ch. advance_delayed_complete ch cycles s) s [0..<7]
           in Some (upd_dma (\<lambda>d. d\<lparr>cur_ch := - 1, exec_depth := exec_depth d - 1\<rparr>) s)))"

subsection \<open>The registers\<close>

definition dma_trace_zero :: dma_trace_entry where
  "dma_trace_zero = \<lparr>te_seq = 0, te_frame = 0, te_kind = 0, te_channel = 0, te_total = 0, te_addr = 0,
     te_val = 0, te_mask = 0, te_madr = 0, te_bcr = 0, te_chcr = 0, te_dpcr = 0, te_dicr_before = 0,
     te_dicr_after = 0, te_i_stat_before = 0, te_i_stat_after = 0, te_func = 0, te_pc = 0\<rparr>"

definition dma_debug_clear_trace :: "dma_state \<Rightarrow> dma_state" where
  "dma_debug_clear_trace d = d\<lparr>dtr := (\<lambda>_. dma_trace_zero), dtr_seq := 0\<rparr>"

definition dma_debug_clear_cdrom_history :: "dma_state \<Rightarrow> dma_state" where
  "dma_debug_clear_cdrom_history d =
     d\<lparr>cd_hist := (\<lambda>_. cd_history_zero), cd_hist_cur := cd_history_zero, cd_hist_seq := 0, cd_hist_on := 0\<rparr>"

definition async_zero :: dma_async where
  "async_zero = \<lparr>as_active = 0, as_started = 0, as_total = 0, as_remaining = 0, as_accum = 0, as_start = 0\<rparr>"

definition dma_init :: "dma_state \<Rightarrow> dma_state" where
  "dma_init d =
     dma_debug_clear_cdrom_history (dma_debug_clear_trace (d\<lparr>
       chan := (\<lambda>_. \<lparr>madr = 0, bcr = 0, chcr = 0\<rparr>), mdec_async := (\<lambda>_. async_zero),
       cdrom_async := async_zero, delayed := (\<lambda>_. \<lparr>dl_active = 0, dl_total = 0, dl_remaining = 0\<rparr>),
       dpcr := 0x07654321, dicr := 0\<rparr>))"

definition dma_get_dicr :: "dma_state \<Rightarrow> u32" where
  "dma_get_dicr d = dicr_read_value (dicr d)"

definition dma_get_dpcr :: "dma_state \<Rightarrow> u32" where
  "dma_get_dpcr d = dpcr d"

text \<open>The channel and the register offset of an address in the block.\<close>

definition in_channels :: "u32 \<Rightarrow> bool" where
  "in_channels addr \<longleftrightarrow> addr \<ge> 0x1F801080 \<and> addr \<le> 0x1F8010EF"

definition reg_chan :: "u32 \<Rightarrow> nat" where
  "reg_chan addr = unat ((addr - 0x1F801080) div 0x10)"

definition reg_off :: "u32 \<Rightarrow> u32" where
  "reg_off addr = (addr - 0x1F801080) mod 0x10"

definition dma_read :: "u32 \<Rightarrow> 'x dsys \<Rightarrow> u32 \<times> 'x dsys" where
  "dma_read addr s =
     (let c = chan (dma s) (reg_chan addr) in
      if addr = 0x1F8010F0 then (dpcr (dma s), s)
      else if addr = 0x1F8010F4 then (dma_get_dicr (dma s), s)
      else if in_channels addr \<and> reg_chan addr \<le> 6 \<and> reg_off addr = 0 then (madr c, s)
      else if in_channels addr \<and> reg_chan addr \<le> 6 \<and> reg_off addr = 4 then (bcr c, s)
      else if in_channels addr \<and> reg_chan addr \<le> 6 \<and> reg_off addr = 8 then (chcr c, s)
      else if in_channels addr \<and> reg_chan addr \<le> 6 \<and> reg_off addr = 12 then (0, s)
      else (0, upd_gs (\<lambda>g. g\<lparr>io_openbus_reads := io_openbus_reads g + 1\<rparr>) s))"

definition merge_reg :: "u32 \<Rightarrow> u32 \<Rightarrow> u32 \<Rightarrow> u32" where
  "merge_reg old val msk = (old AND NOT msk) OR (val AND msk)"

definition write_dicr :: "u32 \<Rightarrow> u32 \<Rightarrow> u32 \<Rightarrow> 'x dsys \<Rightarrow> 'x dsys" where
  "write_dicr addr val msk s =
     (let dicr_before = dicr (dma s); i_stat_before = i_stat (ienv s);
          s = upd_dma (\<lambda>d. d\<lparr>dicr := merge_reg (dicr d) val (DICR_WRITE_MASK AND msk)
                                  AND NOT (val AND (DICR_RESET_MASK AND msk))\<rparr>) s;
          s = raise_dma_irq_on_master_edge dicr_before s
      in trace_dma_reg_write addr val msk dicr_before i_stat_before s)"

definition write_chcr :: "'x dports \<Rightarrow> nat \<Rightarrow> u32 \<Rightarrow> u32 \<Rightarrow> 'x dsys \<Rightarrow> 'x dsys option" where
  "write_chcr p ch val msk s =
     (let s = upd_chan ch (\<lambda>c. c\<lparr>chcr := merge_reg (chcr c) val msk\<rparr>) s;
          s = (if msk AND push_bit 24 1 \<noteq> 0 \<and> drop_bit 24 (chcr_of ch s) AND 1 = 0
               then cancel_async_transfer p ch s else s)
      in if msk AND push_bit 24 1 \<noteq> 0 \<and> drop_bit 24 (chcr_of ch s) AND 1 \<noteq> 0
         then try_execute p ch s else Some s)"

definition dma_write_masked :: "'x dports \<Rightarrow> u32 \<Rightarrow> u32 \<Rightarrow> u32 \<Rightarrow> 'x dsys \<Rightarrow> 'x dsys option" where
  "dma_write_masked p addr val msk s =
     (let ch = reg_chan addr in
      if addr = 0x1F8010F0 then Some (upd_dma (\<lambda>d. d\<lparr>dpcr := merge_reg (dpcr d) val msk\<rparr>) s)
      else if addr = 0x1F8010F4 then Some (write_dicr addr val msk s)
      else if in_channels addr \<and> ch \<le> 6 \<and> reg_off addr = 0
      then Some (upd_chan ch (\<lambda>c. c\<lparr>madr := merge_reg (madr c) val msk\<rparr>) s)
      else if in_channels addr \<and> ch \<le> 6 \<and> reg_off addr = 4
      then Some (upd_chan ch (\<lambda>c. c\<lparr>bcr := merge_reg (bcr c) val msk\<rparr>) s)
      else if in_channels addr \<and> ch \<le> 6 \<and> reg_off addr = 8 then write_chcr p ch val msk s
      else if in_channels addr \<and> ch \<le> 6 \<and> reg_off addr = 12 then Some s
      else Some (upd_gs (\<lambda>g. g\<lparr>io_openbus_writes := io_openbus_writes g + 1\<rparr>) s))"

definition dma_write :: "'x dports \<Rightarrow> u32 \<Rightarrow> u32 \<Rightarrow> 'x dsys \<Rightarrow> 'x dsys option" where
  "dma_write p addr val = dma_write_masked p addr val 0xFFFFFFFF"

subsection \<open>Debug state and snapshot\<close>

record dma_channel_debug =
  db_chan :: dma_channel
  db_active :: bool
  db_remaining :: u32
  db_accum :: u32

definition dma_debug_channel :: "dma_state \<Rightarrow> nat \<Rightarrow> dma_channel_debug" where
  "dma_debug_channel d i =
     (let md = i < 2 \<and> as_active (mdec_async d i) \<noteq> 0; cd = i = 3 \<and> as_active (cdrom_async d) \<noteq> 0 in
      \<lparr>db_chan = chan d i, db_active = (md \<or> cd \<or> dl_active (delayed d i) \<noteq> 0),
       db_remaining = (if md then as_remaining (mdec_async d i) else if cd then as_remaining (cdrom_async d)
                       else dl_total (delayed d i)),
       db_accum = (if md then as_accum (mdec_async d i) else if cd then as_accum (cdrom_async d)
                   else dl_remaining (delayed d i))\<rparr>)"

definition dma_debug_get_state :: "dma_state \<Rightarrow> u32 \<times> u32 \<times> dma_channel_debug list" where
  "dma_debug_get_state d = (dpcr d, dma_get_dicr d, map (dma_debug_channel d) [0..<7])"

definition dma_snapshot_bytes :: nat where
  "dma_snapshot_bytes = 7 * 12 + 4 + 4 + 2 * 18 + 18 + 7 * 9"

definition dma_w_async :: "dma_async \<Rightarrow> pst_w \<Rightarrow> bool \<times> pst_w" where
  "dma_w_async a = w_and (pst_w_u8 (as_active a)) (w_and (pst_w_u8 (as_started a))
     (w_and (pst_w_u32 (as_total a)) (w_and (pst_w_u32 (as_remaining a))
       (w_and (pst_w_u32 (as_accum a)) (pst_w_u32 (as_start a))))))"

definition dma_w_delay :: "dma_delay \<Rightarrow> pst_w \<Rightarrow> bool \<times> pst_w" where
  "dma_w_delay l = w_and (pst_w_u8 (dl_active l)) (w_and (pst_w_u32 (dl_total l)) (pst_w_u32 (dl_remaining l)))"

definition dma_r_async :: "pst_r \<Rightarrow> (dma_async \<times> pst_r) option" where
  "dma_r_async r =
     (case r_many pst_r_u8 2 r of None \<Rightarrow> None | Some (fs, r) \<Rightarrow>
      case r_many pst_r_u32 4 r of None \<Rightarrow> None | Some (ws, r) \<Rightarrow>
        Some (\<lparr>as_active = fs ! 0, as_started = fs ! 1, as_total = ws ! 0, as_remaining = ws ! 1,
               as_accum = ws ! 2, as_start = ws ! 3\<rparr>, r))"

definition dma_r_delay :: "pst_r \<Rightarrow> (dma_delay \<times> pst_r) option" where
  "dma_r_delay r =
     (case pst_r_u8 r of None \<Rightarrow> None | Some (f, r) \<Rightarrow>
      case r_many pst_r_u32 2 r of None \<Rightarrow> None | Some (ws, r) \<Rightarrow>
        Some (\<lparr>dl_active = f, dl_total = ws ! 0, dl_remaining = ws ! 1\<rparr>, r))"

definition dma_r_channel :: "pst_r \<Rightarrow> (dma_channel \<times> pst_r) option" where
  "dma_r_channel r =
     (case r_many pst_r_u32 3 r of None \<Rightarrow> None | Some (ws, r) \<Rightarrow>
        Some (\<lparr>madr = ws ! 0, bcr = ws ! 1, chcr = ws ! 2\<rparr>, r))"

definition dma_snapshot_write :: "dma_state \<Rightarrow> u8 list" where
  "dma_snapshot_write d =
     pw_buf (w_all
       (concat (map (\<lambda>i. let c = chan d i in [pst_w_u32 (madr c), pst_w_u32 (bcr c), pst_w_u32 (chcr c)]) [0..<7]) @
        [pst_w_u32 (dpcr d), pst_w_u32 (dicr d),
         dma_w_async (mdec_async d 0), dma_w_async (mdec_async d 1), dma_w_async (cdrom_async d)] @
        map (\<lambda>i. dma_w_delay (delayed d i)) [0..<7])
       (pst_w_init (Some dma_snapshot_bytes)))"

text \<open>
  With the right length every read succeeds, so the fields are stored together; a wrong length
  stores nothing.
\<close>

definition dma_snapshot_read :: "u8 list \<Rightarrow> dma_state \<Rightarrow> bool \<times> dma_state" where
  "dma_snapshot_read bs d =
     (if length bs \<noteq> dma_snapshot_bytes then (False, d)
      else case r_many dma_r_channel 7 (pst_r_init bs) of None \<Rightarrow> (False, d) | Some (cs, r) \<Rightarrow>
      case r_many pst_r_u32 2 r of None \<Rightarrow> (False, d) | Some (gl, r) \<Rightarrow>
      case r_many dma_r_async 3 r of None \<Rightarrow> (False, d) | Some (asy, r) \<Rightarrow>
      case r_many dma_r_delay 7 r of None \<Rightarrow> (False, d) | Some (ds, r) \<Rightarrow>
        (True, d\<lparr>chan := (\<lambda>i. if i < 7 then cs ! i else chan d i), dpcr := gl ! 0, dicr := gl ! 1,
                 mdec_async := (\<lambda>i. if i < 2 then asy ! i else mdec_async d i), cdrom_async := asy ! 2,
                 delayed := (\<lambda>i. if i < 7 then ds ! i else delayed d i)\<rparr>))"

end
