(* ===== verification/DmaProps.thy ===== *)
theory DmaProps
  imports Dma MdecProps
begin

unbundle bit_operations_syntax

text \<open>
  What the DMA controller of Dma guarantees: its interrupt rises with the master flag of DICR and only
  then, delayed completions do not depend on how time is sliced, the ordering table the clear channel
  builds is the list the GPU channel walks, time always advances and the decoder stays within its
  buffers, no completion comes before the horizon, and the snapshot restores it.
\<close>

subsection \<open>What an update leaves alone\<close>

lemma upd_frames [simp]:
  "dma (upd_dma f s) = f (dma s)" "mdc (upd_dma f s) = mdc s" "gs (upd_dma f s) = gs s"
  "dma (upd_gs g s) = dma s" "mdc (upd_gs g s) = mdc s" "gs (upd_gs g s) = g (gs s)"
  "dma (mdec_do k s) = dma s" "mdc (mdec_do k s) = k (mdc s)" "gs (mdec_do k s) = gs s"
  by (simp_all add: upd_dma_def upd_gs_def mdec_do_def)

lemma upd_env_tenv [simp]: "tenv (tmr (upd_env f g)) = f (tenv (tmr g))"
  by (simp add: upd_env_def)

lemma event_aux_frames [simp]:
  "dma (event_aux k x a s) = dma s" "mdc (event_aux k x a s) = mdc s"
  "i_stat (ienv (event_aux k x a s)) = i_stat (ienv s)" "i_mask (ienv (event_aux k x a s)) = i_mask (ienv s)"
  "ram (gs (event_aux k x a s)) = ram (gs s)" 
  by (simp_all add: event_aux_def upd_env_def)

lemma upd_chan_frames [simp]:
  "mdc (upd_chan c f s) = mdc s" "gs (upd_chan c f s) = gs s"
  "dicr (dma (upd_chan c f s)) = dicr (dma s)" "dpcr (dma (upd_chan c f s)) = dpcr (dma s)"
  "mdec_async (dma (upd_chan c f s)) = mdec_async (dma s)" "cdrom_async (dma (upd_chan c f s)) = cdrom_async (dma s)"
  "delayed (dma (upd_chan c f s)) = delayed (dma s)"
  "chan (dma (upd_chan c f s)) = (chan (dma s))(c := f (chan (dma s) c))"
  by (simp_all add: upd_chan_def)

lemma trace_push_frames [simp]:
  "dicr (trace_push e d) = dicr d" "dpcr (trace_push e d) = dpcr d" "chan (trace_push e d) = chan d"
  "mdec_async (trace_push e d) = mdec_async d" "cdrom_async (trace_push e d) = cdrom_async d"
  "delayed (trace_push e d) = delayed d"
  by (simp_all add: trace_push_def)

lemma trace_dma_frames [simp]:
  "mdc (trace_dma k c n b i s) = mdc s" "gs (trace_dma k c n b i s) = gs s"
  "dicr (dma (trace_dma k c n b i s)) = dicr (dma s)" "dpcr (dma (trace_dma k c n b i s)) = dpcr (dma s)"
  "chan (dma (trace_dma k c n b i s)) = chan (dma s)"
  "mdec_async (dma (trace_dma k c n b i s)) = mdec_async (dma s)"
  "cdrom_async (dma (trace_dma k c n b i s)) = cdrom_async (dma s)"
  "delayed (dma (trace_dma k c n b i s)) = delayed (dma s)"
  by (simp_all add: trace_dma_def Let_def)

lemma trace_reg_frames [simp]:
  "mdc (trace_dma_reg_write a v k b i s) = mdc s" "gs (trace_dma_reg_write a v k b i s) = gs s"
  "dicr (dma (trace_dma_reg_write a v k b i s)) = dicr (dma s)"
  by (simp_all add: trace_dma_reg_write_def Let_def)

lemma raise_edge_frames [simp]:
  "dma (raise_dma_irq_on_master_edge b s) = dma s" "mdc (raise_dma_irq_on_master_edge b s) = mdc s"
  "ram (gs (raise_dma_irq_on_master_edge b s)) = ram (gs s)"
  by (simp_all add: raise_dma_irq_on_master_edge_def upd_env_def)

lemma raise_edge_stat:
  "i_stat (ienv (raise_dma_irq_on_master_edge b s)) =
     (if dicr_master_flag b = 0 \<and> dicr_master_flag (dicr (dma s)) \<noteq> 0
      then i_stat (ienv s) OR 8 else i_stat (ienv s))"
  by (simp add: raise_dma_irq_on_master_edge_def)

subsection \<open>The interrupt\<close>

lemma complete_dma [simp]:
  "mdec_async (dma (complete_transfer ch s)) = mdec_async (dma s)"
  "cdrom_async (dma (complete_transfer ch s)) = cdrom_async (dma s)"
  "delayed (dma (complete_transfer ch s)) = delayed (dma s)"
  "dpcr (dma (complete_transfer ch s)) = dpcr (dma s)"
  "mdc (complete_transfer ch s) = mdc s"
  "ram (gs (complete_transfer ch s)) = ram (gs s)"
  by (simp_all add: complete_transfer_def Let_def)

lemma complete_dicr:
  "dicr (dma (complete_transfer ch s)) =
    (if channel_irq_flag_armed ch (dma s) then dicr (dma s) OR push_bit (24 + ch) 1 else dicr (dma s))"
  by (simp add: complete_transfer_def Let_def channel_irq_flag_armed_def)

lemma complete_stat:
  "i_stat (ienv (complete_transfer ch s)) =
    (if dicr_master_flag (dicr (dma s)) = 0 \<and> dicr_master_flag (dicr (dma (complete_transfer ch s))) \<noteq> 0
     then i_stat (ienv s) OR 8 else i_stat (ienv s))"
  by (simp add: complete_dicr) (simp add: complete_transfer_def Let_def raise_edge_stat channel_irq_flag_armed_def)

text \<open>
  C35. The DMA interrupt: a completion and a write of DICR set bit 3 of I\_STAT exactly when the
  master flag of DICR rises by it, and leave every other bit alone; a completion latches its
  channel's flag exactly when the channel and the master enable are on.
\<close>

theorem dma_irq_edge:
  "i_stat (ienv (complete_transfer ch s)) =
    (if dicr_master_flag (dicr (dma s)) = 0 \<and> dicr_master_flag (dicr (dma (complete_transfer ch s))) \<noteq> 0
     then i_stat (ienv s) OR 8 else i_stat (ienv s))
   \<and> dicr (dma (complete_transfer ch s)) =
    (if channel_irq_flag_armed ch (dma s) then dicr (dma s) OR push_bit (24 + ch) 1 else dicr (dma s))
   \<and> i_stat (ienv (write_dicr addr val msk s)) =
    (if dicr_master_flag (dicr (dma s)) = 0 \<and> dicr_master_flag (dicr (dma (write_dicr addr val msk s))) \<noteq> 0
     then i_stat (ienv s) OR 8 else i_stat (ienv s))"
  using complete_stat [of ch s] complete_dicr [of ch s]
  by (simp add: write_dicr_def Let_def raise_edge_stat)

subsection \<open>Delayed completions\<close>

definition delay_ok :: "nat \<Rightarrow> 'x dsys \<Rightarrow> bool" where
  "delay_ok ch s \<longleftrightarrow> (dl_active (delayed (dma s) ch) \<noteq> 0 \<longrightarrow> dl_remaining (delayed (dma s) ch) \<noteq> 0)"

lemma advance_inactive: "dl_active (delayed (dma s) ch) = 0 \<Longrightarrow> advance_delayed_complete ch n s = s"
  by (simp add: advance_delayed_complete_def Let_def)

lemma advance_ok: "delay_ok ch s \<Longrightarrow> delay_ok ch (advance_delayed_complete ch n s)"
  by (auto simp: delay_ok_def advance_delayed_complete_def Let_def)

lemma advance_cong:
  assumes "unat n < unat (dl_remaining (delayed (dma s) ch))" "dl_active (delayed (dma s) ch) \<noteq> 0"
  shows "advance_delayed_complete ch n s = upd_dma (\<lambda>d. d\<lparr>delayed := (delayed d)(ch :=
     (delayed d ch)\<lparr>dl_remaining := dl_remaining (delayed d ch) - n\<rparr>)\<rparr>) s"
  using assms by (simp add: advance_delayed_complete_def Let_def word_less_nat_alt upd_dma_def)

lemma advance_Suc:
  assumes "delay_ok ch s" "Suc n < 2 ^ 32"
  shows "advance_delayed_complete ch (of_nat (Suc n)) s =
    advance_delayed_complete ch 1 (advance_delayed_complete ch (of_nat n) s)"
proof (cases "dl_active (delayed (dma s) ch) = 0")
  case True
  then show ?thesis by (simp add: advance_inactive)
next
  case act: False
  let ?r = "unat (dl_remaining (delayed (dma s) ch))"
  have u: "unat (of_nat n :: u32) = n" "unat (of_nat (Suc n) :: u32) = Suc n"
    using assms(2) by (simp_all only: unsigned_of_nat) (simp_all add: take_bit_nat_eq_self)
  show ?thesis
  proof (cases "n < ?r")
    case False
    then have "dl_active (delayed (dma (advance_delayed_complete ch (of_nat n) s)) ch) = 0"
      using act u(1) by (simp add: advance_delayed_complete_def Let_def word_less_nat_alt)
    moreover have "advance_delayed_complete ch (of_nat (Suc n)) s = advance_delayed_complete ch (of_nat n) s"
      using False u act unfolding advance_delayed_complete_def Let_def word_less_nat_alt by simp
    ultimately show ?thesis by (simp add: advance_inactive)
  next
    case True
    note n = advance_cong [of "of_nat n" s ch, OF _ act]
    have r: "unat (dl_remaining (delayed (dma s) ch) - of_nat n) = ?r - n"
      using True u(1) by (simp add: unat_sub word_le_nat_alt)
    let ?t = "advance_delayed_complete ch (of_nat n) s"
    have t: "?t = upd_dma (\<lambda>d. d\<lparr>delayed := (delayed d)(ch :=
     (delayed d ch)\<lparr>dl_remaining := dl_remaining (delayed d ch) - of_nat n\<rparr>)\<rparr>) s"
      using n u(1) True by simp
    have tr: "dl_remaining (delayed (dma ?t) ch) = dl_remaining (delayed (dma s) ch) - of_nat n"
      "dl_active (delayed (dma ?t) ch) \<noteq> 0"
      using act by (simp_all add: t)
    show ?thesis
    proof (cases "Suc n < ?r")
      case True
      have "advance_delayed_complete ch 1 ?t = upd_dma (\<lambda>d. d\<lparr>delayed := (delayed d)(ch :=
     (delayed d ch)\<lparr>dl_remaining := dl_remaining (delayed d ch) - 1\<rparr>)\<rparr>) ?t"
        by (rule advance_cong) (use True tr r in simp_all)
      moreover have "advance_delayed_complete ch (of_nat (Suc n)) s = upd_dma (\<lambda>d. d\<lparr>delayed := (delayed d)(ch :=
     (delayed d ch)\<lparr>dl_remaining := dl_remaining (delayed d ch) - of_nat (Suc n)\<rparr>)\<rparr>) s"
        by (rule advance_cong) (use True u act in simp_all)
      ultimately show ?thesis by (simp add: t upd_dma_def algebra_simps)
    next
      case False
      have "\<not> (1 :: u32) < dl_remaining (delayed (dma s) ch) - of_nat n"
        "\<not> of_nat (Suc n) < dl_remaining (delayed (dma s) ch)"
        using False r u by (simp_all add: word_less_nat_alt del: of_nat_Suc)
      then show ?thesis
        using act tr by (simp add: advance_delayed_complete_def [of ch "of_nat (Suc n)"]
            advance_delayed_complete_def [of ch 1] Let_def t upd_dma_def del: of_nat_Suc)
    qed
  qed
qed

lemma advance_zero: "delay_ok ch s \<Longrightarrow> advance_delayed_complete ch 0 s = s"
  by (auto simp: advance_delayed_complete_def Let_def delay_ok_def upd_dma_def word_neq_0_conv)

interpretation delay_clock: bulk_clock "delay_ok ch" "2 ^ 32" "\<lambda>n. advance_delayed_complete ch (of_nat n)"
    "advance_delayed_complete ch 1" for ch
proof unfold_locales
  fix s :: "'a dsys" and n :: nat
  show "delay_ok ch s \<Longrightarrow> delay_ok ch (advance_delayed_complete ch 1 s)" by (rule advance_ok)
  assume ok: "delay_ok ch s" and "n < 2 ^ 32"
  then show "advance_delayed_complete ch (of_nat n) s = (advance_delayed_complete ch 1 ^^ n) s"
  proof (induction n)
    case (Suc n)
    then show ?case using advance_Suc [of ch s n] by simp
  qed (simp add: advance_zero)
qed

text \<open>
  Slicing: however the guest cycles are cut into slices, a delayed completion is in the state
  one advance by their sum leaves, so the channel completes at the same cycle.
\<close>

theorem delayed_completion_sliced:
  assumes "delay_ok ch s" "sum_list ns < 2 ^ 32"
  shows "foldl (\<lambda>t n. advance_delayed_complete ch (of_nat n) t) s ns =
    advance_delayed_complete ch (of_nat (sum_list ns)) s"
  using assms by (rule delay_clock.adv_slices)

subsection \<open>The bits of DICR\<close>

lemma bit_write_mask: "bit DICR_WRITE_MASK i \<longleftrightarrow> i < 7 \<or> 15 \<le> i \<and> i < 24"
proof -
  have "DICR_WRITE_MASK = mask 7 OR push_bit 15 (mask 9)"
    by (simp add: mask_eq_exp_minus_1 push_bit_eq_mult)
  then show ?thesis by (simp only: bit_or_iff bit_push_bit_iff bit_mask_iff) auto
qed

lemma bit_reset_mask: "bit DICR_RESET_MASK i \<longleftrightarrow> 24 \<le> i \<and> i < 31"
proof -
  have "DICR_RESET_MASK = push_bit 24 (mask 7)"
    by (simp add: mask_eq_exp_minus_1 push_bit_eq_mult)
  then show ?thesis by (simp only: bit_push_bit_iff bit_mask_iff) auto
qed

lemma flags_pending: "v AND DICR_RESET_MASK \<noteq> 0 \<longleftrightarrow> (\<exists>k<7. bit v (24 + k))" for v :: u32
proof -
  have "v AND DICR_RESET_MASK \<noteq> 0 \<longleftrightarrow> (\<exists>i. bit (v AND DICR_RESET_MASK) i)"
    by (metis bit_0_eq bot_apply bot_bool_def bit_eqI)
  also have "\<dots> \<longleftrightarrow> (\<exists>i. bit v i \<and> 24 \<le> i \<and> i < 31)" by (simp only: bit_and_iff bit_reset_mask)
  also have "\<dots> \<longleftrightarrow> (\<exists>k<7. bit v (24 + k))"
  proof
    assume "\<exists>i. bit v i \<and> 24 \<le> i \<and> i < 31"
    then obtain i where "bit v i" "24 \<le> i" "i < 31" by blast
    then show "\<exists>k<7. bit v (24 + k)" by (intro exI [of _ "i - 24"]) auto
  qed auto
  finally show ?thesis .
qed

lemma master_flag_bits:
  "dicr_master_flag v = (if bit v 15 \<or> bit v 23 \<and> (\<exists>k<7. bit v (24 + k)) then push_bit 31 1 else 0)"
  using bit_iff_and_push_bit_not_eq_0 [of v 15] bit_iff_and_push_bit_not_eq_0 [of v 23]
  by (simp only: dicr_master_flag_def flags_pending)

lemma bit_read_value:
  "bit (dicr_read_value v) i =
    (if i = 31 then bit v 15 \<or> bit v 23 \<and> (\<exists>k<7. bit v (24 + k)) else bit v i)"
proof (cases "i < 32")
  case True
  have "bit (push_bit 31 1 :: u32) j \<longleftrightarrow> j = 31" for j by (auto simp: bit_push_bit_iff bit_1_iff simp del: push_bit_of_1 push_bit_numeral push_bit_eq_mult)
  then show ?thesis
    using True by (simp only: dicr_read_value_def master_flag_bits bit_or_iff bit_and_iff bit_not_iff if_distrib
        [of "\<lambda>w. bit w i"] bit_0_eq bot_apply bot_bool_def possible_bit_word) auto
next
  case False
  then show ?thesis by (auto dest: bit_imp_le_length)
qed

lemma dicr_written:
  "bit (dicr (dma (write_dicr addr val 0xFFFFFFFF s))) i =
    (if i < 7 \<or> 15 \<le> i \<and> i < 24 then bit val i
     else if 24 \<le> i \<and> i < 31 then bit (dicr (dma s)) i \<and> \<not> bit val i
     else bit (dicr (dma s)) i)"
proof -
  have masks: "dicr (dma (write_dicr addr val 0xFFFFFFFF s)) =
      ((dicr (dma s) AND NOT DICR_WRITE_MASK) OR (val AND DICR_WRITE_MASK)) AND NOT (val AND DICR_RESET_MASK)"
    by (simp add: write_dicr_def Let_def merge_reg_def and_all_ones)
  show ?thesis
  proof (cases "i < 32")
    case True
    then show ?thesis
      using bit_write_mask [of i] bit_reset_mask [of i]
      by (simp only: masks bit_and_iff bit_or_iff bit_not_iff possible_bit_word) auto
  next
    case False
    then show ?thesis by (auto dest: bit_imp_le_length)
  qed
qed

text \<open>
  Acknowledging: after a full write of DICR, reading it gives the written control and enable
  bits, the flags that were latched and not written one, and the master flag computed from them.
\<close>

theorem dicr_write_acknowledges:
  "bit (dma_get_dicr (dma (write_dicr addr val 0xFFFFFFFF s))) i =
    (if i < 7 \<or> 15 \<le> i \<and> i < 24 then bit val i
     else if 24 \<le> i \<and> i < 31 then bit (dicr (dma s)) i \<and> \<not> bit val i
     else if i = 31 then bit val 15 \<or> bit val 23 \<and> (\<exists>k<7. bit (dicr (dma s)) (24 + k) \<and> \<not> bit val (24 + k))
     else bit (dicr (dma s)) i)"
proof -
  have "(\<exists>k<7. bit (dicr (dma (write_dicr addr val 0xFFFFFFFF s))) (24 + k)) \<longleftrightarrow>
      (\<exists>k<7. bit (dicr (dma s)) (24 + k) \<and> \<not> bit val (24 + k))"
    by (auto simp: dicr_written)
  then show ?thesis by (simp add: dma_get_dicr_def bit_read_value dicr_written)
qed

subsection \<open>The ordering table\<close>

text \<open>Word \<open>j\<close> of RAM, and the list of \<open>n\<close> nodes that runs downwards from it.\<close>

abbreviation ram_at :: "nat \<Rightarrow> u32" where
  "ram_at j \<equiv> of_nat (4 * j)"

definition ot_list :: "(nat \<Rightarrow> u8) \<Rightarrow> nat \<Rightarrow> nat \<Rightarrow> bool" where
  "ot_list r j n \<longleftrightarrow>
     (\<forall>i<n. get32 r (ram_at (j - i)) = (if Suc i = n then 0x00FFFFFF else ram_at (j - Suc i)))"

lemma ram_at_unat: "j < 0x80000 \<Longrightarrow> unat (ram_at j) = 4 * j"
  by (simp add: unsigned_of_nat take_bit_nat_eq_self del: of_nat_mult of_nat_numeral)

lemma ram_at_word: "j < 0x80000 \<Longrightarrow> ram_word (ram_at j)"
proof -
  assume "j < 0x80000"
  then have "unat (ram_at j AND mask 2) = 0" by (simp only: unat_and_mask ram_at_unat) simp
  then have "ram_at j AND 3 = 0"
    by (simp add: mask_eq_exp_minus_1 unat_eq_0 del: of_nat_mult of_nat_numeral)
  then show ?thesis
    using \<open>j < 0x80000\<close> ram_at_unat [of j]
    by (simp add: ram_word_def word_aligned_def word_less_nat_alt del: of_nat_mult of_nat_numeral)
qed

lemma ram_at_inj: "i < 0x80000 \<Longrightarrow> j < 0x80000 \<Longrightarrow> ram_at i = ram_at j \<longleftrightarrow> i = j"
  using ram_at_unat [of i] ram_at_unat [of j] by (metis mult_cancel1 zero_neq_numeral)

lemma ram_at_shift: "ram_at j = push_bit 2 (of_nat j)"
  by (simp add: push_bit_eq_mult ac_simps)

lemma ram_at_low:
  assumes "j < 0x80000"
  shows "ram_at j AND 0x1FFFFC = ram_at j" "ram_at j AND 0x00FFFFFC = ram_at j" "ram_at j AND 0x00FFFFFF = ram_at j"
proof -
  have j: "unat (of_nat j :: u32) = j" using assms by (simp add: unsigned_of_nat take_bit_nat_eq_self)
  have m: "(0x1FFFFC :: u32) = push_bit 2 (mask 19)" "(0x00FFFFFC :: u32) = push_bit 2 (mask 22)"
    "(0x00FFFFFF :: u32) = mask 24"
    by (simp_all add: mask_eq_exp_minus_1 push_bit_eq_mult)
  have "of_nat j AND mask 19 = (of_nat j :: u32)" "of_nat j AND mask 22 = (of_nat j :: u32)"
    by (rule and_low; use j assms in simp)+
  then show "ram_at j AND 0x1FFFFC = ram_at j" "ram_at j AND 0x00FFFFFC = ram_at j"
    unfolding ram_at_shift m push_bit_and [symmetric] by (simp_all only:)
  show "ram_at j AND 0x00FFFFFF = ram_at j"
    unfolding m by (rule and_low) (use assms in \<open>simp only: ram_at_unat\<close>, simp)
qed

lemma ram_at_prev: "0 < j \<Longrightarrow> ram_at j - 4 = ram_at (j - 1)"
  by (cases j) simp_all

lemma ram_read: "j < 0x80000 \<Longrightarrow> psx_read_word_raw d (ram_at j) g = (get32 (ram g) (ram_at j), g)"
  using ram_word_phys [OF ram_at_word] by (simp add: read_ram del: of_nat_mult of_nat_numeral)

lemma ram_store:
  assumes "plain_stores g" "j < 0x80000"
  shows "plain_stores (psx_write_word_raw d (ram_at j) v g)"
    and "i < 0x80000 \<Longrightarrow> get32 (ram (psx_write_word_raw d (ram_at j) v g)) (ram_at i) =
      (if i = j then v else get32 (ram g) (ram_at i))"
  using main_ram.ok_wr [OF assms(1) ram_at_word [OF assms(2)], of d v]
    main_ram.rd_wr [OF assms(1) ram_at_word [OF assms(2)] ram_at_word [of i], of d v] ram_at_inj [of i j] assms(2)
  by (simp_all add: ram_read eq_commute del: of_nat_mult of_nat_numeral)

lemma otc_fill_list:
  assumes "plain_stores (gs s)" "j < 0x80000" "n \<le> Suc j"
  shows "ot_list (ram (gs (otc_fill p n (ram_at j) s))) j n
    \<and> (\<forall>b. j < b \<and> b < 0x80000 \<longrightarrow>
         get32 (ram (gs (otc_fill p n (ram_at j) s))) (ram_at b) = get32 (ram (gs s)) (ram_at b))"
  using assms
proof (induction n arbitrary: j s)
  case 0
  then show ?case by (simp add: ot_list_def)
next
  case (Suc n)
  let ?v = "if n = 0 then 0x00FFFFFF else (ram_at j - 4) AND 0x00FFFFFF"
  let ?s = "dma_store p (ram_at j) ?v s"
  have pl: "plain_stores (gs ?s)" using ram_store(1) [OF Suc.prems(1,2)] by (simp add: dma_store_def)
  have rd: "get32 (ram (gs ?s)) (ram_at i) = (if i = j then ?v else get32 (ram (gs s)) (ram_at i))"
    if "i < 0x80000" for i
    using ram_store(2) [OF Suc.prems(1,2) that] by (simp only: dma_store_def upd_frames)
  show ?case
  proof (cases n)
    case 0
    then show ?thesis using rd Suc.prems(2) by (simp add: ot_list_def del: of_nat_mult of_nat_numeral)
  next
    case (Suc m)
    then have j: "0 < j" "j - 1 < 0x80000" "n \<le> Suc (j - 1)" using Suc.prems by simp_all
    have a: "(ram_at j - 4) AND 0x1FFFFC = ram_at (j - 1)" "?v = ram_at (j - 1)"
      using j Suc ram_at_low [OF j(2)] by (simp_all only: ram_at_prev) simp
    have fill: "otc_fill p (Suc n) (ram_at j) s = otc_fill p n (ram_at (j - 1)) ?s"
      by (simp only: otc_fill.simps a(1))
    note IH = Suc.IH [OF pl j(2,3)]
    have top: "get32 (ram (gs (otc_fill p n (ram_at (j - 1)) ?s))) (ram_at b) = get32 (ram (gs ?s)) (ram_at b)"
      if "j - 1 < b" "b < 0x80000" for b
      using IH that by blast
    have "ot_list (ram (gs (otc_fill p n (ram_at (j - 1)) ?s))) j (Suc n)"
      unfolding ot_list_def
    proof (intro allI impI)
      fix i assume i: "i < Suc n"
      show "get32 (ram (gs (otc_fill p n (ram_at (j - 1)) ?s))) (ram_at (j - i)) =
          (if Suc i = Suc n then 0x00FFFFFF else ram_at (j - Suc i))"
      proof (cases i)
        case 0
        then show ?thesis
          using top [of j] rd [of j] a(2) Suc Suc.prems(2) j(1) by (simp del: of_nat_mult of_nat_numeral)
      next
        case (Suc k)
        then have "k < n" using i by simp
        with IH have "get32 (ram (gs (otc_fill p n (ram_at (j - 1)) ?s))) (ram_at (j - 1 - k)) =
            (if Suc k = n then 0x00FFFFFF else ram_at (j - 1 - Suc k))"
          unfolding ot_list_def by blast
        then show ?thesis using Suc by simp
      qed
    qed
    moreover have "\<forall>b. j < b \<and> b < 0x80000 \<longrightarrow>
         get32 (ram (gs (otc_fill p n (ram_at (j - 1)) ?s))) (ram_at b) = get32 (ram (gs s)) (ram_at b)"
    proof (intro allI impI)
      fix b assume b: "j < b \<and> b < 0x80000"
      show "get32 (ram (gs (otc_fill p n (ram_at (j - 1)) ?s))) (ram_at b) = get32 (ram (gs s)) (ram_at b)"
        using top [of b] rd [of b] b by (simp only:) auto
    qed
    ultimately show ?thesis unfolding fill by blast
  qed
qed

lemma resolve_ram: "j < 0x80000 \<Longrightarrow> resolve (ram_at j) s = ram_at j"
  using ram_at_low [of j] ram_at_unat [of j]
  by (simp add: resolve_def psx_mod_gpu_dma_resolve_address_def psx_mod_gpu_dma_resolve_address_for_def Let_def
      psx_mod_gpu_dma_aperture_offset_for_def word_less_nat_alt del: of_nat_mult of_nat_numeral)

text \<open>Hooks of the GPU that leave RAM alone.\<close>

definition gpu_keeps_ram :: "'x dports \<Rightarrow> bool" where
  "gpu_keeps_ram p \<longleftrightarrow> (\<forall>a n g. ram (gp0_node p a n g) = ram g)
     \<and> (\<forall>g. ram (ws_begin p g) = ram g) \<and> (\<forall>a g. ram (ws_prepass p a g) = ram g)
     \<and> (\<forall>g. ram (ws_end p g) = ram g)"

lemma node_end_small: "j < 0x80000 \<Longrightarrow> drop_bit 24 (ram_at j) AND 0xFF = 0" "ram_at j \<noteq> 0x00FFFFFF \<or> \<not> j < 0x80000"
proof -
  assume "j < 0x80000"
  then have "unat (drop_bit 24 (ram_at j)) = 0" by (simp only: unat_drop_bit_eq ram_at_unat) (simp add: drop_bit_eq_div)
  then show "drop_bit 24 (ram_at j) AND 0xFF = 0" by (simp add: unat_eq_0 del: of_nat_mult of_nat_numeral)
next
  show "ram_at j \<noteq> 0x00FFFFFF \<or> \<not> j < 0x80000" using ram_at_unat [of j] by (auto simp del: of_nat_mult of_nat_numeral)
qed

lemma ll_walk_list:
  assumes "gpu_keeps_ram p" "ot_list (ram (gs s)) j n" "j < 0x80000" "0 < n" "n \<le> Suc j" "n \<le> k"
  shows "\<exists>s'. ll_walk p k (ram_at j) rank w s = (0x00FFFFFF, w + of_nat n, s') \<and> ram (gs s') = ram (gs s)
    \<and> dma s' = dma s"
  using assms(2-)
proof (induction n arbitrary: j k rank w s)
  case 0
  then show ?case by simp
next
  case (Suc n)
  then obtain k' where k: "k = Suc k'" "n \<le> k'" by (cases k) auto
  let ?h = "if n = 0 then 0x00FFFFFF else ram_at (j - 1)"
  have h: "get32 (ram (gs s)) (ram_at j) = ?h"
    using Suc.prems(1) unfolding ot_list_def by (metis One_nat_def diff_zero zero_less_Suc Suc_inject)
  let ?r = "if rank = 0xFFFFFFFF then 0 else rank + 1"
  let ?s = "upd_gs (gp0_node p (ram_at j) 0) s"
  have num: "drop_bit 24 ?h AND 0xFF = 0"
    using node_end_small(1) [of "j - 1"] Suc.prems(2) by simp
  have step: "ll_walk p k (ram_at j) rank w s =
      (if ?h AND 0xFFFFFF = 0xFFFFFF then (0x00FFFFFF, w + 1, ?s)
       else ll_walk p k' (resolve (?h AND 0xFFFFFF) ?s) ?r (w + 1) ?s)"
    unfolding k(1) ll_walk.simps dma_load_def ram_read [OF Suc.prems(2)] h Let_def num prod.case
    by (simp add: ll_emit_def)
  have r: "ram (gs ?s) = ram (gs s)" "dma ?s = dma s" using assms(1) by (simp_all add: gpu_keeps_ram_def)
  show ?case
  proof (cases n)
    case 0
    then show ?thesis using step r by simp
  next
    case (Suc m)
    then have j: "j - 1 < 0x80000" "0 < n" "n \<le> Suc (j - 1)" using Suc.prems by simp_all
    have "ot_list (ram (gs ?s)) (j - 1) n"
      unfolding r ot_list_def
    proof (intro allI impI)
      fix i assume "i < n"
      then have "Suc i < Suc n" by simp
      then have "get32 (ram (gs s)) (ram_at (j - Suc i)) = (if Suc (Suc i) = Suc n then 0x00FFFFFF else ram_at (j - Suc (Suc i)))"
        using Suc.prems(1) unfolding ot_list_def by blast
      then show "get32 (ram (gs s)) (ram_at (j - 1 - i)) = (if Suc i = n then 0x00FFFFFF else ram_at (j - 1 - Suc i))"
        by (simp del: of_nat_mult of_nat_numeral)
    qed
    from Suc.IH [OF this j k(2), of ?r "w + 1"] obtain s' where
      s': "ll_walk p k' (ram_at (j - 1)) ?r (w + 1) ?s = (0x00FFFFFF, w + 1 + of_nat n, s')"
      "ram (gs s') = ram (gs s)" "dma s' = dma s" unfolding r by blast
    have "ll_walk p k (ram_at j) rank w s = ll_walk p k' (ram_at (j - 1)) ?r (w + 1) ?s"
    proof -
      have h: "?h = ram_at (j - 1)" using Suc by (simp only: nat.distinct if_False)
      show ?thesis
        using node_end_small(2) [of "j - 1"] j(1)
        unfolding step h ram_at_low(3) [OF j(1)] resolve_ram [OF j(1)] by (simp only: simp_thms if_False)
    qed
    then have "ll_walk p k (ram_at j) rank w s = (0x00FFFFFF, w + of_nat (Suc n), s')"
      unfolding s'(1) by (simp add: algebra_simps)
    then show ?thesis using s'(2,3) by blast
  qed
qed

definition otc_count :: "'x dsys \<Rightarrow> nat" where
  "otc_count s = (let n = unat (bcr (chan (dma s) 6) AND 0xFFFF) in if n = 0 then 0x10000 else n)"

lemma otc_is_fill: "execute_ch6_otc p s = complete_transfer 6 (otc_fill p (otc_count s) (chan_addr 6 s) s)"
  by (simp add: execute_ch6_otc_def otc_count_def Let_def unat_eq_0)

text \<open>
  C33. The ordering table: after the clear channel has run, RAM holds a list from the start address
  downwards, every entry pointing at the one below and the last one ending it; the GPU channel in
  linked-list mode, kicked at its head with hooks that leave RAM alone, visits exactly those entries,
  counts one word for each, and ends with the end marker in MADR.
\<close>

theorem ordering_table_drawn:
  assumes "plain_stores (gs s)" "chan_addr 6 s = of_nat (4 * j)" "j < 0x80000" "otc_count s \<le> Suc j"
    and "gpu_keeps_ram p" "gs t = gs (execute_ch6_otc p s)"
    and "chcr_of 2 t AND 1 \<noteq> 0" "drop_bit 9 (chcr_of 2 t) AND 3 = 2" "madr (chan (dma t) 2) = of_nat (4 * j)"
  shows "ot_list (ram (gs t)) j (otc_count s)
    \<and> fst (execute_ch2_gpu p t) = of_nat (otc_count s)
    \<and> madr (chan (dma (snd (execute_ch2_gpu p t))) 2) = 0x00FFFFFF"
proof -
  have c: "0 < otc_count s" "otc_count s \<le> 0x10000"
    using ucast_low2_bound [of "bcr (chan (dma s) 6)"] by (simp_all add: otc_count_def Let_def)
  have list: "ot_list (ram (gs t)) j (otc_count s)"
    using otc_fill_list [OF assms(1,3,4), of p] unfolding assms(6) otc_is_fill assms(2) by simp
  let ?t = "upd_gs (ws_prepass p (ram_at j)) (upd_gs (ws_begin p) t)"
  have "ram (gs ?t) = ram (gs t)" using assms(5) by (simp add: gpu_keeps_ram_def)
  then have "ot_list (ram (gs ?t)) j (otc_count s)" using list by (simp only:)
  then obtain s' where w: "ll_walk p 0x40001 (ram_at j) 0xFFFFFFFF 0 ?t = (0x00FFFFFF, 0 + of_nat (otc_count s), s')"
    using ll_walk_list [OF assms(5) _ assms(3) c(1) assms(4), of ?t "0x40001" "0xFFFFFFFF" 0] c(2) by auto
  have "execute_ch2_gpu p t = (of_nat (otc_count s), upd_gs (ws_end p) (set_madr 2 0x00FFFFFF s'))"
    using assms(7,8) w resolve_ram [OF assms(3), of "upd_gs (ws_begin p) t"]
    by (simp add: execute_ch2_gpu_def Let_def assms(9) del: of_nat_mult of_nat_numeral ll_walk.simps)
  then show ?thesis using list by (simp add: set_madr_def)
qed

subsection \<open>Time goes on, and the decoder stays in its buffers\<close>

declare mdec_dma_write_words.simps [simp del]

lemma load_frames_dma [simp]:
  "mdc (snd (dma_load p a s)) = mdc s" "dma (snd (dma_load p a s)) = dma s"
  by (simp_all add: dma_load_def split: prod.splits)

lemma store_frames_dma [simp]: "mdc (dma_store p a v s) = mdc s" "dma (dma_store p a v s) = dma s"
  by (simp_all add: dma_store_def)

lemma use_words_frames [simp]:
  "mdc (use_words ch n s) = mdc s" "dicr (dma (use_words ch n s)) = dicr (dma s)"
  "delayed (dma (use_words ch n s)) = delayed (dma s)" "cdrom_async (dma (use_words ch n s)) = cdrom_async (dma s)"
  "chan (dma (use_words ch n s)) = chan (dma s)" "dpcr (dma (use_words ch n s)) = dpcr (dma s)"
  "as_remaining (mdec_async (dma (use_words ch n s)) ch) = as_remaining (mdec_async (dma s) ch) - n"
  "as_active (mdec_async (dma (use_words ch n s)) ch) = as_active (mdec_async (dma s) ch)"
  "i \<noteq> ch \<Longrightarrow> mdec_async (dma (use_words ch n s)) i = mdec_async (dma s) i"
  by (simp_all add: use_words_def)

lemma feed_words_le: "fst (feed_words h src m) \<le> length src"
proof (induction src arbitrary: m)
  case (Cons w ws)
  then show ?case by (auto split: prod.splits) (metis Suc_le_mono fst_conv)
qed simp

lemma unat_add_le: "unat (a + b :: u32) \<le> unat a + unat b"
  by (simp add: unat_word_ariths(1))

text \<open>What the loops of a decoder channel do to the rest of the controller.\<close>

definition moves :: "nat \<Rightarrow> u32 \<Rightarrow> u32 \<Rightarrow> 'x dsys \<Rightarrow> 'x dsys \<Rightarrow> bool" where
  "moves ch moved0 moved s s' \<longleftrightarrow>
     mdec_ok (mdc s') \<and> dicr (dma s') = dicr (dma s) \<and> delayed (dma s') = delayed (dma s)
     \<and> cdrom_async (dma s') = cdrom_async (dma s) \<and> chan (dma s') = chan (dma s) \<and> dpcr (dma s') = dpcr (dma s)
     \<and> (\<forall>i. i \<noteq> ch \<longrightarrow> mdec_async (dma s') i = mdec_async (dma s) i)
     \<and> as_active (mdec_async (dma s') ch) = as_active (mdec_async (dma s) ch)
     \<and> as_remaining (mdec_async (dma s') ch) = as_remaining (mdec_async (dma s) ch) - (moved - moved0)"

lemma moves_refl: "mdec_ok (mdc s) \<Longrightarrow> moves ch m m s s"
  by (simp add: moves_def)

lemma moves_trans:
  assumes "moves ch a b s t" "moves ch b c t u"
  shows "moves ch a c s u"
  using assms by (auto simp: moves_def algebra_simps)

lemma moves_use:
  assumes "mdec_ok (mdc t)" "dma t = dma s"
  shows "moves ch a (a + n) s (use_words ch n t)"
  using assms by (simp add: moves_def)

lemma mdec_burst_moves:
  assumes "mdec_ok (mdc s)"
  shows "\<exists>addr' moved' s'. mdec_burst p k addr budget moved s = Some (addr', moved', s') \<and> moves 0 moved moved' s s'
    \<and> moved' - moved \<le> budget \<and> moved' - moved \<le> as_remaining (mdec_async (dma s) 0)"
  using assms
proof (induction k arbitrary: addr budget moved s)
  case 0
  then show ?case by (simp add: moves_refl)
next
  case (Suc k)
  let ?left = "as_remaining (mdec_async (dma s) 0)"
  let ?n0 = "if ?left < budget then ?left else budget"
  let ?mr = "(0x200000 - addr) div 4"
  let ?n = "if ?n0 > ?mr then ?mr else ?n0"
  let ?h = "mdec_view p (gs s)" and ?src = "ram_words addr (unat ?n) (gs s)"
  show ?case
  proof (cases "\<not> (?left > 0 \<and> budget > 0) \<or> \<not> mdec_dma_write_ready (mdc s) \<or> ?mr = 0")
    case True
    then have "mdec_burst p (Suc k) addr budget moved s = Some (addr, moved, s)"
      by (simp only: mdec_burst.simps Let_def if_True)
    then show ?thesis using moves_refl [OF Suc.prems] by auto
  next
    case False
    obtain got m where f: "feed_words ?h ?src (mdc s) = (got, m)" by fastforce
    have ok: "mdec_ok m" using feed_words_ok [OF Suc.prems, of ?h ?src] f by simp
    have "length ?src = unat ?n" by (simp add: ram_words_def)
    then have "got \<le> unat ?n" using feed_words_le [of ?h ?src "mdc s"] f by simp
    then have got: "got \<le> unat budget" "got \<le> unat ?left"
      by (auto simp: word_less_nat_alt split: if_splits)
    have gotu: "unat (of_nat got :: u32) = got"
      using got(1) unat_u32_less [of budget] by (simp add: unsigned_of_nat take_bit_nat_eq_self)
    have step: "mdec_burst p (Suc k) addr budget moved s =
        (if got = 0 then Some (addr, moved, s\<lparr>mdc := m\<rparr>)
         else mdec_burst p k ((addr + of_nat got * 4) AND 0x1FFFFC) (budget - of_nat got)
                (moved + of_nat got) (use_words 0 (of_nat got) (s\<lparr>mdc := m\<rparr>)))"
      using False burst_words [OF Suc.prems, of ?h ?src] f
      by (simp only: mdec_burst.simps Let_def if_False option.case prod.case)
    show ?thesis
    proof (cases "got = 0")
      case True
      moreover have "moves 0 moved moved s (s\<lparr>mdc := m\<rparr>)" using ok by (simp add: moves_def)
      ultimately show ?thesis using step by auto
    next
      case False
      let ?t = "use_words 0 (of_nat got) (s\<lparr>mdc := m\<rparr>)"
      have m1: "moves 0 moved (moved + of_nat got) s ?t" using ok by (intro moves_use) simp_all
      obtain addr' moved' s' where
        r: "mdec_burst p k ((addr + of_nat got * 4) AND 0x1FFFFC) (budget - of_nat got) (moved + of_nat got) ?t
            = Some (addr', moved', s')" "moves 0 (moved + of_nat got) moved' ?t s'"
          "moved' - (moved + of_nat got) \<le> budget - of_nat got"
          "moved' - (moved + of_nat got) \<le> as_remaining (mdec_async (dma ?t) 0)"
        using Suc.IH [of ?t] ok by fastforce
      have "unat (budget - of_nat got) = unat budget - got" "unat (?left - of_nat got) = unat ?left - got"
        using got gotu by (simp_all add: unat_sub word_le_nat_alt)
      then have b: "unat (moved' - (moved + of_nat got)) \<le> unat budget - got"
        "unat (moved' - (moved + of_nat got)) \<le> unat ?left - got"
        using r(3,4) by (simp_all add: word_le_nat_alt)
      have "moved' - moved = (moved' - (moved + of_nat got)) + of_nat got" by simp
      then have "unat (moved' - moved) \<le> unat (moved' - (moved + of_nat got)) + got"
        using unat_add_le [of "moved' - (moved + of_nat got)" "of_nat got"] gotu by simp
      then have "moved' - moved \<le> budget \<and> moved' - moved \<le> ?left"
        using b got unfolding word_le_nat_alt by linarith
      then show ?thesis using step False r(1) moves_trans [OF m1 r(2)] by simp
    qed
  qed
qed

lemma mdec_word_loop_moves:
  assumes "mdec_ok (mdc s)"
  shows "\<exists>addr' moved' s'. mdec_word_loop p ch step k addr budget moved s = (addr', moved', s') \<and> moves ch moved moved' s s'
    \<and> moved' - moved \<le> budget \<and> moved' - moved \<le> as_remaining (mdec_async (dma s) ch)"
  using assms
proof (induction k arbitrary: addr budget moved s)
  case 0
  then show ?case by (simp add: moves_refl)
next
  case (Suc k)
  let ?left = "as_remaining (mdec_async (dma s) ch)"
  have stop: ?case if "mdec_word_loop p ch step (Suc k) addr budget moved s = (addr, moved, s)"
    using that moves_refl [OF Suc.prems] by simp
  have go: ?case if pos: "?left > 0" "budget > 0"
    and t: "mdec_ok (mdc t)" "dicr (dma t) = dicr (dma s) \<and> delayed (dma t) = delayed (dma s)
       \<and> cdrom_async (dma t) = cdrom_async (dma s) \<and> chan (dma t) = chan (dma s) \<and> dpcr (dma t) = dpcr (dma s)
       \<and> mdec_async (dma t) = mdec_async (dma s)"
    and step: "mdec_word_loop p ch step (Suc k) addr budget moved s =
        mdec_word_loop p ch step k (next_addr step addr) (budget - 1) (moved + 1) (use_words ch 1 t)" for t
  proof -
    have m1: "moves ch moved (moved + 1) s (use_words ch 1 t)" using t by (simp add: moves_def)
    have ok: "mdec_ok (mdc (use_words ch 1 t))" using t(1) by simp
    obtain addr' moved' s' where
      r: "mdec_word_loop p ch step k (next_addr step addr) (budget - 1) (moved + 1) (use_words ch 1 t)
          = (addr', moved', s')" "moves ch (moved + 1) moved' (use_words ch 1 t) s'"
        "moved' - (moved + 1) \<le> budget - 1"
        "moved' - (moved + 1) \<le> ?left - 1"
      using Suc.IH [OF ok] t(2) by fastforce
    have "unat (budget - 1) = unat budget - 1" "unat (?left - 1) = unat ?left - 1"
      using pos by (simp_all add: unat_sub word_le_nat_alt word_less_nat_alt)
    then have b: "unat (moved' - (moved + 1)) \<le> unat budget - 1" "unat (moved' - (moved + 1)) \<le> unat ?left - 1"
      using r(3,4) by (simp_all add: word_le_nat_alt)
    have "moved' - moved = (moved' - (moved + 1)) + 1" by simp
    then have "unat (moved' - moved) \<le> unat (moved' - (moved + 1)) + 1"
      using unat_add_le [of "moved' - (moved + 1)" 1] by simp
    moreover have "0 < unat budget" "0 < unat ?left" using pos by (simp_all add: word_less_nat_alt)
    ultimately have "moved' - moved \<le> budget \<and> moved' - moved \<le> ?left"
      using b unfolding word_le_nat_alt by linarith
    then show ?thesis using step r(1) moves_trans [OF m1 r(2)] by simp
  qed
  show ?case
  proof (cases "?left > 0 \<and> budget > 0")
    case False
    show ?thesis by (rule stop) (use False in \<open>simp only: mdec_word_loop.simps if_True simp_thms\<close>)
  next
    case pos: True
    show ?thesis
    proof (cases "ch = 0")
      case ch: True
      show ?thesis
      proof (cases "mdec_dma_write_ready (mdc s)")
        case False
        show ?thesis by (rule stop) (use False pos ch in \<open>simp add: Let_def\<close>)
      next
        case True
        obtain v s1 where l: "dma_load p addr s = (v, s1)" by fastforce
        then have s1: "mdc s1 = mdc s" "dma s1 = dma s" using load_frames_dma [of p addr s] by simp_all
        show ?thesis
          by (rule go [of "mdec_do (mdec_dma_write_word (mdec_view p (gs s1)) v) s1"])
            (use pos ch True l s1 Suc.prems in \<open>simp_all add: mdec_dma_write_word_def write_data_ok\<close>)
      qed
    next
      case ch: False
      show ?thesis
      proof (cases "mdec_dma_read_ready (mdc s)")
        case False
        show ?thesis by (rule stop) (use False pos ch in \<open>simp add: Let_def\<close>)
      next
        case True
        let ?s1 = "upd_dma (\<lambda>d. d\<lparr>cur_madr := addr\<rparr>) s"
        obtain v m where l: "mdec_dma_read_word (mdec_view p (gs ?s1)) (mdc s) = (v, m)" by fastforce
        then have m: "mdec_ok m" using read_word_ok [OF Suc.prems, of "mdec_view p (gs ?s1)"] by simp
        show ?thesis
          by (rule go [of "dma_store p addr v (?s1\<lparr>mdc := m\<rparr>)"])
            (use pos ch True l m in \<open>simp_all add: Let_def\<close>)
      qed
    qed
  qed
qed

lemma capture_frames [simp]:
  "mdc (finish_cdrom_dma_capture p a c s) = mdc s" "gs (finish_cdrom_dma_capture p a c s) = gs s"
  "dicr (dma (finish_cdrom_dma_capture p a c s)) = dicr (dma s)"
  "delayed (dma (finish_cdrom_dma_capture p a c s)) = delayed (dma s)"
  "cdrom_async (dma (finish_cdrom_dma_capture p a c s)) = cdrom_async (dma s)"
  "mdec_async (dma (finish_cdrom_dma_capture p a c s)) = mdec_async (dma s)"
  "chan (dma (finish_cdrom_dma_capture p a c s)) = chan (dma s)"
  by (simp_all add: finish_cdrom_dma_capture_def Let_def)

lemma cancel_mdc [simp]: "mdc (cancel_async_transfer p ch s) = mdc s"
  by (simp add: cancel_async_transfer_def Let_def)

lemma dma_debug_ok [simp]:
  "mdec_ok (mdec_debug_dma_in_start h n m) = mdec_ok m" "mdec_ok (mdec_debug_dma_in_end h n m) = mdec_ok m"
  "mdec_ok (mdec_debug_dma_out_start h n m) = mdec_ok m" "mdec_ok (mdec_debug_dma_out_end h n m) = mdec_ok m"
  by (simp_all add: mdec_debug_dma_in_start_def mdec_debug_dma_in_end_def mdec_debug_dma_out_start_def
      mdec_debug_dma_out_end_def) (simp add: mdec_ok_def in_ok_def out_ok_def)

lemma finish_mdec_ok: "mdec_ok (mdc s) \<Longrightarrow> mdec_ok (mdc (finish_async_mdec_transfer p ch a n s))"
  by (simp add: finish_async_mdec_transfer_def Let_def)

text \<open>A step that leaves the interrupt register, the delayed completions and the other channels alone.\<close>

definition quiet :: "nat \<Rightarrow> 'x dsys \<Rightarrow> 'x dsys \<Rightarrow> bool" where
  "quiet ch s s' \<longleftrightarrow> dicr (dma s') = dicr (dma s) \<and> delayed (dma s') = delayed (dma s)
     \<and> dpcr (dma s') = dpcr (dma s)
     \<and> (\<forall>i. i \<noteq> ch \<longrightarrow> chan (dma s') i = chan (dma s) i \<and> mdec_async (dma s') i = mdec_async (dma s) i)
     \<and> as_active (mdec_async (dma s') ch) = as_active (mdec_async (dma s) ch)
     \<and> chcr (chan (dma s') ch) = chcr (chan (dma s) ch)
     \<and> (ch \<noteq> 3 \<longrightarrow> cdrom_async (dma s') = cdrom_async (dma s))"

text \<open>No channel has ended: every start bit and every mark of a transfer under way is as it was, and DICR is.\<close>

definition none_ended :: "'x dsys \<Rightarrow> 'x dsys \<Rightarrow> bool" where
  "none_ended s s' \<longleftrightarrow> dicr (dma s') = dicr (dma s)
     \<and> (\<forall>ch. chcr (chan (dma s') ch) = chcr (chan (dma s) ch))
     \<and> (\<forall>ch. as_active (mdec_async (dma s') ch) = as_active (mdec_async (dma s) ch))
     \<and> as_active (cdrom_async (dma s')) = as_active (cdrom_async (dma s))
     \<and> (\<forall>ch. dl_active (delayed (dma s') ch) = dl_active (delayed (dma s) ch))"

lemma none_ended_trans: "none_ended s t \<Longrightarrow> none_ended t u \<Longrightarrow> none_ended s u"
  by (simp add: none_ended_def)

lemma quiet_none_ended: "quiet ch s s' \<Longrightarrow> ch \<noteq> 3 \<Longrightarrow> none_ended s s'"
  unfolding quiet_def none_ended_def by metis

lemma quiet_refl: "quiet ch s s"
  by (simp add: quiet_def)

lemma set_accum_frames [simp]:
  "mdc (set_accum ch v s) = mdc s" "gs (set_accum ch v s) = gs s" "chan (dma (set_accum ch v s)) = chan (dma s)"
  "dicr (dma (set_accum ch v s)) = dicr (dma s)" "delayed (dma (set_accum ch v s)) = delayed (dma s)"
  "dpcr (dma (set_accum ch v s)) = dpcr (dma s)" "cdrom_async (dma (set_accum ch v s)) = cdrom_async (dma s)"
  "mdec_async (dma (set_accum ch v s)) = (mdec_async (dma s))(ch := (mdec_async (dma s) ch)\<lparr>as_accum := v\<rparr>)"
  by (simp_all add: set_accum_def)

lemma mdec_move_moves:
  assumes "mdec_ok (mdc s)" "ch \<in> {0, 1}"
  shows "\<exists>addr moved s'. mdec_move p ch budget s = Some (addr, moved, s') \<and> moves ch 0 moved s s'
    \<and> moved \<le> budget \<and> moved \<le> as_remaining (mdec_async (dma s) ch)"
proof (cases "ch = 0")
  case True
  show ?thesis
  proof (cases "chan_step 0 s")
    case False
    obtain a m s' where "mdec_burst p (unat (as_remaining (mdec_async (dma s) 0))) (chan_addr 0 s) budget 0 s = Some (a, m, s')"
      "moves 0 0 m s s'" "m \<le> budget" "m \<le> as_remaining (mdec_async (dma s) 0)"
      using mdec_burst_moves [OF assms(1), of p "unat (as_remaining (mdec_async (dma s) 0))" "chan_addr 0 s" budget 0]
      by auto
    then show ?thesis using True False by (simp add: mdec_move_def Let_def)
  next
    case st: True
    obtain a m s' where "mdec_word_loop p 0 True (unat (as_remaining (mdec_async (dma s) 0))) (chan_addr 0 s) budget 0 s = (a, m, s')"
      "moves 0 0 m s s'" "m \<le> budget" "m \<le> as_remaining (mdec_async (dma s) 0)"
      using mdec_word_loop_moves [OF assms(1), of p 0 True _ _ budget 0] by fastforce
    then show ?thesis using True st by (simp add: mdec_move_def Let_def)
  qed
next
  case False
  then have ch: "ch = 1" using assms(2) by simp
  let ?s = "upd_dma (\<lambda>d. d\<lparr>exec_depth := exec_depth d + 1, cur_ch := 1, cur_bcr := bcr (chan d 1),
                                   initiator_pc := ch_initiator d 1\<rparr>) s"
  have st: "chan_step (Suc 0) ?s = chan_step (Suc 0) s" by (simp add: chan_step_def chcr_of_def)
  have "mdec_ok (mdc ?s)" using assms(1) by simp
  from mdec_word_loop_moves [OF this, of p 1 "chan_step 1 s" "unat (as_remaining (mdec_async (dma s) 1))"
      "chan_addr 1 s" budget 0]
  obtain a m s' where r: "mdec_word_loop p 1 (chan_step 1 s) (unat (as_remaining (mdec_async (dma s) 1)))
      (chan_addr 1 s) budget 0 ?s = (a, m, s')" "moves 1 0 m ?s s'" "m \<le> budget"
      "m \<le> as_remaining (mdec_async (dma s) 1)"
    by auto
  then have "mdec_move p 1 budget s = Some (a, m, upd_dma (\<lambda>d. d\<lparr>cur_ch := - 1, exec_depth := exec_depth d - 1\<rparr>) s')"
    using st by (simp add: mdec_move_def Let_def)
  moreover have "moves 1 0 m s (upd_dma (\<lambda>d. d\<lparr>cur_ch := - 1, exec_depth := exec_depth d - 1\<rparr>) s')"
    using r(2) by (simp add: moves_def)
  ultimately show ?thesis using r(3,4) ch by auto
qed

definition mdec_route_ok :: "nat \<Rightarrow> 'x dsys \<Rightarrow> bool" where
  "mdec_route_ok ch s \<longleftrightarrow> (if ch = 0 then chcr_of ch s AND 1 \<noteq> 0 else chcr_of ch s AND 1 = 0)"

definition far :: "dma_async \<Rightarrow> u32 \<Rightarrow> bool" where
  "far a cycles \<longleftrightarrow> (as_active a \<noteq> 0 \<longrightarrow> as_remaining a = 0 \<or> unat (as_accum a) + unat cycles < unat (as_remaining a))"

lemma sat_add_far:
  assumes "unat (as_accum a) + unat cycles < unat (r :: u32)"
  shows "unat (sat_add (as_accum a) cycles) < unat r"
proof -
  have lt: "unat (as_accum a) + unat cycles < 2 ^ 32" using assms unat_u32_less [of r] by simp
  have "unat (UINT32_MAX - as_accum a) = 0xFFFFFFFF - unat (as_accum a)"
    by (subst unat_sub) (use unat_u32_less [of "as_accum a"] in \<open>simp_all add: word_le_nat_alt\<close>)
  then have "\<not> cycles > UINT32_MAX - as_accum a" using lt by (simp add: word_less_nat_alt)
  then show ?thesis using assms lt by (simp add: sat_add_def unat_word_ariths(1))
qed

lemma div_le_word: "(a :: u32) div b \<le> a"
  by (simp add: word_le_nat_alt unat_div)

lemma advance_mdec_step:
  assumes "mdec_ok (mdc s)" "ch \<in> {0, 1}"
  shows "\<exists>s'. advance_mdec_channel p ch cycles s = Some s' \<and> mdec_ok (mdc s')
    \<and> (mdec_route_ok ch s \<and> far (mdec_async (dma s) ch) cycles \<longrightarrow> quiet ch s s')"
proof -
  let ?a = "mdec_async (dma s) ch"
  let ?idle = "as_active ?a = 0 \<or> drop_bit 24 (chcr_of ch s) AND 1 = 0 \<or> \<not> channel_enabled ch (dma s)"
  let ?bad = "ch = 0 \<and> chcr_of ch s AND 1 = 0 \<or> ch = 1 \<and> chcr_of ch s AND 1 \<noteq> 0"
  let ?wait = "if ch = 0 then \<not> mdec_dma_write_ready (mdc s) else \<not> mdec_dma_read_ready (mdc s)"
  let ?s = "set_accum ch (sat_add (as_accum ?a) cycles) s"
  let ?b = "as_accum (mdec_async (dma ?s) ch) div mdec_cpw ch"
  consider (idle) ?idle | (bad) "\<not> ?idle" ?bad | (wait) "\<not> ?idle" "\<not> ?bad" ?wait
    | (run) "\<not> ?idle" "\<not> ?bad" "\<not> ?wait" by blast
  then show ?thesis
  proof cases
    case idle
    then have "advance_mdec_channel p ch cycles s = Some s" by (auto simp: advance_mdec_channel_def Let_def)
    then show ?thesis using assms(1) quiet_refl by auto
  next
    case bad
    then have "advance_mdec_channel p ch cycles s =
        Some (finish_async_mdec_transfer p ch (chan_addr ch s) (as_total ?a) s)"
      by (auto simp: advance_mdec_channel_def Let_def)
    moreover have "\<not> mdec_route_ok ch s" using bad(2) by (auto simp: mdec_route_ok_def)
    ultimately show ?thesis using finish_mdec_ok [OF assms(1)] by simp
  next
    case wait
    then have "advance_mdec_channel p ch cycles s = Some s" by (auto simp: advance_mdec_channel_def Let_def)
    then show ?thesis using assms(1) quiet_refl by auto
  next
    case run
    have q: "quiet ch s ?s" by (simp add: quiet_def)
    have adv: "advance_mdec_channel p ch cycles s = (if ?b = 0 then Some ?s
       else case mdec_move p ch ?b ?s of
             None \<Rightarrow> None
           | Some (addr, moved, s) \<Rightarrow>
               if moved = 0 then Some s
               else let s = set_madr ch addr
                          (set_accum ch (as_accum (mdec_async (dma s) ch) - moved * mdec_cpw ch) s)
                    in Some (if as_remaining (mdec_async (dma s) ch) = 0
                             then finish_async_mdec_transfer p ch addr (as_total (mdec_async (dma s) ch)) s
                             else s))"
      using run unfolding advance_mdec_channel_def Let_def by (simp only: if_False de_Morgan_disj) simp
    have "mdec_ok (mdc ?s)" using assms(1) by simp
    from mdec_move_moves [OF this assms(2), of p ?b] obtain addr moved s' where
      m: "mdec_move p ch ?b ?s = Some (addr, moved, s')" "moves ch 0 moved ?s s'" "moved \<le> ?b"
        "moved \<le> as_remaining ?a" by auto
    let ?t = "set_madr ch addr (set_accum ch (as_accum (mdec_async (dma s') ch) - moved * mdec_cpw ch) s')"
    have t: "mdec_ok (mdc ?t)" "quiet ch s ?t" using m(2) by (simp_all add: moves_def quiet_def set_madr_def)
    have s': "mdec_ok (mdc s')" "quiet ch s s'" using m(2) by (simp_all add: moves_def quiet_def)
    have rem: "as_remaining (mdec_async (dma ?t) ch) = as_remaining ?a - moved"
      using m(2) by (simp add: moves_def set_madr_def)
    have left: "as_remaining ?a - moved \<noteq> 0" if f: "far ?a cycles" and mv: "moved \<noteq> 0"
    proof -
      have "as_remaining ?a \<noteq> 0" using m(4) mv by auto
      then have "unat (sat_add (as_accum ?a) cycles) < unat (as_remaining ?a)"
        using f run(1) sat_add_far [of ?a cycles "as_remaining ?a"] unfolding far_def by auto
      moreover have "moved \<le> sat_add (as_accum ?a) cycles"
        using m(3) div_le_word [of "sat_add (as_accum ?a) cycles" "mdec_cpw ch"] by (auto intro: order_trans)
      ultimately show ?thesis by (auto simp: word_le_nat_alt)
    qed
    show ?thesis
    proof (cases "?b = 0 \<or> moved = 0")
      case True
      then have "advance_mdec_channel p ch cycles s = Some (if ?b = 0 then ?s else s')"
        using m(1) unfolding adv by (auto simp: Let_def)
      then show ?thesis using q s' assms(1) by simp
    next
      case False
      then have r: "advance_mdec_channel p ch cycles s = Some (if as_remaining ?a - moved = 0
          then finish_async_mdec_transfer p ch addr (as_total (mdec_async (dma ?t) ch)) ?t else ?t)"
        using m(1) rem unfolding adv by (simp add: Let_def)
      then show ?thesis
        using t finish_mdec_ok [OF t(1), of p ch addr] left False by (cases "as_remaining ?a - moved = 0") auto
    qed
  qed
qed

lemma record_word_frames [simp]:
  "dicr (record_cdrom_dma_word w d) = dicr d" "delayed (record_cdrom_dma_word w d) = delayed d"
  "dpcr (record_cdrom_dma_word w d) = dpcr d" "chan (record_cdrom_dma_word w d) = chan d"
  "mdec_async (record_cdrom_dma_word w d) = mdec_async d" "cdrom_async (record_cdrom_dma_word w d) = cdrom_async d"
  by (simp_all add: record_cdrom_dma_word_def Let_def)

lemma cd_words_moves:
  "\<exists>addr' moved' s'. cd_words p k step addr budget moved s = (addr', moved', s') \<and> mdc s' = mdc s
    \<and> dicr (dma s') = dicr (dma s) \<and> delayed (dma s') = delayed (dma s)
    \<and> chan (dma s') = chan (dma s) \<and> mdec_async (dma s') = mdec_async (dma s)
    \<and> as_active (cdrom_async (dma s')) = as_active (cdrom_async (dma s))
    \<and> as_remaining (cdrom_async (dma s')) = as_remaining (cdrom_async (dma s)) - (moved' - moved)
    \<and> moved' - moved \<le> budget \<and> moved' - moved \<le> as_remaining (cdrom_async (dma s))"
proof (induction k arbitrary: addr budget moved s)
  case 0
  then show ?case by simp
next
  case (Suc k)
  let ?left = "as_remaining (cdrom_async (dma s))"
  show ?case
  proof (cases "?left > 0 \<and> budget > 0 \<and> cd_ready p (gs s)")
    case False
    then have "cd_words p (Suc k) step addr budget moved s = (addr, moved, s)"
      by (simp only: cd_words.simps if_True simp_thms)
    then show ?thesis by simp
  next
    case go: True
    obtain w g where w: "cd_get p (gs s) = (w, g)" by fastforce
    define t where "t = upd_dma (\<lambda>d. d\<lparr>cdrom_async := (cdrom_async d)\<lparr>as_remaining := as_remaining (cdrom_async d) - 1\<rparr>\<rparr>)
      (upd_gs (mark_exec p addr 4) (upd_dma (record_cdrom_dma_word w)
        (dma_store p addr w (upd_dma (\<lambda>d. d\<lparr>cur_madr := addr\<rparr>) (s\<lparr>gs := g\<rparr>)))))"
    have t: "mdc t = mdc s" "dicr (dma t) = dicr (dma s)" "delayed (dma t) = delayed (dma s)"
      "as_remaining (cdrom_async (dma t)) = ?left - 1" "chan (dma t) = chan (dma s)"
      "mdec_async (dma t) = mdec_async (dma s)" "as_active (cdrom_async (dma t)) = as_active (cdrom_async (dma s))"
      by (simp_all add: t_def)
    have step: "cd_words p (Suc k) step addr budget moved s =
        cd_words p k step (next_addr step addr) (budget - 1) (moved + 1) t"
      using go w by (simp add: Let_def t_def)
    obtain addr' moved' s' where r: "cd_words p k step (next_addr step addr) (budget - 1) (moved + 1) t = (addr', moved', s')"
      "mdc s' = mdc t" "dicr (dma s') = dicr (dma t)" "delayed (dma s') = delayed (dma t)"
      "chan (dma s') = chan (dma t)" "mdec_async (dma s') = mdec_async (dma t)"
      "as_active (cdrom_async (dma s')) = as_active (cdrom_async (dma t))"
      "as_remaining (cdrom_async (dma s')) = as_remaining (cdrom_async (dma t)) - (moved' - (moved + 1))"
      "moved' - (moved + 1) \<le> budget - 1" "moved' - (moved + 1) \<le> as_remaining (cdrom_async (dma t))"
      using Suc.IH [of "next_addr step addr" "budget - 1" "moved + 1" t] by auto
    have "unat (budget - 1) = unat budget - 1" "unat (?left - 1) = unat ?left - 1"
      using go by (simp_all add: unat_sub word_le_nat_alt word_less_nat_alt)
    then have b: "unat (moved' - (moved + 1)) \<le> unat budget - 1" "unat (moved' - (moved + 1)) \<le> unat ?left - 1"
      using r(9,10) t(4) by (simp_all add: word_le_nat_alt)
    have "moved' - moved = (moved' - (moved + 1)) + 1" by simp
    then have "unat (moved' - moved) \<le> unat (moved' - (moved + 1)) + 1"
      using unat_add_le [of "moved' - (moved + 1)" 1] by simp
    moreover have "0 < unat budget" "0 < unat ?left" using go by (simp_all add: word_less_nat_alt)
    ultimately have "moved' - moved \<le> budget \<and> moved' - moved \<le> ?left"
      using b unfolding word_le_nat_alt by linarith
    then show ?thesis using step r(1-8) t by (simp add: algebra_simps)
  qed
qed

lemma finish_cdrom_mdc [simp]: "mdc (finish_async_cdrom_transfer p a s) = mdc s"
  by (simp add: finish_async_cdrom_transfer_def Let_def set_madr_def)

lemma advance_cdrom_step:
  "mdc (advance_cdrom p cycles s) = mdc s
   \<and> (far (cdrom_async (dma s)) cycles \<longrightarrow>
        delayed (dma (advance_cdrom p cycles s)) = delayed (dma s) \<and> none_ended s (advance_cdrom p cycles s))"
proof (cases "dma_cdrom_transfer_active (dma s) \<and> cd_ready p (gs s)")
  case False
  then show ?thesis
    by (auto simp: advance_cdrom_def Let_def dma_cdrom_transfer_active_def chcr_of_def none_ended_def)
next
  case True
  let ?a = "cdrom_async (dma s)"
  let ?b = "sat_add (as_accum ?a) cycles"
  let ?s0 = "set_cd_accum ?b s"
  define s2 where "s2 = cd_prepare p ?b (chan_addr 3 ?s0) ?s0"
  have s2: "mdc s2 = mdc s" "dicr (dma s2) = dicr (dma s)" "delayed (dma s2) = delayed (dma s)"
    "as_remaining (cdrom_async (dma s2)) = as_remaining ?a" "chan (dma s2) = chan (dma s)"
    "mdec_async (dma s2) = mdec_async (dma s)" "as_active (cdrom_async (dma s2)) = as_active ?a"
    by (simp_all add: s2_def cd_prepare_def set_cd_accum_def Let_def)
  obtain addr moved s3 where w: "cd_words p (unat (as_remaining (cdrom_async (dma s2)))) (chan_step 3 s2) (chan_addr 3 ?s0) ?b 0 s2 = (addr, moved, s3)"
    "mdc s3 = mdc s2" "dicr (dma s3) = dicr (dma s2)" "delayed (dma s3) = delayed (dma s2)"
    "as_remaining (cdrom_async (dma s3)) = as_remaining ?a - moved"
    "moved \<le> ?b" "moved \<le> as_remaining ?a"
    "chan (dma s3) = chan (dma s2)" "mdec_async (dma s3) = mdec_async (dma s2)"
    "as_active (cdrom_async (dma s3)) = as_active (cdrom_async (dma s2))"
    using cd_words_moves [of p "unat (as_remaining (cdrom_async (dma s2)))" "chan_step 3 s2" "chan_addr 3 ?s0" ?b 0 s2] s2(4)
    by auto
  let ?t = "set_madr 3 addr (set_cd_accum (as_accum (cdrom_async (dma s3)) - moved * 1) s3)"
  have t: "mdc ?t = mdc s" "dicr (dma ?t) = dicr (dma s)" "delayed (dma ?t) = delayed (dma s)"
    "as_remaining (cdrom_async (dma ?t)) = as_remaining ?a - moved" "none_ended s ?t" "none_ended s s3"
    using w(2-5,8-) s2 by (simp_all add: set_madr_def set_cd_accum_def none_ended_def)
  have div1: "x div 1 = x" for x :: u32 by simp
  have act: "chcr_of 3 s AND 1 = 0" using True by (simp add: dma_cdrom_transfer_active_def chcr_of_def)
  have cs: "as_accum (cdrom_async (dma ?s0)) = ?b" by (simp add: set_cd_accum_def)
  have adv: "advance_cdrom p cycles s = (if moved > 0
      then if as_remaining (cdrom_async (dma ?t)) = 0 then finish_async_cdrom_transfer p addr ?t else ?t else s3)"
    using True act w(1) unfolding advance_cdrom_def Let_def cs div1 s2_def [symmetric] by simp
  have "as_remaining ?a - moved \<noteq> 0" if f: "far ?a cycles" and mv: "moved > 0"
  proof -
    have "as_active ?a \<noteq> 0" using True by (simp add: dma_cdrom_transfer_active_def)
    moreover have "as_remaining ?a \<noteq> 0" using w(7) mv by auto
    ultimately have "unat ?b < unat (as_remaining ?a)"
      using f sat_add_far [of ?a cycles "as_remaining ?a"] unfolding far_def by auto
    then show ?thesis using w(6) by (auto simp: word_le_nat_alt)
  qed
  then show ?thesis
    unfolding adv t(4) using t w(2-4) s2 by simp
qed

lemma advance_delayed_mdc [simp]: "mdc (advance_delayed_complete ch n s) = mdc s"
  by (simp add: advance_delayed_complete_def Let_def)

lemma advance_delays:
  assumes "distinct chs" "\<forall>ch\<in>set chs. dl_active (delayed (dma s) ch) \<noteq> 0 \<longrightarrow> cycles < dl_remaining (delayed (dma s) ch)"
  shows "none_ended s (foldl (\<lambda>s ch. advance_delayed_complete ch cycles s) s chs)"
  using assms
proof (induction chs arbitrary: s)
  case (Cons c cs)
  let ?t = "advance_delayed_complete c cycles s"
  have t: "none_ended s ?t" "\<And>i. i \<noteq> c \<Longrightarrow> delayed (dma ?t) i = delayed (dma s) i"
    using Cons.prems by (auto simp: advance_delayed_complete_def Let_def none_ended_def)
  have "\<forall>ch\<in>set cs. dl_active (delayed (dma ?t) ch) \<noteq> 0 \<longrightarrow> cycles < dl_remaining (delayed (dma ?t) ch)"
  proof
    fix ch assume c: "ch \<in> set cs"
    then have "ch \<noteq> c" using Cons.prems(1) by auto
    then show "dl_active (delayed (dma ?t) ch) \<noteq> 0 \<longrightarrow> cycles < dl_remaining (delayed (dma ?t) ch)"
      using t(2) [of ch] Cons.prems(2) c by simp
  qed
  then have "none_ended ?t (foldl (\<lambda>s ch. advance_delayed_complete ch cycles s) ?t cs)"
    using Cons.IH [of ?t] Cons.prems(1) by simp
  then show ?case using none_ended_trans [OF t(1)] by simp
qed (simp add: none_ended_def)

lemma foldl_delays_mdc: "mdc (foldl (\<lambda>s ch. advance_delayed_complete ch n s) s chs) = mdc s"
  by (induction chs arbitrary: s) simp_all

text \<open>Everything the controller waits for is later than \<open>cycles\<close>, and the decoder routes are valid.\<close>

definition all_far :: "u32 \<Rightarrow> 'x dsys \<Rightarrow> bool" where
  "all_far cycles s \<longleftrightarrow> mdec_route_ok 0 s \<and> mdec_route_ok 1 s
     \<and> far (mdec_async (dma s) 0) cycles \<and> far (mdec_async (dma s) 1) cycles \<and> far (cdrom_async (dma s)) cycles
     \<and> (\<forall>ch<7. dl_active (delayed (dma s) ch) \<noteq> 0 \<longrightarrow> cycles < dl_remaining (delayed (dma s) ch))"

lemma dma_advance_step:
  assumes "mdec_ok (mdc s)"
  shows "\<exists>s'. dma_advance p cycles s = Some s' \<and> mdec_ok (mdc s') \<and> (all_far cycles s \<longrightarrow> none_ended s s')"
proof (cases "cycles = 0")
  case True
  then show ?thesis using assms by (simp add: dma_advance_def none_ended_def)
next
  case False
  let ?s = "upd_dma (\<lambda>d. d\<lparr>exec_depth := exec_depth d + 1\<rparr>) s"
  have s: "mdec_ok (mdc ?s)" "mdec_route_ok ch ?s = mdec_route_ok ch s" for ch
    using assms by (simp_all add: mdec_route_ok_def chcr_of_def)
  obtain s1 where s1: "advance_mdec_channel p 0 cycles ?s = Some s1" "mdec_ok (mdc s1)"
    "mdec_route_ok 0 ?s \<and> far (mdec_async (dma ?s) 0) cycles \<longrightarrow> quiet 0 ?s s1"
    using advance_mdec_step [OF s(1), of 0 p cycles] by auto
  obtain s2 where s2: "advance_mdec_channel p 1 cycles s1 = Some s2" "mdec_ok (mdc s2)"
    "mdec_route_ok 1 s1 \<and> far (mdec_async (dma s1) 1) cycles \<longrightarrow> quiet 1 s1 s2"
    using advance_mdec_step [OF s1(2), of 1 p cycles] by auto
  let ?s3 = "advance_cdrom p cycles s2"
  let ?s4 = "foldl (\<lambda>s ch. advance_delayed_complete ch cycles s) ?s3 [0..<7]"
  let ?s5 = "upd_dma (\<lambda>d. d\<lparr>cur_ch := - 1, exec_depth := exec_depth d - 1\<rparr>) ?s4"
  have r: "dma_advance p cycles s = Some ?s5"
    using False s1(1) s2(1) by (simp only: dma_advance_def Let_def if_False option.case)
  have ok: "mdec_ok (mdc ?s5)" using s2(2) advance_cdrom_step [of p cycles s2] by (simp add: foldl_delays_mdc del: upt_rec_numeral)
  have "none_ended s ?s5" if f: "all_far cycles s"
  proof -
    have q1: "quiet 0 ?s s1" using f s1(3) s(2) by (simp add: all_far_def)
    then have a1: "dicr (dma s1) = dicr (dma s)" "delayed (dma s1) = delayed (dma s)"
      "cdrom_async (dma s1) = cdrom_async (dma s)" "mdec_async (dma s1) 1 = mdec_async (dma s) 1"
      "chan (dma s1) 1 = chan (dma s) 1" by (simp_all add: quiet_def)
    have "mdec_route_ok 1 s1" using f a1(5) by (simp add: all_far_def mdec_route_ok_def chcr_of_def)
    then have q2: "quiet 1 s1 s2" using f s2(3) a1(4) by (simp add: all_far_def)
    have "none_ended s ?s" by (simp add: none_ended_def)
    then have n2: "none_ended s s2"
      using quiet_none_ended [OF q1] quiet_none_ended [OF q2] none_ended_trans by fastforce
    have a2: "delayed (dma s2) = delayed (dma s)" "cdrom_async (dma s2) = cdrom_async (dma s)"
      using q2 a1 unfolding quiet_def by simp_all
    have a3: "none_ended s ?s3" "delayed (dma ?s3) = delayed (dma s)"
      using advance_cdrom_step [of p cycles s2] f a2 none_ended_trans [OF n2] by (simp_all add: all_far_def)
    have "none_ended ?s3 ?s4"
      by (rule advance_delays) (use f a3(2) in \<open>auto simp: all_far_def\<close>)
    then have "none_ended s ?s4" by (rule none_ended_trans [OF a3(1)])
    moreover have "none_ended ?s4 ?s5" by (simp add: none_ended_def)
    ultimately show ?thesis by (rule none_ended_trans)
  qed
  then show ?thesis using r ok by blast
qed

text \<open>
  Time never hangs on the DMA controller: with a consistent decoder, advancing by any number of
  cycles returns, whatever the registers hold, and leaves the decoder's queues inside their
  allocations.
\<close>

theorem dma_advance_returns:
  assumes "mdec_ok (mdc s)"
  shows "\<exists>s'. dma_advance p cycles s = Some s' \<and> mdec_ok (mdc s')"
  using dma_advance_step [OF assms, of p cycles] by blast

subsection \<open>The horizon\<close>

lemma earlier_le: "foldl (\<lambda>best x. earlier (c x) (e x) best) b xs \<le> b"
proof (induction xs arbitrary: b)
  case (Cons x xs)
  have "earlier (c x) (e x) b \<le> b" by (auto simp: earlier_def)
  then show ?case using Cons [of "earlier (c x) (e x) b"] by (auto intro: order_trans)
qed simp

lemma earlier_le_est: "x \<in> set xs \<Longrightarrow> c x \<Longrightarrow> foldl (\<lambda>best x. earlier (c x) (e x) best) b xs \<le> e x"
proof (induction xs arbitrary: b)
  case (Cons y ys)
  show ?case
  proof (cases "x = y")
    case True
    have "earlier (c x) (e x) b \<le> e x" using Cons.prems(2) by (simp add: earlier_def not_less)
    then show ?thesis using True earlier_le [of c e "earlier (c x) (e x) b" ys] by (auto intro: order_trans)
  next
    case False
    then show ?thesis using Cons by simp
  qed
qed simp

lemma estimate_far:
  assumes "as_active a \<noteq> 0 \<and> as_remaining a \<noteq> 0 \<longrightarrow> cycles < async_estimate a"
  shows "far a cycles"
proof (cases "as_active a \<noteq> 0 \<and> as_remaining a \<noteq> 0")
  case True
  then have lt: "cycles < async_estimate a" using assms by blast
  then have gt: "as_remaining a > as_accum a" by (auto simp: async_estimate_def split: if_splits)
  then have "unat (as_remaining a - as_accum a) = unat (as_remaining a) - unat (as_accum a)"
    by (simp add: unat_sub word_le_nat_alt word_less_nat_alt)
  then have "unat (as_accum a) + unat cycles < unat (as_remaining a)"
    using lt gt by (simp add: async_estimate_def word_less_nat_alt)
  then show ?thesis by (simp add: far_def)
qed (auto simp: far_def)

lemma horizon_all_far:
  assumes "bit im 3" "cycles < dma_cycles_to_irq im (dma s)" "mdec_route_ok 0 s" "mdec_route_ok 1 s"
  shows "all_far cycles s"
proof -
  let ?d = "dma s"
  let ?ca = "\<lambda>x :: nat \<times> dma_async. as_active (snd x) \<noteq> 0 \<and> as_remaining (snd x) \<noteq> 0"
  let ?ea = "\<lambda>x :: nat \<times> dma_async. async_estimate (snd x)"
  let ?b = "foldl (\<lambda>best x. earlier (?ca x) (?ea x) best) UINT32_MAX (async_channels ?d)"
  let ?cd = "\<lambda>ch. dl_active (delayed ?d ch) \<noteq> 0" and ?ed = "\<lambda>ch. dl_remaining (delayed ?d ch)"
  have m: "im AND push_bit 3 1 \<noteq> 0" using assms(1) by (simp add: bit_iff_and_push_bit_not_eq_0 del: push_bit_of_1)
  have r: "dma_cycles_to_irq im ?d = foldl (\<lambda>best ch. earlier (?cd ch) (?ed ch) best) ?b [0..<7]"
    using m by (simp only: dma_cycles_to_irq_def Let_def if_False case_prod_unfold)
  have b: "cycles < ?b" using assms(2) earlier_le [of ?cd ?ed ?b "[0..<7]"] unfolding r by (rule order.strict_trans2)
  have "far a cycles" if "(ch, a) \<in> set (async_channels ?d)" for ch a
  proof (rule estimate_far, intro impI)
    assume "as_active a \<noteq> 0 \<and> as_remaining a \<noteq> 0"
    then have "?b \<le> async_estimate a" using earlier_le_est [OF that, of ?ca ?ea UINT32_MAX] by simp
    with b show "cycles < async_estimate a" by (rule order.strict_trans2)
  qed
  moreover have "cycles < ?ed ch" if "ch < 7" "?cd ch" for ch
  proof -
    have "ch \<in> set [0..<7]" using that by simp
    from earlier_le_est [of ch "[0..<7]" ?cd ?ed ?b, OF this that(2)] show ?thesis
      using assms(2) unfolding r by (rule order.strict_trans2 [rotated])
  qed
  ultimately show ?thesis using assms(3,4) by (auto simp: all_far_def async_channels_def)
qed

text \<open>
  C34. The horizon is safe: while fewer cycles pass than \<open>dma_cycles_to_irq\<close> answers, no channel
  completes, armed for the interrupt or not: the control word of every channel, with its start bit, is
  as it was, the transfers of the two decoder channels and of the CD are still under way if they were, so
  is every delayed completion, and DICR is as it was. This is for a consistent decoder (\<open>mdec_ok\<close>), with
  interrupt 3 unmasked (the answer for a masked one is the largest), and with the two decoder channels
  in their valid directions: in the wrong one a decoder transfer ends at the next advance, before the
  horizon.
\<close>

theorem dma_horizon_sound:
  assumes "mdec_ok (mdc s)" "bit im 3" "cycles < dma_cycles_to_irq im (dma s)"
    and "chcr_of 0 s AND 1 \<noteq> 0" "chcr_of 1 s AND 1 = 0"
  shows "\<exists>s'. dma_advance p cycles s = Some s' \<and> dicr (dma s') = dicr (dma s)
    \<and> (\<forall>ch. chcr (chan (dma s') ch) = chcr (chan (dma s) ch))
    \<and> (\<forall>ch. as_active (mdec_async (dma s') ch) = as_active (mdec_async (dma s) ch))
    \<and> as_active (cdrom_async (dma s')) = as_active (cdrom_async (dma s))
    \<and> (\<forall>ch. dl_active (delayed (dma s') ch) = dl_active (delayed (dma s) ch))"
proof -
  have "all_far cycles s"
    using horizon_all_far [OF assms(2,3)] assms(4,5) by (simp add: mdec_route_ok_def)
  then show ?thesis using dma_advance_step [OF assms(1), of p cycles] unfolding none_ended_def by blast
qed

lemma cancel_zero [simp]:
  "gs (cancel_async_transfer p 0 s) = gs s" "dicr (dma (cancel_async_transfer p 0 s)) = dicr (dma s)"
  by (simp_all add: cancel_async_transfer_def)

lemma armed_flag: "channel_irq_flag_armed 0 d \<Longrightarrow> dicr_master_flag (dicr d OR push_bit 24 1) \<noteq> 0"
proof -
  assume "channel_irq_flag_armed 0 d"
  then have "odd (drop_bit 23 (dicr d))" by (auto simp: channel_irq_flag_armed_def and_one_eq odd_iff_mod_2_eq_one)
  then have b: "bit (dicr d) 23" by (simp add: bit_iff_odd_drop_bit)
  have f: "bit (dicr d OR push_bit 24 1) 24" by (simp add: bit_or_iff bit_push_bit_iff)
  have "bit (dicr d OR push_bit 24 1) 23" using b by (simp only: bit_or_iff simp_thms)
  moreover have "\<exists>k<7. bit (dicr d OR push_bit 24 1) (24 + k)" using f by (intro exI [of _ 0]) simp
  ultimately show ?thesis unfolding master_flag_bits by simp
qed

text \<open>
  The horizon is not safe for the wrong direction: an armed MDEC-in channel kicked to read from
  the decoder completes, and interrupts, at the very next advance, however far off
  \<open>dma_cycles_to_irq\<close> says the interrupt is.
\<close>

theorem wrong_direction_beats_horizon:
  assumes "cycles < dma_cycles_to_irq im (dma s)"
    and "as_active (mdec_async (dma s) 0) \<noteq> 0" "drop_bit 24 (chcr_of 0 s) AND 1 \<noteq> 0" "channel_enabled 0 (dma s)"
    and "chcr_of 0 s AND 1 = 0" "channel_irq_flag_armed 0 (dma s)" "dicr_master_flag (dicr (dma s)) = 0"
  shows "\<exists>s'. advance_mdec_channel p 0 cycles s = Some s' \<and> i_stat (ienv s') = i_stat (ienv s) OR 8"
proof -
  let ?f = "finish_async_mdec_transfer p 0 (chan_addr 0 s) (as_total (mdec_async (dma s) 0)) s"
  let ?c = "cancel_async_transfer p 0 (mdec_do (mdec_debug_dma_in_end (mdec_view p (gs s)) (as_total (mdec_async (dma s) 0))) s)"
  have "advance_mdec_channel p 0 cycles s = Some ?f"
    using assms(2-5) by (simp add: advance_mdec_channel_def Let_def)
  moreover have f: "?f = complete_transfer 0 ?c" by (simp add: finish_async_mdec_transfer_def Let_def)
  have arm: "channel_irq_flag_armed 0 (dma ?c)" using assms(6) by (simp add: channel_irq_flag_armed_def)
  have "dicr (dma (complete_transfer 0 ?c)) = dicr (dma s) OR push_bit 24 1"
    unfolding complete_dicr using arm by simp
  then have "i_stat (ienv ?f) = i_stat (ienv s) OR 8"
    unfolding f complete_stat using assms(7) armed_flag [OF assms(6)] by simp
  ultimately show ?thesis by blast
qed

subsection \<open>The snapshot\<close>

definition put_chan :: "dma_channel \<Rightarrow> u8 list" where
  "put_chan c = concat (map le32 [madr c, bcr c, chcr c])"

definition put_async :: "dma_async \<Rightarrow> u8 list" where
  "put_async a = concat (map (\<lambda>v. [v]) [as_active a, as_started a])
     @ concat (map le32 [as_total a, as_remaining a, as_accum a, as_start a])"

definition put_delay :: "dma_delay \<Rightarrow> u8 list" where
  "put_delay l = [dl_active l] @ concat (map le32 [dl_total l, dl_remaining l])"

interpretation wire_chan: wire_codec 12 put_chan dma_r_channel
proof unfold_locales
  show "length (put_chan c) = 12" for c by (simp add: put_chan_def w32.length_put)
  show "dma_r_channel (Some (put_chan c @ rest)) = Some (c, Some rest)" for c rest
    unfolding put_chan_def dma_r_channel_def by (subst w32.get_puts) simp_all
qed

interpretation wire_async: wire_codec 18 put_async dma_r_async
proof unfold_locales
  show "length (put_async a) = 18" for a by (simp add: put_async_def w32.length_put)
  show "dma_r_async (Some (put_async a @ rest)) = Some (a, Some rest)" for a rest
  proof -
    have "r_many pst_r_u8 2 (Some (concat (map (\<lambda>v. [v]) [as_active a, as_started a]) @ r))
        = Some ([as_active a, as_started a], Some r)" for r
      by (rule w8.get_puts) simp
    moreover have "r_many pst_r_u32 4 (Some (concat (map le32 [as_total a, as_remaining a, as_accum a, as_start a]) @ r))
        = Some ([as_total a, as_remaining a, as_accum a, as_start a], Some r)" for r
      by (rule w32.get_puts) simp
    ultimately show ?thesis unfolding put_async_def dma_r_async_def append_assoc
      by (simp only: option.case prod.case) (simp add: numeral_eq_Suc)
  qed
qed

interpretation wire_delay: wire_codec 9 put_delay dma_r_delay
proof unfold_locales
  show "length (put_delay l) = 9" for l by (simp add: put_delay_def w32.length_put)
  show "dma_r_delay (Some (put_delay l @ rest)) = Some (l, Some rest)" for l rest
  proof -
    have "pst_r_u8 (Some ([dl_active l] @ r)) = Some (dl_active l, Some r)" for r by (rule w8.get_put)
    moreover have "r_many pst_r_u32 2 (Some (concat (map le32 [dl_total l, dl_remaining l]) @ r))
        = Some ([dl_total l, dl_remaining l], Some r)" for r
      by (rule w32.get_puts) simp
    ultimately show ?thesis unfolding put_delay_def dma_r_delay_def append_assoc
      by (simp only: option.case prod.case) simp
  qed
qed

lemma emits_async: "emits (dma_w_async a) (put_async a)"
  using emits_and [OF emits_u8 emits_and [OF emits_u8 emits_and [OF emits_u32 emits_and [OF emits_u32
    emits_and [OF emits_u32 emits_u32]]]]]
  by (simp add: dma_w_async_def put_async_def)

lemma emits_delay: "emits (dma_w_delay l) (put_delay l)"
  using emits_and [OF emits_u8 emits_and [OF emits_u32 emits_u32]] by (simp add: dma_w_delay_def put_delay_def)

definition dma_layout :: "dma_state \<Rightarrow> u8 list" where
  "dma_layout d = concat (map put_chan (map (chan d) [0..<7])) @ concat (map le32 [dpcr d, dicr d]) @
     concat (map put_async [mdec_async d 0, mdec_async d 1, cdrom_async d]) @
     concat (map put_delay (map (delayed d) [0..<7]))"

lemma dma_layout_length: "length (dma_layout d) = dma_snapshot_bytes"
  by (simp add: dma_layout_def dma_snapshot_bytes_def wire_chan.length_puts wire_async.length_puts
      wire_delay.length_puts w32.length_puts del: upt_rec_numeral map_map list.map)

lemma chan_fields:
  "list_all2 emits (concat (map (\<lambda>i. let c = chan d i in [pst_w_u32 (madr c), pst_w_u32 (bcr c), pst_w_u32 (chcr c)]) xs))
     (concat (map (\<lambda>i. map le32 [madr (chan d i), bcr (chan d i), chcr (chan d i)]) xs))"
  by (induction xs) (simp_all add: Let_def emits_u32)

lemma snapshot_write_is_layout: "dma_snapshot_write d = dma_layout d"
proof -
  let ?fs = "concat (map (\<lambda>i. let c = chan d i in [pst_w_u32 (madr c), pst_w_u32 (bcr c), pst_w_u32 (chcr c)]) [0..<7]) @
        [pst_w_u32 (dpcr d), pst_w_u32 (dicr d),
         dma_w_async (mdec_async d 0), dma_w_async (mdec_async d 1), dma_w_async (cdrom_async d)] @
        map (\<lambda>i. dma_w_delay (delayed d i)) [0..<7]"
  let ?bs = "concat (map (\<lambda>i. map le32 [madr (chan d i), bcr (chan d i), chcr (chan d i)]) [0..<7]) @
        [le32 (dpcr d), le32 (dicr d), put_async (mdec_async d 0), put_async (mdec_async d 1), put_async (cdrom_async d)] @
        map (\<lambda>i. put_delay (delayed d i)) [0..<7]"
  have "list_all2 emits ?fs ?bs"
    by (intro list_all2_appendI chan_fields)
      (simp_all add: emits_u32 emits_async emits_delay list_all2_map1 list_all2_map2 list_all2_same del: upt_rec_numeral)
  moreover have c: "concat ?bs = dma_layout d"
  proof -
    have "concat (concat (map (\<lambda>i. map le32 [madr (chan d i), bcr (chan d i), chcr (chan d i)]) xs))
        = concat (map (\<lambda>i. put_chan (chan d i)) xs)" for xs
      by (induction xs) (simp_all add: put_chan_def)
    then show ?thesis by (simp add: dma_layout_def comp_def del: upt_rec_numeral)
  qed
  ultimately have "pw_buf (w_all ?fs (pst_w_init (Some dma_snapshot_bytes))) = dma_layout d"
    using w_all_exact(1) [of ?fs ?bs dma_snapshot_bytes] dma_layout_length [of d] by (simp only: c)
  then show ?thesis by (simp only: dma_snapshot_write_def)
qed

text \<open>The part of the controller a snapshot carries.\<close>

definition dma_saved :: "dma_state \<Rightarrow> dma_channel list \<times> u32 \<times> u32 \<times> dma_async list \<times> dma_delay list" where
  "dma_saved d = (map (chan d) [0..<7], dpcr d, dicr d, [mdec_async d 0, mdec_async d 1, cdrom_async d],
     map (delayed d) [0..<7])"

text \<open>
  Round trip: the snapshot of a controller has the advertised length, and read into any
  controller it is accepted and restores every channel register, the control registers and every
  transfer in flight; input of any other length is refused and changes nothing.
\<close>

theorem dma_snapshot_roundtrip:
  "length (dma_snapshot_write d) = dma_snapshot_bytes
   \<and> fst (dma_snapshot_read (dma_snapshot_write d) d')
   \<and> dma_saved (snd (dma_snapshot_read (dma_snapshot_write d) d')) = dma_saved d
   \<and> (length bs = dma_snapshot_bytes \<or> dma_snapshot_read bs d' = (False, d'))"
proof -
  have "r_many dma_r_channel 7 (pst_r_init (dma_layout d)) = Some (map (chan d) [0..<7],
      Some (concat (map le32 [dpcr d, dicr d]) @ concat (map put_async [mdec_async d 0, mdec_async d 1, cdrom_async d]) @
     concat (map put_delay (map (delayed d) [0..<7]))))"
    unfolding dma_layout_def pst_r_init_def by (rule wire_chan.get_puts) simp
  moreover have "r_many pst_r_u32 2 (Some (concat (map le32 [dpcr d, dicr d]) @ r)) = Some ([dpcr d, dicr d], Some r)" for r
    by (rule w32.get_puts) simp
  moreover have "r_many dma_r_async 3 (Some (concat (map put_async [mdec_async d 0, mdec_async d 1, cdrom_async d]) @ r))
      = Some ([mdec_async d 0, mdec_async d 1, cdrom_async d], Some r)" for r
    by (rule wire_async.get_puts) simp
  moreover have "r_many dma_r_delay 7 (Some (concat (map put_delay (map (delayed d) [0..<7])))) = Some (map (delayed d) [0..<7], Some [])"
    using wire_delay.get_puts [of "map (delayed d) [0..<7]" 7 "[]"] by simp
  ultimately have "dma_snapshot_read (dma_layout d) d' = (True, d'\<lparr>
      chan := (\<lambda>i. if i < 7 then map (chan d) [0..<7] ! i else chan d' i), dpcr := dpcr d, dicr := dicr d,
      mdec_async := (\<lambda>i. if i < 2 then [mdec_async d 0, mdec_async d 1, cdrom_async d] ! i else mdec_async d' i),
      cdrom_async := cdrom_async d, delayed := (\<lambda>i. if i < 7 then map (delayed d) [0..<7] ! i else delayed d' i)\<rparr>)"
    unfolding dma_snapshot_read_def
    by (simp only: dma_layout_length option.case prod.case simp_thms if_False) (simp add: numeral_2_eq_2 del: upt_rec_numeral)
  then show ?thesis
    by (simp add: snapshot_write_is_layout dma_layout_length dma_saved_def dma_snapshot_read_def [of bs] del: upt_rec_numeral)
qed

subsection \<open>Concrete states\<close>

text \<open>
  A controller in mid-flight: channel 2 about to complete, channel 0 kicked in the invalid direction,
  channel 6 set up for a table of three entries at \<open>0x1000\<close>.
\<close>

definition demo_dma :: dma_state where
  "demo_dma = \<lparr>
     chan = (\<lambda>i. if i = 0 then \<lparr>madr = 0, bcr = 0, chcr = 0x01000200\<rparr>
                 else if i = 2 then \<lparr>madr = 0x1000, bcr = 0, chcr = 0x01000401\<rparr>
                 else if i = 6 then \<lparr>madr = 0x1000, bcr = 3, chcr = 0x11000002\<rparr>
                 else \<lparr>madr = 0, bcr = 0, chcr = 0\<rparr>),
     mdec_async = (\<lambda>i. if i = 0 then \<lparr>as_active = 1, as_started = 1, as_total = 1000, as_remaining = 1000,
                    as_accum = 0, as_start = 0\<rparr> else async_zero),
     cdrom_async = async_zero,
     delayed = (\<lambda>i. if i = 2 then \<lparr>dl_active = 1, dl_total = 5, dl_remaining = 10\<rparr>
                    else \<lparr>dl_active = 0, dl_total = 0, dl_remaining = 0\<rparr>),
     dpcr = 0x0FFFFFFF, dicr = 0x00FF0000,
     cd_log = (\<lambda>_. \<lparr>cl_lba = 0, cl_dest = 0, cl_size = 0\<rparr>), cd_log_head = 0, cd_log_total = 0,
     dtr = (\<lambda>_. dma_trace_zero), dtr_seq = 0, cd_hist = (\<lambda>_. cd_history_zero), cd_hist_seq = 0,
     cd_hist_cur = cd_history_zero, cd_hist_on = 0, exec_depth = 0, cur_ch = - 1, cur_madr = 0, cur_bcr = 0,
     initiator_pc = 0, ch_initiator = (\<lambda>_. 0)\<rparr>"

definition demo_sys :: "unit dsys" where
  "demo_sys = \<lparr>dma = demo_dma, mdc = mdec_init collecting_mdec, gs = guest_demo\<rparr>"

definition demo_ports :: "unit dports" where
  "demo_ports = \<lparr>devs = null_devices, gp0_source = (\<lambda>_. id), ws_begin = id, ws_prepass = (\<lambda>_. id), ws_end = id,
     gp0_node = (\<lambda>_ _. id), flap_last = False, spu_put = (\<lambda>_. id), spu_get = (\<lambda>g. (0, g)),
     audio_event = (\<lambda>_ _ _. id), cd_ready = (\<lambda>_. False), cd_get = (\<lambda>g. (0, g)), cd_sector_words = (\<lambda>_. 0x200),
     cd_setloc_lba = (\<lambda>_. 0),
     cd_debug_snapshot = (\<lambda>_. \<lparr>cb_mode_reg = 0, cb_sector_read_pos = 0, cb_sector_available = 0,
        cb_sector_size = 0, cb_last_sector_lba = 0, cb_last_sector_size = 0, cb_last_sector_mode = 0\<rparr>),
     overlay_before = (\<lambda>_ _. id), overlay_on = (\<lambda>_ _. id), mark_exec = (\<lambda>_ _. id), mdec_view = (\<lambda>_. quiet_host)\<rparr>"

lemma delayed_completion_sliced_witness:
  "foldl (\<lambda>t n. advance_delayed_complete 2 (of_nat n) t) demo_sys [4, 6] = advance_delayed_complete 2 10 demo_sys"
  using delayed_completion_sliced [of 2 demo_sys "[4, 6]"]
  by (simp add: delay_ok_def demo_sys_def demo_dma_def)

lemma dma_advance_returns_witness:
  "\<exists>s'. dma_advance demo_ports 7 demo_sys = Some s' \<and> mdec_ok (mdc s')"
  using dma_advance_returns [of demo_sys demo_ports 7] by (simp add: demo_sys_def mdec_init_ok)

lemma dma_demo_horizon:
  "dma_cycles_to_irq 8 demo_dma = 10"
  by (simp add: dma_cycles_to_irq_def async_channels_def demo_dma_def async_zero_def earlier_def async_estimate_def
      upt_rec)

definition demo_fixed :: "unit dsys" where
  "demo_fixed = upd_chan 0 (\<lambda>c. c\<lparr>chcr := 0x01000201\<rparr>) demo_sys"

lemma dma_horizon_sound_witness:
  "\<exists>s'. dma_advance demo_ports 9 demo_fixed = Some s' \<and> dicr (dma s') = 0x00FF0000
    \<and> as_active (mdec_async (dma s') 0) = 1 \<and> dl_active (delayed (dma s') 2) = 1"
proof -
  have d: "dma_cycles_to_irq 8 (dma demo_fixed) = 10"
    by (simp add: dma_cycles_to_irq_def async_channels_def demo_fixed_def demo_sys_def demo_dma_def async_zero_def
        earlier_def async_estimate_def upt_rec)
  have b: "bit (8 :: u32) 3" by (simp add: bit_iff_odd)
  have ok: "mdec_ok (mdc demo_fixed)" "chcr_of 0 demo_fixed AND 1 \<noteq> 0" "chcr_of 1 demo_fixed AND 1 = 0"
    by (simp_all add: demo_fixed_def demo_sys_def mdec_init_ok chcr_of_def demo_dma_def)
  have v: "dicr (dma demo_fixed) = 0x00FF0000" "as_active (mdec_async (dma demo_fixed) 0) = 1"
    "dl_active (delayed (dma demo_fixed) 2) = 1"
    by (simp_all add: demo_fixed_def demo_sys_def demo_dma_def)
  have lt: "9 < dma_cycles_to_irq 8 (dma demo_fixed)" by (simp add: d)
  from dma_horizon_sound [OF ok(1) b lt ok(2,3), of demo_ports] show ?thesis using v by metis
qed

lemma wrong_direction_beats_horizon_witness:
  "\<exists>s'. advance_mdec_channel demo_ports 0 1 demo_sys = Some s' \<and> i_stat (ienv s') = 0x709"
  using wrong_direction_beats_horizon [of 1 8 demo_sys demo_ports] dma_demo_horizon
  by (simp add: demo_sys_def chcr_of_def demo_dma_def channel_enabled_def channel_irq_flag_armed_def
      dicr_master_flag_def guest_demo_def)

lemma otc_fill_dma [simp]: "dma (otc_fill p n a s) = dma s"
  by (induction n arbitrary: a s) simp_all

lemma complete_chan: "i \<noteq> ch \<Longrightarrow> chan (dma (complete_transfer ch s)) i = chan (dma s) i"
  by (simp add: complete_transfer_def Let_def)

lemma ordering_table_drawn_witness:
  "fst (execute_ch2_gpu demo_ports (execute_ch6_otc demo_ports demo_sys)) = 3"
proof -
  let ?t = "execute_ch6_otc demo_ports demo_sys"
  have c: "otc_count demo_sys = 3" by (simp add: otc_count_def demo_sys_def demo_dma_def)
  have chan2: "chan (dma ?t) 2 = \<lparr>madr = 0x1000, bcr = 0, chcr = 0x01000401\<rparr>"
    by (simp add: otc_is_fill complete_chan demo_sys_def demo_dma_def)
  have k: "gpu_keeps_ram demo_ports" by (simp add: gpu_keeps_ram_def demo_ports_def)
  have a: "chan_addr 6 demo_sys = of_nat (4 * 0x400)" by (simp add: chan_addr_def demo_sys_def demo_dma_def)
  have pl: "plain_stores (gs demo_sys)" using demo_plain by (simp add: demo_sys_def)
  show ?thesis
    using ordering_table_drawn [OF pl a _ _ k refl, unfolded c] by (simp add: chcr_of_def chan2)
qed

end
