(* ===== verification/HashConfirm.thy ===== *)
theory HashConfirm
  imports Prelude
begin

unbundle bit_operations_syntax

section \<open>Frame commits: netplay\_hash\_confirm.c\<close>

text \<open>
  The two rings of state digests, ours and the peer's, and the watermark up to which they have been
  compared equal. The struct is owned by the session, so the null guards of the entry points are
  left out; a query with an output pointer returns the digest as an option, and its 0 or 1 is
  \<open>None\<close> or \<open>Some\<close>.
\<close>

record hash_confirm =
  local_tick :: "nat \<Rightarrow> u32"
  local_digest :: "nat \<Rightarrow> u32"
  local_valid :: "nat \<Rightarrow> u8"
  peer_tick :: "nat \<Rightarrow> u32"
  peer_digest :: "nat \<Rightarrow> u32"
  peer_valid :: "nat \<Rightarrow> u8"
  resolved_through :: u32
  resolved_valid :: u8

abbreviation NETPLAY_HC_RING :: u32 where "NETPLAY_HC_RING \<equiv> 128"

definition slot_of :: "u32 \<Rightarrow> nat" where
  "slot_of tick = unat (tick mod NETPLAY_HC_RING)"

definition netplay_hc_reset :: hash_confirm where
  "netplay_hc_reset = \<lparr>local_tick = (\<lambda>_. 0), local_digest = (\<lambda>_. 0), local_valid = (\<lambda>_. 0),
     peer_tick = (\<lambda>_. 0), peer_digest = (\<lambda>_. 0), peer_valid = (\<lambda>_. 0),
     resolved_through = 0, resolved_valid = 0\<rparr>"

definition netplay_hc_prime_after :: "u32 \<Rightarrow> hash_confirm" where
  "netplay_hc_prime_after last_ok = netplay_hc_reset\<lparr>resolved_through := last_ok, resolved_valid := 1\<rparr>"

definition local_at :: "hash_confirm \<Rightarrow> u32 \<Rightarrow> u32 option" where
  "local_at hc tick =
     (let i = slot_of tick in
      if local_valid hc i = 0 \<or> local_tick hc i \<noteq> tick then None else Some (local_digest hc i))"

definition peer_at :: "hash_confirm \<Rightarrow> u32 \<Rightarrow> u32 option" where
  "peer_at hc tick =
     (let i = slot_of tick in
      if peer_valid hc i = 0 \<or> peer_tick hc i \<noteq> tick then None else Some (peer_digest hc i))"

text \<open>
  The tick after the watermark; \<open>None\<close> at the end of the 32-bit tick space, where the callers return.
\<close>

definition next_tick :: "hash_confirm \<Rightarrow> u32 option" where
  "next_tick hc =
     (if resolved_valid hc = 0 then Some 0
      else if resolved_through hc = 0xFFFFFFFF then None
      else Some (resolved_through hc + 1))"

text \<open>The compared pair at the watermark, when both sides have it.\<close>

definition next_pair :: "hash_confirm \<Rightarrow> (u32 \<times> u32 \<times> u32) option" where
  "next_pair hc =
     (case next_tick hc of None \<Rightarrow> None
      | Some tick \<Rightarrow>
        (case (local_at hc tick, peer_at hc tick) of
           (Some ld, Some pd) \<Rightarrow> Some (tick, ld, pd)
         | _ \<Rightarrow> None))"

function try_advance :: "hash_confirm \<Rightarrow> hash_confirm" where
  "try_advance hc =
     (case next_pair hc of None \<Rightarrow> hc
      | Some (tick, ld, pd) \<Rightarrow>
        if ld \<noteq> pd then hc
        else try_advance (hc\<lparr>resolved_through := tick, resolved_valid := 1\<rparr>))"
  by pat_completeness auto

definition ticks_left :: "hash_confirm \<Rightarrow> nat" where
  "ticks_left hc = (if resolved_valid hc = 0 then 2 ^ 32 else 2 ^ 32 - 1 - unat (resolved_through hc))"

lemma next_pair_tick: "next_pair hc = Some (tick, ld, pd) \<Longrightarrow> next_tick hc = Some tick"
  by (auto simp: next_pair_def split: option.splits)

lemma next_tick_left:
  assumes "next_tick hc = Some tick"
  shows "ticks_left (hc\<lparr>resolved_through := tick, resolved_valid := 1\<rparr>) < ticks_left hc"
proof (cases "resolved_valid hc = 0")
  case False
  then have n: "resolved_through hc \<noteq> 0xFFFFFFFF" "tick = resolved_through hc + 1"
    using assms by (auto simp: next_tick_def split: if_splits)
  then have "unat tick = Suc (unat (resolved_through hc))" by (simp add: unat_inc)
  then show ?thesis using False unat_u32_less [of tick] by (simp add: ticks_left_def)
qed (use assms in \<open>simp add: next_tick_def ticks_left_def\<close>)

termination try_advance
  by (relation "measure ticks_left") (auto dest!: next_pair_tick next_tick_left)

declare try_advance.simps [simp del]

definition netplay_hc_note_local :: "u32 \<Rightarrow> u32 \<Rightarrow> hash_confirm \<Rightarrow> hash_confirm" where
  "netplay_hc_note_local tick digest hc =
     (let i = slot_of tick in
      try_advance (hc\<lparr>local_tick := (local_tick hc)(i := tick),
                      local_digest := (local_digest hc)(i := digest),
                      local_valid := (local_valid hc)(i := 1)\<rparr>))"

definition netplay_hc_note_peer :: "u32 \<Rightarrow> u32 \<Rightarrow> hash_confirm \<Rightarrow> hash_confirm" where
  "netplay_hc_note_peer tick digest hc =
     (let i = slot_of tick in
      try_advance (hc\<lparr>peer_tick := (peer_tick hc)(i := tick),
                      peer_digest := (peer_digest hc)(i := digest),
                      peer_valid := (peer_valid hc)(i := 1)\<rparr>))"

definition netplay_hc_resolved_through :: "hash_confirm \<Rightarrow> u32" where
  "netplay_hc_resolved_through hc = (if resolved_valid hc = 0 then 0 else resolved_through hc)"

definition netplay_hc_confirm_through :: "hash_confirm \<Rightarrow> u32 \<Rightarrow> u8" where
  "netplay_hc_confirm_through hc tick =
     (if resolved_valid hc = 0 then 0 else if tick \<le> resolved_through hc then 1 else 0)"

definition netplay_hc_local_digest :: "hash_confirm \<Rightarrow> u32 \<Rightarrow> u32 option" where
  "netplay_hc_local_digest hc tick = local_at hc tick"

definition netplay_hc_peer_digest :: "hash_confirm \<Rightarrow> u32 \<Rightarrow> u32 option" where
  "netplay_hc_peer_digest hc tick = peer_at hc tick"

definition netplay_hc_peek_mismatch :: "hash_confirm \<Rightarrow> (u32 \<times> u32 \<times> u32) option" where
  "netplay_hc_peek_mismatch hc =
     (case next_pair hc of None \<Rightarrow> None
      | Some (tick, ld, pd) \<Rightarrow> if ld = pd then None else Some (tick, ld, pd))"

text \<open>
  The scan of \<open>netplay_hc_heal_stale_gap\<close> over the ring: \<open>None\<close> where it returns 0 because a fork is
  still recorded, else the best agreeing tick found (\<open>best\<close> with \<open>have_best\<close>).
\<close>

fun heal_scan :: "hash_confirm \<Rightarrow> nat list \<Rightarrow> u32 option \<Rightarrow> u32 option option" where
  "heal_scan hc [] best = Some best"
| "heal_scan hc (i # is) best =
     (if local_valid hc i = 0 \<or> peer_valid hc i = 0 then heal_scan hc is best
      else if local_tick hc i \<noteq> peer_tick hc i then heal_scan hc is best
      else let t = local_tick hc i in
      if t \<le> resolved_through hc then heal_scan hc is best
      else if local_digest hc i \<noteq> peer_digest hc i then None
      else if best = None \<or> t > the best then heal_scan hc is (Some t)
      else heal_scan hc is best)"

definition netplay_hc_heal_stale_gap :: "hash_confirm \<Rightarrow> u8 \<times> hash_confirm" where
  "netplay_hc_heal_stale_gap hc =
     (if resolved_valid hc = 0 then (0, hc)
      else if resolved_through hc = 0xFFFFFFFF then (0, hc)
      else let tick = resolved_through hc + 1 in
      if local_at hc tick \<noteq> None \<and> peer_at hc tick \<noteq> None then (0, hc)
      else if local_at hc tick \<noteq> None \<or> peer_at hc tick \<noteq> None then (0, hc)
      else case heal_scan hc [0..<unat NETPLAY_HC_RING] None of
        None \<Rightarrow> (0, hc)
      | Some None \<Rightarrow> (0, hc)
      | Some (Some best) \<Rightarrow>
          if best \<le> resolved_through hc then (0, hc)
          else (1, hc\<lparr>resolved_through := best\<rparr>))"

subsection \<open>The watermark covers only compared ticks\<close>

datatype hc_op = NoteLocal u32 u32 | NotePeer u32 u32 | Heal

fun hc_apply :: "hash_confirm \<Rightarrow> hc_op \<Rightarrow> hash_confirm" where
  "hc_apply hc (NoteLocal tick digest) = netplay_hc_note_local tick digest hc"
| "hc_apply hc (NotePeer tick digest) = netplay_hc_note_peer tick digest hc"
| "hc_apply hc Heal = snd (netplay_hc_heal_stale_gap hc)"

text \<open>The rings hold only what was noted.\<close>

definition rings_from :: "hc_op set \<Rightarrow> hash_confirm \<Rightarrow> bool" where
  "rings_from ops hc \<longleftrightarrow>
     (\<forall>i. (local_valid hc i \<noteq> 0 \<longrightarrow> NoteLocal (local_tick hc i) (local_digest hc i) \<in> ops)
        \<and> (peer_valid hc i \<noteq> 0 \<longrightarrow> NotePeer (peer_tick hc i) (peer_digest hc i) \<in> ops))"

text \<open>
  Healing after \<open>ops\<close> moves the watermark over the tick \<open>u\<close>: neither ring held the tick after the old
  watermark, no tick above it was held by both rings with different digests, and the tick the
  watermark moves to had been noted equal by both sides.
\<close>

definition healed_over :: "hash_confirm \<Rightarrow> hc_op list \<Rightarrow> u32 \<Rightarrow> bool" where
  "healed_over hc ops u \<longleftrightarrow>
     (let h = foldl hc_apply hc ops; best = resolved_through (snd (netplay_hc_heal_stale_gap h)) in
      fst (netplay_hc_heal_stale_gap h) = 1 \<and> resolved_through h < u \<and> u < best
      \<and> local_at h (resolved_through h + 1) = None \<and> peer_at h (resolved_through h + 1) = None
      \<and> (\<forall>v d e. resolved_through h < v \<and> local_at h v = Some d \<and> peer_at h v = Some e \<longrightarrow> d = e)
      \<and> (\<exists>d. NoteLocal best d \<in> set ops \<and> NotePeer best d \<in> set ops))"

text \<open>
  Every tick up to the watermark and after the base it was primed with was noted equal or is one of
  the ticks \<open>gaps\<close>.
\<close>

definition marked_from :: "hc_op set \<Rightarrow> u32 set \<Rightarrow> u32 option \<Rightarrow> hash_confirm \<Rightarrow> bool" where
  "marked_from ops gaps base hc \<longleftrightarrow>
     (\<forall>u. resolved_valid hc \<noteq> 0 \<and> u \<le> resolved_through hc \<and> (case base of None \<Rightarrow> True | Some b \<Rightarrow> b < u)
        \<longrightarrow> u \<in> gaps \<or> (\<exists>d. NoteLocal u d \<in> ops \<and> NotePeer u d \<in> ops))"

lemma rings_mono: "rings_from ops hc \<Longrightarrow> ops \<subseteq> ops' \<Longrightarrow> rings_from ops' hc"
  by (auto simp: rings_from_def)

lemma marked_mono: "marked_from ops gaps base hc \<Longrightarrow> ops \<subseteq> ops' \<Longrightarrow> gaps \<subseteq> gaps' \<Longrightarrow> marked_from ops' gaps' base hc"
  unfolding marked_from_def by blast

lemma local_at_noted: "rings_from ops hc \<Longrightarrow> local_at hc tick = Some d \<Longrightarrow> NoteLocal tick d \<in> ops"
  by (auto simp: rings_from_def local_at_def Let_def split: if_splits)

lemma peer_at_noted: "rings_from ops hc \<Longrightarrow> peer_at hc tick = Some d \<Longrightarrow> NotePeer tick d \<in> ops"
  by (auto simp: rings_from_def peer_at_def Let_def split: if_splits)

lemma next_pair_ats: "next_pair hc = Some (tick, ld, pd) \<Longrightarrow> local_at hc tick = Some ld \<and> peer_at hc tick = Some pd"
  by (auto simp: next_pair_def split: option.splits)

lemma at_mark [simp]:
  "local_at (hc\<lparr>resolved_through := t, resolved_valid := v\<rparr>) = local_at hc"
  "peer_at (hc\<lparr>resolved_through := t, resolved_valid := v\<rparr>) = peer_at hc"
  by (simp_all add: fun_eq_iff local_at_def peer_at_def Let_def)

lemma rings_mark [simp]:
  "rings_from ops (hc\<lparr>resolved_through := t, resolved_valid := v\<rparr>) \<longleftrightarrow> rings_from ops hc"
  by (simp add: rings_from_def)

lemma next_tick_below:
  assumes "next_tick hc = Some tick" "u \<le> tick"
  shows "u = tick \<or> resolved_valid hc \<noteq> 0 \<and> u \<le> resolved_through hc"
proof (cases "resolved_valid hc = 0")
  case False
  then have "resolved_through hc \<noteq> 0xFFFFFFFF" "tick = resolved_through hc + 1"
    using assms(1) by (auto simp: next_tick_def split: if_splits)
  then have "unat tick = Suc (unat (resolved_through hc))" by (simp add: unat_inc)
  then show ?thesis using assms(2) False by (auto simp: word_le_nat_alt word_unat_eq_iff)
qed (use assms in \<open>simp add: next_tick_def\<close>)

lemma mark_next:
  assumes "next_pair hc = Some (tick, d, d)" "rings_from ops hc" "marked_from ops gaps base hc"
  shows "marked_from ops gaps base (hc\<lparr>resolved_through := tick, resolved_valid := 1\<rparr>)"
proof -
  have "NoteLocal tick d \<in> ops" "NotePeer tick d \<in> ops"
    using next_pair_ats [OF assms(1)] assms(2) by (auto dest: local_at_noted peer_at_noted)
  then show ?thesis
    using assms(3) next_tick_below [OF next_pair_tick [OF assms(1)]] by (auto simp: marked_from_def)
qed

lemma try_advance_marked:
  "rings_from ops hc \<Longrightarrow> marked_from ops gaps base hc \<Longrightarrow>
   rings_from ops (try_advance hc) \<and> marked_from ops gaps base (try_advance hc)"
proof (induction hc rule: try_advance.induct)
  case (1 hc)
  show ?case
  proof (cases "\<exists>tick d. next_pair hc = Some (tick, d, d)")
    case True
    then obtain tick d where n: "next_pair hc = Some (tick, d, d)" by blast
    show ?thesis
      using "1.IH" [OF n refl refl] mark_next [OF n] "1.prems"
      by (simp add: n try_advance.simps [of hc])
  next
    case False
    then have "try_advance hc = hc"
      by (auto simp: try_advance.simps [of hc] split: option.splits)
    then show ?thesis using "1.prems" by simp
  qed
qed

lemma note_marked:
  assumes "x \<noteq> Heal" "rings_from ops hc" "marked_from ops gaps base hc"
  shows "rings_from (insert x ops) (hc_apply hc x) \<and> marked_from (insert x ops) gaps base (hc_apply hc x)"
proof (cases x)
  case (NoteLocal t d)
  let ?h = "hc\<lparr>local_tick := (local_tick hc)(slot_of t := t),
      local_digest := (local_digest hc)(slot_of t := d), local_valid := (local_valid hc)(slot_of t := 1)\<rparr>"
  have "rings_from (insert x ops) ?h" using assms(2) by (auto simp: rings_from_def NoteLocal)
  moreover have "marked_from (insert x ops) gaps base ?h"
    using marked_mono [OF assms(3), of "insert x ops" gaps] by (auto simp: marked_from_def)
  ultimately have "rings_from (insert x ops) (try_advance ?h) \<and> marked_from (insert x ops) gaps base (try_advance ?h)"
    by (rule try_advance_marked)
  then show ?thesis by (simp add: NoteLocal netplay_hc_note_local_def Let_def)
next
  case (NotePeer t d)
  let ?h = "hc\<lparr>peer_tick := (peer_tick hc)(slot_of t := t),
      peer_digest := (peer_digest hc)(slot_of t := d), peer_valid := (peer_valid hc)(slot_of t := 1)\<rparr>"
  have "rings_from (insert x ops) ?h" using assms(2) by (auto simp: rings_from_def NotePeer)
  moreover have "marked_from (insert x ops) gaps base ?h"
    using marked_mono [OF assms(3), of "insert x ops" gaps] by (auto simp: marked_from_def)
  ultimately have "rings_from (insert x ops) (try_advance ?h) \<and> marked_from (insert x ops) gaps base (try_advance ?h)"
    by (rule try_advance_marked)
  then show ?thesis by (simp add: NotePeer netplay_hc_note_peer_def Let_def)
qed (use assms(1) in simp)

text \<open>What the scan of the rings tells: no fork above the watermark, and the tick it picked agrees.\<close>

lemma heal_scan_agrees:
  "heal_scan hc is best = Some r \<Longrightarrow> i \<in> set is \<Longrightarrow> local_valid hc i \<noteq> 0 \<Longrightarrow> peer_valid hc i \<noteq> 0 \<Longrightarrow>
   local_tick hc i = peer_tick hc i \<Longrightarrow> resolved_through hc < local_tick hc i \<Longrightarrow>
   local_digest hc i = peer_digest hc i"
  by (induction "is" arbitrary: best) (auto simp: Let_def not_le split: if_splits)

lemma heal_scan_best:
  "heal_scan hc is best = Some (Some t) \<Longrightarrow>
   best = Some t \<or> (\<exists>i. local_valid hc i \<noteq> 0 \<and> peer_valid hc i \<noteq> 0 \<and> local_tick hc i = t \<and> peer_tick hc i = t
      \<and> local_digest hc i = peer_digest hc i)"
  by (induction "is" arbitrary: best) (fastforce simp: Let_def split: if_splits)+

lemma slot_in_ring: "slot_of t \<in> set [0..<unat NETPLAY_HC_RING]"
  by (simp add: slot_of_def unat_mod)

lemma heal_cases:
  obtains "netplay_hc_heal_stale_gap hc = (0, hc)"
  | best where "netplay_hc_heal_stale_gap hc = (1, hc\<lparr>resolved_through := best\<rparr>)"
    "local_at hc (resolved_through hc + 1) = None" "peer_at hc (resolved_through hc + 1) = None"
    "heal_scan hc [0..<unat NETPLAY_HC_RING] None = Some (Some best)"
proof -
  consider "heal_scan hc [0..<unat NETPLAY_HC_RING] None = None"
    | "heal_scan hc [0..<unat NETPLAY_HC_RING] None = Some None"
    | t where "heal_scan hc [0..<unat NETPLAY_HC_RING] None = Some (Some t)"
    by (metis option.exhaust)
  then show ?thesis
  proof cases
    case 3
    show ?thesis
    proof (cases "netplay_hc_heal_stale_gap hc = (0, hc)")
      case False
      then have "netplay_hc_heal_stale_gap hc = (1, hc\<lparr>resolved_through := t\<rparr>)
          \<and> local_at hc (resolved_through hc + 1) = None \<and> peer_at hc (resolved_through hc + 1) = None"
        using 3 unfolding netplay_hc_heal_stale_gap_def Let_def by (auto simp del: unat_numeral split: if_split_asm)
      then show ?thesis using that(2) 3 by blast
    qed (rule that(1))
  qed (rule that(1), simp add: netplay_hc_heal_stale_gap_def Let_def)+
qed

lemma scan_ats:
  assumes "heal_scan hc [0..<unat NETPLAY_HC_RING] None = Some r" "resolved_through hc < v"
    "local_at hc v = Some d" "peer_at hc v = Some e"
  shows "d = e"
  using heal_scan_agrees [OF assms(1) slot_in_ring, of v] assms(2-4)
  by (auto simp: local_at_def peer_at_def Let_def split: if_splits)

text \<open>A tick above the old watermark and below the new one is one that healing went over.\<close>

lemma heal_step:
  assumes "h = foldl hc_apply hc ops" "rings_from (set ops) h" "resolved_through h < u"
    "u \<le> resolved_through (hc_apply h Heal)"
  shows "healed_over hc ops u \<or> (\<exists>d. NoteLocal u d \<in> set ops \<and> NotePeer u d \<in> set ops)"
proof -
  obtain best where b: "netplay_hc_heal_stale_gap h = (1, h\<lparr>resolved_through := best\<rparr>)"
      "local_at h (resolved_through h + 1) = None" "peer_at h (resolved_through h + 1) = None"
      "heal_scan h [0..<unat NETPLAY_HC_RING] None = Some (Some best)"
    using assms(3,4) by (cases rule: heal_cases [of h]) auto
  obtain d where d: "NoteLocal best d \<in> set ops" "NotePeer best d \<in> set ops"
    using heal_scan_best [OF b(4)] assms(2) by (fastforce simp: rings_from_def)
  show ?thesis
  proof (cases "u = best")
    case False
    then have "u < best" using assms(4) b(1) by simp
    then show ?thesis
      using b assms(1,3) d scan_ats [OF b(4)] unfolding healed_over_def Let_def assms(1) [symmetric] by auto
  qed (use d in blast)
qed

definition gaps_of :: "hash_confirm \<Rightarrow> hc_op list \<Rightarrow> u32 set" where
  "gaps_of hc ops = {u. \<exists>ops1 ops2. ops = ops1 @ Heal # ops2 \<and> healed_over hc ops1 u}"

lemma gaps_append: "gaps_of hc ops \<subseteq> gaps_of hc (ops @ [x])"
proof
  fix u assume "u \<in> gaps_of hc ops"
  then obtain ops1 ops2 where "ops = ops1 @ Heal # ops2" "healed_over hc ops1 u" by (auto simp: gaps_of_def)
  then have "ops @ [x] = ops1 @ Heal # (ops2 @ [x]) \<and> healed_over hc ops1 u" by simp
  then show "u \<in> gaps_of hc (ops @ [x])" unfolding gaps_of_def by blast
qed

lemma heal_marked:
  assumes "h = foldl hc_apply hc ops" "rings_from (set ops) h" "marked_from (set ops) (gaps_of hc ops) base h"
  shows "rings_from (set (ops @ [Heal])) (hc_apply h Heal)
    \<and> marked_from (set (ops @ [Heal])) (gaps_of hc (ops @ [Heal])) base (hc_apply h Heal)"
proof -
  have fields: "resolved_valid (hc_apply h Heal) = resolved_valid h" "rings_from X (hc_apply h Heal) = rings_from X h" for X
    by (cases rule: heal_cases [of h]; simp add: rings_from_def)+
  have "rings_from (set (ops @ [Heal])) (hc_apply h Heal)"
    unfolding fields(2) by (rule rings_mono [OF assms(2)]) auto
  moreover have "u \<in> gaps_of hc (ops @ [Heal]) \<or> (\<exists>d. NoteLocal u d \<in> set (ops @ [Heal]) \<and> NotePeer u d \<in> set (ops @ [Heal]))"
    if u: "resolved_valid h \<noteq> 0" "u \<le> resolved_through (hc_apply h Heal)" "case base of None \<Rightarrow> True | Some b \<Rightarrow> b < u" for u
  proof (cases "u \<le> resolved_through h")
    case True
    then show ?thesis using assms(3) u gaps_append [of hc ops Heal] by (fastforce simp: marked_from_def)
  next
    case False
    then show ?thesis using heal_step [OF assms(1,2), of u] u(2) by (auto simp: gaps_of_def)
  qed
  ultimately show ?thesis unfolding marked_from_def fields(1) by blast
qed

lemma foldl_marked:
  assumes "rings_from {} hc" "marked_from {} {} base hc"
  shows "rings_from (set xs) (foldl hc_apply hc xs) \<and> marked_from (set xs) (gaps_of hc xs) base (foldl hc_apply hc xs)"
proof (induction xs rule: rev_induct)
  case Nil
  then show ?case using assms marked_mono [OF assms(2) order_refl empty_subsetI] by simp
next
  case (snoc x xs)
  show ?case
  proof (cases "x = Heal")
    case True
    then show ?thesis using heal_marked [OF refl, of xs hc base] snoc by simp
  next
    case False
    then have "rings_from (insert x (set xs)) (hc_apply (foldl hc_apply hc xs) x)
        \<and> marked_from (insert x (set xs)) (gaps_of hc xs) base (hc_apply (foldl hc_apply hc xs) x)"
      using note_marked [OF False] snoc by blast
    then show ?thesis using marked_mono [OF _ order_refl gaps_append] by fastforce
  qed
qed

text \<open>
  C36. A confirmed tick was compared or healed over: whatever digests either side reports, in whatever
  order, with \<open>netplay_hc_heal_stale_gap\<close> called anywhere between, once \<open>netplay_hc_confirm_through\<close>
  answers 1 for a tick, every tick \<open>u\<close> up to it (after the one the session was primed with) was
  reported by both sides with the same digest, or one of the healing calls moved the watermark over it:
  at that call the watermark was below \<open>u\<close>, neither ring held the tick after the watermark, no tick
  above it was held by both rings with different digests, and the tick the watermark moved to, above
  \<open>u\<close>, had been reported by both sides with the same digest. The calls are those since the last reset
  or priming.
\<close>

theorem hc_confirmed_ticks_matched:
  assumes "netplay_hc_confirm_through (foldl hc_apply hc ops) t = 1" "u \<le> t"
    and "hc = netplay_hc_reset \<or> hc = netplay_hc_prime_after b \<and> b < u"
  shows "(\<exists>d. NoteLocal u d \<in> set ops \<and> NotePeer u d \<in> set ops)
    \<or> (\<exists>ops1 ops2. ops = ops1 @ Heal # ops2 \<and> healed_over hc ops1 u)"
proof -
  have start: "rings_from {} netplay_hc_reset" "marked_from {} {} None netplay_hc_reset"
    "rings_from {} (netplay_hc_prime_after b)" "marked_from {} {} (Some b) (netplay_hc_prime_after b)"
    by (auto simp: rings_from_def marked_from_def netplay_hc_prime_after_def netplay_hc_reset_def)
  have "resolved_valid (foldl hc_apply hc ops) \<noteq> 0 \<and> u \<le> resolved_through (foldl hc_apply hc ops)"
    using assms(1,2) by (auto simp: netplay_hc_confirm_through_def split: if_splits)
  then show ?thesis
    using assms(3) foldl_marked [OF start(1,2), of ops] foldl_marked [OF start(3,4), of ops]
    unfolding marked_from_def gaps_of_def by auto
qed

subsection \<open>The watermark follows two streams of commits\<close>

text \<open>
  Both sides report their ticks in order, ours with digests \<open>f\<close> and the peer's with \<open>g\<close>; the list says
  whose report comes next. The streams are in step when neither gets more than a ring ahead.
\<close>

fun hc_feed :: "(nat \<Rightarrow> u32) \<Rightarrow> (nat \<Rightarrow> u32) \<Rightarrow> nat \<Rightarrow> nat \<Rightarrow> bool list \<Rightarrow> hash_confirm \<Rightarrow> hash_confirm" where
  "hc_feed f g a b [] hc = hc"
| "hc_feed f g a b (x # xs) hc =
     (if x then hc_feed f g (Suc a) b xs (netplay_hc_note_local (of_nat a) (f a) hc)
      else hc_feed f g a (Suc b) xs (netplay_hc_note_peer (of_nat b) (g b) hc))"

definition near :: "nat \<Rightarrow> nat \<Rightarrow> bool" where
  "near a b \<longleftrightarrow> a \<le> b + 128 \<and> b \<le> a + 128 \<and> a < 2 ^ 32 \<and> b < 2 ^ 32"

fun in_step :: "nat \<Rightarrow> nat \<Rightarrow> bool list \<Rightarrow> bool" where
  "in_step a b [] \<longleftrightarrow> near a b"
| "in_step a b (x # xs) \<longleftrightarrow> near a b \<and> (if x then in_step (Suc a) b xs else in_step a (Suc b) xs)"

lemma in_step_near: "in_step a b xs \<Longrightarrow> near a b"
  by (cases xs) simp_all

text \<open>The length of the prefix on which the digests agree, among the first \<open>n\<close> ticks.\<close>

primrec agree :: "(nat \<Rightarrow> u32) \<Rightarrow> (nat \<Rightarrow> u32) \<Rightarrow> nat \<Rightarrow> nat" where
  "agree f g 0 = 0"
| "agree f g (Suc n) = (if agree f g n = n \<and> f n = g n then Suc n else agree f g n)"

lemma agree_le: "agree f g n \<le> n"
  by (induction n) auto

lemma agree_fork: "agree f g n < n \<Longrightarrow> f (agree f g n) \<noteq> g (agree f g n)"
proof (induction n)
  case (Suc n)
  then show ?case using agree_le [of f g n] by (cases "agree f g n = n") (auto split: if_splits)
qed simp

text \<open>A ring holds the last 128 of the first \<open>a\<close> ticks.\<close>

definition holds :: "(u32 \<Rightarrow> u32 option) \<Rightarrow> (nat \<Rightarrow> u32) \<Rightarrow> nat \<Rightarrow> bool" where
  "holds ring f a \<longleftrightarrow>
     (\<forall>k < 2 ^ 32. ring (of_nat k) = (if k < a \<and> a \<le> k + 128 then Some (f k) else None))"

lemma unat_tick: "k < 2 ^ 32 \<Longrightarrow> unat (of_nat k :: u32) = k"
  by (simp add: unsigned_of_nat take_bit_nat_eq_self)

lemma slot_of_nat: "k < 2 ^ 32 \<Longrightarrow> slot_of (of_nat k) = k mod 128"
  unfolding slot_of_def by (simp add: unat_mod unat_tick [unfolded power_numeral, simplified])

lemma of_nat_tick: "k < 2 ^ 32 \<Longrightarrow> j < 2 ^ 32 \<Longrightarrow> (of_nat k :: u32) = of_nat j \<longleftrightarrow> k = j"
  using unat_tick by metis

lemma same_slot_ahead:
  fixes a k :: nat
  assumes "k mod 128 = a mod 128" "k < a"
  shows "k + 128 \<le> a"
proof -
  have "128 dvd a - k" using assms by (metis mod_eq_dvd_iff_nat less_imp_le_nat)
  then show ?thesis using assms(2) by (auto dest: dvd_imp_le)
qed

lemma holds_note:
  assumes "holds ring f a" "a < 2 ^ 32"
    and "\<And>k. k < 2 ^ 32 \<Longrightarrow> ring' (of_nat k) =
      (if k mod 128 = a mod 128 then (if k = a then Some (f a) else None) else ring (of_nat k))"
  shows "holds ring' f (Suc a)"
  unfolding holds_def
proof (intro allI impI)
  fix k :: nat assume k: "k < 2 ^ 32"
  show "ring' (of_nat k) = (if k < Suc a \<and> Suc a \<le> k + 128 then Some (f k) else None)"
  proof (cases "k mod 128 = a mod 128")
    case True
    then show ?thesis using assms(3) [OF k] same_slot_ahead [of k a] by auto
  next
    case False
    then have "k \<noteq> a" "a \<noteq> k + 128" by auto
    then show ?thesis using assms(1,3) k False by (auto simp: holds_def)
  qed
qed

text \<open>The watermark stands after the first \<open>w\<close> ticks.\<close>

definition marks :: "hash_confirm \<Rightarrow> nat \<Rightarrow> bool" where
  "marks hc w \<longleftrightarrow>
     (if w = 0 then resolved_valid hc = 0
      else resolved_valid hc \<noteq> 0 \<and> resolved_through hc = of_nat (w - 1))"

lemma marks_next:
  assumes "marks hc w" "w < 2 ^ 32"
  shows "next_tick hc = Some (of_nat w)"
proof (cases w)
  case (Suc v)
  then have "(of_nat v :: u32) \<noteq> of_nat (2 ^ 32 - 1)"
    using assms(2) by (subst of_nat_tick) simp_all
  then show ?thesis using assms(1) by (simp add: Suc marks_def next_tick_def)
qed (use assms(1) in \<open>simp add: marks_def next_tick_def\<close>)

lemma try_advance_stop:
  assumes "marks hc w" "w < 2 ^ 32" "local_at hc (of_nat w) = None \<or> peer_at hc (of_nat w) = None
    \<or> local_at hc (of_nat w) \<noteq> peer_at hc (of_nat w)"
  shows "try_advance hc = hc"
  using assms(3) by (auto simp: try_advance.simps [of hc] next_pair_def marks_next [OF assms(1,2)] split: option.splits)

lemma advance_once:
  assumes "holds (local_at hc) f a" "holds (peer_at hc) g b" "near a b" "marks hc w" "w \<le> min a b"
    and "w < min a b \<and> f w = g w \<Longrightarrow> min a b = Suc w \<and> max a b \<le> w + 128"
  shows "marks (try_advance hc) (if w < min a b \<and> f w = g w then Suc w else w)
    \<and> local_at (try_advance hc) = local_at hc \<and> peer_at (try_advance hc) = peer_at hc"
proof (cases "w < min a b \<and> f w = g w")
  case False
  have "try_advance hc = hc"
    using assms(1-5) False by (intro try_advance_stop [of hc w]) (auto simp: holds_def near_def)
  then show ?thesis using assms(4) False by (simp only: if_False simp_thms)
next
  case True
  let ?h = "hc\<lparr>resolved_through := of_nat w, resolved_valid := 1\<rparr>"
  have m: "min a b = Suc w" "max a b \<le> w + 128" using assms(6) True by auto
  then have "next_pair hc = Some (of_nat w, f w, g w)"
  proof -
    have "w < 2 ^ 32" using True assms(3) by (simp add: near_def)
    moreover from this have "next_tick hc = Some (of_nat w)" by (rule marks_next [OF assms(4)])
    ultimately show ?thesis using assms(1,2) True m(2) by (simp add: next_pair_def holds_def)
  qed
  then have a: "try_advance hc = try_advance ?h" using True by (simp add: try_advance.simps [of hc])
  have "Suc w < 2 ^ 32" using m(1) assms(3) by (simp add: near_def min_def split: if_splits)
  moreover have "a = Suc w \<or> b = Suc w" using m(1) by linarith
  ultimately have "local_at ?h (of_nat (Suc w)) = None \<or> peer_at ?h (of_nat (Suc w)) = None"
    using assms(1,2) by (auto simp: holds_def simp del: of_nat_Suc)
  with \<open>Suc w < 2 ^ 32\<close> have "try_advance ?h = ?h"
    by (intro try_advance_stop [of _ "Suc w"]) (auto simp: marks_def)
  then show ?thesis using True by (simp add: a marks_def)
qed

lemma agree_min_Suc:
  assumes "w = agree f g (min a b)"
  shows "(if w < min (Suc a) b \<and> f w = g w then Suc w else w) = agree f g (min (Suc a) b)"
    "w < min (Suc a) b \<Longrightarrow> f w = g w \<Longrightarrow> w = a \<and> a < b"
proof -
  have fork: "w < min a b \<Longrightarrow> f w \<noteq> g w" and le: "w \<le> min a b"
    using agree_fork [of f g "min a b"] agree_le [of f g "min a b"] by (simp_all add: assms)
  show "(if w < min (Suc a) b \<and> f w = g w then Suc w else w) = agree f g (min (Suc a) b)"
  proof (cases "a < b")
    case True
    then show ?thesis using fork le assms by (cases "w = a") (auto simp: min_def)
  next
    case False
    then show ?thesis using fork le assms by (auto simp: min_def split: if_splits)
  qed
  assume "w < min (Suc a) b" "f w = g w"
  moreover from this have "\<not> w < min a b" using fork by blast
  ultimately show "w = a \<and> a < b" by linarith
qed

lemma agree_sym: "agree f g n = agree g f n"
  by (induction n) (simp_all add: eq_commute)

definition in_sync :: "(nat \<Rightarrow> u32) \<Rightarrow> (nat \<Rightarrow> u32) \<Rightarrow> nat \<Rightarrow> nat \<Rightarrow> hash_confirm \<Rightarrow> bool" where
  "in_sync f g a b hc \<longleftrightarrow>
     holds (local_at hc) f a \<and> holds (peer_at hc) g b \<and> near a b \<and> marks hc (agree f g (min a b))"

lemma in_sync_local:
  assumes "in_sync f g a b hc" "near (Suc a) b"
  shows "in_sync f g (Suc a) b (netplay_hc_note_local (of_nat a) (f a) hc)"
proof -
  let ?h = "hc\<lparr>local_tick := (local_tick hc)(slot_of (of_nat a) := of_nat a),
      local_digest := (local_digest hc)(slot_of (of_nat a) := f a),
      local_valid := (local_valid hc)(slot_of (of_nat a) := 1)\<rparr>"
  let ?w = "agree f g (min a b)"
  have a: "a < 2 ^ 32" using assms(1) by (simp add: in_sync_def near_def)
  have l: "holds (local_at ?h) f (Suc a)"
  proof (rule holds_note [OF _ a])
    show "holds (local_at hc) f a" using assms(1) by (simp add: in_sync_def)
  qed (use a in \<open>auto simp: local_at_def slot_of_nat of_nat_tick Let_def simp del: power_numeral\<close>)
  have "peer_at ?h = peer_at hc" by (simp add: fun_eq_iff peer_at_def Let_def)
  then have p: "holds (peer_at ?h) g b" using assms(1) by (simp add: in_sync_def)
  have m: "marks ?h ?w" using assms(1) by (simp add: in_sync_def marks_def)
  have "marks (try_advance ?h) (if ?w < min (Suc a) b \<and> f ?w = g ?w then Suc ?w else ?w)
      \<and> local_at (try_advance ?h) = local_at ?h \<and> peer_at (try_advance ?h) = peer_at ?h"
  proof (rule advance_once [OF l p assms(2) m])
    show "?w \<le> min (Suc a) b" using agree_le [of f g "min a b"] by linarith
    assume "?w < min (Suc a) b \<and> f ?w = g ?w"
    then have "?w = a \<and> a < b" using agree_min_Suc(2) [OF refl] by blast
    then show "min (Suc a) b = Suc ?w \<and> max (Suc a) b \<le> ?w + 128"
      using assms(1) by (auto simp: in_sync_def near_def)
  qed
  then show ?thesis
    using l p assms(2) agree_min_Suc(1) [OF refl, of f g a b]
    by (simp add: in_sync_def netplay_hc_note_local_def Let_def)
qed

text \<open>The two sides play the same part.\<close>

definition swap_sides :: "hash_confirm \<Rightarrow> hash_confirm" where
  "swap_sides hc = hc\<lparr>local_tick := peer_tick hc, local_digest := peer_digest hc, local_valid := peer_valid hc,
     peer_tick := local_tick hc, peer_digest := local_digest hc, peer_valid := local_valid hc\<rparr>"

lemma swap_swap [simp]: "swap_sides (swap_sides hc) = hc"
  by (simp add: swap_sides_def)

lemma swap_at [simp]: "local_at (swap_sides hc) = peer_at hc" "peer_at (swap_sides hc) = local_at hc"
  by (simp_all add: fun_eq_iff local_at_def peer_at_def swap_sides_def Let_def)

lemma swap_next_pair: "next_pair (swap_sides hc) = map_option (\<lambda>(tick, ld, pd). (tick, pd, ld)) (next_pair hc)"
proof -
  have "next_tick (swap_sides hc) = next_tick hc" by (simp add: next_tick_def swap_sides_def)
  then show ?thesis by (simp add: next_pair_def split: option.split)
qed

lemma swap_mark:
  "swap_sides (hc\<lparr>resolved_through := t, resolved_valid := v\<rparr>)
   = (swap_sides hc)\<lparr>resolved_through := t, resolved_valid := v\<rparr>"
  by (simp add: swap_sides_def)

lemma swap_advance: "try_advance (swap_sides hc) = swap_sides (try_advance hc)"
proof (induction hc rule: try_advance.induct)
  case (1 hc)
  show ?case
  proof (cases "next_pair hc")
    case (Some x)
    obtain tick ld pd where x: "x = (tick, ld, pd)" by (cases x)
    show ?thesis
      using "1.IH" [OF Some x [symmetric] refl]
      by (simp add: try_advance.simps [of hc] try_advance.simps [of "swap_sides hc"] Some x swap_next_pair swap_mark)
  qed (simp add: try_advance.simps [of hc] try_advance.simps [of "swap_sides hc"] swap_next_pair)
qed

lemma swap_note: "netplay_hc_note_peer tick d hc = swap_sides (netplay_hc_note_local tick d (swap_sides hc))"
  unfolding netplay_hc_note_peer_def netplay_hc_note_local_def Let_def swap_advance [symmetric]
  by (simp add: swap_sides_def)

lemma swap_sync: "in_sync f g a b (swap_sides hc) \<longleftrightarrow> in_sync g f b a hc"
proof -
  have "marks (swap_sides hc) w = marks hc w" for w by (simp add: marks_def swap_sides_def)
  moreover have "near a b = near b a" by (auto simp: near_def)
  ultimately show ?thesis
    by (simp add: in_sync_def agree_sym [of f g] min.commute [of a b] conj_ac)
qed

lemma in_sync_peer:
  assumes "in_sync f g a b hc" "near a (Suc b)"
  shows "in_sync f g a (Suc b) (netplay_hc_note_peer (of_nat b) (g b) hc)"
  using in_sync_local [of g f b a "swap_sides hc"] assms by (simp add: swap_sync swap_note near_def)

lemma feed_in_sync:
  "in_sync f g a b hc \<Longrightarrow> in_step a b xs \<Longrightarrow>
   in_sync f g (a + count_list xs True) (b + count_list xs False) (hc_feed f g a b xs hc)"
proof (induction xs arbitrary: a b hc)
  case (Cons x xs)
  show ?case
  proof (cases x)
    case True
    then have "in_step (Suc a) b xs" using Cons.prems(2) by simp
    then show ?thesis
      using Cons.IH [OF in_sync_local [OF Cons.prems(1)]] in_step_near True by simp
  next
    case False
    then have "in_step a (Suc b) xs" using Cons.prems(2) by simp
    then show ?thesis
      using Cons.IH [OF in_sync_peer [OF Cons.prems(1)]] in_step_near False by simp
  qed
qed simp

lemma reset_in_sync: "in_sync f g 0 0 netplay_hc_reset"
  by (simp add: in_sync_def holds_def local_at_def peer_at_def netplay_hc_reset_def near_def marks_def)

text \<open>
  C37. The watermark follows the session: while two ordered streams of commits stay within a ring of
  each other, after \<open>a\<close> of ours and \<open>b\<close> of the peer's, interleaved in any way, the watermark stands
  exactly at the last tick before the first disagreement (or before the end of the shorter stream),
  and the mismatch reported is exactly the first disagreement, while both rings still hold it.
\<close>

theorem hc_watermark_follows:
  assumes "in_step 0 0 xs" "a = count_list xs True" "b = count_list xs False" "n = agree f g (min a b)"
    and "hc = hc_feed f g 0 0 xs netplay_hc_reset"
  shows "netplay_hc_confirm_through hc t = (if unat t < n then 1 else 0)
    \<and> netplay_hc_peek_mismatch hc =
      (if n < min a b \<and> max a b \<le> n + 128 then Some (of_nat n, f n, g n) else None)"
proof -
  have s: "in_sync f g a b hc"
    using feed_in_sync [OF reset_in_sync assms(1)] by (simp add: assms)
  have n: "n \<le> min a b" "n < 2 ^ 32" using s agree_le [of f g "min a b"] by (auto simp: in_sync_def near_def assms(4))
  have fork: "n < min a b \<Longrightarrow> f n \<noteq> g n" using agree_fork [of f g "min a b"] assms(4) by simp
  have m: "marks hc n" using s by (simp add: in_sync_def assms(4))
  have "netplay_hc_confirm_through hc t = (if unat t < n then 1 else 0)"
    using m n(2) by (cases n) (auto simp: netplay_hc_confirm_through_def marks_def word_le_nat_alt unat_tick
        simp del: power_numeral)
  moreover have "next_pair hc = (if n < min a b \<and> max a b \<le> n + 128 then Some (of_nat n, f n, g n) else None)"
    using s n by (simp add: next_pair_def marks_next [OF m n(2)] in_sync_def holds_def)
  ultimately show ?thesis using fork by (simp add: netplay_hc_peek_mismatch_def)
qed

subsection \<open>Healing a gap\<close>

lemma heal_scan_skip:
  "\<forall>i \<in> set is. local_valid hc i = 0 \<Longrightarrow> heal_scan hc (is @ js) best = heal_scan hc js best"
  by (induction "is") simp_all

lemma upt_split: "i < n \<Longrightarrow> [0..<n] = [0..<i] @ i # [Suc i..<n]"
  by (metis le_add1 less_imp_add_positive upt_add_eq_append upt_conv_Cons add_0 less_imp_le_nat zero_le less_add_same_cancel1)

text \<open>A pair noted beyond the next tick.\<close>

lemma prime_note_late:
  assumes "unat r + 1 < unat t"
  shows "netplay_hc_note_peer t d (netplay_hc_note_local t d (netplay_hc_prime_after r)) =
    (netplay_hc_prime_after r)
      \<lparr>local_tick := (\<lambda>_. 0)(slot_of t := t), local_digest := (\<lambda>_. 0)(slot_of t := d), local_valid := (\<lambda>_. 0)(slot_of t := 1),
       peer_tick := (\<lambda>_. 0)(slot_of t := t), peer_digest := (\<lambda>_. 0)(slot_of t := d), peer_valid := (\<lambda>_. 0)(slot_of t := 1)\<rparr>"
proof -
  have "unat r \<noteq> unat (0xFFFFFFFF :: u32)" using assms unat_u32_less [of t] by simp
  then have r: "r \<noteq> 0xFFFFFFFF" by blast
  then have "r + 1 \<noteq> t" using assms by (auto simp: unat_inc)
  then have "try_advance (hc\<lparr>resolved_through := r, resolved_valid := 1\<rparr>) = hc\<lparr>resolved_through := r, resolved_valid := 1\<rparr>"
    if "\<forall>i. local_valid hc i \<noteq> 0 \<longrightarrow> local_tick hc i = t" for hc
    using that r
    by (auto simp: try_advance.simps [of "hc\<lparr>resolved_through := r, resolved_valid := 1\<rparr>"] next_pair_def next_tick_def
        local_at_def Let_def)
  from this [of "netplay_hc_reset\<lparr>local_tick := (\<lambda>_. 0)(slot_of t := t), local_digest := (\<lambda>_. 0)(slot_of t := d),
      local_valid := (\<lambda>_. 0)(slot_of t := 1)\<rparr>"]
    this [of "netplay_hc_reset\<lparr>local_tick := (\<lambda>_. 0)(slot_of t := t), local_digest := (\<lambda>_. 0)(slot_of t := d),
      local_valid := (\<lambda>_. 0)(slot_of t := 1), peer_tick := (\<lambda>_. 0)(slot_of t := t),
      peer_digest := (\<lambda>_. 0)(slot_of t := d), peer_valid := (\<lambda>_. 0)(slot_of t := 1)\<rparr>"]
  show ?thesis
    by (simp add: netplay_hc_note_local_def netplay_hc_note_peer_def netplay_hc_prime_after_def netplay_hc_reset_def Let_def)
qed

text \<open>
  Healing does not wait for the ring to wrap: when the commits of both sides for a later tick
  arrive before those of the next one, \<open>netplay_hc_heal_stale_gap\<close> moves the watermark there, and the
  next tick counts as confirmed although neither side has reported a digest for it.
\<close>

theorem hc_heal_confirms_unseen:
  assumes "unat r + 1 < unat t" "hc = netplay_hc_note_peer t d (netplay_hc_note_local t d (netplay_hc_prime_after r))"
  shows "netplay_hc_confirm_through hc (r + 1) = 0
    \<and> netplay_hc_local_digest hc (r + 1) = None \<and> netplay_hc_peer_digest hc (r + 1) = None
    \<and> fst (netplay_hc_heal_stale_gap hc) = 1
    \<and> netplay_hc_confirm_through (snd (netplay_hc_heal_stale_gap hc)) (r + 1) = 1"
proof -
  have h: "hc = (netplay_hc_prime_after r)
      \<lparr>local_tick := (\<lambda>_. 0)(slot_of t := t), local_digest := (\<lambda>_. 0)(slot_of t := d), local_valid := (\<lambda>_. 0)(slot_of t := 1),
       peer_tick := (\<lambda>_. 0)(slot_of t := t), peer_digest := (\<lambda>_. 0)(slot_of t := d), peer_valid := (\<lambda>_. 0)(slot_of t := 1)\<rparr>"
    using assms(2) prime_note_late [OF assms(1)] by simp
  have "unat r \<noteq> unat (0xFFFFFFFF :: u32)" using assms(1) unat_u32_less [of t] by simp
  then have r: "r \<noteq> 0xFFFFFFFF" by blast
  then have u: "unat (r + 1) = Suc (unat r)" by (rule unat_inc)
  then have n: "r + 1 \<noteq> t" using assms(1) by auto
  have le: "r < t" "r + 1 \<le> t" "\<not> r + 1 \<le> r" using assms(1) u by (simp_all add: word_less_nat_alt word_le_nat_alt)
  have fields: "resolved_through hc = r" "resolved_valid hc = 1" "local_valid hc = (\<lambda>_. 0)(slot_of t := 1)"
    by (simp_all add: h netplay_hc_prime_after_def netplay_hc_reset_def)
  have at: "local_at hc (r + 1) = None" "peer_at hc (r + 1) = None"
    using n by (auto simp: h local_at_def peer_at_def Let_def)
  have "slot_of t < 128" unfolding slot_of_def by (simp add: unat_mod)
  then have split: "[0..<128] = [0..<slot_of t] @ slot_of t # [Suc (slot_of t)..<128]" by (rule upt_split)
  have "heal_scan hc (slot_of t # [Suc (slot_of t)..<128] @ []) None = heal_scan hc [] (Some t)"
    using le heal_scan_skip [of "[Suc (slot_of t)..<128]" hc "[]" "Some t"]
    by (simp add: fields h netplay_hc_prime_after_def netplay_hc_reset_def)
  then have "heal_scan hc [0..<128] None = Some (Some t)"
    unfolding split by (subst heal_scan_skip) (simp_all add: fields)
  then show ?thesis
    using le r by (simp add: netplay_hc_heal_stale_gap_def fields at netplay_hc_confirm_through_def
        netplay_hc_local_digest_def netplay_hc_peer_digest_def)
qed

subsection \<open>Instances\<close>

text \<open>
  Ticks 0 and 1 are compared, the peer's commit of tick 3 comes before ours of tick 2, and healing
  goes over tick 2.
\<close>

lemma hc_confirmed_ticks_matched_witness:
  "\<exists>ops1 ops2. [NoteLocal 0 7, NotePeer 0 7, NotePeer 3 8, NoteLocal 3 8, Heal, NoteLocal 2 5] = ops1 @ Heal # ops2
        \<and> healed_over netplay_hc_reset ops1 2"
proof -
  have "netplay_hc_confirm_through
      (foldl hc_apply netplay_hc_reset [NoteLocal 0 7, NotePeer 0 7, NotePeer 3 8, NoteLocal 3 8, Heal, NoteLocal 2 5]) 2 = 1"
    by (simp add: netplay_hc_confirm_through_def netplay_hc_note_local_def netplay_hc_note_peer_def Let_def
        netplay_hc_reset_def try_advance.simps next_pair_def next_tick_def local_at_def peer_at_def slot_of_def
        netplay_hc_heal_stale_gap_def upt_rec)
  from hc_confirmed_ticks_matched [OF this order_refl disjI1 [OF refl]] show ?thesis by simp
qed

lemma hc_watermark_follows_witness:
  "netplay_hc_confirm_through
      (hc_feed of_nat (\<lambda>k. if k < 2 then of_nat k else 9) 0 0 [True, False, True, True, False, False] netplay_hc_reset) 1 = 1
   \<and> netplay_hc_peek_mismatch
      (hc_feed of_nat (\<lambda>k. if k < 2 then of_nat k else 9) 0 0 [True, False, True, True, False, False] netplay_hc_reset)
     = Some (2, 2, 9)"
proof -
  have "in_step 0 0 [True, False, True, True, False, False]" by (simp add: near_def)
  moreover have "2 = agree of_nat (\<lambda>k. if k < 2 then of_nat k else 9)
      (min (count_list [True, False, True, True, False, False] True) (count_list [True, False, True, True, False, False] False))"
    by simp
  ultimately show ?thesis
    using hc_watermark_follows [OF _ refl refl _ refl,
      of "[True, False, True, True, False, False]" 2 of_nat "\<lambda>k. if k < 2 then of_nat k else 9" 1]
    by simp
qed

lemma hc_heal_confirms_unseen_witness:
  "netplay_hc_confirm_through (snd (netplay_hc_heal_stale_gap
      (netplay_hc_note_peer 9 7 (netplay_hc_note_local 9 7 (netplay_hc_prime_after 5))))) (5 + 1) = 1"
  using hc_heal_confirms_unseen [of 5 9 _ 7, OF _ refl] by simp

end
