(* ===== verification/SnapRing.thy ===== *)
theory SnapRing
  imports Prelude
begin

unbundle bit_operations_syntax

section \<open>The snapshot ring of rollback: netplay\_snap\_ring.c\<close>

text \<open>
  A bounded store of machine snapshots addressed by tick. The slots are a list of the allocated
  depth; the size of a blob is the length of its bytes. Allocation is taken to succeed and freeing a
  blob is forgetting it. The save statistics printed on stderr are left out, and the serialiser of
  \<open>boot_state.c\<close> is a parameter of \<open>save\<close> and \<open>load\<close>. The null guards on the ring are left out; the
  null blob of \<open>store\<close> is \<open>None\<close>.
\<close>

record snap_slot =
  ss_valid :: bool
  ss_tick :: u32
  ss_data :: "u8 list"

record snap_ring =
  slots :: "snap_slot list"
  depth :: u32
  occupied :: u32
  head :: u32

abbreviation NETPLAY_SNAP_RING_DEFAULT_DEPTH :: u32 where "NETPLAY_SNAP_RING_DEFAULT_DEPTH \<equiv> 80"

definition empty_slot :: snap_slot where
  "empty_slot = \<lparr>ss_valid = False, ss_tick = 0, ss_data = []\<rparr>"

definition slot_clear :: "nat \<Rightarrow> snap_ring \<Rightarrow> snap_ring" where
  "slot_clear i r = r\<lparr>slots := (slots r)[i := empty_slot]\<rparr>"

definition put_slot :: "nat \<Rightarrow> u32 \<Rightarrow> u8 list \<Rightarrow> snap_ring \<Rightarrow> snap_ring" where
  "put_slot i tick data r = r\<lparr>slots := (slots r)[i := \<lparr>ss_valid = True, ss_tick = tick, ss_data = data\<rparr>]\<rparr>"

abbreviation indices :: "snap_ring \<Rightarrow> nat list" where
  "indices r \<equiv> [0..<unat (depth r)]"

definition find_slot :: "snap_ring \<Rightarrow> u32 \<Rightarrow> nat option" where
  "find_slot r tick = find (\<lambda>i. ss_valid (slots r ! i) \<and> ss_tick (slots r ! i) = tick) (indices r)"

definition netplay_snap_ring_create :: "u32 \<Rightarrow> snap_ring" where
  "netplay_snap_ring_create dep =
     (let dep = (if dep = 0 then NETPLAY_SNAP_RING_DEFAULT_DEPTH else dep);
          dep = (if dep > 512 then 512 else dep)
      in \<lparr>slots = replicate (unat dep) empty_slot, depth = dep, occupied = 0, head = 0\<rparr>)"

definition netplay_snap_ring_clear :: "snap_ring \<Rightarrow> snap_ring" where
  "netplay_snap_ring_clear r = (foldl (\<lambda>r i. slot_clear i r) r (indices r))\<lparr>occupied := 0, head := 0\<rparr>"

definition netplay_snap_ring_depth :: "snap_ring \<Rightarrow> u32" where
  "netplay_snap_ring_depth r = depth r"

definition netplay_snap_ring_count :: "snap_ring \<Rightarrow> u32" where
  "netplay_snap_ring_count r = occupied r"

definition netplay_snap_ring_has :: "snap_ring \<Rightarrow> u32 \<Rightarrow> bool" where
  "netplay_snap_ring_has r tick \<longleftrightarrow> find_slot r tick \<noteq> None"

text \<open>The walk from the head to an unused slot.\<close>

definition unused_slot :: "snap_ring \<Rightarrow> nat option" where
  "unused_slot r =
     find (\<lambda>idx. \<not> ss_valid (slots r ! idx)) (map (\<lambda>i. unat ((head r + of_nat i) mod depth r)) (indices r))"

text \<open>The walk to the occupied slot of the lowest tick, the last one of equal ticks.\<close>

fun pick_victim :: "snap_ring \<Rightarrow> nat list \<Rightarrow> nat option \<Rightarrow> u32 \<Rightarrow> nat option" where
  "pick_victim r [] victim oldest = victim"
| "pick_victim r (i # is) victim oldest =
     (if \<not> ss_valid (slots r ! i) then pick_victim r is victim oldest
      else if ss_tick (slots r ! i) \<le> oldest then pick_victim r is (Some i) (ss_tick (slots r ! i))
      else pick_victim r is victim oldest)"

definition store_evict :: "snap_ring \<Rightarrow> u32 \<Rightarrow> u8 list \<Rightarrow> bool \<times> snap_ring" where
  "store_evict r tick data =
     (case pick_victim r (indices r) None 0xFFFFFFFF of
        None \<Rightarrow> (False, r)
      | Some victim \<Rightarrow> (True, (put_slot victim tick data r)\<lparr>head := (of_nat victim + 1) mod depth r\<rparr>))"

definition netplay_snap_ring_store :: "snap_ring \<Rightarrow> u32 \<Rightarrow> u8 list option \<Rightarrow> bool \<times> snap_ring" where
  "netplay_snap_ring_store r tick blob =
     (case blob of None \<Rightarrow> (False, r) | Some data \<Rightarrow>
      if data = [] then (False, r)
      else case find_slot r tick of
        Some existing \<Rightarrow> (True, put_slot existing tick data r)
      | None \<Rightarrow>
        if occupied r < depth r
        then (case unused_slot r of
            Some idx \<Rightarrow> (True, (put_slot idx tick data r)
              \<lparr>occupied := occupied r + 1, head := (of_nat idx + 1) mod depth r\<rparr>)
          | None \<Rightarrow> store_evict r tick data)
        else store_evict r tick data)"

definition netplay_snap_ring_peek :: "snap_ring \<Rightarrow> u32 \<Rightarrow> u8 list option" where
  "netplay_snap_ring_peek r tick =
     (case find_slot r tick of None \<Rightarrow> None | Some idx \<Rightarrow> Some (ss_data (slots r ! idx)))"

definition netplay_snap_ring_save :: "('m \<Rightarrow> u8 list option) \<Rightarrow> snap_ring \<Rightarrow> u32 \<Rightarrow> 'm \<Rightarrow> bool \<times> snap_ring" where
  "netplay_snap_ring_save save_buffer r tick machine =
     (case save_buffer machine of None \<Rightarrow> (False, r)
      | Some data \<Rightarrow> netplay_snap_ring_store r tick (Some data))"

definition netplay_snap_ring_load :: "(u8 list \<Rightarrow> 'm \<Rightarrow> bool \<times> 'm) \<Rightarrow> snap_ring \<Rightarrow> u32 \<Rightarrow> 'm \<Rightarrow> bool \<times> 'm" where
  "netplay_snap_ring_load load_buffer r tick machine =
     (case netplay_snap_ring_peek r tick of None \<Rightarrow> (False, machine)
      | Some data \<Rightarrow> if data = [] then (False, machine) else load_buffer data machine)"

definition drop_count :: "snap_ring \<Rightarrow> snap_ring" where
  "drop_count r = (if occupied r \<noteq> 0 then r\<lparr>occupied := occupied r - 1\<rparr> else r)"

definition netplay_snap_ring_drop_tick :: "snap_ring \<Rightarrow> u32 \<Rightarrow> bool \<times> snap_ring" where
  "netplay_snap_ring_drop_tick r tick =
     (case find_slot r tick of None \<Rightarrow> (False, r)
      | Some idx \<Rightarrow> (True, drop_count (slot_clear idx r)))"

fun drop_from :: "u32 \<Rightarrow> nat list \<Rightarrow> u32 \<Rightarrow> snap_ring \<Rightarrow> u32 \<times> snap_ring" where
  "drop_from tick [] n r = (n, r)"
| "drop_from tick (i # is) n r =
     (if \<not> ss_valid (slots r ! i) then drop_from tick is n r
      else if ss_tick (slots r ! i) > tick then drop_from tick is (n + 1) (drop_count (slot_clear i r))
      else drop_from tick is n r)"

definition netplay_snap_ring_drop_after :: "snap_ring \<Rightarrow> u32 \<Rightarrow> u32 \<times> snap_ring" where
  "netplay_snap_ring_drop_after r tick = drop_from tick (indices r) 0 r"

text \<open>The running extreme of the occupied ticks; \<open>None\<close> is \<open>any = 0\<close>.\<close>

definition extreme :: "(u32 \<Rightarrow> u32 \<Rightarrow> bool) \<Rightarrow> snap_ring \<Rightarrow> u32 option" where
  "extreme better r =
     foldl (\<lambda>best i. if \<not> ss_valid (slots r ! i) then best
                     else if best = None \<or> better (ss_tick (slots r ! i)) (the best)
                     then Some (ss_tick (slots r ! i)) else best) None (indices r)"

definition netplay_snap_ring_oldest_tick :: "snap_ring \<Rightarrow> u32" where
  "netplay_snap_ring_oldest_tick r = (case extreme (<) r of None \<Rightarrow> 0 | Some t \<Rightarrow> t)"

definition netplay_snap_ring_newest_tick :: "snap_ring \<Rightarrow> u32" where
  "netplay_snap_ring_newest_tick r = (case extreme (>) r of None \<Rightarrow> 0 | Some t \<Rightarrow> t)"

subsection \<open>What a ring stands for\<close>

text \<open>The occupied slots, the ring's invariant and the map from ticks to blobs it implements.\<close>

definition live :: "snap_ring \<Rightarrow> nat set" where
  "live r = {i. i < length (slots r) \<and> ss_valid (slots r ! i)}"

text \<open>The ring is well formed but for its count and head; with them, it is \<open>snap_ok\<close>.\<close>

definition snap_shape :: "snap_ring \<Rightarrow> bool" where
  "snap_shape r \<longleftrightarrow> length (slots r) = unat (depth r) \<and> 0 < depth r \<and> depth r \<le> 512
     \<and> inj_on (\<lambda>i. ss_tick (slots r ! i)) (live r) \<and> (\<forall>i \<in> live r. ss_data (slots r ! i) \<noteq> [])"

definition snap_ok :: "snap_ring \<Rightarrow> bool" where
  "snap_ok r \<longleftrightarrow> snap_shape r \<and> unat (occupied r) = card (live r) \<and> head r < depth r"

lemma finite_live [simp]: "finite (live r)"
  by (simp add: live_def)

lemma shape_same_tick:
  "snap_shape r \<Longrightarrow> i \<in> live r \<Longrightarrow> j \<in> live r \<Longrightarrow> ss_tick (slots r ! i) = ss_tick (slots r ! j) \<Longrightarrow> i = j"
  by (auto simp: snap_shape_def dest: inj_onD)

lemma find_slot_live:
  assumes "snap_shape r"
  shows "find_slot r t = Some i \<longleftrightarrow> i \<in> live r \<and> ss_tick (slots r ! i) = t"
proof
  assume "find_slot r t = Some i"
  then show "i \<in> live r \<and> ss_tick (slots r ! i) = t"
    using assms by (auto simp: find_slot_def find_Some_iff live_def snap_shape_def)
next
  assume i: "i \<in> live r \<and> ss_tick (slots r ! i) = t"
  then have "find_slot r t \<noteq> None"
    using assms by (auto simp: find_slot_def find_None_iff live_def snap_shape_def)
  then obtain j where j: "find_slot r t = Some j" by blast
  then have "j \<in> live r \<and> ss_tick (slots r ! j) = t"
    using assms by (auto simp: find_slot_def find_Some_iff live_def snap_shape_def)
  then have "j = i" using i shape_same_tick [OF assms] by metis
  then show "find_slot r t = Some i" using j by simp
qed

lemma find_slot_dead:
  assumes "snap_shape r"
  shows "find_slot r t = None \<longleftrightarrow> (\<forall>i \<in> live r. ss_tick (slots r ! i) \<noteq> t)"
  using find_slot_live [OF assms, of t] by (cases "find_slot r t") auto

lemma peek_live:
  assumes "snap_shape r"
  shows "netplay_snap_ring_peek r t = Some d \<longleftrightarrow> (\<exists>i \<in> live r. ss_tick (slots r ! i) = t \<and> ss_data (slots r ! i) = d)"
proof (cases "find_slot r t")
  case None
  then show ?thesis using find_slot_dead [OF assms, of t] by (auto simp: netplay_snap_ring_peek_def)
next
  case (Some i)
  have "j = i" if "j \<in> live r" "ss_tick (slots r ! j) = t" for j
    using shape_same_tick [OF assms] that find_slot_live [OF assms, of t i] Some by metis
  then show ?thesis
    using Some find_slot_live [OF assms, of t i] by (auto simp: netplay_snap_ring_peek_def)
qed

lemma peek_dead:
  "snap_shape r \<Longrightarrow> netplay_snap_ring_peek r t = None \<longleftrightarrow> (\<forall>i \<in> live r. ss_tick (slots r ! i) \<noteq> t)"
  using find_slot_dead [of r t] by (cases "find_slot r t") (simp_all add: netplay_snap_ring_peek_def)

lemma peek_dom: "snap_shape r \<Longrightarrow> dom (netplay_snap_ring_peek r) = (\<lambda>i. ss_tick (slots r ! i)) ` live r"
  by (auto simp: dom_def peek_live)

lemma card_dom: "snap_shape r \<Longrightarrow> card (dom (netplay_snap_ring_peek r)) = card (live r)"
  by (simp add: peek_dom card_image snap_shape_def)

lemma live_put: "i < length (slots r) \<Longrightarrow> live (put_slot i t d r) = insert i (live r)"
  by (auto simp: live_def put_slot_def nth_list_update)

lemma put_slot_map:
  assumes "snap_shape r" "i < length (slots r)" "d \<noteq> []" "\<And>j. j \<in> live r \<Longrightarrow> ss_tick (slots r ! j) = t \<Longrightarrow> j = i"
  shows "snap_shape (put_slot i t d r)"
    "netplay_snap_ring_peek (put_slot i t d r) =
      (if i \<in> live r then (netplay_snap_ring_peek r)(ss_tick (slots r ! i) := None) else netplay_snap_ring_peek r)(t \<mapsto> d)"
proof -
  let ?r = "put_slot i t d r"
  have at: "slots ?r ! j = (if j = i then \<lparr>ss_valid = True, ss_tick = t, ss_data = d\<rparr> else slots r ! j)"
    if "j < length (slots r)" for j
    using that by (simp add: put_slot_def nth_list_update)
  have lt: "\<And>j. j \<in> live r \<Longrightarrow> j < length (slots r)" by (simp add: live_def)
  show sh: "snap_shape ?r"
    unfolding snap_shape_def
  proof (intro conjI)
    show "inj_on (\<lambda>j. ss_tick (slots ?r ! j)) (live ?r)"
    proof (rule inj_onI)
      fix j k assume jk: "j \<in> live ?r" "k \<in> live ?r" "ss_tick (slots ?r ! j) = ss_tick (slots ?r ! k)"
      then have "j \<in> insert i (live r)" "k \<in> insert i (live r)" by (simp_all add: live_put [OF assms(2)])
      then show "j = k"
        using jk(3) assms(4) shape_same_tick [OF assms(1)] lt by (auto simp: at assms(2) split: if_splits)
    qed
    show "\<forall>j \<in> live ?r. ss_data (slots ?r ! j) \<noteq> []"
    proof -
      have "\<forall>j \<in> live r. ss_data (slots r ! j) \<noteq> []" using assms(1) by (simp add: snap_shape_def)
      then show ?thesis using assms(3) lt by (simp add: live_put [OF assms(2)] at assms(2))
    qed
  qed (use assms(1) in \<open>simp_all add: snap_shape_def put_slot_def\<close>)
  show "netplay_snap_ring_peek ?r =
      (if i \<in> live r then (netplay_snap_ring_peek r)(ss_tick (slots r ! i) := None) else netplay_snap_ring_peek r)(t \<mapsto> d)"
    (is "_ = ?m(t \<mapsto> d)")
  proof (rule ext)
    fix u
    show "netplay_snap_ring_peek ?r u = (?m(t \<mapsto> d)) u"
    proof (cases "u = t")
      case True
      then show ?thesis using assms(2) by (auto simp: peek_live [OF sh] live_put at)
    next
      case False
      show ?thesis
      proof (cases "\<exists>j \<in> live r. j \<noteq> i \<and> ss_tick (slots r ! j) = u")
        case True
        then obtain j where j: "j \<in> live r" "j \<noteq> i" "ss_tick (slots r ! j) = u" by blast
        have "netplay_snap_ring_peek ?r u = Some (ss_data (slots r ! j))"
          unfolding peek_live [OF sh] live_put [OF assms(2)] using j lt by (intro bexI [of _ j]) (simp_all add: at)
        moreover have "netplay_snap_ring_peek r u = Some (ss_data (slots r ! j))"
          unfolding peek_live [OF assms(1)] using j by blast
        moreover have "i \<in> live r \<Longrightarrow> ss_tick (slots r ! i) \<noteq> u" using j shape_same_tick [OF assms(1)] by metis
        ultimately show ?thesis using False by auto
      next
        case none: False
        have "netplay_snap_ring_peek ?r u = None"
          unfolding peek_dead [OF sh] live_put [OF assms(2)] using none False lt assms(2) by (auto simp: at)
        moreover have "?m u = None"
          using none peek_dead [OF assms(1), of u] by auto
        ultimately show ?thesis using False by simp
      qed
    qed
  qed
qed

lemma slots_only [simp]:
  "live (r\<lparr>occupied := c\<rparr>) = live r" "live (r\<lparr>head := h\<rparr>) = live r"
  "snap_shape (r\<lparr>occupied := c\<rparr>) = snap_shape r" "snap_shape (r\<lparr>head := h\<rparr>) = snap_shape r"
  "netplay_snap_ring_peek (r\<lparr>occupied := c\<rparr>) = netplay_snap_ring_peek r"
  "netplay_snap_ring_peek (r\<lparr>head := h\<rparr>) = netplay_snap_ring_peek r"
  by (simp_all add: fun_eq_iff live_def snap_shape_def netplay_snap_ring_peek_def find_slot_def split: option.split)

lemma drop_count_only [simp]:
  "live (drop_count r) = live r" "snap_shape (drop_count r) = snap_shape r" "slots (drop_count r) = slots r"
  "netplay_snap_ring_peek (drop_count r) = netplay_snap_ring_peek r" "depth (drop_count r) = depth r"
  "head (drop_count r) = head r"
  by (simp_all add: drop_count_def)

lemma slot_fields [simp]:
  "depth (put_slot i t d r) = depth r" "occupied (put_slot i t d r) = occupied r"
  "head (put_slot i t d r) = head r" "head (slot_clear i r) = head r"
  "depth (slot_clear i r) = depth r" "occupied (slot_clear i r) = occupied r"
  "length (slots (put_slot i t d r)) = length (slots r)" "length (slots (slot_clear i r)) = length (slots r)"
  by (simp_all add: put_slot_def slot_clear_def)

lemma live_clear: "live (slot_clear i r) = live r - {i}"
  by (cases "i < length (slots r)") (auto simp: live_def slot_clear_def nth_list_update empty_slot_def)

lemma slot_clear_other: "j \<noteq> i \<Longrightarrow> slots (slot_clear i r) ! j = slots r ! j"
  by (simp add: slot_clear_def)

lemma slot_clear_shape:
  assumes "snap_shape r"
  shows "snap_shape (slot_clear i r)"
proof -
  have data: "\<forall>j \<in> live r. ss_data (slots r ! j) \<noteq> []" using assms by (simp add: snap_shape_def)
  have "inj_on (\<lambda>j. ss_tick (slots (slot_clear i r) ! j)) (live (slot_clear i r))"
    using shape_same_tick [OF assms] by (auto simp: inj_on_def live_clear slot_clear_other)
  then show ?thesis
    using assms data by (simp add: snap_shape_def live_clear slot_clear_other)
qed

lemma slot_clear_map:
  assumes "snap_shape r" "i \<in> live r"
  shows "snap_shape (slot_clear i r)"
    "netplay_snap_ring_peek (slot_clear i r) = (netplay_snap_ring_peek r)(ss_tick (slots r ! i) := None)"
proof -
  let ?r = "slot_clear i r"
  show sh: "snap_shape ?r" by (rule slot_clear_shape [OF assms(1)])
  show "netplay_snap_ring_peek ?r = (netplay_snap_ring_peek r)(ss_tick (slots r ! i) := None)" (is "_ = ?m")
  proof (rule ext)
    fix u
    show "netplay_snap_ring_peek ?r u = ?m u"
    proof (cases "\<exists>j \<in> live r. j \<noteq> i \<and> ss_tick (slots r ! j) = u")
      case True
      then obtain j where j: "j \<in> live r" "j \<noteq> i" "ss_tick (slots r ! j) = u" by blast
      have "netplay_snap_ring_peek ?r u = Some (ss_data (slots r ! j))"
        unfolding peek_live [OF sh] live_clear using j by (intro bexI [of _ j]) (simp_all add: slot_clear_other)
      moreover have "netplay_snap_ring_peek r u = Some (ss_data (slots r ! j))"
        unfolding peek_live [OF assms(1)] using j by blast
      moreover have "ss_tick (slots r ! i) \<noteq> u" using j assms(2) shape_same_tick [OF assms(1)] by metis
      ultimately show ?thesis by simp
    next
      case False
      then have "netplay_snap_ring_peek ?r u = None"
        unfolding peek_dead [OF sh] live_clear by (auto simp: slot_clear_other)
      moreover have "?m u = None" using False peek_dead [OF assms(1), of u] by auto
      ultimately show ?thesis by simp
    qed
  qed
qed

subsection \<open>The operations on the map\<close>

text \<open>What each operation does to the map from ticks to blobs, for a ring of \<open>n\<close> slots.\<close>

definition map_store :: "nat \<Rightarrow> u32 \<Rightarrow> u8 list \<Rightarrow> (u32 \<rightharpoonup> u8 list) \<Rightarrow> (u32 \<rightharpoonup> u8 list)" where
  "map_store n t d m =
     (if d = [] then m
      else if t \<in> dom m \<or> card (dom m) < n then m(t \<mapsto> d)
      else m(Min (dom m) := None, t \<mapsto> d))"

lemma victim_spec:
  assumes "set is \<subseteq> {..<length (slots r)}" "old = 0xFFFFFFFF \<and> v = None \<or> (\<exists>i. v = Some i \<and> i \<in> live r \<and> ss_tick (slots r ! i) = old)"
  shows "case pick_victim r is v old of
      None \<Rightarrow> v = None \<and> set is \<inter> live r = {}
    | Some i \<Rightarrow> i \<in> live r \<and> (\<forall>j \<in> set is \<inter> live r. ss_tick (slots r ! i) \<le> ss_tick (slots r ! j))
        \<and> (v \<noteq> None \<longrightarrow> ss_tick (slots r ! i) \<le> old)"
  using assms
proof (induction "is" arbitrary: v old)
  case (Cons k "is")
  have top: "ss_tick (slots r ! k) \<le> 0xFFFFFFFF" using unat_u32_less [of "ss_tick (slots r ! k)"] by (simp add: word_le_nat_alt)
  show ?case
  proof (cases "ss_valid (slots r ! k)")
    case False
    then have e: "set (k # is) \<inter> live r = set is \<inter> live r" by (auto simp: live_def)
    show ?thesis unfolding e using Cons.IH [of old v] Cons.prems False by simp
  next
    case True
    then have k: "k \<in> live r" using Cons.prems(1) by (auto simp: live_def)
    show ?thesis
    proof (cases "ss_tick (slots r ! k) \<le> old")
      case le: True
      have "case pick_victim r is (Some k) (ss_tick (slots r ! k)) of
          None \<Rightarrow> Some k = None \<and> set is \<inter> live r = {}
        | Some i \<Rightarrow> i \<in> live r \<and> (\<forall>j \<in> set is \<inter> live r. ss_tick (slots r ! i) \<le> ss_tick (slots r ! j))
          \<and> (Some k \<noteq> None \<longrightarrow> ss_tick (slots r ! i) \<le> ss_tick (slots r ! k))"
        using Cons.IH [of "ss_tick (slots r ! k)" "Some k"] Cons.prems(1) k by simp
      then show ?thesis using True le by (auto split: option.splits intro: order_trans)
    next
      case gt: False
      then have "v \<noteq> None" using Cons.prems(2) top by auto
      moreover have "case pick_victim r is v old of
          None \<Rightarrow> v = None \<and> set is \<inter> live r = {}
        | Some i \<Rightarrow> i \<in> live r \<and> (\<forall>j \<in> set is \<inter> live r. ss_tick (slots r ! i) \<le> ss_tick (slots r ! j))
          \<and> (v \<noteq> None \<longrightarrow> ss_tick (slots r ! i) \<le> old)"
        using Cons.IH [of old v] Cons.prems by simp
      ultimately show ?thesis using True gt by (auto split: option.splits)
    qed
  qed
qed (auto split: option.splits)

lemma wrap_index:
  fixes h d :: u32
  assumes "h < d" "d \<le> 512" "i < unat d"
  shows "unat ((h + of_nat i) mod d) = (unat h + i) mod unat d"
proof -
  have "unat h < 512" "i < 512" using assms by (simp_all add: word_less_nat_alt word_le_nat_alt)
  then show ?thesis by (simp add: unat_mod unat_word_ariths unsigned_of_nat take_bit_nat_eq_self)
qed

lemma wrap_onto:
  fixes h n k :: nat
  assumes "h < n" "k < n"
  shows "\<exists>i<n. (h + i) mod n = k"
proof (cases "h \<le> k")
  case True
  then show ?thesis using assms by (intro exI [of _ "k - h"]) simp
next
  case False
  then have "(h + (n + k - h)) mod n = k" using assms by simp
  then show ?thesis using False assms by (intro exI [of _ "n + k - h"]) simp
qed

lemma unused_spec:
  assumes "snap_ok r" "occupied r < depth r"
  obtains idx where "unused_slot r = Some idx" "idx < length (slots r)" "idx \<notin> live r"
proof -
  let ?walk = "map (\<lambda>i. unat ((head r + of_nat i) mod depth r)) (indices r)"
  have len: "length (slots r) = unat (depth r)" and b: "head r < depth r" "depth r \<le> 512"
    using assms(1) by (simp_all add: snap_ok_def snap_shape_def)
  have "card (live r) < card {..<length (slots r)}"
    using assms by (simp add: snap_ok_def len word_less_nat_alt)
  then have "\<not> {..<length (slots r)} \<subseteq> live r" using card_mono [of "live r"] by (metis finite_live leD)
  then obtain k where k: "k < unat (depth r)" "k \<notin> live r" by (auto simp: len)
  obtain i where "i < unat (depth r)" "(unat (head r) + i) mod unat (depth r) = k"
    using wrap_onto [of "unat (head r)" "unat (depth r)" k] b(1) k(1) by (auto simp: word_less_nat_alt)
  then have "k \<in> set ?walk" using wrap_index [OF b] by force
  moreover have "\<not> ss_valid (slots r ! k)" using k by (simp add: live_def len)
  ultimately have "unused_slot r \<noteq> None" by (auto simp: unused_slot_def find_None_iff)
  then obtain idx where i: "unused_slot r = Some idx" by blast
  then have "idx \<in> set ?walk" "\<not> ss_valid (slots r ! idx)"
    by (auto simp: unused_slot_def find_Some_iff)
  moreover from this(1) have "idx < unat (depth r)" using b(1) by (auto simp: unat_mod word_less_nat_alt)
  ultimately show ?thesis using i that by (simp add: live_def len)
qed

lemma next_head: "0 < depth r \<Longrightarrow> x mod depth r < depth r"
  by (simp add: word_less_nat_alt unat_mod)

lemma store_map:
  fixes r :: snap_ring and t :: u32 and d :: "u8 list"
  assumes "snap_ok r"
  defines "r' \<equiv> snd (netplay_snap_ring_store r t (Some d))"
  shows "snap_ok r' \<and> depth r' = depth r
    \<and> netplay_snap_ring_peek r' = map_store (unat (depth r)) t d (netplay_snap_ring_peek r)"
proof -
  have sh: "snap_shape r" and cnt: "unat (occupied r) = card (live r)" and hd: "head r < depth r"
    and len: "length (slots r) = unat (depth r)" and pos: "0 < depth r"
    using assms(1) by (simp_all add: snap_ok_def snap_shape_def)
  have card: "card (dom (netplay_snap_ring_peek r)) = unat (occupied r)" by (simp add: card_dom [OF sh] cnt)
  consider "d = []" | i where "d \<noteq> []" "find_slot r t = Some i"
    | "d \<noteq> []" "find_slot r t = None" "occupied r < depth r"
    | "d \<noteq> []" "find_slot r t = None" "\<not> occupied r < depth r" by (cases "find_slot r t") auto
  then show ?thesis
  proof cases
    case 1
    then show ?thesis using assms(1) by (simp add: r'_def netplay_snap_ring_store_def map_store_def)
  next
    case 2
    then have i: "i \<in> live r" "ss_tick (slots r ! i) = t" using find_slot_live [OF sh] by auto
    then have lt: "i < length (slots r)" by (simp add: live_def)
    have r': "r' = put_slot i t d r" using 2 by (simp add: r'_def netplay_snap_ring_store_def)
    have "t \<in> dom (netplay_snap_ring_peek r)" using i by (auto simp: peek_dom [OF sh])
    then show ?thesis
      using put_slot_map [OF sh lt 2(1), of t] shape_same_tick [OF sh] i hd cnt 2(1)
      by (auto simp: r' snap_ok_def map_store_def live_put [OF lt] insert_absorb)
  next
    case 3
    obtain idx where idx: "unused_slot r = Some idx" "idx < length (slots r)" "idx \<notin> live r"
      using unused_spec [OF assms(1) 3(3)] .
    have r': "r' = (put_slot idx t d r)\<lparr>occupied := occupied r + 1, head := (of_nat idx + 1) mod depth r\<rparr>"
      using 3 idx(1) by (simp add: r'_def netplay_snap_ring_store_def)
    have dead: "\<And>j. j \<in> live r \<Longrightarrow> ss_tick (slots r ! j) = t \<Longrightarrow> j = idx"
      using 3(2) find_slot_dead [OF sh] by auto
    have "occupied r \<noteq> 0xFFFFFFFF" using 3(3) sh by (auto simp: snap_shape_def word_less_nat_alt word_le_nat_alt)
    then have "unat (occupied r + 1) = Suc (card (live r))" using cnt by (simp add: unat_inc)
    moreover have "card (dom (netplay_snap_ring_peek r)) < unat (depth r)"
      using 3(3) card by (simp add: word_less_nat_alt)
    ultimately show ?thesis
      using put_slot_map [OF sh idx(2) 3(1) dead] idx(3) 3(1) next_head [OF pos]
      by (simp add: r' snap_ok_def map_store_def live_put [OF idx(2)])
  next
    case 4
    have dom: "dom (netplay_snap_ring_peek r) = (\<lambda>i. ss_tick (slots r ! i)) ` live r" by (rule peek_dom [OF sh])
    have "live r \<noteq> {}" using 4(3) cnt pos by (auto simp: word_less_nat_alt)
    moreover have "set (indices r) \<inter> live r = live r" by (auto simp: live_def len)
    moreover have "set (indices r) \<subseteq> {..<length (slots r)}" by (simp add: len lessThan_atLeast0)
    ultimately obtain v where v: "pick_victim r (indices r) None 0xFFFFFFFF = Some v" "v \<in> live r"
      "\<forall>j \<in> live r. ss_tick (slots r ! v) \<le> ss_tick (slots r ! j)"
      using victim_spec [of "indices r" r "0xFFFFFFFF" None] by (cases "pick_victim r (indices r) None 0xFFFFFFFF") auto
    then have lt: "v < length (slots r)" by (simp add: live_def)
    have m: "Min (dom (netplay_snap_ring_peek r)) = ss_tick (slots r ! v)"
      using v(2,3) by (intro Min_eqI) (auto simp: dom)
    have r': "r' = (put_slot v t d r)\<lparr>head := (of_nat v + 1) mod depth r\<rparr>"
      using 4 v(1) by (simp add: r'_def netplay_snap_ring_store_def store_evict_def)
    have dead: "\<And>j. j \<in> live r \<Longrightarrow> ss_tick (slots r ! j) = t \<Longrightarrow> j = v"
      using 4(2) find_slot_dead [OF sh] by auto
    have "t \<notin> dom (netplay_snap_ring_peek r)" using 4(2) find_slot_dead [OF sh, of t] by (auto simp: dom)
    moreover have "\<not> card (dom (netplay_snap_ring_peek r)) < unat (depth r)"
      using 4(3) card by (simp add: word_less_nat_alt)
    ultimately show ?thesis
      using put_slot_map [OF sh lt 4(1) dead] v(2) 4(1) next_head [OF pos] cnt
      by (simp add: r' snap_ok_def map_store_def live_put [OF lt] insert_absorb m)
  qed
qed

lemma drop_count_pos: "0 < occupied r \<Longrightarrow> unat (occupied (drop_count r)) = unat (occupied r) - 1"
  by (simp add: drop_count_def unat_minus_one word_gt_0)

lemma clear_ok:
  assumes "snap_ok r" "i \<in> live r"
  shows "snap_ok (drop_count (slot_clear i r))"
proof -
  have "card (live r) > 0" using assms(2) by (auto simp: card_gt_0_iff)
  then have "0 < occupied (slot_clear i r)" using assms(1) by (simp add: snap_ok_def word_less_nat_alt)
  from drop_count_pos [OF this] show ?thesis
    using assms slot_clear_map(1) [of r i] by (simp add: snap_ok_def live_clear)
qed

lemma drop_tick_map:
  assumes "snap_ok r"
  shows "snap_ok (snd (netplay_snap_ring_drop_tick r t))
    \<and> depth (snd (netplay_snap_ring_drop_tick r t)) = depth r
    \<and> netplay_snap_ring_peek (snd (netplay_snap_ring_drop_tick r t)) = (netplay_snap_ring_peek r)(t := None)"
proof (cases "find_slot r t")
  case None
  then have "netplay_snap_ring_peek r t = None" by (simp add: netplay_snap_ring_peek_def)
  then show ?thesis using None assms by (auto simp: netplay_snap_ring_drop_tick_def)
next
  case (Some i)
  have sh: "snap_shape r" using assms by (simp add: snap_ok_def)
  then have "i \<in> live r" "ss_tick (slots r ! i) = t" using Some find_slot_live by auto
  then show ?thesis
    using Some clear_ok [OF assms, of i] slot_clear_map [OF sh, of i] by (simp add: netplay_snap_ring_drop_tick_def)
qed

text \<open>Dropping by a predicate on ticks, over a list of slots still to visit.\<close>

lemma drop_from_map:
  assumes "snap_ok r" "distinct is"
    and "\<And>i. i \<in> live r \<Longrightarrow> ss_tick (slots r ! i) > t \<Longrightarrow> i \<in> set is" "set is \<subseteq> {..<length (slots r)}"
  shows "snap_ok (snd (drop_from t is n r)) \<and> depth (snd (drop_from t is n r)) = depth r
    \<and> netplay_snap_ring_peek (snd (drop_from t is n r)) = netplay_snap_ring_peek r |` {u. u \<le> t}
    \<and> fst (drop_from t is n r) + occupied (snd (drop_from t is n r)) = n + occupied r"
  using assms
proof (induction "is" arbitrary: n r)
  case Nil
  then have "snap_shape r" by (simp add: snap_ok_def)
  have "netplay_snap_ring_peek r u = None" if "\<not> u \<le> t" for u
    using Nil.prems(3) that by (auto simp: peek_dead [OF \<open>snap_shape r\<close>] not_le)
  then have "netplay_snap_ring_peek r = netplay_snap_ring_peek r |` {u. u \<le> t}"
    by (auto simp: restrict_map_def fun_eq_iff)
  then show ?case using Nil.prems(1) by simp
next
  case (Cons i "is")
  show ?case
  proof (cases "i \<in> live r \<and> ss_tick (slots r ! i) > t")
    case False
    have "i < length (slots r)" using Cons.prems(4) by simp
    then have "drop_from t (i # is) n r = drop_from t is n r" using False by (simp add: live_def)
    moreover have "\<And>j. j \<in> live r \<Longrightarrow> ss_tick (slots r ! j) > t \<Longrightarrow> j \<in> set is"
      using Cons.prems(3) False by fastforce
    ultimately show ?thesis using Cons.IH [of r n] Cons.prems(1,2,4) by simp
  next
    case True
    let ?r = "drop_count (slot_clear i r)"
    have sh: "snap_shape r" using Cons.prems(1) by (simp add: snap_ok_def)
    have "card (live r) > 0" using True by (auto simp: card_gt_0_iff)
    then have occ: "occupied ?r = occupied r - 1"
      using Cons.prems(1) by (auto simp: snap_ok_def drop_count_def word_gt_0)
    have step: "drop_from t (i # is) n r = drop_from t is (n + 1) ?r" using True by (simp add: live_def)
    have j: "j \<in> set is" if "j \<in> live ?r" "ss_tick (slots ?r ! j) > t" for j
      using Cons.prems(3) [of j] that by (auto simp: live_clear slot_clear_other)
    have map: "netplay_snap_ring_peek ?r = (netplay_snap_ring_peek r)(ss_tick (slots r ! i) := None)"
      using slot_clear_map(2) [OF sh] True by simp
    have "netplay_snap_ring_peek ?r |` {u. u \<le> t} = netplay_snap_ring_peek r |` {u. u \<le> t}"
      unfolding map using True by (auto simp: restrict_map_def fun_eq_iff)
    then show ?thesis
      using Cons.IH [OF clear_ok [OF Cons.prems(1)] _ j, of i "n + 1"] True Cons.prems(2,4) step occ by simp
  qed
qed

lemma drop_after_map:
  assumes "snap_ok r"
  shows "snap_ok (snd (netplay_snap_ring_drop_after r t)) \<and> depth (snd (netplay_snap_ring_drop_after r t)) = depth r
    \<and> netplay_snap_ring_peek (snd (netplay_snap_ring_drop_after r t)) = netplay_snap_ring_peek r |` {u. u \<le> t}
    \<and> fst (netplay_snap_ring_drop_after r t) + occupied (snd (netplay_snap_ring_drop_after r t)) = occupied r"
proof -
  have "length (slots r) = unat (depth r)" using assms by (simp add: snap_ok_def snap_shape_def)
  then show ?thesis
    using drop_from_map [OF assms, of "indices r" t 0] by (simp add: netplay_snap_ring_drop_after_def live_def lessThan_atLeast0)
qed

lemma clear_slots:
  assumes "snap_shape r"
  shows "let r' = foldl (\<lambda>r i. slot_clear i r) r is in
    snap_shape r' \<and> live r' = live r - set is \<and> depth r' = depth r \<and> occupied r' = occupied r"
  using assms
proof (induction "is" arbitrary: r)
  case (Cons i "is")
  have "snap_shape (slot_clear i r)" by (rule slot_clear_shape [OF Cons.prems])
  then show ?case using Cons.IH [of "slot_clear i r"] by (auto simp: Let_def live_clear)
qed simp

lemma clear_map:
  assumes "snap_ok r"
  shows "snap_ok (netplay_snap_ring_clear r) \<and> depth (netplay_snap_ring_clear r) = depth r
    \<and> netplay_snap_ring_peek (netplay_snap_ring_clear r) = Map.empty"
proof -
  define r' where "r' = foldl (\<lambda>r i. slot_clear i r) r (indices r)"
  have sh: "snap_shape r" and len: "length (slots r) = unat (depth r)" and pos: "0 < depth r"
    using assms by (simp_all add: snap_ok_def snap_shape_def)
  have c: "snap_shape r'" "live r' = live r - set (indices r)" "depth r' = depth r"
    using clear_slots [OF sh, of "indices r"] by (simp_all only: Let_def r'_def [symmetric])
  have none: "live r' = {}" unfolding c(2) by (auto simp: live_def len)
  then have "netplay_snap_ring_peek r' = Map.empty" using peek_dead [OF c(1)] by blast
  moreover have "netplay_snap_ring_clear r = r'\<lparr>occupied := 0, head := 0\<rparr>"
    by (simp only: netplay_snap_ring_clear_def r'_def)
  ultimately show ?thesis using c(1,3) none pos by (simp add: snap_ok_def)
qed

text \<open>The running extreme of a list of slots, for either order.\<close>

definition best_of :: "(u32 \<Rightarrow> u32 \<Rightarrow> bool) \<Rightarrow> u32 set \<Rightarrow> u32 option \<Rightarrow> bool" where
  "best_of better S b \<longleftrightarrow> (case b of None \<Rightarrow> S = {} | Some t \<Rightarrow> t \<in> S \<and> (\<forall>u \<in> S. u = t \<or> better t u))"

lemma best_of_insert:
  assumes "\<And>a b c. better a b \<Longrightarrow> better b c \<Longrightarrow> better a c" "\<And>a b. better a b \<or> a = b \<or> better b a"
    and "best_of better S b"
  shows "best_of better (insert x S) (if b = None \<or> better x (the b) then Some x else b)"
proof (cases b)
  case (Some t)
  then have t: "t \<in> S" "\<And>u. u \<in> S \<Longrightarrow> u = t \<or> better t u" using assms(3) by (auto simp: best_of_def)
  then show ?thesis
  proof (cases "better x t")
    case True
    then have "u = x \<or> better x u" if "u \<in> S" for u using t(2) [OF that] assms(1) by blast
    then show ?thesis using True Some by (auto simp: best_of_def)
  next
    case False
    then have "x = t \<or> better t x" using assms(2) by blast
    then show ?thesis using False Some t by (auto simp: best_of_def)
  qed
qed (use assms(3) in \<open>simp add: best_of_def\<close>)

lemma extreme_spec:
  assumes "\<And>a b c. better a b \<Longrightarrow> better b c \<Longrightarrow> better a c" "\<And>a b. better a b \<or> a = b \<or> better b a"
    and "snap_shape r"
  shows "best_of better (dom (netplay_snap_ring_peek r)) (extreme better r)"
proof -
  define step where "step = (\<lambda>best i. if \<not> ss_valid (slots r ! i) then best
      else if best = None \<or> better (ss_tick (slots r ! i)) (the best) then Some (ss_tick (slots r ! i)) else best)"
  have "best_of better (S \<union> {ss_tick (slots r ! i) | i. i \<in> set is \<and> ss_valid (slots r ! i)}) (foldl step b is)"
    if "best_of better S b" for S b "is"
    using that
  proof (induction "is" arbitrary: S b)
    case (Cons i "is")
    let ?S = "if ss_valid (slots r ! i) then insert (ss_tick (slots r ! i)) S else S"
    have "best_of better ?S (step b i)"
      using best_of_insert [OF assms(1,2) Cons.prems, where x = "ss_tick (slots r ! i)"] Cons.prems by (simp add: step_def)
    from Cons.IH [OF this]
    have "best_of better (?S \<union> {ss_tick (slots r ! j) | j. j \<in> set is \<and> ss_valid (slots r ! j)}) (foldl step (step b i) is)" .
    moreover have "?S \<union> {ss_tick (slots r ! j) | j. j \<in> set is \<and> ss_valid (slots r ! j)}
        = S \<union> {ss_tick (slots r ! j) | j. j \<in> set (i # is) \<and> ss_valid (slots r ! j)}" by auto
    ultimately show ?case by simp
  qed simp
  from this [of "{}" None "indices r"]
  have "best_of better {ss_tick (slots r ! i) | i. i \<in> set (indices r) \<and> ss_valid (slots r ! i)} (extreme better r)"
    by (simp add: best_of_def [of better "{}"] extreme_def step_def)
  moreover have "dom (netplay_snap_ring_peek r) = {ss_tick (slots r ! i) | i. i \<in> set (indices r) \<and> ss_valid (slots r ! i)}"
    using assms(3) by (auto simp: peek_dom [OF assms(3)] live_def snap_shape_def)
  ultimately show ?thesis by simp
qed

subsection \<open>The ring is a bounded map\<close>

datatype snap_op = SnapStore u32 "u8 list" | SnapDrop u32 | SnapDropAfter u32 | SnapClear

fun snap_apply :: "snap_ring \<Rightarrow> snap_op \<Rightarrow> snap_ring" where
  "snap_apply r (SnapStore t d) = snd (netplay_snap_ring_store r t (Some d))"
| "snap_apply r (SnapDrop t) = snd (netplay_snap_ring_drop_tick r t)"
| "snap_apply r (SnapDropAfter t) = snd (netplay_snap_ring_drop_after r t)"
| "snap_apply r SnapClear = netplay_snap_ring_clear r"

fun map_apply :: "nat \<Rightarrow> (u32 \<rightharpoonup> u8 list) \<Rightarrow> snap_op \<Rightarrow> (u32 \<rightharpoonup> u8 list)" where
  "map_apply n m (SnapStore t d) = map_store n t d m"
| "map_apply n m (SnapDrop t) = m(t := None)"
| "map_apply n m (SnapDropAfter t) = m |` {u. u \<le> t}"
| "map_apply n m SnapClear = Map.empty"

lemma apply_map:
  "snap_ok r \<Longrightarrow> snap_ok (snap_apply r x) \<and> depth (snap_apply r x) = depth r
   \<and> netplay_snap_ring_peek (snap_apply r x) = map_apply (unat (depth r)) (netplay_snap_ring_peek r) x"
  by (cases x) (simp_all add: store_map drop_tick_map drop_after_map clear_map)

lemma applies_map:
  "snap_ok r \<Longrightarrow> snap_ok (foldl snap_apply r xs) \<and> depth (foldl snap_apply r xs) = depth r
   \<and> netplay_snap_ring_peek (foldl snap_apply r xs) = foldl (map_apply (unat (depth r))) (netplay_snap_ring_peek r) xs"
proof (induction xs arbitrary: r)
  case (Cons x xs)
  show ?case using Cons.IH [of "snap_apply r x"] apply_map [OF Cons.prems, of x] by simp
qed simp

lemma create_ok:
  "snap_ok (netplay_snap_ring_create n) \<and> netplay_snap_ring_peek (netplay_snap_ring_create n) = Map.empty"
proof -
  let ?r = "netplay_snap_ring_create n"
  have live: "live ?r = {}"
    by (auto simp: live_def netplay_snap_ring_create_def Let_def empty_slot_def)
  have dep: "0 < depth ?r" "depth ?r \<le> 512" "length (slots ?r) = unat (depth ?r)" "occupied ?r = 0" "head ?r = 0"
    by (auto simp: netplay_snap_ring_create_def Let_def word_gt_0)
  then have "snap_shape ?r" by (simp add: snap_shape_def live)
  then show ?thesis
    using dep live peek_dead [of ?r] by (auto simp: snap_ok_def fun_eq_iff)
qed

text \<open>
  C38. Refinement: whatever sequence of stores, drops and clears a ring goes through, looking a tick up
  gives what the same operations give on a map from ticks to blobs holding at most as many entries as
  the ring has slots, where a store into a full map evicts the lowest tick.
\<close>

theorem snap_ring_refines_map:
  "netplay_snap_ring_peek (foldl snap_apply (netplay_snap_ring_create n) xs)
   = foldl (map_apply (unat (depth (netplay_snap_ring_create n)))) Map.empty xs"
  using applies_map [of "netplay_snap_ring_create n" xs] create_ok [of n] by simp

text \<open>
  What a ring reports: after any operations its count is the number of ticks it holds, never more
  than its depth, a tick is present exactly when a lookup finds it, and the oldest and newest ticks are
  the least and the greatest held.
\<close>

theorem snap_ring_reports:
  assumes "r = foldl snap_apply (netplay_snap_ring_create n) xs" "held = dom (netplay_snap_ring_peek r)"
  shows "unat (netplay_snap_ring_count r) = card held \<and> card held \<le> unat (netplay_snap_ring_depth r)
    \<and> netplay_snap_ring_has r t = (t \<in> held)
    \<and> netplay_snap_ring_oldest_tick r = (if held = {} then 0 else Min held)
    \<and> netplay_snap_ring_newest_tick r = (if held = {} then 0 else Max held)"
proof -
  have ok: "snap_ok r" using applies_map create_ok by (simp add: assms(1))
  then have sh: "snap_shape r" and fin: "finite held" by (simp_all add: snap_ok_def assms(2) peek_dom)
  have count: "unat (netplay_snap_ring_count r) = card held"
    using ok card_dom [OF sh] by (simp add: snap_ok_def netplay_snap_ring_count_def assms(2))
  have "card (live r) \<le> card {..<length (slots r)}" by (rule card_mono) (auto simp: live_def)
  then have bound: "card held \<le> unat (netplay_snap_ring_depth r)"
    using sh card_dom [OF sh] by (simp add: snap_shape_def netplay_snap_ring_depth_def assms(2))
  have has: "netplay_snap_ring_has r t = (t \<in> held)"
    using find_slot_dead [OF sh, of t] by (auto simp: netplay_snap_ring_has_def assms(2) peek_dom [OF sh])
  have "best_of (<) held (extreme (<) r)" "best_of (>) held (extreme (>) r)"
    unfolding assms(2) by (rule extreme_spec [OF _ _ sh]; auto)+
  then have "netplay_snap_ring_oldest_tick r = (if held = {} then 0 else Min held)"
    "netplay_snap_ring_newest_tick r = (if held = {} then 0 else Max held)"
    using fin by (auto simp: best_of_def netplay_snap_ring_oldest_tick_def netplay_snap_ring_newest_tick_def
        intro!: Min_eqI [symmetric] Max_eqI [symmetric] split: option.splits)
  then show ?thesis using count bound has by blast
qed

text \<open>Storing ticks in increasing order into the map keeps the last of them.\<close>

lemma map_store_rising:
  assumes "sorted_wrt (<) (map fst kvs)" "\<forall>(t, d) \<in> set kvs. d \<noteq> []" "0 < n"
  shows "foldl (map_apply n) Map.empty (map (\<lambda>(t, d). SnapStore t d) kvs) = map_of (drop (length kvs - n) kvs)"
  using assms(1,2)
proof (induction kvs rule: rev_induct)
  case (snoc kv kvs)
  obtain t d where kv: "kv = (t, d)" by (cases kv)
  let ?k = "drop (length kvs - n) kvs"
  have s: "sorted_wrt (<) (map fst kvs)" "\<forall>u \<in> set (map fst kvs). u < t" and d: "d \<noteq> []"
    using snoc.prems by (auto simp: sorted_wrt_append kv)
  have IH: "foldl (map_apply n) Map.empty (map (\<lambda>(t, d). SnapStore t d) kvs) = map_of ?k"
    using snoc.IH s(1) snoc.prems(2) by simp
  have sk: "sorted_wrt (<) (map fst ?k)" using sorted_wrt_drop [OF s(1)] by (simp flip: drop_map)
  then have dist: "distinct (map fst ?k)" by (simp add: strict_sorted_iff)
  have dom: "dom (map_of ?k) = fst ` set ?k" by (rule dom_map_of_conv_image_fst)
  then have card: "card (dom (map_of ?k)) = length ?k" using distinct_card [OF dist] by simp
  have "t \<notin> dom (map_of ?k)" using s(2) by (auto simp: dom dest!: in_set_dropD)
  have app: "map_of (xs @ [(t, d)]) = (map_of xs)(t \<mapsto> d)" if "t \<notin> dom (map_of xs)" for xs
    using that by (auto simp: map_of_append fun_eq_iff map_add_def split: option.splits)
  show ?case
  proof (cases "length kvs < n")
    case True
    then show ?thesis
      using IH card d app \<open>t \<notin> dom (map_of ?k)\<close> by (simp add: kv map_store_def)
  next
    case False
    then obtain u e ks where k: "?k = (u, e) # ks" using assms(3) by (cases ?k) auto
    have len: "length ?k = n" using False by simp
    have "Min (dom (map_of ?k)) = u"
      using sk k by (intro Min_eqI) (auto simp: dom intro: less_imp_le dest!: map_of_SomeD)
    moreover have "map_of ks u = None" using dist k by (simp add: map_of_eq_None_iff)
    then have "(map_of ?k)(u := None) = map_of ks" by (simp add: k fun_eq_iff)
    moreover have "drop (Suc (length kvs - n)) kvs = ks" using k by (metis drop_Suc tl_drop list.sel(3))
    then have "drop (length (kvs @ [kv]) - n) (kvs @ [kv]) = ks @ [(t, d)]"
      using False assms(3) by (simp add: kv Suc_diff_le)
    ultimately show ?thesis
      using IH card d app len \<open>t \<notin> dom (map_of ?k)\<close> k by (simp add: kv map_store_def)
  qed
qed simp

text \<open>
  Rollback reaches the last snapshots: when snapshots of rising ticks are saved one after the
  other, loading a tick restores the machine from the blob that was saved for it exactly when the tick
  is among the last as many as the ring is deep; an older one, or one never saved, is refused and
  leaves the machine alone.
\<close>

theorem snap_ring_keeps_latest:
  assumes "sorted_wrt (<) (map fst kvs)" "\<forall>(t, d) \<in> set kvs. d \<noteq> []"
    and "r = foldl snap_apply (netplay_snap_ring_create n) (map (\<lambda>(t, d). SnapStore t d) kvs)"
    and "kept = drop (length kvs - unat (depth r)) kvs"
  shows "netplay_snap_ring_load load_buffer r t machine =
    (case map_of kept t of None \<Rightarrow> (False, machine) | Some d \<Rightarrow> load_buffer d machine)"
proof -
  let ?n = "unat (depth (netplay_snap_ring_create n))"
  have ok: "snap_ok (netplay_snap_ring_create n)" by (simp add: create_ok)
  then have pos: "0 < ?n" by (simp add: snap_ok_def snap_shape_def word_less_nat_alt)
  have "netplay_snap_ring_peek r = map_of kept" and "depth r = depth (netplay_snap_ring_create n)"
    using applies_map [OF ok] create_ok [of n] map_store_rising [OF assms(1,2) pos] by (simp_all add: assms(3,4))
  moreover have "d \<noteq> []" if "map_of kept t = Some d" for d
    using map_of_SomeD [OF that] assms(2) by (auto simp: assms(4) dest: in_set_dropD)
  ultimately show ?thesis by (auto simp: netplay_snap_ring_load_def split: option.splits)
qed

subsection \<open>Instances\<close>

lemma snap_ring_reports_witness:
  "netplay_snap_ring_count (foldl snap_apply (netplay_snap_ring_create 2)
      [SnapStore 7 [1], SnapStore 5 [2], SnapStore 9 [3], SnapDropAfter 8]) = 1"
proof -
  let ?r = "foldl snap_apply (netplay_snap_ring_create 2)
      [SnapStore 7 [1], SnapStore 5 [2], SnapStore 9 [3], SnapDropAfter 8]"
  have "unat (depth (netplay_snap_ring_create 2)) = 2" by (simp add: netplay_snap_ring_create_def Let_def)
  then have "netplay_snap_ring_peek ?r = foldl (map_apply 2) Map.empty
      [SnapStore 7 [1], SnapStore 5 [2], SnapStore 9 [3], SnapDropAfter 8]"
    using applies_map [of "netplay_snap_ring_create 2"] create_ok [of 2] by metis
  also have "\<dots> = Map.empty(7 \<mapsto> [1])"
    by (auto simp: map_store_def fun_eq_iff restrict_map_def)
  finally have "netplay_snap_ring_peek ?r = Map.empty(7 \<mapsto> [1])" .
  then have "unat (netplay_snap_ring_count ?r) = 1"
    using snap_ring_reports [OF refl refl, of 2 "[SnapStore 7 [1], SnapStore 5 [2], SnapStore 9 [3], SnapDropAfter 8]"]
    by simp
  then show ?thesis by (simp add: word_unat_eq_iff)
qed

lemma snap_ring_keeps_latest_witness:
  "netplay_snap_ring_load (\<lambda>d machine. (True, length d))
     (foldl snap_apply (netplay_snap_ring_create 2) (map (\<lambda>(t, d). SnapStore t d) [(5, [2]), (7, [1, 1]), (9, [3])])) 7 0
   = (True, 2)"
proof -
  let ?kvs = "[(5, [2]), (7, [1, 1]), (9, [3])] :: (u32 \<times> u8 list) list"
  let ?r = "foldl snap_apply (netplay_snap_ring_create 2) (map (\<lambda>(t, d). SnapStore t d) ?kvs)"
  have "unat (depth (netplay_snap_ring_create 2)) = 2" by (simp add: netplay_snap_ring_create_def Let_def)
  then have dep: "unat (depth ?r) = 2"
    using applies_map [of "netplay_snap_ring_create 2"] create_ok [of 2] by metis
  have "[(7, [1, 1]), (9, [3])] = drop (length ?kvs - unat (depth ?r)) ?kvs" unfolding dep by simp
  from snap_ring_keeps_latest [OF _ _ refl this, of "\<lambda>d machine. (True, length d)" 7 0]
  show ?thesis by simp
qed

end
