(* ===== verification/InputHist.thy ===== *)
theory InputHist
  imports Prelude
begin

unbundle bit_operations_syntax

section \<open>The input history of rollback: netplay\_input\_hist.c\<close>

text \<open>
  Per player and tick, the pad state that was played or predicted. \<open>RNetRbFrame\<close> is a struct of the
  recomp-net library; the record has the fields this file reads and writes, at the widths it assigns
  them. The stick bytes are signed 8-bit values. Null pointers: the history is not null; a null pad
  or frame is \<open>None\<close>; the output pointers are results. The pad normalisation is that of
  \<open>psx_netplay.c\<close>.
\<close>

subsection \<open>Pads and frames\<close>

record net_pad =
  buttons :: u16
  lx :: u8
  ly :: u8
  rx :: u8
  ry :: u8
  analog :: u8
  connected :: u8

record rb_frame =
  f_tick :: u32
  f_buttons :: u16
  f_stick_x :: "8 word"
  f_stick_y :: "8 word"
  f_analog :: u8
  f_predicted :: u8
  f_valid :: u8

record contract_frame =
  c_tick :: u32
  c_buttons :: u16
  c_stick_x :: "8 word"
  c_stick_y :: "8 word"
  c_predicted :: u8

definition in_deadzone :: "u8 \<Rightarrow> bool" where
  "in_deadzone v \<longleftrightarrow> v > 0x80 - 24 \<and> v < 0x80 + 24"

definition psx_netplay_normalize_pad :: "net_pad \<Rightarrow> net_pad" where
  "psx_netplay_normalize_pad pad =
     (let pad = pad\<lparr>connected := 1\<rparr>;
          pad = (if in_deadzone (lx pad) then pad\<lparr>lx := 0x80\<rparr> else pad);
          pad = (if in_deadzone (ly pad) then pad\<lparr>ly := 0x80\<rparr> else pad);
          pad = (if in_deadzone (rx pad) then pad\<lparr>rx := 0x80\<rparr> else pad);
          pad = (if in_deadzone (ry pad) then pad\<lparr>ry := 0x80\<rparr> else pad)
      in if analog pad = 0 then pad\<lparr>lx := 0x80, ly := 0x80, rx := 0x80, ry := 0x80\<rparr> else pad)"

definition u8_to_i8_stick :: "u8 \<Rightarrow> 8 word" where
  "u8_to_i8_stick v =
     (let d = uint v - 0x80;
          d = (if d > 127 then 127 else d);
          d = (if d < -128 then -128 else d)
      in word_of_int d)"

definition i8_to_u8_stick :: "8 word \<Rightarrow> u8" where
  "i8_to_u8_stick v = word_of_int (sint v + 0x80)"

definition zero_frame :: rb_frame where
  "zero_frame = \<lparr>f_tick = 0, f_buttons = 0, f_stick_x = 0, f_stick_y = 0, f_analog = 0, f_predicted = 0, f_valid = 0\<rparr>"

definition netplay_ih_pad_to_frame :: "net_pad option \<Rightarrow> u32 \<Rightarrow> u8 \<Rightarrow> rb_frame" where
  "netplay_ih_pad_to_frame pad tick predicted =
     (let out = zero_frame\<lparr>f_tick := tick, f_predicted := (if predicted \<noteq> 0 then 1 else 0), f_valid := 1, f_analog := 0\<rparr>
      in case pad of
        None \<Rightarrow> out\<lparr>f_buttons := 0xFFFF\<rparr>
      | Some p \<Rightarrow>
          let n = psx_netplay_normalize_pad p
          in out\<lparr>f_buttons := buttons n, f_stick_x := u8_to_i8_stick (lx n), f_stick_y := u8_to_i8_stick (ly n),
                 f_analog := (if analog n \<noteq> 0 then 1 else 0)\<rparr>)"

definition netplay_ih_frame_to_pad :: "rb_frame option \<Rightarrow> net_pad" where
  "netplay_ih_frame_to_pad frame =
     (let pad = \<lparr>buttons = 0xFFFF, lx = 0x80, ly = 0x80, rx = 0x80, ry = 0x80, analog = 0, connected = 1\<rparr>
      in case frame of None \<Rightarrow> pad
      | Some f \<Rightarrow>
        if f_valid f = 0 then pad
        else psx_netplay_normalize_pad
          (pad\<lparr>buttons := f_buttons f, lx := i8_to_u8_stick (f_stick_x f), ly := i8_to_u8_stick (f_stick_y f),
               analog := (if f_analog f \<noteq> 0 then 1 else 0)\<rparr>))"

definition netplay_ih_frame_to_contract :: "rb_frame option \<Rightarrow> contract_frame" where
  "netplay_ih_frame_to_contract frame =
     (case frame of
        None \<Rightarrow> \<lparr>c_tick = 0, c_buttons = 0, c_stick_x = 0, c_stick_y = 0, c_predicted = 0\<rparr>
      | Some f \<Rightarrow> \<lparr>c_tick = f_tick f, c_buttons = f_buttons f, c_stick_x = f_stick_x f, c_stick_y = f_stick_y f,
                   c_predicted = (if f_predicted f \<noteq> 0 then 1 else 0)\<rparr>)"

subsection \<open>The history\<close>

abbreviation NETPLAY_INPUT_HIST_DEPTH :: u32 where "NETPLAY_INPUT_HIST_DEPTH \<equiv> 128"
abbreviation NETPLAY_INPUT_HIST_MAX_SLOTS :: int where "NETPLAY_INPUT_HIST_MAX_SLOTS \<equiv> 8"

record input_hist =
  rows :: "nat \<Rightarrow> nat \<Rightarrow> rb_frame"
  slot_count :: int
  invent_count :: u32
  promote_count :: u32
  rewind_count :: u32

definition netplay_ih_reset :: "int \<Rightarrow> input_hist" where
  "netplay_ih_reset slots =
     (let slots = (if slots < 1 then 1 else slots);
          slots = (if slots > NETPLAY_INPUT_HIST_MAX_SLOTS then NETPLAY_INPUT_HIST_MAX_SLOTS else slots)
      in \<lparr>rows = (\<lambda>_ _. zero_frame), slot_count = slots, invent_count = 0, promote_count = 0, rewind_count = 0\<rparr>)"

definition row_of :: "u32 \<Rightarrow> nat" where
  "row_of tick = unat (tick mod NETPLAY_INPUT_HIST_DEPTH)"

definition netplay_ih_put :: "input_hist \<Rightarrow> int \<Rightarrow> rb_frame \<Rightarrow> bool \<times> input_hist" where
  "netplay_ih_put h slot frame =
     (if f_valid frame = 0 then (False, h)
      else if slot < 0 \<or> slot \<ge> slot_count h then (False, h)
      else (True, h\<lparr>rows := (rows h)(nat slot := (rows h (nat slot))(row_of (f_tick frame) := frame\<lparr>f_valid := 1\<rparr>))\<rparr>))"

definition netplay_ih_get :: "input_hist \<Rightarrow> int \<Rightarrow> u32 \<Rightarrow> rb_frame option" where
  "netplay_ih_get h slot tick =
     (if slot < 0 \<or> slot \<ge> slot_count h then None
      else let src = rows h (nat slot) (row_of tick) in
      if f_valid src = 0 \<or> f_tick src \<noteq> tick then None else Some src)"

definition neutral_frame :: "u32 \<Rightarrow> rb_frame" where
  "neutral_frame tick =
     zero_frame\<lparr>f_tick := tick, f_buttons := 0xFFFF, f_analog := 0, f_predicted := 1, f_valid := 1\<rparr>"

text \<open>The walk back through the ticks before; it stops at tick 0.\<close>

fun last_known :: "input_hist \<Rightarrow> int \<Rightarrow> u32 \<Rightarrow> nat list \<Rightarrow> rb_frame option" where
  "last_known h slot tick [] = None"
| "last_known h slot tick (look # ls) =
     (if tick < of_nat look then None
      else case netplay_ih_get h slot (tick - of_nat look) of
        Some prev \<Rightarrow> Some prev
      | None \<Rightarrow> last_known h slot tick ls)"

definition hold_frame :: "u32 \<Rightarrow> rb_frame option \<Rightarrow> rb_frame" where
  "hold_frame tick found =
     (case found of None \<Rightarrow> neutral_frame tick
      | Some prev \<Rightarrow> (neutral_frame tick)\<lparr>f_buttons := f_buttons prev, f_stick_x := f_stick_x prev,
          f_stick_y := f_stick_y prev, f_analog := (if f_analog prev \<noteq> 0 then 1 else 0)\<rparr>)"

definition invent :: "input_hist \<Rightarrow> int \<Rightarrow> rb_frame \<Rightarrow> rb_frame option \<times> input_hist" where
  "invent h slot frame =
     (case netplay_ih_put h slot frame of
        (False, h) \<Rightarrow> (None, h)
      | (True, h) \<Rightarrow> (Some frame, h\<lparr>invent_count := invent_count h + 1\<rparr>))"

definition netplay_ih_invent_hold_last :: "input_hist \<Rightarrow> int \<Rightarrow> u32 \<Rightarrow> rb_frame option \<times> input_hist" where
  "netplay_ih_invent_hold_last h slot tick =
     (if slot < 0 \<or> slot \<ge> slot_count h then (None, h)
      else invent h slot (hold_frame tick (last_known h slot tick [1..<128])))"

definition netplay_ih_invent_idle :: "input_hist \<Rightarrow> int \<Rightarrow> u32 \<Rightarrow> rb_frame option \<times> input_hist" where
  "netplay_ih_invent_idle h slot tick =
     (if slot < 0 \<or> slot \<ge> slot_count h then (None, h)
      else invent h slot (neutral_frame tick))"

definition netplay_ih_promote :: "input_hist \<Rightarrow> int \<Rightarrow> rb_frame \<Rightarrow> bool \<times> input_hist" where
  "netplay_ih_promote h slot wire =
     (if f_valid wire = 0 then (False, h)
      else let auth = wire\<lparr>f_predicted := 0, f_valid := 1\<rparr> in
      case netplay_ih_put h slot auth of
        (False, h) \<Rightarrow> (False, h)
      | (True, h) \<Rightarrow> (True, h\<lparr>promote_count := promote_count h + 1\<rparr>))"

subsection \<open>Sticks\<close>

lemma sint_word8: "- 128 \<le> x \<Longrightarrow> x < 128 \<Longrightarrow> sint (word_of_int x :: 8 word) = x"
  by (simp add: signed_of_int signed_take_bit_int_eq_self)

lemma stick_of_uint: "sint (u8_to_i8_stick v) = uint v - 0x80"
proof -
  have "0 \<le> uint v" "uint v < 256" using uint_lt2p [of v] by simp_all
  then show ?thesis using sint_word8 [of "uint v - 128"] by (simp add: u8_to_i8_stick_def Let_def del: word_of_int_uint)
qed

lemma stick_back: "i8_to_u8_stick (u8_to_i8_stick v) = v"
  by (simp add: i8_to_u8_stick_def stick_of_uint)

text \<open>The normalisation field by field.\<close>

lemma normalize_fields:
  "psx_netplay_normalize_pad p =
    (let c = (\<lambda>v. if analog p = 0 \<or> in_deadzone v then 0x80 else v)
     in p\<lparr>lx := c (lx p), ly := c (ly p), rx := c (rx p), ry := c (ry p), connected := 1\<rparr>)"
  by (cases p; cases "analog p = 0"; cases "in_deadzone (lx p)"; cases "in_deadzone (ly p)";
      cases "in_deadzone (rx p)"; cases "in_deadzone (ry p)")
    (simp_all add: psx_netplay_normalize_pad_def Let_def)

text \<open>
  Pads through the history: turning a pad into a frame and back gives the normalised pad (sticks
  centred in the dead zone and on a digital pad, connected, the analog flag 0 or 1), except that the
  right stick comes back centred; a missing or unwritten frame is the neutral pad.
\<close>

theorem ih_pad_roundtrip:
  "netplay_ih_frame_to_pad (Some (netplay_ih_pad_to_frame (Some p) tick predicted))
   = (psx_netplay_normalize_pad p)\<lparr>rx := 0x80, ry := 0x80, analog := (if analog p \<noteq> 0 then 1 else 0)\<rparr>
   \<and> netplay_ih_frame_to_pad (Some (netplay_ih_pad_to_frame None tick predicted)) = netplay_ih_frame_to_pad None
   \<and> netplay_ih_frame_to_pad (Some zero_frame) = netplay_ih_frame_to_pad None"
  by (simp add: netplay_ih_frame_to_pad_def netplay_ih_pad_to_frame_def normalize_fields stick_back Let_def zero_frame_def)
subsection \<open>What the history remembers\<close>

lemma put_range: "slot_count (snd (netplay_ih_put h s f)) = slot_count h"
  by (simp add: netplay_ih_put_def)

lemma get_put_other:
  "s \<noteq> slot \<or> row_of u \<noteq> row_of (f_tick f) \<Longrightarrow> netplay_ih_get (snd (netplay_ih_put h s f)) slot u = netplay_ih_get h slot u"
  by (cases "s = slot"; cases "s < 0"; cases "slot < 0")
    (auto simp: netplay_ih_put_def netplay_ih_get_def Let_def nat_eq_iff nat_eq_iff2)

lemma get_put:
  "f_valid f \<noteq> 0 \<Longrightarrow> 0 \<le> slot \<Longrightarrow> slot < slot_count h \<Longrightarrow>
   netplay_ih_get (snd (netplay_ih_put h slot f)) slot (f_tick f) = Some (f\<lparr>f_valid := 1\<rparr>)"
  by (simp add: netplay_ih_put_def netplay_ih_get_def)

lemma get_counts [simp]:
  "netplay_ih_get (h\<lparr>invent_count := c\<rparr>) = netplay_ih_get h"
  "netplay_ih_get (h\<lparr>promote_count := c\<rparr>) = netplay_ih_get h"
  by (simp_all add: fun_eq_iff netplay_ih_get_def Let_def)

lemma row_of_apart:
  assumes "t \<noteq> u" "\<bar>uint t - uint u\<bar> < 128"
  shows "row_of t \<noteq> row_of u"
proof
  assume "row_of t = row_of u"
  then have "unat t mod 128 = unat u mod 128" by (simp add: row_of_def unat_mod)
  then have "int (unat t) mod 128 = int (unat u) mod 128" by (metis of_nat_mod of_nat_numeral)
  then have "uint t mod 128 = uint u mod 128" by simp
  then have "128 dvd uint t - uint u" by (simp add: mod_eq_dvd_iff)
  then have "uint t - uint u = 0" using assms(2) zdvd_not_zless [of "\<bar>uint t - uint u\<bar>" 128] by (auto simp: dvd_abs_iff)
  then show False using assms(1) by (simp add: word_uint_eq_iff)
qed

definition put_all :: "input_hist \<Rightarrow> (int \<times> rb_frame) list \<Rightarrow> input_hist" where
  "put_all h xs = foldl (\<lambda>h (s, f). snd (netplay_ih_put h s f)) h xs"

lemma put_all_other:
  "\<forall>(s, g) \<in> set xs. s = slot \<longrightarrow> row_of (f_tick g) \<noteq> row_of u \<Longrightarrow>
   netplay_ih_get (put_all h xs) slot u = netplay_ih_get h slot u"
proof (induction xs arbitrary: h)
  case (Cons x xs)
  obtain s g where x: "x = (s, g)" by (cases x)
  have "netplay_ih_get (snd (netplay_ih_put h s g)) slot u = netplay_ih_get h slot u"
    using Cons.prems by (intro get_put_other) (auto simp: x)
  then show ?case using Cons.IH [of "snd (netplay_ih_put h s g)"] Cons.prems by (simp add: put_all_def x)
qed (simp add: put_all_def)

text \<open>
  The window of the history: a frame recorded for a player is found again under its tick as long
  as every later frame of that player is for another tick less than 128 away, whatever is recorded for
  the other players; and promoting the authoritative frame for the tick replaces it, no longer marked
  as predicted.
\<close>

theorem ih_remembers_window:
  assumes "f_valid f \<noteq> 0" "0 \<le> slot" "slot < slot_count h"
    and "\<forall>(s, g) \<in> set later. s = slot \<longrightarrow> f_tick g \<noteq> f_tick f \<and> \<bar>uint (f_tick g) - uint (f_tick f)\<bar> < 128"
  defines "h' \<equiv> put_all h ((slot, f) # later)"
  shows "netplay_ih_get h' slot (f_tick f) = Some (f\<lparr>f_valid := 1\<rparr>)
    \<and> (f_valid w \<noteq> 0 \<and> f_tick w = f_tick f \<longrightarrow>
        netplay_ih_get (snd (netplay_ih_promote h' slot w)) slot (f_tick f) = Some (w\<lparr>f_predicted := 0, f_valid := 1\<rparr>))"
proof -
  have "netplay_ih_get h' slot (f_tick f) = netplay_ih_get (snd (netplay_ih_put h slot f)) slot (f_tick f)"
    using put_all_other [of later slot "f_tick f"] assms(4) row_of_apart by (fastforce simp: h'_def put_all_def)
  then have first: "netplay_ih_get h' slot (f_tick f) = Some (f\<lparr>f_valid := 1\<rparr>)"
    using get_put [OF assms(1-3)] by simp
  have "slot_count (put_all h xs) = slot_count h" for xs
    by (induction xs arbitrary: h) (auto simp: put_all_def put_range)
  then have range: "slot < slot_count h'" using assms(3) by (simp add: h'_def)
  have "netplay_ih_get (snd (netplay_ih_promote h' slot w)) slot (f_tick f) = Some (w\<lparr>f_predicted := 0, f_valid := 1\<rparr>)"
    if "f_valid w \<noteq> 0 \<and> f_tick w = f_tick f"
    using get_put [of "w\<lparr>f_predicted := 0, f_valid := 1\<rparr>" slot h'] that range assms(2)
    by (simp add: netplay_ih_promote_def netplay_ih_put_def)
  then show ?thesis using first by blast
qed

subsection \<open>Prediction\<close>

text \<open>The ticks the prediction looks back at and finds.\<close>

definition seen_back :: "input_hist \<Rightarrow> int \<Rightarrow> u32 \<Rightarrow> nat \<Rightarrow> bool" where
  "seen_back h slot tick k \<longleftrightarrow> 1 \<le> k \<and> k < 128 \<and> k \<le> unat tick \<and> netplay_ih_get h slot (tick - of_nat k) \<noteq> None"

lemma seen_back_at: "seen_back h slot tick k \<Longrightarrow> k \<le> unat tick \<and> netplay_ih_get h slot (tick - of_nat k) \<noteq> None"
  by (simp add: seen_back_def)

lemma last_known_least:
  assumes "1 \<le> m" "m \<le> 128" "\<And>k. seen_back h slot tick k \<Longrightarrow> m \<le> k"
  shows "last_known h slot tick [m..<128] =
    (if \<exists>k. seen_back h slot tick k then netplay_ih_get h slot (tick - of_nat (LEAST k. seen_back h slot tick k)) else None)"
  using assms
proof (induction "128 - m" arbitrary: m)
  case 0
  then have "m = 128" by simp
  moreover have "\<not> seen_back h slot tick k" for k using 0 by (fastforce simp: seen_back_def)
  ultimately show ?case by simp
next
  case (Suc n)
  then have m: "m < 128" "unat (of_nat m :: u32) = m" by (simp_all add: unsigned_of_nat take_bit_nat_eq_self)
  have u: "[m..<128] = m # [Suc m..<128]" using m(1) by (rule upt_conv_Cons)
  show ?case
  proof (cases "unat tick < m")
    case True
    have "\<not> seen_back h slot tick k" for k
      using Suc.prems(3) [of k] True seen_back_at [of h slot tick k] by linarith
    then show ?thesis using True m(2) by (auto simp: u word_less_nat_alt)
  next
    case le: False
    show ?thesis
    proof (cases "netplay_ih_get h slot (tick - of_nat m)")
      case None
      then have "Suc m \<le> k" if "seen_back h slot tick k" for k
        using Suc.prems(3) [OF that] that by (cases "k = m") (auto simp: seen_back_def)
      then show ?thesis
        using Suc.hyps(1) [of "Suc m"] Suc.hyps(2) Suc.prems m le None by (simp add: u word_less_nat_alt)
    next
      case (Some f)
      then have s: "seen_back h slot tick m" using le m(1) Suc.prems(1) by (simp add: seen_back_def)
      then have "(LEAST k. seen_back h slot tick k) = m" using Suc.prems(3) by (intro Least_equality)
      then show ?thesis using s le m(2) Some by (auto simp: u word_less_nat_alt)
    qed
  qed
qed

text \<open>
  Prediction holds the last input: inventing a frame for a missing tick stores and returns a frame
  of that tick marked as predicted, with the buttons, stick and analog flag of the nearest earlier tick
  known within 127 ticks (the neutral pad when there is none), counts it, and leaves every other
  player and every other row of the history as they were.
\<close>

theorem ih_invent_holds_last:
  fixes h :: input_hist and slot s :: int and tick u :: u32
  assumes "0 \<le> slot" "slot < slot_count h"
  defines "r \<equiv> netplay_ih_invent_hold_last h slot tick"
    and "prev \<equiv> the (netplay_ih_get h slot (tick - of_nat (LEAST k. seen_back h slot tick k)))"
  shows "\<exists>f. fst r = Some f \<and> netplay_ih_get (snd r) slot tick = Some f
    \<and> f_tick f = tick \<and> f_predicted f = 1 \<and> invent_count (snd r) = invent_count h + 1
    \<and> (if \<exists>k. seen_back h slot tick k
       then f_buttons f = f_buttons prev \<and> f_stick_x f = f_stick_x prev \<and> f_stick_y f = f_stick_y prev
         \<and> f_analog f = (if f_analog prev \<noteq> 0 then 1 else 0)
       else netplay_ih_frame_to_pad (Some f) = netplay_ih_frame_to_pad None)
    \<and> (s \<noteq> slot \<or> row_of u \<noteq> row_of tick \<longrightarrow> netplay_ih_get (snd r) s u = netplay_ih_get h s u)"
proof -
  define found where "found = last_known h slot tick [1..<128]"
  define f where "f = hold_frame tick found"
  have f: "f_tick f = tick" "f_predicted f = 1" "f_valid f = 1" "f\<lparr>f_valid := 1\<rparr> = f"
    by (simp_all add: f_def hold_frame_def neutral_frame_def split: option.split)
  have r: "r = (Some f, (snd (netplay_ih_put h slot f))\<lparr>invent_count := invent_count h + 1\<rparr>)"
    using assms(1,2) f(3) by (simp add: r_def netplay_ih_invent_hold_last_def invent_def netplay_ih_put_def f_def found_def)
  have "found = (if \<exists>k. seen_back h slot tick k
      then netplay_ih_get h slot (tick - of_nat (LEAST k. seen_back h slot tick k)) else None)"
    unfolding found_def by (rule last_known_least) (simp_all add: seen_back_def)
  moreover have "netplay_ih_get h slot (tick - of_nat (LEAST k. seen_back h slot tick k)) = Some prev"
    if "\<exists>k. seen_back h slot tick k"
    using seen_back_at [OF LeastI_ex [OF that]] by (auto simp: prev_def)
  ultimately have found: "found = (if \<exists>k. seen_back h slot tick k then Some prev else None)" by presburger
  have "netplay_ih_get (snd r) slot tick = Some f"
    using get_put [of f slot h] f assms(1,2) by (simp add: r)
  moreover have "s \<noteq> slot \<or> row_of u \<noteq> row_of tick \<longrightarrow> netplay_ih_get (snd r) s u = netplay_ih_get h s u"
    using get_put_other [of slot s u f h] f(1) by (auto simp: r)
  ultimately show ?thesis
    using f by (auto simp: r f_def found hold_frame_def neutral_frame_def zero_frame_def netplay_ih_frame_to_pad_def
        normalize_fields i8_to_u8_stick_def in_deadzone_def Let_def)
qed

subsection \<open>Instances\<close>

definition demo_frame :: "u32 \<Rightarrow> u16 \<Rightarrow> rb_frame" where
  "demo_frame t b = zero_frame\<lparr>f_tick := t, f_buttons := b, f_valid := 1\<rparr>"

lemma ih_remembers_window_witness:
  "netplay_ih_get (put_all (netplay_ih_reset 2)
      ((1, demo_frame 5 0xFFFE) # [(1, demo_frame 6 0xFFFF), (0, demo_frame 133 0xFFFF)])) 1 5
   = Some (demo_frame 5 0xFFFE)"
  using ih_remembers_window [of "demo_frame 5 0xFFFE" 1 "netplay_ih_reset 2"
      "[(1, demo_frame 6 0xFFFF), (0, demo_frame 133 0xFFFF)]"]
  by (simp add: demo_frame_def zero_frame_def netplay_ih_reset_def Let_def)

lemma ih_invent_holds_last_witness:
  "\<exists>f. fst (netplay_ih_invent_hold_last (put_all (netplay_ih_reset 2) [(1, demo_frame 3 0x7FFF)]) 1 5) = Some f
     \<and> f_tick f = 5 \<and> f_predicted f = 1"
proof -
  have "slot_count (put_all (netplay_ih_reset 2) [(1, demo_frame 3 0x7FFF)]) = 2"
    by (simp add: put_all_def netplay_ih_put_def netplay_ih_reset_def Let_def)
  then show ?thesis
    using ih_invent_holds_last [of 1 "put_all (netplay_ih_reset 2) [(1, demo_frame 3 0x7FFF)]" 5 1 5] by auto
qed

end
