(* ===== verification/MemCard.thy ===== *)
theory MemCard
  imports Prelude
begin

unbundle bit_operations_syntax

section \<open>Memory card images: memcard.c\<close>

text \<open>
  The two 128 KB card images and their files. The host's files are a record of functions over a host
  state \<open>'h\<close>: what \<open>fopen\<close> and \<open>fread\<close> give of the first 128 KB of a path (\<open>None\<close> when it cannot be
  opened), writing a whole image (true when open, write, flush and close all succeed) and creating
  the directories of a path (\<open>memcard_ensure_dir\<close>). Paths are cut to the 511 characters of the
  struct's buffer, as \<open>snprintf\<close> does. The functions that return \<open>int\<close> codes return \<open>None\<close> or false
  for the code -1, and the output buffer as the value. The file time of the summary is left out.
\<close>

abbreviation MEMCARD_SIZE :: nat where "MEMCARD_SIZE \<equiv> 131072"
abbreviation MEMCARD_SECTOR_SIZE :: nat where "MEMCARD_SECTOR_SIZE \<equiv> 128"
abbreviation MEMCARD_SECTORS :: int where "MEMCARD_SECTORS \<equiv> 1024"
abbreviation MAX_CARDS :: int where "MAX_CARDS \<equiv> 2"

record mem_card =
  card_data :: "nat \<Rightarrow> u8"
  filepath :: string
  present :: bool
  dirty :: bool

record 'h host_fs =
  fs_read :: "string \<Rightarrow> 'h \<Rightarrow> u8 list option"
  fs_write :: "string \<Rightarrow> u8 list \<Rightarrow> 'h \<Rightarrow> bool \<times> 'h"
  fs_ensure_dir :: "string \<Rightarrow> 'h \<Rightarrow> 'h"

record 'h card_sys =
  cards :: "nat \<Rightarrow> mem_card"
  host :: 'h

definition image :: "mem_card \<Rightarrow> u8 list" where
  "image c = map (card_data c) [0..<MEMCARD_SIZE]"

definition load_bytes :: "u8 list \<Rightarrow> (nat \<Rightarrow> u8) \<Rightarrow> nat \<Rightarrow> u8" where
  "load_bytes bs f = (\<lambda>i. if i < length bs then bs ! i else f i)"

definition upd_card :: "nat \<Rightarrow> (mem_card \<Rightarrow> mem_card) \<Rightarrow> 'h card_sys \<Rightarrow> 'h card_sys" where
  "upd_card i f s = s\<lparr>cards := (cards s)(i := f (cards s i))\<rparr>"

subsection \<open>The blank card\<close>

definition frame_checksum :: "(nat \<Rightarrow> u8) \<Rightarrow> nat \<Rightarrow> u8" where
  "frame_checksum d off = foldl (\<lambda>x i. x XOR d (off + i)) 0 [0..<127]"

definition memset_at :: "nat \<Rightarrow> nat \<Rightarrow> u8 \<Rightarrow> (nat \<Rightarrow> u8) \<Rightarrow> nat \<Rightarrow> u8" where
  "memset_at off n v d = (\<lambda>i. if off \<le> i \<and> i < off + n then v else d i)"

definition seal_frame :: "nat \<Rightarrow> (nat \<Rightarrow> u8) \<Rightarrow> nat \<Rightarrow> u8" where
  "seal_frame off d = d(off + 0x7F := frame_checksum d off)"

definition format_header :: "(nat \<Rightarrow> u8) \<Rightarrow> nat \<Rightarrow> u8" where
  "format_header d = seal_frame 0 ((memset_at 0 128 0 d)(0 := 0x4D, 1 := 0x43))"

definition format_directory :: "(nat \<Rightarrow> u8) \<Rightarrow> nat \<Rightarrow> nat \<Rightarrow> u8" where
  "format_directory d s =
     (let off = s * 128
      in seal_frame off ((memset_at off 128 0 d)(off + 0 := 0xA0, off + 8 := 0xFF, off + 9 := 0xFF)))"

definition format_broken :: "(nat \<Rightarrow> u8) \<Rightarrow> nat \<Rightarrow> nat \<Rightarrow> u8" where
  "format_broken d s =
     (let off = s * 128
      in seal_frame off ((memset_at off 128 0 d)
        (off + 0 := 0xFF, off + 1 := 0xFF, off + 2 := 0xFF, off + 3 := 0xFF, off + 8 := 0xFF, off + 9 := 0xFF)))"

definition memcard_format :: "nat \<Rightarrow> u8" where
  "memcard_format =
     (let d = (\<lambda>_. 0xFF);
          d = format_header d;
          d = foldl format_directory d [1..<16];
          d = foldl format_broken d [16..<36];
          d = foldl (\<lambda>d s. memset_at (s * 128) 128 0 d) d [36..<63]
      in (\<lambda>i. if 63 * 128 \<le> i \<and> i < 64 * 128 then d (i - 63 * 128) else d i))"

subsection \<open>Opening and closing\<close>

definition cut_path :: "string \<Rightarrow> string" where
  "cut_path p = take 511 p"

definition card_file :: "string \<Rightarrow> nat \<Rightarrow> string" where
  "card_file dir i = cut_path (dir @ ''/card'' @ (if i = 0 then ''1'' else ''2'') @ ''.mcd'')"

definition empty_card :: mem_card where
  "empty_card = \<lparr>card_data = (\<lambda>_. 0), filepath = [], present = False, dirty = False\<rparr>"

definition ensure_dir_opt :: "'h host_fs \<Rightarrow> string option \<Rightarrow> 'h \<Rightarrow> 'h" where
  "ensure_dir_opt fs dir h = (case dir of None \<Rightarrow> h | Some d \<Rightarrow> if d = [] then h else fs_ensure_dir fs d h)"

definition slot_path :: "string option \<Rightarrow> nat \<Rightarrow> string option \<Rightarrow> string option" where
  "slot_path dir i path =
     (case path of
        Some p \<Rightarrow> if p \<noteq> [] then Some (cut_path p) else (case dir of None \<Rightarrow> None | Some d \<Rightarrow> Some (card_file d i))
      | None \<Rightarrow> (case dir of None \<Rightarrow> None | Some d \<Rightarrow> Some (card_file d i)))"

definition open_card :: "'h host_fs \<Rightarrow> nat \<Rightarrow> string \<Rightarrow> 'h card_sys \<Rightarrow> 'h card_sys" where
  "open_card fs i path s =
     (let s = upd_card i (\<lambda>c. c\<lparr>filepath := path\<rparr>) s in
      case fs_read fs path (host s) of
        Some bs \<Rightarrow> upd_card i (\<lambda>c. c\<lparr>card_data := load_bytes bs (card_data c), present := length bs = MEMCARD_SIZE\<rparr>) s
      | None \<Rightarrow>
        let s = upd_card i (\<lambda>c. c\<lparr>card_data := memcard_format\<rparr>) s;
            (ok, h) = fs_write fs path (image (cards s i)) (host s)
        in upd_card i (\<lambda>c. c\<lparr>present := ok\<rparr>) (s\<lparr>host := h\<rparr>))"

definition init_slot ::
  "'h host_fs \<Rightarrow> string option \<Rightarrow> (nat \<Rightarrow> string option \<times> bool) option \<Rightarrow> nat \<Rightarrow> 'h card_sys \<Rightarrow> 'h card_sys" where
  "init_slot fs dir slots i s =
     (let enabled = (case slots of None \<Rightarrow> True | Some f \<Rightarrow> snd (f i));
          path = (case slots of None \<Rightarrow> None | Some f \<Rightarrow> fst (f i))
      in if \<not> enabled then s
         else case slot_path dir i path of None \<Rightarrow> s | Some p \<Rightarrow> open_card fs i p s)"

definition memcard_init_slots ::
  "'h host_fs \<Rightarrow> string option \<Rightarrow> (nat \<Rightarrow> string option \<times> bool) option \<Rightarrow> 'h card_sys \<Rightarrow> 'h card_sys" where
  "memcard_init_slots fs dir slots s =
     (let s = s\<lparr>cards := (\<lambda>_. empty_card), host := ensure_dir_opt fs dir (host s)\<rparr>
      in init_slot fs dir slots 1 (init_slot fs dir slots 0 s))"

definition memcard_init :: "'h host_fs \<Rightarrow> string option \<Rightarrow> 'h card_sys \<Rightarrow> 'h card_sys" where
  "memcard_init fs dir s = memcard_init_slots fs dir (Some (\<lambda>_. (None, True))) s"

definition memcard_format_file :: "'h host_fs \<Rightarrow> string option \<Rightarrow> 'h \<Rightarrow> bool \<times> 'h" where
  "memcard_format_file fs path h =
     (case path of None \<Rightarrow> (False, h)
      | Some p \<Rightarrow> if p = [] then (False, h) else fs_write fs p (map memcard_format [0..<MEMCARD_SIZE]) h)"

record card_summary =
  sum_exists :: bool
  sum_valid :: bool
  sum_used_blocks :: nat
  sum_total_blocks :: nat
  sum_block_used :: "bool list"
  sum_size_bytes :: nat

definition summary_of :: "u8 list \<Rightarrow> card_summary" where
  "summary_of bs =
     (let valid = (length bs = MEMCARD_SIZE \<and> bs ! 0 = 0x4D \<and> bs ! 1 = 0x43);
          used = (if valid then map (\<lambda>s. bs ! (s * 128) AND 0xF0 = 0x50) [1..<16] else replicate 15 False)
      in \<lparr>sum_exists = True, sum_valid = valid, sum_used_blocks = length (filter id used), sum_total_blocks = 15,
          sum_block_used = used, sum_size_bytes = length bs\<rparr>)"

definition memcard_summary_path :: "'h host_fs \<Rightarrow> string option \<Rightarrow> 'h \<Rightarrow> card_summary" where
  "memcard_summary_path fs path h =
     (let none = \<lparr>sum_exists = False, sum_valid = False, sum_used_blocks = 0, sum_total_blocks = 15,
                  sum_block_used = replicate 15 False, sum_size_bytes = 0\<rparr>
      in case path of None \<Rightarrow> none
      | Some p \<Rightarrow> if p = [] then none else (case fs_read fs p h of None \<Rightarrow> none | Some bs \<Rightarrow> summary_of bs))"

subsection \<open>Sectors\<close>

definition memcard_read_sector :: "int \<Rightarrow> int \<Rightarrow> 'h card_sys \<Rightarrow> u8 list option" where
  "memcard_read_sector slot sector s =
     (if slot < 0 \<or> slot \<ge> MAX_CARDS then None
      else if \<not> present (cards s (nat slot)) then None
      else if sector < 0 \<or> sector \<ge> MEMCARD_SECTORS then None
      else Some (map (\<lambda>i. card_data (cards s (nat slot)) (nat sector * MEMCARD_SECTOR_SIZE + i)) [0..<MEMCARD_SECTOR_SIZE]))"

definition memcard_write_sector :: "int \<Rightarrow> int \<Rightarrow> (nat \<Rightarrow> u8) \<Rightarrow> 'h card_sys \<Rightarrow> bool \<times> 'h card_sys" where
  "memcard_write_sector slot sector buf s =
     (if slot < 0 \<or> slot \<ge> MAX_CARDS then (False, s)
      else if \<not> present (cards s (nat slot)) then (False, s)
      else if sector < 0 \<or> sector \<ge> MEMCARD_SECTORS then (False, s)
      else (True, upd_card (nat slot) (\<lambda>c. c\<lparr>card_data :=
             (let off = nat sector * MEMCARD_SECTOR_SIZE
              in (\<lambda>i. if off \<le> i \<and> i < off + MEMCARD_SECTOR_SIZE then buf (i - off) else card_data c i)),
             dirty := True\<rparr>) s))"

definition memcard_flush :: "'h host_fs \<Rightarrow> int \<Rightarrow> 'h card_sys \<Rightarrow> 'h card_sys" where
  "memcard_flush fs slot s =
     (if slot < 0 \<or> slot \<ge> MAX_CARDS then s
      else let c = cards s (nat slot) in
      if \<not> dirty c then s
      else if filepath c = [] then s
      else let (ok, h) = fs_write fs (filepath c) (image c) (host s)
           in (if ok then upd_card (nat slot) (\<lambda>c. c\<lparr>dirty := False\<rparr>) else id) (s\<lparr>host := h\<rparr>))"

definition memcard_flush_all :: "'h host_fs \<Rightarrow> 'h card_sys \<Rightarrow> 'h card_sys" where
  "memcard_flush_all fs s = memcard_flush fs 1 (memcard_flush fs 0 s)"

definition memcard_is_present :: "int \<Rightarrow> 'h card_sys \<Rightarrow> bool" where
  "memcard_is_present slot s = (if slot < 0 \<or> slot \<ge> MAX_CARDS then False else present (cards s (nat slot)))"

definition memcard_debug_info :: "int \<Rightarrow> 'h card_sys \<Rightarrow> (string \<times> u8 \<times> u8 \<times> bool \<times> bool) option" where
  "memcard_debug_info slot s =
     (if slot < 0 \<or> slot \<ge> MAX_CARDS then None
      else let c = cards s (nat slot)
           in Some (filepath c, card_data c 0, card_data c 1, present c, dirty c))"

definition memcard_debug_read_buffer :: "int \<Rightarrow> u32 \<Rightarrow> u32 \<Rightarrow> 'h card_sys \<Rightarrow> u8 list" where
  "memcard_debug_read_buffer slot offset len s =
     (if slot < 0 \<or> slot \<ge> MAX_CARDS then []
      else if \<not> present (cards s (nat slot)) then []
      else if len = 0 then []
      else if offset \<ge> of_nat MEMCARD_SIZE then []
      else let avail = of_nat MEMCARD_SIZE - offset;
               len = (if len > avail then avail else len)
           in map (\<lambda>i. card_data (cards s (nat slot)) (unat offset + i)) [0..<unat len])"

definition memcard_export_raw :: "int \<Rightarrow> 'h card_sys \<Rightarrow> u8 list option" where
  "memcard_export_raw slot s =
     (if slot < 0 \<or> slot \<ge> MAX_CARDS then None
      else if \<not> present (cards s (nat slot)) then None
      else Some (image (cards s (nat slot))))"

definition memcard_import_raw :: "'h host_fs \<Rightarrow> int \<Rightarrow> u8 list \<Rightarrow> 'h card_sys \<Rightarrow> bool \<times> 'h card_sys" where
  "memcard_import_raw fs slot src s =
     (if slot < 0 \<or> slot \<ge> MAX_CARDS then (False, s)
      else if filepath (cards s (nat slot)) = [] then (False, s)
      else (True, memcard_flush fs slot
             (upd_card (nat slot) (\<lambda>c. c\<lparr>card_data := load_bytes (take MEMCARD_SIZE src) (card_data c),
                                        present := True, dirty := True\<rparr>) s)))"

definition rebind_slot :: "'h host_fs \<Rightarrow> string \<Rightarrow> nat \<Rightarrow> 'h card_sys \<Rightarrow> 'h card_sys" where
  "rebind_slot fs dir i s =
     (if \<not> present (cards s i) \<and> filepath (cards s i) = [] then s
      else memcard_flush fs (int i) (upd_card i (\<lambda>c. c\<lparr>filepath := card_file dir i, dirty := True\<rparr>) s))"

definition memcard_rebind_dir :: "'h host_fs \<Rightarrow> string option \<Rightarrow> 'h card_sys \<Rightarrow> bool \<times> 'h card_sys" where
  "memcard_rebind_dir fs dir s =
     (case dir of None \<Rightarrow> (False, s)
      | Some d \<Rightarrow> if d = [] then (False, s)
          else (True, rebind_slot fs d 1 (rebind_slot fs d 0 (s\<lparr>host := fs_ensure_dir fs d (host s)\<rparr>))))"

definition rebind_path :: "nat \<Rightarrow> string option \<Rightarrow> 'h card_sys \<Rightarrow> 'h card_sys" where
  "rebind_path i path s =
     (case path of None \<Rightarrow> s | Some p \<Rightarrow> if p = [] then s else upd_card i (\<lambda>c. c\<lparr>filepath := cut_path p\<rparr>) s)"

definition memcard_rebind_paths :: "string option \<Rightarrow> string option \<Rightarrow> 'h card_sys \<Rightarrow> 'h card_sys" where
  "memcard_rebind_paths path0 path1 s = rebind_path 1 path1 (rebind_path 0 path0 s)"

definition reload_slot :: "'h host_fs \<Rightarrow> nat \<Rightarrow> 'h card_sys \<Rightarrow> 'h card_sys" where
  "reload_slot fs i s =
     (let gone = upd_card i (\<lambda>c. c\<lparr>present := False, dirty := False\<rparr>) s in
      if filepath (cards s i) = [] then gone
      else case fs_read fs (filepath (cards s i)) (host s) of
        None \<Rightarrow> gone
      | Some bs \<Rightarrow> upd_card i (\<lambda>c. c\<lparr>card_data := load_bytes bs (card_data c),
                                   present := length bs = MEMCARD_SIZE, dirty := False\<rparr>) s)"

definition memcard_reload_bound :: "'h host_fs \<Rightarrow> 'h card_sys \<Rightarrow> 'h card_sys" where
  "memcard_reload_bound fs s = reload_slot fs 1 (reload_slot fs 0 s)"

subsection \<open>The blank card's frames\<close>

text \<open>Formatting a frame writes that frame only, with bytes that do not depend on the card.\<close>

definition frames_only :: "((nat \<Rightarrow> u8) \<Rightarrow> nat \<Rightarrow> nat \<Rightarrow> u8) \<Rightarrow> (nat \<Rightarrow> u8) \<Rightarrow> bool" where
  "frames_only F g \<longleftrightarrow> (\<forall>d f i. F d f i = (if i div 128 = f then g (i mod 128) else d i))"

lemma foldl_frames:
  "frames_only F g \<Longrightarrow> foldl F d fs i = (if i div 128 \<in> set fs then g (i mod 128) else d i)"
  by (induction fs arbitrary: d) (auto simp: frames_only_def)

definition header_frame :: "nat \<Rightarrow> u8" where
  "header_frame j = (if j = 0 then 0x4D else if j = 1 then 0x43 else if j = 127 then 0x0E else 0)"

definition directory_frame :: "nat \<Rightarrow> u8" where
  "directory_frame j = (if j = 0 then 0xA0 else if j = 8 \<or> j = 9 then 0xFF else if j = 127 then 0xA0 else 0)"

definition broken_frame :: "nat \<Rightarrow> u8" where
  "broken_frame j = (if j < 4 \<or> j = 8 \<or> j = 9 then 0xFF else 0)"

lemma frame_checksum_at:
  assumes "\<And>j. j < 127 \<Longrightarrow> d (off + j) = g j"
  shows "frame_checksum d off = foldl (\<lambda>x j. x XOR g j) 0 [0..<127]"
proof -
  have "foldl (\<lambda>x i. x XOR d (off + i)) v is = foldl (\<lambda>x j. x XOR g j) v is" if "set is \<subseteq> {..<127}" for v "is"
    using that assms by (induction "is" arbitrary: v) auto
  from this [of "[0..<127]" 0] show ?thesis unfolding frame_checksum_def by (simp add: atLeast0LessThan)
qed

lemma frame_sums:
  "foldl (\<lambda>x j. x XOR header_frame j) 0 [0..<127] = 0x0E"
  "foldl (\<lambda>x j. x XOR directory_frame j) 0 [0..<127] = 0xA0"
  "foldl (\<lambda>x j. x XOR broken_frame j) 0 [0..<127] = 0"
  by code_simp+

lemma div_128: "i div 128 = f \<longleftrightarrow> f * 128 \<le> i \<and> i < f * 128 + 128" for i f :: nat
  by auto

lemma frame_index: "f * 128 \<le> i \<Longrightarrow> i < f * 128 + 128 \<Longrightarrow> i mod 128 = i - f * 128" for i f :: nat
  by (metis div_128 minus_div_mult_eq_mod)

lemma frames_onlyI:
  assumes "\<And>d f j. j < 128 \<Longrightarrow> F d f (f * 128 + j) = g j"
    and "\<And>d f i. i < f * 128 \<or> f * 128 + 128 \<le> i \<Longrightarrow> F d f i = d i"
  shows "frames_only F g"
  unfolding frames_only_def
proof (intro allI)
  fix d f i
  show "F d f i = (if i div 128 = f then g (i mod 128) else d i)"
  proof (cases "i div 128 = f")
    case True
    have "F d f (f * 128 + i mod 128) = g (i mod 128)" by (rule assms(1)) simp
    then show ?thesis using True by auto
  next
    case False
    then show ?thesis using assms(2) [of i f d] unfolding div_128 by auto
  qed
qed

lemma directory_frames: "frames_only format_directory directory_frame"
proof (rule frames_onlyI)
  fix d :: "nat \<Rightarrow> u8" and f j :: nat
  let ?e = "(memset_at (f * 128) 128 0 d)(f * 128 + 0 := 0xA0, f * 128 + 8 := 0xFF, f * 128 + 9 := 0xFF)"
  have e: "?e (f * 128 + k) = directory_frame k" if "k < 127" for k
    using that by (simp add: memset_at_def directory_frame_def)
  have "frame_checksum ?e (f * 128) = 0xA0"
    by (rule trans [OF frame_checksum_at frame_sums(2)]) (rule e)
  then show "format_directory d f (f * 128 + j) = directory_frame j" if "j < 128"
    using that e [of j] by (auto simp: format_directory_def seal_frame_def Let_def directory_frame_def)
  show "format_directory d f i = d i" if "i < f * 128 \<or> f * 128 + 128 \<le> i" for i
    using that by (auto simp: format_directory_def seal_frame_def Let_def memset_at_def)
qed

lemma broken_frames: "frames_only format_broken broken_frame"
proof (rule frames_onlyI)
  fix d :: "nat \<Rightarrow> u8" and f j :: nat
  let ?e = "(memset_at (f * 128) 128 0 d)(f * 128 + 0 := 0xFF, f * 128 + 1 := 0xFF, f * 128 + 2 := 0xFF,
    f * 128 + 3 := 0xFF, f * 128 + 8 := 0xFF, f * 128 + 9 := 0xFF)"
  have e: "?e (f * 128 + k) = broken_frame k" if "k < 127" for k
    using that by (auto simp: memset_at_def broken_frame_def)
  have "frame_checksum ?e (f * 128) = 0"
    by (rule trans [OF frame_checksum_at frame_sums(3)]) (rule e)
  then show "format_broken d f (f * 128 + j) = broken_frame j" if "j < 128"
    using that e [of j] by (auto simp: format_broken_def seal_frame_def Let_def broken_frame_def)
  show "format_broken d f i = d i" if "i < f * 128 \<or> f * 128 + 128 \<le> i" for i
    using that by (auto simp: format_broken_def seal_frame_def Let_def memset_at_def)
qed

lemma header_bytes: "format_header d i = (if i < 128 then header_frame i else d i)"
proof -
  let ?e = "(memset_at 0 128 0 d)(0 := 0x4D, 1 := 0x43)"
  have e: "?e (0 + k) = header_frame k" if "k < 127" for k
    using that by (simp add: memset_at_def header_frame_def)
  have "frame_checksum ?e 0 = 0x0E" by (rule trans [OF frame_checksum_at frame_sums(1)]) (rule e)
  then show ?thesis using e [of i] by (auto simp: format_header_def seal_frame_def header_frame_def memset_at_def)
qed

lemma zero_frames: "frames_only (\<lambda>d s. memset_at (s * 128) 128 0 d) (\<lambda>_. 0)"
  by (rule frames_onlyI) (auto simp: memset_at_def)

text \<open>The blank card, byte by byte.\<close>

lemma format_bytes:
  "memcard_format i =
     (if i < 128 then header_frame i else if i < 16 * 128 then directory_frame (i mod 128)
      else if i < 36 * 128 then broken_frame (i mod 128) else if i < 63 * 128 then 0
      else if i < 64 * 128 then header_frame (i - 63 * 128) else 0xFF)"
proof -
  have d: "i div 128 < n \<longleftrightarrow> i < n * 128" "n \<le> i div 128 \<longleftrightarrow> n * 128 \<le> i" for n i :: nat
    by (simp_all add: div_less_iff_less_mult less_eq_div_iff_mult_less_eq)
  have all: "foldl (\<lambda>d s. memset_at (s * 128) 128 0 d) (foldl format_broken (foldl format_directory (format_header (\<lambda>_. 0xFF)) [1..<16]) [16..<36]) [36..<63] i
     = (if i < 128 then header_frame i else if i < 16 * 128 then directory_frame (i mod 128)
      else if i < 36 * 128 then broken_frame (i mod 128) else if i < 63 * 128 then 0 else 0xFF)" for i
    unfolding foldl_frames [OF directory_frames] foldl_frames [OF broken_frames] foldl_frames [OF zero_frames] header_bytes set_upt
      atLeastLessThan_iff d by auto
  show ?thesis unfolding memcard_format_def Let_def all by auto
qed

definition frame_of :: "nat \<Rightarrow> nat \<Rightarrow> u8" where
  "frame_of f = (if f = 0 \<or> f = 63 then header_frame else if f < 16 then directory_frame
     else if f < 36 then broken_frame else (\<lambda>_. 0))"

lemma format_at:
  assumes "f < 64" "j < 128"
  shows "memcard_format (f * 128 + j) = frame_of f j"
proof -
  have "f = 0 \<or> 1 \<le> f \<and> f < 16 \<or> 16 \<le> f \<and> f < 36 \<or> 36 \<le> f \<and> f < 63 \<or> f = 63" using assms(1) by linarith
  then show ?thesis using assms(2) by (elim disjE) (simp_all add: format_bytes frame_of_def)
qed

lemma frame_of_sealed: "foldl (\<lambda>x j. x XOR frame_of f j) 0 [0..<127] = frame_of f 127"
proof -
  have "foldl (\<lambda>x j. x XOR 0) 0 [0..<127] = (0 :: u8)" by code_simp
  then show ?thesis unfolding frame_of_def
    by (simp split: if_split) (simp add: frame_sums header_frame_def [of 127] directory_frame_def [of 127] broken_frame_def [of 127])
qed

lemma format_summary:
  "summary_of (map memcard_format [0..<MEMCARD_SIZE]) =
     \<lparr>sum_exists = True, sum_valid = True, sum_used_blocks = 0, sum_total_blocks = 15,
      sum_block_used = replicate 15 False, sum_size_bytes = 131072\<rparr>"
proof -
  have n: "map memcard_format [0..<MEMCARD_SIZE] ! k = memcard_format k" if "k < MEMCARD_SIZE" for k
    using that by simp
  have hd: "memcard_format 0 = 0x4D" "memcard_format 1 = 0x43"
    by (subst format_bytes, simp add: header_frame_def)+
  have blk: "memcard_format (s * 128) = 0xA0" if "1 \<le> s" "s < 16" for s
    using format_at [of s 0] that by (simp add: frame_of_def directory_frame_def)
  have used: "map (\<lambda>s. map memcard_format [0..<MEMCARD_SIZE] ! (s * 128) AND 0xF0 = 0x50) [1..<16] = replicate 15 False"
  proof (rule nth_equalityI)
    fix k assume "k < length (map (\<lambda>s. map memcard_format [0..<MEMCARD_SIZE] ! (s * 128) AND 0xF0 = 0x50) [1..<16])"
    then have k: "k < 15" by simp
    have "map memcard_format [0..<MEMCARD_SIZE] ! ((1 + k) * 128) = 0xA0"
      using k n [of "(1 + k) * 128"] blk [of "1 + k"] by simp
    then show "map (\<lambda>s. map memcard_format [0..<MEMCARD_SIZE] ! (s * 128) AND 0xF0 = 0x50) [1..<16] ! k = replicate 15 False ! k"
      using k by simp
  qed simp
  show ?thesis unfolding summary_of_def Let_def used using n [of 0] n [of 1] by (simp add: hd hd(2) [unfolded One_nat_def])
qed

subsection \<open>Properties\<close>

text \<open>
  The card \<open>memcard_format\<close> makes is well formed: each of the 64 frames of block 0 ends in the XOR
  of its first 127 bytes, frame 63 repeats frame 0, every directory frame is free with no next block,
  and a file holding the image is reported as an existing, valid card of 15 blocks with none used.
\<close>

theorem blank_card_formatted:
  "(\<forall>f < 64. memcard_format (f * 128 + 127) = frame_checksum memcard_format (f * 128))
   \<and> (\<forall>j < 128. memcard_format (63 * 128 + j) = memcard_format j)
   \<and> (\<forall>f \<in> {1..15}. memcard_format (f * 128) = 0xA0 \<and> memcard_format (f * 128 + 8) = 0xFF \<and> memcard_format (f * 128 + 9) = 0xFF)
   \<and> summary_of (map memcard_format [0..<MEMCARD_SIZE]) =
     \<lparr>sum_exists = True, sum_valid = True, sum_used_blocks = 0, sum_total_blocks = 15,
      sum_block_used = replicate 15 False, sum_size_bytes = 131072\<rparr>"
proof (intro conjI)
  show "\<forall>f < 64. memcard_format (f * 128 + 127) = frame_checksum memcard_format (f * 128)"
  proof (intro allI impI)
    fix f :: nat assume "f < 64"
    then have "frame_checksum memcard_format (f * 128) = foldl (\<lambda>x j. x XOR frame_of f j) 0 [0..<127]"
      by (intro frame_checksum_at format_at) simp_all
    then show "memcard_format (f * 128 + 127) = frame_checksum memcard_format (f * 128)"
      using format_at [of f 127] \<open>f < 64\<close> by (simp add: frame_of_sealed)
  qed
  show "\<forall>j < 128. memcard_format (63 * 128 + j) = memcard_format j"
    using format_at [of 63] format_at [of 0] by (auto simp: frame_of_def)
  show "\<forall>f \<in> {1..15}. memcard_format (f * 128) = 0xA0 \<and> memcard_format (f * 128 + 8) = 0xFF \<and> memcard_format (f * 128 + 9) = 0xFF"
    using format_at [of _ 0] format_at [of _ 8] format_at [of _ 9] by (auto simp: frame_of_def directory_frame_def)
qed (rule format_summary)

theorem blank_card_formatted_witness:
  "memcard_format (5 * 128 + 127) = frame_checksum memcard_format (5 * 128) \<and> memcard_format (63 * 128 + 1) = memcard_format 1
   \<and> memcard_format (7 * 128) = 0xA0"
proof -
  have "memcard_format (5 * 128 + 127) = frame_checksum memcard_format (5 * 128)"
    using conjunct1 [OF blank_card_formatted, rule_format, of 5] by simp
  moreover have "memcard_format (63 * 128 + 1) = memcard_format 1"
    using conjunct1 [OF conjunct2 [OF blank_card_formatted], rule_format, of 1] by simp
  moreover have "memcard_format (7 * 128) = 0xA0"
    using blank_card_formatted by fastforce
  ultimately show ?thesis by blast
qed

text \<open>
  What a file system owes the card: a file that was written reads back as what was written, and
  writing one file leaves the others.
\<close>

definition fs_ok :: "'h host_fs \<Rightarrow> bool" where
  "fs_ok fs \<longleftrightarrow> (\<forall>p bs h h'. fs_write fs p bs h = (True, h') \<longrightarrow> fs_read fs p h' = Some bs)
     \<and> (\<forall>p q bs h. p \<noteq> q \<longrightarrow> fs_read fs q (snd (fs_write fs p bs h)) = fs_read fs q h)"

lemma flush_other: "nat slot \<noteq> i \<or> slot < 0 \<Longrightarrow> cards (memcard_flush fs slot s) i = cards s i"
  by (auto simp: memcard_flush_def Let_def upd_card_def split_beta)

lemma flush_fields [simp]:
  "card_data (cards (memcard_flush fs slot s) i) = card_data (cards s i)"
  "present (cards (memcard_flush fs slot s) i) = present (cards s i)"
  "filepath (cards (memcard_flush fs slot s) i) = filepath (cards s i)"
  by (simp_all add: memcard_flush_def Let_def upd_card_def split_beta)

lemma flush_writes:
  assumes "fs_ok fs" "slot = 0 \<or> slot = 1" "dirty (cards s (nat slot))" "filepath (cards s (nat slot)) \<noteq> []"
    and "\<not> dirty (cards (memcard_flush fs slot s) (nat slot))"
  shows "fs_read fs (filepath (cards s (nat slot))) (host (memcard_flush fs slot s)) = Some (image (cards s (nat slot)))"
proof -
  obtain ok h where w: "fs_write fs (filepath (cards s (nat slot))) (image (cards s (nat slot))) (host s) = (ok, h)"
    by fastforce
  then have ok using assms(2-5) by (cases ok) (auto simp: memcard_flush_def Let_def)
  then show ?thesis using assms(1-4) w by (auto simp: memcard_flush_def Let_def fs_ok_def upd_card_def)
qed

lemma flush_other_file:
  assumes "fs_ok fs" "filepath (cards s (nat slot)) \<noteq> q"
  shows "fs_read fs q (host (memcard_flush fs slot s)) = fs_read fs q (host s)"
  using assms by (auto simp: memcard_flush_def Let_def fs_ok_def upd_card_def split_beta)

text \<open>Flushing both cards writes a dirty card's image to its file.\<close>

lemma flush_all_writes:
  assumes fs: "fs_ok fs" and i: "i < 2" and paths: "filepath (cards s 0) \<noteq> filepath (cards s 1)"
    and s: "dirty (cards s i)" "filepath (cards s i) \<noteq> []" "\<not> dirty (cards (memcard_flush_all fs s) i)"
  shows "fs_read fs (filepath (cards s i)) (host (memcard_flush_all fs s)) = Some (image (cards s i))"
proof -
  let ?t = "memcard_flush fs 0 s"
  have other: "cards ?t 1 = cards s 1" "cards (memcard_flush fs 1 ?t) 0 = cards ?t 0" by (simp_all add: flush_other)
  from i consider "i = 0" | "i = 1" by linarith
  then show ?thesis
  proof cases
    case 1
    then have "\<not> dirty (cards ?t 0)" using s(3) other by (simp add: memcard_flush_all_def)
    then have "fs_read fs (filepath (cards s 0)) (host ?t) = Some (image (cards s 0))"
      using flush_writes [OF fs, of 0 s] s 1 by simp
    then show ?thesis using flush_other_file [OF fs, of ?t 1 "filepath (cards s 0)"] paths 1
      by (simp add: memcard_flush_all_def)
  next
    case 2
    then show ?thesis using flush_writes [OF fs, of 1 ?t] s other by (simp add: memcard_flush_all_def)
  qed
qed

lemma reload_slot_read:
  assumes "filepath (cards s i) \<noteq> []" "fs_read fs (filepath (cards s i)) (host s) = Some bs" "length bs = MEMCARD_SIZE"
  shows "image (cards (reload_slot fs i s) i) = bs" "present (cards (reload_slot fs i s) i)" "\<not> dirty (cards (reload_slot fs i s) i)"
  using assms by (auto simp: reload_slot_def upd_card_def image_def load_bytes_def Let_def intro: nth_equalityI)

lemma reload_slot_other: "j \<noteq> i \<Longrightarrow> cards (reload_slot fs i s) j = cards s j" "host (reload_slot fs i s) = host s"
  by (simp_all add: reload_slot_def upd_card_def Let_def split: option.split)

text \<open>
  C39. A saved card comes back: after \<open>memcard_flush_all\<close> a dirty card that is bound to a file and is
  clean now is restored by \<open>memcard_reload_bound\<close> to exactly the bytes it had, present and clean,
  whatever happened to the images and flags of both cards in memory in between; the two cards must be
  bound to different files and the file system must give back what was written.
\<close>

theorem saved_card_reloads:
  assumes "fs_ok fs" "i < 2" "filepath (cards s 0) \<noteq> filepath (cards s 1)"
    and "dirty (cards s i)" "filepath (cards s i) \<noteq> []" "\<not> dirty (cards (memcard_flush_all fs s) i)"
    and "\<forall>j. filepath (junk j) = filepath (cards s j)"
  defines "u \<equiv> memcard_reload_bound fs ((memcard_flush_all fs s)\<lparr>cards := junk\<rparr>)"
  shows "image (cards u i) = image (cards s i) \<and> present (cards u i) \<and> \<not> dirty (cards u i)"
proof -
  define t where "t = (memcard_flush_all fs s)\<lparr>cards := junk\<rparr>"
  have path: "filepath (cards t i) = filepath (cards s i)" using assms(7) by (simp add: t_def)
  have saved: "fs_read fs (filepath (cards t i)) (host t) = Some (image (cards s i))"
    unfolding path using flush_all_writes [OF assms(1-6)] by (simp add: t_def)
  have u: "u = reload_slot fs 1 (reload_slot fs 0 t)" by (simp add: u_def t_def memcard_reload_bound_def)
  have len: "length (image (cards s i)) = MEMCARD_SIZE" by (simp add: image_def)
  from assms(2) consider "i = 0" | "i = 1" by linarith
  then show ?thesis
  proof cases
    case 1
    then show ?thesis using reload_slot_read [OF _ saved len] assms(5) path by (simp add: u reload_slot_other)
  next
    case 2
    then show ?thesis using reload_slot_read [of "reload_slot fs 0 t" 1 fs, OF _ _ len] saved assms(5) path
      by (simp add: u reload_slot_other)
  qed
qed

definition map_fs :: "(string \<rightharpoonup> u8 list) host_fs" where
  "map_fs = \<lparr>fs_read = (\<lambda>p h. h p), fs_write = (\<lambda>p bs h. (True, h(p \<mapsto> bs))), fs_ensure_dir = (\<lambda>_ h. h)\<rparr>"

definition new_cards :: "(string \<rightharpoonup> u8 list) card_sys" where
  "new_cards = \<lparr>cards = (\<lambda>i. \<lparr>card_data = memcard_format, filepath = card_file ''saves'' i, present = True, dirty = True\<rparr>),
     host = Map.empty\<rparr>"

theorem saved_card_reloads_witness:
  "image (cards (memcard_reload_bound map_fs ((memcard_flush_all map_fs new_cards)\<lparr>cards :=
       (\<lambda>i. empty_card\<lparr>filepath := card_file ''saves'' i\<rparr>)\<rparr>)) 1) = map memcard_format [0..<MEMCARD_SIZE]"
proof -
  have "fs_ok map_fs" by (simp add: fs_ok_def map_fs_def)
  moreover have "\<not> dirty (cards (memcard_flush_all map_fs new_cards) 1)"
    by (simp add: memcard_flush_all_def memcard_flush_def map_fs_def new_cards_def upd_card_def Let_def card_file_def cut_path_def)
  ultimately show ?thesis
    using saved_card_reloads [of map_fs 1 new_cards "\<lambda>i. empty_card\<lparr>filepath := card_file ''saves'' i\<rparr>"]
    by (simp add: new_cards_def card_file_def cut_path_def image_def)
qed
end
