(* ===== verification/CardBus.thy ===== *)
theory CardBus
  imports MemCard
begin

unbundle bit_operations_syntax

section \<open>The memory card on the serial bus: sio.c, \<open>mc_process_byte\<close>\<close>

text \<open>
  A card exchanges one byte for one byte. The working variables \<open>mc_state\<close> to \<open>mc_flag\<close> are one
  record, which is also what \<open>mc_slots\<close> keeps per slot (\<open>McSlotState\<close>); the buffer is a function of
  the index, and a bound shows it is only used below 128. The status word and the receive register are
  \<open>bus_lines\<close>. The counters and the summary that only the debug views read are left out.
\<close>

subsection \<open>The bus lines\<close>

record bus_lines =
  rx_data :: u8
  stat :: u16

abbreviation SIO_STAT_TX_RDY :: u16 where "SIO_STAT_TX_RDY \<equiv> 0x1"
abbreviation SIO_STAT_RX_RDY :: u16 where "SIO_STAT_RX_RDY \<equiv> 0x2"
abbreviation SIO_STAT_TX_EMPTY :: u16 where "SIO_STAT_TX_EMPTY \<equiv> 0x4"
abbreviation SIO_STAT_ACK :: u16 where "SIO_STAT_ACK \<equiv> 0x80"
abbreviation SIO_STAT_IRQ :: u16 where "SIO_STAT_IRQ \<equiv> 0x200"

definition put_rx :: "u8 \<Rightarrow> bus_lines \<Rightarrow> bus_lines" where
  "put_rx v l = l\<lparr>rx_data := v\<rparr>"

definition pull_ack :: "bus_lines \<Rightarrow> bus_lines" where
  "pull_ack l = l\<lparr>stat := stat l OR SIO_STAT_ACK\<rparr>"

definition byte_done :: "bus_lines \<Rightarrow> bus_lines" where
  "byte_done l = l\<lparr>stat := (stat l OR SIO_STAT_RX_RDY) OR (SIO_STAT_TX_RDY OR SIO_STAT_TX_EMPTY)\<rparr>"

subsection \<open>The protocol\<close>

datatype mc_state =
    MC_IDLE | MC_CMD | MC_ID1 | MC_ID2 | MC_ADDR_MSB | MC_ADDR_LSB
  | MC_READ_ACK1 | MC_READ_ACK2 | MC_READ_MSB_ECHO | MC_READ_LSB_ECHO | MC_READ_DATA | MC_READ_CHK | MC_READ_END
  | MC_WRITE_LSB_ECHO | MC_WRITE_DATA | MC_WRITE_CHK | MC_WRITE_ACK1 | MC_WRITE_ACK2 | MC_WRITE_END
  | MC_GETID_1 | MC_GETID_2 | MC_GETID_3 | MC_GETID_4

record mc_slot_state =
  mc_state :: mc_state
  mc_cmd :: u8
  mc_sector :: u16
  mc_sector_msb :: u8
  mc_sector_lsb :: u8
  mc_data :: "nat \<Rightarrow> u8"
  mc_data_idx :: nat
  mc_checksum :: u8
  mc_flag :: u8

record 'h card_bus =
  mc :: mc_slot_state
  mc_slot :: int
  lines :: bus_lines
  store :: "'h card_sys"

definition upd_mc :: "(mc_slot_state \<Rightarrow> mc_slot_state) \<Rightarrow> 'h card_bus \<Rightarrow> 'h card_bus" where
  "upd_mc f s = s\<lparr>mc := f (mc s)\<rparr>"

text \<open>Answering a byte and moving on, with or without pulling the acknowledge line.\<close>

definition reply :: "u8 \<Rightarrow> mc_state \<Rightarrow> 'h card_bus \<Rightarrow> 'h card_bus" where
  "reply v st s = s\<lparr>mc := (mc s)\<lparr>mc_state := st\<rparr>, lines := pull_ack (put_rx v (lines s))\<rparr>"

definition reply_last :: "u8 \<Rightarrow> 'h card_bus \<Rightarrow> 'h card_bus" where
  "reply_last v s = s\<lparr>mc := (mc s)\<lparr>mc_state := MC_IDLE\<rparr>, lines := put_rx v (lines s)\<rparr>"

definition xor_data :: "u8 \<Rightarrow> (nat \<Rightarrow> u8) \<Rightarrow> u8" where
  "xor_data v d = foldl (\<lambda>x i. x XOR d i) v [0..<128]"

definition sector_of :: "u8 \<Rightarrow> u8 \<Rightarrow> u16" where
  "sector_of msb lsb = push_bit 8 (ucast msb) OR ucast lsb"

definition mc_idle :: "int \<Rightarrow> 'h card_bus \<Rightarrow> 'h card_bus" where
  "mc_idle selected s =
     (let s = s\<lparr>mc_slot := selected\<rparr> in
      if memcard_is_present selected (store s) then reply 0xFF MC_CMD s
      else s\<lparr>lines := put_rx 0xFF (lines s)\<rparr>)"

definition mc_command :: "u8 \<Rightarrow> 'h card_bus \<Rightarrow> 'h card_bus" where
  "mc_command tx s =
     (let s = upd_mc (\<lambda>m. m\<lparr>mc_cmd := tx\<rparr>) s in
      if tx = 0x52 \<or> tx = 0x57 \<or> tx = 0x53
      then upd_mc (\<lambda>m. m\<lparr>mc_flag := 0\<rparr>) (reply (mc_flag (mc s)) MC_ID1 s)
      else reply_last 0xFF s)"

definition load_sector :: "'h card_bus \<Rightarrow> nat \<Rightarrow> u8" where
  "load_sector s =
     (if uint (mc_sector (mc s)) < MEMCARD_SECTORS
      then (case memcard_read_sector (mc_slot s) (uint (mc_sector (mc s))) (store s) of
          None \<Rightarrow> mc_data (mc s)
        | Some bs \<Rightarrow> load_bytes bs (mc_data (mc s)))
      else (\<lambda>i. if i < 128 then 0xFF else mc_data (mc s) i))"

definition mc_addr_lsb :: "u8 \<Rightarrow> 'h card_bus \<Rightarrow> 'h card_bus" where
  "mc_addr_lsb tx s =
     (let s = upd_mc (\<lambda>m. m\<lparr>mc_sector_lsb := tx, mc_sector := sector_of (mc_sector_msb m) tx\<rparr>) s in
      if mc_cmd (mc s) = 0x52
      then let d = load_sector s;
               s = upd_mc (\<lambda>m. m\<lparr>mc_data := d, mc_data_idx := 0,
                                 mc_checksum := xor_data (mc_sector_msb m XOR mc_sector_lsb m) d\<rparr>) s
           in reply 0x00 MC_READ_ACK1 s
      else reply (mc_sector_msb (mc s)) MC_WRITE_LSB_ECHO (upd_mc (\<lambda>m. m\<lparr>mc_data_idx := 0\<rparr>) s))"

definition mc_read_data :: "'h card_bus \<Rightarrow> 'h card_bus" where
  "mc_read_data s =
     (let i = mc_data_idx (mc s)
      in reply (mc_data (mc s) i) (if i + 1 \<ge> 128 then MC_READ_CHK else MC_READ_DATA)
           (upd_mc (\<lambda>m. m\<lparr>mc_data_idx := i + 1\<rparr>) s))"

definition take_byte :: "u8 \<Rightarrow> 'h card_bus \<Rightarrow> 'h card_bus" where
  "take_byte tx s = upd_mc (\<lambda>m. m\<lparr>mc_data := (mc_data m)(mc_data_idx m := tx), mc_data_idx := mc_data_idx m + 1\<rparr>) s"

definition mc_write_data :: "u8 \<Rightarrow> 'h card_bus \<Rightarrow> 'h card_bus" where
  "mc_write_data tx s =
     (let s = take_byte tx s
      in reply 0x00 (if mc_data_idx (mc s) \<ge> 128 then MC_WRITE_CHK else MC_WRITE_DATA) s)"

definition mc_write_chk :: "'h host_fs \<Rightarrow> u8 \<Rightarrow> 'h card_bus \<Rightarrow> 'h card_bus" where
  "mc_write_chk fs tx s =
     (let m = mc s;
          expected = xor_data (mc_sector_msb m XOR mc_sector_lsb m) (mc_data m);
          s = reply 0x00 MC_WRITE_ACK1 s;
          sector = uint (mc_sector m)
      in if tx = expected \<and> sector < MEMCARD_SECTORS
         then upd_mc (\<lambda>m. m\<lparr>mc_checksum := 0x47\<rparr>)
           (s\<lparr>store := memcard_flush fs (mc_slot s) (snd (memcard_write_sector (mc_slot s) sector (mc_data m) (store s)))\<rparr>)
         else if sector \<ge> MEMCARD_SECTORS then upd_mc (\<lambda>m. m\<lparr>mc_checksum := 0xFF\<rparr>) s
         else upd_mc (\<lambda>m. m\<lparr>mc_checksum := 0x4E\<rparr>) s)"

definition mc_step :: "'h host_fs \<Rightarrow> int \<Rightarrow> u8 \<Rightarrow> 'h card_bus \<Rightarrow> 'h card_bus" where
  "mc_step fs selected tx s =
     (case mc_state (mc s) of
        MC_IDLE \<Rightarrow> mc_idle selected s
      | MC_CMD \<Rightarrow> mc_command tx s
      | MC_ID1 \<Rightarrow> reply 0x5A MC_ID2 s
      | MC_ID2 \<Rightarrow> if mc_cmd (mc s) = 0x53 then reply 0x5D MC_GETID_1 s else reply 0x5D MC_ADDR_MSB s
      | MC_GETID_1 \<Rightarrow> reply 0x04 MC_GETID_2 s
      | MC_GETID_2 \<Rightarrow> reply 0x00 MC_GETID_3 s
      | MC_GETID_3 \<Rightarrow> reply 0x00 MC_GETID_4 s
      | MC_GETID_4 \<Rightarrow> reply_last 0x80 s
      | MC_ADDR_MSB \<Rightarrow> reply 0x00 MC_ADDR_LSB (upd_mc (\<lambda>m. m\<lparr>mc_sector_msb := tx\<rparr>) s)
      | MC_ADDR_LSB \<Rightarrow> mc_addr_lsb tx s
      | MC_READ_ACK1 \<Rightarrow> reply 0x5C MC_READ_ACK2 s
      | MC_READ_ACK2 \<Rightarrow> reply 0x5D MC_READ_MSB_ECHO s
      | MC_READ_MSB_ECHO \<Rightarrow> reply (mc_sector_msb (mc s)) MC_READ_LSB_ECHO s
      | MC_READ_LSB_ECHO \<Rightarrow> reply (mc_sector_lsb (mc s)) MC_READ_DATA (upd_mc (\<lambda>m. m\<lparr>mc_data_idx := 0\<rparr>) s)
      | MC_READ_DATA \<Rightarrow> mc_read_data s
      | MC_READ_CHK \<Rightarrow> reply (mc_checksum (mc s)) MC_READ_END s
      | MC_READ_END \<Rightarrow> reply_last (if uint (mc_sector (mc s)) < MEMCARD_SECTORS then 0x47 else 0xFF) s
      | MC_WRITE_LSB_ECHO \<Rightarrow> reply (mc_sector_lsb (mc s)) MC_WRITE_DATA (take_byte tx s)
      | MC_WRITE_DATA \<Rightarrow> mc_write_data tx s
      | MC_WRITE_CHK \<Rightarrow> mc_write_chk fs tx s
      | MC_WRITE_ACK1 \<Rightarrow> reply 0x5C MC_WRITE_ACK2 s
      | MC_WRITE_ACK2 \<Rightarrow> reply 0x5D MC_WRITE_END s
      | MC_WRITE_END \<Rightarrow> upd_mc (\<lambda>m. m\<lparr>mc_flag := 0\<rparr>) (reply_last (mc_checksum (mc s)) s))"

definition mc_process_byte :: "'h host_fs \<Rightarrow> int \<Rightarrow> u8 \<Rightarrow> 'h card_bus \<Rightarrow> 'h card_bus" where
  "mc_process_byte fs selected tx s =
     (let s = mc_step fs selected tx s in s\<lparr>lines := byte_done (lines s)\<rparr>)"

subsection \<open>Exchanges\<close>

text \<open>
  The controller's side of a byte: the answer and whether the acknowledge line was pulled, which it
  consumes (\<open>sio_consume_ack_event\<close>).
\<close>

definition exchange :: "'h host_fs \<Rightarrow> int \<Rightarrow> u8 \<Rightarrow> 'h card_bus \<Rightarrow> (u8 \<times> bool) \<times> 'h card_bus" where
  "exchange fs selected tx s =
     (let s = mc_process_byte fs selected tx s;
          acked = stat (lines s) AND SIO_STAT_ACK \<noteq> 0
      in ((rx_data (lines s), acked), s\<lparr>lines := (lines s)\<lparr>stat := stat (lines s) AND NOT SIO_STAT_ACK\<rparr>\<rparr>))"

fun exchanges :: "'h host_fs \<Rightarrow> int \<Rightarrow> u8 list \<Rightarrow> 'h card_bus \<Rightarrow> (u8 \<times> bool) list \<times> 'h card_bus" where
  "exchanges fs selected [] s = ([], s)"
| "exchanges fs selected (tx # txs) s =
     (let (r, s) = exchange fs selected tx s; (rs, s) = exchanges fs selected txs s in (r # rs, s))"

subsection \<open>One exchange in each state\<close>

lemma u16_bits:
  "bit (0x7 :: u16) n \<longleftrightarrow> n < 3" "bit (0x80 :: u16) n \<longleftrightarrow> n = 7" "bit (0x2 :: u16) n \<longleftrightarrow> n = 1"
  "bit (0x5 :: u16) n \<longleftrightarrow> n = 0 \<or> n = 2" "bit (- 129 :: u16) n \<longleftrightarrow> n < 16 \<and> n \<noteq> 7"
proof -
  have one: "bit (push_bit k 1 :: u16) n \<longleftrightarrow> n = k" if "k < 16" for k
    using that by (simp only: bit_push_bit_iff) (auto simp: bit_1_iff)
  have e: "(0x7 :: u16) = mask 3" "(0x80 :: u16) = push_bit 7 1" "(0x2 :: u16) = push_bit 1 1"
    "(0x5 :: u16) = push_bit 0 1 OR push_bit 2 1" "(- 129 :: u16) = NOT (push_bit 7 1)"
    by (simp_all add: mask_eq_exp_minus_1)
  have "bit (mask 3 :: u16) n \<longleftrightarrow> n < 3" by (simp only: bit_mask_iff) auto
  then show "bit (0x7 :: u16) n \<longleftrightarrow> n < 3" unfolding e .
  show "bit (0x80 :: u16) n \<longleftrightarrow> n = 7" unfolding e by (rule one) simp
  show "bit (0x2 :: u16) n \<longleftrightarrow> n = 1" unfolding e by (rule one) simp
  show "bit (0x5 :: u16) n \<longleftrightarrow> n = 0 \<or> n = 2" unfolding e bit_or_iff using one [of 0] one [of 2] by auto
  show "bit (- 129 :: u16) n \<longleftrightarrow> n < 16 \<and> n \<noteq> 7" unfolding e bit_not_iff using one [of 7] by auto
qed

definition settled :: "u16 \<Rightarrow> u16" where
  "settled w = (w OR 0x7) AND NOT SIO_STAT_ACK"

lemma settled_bits: "bit (settled w) n \<longleftrightarrow> (bit w n \<or> n < 3) \<and> n \<noteq> 7"
  unfolding settled_def bit_and_iff bit_or_iff bit_not_iff u16_bits by (auto dest: bit_imp_possible_bit)

text \<open>The state after an answer, seen from the controller.\<close>

definition after :: "u8 \<Rightarrow> mc_state \<Rightarrow> 'h card_bus \<Rightarrow> 'h card_bus" where
  "after v st s = s\<lparr>mc := (mc s)\<lparr>mc_state := st\<rparr>,
     lines := \<lparr>rx_data = v, stat = settled (stat (lines s))\<rparr>\<rparr>"

definition quiet :: "'h card_bus \<Rightarrow> bool" where
  "quiet s \<longleftrightarrow> \<not> bit (stat (lines s)) 7"

lemma after_fields [simp]:
  "mc (after v st s) = (mc s)\<lparr>mc_state := st\<rparr>" "mc_slot (after v st s) = mc_slot s"
  "store (after v st s) = store s" "quiet (after v st s)"
  by (simp_all add: after_def quiet_def settled_bits)

lemma upd_mc_fields [simp]:
  "mc (upd_mc f s) = f (mc s)" "mc_slot (upd_mc f s) = mc_slot s" "store (upd_mc f s) = store s"
  "lines (upd_mc f s) = lines s" "quiet (upd_mc f s) = quiet s"
  by (simp_all add: upd_mc_def quiet_def)

lemma upd_mc_after: "upd_mc f (after v st s) = (after v st s)\<lparr>mc := f ((mc s)\<lparr>mc_state := st\<rparr>)\<rparr>"
  by (simp add: upd_mc_def)

lemma bit7: "w AND 0x80 \<noteq> 0 \<longleftrightarrow> bit w 7" for w :: u16
  using and_exp_eq_0_iff_not_bit [of w 7] by simp

lemma byte_done_bits: "bit (stat (byte_done l)) n \<longleftrightarrow> bit (stat l) n \<or> n < 3"
  by (simp add: byte_done_def, simp only: bit_or_iff u16_bits) auto

lemma pull_ack_bits: "bit (stat (pull_ack l)) n \<longleftrightarrow> bit (stat l) n \<or> n = 7"
  by (simp add: pull_ack_def, simp only: bit_or_iff u16_bits)

lemma settle_done: "stat (byte_done l) AND - 129 = settled (stat l)"
  by (rule bit_word_eqI) (simp only: settled_bits byte_done_bits bit_and_iff u16_bits, auto)

lemma settled_pull: "settled (stat (pull_ack l)) = settled (stat l)"
  by (rule bit_word_eqI) (auto simp: settled_bits pull_ack_bits)

lemma lines_fields [simp]:
  "rx_data (byte_done l) = rx_data l" "rx_data (pull_ack l) = rx_data l" "rx_data (put_rx v l) = v"
  "stat (put_rx v l) = stat l"
  by (simp_all add: byte_done_def pull_ack_def put_rx_def)

lemma exchange_reply:
  "mc_step fs selected tx s = reply v st t \<Longrightarrow> exchange fs selected tx s = ((v, True), after v st t)"
  by (simp add: exchange_def mc_process_byte_def reply_def Let_def bit7 settle_done settled_pull
      byte_done_bits pull_ack_bits after_def)

lemma exchange_last:
  "mc_step fs selected tx s = reply_last v t \<Longrightarrow> quiet t \<Longrightarrow> exchange fs selected tx s = ((v, False), after v MC_IDLE t)"
  by (simp add: exchange_def mc_process_byte_def reply_last_def Let_def bit7 settle_done
      byte_done_bits after_def quiet_def)

text \<open>The exchange in each state a transfer goes through.\<close>

lemma exchange_rules:
  "mc_state (mc s) = MC_IDLE \<Longrightarrow> memcard_is_present selected (store s) \<Longrightarrow>
     exchange fs selected tx s = ((0xFF, True), after 0xFF MC_CMD (s\<lparr>mc_slot := selected\<rparr>))"
  "mc_state (mc s) = MC_ID1 \<Longrightarrow> exchange fs selected tx s = ((0x5A, True), after 0x5A MC_ID2 s)"
  "mc_state (mc s) = MC_ID2 \<Longrightarrow> mc_cmd (mc s) \<noteq> 0x53 \<Longrightarrow>
     exchange fs selected tx s = ((0x5D, True), after 0x5D MC_ADDR_MSB s)"
  "mc_state (mc s) = MC_ADDR_MSB \<Longrightarrow>
     exchange fs selected tx s = ((0x00, True), after 0x00 MC_ADDR_LSB (upd_mc (\<lambda>m. m\<lparr>mc_sector_msb := tx\<rparr>) s))"
  "mc_state (mc s) = MC_READ_ACK1 \<Longrightarrow> exchange fs selected tx s = ((0x5C, True), after 0x5C MC_READ_ACK2 s)"
  "mc_state (mc s) = MC_READ_ACK2 \<Longrightarrow> exchange fs selected tx s = ((0x5D, True), after 0x5D MC_READ_MSB_ECHO s)"
  "mc_state (mc s) = MC_READ_MSB_ECHO \<Longrightarrow> exchange fs selected tx s =
     ((mc_sector_msb (mc s), True), after (mc_sector_msb (mc s)) MC_READ_LSB_ECHO s)"
  "mc_state (mc s) = MC_READ_LSB_ECHO \<Longrightarrow> exchange fs selected tx s =
     ((mc_sector_lsb (mc s), True), after (mc_sector_lsb (mc s)) MC_READ_DATA (upd_mc (\<lambda>m. m\<lparr>mc_data_idx := 0\<rparr>) s))"
  "mc_state (mc s) = MC_READ_CHK \<Longrightarrow> exchange fs selected tx s =
     ((mc_checksum (mc s), True), after (mc_checksum (mc s)) MC_READ_END s)"
  "mc_state (mc s) = MC_WRITE_LSB_ECHO \<Longrightarrow> exchange fs selected tx s =
     ((mc_sector_lsb (mc s), True), after (mc_sector_lsb (mc s)) MC_WRITE_DATA (take_byte tx s))"
  "mc_state (mc s) = MC_WRITE_ACK1 \<Longrightarrow> exchange fs selected tx s = ((0x5C, True), after 0x5C MC_WRITE_ACK2 s)"
  "mc_state (mc s) = MC_WRITE_ACK2 \<Longrightarrow> exchange fs selected tx s = ((0x5D, True), after 0x5D MC_WRITE_END s)"
  by (rule exchange_reply, simp add: mc_step_def mc_idle_def)+

lemma exchange_read_end:
  "mc_state (mc s) = MC_READ_END \<Longrightarrow> quiet s \<Longrightarrow> uint (mc_sector (mc s)) < MEMCARD_SECTORS \<Longrightarrow>
   exchange fs selected tx s = ((0x47, False), after 0x47 MC_IDLE s)"
  by (rule exchange_last) (simp_all add: mc_step_def)

lemma exchange_command:
  assumes "mc_state (mc s) = MC_CMD" "tx = 0x52 \<or> tx = 0x57"
  shows "\<exists>t. exchange fs selected tx s = ((mc_flag (mc s), True), t) \<and> quiet t
    \<and> mc t = (mc s)\<lparr>mc_state := MC_ID1, mc_cmd := tx, mc_flag := 0\<rparr> \<and> mc_slot t = mc_slot s \<and> store t = store s"
proof -
  let ?s = "upd_mc (\<lambda>m. m\<lparr>mc_cmd := tx\<rparr>) s"
  have "mc_step fs selected tx s = reply (mc_flag (mc s)) MC_ID1 (upd_mc (\<lambda>m. m\<lparr>mc_flag := 0\<rparr>) ?s)"
    using assms by (auto simp: mc_step_def mc_command_def Let_def reply_def upd_mc_def)
  from exchange_reply [OF this] show ?thesis by simp
qed

lemma exchange_write_end:
  assumes "mc_state (mc s) = MC_WRITE_END" "quiet s"
  shows "\<exists>t. exchange fs selected tx s = ((mc_checksum (mc s), False), t) \<and> quiet t
    \<and> mc t = (mc s)\<lparr>mc_state := MC_IDLE, mc_flag := 0\<rparr> \<and> mc_slot t = mc_slot s \<and> store t = store s"
proof -
  have "mc_step fs selected tx s = reply_last (mc_checksum (mc s)) (upd_mc (\<lambda>m. m\<lparr>mc_flag := 0\<rparr>) s)"
    using assms by (simp add: mc_step_def reply_last_def upd_mc_def)
  from exchange_last [OF this] show ?thesis using assms(2) by simp
qed

lemma exchanges_append:
  "exchanges fs selected (xs @ ys) s =
    (let (rs, s) = exchanges fs selected xs s; (rs', s) = exchanges fs selected ys s in (rs @ rs', s))"
  by (induction xs arbitrary: s) (simp_all add: split_beta Let_def)

subsection \<open>Reading a sector\<close>

lemma read_data_loop:
  assumes "mc_state (mc s) = MC_READ_DATA" "mc_data_idx (mc s) + length txs = 128" "txs \<noteq> []"
  shows "\<exists>t. exchanges fs selected txs s = (map (\<lambda>j. (mc_data (mc s) j, True)) [mc_data_idx (mc s)..<128], t) \<and> quiet t
    \<and> mc t = (mc s)\<lparr>mc_state := MC_READ_CHK, mc_data_idx := 128\<rparr> \<and> mc_slot t = mc_slot s \<and> store t = store s"
  using assms
proof (induction txs arbitrary: s)
  case (Cons tx txs)
  let ?i = "mc_data_idx (mc s)"
  let ?st = "if ?i + 1 \<ge> 128 then MC_READ_CHK else MC_READ_DATA"
  let ?s = "after (mc_data (mc s) ?i) ?st (upd_mc (\<lambda>m. m\<lparr>mc_data_idx := ?i + 1\<rparr>) s)"
  have step: "exchange fs selected tx s = ((mc_data (mc s) ?i, True), ?s)"
    using Cons.prems(1) by (intro exchange_reply) (simp add: mc_step_def mc_read_data_def Let_def)
  have i: "[?i..<128] = ?i # [Suc ?i..<128]" using Cons.prems(2) by (simp add: upt_conv_Cons)
  show ?case
  proof (cases "txs = []")
    case True
    then show ?thesis using Cons.prems(2) step by (simp add: i)
  next
    case False
    then have "Suc ?i < 128" using Cons.prems(2) by (cases txs) auto
    then have st: "mc_state (mc ?s) = MC_READ_DATA" "mc_data_idx (mc ?s) = Suc ?i" by simp_all
    obtain t where "exchanges fs selected txs ?s = (map (\<lambda>j. (mc_data (mc s) j, True)) [Suc ?i..<128], t)" "quiet t"
      "mc t = (mc s)\<lparr>mc_state := MC_READ_CHK, mc_data_idx := 128\<rparr>" "mc_slot t = mc_slot s" "store t = store s"
      using Cons.IH [OF st(1) _ False] Cons.prems(2) unfolding st(2) by auto
    then show ?thesis using step by (simp add: i)
  qed
qed simp

lemma exchange_addr_read:
  assumes "mc_state (mc s) = MC_ADDR_LSB" "mc_cmd (mc s) = 0x52"
    and "memcard_read_sector (mc_slot s) (uint (sector_of (mc_sector_msb (mc s)) tx)) (store s) = Some bs"
  shows "\<exists>t d. exchange fs selected tx s = ((0, True), t) \<and> quiet t \<and> mc_slot t = mc_slot s \<and> store t = store s
    \<and> map d [0..<128] = bs
    \<and> mc t = (mc s)\<lparr>mc_state := MC_READ_ACK1, mc_sector_lsb := tx, mc_sector := sector_of (mc_sector_msb (mc s)) tx,
        mc_data := d, mc_data_idx := 0, mc_checksum := foldl (XOR) (mc_sector_msb (mc s) XOR tx) bs\<rparr>"
proof -
  let ?s = "upd_mc (\<lambda>m. m\<lparr>mc_sector_lsb := tx, mc_sector := sector_of (mc_sector_msb m) tx\<rparr>) s"
  define d where "d = load_sector ?s"
  have len: "length bs = 128" and in_range: "uint (sector_of (mc_sector_msb (mc s)) tx) < MEMCARD_SECTORS"
    using assms(3) by (auto simp: memcard_read_sector_def split: if_splits)
  then have "d = load_bytes bs (mc_data (mc s))" using assms(3) by (simp add: d_def load_sector_def)
  then have d: "map d [0..<128] = bs" using len by (auto simp: load_bytes_def intro: nth_equalityI)
  have x: "xor_data v d = foldl (XOR) v bs" for v
    unfolding xor_data_def d [symmetric] by (simp add: foldl_map)
  have "mc_step fs selected tx s = reply 0 MC_READ_ACK1 (upd_mc (\<lambda>m. m\<lparr>mc_data := d, mc_data_idx := 0,
      mc_checksum := foldl (XOR) (mc_sector_msb (mc s) XOR tx) bs\<rparr>) ?s)"
    using assms(1,2) by (simp add: mc_step_def mc_addr_lsb_def Let_def d_def [symmetric] x) (simp add: upd_mc_def)
  from exchange_reply [OF this] d show ?thesis by auto
qed

definition read_request :: "u8 \<Rightarrow> u8 \<Rightarrow> u8 \<Rightarrow> u8 \<Rightarrow> u8 list" where
  "read_request a b msb lsb = [0x81, 0x52, a, b, msb, lsb]"

definition read_answer :: "u8 \<Rightarrow> u8 \<Rightarrow> u8 \<Rightarrow> u8 list \<Rightarrow> (u8 \<times> bool) list" where
  "read_answer flag msb lsb bs =
     map (\<lambda>v. (v, True)) ([0xFF, flag, 0x5A, 0x5D, 0x00, 0x00, 0x5C, 0x5D, msb, lsb] @ bs @ [foldl (XOR) (msb XOR lsb) bs])
     @ [(0x47, False)]"

text \<open>The first three exchanges select the card and give it the command.\<close>

lemma exchange_select:
  assumes "mc_state (mc s) = MC_IDLE" "memcard_is_present selected (store s)" "c = 0x52 \<or> c = 0x57"
  shows "\<exists>t. exchanges fs selected [x, c, a, b, msb] s =
      ([(0xFF, True), (mc_flag (mc s), True), (0x5A, True), (0x5D, True), (0, True)], t) \<and> quiet t
    \<and> mc t = (mc s)\<lparr>mc_state := MC_ADDR_LSB, mc_cmd := c, mc_flag := 0, mc_sector_msb := msb\<rparr>
    \<and> mc_slot t = selected \<and> store t = store s"
proof -
  define s1 where "s1 = after 0xFF MC_CMD (s\<lparr>mc_slot := selected\<rparr>)"
  have e1: "exchange fs selected x s = ((0xFF, True), s1)"
    and s1: "mc s1 = (mc s)\<lparr>mc_state := MC_CMD\<rparr>" "mc_slot s1 = selected" "store s1 = store s"
    using assms(1,2) by (simp_all add: exchange_rules s1_def)
  obtain s2 where e2: "exchange fs selected c s1 = ((mc_flag (mc s), True), s2)"
    and s2: "mc s2 = (mc s)\<lparr>mc_state := MC_ID1, mc_cmd := c, mc_flag := 0\<rparr>" "mc_slot s2 = selected" "store s2 = store s"
    using exchange_command [of s1 c fs selected] assms(3) s1 by auto
  define s3 where "s3 = after 0x5A MC_ID2 s2"
  have e3: "exchange fs selected a s2 = ((0x5A, True), s3)"
    and s3: "mc s3 = (mc s)\<lparr>mc_state := MC_ID2, mc_cmd := c, mc_flag := 0\<rparr>" "mc_slot s3 = selected" "store s3 = store s"
    by (simp_all add: exchange_rules s2 s3_def)
  define s4 where "s4 = after 0x5D MC_ADDR_MSB s3"
  have e4: "exchange fs selected b s3 = ((0x5D, True), s4)"
    and s4: "mc s4 = (mc s)\<lparr>mc_state := MC_ADDR_MSB, mc_cmd := c, mc_flag := 0\<rparr>" "mc_slot s4 = selected" "store s4 = store s"
    using assms(3) by (auto simp: exchange_rules s3 s4_def)
  have "exchange fs selected msb s4 = ((0, True), after 0 MC_ADDR_LSB (upd_mc (\<lambda>m. m\<lparr>mc_sector_msb := msb\<rparr>) s4))"
    by (simp add: exchange_rules s4)
  then show ?thesis by (simp add: e1 e2 e3 e4 s4)
qed

lemma exchange_read_head:
  assumes "mc_state (mc s) = MC_READ_ACK1"
  shows "\<exists>t. exchanges fs selected [a, b, c, d] s =
      ([(0x5C, True), (0x5D, True), (mc_sector_msb (mc s), True), (mc_sector_lsb (mc s), True)], t) \<and> quiet t
    \<and> mc t = (mc s)\<lparr>mc_state := MC_READ_DATA, mc_data_idx := 0\<rparr> \<and> mc_slot t = mc_slot s \<and> store t = store s"
  using assms by (simp add: exchange_rules)

lemma exchange_read_tail:
  assumes "mc_state (mc s) = MC_READ_CHK" "uint (mc_sector (mc s)) < MEMCARD_SECTORS"
  shows "\<exists>t. exchanges fs selected [a, b] s = ([(mc_checksum (mc s), True), (0x47, False)], t) \<and> quiet t
    \<and> mc t = (mc s)\<lparr>mc_state := MC_IDLE\<rparr> \<and> mc_slot t = mc_slot s \<and> store t = store s"
  using assms by (simp add: exchange_rules exchange_read_end)

lemma exchanges_chain:
  assumes "exchanges fs selected xs s = (rs, t)" "exchanges fs selected ys t = (rs', u)"
  shows "exchanges fs selected (xs @ ys) s = (rs @ rs', u)"
  using assms by (simp add: exchanges_append)

lemma length_2: "length xs = 2 \<Longrightarrow> \<exists>a b. xs = [a, b]" and length_3: "length ys = 3 \<Longrightarrow> \<exists>a b c. ys = [a, b, c]"
  and length_4: "length zs = 4 \<Longrightarrow> \<exists>a b c d. zs = [a, b, c, d]"
  by (auto simp: length_Suc_conv numeral_eq_Suc)

lemma split_filler:
  assumes "length f = 134"
  obtains a b c d ds e g where "f = [a, b, c, d] @ ds @ [e, g]" "length ds = 128" "ds \<noteq> []"
proof -
  have "length (take 4 f) = 4" "length (drop 132 f) = 2" using assms by simp_all
  then obtain a b c d e g where f: "take 4 f = [a, b, c, d]" "drop 132 f = [e, g]"
    using length_4 length_2 by metis
  have "drop 128 (drop 4 f) = [e, g]" using f(2) by simp
  then have "f = [a, b, c, d] @ take 128 (drop 4 f) @ [e, g]"
    by (metis f(1) append_take_drop_id)
  moreover have "length (take 128 (drop 4 f)) = 128" using assms by simp
  ultimately show thesis using that by fastforce
qed

lemma read_run:
  assumes "mc_state (mc s) = MC_IDLE" "memcard_is_present selected (store s)"
    and "memcard_read_sector selected (uint (sector_of msb lsb)) (store s) = Some bs" "length filler = 134"
  shows "\<exists>t. exchanges fs selected (read_request a b msb lsb @ filler) s = (read_answer (mc_flag (mc s)) msb lsb bs, t)
    \<and> mc_state (mc t) = MC_IDLE \<and> mc_flag (mc t) = 0 \<and> store t = store s"
proof -
  obtain p q r u ds e g where f: "filler = [p, q, r, u] @ ds @ [e, g]" and ds: "length ds = 128" "ds \<noteq> []"
    using split_filler [OF assms(4)] .
  obtain s1 where e1: "exchanges fs selected [0x81, 0x52, a, b, msb] s =
      ([(0xFF, True), (mc_flag (mc s), True), (0x5A, True), (0x5D, True), (0, True)], s1)"
    and s1: "mc s1 = (mc s)\<lparr>mc_state := MC_ADDR_LSB, mc_cmd := 0x52, mc_flag := 0, mc_sector_msb := msb\<rparr>"
      "mc_slot s1 = selected" "store s1 = store s"
    using exchange_select [OF assms(1,2), of "0x52" fs "0x81" a b msb] by auto
  obtain s2 d where e2: "exchange fs selected lsb s1 = ((0, True), s2)" and d: "map d [0..<128] = bs"
    and s2: "mc_slot s2 = selected" "store s2 = store s"
      "mc s2 = (mc s1)\<lparr>mc_state := MC_READ_ACK1, mc_sector_lsb := lsb, mc_sector := sector_of msb lsb,
        mc_data := d, mc_data_idx := 0, mc_checksum := foldl (XOR) (msb XOR lsb) bs\<rparr>"
    using exchange_addr_read [of s1 lsb bs fs selected] assms(3) s1 by auto
  obtain s3 where e3: "exchanges fs selected [p, q, r, u] s2 = ([(0x5C, True), (0x5D, True), (msb, True), (lsb, True)], s3)"
    and s3: "mc s3 = (mc s2)\<lparr>mc_state := MC_READ_DATA, mc_data_idx := 0\<rparr>" "store s3 = store s"
    using exchange_read_head [of s2 fs selected p q r u] s2 s1(1) by auto
  obtain s4 where e4: "exchanges fs selected ds s3 = (map (\<lambda>j. (d j, True)) [0..<128], s4)"
    and s4: "mc s4 = (mc s3)\<lparr>mc_state := MC_READ_CHK, mc_data_idx := 128\<rparr>" "store s4 = store s"
    using read_data_loop [of s3 ds fs selected] ds s3 s2(3) by auto
  have "uint (sector_of msb lsb) < MEMCARD_SECTORS" using assms(3) by (auto simp: memcard_read_sector_def split: if_splits)
  then obtain s5 where e5: "exchanges fs selected [e, g] s4 = ([(foldl (XOR) (msb XOR lsb) bs, True), (0x47, False)], s5)"
    and s5: "mc s5 = (mc s4)\<lparr>mc_state := MC_IDLE\<rparr>" "store s5 = store s"
    using exchange_read_tail [of s4 fs selected e g] s4 s3 s2(3) by auto
  have e2': "exchanges fs selected [lsb] s1 = ([(0, True)], s2)" by (simp add: e2)
  have m: "map (\<lambda>j. (d j, True)) [0..<128] = map (\<lambda>v. (v, True)) bs" by (simp flip: d)
  have "exchanges fs selected ([0x81, 0x52, a, b, msb] @ [lsb] @ [p, q, r, u] @ ds @ [e, g]) s =
      ([(0xFF, True), (mc_flag (mc s), True), (0x5A, True), (0x5D, True), (0, True)] @ [(0, True)] @
       [(0x5C, True), (0x5D, True), (msb, True), (lsb, True)] @ map (\<lambda>v. (v, True)) bs @
       [(foldl (XOR) (msb XOR lsb) bs, True), (0x47, False)], s5)"
    using e4 unfolding m by (intro exchanges_chain [OF e1] exchanges_chain [OF e2'] exchanges_chain [OF e3] exchanges_chain [OF _ e5])
  moreover have "mc_flag (mc s5) = 0" "mc_state (mc s5) = MC_IDLE" by (simp_all add: s5 s4 s3 s2(3) s1(1))
  ultimately show ?thesis using s5(2) by (simp add: f read_request_def read_answer_def)
qed

subsection \<open>Writing a sector\<close>

definition put_bytes :: "u8 list \<Rightarrow> nat \<Rightarrow> (nat \<Rightarrow> u8) \<Rightarrow> nat \<Rightarrow> u8" where
  "put_bytes bs k f = (\<lambda>i. if k \<le> i \<and> i < k + length bs then bs ! (i - k) else f i)"

lemma put_bytes_Cons: "put_bytes bs (Suc k) (f(k := b)) = put_bytes (b # bs) k f"
  by (auto simp: put_bytes_def fun_eq_iff nth_Cons' not_le less_Suc_eq)

lemma put_bytes_Nil: "put_bytes [] k f = f"
  by (auto simp: put_bytes_def fun_eq_iff)

lemma take_byte_fields [simp]:
  "mc (take_byte tx s) = (mc s)\<lparr>mc_data := (mc_data (mc s))(mc_data_idx (mc s) := tx), mc_data_idx := mc_data_idx (mc s) + 1\<rparr>"
  "mc_slot (take_byte tx s) = mc_slot s" "store (take_byte tx s) = store s"
  by (simp_all add: take_byte_def)

lemma write_data_loop:
  assumes "mc_state (mc s) = MC_WRITE_DATA" "mc_data_idx (mc s) + length txs = 128" "txs \<noteq> []"
  shows "\<exists>t. exchanges fs selected txs s = (replicate (length txs) (0, True), t) \<and> quiet t
    \<and> mc t = (mc s)\<lparr>mc_state := MC_WRITE_CHK, mc_data := put_bytes txs (mc_data_idx (mc s)) (mc_data (mc s)),
        mc_data_idx := 128\<rparr> \<and> mc_slot t = mc_slot s \<and> store t = store s"
  using assms
proof (induction txs arbitrary: s)
  case (Cons tx txs)
  let ?i = "mc_data_idx (mc s)"
  let ?st = "if ?i + 1 \<ge> 128 then MC_WRITE_CHK else MC_WRITE_DATA"
  let ?s = "after 0 ?st (take_byte tx s)"
  have step: "exchange fs selected tx s = ((0, True), ?s)"
    using Cons.prems(1) by (intro exchange_reply) (simp add: mc_step_def mc_write_data_def Let_def)
  show ?case
  proof (cases "txs = []")
    case True
    then show ?thesis using Cons.prems(2) step by (simp add: put_bytes_Nil fun_upd_def [symmetric] flip: put_bytes_Cons)
  next
    case False
    then have "Suc ?i < 128" using Cons.prems(2) by (cases txs) auto
    then have st: "mc_state (mc ?s) = MC_WRITE_DATA" "mc_data_idx (mc ?s) = Suc ?i"
      "mc_data (mc ?s) = (mc_data (mc s))(?i := tx)" by simp_all
    obtain t where "exchanges fs selected txs ?s = (replicate (length txs) (0, True), t)" "quiet t"
      "mc t = (mc s)\<lparr>mc_state := MC_WRITE_CHK, mc_data := put_bytes (tx # txs) ?i (mc_data (mc s)), mc_data_idx := 128\<rparr>"
      "mc_slot t = mc_slot s" "store t = store s"
      using Cons.IH [OF st(1) _ False] Cons.prems(2) unfolding st(2,3) put_bytes_Cons by auto
    then show ?thesis using step by simp
  qed
qed simp

definition write_code :: "u16 \<Rightarrow> u8 \<Rightarrow> u8 \<Rightarrow> u8" where
  "write_code sector expected chk =
     (if uint sector \<ge> MEMCARD_SECTORS then 0xFF else if chk = expected then 0x47 else 0x4E)"

definition stored_sector :: "'h host_fs \<Rightarrow> int \<Rightarrow> u16 \<Rightarrow> (nat \<Rightarrow> u8) \<Rightarrow> u8 \<Rightarrow> 'h card_sys \<Rightarrow> 'h card_sys" where
  "stored_sector fs slot sector d code st =
     (if code = 0x47 then memcard_flush fs slot (snd (memcard_write_sector slot (uint sector) d st)) else st)"

lemma exchange_write_chk:
  fixes tx :: u8 and s :: "'h card_bus"
  assumes "mc_state (mc s) = MC_WRITE_CHK"
  defines "code \<equiv> write_code (mc_sector (mc s)) (xor_data (mc_sector_msb (mc s) XOR mc_sector_lsb (mc s)) (mc_data (mc s))) tx"
  shows "\<exists>t. exchange fs selected tx s = ((0, True), t) \<and> quiet t
    \<and> mc t = (mc s)\<lparr>mc_state := MC_WRITE_ACK1, mc_checksum := code\<rparr> \<and> mc_slot t = mc_slot s
    \<and> store t = stored_sector fs (mc_slot s) (mc_sector (mc s)) (mc_data (mc s)) code (store s)"
proof -
  let ?st = "stored_sector fs (mc_slot s) (mc_sector (mc s)) (mc_data (mc s)) code (store s)"
  have "mc_step fs selected tx s = reply 0 MC_WRITE_ACK1 (upd_mc (\<lambda>m. m\<lparr>mc_checksum := code\<rparr>) (s\<lparr>store := ?st\<rparr>))"
    using assms(1)
    by (auto simp: mc_step_def mc_write_chk_def Let_def code_def write_code_def stored_sector_def reply_def upd_mc_def)
  from exchange_reply [OF this] show ?thesis by simp
qed

lemma exchange_write_tail:
  assumes "mc_state (mc s) = MC_WRITE_ACK1"
  shows "\<exists>t. exchanges fs selected [a, b, c] s = ([(0x5C, True), (0x5D, True), (mc_checksum (mc s), False)], t) \<and> quiet t
    \<and> mc t = (mc s)\<lparr>mc_state := MC_IDLE, mc_flag := 0\<rparr> \<and> mc_slot t = mc_slot s \<and> store t = store s"
proof -
  define s1 where "s1 = after 0x5C MC_WRITE_ACK2 s"
  define s2 where "s2 = after 0x5D MC_WRITE_END s1"
  have e: "exchange fs selected a s = ((0x5C, True), s1)" "exchange fs selected b s1 = ((0x5D, True), s2)"
    using assms by (simp_all add: exchange_rules s1_def s2_def)
  obtain t where "exchange fs selected c s2 = ((mc_checksum (mc s), False), t)" "quiet t"
    "mc t = (mc s)\<lparr>mc_state := MC_IDLE, mc_flag := 0\<rparr>" "mc_slot t = mc_slot s" "store t = store s"
    using exchange_write_end [of s2 fs selected c] by (auto simp: s1_def s2_def)
  then show ?thesis using e by simp
qed

lemma exchange_addr_write:
  assumes "mc_state (mc s) = MC_ADDR_LSB" "mc_cmd (mc s) = 0x57"
  shows "\<exists>t. exchanges fs selected [lsb, d0] s = ([(mc_sector_msb (mc s), True), (lsb, True)], t) \<and> quiet t
    \<and> mc t = (mc s)\<lparr>mc_state := MC_WRITE_DATA, mc_sector_lsb := lsb, mc_sector := sector_of (mc_sector_msb (mc s)) lsb,
        mc_data := (mc_data (mc s))(0 := d0), mc_data_idx := 1\<rparr> \<and> mc_slot t = mc_slot s \<and> store t = store s"
proof -
  let ?m = "(mc s)\<lparr>mc_sector_lsb := lsb, mc_sector := sector_of (mc_sector_msb (mc s)) lsb, mc_data_idx := 0\<rparr>"
  define s1 where "s1 = after (mc_sector_msb (mc s)) MC_WRITE_LSB_ECHO (s\<lparr>mc := ?m\<rparr>)"
  have "mc_step fs selected lsb s = reply (mc_sector_msb (mc s)) MC_WRITE_LSB_ECHO (s\<lparr>mc := ?m\<rparr>)"
    using assms by (simp add: mc_step_def mc_addr_lsb_def Let_def) (simp add: upd_mc_def)
  from exchange_reply [OF this] have "exchange fs selected lsb s = ((mc_sector_msb (mc s), True), s1)"
    by (simp add: s1_def)
  moreover have "exchange fs selected d0 s1 = ((lsb, True), after lsb MC_WRITE_DATA (take_byte d0 s1))"
    by (simp add: exchange_rules s1_def)
  ultimately show ?thesis by (simp add: s1_def)
qed

definition write_request :: "u8 \<Rightarrow> u8 \<Rightarrow> u8 \<Rightarrow> u8 \<Rightarrow> u8 list \<Rightarrow> u8 \<Rightarrow> u8 list \<Rightarrow> u8 list" where
  "write_request a b msb lsb bs chk filler = [0x81, 0x57, a, b, msb, lsb] @ bs @ [chk] @ filler"

definition write_answer :: "u8 \<Rightarrow> u8 \<Rightarrow> u8 \<Rightarrow> u8 \<Rightarrow> (u8 \<times> bool) list" where
  "write_answer flag msb lsb code =
     map (\<lambda>v. (v, True)) ([0xFF, flag, 0x5A, 0x5D, 0x00, msb, lsb] @ replicate 127 0 @ [0x00, 0x5C, 0x5D]) @ [(code, False)]"

lemma xor_data_load:
  "length bs = 128 \<Longrightarrow> (\<And>i. i < 128 \<Longrightarrow> d i = bs ! i) \<Longrightarrow> xor_data v d = foldl (XOR) v bs"
proof -
  assume a: "length bs = 128" "\<And>i. i < 128 \<Longrightarrow> d i = bs ! i"
  have "bs = map d [0..<128]" using a by (auto intro: nth_equalityI)
  then show ?thesis by (simp add: xor_data_def foldl_map)
qed

lemma write_sector_cong:
  assumes "\<And>i. i < 128 \<Longrightarrow> d i = e i"
  shows "memcard_write_sector slot n d st = memcard_write_sector slot n e st"
proof -
  have "(\<lambda>i. if k \<le> i \<and> i < k + 128 then d (i - k) else f i) = (\<lambda>i. if k \<le> i \<and> i < k + 128 then e (i - k) else f i)"
    for k and f :: "nat \<Rightarrow> u8" using assms by (auto simp: fun_eq_iff)
  then show ?thesis by (simp add: memcard_write_sector_def Let_def)
qed

lemma write_run:
  fixes chk msb lsb :: u8 and bs :: "u8 list" and s :: "'h card_bus"
  assumes "mc_state (mc s) = MC_IDLE" "memcard_is_present selected (store s)"
    and "length bs = 128" "length filler = 3"
  defines "code \<equiv> write_code (sector_of msb lsb) (foldl (XOR) (msb XOR lsb) bs) chk"
  shows "\<exists>t. exchanges fs selected (write_request a b msb lsb bs chk filler) s =
      (write_answer (mc_flag (mc s)) msb lsb code, t)
    \<and> mc_state (mc t) = MC_IDLE \<and> mc_flag (mc t) = 0
    \<and> store t = stored_sector fs selected (sector_of msb lsb) ((!) bs) code (store s)"
proof -
  obtain b0 ds where bs: "bs = b0 # ds" using assms(3) by (cases bs) auto
  then have ds: "length ds = 127" "ds \<noteq> []" using assms(3) by auto
  obtain e g h where f: "filler = [e, g, h]" using length_3 [OF assms(4)] by auto
  obtain s1 where e1: "exchanges fs selected [0x81, 0x57, a, b, msb] s =
      ([(0xFF, True), (mc_flag (mc s), True), (0x5A, True), (0x5D, True), (0, True)], s1)"
    and s1: "mc s1 = (mc s)\<lparr>mc_state := MC_ADDR_LSB, mc_cmd := 0x57, mc_flag := 0, mc_sector_msb := msb\<rparr>"
      "mc_slot s1 = selected" "store s1 = store s"
    using exchange_select [OF assms(1,2), of "0x57" fs "0x81" a b msb] by auto
  obtain s2 where e2: "exchanges fs selected [lsb, b0] s1 = ([(msb, True), (lsb, True)], s2)"
    and s2: "mc_slot s2 = selected" "store s2 = store s"
      "mc s2 = (mc s1)\<lparr>mc_state := MC_WRITE_DATA, mc_sector_lsb := lsb, mc_sector := sector_of msb lsb,
        mc_data := (mc_data (mc s1))(0 := b0), mc_data_idx := 1\<rparr>"
    using exchange_addr_write [of s1 fs selected lsb b0] s1 by auto
  obtain s3 d where e3: "exchanges fs selected ds s2 = (replicate 127 (0, True), s3)"
    and s3: "mc_slot s3 = selected" "store s3 = store s"
      "mc s3 = (mc s2)\<lparr>mc_state := MC_WRITE_CHK, mc_data := d, mc_data_idx := 128\<rparr>"
    and d: "d = put_bytes ds 1 ((mc_data (mc s1))(0 := b0))"
    using write_data_loop [of s2 ds fs selected] ds s2 by auto
  have di: "d i = bs ! i" if "i < 128" for i
    using that ds(1) put_bytes_Cons [of ds 0] by (simp add: d bs put_bytes_def)
  have x: "xor_data (msb XOR lsb) d = foldl (XOR) (msb XOR lsb) bs" by (rule xor_data_load [OF assms(3) di])
  have w: "stored_sector fs selected q d c st = stored_sector fs selected q ((!) bs) c st" for q c st
    by (simp add: stored_sector_def write_sector_cong [of d "(!) bs", OF di])
  obtain s4 where e4: "exchange fs selected chk s3 = ((0, True), s4)"
    and s4: "mc s4 = (mc s3)\<lparr>mc_state := MC_WRITE_ACK1, mc_checksum := code\<rparr>"
      "store s4 = stored_sector fs selected (sector_of msb lsb) ((!) bs) code (store s)"
    using exchange_write_chk [of s3 fs selected chk] s3 s2(3) s1(1) by (auto simp: x w code_def)
  obtain s5 where e5: "exchanges fs selected [e, g, h] s4 = ([(0x5C, True), (0x5D, True), (code, False)], s5)"
    and s5: "mc s5 = (mc s4)\<lparr>mc_state := MC_IDLE, mc_flag := 0\<rparr>" "store s5 = store s4"
    using exchange_write_tail [of s4 fs selected e g h] s4 by auto
  have e4': "exchanges fs selected [chk] s3 = ([(0, True)], s4)" by (simp add: e4)
  have "exchanges fs selected ([0x81, 0x57, a, b, msb] @ [lsb, b0] @ ds @ [chk] @ [e, g, h]) s =
      ([(0xFF, True), (mc_flag (mc s), True), (0x5A, True), (0x5D, True), (0, True)] @ [(msb, True), (lsb, True)] @
       replicate 127 (0, True) @ [(0, True)] @ [(0x5C, True), (0x5D, True), (code, False)], s5)"
    by (intro exchanges_chain [OF e1] exchanges_chain [OF e2] exchanges_chain [OF e3] exchanges_chain [OF e4'] e5)
  then show ?thesis using s4 s5 by (simp add: f bs write_request_def write_answer_def map_replicate)
qed

text \<open>What a flush leaves alone.\<close>

lemma flush_keeps:
  "memcard_is_present n (memcard_flush fs slot st) = memcard_is_present n st"
  "memcard_read_sector n m (memcard_flush fs slot st) = memcard_read_sector n m st"
  by (simp_all add: memcard_is_present_def memcard_read_sector_def)

lemma read_after_write:
  assumes "memcard_is_present slot st" "uint q < MEMCARD_SECTORS" "length bs = 128"
  shows "memcard_read_sector slot (uint p) (stored_sector fs slot q ((!) bs) 0x47 st) =
    (if p = q then Some bs else memcard_read_sector slot (uint p) st)"
    "memcard_is_present slot (stored_sector fs slot q ((!) bs) 0x47 st)"
proof -
  have bs: "map (\<lambda>i. bs ! i) [0..<128] = bs" using assms(3) by (auto intro: nth_equalityI)
  have pq: "uint p = uint q \<longleftrightarrow> p = q" "nat (uint p) = unat p" "nat (uint q) = unat q" by (simp_all add: word_uint_eq_iff)
  have far: "unat p * 128 + i < unat q * 128 \<or> unat q * 128 + 128 \<le> unat p * 128 + i" if "p \<noteq> q" "i < 128" for i
  proof -
    have "unat p \<noteq> unat q" using that(1) word_unat_eq_iff by blast
    then show ?thesis using that(2) by linarith
  qed
  show "memcard_read_sector slot (uint p) (stored_sector fs slot q ((!) bs) 0x47 st) =
    (if p = q then Some bs else memcard_read_sector slot (uint p) st)"
  proof (cases "p = q")
    case True
    then show ?thesis using assms bs
      by (auto simp: stored_sector_def flush_keeps memcard_read_sector_def memcard_write_sector_def memcard_is_present_def
          upd_card_def Let_def split: if_splits intro: nth_equalityI)
  next
    case False
    then show ?thesis using assms(1,2)
      by (auto simp: stored_sector_def flush_keeps memcard_read_sector_def memcard_write_sector_def memcard_is_present_def
          upd_card_def Let_def pq not_le not_less split: if_splits dest!: far [OF False])
  qed
  show "memcard_is_present slot (stored_sector fs slot q ((!) bs) 0x47 st)"
    using assms(1) by (auto simp: stored_sector_def flush_keeps memcard_is_present_def memcard_write_sector_def upd_card_def)
qed

subsection \<open>The bound on the buffer and the length of a transaction\<close>

definition mc_ok :: "mc_slot_state \<Rightarrow> bool" where
  "mc_ok m \<longleftrightarrow> mc_data_idx m \<le> 128
     \<and> (mc_state m = MC_READ_DATA \<or> mc_state m = MC_WRITE_DATA \<longrightarrow> mc_data_idx m < 128)
     \<and> (mc_state m = MC_WRITE_LSB_ECHO \<longrightarrow> mc_data_idx m = 0)"

definition mc_rank :: "mc_slot_state \<Rightarrow> nat" where
  "mc_rank m =
     (case mc_state m of
        MC_IDLE \<Rightarrow> 0 | MC_CMD \<Rightarrow> 139 | MC_ID1 \<Rightarrow> 138 | MC_ID2 \<Rightarrow> 137 | MC_ADDR_MSB \<Rightarrow> 136 | MC_ADDR_LSB \<Rightarrow> 135
      | MC_READ_ACK1 \<Rightarrow> 134 | MC_READ_ACK2 \<Rightarrow> 133 | MC_READ_MSB_ECHO \<Rightarrow> 132 | MC_READ_LSB_ECHO \<Rightarrow> 131
      | MC_READ_DATA \<Rightarrow> 130 - mc_data_idx m | MC_READ_CHK \<Rightarrow> 2 | MC_READ_END \<Rightarrow> 1
      | MC_WRITE_LSB_ECHO \<Rightarrow> 133 | MC_WRITE_DATA \<Rightarrow> 132 - mc_data_idx m | MC_WRITE_CHK \<Rightarrow> 4
      | MC_WRITE_ACK1 \<Rightarrow> 3 | MC_WRITE_ACK2 \<Rightarrow> 2 | MC_WRITE_END \<Rightarrow> 1
      | MC_GETID_1 \<Rightarrow> 4 | MC_GETID_2 \<Rightarrow> 3 | MC_GETID_3 \<Rightarrow> 2 | MC_GETID_4 \<Rightarrow> 1)"

lemma mc_rank_0: "mc_ok m \<Longrightarrow> mc_rank m = 0 \<longleftrightarrow> mc_state m = MC_IDLE"
  by (cases "mc_state m") (auto simp: mc_rank_def mc_ok_def)

lemma mc_rank_le: "mc_ok m \<Longrightarrow> mc_rank m \<le> 139"
  by (cases "mc_state m") (auto simp: mc_rank_def)

lemmas mc_steps = mc_step_def mc_idle_def mc_command_def mc_addr_lsb_def mc_read_data_def mc_write_data_def
  mc_write_chk_def reply_def reply_last_def take_byte_def upd_mc_def Let_def

lemma mc_step_ok: "mc_ok (mc s) \<Longrightarrow> mc_ok (mc (mc_step fs selected tx s))"
  by (cases "mc_state (mc s)") (simp_all add: mc_steps mc_ok_def)

lemma mc_step_rank:
  "mc_ok (mc s) \<Longrightarrow> mc_state (mc s) \<noteq> MC_IDLE \<Longrightarrow> mc_rank (mc (mc_step fs selected tx s)) < mc_rank (mc s)"
  by (cases "mc_state (mc s)") (auto simp: mc_steps mc_ok_def mc_rank_def)

interpretation card: byte_device "\<lambda>s b. mc_process_byte fs selected b s" "\<lambda>s. mc_ok (mc s)" "\<lambda>s. mc_rank (mc s)" 139
  for fs :: "'h host_fs" and selected
proof unfold_locales
  fix s :: "'h card_bus" and b
  assume ok: "mc_ok (mc s)"
  show "mc_ok (mc (mc_process_byte fs selected b s))" using mc_step_ok [OF ok] by (simp add: mc_process_byte_def Let_def)
  show "mc_rank (mc s) \<le> 139" by (rule mc_rank_le [OF ok])
  assume "mc_rank (mc s) \<noteq> 0"
  then show "mc_rank (mc (mc_process_byte fs selected b s)) < mc_rank (mc s)"
    using mc_step_rank [OF ok] ok by (simp add: mc_rank_0 mc_process_byte_def Let_def)
qed

text \<open>Power-on: \<open>mc_slots\<close> and the working variables.\<close>

definition mc_reset :: mc_slot_state where
  "mc_reset = \<lparr>mc_state = MC_IDLE, mc_cmd = 0, mc_sector = 0, mc_sector_msb = 0, mc_sector_lsb = 0,
     mc_data = (\<lambda>_. 0), mc_data_idx = 0, mc_checksum = 0, mc_flag = 0x08\<rparr>"

lemma mc_reset_ok: "mc_ok mc_reset"
  by (simp add: mc_ok_def mc_reset_def)

subsection \<open>Properties\<close>

text \<open>
  C40. A sector written over the bus is read back over the bus: when a present, idle card receives a
  write request for one of its 1024 sectors with the right checksum, it answers the write with the
  echoed address and the good code, a following read request is answered with the bytes written, their
  checksum and the good code, acknowledging every byte but the last of each transfer, and every other
  sector reads as before. The bytes the controller sends where the protocol ignores them are arbitrary.
\<close>

theorem card_write_then_read:
  assumes "mc_state (mc s) = MC_IDLE" "memcard_is_present selected (store s)"
    and "uint (sector_of msb lsb) < MEMCARD_SECTORS" "length bs = 128" "length filler = 3" "length filler' = 134"
  shows "\<exists>t u. exchanges fs selected (write_request a b msb lsb bs (foldl (XOR) (msb XOR lsb) bs) filler) s =
        (write_answer (mc_flag (mc s)) msb lsb 0x47, t)
    \<and> exchanges fs selected (read_request c d msb lsb @ filler') t = (read_answer 0 msb lsb bs, u)
    \<and> mc_state (mc u) = MC_IDLE
    \<and> (\<forall>q. q \<noteq> sector_of msb lsb \<longrightarrow>
        memcard_read_sector selected (uint q) (store u) = memcard_read_sector selected (uint q) (store s))"
proof -
  let ?q = "sector_of msb lsb"
  have code: "write_code ?q x x = 0x47" for x using assms(3) by (simp add: write_code_def)
  obtain t where t: "exchanges fs selected (write_request a b msb lsb bs (foldl (XOR) (msb XOR lsb) bs) filler) s =
        (write_answer (mc_flag (mc s)) msb lsb 0x47, t)"
    and tf: "mc_state (mc t) = MC_IDLE" "mc_flag (mc t) = 0" "store t = stored_sector fs selected ?q ((!) bs) 0x47 (store s)"
    using write_run [OF assms(1,2,4,5), of fs a b msb lsb "foldl (XOR) (msb XOR lsb) bs"] unfolding code by blast
  note raw = read_after_write [OF assms(2,3,4), where fs = fs, folded tf(3)]
  have "memcard_read_sector selected (uint ?q) (store t) = Some bs" using raw(1) by simp
  from read_run [OF tf(1) raw(2) this assms(6), of fs c d] obtain u
    where "exchanges fs selected (read_request c d msb lsb @ filler') t = (read_answer 0 msb lsb bs, u)"
      "mc_state (mc u) = MC_IDLE" "store u = store t" unfolding tf(2) by blast
  then show ?thesis using t raw(1) by auto
qed

definition demo_bus :: "(string \<rightharpoonup> u8 list) card_bus" where
  "demo_bus = \<lparr>mc = mc_reset, mc_slot = 0, lines = \<lparr>rx_data = 0, stat = 5\<rparr>,
     store = \<lparr>cards = (\<lambda>_. empty_card\<lparr>filepath := ''card1.mcd'', present := True\<rparr>), host = Map.empty\<rparr>\<rparr>"

theorem card_write_then_read_witness:
  "\<exists>t u. exchanges map_fs 0 (write_request 0 0 1 2 (replicate 128 7) (foldl (XOR) (1 XOR 2) (replicate 128 7)) (replicate 3 0)) demo_bus =
        (write_answer 8 1 2 0x47, t)
    \<and> exchanges map_fs 0 (read_request 0 0 1 2 @ replicate 134 0) t = (read_answer 0 1 2 (replicate 128 7), u)"
  using card_write_then_read [of demo_bus 0 1 2 "replicate 128 7" "replicate 3 0" "replicate 134 0" map_fs 0 0 0 0]
  by (auto simp: demo_bus_def mc_reset_def memcard_is_present_def sector_of_def)

text \<open>
  A write request is answered by the code of what the card did: a bad sector (1024 and over) by
  0xFF whatever the checksum, a wrong checksum by 'N', both leaving the images and their files alone;
  otherwise by 'G', with the sector stored in the image and the image written to its file.
\<close>

theorem card_write_answers:
  fixes s :: "'h card_bus"
  assumes "mc_state (mc s) = MC_IDLE" "memcard_is_present selected (store s)"
    and "length bs = 128" "length filler = 3"
  shows "\<exists>t v. exchanges fs selected (write_request a b msb lsb bs chk filler) s =
      (write_answer (mc_flag (mc s)) msb lsb v, t)
    \<and> mc_state (mc t) = MC_IDLE
    \<and> (v = 0xFF \<and> uint (sector_of msb lsb) \<ge> MEMCARD_SECTORS \<and> store t = store s
      \<or> v = 0x4E \<and> uint (sector_of msb lsb) < MEMCARD_SECTORS \<and> chk \<noteq> foldl (XOR) (msb XOR lsb) bs \<and> store t = store s
      \<or> v = 0x47 \<and> uint (sector_of msb lsb) < MEMCARD_SECTORS \<and> chk = foldl (XOR) (msb XOR lsb) bs
        \<and> store t = memcard_flush fs selected
            (snd (memcard_write_sector selected (uint (sector_of msb lsb)) ((!) bs) (store s))))"
  using write_run [OF assms, of fs a b msb lsb chk] by (force simp: write_code_def stored_sector_def)

theorem card_write_answers_witness:
  "\<exists>t v. exchanges map_fs 0 (write_request 0 0 4 0 (replicate 128 7) 0 (replicate 3 0)) demo_bus =
      (write_answer 8 4 0 v, t) \<and> v = 0xFF"
  using card_write_answers [of demo_bus 0 "replicate 128 7" "replicate 3 0" map_fs 0 0 4 0 0]
  by (auto simp: demo_bus_def mc_reset_def memcard_is_present_def sector_of_def)

text \<open>
  A card transaction ends: in every state the protocol can reach, within 139 bytes, whatever they
  are, the card is idle again, and on the way the buffer index stays below 128 where a byte is read
  from or stored into the buffer.
\<close>

theorem card_transaction_ends:
  assumes "mc_ok (mc s)" "139 \<le> length bs"
  shows "(\<exists>n \<le> 139. mc_state (mc (foldl (\<lambda>s b. mc_process_byte fs selected b s) s (take n bs))) = MC_IDLE)
    \<and> (\<forall>n. let m = mc (foldl (\<lambda>s b. mc_process_byte fs selected b s) s (take n bs)) in
        mc_state m \<in> {MC_READ_DATA, MC_WRITE_LSB_ECHO, MC_WRITE_DATA} \<longrightarrow> mc_data_idx m < 128)"
proof -
  have ok: "mc_ok (mc (foldl (\<lambda>s b. mc_process_byte fs selected b s) s bs))" for bs
    by (rule card.run_ok [OF assms(1)])
  obtain n where "n \<le> 139" "mc_rank (mc (foldl (\<lambda>s b. mc_process_byte fs selected b s) s (take n bs))) = 0"
    using card.ends_within [OF assms] by blast
  then have "\<exists>n \<le> 139. mc_state (mc (foldl (\<lambda>s b. mc_process_byte fs selected b s) s (take n bs))) = MC_IDLE"
    using mc_rank_0 [OF ok] by blast
  then show ?thesis using ok by (auto simp: Let_def mc_ok_def)
qed

theorem card_transaction_ends_witness:
  "\<exists>n \<le> 139. mc_state (mc (foldl (\<lambda>s b. mc_process_byte map_fs 0 b s) demo_bus (take n (replicate 139 0x57)))) = MC_IDLE"
  using card_transaction_ends [of demo_bus "replicate 139 0x57" map_fs 0]
  by (simp add: demo_bus_def mc_reset_ok)

end
