(* ===== verification/PadBus.thy ===== *)
theory PadBus
  imports CardBus
begin

unbundle bit_operations_syntax

section \<open>The controllers on the serial bus: sio.c, \<open>pad_process_byte\<close>\<close>

text \<open>
  The static pad variables of \<open>sio.c\<close> are one record, arrays indexed by the logical pad or the
  physical port. \<open>PSX_MAX_PLAYERS\<close>, a build option, is its field \<open>players\<close>, which no operation
  changes; the parts the preprocessor drops below 5 or 8 players are the tests on it. C ints that only
  hold 0 and 1 are booleans; the pending type request -1, 0, 1 is an optional boolean. The response
  length and index, bytes in C, are naturals: the index is only stepped below the length, a constant of
  at most 34.
\<close>

subsection \<open>State\<close>

datatype pad_state = PAD_IDLE | PAD_WAIT_ACCESS | PAD_SEND_RESPONSE

datatype mtap_mode = MTAP_NEXT_SLOT_A | MTAP_NEXT_BULK | MTAP_NEXT_GARBAGE

record pad_bus =
  players :: int
  pad_buttons :: "nat \<Rightarrow> u16"
  pad_analog :: "nat \<Rightarrow> bool"
  pad_stick :: "nat \<Rightarrow> nat \<Rightarrow> u8"
  pad_rumble_map :: "nat \<Rightarrow> nat \<Rightarrow> u8"
  pad_rumble_small :: "nat \<Rightarrow> u8"
  pad_rumble_large :: "nat \<Rightarrow> u8"
  analog_mode_locked :: "nat \<Rightarrow> bool"
  pad_connected :: u8
  multitap_enabled :: bool
  multitap_port :: int
  multitap_analog_hack :: bool
  pad_state :: pad_state
  selected_slot :: int
  pad_active_logical :: int
  pad_response :: "nat \<Rightarrow> u8"
  pad_response_len :: nat
  pad_response_idx :: nat
  pad_current_cmd :: u8
  pad_mtap_addr :: u8
  mtap_next_mode :: "int \<Rightarrow> mtap_mode"
  mtap_req_this :: "int \<Rightarrow> bool"
  mtap_returned :: "int \<Rightarrow> mtap_mode"
  pad_in_config :: "nat \<Rightarrow> bool"
  pad_supports_config :: "nat \<Rightarrow> bool"
  pad_type_req :: "nat \<Rightarrow> bool option"
  pad_legacy_cfg :: bool
  pad_lines :: bus_lines

abbreviation PAD_RESPONSE_MAX :: nat where "PAD_RESPONSE_MAX \<equiv> 34"

subsection \<open>Logical pads and physical ports\<close>

definition is_connected :: "int \<Rightarrow> pad_bus \<Rightarrow> bool" where
  "is_connected slot s \<longleftrightarrow> pad_connected s AND push_bit (nat slot) 1 \<noteq> 0"

definition in_players :: "int \<Rightarrow> pad_bus \<Rightarrow> bool" where
  "in_players slot s \<longleftrightarrow> 0 \<le> slot \<and> slot < players s"

definition sio_multitap_active :: "pad_bus \<Rightarrow> bool" where
  "sio_multitap_active s \<longleftrightarrow> players s \<ge> 5 \<and> multitap_enabled s"

definition sio_dual_multitap :: "pad_bus \<Rightarrow> bool" where
  "sio_dual_multitap s \<longleftrightarrow> players s \<ge> 8 \<and> multitap_enabled s"

definition mtap_slot_a_logical :: "pad_bus \<Rightarrow> int" where
  "mtap_slot_a_logical s =
     (if sio_dual_multitap s then (if selected_slot s = 0 then 0 else 4)
      else if multitap_port s = 0 then 0 else 1)"

definition mtap_standalone_logical :: "pad_bus \<Rightarrow> int" where
  "mtap_standalone_logical s = (if sio_dual_multitap s then -1 else if multitap_port s = 0 then 4 else 0)"

definition pad_logical_for_port :: "int \<Rightarrow> pad_bus \<Rightarrow> int" where
  "pad_logical_for_port phys_port s =
     (if phys_port < 0 \<or> phys_port > 1 then -1
      else if sio_multitap_active s then
        (if sio_dual_multitap s then (if phys_port = 0 then 0 else 4)
         else if phys_port = multitap_port s then (if multitap_port s = 0 then 0 else 1)
         else mtap_standalone_logical s)
      else phys_port)"

definition pad_port_has_device :: "int \<Rightarrow> pad_bus \<Rightarrow> bool" where
  "pad_port_has_device phys_port s =
     (if phys_port < 0 \<or> phys_port > 1 then False
      else if sio_multitap_active s then
        (if sio_dual_multitap s then True
         else if phys_port = multitap_port s then True
         else is_connected (mtap_standalone_logical s) s)
      else is_connected phys_port s)"

definition selected_is_mtap_port :: "pad_bus \<Rightarrow> bool" where
  "selected_is_mtap_port s =
     (if \<not> sio_multitap_active s then False
      else if sio_dual_multitap s then selected_slot s = 0 \<or> selected_slot s = 1
      else selected_slot s = multitap_port s)"

definition mtap_finish_42 :: "pad_bus \<Rightarrow> pad_bus" where
  "mtap_finish_42 s =
     (let p = selected_slot s in
      if \<not> selected_is_mtap_port s \<or> pad_current_cmd s \<noteq> 0x42 \<or> pad_mtap_addr s \<noteq> 0x01 then s
      else if p < 0 \<or> p > 1 then s
      else s\<lparr>mtap_next_mode := (mtap_next_mode s)(p :=
        (if \<not> mtap_req_this s p then MTAP_NEXT_SLOT_A
         else if mtap_returned s p = MTAP_NEXT_SLOT_A then MTAP_NEXT_BULK
         else if mtap_returned s p = MTAP_NEXT_BULK then MTAP_NEXT_GARBAGE
         else MTAP_NEXT_BULK))\<rparr>)"

subsection \<open>Frames\<close>

definition pad_id :: "nat \<Rightarrow> pad_bus \<Rightarrow> u8" where
  "pad_id i s = (if pad_in_config s i then 0xF3 else if pad_analog s i then 0x73 else 0x41)"

definition stick_bytes :: "nat \<Rightarrow> pad_bus \<Rightarrow> u8 list" where
  "stick_bytes i s = [pad_stick s i 2, pad_stick s i 3, pad_stick s i 0, pad_stick s i 1]"

definition button_bytes :: "nat \<Rightarrow> pad_bus \<Rightarrow> u8 list" where
  "button_bytes i s = [ucast (pad_buttons s i), ucast (drop_bit 8 (pad_buttons s i))]"

definition pad_fill_status8 :: "int \<Rightarrow> pad_bus \<Rightarrow> u8 list" where
  "pad_fill_status8 logical s =
     (if \<not> in_players logical s \<or> \<not> is_connected logical s then replicate 8 0xFF
      else let i = nat logical
           in [pad_id i s, 0x5A] @ button_bytes i s
              @ (if pad_analog s i \<or> pad_in_config s i then stick_bytes i s else replicate 4 0xFF))"

definition poll_frame :: "nat \<Rightarrow> bool \<Rightarrow> pad_bus \<Rightarrow> u8 list" where
  "poll_frame i long s = [pad_id i s, 0x5A] @ button_bytes i s @ (if long then stick_bytes i s else [])"

definition toggle_frame :: "nat \<Rightarrow> pad_bus \<Rightarrow> u8 list" where
  "toggle_frame i s =
     (if pad_legacy_cfg s then [0xF3, 0x5A] @ replicate 6 0
      else if \<not> pad_in_config s i then poll_frame i (pad_analog s i) s
      else [pad_id i s, 0x5A] @ replicate 6 0)"

definition canned :: "u8 \<Rightarrow> u8 list" where
  "canned cmd =
     (if cmd = 0x45 then [0xF3, 0x5A, 0x03, 0x02, 0x01, 0x02, 0x01, 0x00]
      else if cmd = 0x46 then [0xF3, 0x5A, 0x00, 0x00, 0x01, 0x02, 0x00, 0x0A]
      else if cmd = 0x47 then [0xF3, 0x5A, 0x00, 0x00, 0x02, 0x00, 0x01, 0x00]
      else if cmd = 0x4C then [0xF3, 0x5A, 0x00, 0x00, 0x00, 0x04, 0x00, 0x00]
      else [0xF3, 0x5A, 0x00, 0x00, 0x00, 0x00, 0x00, 0x00])"

definition live_canned :: "nat \<Rightarrow> u8 \<Rightarrow> pad_bus \<Rightarrow> u8 list" where
  "live_canned i cmd s = (if cmd = 0x45 then (canned cmd)[3 := (if pad_analog s i then 0x01 else 0x00)] else canned cmd)"

definition config_frame :: "nat \<Rightarrow> u8 \<Rightarrow> pad_bus \<Rightarrow> u8 list" where
  "config_frame i cmd s =
     (let r = live_canned i cmd s
      in if cmd = 0x4D then take 2 r @ map (pad_rumble_map s i) [0..<6] else r)"

subsection \<open>The protocol\<close>

definition pad_end :: "pad_bus \<Rightarrow> pad_bus" where
  "pad_end s = s\<lparr>pad_state := PAD_IDLE, pad_response_len := 0, pad_response_idx := 0, pad_current_cmd := 0\<rparr>"

definition pad_rx :: "u8 \<Rightarrow> pad_bus \<Rightarrow> pad_bus" where
  "pad_rx v s = s\<lparr>pad_lines := put_rx v (pad_lines s)\<rparr>"

definition pad_ack :: "pad_bus \<Rightarrow> pad_bus" where
  "pad_ack s = s\<lparr>pad_lines := pull_ack (pad_lines s)\<rparr>"

definition hi_z :: "pad_bus \<Rightarrow> pad_bus" where
  "hi_z s = pad_rx 0xFF (pad_end s)"

definition send_frame :: "u8 list \<Rightarrow> pad_bus \<Rightarrow> pad_bus" where
  "send_frame bs s =
     (let s = s\<lparr>pad_response := load_bytes bs (pad_response s), pad_response_len := length bs, pad_state := PAD_SEND_RESPONSE\<rparr>
      in pad_ack (pad_rx (pad_response s 0) s))"

definition settles :: "pad_bus \<Rightarrow> nat \<Rightarrow> bool" where
  "settles s i \<longleftrightarrow> i < nat (players s) \<and> pad_type_req s i \<noteq> None \<and> \<not> pad_in_config s i \<and> \<not> analog_mode_locked s i"

definition apply_requests :: "pad_bus \<Rightarrow> pad_bus" where
  "apply_requests s =
     s\<lparr>pad_analog := (\<lambda>i. if settles s i then the (pad_type_req s i) else pad_analog s i),
       pad_type_req := (\<lambda>i. if settles s i then None else pad_type_req s i)\<rparr>"

definition pad_select :: "u8 \<Rightarrow> pad_bus \<Rightarrow> pad_bus" where
  "pad_select tx s =
     (if tx = 0x01 \<and> pad_port_has_device (selected_slot s) s
      then pad_ack (pad_rx 0xFF (s\<lparr>pad_active_logical := pad_logical_for_port (selected_slot s) s,
             pad_mtap_addr := 0x01, pad_state := PAD_WAIT_ACCESS\<rparr>))
      else if selected_is_mtap_port s \<and> tx \<ge> 0x02 \<and> tx \<le> 0x04
      then pad_ack (pad_rx 0xFF (s\<lparr>pad_active_logical := mtap_slot_a_logical s + uint (tx - 1),
             pad_mtap_addr := tx, pad_state := PAD_WAIT_ACCESS\<rparr>))
      else pad_rx 0xFF s)"

text \<open>What a command is answered with; \<open>None\<close> is the high-impedance line.\<close>

definition command_frame :: "u8 \<Rightarrow> pad_bus \<Rightarrow> u8 list option" where
  "command_frame tx s =
     (let lp = pad_active_logical s; i = nat lp in
      if \<not> in_players lp s \<or> \<not> is_connected lp s then None
      else let ds = pad_supports_config s i in
      if tx = 0x42 then Some (poll_frame i (pad_analog s i \<or> pad_in_config s i) s)
      else if ds \<and> tx = 0x43 then Some (toggle_frame i s)
      else if ds \<and> pad_legacy_cfg s \<and> (tx = 0x45 \<or> tx = 0x46 \<or> tx = 0x47 \<or> tx = 0x4C \<or> tx = 0x4D)
      then Some (live_canned i tx s)
      else if ds \<and> \<not> pad_legacy_cfg s \<and> pad_in_config s i
        \<and> (tx = 0x44 \<or> tx = 0x45 \<or> tx = 0x46 \<or> tx = 0x47 \<or> tx = 0x4C \<or> tx = 0x4D \<or> tx = 0x4F)
      then Some (config_frame i tx s)
      else None)"

definition pad_command :: "u8 \<Rightarrow> pad_bus \<Rightarrow> pad_bus" where
  "pad_command tx s = (case command_frame tx s of None \<Rightarrow> hi_z s | Some bs \<Rightarrow> send_frame bs s)"

definition garbage_id :: "pad_bus \<Rightarrow> u8" where
  "garbage_id s = (let a = mtap_slot_a_logical s in if \<not> is_connected a s then 0xFF else pad_id (nat a) s)"

definition set_returned :: "mtap_mode \<Rightarrow> pad_bus \<Rightarrow> pad_bus" where
  "set_returned v s = s\<lparr>mtap_returned := (mtap_returned s)(selected_slot s := v)\<rparr>"

definition commanded :: "u8 \<Rightarrow> pad_bus \<Rightarrow> pad_bus" where
  "commanded tx s =
     s\<lparr>pad_current_cmd := tx, pad_response_idx := 1,
       mtap_req_this := (if selected_slot s \<ge> 0 \<and> selected_slot s \<le> 1 then (mtap_req_this s)(selected_slot s := False) else mtap_req_this s)\<rparr>"

definition pad_wait_access :: "u8 \<Rightarrow> pad_bus \<Rightarrow> pad_bus" where
  "pad_wait_access tx s =
     (let s = commanded tx s;
          p = selected_slot s;
          tap = (selected_is_mtap_port s \<and> pad_mtap_addr s = 0x01 \<and> tx = 0x42);
          base = mtap_slot_a_logical s
      in if tap \<and> mtap_next_mode s p = MTAP_NEXT_BULK
         then set_returned MTAP_NEXT_BULK
           (send_frame ([0x80, 0x5A] @ concat (map (\<lambda>i. pad_fill_status8 (base + int i) s) [0..<4])) s)
         else if tap \<and> mtap_next_mode s p = MTAP_NEXT_GARBAGE
         then set_returned MTAP_NEXT_GARBAGE (send_frame [0x80, 0x5A, garbage_id s] s)
         else pad_command tx (if tap then set_returned MTAP_NEXT_SLOT_A s else s))"

definition latch_req :: "u8 \<Rightarrow> pad_bus \<Rightarrow> pad_bus" where
  "latch_req tx s =
     (let p = selected_slot s in
      if selected_is_mtap_port s \<and> pad_current_cmd s = 0x42 \<and> pad_mtap_addr s = 0x01 \<and> pad_response_idx s = 1
         \<and> p \<ge> 0 \<and> p \<le> 1
      then s\<lparr>mtap_req_this := (mtap_req_this s)(p := (tx = 0x01))\<rparr> else s)"

definition in_data :: "pad_bus \<Rightarrow> bool" where
  "in_data s \<longleftrightarrow> pad_response_idx s \<ge> 2 \<and> pad_response_idx s < 8"

definition latch_motor :: "u8 \<Rightarrow> nat \<Rightarrow> nat \<Rightarrow> pad_bus \<Rightarrow> pad_bus" where
  "latch_motor tx i k s =
     (if pad_current_cmd s = 0x42 \<and> in_data s then
        (if pad_rumble_map s i k = 0x00 then s\<lparr>pad_rumble_small := (pad_rumble_small s)(i := tx)\<rparr>
         else if pad_rumble_map s i k = 0x01 then s\<lparr>pad_rumble_large := (pad_rumble_large s)(i := tx)\<rparr>
         else s)
      else s)"

definition latch_map :: "u8 \<Rightarrow> nat \<Rightarrow> nat \<Rightarrow> pad_bus \<Rightarrow> pad_bus" where
  "latch_map tx i k s =
     (if pad_current_cmd s = 0x4D \<and> in_data s
      then s\<lparr>pad_rumble_map := (pad_rumble_map s)(i := (pad_rumble_map s i)(k := tx))\<rparr> else s)"

definition latch_rumble :: "u8 \<Rightarrow> pad_bus \<Rightarrow> pad_bus" where
  "latch_rumble tx s =
     (let rs = (if in_players (pad_active_logical s) s then pad_active_logical s else selected_slot s);
          i = nat rs; k = pad_response_idx s - 2
      in if \<not> in_players rs s then s else latch_map tx i k (latch_motor tx i k s))"

definition latch_config :: "u8 \<Rightarrow> pad_bus \<Rightarrow> pad_bus" where
  "latch_config tx s =
     (if \<not> pad_legacy_cfg s \<and> pad_current_cmd s = 0x43 \<and> pad_response_idx s = 2 \<and> in_players (pad_active_logical s) s
      then s\<lparr>pad_in_config := (pad_in_config s)(nat (pad_active_logical s) := (tx = 0x01))\<rparr> else s)"

definition latch_mode :: "u8 \<Rightarrow> pad_bus \<Rightarrow> pad_bus" where
  "latch_mode tx s =
     (if \<not> pad_legacy_cfg s \<and> pad_current_cmd s = 0x44 \<and> pad_response_idx s = 2 \<and> in_players (pad_active_logical s) s
      then s\<lparr>pad_analog := (pad_analog s)(nat (pad_active_logical s) := (tx = 0x01)),
             pad_type_req := (pad_type_req s)(nat (pad_active_logical s) := None)\<rparr> else s)"

definition latch_lock :: "u8 \<Rightarrow> pad_bus \<Rightarrow> pad_bus" where
  "latch_lock tx s =
     (if \<not> pad_legacy_cfg s \<and> pad_current_cmd s = 0x44 \<and> pad_response_idx s = 3 \<and> in_players (pad_active_logical s) s
      then (if tx = 0x03 then s\<lparr>analog_mode_locked := (analog_mode_locked s)(nat (pad_active_logical s) := True)\<rparr>
            else if tx = 0x02 then s\<lparr>analog_mode_locked := (analog_mode_locked s)(nat (pad_active_logical s) := False)\<rparr>
            else s)
      else s)"

definition next_byte :: "pad_bus \<Rightarrow> pad_bus" where
  "next_byte s =
     (let i = pad_response_idx s in
      if i < pad_response_len s
      then let s = pad_rx (pad_response s i) (s\<lparr>pad_response_idx := i + 1\<rparr>)
           in if pad_response_idx s < pad_response_len s then pad_ack s else pad_end (mtap_finish_42 s)
      else hi_z (mtap_finish_42 s))"

definition pad_respond :: "u8 \<Rightarrow> pad_bus \<Rightarrow> pad_bus" where
  "pad_respond tx s = next_byte (latch_lock tx (latch_mode tx (latch_config tx (latch_rumble tx (latch_req tx s)))))"

definition pad_process_byte :: "u8 \<Rightarrow> pad_bus \<Rightarrow> pad_bus" where
  "pad_process_byte tx s =
     (let s = (if pad_state s = PAD_IDLE then apply_requests s else s);
          s = (case pad_state s of
                 PAD_IDLE \<Rightarrow> pad_select tx s
               | PAD_WAIT_ACCESS \<Rightarrow> pad_wait_access tx s
               | PAD_SEND_RESPONSE \<Rightarrow> pad_respond tx s)
      in s\<lparr>pad_lines := byte_done (pad_lines s)\<rparr>)"

subsection \<open>The host's side\<close>

definition clear_latches :: "pad_bus \<Rightarrow> pad_bus" where
  "clear_latches s =
     s\<lparr>mtap_next_mode := (mtap_next_mode s)(0 := MTAP_NEXT_SLOT_A, 1 := MTAP_NEXT_SLOT_A),
       mtap_req_this := (mtap_req_this s)(0 := False, 1 := False),
       mtap_returned := (mtap_returned s)(0 := MTAP_NEXT_SLOT_A, 1 := MTAP_NEXT_SLOT_A)\<rparr>"

definition sio_set_multitap :: "bool \<Rightarrow> pad_bus \<Rightarrow> pad_bus" where
  "sio_set_multitap enabled s =
     (if players s \<ge> 5
      then let s = s\<lparr>multitap_enabled := enabled\<rparr> in if \<not> enabled then clear_latches s else s
      else s\<lparr>multitap_enabled := False\<rparr>)"

definition sio_get_multitap :: "pad_bus \<Rightarrow> bool" where
  "sio_get_multitap s = sio_multitap_active s"

definition sio_set_multitap_port :: "int \<Rightarrow> pad_bus \<Rightarrow> pad_bus" where
  "sio_set_multitap_port phys_port s =
     (if players s \<ge> 5 then clear_latches (s\<lparr>multitap_port := (if phys_port = 1 then 1 else 0)\<rparr>)
      else s\<lparr>multitap_port := 0\<rparr>)"

definition sio_get_multitap_port :: "pad_bus \<Rightarrow> int" where
  "sio_get_multitap_port s = (if players s \<ge> 5 then multitap_port s else 0)"

definition sio_set_multitap_analog :: "bool \<Rightarrow> pad_bus \<Rightarrow> pad_bus" where
  "sio_set_multitap_analog enabled s = s\<lparr>multitap_analog_hack := enabled\<rparr>"

definition sio_get_multitap_analog :: "pad_bus \<Rightarrow> bool" where
  "sio_get_multitap_analog s = multitap_analog_hack s"

definition sio_pad_on_multitap :: "int \<Rightarrow> pad_bus \<Rightarrow> bool" where
  "sio_pad_on_multitap logical_slot s =
     (if players s \<ge> 5
      then (if \<not> sio_multitap_active s then False
            else if \<not> in_players logical_slot s then False
            else if sio_dual_multitap s then True
            else logical_slot \<noteq> mtap_standalone_logical s)
      else False)"

definition sio_tap_force_digital :: "int \<Rightarrow> pad_bus \<Rightarrow> bool" where
  "sio_tap_force_digital logical_slot s \<longleftrightarrow> sio_pad_on_multitap logical_slot s \<and> \<not> multitap_analog_hack s"

definition sio_connect_pad :: "int \<Rightarrow> pad_bus \<Rightarrow> pad_bus" where
  "sio_connect_pad slot s =
     (if in_players slot s then s\<lparr>pad_connected := pad_connected s OR push_bit (nat slot) 1\<rparr> else s)"

definition stop_motors :: "nat \<Rightarrow> pad_bus \<Rightarrow> pad_bus" where
  "stop_motors i s = s\<lparr>pad_rumble_small := (pad_rumble_small s)(i := 0), pad_rumble_large := (pad_rumble_large s)(i := 0)\<rparr>"

definition sio_set_pad_connected :: "int \<Rightarrow> bool \<Rightarrow> pad_bus \<Rightarrow> pad_bus" where
  "sio_set_pad_connected slot connected s =
     (if \<not> in_players slot s then s
      else if connected then s\<lparr>pad_connected := pad_connected s OR push_bit (nat slot) 1\<rparr>
      else stop_motors (nat slot) (s\<lparr>pad_connected := pad_connected s AND NOT (push_bit (nat slot) 1)\<rparr>))"

definition sio_set_pad_config_capable :: "int \<Rightarrow> bool \<Rightarrow> pad_bus \<Rightarrow> pad_bus" where
  "sio_set_pad_config_capable slot capable s =
     (if \<not> in_players slot s then s
      else let capable = (capable \<and> \<not> sio_tap_force_digital slot s);
               s = s\<lparr>pad_supports_config := (pad_supports_config s)(nat slot := capable)\<rparr>
      in if \<not> capable then stop_motors (nat slot) (s\<lparr>pad_in_config := (pad_in_config s)(nat slot := False)\<rparr>) else s)"

definition sio_get_pad_rumble :: "int \<Rightarrow> pad_bus \<Rightarrow> u8 \<times> u8" where
  "sio_get_pad_rumble slot s =
     (if in_players slot s \<and> is_connected slot s then (pad_rumble_small s (nat slot), pad_rumble_large s (nat slot)) else (0, 0))"

definition sio_set_pad_state :: "u16 \<Rightarrow> pad_bus \<Rightarrow> pad_bus" where
  "sio_set_pad_state b s = s\<lparr>pad_buttons := (pad_buttons s)(0 := b)\<rparr>"

definition sio_set_pad_state_slot :: "int \<Rightarrow> u16 \<Rightarrow> pad_bus \<Rightarrow> pad_bus" where
  "sio_set_pad_state_slot slot b s =
     (if in_players slot s then s\<lparr>pad_buttons := (pad_buttons s)(nat slot := b)\<rparr> else s)"

definition put_sticks :: "nat \<Rightarrow> u8 \<Rightarrow> u8 \<Rightarrow> u8 \<Rightarrow> u8 \<Rightarrow> pad_bus \<Rightarrow> pad_bus" where
  "put_sticks i lx ly rx ry s = s\<lparr>pad_stick := (pad_stick s)(i := (pad_stick s i)(0 := lx, 1 := ly, 2 := rx, 3 := ry))\<rparr>"

definition sio_set_pad_analog :: "int \<Rightarrow> bool \<Rightarrow> u8 \<Rightarrow> u8 \<Rightarrow> u8 \<Rightarrow> u8 \<Rightarrow> pad_bus \<Rightarrow> pad_bus" where
  "sio_set_pad_analog slot enabled lx ly rx ry s =
     (if \<not> in_players slot s then s
      else let force = sio_tap_force_digital slot s;
               enabled = (enabled \<and> \<not> force);
               (lx, ly, rx, ry) = (if force then (0x80, 0x80, 0x80, 0x80) else (lx, ly, rx, ry))
      in put_sticks (nat slot) lx ly rx ry
           (s\<lparr>pad_analog := (pad_analog s)(nat slot := enabled), pad_type_req := (pad_type_req s)(nat slot := None)\<rparr>))"

definition sio_set_pad_sticks :: "int \<Rightarrow> u8 \<Rightarrow> u8 \<Rightarrow> u8 \<Rightarrow> u8 \<Rightarrow> pad_bus \<Rightarrow> pad_bus" where
  "sio_set_pad_sticks slot lx ly rx ry s = (if in_players slot s then put_sticks (nat slot) lx ly rx ry s else s)"

definition sio_request_pad_type :: "int \<Rightarrow> bool \<Rightarrow> pad_bus \<Rightarrow> pad_bus" where
  "sio_request_pad_type slot analog s =
     (if \<not> in_players slot s then s
      else let want = (analog \<and> \<not> sio_tap_force_digital slot s)
      in s\<lparr>pad_type_req := (pad_type_req s)(nat slot := (if pad_analog s (nat slot) = want then None else Some want))\<rparr>)"

definition sio_get_pad_buttons :: "pad_bus \<Rightarrow> u16" where
  "sio_get_pad_buttons s = pad_buttons s 0"

definition sio_get_pad_buttons_slot :: "int \<Rightarrow> pad_bus \<Rightarrow> u16" where
  "sio_get_pad_buttons_slot slot s = (if in_players slot s then pad_buttons s (nat slot) else 0xFFFF)"

definition sio_get_pad_connected :: "int \<Rightarrow> pad_bus \<Rightarrow> bool" where
  "sio_get_pad_connected slot s = (if \<not> in_players slot s then False else is_connected slot s)"

definition sio_get_pad_analog :: "int \<Rightarrow> pad_bus \<Rightarrow> bool" where
  "sio_get_pad_analog slot s = (if in_players slot s then pad_analog s (nat slot) else False)"

definition sio_get_pad_sticks :: "int \<Rightarrow> pad_bus \<Rightarrow> u8 list" where
  "sio_get_pad_sticks slot s =
     (if \<not> in_players slot s then replicate 4 0x80 else map (pad_stick s (nat slot)) [0..<4])"

definition sio_set_legacy_cfg :: "bool \<Rightarrow> pad_bus \<Rightarrow> pad_bus" where
  "sio_set_legacy_cfg v s = s\<lparr>pad_legacy_cfg := v, pad_in_config := (\<lambda>i. if i < nat (players s) then False else pad_in_config s i)\<rparr>"

text \<open>The pad half of \<open>sio_init\<close>; the multitap settings stay.\<close>

definition pad_init :: "pad_bus \<Rightarrow> pad_bus" where
  "pad_init s =
     (let here = (\<lambda>i. i < nat (players s)) in
      (pad_end s)\<lparr>pad_active_logical := 0,
        pad_rumble_map := (\<lambda>i k. if here i \<and> k < 6 then 0xFF else pad_rumble_map s i k),
        pad_rumble_small := (\<lambda>i. if here i then 0 else pad_rumble_small s i),
        pad_rumble_large := (\<lambda>i. if here i then 0 else pad_rumble_large s i),
        pad_buttons := (\<lambda>i. if here i then 0xFFFF else pad_buttons s i),
        pad_analog := (\<lambda>i. if here i then False else pad_analog s i),
        pad_stick := (\<lambda>i k. if here i \<and> k < 4 then 0x80 else pad_stick s i k),
        pad_in_config := (\<lambda>i. if here i then False else pad_in_config s i),
        pad_type_req := (\<lambda>i. if here i then None else pad_type_req s i),
        analog_mode_locked := (\<lambda>i. if here i then False else analog_mode_locked s i),
        pad_supports_config := (\<lambda>i. if here i then True else pad_supports_config s i),
        pad_connected := 0\<rparr>)"

text \<open>The pad half of \<open>sio_netplay_canonicalize_session_pads\<close>.\<close>

definition canonical_seat :: "int \<Rightarrow> pad_bus \<Rightarrow> pad_bus" where
  "canonical_seat i s =
     (let s = sio_set_pad_state_slot i 0xFFFF (sio_set_pad_analog i False 0x80 0x80 0x80 0x80 (sio_connect_pad i s));
          force_dig = (sio_pad_on_multitap i s \<and> \<not> sio_get_multitap_analog s);
          s = sio_set_pad_config_capable i (\<not> force_dig) s
      in stop_motors (nat i) (s\<lparr>pad_in_config := (pad_in_config s)(nat i := False),
            analog_mode_locked := (analog_mode_locked s)(nat i := False),
            pad_type_req := (pad_type_req s)(nat i := None),
            pad_rumble_map := (pad_rumble_map s)(nat i := (\<lambda>k. if k < 6 then 0xFF else pad_rumble_map s (nat i) k))\<rparr>))"

definition canonical_empty :: "int \<Rightarrow> pad_bus \<Rightarrow> pad_bus" where
  "canonical_empty i s =
     (let s = sio_set_pad_state_slot i 0xFFFF (sio_set_pad_analog i False 0x80 0x80 0x80 0x80 (sio_set_pad_connected i False s))
      in s\<lparr>pad_in_config := (pad_in_config s)(nat i := False), pad_type_req := (pad_type_req s)(nat i := None)\<rparr>)"

definition canonicalize_pads :: "int \<Rightarrow> pad_bus \<Rightarrow> pad_bus" where
  "canonicalize_pads slot_count s =
     (let slot_count = (if slot_count < 2 then 2 else slot_count);
          slot_count = (if slot_count > players s then players s else slot_count);
          s = sio_set_multitap (slot_count \<ge> 3) s;
          s = clear_latches ((pad_end s)\<lparr>selected_slot := 0, pad_active_logical := 0, pad_mtap_addr := 0x01,
                pad_response := (\<lambda>i. if i < PAD_RESPONSE_MAX then 0 else pad_response s i)\<rparr>)
      in foldl (\<lambda>s i. if i < slot_count then canonical_seat i s else canonical_empty i s) s (map int [0..<nat (players s)]))"

end
