(* ===== verification/PadProps.thy ===== *)
theory PadProps
  imports PadBus
begin

unbundle bit_operations_syntax

section \<open>The controllers: what the protocol does\<close>

text \<open>
  Exchanges of bytes with a controller, the transactions the game's driver runs over them, and the
  properties of those: the poll, the length of a transaction, the rumble map, the stability of the
  reported type and the multitap's bulk poll.
\<close>

subsection \<open>Exchanges\<close>

text \<open>As for the card: the answer, and whether the acknowledge line was pulled, which is consumed.\<close>

definition pad_exchange :: "u8 \<Rightarrow> pad_bus \<Rightarrow> (u8 \<times> bool) \<times> pad_bus" where
  "pad_exchange tx s =
     (let s = pad_process_byte tx s;
          acked = stat (pad_lines s) AND SIO_STAT_ACK \<noteq> 0
      in ((rx_data (pad_lines s), acked),
          s\<lparr>pad_lines := (pad_lines s)\<lparr>stat := stat (pad_lines s) AND NOT SIO_STAT_ACK\<rparr>\<rparr>))"

fun pad_exchanges :: "u8 list \<Rightarrow> pad_bus \<Rightarrow> (u8 \<times> bool) list \<times> pad_bus" where
  "pad_exchanges [] s = ([], s)"
| "pad_exchanges (tx # txs) s =
     (let (r, s) = pad_exchange tx s; (rs, s) = pad_exchanges txs s in (r # rs, s))"

lemma pad_exchanges_append:
  "pad_exchanges (xs @ ys) s =
    (let (rs, s) = pad_exchanges xs s; (rs', s) = pad_exchanges ys s in (rs @ rs', s))"
  by (induction xs arbitrary: s) (simp_all add: split_beta Let_def)

definition pad_quiet :: "pad_bus \<Rightarrow> bool" where
  "pad_quiet s \<longleftrightarrow> \<not> bit (stat (pad_lines s)) 7"

text \<open>The lines after an exchange that answered \<open>v\<close>.\<close>

definition pad_after :: "u8 \<Rightarrow> pad_bus \<Rightarrow> pad_bus" where
  "pad_after v s = s\<lparr>pad_lines := \<lparr>rx_data = v, stat = settled (stat (pad_lines s))\<rparr>\<rparr>"

lemma pad_after_quiet [simp]: "pad_quiet (pad_after v s)"
  by (simp add: pad_quiet_def pad_after_def settled_bits)

definition pad_body :: "u8 \<Rightarrow> pad_bus \<Rightarrow> pad_bus" where
  "pad_body tx s =
     (case pad_state s of PAD_IDLE \<Rightarrow> pad_select tx (apply_requests s)
      | PAD_WAIT_ACCESS \<Rightarrow> pad_wait_access tx s | PAD_SEND_RESPONSE \<Rightarrow> pad_respond tx s)"

lemma pad_process_body: "pad_process_byte tx s = (let s = pad_body tx s in s\<lparr>pad_lines := byte_done (pad_lines s)\<rparr>)"
proof -
  have "pad_state (apply_requests s) = pad_state s" by (simp add: apply_requests_def)
  then show ?thesis by (simp add: pad_process_byte_def pad_body_def Let_def split: pad_state.split)
qed

lemma pad_exchange_ack:
  "pad_body tx s = pad_ack (pad_rx v t) \<Longrightarrow> pad_exchange tx s = ((v, True), pad_after v t)"
  by (simp add: pad_exchange_def pad_process_body Let_def bit7 settle_done byte_done_bits pull_ack_bits pad_ack_def pad_rx_def
      settled_pull pad_after_def)

lemma pad_exchange_last:
  "pad_body tx s = pad_rx v t \<Longrightarrow> pad_quiet t \<Longrightarrow> pad_exchange tx s = ((v, False), pad_after v t)"
  by (simp add: pad_exchange_def pad_process_body Let_def bit7 settle_done byte_done_bits pad_rx_def pad_after_def pad_quiet_def)

subsection \<open>What the latches keep\<close>

definition latches :: "u8 \<Rightarrow> pad_bus \<Rightarrow> pad_bus" where
  "latches tx s = latch_lock tx (latch_mode tx (latch_config tx (latch_rumble tx (latch_req tx s))))"

lemma latches_update:
  "\<exists>a b c d e f g h. latches tx s = s\<lparr>mtap_req_this := a, pad_rumble_small := b, pad_rumble_large := c, pad_rumble_map := d,
     pad_in_config := e, pad_analog := f, pad_type_req := g, analog_mode_locked := h\<rparr>"
proof -
  have q: "\<exists>a. latch_req tx s = s\<lparr>mtap_req_this := a\<rparr>" for s
    by (rule exI [of _ "mtap_req_this (latch_req tx s)"]) (simp add: latch_req_def Let_def)
  have r: "\<exists>b c d. latch_rumble tx s = s\<lparr>pad_rumble_small := b, pad_rumble_large := c, pad_rumble_map := d\<rparr>" for s
    by (rule exI [of _ "pad_rumble_small (latch_rumble tx s)"], rule exI [of _ "pad_rumble_large (latch_rumble tx s)"],
        rule exI [of _ "pad_rumble_map (latch_rumble tx s)"]) (simp add: latch_rumble_def latch_map_def latch_motor_def Let_def)
  have c: "\<exists>e. latch_config tx s = s\<lparr>pad_in_config := e\<rparr>" for s
    by (rule exI [of _ "pad_in_config (latch_config tx s)"]) (simp add: latch_config_def)
  have m: "\<exists>f g. latch_mode tx s = s\<lparr>pad_analog := f, pad_type_req := g\<rparr>" for s
    by (rule exI [of _ "pad_analog (latch_mode tx s)"], rule exI [of _ "pad_type_req (latch_mode tx s)"]) (simp add: latch_mode_def)
  have l: "\<exists>h. latch_lock tx s = s\<lparr>analog_mode_locked := h\<rparr>" for s
    by (rule exI [of _ "analog_mode_locked (latch_lock tx s)"]) (simp add: latch_lock_def)
  obtain a where "latch_req tx s = s\<lparr>mtap_req_this := a\<rparr>" using q by blast
  moreover obtain b c d where "latch_rumble tx (latch_req tx s) = (latch_req tx s)\<lparr>pad_rumble_small := b, pad_rumble_large := c, pad_rumble_map := d\<rparr>"
    using r by blast
  moreover obtain e where "latch_config tx (latch_rumble tx (latch_req tx s)) = (latch_rumble tx (latch_req tx s))\<lparr>pad_in_config := e\<rparr>"
    using c by blast
  moreover obtain f g where "latch_mode tx (latch_config tx (latch_rumble tx (latch_req tx s)))
      = (latch_config tx (latch_rumble tx (latch_req tx s)))\<lparr>pad_analog := f, pad_type_req := g\<rparr>" using m by blast
  moreover obtain h where "latches tx s = (latch_mode tx (latch_config tx (latch_rumble tx (latch_req tx s))))\<lparr>analog_mode_locked := h\<rparr>"
    using l unfolding latches_def by blast
  ultimately have "latches tx s = s\<lparr>mtap_req_this := a, pad_rumble_small := b, pad_rumble_large := c, pad_rumble_map := d,
     pad_in_config := e, pad_analog := f, pad_type_req := g, analog_mode_locked := h\<rparr>" by simp
  then show ?thesis by blast
qed

lemma latches_fields [simp]:
  "players (latches tx s) = players s" "pad_buttons (latches tx s) = pad_buttons s" "pad_stick (latches tx s) = pad_stick s"
  "pad_connected (latches tx s) = pad_connected s" "multitap_enabled (latches tx s) = multitap_enabled s"
  "multitap_port (latches tx s) = multitap_port s" "pad_state (latches tx s) = pad_state s"
  "selected_slot (latches tx s) = selected_slot s" "pad_active_logical (latches tx s) = pad_active_logical s"
  "pad_response (latches tx s) = pad_response s" "pad_response_len (latches tx s) = pad_response_len s"
  "pad_response_idx (latches tx s) = pad_response_idx s" "pad_current_cmd (latches tx s) = pad_current_cmd s"
  "pad_mtap_addr (latches tx s) = pad_mtap_addr s" "mtap_next_mode (latches tx s) = mtap_next_mode s"
  "mtap_returned (latches tx s) = mtap_returned s" "pad_supports_config (latches tx s) = pad_supports_config s"
  "pad_legacy_cfg (latches tx s) = pad_legacy_cfg s" "pad_lines (latches tx s) = pad_lines s"
  using latches_update [of tx s] by auto

lemma latches_lines: "latches tx (s\<lparr>pad_lines := l\<rparr>) = (latches tx s)\<lparr>pad_lines := l\<rparr>"
proof -
  have t: "selected_is_mtap_port (s\<lparr>pad_lines := l\<rparr>) = selected_is_mtap_port s" "in_players k (s\<lparr>pad_lines := l\<rparr>) = in_players k s"
    "in_data (s\<lparr>pad_lines := l\<rparr>) = in_data s" for s k
    by (simp_all add: selected_is_mtap_port_def sio_multitap_active_def sio_dual_multitap_def in_players_def in_data_def)
  have q: "latch_req tx (s\<lparr>pad_lines := l\<rparr>) = (latch_req tx s)\<lparr>pad_lines := l\<rparr>" for s
    by (simp add: t latch_req_def Let_def)
  have "latch_motor tx i j (s\<lparr>pad_lines := l\<rparr>) = (latch_motor tx i j s)\<lparr>pad_lines := l\<rparr>" for s i j
    by (simp add: t latch_motor_def)
  moreover have "latch_map tx i j (s\<lparr>pad_lines := l\<rparr>) = (latch_map tx i j s)\<lparr>pad_lines := l\<rparr>" for s i j
    by (simp add: t latch_map_def)
  ultimately have r: "latch_rumble tx (s\<lparr>pad_lines := l\<rparr>) = (latch_rumble tx s)\<lparr>pad_lines := l\<rparr>" for s
    by (simp add: latch_rumble_def Let_def t)
  have c: "latch_config tx (s\<lparr>pad_lines := l\<rparr>) = (latch_config tx s)\<lparr>pad_lines := l\<rparr>" for s
    by (simp add: t latch_config_def)
  have m: "latch_mode tx (s\<lparr>pad_lines := l\<rparr>) = (latch_mode tx s)\<lparr>pad_lines := l\<rparr>" for s
    by (simp add: t latch_mode_def)
  have k: "latch_lock tx (s\<lparr>pad_lines := l\<rparr>) = (latch_lock tx s)\<lparr>pad_lines := l\<rparr>" for s
    by (simp add: t latch_lock_def)
  note qrcmk = q r c m k
  show ?thesis by (simp add: latches_def qrcmk)
qed

lemma finish_fields [simp]:
  "pad_state (mtap_finish_42 s) = pad_state s" "pad_lines (mtap_finish_42 s) = pad_lines s"
  "pad_rumble_small (mtap_finish_42 s) = pad_rumble_small s" "pad_rumble_large (mtap_finish_42 s) = pad_rumble_large s"
  "pad_rumble_map (mtap_finish_42 s) = pad_rumble_map s" "pad_in_config (mtap_finish_42 s) = pad_in_config s"
  "pad_analog (mtap_finish_42 s) = pad_analog s" "pad_type_req (mtap_finish_42 s) = pad_type_req s"
  by (simp_all add: mtap_finish_42_def Let_def)

lemma finish_rx:
  "mtap_finish_42 (s\<lparr>pad_lines := l\<rparr>) = (mtap_finish_42 s)\<lparr>pad_lines := l\<rparr>"
  by (simp add: mtap_finish_42_def selected_is_mtap_port_def sio_multitap_active_def sio_dual_multitap_def Let_def)

lemma pad_end_lines: "pad_end (s\<lparr>pad_lines := l\<rparr>) = (pad_end s)\<lparr>pad_lines := l\<rparr>"
  by (simp add: pad_end_def)

definition respond_one :: "u8 \<Rightarrow> pad_bus \<Rightarrow> pad_bus" where
  "respond_one tx s = (latches tx s)\<lparr>pad_response_idx := pad_response_idx s + 1\<rparr>"

definition respond_all :: "u8 list \<Rightarrow> pad_bus \<Rightarrow> pad_bus" where
  "respond_all txs s = foldl (\<lambda>s tx. respond_one tx s) s txs"

lemma respond_one_lines: "respond_one tx (s\<lparr>pad_lines := l\<rparr>) = (respond_one tx s)\<lparr>pad_lines := l\<rparr>"
  by (simp add: respond_one_def latches_lines)

lemma respond_all_lines: "respond_all txs (s\<lparr>pad_lines := l\<rparr>) = (respond_all txs s)\<lparr>pad_lines := l\<rparr>"
  by (induction txs arbitrary: s) (simp_all add: respond_all_def respond_one_lines)

lemma pad_body_respond:
  assumes "pad_state s = PAD_SEND_RESPONSE"
  shows "pad_body tx s = next_byte (latches tx s)"
  using assms by (simp add: pad_body_def pad_respond_def latches_def)

lemma exchange_more:
  assumes "pad_state s = PAD_SEND_RESPONSE" "pad_response_idx s + 1 < pad_response_len s"
  shows "pad_exchange tx s = ((pad_response s (pad_response_idx s), True), pad_after (pad_response s (pad_response_idx s)) (respond_one tx s))"
  using assms by (intro pad_exchange_ack) (simp add: pad_body_respond next_byte_def Let_def pad_rx_def respond_one_def)

lemma exchange_final:
  assumes "pad_state s = PAD_SEND_RESPONSE" "pad_response_idx s + 1 = pad_response_len s" "pad_quiet s"
  shows "pad_exchange tx s = ((pad_response s (pad_response_idx s), False),
    pad_after (pad_response s (pad_response_idx s)) (pad_end (mtap_finish_42 (respond_one tx s))))"
proof (rule pad_exchange_last)
  show "pad_body tx s = pad_rx (pad_response s (pad_response_idx s)) (pad_end (mtap_finish_42 (respond_one tx s)))"
    using assms(1,2) by (simp add: pad_body_respond next_byte_def Let_def pad_rx_def respond_one_def finish_rx pad_end_lines)
      (simp add: pad_end_def)
  show "pad_quiet (pad_end (mtap_finish_42 (respond_one tx s)))"
    using assms(3) by (simp add: pad_quiet_def pad_end_def respond_one_def)
qed

lemma respond_loop:
  assumes "pad_state s = PAD_SEND_RESPONSE" "pad_response_idx s + length txs = pad_response_len s" "txs \<noteq> []" "pad_quiet s"
  shows "\<exists>t l. pad_exchanges txs s =
      (map (\<lambda>k. (pad_response s k, k + 1 < pad_response_len s)) [pad_response_idx s..<pad_response_len s], t)
    \<and> pad_quiet t \<and> t = (pad_end (mtap_finish_42 (respond_all txs s)))\<lparr>pad_lines := l\<rparr>"
  using assms
proof (induction txs arbitrary: s)
  case (Cons tx txs)
  let ?i = "pad_response_idx s"
  have i: "[?i..<pad_response_len s] = ?i # [Suc ?i..<pad_response_len s]" using Cons.prems(2) by (simp add: upt_conv_Cons)
  show ?case
  proof (cases "txs = []")
    case True
    then show ?thesis using exchange_final [OF Cons.prems(1) _ Cons.prems(4), of tx] Cons.prems(2)
      by (simp add: i respond_all_def) (auto simp: pad_after_def pad_quiet_def settled_bits)
  next
    case False
    let ?s = "pad_after (pad_response s ?i) (respond_one tx s)"
    have more: "?i + 1 < pad_response_len s" using False Cons.prems(2) by (cases txs) auto
    have f: "pad_state ?s = PAD_SEND_RESPONSE" "pad_response_idx ?s = Suc ?i" "pad_response_len ?s = pad_response_len s"
      "pad_response ?s = pad_response s"
      using Cons.prems(1) by (simp_all add: pad_after_def respond_one_def)
    obtain t l where t: "pad_exchanges txs ?s =
        (map (\<lambda>k. (pad_response s k, k + 1 < pad_response_len s)) [Suc ?i..<pad_response_len s], t)"
      and "pad_quiet t" "t = (pad_end (mtap_finish_42 (respond_all txs ?s)))\<lparr>pad_lines := l\<rparr>"
      using Cons.IH [OF f(1) _ False] Cons.prems(2) unfolding f by auto
    moreover have "respond_all txs ?s = (respond_all (tx # txs) s)\<lparr>pad_lines := \<lparr>rx_data = pad_response s ?i,
        stat = settled (stat (pad_lines (respond_one tx s)))\<rparr>\<rparr>"
      unfolding pad_after_def respond_all_lines by (simp add: respond_all_def)
    ultimately show ?thesis using exchange_more [OF Cons.prems(1) more, of tx]
      by (intro exI [of _ t] exI [of _ l]) (simp add: i more [simplified] finish_rx pad_end_lines)
  qed
qed simp

subsection \<open>Transactions\<close>

lemma apply_requests_fields [simp]:
  "selected_slot (apply_requests s) = selected_slot s" "players (apply_requests s) = players s"
  "pad_connected (apply_requests s) = pad_connected s" "pad_lines (apply_requests s) = pad_lines s"
  "pad_in_config (apply_requests s) = pad_in_config s" "pad_buttons (apply_requests s) = pad_buttons s"
  "pad_stick (apply_requests s) = pad_stick s" "pad_state (apply_requests s) = pad_state s"
  "pad_port_has_device p (apply_requests s) = pad_port_has_device p s"
  "pad_logical_for_port p (apply_requests s) = pad_logical_for_port p s"
  "selected_is_mtap_port (apply_requests s) = selected_is_mtap_port s"
  "in_players p (apply_requests s) = in_players p s" "is_connected p (apply_requests s) = is_connected p s"
  "mtap_slot_a_logical (apply_requests s) = mtap_slot_a_logical s"
  by (simp_all add: apply_requests_def pad_port_has_device_def pad_logical_for_port_def selected_is_mtap_port_def
      sio_multitap_active_def sio_dual_multitap_def is_connected_def mtap_standalone_logical_def in_players_def
      mtap_slot_a_logical_def)

definition opened :: "u8 \<Rightarrow> pad_bus \<Rightarrow> pad_bus" where
  "opened c s =
     (apply_requests s)\<lparr>pad_active_logical := pad_logical_for_port (selected_slot s) s, pad_mtap_addr := 0x01,
       pad_state := PAD_WAIT_ACCESS, pad_current_cmd := c, pad_response_idx := 1,
       mtap_req_this := (if selected_slot s \<ge> 0 \<and> selected_slot s \<le> 1 then (mtap_req_this s)(selected_slot s := False) else mtap_req_this s)\<rparr>"

lemma opened_fields [simp]:
  "selected_slot (opened c s) = selected_slot s" "players (opened c s) = players s"
  "pad_in_config (opened c s) = pad_in_config s" "pad_buttons (opened c s) = pad_buttons s"
  "pad_stick (opened c s) = pad_stick s" "pad_analog (opened c s) = pad_analog (apply_requests s)"
  "pad_current_cmd (opened c s) = c" "pad_response_idx (opened c s) = 1"
  "pad_active_logical (opened c s) = pad_logical_for_port (selected_slot s) s"
  "pad_rumble_map (opened c s) = pad_rumble_map s" "pad_rumble_small (opened c s) = pad_rumble_small s"
  "pad_rumble_large (opened c s) = pad_rumble_large s" "pad_supports_config (opened c s) = pad_supports_config s"
  "pad_legacy_cfg (opened c s) = pad_legacy_cfg s" "pad_mtap_addr (opened c s) = 0x01"
  "mtap_next_mode (opened c s) = mtap_next_mode s" "pad_connected (opened c s) = pad_connected s"
  "selected_is_mtap_port (opened c s) = selected_is_mtap_port s"
  "in_players p (opened c s) = in_players p s" "is_connected p (opened c s) = is_connected p s"
  "mtap_slot_a_logical (opened c s) = mtap_slot_a_logical s"
  by (simp_all add: opened_def apply_requests_def selected_is_mtap_port_def
      sio_multitap_active_def sio_dual_multitap_def is_connected_def in_players_def mtap_slot_a_logical_def)

definition framed :: "u8 list \<Rightarrow> pad_bus \<Rightarrow> pad_bus" where
  "framed bs s = s\<lparr>pad_response := load_bytes bs (pad_response s), pad_response_len := length bs, pad_state := PAD_SEND_RESPONSE\<rparr>"

lemma framed_fields [simp]:
  "pad_state (framed bs s) = PAD_SEND_RESPONSE" "pad_response_len (framed bs s) = length bs"
  "pad_response_idx (framed bs s) = pad_response_idx s" "k < length bs \<Longrightarrow> pad_response (framed bs s) k = bs ! k"
  "pad_current_cmd (framed bs s) = pad_current_cmd s" "pad_analog (framed bs s) = pad_analog s"
  "pad_in_config (framed bs s) = pad_in_config s" "pad_rumble_map (framed bs s) = pad_rumble_map s"
  "pad_rumble_small (framed bs s) = pad_rumble_small s" "pad_rumble_large (framed bs s) = pad_rumble_large s"
  "pad_active_logical (framed bs s) = pad_active_logical s" "selected_slot (framed bs s) = selected_slot s"
  "in_players p (framed bs s) = in_players p s" "selected_is_mtap_port (framed bs s) = selected_is_mtap_port s"
  "pad_mtap_addr (framed bs s) = pad_mtap_addr s" "pad_type_req (framed bs s) = pad_type_req s"
  by (simp_all add: framed_def load_bytes_def in_players_def selected_is_mtap_port_def sio_multitap_active_def sio_dual_multitap_def)

definition answer :: "u8 list \<Rightarrow> (u8 \<times> bool) list" where
  "answer bs = map (\<lambda>k. (bs ! k, k + 1 < length bs)) [0..<length bs]"

lemma pad_select_step:
  assumes "pad_state s = PAD_IDLE" "pad_port_has_device (selected_slot s) s"
  shows "\<exists>l. pad_exchange 0x01 s = ((0xFF, True), (apply_requests s)\<lparr>pad_active_logical := pad_logical_for_port (selected_slot s) s,
     pad_mtap_addr := 0x01, pad_state := PAD_WAIT_ACCESS, pad_lines := l\<rparr>)"
proof -
  have "pad_body 0x01 s = pad_ack (pad_rx 0xFF ((apply_requests s)\<lparr>pad_active_logical := pad_logical_for_port (selected_slot s) s,
     pad_mtap_addr := 0x01, pad_state := PAD_WAIT_ACCESS\<rparr>))"
    using assms by (simp add: pad_body_def pad_select_def)
  from pad_exchange_ack [OF this] show ?thesis by (auto simp: pad_after_def)
qed

text \<open>The command byte: what is answered when a frame is sent, possibly noting what the tap returned.\<close>

lemma pad_command_step:
  assumes "pad_state s = PAD_WAIT_ACCESS" "bs \<noteq> []" and "pad_wait_access c s = f (send_frame bs t)"
    and f: "\<And>u l. f (u\<lparr>pad_lines := l\<rparr>) = (f u)\<lparr>pad_lines := l\<rparr>" "\<And>u. pad_lines (f u) = pad_lines u"
  shows "\<exists>l. pad_exchange c s = ((bs ! 0, True), (f (framed bs t))\<lparr>pad_lines := l\<rparr>) \<and> \<not> bit (stat l) 7"
proof -
  have "send_frame bs t = pad_ack (pad_rx (bs ! 0) (framed bs t))"
    using assms(2) by (simp add: send_frame_def framed_def load_bytes_def Let_def)
  then have "pad_body c s = pad_ack (pad_rx (bs ! 0) (f (framed bs t)))"
    using assms(1,3) by (simp add: pad_body_def pad_ack_def pad_rx_def f)
  from pad_exchange_ack [OF this] show ?thesis by (auto simp: pad_after_def settled_bits)
qed

text \<open>The whole transaction: the select byte, the command and the rest of the frame.\<close>

lemma pad_transaction:
  assumes s: "pad_state s = PAD_IDLE" "pad_port_has_device (selected_slot s) s"
    and cmd: "\<And>l. pad_wait_access c ((apply_requests s)\<lparr>pad_active_logical := pad_logical_for_port (selected_slot s) s,
     pad_mtap_addr := 0x01, pad_state := PAD_WAIT_ACCESS, pad_lines := l\<rparr>) = f (send_frame bs ((opened c s)\<lparr>pad_lines := l\<rparr>))"
    and f: "\<And>u l. f (u\<lparr>pad_lines := l\<rparr>) = (f u)\<lparr>pad_lines := l\<rparr>" "\<And>u. pad_lines (f u) = pad_lines u"
      "\<And>u. pad_state (f u) = pad_state u" "\<And>u. pad_response (f u) = pad_response u"
      "\<And>u. pad_response_len (f u) = pad_response_len u" "\<And>u. pad_response_idx (f u) = pad_response_idx u"
    and len: "length bs = length filler + 1" "filler \<noteq> []"
  shows "\<exists>t l. pad_exchanges (0x01 # c # filler) s = ((0xFF, True) # answer bs, t) \<and> pad_quiet t
    \<and> t = (pad_end (mtap_finish_42 (respond_all filler (f (framed bs (opened c s))))))\<lparr>pad_lines := l\<rparr>"
proof -
  have bs: "bs \<noteq> []" using len by auto
  obtain l where e1: "pad_exchange 0x01 s = ((0xFF, True), (apply_requests s)\<lparr>pad_active_logical := pad_logical_for_port (selected_slot s) s,
     pad_mtap_addr := 0x01, pad_state := PAD_WAIT_ACCESS, pad_lines := l\<rparr>)"
    using pad_select_step [OF s] by blast
  let ?s1 = "(apply_requests s)\<lparr>pad_active_logical := pad_logical_for_port (selected_slot s) s,
     pad_mtap_addr := 0x01, pad_state := PAD_WAIT_ACCESS, pad_lines := l\<rparr>"
  obtain l2 where e2: "pad_exchange c ?s1 = ((bs ! 0, True), (f (framed bs ((opened c s)\<lparr>pad_lines := l\<rparr>)))\<lparr>pad_lines := l2\<rparr>)"
    and q: "\<not> bit (stat l2) 7"
    using pad_command_step [OF _ bs cmd f(1,2)] by auto
  have fr: "framed bs ((opened c s)\<lparr>pad_lines := l\<rparr>) = (framed bs (opened c s))\<lparr>pad_lines := l\<rparr>" by (simp add: framed_def)
  let ?s2 = "(f (framed bs (opened c s)))\<lparr>pad_lines := l2\<rparr>"
  have e2': "pad_exchange c ?s1 = ((bs ! 0, True), ?s2)" using e2 by (simp add: fr f(1))
  have s2: "pad_state ?s2 = PAD_SEND_RESPONSE" "pad_response_len ?s2 = length bs" "pad_response_idx ?s2 = 1"
    "\<And>k. k < length bs \<Longrightarrow> pad_response ?s2 k = bs ! k" "pad_quiet ?s2"
    using q by (simp_all add: f pad_quiet_def)
  obtain t m where t: "pad_exchanges filler ?s2 = (map (\<lambda>k. (pad_response ?s2 k, k + 1 < length bs)) [1..<length bs], t)" "pad_quiet t"
    "t = (pad_end (mtap_finish_42 (respond_all filler ?s2)))\<lparr>pad_lines := m\<rparr>"
    using respond_loop [OF s2(1) _ len(2) s2(5)] len(1) unfolding s2(2,3) by auto
  have "map (\<lambda>k. (pad_response ?s2 k, k + 1 < length bs)) [1..<length bs] = map (\<lambda>k. (bs ! k, k + 1 < length bs)) [1..<length bs]"
    using s2(4) by auto
  moreover have "answer bs = (bs ! 0, True) # map (\<lambda>k. (bs ! k, k + 1 < length bs)) [1..<length bs]"
  proof -
    have "[0..<length bs] = 0 # [1..<length bs]" using bs by (simp add: upt_conv_Cons)
    moreover have "1 < length bs" using len by (cases filler) auto
    ultimately show ?thesis by (simp add: answer_def)
  qed
  ultimately have "pad_exchanges (0x01 # c # filler) s = ((0xFF, True) # answer bs, t)"
    using t(1) by (simp add: e1 e2')
  then show ?thesis using t(2,3) by (auto simp: respond_all_lines finish_rx pad_end_lines)
qed

lemma tap_port_upd:
  "selected_is_mtap_port (s\<lparr>pad_current_cmd := c\<rparr>) = selected_is_mtap_port s"
  "selected_is_mtap_port (s\<lparr>pad_response_idx := k\<rparr>) = selected_is_mtap_port s"
  "selected_is_mtap_port (s\<lparr>mtap_req_this := r\<rparr>) = selected_is_mtap_port s"
  "selected_is_mtap_port (s\<lparr>pad_active_logical := n\<rparr>) = selected_is_mtap_port s"
  "selected_is_mtap_port (s\<lparr>pad_mtap_addr := v\<rparr>) = selected_is_mtap_port s"
  "selected_is_mtap_port (s\<lparr>pad_state := st\<rparr>) = selected_is_mtap_port s"
  "selected_is_mtap_port (s\<lparr>pad_lines := l\<rparr>) = selected_is_mtap_port s"
  by (simp_all add: selected_is_mtap_port_def sio_multitap_active_def sio_dual_multitap_def)

lemma wait_access_command:
  "\<not> selected_is_mtap_port s \<Longrightarrow> pad_wait_access c s = pad_command c (commanded c s)"
  by (simp add: pad_wait_access_def Let_def commanded_def tap_port_upd)

text \<open>The state after the select byte, and after the command byte is noted.\<close>

abbreviation selected_state :: "bus_lines \<Rightarrow> pad_bus \<Rightarrow> pad_bus" where
  "selected_state l s \<equiv> (apply_requests s)\<lparr>pad_active_logical := pad_logical_for_port (selected_slot s) s,
     pad_mtap_addr := 0x01, pad_state := PAD_WAIT_ACCESS, pad_lines := l\<rparr>"

lemma commanded_selected: "commanded c (selected_state l s) = (opened c s)\<lparr>pad_lines := l\<rparr>"
proof -
  have "mtap_req_this (apply_requests s) = mtap_req_this s" by (simp add: apply_requests_def)
  then show ?thesis by (intro pad_bus.equality) (simp_all add: commanded_def opened_def)
qed

lemma wait_access_plain:
  assumes "\<not> selected_is_mtap_port s"
  shows "pad_wait_access c (selected_state l s) = pad_command c ((opened c s)\<lparr>pad_lines := l\<rparr>)"
  using assms by (simp add: wait_access_command tap_port_upd commanded_selected)

text \<open>What a response leaves alone, by command.\<close>

lemma latches_by_command:
  "pad_current_cmd s \<noteq> 0x44 \<Longrightarrow> pad_analog (latches tx s) = pad_analog s"
  "pad_current_cmd s \<noteq> 0x44 \<Longrightarrow> pad_type_req (latches tx s) = pad_type_req s"
  "pad_current_cmd s \<noteq> 0x43 \<Longrightarrow> pad_in_config (latches tx s) = pad_in_config s"
  "pad_current_cmd s \<noteq> 0x4D \<Longrightarrow> pad_rumble_map (latches tx s) = pad_rumble_map s"
  "pad_current_cmd s \<noteq> 0x42 \<Longrightarrow> pad_rumble_small (latches tx s) = pad_rumble_small s"
  "pad_current_cmd s \<noteq> 0x42 \<Longrightarrow> pad_rumble_large (latches tx s) = pad_rumble_large s"
proof -
  have q: "pad_current_cmd (latch_req tx s) = pad_current_cmd s" "pad_analog (latch_req tx s) = pad_analog s"
    "pad_type_req (latch_req tx s) = pad_type_req s" "pad_in_config (latch_req tx s) = pad_in_config s"
    "pad_rumble_map (latch_req tx s) = pad_rumble_map s" "pad_rumble_small (latch_req tx s) = pad_rumble_small s"
    "pad_rumble_large (latch_req tx s) = pad_rumble_large s" for s
    by (simp_all add: latch_req_def Let_def)
  have m: "pad_current_cmd (latch_motor tx i j s) = pad_current_cmd s" "pad_analog (latch_motor tx i j s) = pad_analog s"
    "pad_type_req (latch_motor tx i j s) = pad_type_req s" "pad_in_config (latch_motor tx i j s) = pad_in_config s"
    "pad_rumble_map (latch_motor tx i j s) = pad_rumble_map s"
    "pad_current_cmd s \<noteq> 0x42 \<Longrightarrow> latch_motor tx i j s = s" for s i j
    by (simp_all add: latch_motor_def)
  have n: "pad_current_cmd (latch_map tx i j s) = pad_current_cmd s" "pad_analog (latch_map tx i j s) = pad_analog s"
    "pad_type_req (latch_map tx i j s) = pad_type_req s" "pad_in_config (latch_map tx i j s) = pad_in_config s"
    "pad_rumble_small (latch_map tx i j s) = pad_rumble_small s" "pad_rumble_large (latch_map tx i j s) = pad_rumble_large s"
    "pad_current_cmd s \<noteq> 0x4D \<Longrightarrow> latch_map tx i j s = s" for s i j
    by (simp_all add: latch_map_def)
  have r: "pad_current_cmd (latch_rumble tx s) = pad_current_cmd s" "pad_analog (latch_rumble tx s) = pad_analog s"
    "pad_type_req (latch_rumble tx s) = pad_type_req s" "pad_in_config (latch_rumble tx s) = pad_in_config s"
    "pad_current_cmd s \<noteq> 0x4D \<Longrightarrow> pad_rumble_map (latch_rumble tx s) = pad_rumble_map s"
    "pad_current_cmd s \<noteq> 0x42 \<Longrightarrow> pad_rumble_small (latch_rumble tx s) = pad_rumble_small s"
    "pad_current_cmd s \<noteq> 0x42 \<Longrightarrow> pad_rumble_large (latch_rumble tx s) = pad_rumble_large s" for s
    by (simp_all add: latch_rumble_def Let_def m n)
  have c: "pad_current_cmd (latch_config tx s) = pad_current_cmd s" "pad_analog (latch_config tx s) = pad_analog s"
    "pad_type_req (latch_config tx s) = pad_type_req s" "pad_rumble_map (latch_config tx s) = pad_rumble_map s"
    "pad_rumble_small (latch_config tx s) = pad_rumble_small s" "pad_rumble_large (latch_config tx s) = pad_rumble_large s"
    "pad_current_cmd s \<noteq> 0x43 \<Longrightarrow> pad_in_config (latch_config tx s) = pad_in_config s" for s
    by (simp_all add: latch_config_def)
  have o: "pad_in_config (latch_mode tx s) = pad_in_config s" "pad_rumble_map (latch_mode tx s) = pad_rumble_map s"
    "pad_rumble_small (latch_mode tx s) = pad_rumble_small s" "pad_rumble_large (latch_mode tx s) = pad_rumble_large s"
    "pad_current_cmd s \<noteq> 0x44 \<Longrightarrow> latch_mode tx s = s" for s
    by (simp_all add: latch_mode_def)
  have k: "pad_analog (latch_lock tx s) = pad_analog s" "pad_type_req (latch_lock tx s) = pad_type_req s"
    "pad_in_config (latch_lock tx s) = pad_in_config s" "pad_rumble_map (latch_lock tx s) = pad_rumble_map s"
    "pad_rumble_small (latch_lock tx s) = pad_rumble_small s" "pad_rumble_large (latch_lock tx s) = pad_rumble_large s" for s
    by (simp_all add: latch_lock_def)
  show "pad_current_cmd s \<noteq> 0x44 \<Longrightarrow> pad_analog (latches tx s) = pad_analog s"
    "pad_current_cmd s \<noteq> 0x44 \<Longrightarrow> pad_type_req (latches tx s) = pad_type_req s"
    "pad_current_cmd s \<noteq> 0x43 \<Longrightarrow> pad_in_config (latches tx s) = pad_in_config s"
    "pad_current_cmd s \<noteq> 0x4D \<Longrightarrow> pad_rumble_map (latches tx s) = pad_rumble_map s"
    "pad_current_cmd s \<noteq> 0x42 \<Longrightarrow> pad_rumble_small (latches tx s) = pad_rumble_small s"
    "pad_current_cmd s \<noteq> 0x42 \<Longrightarrow> pad_rumble_large (latches tx s) = pad_rumble_large s"
    by (simp_all add: latches_def k o c r q)
qed

lemma respond_all_fields [simp]:
  "pad_current_cmd (respond_all txs s) = pad_current_cmd s" "pad_state (respond_all txs s) = pad_state s"
  "pad_response_idx (respond_all txs s) = pad_response_idx s + length txs"
  "pad_active_logical (respond_all txs s) = pad_active_logical s" "players (respond_all txs s) = players s"
  "pad_buttons (respond_all txs s) = pad_buttons s" "pad_connected (respond_all txs s) = pad_connected s"
  "pad_supports_config (respond_all txs s) = pad_supports_config s" "pad_legacy_cfg (respond_all txs s) = pad_legacy_cfg s"
  "selected_slot (respond_all txs s) = selected_slot s" "multitap_enabled (respond_all txs s) = multitap_enabled s"
  "multitap_port (respond_all txs s) = multitap_port s" "pad_stick (respond_all txs s) = pad_stick s"
  by (induction txs arbitrary: s) (simp_all add: respond_all_def respond_one_def)

lemma respond_all_by_command:
  "pad_current_cmd s \<noteq> 0x44 \<Longrightarrow> pad_analog (respond_all txs s) = pad_analog s"
  "pad_current_cmd s \<noteq> 0x44 \<Longrightarrow> pad_type_req (respond_all txs s) = pad_type_req s"
  "pad_current_cmd s \<noteq> 0x43 \<Longrightarrow> pad_in_config (respond_all txs s) = pad_in_config s"
  "pad_current_cmd s \<noteq> 0x4D \<Longrightarrow> pad_rumble_map (respond_all txs s) = pad_rumble_map s"
  "pad_current_cmd s \<noteq> 0x42 \<Longrightarrow> pad_rumble_small (respond_all txs s) = pad_rumble_small s"
  "pad_current_cmd s \<noteq> 0x42 \<Longrightarrow> pad_rumble_large (respond_all txs s) = pad_rumble_large s"
  by (induction txs arbitrary: s) (simp_all add: respond_all_def respond_one_def latches_by_command)

subsection \<open>The poll\<close>

lemma port_connected:
  "pad_port_has_device (selected_slot s) s \<Longrightarrow> \<not> selected_is_mtap_port s \<Longrightarrow> is_connected (pad_logical_for_port (selected_slot s) s) s"
  by (auto simp: pad_port_has_device_def selected_is_mtap_port_def pad_logical_for_port_def split: if_splits)

lemma id_commutes: "(\<lambda>u :: pad_bus. u) (u\<lparr>pad_lines := l\<rparr>) = ((\<lambda>u. u) u)\<lparr>pad_lines := l\<rparr>"
  by simp

lemma send_frame_lines: "poll_frame i b (s\<lparr>pad_lines := l\<rparr>) = poll_frame i b s"
  by (simp add: poll_frame_def pad_id_def button_bytes_def stick_bytes_def)

lemma command_poll:
  assumes "in_players lp s" "is_connected lp s" "lp = pad_active_logical s"
  shows "pad_command 0x42 (s\<lparr>pad_lines := l\<rparr>) =
    send_frame (poll_frame (nat lp) (pad_analog s (nat lp) \<or> pad_in_config s (nat lp)) s) (s\<lparr>pad_lines := l\<rparr>)"
  using assms by (simp add: pad_command_def command_frame_def Let_def send_frame_lines in_players_def is_connected_def)

lemma length_poll_frame: "length (poll_frame i b s) = (if b then 8 else 4)"
  by (simp add: poll_frame_def button_bytes_def stick_bytes_def)

lemma poll_run:
  fixes s :: pad_bus
  defines "lp \<equiv> pad_logical_for_port (selected_slot s) s"
  defines "bs \<equiv> poll_frame (nat lp) (pad_analog (apply_requests s) (nat lp) \<or> pad_in_config s (nat lp)) (apply_requests s)"
  assumes s: "pad_state s = PAD_IDLE" "pad_port_has_device (selected_slot s) s" "\<not> selected_is_mtap_port s" "in_players lp s"
    and len: "length filler + 1 = length bs"
  shows "\<exists>t l. pad_exchanges (0x01 # 0x42 # filler) s = ((0xFF, True) # answer bs, t) \<and> pad_quiet t
    \<and> t = (pad_end (mtap_finish_42 (respond_all filler (framed bs (opened 0x42 s)))))\<lparr>pad_lines := l\<rparr>"
proof -
  have ne: "filler \<noteq> []" "length bs = length filler + 1" using len by (auto simp: bs_def length_poll_frame split: if_splits)
  have bs: "bs = poll_frame (nat lp) (pad_analog (opened 0x42 s) (nat lp) \<or> pad_in_config (opened 0x42 s) (nat lp)) (opened 0x42 s)"
    by (simp add: bs_def poll_frame_def pad_id_def button_bytes_def stick_bytes_def)
  have "pad_command 0x42 ((opened 0x42 s)\<lparr>pad_lines := l\<rparr>) = send_frame bs ((opened 0x42 s)\<lparr>pad_lines := l\<rparr>)" for l
    unfolding bs using s port_connected [OF s(2,3)] by (intro command_poll) (simp_all add: lp_def)
  then show ?thesis
    using pad_transaction [OF s(1,2), of "0x42" "\<lambda>u. u" bs filler] ne by (simp add: wait_access_plain [OF s(3)])
qed

text \<open>
  C8. A poll reports the pad: to the select byte, the poll command and as many more bytes as the frame
  needs, a connected pad on a port of its own answers with its identifier for the mode it is in
  (configuring, analog or digital), 0x5A, the buttons low byte first and, for an analog or configuring
  pad, the right and left stick, acknowledging every byte but the last; the pending request for a type
  is taken at the select byte and the mode does not change after it.
\<close>

theorem pad_poll_reports:
  fixes s :: pad_bus
  defines "u \<equiv> apply_requests s"
  defines "i \<equiv> nat (pad_logical_for_port (selected_slot s) s)"
  defines "bs \<equiv> [if pad_in_config u i then 0xF3 else if pad_analog u i then 0x73 else 0x41, 0x5A,
      ucast (pad_buttons s i), ucast (drop_bit 8 (pad_buttons s i))]
    @ (if pad_analog u i \<or> pad_in_config u i then [pad_stick s i 2, pad_stick s i 3, pad_stick s i 0, pad_stick s i 1] else [])"
  assumes "pad_state s = PAD_IDLE" "pad_port_has_device (selected_slot s) s" "\<not> selected_is_mtap_port s"
    and "in_players (pad_logical_for_port (selected_slot s) s) s" "length filler + 1 = length bs"
  shows "\<exists>t. pad_exchanges (0x01 # 0x42 # filler) s = ((0xFF, True) # answer bs, t)
    \<and> pad_state t = PAD_IDLE \<and> pad_analog t = pad_analog u \<and> pad_in_config t = pad_in_config s"
proof -
  have bs: "bs = poll_frame i (pad_analog (apply_requests s) i \<or> pad_in_config s i) (apply_requests s)"
    by (simp add: bs_def poll_frame_def pad_id_def button_bytes_def stick_bytes_def u_def)
  obtain t l where "pad_exchanges (0x01 # 0x42 # filler) s = ((0xFF, True) # answer bs, t)"
    and t: "t = (pad_end (mtap_finish_42 (respond_all filler (framed bs (opened 0x42 s)))))\<lparr>pad_lines := l\<rparr>"
    using poll_run [OF assms(4-7), of filler] assms(8) unfolding bs i_def by auto
  then show ?thesis
    by (simp add: t pad_end_def respond_all_by_command u_def)
qed

definition demo_pads :: pad_bus where
  "demo_pads = \<lparr>players = 5, pad_buttons = (\<lambda>_. 0xFE), pad_analog = (\<lambda>_. False), pad_stick = (\<lambda>_ _. 0x80),
     pad_rumble_map = (\<lambda>_ _. 0xFF), pad_rumble_small = (\<lambda>_. 0), pad_rumble_large = (\<lambda>_. 0),
     analog_mode_locked = (\<lambda>_. False), pad_connected = 0x1F, multitap_enabled = False, multitap_port = 0,
     multitap_analog_hack = False, pad_state = PAD_IDLE, selected_slot = 0, pad_active_logical = 0,
     pad_response = (\<lambda>_. 0), pad_response_len = 0, pad_response_idx = 0, pad_current_cmd = 0, pad_mtap_addr = 1,
     mtap_next_mode = (\<lambda>_. MTAP_NEXT_SLOT_A), mtap_req_this = (\<lambda>_. False), mtap_returned = (\<lambda>_. MTAP_NEXT_SLOT_A),
     pad_in_config = (\<lambda>_. False), pad_supports_config = (\<lambda>_. True), pad_type_req = (\<lambda>_. None), pad_legacy_cfg = False,
     pad_lines = \<lparr>rx_data = 0xFF, stat = 5\<rparr>\<rparr>"

lemma demo_pads_port:
  "pad_port_has_device 0 demo_pads" "pad_logical_for_port 0 demo_pads = 0" "\<not> selected_is_mtap_port demo_pads"
  "in_players 0 demo_pads" "apply_requests demo_pads = demo_pads"
  by (simp_all add: demo_pads_def pad_port_has_device_def sio_multitap_active_def is_connected_def pad_logical_for_port_def
      selected_is_mtap_port_def in_players_def apply_requests_def settles_def)

theorem pad_poll_reports_witness:
  "\<exists>t. pad_exchanges [0x01, 0x42, 0, 0, 0] demo_pads =
      ((0xFF, True) # answer [0x41, 0x5A, 0xFE, 0x00], t) \<and> pad_state t = PAD_IDLE"
proof -
  have f: "selected_slot demo_pads = 0" "pad_state demo_pads = PAD_IDLE" "pad_in_config demo_pads 0 = False"
    "pad_analog demo_pads 0 = False" "pad_buttons demo_pads 0 = 0xFE" by (simp_all add: demo_pads_def)
  show ?thesis using pad_poll_reports [of demo_pads "[0, 0, 0]"]
    by (auto simp: f demo_pads_port)
qed

subsection \<open>The length of a transaction\<close>

definition pad_ok :: "pad_bus \<Rightarrow> bool" where
  "pad_ok s \<longleftrightarrow> (pad_state s = PAD_SEND_RESPONSE \<longrightarrow>
     1 \<le> pad_response_idx s \<and> pad_response_idx s < pad_response_len s \<and> pad_response_len s \<le> PAD_RESPONSE_MAX)"

definition pad_rank :: "pad_bus \<Rightarrow> nat" where
  "pad_rank s = (case pad_state s of PAD_IDLE \<Rightarrow> 0 | PAD_WAIT_ACCESS \<Rightarrow> 34
     | PAD_SEND_RESPONSE \<Rightarrow> pad_response_len s - pad_response_idx s)"

text \<open>After a command byte the pad is idle or sends a frame of 3 to 34 bytes from index 1.\<close>

definition sends :: "pad_bus \<Rightarrow> bool" where
  "sends s \<longleftrightarrow> pad_state s = PAD_IDLE \<or> pad_state s = PAD_SEND_RESPONSE \<and> pad_response_idx s = 1
     \<and> 3 \<le> pad_response_len s \<and> pad_response_len s \<le> PAD_RESPONSE_MAX"

lemma hi_z_sends: "sends (hi_z s)"
  by (simp add: sends_def hi_z_def pad_end_def pad_rx_def)

lemma send_frame_sends: "pad_response_idx s = 1 \<Longrightarrow> 3 \<le> length bs \<Longrightarrow> length bs \<le> 34 \<Longrightarrow> sends (send_frame bs s)"
  by (simp add: sends_def send_frame_def pad_ack_def pad_rx_def Let_def)

lemma frame_lengths:
  "length (live_canned i c s) = 8" "length (config_frame i c s) = 8" "length (pad_fill_status8 lp s) = 8"
  by (auto simp: live_canned_def canned_def config_frame_def Let_def pad_fill_status8_def button_bytes_def stick_bytes_def)

lemma toggle_length: "3 \<le> length (toggle_frame i s)" "length (toggle_frame i s) \<le> 34"
  by (auto simp: toggle_frame_def length_poll_frame)

lemma command_sends: "pad_response_idx s = 1 \<Longrightarrow> sends (pad_command c s)"
  by (auto simp: pad_command_def command_frame_def Let_def length_poll_frame frame_lengths toggle_length
      split: option.split if_splits intro!: hi_z_sends send_frame_sends)

lemma set_returned_sends: "sends (set_returned v s) = sends s"
  by (simp add: sends_def set_returned_def)

lemma length_bulk: "length (concat (map (\<lambda>i. pad_fill_status8 (base + int i) s) [0..<4])) = 32"
  by (simp add: length_concat frame_lengths comp_def sum_list_triv)

lemma wait_access_sends: "sends (pad_wait_access c s)"
proof -
  have idx: "pad_response_idx (commanded c s) = 1" for c by (simp add: commanded_def)
  moreover have "pad_response_idx (set_returned v t) = pad_response_idx t" for v t by (simp add: set_returned_def)
  ultimately show ?thesis
    by (simp add: pad_wait_access_def Let_def set_returned_sends send_frame_sends command_sends length_bulk)
qed

lemma pad_process_ok_rank:
  assumes "pad_ok s"
  shows "pad_ok (pad_process_byte tx s)"
    and "pad_rank s \<noteq> 0 \<Longrightarrow> pad_rank (pad_process_byte tx s) < pad_rank s"
proof -
  define t where "t = pad_body tx s"
  have b: "pad_process_byte tx s = t\<lparr>pad_lines := byte_done (pad_lines t)\<rparr>" by (simp add: pad_process_body t_def Let_def)
  have "pad_ok t \<and> (pad_rank s \<noteq> 0 \<longrightarrow> pad_rank t < pad_rank s)"
  proof (cases "pad_state s")
    case PAD_IDLE
    then have "pad_state t = PAD_IDLE \<or> pad_state t = PAD_WAIT_ACCESS"
      by (auto simp: t_def pad_body_def pad_select_def pad_ack_def pad_rx_def)
    then show ?thesis using PAD_IDLE by (auto simp: pad_ok_def pad_rank_def)
  next
    case PAD_WAIT_ACCESS
    then have "sends t" using wait_access_sends by (simp add: t_def pad_body_def)
    then show ?thesis using PAD_WAIT_ACCESS by (auto simp: sends_def pad_ok_def pad_rank_def)
  next
    case PAD_SEND_RESPONSE
    let ?n = "latches tx s"
    have i: "1 \<le> pad_response_idx s" "pad_response_idx s < pad_response_len s" "pad_response_len s \<le> 34"
      using assms PAD_SEND_RESPONSE by (auto simp: pad_ok_def)
    have t: "t = next_byte ?n" using PAD_SEND_RESPONSE by (simp add: t_def pad_body_respond)
    show ?thesis
    proof (cases "pad_response_idx s + 1 < pad_response_len s")
      case True
      then show ?thesis using i PAD_SEND_RESPONSE
        by (simp add: t next_byte_def Let_def pad_rx_def pad_ack_def pad_ok_def pad_rank_def)
    next
      case False
      then have "pad_state t = PAD_IDLE" using i by (simp add: t next_byte_def Let_def pad_rx_def pad_end_def)
      then show ?thesis using i PAD_SEND_RESPONSE by (simp add: pad_ok_def pad_rank_def)
    qed
  qed
  then show "pad_ok (pad_process_byte tx s)" "pad_rank s \<noteq> 0 \<Longrightarrow> pad_rank (pad_process_byte tx s) < pad_rank s"
    by (simp_all add: b pad_ok_def pad_rank_def cong: pad_state.case_cong)
qed

interpretation pad: byte_device "\<lambda>s b. pad_process_byte b s" pad_ok pad_rank 34
proof unfold_locales
  fix s b assume ok: "pad_ok s"
  show "pad_ok (pad_process_byte b s)" by (rule pad_process_ok_rank [OF ok])
  show "pad_rank s \<le> 34" using ok by (auto simp: pad_ok_def pad_rank_def split: pad_state.split)
  show "pad_rank s \<noteq> 0 \<Longrightarrow> pad_rank (pad_process_byte b s) < pad_rank s" by (rule pad_process_ok_rank [OF ok])
qed

text \<open>
  A pad transaction ends: whatever bytes follow, a pad that is in the middle of one is idle again
  within 34 bytes (the longest is the multitap's bulk frame), and whenever a byte of the frame is sent its
  index is below the length, which is at most 34, the size of the response buffer.
\<close>

theorem pad_transaction_ends:
  assumes "pad_ok s" "34 \<le> length bs"
  shows "(\<exists>n \<le> 34. pad_state (foldl (\<lambda>s b. pad_process_byte b s) s (take n bs)) = PAD_IDLE)
    \<and> (\<forall>n. let t = foldl (\<lambda>s b. pad_process_byte b s) s (take n bs) in pad_state t = PAD_SEND_RESPONSE \<longrightarrow>
        pad_response_idx t < pad_response_len t \<and> pad_response_len t \<le> PAD_RESPONSE_MAX)"
proof -
  have ok: "pad_ok (foldl (\<lambda>s b. pad_process_byte b s) s bs)" for bs by (rule pad.run_ok [OF assms(1)])
  have "pad_ok t \<Longrightarrow> pad_rank t = 0 \<Longrightarrow> pad_state t = PAD_IDLE" for t
    by (cases "pad_state t") (auto simp: pad_rank_def pad_ok_def)
  moreover obtain n where "n \<le> 34" "pad_rank (foldl (\<lambda>s b. pad_process_byte b s) s (take n bs)) = 0"
    using pad.ends_within [OF assms] by blast
  ultimately have "\<exists>n \<le> 34. pad_state (foldl (\<lambda>s b. pad_process_byte b s) s (take n bs)) = PAD_IDLE" using ok by blast
  then show ?thesis using ok by (auto simp: Let_def pad_ok_def)
qed

theorem pad_transaction_ends_witness:
  "\<exists>n \<le> 34. pad_state (foldl (\<lambda>s b. pad_process_byte b s) (demo_pads\<lparr>pad_state := PAD_WAIT_ACCESS\<rparr>)
     (take n (replicate 34 0x42))) = PAD_IDLE"
  using pad_transaction_ends [of "demo_pads\<lparr>pad_state := PAD_WAIT_ACCESS\<rparr>" "replicate 34 0x42"]
  by (simp add: pad_ok_def)

subsection \<open>The rumble map\<close>

lemma rumble_simps:
  assumes "in_players (pad_active_logical s) s"
  shows "pad_rumble_small (latches tx s) = pad_rumble_small (latch_motor tx (nat (pad_active_logical s)) (pad_response_idx s - 2) s)"
    and "pad_rumble_large (latches tx s) = pad_rumble_large (latch_motor tx (nat (pad_active_logical s)) (pad_response_idx s - 2) s)"
    and "pad_rumble_map (latches tx s) = pad_rumble_map (latch_map tx (nat (pad_active_logical s)) (pad_response_idx s - 2) s)"
proof -
  let ?i = "nat (pad_active_logical s)" and ?k = "pad_response_idx s - 2"
  define q where "q = latch_req tx s"
  have q: "in_players (pad_active_logical q) q" "pad_active_logical q = pad_active_logical s" "pad_response_idx q = pad_response_idx s"
    "pad_current_cmd q = pad_current_cmd s" "pad_rumble_map q = pad_rumble_map s" "pad_rumble_small q = pad_rumble_small s"
    "pad_rumble_large q = pad_rumble_large s"
    using assms by (simp_all add: q_def latch_req_def Let_def in_players_def)
  have d: "in_data q = in_data s" by (simp add: in_data_def q)
  have keep: "pad_rumble_small (latch_lock tx u) = pad_rumble_small u" "pad_rumble_small (latch_mode tx u) = pad_rumble_small u"
    "pad_rumble_small (latch_config tx u) = pad_rumble_small u" "pad_rumble_large (latch_lock tx u) = pad_rumble_large u"
    "pad_rumble_large (latch_mode tx u) = pad_rumble_large u" "pad_rumble_large (latch_config tx u) = pad_rumble_large u"
    "pad_rumble_map (latch_lock tx u) = pad_rumble_map u" "pad_rumble_map (latch_mode tx u) = pad_rumble_map u"
    "pad_rumble_map (latch_config tx u) = pad_rumble_map u" for u
    by (simp_all add: latch_lock_def latch_mode_def latch_config_def)
  have m: "pad_rumble_small (latch_map tx ?i ?k u) = pad_rumble_small u" "pad_rumble_large (latch_map tx ?i ?k u) = pad_rumble_large u"
    "pad_rumble_map (latch_motor tx ?i ?k u) = pad_rumble_map u" "pad_current_cmd (latch_motor tx ?i ?k u) = pad_current_cmd u"
    "in_data (latch_motor tx ?i ?k u) = in_data u" for u
    by (simp_all add: latch_map_def latch_motor_def in_data_def)
  have l: "latch_rumble tx q = latch_map tx ?i ?k (latch_motor tx ?i ?k q)"
    using q(1) by (simp add: latch_rumble_def q Let_def)
  show "pad_rumble_small (latches tx s) = pad_rumble_small (latch_motor tx ?i ?k s)"
    "pad_rumble_large (latches tx s) = pad_rumble_large (latch_motor tx ?i ?k s)"
    unfolding latches_def keep q_def [symmetric] l m by (simp_all add: latch_motor_def q d)
  show "pad_rumble_map (latches tx s) = pad_rumble_map (latch_map tx ?i ?k s)"
    unfolding latches_def keep q_def [symmetric] l by (simp add: latch_map_def m q d)
qed

text \<open>The last byte routed to a motor, over the bytes that ride on the data positions.\<close>

definition routed :: "u8 \<Rightarrow> u8 list \<Rightarrow> u8 list \<Rightarrow> u8 \<Rightarrow> u8" where
  "routed motor ms ds old = foldl (\<lambda>v (m, d). if m = motor then d else v) old (zip ms ds)"

lemma respond_one_fields:
  "pad_response_idx (respond_one tx s) = pad_response_idx s + 1" "pad_current_cmd (respond_one tx s) = pad_current_cmd s"
  "pad_active_logical (respond_one tx s) = pad_active_logical s" "players (respond_one tx s) = players s"
  "pad_rumble_small (respond_one tx s) = pad_rumble_small (latches tx s)"
  "pad_rumble_large (respond_one tx s) = pad_rumble_large (latches tx s)"
  "pad_rumble_map (respond_one tx s) = pad_rumble_map (latches tx s)"
  by (simp_all add: respond_one_def)

lemma respond_all_Cons: "respond_all (tx # txs) s = respond_all txs (respond_one tx s)"
  by (simp add: respond_all_def)

lemma motors_routed:
  assumes "in_players (pad_active_logical s) s" "pad_current_cmd s = 0x42" "2 \<le> pad_response_idx s"
    "pad_response_idx s + length ds \<le> 8" "i = nat (pad_active_logical s)"
    "ms = map (pad_rumble_map s i) [pad_response_idx s - 2..<6]"
  shows "pad_rumble_small (respond_all ds s) i = routed 0 ms ds (pad_rumble_small s i)
    \<and> pad_rumble_large (respond_all ds s) i = routed 1 ms ds (pad_rumble_large s i)"
  using assms
proof (induction ds arbitrary: s ms)
  case Nil
  then show ?case by (simp add: respond_all_def routed_def)
next
  case (Cons d ds)
  let ?k = "pad_response_idx s - 2" and ?s = "respond_one d s"
  have data: "in_data s" using Cons.prems(3,4) by (simp add: in_data_def)
  have ms: "ms = pad_rumble_map s i ?k # map (pad_rumble_map s i) [Suc ?k..<6]"
    using Cons.prems(3,4,6) by (simp add: upt_conv_Cons)
  have cmd: "pad_current_cmd s \<noteq> 0x4D" using Cons.prems(2) by simp
  have small: "pad_rumble_small ?s i = (if pad_rumble_map s i ?k = 0 then d else pad_rumble_small s i)"
    and large: "pad_rumble_large ?s i = (if pad_rumble_map s i ?k = 1 then d else pad_rumble_large s i)"
    using Cons.prems(1,2,5) data by (simp_all add: respond_one_fields rumble_simps latch_motor_def)
  have "Suc ?k = pad_response_idx ?s - 2" using Cons.prems(3) by (simp add: respond_one_fields)
  then have "pad_rumble_small (respond_all ds ?s) i = routed 0 (map (pad_rumble_map s i) [Suc ?k..<6]) ds (pad_rumble_small ?s i)
    \<and> pad_rumble_large (respond_all ds ?s) i = routed 1 (map (pad_rumble_map s i) [Suc ?k..<6]) ds (pad_rumble_large ?s i)"
    using Cons.prems Cons.IH [of ?s] by (simp add: latches_by_command(4) [OF cmd] in_players_def respond_one_fields)
  then show ?case by (simp add: respond_all_Cons ms routed_def small large)
qed

lemma map_latched:
  assumes "in_players (pad_active_logical s) s" "pad_current_cmd s = 0x4D" "2 \<le> pad_response_idx s"
    "pad_response_idx s + length ms \<le> 8" "i = nat (pad_active_logical s)"
  shows "pad_rumble_map (respond_all ms s) i k =
    (if pad_response_idx s - 2 \<le> k \<and> k < pad_response_idx s - 2 + length ms then ms ! (k - (pad_response_idx s - 2))
     else pad_rumble_map s i k)"
  using assms
proof (induction ms arbitrary: s)
  case Nil
  show ?case by (auto simp: respond_all_def)
next
  case (Cons m ms)
  let ?j = "pad_response_idx s - 2" and ?s = "respond_one m s"
  have data: "in_data s" using Cons.prems(3,4) by (simp add: in_data_def)
  have one: "pad_rumble_map ?s i = (pad_rumble_map s i)(?j := m)"
    using Cons.prems(1,2,5) data by (simp add: respond_one_fields rumble_simps latch_map_def)
  have j: "pad_response_idx ?s - 2 = Suc ?j" using Cons.prems(3) by (simp add: respond_one_fields)
  have "pad_rumble_map (respond_all ms ?s) i k =
    (if Suc ?j \<le> k \<and> k < Suc ?j + length ms then ms ! (k - Suc ?j) else pad_rumble_map ?s i k)"
    using Cons.IH [of ?s] Cons.prems unfolding j by (simp add: in_players_def respond_one_fields)
  then show ?case unfolding respond_all_Cons one
    by (cases "k = ?j") (auto simp: nth_Cons')
qed

lemma command_map:
  assumes "in_players lp s" "is_connected lp s" "lp = pad_active_logical s" "pad_supports_config s (nat lp)"
    "pad_in_config s (nat lp)" "\<not> pad_legacy_cfg s"
  shows "pad_command 0x4D (s\<lparr>pad_lines := l\<rparr>) =
    send_frame ([0xF3, 0x5A] @ map (pad_rumble_map s (nat lp)) [0..<6]) (s\<lparr>pad_lines := l\<rparr>)"
  using assms by (simp add: pad_command_def command_frame_def Let_def in_players_def is_connected_def config_frame_def live_canned_def canned_def)

text \<open>What a transaction leaves of the state the host sees.\<close>

lemma finish_host [simp]:
  "players (mtap_finish_42 s) = players s" "selected_slot (mtap_finish_42 s) = selected_slot s"
  "pad_connected (mtap_finish_42 s) = pad_connected s" "multitap_enabled (mtap_finish_42 s) = multitap_enabled s"
  "multitap_port (mtap_finish_42 s) = multitap_port s" "pad_supports_config (mtap_finish_42 s) = pad_supports_config s"
  "pad_legacy_cfg (mtap_finish_42 s) = pad_legacy_cfg s" "pad_buttons (mtap_finish_42 s) = pad_buttons s"
  "pad_stick (mtap_finish_42 s) = pad_stick s" "analog_mode_locked (mtap_finish_42 s) = analog_mode_locked s"
  by (simp_all add: mtap_finish_42_def Let_def)

lemma framed_host [simp]:
  "players (framed bs s) = players s" "pad_connected (framed bs s) = pad_connected s"
  "multitap_enabled (framed bs s) = multitap_enabled s" "multitap_port (framed bs s) = multitap_port s"
  "pad_buttons (framed bs s) = pad_buttons s" "pad_stick (framed bs s) = pad_stick s"
  "pad_supports_config (framed bs s) = pad_supports_config s" "pad_legacy_cfg (framed bs s) = pad_legacy_cfg s"
  by (simp_all add: framed_def)

lemma opened_host [simp]: "multitap_enabled (opened c s) = multitap_enabled s" "multitap_port (opened c s) = multitap_port s"
  by (simp_all add: opened_def apply_requests_def)

definition same_wiring :: "pad_bus \<Rightarrow> pad_bus \<Rightarrow> bool" where
  "same_wiring s t \<longleftrightarrow> players t = players s \<and> selected_slot t = selected_slot s \<and> pad_connected t = pad_connected s
     \<and> multitap_enabled t = multitap_enabled s \<and> multitap_port t = multitap_port s"

lemma same_wiring_views:
  assumes "same_wiring s t"
  shows "in_players p t = in_players p s" "is_connected p t = is_connected p s"
    "pad_port_has_device p t = pad_port_has_device p s" "pad_logical_for_port p t = pad_logical_for_port p s"
    "selected_is_mtap_port t = selected_is_mtap_port s" "mtap_slot_a_logical t = mtap_slot_a_logical s"
    "sio_multitap_active t = sio_multitap_active s" "selected_slot t = selected_slot s"
  using assms by (simp_all add: same_wiring_def in_players_def is_connected_def pad_port_has_device_def pad_logical_for_port_def
      selected_is_mtap_port_def mtap_slot_a_logical_def sio_multitap_active_def sio_dual_multitap_def mtap_standalone_logical_def)

lemma after_transaction:
  assumes "t = (pad_end (mtap_finish_42 (respond_all xs (framed bs (opened c s)))))\<lparr>pad_lines := l\<rparr>"
  shows "same_wiring s t" "pad_state t = PAD_IDLE" "pad_buttons t = pad_buttons s" "pad_stick t = pad_stick s"
    "pad_supports_config t = pad_supports_config s" "pad_legacy_cfg t = pad_legacy_cfg s"
  by (simp_all add: assms same_wiring_def pad_end_def)

lemma pad_end_fields [simp]:
  "pad_rumble_small (pad_end s) = pad_rumble_small s" "pad_rumble_large (pad_end s) = pad_rumble_large s"
  "pad_rumble_map (pad_end s) = pad_rumble_map s" "pad_in_config (pad_end s) = pad_in_config s"
  "pad_analog (pad_end s) = pad_analog s"
  by (simp_all add: pad_end_def)

text \<open>The first byte after the command rides before the data.\<close>

lemma respond_first:
  assumes "pad_response_idx s = 1" "in_players (pad_active_logical s) s"
  shows "pad_rumble_map (respond_one x s) = pad_rumble_map s" "pad_rumble_small (respond_one x s) = pad_rumble_small s"
    "pad_rumble_large (respond_one x s) = pad_rumble_large s"
  using assms by (simp_all add: respond_one_fields rumble_simps latch_map_def latch_motor_def in_data_def)

text \<open>
  C9. The rumble map works: on a port of its own, a DualShock in configuration mode answers the map
  command 0x4D with the six bytes of the map it has and takes the six bytes sent as its new one; the
  next poll, still in configuration mode, routes each of the six bytes sent to the motors by that map, the last byte mapped to a
  motor winning, and these are the values the host reads.
\<close>

theorem pad_rumble_negotiated:
  fixes s :: pad_bus
  defines "lp \<equiv> pad_logical_for_port (selected_slot s) s"
  assumes "pad_state s = PAD_IDLE" "pad_port_has_device (selected_slot s) s" "\<not> selected_is_mtap_port s" "in_players lp s"
    and "pad_in_config s (nat lp)" "pad_supports_config s (nat lp)" "\<not> pad_legacy_cfg s"
    and "length ms = 6" "length ds = 6"
  shows "\<exists>t u r. pad_exchanges (0x01 # 0x4D # x # ms) s =
        ((0xFF, True) # answer ([0xF3, 0x5A] @ map (pad_rumble_map s (nat lp)) [0..<6]), t)
    \<and> pad_exchanges (0x01 # 0x42 # y # ds) t = (r, u)
    \<and> pad_state u = PAD_IDLE
    \<and> sio_get_pad_rumble lp u = (routed 0 ms ds (pad_rumble_small s (nat lp)), routed 1 ms ds (pad_rumble_large s (nat lp)))"
proof -
  let ?bs = "[0xF3, 0x5A] @ map (pad_rumble_map s (nat lp)) [0..<6]"
  let ?o = "framed ?bs (opened 0x4D s)"
  have conn: "is_connected lp s" using port_connected [OF assms(3,4)] by (simp add: lp_def)
  have "pad_command 0x4D ((opened 0x4D s)\<lparr>pad_lines := l\<rparr>) = send_frame ?bs ((opened 0x4D s)\<lparr>pad_lines := l\<rparr>)" for l
    using command_map [of lp "opened 0x4D s" l] assms(5-8) conn by (simp add: lp_def)
  then obtain t l where e1: "pad_exchanges (0x01 # 0x4D # x # ms) s = ((0xFF, True) # answer ?bs, t)"
    and t: "t = (pad_end (mtap_finish_42 (respond_all (x # ms) ?o)))\<lparr>pad_lines := l\<rparr>"
    using pad_transaction [OF assms(2,3), of "0x4D" "\<lambda>u. u" ?bs "x # ms"] assms(9)
    by (auto simp: wait_access_plain [OF assms(4)])
  let ?i = "nat lp"
  note wire = same_wiring_views [OF after_transaction(1) [OF t]]
  have o: "pad_response_idx ?o = 1" "pad_current_cmd ?o = 0x4D" "pad_active_logical ?o = lp" "in_players lp ?o"
    using assms(5) by (simp_all add: lp_def)
  have "pad_rumble_map t ?i k = ms ! k" if "k < 6" for k
    using map_latched [of "respond_one x ?o" ms ?i k] o assms(9) that
    by (simp add: t respond_all_Cons respond_one_fields in_players_def)
  then have ms: "map (pad_rumble_map t ?i) [0..<6] = ms" using assms(9) by (auto intro: nth_equalityI)
  have motors: "pad_rumble_small t = pad_rumble_small s" "pad_rumble_large t = pad_rumble_large s"
    by (simp_all add: t respond_all_by_command)
  have cfg: "pad_in_config t ?i" using assms(6) by (simp add: t respond_all_by_command)
  define bs2 where "bs2 = poll_frame (nat (pad_logical_for_port (selected_slot t) t))
      (pad_analog (apply_requests t) (nat (pad_logical_for_port (selected_slot t) t))
        \<or> pad_in_config t (nat (pad_logical_for_port (selected_slot t) t))) (apply_requests t)"
  have lpt: "pad_logical_for_port (selected_slot t) t = lp" by (simp add: wire lp_def)
  have "length (y # ds) + 1 = length bs2" using assms(10) cfg by (simp add: bs2_def length_poll_frame lpt)
  then obtain u m r where e2: "pad_exchanges (0x01 # 0x42 # y # ds) t = (r, u)"
    and u: "u = (pad_end (mtap_finish_42 (respond_all (y # ds) (framed bs2 (opened 0x42 t)))))\<lparr>pad_lines := m\<rparr>"
    using poll_run [OF after_transaction(2) [OF t], of "y # ds"] assms(3-5) unfolding bs2_def
    by (auto simp: wire lp_def)
  let ?p = "framed bs2 (opened 0x42 t)"
  have p: "pad_response_idx ?p = 1" "pad_current_cmd ?p = 0x42" "pad_active_logical ?p = lp" "in_players lp ?p"
    using assms(5) by (simp_all add: wire lp_def [symmetric])
  have "pad_rumble_small u ?i = routed 0 ms ds (pad_rumble_small s ?i) \<and> pad_rumble_large u ?i = routed 1 ms ds (pad_rumble_large s ?i)"
  proof -
    have first: "pad_rumble_map (respond_one y ?p) = pad_rumble_map t" "pad_rumble_small (respond_one y ?p) = pad_rumble_small s"
      "pad_rumble_large (respond_one y ?p) = pad_rumble_large s"
      using respond_first [of ?p y] p by (simp_all add: motors)
    show ?thesis
      using motors_routed [of "respond_one y ?p" ds ?i ms] p assms(10) ms
      by (simp add: u respond_all_Cons respond_one_fields(1-4) in_players_def first)
  qed
  then have "sio_get_pad_rumble lp u = (routed 0 ms ds (pad_rumble_small s ?i), routed 1 ms ds (pad_rumble_large s ?i))"
    using assms(5) conn same_wiring_views [OF after_transaction(1) [OF u]] by (simp add: sio_get_pad_rumble_def wire)
  then show ?thesis using e1 e2 after_transaction(2) [OF u] by blast
qed

theorem pad_rumble_negotiated_witness:
  "\<exists>t u r. pad_exchanges [0x01, 0x42, 0, 0x80, 0x01, 0, 0, 0, 0] t = (r, u) \<and> sio_get_pad_rumble 0 u = (0x80, 0x01)
     \<and> fst (pad_exchanges [0x01, 0x4D, 0, 0x00, 0x01, 0xFF, 0xFF, 0xFF, 0xFF] (demo_pads\<lparr>pad_in_config := (\<lambda>_. True)\<rparr>))
       = (0xFF, True) # answer [0xF3, 0x5A, 0xFF, 0xFF, 0xFF, 0xFF, 0xFF, 0xFF]"
proof -
  let ?s = "demo_pads\<lparr>pad_in_config := (\<lambda>_. True)\<rparr>"
  have s: "pad_port_has_device 0 ?s" "pad_logical_for_port 0 ?s = 0" "\<not> selected_is_mtap_port ?s" "in_players 0 ?s"
    by (simp_all add: demo_pads_def pad_port_has_device_def sio_multitap_active_def is_connected_def pad_logical_for_port_def
      selected_is_mtap_port_def in_players_def)
  have f: "selected_slot ?s = 0" "pad_state ?s = PAD_IDLE" "pad_supports_config ?s 0" "\<not> pad_legacy_cfg ?s"
    "pad_rumble_map ?s 0 = (\<lambda>_. 0xFF)" "pad_in_config ?s 0"
    by (simp_all add: demo_pads_def)
  have m: "map (\<lambda>_. 0xFF :: u8) [0..<6] = [0xFF, 0xFF, 0xFF, 0xFF, 0xFF, 0xFF]" by code_simp
  obtain t u r where "pad_exchanges (0x01 # 0x4D # 0 # [0x00, 0x01, 0xFF, 0xFF, 0xFF, 0xFF]) ?s =
      ((0xFF, True) # answer ([0xF3, 0x5A] @ map (pad_rumble_map ?s 0) [0..<6]), t)"
    "pad_exchanges (0x01 # 0x42 # 0 # [0x80, 0x01, 0, 0, 0, 0]) t = (r, u)"
    "sio_get_pad_rumble 0 u = (routed 0 [0x00, 0x01, 0xFF, 0xFF, 0xFF, 0xFF] [0x80, 0x01, 0, 0, 0, 0] (pad_rumble_small ?s 0),
      routed 1 [0x00, 0x01, 0xFF, 0xFF, 0xFF, 0xFF] [0x80, 0x01, 0, 0, 0, 0] (pad_rumble_large ?s 0))"
    using pad_rumble_negotiated [of ?s "[0x00, 0x01, 0xFF, 0xFF, 0xFF, 0xFF]" "[0x80, 0x01, 0, 0, 0, 0]" 0 0] s f by auto
  then show ?thesis unfolding f m
    by (intro exI [of _ t] exI [of _ u] exI [of _ r]) (simp add: routed_def del: pad_exchanges.simps)
qed

end
