(* ===== verification/PadTap.thy ===== *)
theory PadTap
  imports PadProps
begin

unbundle bit_operations_syntax

section \<open>The controllers: type requests and the multitap\<close>

text \<open>
  The host's requests for a pad type do not touch a transaction under way; the multitap's bulk poll and
  the latch that arms it.
\<close>

subsection \<open>Requests for a type wait for the bus\<close>

abbreviation with_req :: "(nat \<Rightarrow> bool option) \<Rightarrow> pad_bus \<Rightarrow> pad_bus" where
  "with_req q s \<equiv> s\<lparr>pad_type_req := q\<rparr>"

lemma req_views [simp]:
  "selected_is_mtap_port (with_req q s) = selected_is_mtap_port s" "mtap_slot_a_logical (with_req q s) = mtap_slot_a_logical s"
  "in_players p (with_req q s) = in_players p s" "is_connected p (with_req q s) = is_connected p s"
  "in_data (with_req q s) = in_data s" "poll_frame i b (with_req q s) = poll_frame i b s"
  "toggle_frame i (with_req q s) = toggle_frame i s" "live_canned i c (with_req q s) = live_canned i c s"
  "config_frame i c (with_req q s) = config_frame i c s" "pad_fill_status8 p (with_req q s) = pad_fill_status8 p s"
  "garbage_id (with_req q s) = garbage_id s"
  by (simp_all add: selected_is_mtap_port_def sio_multitap_active_def sio_dual_multitap_def mtap_slot_a_logical_def in_players_def
      is_connected_def in_data_def poll_frame_def pad_id_def button_bytes_def stick_bytes_def toggle_frame_def live_canned_def
      config_frame_def pad_fill_status8_def garbage_id_def Let_def)

lemma req_steps:
  "send_frame bs (with_req q s) = with_req q (send_frame bs s)" "hi_z (with_req q s) = with_req q (hi_z s)"
  "set_returned v (with_req q s) = with_req q (set_returned v s)" "commanded c (with_req q s) = with_req q (commanded c s)"
  "mtap_finish_42 (with_req q s) = with_req q (mtap_finish_42 s)" "pad_end (with_req q s) = with_req q (pad_end s)"
  by (simp_all add: send_frame_def pad_ack_def pad_rx_def Let_def hi_z_def pad_end_def set_returned_def commanded_def mtap_finish_42_def)

lemma if_req: "with_req q (if b then x else y) = (if b then with_req q x else with_req q y)"
  by simp

lemma req_sel:
  "pad_active_logical (with_req q s) = pad_active_logical s" "pad_supports_config (with_req q s) = pad_supports_config s"
  "pad_legacy_cfg (with_req q s) = pad_legacy_cfg s" "pad_in_config (with_req q s) = pad_in_config s"
  "pad_analog (with_req q s) = pad_analog s" "selected_slot (with_req q s) = selected_slot s"
  "pad_mtap_addr (with_req q s) = pad_mtap_addr s" "mtap_next_mode (with_req q s) = mtap_next_mode s"
  by simp_all

lemma req_command: "pad_command c (with_req q s) = with_req q (pad_command c s)"
proof -
  have "command_frame c (with_req q s) = command_frame c s"
    unfolding command_frame_def Let_def req_views req_sel by (rule refl)
  then show ?thesis by (simp add: pad_command_def req_steps split: option.split)
qed

lemma req_wait: "pad_wait_access c (with_req q s) = with_req q (pad_wait_access c s)"
  unfolding pad_wait_access_def Let_def req_steps(4) req_views req_sel
  by (simp only: req_steps req_command if_req [symmetric])

lemma req_latch:
  "latch_req tx (with_req q s) = with_req q (latch_req tx s)"
  "latch_motor tx i k (with_req q s) = with_req q (latch_motor tx i k s)"
  "latch_map tx i k (with_req q s) = with_req q (latch_map tx i k s)"
  "latch_config tx (with_req q s) = with_req q (latch_config tx s)"
  "latch_lock tx (with_req q s) = with_req q (latch_lock tx s)"
  by (simp_all add: latch_req_def latch_motor_def latch_map_def latch_config_def latch_lock_def Let_def)

lemma req_rumble: "latch_rumble tx (with_req q s) = with_req q (latch_rumble tx s)"
proof -
  have "pad_response_idx (with_req q s) = pad_response_idx s" by simp
  then show ?thesis
    unfolding latch_rumble_def Let_def req_views req_sel by (simp only: req_latch if_req)
qed

lemma req_mode: "\<exists>q'. latch_mode tx (with_req q s) = with_req q' (latch_mode tx s)"
  by (rule exI [of _ "pad_type_req (latch_mode tx (with_req q s))"]) (simp add: latch_mode_def)

lemma req_latches: "\<exists>q'. latches tx (with_req q s) = with_req q' (latches tx s)"
proof -
  obtain q' where "latch_mode tx (with_req q (latch_config tx (latch_rumble tx (latch_req tx s))))
      = with_req q' (latch_mode tx (latch_config tx (latch_rumble tx (latch_req tx s))))" using req_mode by blast
  then have "latches tx (with_req q s) = with_req q' (latches tx s)" by (simp only: latches_def req_latch req_rumble)
  then show ?thesis by (rule exI [of _ q'])
qed

lemma req_lines:
  "pad_rx v (with_req q s) = with_req q (pad_rx v s)" "pad_ack (with_req q s) = with_req q (pad_ack s)"
  "(with_req q s)\<lparr>pad_response_idx := n\<rparr> = with_req q (s\<lparr>pad_response_idx := n\<rparr>)"
  "pad_response_idx (with_req q s) = pad_response_idx s" "pad_response_len (with_req q s) = pad_response_len s"
  "pad_response (with_req q s) = pad_response s"
  by (simp_all add: pad_rx_def pad_ack_def)

lemma req_next: "next_byte (with_req q s) = with_req q (next_byte s)"
  unfolding next_byte_def Let_def req_lines by (simp only: req_lines req_steps if_req [symmetric])

lemma req_exchange:
  assumes "pad_state s \<noteq> PAD_IDLE"
  shows "\<exists>q' r t. pad_exchange tx s = (r, t) \<and> pad_exchange tx (with_req q s) = (r, with_req q' t)"
proof -
  have st: "pad_state (with_req q s) = pad_state s" by simp
  have "\<exists>q'. pad_body tx (with_req q s) = with_req q' (pad_body tx s)"
  proof (cases "pad_state s")
    case PAD_SEND_RESPONSE
    obtain q' where "latches tx (with_req q s) = with_req q' (latches tx s)" using req_latches by blast
    then have "pad_body tx (with_req q s) = with_req q' (pad_body tx s)"
      using PAD_SEND_RESPONSE st by (simp only: pad_body_respond req_next)
    then show ?thesis by (rule exI [of _ q'])
  next
    case PAD_WAIT_ACCESS
    then have "pad_body tx (with_req q s) = with_req q (pad_body tx s)"
      unfolding pad_body_def st by (simp only: pad_state.case req_wait)
    then show ?thesis by (rule exI [of _ q])
  qed (use assms in simp)
  then obtain q' where b: "pad_body tx (with_req q s) = with_req q' (pad_body tx s)" by blast
  show ?thesis
    by (rule exI [of _ q'], rule exI [of _ "fst (pad_exchange tx s)"], rule exI [of _ "snd (pad_exchange tx s)"])
      (simp add: pad_exchange_def pad_process_body Let_def b)
qed

datatype pad_op = PadByte u8 | PadRequest int bool

fun pad_ops :: "pad_op list \<Rightarrow> pad_bus \<Rightarrow> (u8 \<times> bool) list \<times> pad_bus" where
  "pad_ops [] s = ([], s)"
| "pad_ops (PadByte tx # ops) s = (let (r, s) = pad_exchange tx s; (rs, s) = pad_ops ops s in (r # rs, s))"
| "pad_ops (PadRequest slot analog # ops) s = pad_ops ops (sio_request_pad_type slot analog s)"

definition bytes_of :: "pad_op list \<Rightarrow> u8 list" where
  "bytes_of ops = concat (map (\<lambda>op. case op of PadByte tx \<Rightarrow> [tx] | _ \<Rightarrow> []) ops)"

lemma request_req: "\<exists>q'. sio_request_pad_type slot a (with_req q s) = with_req q' s"
  by (rule exI [of _ "pad_type_req (sio_request_pad_type slot a (with_req q s))"]) (simp add: sio_request_pad_type_def Let_def)

lemma requests_wait:
  assumes "\<forall>k < length (bytes_of ops). pad_state (snd (pad_exchanges (take k (bytes_of ops)) s)) \<noteq> PAD_IDLE"
  shows "\<exists>q' rs t. pad_exchanges (bytes_of ops) s = (rs, t) \<and> pad_ops ops (with_req q s) = (rs, with_req q' t)"
  using assms
proof (induction ops arbitrary: s q)
  case Nil
  show ?case by (intro exI [of _ q]) (simp add: bytes_of_def)
next
  case (Cons op ops)
  show ?case
  proof (cases op)
    case (PadByte tx)
    have b: "bytes_of (PadByte tx # ops) = tx # bytes_of ops" by (simp add: bytes_of_def)
    note prems = Cons.prems [unfolded PadByte b]
    have "pad_state s \<noteq> PAD_IDLE" using prems [rule_format, of 0] by simp
    then obtain q1 r t where 1: "pad_exchange tx s = (r, t)" "pad_exchange tx (with_req q s) = (r, with_req q1 t)"
      using req_exchange by blast
    have "\<forall>k < length (bytes_of ops). pad_state (snd (pad_exchanges (take k (bytes_of ops)) t)) \<noteq> PAD_IDLE"
    proof (intro allI impI)
      fix k assume "k < length (bytes_of ops)"
      then show "pad_state (snd (pad_exchanges (take k (bytes_of ops)) t)) \<noteq> PAD_IDLE"
        using prems [rule_format, of "Suc k"] by (simp add: 1 split_beta)
    qed
    then obtain q2 rs u where "pad_exchanges (bytes_of ops) t = (rs, u)" "pad_ops ops (with_req q1 t) = (rs, with_req q2 u)"
      using Cons.IH by blast
    then show ?thesis using 1 unfolding PadByte b
      by (intro exI [of _ q2] exI [of _ "r # rs"] exI [of _ u]) simp
  next
    case (PadRequest slot a)
    have b: "bytes_of (PadRequest slot a # ops) = bytes_of ops" by (simp add: bytes_of_def)
    obtain q1 where "sio_request_pad_type slot a (with_req q s) = with_req q1 s" using request_req by blast
    then show ?thesis using Cons.IH [of s q1] Cons.prems unfolding PadRequest b by simp
  qed
qed

text \<open>
  The reported type is stable: host requests for another pad type, made at any point of a
  transaction, change neither what the rest of it answers nor the mode the pads are in when it ends; they
  wait for the bus.
\<close>

theorem pad_requests_wait:
  assumes "\<forall>k < length (bytes_of ops). pad_state (snd (pad_exchanges (take k (bytes_of ops)) s)) \<noteq> PAD_IDLE"
  shows "fst (pad_ops ops s) = fst (pad_exchanges (bytes_of ops) s)
    \<and> pad_analog (snd (pad_ops ops s)) = pad_analog (snd (pad_exchanges (bytes_of ops) s))
    \<and> pad_in_config (snd (pad_ops ops s)) = pad_in_config (snd (pad_exchanges (bytes_of ops) s))"
  using requests_wait [OF assms, of "pad_type_req s"] by auto

theorem pad_requests_wait_witness:
  "fst (pad_ops [PadRequest 0 True, PadByte 0x42] (demo_pads\<lparr>pad_state := PAD_WAIT_ACCESS\<rparr>))
   = fst (pad_exchanges [0x42] (demo_pads\<lparr>pad_state := PAD_WAIT_ACCESS\<rparr>))"
  using pad_requests_wait [of "[PadRequest 0 True, PadByte 0x42]" "demo_pads\<lparr>pad_state := PAD_WAIT_ACCESS\<rparr>"]
  by (simp add: bytes_of_def)

subsection \<open>The multitap's bulk poll\<close>

definition bulk_frame :: "pad_bus \<Rightarrow> u8 list" where
  "bulk_frame s = [0x80, 0x5A] @ concat (map (\<lambda>k. pad_fill_status8 (mtap_slot_a_logical s + int k) s) [0..<4])"

lemma status_lines: "pad_fill_status8 k (s\<lparr>pad_lines := l\<rparr>) = pad_fill_status8 k s"
  by (simp add: pad_fill_status8_def Let_def in_players_def is_connected_def pad_id_def button_bytes_def stick_bytes_def)

lemma wait_access_tap:
  assumes "selected_is_mtap_port s"
  shows "mtap_next_mode s (selected_slot s) = MTAP_NEXT_BULK \<Longrightarrow>
      pad_wait_access 0x42 (selected_state l s) =
        set_returned MTAP_NEXT_BULK (send_frame (bulk_frame (opened 0x42 s)) ((opened 0x42 s)\<lparr>pad_lines := l\<rparr>))"
    and "mtap_next_mode s (selected_slot s) = MTAP_NEXT_SLOT_A \<Longrightarrow>
      pad_wait_access 0x42 (selected_state l s) = pad_command 0x42 (set_returned MTAP_NEXT_SLOT_A ((opened 0x42 s)\<lparr>pad_lines := l\<rparr>))"
proof -
  have a: "mtap_slot_a_logical (u\<lparr>pad_lines := l\<rparr>) = mtap_slot_a_logical u" for u
    by (simp add: mtap_slot_a_logical_def sio_dual_multitap_def)
  show "mtap_next_mode s (selected_slot s) = MTAP_NEXT_BULK \<Longrightarrow>
      pad_wait_access 0x42 (selected_state l s) =
        set_returned MTAP_NEXT_BULK (send_frame (bulk_frame (opened 0x42 s)) ((opened 0x42 s)\<lparr>pad_lines := l\<rparr>))"
    using assms unfolding pad_wait_access_def commanded_selected
    by (simp add: Let_def tap_port_upd bulk_frame_def a status_lines)
  show "mtap_next_mode s (selected_slot s) = MTAP_NEXT_SLOT_A \<Longrightarrow>
      pad_wait_access 0x42 (selected_state l s) = pad_command 0x42 (set_returned MTAP_NEXT_SLOT_A ((opened 0x42 s)\<lparr>pad_lines := l\<rparr>))"
    using assms unfolding pad_wait_access_def commanded_selected by (simp add: Let_def tap_port_upd)
qed

lemma tap_port_logical:
  assumes "selected_is_mtap_port s" "0 \<le> selected_slot s" "selected_slot s \<le> 1"
  shows "pad_logical_for_port (selected_slot s) s = mtap_slot_a_logical s" "pad_port_has_device (selected_slot s) s"
  using assms by (auto simp: selected_is_mtap_port_def pad_logical_for_port_def mtap_slot_a_logical_def pad_port_has_device_def
      sio_multitap_active_def sio_dual_multitap_def split: if_splits)

lemma set_returned_fields [simp]:
  "set_returned v (s\<lparr>pad_lines := l\<rparr>) = (set_returned v s)\<lparr>pad_lines := l\<rparr>" "pad_lines (set_returned v s) = pad_lines s"
  "pad_state (set_returned v s) = pad_state s" "pad_response (set_returned v s) = pad_response s"
  "pad_response_len (set_returned v s) = pad_response_len s" "pad_response_idx (set_returned v s) = pad_response_idx s"
  "pad_current_cmd (set_returned v s) = pad_current_cmd s" "pad_mtap_addr (set_returned v s) = pad_mtap_addr s"
  "selected_slot (set_returned v s) = selected_slot s" "pad_analog (set_returned v s) = pad_analog s"
  "pad_in_config (set_returned v s) = pad_in_config s" "pad_type_req (set_returned v s) = pad_type_req s"
  "selected_is_mtap_port (set_returned v s) = selected_is_mtap_port s" "mtap_req_this (set_returned v s) = mtap_req_this s"
  "mtap_returned (set_returned v s) = (mtap_returned s)(selected_slot s := v)"
  "players (set_returned v s) = players s" "pad_connected (set_returned v s) = pad_connected s"
  "multitap_enabled (set_returned v s) = multitap_enabled s" "multitap_port (set_returned v s) = multitap_port s"
  "pad_buttons (set_returned v s) = pad_buttons s" "pad_stick (set_returned v s) = pad_stick s"
  "analog_mode_locked (set_returned v s) = analog_mode_locked s"
  by (simp_all add: set_returned_def selected_is_mtap_port_def sio_multitap_active_def sio_dual_multitap_def)

lemma send_returned: "send_frame bs (set_returned v s) = set_returned v (send_frame bs s)"
  by (simp add: send_frame_def set_returned_def pad_ack_def pad_rx_def Let_def)

text \<open>The request bit seen with the first byte after the command decides what the tap returns next.\<close>

lemma req_bit:
  assumes "selected_is_mtap_port s" "0 \<le> selected_slot s" "selected_slot s \<le> 1" "pad_current_cmd s = 0x42" "pad_mtap_addr s = 0x01"
  shows "pad_response_idx s = 1 \<Longrightarrow> mtap_req_this (respond_one tx s) (selected_slot s) = (tx = 0x01)"
    "pad_response_idx s \<noteq> 1 \<Longrightarrow> mtap_req_this (respond_one tx s) = mtap_req_this s"
proof -
  have keep: "mtap_req_this (latch_lock tx u) = mtap_req_this u" "mtap_req_this (latch_mode tx u) = mtap_req_this u"
    "mtap_req_this (latch_config tx u) = mtap_req_this u" "mtap_req_this (latch_motor tx i k u) = mtap_req_this u"
    "mtap_req_this (latch_map tx i k u) = mtap_req_this u" for u i k
    by (simp_all add: latch_lock_def latch_mode_def latch_config_def latch_motor_def latch_map_def)
  have "mtap_req_this (latch_rumble tx u) = mtap_req_this u" for u by (simp add: latch_rumble_def Let_def keep)
  then have "mtap_req_this (respond_one tx s) = mtap_req_this (latch_req tx s)" by (simp add: respond_one_def latches_def keep)
  then show "pad_response_idx s = 1 \<Longrightarrow> mtap_req_this (respond_one tx s) (selected_slot s) = (tx = 0x01)"
    "pad_response_idx s \<noteq> 1 \<Longrightarrow> mtap_req_this (respond_one tx s) = mtap_req_this s"
    using assms by (simp_all add: latch_req_def Let_def)
qed

lemma respond_tap [simp]:
  "selected_is_mtap_port (respond_one tx s) = selected_is_mtap_port s" "selected_slot (respond_one tx s) = selected_slot s"
  "pad_mtap_addr (respond_one tx s) = pad_mtap_addr s" "mtap_returned (respond_one tx s) = mtap_returned s"
  "mtap_next_mode (respond_one tx s) = mtap_next_mode s"
  by (simp_all add: respond_one_def selected_is_mtap_port_def sio_multitap_active_def sio_dual_multitap_def)

lemma respond_all_tap:
  "selected_is_mtap_port (respond_all txs s) = selected_is_mtap_port s" "pad_mtap_addr (respond_all txs s) = pad_mtap_addr s"
  "mtap_returned (respond_all txs s) = mtap_returned s" "mtap_next_mode (respond_all txs s) = mtap_next_mode s"
  by (induction txs arbitrary: s) (simp_all add: respond_all_Cons, simp_all add: respond_all_def)

lemma req_bit_all:
  assumes "selected_is_mtap_port s" "0 \<le> selected_slot s" "selected_slot s \<le> 1" "pad_current_cmd s = 0x42" "pad_mtap_addr s = 0x01"
    "pad_response_idx s \<ge> 2"
  shows "mtap_req_this (respond_all txs s) = mtap_req_this s"
  using assms
proof (induction txs arbitrary: s)
  case (Cons tx txs)
  then have "mtap_req_this (respond_one tx s) = mtap_req_this s" by (intro req_bit) simp_all
  then show ?case using Cons by (simp add: respond_all_Cons respond_one_fields)
qed (simp add: respond_all_def)

definition next_mode :: "bool \<Rightarrow> mtap_mode \<Rightarrow> mtap_mode" where
  "next_mode req returned = (if \<not> req then MTAP_NEXT_SLOT_A
     else if returned = MTAP_NEXT_SLOT_A then MTAP_NEXT_BULK
     else if returned = MTAP_NEXT_BULK then MTAP_NEXT_GARBAGE else MTAP_NEXT_BULK)"

lemma mode_after:
  fixes s :: pad_bus
  assumes "selected_is_mtap_port s" "0 \<le> selected_slot s" "selected_slot s \<le> 1"
    and t: "t = (pad_end (mtap_finish_42 (respond_all (q # txs) (set_returned v (framed bs (opened 0x42 s))))))\<lparr>pad_lines := l\<rparr>"
  shows "mtap_next_mode t (selected_slot s) = next_mode (q = 0x01) v" "same_wiring s t" "pad_state t = PAD_IDLE"
    "pad_analog t = pad_analog (apply_requests s)" "pad_in_config t = pad_in_config s" "pad_buttons t = pad_buttons s"
    "pad_stick t = pad_stick s" "pad_type_req t = pad_type_req (apply_requests s)"
proof -
  define w where "w = set_returned v (framed bs (opened 0x42 s))"
  have w: "selected_is_mtap_port w" "selected_slot w = selected_slot s" "pad_current_cmd w = 0x42" "pad_mtap_addr w = 0x01"
    "pad_response_idx w = 1" "mtap_returned w (selected_slot s) = v"
    using assms(1) by (simp_all add: w_def)
  have "mtap_req_this (respond_all (q # txs) w) (selected_slot s) = (q = 0x01)"
    using req_bit(1) [of w q] req_bit_all [of "respond_one q w" txs] w assms(2,3)
    by (simp add: respond_all_Cons respond_one_fields)
  then have "mtap_next_mode (mtap_finish_42 (respond_all (q # txs) w)) (selected_slot s) = next_mode (q = 0x01) v"
    using w assms(2,3) by (simp add: mtap_finish_42_def Let_def respond_all_tap next_mode_def)
  then show "mtap_next_mode t (selected_slot s) = next_mode (q = 0x01) v" by (simp add: t w_def pad_end_def)
  show "same_wiring s t" "pad_state t = PAD_IDLE" "pad_buttons t = pad_buttons s" "pad_stick t = pad_stick s"
    by (simp_all add: t same_wiring_def pad_end_def)
  show "pad_analog t = pad_analog (apply_requests s)" "pad_in_config t = pad_in_config s"
    by (simp_all add: t respond_all_by_command)
  show "pad_type_req t = pad_type_req (apply_requests s)"
    by (simp add: t pad_end_def respond_all_by_command) (simp add: opened_def)
qed

lemma locks_by_command:
  "pad_current_cmd s \<noteq> 0x44 \<Longrightarrow> analog_mode_locked (respond_all txs s) = analog_mode_locked s"
proof (induction txs arbitrary: s)
  case (Cons tx txs)
  have keep: "analog_mode_locked (latch_mode tx u) = analog_mode_locked u" "analog_mode_locked (latch_config tx u) = analog_mode_locked u"
    "analog_mode_locked (latch_motor tx i k u) = analog_mode_locked u" "analog_mode_locked (latch_map tx i k u) = analog_mode_locked u"
    "analog_mode_locked (latch_req tx u) = analog_mode_locked u" for u i k
    by (simp_all add: latch_mode_def latch_config_def latch_motor_def latch_map_def latch_req_def Let_def)
  have r: "analog_mode_locked (latch_rumble tx u) = analog_mode_locked u" for u by (simp add: latch_rumble_def Let_def keep)
  have cmd: "pad_current_cmd (latch_mode tx (latch_config tx (latch_rumble tx (latch_req tx s)))) = pad_current_cmd s"
    using latches_fields(13) [of tx s] by (simp add: latches_def latch_lock_def split: if_splits)
  have "analog_mode_locked (latches tx s) = analog_mode_locked s"
    using Cons.prems cmd by (simp add: latches_def latch_lock_def keep r)
  then have "analog_mode_locked (respond_one tx s) = analog_mode_locked s" by (simp add: respond_one_def)
  then show ?case using Cons by (simp add: respond_all_Cons respond_one_fields)
qed (simp add: respond_all_def)

lemma status_after:
  fixes s :: pad_bus
  assumes "selected_is_mtap_port s" "0 \<le> selected_slot s" "selected_slot s \<le> 1"
    and t: "t = (pad_end (mtap_finish_42 (respond_all (q # txs) (set_returned v (framed bs (opened 0x42 s))))))\<lparr>pad_lines := l\<rparr>"
  shows "pad_fill_status8 k (opened 0x42 t) = pad_fill_status8 k (apply_requests s)"
proof -
  note m = mode_after [OF assms]
  have "analog_mode_locked (framed bs (opened 0x42 s)) = analog_mode_locked s" by (simp add: framed_def opened_def apply_requests_def)
  then have lock: "analog_mode_locked t = analog_mode_locked s" by (simp add: t locks_by_command) (simp add: pad_end_def locks_by_command)
  have "\<not> settles t i" for i
    using m(2,5,8) lock by (auto simp: settles_def same_wiring_def apply_requests_def split: if_splits)
  then have "pad_analog (apply_requests t) = pad_analog (apply_requests s)" by (simp add: apply_requests_def m(4))
  then show ?thesis using same_wiring_views(1,2) [OF m(2)] m(5-7)
    by (simp add: pad_fill_status8_def Let_def pad_id_def button_bytes_def stick_bytes_def)
qed

text \<open>
  C10. The multitap answers in bulk: on its port, a poll of the pad in slot A that asks for it with the
  byte after the command is answered with that pad alone, and the next poll with 0x80, 0x5A and the
  status of the four pads of the tap, connected or not; whether the poll after that is garbage or
  slot A again depends on that same byte of the bulk poll.
\<close>

theorem multitap_bulk_poll:
  fixes s :: pad_bus
  defines "p \<equiv> selected_slot s"
  defines "a \<equiv> mtap_slot_a_logical s"
  defines "u \<equiv> apply_requests s"
  defines "bs \<equiv> poll_frame (nat a) (pad_analog u (nat a) \<or> pad_in_config u (nat a)) u"
  assumes "pad_state s = PAD_IDLE" "selected_is_mtap_port s" "0 \<le> p" "p \<le> 1" "mtap_next_mode s p = MTAP_NEXT_SLOT_A"
    and "in_players a s" "is_connected a s" "length rest + 2 = length bs" "length filler = 32"
  shows "\<exists>t v. pad_exchanges (0x01 # 0x42 # 0x01 # rest) s = ((0xFF, True) # answer bs, t)
    \<and> pad_exchanges (0x01 # 0x42 # q # filler) t =
        ((0xFF, True) # answer ([0x80, 0x5A] @ concat (map (\<lambda>k. pad_fill_status8 (a + int k) u) [0..<4])), v)
    \<and> pad_state v = PAD_IDLE
    \<and> mtap_next_mode v p = (if q = 0x01 then MTAP_NEXT_GARBAGE else MTAP_NEXT_SLOT_A)"
proof -
  note port = tap_port_logical [OF assms(6) assms(7,8) [unfolded p_def], folded a_def]
  have cmd: "pad_wait_access 0x42 (selected_state l s) = set_returned MTAP_NEXT_SLOT_A (send_frame bs ((opened 0x42 s)\<lparr>pad_lines := l\<rparr>))" for l
  proof -
    let ?o = "set_returned MTAP_NEXT_SLOT_A (opened 0x42 s)"
    have o: "in_players a ?o" "is_connected a ?o" "a = pad_active_logical ?o"
      using assms(10,11) port by (simp_all add: set_returned_def in_players_def is_connected_def)
    have "bs = poll_frame (nat a) (pad_analog ?o (nat a) \<or> pad_in_config ?o (nat a)) ?o"
      by (simp add: bs_def poll_frame_def pad_id_def button_bytes_def stick_bytes_def u_def)
    from command_poll [OF o, folded this]
    have "pad_command 0x42 (?o\<lparr>pad_lines := l\<rparr>) = send_frame bs (?o\<lparr>pad_lines := l\<rparr>)" .
    then show ?thesis using wait_access_tap(2) [OF assms(6)] assms(9) by (simp add: p_def flip: send_returned)
  qed
  obtain t l where e1: "pad_exchanges (0x01 # 0x42 # 0x01 # rest) s = ((0xFF, True) # answer bs, t)"
    and t: "t = (pad_end (mtap_finish_42 (respond_all (0x01 # rest) (set_returned MTAP_NEXT_SLOT_A (framed bs (opened 0x42 s))))))\<lparr>pad_lines := l\<rparr>"
    using pad_transaction [where f = "set_returned MTAP_NEXT_SLOT_A" and filler = "0x01 # rest", OF assms(5) port(2) cmd] assms(12)
    by (auto simp del: pad_exchanges.simps)
  note m = mode_after [OF assms(6) assms(7,8) [unfolded p_def] t]
  note wire = same_wiring_views [OF m(2)]
  have mode: "mtap_next_mode t (selected_slot t) = MTAP_NEXT_BULK" using m(1) by (simp add: wire next_mode_def)
  let ?bulk = "[0x80, 0x5A] @ concat (map (\<lambda>k. pad_fill_status8 (a + int k) u) [0..<4])"
  have bulk: "bulk_frame (opened 0x42 t) = ?bulk"
    using status_after [OF assms(6) assms(7,8) [unfolded p_def] t]
    by (simp add: bulk_frame_def wire a_def u_def)
  have tap: "selected_is_mtap_port t" "0 \<le> selected_slot t" "selected_slot t \<le> 1"
    using assms(6-8) by (simp_all add: wire p_def)
  have len: "length ?bulk = length (q # filler) + 1" using assms(13) length_bulk [of a u] by simp
  obtain v k where e2: "pad_exchanges (0x01 # 0x42 # q # filler) t = ((0xFF, True) # answer ?bulk, v)"
    and v: "v = (pad_end (mtap_finish_42 (respond_all (q # filler) (set_returned MTAP_NEXT_BULK (framed ?bulk (opened 0x42 t))))))\<lparr>pad_lines := k\<rparr>"
    using pad_transaction [where f = "set_returned MTAP_NEXT_BULK" and filler = "q # filler",
        OF m(3) tap_port_logical(2) [OF tap] wait_access_tap(1) [OF tap(1) mode, unfolded bulk]] len
    by (auto simp del: pad_exchanges.simps)
  show ?thesis
    using e1 e2 mode_after(1,3) [OF tap v] by (auto simp: wire p_def next_mode_def)
qed

theorem multitap_bulk_poll_witness:
  "\<exists>t v. pad_exchanges (0x01 # 0x42 # 0x00 # replicate 32 0) t =
      ((0xFF, True) # answer ([0x80, 0x5A] @ concat (map (\<lambda>k. pad_fill_status8 (int k) (demo_pads\<lparr>multitap_enabled := True\<rparr>)) [0..<4])), v)
     \<and> mtap_next_mode v 0 = MTAP_NEXT_SLOT_A"
proof -
  let ?s = "demo_pads\<lparr>multitap_enabled := True\<rparr>"
  have f: "pad_state ?s = PAD_IDLE" "selected_slot ?s = 0" "selected_is_mtap_port ?s" "mtap_next_mode ?s 0 = MTAP_NEXT_SLOT_A"
    "mtap_slot_a_logical ?s = 0" "in_players 0 ?s" "is_connected 0 ?s" "pad_in_config demo_pads 0 = False" "pad_analog demo_pads 0 = False"
    by (simp_all add: demo_pads_def selected_is_mtap_port_def sio_multitap_active_def sio_dual_multitap_def mtap_slot_a_logical_def
        in_players_def is_connected_def)
  have u: "apply_requests ?s = ?s" by (simp_all add: apply_requests_def settles_def demo_pads_def)
  show ?thesis
    using multitap_bulk_poll [of ?s "[0, 0]" "replicate 32 0" 0] unfolding f u
    by (auto simp: f u length_poll_frame simp del: pad_exchanges.simps)
qed

end
