(* ===== verification/Sio.thy ===== *)
theory Sio
  imports PadBus Irq
begin

unbundle bit_operations_syntax

section \<open>The serial port: sio.c\<close>

text \<open>
  The port over its two devices: which device a byte reaches, the shifter with its buffer and the
  acknowledge pulse that are paced by guest cycles, the registers, the interrupt, and the repair of
  nested card interrupts. The receive register and the status word are \<open>sio_lines\<close>, lent to the device
  while it processes a byte. The build is the default one (\<open>SIO_MODEL_CYCLE_PACED\<close>).

  The host is a record: the card files, the guest memory word read by the nest repair
  (\<open>psx_read_word\<close>) and the two environment switches (\<open>PSX_APE_CARD_UNSTICK\<close>, \<open>PSX_SIO_PAD_SYNC_RX\<close>).
  The cycle count is that of the event context. Of the card transaction being recorded only the byte
  count and the first bytes sent are kept, which the repair reads. The trace rings, the counters, the
  audit of the interrupt arming and the debug polls are left out; nothing else reads them.
\<close>

subsection \<open>State\<close>

datatype device = DEV_NONE | DEV_PAD | DEV_MEMCARD

datatype bus_owner = SIO_OWNER_NONE | SIO_OWNER_CARD | SIO_OWNER_PAD | SIO_OWNER_UNKNOWN

datatype irq_source = SIO_IRQ_SRC_UNKNOWN | SIO_IRQ_SRC_CARD_ACK | SIO_IRQ_SRC_PAD_ACK

datatype txn_end = SIO_TXN_END_SUCCESS | SIO_TXN_END_ABORT_RESELECT | SIO_TXN_END_ABORT_RESET
  | SIO_TXN_END_ABORT_SLOT | SIO_TXN_END_ABORT_BAD_CMD | SIO_TXN_END_ABORT_OTHER

record 'h sio_host =
  files :: "'h host_fs"
  guest_word :: "u32 \<Rightarrow> u32"
  ape_unstick_enabled :: bool
  pad_sync_rx :: bool

record pacer =
  timing_active :: bool
  shift_active :: bool
  shift_byte :: u8
  shift_remaining :: int
  tx_buffered :: bool
  tx_buffer :: u8
  shift_ack_irq_en :: bool
  tx_buffer_ack_irq_en :: bool
  pending_ack :: bool
  ack_remaining :: int
  pending_ack_irq_en :: bool
  bus_owner :: bus_owner
  bus_byte_index :: u32

record nest_repair =
  txn_open :: bool
  txn_count :: u16
  txn_tx :: "nat \<Rightarrow> u8"
  handoff_armed :: bool
  ape_pending :: bool
  ape_cool_cyc :: u64
  ape_pulses :: int
  hold_left :: int
  ct_defer_until :: u64

record 'h sio =
  sio_tx_data :: u8
  sio_mode :: u16
  sio_ctrl :: u16
  sio_baud :: u16
  sio_lines :: bus_lines
  pads :: pad_bus
  card :: "'h card_bus"
  mc_slots :: "int \<Rightarrow> mc_slot_state"
  active_device :: device
  irq_armed :: bool
  irq_countdown :: int
  ack_visible_reads :: int
  irq_source :: irq_source
  pace :: pacer
  nest :: nest_repair
  senv :: irq_env

abbreviation SIO_CTRL_TX_EN :: u16 where "SIO_CTRL_TX_EN \<equiv> 0x1"
abbreviation SIO_CTRL_SELECT :: u16 where "SIO_CTRL_SELECT \<equiv> 0x2"
abbreviation SIO_CTRL_ACK :: u16 where "SIO_CTRL_ACK \<equiv> 0x10"
abbreviation SIO_CTRL_RESET :: u16 where "SIO_CTRL_RESET \<equiv> 0x40"
abbreviation SIO_CTRL_ACK_IRQ_EN :: u16 where "SIO_CTRL_ACK_IRQ_EN \<equiv> 0x1000"
abbreviation SIO_CTRL_SLOT :: u16 where "SIO_CTRL_SLOT \<equiv> 0x2000"

abbreviation SIO_BAUD_CYCLES_DEFAULT :: int where "SIO_BAUD_CYCLES_DEFAULT \<equiv> 1088"
abbreviation SIO_ACK_CYCLES_DEFAULT :: int where "SIO_ACK_CYCLES_DEFAULT \<equiv> 170"
abbreviation IRQ_SIO0 :: u32 where "IRQ_SIO0 \<equiv> 7"
abbreviation EV_ENQ' :: u16 where "EV_ENQ' \<equiv> 9"
abbreviation EV_DEQ' :: u16 where "EV_DEQ' \<equiv> 10"
abbreviation SRC_SIO :: u8 where "SRC_SIO \<equiv> 28"

definition upd_pace :: "(pacer \<Rightarrow> pacer) \<Rightarrow> 'h sio \<Rightarrow> 'h sio" where
  "upd_pace f s = s\<lparr>pace := f (pace s)\<rparr>"

definition upd_nest :: "(nest_repair \<Rightarrow> nest_repair) \<Rightarrow> 'h sio \<Rightarrow> 'h sio" where
  "upd_nest f s = s\<lparr>nest := f (nest s)\<rparr>"

definition upd_senv :: "(irq_env \<Rightarrow> irq_env) \<Rightarrow> 'h sio \<Rightarrow> 'h sio" where
  "upd_senv f s = s\<lparr>senv := f (senv s)\<rparr>"

definition set_stat :: "u16 \<Rightarrow> 'h sio \<Rightarrow> 'h sio" where
  "set_stat bits s = s\<lparr>sio_lines := (sio_lines s)\<lparr>stat := stat (sio_lines s) OR bits\<rparr>\<rparr>"

definition clear_stat :: "u16 \<Rightarrow> 'h sio \<Rightarrow> 'h sio" where
  "clear_stat bits s = s\<lparr>sio_lines := (sio_lines s)\<lparr>stat := stat (sio_lines s) AND NOT bits\<rparr>\<rparr>"

definition set_rx :: "u8 \<Rightarrow> 'h sio \<Rightarrow> 'h sio" where
  "set_rx v s = s\<lparr>sio_lines := put_rx v (sio_lines s)\<rparr>"

abbreviation SIO_STAT_TX_IDLE :: u16 where "SIO_STAT_TX_IDLE \<equiv> SIO_STAT_TX_RDY OR SIO_STAT_TX_EMPTY"

subsection \<open>The card slots\<close>

abbreviation mc_now :: "'h sio \<Rightarrow> mc_state" where
  "mc_now s \<equiv> mc_state (mc (card s))"

definition set_mc_state :: "mc_state \<Rightarrow> 'h sio \<Rightarrow> 'h sio" where
  "set_mc_state st s = s\<lparr>card := upd_mc (\<lambda>m. m\<lparr>mc_state := st\<rparr>) (card s)\<rparr>"

definition mc_save_slot :: "int \<Rightarrow> 'h sio \<Rightarrow> 'h sio" where
  "mc_save_slot slot s = (if slot < 0 \<or> slot > 1 then s else s\<lparr>mc_slots := (mc_slots s)(slot := mc (card s))\<rparr>)"

definition mc_load_slot :: "int \<Rightarrow> 'h sio \<Rightarrow> 'h sio" where
  "mc_load_slot slot s = (if slot < 0 \<or> slot > 1 then s else s\<lparr>card := (card s)\<lparr>mc := mc_slots s slot\<rparr>\<rparr>)"

definition sio_card_protocol_active :: "'h sio \<Rightarrow> bool" where
  "sio_card_protocol_active s \<longleftrightarrow>
     mc_now s \<noteq> MC_IDLE \<or> mc_state (mc_slots s 0) \<noteq> MC_IDLE \<or> mc_state (mc_slots s 1) \<noteq> MC_IDLE"

definition cycles_now :: "'h sio \<Rightarrow> u64" where
  "cycles_now s = ec_cycle (ctx (senv s))"

subsection \<open>The repair of nested card interrupts\<close>

definition sio_arm_card_ct_defer_guard :: "'h sio \<Rightarrow> 'h sio" where
  "sio_arm_card_ct_defer_guard s =
     (let until = cycles_now s + 564480 * 2
      in if until > ct_defer_until (nest s) then upd_nest (\<lambda>n. n\<lparr>ct_defer_until := until\<rparr>) s else s)"

definition sio_should_defer_thread_switch :: "'h sio \<Rightarrow> bool" where
  "sio_should_defer_thread_switch s \<longleftrightarrow>
     txn_open (nest s) \<or> sio_card_protocol_active s \<or> cycles_now s < ct_defer_until (nest s)"

text \<open>Unmasking the port's interrupt and raising it afresh.\<close>

definition re_edge :: "'h sio \<Rightarrow> 'h sio" where
  "re_edge s =
     upd_senv (\<lambda>e. psx_irq_raise IRQ_SIO0 0
       (let e = (if i_mask e AND 0x80 = 0 then e\<lparr>i_mask := i_mask e OR 0x80\<rparr> else e)
        in e\<lparr>i_stat := i_stat e AND NOT 0x80\<rparr>)) s"

definition ape_card_unstick_maybe :: "'h sio_host \<Rightarrow> 'h sio \<Rightarrow> 'h sio" where
  "ape_card_unstick_maybe H s =
     (if \<not> ape_unstick_enabled H then s
      else if \<not> ape_pending (nest s) then s
      else if txn_open (nest s) then s
      else if cycles_now s < ape_cool_cyc (nest s) then s
      else let a6 = guest_word H 0x800A6C10;
               b30 = guest_word H 0x800B4E30;
               b38 = guest_word H 0x800B4E38
      in if b38 \<noteq> 0 \<or> a6 AND 0x80000000 \<noteq> 0 then upd_nest (\<lambda>n. n\<lparr>ape_pending := False, ape_pulses := 0\<rparr>) s
      else if b30 = 0 then upd_nest (\<lambda>n. n\<lparr>ape_pending := False\<rparr>) s
      else let s = re_edge s;
               s = upd_nest (\<lambda>n. n\<lparr>ape_cool_cyc := cycles_now s + 564480 div 32, ape_pulses := ape_pulses n + 1\<rparr>) s
      in if ape_pulses (nest s) \<ge> 128 then upd_nest (\<lambda>n. n\<lparr>ape_pending := False\<rparr>) s else s)"

definition sio_ape_card_unstick_pump :: "'h sio_host \<Rightarrow> 'h sio \<Rightarrow> 'h sio" where
  "sio_ape_card_unstick_pump H s = (if ape_pending (nest s) then ape_card_unstick_maybe H s else s)"

definition sio_card_handoff_on_imask :: "'h sio_host \<Rightarrow> u32 \<Rightarrow> u32 \<Rightarrow> 'h sio \<Rightarrow> 'h sio" where
  "sio_card_handoff_on_imask H old_mask new_mask s =
     (if \<not> handoff_armed (nest s) then s
      else if old_mask AND 0x80 = 0 \<and> new_mask AND 0x80 \<noteq> 0 then s
      else if old_mask AND 0x80 \<noteq> 0 \<and> new_mask AND 0x80 = 0 then ape_card_unstick_maybe H s
      else s)"

definition set_hold :: "int \<Rightarrow> 'h sio \<Rightarrow> 'h sio" where
  "set_hold v s = upd_nest (\<lambda>n. n\<lparr>hold_left := v\<rparr>) s"

definition sio_card_should_hold_imask_bit7 :: "'h sio_host \<Rightarrow> 'h sio \<Rightarrow> bool \<times> 'h sio" where
  "sio_card_should_hold_imask_bit7 H s =
     (if \<not> ape_unstick_enabled H then (False, set_hold (-1) s)
      else if \<not> handoff_armed (nest s) \<and> \<not> ape_pending (nest s) then (False, set_hold (-1) s)
      else let a6 = guest_word H 0x800A6C10;
               b38 = guest_word H 0x800B4E38
      in if a6 AND 0x80000000 \<noteq> 0 \<or> b38 \<noteq> 0 then (False, set_hold (-1) s)
      else let s = (if hold_left (nest s) < 0 then set_hold 32 s else s)
      in if hold_left (nest s) = 0 then (False, s)
         else (True, set_hold (hold_left (nest s) - 1) s))"

definition do_txn_open :: "'h sio \<Rightarrow> 'h sio" where
  "do_txn_open s = upd_nest (\<lambda>n. n\<lparr>txn_count := 0, txn_tx := (\<lambda>_. 0), txn_open := True\<rparr>) s"

definition txn_record_byte :: "u8 \<Rightarrow> 'h sio \<Rightarrow> 'h sio" where
  "txn_record_byte tx s =
     (if \<not> txn_open (nest s) then s
      else upd_nest (\<lambda>n. n\<lparr>txn_tx := (if txn_count n < 256 then (txn_tx n)(unat (txn_count n) := tx) else txn_tx n),
                           txn_count := txn_count n + 1\<rparr>) s)"

definition txn_close :: "'h sio_host \<Rightarrow> txn_end \<Rightarrow> 'h sio \<Rightarrow> 'h sio" where
  "txn_close H reason s =
     (if \<not> txn_open (nest s) then s
      else let probe = (reason = SIO_TXN_END_ABORT_OTHER \<and> txn_count (nest s) = 3
                        \<and> txn_tx (nest s) 0 = 0x81 \<and> txn_tx (nest s) 1 = 0x52);
               s = (if \<not> probe then s
                    else let s = sio_arm_card_ct_defer_guard (upd_nest (\<lambda>n. n\<lparr>handoff_armed := True, ape_pulses := 0\<rparr>) s)
                         in if ape_unstick_enabled H \<and> guest_word H 0x800A6C10 AND 0x80000000 = 0 \<and> guest_word H 0x800B4E38 = 0
                            then re_edge s else s);
               s = (if ape_unstick_enabled H then upd_nest (\<lambda>n. n\<lparr>ape_pending := True\<rparr>) s else s)
      in ape_card_unstick_maybe H (upd_nest (\<lambda>n. n\<lparr>txn_open := False\<rparr>) s))"

subsection \<open>A byte to the selected device\<close>

definition pad_byte :: "u8 \<Rightarrow> 'h sio \<Rightarrow> 'h sio" where
  "pad_byte tx s =
     (let p = pad_process_byte tx ((pads s)\<lparr>pad_lines := sio_lines s\<rparr>) in s\<lparr>pads := p, sio_lines := pad_lines p\<rparr>)"

definition card_byte :: "'h sio_host \<Rightarrow> u8 \<Rightarrow> 'h sio \<Rightarrow> 'h sio" where
  "card_byte H tx s =
     (let c = mc_process_byte (files H) (selected_slot (pads s)) tx ((card s)\<lparr>lines := sio_lines s\<rparr>)
      in s\<lparr>card := c, sio_lines := lines c\<rparr>)"

definition open_if_closed :: "'h sio \<Rightarrow> 'h sio" where
  "open_if_closed s = (if \<not> txn_open (nest s) then do_txn_open s else s)"

definition stray_byte :: "'h sio \<Rightarrow> 'h sio" where
  "stray_byte s = set_stat SIO_STAT_TX_IDLE (set_rx 0xFF s)"

definition select_slot :: "'h sio \<Rightarrow> 'h sio" where
  "select_slot s = s\<lparr>pads := (pads s)\<lparr>selected_slot := (if sio_ctrl s AND SIO_CTRL_SLOT \<noteq> 0 then 1 else 0)\<rparr>\<rparr>"

text \<open>
  A byte of a card transaction: processed, recorded, and the transaction closed when the protocol
  came to its end with it.
\<close>

definition close_reason :: "mc_state \<Rightarrow> txn_end" where
  "close_reason pre =
     (case pre of MC_READ_END \<Rightarrow> SIO_TXN_END_SUCCESS | MC_WRITE_END \<Rightarrow> SIO_TXN_END_SUCCESS
      | MC_GETID_4 \<Rightarrow> SIO_TXN_END_SUCCESS | MC_CMD \<Rightarrow> SIO_TXN_END_ABORT_BAD_CMD | _ \<Rightarrow> SIO_TXN_END_ABORT_OTHER)"

definition card_txn_byte :: "'h sio_host \<Rightarrow> u8 \<Rightarrow> 'h sio \<Rightarrow> 'h sio" where
  "card_txn_byte H tx s =
     (let pre = mc_now s;
          s = card_byte H tx s
      in if \<not> txn_open (nest s) then s
         else let s = txn_record_byte tx s
              in if mc_now s = MC_IDLE \<and> pre \<noteq> MC_IDLE then txn_close H (close_reason pre) s else s)"

definition byte_unselected :: "'h sio_host \<Rightarrow> u8 \<Rightarrow> 'h sio \<Rightarrow> 'h sio" where
  "byte_unselected H tx s =
     (let s = select_slot s; sel = selected_slot (pads s) in
      if tx = 0x01 then
        (let s = (if mc_now s \<noteq> MC_IDLE then set_mc_state MC_IDLE (mc_save_slot (mc_slot (card s)) s) else s)
         in pad_byte tx (s\<lparr>active_device := DEV_PAD\<rparr>))
      else if tx = 0x81 then
        (let s = mc_load_slot sel s;
             s = (if mc_now s \<noteq> MC_IDLE then set_mc_state MC_IDLE (txn_close H SIO_TXN_END_ABORT_RESELECT s) else s);
             s = s\<lparr>active_device := DEV_MEMCARD, card := (card s)\<lparr>mc_slot := sel\<rparr>\<rparr>
         in card_txn_byte H tx (open_if_closed s))
      else
        (let s = mc_load_slot sel s in
         if mc_now s \<noteq> MC_IDLE \<and> sel = mc_slot (card s)
         then card_txn_byte H tx (open_if_closed (s\<lparr>active_device := DEV_MEMCARD\<rparr>))
         else let s = (if mc_now s \<noteq> MC_IDLE then txn_close H SIO_TXN_END_ABORT_SLOT s else s)
              in stray_byte (set_mc_state MC_IDLE s)))"

definition byte_card_idle :: "'h sio_host \<Rightarrow> u8 \<Rightarrow> 'h sio \<Rightarrow> 'h sio" where
  "byte_card_idle H tx s =
     (if tx = 0x81 then card_txn_byte H tx (open_if_closed s)
      else let s = select_slot (s\<lparr>active_device := DEV_NONE\<rparr>)
      in if tx = 0x01 then pad_byte tx (s\<lparr>active_device := DEV_PAD\<rparr>) else stray_byte s)"

definition sio_process_byte :: "'h sio_host \<Rightarrow> u8 \<Rightarrow> 'h sio \<Rightarrow> 'h sio" where
  "sio_process_byte H tx s =
     (case active_device s of
        DEV_NONE \<Rightarrow> byte_unselected H tx s
      | DEV_PAD \<Rightarrow> pad_byte tx s
      | DEV_MEMCARD \<Rightarrow> if mc_now s = MC_IDLE then byte_card_idle H tx s else card_txn_byte H tx s)"

subsection \<open>The acknowledge pulse and the shifter\<close>

definition sio_consume_ack_event :: "'h sio \<Rightarrow> bool \<times> 'h sio" where
  "sio_consume_ack_event s = (stat (sio_lines s) AND SIO_STAT_ACK \<noteq> 0, clear_stat SIO_STAT_ACK s)"

text \<open>The flag that gates the clock's calls goes off when nothing is in flight.\<close>

definition settle_timing :: "pacer \<Rightarrow> pacer" where
  "settle_timing p =
     (if \<not> shift_active p \<and> \<not> tx_buffered p \<and> \<not> pending_ack p then p\<lparr>timing_active := False\<rparr> else p)"

definition await_ack :: "int \<Rightarrow> bool \<Rightarrow> pacer \<Rightarrow> pacer" where
  "await_ack cycles irq_en p = p\<lparr>pending_ack := True, ack_remaining := cycles, pending_ack_irq_en := irq_en\<rparr>"

definition card_ack :: "'h sio \<Rightarrow> bool" where
  "card_ack s \<longleftrightarrow> irq_source s = SIO_IRQ_SRC_CARD_ACK \<or> active_device s = DEV_MEMCARD"

definition drop_spu_stat :: "'h sio \<Rightarrow> 'h sio" where
  "drop_spu_stat s = (if card_ack s then upd_senv (\<lambda>e. e\<lparr>i_stat := i_stat e AND NOT (push_bit 9 1)\<rparr>) s else s)"

definition show_ack :: "'h sio \<Rightarrow> 'h sio" where
  "show_ack s = (set_stat SIO_STAT_ACK s)\<lparr>ack_visible_reads := 2\<rparr>"

definition raise_sio :: "u32 \<Rightarrow> 'h sio \<Rightarrow> 'h sio" where
  "raise_sio aux s = upd_senv (\<lambda>e. record_ev EV_DEQ' SRC_SIO aux (psx_irq_raise IRQ_SIO0 aux e)) (set_stat SIO_STAT_IRQ s)"

definition sio_fire_ack_irq :: "'h sio \<Rightarrow> 'h sio" where
  "sio_fire_ack_irq s =
     (let card = card_ack s;
          s = show_ack (drop_spu_stat s)
      in if \<not> pending_ack_irq_en (pace s) \<and> sio_ctrl s AND SIO_CTRL_ACK_IRQ_EN = 0
         then upd_pace (\<lambda>p. p\<lparr>pending_ack_irq_en := False\<rparr>) s
         else if card \<and> i_stat (senv s) AND 0x80 \<noteq> 0
         then upd_pace (\<lambda>p. (await_ack 16 True p)\<lparr>timing_active := True\<rparr>) s
         else let s = raise_sio 0 (upd_pace (\<lambda>p. p\<lparr>pending_ack_irq_en := False\<rparr>) s);
                  s = (if card then sio_arm_card_ct_defer_guard s else s)
              in upd_pace settle_timing s)"

definition promote_buffer :: "pacer \<Rightarrow> pacer" where
  "promote_buffer p = p\<lparr>shift_byte := tx_buffer p, shift_active := True, shift_remaining := SIO_BAUD_CYCLES_DEFAULT,
     shift_ack_irq_en := tx_buffer_ack_irq_en p, tx_buffered := False, tx_buffer_ack_irq_en := False,
     bus_byte_index := bus_byte_index p + 1\<rparr>"

definition sio_handle_shift_complete :: "'h sio_host \<Rightarrow> 'h sio \<Rightarrow> 'h sio" where
  "sio_handle_shift_complete H s =
     (let s = sio_process_byte H (shift_byte (pace s)) s;
          (acked, s) = sio_consume_ack_event s;
          s = set_stat SIO_STAT_RX_RDY (upd_pace (\<lambda>p. p\<lparr>shift_active := False\<rparr>) s);
          s = s\<lparr>irq_source := (if active_device s = DEV_MEMCARD then SIO_IRQ_SRC_CARD_ACK else SIO_IRQ_SRC_PAD_ACK)\<rparr>;
          s = (if acked then upd_pace (\<lambda>p. await_ack SIO_ACK_CYCLES_DEFAULT (shift_ack_irq_en p) p) s else s);
          s = (if tx_buffered (pace s) then set_stat SIO_STAT_TX_EMPTY (upd_pace promote_buffer s)
               else set_stat SIO_STAT_TX_IDLE s)
      in upd_pace settle_timing s)"

subsection \<open>Guest time\<close>

text \<open>
  \<open>sio_pace_walk\<close> picks the next of the two deadlines that falls within the cycles given, or one
  that is overdue, and takes both clocks to it. \<open>MAX_TRANSITIONS\<close> being 1, its loop body runs at most
  once: an event counts as the one transition, and no event is a \<open>break\<close>.
\<close>

datatype pace_event = No_Event | Shift_Done | Ack_Due

definition next_event :: "int \<Rightarrow> pacer \<Rightarrow> pace_event \<times> int" where
  "next_event cycles p =
     (let (ev, dt) = (if shift_active p \<and> shift_remaining p > 0 \<and> shift_remaining p \<le> cycles
                      then (Shift_Done, shift_remaining p) else (No_Event, cycles));
          (ev, dt) = (if pending_ack p \<and> ack_remaining p > 0
                        \<and> (ack_remaining p < dt \<or> ack_remaining p = dt \<and> ev = No_Event)
                      then (Ack_Due, ack_remaining p) else (ev, dt))
      in if shift_active p \<and> shift_remaining p \<le> 0 then (Shift_Done, 0)
         else if pending_ack p \<and> ack_remaining p \<le> 0 then (Ack_Due, 0)
         else (ev, dt))"

definition run_clocks :: "int \<Rightarrow> pacer \<Rightarrow> pacer" where
  "run_clocks dt p =
     (let p = (if shift_active p then p\<lparr>shift_remaining := shift_remaining p - dt\<rparr> else p)
      in if pending_ack p then p\<lparr>ack_remaining := ack_remaining p - dt\<rparr> else p)"

definition overdue :: "pacer \<Rightarrow> bool" where
  "overdue p \<longleftrightarrow> shift_active p \<and> shift_remaining p \<le> 0 \<or> pending_ack p \<and> ack_remaining p \<le> 0"

definition ack_event :: "'h sio \<Rightarrow> 'h sio" where
  "ack_event s = sio_fire_ack_irq (upd_pace (\<lambda>p. p\<lparr>pending_ack := False\<rparr>) s)"

definition sio_pace_walk :: "'h sio_host \<Rightarrow> int \<Rightarrow> 'h sio \<Rightarrow> 'h sio" where
  "sio_pace_walk H cycles s =
     (if \<not> (cycles > 0 \<or> overdue (pace s)) then s
      else let (ev, dt) = next_event cycles (pace s);
               s = upd_pace (run_clocks dt) s
      in case ev of No_Event \<Rightarrow> s | Shift_Done \<Rightarrow> sio_handle_shift_complete H s | Ack_Due \<Rightarrow> ack_event s)"

definition sio_advance :: "'h sio_host \<Rightarrow> u32 \<Rightarrow> 'h sio \<Rightarrow> 'h sio" where
  "sio_advance H cycles s =
     (if cycles = 0 then s else if \<not> timing_active (pace s) then s else sio_pace_walk H (sint cycles) s)"

definition legacy_countdown :: "'h sio \<Rightarrow> 'h sio" where
  "legacy_countdown s =
     (if \<not> (irq_armed s \<and> irq_countdown s > 0) then s
      else let s = s\<lparr>irq_countdown := irq_countdown s - 1\<rparr>
      in if irq_countdown s \<noteq> 0 then s
         else raise_sio 1 (set_stat SIO_STAT_TX_IDLE (show_ack (s\<lparr>irq_armed := False\<rparr>))))"

definition sio_tick :: "'h sio_host \<Rightarrow> int \<Rightarrow> 'h sio \<Rightarrow> 'h sio" where
  "sio_tick H cycles s =
     sio_ape_card_unstick_pump H (legacy_countdown (if cycles > 0 then sio_pace_walk H cycles s else s))"

definition sio_tick_quantum :: "'h sio_host \<Rightarrow> 'h sio \<Rightarrow> 'h sio" where
  "sio_tick_quantum H s = sio_tick H 64 s"

text \<open>How many cycles the clock may run before the port raises its interrupt.\<close>

definition nearer :: "bool \<Rightarrow> int \<Rightarrow> u32 \<Rightarrow> u32" where
  "nearer due remaining best = (if due \<and> remaining > 0 \<and> word_of_int remaining < best then word_of_int remaining else best)"

definition sio_cycles_to_irq :: "u32 \<Rightarrow> 'h sio \<Rightarrow> u32" where
  "sio_cycles_to_irq im s =
     (if im AND push_bit 7 1 = 0 then 0xFFFFFFFF
      else let best = nearer (irq_armed s) (irq_countdown s) 0xFFFFFFFF
      in if timing_active (pace s)
         then nearer (shift_active (pace s)) (shift_remaining (pace s))
                (nearer (pending_ack (pace s)) (ack_remaining (pace s)) best)
         else best)"

subsection \<open>The registers\<close>

definition sio_read :: "'h sio_host \<Rightarrow> u32 \<Rightarrow> 'h sio \<Rightarrow> u32 \<times> 'h sio" where
  "sio_read H addr s =
     (let s = sio_tick H 0 s in
      if addr = 0x1F801040 then (ucast (rx_data (sio_lines s)), clear_stat SIO_STAT_RX_RDY s)
      else if addr = 0x1F801044 then
        (ucast (stat (sio_lines s)),
         if ack_visible_reads s > 0
         then let s = s\<lparr>ack_visible_reads := ack_visible_reads s - 1\<rparr>
              in if ack_visible_reads s = 0 then clear_stat SIO_STAT_ACK s else s
         else s)
      else if addr = 0x1F801048 then (ucast (sio_mode s), s)
      else if addr = 0x1F80104A then (ucast (sio_ctrl s), s)
      else if addr = 0x1F80104E then (ucast (sio_baud s), s)
      else (0, s))"

definition sio_peek_stat :: "'h sio \<Rightarrow> u16" where
  "sio_peek_stat s = stat (sio_lines s)"

definition sio_peek_ctrl :: "'h sio \<Rightarrow> u16" where
  "sio_peek_ctrl s = sio_ctrl s"

definition sio_peek_rx_data :: "'h sio \<Rightarrow> u8" where
  "sio_peek_rx_data s = rx_data (sio_lines s)"

text \<open>Writing the transmit register: the shifter, its buffer, or the synchronous pad path.\<close>

definition kill_shifter :: "pacer \<Rightarrow> pacer" where
  "kill_shifter p = p\<lparr>timing_active := False, shift_active := False, shift_remaining := 0, tx_buffered := False,
     shift_ack_irq_en := False, tx_buffer_ack_irq_en := False, pending_ack := False, ack_remaining := 0,
     pending_ack_irq_en := False\<rparr>"

definition bus_idle :: "pacer \<Rightarrow> pacer" where
  "bus_idle p = p\<lparr>bus_owner := SIO_OWNER_NONE, bus_byte_index := 0\<rparr>"

definition ack_irq_en :: "'h sio \<Rightarrow> bool" where
  "ack_irq_en s \<longleftrightarrow> sio_ctrl s AND SIO_CTRL_ACK_IRQ_EN \<noteq> 0"

definition tx_pad_fast :: "'h sio_host \<Rightarrow> u8 \<Rightarrow> 'h sio \<Rightarrow> 'h sio" where
  "tx_pad_fast H b s =
     (let s = upd_pace (\<lambda>p. (kill_shifter p)\<lparr>bus_owner := SIO_OWNER_PAD, bus_byte_index := bus_byte_index p + 1\<rparr>) s;
          s = sio_process_byte H b s
      in if stat (sio_lines s) AND SIO_STAT_ACK \<noteq> 0 \<and> ack_irq_en s
         then let s = clear_stat (SIO_STAT_ACK OR SIO_STAT_TX_RDY OR SIO_STAT_TX_EMPTY) s;
                  cycles = SIO_BAUD_CYCLES_DEFAULT + SIO_ACK_CYCLES_DEFAULT;
                  s = upd_pace (\<lambda>p. (await_ack cycles True p)\<lparr>timing_active := True\<rparr>) s
              in (upd_senv (record_ev EV_ENQ' SRC_SIO (word_of_int cycles)) s)\<lparr>irq_source := SIO_IRQ_SRC_PAD_ACK\<rparr>
         else set_stat SIO_STAT_TX_IDLE s)"

definition own_bus :: "u8 \<Rightarrow> pacer \<Rightarrow> pacer" where
  "own_bus b p =
     (let p = (if bus_byte_index p = 0
               then p\<lparr>bus_owner := (if b = 0x81 then SIO_OWNER_CARD else if b = 0x01 then SIO_OWNER_PAD else SIO_OWNER_UNKNOWN)\<rparr>
               else p)
      in p\<lparr>bus_byte_index := bus_byte_index p + 1\<rparr>)"

definition start_shift :: "u8 \<Rightarrow> bool \<Rightarrow> pacer \<Rightarrow> pacer" where
  "start_shift b irq_en p = p\<lparr>shift_byte := b, shift_active := True, shift_remaining := SIO_BAUD_CYCLES_DEFAULT,
     shift_ack_irq_en := irq_en, timing_active := True\<rparr>"

definition load_buffer :: "u8 \<Rightarrow> bool \<Rightarrow> pacer \<Rightarrow> pacer" where
  "load_buffer b irq_en p = p\<lparr>tx_buffer := b, tx_buffered := True, tx_buffer_ack_irq_en := irq_en\<rparr>"

definition tx_paced :: "u8 \<Rightarrow> 'h sio \<Rightarrow> 'h sio" where
  "tx_paced b s =
     (let s = upd_pace (own_bus b) s in
      if \<not> shift_active (pace s)
      then clear_stat SIO_STAT_TX_IDLE (upd_pace (start_shift b (ack_irq_en s)) s)
      else if \<not> tx_buffered (pace s)
      then clear_stat SIO_STAT_TX_EMPTY (upd_pace (load_buffer b (ack_irq_en s)) s)
      else s)"

definition tx_noted :: "u8 \<Rightarrow> 'h sio \<Rightarrow> 'h sio" where
  "tx_noted b s =
     (let s = s\<lparr>sio_tx_data := b\<rparr>
      in if b = 0x81 \<and> sio_ctrl s AND SIO_CTRL_SELECT \<noteq> 0 then upd_nest (\<lambda>n. n\<lparr>handoff_armed := True\<rparr>) s else s)"

definition write_tx :: "'h sio_host \<Rightarrow> u8 \<Rightarrow> 'h sio \<Rightarrow> 'h sio" where
  "write_tx H b s =
     (let s = tx_noted b s
      in if sio_ctrl s AND SIO_CTRL_TX_EN = 0 then s
         else if pad_sync_rx H \<and> active_device s \<noteq> DEV_MEMCARD
                 \<and> (active_device s = DEV_PAD \<or> bus_owner (pace s) = SIO_OWNER_PAD \<or> b = 0x01)
         then tx_pad_fast H b s
         else tx_paced b s)"

text \<open>Writing the control register, step by step.\<close>

definition idle_slot :: "mc_slot_state \<Rightarrow> mc_slot_state" where
  "idle_slot m = m\<lparr>mc_state := MC_IDLE\<rparr>"

definition clean_slot :: "mc_slot_state \<Rightarrow> mc_slot_state" where
  "clean_slot m = m\<lparr>mc_state := MC_IDLE, mc_cmd := 0, mc_sector := 0, mc_sector_msb := 0, mc_sector_lsb := 0,
     mc_data_idx := 0, mc_checksum := 0\<rparr>"

definition upd_slots :: "(mc_slot_state \<Rightarrow> mc_slot_state) \<Rightarrow> 'h sio \<Rightarrow> 'h sio" where
  "upd_slots f s = s\<lparr>mc_slots := (mc_slots s)(0 := f (mc_slots s 0), 1 := f (mc_slots s 1))\<rparr>"

definition quiet_pads :: "'h sio \<Rightarrow> 'h sio" where
  "quiet_pads s = s\<lparr>pads := pad_end (pads s), active_device := DEV_NONE\<rparr>"

definition ctrl_ack :: "'h sio \<Rightarrow> 'h sio" where
  "ctrl_ack s = (clear_stat (SIO_STAT_IRQ OR SIO_STAT_ACK) s)\<lparr>ack_visible_reads := 0\<rparr>"

definition ctrl_reset :: "'h sio_host \<Rightarrow> 'h sio \<Rightarrow> 'h sio" where
  "ctrl_reset H s =
     (let s = txn_close H SIO_TXN_END_ABORT_RESET s;
          s = s\<lparr>sio_lines := (sio_lines s)\<lparr>stat := SIO_STAT_TX_IDLE\<rparr>, sio_mode := 0, sio_ctrl := 0, sio_baud := 0\<rparr>;
          s = quiet_pads (upd_slots idle_slot (set_mc_state MC_IDLE s));
          s = s\<lparr>irq_armed := False, irq_countdown := 0, ack_visible_reads := 0\<rparr>
      in upd_pace (\<lambda>p. bus_idle (kill_shifter p)) s)"

definition ctrl_tx_off :: "bool \<Rightarrow> 'h sio \<Rightarrow> 'h sio" where
  "ctrl_tx_off selected s =
     (if shift_active (pace s) \<or> tx_buffered (pace s) \<or> pending_ack (pace s)
      then set_stat SIO_STAT_TX_IDLE (upd_pace (\<lambda>p. if selected then kill_shifter p else bus_idle (kill_shifter p)) s)
      else s)"

text \<open>A card byte that has shifted is finished, and its acknowledge delivered, before the bus is dropped.\<close>

definition flush_card :: "'h sio_host \<Rightarrow> 'h sio \<Rightarrow> 'h sio" where
  "flush_card H s =
     (if active_device s \<noteq> DEV_MEMCARD then s
      else let s = (if shift_active (pace s) \<and> shift_remaining (pace s) \<le> 0 then sio_handle_shift_complete H s else s)
      in if pending_ack (pace s)
         then sio_fire_ack_irq (upd_pace (\<lambda>p. p\<lparr>pending_ack := False, ack_remaining := 0\<rparr>) s)
         else s)"

text \<open>
  \<open>preserve_card_ack\<close>: firing the acknowledge put it off again because the previous interrupt is not
  cleared yet. Before the call the card was the active device and an acknowledge was pending.
\<close>

definition kept_ack :: "'h sio_host \<Rightarrow> 'h sio \<Rightarrow> int option" where
  "kept_ack H s =
     (if active_device s = DEV_MEMCARD \<and> pending_ack (pace (flush_card H s))
      then Some (ack_remaining (pace (flush_card H s))) else None)"

definition keep_flag :: "'h sio \<Rightarrow> 'h sio" where
  "keep_flag s =
     (let i = mc_slot (card s) in
      if active_device s = DEV_MEMCARD \<and> i \<ge> 0 \<and> i \<le> 1
      then s\<lparr>mc_slots := (mc_slots s)(i := (mc_slots s i)\<lparr>mc_flag := mc_flag (mc (card s))\<rparr>)\<rparr> else s)"

definition resume_ack :: "int option \<Rightarrow> 'h sio \<Rightarrow> 'h sio" where
  "resume_ack keep s =
     (case keep of None \<Rightarrow> s
      | Some rem \<Rightarrow> upd_pace (\<lambda>p. (await_ack (if rem > 0 then rem else 16) True p)\<lparr>timing_active := True\<rparr>)
                     (s\<lparr>irq_source := SIO_IRQ_SRC_CARD_ACK\<rparr>))"

definition ctrl_deselect :: "'h sio_host \<Rightarrow> 'h sio \<Rightarrow> 'h sio" where
  "ctrl_deselect H s =
     (let keep = kept_ack H s;
          s = flush_card H s;
          s = (if active_device s = DEV_MEMCARD \<and> mc_now s \<noteq> MC_IDLE then txn_close H SIO_TXN_END_ABORT_OTHER s else s);
          s = quiet_pads (upd_slots clean_slot (set_mc_state MC_IDLE (keep_flag s)));
          s = resume_ack keep (upd_pace (\<lambda>p. bus_idle (kill_shifter p)) s)
      in ape_card_unstick_maybe H (set_stat SIO_STAT_TX_IDLE s))"

definition write_ctrl :: "'h sio_host \<Rightarrow> u16 \<Rightarrow> 'h sio \<Rightarrow> 'h sio" where
  "write_ctrl H v s =
     (let old = sio_ctrl s;
          s = s\<lparr>sio_ctrl := v\<rparr>;
          s = (if v AND SIO_CTRL_ACK \<noteq> 0 then ctrl_ack s else s);
          s = (if v AND SIO_CTRL_RESET \<noteq> 0 then ctrl_reset H s else s);
          s = (if old AND SIO_CTRL_SELECT = 0 \<and> v AND SIO_CTRL_SELECT \<noteq> 0 then upd_pace bus_idle s else s);
          s = (if old AND SIO_CTRL_TX_EN \<noteq> 0 \<and> v AND SIO_CTRL_TX_EN = 0
               then ctrl_tx_off (v AND SIO_CTRL_SELECT \<noteq> 0) s else s)
      in if old AND SIO_CTRL_SELECT \<noteq> 0 \<and> v AND SIO_CTRL_SELECT = 0 then ctrl_deselect H s else s)"

text \<open>
  A write of 32 bits, as the memory map passes it: the control bits tested all lie in the low half.
\<close>

definition sio_write :: "'h sio_host \<Rightarrow> u32 \<Rightarrow> u32 \<Rightarrow> 'h sio \<Rightarrow> 'h sio" where
  "sio_write H addr value s =
     sio_tick H 0
       (if addr = 0x1F801040 then write_tx H (ucast value) s
        else if addr = 0x1F801048 then s\<lparr>sio_mode := ucast value\<rparr>
        else if addr = 0x1F80104A then write_ctrl H (ucast value) s
        else if addr = 0x1F80104E then s\<lparr>sio_baud := ucast value\<rparr>
        else s)"

subsection \<open>Power-on, and the two views of the host\<close>

definition fresh_slot :: "mc_slot_state \<Rightarrow> mc_slot_state" where
  "fresh_slot m = (clean_slot m)\<lparr>mc_data := (\<lambda>i. if i < 128 then 0 else mc_data m i), mc_flag := 0x08\<rparr>"

definition sio_init :: "'h sio \<Rightarrow> 'h sio" where
  "sio_init s =
     (let s = s\<lparr>sio_tx_data := 0, sio_lines := \<lparr>rx_data = 0xFF, stat = SIO_STAT_TX_IDLE\<rparr>,
                sio_mode := 0, sio_ctrl := 0, sio_baud := 0, pads := pad_init (pads s)\<rparr>;
          s = (upd_slots fresh_slot (set_mc_state MC_IDLE s))\<lparr>active_device := DEV_NONE,
                irq_armed := False, irq_countdown := 0, ack_visible_reads := 0\<rparr>;
          s = upd_pace (\<lambda>p. bus_idle (kill_shifter p)) s
      in upd_nest (\<lambda>n. n\<lparr>txn_open := False\<rparr>) s)"

definition sio_get_freeze_diag :: "'h sio \<Rightarrow> bool \<times> int \<times> u16 \<times> u16 \<times> bool" where
  "sio_get_freeze_diag s =
     (irq_armed s, irq_countdown s, stat (sio_lines s), sio_ctrl s, sio_card_protocol_active s)"

text \<open>The start of a netplay session: the pads are brought to one state, and the bus off the pads.\<close>

definition sio_netplay_canonicalize_session_pads :: "int \<Rightarrow> 'h sio \<Rightarrow> 'h sio" where
  "sio_netplay_canonicalize_session_pads slot_count s =
     s\<lparr>pads := canonicalize_pads slot_count (pads s),
       active_device := (if active_device s = DEV_PAD then DEV_NONE else active_device s)\<rparr>"

end
