(* ===== verification/SioSnap.thy ===== *)
theory SioSnap
  imports Sio PstWire
begin

unbundle bit_operations_syntax

section \<open>The snapshot of the serial port\<close>

text \<open>
  The sections of the snapshot as \<open>sio.c\<close> emits them (registers, pads, card, pacing, metadata, rumble) and
  the reader. The fields of the trace entry of the next interrupt, which nothing else of the port
  reads, are the record \<open>irq_meta\<close>. The integers and bytes tested for zero only are booleans. C stores what it reads
  without a check; a number outside the constants of an enumeration, a type request other than -1, 0 and 1
  and a negative card index have no value in the types of this model, and there the reader is \<open>None\<close>. The modes that the snapshot leaves out
  (the lock of the analog mode, the multitap's latches and address) stay as they are.
\<close>

subsection \<open>Flags and enumerations on the wire\<close>

definition w_flag8 :: "bool \<Rightarrow> pst_w \<Rightarrow> bool \<times> pst_w" where
  "w_flag8 b = pst_w_u8 (of_bool b)"

definition w_flag32 :: "bool \<Rightarrow> pst_w \<Rightarrow> bool \<times> pst_w" where
  "w_flag32 b = pst_w_u32 (of_bool b)"

definition r_flag8 :: "pst_r \<Rightarrow> (bool \<times> pst_r) option" where
  "r_flag8 r = r_then (pst_r_u8 r) (\<lambda>b r. Some (b \<noteq> 0, r))"

definition r_flag32 :: "pst_r \<Rightarrow> (bool \<times> pst_r) option" where
  "r_flag32 r = r_then (pst_r_u32 r) (\<lambda>b r. Some (b \<noteq> 0, r))"

definition enum_code :: "'a list \<Rightarrow> 'a \<Rightarrow> u32" where
  "enum_code xs x = of_nat (length (takeWhile (\<lambda>y. y \<noteq> x) xs))"

definition as_enum :: "'a list \<Rightarrow> u32 \<Rightarrow> pst_r \<Rightarrow> ('a \<times> pst_r) option" where
  "as_enum xs u r = (if unat u < length xs then Some (xs ! unat u, r) else None)"

definition r_enum8 :: "'a list \<Rightarrow> pst_r \<Rightarrow> ('a \<times> pst_r) option" where
  "r_enum8 xs r = r_then (pst_r_u8 r) (\<lambda>b. as_enum xs (ucast b))"

definition r_enum32 :: "'a list \<Rightarrow> pst_r \<Rightarrow> ('a \<times> pst_r) option" where
  "r_enum32 xs r = r_then (pst_r_u32 r) (as_enum xs)"

abbreviation pad_states :: "pad_state list" where
  "pad_states \<equiv> [PAD_IDLE, PAD_WAIT_ACCESS, PAD_SEND_RESPONSE]"

abbreviation mc_states :: "mc_state list" where
  "mc_states \<equiv> [MC_IDLE, MC_CMD, MC_ID1, MC_ID2, MC_ADDR_MSB, MC_ADDR_LSB, MC_READ_ACK1, MC_READ_ACK2,
     MC_READ_MSB_ECHO, MC_READ_LSB_ECHO, MC_READ_DATA, MC_READ_CHK, MC_READ_END, MC_WRITE_LSB_ECHO, MC_WRITE_DATA,
     MC_WRITE_CHK, MC_WRITE_ACK1, MC_WRITE_ACK2, MC_WRITE_END, MC_GETID_1, MC_GETID_2, MC_GETID_3, MC_GETID_4]"

abbreviation devices_list :: "device list" where "devices_list \<equiv> [DEV_NONE, DEV_PAD, DEV_MEMCARD]"

abbreviation owners :: "bus_owner list" where
  "owners \<equiv> [SIO_OWNER_NONE, SIO_OWNER_CARD, SIO_OWNER_PAD, SIO_OWNER_UNKNOWN]"

abbreviation sources :: "irq_source list" where
  "sources \<equiv> [SIO_IRQ_SRC_UNKNOWN, SIO_IRQ_SRC_CARD_ACK, SIO_IRQ_SRC_PAD_ACK]"

text \<open>The pending type request, -1, 0 or 1: an \<open>int8_t\<close> sent as an \<open>int16_t\<close>.\<close>

abbreviation requests :: "bool option list" where "requests \<equiv> [None, Some False, Some True]"

definition req_code :: "bool option \<Rightarrow> u16" where
  "req_code q = (case q of None \<Rightarrow> 0xFFFF | Some False \<Rightarrow> 0 | Some True \<Rightarrow> 1)"

definition r_req :: "pst_r \<Rightarrow> (bool option \<times> pst_r) option" where
  "r_req r = r_then (pst_r_u16 r) (\<lambda>u. as_enum requests (ucast (ucast u + 1 :: u8)))"

subsection \<open>Writing\<close>

record irq_meta =
  meta_slot :: u8
  meta_delay :: u8
  meta_mc_state :: u8
  meta_byte_seq :: u32

definition sio_w_mcslot :: "mc_slot_state \<Rightarrow> pst_w \<Rightarrow> bool \<times> pst_w" where
  "sio_w_mcslot m = w_seq [pst_w_u32 (enum_code mc_states (mc_state m)), pst_w_u8 (mc_cmd m), pst_w_u16 (mc_sector m),
     pst_w_u8 (mc_sector_msb m), pst_w_u8 (mc_sector_lsb m), pst_w_bytes (map (mc_data m) [0..<128]),
     pst_w_i32 (int (mc_data_idx m)), pst_w_u8 (mc_checksum m), pst_w_u8 (mc_flag m)]"

definition sio_snap_emit_regs :: "'h sio \<Rightarrow> pst_w \<Rightarrow> bool \<times> pst_w" where
  "sio_snap_emit_regs s = w_seq [pst_w_u8 (sio_tx_data s), pst_w_u8 (rx_data (sio_lines s)), pst_w_u16 (stat (sio_lines s)),
     pst_w_u16 (sio_mode s), pst_w_u16 (sio_ctrl s), pst_w_u16 (sio_baud s)]"

abbreviation seats :: "pad_bus \<Rightarrow> nat list" where "seats p \<equiv> [0..<nat (players p)]"

definition sio_snap_emit_pads :: "pad_bus \<Rightarrow> pst_w \<Rightarrow> bool \<times> pst_w" where
  "sio_snap_emit_pads p = w_seq
     (map (\<lambda>i. w_flag8 (pad_analog p i)) (seats p) @
      [pst_w_u8 (pad_connected p), pst_w_u32 (enum_code pad_states (pad_state p)), pst_w_i32 (selected_slot p),
       pst_w_bytes (map (pad_response p) [0..<8]), pst_w_u8 (of_nat (pad_response_len p)),
       pst_w_u8 (of_nat (pad_response_idx p)), pst_w_u8 (pad_current_cmd p)] @
      map (\<lambda>i. w_flag8 (pad_in_config p i)) (seats p) @
      map (\<lambda>i. pst_w_u16 (req_code (pad_type_req p i))) (seats p))"

definition sio_snap_emit_mc :: "'h sio \<Rightarrow> pst_w \<Rightarrow> bool \<times> pst_w" where
  "sio_snap_emit_mc s =
     (let m = mc (card s) in
      w_seq [pst_w_u32 (enum_code mc_states (mc_state m)), pst_w_i32 (mc_slot (card s)), pst_w_u8 (mc_cmd m),
        pst_w_u16 (mc_sector m), pst_w_u8 (mc_sector_msb m), pst_w_u8 (mc_sector_lsb m), pst_w_bytes (map (mc_data m) [0..<128]),
        pst_w_i32 (int (mc_data_idx m)), pst_w_u8 (mc_checksum m), pst_w_u8 (mc_flag m),
        sio_w_mcslot (mc_slots s 0), sio_w_mcslot (mc_slots s 1), pst_w_u32 (enum_code devices_list (active_device s))])"

definition sio_snap_emit_fsm_pace :: "'h sio \<Rightarrow> pst_w \<Rightarrow> bool \<times> pst_w" where
  "sio_snap_emit_fsm_pace s =
     (let p = pace s in
      w_seq [w_flag32 (timing_active p), w_flag32 (shift_active p), pst_w_u8 (shift_byte p), pst_w_i32 (shift_remaining p),
        w_flag32 (tx_buffered p), pst_w_u8 (tx_buffer p), w_flag32 (shift_ack_irq_en p), w_flag32 (tx_buffer_ack_irq_en p),
        w_flag32 (pending_ack p), pst_w_i32 (ack_remaining p), w_flag32 (pending_ack_irq_en p),
        pst_w_u32 (enum_code owners (bus_owner p)), pst_w_u32 (bus_byte_index p),
        w_flag32 (irq_armed s), pst_w_i32 (irq_countdown s), pst_w_i32 (ack_visible_reads s)])"

definition sio_snap_emit_fsm_meta :: "irq_meta \<Rightarrow> 'h sio \<Rightarrow> pst_w \<Rightarrow> bool \<times> pst_w" where
  "sio_snap_emit_fsm_meta m s = w_seq [pst_w_u8 (ucast (enum_code sources (irq_source s))), pst_w_u8 (meta_slot m),
     pst_w_u8 (meta_delay m), pst_w_u8 (meta_mc_state m), pst_w_u32 (meta_byte_seq m)]"

definition sio_snap_emit_rumble :: "pad_bus \<Rightarrow> pst_w \<Rightarrow> bool \<times> pst_w" where
  "sio_snap_emit_rumble p = w_seq
     (map (\<lambda>i. pst_w_bytes (map (pad_rumble_map p i) [0..<6])) (seats p) @
      [pst_w_bytes (map (pad_rumble_small p) (seats p)), pst_w_bytes (map (pad_rumble_large p) (seats p))])"

definition sio_snap_emit :: "irq_meta \<Rightarrow> 'h sio \<Rightarrow> pst_w \<Rightarrow> bool \<times> pst_w" where
  "sio_snap_emit m s = w_seq [sio_snap_emit_regs s, sio_snap_emit_pads (pads s), sio_snap_emit_mc s,
     sio_snap_emit_fsm_pace s, sio_snap_emit_fsm_meta m s, sio_snap_emit_rumble (pads s)]"

definition sio_snapshot_section_ends :: "irq_meta \<Rightarrow> 'h sio \<Rightarrow> nat list" where
  "sio_snapshot_section_ends m s =
     (let w0 = snd (sio_snap_emit_regs s (pst_w_init None));
          w1 = snd (sio_snap_emit_pads (pads s) w0);
          w2 = snd (sio_snap_emit_mc s w1);
          w3 = snd (sio_snap_emit_fsm_pace s w2);
          w4 = snd (sio_snap_emit_rumble (pads s) (snd (sio_snap_emit_fsm_meta m s w3)))
      in map pw_written [w0, w1, w2, w3, w4])"

definition sio_snapshot_bytes :: "irq_meta \<Rightarrow> 'h sio \<Rightarrow> nat" where
  "sio_snapshot_bytes m s = pw_written (snd (sio_snap_emit m s (pst_w_init None)))"

definition sio_snapshot_write :: "irq_meta \<Rightarrow> 'h sio \<Rightarrow> u8 list" where
  "sio_snapshot_write m s = pw_buf (snd (sio_snap_emit m s (pst_w_init (Some (sio_snapshot_bytes m s)))))"

subsection \<open>Reading\<close>

text \<open>The first \<open>n\<close> elements of an array replaced.\<close>

definition over :: "nat \<Rightarrow> 'a list \<Rightarrow> (nat \<Rightarrow> 'a) \<Rightarrow> nat \<Rightarrow> 'a" where
  "over n xs f = (\<lambda>i. if i < n then xs ! i else f i)"

definition r_index :: "pst_r \<Rightarrow> (nat \<times> pst_r) option" where
  "r_index r = r_then (pst_r_i32 r) (\<lambda>i r. if i < 0 then None else Some (nat i, r))"

definition sio_r_mcslot :: "mc_slot_state \<Rightarrow> pst_r \<Rightarrow> (mc_slot_state \<times> pst_r) option" where
  "sio_r_mcslot m r =
     r_then (r_enum32 mc_states r) (\<lambda>st r. r_then (pst_r_u8 r) (\<lambda>c r. r_then (pst_r_u16 r) (\<lambda>sec r.
     r_then (r_many pst_r_u8 2 r) (\<lambda>ml r. r_then (pst_r_bytes 128 r) (\<lambda>d r. r_then (r_index r) (\<lambda>di r.
     r_then (r_many pst_r_u8 2 r) (\<lambda>cf r.
       Some (\<lparr>mc_state = st, mc_cmd = c, mc_sector = sec, mc_sector_msb = ml ! 0, mc_sector_lsb = ml ! 1,
              mc_data = over 128 d (mc_data m), mc_data_idx = di, mc_checksum = cf ! 0, mc_flag = cf ! 1\<rparr>, r))))))))"

definition sio_snap_parse_regs :: "pst_r \<Rightarrow> 'h sio \<Rightarrow> ('h sio \<times> pst_r) option" where
  "sio_snap_parse_regs r s =
     r_then (r_many pst_r_u8 2 r) (\<lambda>b r. r_then (r_many pst_r_u16 4 r) (\<lambda>h r.
       Some (s\<lparr>sio_tx_data := b ! 0, sio_lines := \<lparr>rx_data = b ! 1, stat = h ! 0\<rparr>, sio_mode := h ! 1, sio_ctrl := h ! 2,
               sio_baud := h ! 3\<rparr>, r)))"

text \<open>Of a response longer than the eight bytes saved the transfer is abandoned.\<close>

definition abort_bulk :: "pad_bus \<Rightarrow> pad_bus" where
  "abort_bulk p =
     (if pad_response_len p > 8
      then p\<lparr>pad_state := PAD_IDLE, pad_response_len := 0, pad_response_idx := 0, pad_current_cmd := 0\<rparr> else p)"

definition sio_snap_parse_pads :: "pst_r \<Rightarrow> pad_bus \<Rightarrow> (pad_bus \<times> pst_r) option" where
  "sio_snap_parse_pads r p =
     (let n = nat (players p) in
      r_then (r_many r_flag8 n r) (\<lambda>an r. r_then (pst_r_u8 r) (\<lambda>con r. r_then (r_enum32 pad_states r) (\<lambda>st r.
      r_then (pst_r_i32 r) (\<lambda>sel r. r_then (pst_r_bytes 8 r) (\<lambda>resp r. r_then (r_many pst_r_u8 3 r) (\<lambda>b r.
      r_then (r_many r_flag8 n r) (\<lambda>cfg r. r_then (r_many r_req n r) (\<lambda>req r.
        Some (abort_bulk (p\<lparr>pad_analog := over n an (pad_analog p), pad_connected := con, pad_state := st, selected_slot := sel,
            pad_active_logical := pad_logical_for_port sel p, pad_response := over 8 resp (pad_response p),
            pad_response_len := unat (b ! 0), pad_response_idx := unat (b ! 1), pad_current_cmd := b ! 2,
            pad_in_config := over n cfg (pad_in_config p), pad_type_req := over n req (pad_type_req p)\<rparr>), r))))))))))"

definition sio_snap_parse_mc :: "pst_r \<Rightarrow> 'h sio \<Rightarrow> ('h sio \<times> pst_r) option" where
  "sio_snap_parse_mc r s =
     r_then (r_enum32 mc_states r) (\<lambda>st r. r_then (pst_r_i32 r) (\<lambda>slot r. r_then (pst_r_u8 r) (\<lambda>c r.
     r_then (pst_r_u16 r) (\<lambda>sec r. r_then (r_many pst_r_u8 2 r) (\<lambda>ml r. r_then (pst_r_bytes 128 r) (\<lambda>d r.
     r_then (r_index r) (\<lambda>di r. r_then (r_many pst_r_u8 2 r) (\<lambda>cf r.
     r_then (sio_r_mcslot (mc_slots s 0) r) (\<lambda>m0 r. r_then (sio_r_mcslot (mc_slots s 1) r) (\<lambda>m1 r.
     r_then (r_enum32 devices_list r) (\<lambda>dv r.
       Some (s\<lparr>card := (card s)\<lparr>mc := \<lparr>mc_state = st, mc_cmd = c, mc_sector = sec, mc_sector_msb = ml ! 0,
            mc_sector_lsb = ml ! 1, mc_data = over 128 d (mc_data (mc (card s))), mc_data_idx = di, mc_checksum = cf ! 0,
            mc_flag = cf ! 1\<rparr>, mc_slot := slot\<rparr>,
          mc_slots := (mc_slots s)(0 := m0, 1 := m1), active_device := dv\<rparr>, r))))))))))))"

definition sio_snap_parse_pace :: "pst_r \<Rightarrow> 'h sio \<Rightarrow> ('h sio \<times> pst_r) option" where
  "sio_snap_parse_pace r s =
     r_then (r_many r_flag32 2 r) (\<lambda>a r. r_then (pst_r_u8 r) (\<lambda>sb r. r_then (pst_r_i32 r) (\<lambda>sr r.
     r_then (r_flag32 r) (\<lambda>tb r. r_then (pst_r_u8 r) (\<lambda>bb r. r_then (r_many r_flag32 3 r) (\<lambda>f r.
     r_then (pst_r_i32 r) (\<lambda>ar r. r_then (r_flag32 r) (\<lambda>pe r. r_then (r_enum32 owners r) (\<lambda>ow r.
     r_then (pst_r_u32 r) (\<lambda>bi r. r_then (r_flag32 r) (\<lambda>ip r. r_then (r_many pst_r_i32 2 r) (\<lambda>cv r.
       Some (s\<lparr>pace := \<lparr>timing_active = a ! 0, shift_active = a ! 1, shift_byte = sb, shift_remaining = sr,
            tx_buffered = tb, tx_buffer = bb, shift_ack_irq_en = f ! 0, tx_buffer_ack_irq_en = f ! 1,
            pending_ack = f ! 2, ack_remaining = ar, pending_ack_irq_en = pe, bus_owner = ow, bus_byte_index = bi\<rparr>,
          irq_armed := ip, irq_countdown := cv ! 0, ack_visible_reads := cv ! 1\<rparr>, r)))))))))))))"

definition sio_snap_parse_meta :: "pst_r \<Rightarrow> 'h sio \<Rightarrow> ((irq_meta \<times> 'h sio) \<times> pst_r) option" where
  "sio_snap_parse_meta r s =
     r_then (r_enum8 sources r) (\<lambda>src r. r_then (r_many pst_r_u8 3 r) (\<lambda>b r. r_then (pst_r_u32 r) (\<lambda>q r.
       Some ((\<lparr>meta_slot = b ! 0, meta_delay = b ! 1, meta_mc_state = b ! 2, meta_byte_seq = q\<rparr>, s\<lparr>irq_source := src\<rparr>), r))))"

text \<open>The motors, or at the end of an older snapshot the usual map with both motors stopped.\<close>

definition sio_snap_parse_rumble :: "pst_r \<Rightarrow> pad_bus \<Rightarrow> (bool \<times> pad_bus) option" where
  "sio_snap_parse_rumble r p =
     (let n = nat (players p) in
      if r = Some [] then
        Some (True, p\<lparr>pad_rumble_map := (\<lambda>i j. if i < n \<and> j < 6 then (if j = 0 then 0 else if j = 1 then 1 else 0xFF)
                                       else pad_rumble_map p i j),
                      pad_rumble_small := over n (replicate n 0) (pad_rumble_small p),
                      pad_rumble_large := over n (replicate n 0) (pad_rumble_large p)\<rparr>)
      else
        r_then (r_many (pst_r_bytes 6) n r) (\<lambda>mp r. r_then (pst_r_bytes n r) (\<lambda>sm r. r_then (pst_r_bytes n r) (\<lambda>la r.
          Some (r = Some [],
            p\<lparr>pad_rumble_map := (\<lambda>i. if i < n then over 6 (mp ! i) (pad_rumble_map p i) else pad_rumble_map p i),
              pad_rumble_small := over n sm (pad_rumble_small p), pad_rumble_large := over n la (pad_rumble_large p)\<rparr>)))))"

definition sio_snap_parse :: "pst_r \<Rightarrow> 'h sio \<Rightarrow> (bool \<times> irq_meta \<times> 'h sio) option" where
  "sio_snap_parse r s =
     r_then (sio_snap_parse_regs r s) (\<lambda>s r. r_then (sio_snap_parse_pads r (pads s)) (\<lambda>p r.
     r_then (sio_snap_parse_mc r (s\<lparr>pads := p\<rparr>)) (\<lambda>s r. r_then (sio_snap_parse_pace r s) (\<lambda>s r.
     r_then (sio_snap_parse_meta r s) (\<lambda>(m, s) r.
       map_option (\<lambda>(ok, p). (ok, m, s\<lparr>pads := p\<rparr>)) (sio_snap_parse_rumble r (pads s)))))))"

definition sio_snapshot_read :: "u8 list \<Rightarrow> irq_meta \<Rightarrow> 'h sio \<Rightarrow> (bool \<times> irq_meta \<times> 'h sio) option" where
  "sio_snapshot_read bs m s =
     (let current = sio_snapshot_bytes m s; rumble_bytes = 8 * nat (players (pads s)) in
      if length bs \<noteq> current \<and> (length bs > current \<or> length bs + rumble_bytes \<noteq> current) then Some (False, m, s)
      else sio_snap_parse (pst_r_init bs) s)"

subsection \<open>The codecs of the fields\<close>

lemma enum_round:
  assumes "x \<in> set xs" "length xs \<le> 255"
  shows "as_enum xs (enum_code xs x) r = Some (x, r)"
    and "as_enum xs (ucast (ucast (enum_code xs x) :: u8)) r = Some (x, r)"
proof -
  let ?n = "length (takeWhile (\<lambda>y. y \<noteq> x) xs)"
  have n: "?n < length xs" using assms(1) by (induction xs) auto
  have x: "xs ! ?n = x" using nth_length_takeWhile [OF n] by simp
  then have lt: "?n < 256" using n assms(2) by linarith
  then have u: "unat (enum_code xs x) = ?n" by (simp add: enum_code_def unat_of_nat take_bit_nat_eq_self)
  show "as_enum xs (enum_code xs x) r = Some (x, r)" using n x by (simp add: as_enum_def u)
  have "ucast (ucast (enum_code xs x) :: u8) = enum_code xs x"
    using lt by (simp add: enum_code_def unsigned_of_nat take_bit_nat_eq_self)
  then show "as_enum xs (ucast (ucast (enum_code xs x) :: u8)) r = Some (x, r)" using n x by (simp add: as_enum_def u)
qed

interpretation wire_flag8: wire_codec 1 "\<lambda>b. [of_bool b]" r_flag8
proof unfold_locales
  show "r_flag8 (Some ([of_bool b] @ rest)) = Some (b, Some rest)" for b rest
    unfolding r_flag8_def w8.get_put r_then_simps by simp
qed simp

interpretation wire_flag32: wire_codec 4 "\<lambda>b. le32 (of_bool b)" r_flag32
  by unfold_locales (simp_all add: r_flag32_def w32.get_put w32.length_put)

interpretation wire_pad_state: wire_codec 4 "\<lambda>x. le32 (enum_code pad_states x)" "r_enum32 pad_states"
proof unfold_locales
  show "r_enum32 pad_states (Some (le32 (enum_code pad_states x) @ rest)) = Some (x, Some rest)" for x rest
    unfolding r_enum32_def w32.get_put r_then_simps by (rule enum_round(1)) (cases x; simp)+
qed (simp add: w32.length_put)

interpretation wire_mc_state: wire_codec 4 "\<lambda>x. le32 (enum_code mc_states x)" "r_enum32 mc_states"
proof unfold_locales
  show "r_enum32 mc_states (Some (le32 (enum_code mc_states x) @ rest)) = Some (x, Some rest)" for x rest
    unfolding r_enum32_def w32.get_put r_then_simps by (rule enum_round(1)) (cases x; simp)+
qed (simp add: w32.length_put)

interpretation wire_device: wire_codec 4 "\<lambda>x. le32 (enum_code devices_list x)" "r_enum32 devices_list"
proof unfold_locales
  show "r_enum32 devices_list (Some (le32 (enum_code devices_list x) @ rest)) = Some (x, Some rest)" for x rest
    unfolding r_enum32_def w32.get_put r_then_simps by (rule enum_round(1)) (cases x; simp)+
qed (simp add: w32.length_put)

interpretation wire_owner: wire_codec 4 "\<lambda>x. le32 (enum_code owners x)" "r_enum32 owners"
proof unfold_locales
  show "r_enum32 owners (Some (le32 (enum_code owners x) @ rest)) = Some (x, Some rest)" for x rest
    unfolding r_enum32_def w32.get_put r_then_simps by (rule enum_round(1)) (cases x; simp)+
qed (simp add: w32.length_put)

interpretation wire_source: wire_codec 1 "\<lambda>x. [ucast (enum_code sources x)]" "r_enum8 sources"
proof unfold_locales
  show "r_enum8 sources (Some ([ucast (enum_code sources x)] @ rest)) = Some (x, Some rest)" for x rest
    unfolding r_enum8_def w8.get_put r_then_simps by (rule enum_round(2)) (cases x; simp)+
qed simp

interpretation wire_req: wire_codec 2 "\<lambda>q. le16 (req_code q)" r_req
proof unfold_locales
  show "r_req (Some (le16 (req_code q) @ rest)) = Some (q, Some rest)" for q rest
    by (cases q rule: option.exhaust; simp add: r_req_def w16.get_put req_code_def as_enum_def split: bool.split)
qed (simp add: w16.length_put)

text \<open>An unbounded integer of the model comes back as the 32 bits of it that C keeps.\<close>

definition wrap32 :: "int \<Rightarrow> int" where
  "wrap32 v = sint (word_of_int v :: u32)"

lemma wrap32_id: "- (2 ^ 31) \<le> v \<Longrightarrow> v < 2 ^ 31 \<Longrightarrow> wrap32 v = v"
  by (simp add: wrap32_def signed_of_int signed_take_bit_int_eq_self)

lemma get_wrap32: "pst_r_i32 (Some (le_i32 v @ rest)) = Some (wrap32 v, Some rest)"
  by (simp add: pst_r_i32_def le_i32_def w32.get_put wrap32_def)

lemma get_index: "n < 2 ^ 31 \<Longrightarrow> r_index (Some (le_i32 (int n) @ rest)) = Some (n, Some rest)"
  by (simp add: r_index_def get_wrap32 wrap32_id)

lemma emits_fields:
  "emits (w_flag8 b) [of_bool b]" "emits (w_flag32 b) (le32 (of_bool b))"
  by (simp_all add: w_flag8_def w_flag32_def emits_u8 emits_u32)

lemma over_map [simp]: "over n (map g [0..<n]) f = (\<lambda>i. if i < n then g i else f i)"
  by (auto simp: over_def)

subsection \<open>What each section puts on the wire\<close>

lemma get_bytes: "length xs = n \<Longrightarrow> r_many pst_r_u8 n (Some (xs @ rest)) = Some (xs, Some rest)"
  using w8.get_puts [of xs n rest] by simp

definition put_mcslot :: "mc_slot_state \<Rightarrow> u8 list" where
  "put_mcslot m = le32 (enum_code mc_states (mc_state m)) @ [mc_cmd m] @ le16 (mc_sector m) @
     [mc_sector_msb m, mc_sector_lsb m] @ map (mc_data m) [0..<128] @ le_i32 (int (mc_data_idx m)) @
     [mc_checksum m, mc_flag m]"

definition slot_loaded :: "mc_slot_state \<Rightarrow> mc_slot_state \<Rightarrow> mc_slot_state" where
  "slot_loaded m old = m\<lparr>mc_data := (\<lambda>i. if i < 128 then mc_data m i else mc_data old i)\<rparr>"

lemma emits_mcslot: "emits (sio_w_mcslot m) (put_mcslot m)"
proof -
  have "list_all2 emits [pst_w_u32 (enum_code mc_states (mc_state m)), pst_w_u8 (mc_cmd m), pst_w_u16 (mc_sector m),
     pst_w_u8 (mc_sector_msb m), pst_w_u8 (mc_sector_lsb m), pst_w_bytes (map (mc_data m) [0..<128]),
     pst_w_i32 (int (mc_data_idx m)), pst_w_u8 (mc_checksum m), pst_w_u8 (mc_flag m)]
    [le32 (enum_code mc_states (mc_state m)), [mc_cmd m], le16 (mc_sector m), [mc_sector_msb m], [mc_sector_lsb m],
     map (mc_data m) [0..<128], le_i32 (int (mc_data_idx m)), [mc_checksum m], [mc_flag m]]"
    by (simp only: list_all2_Cons list_all2_Nil simp_thms emits_u8 emits_u16 emits_u32 emits_i32 emits_bytes)
  from emits_seq [OF this] show ?thesis by (simp add: sio_w_mcslot_def put_mcslot_def del: upt_rec_numeral)
qed

lemma length_mcslot: "length (put_mcslot m) = 143"
  by (simp add: put_mcslot_def w16.length_put w32.length_put del: upt_rec_numeral)

lemma get_mcslot:
  assumes "mc_data_idx m < 2 ^ 31"
  shows "sio_r_mcslot old (Some (put_mcslot m @ rest)) = Some (slot_loaded m old, Some rest)"
proof -
  have two: "length [a, b] = 2" for a b :: u8 by simp
  have d: "length (map (mc_data m) [0..<128]) = 128" by (simp del: upt_rec_numeral)
  show ?thesis
    unfolding sio_r_mcslot_def put_mcslot_def append_assoc
    by (simp only: wire_mc_state.get_put r_then_simps w8.get_put w16.get_put get_bytes [OF two] r_bytes_append [OF d]
        get_index [OF assms]) (simp add: slot_loaded_def del: upt_rec_numeral)
qed

definition put_regs :: "'h sio \<Rightarrow> u8 list" where
  "put_regs s = [sio_tx_data s, rx_data (sio_lines s)] @
     concat (map le16 [stat (sio_lines s), sio_mode s, sio_ctrl s, sio_baud s])"

definition regs_loaded :: "'h sio \<Rightarrow> 'h sio \<Rightarrow> 'h sio" where
  "regs_loaded u s = s\<lparr>sio_tx_data := sio_tx_data u, sio_lines := sio_lines u, sio_mode := sio_mode u,
     sio_ctrl := sio_ctrl u, sio_baud := sio_baud u\<rparr>"

lemma emits_regs: "emits (sio_snap_emit_regs s) (put_regs s)"
proof -
  have "list_all2 emits [pst_w_u8 (sio_tx_data s), pst_w_u8 (rx_data (sio_lines s)), pst_w_u16 (stat (sio_lines s)),
     pst_w_u16 (sio_mode s), pst_w_u16 (sio_ctrl s), pst_w_u16 (sio_baud s)]
    [[sio_tx_data s], [rx_data (sio_lines s)], le16 (stat (sio_lines s)), le16 (sio_mode s), le16 (sio_ctrl s), le16 (sio_baud s)]"
    by (simp add: emits_u8 emits_u16)
  from emits_seq [OF this] show ?thesis by (simp add: sio_snap_emit_regs_def put_regs_def)
qed

lemma length_regs: "length (put_regs s) = 10"
  by (simp add: put_regs_def w16.length_put)

lemma get_regs: "sio_snap_parse_regs (Some (put_regs u @ rest)) s = Some (regs_loaded u s, Some rest)"
proof -
  have n: "length [a, b] = 2" "length [p, q, r, t] = 4" for a b :: u8 and p q r t :: u16 by simp_all
  show ?thesis
    unfolding sio_snap_parse_regs_def put_regs_def append_assoc
    by (simp only: get_bytes [OF n(1)] w16.get_puts [OF n(2)] r_then_simps) (simp add: regs_loaded_def)
qed

definition put_pads :: "pad_bus \<Rightarrow> u8 list" where
  "put_pads p = concat (map (\<lambda>b. [of_bool b]) (map (pad_analog p) (seats p))) @ [pad_connected p] @
     le32 (enum_code pad_states (pad_state p)) @ le_i32 (selected_slot p) @ map (pad_response p) [0..<8] @
     [of_nat (pad_response_len p), of_nat (pad_response_idx p), pad_current_cmd p] @
     concat (map (\<lambda>b. [of_bool b]) (map (pad_in_config p) (seats p))) @
     concat (map (\<lambda>q. le16 (req_code q)) (map (pad_type_req p) (seats p)))"

definition pads_loaded :: "pad_bus \<Rightarrow> pad_bus \<Rightarrow> pad_bus" where
  "pads_loaded u p = (let n = nat (players p) in
     abort_bulk (p\<lparr>pad_analog := (\<lambda>i. if i < n then pad_analog u i else pad_analog p i), pad_connected := pad_connected u,
       pad_state := pad_state u, selected_slot := wrap32 (selected_slot u),
       pad_active_logical := pad_logical_for_port (wrap32 (selected_slot u)) p,
       pad_response := (\<lambda>i. if i < 8 then pad_response u i else pad_response p i),
       pad_response_len := unat (of_nat (pad_response_len u) :: u8), pad_response_idx := unat (of_nat (pad_response_idx u) :: u8),
       pad_current_cmd := pad_current_cmd u, pad_in_config := (\<lambda>i. if i < n then pad_in_config u i else pad_in_config p i),
       pad_type_req := (\<lambda>i. if i < n then pad_type_req u i else pad_type_req p i)\<rparr>))"

lemma emits_pads: "emits (sio_snap_emit_pads p) (put_pads p)"
proof -
  have "list_all2 emits
     (map (\<lambda>i. w_flag8 (pad_analog p i)) (seats p) @
      [pst_w_u8 (pad_connected p), pst_w_u32 (enum_code pad_states (pad_state p)), pst_w_i32 (selected_slot p),
       pst_w_bytes (map (pad_response p) [0..<8]), pst_w_u8 (of_nat (pad_response_len p)),
       pst_w_u8 (of_nat (pad_response_idx p)), pst_w_u8 (pad_current_cmd p)] @
      map (\<lambda>i. w_flag8 (pad_in_config p i)) (seats p) @
      map (\<lambda>i. pst_w_u16 (req_code (pad_type_req p i))) (seats p))
     (map (\<lambda>i. [of_bool (pad_analog p i)]) (seats p) @
      [[pad_connected p], le32 (enum_code pad_states (pad_state p)), le_i32 (selected_slot p),
       map (pad_response p) [0..<8], [of_nat (pad_response_len p)], [of_nat (pad_response_idx p)], [pad_current_cmd p]] @
      map (\<lambda>i. [of_bool (pad_in_config p i)]) (seats p) @
      map (\<lambda>i. le16 (req_code (pad_type_req p i))) (seats p))"
    by (intro list_all2_appendI emits_map emits_fields emits_u16)
      (simp only: list_all2_Cons list_all2_Nil simp_thms emits_u8 emits_u32 emits_i32 emits_bytes)
  from emits_seq [OF this] show ?thesis
    by (simp add: sio_snap_emit_pads_def put_pads_def comp_def del: upt_rec_numeral)
qed

lemma length_pads: "length (put_pads p) = 4 * nat (players p) + 20"
  unfolding put_pads_def length_append wire_flag8.length_puts wire_req.length_puts
  by (simp add: w32.length_put del: upt_rec_numeral)

lemma get_pads:
  assumes "players u = players p"
  shows "sio_snap_parse_pads (Some (put_pads u @ rest)) p = Some (pads_loaded u p, Some rest)"
proof -
  have three: "length [a, b, c] = 3" for a b c :: u8 by simp
  have eight: "length (map (pad_response u) [0..<8]) = 8" by (simp del: upt_rec_numeral)
  have n: "length (map f (seats u)) = nat (players p)" for f :: "nat \<Rightarrow> 'x" by (simp add: assms)
  show ?thesis
    unfolding sio_snap_parse_pads_def put_pads_def append_assoc Let_def
    by (simp only: wire_flag8.get_puts [OF n] wire_req.get_puts [OF n] r_then_simps w8.get_put wire_pad_state.get_put get_wrap32
        r_bytes_append [OF eight] get_bytes [OF three])
      (simp add: pads_loaded_def Let_def assms del: upt_rec_numeral)
qed

definition put_mc :: "'h sio \<Rightarrow> u8 list" where
  "put_mc s = (let m = mc (card s) in
     le32 (enum_code mc_states (mc_state m)) @ le_i32 (mc_slot (card s)) @ [mc_cmd m] @ le16 (mc_sector m) @
     [mc_sector_msb m, mc_sector_lsb m] @ map (mc_data m) [0..<128] @ le_i32 (int (mc_data_idx m)) @
     [mc_checksum m, mc_flag m] @ put_mcslot (mc_slots s 0) @ put_mcslot (mc_slots s 1) @
     le32 (enum_code devices_list (active_device s)))"

definition mc_loaded :: "'h sio \<Rightarrow> 'h sio \<Rightarrow> 'h sio" where
  "mc_loaded u s = s\<lparr>card := (card s)\<lparr>mc := slot_loaded (mc (card u)) (mc (card s)), mc_slot := wrap32 (mc_slot (card u))\<rparr>,
     mc_slots := (mc_slots s)(0 := slot_loaded (mc_slots u 0) (mc_slots s 0), 1 := slot_loaded (mc_slots u 1) (mc_slots s 1)),
     active_device := active_device u\<rparr>"

lemma emits_mc: "emits (sio_snap_emit_mc s) (put_mc s)"
proof -
  let ?m = "mc (card s)"
  have "list_all2 emits [pst_w_u32 (enum_code mc_states (mc_state ?m)), pst_w_i32 (mc_slot (card s)), pst_w_u8 (mc_cmd ?m),
     pst_w_u16 (mc_sector ?m), pst_w_u8 (mc_sector_msb ?m), pst_w_u8 (mc_sector_lsb ?m), pst_w_bytes (map (mc_data ?m) [0..<128]),
     pst_w_i32 (int (mc_data_idx ?m)), pst_w_u8 (mc_checksum ?m), pst_w_u8 (mc_flag ?m),
     sio_w_mcslot (mc_slots s 0), sio_w_mcslot (mc_slots s 1), pst_w_u32 (enum_code devices_list (active_device s))]
    [le32 (enum_code mc_states (mc_state ?m)), le_i32 (mc_slot (card s)), [mc_cmd ?m], le16 (mc_sector ?m),
     [mc_sector_msb ?m], [mc_sector_lsb ?m], map (mc_data ?m) [0..<128], le_i32 (int (mc_data_idx ?m)), [mc_checksum ?m],
     [mc_flag ?m], put_mcslot (mc_slots s 0), put_mcslot (mc_slots s 1), le32 (enum_code devices_list (active_device s))]"
    by (simp only: list_all2_Cons list_all2_Nil simp_thms emits_u8 emits_u16 emits_u32 emits_i32 emits_bytes emits_mcslot)
  from emits_seq [OF this] show ?thesis by (simp add: sio_snap_emit_mc_def put_mc_def Let_def del: upt_rec_numeral)
qed

lemma length_mc: "length (put_mc s) = 437"
  by (simp add: put_mc_def Let_def w16.length_put w32.length_put length_mcslot del: upt_rec_numeral)

lemma get_mc:
  assumes "mc_data_idx (mc (card u)) < 2 ^ 31" "mc_data_idx (mc_slots u 0) < 2 ^ 31" "mc_data_idx (mc_slots u 1) < 2 ^ 31"
  shows "sio_snap_parse_mc (Some (put_mc u @ rest)) s = Some (mc_loaded u s, Some rest)"
proof -
  have two: "length [a, b] = 2" for a b :: u8 by simp
  have d: "length (map (mc_data (mc (card u))) [0..<128]) = 128" by (simp del: upt_rec_numeral)
  show ?thesis
    unfolding sio_snap_parse_mc_def put_mc_def append_assoc Let_def
    by (simp only: wire_mc_state.get_put r_then_simps w8.get_put w16.get_put get_bytes [OF two] r_bytes_append [OF d]
        get_wrap32 get_index [OF assms(1)] get_mcslot [OF assms(2)] get_mcslot [OF assms(3)] wire_device.get_put)
      (simp add: mc_loaded_def slot_loaded_def del: upt_rec_numeral)
qed

definition put_pace :: "'h sio \<Rightarrow> u8 list" where
  "put_pace s = (let p = pace s in
     concat (map (\<lambda>b. le32 (of_bool b)) [timing_active p, shift_active p]) @ [shift_byte p] @ le_i32 (shift_remaining p) @
     le32 (of_bool (tx_buffered p)) @ [tx_buffer p] @
     concat (map (\<lambda>b. le32 (of_bool b)) [shift_ack_irq_en p, tx_buffer_ack_irq_en p, pending_ack p]) @
     le_i32 (ack_remaining p) @ le32 (of_bool (pending_ack_irq_en p)) @ le32 (enum_code owners (bus_owner p)) @
     le32 (bus_byte_index p) @ le32 (of_bool (irq_armed s)) @ concat (map le_i32 [irq_countdown s, ack_visible_reads s]))"

definition pace_loaded :: "'h sio \<Rightarrow> 'h sio \<Rightarrow> 'h sio" where
  "pace_loaded u s = s\<lparr>pace := (pace u)\<lparr>shift_remaining := wrap32 (shift_remaining (pace u)),
       ack_remaining := wrap32 (ack_remaining (pace u))\<rparr>,
     irq_armed := irq_armed u, irq_countdown := wrap32 (irq_countdown u), ack_visible_reads := wrap32 (ack_visible_reads u)\<rparr>"

lemma emits_pace: "emits (sio_snap_emit_fsm_pace s) (put_pace s)"
proof -
  let ?p = "pace s"
  have "list_all2 emits [w_flag32 (timing_active ?p), w_flag32 (shift_active ?p), pst_w_u8 (shift_byte ?p),
     pst_w_i32 (shift_remaining ?p), w_flag32 (tx_buffered ?p), pst_w_u8 (tx_buffer ?p), w_flag32 (shift_ack_irq_en ?p),
     w_flag32 (tx_buffer_ack_irq_en ?p), w_flag32 (pending_ack ?p), pst_w_i32 (ack_remaining ?p), w_flag32 (pending_ack_irq_en ?p),
     pst_w_u32 (enum_code owners (bus_owner ?p)), pst_w_u32 (bus_byte_index ?p),
     w_flag32 (irq_armed s), pst_w_i32 (irq_countdown s), pst_w_i32 (ack_visible_reads s)]
    [le32 (of_bool (timing_active ?p)), le32 (of_bool (shift_active ?p)), [shift_byte ?p], le_i32 (shift_remaining ?p),
     le32 (of_bool (tx_buffered ?p)), [tx_buffer ?p], le32 (of_bool (shift_ack_irq_en ?p)),
     le32 (of_bool (tx_buffer_ack_irq_en ?p)), le32 (of_bool (pending_ack ?p)), le_i32 (ack_remaining ?p),
     le32 (of_bool (pending_ack_irq_en ?p)), le32 (enum_code owners (bus_owner ?p)), le32 (bus_byte_index ?p),
     le32 (of_bool (irq_armed s)), le_i32 (irq_countdown s), le_i32 (ack_visible_reads s)]"
    by (simp only: list_all2_Cons list_all2_Nil simp_thms emits_u8 emits_u32 emits_i32 emits_fields)
  from emits_seq [OF this] show ?thesis by (simp add: sio_snap_emit_fsm_pace_def put_pace_def Let_def)
qed

lemma length_pace: "length (put_pace s) = 58"
  by (simp add: put_pace_def Let_def w32.length_put)

lemma get_pace: "sio_snap_parse_pace (Some (put_pace u @ rest)) s = Some (pace_loaded u s, Some rest)"
proof -
  have n: "length [a, b] = 2" "length [a, b, c] = 3" for a b c :: bool by simp_all
  have i: "r_many pst_r_i32 2 (Some (concat (map le_i32 [a, b]) @ rest)) = Some ([wrap32 a, wrap32 b], Some rest)" for a b
    using r_many_each [of "[a, b]" pst_r_i32 le_i32 wrap32 rest] get_wrap32 by (simp add: numeral_2_eq_2)
  show ?thesis
    unfolding sio_snap_parse_pace_def put_pace_def append_assoc Let_def
    by (simp only: wire_flag32.get_puts [OF n(1)] wire_flag32.get_puts [OF n(2)] r_then_simps w8.get_put get_wrap32
        wire_flag32.get_put wire_owner.get_put w32.get_put i) (simp add: pace_loaded_def)
qed

definition put_meta :: "irq_meta \<Rightarrow> 'h sio \<Rightarrow> u8 list" where
  "put_meta m s = [ucast (enum_code sources (irq_source s))] @ [meta_slot m, meta_delay m, meta_mc_state m] @ le32 (meta_byte_seq m)"

lemma emits_meta: "emits (sio_snap_emit_fsm_meta m s) (put_meta m s)"
proof -
  have "list_all2 emits [pst_w_u8 (ucast (enum_code sources (irq_source s))), pst_w_u8 (meta_slot m),
     pst_w_u8 (meta_delay m), pst_w_u8 (meta_mc_state m), pst_w_u32 (meta_byte_seq m)]
    [[ucast (enum_code sources (irq_source s))], [meta_slot m], [meta_delay m], [meta_mc_state m], le32 (meta_byte_seq m)]"
    by (simp only: list_all2_Cons list_all2_Nil simp_thms emits_u8 emits_u32)
  from emits_seq [OF this] show ?thesis by (simp add: sio_snap_emit_fsm_meta_def put_meta_def)
qed

lemma length_meta: "length (put_meta m s) = 8"
  by (simp add: put_meta_def w32.length_put)

lemma get_meta: "sio_snap_parse_meta (Some (put_meta m u @ rest)) s = Some ((m, s\<lparr>irq_source := irq_source u\<rparr>), Some rest)"
proof -
  have three: "length [a, b, c] = 3" for a b c :: u8 by simp
  show ?thesis
    unfolding sio_snap_parse_meta_def put_meta_def append_assoc
    by (simp only: wire_source.get_put r_then_simps get_bytes [OF three] w32.get_put) simp
qed

definition put_rumble :: "pad_bus \<Rightarrow> u8 list" where
  "put_rumble p = concat (map (\<lambda>i. map (pad_rumble_map p i) [0..<6]) (seats p)) @
     map (pad_rumble_small p) (seats p) @ map (pad_rumble_large p) (seats p)"

definition rumble_loaded :: "pad_bus \<Rightarrow> pad_bus \<Rightarrow> pad_bus" where
  "rumble_loaded u p = (let n = nat (players p) in
     p\<lparr>pad_rumble_map := (\<lambda>i j. if i < n \<and> j < 6 then pad_rumble_map u i j else pad_rumble_map p i j),
       pad_rumble_small := (\<lambda>i. if i < n then pad_rumble_small u i else pad_rumble_small p i),
       pad_rumble_large := (\<lambda>i. if i < n then pad_rumble_large u i else pad_rumble_large p i)\<rparr>)"

lemma emits_rumble: "emits (sio_snap_emit_rumble p) (put_rumble p)"
proof -
  have "list_all2 emits
     (map (\<lambda>i. pst_w_bytes (map (pad_rumble_map p i) [0..<6])) (seats p) @
      [pst_w_bytes (map (pad_rumble_small p) (seats p)), pst_w_bytes (map (pad_rumble_large p) (seats p))])
     (map (\<lambda>i. map (pad_rumble_map p i) [0..<6]) (seats p) @
      [map (pad_rumble_small p) (seats p), map (pad_rumble_large p) (seats p)])"
    by (intro list_all2_appendI emits_map emits_bytes) (simp only: list_all2_Cons list_all2_Nil simp_thms emits_bytes)
  from emits_seq [OF this] show ?thesis by (simp add: sio_snap_emit_rumble_def put_rumble_def del: upt_rec_numeral)
qed

lemma length_rows: "(\<And>x. length (f x) = k) \<Longrightarrow> length (concat (map f xs)) = k * length xs"
  by (induction xs) simp_all

lemma length_rumble: "length (put_rumble p) = 8 * nat (players p)"
  unfolding put_rumble_def length_append by (subst length_rows [where k = 6]) (simp_all del: upt_rec_numeral)

lemma get_rumble:
  assumes "players u = players p"
  shows "sio_snap_parse_rumble (Some (put_rumble u)) p = Some (True, rumble_loaded u p)"
proof (cases "nat (players p) = 0")
  case True
  then show ?thesis
    by (simp add: sio_snap_parse_rumble_def put_rumble_def assms rumble_loaded_def over_def Let_def)
next
  case False
  let ?n = "nat (players p)" and ?row = "\<lambda>i. map (pad_rumble_map u i) [0..<6]"
  have ne: "put_rumble u \<noteq> []" using length_rumble [of u] False assms by fastforce
  have g: "pst_r_bytes 6 (Some (?row i @ rest)) = Some (?row i, Some rest)" for i rest
    by (rule r_bytes_append) (simp del: upt_rec_numeral)
  have rows: "r_many (pst_r_bytes 6) ?n (Some (concat (map ?row (seats u)) @ rest)) = Some (map ?row (seats u), Some rest)" for rest
    using r_many_each [of "seats u" "pst_r_bytes 6" ?row ?row rest] g assms by (simp del: upt_rec_numeral)
  have n: "length (map f (seats u)) = ?n" for f :: "nat \<Rightarrow> u8" using assms by simp
  have last: "pst_r_bytes ?n (Some (map f (seats u))) = Some (map f (seats u), Some [])" for f
    using r_bytes_append [OF n, of f "[]"] by simp
  have "sio_snap_parse_rumble (Some (put_rumble u)) p = Some (True,
      p\<lparr>pad_rumble_map := (\<lambda>i. if i < ?n then over 6 (map ?row (seats u) ! i) (pad_rumble_map p i) else pad_rumble_map p i),
        pad_rumble_small := over ?n (map (pad_rumble_small u) (seats u)) (pad_rumble_small p),
        pad_rumble_large := over ?n (map (pad_rumble_large u) (seats u)) (pad_rumble_large p)\<rparr>)"
    using ne unfolding sio_snap_parse_rumble_def put_rumble_def Let_def
    by (simp only: option.inject if_False rows r_then_simps r_bytes_append [OF n] last simp_thms)
  also have "\<dots> = Some (True, rumble_loaded u p)"
    using False by (simp add: rumble_loaded_def Let_def assms fun_eq_iff cong: if_cong del: upt_rec_numeral)
  finally show ?thesis .
qed

subsection \<open>What is written is read back\<close>

definition sio_wire :: "irq_meta \<Rightarrow> 'h sio \<Rightarrow> u8 list" where
  "sio_wire m s = put_regs s @ put_pads (pads s) @ put_mc s @ put_pace s @ put_meta m s @ put_rumble (pads s)"

text \<open>The port after loading: what the snapshot of \<open>u\<close> holds, over the rest of \<open>s\<close>.\<close>

definition sio_loaded :: "'h sio \<Rightarrow> 'h sio \<Rightarrow> 'h sio" where
  "sio_loaded u s = pace_loaded u (mc_loaded u (regs_loaded u s))
     \<lparr>pads := rumble_loaded (pads u) (pads_loaded (pads u) (pads s)), irq_source := irq_source u\<rparr>"

lemma emits_sio: "emits (sio_snap_emit m s) (sio_wire m s)"
proof -
  have "list_all2 emits [sio_snap_emit_regs s, sio_snap_emit_pads (pads s), sio_snap_emit_mc s,
     sio_snap_emit_fsm_pace s, sio_snap_emit_fsm_meta m s, sio_snap_emit_rumble (pads s)]
    [put_regs s, put_pads (pads s), put_mc s, put_pace s, put_meta m s, put_rumble (pads s)]"
    by (simp add: emits_regs emits_pads emits_mc emits_pace emits_meta emits_rumble)
  from emits_seq [OF this] show ?thesis by (simp add: sio_snap_emit_def sio_wire_def)
qed

lemma length_sio: "length (sio_wire m s) = 12 * nat (players (pads s)) + 533"
  by (simp add: sio_wire_def length_regs length_pads length_mc length_pace length_meta length_rumble)

lemma sio_bytes: "sio_snapshot_bytes m s = length (sio_wire m s)"
  using emits_sio [of m s] by (simp add: emits_def sio_snapshot_bytes_def pst_w_init_def pst_w_bytes_def)

lemma sio_write_wire: "sio_snapshot_write m s = sio_wire m s"
  using emits_sio [of m s] by (simp add: emits_def sio_snapshot_write_def sio_bytes pst_w_init_def pst_w_bytes_def)

text \<open>The section ends that the netplay digests cut the snapshot at.\<close>

lemma sio_section_ends:
  "sio_snapshot_section_ends m s = (let n = nat (players (pads s)) in
     [10, 4 * n + 30, 4 * n + 467, 4 * n + 525, 12 * n + 533])"
  using emits_regs [of s] emits_pads [of "pads s"] emits_mc [of s] emits_pace [of s] emits_meta [of m s] emits_rumble [of "pads s"]
  by (simp add: sio_snapshot_section_ends_def emits_def pst_w_init_def pst_w_bytes_def Let_def
      length_regs length_pads length_mc length_pace length_meta length_rumble)

lemma loaded_players [simp]: "players (pads_loaded u p) = players p"
  by (simp add: pads_loaded_def abort_bulk_def Let_def)

theorem sio_snapshot_restores:
  assumes "players (pads u) = players (pads s)" "mc_data_idx (mc (card u)) < 2 ^ 31"
    "mc_data_idx (mc_slots u 0) < 2 ^ 31" "mc_data_idx (mc_slots u 1) < 2 ^ 31"
  shows "sio_snapshot_read (sio_snapshot_write m u) m' s = Some (True, m, sio_loaded u s)"
proof -
  have "sio_snap_parse (Some (sio_wire m u)) s = Some (True, m, sio_loaded u s)"
    unfolding sio_snap_parse_def sio_wire_def
    by (simp add: get_regs get_pads [OF assms(1)] get_mc [OF assms(2-4)] get_pace get_meta get_rumble assms(1)
        regs_loaded_def pace_loaded_def mc_loaded_def sio_loaded_def)
  then show ?thesis
    using assms(1) by (simp add: sio_snapshot_read_def sio_write_wire sio_bytes length_sio pst_r_init_def)
qed

end
