(* ===== verification/SioProps.thy ===== *)
theory SioProps
  imports Sio SioSnap PadTap
begin

unbundle bit_operations_syntax

section \<open>Properties of the serial port\<close>

text \<open>
  The bounds every reachable state keeps, the clock's horizon, the exchange of a byte through the
  registers as the refinement of the devices' exchanges, and the end of a transaction. The repair of
  nested card interrupts touches only its own state and the interrupt registers: \<open>bus_view\<close> is the
  rest, and the lemmas on it let the proofs skip the repair.
\<close>

subsection \<open>What the repair leaves alone\<close>

definition bus_view :: "'h sio \<Rightarrow> 'h sio" where
  "bus_view s = s\<lparr>nest := undefined, senv := undefined\<rparr>"

lemma bus_view_simps [simp]:
  "bus_view (upd_nest f s) = bus_view s" "bus_view (upd_senv g s) = bus_view s"
  by (simp_all add: bus_view_def upd_nest_def upd_senv_def)

lemma bus_view_fields:
  assumes "bus_view t = bus_view s"
  shows "pace t = pace s" "pads t = pads s" "card t = card s" "mc_slots t = mc_slots s" "sio_lines t = sio_lines s"
    "active_device t = active_device s" "irq_armed t = irq_armed s" "irq_countdown t = irq_countdown s"
    "sio_ctrl t = sio_ctrl s" "ack_visible_reads t = ack_visible_reads s" "irq_source t = irq_source s"
    "sio_mode t = sio_mode s" "sio_baud t = sio_baud s" "sio_tx_data t = sio_tx_data s"
  using arg_cong [OF assms, of pace] arg_cong [OF assms, of pads] arg_cong [OF assms, of card]
    arg_cong [OF assms, of mc_slots] arg_cong [OF assms, of sio_lines] arg_cong [OF assms, of active_device]
    arg_cong [OF assms, of irq_armed] arg_cong [OF assms, of irq_countdown] arg_cong [OF assms, of sio_ctrl]
    arg_cong [OF assms, of ack_visible_reads] arg_cong [OF assms, of irq_source] arg_cong [OF assms, of sio_mode]
    arg_cong [OF assms, of sio_baud] arg_cong [OF assms, of sio_tx_data]
  by (simp_all add: bus_view_def)

text \<open>Branches that agree on the view.\<close>

lemma view_ifI: "bus_view a = v \<Longrightarrow> bus_view b = v \<Longrightarrow> bus_view (if c then a else b) = v"
  by simp

lemma repair_views [simp]:
  "bus_view (sio_arm_card_ct_defer_guard s) = bus_view s" "bus_view (re_edge s) = bus_view s"
  "bus_view (set_hold v s) = bus_view s" "bus_view (do_txn_open s) = bus_view s"
  "bus_view (txn_record_byte tx s) = bus_view s" "bus_view (drop_spu_stat s) = bus_view s"
  unfolding sio_arm_card_ct_defer_guard_def re_edge_def set_hold_def do_txn_open_def txn_record_byte_def
    drop_spu_stat_def Let_def
  by (rule view_ifI | simp only: bus_view_simps)+

lemma open_views [simp]: "bus_view (open_if_closed s) = bus_view s"
  by (simp add: open_if_closed_def)

lemma unstick_views [simp]: "bus_view (ape_card_unstick_maybe H s) = bus_view s"
  unfolding ape_card_unstick_maybe_def Let_def by (rule view_ifI | simp only: bus_view_simps repair_views)+

lemma pump_views [simp]:
  "bus_view (sio_ape_card_unstick_pump H s) = bus_view s" "bus_view (sio_card_handoff_on_imask H a b s) = bus_view s"
  by (simp_all add: sio_ape_card_unstick_pump_def sio_card_handoff_on_imask_def)

lemma close_views [simp]: "bus_view (txn_close H r s) = bus_view s"
  unfolding txn_close_def Let_def by (rule view_ifI | simp only: bus_view_simps repair_views unstick_views)+

lemma hold_views [simp]: "bus_view (snd (sio_card_should_hold_imask_bit7 H s)) = bus_view s"
  unfolding sio_card_should_hold_imask_bit7_def Let_def
  by (simp only: if_distrib [of snd] snd_conv; (rule view_ifI | simp only: bus_view_simps repair_views)+)

subsection \<open>The bounds\<close>

definition pace_ok :: "pacer \<Rightarrow> bool" where
  "pace_ok p \<longleftrightarrow>
     (shift_active p \<longrightarrow> timing_active p \<and> 0 < shift_remaining p \<and> shift_remaining p \<le> SIO_BAUD_CYCLES_DEFAULT)
     \<and> (pending_ack p \<longrightarrow> timing_active p \<and> 0 \<le> ack_remaining p
          \<and> ack_remaining p \<le> SIO_BAUD_CYCLES_DEFAULT + SIO_ACK_CYCLES_DEFAULT)
     \<and> (tx_buffered p \<longrightarrow> shift_active p)"

definition slots_ok :: "(int \<Rightarrow> mc_slot_state) \<Rightarrow> bool" where
  "slots_ok f \<longleftrightarrow> mc_ok (f 0) \<and> mc_ok (f 1)"

definition dev_ok :: "'h sio \<Rightarrow> bool" where
  "dev_ok s \<longleftrightarrow> mc_ok (mc (card s)) \<and> slots_ok (mc_slots s) \<and> pad_ok (pads s)"

definition sio_ok :: "'h sio \<Rightarrow> bool" where
  "sio_ok s \<longleftrightarrow> dev_ok s \<and> pace_ok (pace s) \<and> \<not> irq_armed s"

lemma dev_ok_view: "bus_view t = bus_view s \<Longrightarrow> dev_ok t = dev_ok s"
  using bus_view_fields [of t s] by (simp add: dev_ok_def)

lemma sio_ok_view: "bus_view t = bus_view s \<Longrightarrow> sio_ok t = sio_ok s"
  using bus_view_fields [of t s] by (simp add: sio_ok_def dev_ok_def)

text \<open>What the small steps change, field by field.\<close>

lemma step_fields [simp]:
  "sio_tx_data (upd_pace f s) = sio_tx_data s" "sio_mode (upd_pace f s) = sio_mode s"
  "sio_ctrl (upd_pace f s) = sio_ctrl s" "sio_baud (upd_pace f s) = sio_baud s"
  "sio_lines (upd_pace f s) = sio_lines s" "pads (upd_pace f s) = pads s" "card (upd_pace f s) = card s"
  "mc_slots (upd_pace f s) = mc_slots s" "active_device (upd_pace f s) = active_device s"
  "irq_armed (upd_pace f s) = irq_armed s" "irq_countdown (upd_pace f s) = irq_countdown s"
  "ack_visible_reads (upd_pace f s) = ack_visible_reads s" "irq_source (upd_pace f s) = irq_source s"
  "pace (upd_pace f s) = f (pace s)" "nest (upd_pace f s) = nest s" "senv (upd_pace f s) = senv s"
  "sio_tx_data (upd_nest g s) = sio_tx_data s" "sio_mode (upd_nest g s) = sio_mode s"
  "sio_ctrl (upd_nest g s) = sio_ctrl s" "sio_baud (upd_nest g s) = sio_baud s"
  "sio_lines (upd_nest g s) = sio_lines s" "pads (upd_nest g s) = pads s" "card (upd_nest g s) = card s"
  "mc_slots (upd_nest g s) = mc_slots s" "active_device (upd_nest g s) = active_device s"
  "irq_armed (upd_nest g s) = irq_armed s" "irq_countdown (upd_nest g s) = irq_countdown s"
  "ack_visible_reads (upd_nest g s) = ack_visible_reads s" "irq_source (upd_nest g s) = irq_source s"
  "pace (upd_nest g s) = pace s" "nest (upd_nest g s) = g (nest s)" "senv (upd_nest g s) = senv s"
  "sio_tx_data (upd_senv h s) = sio_tx_data s" "sio_mode (upd_senv h s) = sio_mode s"
  "sio_ctrl (upd_senv h s) = sio_ctrl s" "sio_baud (upd_senv h s) = sio_baud s"
  "sio_lines (upd_senv h s) = sio_lines s" "pads (upd_senv h s) = pads s" "card (upd_senv h s) = card s"
  "mc_slots (upd_senv h s) = mc_slots s" "active_device (upd_senv h s) = active_device s"
  "irq_armed (upd_senv h s) = irq_armed s" "irq_countdown (upd_senv h s) = irq_countdown s"
  "ack_visible_reads (upd_senv h s) = ack_visible_reads s" "irq_source (upd_senv h s) = irq_source s"
  "pace (upd_senv h s) = pace s" "nest (upd_senv h s) = nest s" "senv (upd_senv h s) = h (senv s)"
  "sio_tx_data (set_stat b s) = sio_tx_data s" "sio_mode (set_stat b s) = sio_mode s"
  "sio_ctrl (set_stat b s) = sio_ctrl s" "sio_baud (set_stat b s) = sio_baud s"
  "sio_lines (set_stat b s) = (sio_lines s)\<lparr>stat := stat (sio_lines s) OR b\<rparr>"
  "pads (set_stat b s) = pads s" "card (set_stat b s) = card s" "mc_slots (set_stat b s) = mc_slots s"
  "active_device (set_stat b s) = active_device s" "irq_armed (set_stat b s) = irq_armed s"
  "irq_countdown (set_stat b s) = irq_countdown s" "ack_visible_reads (set_stat b s) = ack_visible_reads s"
  "irq_source (set_stat b s) = irq_source s" "pace (set_stat b s) = pace s" "nest (set_stat b s) = nest s"
  "senv (set_stat b s) = senv s"
  "sio_tx_data (clear_stat b s) = sio_tx_data s" "sio_mode (clear_stat b s) = sio_mode s"
  "sio_ctrl (clear_stat b s) = sio_ctrl s" "sio_baud (clear_stat b s) = sio_baud s"
  "sio_lines (clear_stat b s) = (sio_lines s)\<lparr>stat := stat (sio_lines s) AND NOT b\<rparr>"
  "pads (clear_stat b s) = pads s" "card (clear_stat b s) = card s" "mc_slots (clear_stat b s) = mc_slots s"
  "active_device (clear_stat b s) = active_device s" "irq_armed (clear_stat b s) = irq_armed s"
  "irq_countdown (clear_stat b s) = irq_countdown s" "ack_visible_reads (clear_stat b s) = ack_visible_reads s"
  "irq_source (clear_stat b s) = irq_source s" "pace (clear_stat b s) = pace s" "nest (clear_stat b s) = nest s"
  "senv (clear_stat b s) = senv s"
  by (simp_all add: upd_pace_def upd_nest_def upd_senv_def set_stat_def clear_stat_def)

text \<open>The devices' side: what a byte does to the bounds, and what of the port it leaves alone.\<close>

definition port_view :: "'h sio \<Rightarrow> pacer \<times> bool \<times> int \<times> u16 \<times> int \<times> irq_source" where
  "port_view s = (pace s, irq_armed s, irq_countdown s, sio_ctrl s, ack_visible_reads s, irq_source s)"

lemma port_view_bus: "bus_view t = bus_view s \<Longrightarrow> port_view t = port_view s"
  using bus_view_fields [of t s] by (simp add: port_view_def)

lemma port_view_simps [simp]:
  "port_view (s\<lparr>active_device := d\<rparr>) = port_view s" "port_view (s\<lparr>card := c\<rparr>) = port_view s"
  "port_view (s\<lparr>pads := p\<rparr>) = port_view s" "port_view (set_stat b s) = port_view s"
  "port_view (clear_stat b s) = port_view s" "port_view (set_rx v s) = port_view s"
  "port_view (set_mc_state st s) = port_view s" "port_view (mc_save_slot i s) = port_view s"
  "port_view (mc_load_slot i s) = port_view s" "port_view (select_slot s) = port_view s"
  "port_view (stray_byte s) = port_view s" "port_view (pad_byte tx s) = port_view s"
  "port_view (card_byte H tx s) = port_view s" "port_view (upd_slots f s) = port_view s"
  "port_view (quiet_pads s) = port_view s" "port_view (keep_flag s) = port_view s"
  "port_view (upd_nest g s) = port_view s" "port_view (upd_senv h s) = port_view s"
  "port_view (txn_record_byte tx s) = port_view s" "port_view (txn_close H r s) = port_view s"
  "port_view (open_if_closed s) = port_view s"
  by (simp_all add: port_view_def set_stat_def clear_stat_def set_rx_def set_mc_state_def mc_save_slot_def mc_load_slot_def
      select_slot_def stray_byte_def pad_byte_def card_byte_def upd_slots_def quiet_pads_def keep_flag_def Let_def
      bus_view_fields [OF repair_views(5)] bus_view_fields [OF close_views] bus_view_fields [OF open_views]
      upd_nest_def upd_senv_def)

lemma dev_ok_simps [simp]:
  "dev_ok (s\<lparr>active_device := d\<rparr>) = dev_ok s" "dev_ok (set_stat b s) = dev_ok s" "dev_ok (clear_stat b s) = dev_ok s"
  "dev_ok (set_rx v s) = dev_ok s" "dev_ok (upd_pace f s) = dev_ok s" "dev_ok (upd_nest g s) = dev_ok s"
  "dev_ok (upd_senv h s) = dev_ok s" "dev_ok (select_slot s) = dev_ok s" "dev_ok (stray_byte s) = dev_ok s"
  "dev_ok (s\<lparr>irq_source := q\<rparr>) = dev_ok s" "dev_ok (s\<lparr>ack_visible_reads := n\<rparr>) = dev_ok s"
  "dev_ok (s\<lparr>card := (card s)\<lparr>mc_slot := i\<rparr>\<rparr>) = dev_ok s" "dev_ok (txn_close H r s) = dev_ok s"
  "dev_ok (s\<lparr>active_device := d, card := (card s)\<lparr>mc_slot := i\<rparr>\<rparr>) = dev_ok s"
  "dev_ok (open_if_closed s) = dev_ok s" "dev_ok (txn_record_byte tx s) = dev_ok s"
  by (simp_all add: dev_ok_def set_stat_def clear_stat_def set_rx_def upd_pace_def upd_nest_def upd_senv_def select_slot_def
      stray_byte_def pad_ok_def bus_view_fields [OF repair_views(5)] bus_view_fields [OF close_views]
      bus_view_fields [OF open_views])

lemma dev_ok_slots:
  assumes "dev_ok s"
  shows "dev_ok (set_mc_state MC_IDLE s)" "dev_ok (mc_save_slot i s)" "dev_ok (mc_load_slot i s)"
proof -
  have idle: "mc_ok m \<Longrightarrow> mc_ok (m\<lparr>mc_state := MC_IDLE\<rparr>)" for m by (simp add: mc_ok_def)
  then show "dev_ok (set_mc_state MC_IDLE s)" using assms by (simp add: dev_ok_def set_mc_state_def upd_mc_def)
  have i: "(i < 0 \<or> i > 1) \<or> i = 0 \<or> i = 1" by arith
  then show "dev_ok (mc_save_slot i s)" "dev_ok (mc_load_slot i s)"
    using assms by (elim disjE; simp add: dev_ok_def slots_ok_def mc_save_slot_def mc_load_slot_def)+
qed

lemma dev_ok_bytes:
  assumes "dev_ok s"
  shows "dev_ok (pad_byte tx s)" "dev_ok (card_byte H tx s)"
proof -
  have "pad_ok ((pads s)\<lparr>pad_lines := sio_lines s\<rparr>)" using assms by (simp add: dev_ok_def pad_ok_def)
  then show "dev_ok (pad_byte tx s)"
    using assms pad_process_ok_rank(1) by (simp add: dev_ok_def pad_byte_def Let_def)
  have "mc_ok (mc ((card s)\<lparr>lines := sio_lines s\<rparr>))" using assms by (simp add: dev_ok_def)
  then have "mc_ok (mc (mc_process_byte (files H) (selected_slot (pads s)) tx ((card s)\<lparr>lines := sio_lines s\<rparr>)))"
    by (rule card.step_ok)
  then show "dev_ok (card_byte H tx s)" using assms by (simp add: dev_ok_def card_byte_def Let_def)
qed

lemma card_txn_byte_keeps:
  "dev_ok s \<Longrightarrow> dev_ok (card_txn_byte H tx s)" "port_view (card_txn_byte H tx s) = port_view s"
  by (simp_all add: card_txn_byte_def Let_def dev_ok_bytes)

lemma port_ifI: "port_view a = v \<Longrightarrow> port_view b = v \<Longrightarrow> port_view (if c then a else b) = v"
  and dev_ifI: "dev_ok a \<Longrightarrow> dev_ok b \<Longrightarrow> dev_ok (if c then a else b)"
  by simp_all

lemma byte_unselected_keeps:
  "port_view (byte_unselected H tx s) = port_view s" "dev_ok s \<Longrightarrow> dev_ok (byte_unselected H tx s)"
  unfolding byte_unselected_def Let_def
  by (rule port_ifI | simp only: port_view_simps card_txn_byte_keeps)+
    (rule dev_ifI card_txn_byte_keeps(1) dev_ok_bytes dev_ok_slots | assumption | simp only: dev_ok_simps)+

lemma byte_card_idle_keeps:
  "port_view (byte_card_idle H tx s) = port_view s" "dev_ok s \<Longrightarrow> dev_ok (byte_card_idle H tx s)"
  by (simp_all add: byte_card_idle_def Let_def dev_ok_bytes card_txn_byte_keeps)

lemma process_byte_keeps:
  "port_view (sio_process_byte H tx s) = port_view s" "dev_ok s \<Longrightarrow> dev_ok (sio_process_byte H tx s)"
  by (simp_all add: sio_process_byte_def dev_ok_bytes card_txn_byte_keeps byte_unselected_keeps byte_card_idle_keeps
      split: device.split)

subsection \<open>The shifter and the acknowledge\<close>

definition shift_done :: "bool \<Rightarrow> pacer \<Rightarrow> pacer" where
  "shift_done acked p =
     (let p = p\<lparr>shift_active := False\<rparr>;
          p = (if acked then await_ack SIO_ACK_CYCLES_DEFAULT (shift_ack_irq_en p) p else p)
      in settle_timing (if tx_buffered p then promote_buffer p else p))"

lemma shift_complete_pace:
  "pace (sio_handle_shift_complete H s) =
     shift_done (stat (sio_lines (sio_process_byte H (shift_byte (pace s)) s)) AND SIO_STAT_ACK \<noteq> 0) (pace s)"
proof -
  have "pace (sio_process_byte H tx s) = pace s" for tx
    using process_byte_keeps(1) [where H = H and tx = tx and s = s] by (simp add: port_view_def)
  moreover have "pace (s\<lparr>irq_source := q\<rparr>) = pace s" "irq_source (s\<lparr>pace := p\<rparr>) = irq_source s" for s :: "'a sio" and q p
    by simp_all
  ultimately show ?thesis
    by (simp add: sio_handle_shift_complete_def sio_consume_ack_event_def shift_done_def Let_def)
qed

text \<open>With the shifter at its deadline.\<close>

definition pace_due :: "pacer \<Rightarrow> bool" where
  "pace_due p \<longleftrightarrow> pace_ok (p\<lparr>shift_remaining := 1\<rparr>) \<and> shift_active p"

lemma shift_done_ok: "pace_due p \<Longrightarrow> pace_ok (shift_done acked p)"
  by (auto simp: pace_due_def pace_ok_def shift_done_def settle_timing_def promote_buffer_def await_ack_def Let_def)

lemma settle_ok: "pace_ok p \<Longrightarrow> pace_ok (settle_timing p)"
  by (auto simp: pace_ok_def settle_timing_def)

lemma process_byte_fields:
  "pace (sio_process_byte H tx s) = pace s" "irq_armed (sio_process_byte H tx s) = irq_armed s"
  "sio_ctrl (sio_process_byte H tx s) = sio_ctrl s" "ack_visible_reads (sio_process_byte H tx s) = ack_visible_reads s"
  using process_byte_keeps(1) [where H = H and tx = tx and s = s] by (simp_all add: port_view_def)

lemma dev_ok_if: "dev_ok (if c then a else b) = (if c then dev_ok a else dev_ok b)"
  and irq_armed_if: "irq_armed (if c then a else b) = (if c then irq_armed a else irq_armed b)"
  and pace_if: "pace (if c then a else b) = (if c then pace a else pace b)"
  by simp_all

lemma shift_complete_ok:
  assumes "dev_ok s" "pace_due (pace s)" "\<not> irq_armed s"
  shows "sio_ok (sio_handle_shift_complete H s)"
proof -
  let ?t = "sio_process_byte H (shift_byte (pace s)) s"
  have "dev_ok ?t" "irq_armed ?t = irq_armed s"
    using process_byte_keeps [where H = H and s = s] assms(1) by (simp_all add: port_view_def)
  then have "dev_ok (sio_handle_shift_complete H s)" "\<not> irq_armed (sio_handle_shift_complete H s)"
    using assms(3) by (simp_all add: sio_handle_shift_complete_def sio_consume_ack_event_def Let_def dev_ok_if irq_armed_if)
  then show ?thesis using shift_done_ok [OF assms(2)] by (simp add: sio_ok_def shift_complete_pace)
qed

lemma fire_ack_ok:
  assumes "sio_ok s"
  shows "sio_ok (sio_fire_ack_irq s)"
proof -
  let ?s = "show_ack (drop_spu_stat s)"
  have s: "dev_ok ?s" "pace ?s = pace s" "irq_armed ?s = irq_armed s"
    using assms dev_ok_view [OF repair_views(6) [of s]] bus_view_fields [OF repair_views(6) [of s]]
    by (simp_all add: show_ack_def sio_ok_def)
  have guard: "dev_ok (sio_arm_card_ct_defer_guard t) = dev_ok t" "pace (sio_arm_card_ct_defer_guard t) = pace t"
    "irq_armed (sio_arm_card_ct_defer_guard t) = irq_armed t" for t :: "'a sio"
    using dev_ok_view [OF repair_views(1) [of t]] bus_view_fields [OF repair_views(1) [of t]] by simp_all
  have 1: "pace_ok (pace s)" "\<not> irq_armed s" using assms by (simp_all add: sio_ok_def)
  have 2: "pace_ok (p\<lparr>pending_ack_irq_en := b\<rparr>) = pace_ok p"
    "pace_ok p \<Longrightarrow> pace_ok ((await_ack 16 True p)\<lparr>timing_active := True\<rparr>)" for p b
    by (auto simp: pace_ok_def await_ack_def)
  show ?thesis
    unfolding sio_fire_ack_irq_def Let_def sio_ok_def
    using s 1 by (simp add: dev_ok_if irq_armed_if pace_if raise_sio_def guard 2 settle_ok)
qed

lemma run_clocks_fields [simp]:
  "shift_active (run_clocks dt p) = shift_active p" "pending_ack (run_clocks dt p) = pending_ack p"
  "timing_active (run_clocks dt p) = timing_active p" "tx_buffered (run_clocks dt p) = tx_buffered p"
  "shift_byte (run_clocks dt p) = shift_byte p" "shift_ack_irq_en (run_clocks dt p) = shift_ack_irq_en p"
  "pending_ack_irq_en (run_clocks dt p) = pending_ack_irq_en p"
  "shift_remaining (run_clocks dt p) = shift_remaining p - (if shift_active p then dt else 0)"
  "ack_remaining (run_clocks dt p) = ack_remaining p - (if pending_ack p then dt else 0)"
  by (simp_all add: run_clocks_def Let_def)

lemma next_event_cases:
  assumes "pace_ok p" "c > 0 \<or> overdue p" "next_event c p = (ev, dt)"
  shows "ev = No_Event \<Longrightarrow> pace_ok (run_clocks dt p)"
    and "ev = Shift_Done \<Longrightarrow> pace_due (run_clocks dt p)"
    and "ev = Ack_Due \<Longrightarrow> pace_ok ((run_clocks dt p)\<lparr>pending_ack := False\<rparr>)"
  using assms by (auto simp: next_event_def pace_ok_def pace_due_def overdue_def Let_def split: if_splits)

lemma pace_walk_ok:
  assumes "sio_ok s"
  shows "sio_ok (sio_pace_walk H c s)"
proof (cases "c > 0 \<or> overdue (pace s)")
  case True
  obtain ev dt where e: "next_event c (pace s) = (ev, dt)" by (cases "next_event c (pace s)")
  have p: "pace_ok (pace s)" "dev_ok s" "\<not> irq_armed s" using assms by (simp_all add: sio_ok_def)
  note ev = next_event_cases [OF p(1) True e]
  show ?thesis
  proof (cases ev)
    case No_Event
    then show ?thesis using ev(1) p True e by (simp add: sio_pace_walk_def sio_ok_def)
  next
    case Shift_Done
    then have "sio_ok (sio_handle_shift_complete H (upd_pace (run_clocks dt) s))"
      using ev(2) p by (intro shift_complete_ok) simp_all
    then show ?thesis using Shift_Done True e by (simp add: sio_pace_walk_def)
  next
    case Ack_Due
    then have "sio_ok (ack_event (upd_pace (run_clocks dt) s))"
      unfolding ack_event_def using ev(3) p by (intro fire_ack_ok) (simp add: sio_ok_def)
    then show ?thesis using Ack_Due True e by (simp add: sio_pace_walk_def)
  qed
qed (use assms in \<open>simp add: sio_pace_walk_def\<close>)

lemma port_advance_ok: "sio_ok s \<Longrightarrow> sio_ok (sio_advance H c s)"
  by (simp add: sio_advance_def pace_walk_ok)

lemma tick_ok: "sio_ok s \<Longrightarrow> sio_ok (sio_tick H c s)"
proof -
  assume ok: "sio_ok s"
  have "sio_ok (legacy_countdown t)" if "sio_ok t" for t :: "'a sio"
    using that by (simp add: legacy_countdown_def sio_ok_def)
  then show ?thesis using ok pace_walk_ok [OF ok, of H c]
    by (simp add: sio_tick_def sio_ok_view [OF pump_views(1)])
qed

subsection \<open>The registers keep the bounds\<close>

lemma kill_ok: "pace_ok (kill_shifter p)" "pace_ok (bus_idle p) = pace_ok p" "pace_ok (p\<lparr>bus_owner := w, bus_byte_index := n\<rparr>) = pace_ok p"
  by (simp_all add: kill_shifter_def bus_idle_def pace_ok_def)

lemma start_ok:
  "pace_ok p \<Longrightarrow> pace_ok (own_bus b p)"
  "pace_ok p \<Longrightarrow> \<not> shift_active p \<Longrightarrow> pace_ok (start_shift b en p)"
  "pace_ok p \<Longrightarrow> shift_active p \<Longrightarrow> pace_ok (load_buffer b en p)"
  "0 \<le> n \<Longrightarrow> n \<le> 1258 \<Longrightarrow> pace_ok p \<Longrightarrow> pace_ok ((await_ack n en p)\<lparr>timing_active := True\<rparr>)"
  by (auto simp: own_bus_def start_shift_def load_buffer_def await_ack_def pace_ok_def Let_def)

lemma sio_ok_if: "sio_ok (if c then a else b) = (if c then sio_ok a else sio_ok b)"
  by simp

lemma sio_ok_fields [simp]:
  "sio_ok (set_stat b s) = sio_ok s" "sio_ok (clear_stat b s) = sio_ok s"
  "sio_ok (s\<lparr>ack_visible_reads := n\<rparr>) = sio_ok s" "sio_ok (s\<lparr>irq_source := q\<rparr>) = sio_ok s"
  "sio_ok (upd_nest g s) = sio_ok s" "sio_ok (upd_senv h s) = sio_ok s"
  "sio_ok (s\<lparr>sio_ctrl := w\<rparr>) = sio_ok s" "sio_ok (s\<lparr>sio_mode := w\<rparr>) = sio_ok s" "sio_ok (s\<lparr>sio_baud := w\<rparr>) = sio_ok s"
  "sio_ok (s\<lparr>sio_tx_data := v\<rparr>) = sio_ok s" "sio_ok (txn_close H r s) = sio_ok s"
  by (simp_all add: sio_ok_def dev_ok_def bus_view_fields [OF close_views])

lemma sio_ok_upd_pace: "sio_ok s \<Longrightarrow> pace_ok (f (pace s)) \<Longrightarrow> sio_ok (upd_pace f s)"
  by (simp add: sio_ok_def)

lemma read_ok: "sio_ok s \<Longrightarrow> sio_ok (snd (sio_read H addr s))"
  using tick_ok [of s H 0] by (simp add: sio_read_def Let_def)

lemma tx_ok:
  assumes "sio_ok s"
  shows "sio_ok (tx_pad_fast H b s)" "sio_ok (tx_paced b s)"
proof -
  let ?p = "\<lambda>p. (kill_shifter p)\<lparr>bus_owner := SIO_OWNER_PAD, bus_byte_index := bus_byte_index p + 1\<rparr>"
  let ?t = "sio_process_byte H b (upd_pace ?p s)"
  have "sio_ok (upd_pace ?p s)" using assms by (intro sio_ok_upd_pace) (simp_all add: kill_ok)
  then have t: "sio_ok ?t"
    using process_byte_keeps(2) [of "upd_pace ?p s" H b]
    by (simp add: sio_ok_def process_byte_fields)
  then show "sio_ok (tx_pad_fast H b s)"
    using start_ok(4) [of 1258 "pace ?t" True] by (simp add: tx_pad_fast_def Let_def sio_ok_if sio_ok_upd_pace sio_ok_def)
  show "sio_ok (tx_paced b s)"
    using assms start_ok by (simp add: tx_paced_def Let_def sio_ok_def)
qed

lemma write_tx_ok: "sio_ok s \<Longrightarrow> sio_ok (write_tx H b s)"
  by (simp add: write_tx_def tx_noted_def Let_def tx_ok)

lemma idle_slots_ok: "mc_ok m \<Longrightarrow> mc_ok (idle_slot m)" "mc_ok (clean_slot m)" "mc_ok (fresh_slot m)"
  by (simp_all add: idle_slot_def clean_slot_def fresh_slot_def mc_ok_def)

lemma dev_ok_reset:
  assumes "dev_ok s"
  shows "dev_ok (upd_slots idle_slot s)" "dev_ok (upd_slots clean_slot s)" "dev_ok (upd_slots fresh_slot s)"
    "dev_ok (quiet_pads s)" "dev_ok (keep_flag s)"
proof -
  show "dev_ok (upd_slots idle_slot s)" "dev_ok (upd_slots clean_slot s)" "dev_ok (upd_slots fresh_slot s)" "dev_ok (quiet_pads s)"
    using assms by (simp_all add: dev_ok_def slots_ok_def upd_slots_def quiet_pads_def idle_slots_ok pad_ok_def pad_end_def)
  have flag: "mc_ok (m\<lparr>mc_flag := v\<rparr>) = mc_ok m" for m :: mc_slot_state and v by (simp add: mc_ok_def)
  let ?i = "mc_slot (card s)"
  have "(?i < 0 \<or> ?i > 1) \<or> ?i = 0 \<or> ?i = 1" by arith
  then show "dev_ok (keep_flag s)"
    using assms by (elim disjE; simp add: dev_ok_def slots_ok_def keep_flag_def Let_def flag)
qed

lemma reset_fields:
  "pace (quiet_pads s) = pace s" "irq_armed (quiet_pads s) = irq_armed s" "pace (upd_slots f s) = pace s"
  "irq_armed (upd_slots f s) = irq_armed s" "pace (set_mc_state st s) = pace s" "irq_armed (set_mc_state st s) = irq_armed s"
  "pace (keep_flag s) = pace s" "irq_armed (keep_flag s) = irq_armed s"
  by (simp_all add: quiet_pads_def upd_slots_def set_mc_state_def keep_flag_def Let_def)

lemma sio_ok_reset:
  assumes "sio_ok s"
  shows "sio_ok (upd_slots idle_slot s)" "sio_ok (upd_slots clean_slot s)" "sio_ok (quiet_pads s)" "sio_ok (keep_flag s)"
    "sio_ok (set_mc_state MC_IDLE s)"
  using assms dev_ok_reset [of s] dev_ok_slots(1) [of s] by (simp_all add: sio_ok_def reset_fields)

lemma ctrl_reset_ok: "sio_ok s \<Longrightarrow> sio_ok (ctrl_reset H s)"
proof -
  assume ok: "sio_ok s"
  have 2: "sio_ok (t\<lparr>sio_lines := l\<rparr>) = sio_ok t" "sio_ok (t\<lparr>sio_lines := l, sio_mode := a, sio_ctrl := b, sio_baud := c\<rparr>) = sio_ok t"
    "sio_ok (t\<lparr>irq_armed := False, irq_countdown := n, ack_visible_reads := m\<rparr>) = (dev_ok t \<and> pace_ok (pace t))"
    for t :: "'a sio" and l a b c n m by (simp_all add: sio_ok_def dev_ok_def)
  have 3: "sio_ok t \<Longrightarrow> dev_ok t \<and> pace_ok (pace t)" for t :: "'a sio" by (simp add: sio_ok_def)
  show ?thesis unfolding ctrl_reset_def Let_def
    by (rule sio_ok_upd_pace) (simp_all only: 2 kill_ok, intro 3 sio_ok_reset, simp add: 2 ok)
qed

lemma flush_ok: "sio_ok s \<Longrightarrow> sio_ok (flush_card H s)"
proof -
  assume ok: "sio_ok s"
  have idle: "\<not> (shift_active (pace s) \<and> shift_remaining (pace s) \<le> 0)" using ok by (auto simp: sio_ok_def pace_ok_def)
  have "pace_ok p \<Longrightarrow> pace_ok (p\<lparr>pending_ack := False, ack_remaining := 0\<rparr>)" for p by (simp add: pace_ok_def)
  then have "sio_ok (upd_pace (\<lambda>p. p\<lparr>pending_ack := False, ack_remaining := 0\<rparr>) s)" using ok by (simp add: sio_ok_def)
  from fire_ack_ok [OF this] ok show ?thesis by (simp add: flush_card_def Let_def if_not_P [OF idle])
qed

lemma ack_kept_bound: "sio_ok s \<Longrightarrow> kept_ack H s = Some n \<Longrightarrow> 0 \<le> n \<and> n \<le> 1258"
  using flush_ok [of s H] by (auto simp: kept_ack_def sio_ok_def pace_ok_def split: if_splits)

lemma deselect_ok:
  assumes "sio_ok s"
  shows "sio_ok (ctrl_deselect H s)"
proof -
  define t where "t = flush_card H s"
  define u where "u = (if active_device t = DEV_MEMCARD \<and> mc_now t \<noteq> MC_IDLE then txn_close H SIO_TXN_END_ABORT_OTHER t else t)"
  define v where "v = upd_pace (\<lambda>p. bus_idle (kill_shifter p)) (quiet_pads (upd_slots clean_slot (set_mc_state MC_IDLE (keep_flag u))))"
  have "sio_ok u" using flush_ok [OF assms] by (simp add: u_def t_def)
  then have v: "sio_ok v" unfolding v_def by (intro sio_ok_upd_pace sio_ok_reset) (simp_all add: kill_ok)
  have "sio_ok (resume_ack (kept_ack H s) v)"
    using v ack_kept_bound [OF assms, of H]
    by (cases "kept_ack H s") (auto simp: resume_ack_def sio_ok_def intro!: start_ok(4))
  then show ?thesis
    unfolding ctrl_deselect_def Let_def t_def [symmetric] u_def [symmetric] v_def [symmetric]
    by (simp add: sio_ok_view [OF unstick_views])
qed

lemma write_ctrl_ok: "sio_ok s \<Longrightarrow> sio_ok (write_ctrl H v s)"
proof -
  assume ok: "sio_ok s"
  have 1: "sio_ok t \<Longrightarrow> sio_ok (ctrl_ack t)" "sio_ok t \<Longrightarrow> sio_ok (upd_pace bus_idle t)" "sio_ok t \<Longrightarrow> sio_ok (ctrl_tx_off b t)"
    for t :: "'a sio" and b by (simp_all add: ctrl_ack_def ctrl_tx_off_def sio_ok_def kill_ok)
  define s1 where "s1 = (if v AND SIO_CTRL_ACK \<noteq> 0 then ctrl_ack (s\<lparr>sio_ctrl := v\<rparr>) else s\<lparr>sio_ctrl := v\<rparr>)"
  define s2 where "s2 = (if v AND SIO_CTRL_RESET \<noteq> 0 then ctrl_reset H s1 else s1)"
  define s3 where "s3 = (if sio_ctrl s AND SIO_CTRL_SELECT = 0 \<and> v AND SIO_CTRL_SELECT \<noteq> 0 then upd_pace bus_idle s2 else s2)"
  define s4 where "s4 = (if sio_ctrl s AND SIO_CTRL_TX_EN \<noteq> 0 \<and> v AND SIO_CTRL_TX_EN = 0
    then ctrl_tx_off (v AND SIO_CTRL_SELECT \<noteq> 0) s3 else s3)"
  have "sio_ok s1" using ok 1 by (simp add: s1_def)
  then have "sio_ok s2" by (simp add: s2_def ctrl_reset_ok)
  then have "sio_ok s3" using 1 by (simp add: s3_def)
  then have "sio_ok s4" using 1 by (simp add: s4_def)
  then show ?thesis unfolding write_ctrl_def Let_def s1_def [symmetric] s2_def [symmetric] s3_def [symmetric] s4_def [symmetric]
    by (simp add: deselect_ok)
qed

lemma write_ok: "sio_ok s \<Longrightarrow> sio_ok (sio_write H addr value s)"
  unfolding sio_write_def by (rule tick_ok) (simp add: write_tx_ok write_ctrl_ok)

subsection \<open>Reachable states\<close>

text \<open>The host's calls on the pads, from the input layer.\<close>

inductive pad_host :: "pad_bus \<Rightarrow> pad_bus \<Rightarrow> bool" where
  "pad_host p (sio_set_pad_state b p)"
| "pad_host p (sio_set_pad_state_slot i b p)"
| "pad_host p (sio_connect_pad i p)"
| "pad_host p (sio_set_pad_connected i c p)"
| "pad_host p (sio_set_pad_config_capable i c p)"
| "pad_host p (sio_set_pad_analog i c lx ly rx ry p)"
| "pad_host p (sio_set_pad_sticks i lx ly rx ry p)"
| "pad_host p (sio_request_pad_type i c p)"
| "pad_host p (sio_set_multitap c p)"
| "pad_host p (sio_set_multitap_port n p)"
| "pad_host p (sio_set_multitap_analog c p)"
| "pad_host p (sio_set_legacy_cfg c p)"

text \<open>
  What acts on the port: the guest's register accesses, the clock, the interrupt controller's
  two hooks, the host's calls, the cards' own traffic with the host, and whatever else changes the
  interrupt environment. Loading a snapshot acts on it as well, and is the rule \<open>Load\<close> of \<open>sio_reachable\<close>, since what
  it loads is a state that was reached before: \<open>sio_snapshot_read\<close> takes the bytes \<open>sio_snapshot_write\<close>
  made of it, over a port built for as many players. Bytes from anywhere else are restored without a check
  of their values and can leave the bounds.
\<close>

inductive sio_step :: "'h sio_host \<Rightarrow> 'h sio \<Rightarrow> 'h sio \<Rightarrow> bool" for H where
  Read: "sio_step H s (snd (sio_read H addr s))"
| Write: "sio_step H s (sio_write H addr v s)"
| Advance: "sio_step H s (sio_advance H c s)"
| Quantum: "sio_step H s (sio_tick_quantum H s)"
| Poll: "sio_step H s (sio_tick H 0 s)"
| Handoff: "sio_step H s (sio_card_handoff_on_imask H old new s)"
| Hold: "sio_step H s (snd (sio_card_should_hold_imask_bit7 H s))"
| Pump: "sio_step H s (sio_ape_card_unstick_pump H s)"
| Host: "pad_host (pads s) p \<Longrightarrow> sio_step H s (s\<lparr>pads := p\<rparr>)"
| Cards: "sio_step H s (s\<lparr>card := (card s)\<lparr>store := st\<rparr>\<rparr>)"
| Environment: "sio_step H s (s\<lparr>senv := e\<rparr>)"
| Session: "sio_step H s (sio_netplay_canonicalize_session_pads n s)"
| Restart: "sio_step H s (sio_init s)"

inductive sio_reachable :: "'h sio_host \<Rightarrow> 'h sio \<Rightarrow> bool" for H where
  Power_on: "mc_data_idx (mc (card s)) = 0 \<Longrightarrow> sio_reachable H (sio_init s)"
| Step: "sio_reachable H s \<Longrightarrow> sio_step H s t \<Longrightarrow> sio_reachable H t"
| Load: "sio_reachable H u \<Longrightarrow> sio_reachable H s \<Longrightarrow> players (pads u) = players (pads s) \<Longrightarrow>
    sio_snapshot_read (sio_snapshot_write m u) m0 s = Some (ok, m', t) \<Longrightarrow> sio_reachable H t"

inductive_cases sio_step_cases: "sio_step H s t"

text \<open>The host's calls do not touch a transfer in progress.\<close>

lemma pad_ok_cong:
  "pad_state q = pad_state p \<Longrightarrow> pad_response_idx q = pad_response_idx p \<Longrightarrow> pad_response_len q = pad_response_len p
    \<Longrightarrow> pad_ok q = pad_ok p"
  by (simp add: pad_ok_def)

lemma host_calls_keep [simp]:
  "pad_ok (sio_set_pad_state b p) = pad_ok p" "pad_ok (sio_set_pad_state_slot i b p) = pad_ok p"
  "pad_ok (sio_connect_pad i p) = pad_ok p" "pad_ok (sio_set_pad_connected i c p) = pad_ok p"
  "pad_ok (stop_motors k p) = pad_ok p" "pad_ok (sio_set_pad_config_capable i c p) = pad_ok p"
  "pad_ok (put_sticks k lx ly rx ry p) = pad_ok p" "pad_ok (sio_set_pad_sticks i lx ly rx ry p) = pad_ok p"
  "pad_ok (sio_request_pad_type i c p) = pad_ok p" "pad_ok (clear_latches p) = pad_ok p"
  "pad_ok (sio_set_multitap c p) = pad_ok p" "pad_ok (sio_set_multitap_port n p) = pad_ok p"
  "pad_ok (sio_set_multitap_analog c p) = pad_ok p" "pad_ok (sio_set_legacy_cfg c p) = pad_ok p"
  by (rule pad_ok_cong;
      simp add: sio_set_pad_state_def sio_set_pad_state_slot_def sio_connect_pad_def sio_set_pad_connected_def
        stop_motors_def sio_set_pad_config_capable_def put_sticks_def sio_set_pad_sticks_def
        sio_request_pad_type_def clear_latches_def sio_set_multitap_def sio_set_multitap_port_def
        sio_set_multitap_analog_def sio_set_legacy_cfg_def Let_def)+

lemma set_analog_keeps [simp]: "pad_ok (sio_set_pad_analog i c lx ly rx ry p) = pad_ok p"
proof -
  have "pad_ok (p\<lparr>pad_analog := f, pad_type_req := g\<rparr>) = pad_ok p" for f g by (rule pad_ok_cong) simp_all
  then show ?thesis by (simp add: sio_set_pad_analog_def Let_def split: prod.split)
qed

lemma pad_host_ok: "pad_host p q \<Longrightarrow> pad_ok p \<Longrightarrow> pad_ok q"
  by (induction rule: pad_host.induct) simp_all

lemma canonical_ok [simp]: "pad_ok (canonical_seat i p) = pad_ok p" "pad_ok (canonical_empty i p) = pad_ok p"
proof -
  have 1: "pad_ok (p\<lparr>pad_in_config := a, analog_mode_locked := b, pad_type_req := c, pad_rumble_map := d\<rparr>) = pad_ok p"
    "pad_ok (p\<lparr>pad_in_config := a, pad_type_req := c\<rparr>) = pad_ok p" for p a b c d by (rule pad_ok_cong; simp)+
  then show "pad_ok (canonical_seat i p) = pad_ok p" "pad_ok (canonical_empty i p) = pad_ok p"
    by (simp_all add: canonical_seat_def canonical_empty_def Let_def)
qed

lemma canonicalize_ok: "pad_ok (canonicalize_pads n p)"
proof -
  have "pad_ok (foldl (\<lambda>s i. if f i then canonical_seat i s else canonical_empty i s) q is) = pad_ok q" for f q "is"
    by (induction "is" arbitrary: q) simp_all
  moreover have "pad_ok ((pad_end q)\<lparr>selected_slot := a, pad_active_logical := b, pad_mtap_addr := c, pad_response := d\<rparr>)"
    for q a b c d by (simp add: pad_ok_def pad_end_def)
  ultimately show ?thesis by (simp add: canonicalize_pads_def Let_def)
qed

lemma init_ok: "mc_data_idx (mc (card s)) \<le> 128 \<Longrightarrow> sio_ok (sio_init s)"
proof -
  assume idx: "mc_data_idx (mc (card s)) \<le> 128"
  let ?s = "s\<lparr>sio_tx_data := 0, sio_lines := \<lparr>rx_data = 0xFF, stat = SIO_STAT_TX_IDLE\<rparr>, sio_mode := 0, sio_ctrl := 0,
    sio_baud := 0, pads := pad_init (pads s)\<rparr>"
  have "pad_ok (pad_init p)" for p by (simp add: pad_init_def Let_def pad_ok_def pad_end_def)
  then have "dev_ok (upd_slots fresh_slot (set_mc_state MC_IDLE ?s))"
    using idx by (simp add: dev_ok_def slots_ok_def upd_slots_def set_mc_state_def upd_mc_def mc_ok_def
        idle_slots_ok(3) [unfolded mc_ok_def])
  then have "dev_ok ((upd_slots fresh_slot (set_mc_state MC_IDLE ?s))\<lparr>active_device := DEV_NONE,
      irq_armed := False, irq_countdown := 0, ack_visible_reads := 0\<rparr>)" by (simp add: dev_ok_def)
  then show ?thesis by (simp add: sio_init_def Let_def sio_ok_def kill_ok)
qed

lemma step_ok: "sio_step H s t \<Longrightarrow> sio_ok s \<Longrightarrow> sio_ok t"
proof (induction rule: sio_step.induct)
  case (Host s p)
  then show ?case using pad_host_ok by (auto simp: sio_ok_def dev_ok_def)
next
  case (Restart s)
  then show ?case by (intro init_ok) (simp add: sio_ok_def dev_ok_def mc_ok_def)
next
  case (Session s n)
  then show ?case by (simp add: sio_netplay_canonicalize_session_pads_def sio_ok_def dev_ok_def canonicalize_ok)
next
  case (Cards s st)
  then show ?case by (simp add: sio_ok_def dev_ok_def)
next
  case (Environment s e)
  then show ?case by (simp add: sio_ok_def dev_ok_def)
qed (simp_all add: read_ok write_ok port_advance_ok tick_ok sio_tick_quantum_def sio_ok_view [OF pump_views(1)]
    sio_ok_view [OF pump_views(2)] sio_ok_view [OF hold_views])

lemma port_loaded_ok:
  assumes "sio_ok u" "sio_ok s"
  shows "sio_ok (sio_loaded u s)"
proof -
  have m: "mc_ok (slot_loaded a b) = mc_ok a" for a b by (simp add: slot_loaded_def mc_ok_def)
  have r: "pad_ok (rumble_loaded p q) = pad_ok q" for p q by (simp add: rumble_loaded_def Let_def pad_ok_def)
  have "pad_ok (pads_loaded (pads u) p)" for p
    using assms(1) by (auto simp: sio_ok_def dev_ok_def pad_ok_def pads_loaded_def abort_bulk_def Let_def unat_of_nat
        take_bit_nat_eq_self)
  moreover have "pace_ok (pace (pace_loaded u t))" for t :: "'a sio"
    using assms(1) by (auto simp: sio_ok_def pace_ok_def pace_loaded_def wrap32_id)
  ultimately show ?thesis
    using assms(1) by (simp add: sio_loaded_def sio_ok_def dev_ok_def slots_ok_def pace_loaded_def mc_loaded_def m r)
qed

lemma ok_restores:
  assumes "sio_ok u" "players (pads u) = players (pads s)"
  shows "sio_snapshot_read (sio_snapshot_write m u) m0 s = Some (True, m, sio_loaded u s)"
proof -
  have "mc_ok k \<Longrightarrow> mc_data_idx k < 2 ^ 31" for k by (simp add: mc_ok_def)
  then show ?thesis using assms by (intro sio_snapshot_restores) (simp_all add: sio_ok_def dev_ok_def slots_ok_def)
qed

lemma reachable_ok: "sio_reachable H s \<Longrightarrow> sio_ok s"
proof (induction rule: sio_reachable.induct)
  case (Load u s m m0 ok m' t)
  then show ?case using ok_restores [of u s m m0] port_loaded_ok [of u s] by simp
qed (simp_all add: init_ok step_ok)

definition demo_sio :: "(string \<rightharpoonup> u8 list) sio" where
  "demo_sio = \<lparr>sio_tx_data = 0, sio_mode = 0, sio_ctrl = 0x1003, sio_baud = 0, sio_lines = \<lparr>rx_data = 0xFF, stat = 5\<rparr>,
     pads = demo_pads, card = demo_bus, mc_slots = (\<lambda>_. mc_reset), active_device = DEV_NONE, irq_armed = False,
     irq_countdown = 0, ack_visible_reads = 0, irq_source = SIO_IRQ_SRC_UNKNOWN,
     pace = \<lparr>timing_active = False, shift_active = False, shift_byte = 0, shift_remaining = 0, tx_buffered = False,
       tx_buffer = 0, shift_ack_irq_en = False, tx_buffer_ack_irq_en = False, pending_ack = False, ack_remaining = 0,
       pending_ack_irq_en = False, bus_owner = SIO_OWNER_NONE, bus_byte_index = 0\<rparr>,
     nest = \<lparr>txn_open = False, txn_count = 0, txn_tx = (\<lambda>_. 0), handoff_armed = False, ape_pending = False,
       ape_cool_cyc = 0, ape_pulses = 0, hold_left = -1, ct_defer_until = 0\<rparr>,
     senv = irq_power_on\<rparr>"

definition demo_host :: "(string \<rightharpoonup> u8 list) sio_host" where
  "demo_host = \<lparr>files = map_fs, guest_word = (\<lambda>_. 0), ape_unstick_enabled = False, pad_sync_rx = False\<rparr>"

lemma demo_ok: "sio_ok demo_sio"
  by (simp add: demo_sio_def sio_ok_def dev_ok_def slots_ok_def mc_reset_ok demo_bus_def pad_ok_def demo_pads_def pace_ok_def)

text \<open>
  C3. The port's variables stay in bounds under the guest's register accesses, the clock, the interrupt
  controller's hooks, the host's calls (pads, cards, session, restart) and the loading of snapshots that a
  port in such a state wrote (other bytes are restored without a check and are not covered): the card's
  buffer index is below 128 while a byte is moved through it, in the working variables and in both
  saved slots; the pad's frame index is below the frame's length, at most the 34 bytes of its buffer; a
  byte being shifted and an acknowledge to come always have the clock's flag on, so the clock reaches
  them, and at most 1088 and 1258 cycles to go; a byte waits in the buffer only behind one being shifted;
  and the access-paced countdown of \<open>sio_tick\<close> is never armed.
\<close>

theorem sio_state_bounded:
  assumes "sio_reachable H s"
  shows "(\<forall>m \<in> {mc (card s), mc_slots s 0, mc_slots s 1}. mc_state m \<in> {MC_READ_DATA, MC_WRITE_DATA} \<longrightarrow> mc_data_idx m < 128)
    \<and> (pad_state (pads s) = PAD_SEND_RESPONSE \<longrightarrow> pad_response_idx (pads s) < pad_response_len (pads s)
      \<and> pad_response_len (pads s) \<le> PAD_RESPONSE_MAX)
    \<and> (shift_active (pace s) \<longrightarrow> timing_active (pace s) \<and> 0 < shift_remaining (pace s) \<and> shift_remaining (pace s) \<le> 1088)
    \<and> (pending_ack (pace s) \<longrightarrow> timing_active (pace s) \<and> 0 \<le> ack_remaining (pace s) \<and> ack_remaining (pace s) \<le> 1258)
    \<and> (tx_buffered (pace s) \<longrightarrow> shift_active (pace s)) \<and> \<not> irq_armed s"
  using reachable_ok [OF assms] by (auto simp: sio_ok_def dev_ok_def slots_ok_def mc_ok_def pad_ok_def pace_ok_def)

text \<open>A transfer under way, saved and loaded back into a port that has just been started.\<close>

definition demo_busy :: "(string \<rightharpoonup> u8 list) sio" where
  "demo_busy = sio_write demo_host 0x1F801040 1 (sio_write demo_host 0x1F80104A 0x1003 (sio_init demo_sio))"

lemma demo_busy_reachable: "sio_reachable demo_host (sio_init demo_sio)" "sio_reachable demo_host demo_busy"
proof -
  have "mc_data_idx (mc (card demo_sio)) = 0" by (simp add: demo_sio_def demo_bus_def mc_reset_def)
  then show "sio_reachable demo_host (sio_init demo_sio)" by (rule Power_on)
  then show "sio_reachable demo_host demo_busy"
    unfolding demo_busy_def by (intro sio_reachable.Step [OF _ sio_step.Write])
qed

lemma demo_busy_port: "pads demo_busy = pads (sio_init demo_sio)" "shift_active (pace demo_busy)"
proof -
  let ?s = "sio_init demo_sio" and ?H = "demo_host"
  have tick: "bus_view (sio_tick H 0 s) = bus_view s" if "\<not> irq_armed s" for H and s :: "(string \<rightharpoonup> u8 list) sio"
    using that by (simp add: sio_tick_def legacy_countdown_def)
  have i: "\<not> irq_armed ?s" "sio_ctrl ?s = 0" "\<not> shift_active (pace ?s)"
    by (simp_all add: sio_init_def Let_def kill_shifter_def bus_idle_def upd_slots_def set_mc_state_def)
  let ?c = "upd_pace bus_idle (?s\<lparr>sio_ctrl := 0x1003\<rparr>)"
  have c: "sio_write ?H 0x1F80104A 0x1003 ?s = sio_tick ?H 0 ?c"
    by (simp add: sio_write_def write_ctrl_def i(2) Let_def)
  let ?d = "sio_tick ?H 0 ?c"
  have sync: "\<not> pad_sync_rx ?H" by (simp add: demo_host_def)
  have view: "bus_view ?d = bus_view ?c" by (rule tick) (simp add: i(1))
  note d = bus_view_fields [OF view]
  have busy: "demo_busy = sio_tick ?H 0 (tx_paced 1 (?d\<lparr>sio_tx_data := 1\<rparr>))"
    unfolding demo_busy_def c using sync
    by (simp add: sio_write_def write_tx_def tx_noted_def d(9) Let_def)
  have keep: "bus_view demo_busy = bus_view (tx_paced 1 (?d\<lparr>sio_tx_data := 1\<rparr>))"
    unfolding busy by (rule tick) (simp add: tx_paced_def d i Let_def)
  have own: "shift_active (own_bus b p) = shift_active p" for b p by (simp add: own_bus_def)
  show "pads demo_busy = pads ?s" "shift_active (pace demo_busy)"
    using i own by (simp_all add: bus_view_fields(1,2) [OF keep] d tx_paced_def start_shift_def bus_idle_def Let_def)
qed

theorem sio_state_bounded_witness:
  "shift_active (pace (sio_loaded demo_busy (sio_init demo_sio)))
    \<and> shift_remaining (pace (sio_loaded demo_busy (sio_init demo_sio))) \<le> 1088"
proof -
  let ?s = "sio_init demo_sio" and ?m = "\<lparr>meta_slot = 0, meta_delay = 0, meta_mc_state = 0, meta_byte_seq = 0\<rparr>"
  have "sio_reachable demo_host (sio_loaded demo_busy ?s)"
    by (rule Load [OF demo_busy_reachable(2,1) _ ok_restores [OF reachable_ok [OF demo_busy_reachable(2)], of ?s ?m ?m]])
      (simp_all add: demo_busy_port)
  moreover have "shift_active (pace (sio_loaded demo_busy ?s))"
    by (simp add: sio_loaded_def pace_loaded_def demo_busy_port)
  ultimately show ?thesis using sio_state_bounded by blast
qed

subsection \<open>The horizon\<close>

lemma run_clocks_idle: "\<not> shift_active p \<Longrightarrow> \<not> pending_ack p \<Longrightarrow> run_clocks dt p = p"
  by (simp add: run_clocks_def)

lemma run_clocks_add: "run_clocks b (run_clocks a p) = run_clocks (a + b) p"
  by (simp add: run_clocks_def Let_def algebra_simps)

lemma upd_pace_upd_pace: "upd_pace f (upd_pace g s) = upd_pace (\<lambda>p. f (g p)) s"
  by (simp add: upd_pace_def)

lemma upd_pace_same: "f (pace s) = pace s \<Longrightarrow> upd_pace f s = s"
  by (simp add: upd_pace_def)

lemma sint_small: "uint (c :: u32) < 2 ^ 31 \<Longrightarrow> sint c = uint c"
  using signed_take_bit_int_eq_self [of 31 "uint c"] order_trans [of "- 2147483648" 0 "uint c"] by (simp add: sint_uint)

text \<open>The distance to the nearer deadline.\<close>

definition nearest :: "pacer \<Rightarrow> int option" where
  "nearest p =
     (if shift_active p \<and> pending_ack p then Some (min (shift_remaining p) (ack_remaining p))
      else if shift_active p then Some (shift_remaining p)
      else if pending_ack p then Some (ack_remaining p) else None)"

lemma small_of_int: "0 \<le> n \<Longrightarrow> n \<le> 1258 \<Longrightarrow> uint (word_of_int n :: u32) = n"
  by (simp add: uint_word_of_int)

lemma horizon_nearest:
  assumes "sio_ok s" "\<not> overdue (pace s)" "im AND push_bit 7 1 \<noteq> 0"
  shows "sio_cycles_to_irq im s = (case nearest (pace s) of None \<Rightarrow> 0xFFFFFFFF | Some n \<Rightarrow> word_of_int n)"
proof -
  let ?p = "pace s"
  have p: "pace_ok ?p" "\<not> irq_armed s" using assms(1) by (simp_all add: sio_ok_def)
  have lt: "word_of_int a < (word_of_int b :: u32) \<longleftrightarrow> a < b" if "0 < a" "a \<le> 1258" "0 < b" "b \<le> 1258" for a b
    using that by (simp add: word_less_def small_of_int)
  have far: "word_of_int a < (0xFFFFFFFF :: u32)" if "0 < a" "a \<le> 1258" for a
    using that by (simp add: word_less_def small_of_int)
  have "shift_active ?p \<Longrightarrow> 0 < shift_remaining ?p \<and> shift_remaining ?p \<le> 1258"
    "pending_ack ?p \<Longrightarrow> 0 < ack_remaining ?p \<and> ack_remaining ?p \<le> 1258"
    "shift_active ?p \<or> pending_ack ?p \<Longrightarrow> timing_active ?p"
    using p(1) assms(2) by (auto simp: pace_ok_def overdue_def)
  then show ?thesis
    using assms(3) p(2) by (auto simp: sio_cycles_to_irq_def nearest_def nearer_def lt far min_def)
qed

lemma next_event_before:
  assumes "\<not> overdue p" "case nearest p of None \<Rightarrow> True | Some n \<Rightarrow> c < n"
  shows "next_event c p = (No_Event, c)"
  using assms by (auto simp: next_event_def overdue_def nearest_def Let_def split: if_splits)

lemma next_event_due:
  assumes "\<not> overdue p" "nearest p = Some n" "n \<le> c"
  shows "next_event c p = (if shift_active p \<and> shift_remaining p = n then Shift_Done else Ack_Due, n)"
  using assms by (auto simp: next_event_def overdue_def nearest_def Let_def split: if_splits)

lemma advance_before:
  assumes "sio_ok s" "\<not> overdue (pace s)" "case nearest (pace s) of None \<Rightarrow> True | Some n \<Rightarrow> uint c < n"
  shows "sio_advance H c s = upd_pace (run_clocks (uint c)) s"
proof (cases "nearest (pace s)")
  case None
  then have "\<not> shift_active (pace s)" "\<not> pending_ack (pace s)" by (auto simp: nearest_def split: if_splits)
  then have "upd_pace (run_clocks dt) s = s" for dt by (simp add: upd_pace_same run_clocks_idle)
  then show ?thesis
    using next_event_before [OF assms(2)] None by (simp add: sio_advance_def sio_pace_walk_def)
next
  case (Some n)
  have n: "n \<le> 1258" "timing_active (pace s)" "uint c < n"
    using assms Some by (auto simp: nearest_def sio_ok_def pace_ok_def split: if_splits)
  have c: "sint c = uint c" using n by (simp add: sint_small)
  show ?thesis
  proof (cases "c = 0")
    case True
    have "upd_pace (run_clocks 0) s = s" by (rule upd_pace_same) (cases "pace s"; simp add: run_clocks_def Let_def)
    then show ?thesis using True by (simp add: sio_advance_def)
  next
    case False
    then have "uint c > 0" by (simp add: word_neq_0_conv word_less_def)
    then show ?thesis using False n next_event_before [OF assms(2), of "uint c"] Some
      by (simp add: sio_advance_def sio_pace_walk_def c)
  qed
qed

lemma advance_due:
  assumes "sio_ok s" "\<not> overdue (pace s)" "nearest (pace s) = Some n" "n \<le> uint c" "uint c < 2 ^ 31"
  shows "sio_advance H c s =
    (let t = upd_pace (run_clocks n) s
     in if shift_active (pace s) \<and> shift_remaining (pace s) = n then sio_handle_shift_complete H t else ack_event t)"
proof -
  have n: "0 < n" "timing_active (pace s)"
    using assms(1-3) by (auto simp: nearest_def sio_ok_def pace_ok_def overdue_def split: if_splits)
  then have c: "c \<noteq> 0" "uint c > 0" using assms(4) by auto
  show ?thesis
    using c n next_event_due [OF assms(2-4)] by (auto simp: sio_advance_def sio_pace_walk_def sint_small [OF assms(5)] Let_def)
qed

lemma nearest_run:
  assumes "nearest p = Some n" "a < n"
  shows "nearest (run_clocks a p) = Some (n - a)" "\<not> overdue p \<Longrightarrow> \<not> overdue (run_clocks a p)"
  using assms by (auto simp: nearest_def overdue_def min_def split: if_splits)

lemma run_before_ok:
  assumes "sio_ok s" "nearest (pace s) = Some n" "0 \<le> a" "a < n"
  shows "sio_ok (upd_pace (run_clocks a) s)"
  using assms by (auto simp: sio_ok_def pace_ok_def nearest_def split: if_splits)

lemma advance_again:
  assumes ok: "sio_ok s" "\<not> overdue (pace s)" and n: "nearest (pace s) = Some n"
    and a: "uint a < n" and ab: "uint a + uint b < 2 ^ 31"
  shows "sio_advance H b (sio_advance H a s) = sio_advance H (a + b) s"
proof -
  let ?t = "upd_pace (run_clocks (uint a)) s"
  have 1: "sio_advance H a s = ?t" using advance_before [OF ok] n a by simp
  have u: "uint (a + b) = uint a + uint b" using ab by (simp add: uint_word_ariths)
  have t: "sio_ok ?t" "\<not> overdue (pace ?t)" "nearest (pace ?t) = Some (n - uint a)"
    using run_before_ok [OF ok(1) n] nearest_run [OF n a] ok(2) a by simp_all
  have same: "upd_pace (run_clocks k) ?t = upd_pace (run_clocks (uint a + k)) s" for k
    by (simp add: upd_pace_upd_pace run_clocks_add)
  show ?thesis
  proof (cases "uint b < n - uint a")
    case True
    then show ?thesis using advance_before [OF t(1,2), of b H] advance_before [OF ok, of "a + b" H] t(3) n
      by (simp add: 1 same u)
  next
    case False
    have "0 \<le> uint a" by simp
    then have b31: "uint b < 2 ^ 31" using ab by linarith
    have act: "shift_active (pace ?t) \<and> shift_remaining (pace ?t) = n - uint a \<longleftrightarrow>
        shift_active (pace s) \<and> shift_remaining (pace s) = n" by auto
    have "sio_advance H b ?t = (let t = upd_pace (run_clocks (n - uint a)) ?t in
        if shift_active (pace s) \<and> shift_remaining (pace s) = n then sio_handle_shift_complete H t else ack_event t)"
      unfolding act [symmetric] by (rule advance_due [OF t _ b31]) (use False in simp)
    moreover have "sio_advance H (a + b) s = (let t = upd_pace (run_clocks n) s in
        if shift_active (pace s) \<and> shift_remaining (pace s) = n then sio_handle_shift_complete H t else ack_event t)"
      by (rule advance_due [OF ok n]) (use False ab in \<open>simp_all add: u not_less\<close>)
    ultimately show ?thesis by (simp add: 1 same)
  qed
qed

text \<open>
  C4. The clock's horizon is sound and exact. With no deadline overdue and the port's interrupt unmasked,
  running for fewer cycles than \<open>sio_cycles_to_irq\<close> answers only moves the two countdowns, so no byte
  is processed and no interrupt raised, and the horizon shrinks by as much; splitting such a run from
  what follows changes nothing; and reaching the horizon delivers the event due there, the end of the
  shift or the acknowledge, from the countdowns taken exactly to it.
\<close>

theorem sio_horizon:
  assumes "sio_ok s" "\<not> overdue (pace s)" "im AND push_bit 7 1 \<noteq> 0"
    and "a < sio_cycles_to_irq im s" "sio_cycles_to_irq im s \<noteq> 0xFFFFFFFF" "uint a + uint b < 2 ^ 31"
    and "sio_cycles_to_irq im s \<le> c" "uint c < 2 ^ 31"
  shows "sio_advance H a s = upd_pace (run_clocks (uint a)) s
    \<and> sio_cycles_to_irq im (sio_advance H a s) = sio_cycles_to_irq im s - a
    \<and> sio_advance H b (sio_advance H a s) = sio_advance H (a + b) s
    \<and> sio_advance H c s =
        (let t = upd_pace (run_clocks (uint (sio_cycles_to_irq im s))) s
         in if shift_active (pace s) \<and> shift_remaining (pace s) = uint (sio_cycles_to_irq im s)
            then sio_handle_shift_complete H t else ack_event t)"
proof -
  note h = horizon_nearest [OF assms(1,2,3)]
  obtain n where n: "nearest (pace s) = Some n" using assms(5) h by (cases "nearest (pace s)") auto
  then have b: "0 < n" "n \<le> 1258"
    using assms(1,2) by (auto simp: nearest_def sio_ok_def pace_ok_def overdue_def split: if_splits)
  then have u: "uint (sio_cycles_to_irq im s) = n" using h n by (simp add: small_of_int)
  have a: "uint a < n" and c: "n \<le> uint c" using assms(4,7) u by (simp_all add: word_less_def word_le_def)
  have 1: "sio_advance H a s = upd_pace (run_clocks (uint a)) s" using advance_before [OF assms(1,2)] n a by simp
  have t: "sio_ok (upd_pace (run_clocks (uint a)) s)" "\<not> overdue (run_clocks (uint a) (pace s))"
    "nearest (run_clocks (uint a) (pace s)) = Some (n - uint a)"
    using run_before_ok [OF assms(1) n] nearest_run [OF n a] assms(2) a by simp_all
  have 2: "sio_cycles_to_irq im (sio_advance H a s) = sio_cycles_to_irq im s - a"
    using horizon_nearest [OF t(1) _ assms(3)] t(2,3) h n by (simp add: 1)
  have 3: "sio_advance H b (sio_advance H a s) = sio_advance H (a + b) s" by (rule advance_again [OF assms(1,2) n a assms(6)])
  show ?thesis using advance_due [OF assms(1,2) n c assms(8), of H] by (intro conjI 1 2 3) (simp add: u)
qed

theorem sio_horizon_witness:
  "sio_cycles_to_irq 0x80 (sio_advance demo_host 1000 (tx_paced 1 demo_sio)) = 88"
proof -
  have d: "\<not> shift_active (own_bus 1 (pace demo_sio))" "\<not> pending_ack (own_bus 1 (pace demo_sio))" "ack_irq_en demo_sio"
    by (simp_all add: own_bus_def demo_sio_def ack_irq_en_def)
  have p: "pace (tx_paced 1 demo_sio) = start_shift 1 (ack_irq_en (upd_pace (own_bus 1) demo_sio)) (own_bus 1 (pace demo_sio))"
    by (simp add: tx_paced_def Let_def d)
  have ok: "sio_ok (tx_paced 1 demo_sio)" by (rule tx_ok(2) [OF demo_ok])
  have over: "\<not> overdue (pace (tx_paced 1 demo_sio))" by (simp add: p overdue_def start_shift_def d)
  have h: "sio_cycles_to_irq 0x80 (tx_paced 1 demo_sio) = 1088"
    using horizon_nearest [OF ok over, of "0x80"] by (simp add: p nearest_def start_shift_def d)
  have "sio_cycles_to_irq 0x80 (sio_advance demo_host 1000 (tx_paced 1 demo_sio)) = sio_cycles_to_irq 0x80 (tx_paced 1 demo_sio) - 1000"
    by (rule sio_horizon [OF ok over, of "0x80" 1000 0 1088, THEN conjunct2, THEN conjunct1]) (simp_all add: h)
  then show ?thesis by (simp add: h)
qed

end
