(* ===== verification/SioPort.thy ===== *)
theory SioPort
  imports SioProps
begin

unbundle bit_operations_syntax

section \<open>A byte through the registers of the serial port\<close>

text \<open>
  The guest's side of a byte: it writes the transmit register, a byte time later reads the answer, an
  acknowledge time later looks at the interrupt, and acknowledges it in the port and in the
  controller. On a port that is ready this is the exchange the device itself makes, so the protocols
  proved for the card and the pads hold through the registers. The theory also states what dropping
  the select line does, and what firing an acknowledge does to the interrupt line.
\<close>

subsection \<open>The guest's side of a byte\<close>

definition port_byte :: "'h sio_host \<Rightarrow> u8 \<Rightarrow> 'h sio \<Rightarrow> (u8 \<times> bool) \<times> 'h sio" where
  "port_byte H tx s =
     (let s = sio_advance H 1088 (sio_write H 0x1F801040 (ucast tx) s);
          (v, s) = sio_read H 0x1F801040 s;
          s = sio_advance H 170 s;
          irq = bit (i_stat (senv s)) 7;
          s = sio_write H 0x1F80104A (ucast (sio_ctrl s OR SIO_CTRL_ACK)) s
      in ((ucast v, irq), upd_senv (interrupt_write_stat_masked (NOT 0x80) 0xFFFFFFFF) s))"

fun port_bytes :: "'h sio_host \<Rightarrow> u8 list \<Rightarrow> 'h sio \<Rightarrow> (u8 \<times> bool) list \<times> 'h sio" where
  "port_bytes H [] s = ([], s)"
| "port_bytes H (tx # txs) s =
     (let (r, s) = port_byte H tx s; (rs, s) = port_bytes H txs s in (r # rs, s))"

text \<open>The port selected and enabled, with nothing in flight and no acknowledge or interrupt standing.\<close>

definition port_ready :: "'h sio \<Rightarrow> bool" where
  "port_ready s \<longleftrightarrow> sio_ok s
     \<and> bit (sio_ctrl s) 0 \<and> bit (sio_ctrl s) 1 \<and> bit (sio_ctrl s) 12 \<and> \<not> bit (sio_ctrl s) 6
     \<and> \<not> shift_active (pace s) \<and> \<not> pending_ack (pace s) \<and> \<not> ape_pending (nest s)
     \<and> \<not> bit (stat (sio_lines s)) 7 \<and> \<not> bit (i_stat (senv s)) 7"

lemma and_bit16:
  "w AND 0x1 = 0 \<longleftrightarrow> \<not> bit w 0" "w AND 0x2 = 0 \<longleftrightarrow> \<not> bit w 1" "w AND 0x10 = 0 \<longleftrightarrow> \<not> bit w 4"
  "w AND 0x40 = 0 \<longleftrightarrow> \<not> bit w 6" "w AND 0x80 = 0 \<longleftrightarrow> \<not> bit w 7" "w AND 0x1000 = 0 \<longleftrightarrow> \<not> bit w 12" for w :: u16
  using and_exp_eq_0_iff_not_bit [of w 0] and_exp_eq_0_iff_not_bit [of w 1] and_exp_eq_0_iff_not_bit [of w 4]
    and_exp_eq_0_iff_not_bit [of w 6] and_exp_eq_0_iff_not_bit [of w 7] and_exp_eq_0_iff_not_bit [of w 12] by simp_all

lemma and_bit32: "w AND 0x80 = 0 \<longleftrightarrow> \<not> bit w 7" for w :: u32
  using and_exp_eq_0_iff_not_bit [of w 7] by simp

lemma more_u16_bits:
  "bit (0x1 :: u16) n \<longleftrightarrow> n = 0" "bit (0x10 :: u16) n \<longleftrightarrow> n = 4" "bit (0x200 :: u16) n \<longleftrightarrow> n = 9"
proof -
  have one: "bit (push_bit k 1 :: u16) n \<longleftrightarrow> n = k" if "k < 16" for k
    using that by (simp only: bit_push_bit_iff) (auto simp: bit_1_iff)
  have e: "(0x10 :: u16) = push_bit 4 1" "(0x200 :: u16) = push_bit 9 1" by simp_all
  show "bit (0x1 :: u16) n \<longleftrightarrow> n = 0" by (auto simp: bit_1_iff)
  show "bit (0x10 :: u16) n \<longleftrightarrow> n = 4" unfolding e by (rule one) simp
  show "bit (0x200 :: u16) n \<longleftrightarrow> n = 9" unfolding e by (rule one) simp
qed

lemma there_back: "ucast (ucast (b :: u8) :: u32) = b" "ucast (ucast (w :: u16) :: u32) = w"
  by (rule bit_word_eqI; auto simp: bit_simps dest: bit_imp_possible_bit)+

lemma port_tick_quiet: "\<not> irq_armed s \<Longrightarrow> \<not> ape_pending (nest s) \<Longrightarrow> sio_tick H 0 s = s"
  by (simp add: sio_tick_def legacy_countdown_def sio_ape_card_unstick_pump_def)

text \<open>The port when the byte has just shifted.\<close>

definition tx_started :: "u8 \<Rightarrow> 'h sio \<Rightarrow> 'h sio" where
  "tx_started b s = clear_stat SIO_STAT_TX_IDLE (upd_pace (\<lambda>p. start_shift b True (own_bus b p)) (tx_noted b s))"

definition tx_shifted :: "u8 \<Rightarrow> 'h sio \<Rightarrow> 'h sio" where
  "tx_shifted b s = upd_pace (run_clocks 1088) (tx_started b s)"

lemma tx_noted_fields [simp]:
  "sio_lines (tx_noted b s) = sio_lines s" "pads (tx_noted b s) = pads s" "card (tx_noted b s) = card s"
  "mc_slots (tx_noted b s) = mc_slots s" "active_device (tx_noted b s) = active_device s" "irq_armed (tx_noted b s) = irq_armed s"
  "sio_ctrl (tx_noted b s) = sio_ctrl s" "pace (tx_noted b s) = pace s" "senv (tx_noted b s) = senv s"
  "ape_pending (nest (tx_noted b s)) = ape_pending (nest s)" "ape_cool_cyc (nest (tx_noted b s)) = ape_cool_cyc (nest s)" "txn_open (nest (tx_noted b s)) = txn_open (nest s)"
  by (simp_all add: tx_noted_def Let_def)

lemma own_bus_fields [simp]:
  "shift_active (own_bus b p) = shift_active p" "pending_ack (own_bus b p) = pending_ack p"
  "tx_buffered (own_bus b p) = tx_buffered p" "timing_active (own_bus b p) = timing_active p"
  "ack_remaining (own_bus b p) = ack_remaining p" "shift_remaining (own_bus b p) = shift_remaining p"
  by (simp_all add: own_bus_def Let_def)

lemma tx_shifted_fields [simp]:
  "pads (tx_shifted b s) = pads s" "card (tx_shifted b s) = card s" "mc_slots (tx_shifted b s) = mc_slots s"
  "active_device (tx_shifted b s) = active_device s" "sio_ctrl (tx_shifted b s) = sio_ctrl s" "senv (tx_shifted b s) = senv s"
  "ape_pending (nest (tx_shifted b s)) = ape_pending (nest s)" "ape_cool_cyc (nest (tx_shifted b s)) = ape_cool_cyc (nest s)" "irq_armed (tx_shifted b s) = irq_armed s"
  "txn_open (nest (tx_shifted b s)) = txn_open (nest s)"
  "sio_lines (tx_shifted b s) = (sio_lines s)\<lparr>stat := stat (sio_lines s) AND NOT SIO_STAT_TX_IDLE\<rparr>"
  by (simp_all add: tx_shifted_def tx_started_def)

lemma write_starts:
  assumes "port_ready s" "\<not> pad_sync_rx H"
  shows "sio_write H 0x1F801040 (ucast b) s = tx_started b s"
proof -
  have "sio_ctrl s AND SIO_CTRL_TX_EN \<noteq> 0" "ack_irq_en (upd_pace (own_bus b) (tx_noted b s))"
    using assms by (simp_all add: port_ready_def and_bit16 ack_irq_en_def)
  then have "write_tx H b s = tx_started b s"
    using assms by (simp add: write_tx_def Let_def tx_paced_def tx_started_def port_ready_def upd_pace_upd_pace)
  moreover have "sio_tick H 0 (tx_started b s) = tx_started b s"
    using assms by (intro port_tick_quiet) (simp_all add: tx_started_def port_ready_def sio_ok_def)
  ultimately show ?thesis by (simp add: sio_write_def there_back)
qed

lemma shift_ends:
  assumes "port_ready s" "\<not> pad_sync_rx H"
  shows "sio_advance H 1088 (tx_started b s) = sio_handle_shift_complete H (tx_shifted b s)"
proof -
  have p: "pace (tx_started b s) = start_shift b True (own_bus b (pace s))" by (simp add: tx_started_def)
  have idle: "\<not> shift_active (pace s)" "\<not> pending_ack (pace s)" using assms by (simp_all add: port_ready_def)
  have "sio_ok (tx_started b s)"
    using write_ok [of s H "0x1F801040" "ucast b"] assms write_starts [OF assms, of b] by (simp add: port_ready_def)
  from advance_due [OF this, of 1088 1088 H] show ?thesis
    using idle by (simp add: p overdue_def start_shift_def nearest_def tx_shifted_def Let_def)
qed

subsection \<open>The answer comes back\<close>

text \<open>What a device does to the lines in answer to a byte.\<close>

definition ans :: "bool \<Rightarrow> u8 \<Rightarrow> bus_lines \<Rightarrow> bus_lines" where
  "ans a v l = byte_done (if a then pull_ack (put_rx v l) else put_rx v l)"

lemma ans_simps:
  "rx_data (ans a v l) = v" "\<not> bit (stat l) 7 \<Longrightarrow> bit (stat (ans a v l)) 7 = a"
  by (simp_all add: ans_def byte_done_bits pull_ack_bits)

text \<open>The port when the device has processed the byte, up to \<open>t\<close>'s own view of the lines.\<close>

lemma shifted_state:
  assumes ready: "port_ready s" and t: "t = sio_process_byte H b (tx_shifted b s)"
    and l: "sio_lines t = ans a v l" "\<not> bit (stat l) 7"
  defines "u \<equiv> sio_handle_shift_complete H (tx_shifted b s)"
  shows "pace u = settle_timing (let p = (pace t)\<lparr>shift_active := False\<rparr> in if a then await_ack 170 True p else p)"
    and "rx_data (sio_lines u) = v" "\<not> bit (stat (sio_lines u)) 7"
    and "pads u = pads t" "card u = card t" "mc_slots u = mc_slots t" "active_device u = active_device t"
    and "sio_ctrl u = sio_ctrl s" "senv u = senv t" "nest u = nest t" "irq_armed u = irq_armed s"
proof -
  have b: "shift_byte (pace (tx_shifted b s)) = b" "shift_ack_irq_en (pace (tx_shifted b s))" "\<not> tx_buffered (pace (tx_shifted b s))"
    using ready by (auto simp: tx_shifted_def tx_started_def start_shift_def own_bus_def Let_def port_ready_def sio_ok_def pace_ok_def)
  have p: "pace t = pace (tx_shifted b s)" "sio_ctrl t = sio_ctrl s" "irq_armed t = irq_armed s"
    using ready by (simp_all add: t process_byte_fields)
  have a: "stat (sio_lines t) AND SIO_STAT_ACK \<noteq> 0 \<longleftrightarrow> a" using l by (simp add: and_bit16 ans_simps)
  show "pace u = settle_timing (let p = (pace t)\<lparr>shift_active := False\<rparr> in if a then await_ack 170 True p else p)"
    unfolding u_def shift_complete_pace b(1) t [symmetric] a using b p by (simp add: shift_done_def Let_def await_ack_def)
  have u: "u = upd_pace settle_timing (set_stat SIO_STAT_TX_IDLE ((if a then upd_pace (\<lambda>p. await_ack SIO_ACK_CYCLES_DEFAULT (shift_ack_irq_en p) p)
      ((set_stat SIO_STAT_RX_RDY (upd_pace (\<lambda>p. p\<lparr>shift_active := False\<rparr>) (clear_stat SIO_STAT_ACK t)))\<lparr>irq_source := irq_source u\<rparr>)
      else (set_stat SIO_STAT_RX_RDY (upd_pace (\<lambda>p. p\<lparr>shift_active := False\<rparr>) (clear_stat SIO_STAT_ACK t)))\<lparr>irq_source := irq_source u\<rparr>)))"
    unfolding u_def sio_handle_shift_complete_def sio_consume_ack_event_def b(1) t [symmetric] Let_def a
    using b p by (simp add: await_ack_def)
  show "rx_data (sio_lines u) = v" using l by (subst u) (simp add: ans_simps)
  show "\<not> bit (stat (sio_lines u)) 7" by (subst u) (simp add: bit_simps u16_bits)
  show "pads u = pads t" "card u = card t" "mc_slots u = mc_slots t" "active_device u = active_device t"
    "sio_ctrl u = sio_ctrl s" "senv u = senv t" "nest u = nest t" "irq_armed u = irq_armed s"
    using p by (subst u; simp)+
qed

lemma read_rx:
  assumes "\<not> irq_armed s" "\<not> ape_pending (nest s)"
  shows "sio_read H 0x1F801040 s = (ucast (rx_data (sio_lines s)), clear_stat SIO_STAT_RX_RDY s)"
  using assms by (simp add: sio_read_def port_tick_quiet)

lemma guard_fields [simp]:
  "senv (sio_arm_card_ct_defer_guard s) = senv s" "ape_pending (nest (sio_arm_card_ct_defer_guard s)) = ape_pending (nest s)"
  "ape_cool_cyc (nest (sio_arm_card_ct_defer_guard s)) = ape_cool_cyc (nest s)"
  by (simp_all add: sio_arm_card_ct_defer_guard_def Let_def)

lemma drop_spu_fields [simp]:
  "nest (drop_spu_stat s) = nest s" "bit (i_stat (senv (drop_spu_stat s))) 7 = bit (i_stat (senv s)) 7"
  "i_mask (senv (drop_spu_stat s)) = i_mask (senv s)"
proof -
  have "bit (w AND NOT (push_bit 9 1) :: u32) 7 = bit w 7" for w by (simp only: bit_and_iff bit_not_iff bit_push_bit_iff) simp
  then show "nest (drop_spu_stat s) = nest s" "bit (i_stat (senv (drop_spu_stat s))) 7 = bit (i_stat (senv s)) 7"
    "i_mask (senv (drop_spu_stat s)) = i_mask (senv s)"
    by (simp_all add: drop_spu_stat_def del: push_bit_numeral push_bit_of_1)
qed

text \<open>An acknowledge with its interrupt enabled, and no earlier one standing.\<close>

lemma fire_raises:
  assumes "pending_ack_irq_en (pace s)" "\<not> bit (i_stat (senv s)) 7"
  defines "t \<equiv> sio_fire_ack_irq s"
  shows "bit (i_stat (senv t)) 7" "pads t = pads s" "card t = card s" "mc_slots t = mc_slots s"
    "active_device t = active_device s" "sio_ctrl t = sio_ctrl s" "ape_pending (nest t) = ape_pending (nest s)"
    "ape_cool_cyc (nest t) = ape_cool_cyc (nest s)"
    "pace t = settle_timing ((pace s)\<lparr>pending_ack_irq_en := False\<rparr>)" "rx_data (sio_lines t) = rx_data (sio_lines s)"
proof -
  let ?s = "show_ack (drop_spu_stat s)"
  define r where "r = raise_sio 0 (upd_pace (\<lambda>p. p\<lparr>pending_ack_irq_en := False\<rparr>) ?s)"
  note v = bus_view_fields [OF repair_views(6) [of s]]
  have i: "\<not> bit (i_stat (senv ?s)) 7" using assms(2) by (simp add: show_ack_def)
  have t: "t = upd_pace settle_timing (if card_ack s then sio_arm_card_ct_defer_guard r else r)"
    using assms(1) i v by (simp add: t_def sio_fire_ack_irq_def Let_def r_def and_bit32 show_ack_def)
  note w = bus_view_fields [OF repair_views(1) [of r]]
  show "bit (i_stat (senv t)) 7" by (simp add: t r_def raise_sio_def bit_or_iff)
  show "pads t = pads s" "card t = card s" "mc_slots t = mc_slots s" "active_device t = active_device s"
    "sio_ctrl t = sio_ctrl s" "ape_pending (nest t) = ape_pending (nest s)" "ape_cool_cyc (nest t) = ape_cool_cyc (nest s)"
    "pace t = settle_timing ((pace s)\<lparr>pending_ack_irq_en := False\<rparr>)" "rx_data (sio_lines t) = rx_data (sio_lines s)"
    using w v by (simp_all add: t r_def raise_sio_def show_ack_def)
qed

lemma settle_fields [simp]:
  "shift_active (settle_timing p) = shift_active p" "pending_ack (settle_timing p) = pending_ack p"
  by (simp_all add: settle_timing_def)

text \<open>The acknowledge in the port and in the controller.\<close>

lemma or_ack_bits: "bit (w OR 0x10 :: u16) n \<longleftrightarrow> bit w n \<or> n = 4"
  by (simp only: bit_or_iff more_u16_bits)

definition acked_ctrl :: "'h sio \<Rightarrow> 'h sio" where
  "acked_ctrl s = ctrl_ack (s\<lparr>sio_ctrl := sio_ctrl s OR SIO_CTRL_ACK\<rparr>)"

lemma ctrl_acks:
  assumes "\<not> irq_armed s" "\<not> ape_pending (nest s)" "bit (sio_ctrl s) 0" "bit (sio_ctrl s) 1" "\<not> bit (sio_ctrl s) 6"
  shows "sio_write H 0x1F80104A (ucast (sio_ctrl s OR SIO_CTRL_ACK)) s = acked_ctrl s"
proof -
  have "write_ctrl H (sio_ctrl s OR SIO_CTRL_ACK) s = acked_ctrl s"
    using assms(3-) by (simp add: write_ctrl_def Let_def and_bit16 or_ack_bits acked_ctrl_def)
  moreover have "sio_tick H 0 (acked_ctrl s) = acked_ctrl s"
    using assms by (intro port_tick_quiet) (simp_all add: acked_ctrl_def ctrl_ack_def)
  ultimately show ?thesis by (simp add: sio_write_def there_back)
qed

lemma acked_ctrl_fields [simp]:
  "pads (acked_ctrl s) = pads s" "card (acked_ctrl s) = card s" "mc_slots (acked_ctrl s) = mc_slots s"
  "active_device (acked_ctrl s) = active_device s" "pace (acked_ctrl s) = pace s" "nest (acked_ctrl s) = nest s"
  "senv (acked_ctrl s) = senv s" "irq_armed (acked_ctrl s) = irq_armed s" "sio_ctrl (acked_ctrl s) = sio_ctrl s OR SIO_CTRL_ACK"
  "\<not> bit (stat (sio_lines (acked_ctrl s))) 7"
proof -
  have "\<not> bit (w AND NOT (SIO_STAT_IRQ OR SIO_STAT_ACK)) 7" for w
    by (simp only: bit_and_iff bit_or_iff bit_not_iff u16_bits) simp
  then show "pads (acked_ctrl s) = pads s" "card (acked_ctrl s) = card s" "mc_slots (acked_ctrl s) = mc_slots s"
    "active_device (acked_ctrl s) = active_device s" "pace (acked_ctrl s) = pace s" "nest (acked_ctrl s) = nest s"
    "senv (acked_ctrl s) = senv s" "irq_armed (acked_ctrl s) = irq_armed s" "sio_ctrl (acked_ctrl s) = sio_ctrl s OR SIO_CTRL_ACK"
    "\<not> bit (stat (sio_lines (acked_ctrl s))) 7"
    by (simp_all add: acked_ctrl_def ctrl_ack_def del: bit_and_iff)
qed

lemma stat_write_clears: "\<not> bit (i_stat (interrupt_write_stat_masked (NOT 0x80) 0xFFFFFFFF e)) 7"
proof -
  have b: "bit (0x7FF :: u32) 7" "bit (0x80 :: u32) 7" by simp_all
  have "i_stat (interrupt_write_stat_masked (NOT 0x80) 0xFFFFFFFF e) =
      (i_stat e AND NOT (0xFFFFFFFF AND 0x7FF)) OR (i_stat e AND NOT 0x80 AND (0xFFFFFFFF AND 0x7FF))"
    by (simp add: interrupt_write_stat_masked_def Let_def)
  moreover have "(0xFFFFFFFF AND 0x7FF :: u32) = 0x7FF" by simp
  ultimately show ?thesis by (simp only: bit_and_iff bit_or_iff bit_not_iff b) simp
qed

text \<open>The time of an acknowledge, from the pacer as the end of the shift left it.\<close>

lemma ack_time:
  fixes H :: "'h sio_host"
  assumes ok: "sio_ok r" "\<not> bit (i_stat (senv r)) 7" and q: "\<not> tx_buffered q" "\<not> pending_ack q"
    and p: "pace r = settle_timing (let p = q\<lparr>shift_active := False\<rparr> in if a then await_ack 170 True p else p)"
  defines "x \<equiv> sio_advance H 170 r"
  shows "bit (i_stat (senv x)) 7 = a \<and> pads x = pads r \<and> card x = card r \<and> mc_slots x = mc_slots r
    \<and> active_device x = active_device r \<and> sio_ctrl x = sio_ctrl r \<and> ape_pending (nest x) = ape_pending (nest r)
    \<and> ape_cool_cyc (nest x) = ape_cool_cyc (nest r)
    \<and> \<not> shift_active (pace x) \<and> \<not> pending_ack (pace x)"
proof (cases a)
  case True
  then have pr: "pace r = await_ack 170 True (q\<lparr>shift_active := False\<rparr>)" by (simp add: p settle_timing_def await_ack_def)
  define y where "y = upd_pace (\<lambda>p. p\<lparr>pending_ack := False\<rparr>) (upd_pace (run_clocks 170) r)"
  have "sio_advance H 170 r = ack_event (upd_pace (run_clocks 170) r)"
    using advance_due [OF ok(1), of 170 170 H] by (simp add: pr await_ack_def overdue_def nearest_def)
  then have xy: "x = sio_fire_ack_irq y" by (simp add: x_def ack_event_def y_def)
  have y: "pending_ack_irq_en (pace y)" "\<not> bit (i_stat (senv y)) 7" using ok(2) by (simp_all add: y_def pr await_ack_def)
  show ?thesis unfolding xy using fire_raises [OF y] True by (simp add: y_def pr await_ack_def)
next
  case False
  then have pr: "\<not> timing_active (pace r)" "\<not> shift_active (pace r)" "\<not> pending_ack (pace r)"
    using q by (simp_all add: p settle_timing_def)
  then have "x = r" by (simp add: x_def sio_advance_def)
  then show ?thesis using False pr ok(2) by simp
qed

text \<open>A byte on a ready port, whatever the device.\<close>

lemma port_byte_step:
  assumes ready: "port_ready s" "\<not> pad_sync_rx H" and t: "t = sio_process_byte H b (tx_shifted b s)"
    and l: "sio_lines t = ans a v l" "\<not> bit (stat l) 7" and e: "senv t = senv s" "\<not> ape_pending (nest t)"
  shows "\<exists>w. port_byte H b s = ((v, a), w) \<and> port_ready w \<and> pads w = pads t \<and> card w = card t
    \<and> mc_slots w = mc_slots t \<and> active_device w = active_device t \<and> sio_ctrl w = sio_ctrl s OR SIO_CTRL_ACK
    \<and> ape_cool_cyc (nest w) = ape_cool_cyc (nest t)"
proof -
  define u where "u = sio_handle_shift_complete H (tx_shifted b s)"
  note u = shifted_state [OF ready(1) t l, folded u_def]
  have ok: "sio_ok s" "\<not> irq_armed s" "bit (sio_ctrl s) 0" "bit (sio_ctrl s) 1" "bit (sio_ctrl s) 12" "\<not> bit (sio_ctrl s) 6"
    "\<not> bit (i_stat (senv s)) 7" using ready by (simp_all add: port_ready_def sio_ok_def)
  have "sio_ok u"
    unfolding u_def shift_ends [OF ready, symmetric] write_starts [OF ready, symmetric] by (rule port_advance_ok [OF write_ok [OF ok(1)]])
  define r where "r = clear_stat SIO_STAT_RX_RDY u"
  have r: "sio_read H 0x1F801040 u = (ucast v, r)" using u ok e by (simp add: read_rx r_def)
  have r_ok: "sio_ok r" using \<open>sio_ok u\<close> by (simp add: r_def)
  have "\<not> tx_buffered (pace t)" "\<not> pending_ack (pace t)"
    using ready by (auto simp: t process_byte_fields tx_shifted_def tx_started_def start_shift_def port_ready_def sio_ok_def pace_ok_def)
  define x where "x = sio_advance H 170 r"
  have x: "bit (i_stat (senv x)) 7 = a" "pads x = pads t" "card x = card t" "mc_slots x = mc_slots t" "active_device x = active_device t"
    "sio_ctrl x = sio_ctrl s" "\<not> ape_pending (nest x)" "\<not> shift_active (pace x)" "\<not> pending_ack (pace x)"
    "ape_cool_cyc (nest x) = ape_cool_cyc (nest t)"
    using ack_time [OF r_ok _ \<open>\<not> tx_buffered (pace t)\<close> \<open>\<not> pending_ack (pace t)\<close>, of a H] u(1) e ok
    by (simp_all add: x_def) (simp_all add: r_def u)
  have x_ok: "sio_ok x" unfolding x_def by (rule port_advance_ok [OF r_ok])
  define w where "w = upd_senv (interrupt_write_stat_masked (NOT 0x80) 0xFFFFFFFF) (acked_ctrl x)"
  have c: "sio_write H 0x1F80104A (ucast (sio_ctrl x OR SIO_CTRL_ACK)) x = acked_ctrl x"
    using x ok x_ok by (intro ctrl_acks) (simp_all add: sio_ok_def)
  then have "port_byte H b s = ((v, a), w)"
    unfolding port_byte_def write_starts [OF ready] shift_ends [OF ready] u_def [symmetric] r Let_def prod.case x_def [symmetric]
    by (simp add: x(1) w_def there_back)
  moreover have "port_ready w"
    using x ok write_ok [OF x_ok, of H "0x1F80104A" "ucast (sio_ctrl x OR SIO_CTRL_ACK)", unfolded c]
    by (simp add: port_ready_def w_def stat_write_clears [simplified] or_ack_bits)
  ultimately show ?thesis using x by (intro exI [of _ w]) (simp add: w_def)
qed

text \<open>
  A byte that is not acknowledged, whatever the repair of nested card interrupts does at its end: the
  answer read back and the state of the card.
\<close>

lemma tick_view: "\<not> irq_armed s \<Longrightarrow> bus_view (sio_tick H 0 s) = bus_view s"
  by (simp add: sio_tick_def legacy_countdown_def)

lemma port_byte_end:
  assumes ready: "port_ready s" "\<not> pad_sync_rx H" and t: "t = sio_process_byte H b (tx_shifted b s)"
    and l: "sio_lines t = ans False v l" "\<not> bit (stat l) 7"
  shows "\<exists>irq w. port_byte H b s = ((v, irq), w) \<and> card w = card t"
proof -
  define u where "u = sio_handle_shift_complete H (tx_shifted b s)"
  note u = shifted_state [OF ready(1) t l, folded u_def]
  have ok: "\<not> irq_armed u" "bit (sio_ctrl s) 0" "bit (sio_ctrl s) 1" "\<not> bit (sio_ctrl s) 6"
    using ready u by (simp_all add: port_ready_def sio_ok_def)
  note f = bus_view_fields [OF tick_view [OF ok(1), of H]]
  define r where "r = clear_stat SIO_STAT_RX_RDY (sio_tick H 0 u)"
  have rd: "sio_read H 0x1F801040 u = (ucast v, r)" using u f by (simp add: sio_read_def r_def)
  have "\<not> tx_buffered (pace t)" "\<not> pending_ack (pace t)"
    using ready by (auto simp: t process_byte_fields tx_shifted_def tx_started_def start_shift_def port_ready_def sio_ok_def pace_ok_def)
  then have r: "\<not> timing_active (pace r)" "card r = card t" "sio_ctrl r = sio_ctrl s" "\<not> irq_armed r"
    using u f ok by (simp_all add: r_def settle_timing_def)
  have x: "sio_advance H 170 r = r" using r(1) by (simp add: sio_advance_def)
  have "write_ctrl H (sio_ctrl r OR SIO_CTRL_ACK) r = acked_ctrl r"
    using ok r by (simp add: write_ctrl_def Let_def and_bit16 or_ack_bits acked_ctrl_def)
  then have w: "sio_write H 0x1F80104A (ucast (sio_ctrl r OR SIO_CTRL_ACK)) r = sio_tick H 0 (acked_ctrl r)"
    by (simp add: sio_write_def there_back)
  have "card (sio_tick H 0 (acked_ctrl r)) = card t" using bus_view_fields(3) [OF tick_view, of "acked_ctrl r" H] r by simp
  then show ?thesis
    unfolding port_byte_def write_starts [OF ready] shift_ends [OF ready] u_def [symmetric] rd Let_def prod.case x w
    by (simp add: there_back)
qed

subsection \<open>The pads through the port\<close>

text \<open>A state whose lines are \<open>l\<close> answering with \<open>v\<close>, acknowledged or not, for every \<open>l\<close>.\<close>

definition pad_answers :: "(pad_bus \<Rightarrow> pad_bus) \<Rightarrow> pad_bus \<Rightarrow> bool \<Rightarrow> u8 \<Rightarrow> pad_bus \<Rightarrow> bool" where
  "pad_answers f s a v q \<longleftrightarrow> (\<forall>l. f (s\<lparr>pad_lines := l\<rparr>) = q\<lparr>pad_lines := (if a then pull_ack (put_rx v l) else put_rx v l)\<rparr>)"

lemma fields_blind:
  "selected_is_mtap_port (s\<lparr>pad_lines := l\<rparr>) = selected_is_mtap_port s"
  "mtap_slot_a_logical (s\<lparr>pad_lines := l\<rparr>) = mtap_slot_a_logical s"
  "in_players i (s\<lparr>pad_lines := l\<rparr>) = in_players i s" "is_connected i (s\<lparr>pad_lines := l\<rparr>) = is_connected i s"
  "pad_id k (s\<lparr>pad_lines := l\<rparr>) = pad_id k s" "button_bytes k (s\<lparr>pad_lines := l\<rparr>) = button_bytes k s"
  "stick_bytes k (s\<lparr>pad_lines := l\<rparr>) = stick_bytes k s" "live_canned k c (s\<lparr>pad_lines := l\<rparr>) = live_canned k c s"
  "settles (s\<lparr>pad_lines := l\<rparr>) = settles s"
  "sio_multitap_active (s\<lparr>pad_lines := l\<rparr>) = sio_multitap_active s" "sio_dual_multitap (s\<lparr>pad_lines := l\<rparr>) = sio_dual_multitap s"
  "mtap_standalone_logical (s\<lparr>pad_lines := l\<rparr>) = mtap_standalone_logical s"
  by (simp_all add: selected_is_mtap_port_def sio_multitap_active_def sio_dual_multitap_def mtap_slot_a_logical_def in_players_def
      is_connected_def pad_id_def button_bytes_def stick_bytes_def live_canned_def settles_def fun_eq_iff mtap_standalone_logical_def)

lemma pads_of_lines:
  "players (s\<lparr>pad_lines := l\<rparr>) = players s"
  "pad_buttons (s\<lparr>pad_lines := l\<rparr>) = pad_buttons s"
  "pad_analog (s\<lparr>pad_lines := l\<rparr>) = pad_analog s"
  "pad_stick (s\<lparr>pad_lines := l\<rparr>) = pad_stick s"
  "pad_rumble_map (s\<lparr>pad_lines := l\<rparr>) = pad_rumble_map s"
  "pad_rumble_small (s\<lparr>pad_lines := l\<rparr>) = pad_rumble_small s"
  "pad_rumble_large (s\<lparr>pad_lines := l\<rparr>) = pad_rumble_large s"
  "analog_mode_locked (s\<lparr>pad_lines := l\<rparr>) = analog_mode_locked s"
  "pad_connected (s\<lparr>pad_lines := l\<rparr>) = pad_connected s"
  "multitap_enabled (s\<lparr>pad_lines := l\<rparr>) = multitap_enabled s"
  "multitap_port (s\<lparr>pad_lines := l\<rparr>) = multitap_port s"
  "multitap_analog_hack (s\<lparr>pad_lines := l\<rparr>) = multitap_analog_hack s"
  "pad_state (s\<lparr>pad_lines := l\<rparr>) = pad_state s"
  "selected_slot (s\<lparr>pad_lines := l\<rparr>) = selected_slot s"
  "pad_active_logical (s\<lparr>pad_lines := l\<rparr>) = pad_active_logical s"
  "pad_response (s\<lparr>pad_lines := l\<rparr>) = pad_response s"
  "pad_response_len (s\<lparr>pad_lines := l\<rparr>) = pad_response_len s"
  "pad_response_idx (s\<lparr>pad_lines := l\<rparr>) = pad_response_idx s"
  "pad_current_cmd (s\<lparr>pad_lines := l\<rparr>) = pad_current_cmd s"
  "pad_mtap_addr (s\<lparr>pad_lines := l\<rparr>) = pad_mtap_addr s"
  "mtap_next_mode (s\<lparr>pad_lines := l\<rparr>) = mtap_next_mode s"
  "mtap_req_this (s\<lparr>pad_lines := l\<rparr>) = mtap_req_this s"
  "mtap_returned (s\<lparr>pad_lines := l\<rparr>) = mtap_returned s"
  "pad_in_config (s\<lparr>pad_lines := l\<rparr>) = pad_in_config s"
  "pad_supports_config (s\<lparr>pad_lines := l\<rparr>) = pad_supports_config s"
  "pad_type_req (s\<lparr>pad_lines := l\<rparr>) = pad_type_req s"
  "pad_legacy_cfg (s\<lparr>pad_lines := l\<rparr>) = pad_legacy_cfg s"
  by simp_all

lemma frames_blind:
  "pad_port_has_device i (s\<lparr>pad_lines := l\<rparr>) = pad_port_has_device i s"
  "pad_logical_for_port i (s\<lparr>pad_lines := l\<rparr>) = pad_logical_for_port i s"
  "pad_fill_status8 i (s\<lparr>pad_lines := l\<rparr>) = pad_fill_status8 i s"
  "poll_frame k b (s\<lparr>pad_lines := l\<rparr>) = poll_frame k b s" "toggle_frame k (s\<lparr>pad_lines := l\<rparr>) = toggle_frame k s"
  "config_frame k tx (s\<lparr>pad_lines := l\<rparr>) = config_frame k tx s" "garbage_id (s\<lparr>pad_lines := l\<rparr>) = garbage_id s"
  by (simp_all only: fields_blind pad_port_has_device_def pad_logical_for_port_def pad_fill_status8_def poll_frame_def
      toggle_frame_def config_frame_def garbage_id_def Let_def pads_of_lines cong: if_cong)

lemma command_blind: "command_frame tx (s\<lparr>pad_lines := l\<rparr>) = command_frame tx s"
  by (simp only: fields_blind frames_blind command_frame_def Let_def pads_of_lines cong: if_cong)

lemma steps_blind:
  "commanded tx (s\<lparr>pad_lines := l\<rparr>) = (commanded tx s)\<lparr>pad_lines := l\<rparr>"
  "set_returned m (s\<lparr>pad_lines := l\<rparr>) = (set_returned m s)\<lparr>pad_lines := l\<rparr>"
  "apply_requests (s\<lparr>pad_lines := l\<rparr>) = (apply_requests s)\<lparr>pad_lines := l\<rparr>"
  unfolding commanded_def set_returned_def apply_requests_def fields_blind
  unfolding pads_of_lines by simp_all

lemmas lines_blind = fields_blind frames_blind command_blind steps_blind

lemma answers_select: "\<exists>a v q. pad_answers (pad_select tx) s a v q"
proof -
  have ack: "pad_answers (\<lambda>s. pad_ack (pad_rx 0xFF (f s))) s True 0xFF (f s)"
    if "\<And>l. f (s\<lparr>pad_lines := l\<rparr>) = (f s)\<lparr>pad_lines := l\<rparr>" for f
    using that by (simp add: pad_answers_def pad_ack_def pad_rx_def)
  have plain: "pad_answers (pad_rx 0xFF) s False 0xFF s" by (simp add: pad_answers_def pad_rx_def)
  show ?thesis
    unfolding pad_answers_def pad_select_def lines_blind
    by (simp add: pad_ack_def pad_rx_def lines_blind) (metis)
qed

text \<open>The frame and high-impedance answers, and the states the steps put under them.\<close>

lemma answers_plain:
  "pad_answers hi_z s False 0xFF (pad_end s)"
  "pad_answers (send_frame bs) s True (load_bytes bs (pad_response s) 0)
     (s\<lparr>pad_response := load_bytes bs (pad_response s), pad_response_len := length bs, pad_state := PAD_SEND_RESPONSE\<rparr>)"
  by (simp_all add: pad_answers_def hi_z_def pad_end_def pad_rx_def send_frame_def pad_ack_def Let_def)

lemma answers_returned: "pad_answers f s a v q \<Longrightarrow> pad_answers (\<lambda>s. set_returned m (f s)) s a v (set_returned m q)"
  by (simp add: pad_answers_def steps_blind)

lemma answers_command: "\<exists>a v q. pad_answers (pad_command tx) s a v q"
proof (cases "command_frame tx s")
  case None
  then have "pad_answers (pad_command tx) s False 0xFF (pad_end s)"
    using answers_plain(1) [of s] by (simp add: pad_answers_def pad_command_def command_blind)
  then show ?thesis by blast
next
  case (Some bs)
  then have "pad_command tx (s\<lparr>pad_lines := l\<rparr>) = send_frame bs (s\<lparr>pad_lines := l\<rparr>)" for l
    by (simp add: pad_command_def command_blind)
  then have "pad_answers (pad_command tx) s = pad_answers (send_frame bs) s" by (simp add: fun_eq_iff pad_answers_def)
  then show ?thesis using answers_plain(2) [of bs s] by auto
qed

lemma answers_wait_access: "\<exists>a v q. pad_answers (pad_wait_access tx) s a v q"
proof -
  define c where "c = commanded tx s"
  define tap where "tap = (selected_is_mtap_port c \<and> pad_mtap_addr c = 0x01 \<and> tx = 0x42)"
  define mode where "mode = mtap_next_mode c (selected_slot c)"
  define bulk where "bulk = [0x80, 0x5A] @ concat (map (\<lambda>i. pad_fill_status8 (mtap_slot_a_logical c + int i) c) [0..<4])"
  have w: "pad_wait_access tx (s\<lparr>pad_lines := l\<rparr>) =
      (if tap \<and> mode = MTAP_NEXT_BULK then set_returned MTAP_NEXT_BULK (send_frame bulk (c\<lparr>pad_lines := l\<rparr>))
       else if tap \<and> mode = MTAP_NEXT_GARBAGE
       then set_returned MTAP_NEXT_GARBAGE (send_frame [0x80, 0x5A, garbage_id c] (c\<lparr>pad_lines := l\<rparr>))
       else pad_command tx ((if tap then set_returned MTAP_NEXT_SLOT_A c else c)\<lparr>pad_lines := l\<rparr>))" for l
    unfolding pad_wait_access_def Let_def steps_blind(1) c_def [symmetric] lines_blind pads_of_lines
      tap_def [symmetric] mode_def [symmetric] bulk_def [symmetric]
    by (simp add: steps_blind)
  consider "tap \<and> mode = MTAP_NEXT_BULK" | "tap \<and> mode = MTAP_NEXT_GARBAGE"
    | "\<not> (tap \<and> mode = MTAP_NEXT_BULK)" "\<not> (tap \<and> mode = MTAP_NEXT_GARBAGE)" by blast
  then show ?thesis
  proof cases
    case 1
    then show ?thesis using answers_returned [OF answers_plain(2) [of bulk c]] unfolding pad_answers_def w by auto
  next
    case 2
    then show ?thesis using answers_returned [OF answers_plain(2) [of "[0x80, 0x5A, garbage_id c]" c]]
      unfolding pad_answers_def w by auto
  next
    case 3
    show ?thesis using answers_command [of tx "if tap then set_returned MTAP_NEXT_SLOT_A c else c"]
      unfolding pad_answers_def w if_not_P [OF 3(1)] if_not_P [OF 3(2)] .
  qed
qed

lemma answers_respond: "\<exists>a v q. pad_answers (pad_respond tx) s a v q"
proof -
  let ?n = "latches tx s" and ?i = "pad_response_idx s"
  have r: "pad_respond tx (s\<lparr>pad_lines := l\<rparr>) = next_byte (?n\<lparr>pad_lines := l\<rparr>)" for l
    using latches_lines [where tx = tx and s = s and l = l] by (simp add: pad_respond_def latches_def)
  consider "?i + 1 < pad_response_len s" | "?i < pad_response_len s" "\<not> ?i + 1 < pad_response_len s" | "\<not> ?i < pad_response_len s"
    by linarith
  then show ?thesis
  proof cases
    case 1
    then have "pad_answers (pad_respond tx) s True (pad_response s ?i) (?n\<lparr>pad_response_idx := ?i + 1\<rparr>)"
      by (simp add: pad_answers_def r next_byte_def Let_def pad_rx_def pad_ack_def)
    then show ?thesis by blast
  next
    case 2
    then have "pad_answers (pad_respond tx) s False (pad_response s ?i) (pad_end (mtap_finish_42 (?n\<lparr>pad_response_idx := ?i + 1\<rparr>)))"
      using finish_rx [where s = "?n\<lparr>pad_response_idx := ?i + 1\<rparr>"] by (simp add: pad_answers_def r next_byte_def Let_def pad_rx_def pad_end_lines)
    then show ?thesis by blast
  next
    case 3
    then have "pad_answers (pad_respond tx) s False 0xFF (pad_end (mtap_finish_42 ?n))"
      using finish_rx [where s = ?n] by (simp add: pad_answers_def r next_byte_def Let_def pad_rx_def hi_z_def pad_end_lines)
    then show ?thesis by blast
  qed
qed

lemma pad_process_answers: "\<exists>a v q. \<forall>l. pad_process_byte tx (s\<lparr>pad_lines := l\<rparr>) = q\<lparr>pad_lines := ans a v l\<rparr>"
proof -
  have "\<exists>a v q. pad_answers (pad_body tx) s a v q"
  proof (cases "pad_state s")
    case PAD_IDLE
    obtain a v q where "pad_answers (pad_select tx) (apply_requests s) a v q" using answers_select by blast
    then have "pad_answers (pad_body tx) s a v q" using PAD_IDLE by (simp add: pad_answers_def pad_body_def steps_blind)
    then show ?thesis by blast
  next
    case PAD_WAIT_ACCESS
    then show ?thesis using answers_wait_access [of tx s] by (simp add: pad_answers_def pad_body_def)
  next
    case PAD_SEND_RESPONSE
    then show ?thesis using answers_respond [of tx s] by (simp add: pad_answers_def pad_body_def)
  qed
  then obtain a v q where "pad_answers (pad_body tx) s a v q" by blast
  then have "\<forall>l. pad_process_byte tx (s\<lparr>pad_lines := l\<rparr>) = q\<lparr>pad_lines := ans a v l\<rparr>"
    by (simp add: pad_answers_def pad_process_body Let_def ans_def)
  then show ?thesis by blast
qed

lemma settled_ans: "\<not> bit (stat l) 7 \<Longrightarrow> stat (ans a v l) AND NOT SIO_STAT_ACK = settled (stat l)"
  using settle_done [of "put_rx v l"] settle_done [of "pull_ack (put_rx v l)"] by (simp add: ans_def settled_pull)

lemma pad_exchange_answers:
  assumes "\<forall>l. pad_process_byte tx (s\<lparr>pad_lines := l\<rparr>) = q\<lparr>pad_lines := ans a v l\<rparr>" "\<not> bit (stat l) 7"
  shows "pad_exchange tx (s\<lparr>pad_lines := l\<rparr>) = ((v, a), q\<lparr>pad_lines := \<lparr>rx_data = v, stat = settled (stat l)\<rparr>\<rparr>)"
  using assms(1) [rule_format, of l] ans_simps(2) [OF assms(2), of a v] settled_ans [OF assms(2), of a v]
  by (simp add: pad_exchange_def Let_def and_bit16 ans_simps)

text \<open>A byte that reaches the pads.\<close>

lemma port_byte_pad:
  assumes ready: "port_ready s" "\<not> pad_sync_rx H" and l: "\<not> bit (stat l) 7"
    and p: "sio_process_byte H tx (tx_shifted tx s) = pad_byte tx c" "senv c = senv s" "\<not> ape_pending (nest c)"
      "sio_lines c = sio_lines (tx_shifted tx s)" "active_device c = DEV_PAD"
  shows "\<exists>w l'. port_byte H tx s = (fst (pad_exchange tx ((pads c)\<lparr>pad_lines := l\<rparr>)), w) \<and> port_ready w
    \<and> active_device w = DEV_PAD \<and> card w = card c \<and> mc_slots w = mc_slots c \<and> \<not> bit (stat l') 7
    \<and> snd (pad_exchange tx ((pads c)\<lparr>pad_lines := l\<rparr>)) = (pads w)\<lparr>pad_lines := l'\<rparr>"
proof -
  obtain a v q where q: "\<forall>l. pad_process_byte tx ((pads c)\<lparr>pad_lines := l\<rparr>) = q\<lparr>pad_lines := ans a v l\<rparr>"
    using pad_process_answers by blast
  define t where "t = sio_process_byte H tx (tx_shifted tx s)"
  have t: "t = c\<lparr>pads := q\<lparr>pad_lines := ans a v (sio_lines c)\<rparr>, sio_lines := ans a v (sio_lines c)\<rparr>"
    using q by (simp add: t_def p(1) pad_byte_def Let_def)
  have "\<not> bit (stat (sio_lines c)) 7" using ready p(4) by (simp add: port_ready_def bit_and_iff)
  then obtain w where w: "port_byte H tx s = ((v, a), w)" "port_ready w" "pads w = pads t" "card w = card t"
      "mc_slots w = mc_slots t" "active_device w = active_device t"
    using port_byte_step [OF ready t_def, of a v "sio_lines c"] p t by auto
  show ?thesis
    unfolding pad_exchange_answers [OF q l]
    by (rule exI [of _ w], rule exI [of _ "\<lparr>rx_data = v, stat = settled (stat l)\<rparr>"])
      (use w p in \<open>simp add: t settled_bits\<close>)
qed

lemma port_runs_pad:
  assumes "port_ready s" "\<not> pad_sync_rx H" "active_device s = DEV_PAD" "\<not> bit (stat l) 7"
  shows "\<exists>t l'. port_bytes H txs s = (fst (pad_exchanges txs ((pads s)\<lparr>pad_lines := l\<rparr>)), t) \<and> port_ready t
    \<and> active_device t = DEV_PAD \<and> card t = card s \<and> mc_slots t = mc_slots s \<and> \<not> bit (stat l') 7
    \<and> snd (pad_exchanges txs ((pads s)\<lparr>pad_lines := l\<rparr>)) = (pads t)\<lparr>pad_lines := l'\<rparr>"
  using assms(1,3,4)
proof (induction txs arbitrary: s l)
  case Nil
  then show ?case by auto
next
  case (Cons tx txs)
  have "sio_process_byte H tx (tx_shifted tx s) = pad_byte tx (tx_shifted tx s)"
    using Cons.prems by (simp add: sio_process_byte_def)
  then obtain w l' where w: "port_byte H tx s = (fst (pad_exchange tx ((pads s)\<lparr>pad_lines := l\<rparr>)), w)" "port_ready w"
      "active_device w = DEV_PAD" "card w = card s" "mc_slots w = mc_slots s" "\<not> bit (stat l') 7"
      "snd (pad_exchange tx ((pads s)\<lparr>pad_lines := l\<rparr>)) = (pads w)\<lparr>pad_lines := l'\<rparr>"
    using port_byte_pad [OF Cons.prems(1) assms(2) Cons.prems(3), of tx "tx_shifted tx s"] Cons.prems
    by (auto simp: port_ready_def)
  obtain r where r: "pad_exchange tx ((pads s)\<lparr>pad_lines := l\<rparr>) = (r, (pads w)\<lparr>pad_lines := l'\<rparr>)"
    using w(7) by (cases "pad_exchange tx ((pads s)\<lparr>pad_lines := l\<rparr>)") simp
  obtain t l2 where t: "port_bytes H txs w = (fst (pad_exchanges txs ((pads w)\<lparr>pad_lines := l'\<rparr>)), t)" "port_ready t"
      "active_device t = DEV_PAD" "card t = card w" "mc_slots t = mc_slots w" "\<not> bit (stat l2) 7"
      "snd (pad_exchanges txs ((pads w)\<lparr>pad_lines := l'\<rparr>)) = (pads t)\<lparr>pad_lines := l2\<rparr>"
    using Cons.IH [OF w(2,3,6)] by blast
  show ?case
    by (rule exI [of _ t], rule exI [of _ l2]) (use w t r in \<open>simp add: Let_def split_beta\<close>)
qed

text \<open>
  C1. The pads through the registers. On a ready port with no device addressed and no card transaction
  under way, a guest that sends the pad address and any bytes after it, each through the transmit
  register, reads back from the receive register exactly the answers the pad protocol gives on the
  slot the control register selects, sees the interrupt raised after exactly the acknowledged bytes,
  and leaves the port ready, the cards untouched, and the pads in the protocol's state.
\<close>

theorem port_implements_pads:
  assumes "port_ready s" "\<not> pad_sync_rx H" "active_device s = DEV_NONE" "mc_now s = MC_IDLE"
  shows "\<exists>t l. port_bytes H (0x01 # txs) s =
        (fst (pad_exchanges (0x01 # txs)
           ((pads s)\<lparr>selected_slot := (if sio_ctrl s AND SIO_CTRL_SLOT \<noteq> 0 then 1 else 0), pad_lines := sio_lines s\<rparr>)), t)
    \<and> port_ready t \<and> card t = card s \<and> mc_slots t = mc_slots s
    \<and> snd (pad_exchanges (0x01 # txs)
           ((pads s)\<lparr>selected_slot := (if sio_ctrl s AND SIO_CTRL_SLOT \<noteq> 0 then 1 else 0), pad_lines := sio_lines s\<rparr>))
        = (pads t)\<lparr>pad_lines := l\<rparr>"
proof -
  let ?c = "(select_slot (tx_shifted 0x01 s))\<lparr>active_device := DEV_PAD\<rparr>"
  let ?p = "(pads s)\<lparr>selected_slot := (if sio_ctrl s AND SIO_CTRL_SLOT \<noteq> 0 then 1 else 0)\<rparr>"
  have l: "\<not> bit (stat (sio_lines s)) 7" using assms(1) by (simp add: port_ready_def)
  have c: "pads ?c = ?p" "card ?c = card s" "mc_slots ?c = mc_slots s" "senv ?c = senv s"
    "ape_pending (nest ?c) = ape_pending (nest s)" "sio_lines ?c = sio_lines (tx_shifted 0x01 s)" "active_device ?c = DEV_PAD"
    by (simp_all add: select_slot_def)
  have "sio_process_byte H 0x01 (tx_shifted 0x01 s) = pad_byte 0x01 ?c"
    using assms(3,4) by (simp add: sio_process_byte_def byte_unselected_def select_slot_def Let_def)
  from port_byte_pad [OF assms(1,2) l this] obtain w l' where
      w: "port_byte H 0x01 s = (fst (pad_exchange 0x01 (?p\<lparr>pad_lines := sio_lines s\<rparr>)), w)" "port_ready w"
      "active_device w = DEV_PAD" "card w = card s" "mc_slots w = mc_slots s" "\<not> bit (stat l') 7"
      "snd (pad_exchange 0x01 (?p\<lparr>pad_lines := sio_lines s\<rparr>)) = (pads w)\<lparr>pad_lines := l'\<rparr>"
    unfolding c using assms(1) by (auto simp: port_ready_def)
  obtain r where r: "pad_exchange 0x01 (?p\<lparr>pad_lines := sio_lines s\<rparr>) = (r, (pads w)\<lparr>pad_lines := l'\<rparr>)"
    using w(7) by (cases "pad_exchange 0x01 (?p\<lparr>pad_lines := sio_lines s\<rparr>)") simp
  obtain t l2 where t: "port_bytes H txs w = (fst (pad_exchanges txs ((pads w)\<lparr>pad_lines := l'\<rparr>)), t)" "port_ready t"
      "card t = card w" "mc_slots t = mc_slots w"
      "snd (pad_exchanges txs ((pads w)\<lparr>pad_lines := l'\<rparr>)) = (pads t)\<lparr>pad_lines := l2\<rparr>"
    using port_runs_pad [OF w(2) assms(2) w(3,6)] by blast
  show ?thesis
    by (rule exI [of _ t], rule exI [of _ l2]) (use w t r in \<open>simp add: Let_def split_beta\<close>)
qed

lemma demo_ready: "port_ready demo_sio"
  using demo_ok by (simp add: port_ready_def) (simp add: demo_sio_def irq_power_on_def)

theorem port_implements_pads_witness:
  "\<exists>t. port_bytes demo_host (0x01 # [0x42, 0, 0, 0]) demo_sio =
    (fst (pad_exchanges (0x01 # [0x42, 0, 0, 0]) (demo_pads\<lparr>selected_slot := 0, pad_lines := \<lparr>rx_data = 0xFF, stat = 5\<rparr>\<rparr>)), t)
    \<and> port_ready t"
proof -
  have d: "\<not> pad_sync_rx demo_host" "active_device demo_sio = DEV_NONE" "mc_now demo_sio = MC_IDLE"
    "sio_ctrl demo_sio AND SIO_CTRL_SLOT = 0" "pads demo_sio = demo_pads" "sio_lines demo_sio = \<lparr>rx_data = 0xFF, stat = 5\<rparr>"
    by (simp_all add: demo_host_def demo_sio_def demo_bus_def mc_reset_def)
  show ?thesis
    using port_implements_pads [OF demo_ready d(1,2,3), of "[0x42, 0, 0, 0]"] d(4-6)
    by (auto simp del: port_bytes.simps pad_exchanges.simps)
qed

subsection \<open>The card through the port\<close>

lemma load_blind: "load_sector (c\<lparr>lines := l, mc := m\<rparr>) = load_sector (c\<lparr>mc := m\<rparr>)"
  by (simp add: load_sector_def fun_eq_iff split: option.split)

lemma mc_step_answers:
  "\<exists>a v q. \<forall>l. mc_step fs sel tx (c\<lparr>lines := l\<rparr>) = q\<lparr>lines := (if a then pull_ack (put_rx v l) else put_rx v l)\<rparr>"
proof -
  let ?d = "mc_step fs sel tx (c\<lparr>lines := \<lparr>rx_data = 0, stat = 0\<rparr>\<rparr>)"
  have "\<forall>l. mc_step fs sel tx (c\<lparr>lines := l\<rparr>) = ?d\<lparr>lines := (if bit (stat (lines ?d)) 7
      then pull_ack (put_rx (rx_data (lines ?d)) l) else put_rx (rx_data (lines ?d)) l)\<rparr>"
    by (cases "mc_state (mc c)") (simp_all add: mc_steps load_blind pull_ack_bits)
  then show ?thesis by blast
qed


lemma card_process_answers:
  "\<exists>a v q. \<forall>l. mc_process_byte fs sel tx (c\<lparr>lines := l\<rparr>) = q\<lparr>lines := ans a v l\<rparr>"
proof -
  obtain a v q where "\<forall>l. mc_step fs sel tx (c\<lparr>lines := l\<rparr>) = q\<lparr>lines := (if a then pull_ack (put_rx v l) else put_rx v l)\<rparr>"
    using mc_step_answers by blast
  then have "\<forall>l. mc_process_byte fs sel tx (c\<lparr>lines := l\<rparr>) = q\<lparr>lines := ans a v l\<rparr>"
    by (simp add: mc_process_byte_def Let_def ans_def)
  then show ?thesis by blast
qed

lemma exchange_answers:
  assumes "\<forall>l. mc_process_byte fs sel tx (c\<lparr>lines := l\<rparr>) = q\<lparr>lines := ans a v l\<rparr>" "\<not> bit (stat l) 7"
  shows "exchange fs sel tx (c\<lparr>lines := l\<rparr>) = ((v, a), q\<lparr>lines := \<lparr>rx_data = v, stat = settled (stat l)\<rparr>\<rparr>)"
  using assms(1) [rule_format, of l] ans_simps(2) [OF assms(2), of a v] settled_ans [OF assms(2), of a v]
  by (simp add: exchange_def Let_def and_bit16 ans_simps)

text \<open>
  The repair of nested card interrupts (on unless an environment variable switches it off) finds
  nothing to do: it is off, or the two guest words it looks at show a card library that is idle or has
  published its result. It has then never pulsed the interrupt.
\<close>

definition repair_idle :: "'h sio_host \<Rightarrow> bool" where
  "repair_idle H \<longleftrightarrow> (ape_unstick_enabled H \<longrightarrow> guest_word H 0x800B4E38 \<noteq> 0 \<or> guest_word H 0x800A6C10 AND 0x80000000 \<noteq> 0)"

definition repair_quiet :: "'h sio_host \<Rightarrow> 'h sio \<Rightarrow> bool" where
  "repair_quiet H s \<longleftrightarrow> repair_idle H \<and> (ape_unstick_enabled H \<longrightarrow> ape_cool_cyc (nest s) = 0)"

lemma unstick_idle: "repair_idle H \<Longrightarrow> senv (ape_card_unstick_maybe H s) = senv s"
  by (auto simp: ape_card_unstick_maybe_def repair_idle_def Let_def)

lemma close_idle: "repair_idle H \<Longrightarrow> senv (txn_close H r s) = senv s"
  by (auto simp: txn_close_def repair_idle_def Let_def unstick_idle)

lemma close_quiet:
  assumes "repair_quiet H s"
  shows "\<not> ape_pending (nest s) \<Longrightarrow> \<not> ape_pending (nest (txn_close H r s))"
    and "ape_cool_cyc (nest (txn_close H r s)) = ape_cool_cyc (nest s)"
  using assms by (auto simp: txn_close_def ape_card_unstick_maybe_def repair_quiet_def repair_idle_def Let_def)

lemma record_fields:
  "senv (txn_record_byte tx s) = senv s" "ape_pending (nest (txn_record_byte tx s)) = ape_pending (nest s)"
  "ape_cool_cyc (nest (txn_record_byte tx s)) = ape_cool_cyc (nest s)"
  by (simp_all add: txn_record_byte_def)

lemma card_byte_fields:
  "senv (card_byte H tx s) = senv s" "nest (card_byte H tx s) = nest s" "active_device (card_byte H tx s) = active_device s"
  "pads (card_byte H tx s) = pads s" "sio_ctrl (card_byte H tx s) = sio_ctrl s" "mc_slots (card_byte H tx s) = mc_slots s"
  by (simp_all add: card_byte_def Let_def)

lemma card_txn_fields:
  "card (card_txn_byte H tx s) = card (card_byte H tx s)" "sio_lines (card_txn_byte H tx s) = sio_lines (card_byte H tx s)"
  "active_device (card_txn_byte H tx s) = active_device s" "pads (card_txn_byte H tx s) = pads s"
  "sio_ctrl (card_txn_byte H tx s) = sio_ctrl s" "mc_slots (card_txn_byte H tx s) = mc_slots s"
  by (simp_all add: card_txn_byte_def Let_def card_byte_fields bus_view_fields [OF close_views]
      bus_view_fields [OF repair_views(5)])

text \<open>A byte after which the card is still busy does not close the transaction, so the repair does not run.\<close>

lemma card_txn_repair:
  assumes "mc_now (card_byte H tx s) \<noteq> MC_IDLE \<or> repair_quiet H s"
  shows "senv (card_txn_byte H tx s) = senv s" "\<not> ape_pending (nest s) \<Longrightarrow> \<not> ape_pending (nest (card_txn_byte H tx s))"
    "ape_cool_cyc (nest (card_txn_byte H tx s)) = ape_cool_cyc (nest s)"
proof -
  let ?r = "txn_record_byte tx (card_byte H tx s)"
  have n: "mc_now ?r = mc_now (card_byte H tx s)" by (simp add: bus_view_fields(3) [OF repair_views(5)])
  have q: "repair_quiet H ?r" "repair_idle H" if "mc_now ?r = MC_IDLE"
    using assms that by (auto simp: n repair_quiet_def record_fields card_byte_fields)
  show "senv (card_txn_byte H tx s) = senv s" "\<not> ape_pending (nest s) \<Longrightarrow> \<not> ape_pending (nest (card_txn_byte H tx s))"
    "ape_cool_cyc (nest (card_txn_byte H tx s)) = ape_cool_cyc (nest s)"
    using q by (auto simp: card_txn_byte_def Let_def close_idle close_quiet record_fields card_byte_fields)
qed

text \<open>A byte the card acknowledges leaves its protocol running.\<close>

lemma step_busy:
  "\<not> bit (stat (lines c)) 7 \<Longrightarrow> bit (stat (lines (mc_step fs sel tx c))) 7 \<Longrightarrow> mc_state (mc (mc_step fs sel tx c)) \<noteq> MC_IDLE"
  by (cases "mc_state (mc c)") (auto simp: mc_steps split: if_splits)

lemma exchange_busy:
  assumes "exchange fs sel tx c = ((v, True), d)" "\<not> bit (stat (lines c)) 7"
  shows "mc_state (mc d) \<noteq> MC_IDLE"
proof -
  have "bit (stat (lines (mc_step fs sel tx c))) 7" "mc d = mc (mc_step fs sel tx c)"
    using assms(1) by (auto simp: exchange_def mc_process_byte_def Let_def and_bit16 byte_done_bits)
  then show ?thesis using step_busy [OF assms(2)] by simp
qed

definition acked_so_far :: "(u8 \<times> bool) list \<Rightarrow> bool" where
  "acked_so_far rs \<longleftrightarrow> (\<forall>r \<in> set (butlast rs). snd r)"

lemma acked_rest:
  assumes "acked_so_far (r # fst (exchanges fs sel txs c))"
  shows "acked_so_far (fst (exchanges fs sel txs c))" "txs \<noteq> [] \<longrightarrow> snd r"
  using assms by (cases txs; auto simp: acked_so_far_def split_beta Let_def)+

text \<open>A byte that reaches the card: acknowledged, or with the repair quiet; and any.\<close>

lemma port_byte_card:
  assumes ready: "port_ready s" "\<not> pad_sync_rx H" and l: "\<not> bit (stat l) 7"
    and p: "sio_process_byte H tx (tx_shifted tx s) = card_txn_byte H tx c" "senv c = senv s" "\<not> ape_pending (nest c)"
      "ape_cool_cyc (nest c) = ape_cool_cyc (nest s)" "sio_lines c = sio_lines (tx_shifted tx s)" "active_device c = DEV_MEMCARD"
    and a: "snd (fst (exchange (files H) (selected_slot (pads c)) tx ((card c)\<lparr>lines := l\<rparr>))) \<or> repair_quiet H s"
  shows "\<exists>w l'. port_byte H tx s = (fst (exchange (files H) (selected_slot (pads c)) tx ((card c)\<lparr>lines := l\<rparr>)), w)
    \<and> port_ready w \<and> active_device w = DEV_MEMCARD \<and> pads w = pads c \<and> \<not> bit (stat l') 7
    \<and> snd (exchange (files H) (selected_slot (pads c)) tx ((card c)\<lparr>lines := l\<rparr>)) = (card w)\<lparr>lines := l'\<rparr>
    \<and> ape_cool_cyc (nest w) = ape_cool_cyc (nest s)"
proof -
  obtain a v q where q: "\<forall>l. mc_process_byte (files H) (selected_slot (pads c)) tx ((card c)\<lparr>lines := l\<rparr>) = q\<lparr>lines := ans a v l\<rparr>"
    using card_process_answers by blast
  note ex = exchange_answers [OF q l]
  define t where "t = sio_process_byte H tx (tx_shifted tx s)"
  have cb: "card (card_byte H tx c) = q\<lparr>lines := ans a v (sio_lines c)\<rparr>" "sio_lines (card_byte H tx c) = ans a v (sio_lines c)"
    using q by (simp_all add: card_byte_def Let_def)
  have "mc_now (card_byte H tx c) \<noteq> MC_IDLE \<or> repair_quiet H c"
  proof (cases a)
    case True
    then have "exchange (files H) (selected_slot (pads c)) tx ((card c)\<lparr>lines := l\<rparr>)
        = ((v, True), q\<lparr>lines := \<lparr>rx_data = v, stat = settled (stat l)\<rparr>\<rparr>)" using ex by (simp only:)
    then have "mc_state (mc q) \<noteq> MC_IDLE" using exchange_busy l by fastforce
    then show ?thesis by (simp add: cb)
  next
    case False
    then show ?thesis using \<open>snd _ \<or> _\<close> p(4) by (simp add: ex repair_quiet_def)
  qed
  note f = card_txn_repair [OF this] card_txn_fields [of H tx c]
  have t: "card t = q\<lparr>lines := ans a v (sio_lines c)\<rparr>" "sio_lines t = ans a v (sio_lines c)" "pads t = pads c"
    "active_device t = DEV_MEMCARD" "senv t = senv s" "\<not> ape_pending (nest t)" "ape_cool_cyc (nest t) = ape_cool_cyc (nest s)"
    using p f cb by (simp_all add: t_def)
  have "\<not> bit (stat (sio_lines c)) 7" using ready p(5) by (simp add: port_ready_def bit_and_iff)
  then obtain w where w: "port_byte H tx s = ((v, a), w)" "port_ready w" "pads w = pads t" "card w = card t"
      "active_device w = active_device t" "ape_cool_cyc (nest w) = ape_cool_cyc (nest t)"
    using port_byte_step [OF ready t_def t(2) _ t(5,6)] by auto
  show ?thesis
    unfolding ex
    by (rule exI [of _ w], rule exI [of _ "\<lparr>rx_data = v, stat = settled (stat l)\<rparr>"]) (use w t in \<open>simp add: settled_bits\<close>)
qed

lemma port_byte_card_any:
  assumes ready: "port_ready s" "\<not> pad_sync_rx H" and l: "\<not> bit (stat l) 7"
    and p: "sio_process_byte H tx (tx_shifted tx s) = card_txn_byte H tx c" "senv c = senv s" "\<not> ape_pending (nest c)"
      "ape_cool_cyc (nest c) = ape_cool_cyc (nest s)" "sio_lines c = sio_lines (tx_shifted tx s)" "active_device c = DEV_MEMCARD"
  shows "\<exists>w l' irq. port_byte H tx s = ((fst (fst (exchange (files H) (selected_slot (pads c)) tx ((card c)\<lparr>lines := l\<rparr>))), irq), w)
    \<and> snd (exchange (files H) (selected_slot (pads c)) tx ((card c)\<lparr>lines := l\<rparr>)) = (card w)\<lparr>lines := l'\<rparr>
    \<and> (repair_quiet H s \<longrightarrow> irq = snd (fst (exchange (files H) (selected_slot (pads c)) tx ((card c)\<lparr>lines := l\<rparr>))) \<and> port_ready w)"
proof -
  let ?ex = "exchange (files H) (selected_slot (pads c)) tx ((card c)\<lparr>lines := l\<rparr>)"
  show ?thesis
  proof (cases "snd (fst ?ex) \<or> repair_quiet H s")
    case True
    then show ?thesis using port_byte_card [OF ready l p] by (metis prod.collapse)
  next
    case False
    obtain a v q where q: "\<forall>l. mc_process_byte (files H) (selected_slot (pads c)) tx ((card c)\<lparr>lines := l\<rparr>) = q\<lparr>lines := ans a v l\<rparr>"
      using card_process_answers by blast
    note ex = exchange_answers [OF q l]
    define t where "t = sio_process_byte H tx (tx_shifted tx s)"
    have t: "card t = q\<lparr>lines := ans False v (sio_lines c)\<rparr>" "sio_lines t = ans False v (sio_lines c)"
      using q p(1) card_txn_fields [of H tx c] False ex by (simp_all add: t_def card_byte_def Let_def)
    have "\<not> bit (stat (sio_lines c)) 7" using ready p(5) by (simp add: port_ready_def bit_and_iff)
    then obtain irq w where w: "port_byte H tx s = ((v, irq), w)" "card w = card t"
      using port_byte_end [OF ready t_def t(2)] by blast
    show ?thesis
      by (rule exI [of _ w], rule exI [of _ "\<lparr>rx_data = v, stat = settled (stat l)\<rparr>"], rule exI [of _ irq])
        (use w t False in \<open>simp add: ex\<close>)
  qed
qed

text \<open>
  A run of bytes to the card. Only the byte that ends the transaction, the last one, can meet the repair:
  the answers are the card's in any case, and so are the interrupts before the last.
\<close>

lemma port_runs_card:
  fixes H :: "'h sio_host"
  assumes "port_ready s" "\<not> pad_sync_rx H" "\<not> bit (stat l) 7"
    and "sio_process_byte H tx (tx_shifted tx s) = card_txn_byte H tx c" "senv c = senv s" "\<not> ape_pending (nest c)"
      "ape_cool_cyc (nest c) = ape_cool_cyc (nest s)" "sio_lines c = sio_lines (tx_shifted tx s)" "active_device c = DEV_MEMCARD"
    and "acked_so_far (fst (exchanges (files H) (selected_slot (pads c)) (tx # txs) ((card c)\<lparr>lines := l\<rparr>)))"
  shows "\<exists>rs t l'. port_bytes H (tx # txs) s = (rs, t)
    \<and> list_all2 (\<lambda>r e. fst r = fst e) rs (fst (exchanges (files H) (selected_slot (pads c)) (tx # txs) ((card c)\<lparr>lines := l\<rparr>)))
    \<and> butlast rs = butlast (fst (exchanges (files H) (selected_slot (pads c)) (tx # txs) ((card c)\<lparr>lines := l\<rparr>)))
    \<and> snd (exchanges (files H) (selected_slot (pads c)) (tx # txs) ((card c)\<lparr>lines := l\<rparr>)) = (card t)\<lparr>lines := l'\<rparr>
    \<and> (repair_quiet H s \<longrightarrow> rs = fst (exchanges (files H) (selected_slot (pads c)) (tx # txs) ((card c)\<lparr>lines := l\<rparr>)) \<and> port_ready t)"
  using assms(1,3-)
proof (induction txs arbitrary: s l tx c)
  case Nil
  let ?ex = "exchange (files H) (selected_slot (pads c)) tx ((card c)\<lparr>lines := l\<rparr>)"
  obtain w l' irq where w: "port_byte H tx s = ((fst (fst ?ex), irq), w)" "snd ?ex = (card w)\<lparr>lines := l'\<rparr>"
      "repair_quiet H s \<longrightarrow> irq = snd (fst ?ex) \<and> port_ready w"
    using port_byte_card_any [OF Nil.prems(1) assms(2) Nil.prems(2-8)] by blast
  obtain v a where r: "?ex = ((v, a), (card w)\<lparr>lines := l'\<rparr>)" using w(2) by (cases ?ex) auto
  show ?case
    by (rule exI [of _ "[(v, irq)]"], rule exI [of _ w], rule exI [of _ l']) (use w r in simp)
next
  case (Cons tx2 txs)
  let ?ex = "exchange (files H) (selected_slot (pads c)) tx ((card c)\<lparr>lines := l\<rparr>)"
  have "snd (fst ?ex)"
    using acked_rest(2) [of "fst ?ex" "files H" "selected_slot (pads c)" "tx2 # txs" "snd ?ex"] Cons.prems(9)
    by (simp add: split_beta Let_def)
  then obtain w l' where w: "port_byte H tx s = (fst ?ex, w)" "port_ready w" "active_device w = DEV_MEMCARD" "pads w = pads c"
      "\<not> bit (stat l') 7" "snd ?ex = (card w)\<lparr>lines := l'\<rparr>" "ape_cool_cyc (nest w) = ape_cool_cyc (nest s)"
    using port_byte_card [OF Cons.prems(1) assms(2) Cons.prems(2-8)] by blast
  obtain v where r: "?ex = ((v, True), (card w)\<lparr>lines := l'\<rparr>)" using w(6) \<open>snd (fst ?ex)\<close> by (cases ?ex) auto
  let ?rest = "exchanges (files H) (selected_slot (pads c)) (tx2 # txs) ((card w)\<lparr>lines := l'\<rparr>)"
  have rest: "acked_so_far (fst ?rest)"
    using acked_rest(1) [of "(v, True)" "files H" "selected_slot (pads c)" "tx2 # txs" "(card w)\<lparr>lines := l'\<rparr>"] Cons.prems(9)
    by (simp add: r split_beta Let_def)
  have "mc_now w \<noteq> MC_IDLE" using exchange_busy [OF r] Cons.prems(2) by simp
  then have "sio_process_byte H tx2 (tx_shifted tx2 w) = card_txn_byte H tx2 (tx_shifted tx2 w)"
    using w(3) by (simp add: sio_process_byte_def)
  then obtain rs t l2 where t: "port_bytes H (tx2 # txs) w = (rs, t)" "list_all2 (\<lambda>r e. fst r = fst e) rs (fst ?rest)"
      "butlast rs = butlast (fst ?rest)" "snd ?rest = (card t)\<lparr>lines := l2\<rparr>"
      "repair_quiet H w \<longrightarrow> rs = fst ?rest \<and> port_ready t"
    using Cons.IH [OF w(2,5), of tx2 "tx_shifted tx2 w"] rest w(2-4) by (auto simp: port_ready_def)
  have q: "repair_quiet H w = repair_quiet H s" by (simp add: repair_quiet_def w(7))
  have all: "exchanges (files H) (selected_slot (pads c)) (tx # tx2 # txs) ((card c)\<lparr>lines := l\<rparr>) = ((v, True) # fst ?rest, snd ?rest)"
    "port_bytes H (tx # tx2 # txs) s = ((v, True) # rs, t)"
    using w(1) r t(1) by (simp_all only: exchanges.simps(2) [of _ _ tx] port_bytes.simps(2) [of _ tx] Let_def prod.case fst_conv)
      (simp_all only: split_beta fst_conv snd_conv)
  have ne: "rs \<noteq> []" "fst ?rest \<noteq> []" using t(2) by (auto simp: Let_def split_beta)
  show ?case
    unfolding all fst_conv snd_conv
    by (rule exI [of _ "(v, True) # rs"], rule exI [of _ t], rule exI [of _ l2]) (use t q ne in simp)
qed

text \<open>
  C2. The card through the registers. On a ready port (the synchronous pad path \<open>pad_sync_rx\<close> off, as by
  default) with no device addressed and the selected slot's protocol idle, a guest that sends the card address and further bytes, going on as long as the card
  acknowledges them, reads back exactly the answers of the card protocol from the slot's saved state,
  sees the interrupt after exactly the acknowledged bytes up to the last but one, and leaves the card,
  with its image, in the state the protocol reaches. When the repair of nested card interrupts is off,
  or on (the default) with nothing to repair and without ever having pulsed, the interrupt after the
  last byte is exact too and the port is ready again; otherwise the repair may raise an interrupt
  after the byte that ends the transaction.
\<close>

theorem port_implements_card:
  fixes H :: "'h sio_host" and txs :: "u8 list"
  assumes "port_ready s" "\<not> pad_sync_rx H" "active_device s = DEV_NONE"
    and "mc_state (mc_slots s slot) = MC_IDLE" "slot = (if sio_ctrl s AND SIO_CTRL_SLOT \<noteq> 0 then 1 else 0)"
  defines "ex \<equiv> exchanges (files H) slot (0x81 # txs) ((card s)\<lparr>mc := mc_slots s slot, mc_slot := slot, lines := sio_lines s\<rparr>)"
  assumes "acked_so_far (fst ex)"
  shows "\<exists>rs t l. port_bytes H (0x81 # txs) s = (rs, t)
    \<and> list_all2 (\<lambda>r e. fst r = fst e) rs (fst ex) \<and> butlast rs = butlast (fst ex) \<and> snd ex = (card t)\<lparr>lines := l\<rparr>
    \<and> (repair_quiet H s \<longrightarrow> rs = fst ex \<and> port_ready t)"
proof -
  let ?d = "(card s)\<lparr>mc := mc_slots s slot, mc_slot := slot\<rparr>"
  define c where "c = open_if_closed ((mc_load_slot slot (select_slot (tx_shifted 0x81 s)))\<lparr>active_device := DEV_MEMCARD,
    card := (card (mc_load_slot slot (select_slot (tx_shifted 0x81 s))))\<lparr>mc_slot := slot\<rparr>\<rparr>)"
  note o = bus_view_fields [OF open_views]
  have sel: "selected_slot (pads (select_slot (tx_shifted 0x81 s))) = slot" using assms(5) by (simp add: select_slot_def)
  have slot: "\<not> (slot < 0 \<or> slot > 1)" using assms(5) by simp
  have c: "card c = ?d" "selected_slot (pads c) = slot" "senv c = senv s" "ape_pending (nest c) = ape_pending (nest s)"
    "ape_cool_cyc (nest c) = ape_cool_cyc (nest s)" "sio_lines c = sio_lines (tx_shifted 0x81 s)" "active_device c = DEV_MEMCARD"
    using slot sel by (simp_all add: c_def o, simp_all add: mc_load_slot_def select_slot_def open_if_closed_def do_txn_open_def)
  have idle: "mc_now (mc_load_slot slot (select_slot (tx_shifted 0x81 s))) = MC_IDLE"
    using assms(4) slot by (simp add: mc_load_slot_def select_slot_def)
  have "sio_process_byte H 0x81 (tx_shifted 0x81 s) = card_txn_byte H 0x81 c"
    using assms(3) by (simp add: sio_process_byte_def byte_unselected_def sel idle c_def Let_def)
  from port_runs_card [OF assms(1,2) _ this, of "sio_lines s" txs] show ?thesis
    using assms(1,7) c by (simp add: ex_def port_ready_def)
qed

text \<open>A read of sector 258, with the repair on and nothing to repair.\<close>

theorem port_implements_card_witness:
  "\<exists>t bs. memcard_read_sector 0 258 (store demo_bus) = Some bs
    \<and> port_bytes (demo_host\<lparr>ape_unstick_enabled := True, guest_word := (\<lambda>_. 0x80000000)\<rparr>)
        (0x81 # [0x52, 0, 0, 1, 2] @ replicate 134 0) demo_sio = (read_answer 8 1 2 bs, t) \<and> port_ready t"
proof -
  let ?H = "demo_host\<lparr>ape_unstick_enabled := True, guest_word := (\<lambda>_. 0x80000000)\<rparr>"
  let ?c = "demo_bus\<lparr>mc := mc_reset, mc_slot := 0, lines := \<lparr>rx_data = 0xFF, stat = 5\<rparr>\<rparr>"
  have d: "\<not> pad_sync_rx ?H" "active_device demo_sio = DEV_NONE" "files ?H = map_fs"
    "sio_ctrl demo_sio AND SIO_CTRL_SLOT = 0" "mc_slots demo_sio 0 = mc_reset" "card demo_sio = demo_bus"
    "sio_lines demo_sio = \<lparr>rx_data = 0xFF, stat = 5\<rparr>"
    by (simp_all add: demo_host_def demo_sio_def)
  have q: "repair_quiet ?H demo_sio" by (simp add: repair_quiet_def repair_idle_def demo_sio_def)
  have idle: "mc_state mc_reset = MC_IDLE" by (simp add: mc_reset_def)
  have c: "mc_state (mc ?c) = MC_IDLE" "memcard_is_present 0 (store ?c)" "mc_flag (mc ?c) = 8" "uint (sector_of 1 2) = 258"
    by (simp_all add: mc_reset_def demo_bus_def memcard_is_present_def sector_of_def)
  obtain bs where bs: "memcard_read_sector 0 258 (store demo_bus) = Some bs"
    by (simp add: memcard_read_sector_def demo_bus_def memcard_is_present_def)
  obtain u where u: "exchanges map_fs 0 (read_request 0 0 1 2 @ replicate 134 0) ?c = (read_answer 8 1 2 bs, u)"
    using read_run [OF c(1,2), of 1 2 bs "replicate 134 0" map_fs 0 0] bs c by auto
  have req: "read_request 0 0 1 2 @ replicate 134 0 = 0x81 # [0x52, 0, 0, 1, 2] @ replicate 134 (0 :: u8)" by (simp add: read_request_def)
  have "acked_so_far (read_answer 8 1 2 bs)" by (auto simp: acked_so_far_def read_answer_def butlast_append)
  then show ?thesis
    using port_implements_card [OF demo_ready d(1,2), of 0 "[0x52, 0, 0, 1, 2] @ replicate 134 0"] bs u [unfolded req] q
    by (simp only: d idle) (auto simp del: port_bytes.simps exchanges.simps replicate.simps)
qed

subsection \<open>Dropping the select line\<close>

lemma resume_fields [simp]:
  "active_device (resume_ack k s) = active_device s" "pads (resume_ack k s) = pads s" "card (resume_ack k s) = card s"
  "mc_slots (resume_ack k s) = mc_slots s" "sio_lines (resume_ack k s) = sio_lines s" "senv (resume_ack k s) = senv s"
  "shift_active (pace (resume_ack k s)) = shift_active (pace s)" "tx_buffered (pace (resume_ack k s)) = tx_buffered (pace s)"
  "k = None \<Longrightarrow> resume_ack k s = s"
  by (simp_all add: resume_ack_def await_ack_def split: option.split)


text \<open>The state the drop of the select line leaves, from the state \<open>u\<close> after flushing and closing.\<close>

definition dropped :: "'h sio \<Rightarrow> 'h sio" where
  "dropped u = upd_pace (\<lambda>p. bus_idle (kill_shifter p)) (quiet_pads (upd_slots clean_slot (set_mc_state MC_IDLE (keep_flag u))))"

lemma dropped_fields [simp]:
  "active_device (dropped u) = DEV_NONE" "pads (dropped u) = pad_end (pads u)" "sio_lines (dropped u) = sio_lines u"
  "senv (dropped u) = senv u" "mc (card (dropped u)) = (mc (card u))\<lparr>mc_state := MC_IDLE\<rparr>" "store (card (dropped u)) = store (card u)"
  "mc_slots (dropped u) 0 = clean_slot (mc_slots (keep_flag u) 0)" "mc_slots (dropped u) 1 = clean_slot (mc_slots (keep_flag u) 1)"
  "pace (dropped u) = bus_idle (kill_shifter (pace u))" "nest (dropped u) = nest u"
  by (simp_all add: dropped_def quiet_pads_def upd_slots_def set_mc_state_def upd_mc_def keep_flag_def Let_def)

lemma re_edge_sets: "bit (i_stat (senv (re_edge s))) 7"
  by (simp add: re_edge_def Let_def bit_or_iff)

text \<open>The repair never takes the interrupt away: its pulse ends with the bit set.\<close>

lemma unstick_keeps: "bit (i_stat (senv s)) 7 \<Longrightarrow> bit (i_stat (senv (ape_card_unstick_maybe H s))) 7"
  using re_edge_sets [of s] by (simp add: ape_card_unstick_maybe_def Let_def)

lemma close_keeps: "bit (i_stat (senv s)) 7 \<Longrightarrow> bit (i_stat (senv (txn_close H r s))) 7"
  using re_edge_sets by (auto simp: txn_close_def Let_def intro!: unstick_keeps)

lemma deselect_dropped:
  "\<exists>u. bus_view u = bus_view (flush_card H s) \<and> (repair_idle H \<longrightarrow> senv u = senv (flush_card H s))
    \<and> (bit (i_stat (senv (flush_card H s))) 7 \<longrightarrow> bit (i_stat (senv u)) 7)
    \<and> ctrl_deselect H s = ape_card_unstick_maybe H (set_stat SIO_STAT_TX_IDLE (resume_ack (kept_ack H s) (dropped u)))"
  by (rule exI [of _ "if active_device (flush_card H s) = DEV_MEMCARD \<and> mc_now (flush_card H s) \<noteq> MC_IDLE
      then txn_close H SIO_TXN_END_ABORT_OTHER (flush_card H s) else flush_card H s"])
    (simp add: ctrl_deselect_def dropped_def Let_def close_idle close_keeps)

text \<open>The drop as a write of the control register that neither resets nor acknowledges.\<close>

lemma write_deselects:
  assumes "bit (sio_ctrl s) 1" "\<not> bit v 1" "\<not> bit v 4" "\<not> bit v 6"
  shows "write_ctrl H v s = ctrl_deselect H
    (if bit (sio_ctrl s) 0 \<and> \<not> bit v 0 then ctrl_tx_off False (s\<lparr>sio_ctrl := v\<rparr>) else s\<lparr>sio_ctrl := v\<rparr>)"
  using assms by (simp add: write_ctrl_def Let_def and_bit16)




subsection \<open>The interrupt of an acknowledge\<close>

lemma fire_cases:
  "\<not> pending_ack_irq_en (pace s) \<Longrightarrow> \<not> bit (sio_ctrl s) 12 \<Longrightarrow> senv (sio_fire_ack_irq s) = senv (drop_spu_stat s)"
  "pending_ack_irq_en (pace s) \<or> bit (sio_ctrl s) 12 \<Longrightarrow> card_ack s \<Longrightarrow> bit (i_stat (senv s)) 7 \<Longrightarrow>
     senv (sio_fire_ack_irq s) = senv (drop_spu_stat s) \<and> pace (sio_fire_ack_irq s) = (await_ack 16 True (pace s))\<lparr>timing_active := True\<rparr>"
  "pending_ack_irq_en (pace s) \<or> bit (sio_ctrl s) 12 \<Longrightarrow> \<not> (card_ack s \<and> bit (i_stat (senv s)) 7) \<Longrightarrow>
     senv (sio_fire_ack_irq s) = record_ev EV_DEQ' SRC_SIO 0 (psx_irq_raise IRQ_SIO0 0 (senv (drop_spu_stat s)))"
proof -
  let ?s = "show_ack (drop_spu_stat s)"
  note v = bus_view_fields [OF repair_views(6) [of s]]
  have b: "bit (i_stat (senv ?s)) 7 = bit (i_stat (senv s)) 7" "senv ?s = senv (drop_spu_stat s)" "pace ?s = pace s" "sio_ctrl ?s = sio_ctrl s"
    using v by (simp_all add: show_ack_def)
  show "\<not> pending_ack_irq_en (pace s) \<Longrightarrow> \<not> bit (sio_ctrl s) 12 \<Longrightarrow> senv (sio_fire_ack_irq s) = senv (drop_spu_stat s)"
    by (simp add: sio_fire_ack_irq_def Let_def and_bit16 b)
  show "pending_ack_irq_en (pace s) \<or> bit (sio_ctrl s) 12 \<Longrightarrow> card_ack s \<Longrightarrow> bit (i_stat (senv s)) 7 \<Longrightarrow>
     senv (sio_fire_ack_irq s) = senv (drop_spu_stat s) \<and> pace (sio_fire_ack_irq s) = (await_ack 16 True (pace s))\<lparr>timing_active := True\<rparr>"
    using b(1) by (auto simp: sio_fire_ack_irq_def Let_def and_bit16 and_bit32 b)
  show "pending_ack_irq_en (pace s) \<or> bit (sio_ctrl s) 12 \<Longrightarrow> \<not> (card_ack s \<and> bit (i_stat (senv s)) 7) \<Longrightarrow>
     senv (sio_fire_ack_irq s) = record_ev EV_DEQ' SRC_SIO 0 (psx_irq_raise IRQ_SIO0 0 (senv (drop_spu_stat s)))"
    using b(1) by (auto simp: sio_fire_ack_irq_def Let_def and_bit16 and_bit32 b raise_sio_def)
qed

text \<open>
  C6. An acknowledge and the interrupt line. When its interrupt is enabled it sets bit 7 of \<open>I_STAT\<close>
  and leaves the CAUSE cell showing the line, except that a card's acknowledge with bit 7 still standing is put
  off by 16 cycles and raises nothing. A card's acknowledge first drops bit 9 of \<open>I_STAT\<close> without
  refreshing the CAUSE cell: when that was the one interrupt pending and this acknowledge raises none,
  the cell goes on showing an interrupt that is no longer there.
\<close>

theorem sio_ack_interrupt:
  fixes s :: "'h sio"
  defines "t \<equiv> sio_fire_ack_irq s" and "en \<equiv> pending_ack_irq_en (pace s) \<or> bit (sio_ctrl s) 12"
  shows "(en \<and> \<not> (card_ack s \<and> bit (i_stat (senv s)) 7) \<longrightarrow> bit (i_stat (senv t)) 7 \<and> ip2_mirrors (senv t))
    \<and> (en \<and> card_ack s \<and> bit (i_stat (senv s)) 7 \<longrightarrow>
        pending_ack (pace t) \<and> ack_remaining (pace t) = 16 \<and> timing_active (pace t)
        \<and> i_stat (senv t) = i_stat (senv s) AND NOT (push_bit 9 1))
    \<and> (\<not> en \<and> card_ack s \<and> cause_bound (senv s) \<and> ip2_mirrors (senv s) \<and> i_stat (senv s) AND i_mask (senv s) AND 0x7FF = push_bit 9 1 \<longrightarrow>
        bit (cause (senv t)) 10 \<and> \<not> irq_pending (senv t))"
proof (intro conjI impI)
  assume a: "en \<and> \<not> (card_ack s \<and> bit (i_stat (senv s)) 7)"
  then have e: "senv t = record_ev EV_DEQ' SRC_SIO 0 (psx_irq_raise IRQ_SIO0 0 (senv (drop_spu_stat s)))"
    unfolding t_def en_def by (intro fire_cases(3)) auto
  show "bit (i_stat (senv t)) 7" by (simp add: e bit_or_iff)
  show "ip2_mirrors (senv t)" by (simp add: e inv_intros)
next
  assume a: "en \<and> card_ack s \<and> bit (i_stat (senv s)) 7"
  then have e: "senv t = senv (drop_spu_stat s) \<and> pace t = (await_ack 16 True (pace s))\<lparr>timing_active := True\<rparr>"
    unfolding t_def en_def by (intro fire_cases(2)) auto
  then show "pending_ack (pace t)" "ack_remaining (pace t) = 16" "timing_active (pace t)" by (simp_all add: await_ack_def)
  show "i_stat (senv t) = i_stat (senv s) AND NOT (push_bit 9 1)" using a by (simp add: e drop_spu_stat_def)
next
  assume a: "\<not> en \<and> card_ack s \<and> cause_bound (senv s) \<and> ip2_mirrors (senv s) \<and> i_stat (senv s) AND i_mask (senv s) AND 0x7FF = push_bit 9 1"
  then have e: "senv t = (senv s)\<lparr>i_stat := i_stat (senv s) AND NOT (push_bit 9 1)\<rparr>"
    using fire_cases(1) [of s] by (simp add: t_def en_def drop_spu_stat_def)
  have "irq_pending (senv s)" using a by (simp add: irq_pending_def)
  then show "bit (cause (senv t)) 10" using a by (simp add: e ip2_mirrors_def)
  have "(w AND n) AND m AND k = (w AND m AND k) AND n" for w n m k :: u32 by (simp only: ac_simps)
  then have "(i_stat (senv s) AND NOT (push_bit 9 1)) AND i_mask (senv s) AND 0x7FF = push_bit 9 1 AND NOT (push_bit 9 (1 :: u32))"
    using a by (simp only:)
  then show "\<not> irq_pending (senv t)" by (simp add: e irq_pending_def)
qed

theorem sio_ack_interrupt_witness:
  "bit (i_stat (senv (sio_fire_ack_irq (demo_sio\<lparr>active_device := DEV_MEMCARD\<rparr>)))) 7"
  using sio_ack_interrupt [of "demo_sio\<lparr>active_device := DEV_MEMCARD\<rparr>"]
  by (simp add: demo_sio_def irq_power_on_def)

text \<open>
  C7. Dropping SELECT with a card's acknowledge still to come and its interrupt enabled, by a write of the
  control register without the acknowledge and reset bits. If the transmitter stays enabled the
  acknowledge is delivered before the bus is dropped: bit 7 of \<open>I_STAT\<close> is set, or stays set and the
  acknowledge is kept pending past the drop; this holds whatever the repair of nested card interrupts
  does, since its pulse sets the bit again. If the same write also disables the transmitter, as writing 0
  does, the acknowledge is cancelled first: nothing is pending, and with the repair off, or on (the
  default) with nothing to repair in the two guest words it looks at, the interrupt registers are as
  before. Otherwise the repair, which runs when the drop ends a card transfer, may set bit 7 itself.
\<close>

theorem select_drop_acknowledge:
  fixes H :: "'h sio_host"
  assumes "sio_ok s" "active_device s = DEV_MEMCARD" "pending_ack (pace s)" "pending_ack_irq_en (pace s)"
    and "bit (sio_ctrl s) 0" "bit (sio_ctrl s) 1" "\<not> bit v 1" "\<not> bit v 4" "\<not> bit v 6"
  defines "t \<equiv> write_ctrl H v s"
  shows "(bit v 0 \<longrightarrow> bit (i_stat (senv t)) 7 \<and> pending_ack (pace t) = bit (i_stat (senv s)) 7)
    \<and> (\<not> bit v 0 \<longrightarrow> \<not> pending_ack (pace t) \<and> (repair_idle H \<longrightarrow> senv t = senv s))"
proof -
  define r where "r = (if bit (sio_ctrl s) 0 \<and> \<not> bit v 0 then ctrl_tx_off False (s\<lparr>sio_ctrl := v\<rparr>) else s\<lparr>sio_ctrl := v\<rparr>)"
  obtain u where u: "bus_view u = bus_view (flush_card H r)" "repair_idle H \<longrightarrow> senv u = senv (flush_card H r)"
      "bit (i_stat (senv (flush_card H r))) 7 \<longrightarrow> bit (i_stat (senv u)) 7"
      "ctrl_deselect H r = ape_card_unstick_maybe H (set_stat SIO_STAT_TX_IDLE (resume_ack (kept_ack H r) (dropped u)))"
    using deselect_dropped [where s = r and H = H] by blast
  let ?x = "set_stat SIO_STAT_TX_IDLE (resume_ack (kept_ack H r) (dropped u))"
  have t: "t = ape_card_unstick_maybe H ?x"
    unfolding t_def write_deselects [OF assms(6-9)] r_def [symmetric] by (rule u(4))
  have "pace t = pace ?x" unfolding t by (rule bus_view_fields(1) [OF unstick_views])
  then have k: "pending_ack (pace t) \<longleftrightarrow> kept_ack H r \<noteq> None"
    by (simp add: resume_ack_def await_ack_def bus_idle_def kill_shifter_def split: option.split)
  have e: "senv t = senv (flush_card H r)" if "repair_idle H"
    using that u(2) by (simp add: t unstick_idle)
  have st: "bit (i_stat (senv t)) 7" if "bit (i_stat (senv (flush_card H r))) 7"
    unfolding t by (rule unstick_keeps) (use that u(3) in simp)
  show ?thesis
  proof (cases "bit v 0")
    case True
    define y where "y = upd_pace (\<lambda>p. p\<lparr>pending_ack := False, ack_remaining := 0\<rparr>) (s\<lparr>sio_ctrl := v\<rparr>)"
    have idle: "\<not> (shift_active (pace r) \<and> shift_remaining (pace r) \<le> 0)"
      using assms(1) True by (auto simp: r_def sio_ok_def pace_ok_def)
    have y: "flush_card H r = sio_fire_ack_irq y" "pending_ack_irq_en (pace y)" "card_ack y" "active_device r = DEV_MEMCARD"
      using assms True unfolding flush_card_def if_not_P [OF idle] Let_def by (simp_all add: y_def r_def card_ack_def)
    show ?thesis
    proof (cases "bit (i_stat (senv s)) 7")
      case b: True
      have "senv (sio_fire_ack_irq y) = senv (drop_spu_stat y) \<and> pace (sio_fire_ack_irq y) = (await_ack 16 True (pace y))\<lparr>timing_active := True\<rparr>"
        using y b by (intro fire_cases(2)) (simp_all add: y_def)
      moreover from this have "bit (i_stat (senv t)) 7" using b by (intro st) (simp add: y(1), simp add: y_def)
      ultimately show ?thesis using True b y by (simp add: k kept_ack_def await_ack_def)
    next
      case b: False
      then have i: "\<not> bit (i_stat (senv y)) 7" by (simp add: y_def)
      have "bit (i_stat (senv t)) 7" using fire_raises(1) [OF y(2) i] by (intro st) (simp add: y(1))
      then show ?thesis using True b fire_raises [OF y(2) i] y(4)
        by (simp add: k kept_ack_def y(1)) (simp add: y_def)
    qed
  next
    case False
    then have r: "r = set_stat SIO_STAT_TX_IDLE (upd_pace (\<lambda>p. bus_idle (kill_shifter p)) (s\<lparr>sio_ctrl := v\<rparr>))"
      using assms(3,5) by (simp add: r_def ctrl_tx_off_def)
    then have "flush_card H r = r" by (simp add: flush_card_def bus_idle_def kill_shifter_def)
    then show ?thesis using False e by (simp add: k kept_ack_def) (simp add: r bus_idle_def kill_shifter_def)
  qed
qed

theorem select_drop_acknowledge_witness:
  "\<not> bit (i_stat (senv (write_ctrl demo_host 0 (upd_pace (\<lambda>p. (await_ack 100 True p)\<lparr>timing_active := True\<rparr>)
     (demo_sio\<lparr>active_device := DEV_MEMCARD\<rparr>))))) 7"
proof -
  let ?s = "upd_pace (\<lambda>p. (await_ack 100 True p)\<lparr>timing_active := True\<rparr>) (demo_sio\<lparr>active_device := DEV_MEMCARD\<rparr>)"
  have ok: "sio_ok ?s" using demo_ok by (auto simp: sio_ok_def intro: start_ok(4))
  have d: "active_device ?s = DEV_MEMCARD" "pending_ack (pace ?s)" "pending_ack_irq_en (pace ?s)"
    "bit (sio_ctrl ?s) 0" "bit (sio_ctrl ?s) 1" by (simp_all add: await_ack_def) (simp_all add: demo_sio_def)
  have "\<not> bit (i_stat (senv ?s)) 7" by (simp add: demo_sio_def irq_power_on_def)
  then show ?thesis using select_drop_acknowledge [OF ok d, of 0 demo_host] by (simp add: repair_idle_def demo_host_def)
qed

end
