(* ===== verification/Spu.thy ===== *)
theory Spu
  imports Irq
begin

unbundle bit_operations_syntax

section \<open>The sound processor: spu.c and spu\_gauss.h\<close>

text \<open>
  The 24 ADPCM voices with their envelopes, the volume sweeps, the noise generator, the reverb, the
  capture buffers, the CD input queue, the mixer, the registers, the DMA port and the interrupt on an
  address of sound RAM. The static variables of the file are the record \<open>spu\<close>; sound RAM and the
  registers are functions of the index. A C \<open>int16_t\<close> is a word of 16 bits read with \<open>sint\<close>; the
  \<open>int32_t\<close> of the mixer and the filters are integers, and a theorem shows that they fit.

  The float shadow renderer (\<open>spu_shadow.c\<close>, off unless asked for) is off, so \<open>spu_shadow_process\<close>
  leaves the block as it is. The event ring, the audio traces, the peak counters and the debug views
  are left out; nothing else reads them.
\<close>

type_synonym i16 = "16 word"

abbreviation to_i16 :: "int \<Rightarrow> i16" where
  "to_i16 v \<equiv> word_of_int v"

abbreviation SPU_RAM_SIZE :: u32 where "SPU_RAM_SIZE \<equiv> 0x80000"
abbreviation SPU_BLOCK_SAMPLES :: int where "SPU_BLOCK_SAMPLES \<equiv> 28"
abbreviation SPU_CD_RING_FRAMES :: u32 where "SPU_CD_RING_FRAMES \<equiv> 352800"

abbreviation ADSR_ATTACK :: u8 where "ADSR_ATTACK \<equiv> 0"
abbreviation ADSR_DECAY :: u8 where "ADSR_DECAY \<equiv> 1"
abbreviation ADSR_SUSTAIN :: u8 where "ADSR_SUSTAIN \<equiv> 2"
abbreviation ADSR_RELEASE :: u8 where "ADSR_RELEASE \<equiv> 3"

subsection \<open>State\<close>

record sweep_env =
  level :: i16
  divider :: u32

record spu_voice =
  active :: bool
  cur_addr :: u32
  repeat_addr :: u32
  samples :: "i16 list"
  previous_samples :: "i16 list"
  sample_idx :: int
  phase :: u32
  hist1 :: i16
  hist2 :: i16
  vflags :: u8
  env_level :: u16
  adsr_divider :: u32
  adsr_phase :: u8

record spu =
  spu_ram :: "nat \<Rightarrow> u8"
  spu_regs :: "nat \<Rightarrow> u16"
  transfer_addr :: u32
  key_on_count :: u32
  endx_latch :: u32
  kon_latch :: u32
  koff_latch :: u32
  irq_flag :: bool
  noise_lfsr :: u16
  noise_timer :: int
  rev_cur :: u32
  rev_phase :: bool
  rev_in_hold_l :: int
  rev_in_hold_r :: int
  rev_out_l :: int
  rev_out_r :: int
  capture_pos :: u32
  sweep_voice_env :: "nat \<Rightarrow> nat \<Rightarrow> sweep_env"
  sweep_main_env :: "nat \<Rightarrow> sweep_env"
  voices :: "nat \<Rightarrow> spu_voice"
  cd_ring :: "nat \<Rightarrow> i16"
  cd_read_pos :: u32
  cd_write_pos :: u32
  cd_frame_count :: u32
  cd_push_frames :: u64
  cd_overflow_frames :: u64
  cd_underflow_frames :: u64
  host_sfx_percent :: int
  host_music_percent :: int
  spu_env :: irq_env

definition upd_voice :: "nat \<Rightarrow> (spu_voice \<Rightarrow> spu_voice) \<Rightarrow> spu \<Rightarrow> spu" where
  "upd_voice i f s = s\<lparr>voices := (voices s)(i := f (voices s i))\<rparr>"

definition reg_index :: "u32 \<Rightarrow> nat" where
  "reg_index addr = unat (drop_bit 1 (addr - 0x1F801C00))"

definition voice_reg :: "nat \<Rightarrow> nat \<Rightarrow> spu \<Rightarrow> u16" where
  "voice_reg v r s = spu_regs s (v * 8 + r)"

text \<open>The value of a named register, and as a signed volume.\<close>

definition rreg :: "u32 \<Rightarrow> spu \<Rightarrow> u16" where
  "rreg a s = spu_regs s (reg_index a)"

definition rvol :: "u32 \<Rightarrow> spu \<Rightarrow> int" where
  "rvol a s = sint (rreg a s)"

definition reg_pair :: "u32 \<Rightarrow> u32 \<Rightarrow> spu \<Rightarrow> u32" where
  "reg_pair lo hi s = ucast (rreg lo s) OR push_bit 16 (ucast (rreg hi s))"

abbreviation spucnt :: "spu \<Rightarrow> u16" where
  "spucnt s \<equiv> rreg 0x1F801DAA s"

definition clamp16 :: "int \<Rightarrow> int" where
  "clamp16 v = (if v > 32767 then 32767 else if v < -32768 then -32768 else v)"

subsection \<open>Envelope rates, the volume envelope and the sweeps\<close>

definition calc_vc_delta :: "u8 \<Rightarrow> u8 \<Rightarrow> bool \<Rightarrow> bool \<Rightarrow> bool \<Rightarrow> i16 \<Rightarrow> int \<times> int" where
  "calc_vc_delta zs speed log_mode dec_mode inv_increment current =
     (let inc = 7 - uint (speed AND 3);
          inc = (if inv_increment then NOT inc else inc);
          dv = (32768 :: int);
          inc = (if speed < 0x2C then sint (push_bit (unat (drop_bit 2 (0x2F - speed))) (word_of_int inc :: u32)) else inc);
          dv = (if speed \<ge> 0x30 then drop_bit (unat (drop_bit 2 (speed - 0x2C))) dv else dv);
          (inc, dv) =
            (if \<not> log_mode then (inc, dv)
             else if dec_mode then (drop_bit 15 (sint current * inc), dv)
             else if current AND 0x7FFF \<ge> 0x6000
             then (if speed < 0x28 then (drop_bit 2 inc, dv)
                   else if speed \<ge> 0x2C then (inc, drop_bit 2 dv)
                   else (drop_bit 1 inc, drop_bit 1 dv))
             else (inc, dv))
      in (inc, if dv = 0 \<and> speed < zs then 1 else dv))"

text \<open>The rate, its exponential flag and the level an overflow is reset to, for the phase the envelope is in.\<close>

definition adsr_raw :: "nat \<Rightarrow> spu \<Rightarrow> u32" where
  "adsr_raw i s = ucast (voice_reg i 4 s) OR push_bit 16 (ucast (voice_reg i 5 s))"

definition adsr_delta :: "u32 \<Rightarrow> u8 \<Rightarrow> u16 \<Rightarrow> (int \<times> int \<times> u16) option" where
  "adsr_delta raw ph env =
     (let dr = ucast (drop_bit 4 raw) AND 0x0F;
          ar = ucast (drop_bit 8 raw) AND 0x7F;
          attack_exp = bit raw 15;
          rr = ucast (drop_bit 16 raw) AND 0x1F;
          release_exp = bit raw 21;
          sr = ucast (drop_bit 22 raw) AND 0x7F;
          sustain_dec = bit raw 30;
          sustain_exp = bit raw 31
      in if ph = ADSR_ATTACK then
           (let (inc, dv) = calc_vc_delta 0x7F ar attack_exp False False env in Some (inc, dv, 0x7FFF))
         else if ph = ADSR_DECAY then
           (let (inc, dv) = calc_vc_delta 0x7C (push_bit 2 dr) True True True env in Some (inc, dv, 0))
         else if ph = ADSR_SUSTAIN then
           (let (inc, dv) = calc_vc_delta 0x7F sr sustain_exp sustain_dec sustain_dec env
            in Some (inc, dv, if sustain_dec then 0 else 0x7FFF))
         else if ph = ADSR_RELEASE then
           (let (inc, dv) = calc_vc_delta 0x7C (push_bit 2 rr) release_exp True True env in Some (inc, dv, 0))
         else None)"

definition env_bump :: "u8 \<Rightarrow> int \<Rightarrow> u16 \<Rightarrow> u16 \<Rightarrow> u16" where
  "env_bump ph increment reset prev =
     (let new = word_of_int (uint prev + increment)
      in if ph = ADSR_ATTACK then (if ((prev XOR new) AND new) AND 0x8000 \<noteq> 0 then reset else new)
         else if new AND 0x8000 \<noteq> 0 then reset else new)"

definition adsr_run :: "u32 \<Rightarrow> spu_voice \<Rightarrow> spu_voice" where
  "adsr_run raw v =
     (let sustain_lvl = word_of_int (push_bit 11 (uint (raw AND 0x0F) + 1)) :: u16;
          v = (if adsr_phase v = ADSR_ATTACK \<and> env_level v = 0x7FFF then v\<lparr>adsr_phase := ADSR_DECAY\<rparr> else v)
      in case adsr_delta raw (adsr_phase v) (env_level v) of None \<Rightarrow> v
         | Some (increment, divinco, reset) \<Rightarrow>
             (let v = v\<lparr>adsr_divider := adsr_divider v + word_of_int divinco\<rparr>
              in if adsr_divider v AND 0x8000 = 0 then v
                 else let v = v\<lparr>adsr_divider := 0, env_level := env_bump (adsr_phase v) increment reset (env_level v)\<rparr>
                 in if adsr_phase v = ADSR_DECAY \<and> env_level v < sustain_lvl
                    then v\<lparr>adsr_phase := ADSR_SUSTAIN\<rparr> else v))"

definition volume_reg_decode :: "u16 \<Rightarrow> i16" where
  "volume_reg_decode raw = push_bit 1 raw"

definition sweep_env_write :: "u16 \<Rightarrow> sweep_env \<Rightarrow> sweep_env" where
  "sweep_env_write raw sw =
     (if raw AND 0x8000 = 0 then sw\<lparr>level := volume_reg_decode raw, divider := 0\<rparr> else sw\<lparr>divider := 0\<rparr>)"

definition sat15 :: "int \<Rightarrow> int" where
  "sat15 w = (let w = (if w < 0 then 0 else w) in if w > 0x7FFF then 0x7FFF else w)"

definition sweep_env_step :: "u16 \<Rightarrow> sweep_env \<Rightarrow> sweep_env" where
  "sweep_env_step raw sw =
     (if raw AND 0x8000 = 0 then sw
      else let exp_mode = bit raw 14; dec_mode = bit raw 13; neg_phase = bit raw 12;
               rate = ucast raw AND 0x7F;
               working = sat15 (if neg_phase then - sint (level sw) else sint (level sw));
               (increment, divinco) = calc_vc_delta 0x7F rate exp_mode dec_mode dec_mode (to_i16 working);
               sw = sw\<lparr>divider := divider sw + word_of_int divinco\<rparr>
           in if divider sw AND 0x8000 = 0 then sw
              else let working = sat15 (working + increment)
                   in sw\<lparr>divider := 0, level := to_i16 (if neg_phase then - working else working)\<rparr>)"

definition chan_volume :: "u16 \<Rightarrow> sweep_env \<Rightarrow> i16" where
  "chan_volume raw sw = (if raw AND 0x8000 \<noteq> 0 then level sw else volume_reg_decode raw)"

subsection \<open>The interrupt on an address\<close>

text \<open>The units of 8 bytes an access of \<open>len\<close> bytes touches, in order.\<close>

definition irq_units :: "u32 \<Rightarrow> u32 \<Rightarrow> u32 list" where
  "irq_units addr len =
     (let a = addr AND (SPU_RAM_SIZE - 1);
          first = drop_bit 3 a; last = drop_bit 3 (a + len - 1)
      in map word_of_nat [unat first..<Suc (unat last)])"

definition spu_irq_check :: "u32 \<Rightarrow> u32 \<Rightarrow> spu \<Rightarrow> spu" where
  "spu_irq_check addr len s =
     (if spucnt s AND 0x0040 = 0 then s
      else if len = 0 then s
      else case find (\<lambda>u. u AND 0xFFFF = ucast (rreg 0x1F801DA4 s)) (irq_units addr len) of
             None \<Rightarrow> s
           | Some u \<Rightarrow> if irq_flag s then s
                       else s\<lparr>irq_flag := True, spu_env := psx_irq_raise 9 (push_bit 3 u) (spu_env s)\<rparr>)"

definition ram_put16 :: "u32 \<Rightarrow> i16 \<Rightarrow> spu \<Rightarrow> spu" where
  "ram_put16 a v s =
     s\<lparr>spu_ram := (spu_ram s)(unat a := ucast (v AND 0xFF), unat (a + 1) := ucast (drop_bit 8 v AND 0xFF))\<rparr>"

definition ram_get16 :: "u32 \<Rightarrow> spu \<Rightarrow> i16" where
  "ram_get16 a s = ucast (spu_ram s (unat a)) OR push_bit 8 (ucast (spu_ram s (unat (a + 1))))"

subsection \<open>The CD input queue\<close>

definition spu_cd_audio_reset :: "spu \<Rightarrow> spu" where
  "spu_cd_audio_reset s = s\<lparr>cd_ring := (\<lambda>_. 0), cd_read_pos := 0, cd_write_pos := 0, cd_frame_count := 0,
     cd_push_frames := 0, cd_overflow_frames := 0, cd_underflow_frames := 0\<rparr>"

definition cd_put :: "i16 \<times> i16 \<Rightarrow> spu \<Rightarrow> spu" where
  "cd_put fr s =
     (let w = unat (cd_write_pos s)
      in s\<lparr>cd_ring := (cd_ring s)(w * 2 := fst fr, w * 2 + 1 := snd fr),
           cd_write_pos := (cd_write_pos s + 1) mod SPU_CD_RING_FRAMES\<rparr>)"

text \<open>Making room: the oldest frames are dropped.\<close>

definition cd_make_room :: "u32 \<Rightarrow> spu \<Rightarrow> spu" where
  "cd_make_room in_frames s =
     (if cd_frame_count s + in_frames > SPU_CD_RING_FRAMES
      then let dropped = (cd_frame_count s + in_frames) - SPU_CD_RING_FRAMES
           in s\<lparr>cd_read_pos := (cd_read_pos s + dropped) mod SPU_CD_RING_FRAMES,
                cd_frame_count := cd_frame_count s - dropped,
                cd_overflow_frames := cd_overflow_frames s + ucast dropped\<rparr>
      else s)"

definition spu_cd_audio_push :: "(i16 \<times> i16) list \<Rightarrow> spu \<Rightarrow> spu" where
  "spu_cd_audio_push stereo s =
     (if stereo = [] then s
      else let frames = word_of_nat (length stereo) :: u32;
               skip = (if frames > SPU_CD_RING_FRAMES then frames - SPU_CD_RING_FRAMES else 0);
               s = s\<lparr>cd_overflow_frames := cd_overflow_frames s + ucast skip\<rparr>;
               in_frames = frames - skip;
               s = fold cd_put (drop (unat skip) stereo) (cd_make_room in_frames s)
           in s\<lparr>cd_frame_count := cd_frame_count s + in_frames, cd_push_frames := cd_push_frames s + ucast in_frames\<rparr>)"

definition cd_audio_pop :: "spu \<Rightarrow> (i16 \<times> i16) option \<times> spu" where
  "cd_audio_pop s =
     (if cd_frame_count s = 0 then (None, s)
      else let r = unat (cd_read_pos s)
           in (Some (cd_ring s (r * 2), cd_ring s (r * 2 + 1)),
               s\<lparr>cd_read_pos := (cd_read_pos s + 1) mod SPU_CD_RING_FRAMES, cd_frame_count := cd_frame_count s - 1\<rparr>))"

subsection \<open>ADPCM blocks\<close>

definition adpcm_f0 :: "nat \<Rightarrow> int" where
  "adpcm_f0 k = [0, 60, 115, 98, 122] ! k"

definition adpcm_f1 :: "nat \<Rightarrow> int" where
  "adpcm_f1 k = [0, 0, -52, -55, -60] ! k"

definition adpcm_sample :: "nat \<Rightarrow> nat \<Rightarrow> u8 \<Rightarrow> i16 \<Rightarrow> i16 \<Rightarrow> i16" where
  "adpcm_sample flt shift nib h1 h2 =
     (let s4 = uint nib; s4 = (if nib AND 0x08 \<noteq> 0 then s4 - 0x10 else s4);
          s = drop_bit shift (push_bit 12 s4);
          s = s + drop_bit 6 (sint h1 * adpcm_f0 flt + sint h2 * adpcm_f1 flt + 32)
      in to_i16 (clamp16 s))"

fun adpcm_run :: "nat \<Rightarrow> nat \<Rightarrow> u8 list \<Rightarrow> i16 \<Rightarrow> i16 \<Rightarrow> i16 list" where
  "adpcm_run flt shift [] h1 h2 = []"
| "adpcm_run flt shift (n # ns) h1 h2 =
     (let s = adpcm_sample flt shift n h1 h2 in s # adpcm_run flt shift ns s h1)"

definition nibbles :: "u8 list \<Rightarrow> u8 list" where
  "nibbles bs = concat (map (\<lambda>b. [b AND 0x0F, drop_bit 4 b]) bs)"

text \<open>The flt keeps the last two samples, which after 28 of them are the last two of the block.\<close>

definition decode_samples :: "u8 list \<Rightarrow> spu_voice \<Rightarrow> spu_voice" where
  "decode_samples blk v =
     (let header = blk ! 0;
          shift = unat (header AND 0x0F); flt = unat (drop_bit 4 header AND 0x0F);
          flt = (if flt > 4 then 0 else flt);
          shift = (if shift > 12 then 12 else shift);
          out = adpcm_run flt shift (nibbles (take 14 (drop 2 blk))) (hist1 v) (hist2 v)
      in v\<lparr>previous_samples := [samples v ! 25, samples v ! 26, samples v ! 27],
           samples := out, hist1 := out ! 27, hist2 := out ! 26\<rparr>)"

definition block_addr :: "spu_voice \<Rightarrow> u32" where
  "block_addr v =
     (let addr = cur_addr v AND (SPU_RAM_SIZE - 1) in if addr + 16 > SPU_RAM_SIZE then 0 else addr)"

definition decode_block :: "nat \<Rightarrow> spu \<Rightarrow> spu" where
  "decode_block i s =
     (let addr = block_addr (voices s i);
          s = spu_irq_check addr 16 s;
          blk = map (\<lambda>k. spu_ram s (unat addr + k)) [0..<16];
          fl = blk ! 1;
          s = upd_voice i (decode_samples blk) s;
          s = (if fl AND 0x04 \<noteq> 0
               then (upd_voice i (\<lambda>v. v\<lparr>repeat_addr := addr\<rparr>) s)
                      \<lparr>spu_regs := (spu_regs s)(i * 8 + 7 := ucast (drop_bit 3 addr))\<rparr>
               else s);
          s = upd_voice i (\<lambda>v. v\<lparr>vflags := fl, sample_idx := 0,
                                 cur_addr := (addr + 16) AND (SPU_RAM_SIZE - 1)\<rparr>) s
      in if fl AND 0x01 \<noteq> 0 then s\<lparr>endx_latch := endx_latch s OR push_bit i 1\<rparr> else s)"

subsection \<open>Interpolation\<close>

definition spu_gauss_table :: "int list" where
  "spu_gauss_table = [
     -1, -1, -1, -1, -1, -1, -1, -1, -1, -1, -1, -1, -1, -1, -1, -1,
     0, 0, 0, 0, 0, 0, 0, 1, 1, 1, 1, 2, 2, 2, 3, 3,
     3, 4, 4, 5, 5, 6, 7, 7, 8, 9, 9, 10, 11, 12, 13, 14,
     15, 16, 17, 18, 19, 21, 22, 24, 25, 27, 28, 30, 32, 33, 35, 37,
     39, 41, 44, 46, 48, 51, 53, 56, 58, 61, 64, 67, 70, 73, 77, 80,
     84, 87, 91, 95, 99, 103, 107, 111, 116, 120, 125, 130, 135, 140, 145, 150,
     156, 161, 167, 173, 179, 186, 192, 199, 205, 212, 219, 227, 234, 242, 250, 257,
     266, 274, 283, 291, 300, 309, 319, 328, 338, 348, 358, 369, 379, 390, 401, 412,
     424, 436, 448, 460, 473, 485, 498, 512, 525, 539, 553, 567, 582, 597, 612, 627,
     643, 659, 675, 692, 708, 726, 743, 761, 779, 797, 816, 835, 854, 874, 894, 914,
     935, 956, 977, 999, 1020, 1043, 1066, 1089, 1112, 1136, 1160, 1184, 1209, 1234, 1260, 1286,
     1312, 1339, 1366, 1394, 1422, 1450, 1479, 1508, 1537, 1567, 1598, 1628, 1660, 1691, 1723, 1756,
     1789, 1822, 1856, 1890, 1924, 1959, 1995, 2031, 2067, 2104, 2141, 2179, 2217, 2256, 2295, 2334,
     2374, 2415, 2456, 2497, 2539, 2582, 2624, 2668, 2712, 2756, 2801, 2846, 2892, 2938, 2985, 3032,
     3079, 3128, 3176, 3225, 3275, 3325, 3376, 3427, 3479, 3531, 3584, 3637, 3691, 3745, 3799, 3855,
     3910, 3967, 4023, 4081, 4138, 4197, 4255, 4315, 4374, 4435, 4495, 4557, 4619, 4681, 4744, 4807,
     4871, 4935, 5000, 5065, 5131, 5197, 5264, 5332, 5399, 5468, 5536, 5606, 5676, 5746, 5817, 5888,
     5959, 6032, 6104, 6177, 6251, 6325, 6400, 6475, 6550, 6626, 6702, 6779, 6856, 6934, 7012, 7091,
     7170, 7249, 7329, 7409, 7490, 7571, 7653, 7735, 7817, 7900, 7983, 8066, 8150, 8234, 8319, 8404,
     8489, 8575, 8661, 8748, 8834, 8922, 9009, 9097, 9185, 9273, 9362, 9451, 9541, 9630, 9720, 9811,
     9901, 9992, 10083, 10174, 10266, 10358, 10450, 10542, 10635, 10727, 10820, 10913, 11007, 11100, 11194, 11288,
     11382, 11476, 11571, 11665, 11760, 11855, 11950, 12045, 12140, 12236, 12331, 12427, 12522, 12618, 12714, 12809,
     12905, 13001, 13097, 13193, 13289, 13385, 13481, 13577, 13673, 13769, 13865, 13961, 14056, 14152, 14248, 14343,
     14439, 14534, 14630, 14725, 14820, 14915, 15010, 15104, 15199, 15293, 15387, 15481, 15575, 15669, 15762, 15855,
     15948, 16041, 16133, 16226, 16317, 16409, 16500, 16592, 16682, 16773, 16863, 16953, 17042, 17131, 17220, 17308,
     17396, 17484, 17571, 17658, 17744, 17830, 17916, 18001, 18086, 18170, 18254, 18337, 18420, 18502, 18584, 18665,
     18746, 18826, 18905, 18985, 19063, 19141, 19219, 19295, 19372, 19447, 19522, 19597, 19671, 19744, 19816, 19888,
     19959, 20030, 20100, 20169, 20238, 20306, 20373, 20439, 20505, 20570, 20634, 20698, 20760, 20822, 20884, 20944,
     21004, 21063, 21121, 21178, 21235, 21290, 21345, 21399, 21452, 21505, 21556, 21607, 21657, 21706, 21754, 21801,
     21848, 21893, 21938, 21982, 22025, 22066, 22107, 22148, 22187, 22225, 22262, 22299, 22334, 22369, 22402, 22435,
     22467, 22498, 22527, 22556, 22584, 22611, 22637, 22662, 22686, 22709, 22731, 22752, 22772, 22791, 22809, 22826,
     22842, 22857, 22872, 22885, 22897, 22908, 22918, 22927, 22935, 22942, 22948, 22953, 22957, 22960, 22962, 22963]"

definition gauss_tap :: "i16 list \<Rightarrow> i16 list \<Rightarrow> int \<Rightarrow> int" where
  "gauss_tap previous smp offset = sint (if offset \<ge> 0 then smp ! nat offset else previous ! nat (3 + offset))"

definition spu_gaussian_interpolate :: "i16 list \<Rightarrow> i16 list \<Rightarrow> int \<Rightarrow> u32 \<Rightarrow> i16" where
  "spu_gaussian_interpolate previous smp idx ph =
     (let g = unat (drop_bit 4 ph AND 0xFF);
          acc = spu_gauss_table ! (0x0FF - g) * gauss_tap previous smp (idx - 3)
              + spu_gauss_table ! (0x1FF - g) * gauss_tap previous smp (idx - 2)
              + spu_gauss_table ! (0x100 + g) * gauss_tap previous smp (idx - 1)
              + spu_gauss_table ! g * gauss_tap previous smp idx
      in to_i16 (drop_bit 15 acc))"

subsection \<open>Noise and capture\<close>

definition noise_parity :: "u16 \<Rightarrow> u16" where
  "noise_parity l = (drop_bit 15 l XOR drop_bit 12 l XOR drop_bit 11 l XOR drop_bit 10 l XOR 1) AND 1"

definition noise_shift :: "u16 \<Rightarrow> u16" where
  "noise_shift l = push_bit 1 l OR noise_parity l"

definition noise_clock :: "u16 \<Rightarrow> spu \<Rightarrow> spu" where
  "noise_clock ctrl s =
     (let step = 4 + uint (drop_bit 8 ctrl AND 3);
          shift = unat (drop_bit 10 ctrl AND 0x0F);
          reload = drop_bit shift (0x20000 :: int);
          t = noise_timer s - step
      in if t < 0
         then let t = t + reload in
              s\<lparr>noise_lfsr := noise_shift (noise_lfsr s), noise_timer := (if t < 0 then t + reload else t)\<rparr>
         else s\<lparr>noise_timer := t\<rparr>)"

definition capture_write :: "u32 \<Rightarrow> i16 \<Rightarrow> spu \<Rightarrow> spu" where
  "capture_write base v s =
     (let a = (base + capture_pos s) AND (SPU_RAM_SIZE - 1) in ram_put16 a v (spu_irq_check a 2 s))"

subsection \<open>Reverb\<close>

definition rev_mul :: "int \<Rightarrow> int \<Rightarrow> int" where
  "rev_mul vol x = drop_bit 15 (vol * x)"

definition rev_mbase :: "spu \<Rightarrow> u32" where
  "rev_mbase s = push_bit 3 (ucast (rreg 0x1F801DA2 s)) AND 0x7FFFE"

text \<open>C's remainder, with one correction when it is negative.\<close>

definition rev_ea :: "u32 \<Rightarrow> int \<Rightarrow> spu \<Rightarrow> u32" where
  "rev_ea reg bias s =
     (let base = rev_mbase s;
          size = SPU_RAM_SIZE - base;
          rel = uint (rev_cur s) - uint base + push_bit 3 (uint (rreg reg s)) + bias;
          rel = rel smod uint size;
          rel = (if rel < 0 then rel + uint size else rel)
      in (base + word_of_int rel) AND 0x7FFFE)"

definition rev_read :: "u32 \<Rightarrow> int \<Rightarrow> spu \<Rightarrow> int \<times> spu" where
  "rev_read reg bias s =
     (let a = rev_ea reg bias s; s = spu_irq_check a 2 s in (sint (ram_get16 a s), s))"

definition rev_write :: "u32 \<Rightarrow> int \<Rightarrow> bool \<Rightarrow> spu \<Rightarrow> spu" where
  "rev_write reg v wren s =
     (if \<not> wren then s
      else let a = rev_ea reg 0 s in ram_put16 a (to_i16 (clamp16 v)) (spu_irq_check a 2 s))"

text \<open>One reflection: \<open>[m] = (in + [d] * vWALL - [m-2]) * vIIR + [m-2]\<close>.\<close>

definition rev_reflect :: "u32 \<Rightarrow> u32 \<Rightarrow> int \<Rightarrow> bool \<Rightarrow> spu \<Rightarrow> spu" where
  "rev_reflect m d inp wren s =
     (let (prev, s) = rev_read m (-2) s;
          (wall, s) = rev_read d 0 s
      in rev_write m (rev_mul (rvol 0x1F801DC4 s) (inp + rev_mul (rvol 0x1F801DCE s) wall - prev) + prev) wren s)"

definition rev_comb :: "u32 \<Rightarrow> u32 \<Rightarrow> u32 \<Rightarrow> u32 \<Rightarrow> spu \<Rightarrow> int \<times> spu" where
  "rev_comb m1 m2 m3 m4 s =
     (let (a, s) = rev_read m1 0 s; (b, s) = rev_read m2 0 s; (c, s) = rev_read m3 0 s; (d, s) = rev_read m4 0 s
      in (rev_mul (rvol 0x1F801DC6 s) a + rev_mul (rvol 0x1F801DC8 s) b
          + rev_mul (rvol 0x1F801DCA s) c + rev_mul (rvol 0x1F801DCC s) d, s))"

text \<open>One all-pass filter: \<open>out -= v * [m-d]; [m] = out; out = out * v + [m-d]\<close>.\<close>

definition rev_allpass :: "u32 \<Rightarrow> u32 \<Rightarrow> u32 \<Rightarrow> int \<Rightarrow> bool \<Rightarrow> spu \<Rightarrow> int \<times> spu" where
  "rev_allpass m dreg vreg out wren s =
     (let d = - push_bit 3 (uint (rreg dreg s)); v = rvol vreg s;
          (x, s) = rev_read m d s;
          out = out - rev_mul v x;
          s = rev_write m out wren s;
          (y, s) = rev_read m d s
      in (rev_mul v (clamp16 out) + y, s))"

definition rev_advance :: "spu \<Rightarrow> spu" where
  "rev_advance s =
     (let c = (rev_cur s + 2) AND 0x7FFFE in s\<lparr>rev_cur := (if c < rev_mbase s then rev_mbase s else c)\<rparr>)"

definition reverb_step :: "int \<Rightarrow> int \<Rightarrow> bool \<Rightarrow> spu \<Rightarrow> spu" where
  "reverb_step in_l in_r wren s =
     (let lin = rev_mul (rvol 0x1F801DFC s) in_l;
          rin = rev_mul (rvol 0x1F801DFE s) in_r;
          s = rev_reflect 0x1F801DD4 0x1F801DE0 lin wren s;
          s = rev_reflect 0x1F801DD6 0x1F801DE2 rin wren s;
          s = rev_reflect 0x1F801DE4 0x1F801DF2 lin wren s;
          s = rev_reflect 0x1F801DE6 0x1F801DF0 rin wren s;
          (l, s) = rev_comb 0x1F801DD8 0x1F801DDC 0x1F801DE8 0x1F801DEC s;
          (r, s) = rev_comb 0x1F801DDA 0x1F801DDE 0x1F801DEA 0x1F801DEE s;
          (l, s) = rev_allpass 0x1F801DF4 0x1F801DC0 0x1F801DD0 l wren s;
          (r, s) = rev_allpass 0x1F801DF6 0x1F801DC0 0x1F801DD0 r wren s;
          (l, s) = rev_allpass 0x1F801DF8 0x1F801DC2 0x1F801DD2 l wren s;
          (r, s) = rev_allpass 0x1F801DFA 0x1F801DC2 0x1F801DD2 r wren s
      in rev_advance (s\<lparr>rev_out_l := rev_mul (rvol 0x1F801D84 s) (clamp16 l),
                        rev_out_r := rev_mul (rvol 0x1F801D86 s) (clamp16 r)\<rparr>))"

definition rev_reconstruct :: "int \<Rightarrow> int \<Rightarrow> int" where
  "rev_reconstruct prev_step cur_step = drop_bit 1 (prev_step + cur_step)"

subsection \<open>Voices\<close>

text \<open>The end of a block with the end flag: the repeat address, and silence unless it loops.\<close>

definition voice_wrap :: "spu_voice \<Rightarrow> spu_voice" where
  "voice_wrap v =
     (if vflags v AND 0x01 = 0 then v
      else let v = v\<lparr>cur_addr := repeat_addr v AND (SPU_RAM_SIZE - 1)\<rparr>
           in if vflags v AND 0x02 \<noteq> 0 then v
              else v\<lparr>adsr_phase := ADSR_RELEASE, adsr_divider := 0, env_level := 0\<rparr>)"

definition voice_fetch :: "nat \<Rightarrow> spu \<Rightarrow> spu" where
  "voice_fetch i s =
     (if sample_idx (voices s i) \<ge> SPU_BLOCK_SAMPLES then decode_block i (upd_voice i voice_wrap s) else s)"

definition voice_raw :: "nat \<Rightarrow> spu \<Rightarrow> i16" where
  "voice_raw i s =
     (let v = voices s i
      in if bit (reg_pair 0x1F801D94 0x1F801D96 s) i then noise_lfsr s
         else spu_gaussian_interpolate (previous_samples v) (samples v) (sample_idx v) (phase v))"

definition voice_shaped :: "i16 \<Rightarrow> u16 \<Rightarrow> int" where
  "voice_shaped raw env =
     (let x = drop_bit 15 (sint raw * uint env); x = (if x > 32767 then 32767 else x)
      in if x < -32768 then -32768 else x)"

definition voice_pitch :: "nat \<Rightarrow> spu \<Rightarrow> u32" where
  "voice_pitch i s = (let p = ucast (voice_reg i 2 s) AND 0x3FFF in if p = 0 then 0x1000 else p)"

text \<open>The loop that takes whole samples off the phase, up to the end of the block.\<close>

function phase_walk :: "u32 \<Rightarrow> int \<Rightarrow> u32 \<times> int" where
  "phase_walk ph idx =
     (if ph \<ge> 0x1000
      then if idx + 1 \<ge> SPU_BLOCK_SAMPLES then (ph - 0x1000, idx + 1) else phase_walk (ph - 0x1000) (idx + 1)
      else (ph, idx))"
  by pat_completeness auto
termination
  by (relation "measure (\<lambda>(p, i). unat p)") (auto simp: word_le_nat_alt unat_sub)

declare phase_walk.simps [simp del]

definition voice_advance :: "u32 \<Rightarrow> spu_voice \<Rightarrow> spu_voice" where
  "voice_advance pitch v =
     (let (ph, idx) = phase_walk (phase v + pitch) (sample_idx v) in v\<lparr>phase := ph, sample_idx := idx\<rparr>)"

definition voice_envelope :: "u32 \<Rightarrow> spu_voice \<Rightarrow> spu_voice" where
  "voice_envelope raw v =
     (let v = adsr_run raw v
      in if adsr_phase v = ADSR_RELEASE \<and> env_level v = 0 then v\<lparr>active := False\<rparr> else v)"

definition voice_next_sample :: "nat \<Rightarrow> spu \<Rightarrow> i16 \<times> spu" where
  "voice_next_sample i s =
     (if \<not> active (voices s i) then (0, s)
      else let s = voice_fetch i s;
               shaped = voice_shaped (voice_raw i s) (env_level (voices s i));
               s = upd_voice i (voice_envelope (adsr_raw i s)) s
           in (to_i16 shaped, upd_voice i (voice_advance (voice_pitch i s)) s))"

definition voice_zero :: spu_voice where
  "voice_zero = \<lparr>active = False, cur_addr = 0, repeat_addr = 0, samples = replicate 28 0,
     previous_samples = [0, 0, 0], sample_idx = 0, phase = 0, hist1 = 0, hist2 = 0, vflags = 0,
     env_level = 0, adsr_divider = 0, adsr_phase = 0\<rparr>"

definition key_on_voice :: "u32 \<Rightarrow> nat \<Rightarrow> spu \<Rightarrow> spu" where
  "key_on_voice msk i s =
     (if \<not> bit msk i then s
      else (upd_voice i (\<lambda>_. voice_zero\<lparr>active := True,
               cur_addr := push_bit 3 (ucast (voice_reg i 3 s)) AND (SPU_RAM_SIZE - 1),
               repeat_addr := push_bit 3 (ucast (voice_reg i 7 s)) AND (SPU_RAM_SIZE - 1),
               sample_idx := SPU_BLOCK_SAMPLES, env_level := 0, adsr_divider := 0, adsr_phase := ADSR_ATTACK\<rparr>) s)
             \<lparr>key_on_count := key_on_count s + 1, endx_latch := endx_latch s AND NOT (push_bit i 1)\<rparr>)"

definition key_on :: "u32 \<Rightarrow> spu \<Rightarrow> spu" where
  "key_on msk s = fold (key_on_voice msk) [0..<24] s"

definition key_off_voice :: "u32 \<Rightarrow> nat \<Rightarrow> spu \<Rightarrow> spu" where
  "key_off_voice msk i s =
     (if \<not> bit msk i then s
      else if \<not> active (voices s i) then s
      else upd_voice i (\<lambda>v. v\<lparr>adsr_phase := ADSR_RELEASE, adsr_divider := 0\<rparr>) s)"

definition key_off :: "u32 \<Rightarrow> spu \<Rightarrow> spu" where
  "key_off msk s = fold (key_off_voice msk) [0..<24] s"

definition sweep_zero :: sweep_env where
  "sweep_zero = \<lparr>level = 0, divider = 0\<rparr>"

definition spu_init :: "spu \<Rightarrow> spu" where
  "spu_init s =
     spu_cd_audio_reset (s\<lparr>spu_ram := (\<lambda>_. 0), spu_regs := (\<lambda>_. 0), voices := (\<lambda>_. voice_zero),
       transfer_addr := 0, key_on_count := 0, endx_latch := 0, kon_latch := 0, koff_latch := 0,
       irq_flag := False, noise_lfsr := 0, noise_timer := 0, rev_cur := 0, rev_phase := False,
       rev_in_hold_l := 0, rev_in_hold_r := 0, rev_out_l := 0, rev_out_r := 0, capture_pos := 0,
       sweep_voice_env := (\<lambda>_ _. sweep_zero), sweep_main_env := (\<lambda>_. sweep_zero)\<rparr>)"

subsection \<open>The mixer\<close>

text \<open>Presentation gains of the host, outside the emulated state.\<close>

definition percent :: "int \<Rightarrow> int" where
  "percent p = (if p < 0 then 0 else if p > 100 then 100 else p)"

definition spu_set_host_mix_volume :: "int \<Rightarrow> int \<Rightarrow> spu \<Rightarrow> spu" where
  "spu_set_host_mix_volume sfx music s = s\<lparr>host_sfx_percent := percent sfx, host_music_percent := percent music\<rparr>"

definition host_mix_sample :: "int \<Rightarrow> int \<Rightarrow> i16 \<Rightarrow> spu \<Rightarrow> i16" where
  "host_mix_sample tot music main s =
     (let mixed = ((tot - music) * host_sfx_percent s + music * host_music_percent s) sdiv 100
      in to_i16 (clamp16 (drop_bit 15 (clamp16 mixed * sint main))))"

text \<open>What a call of \<open>spu_render\<close> reads once, before its frames.\<close>

record block =
  b_ctrl :: u16
  b_cd_l :: int
  b_cd_r :: int
  b_eon :: u32
  b_any :: bool

definition b_enabled :: "block \<Rightarrow> bool" where "b_enabled b \<longleftrightarrow> b_ctrl b AND 0x8000 \<noteq> 0"
definition b_cd_on :: "block \<Rightarrow> bool" where "b_cd_on b \<longleftrightarrow> b_ctrl b AND 0x0001 \<noteq> 0"
definition b_cd_rev :: "block \<Rightarrow> bool" where "b_cd_rev b \<longleftrightarrow> b_cd_on b \<and> b_ctrl b AND 0x0004 \<noteq> 0"
definition b_rev_wren :: "block \<Rightarrow> bool" where "b_rev_wren b \<longleftrightarrow> b_ctrl b AND 0x0080 \<noteq> 0"

definition block_of :: "spu \<Rightarrow> block" where
  "block_of s = \<lparr>b_ctrl = spucnt s, b_cd_l = rvol 0x1F801DB0 s, b_cd_r = rvol 0x1F801DB2 s,
     b_eon = reg_pair 0x1F801D98 0x1F801D9A s,
     b_any = (spucnt s AND 0x8000 \<noteq> 0 \<and> (\<exists>v \<in> set [0..<24]. active (voices s v)))\<rparr>"

text \<open>One frame: what leaves the speaker, and the host's mix of the same frame.\<close>

record frame_out =
  f_out :: "i16 \<times> i16"
  f_host :: "i16 \<times> i16"

definition main_volume :: "nat \<Rightarrow> spu \<Rightarrow> i16" where
  "main_volume ch s = chan_volume (if ch = 0 then rreg 0x1F801D80 s else rreg 0x1F801D82 s) (sweep_main_env s ch)"

definition step_main_sweeps :: "spu \<Rightarrow> spu" where
  "step_main_sweeps s =
     s\<lparr>sweep_main_env := (\<lambda>ch. if ch = 0 then sweep_env_step (rreg 0x1F801D80 s) (sweep_main_env s 0)
        else if ch = 1 then sweep_env_step (rreg 0x1F801D82 s) (sweep_main_env s 1) else sweep_main_env s ch)\<rparr>"

definition step_voice_sweeps :: "spu \<Rightarrow> spu" where
  "step_voice_sweeps s =
     s\<lparr>sweep_voice_env := (\<lambda>v ch. if v < 24 \<and> ch < 2 then sweep_env_step (voice_reg v ch s) (sweep_voice_env s v ch)
        else sweep_voice_env s v ch)\<rparr>"

text \<open>The sums the 24 voices add up: left, right, the reverb sends, and the outputs of voices 1 and 3.\<close>

record voice_sums =
  vs_l :: int
  vs_r :: int
  vs_send_l :: int
  vs_send_r :: int
  vs_v1 :: i16
  vs_v3 :: i16

definition no_sums :: voice_sums where
  "no_sums = \<lparr>vs_l = 0, vs_r = 0, vs_send_l = 0, vs_send_r = 0, vs_v1 = 0, vs_v3 = 0\<rparr>"

definition voice_volume :: "nat \<Rightarrow> nat \<Rightarrow> spu \<Rightarrow> i16" where
  "voice_volume v ch s = chan_volume (voice_reg v ch s) (sweep_voice_env s v ch)"

definition add_voice :: "u32 \<Rightarrow> nat \<Rightarrow> i16 \<Rightarrow> i16 \<Rightarrow> i16 \<Rightarrow> voice_sums \<Rightarrow> voice_sums" where
  "add_voice eon v x vl vr a =
     (let a = a\<lparr>vs_v1 := (if v = 1 then x else vs_v1 a), vs_v3 := (if v = 3 then x else vs_v3 a)\<rparr>
      in if x = 0 then a
         else let cl = drop_bit 15 (sint x * sint vl); cr = drop_bit 15 (sint x * sint vr);
                  a = a\<lparr>vs_l := vs_l a + cl, vs_r := vs_r a + cr\<rparr>
              in if bit eon v then a\<lparr>vs_send_l := vs_send_l a + cl, vs_send_r := vs_send_r a + cr\<rparr> else a)"

definition mix_voice :: "u32 \<Rightarrow> nat \<Rightarrow> voice_sums \<times> spu \<Rightarrow> voice_sums \<times> spu" where
  "mix_voice eon v p =
     (let (x, s) = voice_next_sample v (snd p)
      in (add_voice eon v x (voice_volume v 0 s) (voice_volume v 1 s) (fst p), s))"

definition mix_voices :: "u32 \<Rightarrow> spu \<Rightarrow> voice_sums \<times> spu" where
  "mix_voices eon s = fold (mix_voice eon) [0..<24] (no_sums, s)"

text \<open>The CD input: the frame taken from the queue, and what it adds to the mix.\<close>

definition cd_input :: "block \<Rightarrow> spu \<Rightarrow> (i16 \<times> i16) \<times> spu" where
  "cd_input b s =
     (case cd_audio_pop s of (Some fr, s) \<Rightarrow> (fr, s)
      | (None, s) \<Rightarrow> ((0, 0), if b_cd_on b \<and> cd_push_frames s \<noteq> 0
                               then s\<lparr>cd_underflow_frames := cd_underflow_frames s + 1\<rparr> else s))"

definition cd_gain :: "bool \<Rightarrow> i16 \<Rightarrow> int \<Rightarrow> int" where
  "cd_gain on x vol = (if on then drop_bit 15 (sint x * vol) else 0)"

definition capture_frame :: "i16 \<times> i16 \<Rightarrow> i16 \<Rightarrow> i16 \<Rightarrow> spu \<Rightarrow> spu" where
  "capture_frame cd v1 v3 s =
     (let s = capture_write 0 (fst cd) s; s = capture_write 0x400 (snd cd) s;
          s = capture_write 0x800 v1 s; s = capture_write 0xC00 v3 s
      in s\<lparr>capture_pos := (capture_pos s + 2) AND 0x3FF\<rparr>)"

text \<open>The 22050 Hz reverb at the 44100 Hz boundary: one engine step for two frames.\<close>

definition reverb_frame :: "bool \<Rightarrow> int \<Rightarrow> int \<Rightarrow> spu \<Rightarrow> (int \<times> int) \<times> spu" where
  "reverb_frame wren send_l send_r s =
     (if \<not> rev_phase s
      then ((rev_out_l s, rev_out_r s), s\<lparr>rev_in_hold_l := send_l, rev_in_hold_r := send_r, rev_phase := True\<rparr>)
      else let prev_l = rev_out_l s; prev_r = rev_out_r s;
               s = reverb_step (clamp16 (drop_bit 1 (rev_in_hold_l s + send_l)))
                     (clamp16 (drop_bit 1 (rev_in_hold_r s + send_r))) wren s
           in ((rev_reconstruct prev_l (rev_out_l s), rev_reconstruct prev_r (rev_out_r s)), s\<lparr>rev_phase := False\<rparr>))"

definition main_out :: "int \<Rightarrow> i16 \<Rightarrow> i16" where
  "main_out mix main = to_i16 (clamp16 (drop_bit 15 (clamp16 mix * sint main)))"

text \<open>From the voices' sums to the output: CD, capture, noise, reverb, main volume.\<close>

definition finish_frame :: "block \<Rightarrow> i16 \<Rightarrow> i16 \<Rightarrow> voice_sums \<times> spu \<Rightarrow> frame_out \<times> spu" where
  "finish_frame b main_l main_r p =
     (let (a, s) = p;
          (cd, s) = cd_input b s;
          ccl = cd_gain (b_cd_on b) (fst cd) (b_cd_l b); ccr = cd_gain (b_cd_on b) (snd cd) (b_cd_r b);
          send_l = vs_send_l a + (if b_cd_rev b then ccl else 0);
          send_r = vs_send_r a + (if b_cd_rev b then ccr else 0);
          s = noise_clock (b_ctrl b) (capture_frame cd (vs_v1 a) (vs_v3 a) s);
          (wet, s) = reverb_frame (b_rev_wren b) send_l send_r s;
          mix_l = vs_l a + ccl + fst wet; mix_r = vs_r a + ccr + snd wet;
          wet_cd = b_cd_rev b \<and> b_eon b = 0;
          music_l = ccl + (if wet_cd then fst wet else 0); music_r = ccr + (if wet_cd then snd wet else 0)
      in (\<lparr>f_out = (main_out mix_l main_l, main_out mix_r main_r),
           f_host = (host_mix_sample mix_l music_l main_l s, host_mix_sample mix_r music_r main_r s)\<rparr>, s))"

definition spu_frame :: "block \<Rightarrow> spu \<Rightarrow> frame_out \<times> spu" where
  "spu_frame b s =
     (if \<not> b_enabled b then (\<lparr>f_out = (0, 0), f_host = (0, 0)\<rparr>, s)
      else let main_l = main_volume 0 s; main_r = main_volume 1 s;
               s = step_main_sweeps s;
               s = (if b_any b then step_voice_sweeps s else s)
           in finish_frame b main_l main_r (if b_any b then mix_voices (b_eon b) s else (no_sums, s)))"

text \<open>
  The copy of the loop for blocks without a voice, as the code has it: no voice is walked and the
  capture slots of voices 1 and 3 get 0.
\<close>

definition spu_frame_silent :: "block \<Rightarrow> spu \<Rightarrow> frame_out \<times> spu" where
  "spu_frame_silent b s =
     (let main_l = main_volume 0 s; main_r = main_volume 1 s;
          s = step_main_sweeps s;
          (cd, s) = cd_input b s;
          ccl = cd_gain (b_cd_on b) (fst cd) (b_cd_l b); ccr = cd_gain (b_cd_on b) (snd cd) (b_cd_r b);
          s = capture_write 0 (fst cd) s; s = capture_write 0x400 (snd cd) s;
          s = capture_write 0x800 0 s; s = capture_write 0xC00 0 s;
          s = noise_clock (b_ctrl b) (s\<lparr>capture_pos := (capture_pos s + 2) AND 0x3FF\<rparr>);
          (wet, s) = reverb_frame (b_rev_wren b) (if b_cd_rev b then ccl else 0) (if b_cd_rev b then ccr else 0) s;
          mix_l = ccl + fst wet; mix_r = ccr + snd wet;
          wet_cd = b_cd_rev b \<and> b_eon b = 0;
          music_l = ccl + (if wet_cd then fst wet else 0); music_r = ccr + (if wet_cd then snd wet else 0)
      in (\<lparr>f_out = (main_out mix_l main_l, main_out mix_r main_r),
           f_host = (host_mix_sample mix_l music_l main_l s, host_mix_sample mix_r music_r main_r s)\<rparr>, s))"

fun run_frames :: "(spu \<Rightarrow> frame_out \<times> spu) \<Rightarrow> nat \<Rightarrow> spu \<Rightarrow> frame_out list \<times> spu" where
  "run_frames step 0 s = ([], s)"
| "run_frames step (Suc n) s = (let (f, s) = step s; (fs, s) = run_frames step n s in (f # fs, s))"

text \<open>
  \<open>host_finish_mix\<close> with the shadow off: under custom gains the host's mix, to which the shadow's change of
  the block, here none, would be added.
\<close>

definition host_custom :: "spu \<Rightarrow> bool" where
  "host_custom s \<longleftrightarrow> host_sfx_percent s \<noteq> 100 \<or> host_music_percent s \<noteq> 100"

definition host_sample :: "spu \<Rightarrow> i16 \<Rightarrow> i16 \<Rightarrow> i16 \<Rightarrow> i16" where
  "host_sample s mix out canonical = to_i16 (clamp16 (sint mix + (sint out - sint canonical) * host_sfx_percent s sdiv 100))"

definition host_finish_mix :: "spu \<Rightarrow> frame_out \<Rightarrow> i16 \<times> i16" where
  "host_finish_mix s f =
     (if host_custom s
      then (host_sample s (fst (f_host f)) (fst (f_out f)) (fst (f_out f)),
            host_sample s (snd (f_host f)) (snd (f_out f)) (snd (f_out f)))
      else f_out f)"

definition render_block :: "nat \<Rightarrow> spu \<Rightarrow> (i16 \<times> i16) list \<times> spu" where
  "render_block n s =
     (let b = block_of s;
          (fs, s') = run_frames (if b_enabled b \<and> \<not> b_any b then spu_frame_silent b else spu_frame b) n s
      in (map (host_finish_mix s) fs, s'))"

function spu_render :: "nat \<Rightarrow> spu \<Rightarrow> (i16 \<times> i16) list \<times> spu" where
  "spu_render n s =
     (if n = 0 then ([], s)
      else if host_custom s \<and> n > 2048
      then let (xs, s) = render_block 2048 s; (ys, s) = spu_render (n - 2048) s in (xs @ ys, s)
      else render_block n s)"
  by pat_completeness auto
termination
  by (relation "measure fst") auto

declare spu_render.simps [simp del]

subsection \<open>Registers and DMA\<close>

definition spu_stat :: "spu \<Rightarrow> u32" where
  "spu_stat s =
     (let cnt = spucnt s;
          st = ucast ((cnt AND 0x3F) OR push_bit 7 (drop_bit 5 cnt AND 1)) :: u32;
          st = (if irq_flag s then st OR 0x40 else st)
      in if capture_pos s AND 0x200 \<noteq> 0 then st OR 0x800 else st)"

definition spu_read :: "u32 \<Rightarrow> spu \<Rightarrow> u32" where
  "spu_read addr s =
     (let idx = reg_index addr in
      if addr \<ge> 0x1F801C00 \<and> addr \<le> 0x1F801DFF then
        (if addr = 0x1F801DAE then spu_stat s
         else if addr = 0x1F801DB8 then ucast (main_volume 0 s)
         else if addr = 0x1F801DBA then ucast (main_volume 1 s)
         else if idx < 192 \<and> idx mod 8 \<le> 1 \<and> spu_regs s idx AND 0x8000 \<noteq> 0
         then ucast (level (sweep_voice_env s (idx div 8) (idx mod 8)))
         else if (addr = 0x1F801D80 \<or> addr = 0x1F801D82) \<and> spu_regs s idx AND 0x8000 \<noteq> 0
         then ucast (level (sweep_main_env s (if addr = 0x1F801D80 then 0 else 1)))
         else if addr = 0x1F801D9C then endx_latch s AND 0xFFFF
         else if addr = 0x1F801D9E then drop_bit 16 (endx_latch s) AND 0xFF
         else if idx < 192 \<and> idx mod 8 = 6 then ucast (env_level (voices s (idx div 8)))
         else ucast (spu_regs s idx))
      else if addr \<ge> 0x1F801E00 \<and> addr < 0x1F801E60 then
        (let half = unat (drop_bit 1 (addr - 0x1F801E00)) in ucast (voice_volume (half div 2) (half mod 2) s))
      else 0)"

text \<open>The effects of a register write, one after another.\<close>

definition write_voice_reg :: "nat \<Rightarrow> u16 \<Rightarrow> spu \<Rightarrow> spu" where
  "write_voice_reg idx v s =
     (let s = (if idx < 192 \<and> idx mod 8 = 7
               then upd_voice (idx div 8) (\<lambda>x. x\<lparr>repeat_addr := push_bit 3 (ucast v) AND (SPU_RAM_SIZE - 1)\<rparr>) s else s)
      in if idx < 192 \<and> idx mod 8 \<le> 1
         then s\<lparr>sweep_voice_env := (sweep_voice_env s)(idx div 8 := (sweep_voice_env s (idx div 8))
                  (idx mod 8 := sweep_env_write v (sweep_voice_env s (idx div 8) (idx mod 8))))\<rparr>
         else s)"

definition write_main_volume :: "nat \<Rightarrow> u16 \<Rightarrow> spu \<Rightarrow> spu" where
  "write_main_volume ch v s = s\<lparr>sweep_main_env := (sweep_main_env s)(ch := sweep_env_write v (sweep_main_env s ch))\<rparr>"

definition set_transfer_addr :: "u16 \<Rightarrow> spu \<Rightarrow> spu" where
  "set_transfer_addr v s =
     (let t = push_bit 3 (ucast v); t = (if t \<ge> SPU_RAM_SIZE then 0 else t)
      in spu_irq_check t 2 (s\<lparr>transfer_addr := t\<rparr>))"

definition fifo_write :: "u16 \<Rightarrow> spu \<Rightarrow> spu" where
  "fifo_write v s =
     (let s = spu_irq_check (transfer_addr s) 2 s; t = transfer_addr s;
          s = (if t + 1 < SPU_RAM_SIZE then ram_put16 t v s else s)
      in s\<lparr>transfer_addr := (t + 2) mod SPU_RAM_SIZE\<rparr>)"

definition spu_write :: "u32 \<Rightarrow> u32 \<Rightarrow> spu \<Rightarrow> spu" where
  "spu_write addr value s =
     (if \<not> (addr \<ge> 0x1F801C00 \<and> addr \<le> 0x1F801DFF) then s
      else let v = ucast value :: u16; idx = reg_index addr;
               s = write_voice_reg idx v (s\<lparr>spu_regs := (spu_regs s)(idx := v)\<rparr>)
      in if addr = 0x1F801D80 then write_main_volume 0 v s
         else if addr = 0x1F801D82 then write_main_volume 1 v s
         else if addr = 0x1F801DA2 then s\<lparr>rev_cur := rev_mbase s\<rparr>
         else if addr = 0x1F801DA4 then spu_irq_check (transfer_addr s) 2 s
         else if addr = 0x1F801D88 then key_on (ucast v) (s\<lparr>kon_latch := (kon_latch s AND 0xFFFF0000) OR ucast v\<rparr>)
         else if addr = 0x1F801D8A
         then key_on (push_bit 16 (ucast v)) (s\<lparr>kon_latch := (kon_latch s AND 0x0000FFFF) OR push_bit 16 (ucast v)\<rparr>)
         else if addr = 0x1F801D8C then key_off (ucast v) (s\<lparr>koff_latch := (koff_latch s AND 0xFFFF0000) OR ucast v\<rparr>)
         else if addr = 0x1F801D8E
         then key_off (push_bit 16 (ucast v)) (s\<lparr>koff_latch := (koff_latch s AND 0x0000FFFF) OR push_bit 16 (ucast v)\<rparr>)
         else if addr = 0x1F801DA6 then set_transfer_addr v s
         else if addr = 0x1F801DA8 then fifo_write v s
         else if addr = 0x1F801DAA
         then (if value AND 0x0040 = 0 then s\<lparr>irq_flag := False\<rparr> else spu_irq_check (transfer_addr s) 2 s)
         else s)"

definition spu_dma_write :: "u32 \<Rightarrow> spu \<Rightarrow> spu" where
  "spu_dma_write word s =
     (let s = spu_irq_check (transfer_addr s) 4 s; t = transfer_addr s;
          s = (if t + 3 < SPU_RAM_SIZE
               then ram_put16 (t + 2) (ucast (drop_bit 16 word)) (ram_put16 t (ucast word) s) else s)
      in s\<lparr>transfer_addr := (t + 4) mod SPU_RAM_SIZE\<rparr>)"

definition spu_dma_read :: "spu \<Rightarrow> u32 \<times> spu" where
  "spu_dma_read s =
     (let s = spu_irq_check (transfer_addr s) 4 s; t = transfer_addr s;
          word = (if t + 3 < SPU_RAM_SIZE
                  then ucast (ram_get16 t s) OR push_bit 16 (ucast (ram_get16 (t + 2) s)) else 0)
      in (word, s\<lparr>transfer_addr := (t + 4) mod SPU_RAM_SIZE\<rparr>))"

definition spu_dma_ready :: bool where
  "spu_dma_ready \<longleftrightarrow> True"

text \<open>The peek of the debugger, and the view of a voice it prints.\<close>

definition spu_ram_peek :: "u32 \<Rightarrow> u32 \<Rightarrow> spu \<Rightarrow> u8 list" where
  "spu_ram_peek addr len s =
     (if addr \<ge> SPU_RAM_SIZE then []
      else map (\<lambda>k. spu_ram s (unat addr + k)) [0..<unat (if len > SPU_RAM_SIZE - addr then SPU_RAM_SIZE - addr else len)])"

end
