(* ===== verification/SpuSnap.thy ===== *)
theory SpuSnap
  imports Spu PstWire
begin

unbundle bit_operations_syntax

section \<open>The snapshot of the sound processor\<close>

text \<open>
  The registers, the 24 voices with their volume sweeps, and the variables of the transfer port, the
  interrupt, the noise, the reverb, the capture and the main sweeps, field by field as \<open>spu.c\<close> writes
  them. Sound RAM travels in a section of its own, and the ring of CD frames, the host's gains and the
  counters are not saved. The C integers \<open>active\<close>, \<open>irq_flag\<close> and \<open>rev_phase\<close>, tested for zero only, are booleans.
\<close>

subsection \<open>Writing and reading\<close>

definition w_sweep :: "sweep_env \<Rightarrow> (pst_w \<Rightarrow> bool \<times> pst_w) list" where
  "w_sweep e = [pst_w_u16 (level e), pst_w_u32 (divider e)]"

definition r_sweep :: "pst_r \<Rightarrow> (sweep_env \<times> pst_r) option" where
  "r_sweep r =
     r_then (pst_r_u16 r) (\<lambda>l r. r_then (pst_r_u32 r) (\<lambda>d r. Some (\<lparr>level = l, divider = d\<rparr>, r)))"

abbreviation SPU_REG_COUNT :: nat where "SPU_REG_COUNT \<equiv> 256"
abbreviation SPU_VOICE_COUNT :: nat where "SPU_VOICE_COUNT \<equiv> 24"
abbreviation SPU_VOICE_WIRE_BYTES :: nat where
  "SPU_VOICE_WIRE_BYTES \<equiv> 4 + 4 + 4 + 28 * 2 + 3 * 2 + 4 + 4 + 2 + 2 + 1 + 2 + 4 + 1 + 2 * (2 + 4)"
abbreviation SPU_SNAPSHOT_TAIL_BYTES :: nat where
  "SPU_SNAPSHOT_TAIL_BYTES \<equiv> 20 + 1 + 2 + 4 + 4 + 1 + 4 + 4 + 4 + 4 + 4 + 2 * (2 + 4)"

definition spu_w_voice :: "spu \<Rightarrow> nat \<Rightarrow> pst_w \<Rightarrow> bool \<times> pst_w" where
  "spu_w_voice s i =
     (let v = voices s i in
      w_seq ([pst_w_i32 (if active v then 1 else 0), pst_w_u32 (cur_addr v), pst_w_u32 (repeat_addr v)] @
        map pst_w_u16 (samples v) @ map pst_w_u16 (previous_samples v) @
        [pst_w_i32 (sample_idx v), pst_w_u32 (phase v), pst_w_u16 (hist1 v), pst_w_u16 (hist2 v),
         pst_w_u8 (vflags v), pst_w_u16 (env_level v), pst_w_u32 (adsr_divider v), pst_w_u8 (adsr_phase v)] @
        w_sweep (sweep_voice_env s i 0) @ w_sweep (sweep_voice_env s i 1)))"

text \<open>With the right length every read succeeds, so the fields of a voice are stored together.\<close>

definition spu_r_voice :: "pst_r \<Rightarrow> ((spu_voice \<times> sweep_env list) \<times> pst_r) option" where
  "spu_r_voice r =
     r_then (pst_r_i32 r) (\<lambda>act r. r_then (r_many pst_r_u32 2 r) (\<lambda>ads r.
     r_then (r_many pst_r_u16 28 r) (\<lambda>sam r. r_then (r_many pst_r_u16 3 r) (\<lambda>prev r.
     r_then (pst_r_i32 r) (\<lambda>idx r. r_then (pst_r_u32 r) (\<lambda>ph r.
     r_then (r_many pst_r_u16 2 r) (\<lambda>hs r. r_then (pst_r_u8 r) (\<lambda>fl r.
     r_then (pst_r_u16 r) (\<lambda>env r. r_then (pst_r_u32 r) (\<lambda>dv r. r_then (pst_r_u8 r) (\<lambda>aph r.
     r_then (r_many r_sweep 2 r) (\<lambda>sw r.
       Some ((\<lparr>active = (act \<noteq> 0), cur_addr = ads ! 0, repeat_addr = ads ! 1, samples = sam, previous_samples = prev,
               sample_idx = idx, phase = ph, hist1 = hs ! 0, hist2 = hs ! 1, vflags = fl, env_level = env,
               adsr_divider = dv, adsr_phase = aph\<rparr>, sw), r)))))))))))))"

definition spu_snapshot_bytes :: nat where
  "spu_snapshot_bytes = SPU_REG_COUNT * 2 + SPU_VOICE_COUNT * SPU_VOICE_WIRE_BYTES + SPU_SNAPSHOT_TAIL_BYTES"

definition spu_snapshot_write :: "spu \<Rightarrow> u8 list" where
  "spu_snapshot_write s =
     pw_buf (w_all
       (map (\<lambda>i. pst_w_u16 (spu_regs s i)) [0..<SPU_REG_COUNT] @ map (spu_w_voice s) [0..<SPU_VOICE_COUNT] @
        map pst_w_u32 [transfer_addr s, key_on_count s, endx_latch s, kon_latch s, koff_latch s] @
        [pst_w_u8 (if irq_flag s then 1 else 0), pst_w_u16 (noise_lfsr s), pst_w_i32 (noise_timer s),
         pst_w_u32 (rev_cur s), pst_w_u8 (if rev_phase s then 1 else 0)] @
        map pst_w_i32 [rev_in_hold_l s, rev_in_hold_r s, rev_out_l s, rev_out_r s] @ [pst_w_u32 (capture_pos s)] @
        w_sweep (sweep_main_env s 0) @ w_sweep (sweep_main_env s 1))
       (pst_w_init (Some spu_snapshot_bytes)))"

definition spu_snap_parse :: "pst_r \<Rightarrow> spu \<Rightarrow> spu option" where
  "spu_snap_parse r s =
     r_then (r_many pst_r_u16 SPU_REG_COUNT r) (\<lambda>regs r. r_then (r_many spu_r_voice SPU_VOICE_COUNT r) (\<lambda>vs r.
     r_then (r_many pst_r_u32 5 r) (\<lambda>ws r. r_then (pst_r_u8 r) (\<lambda>fl r. r_then (pst_r_u16 r) (\<lambda>lf r.
     r_then (pst_r_i32 r) (\<lambda>tm r. r_then (pst_r_u32 r) (\<lambda>rc r. r_then (pst_r_u8 r) (\<lambda>rp r.
     r_then (r_many pst_r_i32 4 r) (\<lambda>rv r. r_then (pst_r_u32 r) (\<lambda>cp r. r_then (r_many r_sweep 2 r) (\<lambda>sw r.
       Some (s\<lparr>spu_regs := (\<lambda>i. if i < SPU_REG_COUNT then regs ! i else spu_regs s i),
         transfer_addr := ws ! 0, key_on_count := ws ! 1, endx_latch := ws ! 2, kon_latch := ws ! 3, koff_latch := ws ! 4,
         irq_flag := (fl \<noteq> 0), noise_lfsr := lf, noise_timer := tm, rev_cur := rc, rev_phase := (rp \<noteq> 0),
         rev_in_hold_l := rv ! 0, rev_in_hold_r := rv ! 1, rev_out_l := rv ! 2, rev_out_r := rv ! 3, capture_pos := cp,
         sweep_voice_env := (\<lambda>i ch. if i < SPU_VOICE_COUNT \<and> ch < 2 then snd (vs ! i) ! ch else sweep_voice_env s i ch),
         sweep_main_env := (\<lambda>ch. if ch < 2 then sw ! ch else sweep_main_env s ch),
         voices := (\<lambda>i. if i < SPU_VOICE_COUNT then fst (vs ! i) else voices s i)\<rparr>))))))))))))"

definition spu_snapshot_read :: "u8 list \<Rightarrow> spu \<Rightarrow> bool \<times> spu" where
  "spu_snapshot_read bs s =
     (if length bs \<noteq> spu_snapshot_bytes then (False, s)
      else case spu_snap_parse (pst_r_init bs) s of None \<Rightarrow> (False, s) | Some t \<Rightarrow> (True, t))"

subsection \<open>What is written is read back\<close>

definition put_sweep :: "sweep_env \<Rightarrow> u8 list" where
  "put_sweep e = le16 (level e) @ le32 (divider e)"

interpretation wire_sweep: wire_codec 6 put_sweep r_sweep
proof unfold_locales
  show "length (put_sweep e) = 6" for e by (simp add: put_sweep_def w16.length_put w32.length_put)
  show "r_sweep (Some (put_sweep e @ rest)) = Some (e, Some rest)" for e rest
    by (simp add: r_sweep_def put_sweep_def w16.get_put w32.get_put)
qed

text \<open>The bytes of a voice, for a voice whose lists have their lengths and whose sample is in range.\<close>

definition put_voice :: "spu \<Rightarrow> nat \<Rightarrow> u8 list" where
  "put_voice s i =
     (let v = voices s i in
      le_i32 (if active v then 1 else 0) @ concat (map le32 [cur_addr v, repeat_addr v]) @
      concat (map le16 (samples v)) @ concat (map le16 (previous_samples v)) @ le_i32 (sample_idx v) @ le32 (phase v) @
      concat (map le16 [hist1 v, hist2 v]) @ [vflags v] @ le16 (env_level v) @ le32 (adsr_divider v) @ [adsr_phase v] @
      concat (map put_sweep [sweep_voice_env s i 0, sweep_voice_env s i 1]))"

definition voice_wire :: "spu_voice \<Rightarrow> bool" where
  "voice_wire v \<longleftrightarrow> length (samples v) = 28 \<and> length (previous_samples v) = 3 \<and> 0 \<le> sample_idx v \<and> sample_idx v \<le> 28"

lemma emits_voice: "emits (spu_w_voice s i) (put_voice s i)"
proof -
  let ?v = "voices s i"
  have "list_all2 emits ([pst_w_i32 (if active ?v then 1 else 0), pst_w_u32 (cur_addr ?v), pst_w_u32 (repeat_addr ?v)] @
        map pst_w_u16 (samples ?v) @ map pst_w_u16 (previous_samples ?v) @
        [pst_w_i32 (sample_idx ?v), pst_w_u32 (phase ?v), pst_w_u16 (hist1 ?v), pst_w_u16 (hist2 ?v),
         pst_w_u8 (vflags ?v), pst_w_u16 (env_level ?v), pst_w_u32 (adsr_divider ?v), pst_w_u8 (adsr_phase ?v)] @
        w_sweep (sweep_voice_env s i 0) @ w_sweep (sweep_voice_env s i 1))
      ([le_i32 (if active ?v then 1 else 0), le32 (cur_addr ?v), le32 (repeat_addr ?v)] @
        map le16 (samples ?v) @ map le16 (previous_samples ?v) @
        [le_i32 (sample_idx ?v), le32 (phase ?v), le16 (hist1 ?v), le16 (hist2 ?v),
         [vflags ?v], le16 (env_level ?v), le32 (adsr_divider ?v), [adsr_phase ?v]] @
        [le16 (level (sweep_voice_env s i 0)), le32 (divider (sweep_voice_env s i 0))] @
        [le16 (level (sweep_voice_env s i 1)), le32 (divider (sweep_voice_env s i 1))])" (is "list_all2 emits ?fs ?bs")
    by (intro list_all2_appendI emits_map emits_u16) (simp_all add: w_sweep_def emits_i32 emits_u8 emits_u16 emits_u32)
  from emits_seq [OF this] show ?thesis by (simp add: spu_w_voice_def Let_def put_voice_def put_sweep_def)
qed

lemma length_voice: "voice_wire (voices s i) \<Longrightarrow> length (put_voice s i) = SPU_VOICE_WIRE_BYTES"
  by (simp add: put_voice_def Let_def voice_wire_def w16.length_puts w16.length_put w32.length_put wire_sweep.length_put
      del: length_concat)

lemma get_voice:
  assumes "voice_wire (voices s i)"
  shows "spu_r_voice (Some (put_voice s i @ rest))
    = Some ((voices s i, [sweep_voice_env s i 0, sweep_voice_env s i 1]), Some rest)"
proof -
  let ?v = "voices s i"
  have "sample_idx ?v < 2 ^ 31" "- (2 ^ 31) \<le> sample_idx ?v" "length (samples ?v) = 28" "length (previous_samples ?v) = 3"
    using assms by (simp_all add: voice_wire_def)
  moreover have "(if active ?v then 1 else 0 :: int) < 2 ^ 31" "- (2 ^ 31) \<le> (if active ?v then 1 else 0 :: int)" by simp_all
  ultimately show ?thesis
    unfolding spu_r_voice_def put_voice_def Let_def append_assoc
    by (simp only: get_i32 r_then_simps w32.get_puts w16.get_puts w8.get_put w16.get_put w32.get_put wire_sweep.get_puts
        list.size length_Cons) simp
qed

definition spu_layout :: "spu \<Rightarrow> u8 list list" where
  "spu_layout s =
     map le16 (map (spu_regs s) [0..<SPU_REG_COUNT]) @ map (put_voice s) [0..<SPU_VOICE_COUNT] @
     map le32 [transfer_addr s, key_on_count s, endx_latch s, kon_latch s, koff_latch s] @
     [[if irq_flag s then 1 else 0], le16 (noise_lfsr s), le_i32 (noise_timer s), le32 (rev_cur s),
      [if rev_phase s then 1 else 0]] @
     map le_i32 [rev_in_hold_l s, rev_in_hold_r s, rev_out_l s, rev_out_r s] @ [le32 (capture_pos s)] @
     [le16 (level (sweep_main_env s 0)), le32 (divider (sweep_main_env s 0))] @
     [le16 (level (sweep_main_env s 1)), le32 (divider (sweep_main_env s 1))]"

definition spu_wire :: "spu \<Rightarrow> bool" where
  "spu_wire s \<longleftrightarrow> (\<forall>i. voice_wire (voices s i)) \<and> 0 \<le> noise_timer s \<and> noise_timer s < 2 ^ 31
     \<and> (\<forall>v \<in> {rev_in_hold_l s, rev_in_hold_r s, rev_out_l s, rev_out_r s}. - (2 ^ 31) \<le> v \<and> v < 2 ^ 31)"

lemma length_voices: "\<forall>i. voice_wire (voices s i) \<Longrightarrow> length (concat (map (put_voice s) xs)) = SPU_VOICE_WIRE_BYTES * length xs"
  by (induction xs) (simp_all add: length_voice del: length_concat)

lemma length_layout:
  assumes "spu_wire s"
  shows "length (concat (spu_layout s)) = spu_snapshot_bytes"
proof -
  have v: "\<forall>i. voice_wire (voices s i)" using assms by (simp add: spu_wire_def)
  show ?thesis
    unfolding spu_layout_def concat_append length_append w16.length_puts length_voices [OF v] length_map length_upt
    by (simp add: spu_snapshot_bytes_def w16.length_put w32.length_put del: length_concat)
qed

lemma spu_write_layout:
  assumes "spu_wire s"
  shows "spu_snapshot_write s = concat (spu_layout s)"
  unfolding spu_snapshot_write_def
proof (rule w_all_exact(1))
  show "list_all2 emits
     (map (\<lambda>i. pst_w_u16 (spu_regs s i)) [0..<SPU_REG_COUNT] @ map (spu_w_voice s) [0..<SPU_VOICE_COUNT] @
      map pst_w_u32 [transfer_addr s, key_on_count s, endx_latch s, kon_latch s, koff_latch s] @
      [pst_w_u8 (if irq_flag s then 1 else 0), pst_w_u16 (noise_lfsr s), pst_w_i32 (noise_timer s),
       pst_w_u32 (rev_cur s), pst_w_u8 (if rev_phase s then 1 else 0)] @
      map pst_w_i32 [rev_in_hold_l s, rev_in_hold_r s, rev_out_l s, rev_out_r s] @ [pst_w_u32 (capture_pos s)] @
      w_sweep (sweep_main_env s 0) @ w_sweep (sweep_main_env s 1)) (spu_layout s)"
    unfolding spu_layout_def map_map comp_def w_sweep_def
    by (intro list_all2_appendI emits_map emits_u16 emits_u32 emits_i32 emits_voice)
      (simp_all add: emits_u8 emits_u16 emits_u32 emits_i32)
qed (simp add: length_layout [OF assms])

text \<open>The state after loading: what the snapshot of \<open>u\<close> holds, over the rest of \<open>s\<close>.\<close>

definition spu_loaded :: "spu \<Rightarrow> spu \<Rightarrow> spu" where
  "spu_loaded u s = s\<lparr>spu_regs := (\<lambda>i. if i < SPU_REG_COUNT then spu_regs u i else spu_regs s i),
     transfer_addr := transfer_addr u, key_on_count := key_on_count u, endx_latch := endx_latch u,
     kon_latch := kon_latch u, koff_latch := koff_latch u, irq_flag := irq_flag u, noise_lfsr := noise_lfsr u,
     noise_timer := noise_timer u, rev_cur := rev_cur u, rev_phase := rev_phase u,
     rev_in_hold_l := rev_in_hold_l u, rev_in_hold_r := rev_in_hold_r u, rev_out_l := rev_out_l u, rev_out_r := rev_out_r u,
     capture_pos := capture_pos u,
     sweep_voice_env := (\<lambda>i ch. if i < SPU_VOICE_COUNT \<and> ch < 2 then sweep_voice_env u i ch else sweep_voice_env s i ch),
     sweep_main_env := (\<lambda>ch. if ch < 2 then sweep_main_env u ch else sweep_main_env s ch),
     voices := (\<lambda>i. if i < SPU_VOICE_COUNT then voices u i else voices s i)\<rparr>"

lemma two_nth: "ch < 2 \<Longrightarrow> [f 0, f (Suc 0)] ! ch = f ch" for f :: "nat \<Rightarrow> 'a"
  by (auto simp: less_2_cases_iff)

theorem spu_snapshot_restores:
  assumes "spu_wire u"
  shows "spu_snapshot_read (spu_snapshot_write u) s = (True, spu_loaded u s)"
proof -
  have v: "\<And>i. voice_wire (voices u i)" using assms by (simp add: spu_wire_def)
  have vs: "r_many spu_r_voice SPU_VOICE_COUNT (Some (concat (map (put_voice u) [0..<SPU_VOICE_COUNT]) @ rest))
      = Some (map (\<lambda>i. (voices u i, [sweep_voice_env u i 0, sweep_voice_env u i 1])) [0..<SPU_VOICE_COUNT], Some rest)" for rest
    using r_many_each [of "[0..<SPU_VOICE_COUNT]" spu_r_voice "put_voice u"
        "\<lambda>i. (voices u i, [sweep_voice_env u i 0, sweep_voice_env u i 1])" rest] get_voice [OF v]
    by (simp only: length_upt diff_zero)
  have rv: "r_many pst_r_i32 4 (Some (concat (map le_i32 [rev_in_hold_l u, rev_in_hold_r u, rev_out_l u, rev_out_r u]) @ rest))
      = Some ([rev_in_hold_l u, rev_in_hold_r u, rev_out_l u, rev_out_r u], Some rest)" for rest
  proof -
    have g: "pst_r_i32 (Some (le_i32 x @ rest)) = Some (x, Some rest)"
      if "x \<in> set [rev_in_hold_l u, rev_in_hold_r u, rev_out_l u, rev_out_r u]" for x rest
      using that assms by (intro get_i32) (auto simp: spu_wire_def)
    have "length [rev_in_hold_l u, rev_in_hold_r u, rev_out_l u, rev_out_r u] = 4" by simp
    with r_many_each [of "[rev_in_hold_l u, rev_in_hold_r u, rev_out_l u, rev_out_r u]" pst_r_i32 le_i32 "\<lambda>x. x" rest, OF g]
    show ?thesis by (simp only: list.map_ident)
  qed
  have sw: "r_many r_sweep 2 (Some (le16 (level a) @ le32 (divider a) @ le16 (level b) @ le32 (divider b)))
      = Some ([a, b], Some [])" for a b
    using wire_sweep.get_puts [of "[a, b]" 2 "[]"] by (simp add: put_sweep_def)
  have regs: "r_many pst_r_u16 SPU_REG_COUNT (Some (concat (map le16 (map (spu_regs u) [0..<SPU_REG_COUNT])) @ rest))
      = Some (map (spu_regs u) [0..<SPU_REG_COUNT], Some rest)" for rest
    by (rule w16.get_puts) simp
  have ws: "r_many pst_r_u32 5 (Some (concat (map le32 [transfer_addr u, key_on_count u, endx_latch u, kon_latch u, koff_latch u]) @ rest))
      = Some ([transfer_addr u, key_on_count u, endx_latch u, kon_latch u, koff_latch u], Some rest)" for rest
    by (rule w32.get_puts) simp
  have tm: "pst_r_i32 (Some (le_i32 (noise_timer u) @ rest)) = Some (noise_timer u, Some rest)" for rest
    using assms by (intro get_i32) (simp_all add: spu_wire_def)
  have one: "concat [a, b, c, d, e] = a @ b @ c @ d @ e" "concat [a] = a" "concat [a, b] = a @ b" for a b c d e :: "u8 list"
    by simp_all
  have "spu_snap_parse (pst_r_init (concat (spu_layout u))) s = Some (spu_loaded u s)"
    unfolding spu_layout_def concat_append pst_r_init_def spu_snap_parse_def
    by (simp only: one append_assoc regs vs ws rv tm sw r_then_simps w8.get_put w16.get_put w32.get_put)
      (simp add: spu_loaded_def two_nth [of _ "sweep_voice_env u i" for i] two_nth [of _ "sweep_main_env u"]
        cong: if_cong del: upt_rec_numeral)
  then show ?thesis
    using length_layout [OF assms] by (simp add: spu_snapshot_read_def spu_write_layout [OF assms])
qed

end
