(* ===== verification/SpuEnv.thy ===== *)
theory SpuEnv
  imports Spu
begin

unbundle bit_operations_syntax

section \<open>Envelopes, resampling and interpolation of a voice\<close>

text \<open>
  What one voice does on its own, and the arithmetic under it: the rate decoder and the envelope stay in
  range and an envelope released falls silent; the pitch counter is exact; the interpolation and the
  decoder fit their types; the noise register never locks up.
\<close>

subsection \<open>Words and integers\<close>

lemma uint_and_3: "uint ((w :: u8) AND 3) \<in> {0..3}"
proof -
  have "w AND 3 = w AND mask 2" by (simp add: mask_eq_exp_minus_1)
  then have "unat (w AND 3) < 4" using unat_and_mask_less [of w 2] by simp
  then have "int (unat (w AND 3)) \<le> 3" by linarith
  then show ?thesis using uint_nonnegative [of "w AND 3"] by (simp only: uint_nat atLeastAtMost_iff)
qed

lemma sint_u16: "sint (w :: i16) \<in> {-32768..32767}"
  using sint_greater_eq [of w] sint_less [of w] by simp

lemma sint_of_int32: "- 2147483648 \<le> x \<Longrightarrow> x < 2147483648 \<Longrightarrow> sint (word_of_int x :: u32) = x"
  by (simp add: sint_sbintrunc' signed_take_bit_int_eq_self)

lemma sint_of_int16: "- 32768 \<le> x \<Longrightarrow> x < 32768 \<Longrightarrow> sint (word_of_int x :: i16) = x"
  by (simp add: sint_sbintrunc' signed_take_bit_int_eq_self)

lemma sint_small16: "w \<le> (0x7FFF :: i16) \<Longrightarrow> sint w = uint w"
proof -
  assume "w \<le> 0x7FFF"
  then have u: "uint w < 2 ^ 15" by (simp add: word_le_def)
  have "-(2 ^ 15) \<le> uint w" by (rule order_trans [OF _ uint_ge_0]) simp
  then have "signed_take_bit 15 (uint w) = uint w" using u by (intro signed_take_bit_int_eq_self) simp_all
  then show ?thesis by (simp add: sint_uint)
qed

lemma clamp16_range: "- 32768 \<le> clamp16 v \<and> clamp16 v \<le> 32767"
  by (simp add: clamp16_def)

lemma clamp16_id: "- 32768 \<le> v \<Longrightarrow> v \<le> 32767 \<Longrightarrow> clamp16 v = v"
  by (simp add: clamp16_def)

text \<open>The arithmetic shift of a product of two bounded factors.\<close>

lemma drop15_bounds:
  fixes x b :: int
  assumes "\<bar>x\<bar> \<le> b * 32768"
  shows "- b \<le> drop_bit 15 x \<and> drop_bit 15 x \<le> b"
proof -
  have "x \<le> b * 32768" "- b * 32768 \<le> x" using assms by simp_all
  then show ?thesis by (simp add: drop_bit_eq_div) linarith
qed

lemma drop15_product:
  assumes "\<bar>x\<bar> \<le> b" "\<bar>y\<bar> \<le> 32768"
  shows "- b \<le> drop_bit 15 (x * y :: int) \<and> drop_bit 15 (x * y) \<le> b"
proof (rule drop15_bounds)
  have "\<bar>x * y\<bar> = \<bar>x\<bar> * \<bar>y\<bar>" by (rule abs_mult)
  also have "\<dots> \<le> b * 32768" using assms by (intro mult_mono) auto
  finally show "\<bar>x * y\<bar> \<le> b * 32768" .
qed

subsection \<open>The rate decoder\<close>

lemma speed_shift:
  assumes "speed < (0x2C :: u8)"
  shows "unat (drop_bit 2 (0x2F - speed)) \<le> 11"
proof -
  have s: "unat speed < 44" using assms by (simp add: word_less_nat_alt)
  have "unat (0x2F - speed) = 47 - unat speed" using s by (subst unat_sub) (simp_all add: word_le_nat_alt)
  then have "unat (drop_bit 2 (0x2F - speed)) = drop_bit 2 (47 - unat speed)" by (simp only: unat_drop_bit_eq)
  then have "unat (drop_bit 2 (0x2F - speed)) = (47 - unat speed) div 4" by (simp only: drop_bit_eq_div) simp
  then show ?thesis by simp
qed

lemma vc_increment:
  fixes speed :: u8
  defines "inc \<equiv> 7 - uint (speed AND 3)"
  shows "(if speed < 0x2C then sint (push_bit (unat (drop_bit 2 (0x2F - speed))) (word_of_int (NOT inc) :: u32)) else NOT inc)
       \<in> {-16384..-5}"
    and "(if speed < 0x2C then sint (push_bit (unat (drop_bit 2 (0x2F - speed))) (word_of_int inc :: u32)) else inc)
       \<in> {4..14336}"
proof -
  have i: "4 \<le> inc" "inc \<le> 7" using uint_and_3 [of speed] by (auto simp: inc_def)
  have n: "NOT inc = - inc - 1" by (simp add: not_int_def)
  define k where "k = unat (drop_bit 2 (0x2F - speed))"
  have p: "1 \<le> (2 :: int) ^ k \<and> (2 :: int) ^ k \<le> 2048" if "speed < 0x2C"
    using power_increasing [of k 11 "2 :: int"] speed_shift [OF that] by (simp add: k_def)
  have pw: "sint (push_bit k (word_of_int x :: u32)) = x * 2 ^ k"
    if "speed < 0x2C" "-8 \<le> x" "x \<le> 7" for x
  proof -
    have "x * 2 ^ k \<le> 7 * 2 ^ k" "- 8 * 2 ^ k \<le> x * 2 ^ k"
      using that p [OF that(1)] by (intro mult_right_mono; simp)+
    then have "- 2147483648 \<le> x * 2 ^ k" "x * 2 ^ k < 2147483648" using p [OF that(1)] by linarith+
    then have "sint (word_of_int (x * 2 ^ k) :: u32) = x * 2 ^ k" by (rule sint_of_int32)
    then show ?thesis by (simp add: push_bit_eq_mult)
  qed
  show "(if speed < 0x2C then sint (push_bit (unat (drop_bit 2 (0x2F - speed))) (word_of_int (NOT inc) :: u32)) else NOT inc)
       \<in> {-16384..-5}"
  proof (cases "speed < 0x2C")
    case True
    have "(- inc - 1) * 2 ^ k \<le> - 5 * 1" "- 8 * 2048 \<le> (- inc - 1) * 2 ^ k"
      using p [OF True] i mult_mono [of 5 "inc + 1" 1 "2 ^ k"] mult_mono [of "inc + 1" 8 "2 ^ k" 2048]
      by (simp_all add: algebra_simps)
    then show ?thesis using True i pw [OF True, of "- inc - 1"] by (simp add: n flip: k_def)
  qed (use i n in auto)
  show "(if speed < 0x2C then sint (push_bit (unat (drop_bit 2 (0x2F - speed))) (word_of_int inc :: u32)) else inc)
       \<in> {4..14336}"
  proof (cases "speed < 0x2C")
    case True
    have "4 * 1 \<le> inc * 2 ^ k" "inc * 2 ^ k \<le> 7 * 2048"
      using p [OF True] i by (intro mult_mono; simp)+
    then show ?thesis using True i pw [OF True, of inc] by (simp flip: k_def)
  qed (use i in auto)
qed

definition vc_dv :: "u8 \<Rightarrow> int" where
  "vc_dv speed = (if speed \<ge> 0x30 then drop_bit (unat (drop_bit 2 (speed - 0x2C))) 32768 else 32768)"

lemma vc_dv_range: "vc_dv speed \<in> {0..32768}"
proof -
  have "(32768 :: int) div 2 ^ k \<le> 32768 div 1" for k :: nat by (rule zdiv_mono2) simp_all
  moreover have "0 \<le> (32768 :: int) div 2 ^ k" for k :: nat by (rule pos_imp_zdiv_nonneg_iff [THEN iffD2]) simp_all
  ultimately show ?thesis by (auto simp: vc_dv_def drop_bit_eq_div [of _ "32768 :: int"])
qed

definition vc_fall :: "u8 \<Rightarrow> int" where
  "vc_fall speed = (if speed < 0x2C then sint (push_bit (unat (drop_bit 2 (0x2F - speed)))
     (word_of_int (NOT (7 - uint (speed AND 3))) :: u32)) else NOT (7 - uint (speed AND 3)))"

definition vc_rise :: "u8 \<Rightarrow> int" where
  "vc_rise speed = (if speed < 0x2C then sint (push_bit (unat (drop_bit 2 (0x2F - speed)))
     (word_of_int (7 - uint (speed AND 3)) :: u32)) else 7 - uint (speed AND 3))"

lemma vc_fall_range: "vc_fall speed \<in> {-16384..-5}"
  and vc_rise_range: "vc_rise speed \<in> {4..14336}"
  unfolding vc_fall_def vc_rise_def by (rule vc_increment)+

lemma calc_falling:
  "calc_vc_delta zs speed lg True True cur =
     (if lg then drop_bit 15 (sint cur * vc_fall speed) else vc_fall speed,
      if vc_dv speed = 0 \<and> speed < zs then 1 else vc_dv speed)"
  unfolding calc_vc_delta_def vc_fall_def vc_dv_def Let_def by (cases lg) (simp_all only: if_True if_False prod.case simp_thms)

lemma calc_rising:
  "calc_vc_delta zs speed lg False False cur =
     (let slow = lg \<and> cur AND 0x7FFF \<ge> 0x6000;
          inc = (if slow then if speed < 0x28 then drop_bit 2 (vc_rise speed)
                   else if speed \<ge> 0x2C then vc_rise speed else drop_bit 1 (vc_rise speed) else vc_rise speed);
          dv = (if slow then if speed < 0x28 then vc_dv speed
                  else if speed \<ge> 0x2C then drop_bit 2 (vc_dv speed) else drop_bit 1 (vc_dv speed) else vc_dv speed)
      in (inc, if dv = 0 \<and> speed < zs then 1 else dv))"
  unfolding calc_vc_delta_def vc_rise_def vc_dv_def Let_def
  by (cases lg; cases "cur AND 0x7FFF \<ge> 0x6000"; cases "speed < 0x28"; cases "speed \<ge> 0x2C")
    (simp_all only: if_True if_False prod.case simp_thms)

lemma drop_nonneg_range: "0 \<le> (x :: int) \<Longrightarrow> 0 \<le> drop_bit n x \<and> drop_bit n x \<le> x"
proof -
  assume x: "0 \<le> x"
  have "x div 2 ^ n \<le> x div 1" by (rule zdiv_mono2) (use x in simp_all)
  moreover have "0 \<le> x div 2 ^ n" using x by (intro pos_imp_zdiv_nonneg_iff [THEN iffD2]) simp_all
  ultimately show ?thesis by (simp only: drop_bit_eq_div) simp
qed

lemma rising_range:
  assumes "calc_vc_delta zs speed lg False False cur = (inc, dv)"
  shows "0 < inc" "inc \<le> 14336" "0 \<le> dv" "dv \<le> 32768" "speed < zs \<Longrightarrow> 0 < dv"
proof -
  let ?i = "vc_rise speed" and ?d = "vc_dv speed"
  have i: "4 \<le> ?i" "?i \<le> 14336" and d: "0 \<le> ?d" "?d \<le> 32768"
    using vc_rise_range [of speed] vc_dv_range [of speed] by simp_all
  have up: "1 \<le> drop_bit 2 ?i" "1 \<le> drop_bit 1 ?i" using i(1) by (simp_all only: drop_bit_eq_div) simp_all
  have le: "drop_bit 2 ?i \<le> 14336" "drop_bit 1 ?i \<le> 14336"
    using drop_nonneg_range [of ?i 2] drop_nonneg_range [of ?i 1] i by auto
  have dr: "0 \<le> drop_bit k ?d \<and> drop_bit k ?d \<le> 32768" for k
    using drop_nonneg_range [of ?d k] d by auto
  define D where "D = (if lg \<and> cur AND 0x7FFF \<ge> 0x6000 then if speed < 0x28 then ?d
      else if speed \<ge> 0x2C then drop_bit 2 ?d else drop_bit 1 ?d else ?d)"
  have "D \<in> {?d, drop_bit 2 ?d, drop_bit 1 ?d}" by (simp add: D_def)
  then have D: "0 \<le> D \<and> D \<le> 32768" using d dr [of 2] dr [of 1] by (elim insertE emptyE) simp_all
  have "inc = ?i \<or> inc = drop_bit 2 ?i \<or> inc = drop_bit 1 ?i"
    using assms by (simp only: calc_rising Let_def prod.inject) (simp split: if_splits)
  then show "0 < inc" "inc \<le> 14336" using i up le by (elim disjE; linarith)+
  have "dv = (if D = 0 \<and> speed < zs then 1 else D)"
    using assms by (simp only: calc_rising Let_def prod.inject D_def)
  then show "0 \<le> dv" "dv \<le> 32768" "speed < zs \<Longrightarrow> 0 < dv" using D by simp_all
qed

lemma falling_range:
  assumes "calc_vc_delta zs speed lg True True cur = (inc, dv)" "cur \<le> 0x7FFF"
  shows "inc \<le> 0" "- 16384 \<le> inc" "0 \<le> dv" "dv \<le> 32768" "speed < zs \<Longrightarrow> 0 < dv" "cur \<noteq> 0 \<Longrightarrow> inc < 0"
proof -
  have f: "- 16384 \<le> vc_fall speed" "vc_fall speed \<le> - 5" and d: "0 \<le> vc_dv speed" "vc_dv speed \<le> 32768"
    using vc_fall_range [of speed] vc_dv_range [of speed] by simp_all
  have s: "sint cur = uint cur" "0 \<le> uint cur" "uint cur \<le> 32767"
    using sint_small16 [OF assms(2)] assms(2) by (simp_all add: word_le_def)
  define x where "x = sint cur * vc_fall speed"
  have x: "x \<le> 0" "- 16384 * 32768 \<le> x" "cur \<noteq> 0 \<Longrightarrow> x < 0"
  proof -
    show "x \<le> 0" unfolding x_def using s f by (intro mult_nonneg_nonpos) auto
    have "uint cur * - vc_fall speed \<le> 32768 * 16384" using s f by (intro mult_mono) auto
    then show "- 16384 * 32768 \<le> x" by (simp add: x_def s(1))
    show "x < 0" if "cur \<noteq> 0" unfolding x_def s(1)
      using that s f by (intro mult_pos_neg) (auto simp: word_uint_eq_iff less_le)
  qed
  have dx: "drop_bit 15 x \<le> 0" "- 16384 \<le> drop_bit 15 x" "cur \<noteq> 0 \<Longrightarrow> drop_bit 15 x < 0"
    using x by (simp_all add: drop_bit_eq_div [of 15 x])
  show "inc \<le> 0" "- 16384 \<le> inc" "0 \<le> dv" "dv \<le> 32768" "speed < zs \<Longrightarrow> 0 < dv" "cur \<noteq> 0 \<Longrightarrow> inc < 0"
    using assms(1) f d dx by (auto simp add: calc_falling split: if_splits simp flip: x_def)
qed

subsection \<open>The envelope\<close>

lemma and_8000: "w AND 0x8000 \<noteq> 0 \<longleftrightarrow> bit (w :: i16) 15"
  using and_exp_eq_0_iff_not_bit [of w 15] by simp

lemma top_bit_div:
  assumes "0 \<le> (x :: int)" "x < 65536"
  shows "odd (x div 2 ^ 15) \<longleftrightarrow> 32768 \<le> x"
proof (cases "32768 \<le> x")
  case True
  have "x div 2 ^ 15 = 1" by (rule int_div_pos_eq [where r = "x - 32768"]) (use assms True in simp_all)
  then show ?thesis using True by simp
next
  case False
  have "x div 2 ^ 15 = 0" by (rule div_pos_pos_trivial) (use assms False in simp_all)
  then show ?thesis using False by simp
qed

lemma neg_wrap: "- 32768 \<le> n \<Longrightarrow> n < 0 \<Longrightarrow> n mod 65536 = n + (65536 :: int)"
  by (rule int_mod_pos_eq [where q = "- 1"]) simp_all

lemma bit_15_iff: "bit (w :: i16) 15 \<longleftrightarrow> 32768 \<le> uint w"
proof -
  have "uint w < 65536" "0 \<le> uint w" using uint_lt2p [of w] by simp_all
  then have "odd (uint w div 2 ^ 15) \<longleftrightarrow> 32768 \<le> uint w" by (intro top_bit_div)
  moreover have "bit (uint w) 15 \<longleftrightarrow> odd (uint w div 2 ^ 15)" by (rule bit_iff_odd)
  moreover have "bit (uint w) 15 = bit w 15" by (simp add: bit_uint_iff)
  ultimately show ?thesis by simp
qed

definition env_next :: "int \<Rightarrow> u16 \<Rightarrow> u16 \<Rightarrow> int" where
  "env_next inc reset prev =
     (let n = uint prev + inc in if 0 \<le> n \<and> n \<le> 0x7FFF then n else uint reset)"

lemma env_bump_next:
  assumes "prev \<le> 0x7FFF" "- 32768 \<le> inc" "inc \<le> 32767"
  shows "uint (env_bump ph inc reset prev) = env_next inc reset prev"
proof -
  define n where "n = uint prev + inc"
  define new where "new = (word_of_int n :: u16)"
  have u: "0 \<le> uint prev" "uint prev \<le> 32767" using assms(1) by (simp_all add: word_le_def)
  have n: "- 32768 \<le> n" "n < 65536" unfolding n_def using u assms by linarith+
  have un: "uint new = n mod 65536" by (simp add: new_def uint_word_of_int)
  have top: "bit new 15 \<longleftrightarrow> \<not> (0 \<le> n \<and> n \<le> 0x7FFF)"
    unfolding bit_15_iff un using n neg_wrap [of n] by (cases "0 \<le> n") auto
  have p: "\<not> bit prev 15" using u by (simp add: bit_15_iff)
  have "bit ((prev XOR new) AND new) 15 = bit new 15" using p by (simp only: bit_and_iff bit_xor_iff) simp
  then have "env_bump ph inc reset prev = (if bit new 15 then reset else new)"
    unfolding env_bump_def Let_def n_def [symmetric] new_def [symmetric] and_8000 by (simp only: if_cancel)
  then show ?thesis using top un by (simp add: env_next_def Let_def flip: n_def)
qed

text \<open>
  The envelope's invariant, and one step in it: the divider counts up to its overflow, at which the
  level moves by the increment and saturates.
\<close>

definition env_ok :: "spu_voice \<Rightarrow> bool" where
  "env_ok v \<longleftrightarrow> env_level v \<le> 0x7FFF \<and> adsr_divider v < 0x8000 \<and> adsr_phase v \<le> 3"

definition env_phase :: "spu_voice \<Rightarrow> u8" where
  "env_phase v = (if adsr_phase v = ADSR_ATTACK \<and> env_level v = 0x7FFF then ADSR_DECAY else adsr_phase v)"

lemma adsr_delta_range:
  assumes "env \<le> 0x7FFF" "adsr_delta raw ph env = Some (inc, dv, reset)"
  shows "- 16384 \<le> inc" "inc \<le> 14336" "0 \<le> dv" "dv \<le> 32768" "reset \<in> {0, 0x7FFF}"
proof -
  have fall: "- 16384 \<le> i \<and> i \<le> 14336 \<and> 0 \<le> d \<and> d \<le> 32768"
    if "calc_vc_delta zs speed lg True True env = (i, d)" for zs speed lg i d
    using falling_range [OF that assms(1)] by auto
  have rise: "- 16384 \<le> i \<and> i \<le> 14336 \<and> 0 \<le> d \<and> d \<le> 32768"
    if "calc_vc_delta zs speed lg False False env = (i, d)" for zs speed lg i d
    using rising_range [OF that] by auto
  have "- 16384 \<le> inc \<and> inc \<le> 14336 \<and> 0 \<le> dv \<and> dv \<le> 32768 \<and> reset \<in> {0, 0x7FFF}"
    using assms(2) unfolding adsr_delta_def Let_def
    by (auto split: if_splits prod.splits dest: fall rise)
  then show "- 16384 \<le> inc" "inc \<le> 14336" "0 \<le> dv" "dv \<le> 32768" "reset \<in> {0, 0x7FFF}" by auto
qed

lemma adsr_delta_some: "ph \<le> 3 \<Longrightarrow> adsr_delta raw ph env \<noteq> None"
proof -
  assume "ph \<le> 3"
  then have "unat ph \<le> 3" by (simp add: word_le_nat_alt)
  then have "unat ph = 0 \<or> unat ph = 1 \<or> unat ph = 2 \<or> unat ph = 3" by linarith
  then have "ph = 0 \<or> ph = 1 \<or> ph = 2 \<or> ph = 3" by (simp add: word_unat_eq_iff)
  then show ?thesis by (auto simp: adsr_delta_def Let_def split: prod.splits)
qed

lemma divider_add:
  assumes "d < (0x8000 :: u32)" "0 \<le> dv" "dv \<le> 32768"
  shows "uint (d + word_of_int dv) = uint d + dv"
    and "(d + word_of_int dv) AND 0x8000 = 0 \<longleftrightarrow> uint d + dv < 32768"
proof -
  have d: "0 \<le> uint d" "uint d < 32768" using assms(1) by (simp_all add: word_less_def)
  show u: "uint (d + word_of_int dv) = uint d + dv"
    using d assms by (simp add: uint_word_ariths uint_word_of_int mod_simps)
  define w where "w = d + word_of_int dv"
  have "uint w < 65536" "0 \<le> uint w" unfolding w_def u using d assms by linarith+
  then have "odd (uint w div 2 ^ 15) \<longleftrightarrow> 32768 \<le> uint w" by (intro top_bit_div)
  moreover have "w AND 0x8000 = 0 \<longleftrightarrow> \<not> bit w 15" using and_exp_eq_0_iff_not_bit [of w 15] by simp
  moreover have "bit (uint w) 15 \<longleftrightarrow> odd (uint w div 2 ^ 15)" by (rule bit_iff_odd)
  moreover have "bit (uint w) 15 = bit w 15" by (simp add: bit_uint_iff)
  ultimately have "w AND 0x8000 = 0 \<longleftrightarrow> \<not> 32768 \<le> uint w" by blast
  then show "(d + word_of_int dv) AND 0x8000 = 0 \<longleftrightarrow> uint d + dv < 32768"
    unfolding w_def u not_le .
qed

lemma env_phase_le: "env_ok v \<Longrightarrow> env_phase v \<le> 3"
  by (simp add: env_ok_def env_phase_def)

lemma env_next_range:
  assumes "reset \<in> {0, 0x7FFF}"
  shows "0 \<le> env_next inc reset prev" "env_next inc reset prev \<le> 0x7FFF"
  using assms by (auto simp: env_next_def Let_def)

text \<open>One step of the envelope, with its arithmetic on integers.\<close>

lemma adsr_run_cases:
  assumes ok: "env_ok v" and delta: "adsr_delta raw (env_phase v) (env_level v) = Some (inc, dv, reset)"
  obtains (count) "uint (adsr_divider v) + dv < 32768"
      "adsr_run raw v = v\<lparr>adsr_phase := env_phase v, adsr_divider := adsr_divider v + word_of_int dv\<rparr>"
      "uint (adsr_divider v + word_of_int dv) = uint (adsr_divider v) + dv"
    | (move) l ph where "uint l = env_next inc reset (env_level v)"
      "ph \<le> 3" "env_phase v \<noteq> ADSR_DECAY \<Longrightarrow> ph = env_phase v"
      "adsr_run raw v = v\<lparr>adsr_phase := ph, adsr_divider := 0, env_level := l\<rparr>"
proof -
  let ?p = "env_phase v"
  note r = adsr_delta_range [OF _ delta]
  have lv: "env_level v \<le> 0x7FFF" "adsr_divider v < 0x8000" using ok by (simp_all add: env_ok_def)
  note d = divider_add [OF lv(2) r(3) [OF lv(1)] r(4) [OF lv(1)]]
  have v: "(if adsr_phase v = ADSR_ATTACK \<and> env_level v = 0x7FFF then v\<lparr>adsr_phase := ADSR_DECAY\<rparr> else v)
      = v\<lparr>adsr_phase := ?p\<rparr>" by (simp add: env_phase_def)
  show thesis
  proof (cases "uint (adsr_divider v) + dv < 32768")
    case True
    have "adsr_run raw v = v\<lparr>adsr_phase := ?p, adsr_divider := adsr_divider v + word_of_int dv\<rparr>"
      unfolding adsr_run_def v Let_def using delta True d(2) by simp
    then show thesis using True d(1) by (intro count)
  next
    case False
    define l where "l = env_bump ?p inc reset (env_level v)"
    define ph where "ph = (if ?p = ADSR_DECAY \<and> l < word_of_int (push_bit 11 (uint (raw AND 0x0F) + 1))
      then ADSR_SUSTAIN else ?p)"
    have "uint l = env_next inc reset (env_level v)"
      unfolding l_def by (rule env_bump_next) (use lv r in auto)
    moreover have "ph \<le> 3" "?p \<noteq> ADSR_DECAY \<Longrightarrow> ph = ?p" using env_phase_le [OF ok] by (simp_all add: ph_def)
    moreover have "adsr_run raw v = v\<lparr>adsr_phase := ph, adsr_divider := 0, env_level := l\<rparr>"
      unfolding adsr_run_def v Let_def using delta False d(2)
      by (intro spu_voice.equality) (auto simp: l_def ph_def)
    ultimately show thesis by (intro move)
  qed
qed

lemma adsr_run_ok: "env_ok v \<Longrightarrow> env_ok (adsr_run raw v)"
proof -
  assume ok: "env_ok v"
  obtain inc dv reset where delta: "adsr_delta raw (env_phase v) (env_level v) = Some (inc, dv, reset)"
    using adsr_delta_some [OF env_phase_le [OF ok]] by (metis not_None_eq prod_cases3)
  have lv: "env_level v \<le> 0x7FFF" using ok by (simp add: env_ok_def)
  from adsr_delta_range(5) [OF lv delta] have rs: "reset \<in> {0, 0x7FFF}" .
  from ok delta show ?thesis
  proof (cases rule: adsr_run_cases)
    case count
    then show ?thesis using ok env_phase_le [OF ok] by (simp add: env_ok_def word_less_def)
  next
    case (move l ph)
    then show ?thesis using env_next_range [OF rs, of inc "env_level v"] by (simp add: env_ok_def word_le_def)
  qed
qed

subsection \<open>Release\<close>

text \<open>The release rate of the register pair; 31 is the one that never moves.\<close>

definition release_rate :: "u32 \<Rightarrow> u8" where
  "release_rate raw = ucast (drop_bit 16 raw) AND 0x1F"

lemma release_speed: "release_rate raw \<noteq> 31 \<Longrightarrow> push_bit 2 (release_rate raw) < (0x7C :: u8)"
proof -
  let ?r = "release_rate raw"
  assume "?r \<noteq> 31"
  moreover have "?r = ?r AND mask 5" by (simp add: release_rate_def mask_eq_exp_minus_1 and.assoc)
  then have "unat ?r < 32" using unat_and_mask_less [of ?r 5] by simp
  moreover have "unat ?r \<noteq> 31" using calculation(1) by (simp add: word_unat_eq_iff)
  ultimately have r: "unat ?r < 31" by simp
  then have "unat (push_bit 2 ?r) = 4 * unat ?r"
    by (simp add: push_bit_eq_mult unat_word_ariths)
  then show ?thesis using r by (simp add: word_less_nat_alt)
qed

definition release_left :: "spu_voice \<Rightarrow> nat" where
  "release_left v = nat (uint (env_level v) * 32768 + (32768 - uint (adsr_divider v)))"

lemma release_step:
  assumes ok: "env_ok v" and ph: "adsr_phase v = ADSR_RELEASE" and rr: "release_rate raw \<noteq> 31"
  shows "adsr_phase (adsr_run raw v) = ADSR_RELEASE"
    and "env_level v = 0 \<Longrightarrow> env_level (adsr_run raw v) = 0"
    and "env_level v \<noteq> 0 \<Longrightarrow> release_left (adsr_run raw v) < release_left v"
proof -
  have p: "env_phase v = ADSR_RELEASE" using ph by (simp add: env_phase_def)
  obtain inc dv where c: "calc_vc_delta 0x7C (push_bit 2 (release_rate raw)) (bit raw 21) True True (env_level v) = (inc, dv)"
    by (rule prod.exhaust)
  have delta: "adsr_delta raw (env_phase v) (env_level v) = Some (inc, dv, 0)"
    using c by (simp add: adsr_delta_def p release_rate_def Let_def)
  have lv: "env_level v \<le> 0x7FFF" and dd: "adsr_divider v < 0x8000" using ok by (simp_all add: env_ok_def)
  note f = falling_range [OF c lv]
  have dv: "0 < dv" by (rule f(5) [OF release_speed [OF rr]])
  have nx: "env_next inc 0 (env_level v) = max 0 (uint (env_level v) + inc)"
    using f(1) lv by (auto simp: env_next_def Let_def word_le_def)
  have u: "0 \<le> uint (env_level v)" "0 \<le> uint (adsr_divider v)" "uint (adsr_divider v) < 32768"
    using dd by (simp_all add: word_less_def)
  have pos: "0 < uint (env_level v) * 32768 + (32768 - uint (adsr_divider v))" using u by linarith
  have *: "adsr_phase (adsr_run raw v) = ADSR_RELEASE \<and> (env_level v = 0 \<longrightarrow> env_level (adsr_run raw v) = 0)
    \<and> (env_level v \<noteq> 0 \<longrightarrow> release_left (adsr_run raw v) < release_left v)"
    using ok delta
  proof (cases rule: adsr_run_cases)
    case count
    then show ?thesis using p dv pos by (simp add: release_left_def)
  next
    case (move l ph)
    have l: "uint l = max 0 (uint (env_level v) + inc)" using move(1) nx by simp
    have "l = 0" if "env_level v = 0" using l that f(1) by (simp add: word_uint_eq_iff)
    moreover have "uint l + 1 \<le> uint (env_level v)" if "env_level v \<noteq> 0"
    proof -
      have "uint (env_level v) \<noteq> 0" using that by (simp add: word_uint_eq_iff)
      then show ?thesis using l f(6) [OF that] u by linarith
    qed
    ultimately show ?thesis using move(2,3,4) p u pos by (auto simp: release_left_def nat_less_iff)
  qed
  then show "adsr_phase (adsr_run raw v) = ADSR_RELEASE" "env_level v = 0 \<Longrightarrow> env_level (adsr_run raw v) = 0"
    "env_level v \<noteq> 0 \<Longrightarrow> release_left (adsr_run raw v) < release_left v" by auto
qed

lemma release_left_bound:
  assumes "env_ok v" shows "release_left v \<le> 2 ^ 30"
proof -
  have "uint (env_level v) \<le> 32767" using assms by (simp add: env_ok_def word_le_def)
  then have "uint (env_level v) * 32768 \<le> 32767 * 32768" by (rule mult_right_mono) simp
  moreover have "0 \<le> uint (adsr_divider v)" by simp
  ultimately have "uint (env_level v) * 32768 + (32768 - uint (adsr_divider v)) \<le> 1073741824" by linarith
  then show ?thesis by (simp add: release_left_def nat_le_iff)
qed

subsection \<open>The pitch counter\<close>

text \<open>
  The position of a voice in its block, in units of 1/4096 of a sample. The loop takes whole samples off
  the phase and stops at the end of the block; the position it leaves is the one it started from.
\<close>

definition voice_pos :: "spu_voice \<Rightarrow> int" where
  "voice_pos v = sample_idx v * 4096 + uint (phase v)"

lemma phase_walk_pos:
  assumes "phase_walk ph idx = (ph', idx')" "0 \<le> idx" "idx < 28"
  shows "idx' * 4096 + uint ph' = idx * 4096 + uint ph \<and> idx \<le> idx'
    \<and> (uint ph' < 4096 \<and> idx' < 28 \<or> idx' = 28)"
  using assms
proof (induction ph idx arbitrary: ph' idx' rule: phase_walk.induct)
  case (1 ph idx)
  show ?case
  proof (cases "ph \<ge> 0x1000")
    case True
    have u: "uint (ph - 0x1000) = uint ph - 4096"
      using uint_sub_ge [of "0x1000" ph] True by (simp add: uint_minus_simple_alt [THEN iffD1])
    show ?thesis
    proof (cases "idx + 1 \<ge> 28")
      case last: True
      then have "phase_walk ph idx = (ph - 0x1000, idx + 1)" using True by (subst phase_walk.simps) simp
      then show ?thesis using 1(2,3,4) last u by auto
    next
      case False
      then have "phase_walk ph idx = phase_walk (ph - 0x1000) (idx + 1)" using True by (subst phase_walk.simps) simp
      then have "phase_walk (ph - 0x1000) (idx + 1) = (ph', idx')" using 1(2) by simp
      from 1(1) [OF True False this] 1(3) False u show ?thesis by auto
    qed
  next
    case False
    then have "phase_walk ph idx = (ph, idx)" by (subst phase_walk.simps) simp
    moreover have "uint ph < 4096" using False by (simp add: word_le_def)
    ultimately show ?thesis using 1(2,3,4) by auto
  qed
qed

subsection \<open>The interpolation filter\<close>

definition gauss_rows :: "(int \<times> int \<times> int \<times> int) list" where
  "gauss_rows = zip (rev (take 256 spu_gauss_table)) (zip (rev (drop 256 spu_gauss_table))
     (zip (drop 256 spu_gauss_table) (take 256 spu_gauss_table)))"

lemma gauss_length: "length spu_gauss_table = 512"
  by (simp add: spu_gauss_table_def)

lemma gauss_rows_small: "list_all (\<lambda>(a, b, c, d). \<bar>a\<bar> + \<bar>b\<bar> + \<bar>c\<bar> + \<bar>d\<bar> \<le> 32767) gauss_rows"
  by code_simp

lemma gauss_row:
  "g < 256 \<Longrightarrow> \<bar>spu_gauss_table ! (0x0FF - g)\<bar> + \<bar>spu_gauss_table ! (0x1FF - g)\<bar>
     + \<bar>spu_gauss_table ! (0x100 + g)\<bar> + \<bar>spu_gauss_table ! g\<bar> \<le> 32767"
  using gauss_rows_small by (auto simp: list_all_length gauss_rows_def gauss_length rev_nth)

text \<open>The sum of the four taps stays within its 32 bits, and its high part within the 16 it is cast to.\<close>

lemma gauss_sum_bound:
  fixes g :: nat and a b c d :: int
  assumes "g < 256" "\<bar>a\<bar> \<le> 32768" "\<bar>b\<bar> \<le> 32768" "\<bar>c\<bar> \<le> 32768" "\<bar>d\<bar> \<le> 32768"
  shows "\<bar>spu_gauss_table ! (0x0FF - g) * a + spu_gauss_table ! (0x1FF - g) * b
     + spu_gauss_table ! (0x100 + g) * c + spu_gauss_table ! g * d\<bar> \<le> 32767 * 32768"
proof -
  have m: "\<bar>k * x\<bar> \<le> \<bar>k\<bar> * 32768" if "\<bar>x\<bar> \<le> 32768" for k x :: int
    using that by (simp add: abs_mult mult_left_mono)
  have tri: "\<bar>w + x + y + z\<bar> \<le> \<bar>w\<bar> + \<bar>x\<bar> + \<bar>y\<bar> + \<bar>z\<bar>" for w x y z :: int by linarith
  show ?thesis
    by (rule order_trans [OF tri])
      (use gauss_row [OF assms(1)] m [OF assms(2), of "spu_gauss_table ! (0x0FF - g)"]
        m [OF assms(3), of "spu_gauss_table ! (0x1FF - g)"] m [OF assms(4), of "spu_gauss_table ! (0x100 + g)"]
        m [OF assms(5), of "spu_gauss_table ! g"] in \<open>auto simp del: abs_mult\<close>)
qed

subsection \<open>Noise\<close>

text \<open>The register of all ones is the only one that is its own successor, and nothing else leads to it.\<close>

lemma noise_lock: "noise_shift l = 0xFFFF \<Longrightarrow> l = 0xFFFF"
proof -
  assume eq: "noise_shift l = 0xFFFF"
  have ones: "(0xFFFF :: u16) = - 1" by simp
  have par: "bit (noise_parity l) n \<longleftrightarrow> n = 0 \<and> (bit l 15 \<noteq> (bit l 12 \<noteq> (bit l 11 \<noteq> (\<not> bit l 10))))" for n
    unfolding noise_parity_def by (cases "n = 0") (auto simp: bit_simps)
  have all: "bit (noise_shift l) n" if "n < 16" for n
    unfolding eq ones using that by (simp add: bit_minus_1_iff)
  have low: "bit l n" if "n < 15" for n
    using all [of "Suc n"] that by (simp only: noise_shift_def bit_or_iff bit_push_bit_iff par) simp
  have "bit l 15" using all [of 0] low [of 12] low [of 11] low [of 10]
    by (simp only: noise_shift_def bit_or_iff bit_push_bit_iff par) simp
  show "l = 0xFFFF" unfolding ones
  proof (rule bit_word_eqI)
    fix n assume "n < LENGTH(16)"
    then have "n < 15 \<or> n = 15" by auto
    then show "bit l n = bit (- 1 :: u16) n" using low \<open>bit l 15\<close> by (auto simp: bit_minus_1_iff)
  qed
qed

lemma noise_timer_range:
  assumes "0 \<le> noise_timer s" "noise_timer s < 0x20000"
  shows "0 \<le> noise_timer (noise_clock ctrl s) \<and> noise_timer (noise_clock ctrl s) < 0x20000"
proof -
  define st where "st = uint (drop_bit 8 ctrl AND 3)"
  define k where "k = unat (drop_bit 10 ctrl AND 0x0F)"
  have st: "0 \<le> st" "st \<le> 3"
  proof -
    have "unat (drop_bit 8 ctrl AND mask 2) < 4" using unat_and_mask_less [of "drop_bit 8 ctrl" 2] by simp
    then have "unat (drop_bit 8 ctrl AND 3) < 4" by (simp add: mask_eq_exp_minus_1)
    then have "int (unat (drop_bit 8 ctrl AND 3)) \<le> 3" by linarith
    then show "st \<le> 3" unfolding st_def by (simp only: uint_nat)
  qed (simp add: st_def)
  have "k < 16" unfolding k_def using unat_and_mask_less [of "drop_bit 10 ctrl" 4] by (simp add: mask_eq_exp_minus_1)
  then have "(2 :: int) ^ k \<le> 2 ^ 15" by (intro power_increasing) simp_all
  then have "(0x20000 :: int) div 2 ^ 15 \<le> 0x20000 div 2 ^ k" by (intro zdiv_mono2) simp_all
  moreover have "(0x20000 :: int) div 2 ^ k \<le> 0x20000 div 1" by (intro zdiv_mono2) simp_all
  ultimately have r: "4 \<le> drop_bit k (0x20000 :: int)" "drop_bit k (0x20000 :: int) \<le> 0x20000"
    by (simp_all only: drop_bit_eq_div) simp_all
  show ?thesis using assms st r
    unfolding noise_clock_def Let_def st_def [symmetric] k_def [symmetric] by auto
qed

end
