(* ===== verification/SpuProps.thy ===== *)
theory SpuProps
  imports SpuEnv
begin

unbundle bit_operations_syntax

section \<open>The sound processor as a whole\<close>

text \<open>
  What each operation leaves alone, as views of the state, and the bounds one step of a voice keeps.
\<close>

subsection \<open>What each operation leaves alone\<close>

lemma irq_check_fields [simp]:
  "spu_ram (spu_irq_check a n s) = spu_ram s" "spu_regs (spu_irq_check a n s) = spu_regs s"
  "transfer_addr (spu_irq_check a n s) = transfer_addr s" "key_on_count (spu_irq_check a n s) = key_on_count s"
  "endx_latch (spu_irq_check a n s) = endx_latch s" "noise_lfsr (spu_irq_check a n s) = noise_lfsr s"
  "noise_timer (spu_irq_check a n s) = noise_timer s" "rev_cur (spu_irq_check a n s) = rev_cur s"
  "rev_phase (spu_irq_check a n s) = rev_phase s" "rev_in_hold_l (spu_irq_check a n s) = rev_in_hold_l s"
  "rev_in_hold_r (spu_irq_check a n s) = rev_in_hold_r s" "rev_out_l (spu_irq_check a n s) = rev_out_l s"
  "rev_out_r (spu_irq_check a n s) = rev_out_r s" "capture_pos (spu_irq_check a n s) = capture_pos s"
  "sweep_voice_env (spu_irq_check a n s) = sweep_voice_env s" "sweep_main_env (spu_irq_check a n s) = sweep_main_env s"
  "voices (spu_irq_check a n s) = voices s" "cd_ring (spu_irq_check a n s) = cd_ring s"
  "cd_read_pos (spu_irq_check a n s) = cd_read_pos s" "cd_write_pos (spu_irq_check a n s) = cd_write_pos s"
  "cd_frame_count (spu_irq_check a n s) = cd_frame_count s" "cd_push_frames (spu_irq_check a n s) = cd_push_frames s"
  "host_sfx_percent (spu_irq_check a n s) = host_sfx_percent s" "host_music_percent (spu_irq_check a n s) = host_music_percent s"
  by (simp_all add: spu_irq_check_def split: option.split)

lemma put16_fields [simp]:
  "spu_regs (ram_put16 a v s) = spu_regs s" "transfer_addr (ram_put16 a v s) = transfer_addr s"
  "noise_lfsr (ram_put16 a v s) = noise_lfsr s" "noise_timer (ram_put16 a v s) = noise_timer s"
  "rev_cur (ram_put16 a v s) = rev_cur s" "rev_phase (ram_put16 a v s) = rev_phase s"
  "rev_in_hold_l (ram_put16 a v s) = rev_in_hold_l s" "rev_in_hold_r (ram_put16 a v s) = rev_in_hold_r s"
  "rev_out_l (ram_put16 a v s) = rev_out_l s" "rev_out_r (ram_put16 a v s) = rev_out_r s"
  "capture_pos (ram_put16 a v s) = capture_pos s" "voices (ram_put16 a v s) = voices s"
  "sweep_voice_env (ram_put16 a v s) = sweep_voice_env s" "sweep_main_env (ram_put16 a v s) = sweep_main_env s"
  "cd_ring (ram_put16 a v s) = cd_ring s" "cd_read_pos (ram_put16 a v s) = cd_read_pos s"
  "cd_write_pos (ram_put16 a v s) = cd_write_pos s" "cd_frame_count (ram_put16 a v s) = cd_frame_count s"
  "cd_push_frames (ram_put16 a v s) = cd_push_frames s" "irq_flag (ram_put16 a v s) = irq_flag s"
  "host_sfx_percent (ram_put16 a v s) = host_sfx_percent s" "host_music_percent (ram_put16 a v s) = host_music_percent s"
  "spu_env (ram_put16 a v s) = spu_env s"
  by (simp_all add: ram_put16_def)

text \<open>
  The parts of the state as views: what the reverb owns, and the rest that is neither a voice nor sound RAM
  nor the interrupt.
\<close>

definition fixed_view :: "spu \<Rightarrow> _" where
  "fixed_view s = (transfer_addr s, sweep_voice_env s, sweep_main_env s, host_sfx_percent s, host_music_percent s)"

definition noise_view :: "spu \<Rightarrow> u16 \<times> int \<times> u32" where
  "noise_view s = (noise_lfsr s, noise_timer s, capture_pos s)"

definition cd_view :: "spu \<Rightarrow> _" where
  "cd_view s = (cd_ring s, cd_read_pos s, cd_write_pos s, cd_frame_count s, cd_push_frames s)"

definition rev_view :: "spu \<Rightarrow> _" where
  "rev_view s = (rev_cur s, rev_phase s, rev_in_hold_l s, rev_in_hold_r s, rev_out_l s, rev_out_r s)"

lemmas view_defs = fixed_view_def noise_view_def cd_view_def rev_view_def

lemma irq_check_views [simp]:
  "fixed_view (spu_irq_check a n s) = fixed_view s" "noise_view (spu_irq_check a n s) = noise_view s"
  "cd_view (spu_irq_check a n s) = cd_view s" "rev_view (spu_irq_check a n s) = rev_view s"
  by (simp_all add: view_defs)

lemma put16_views [simp]:
  "fixed_view (ram_put16 a v s) = fixed_view s" "noise_view (ram_put16 a v s) = noise_view s"
  "cd_view (ram_put16 a v s) = cd_view s" "rev_view (ram_put16 a v s) = rev_view s"
  by (simp_all add: view_defs)

lemma upd_voice_views [simp]:
  "fixed_view (upd_voice i f s) = fixed_view s" "noise_view (upd_voice i f s) = noise_view s"
  "cd_view (upd_voice i f s) = cd_view s" "rev_view (upd_voice i f s) = rev_view s"
  "spu_ram (upd_voice i f s) = spu_ram s" "spu_regs (upd_voice i f s) = spu_regs s"
  "endx_latch (upd_voice i f s) = endx_latch s" "noise_lfsr (upd_voice i f s) = noise_lfsr s"
  by (simp_all add: view_defs upd_voice_def)

lemma upd_voice_sel [simp]:
  "voices (upd_voice i f s) i = f (voices s i)" "j \<noteq> i \<Longrightarrow> voices (upd_voice i f s) j = voices s j"
  by (simp_all add: upd_voice_def)

text \<open>A decoded block: its voice, the repeat register of the voice, the latch of the ends.\<close>

lemma decode_block_views [simp]:
  "fixed_view (decode_block i s) = fixed_view s" "noise_view (decode_block i s) = noise_view s"
  "cd_view (decode_block i s) = cd_view s" "rev_view (decode_block i s) = rev_view s"
  "spu_ram (decode_block i s) = spu_ram s" "noise_lfsr (decode_block i s) = noise_lfsr s"
  by (simp_all add: decode_block_def Let_def view_defs upd_voice_def)

lemma decode_block_voice: "j \<noteq> i \<Longrightarrow> voices (decode_block i s) j = voices s j"
  by (simp add: decode_block_def Let_def upd_voice_def)

lemma decode_block_regs: "k \<noteq> i * 8 + 7 \<Longrightarrow> spu_regs (decode_block i s) k = spu_regs s k"
  by (simp add: decode_block_def Let_def)

lemma fetch_views [simp]:
  "fixed_view (voice_fetch i s) = fixed_view s" "noise_view (voice_fetch i s) = noise_view s"
  "cd_view (voice_fetch i s) = cd_view s" "rev_view (voice_fetch i s) = rev_view s"
  "spu_ram (voice_fetch i s) = spu_ram s" "noise_lfsr (voice_fetch i s) = noise_lfsr s"
  by (simp_all add: voice_fetch_def)

lemma fetch_voice: "j \<noteq> i \<Longrightarrow> voices (voice_fetch i s) j = voices s j"
  and fetch_regs: "k \<noteq> i * 8 + 7 \<Longrightarrow> spu_regs (voice_fetch i s) k = spu_regs s k"
  by (simp_all add: voice_fetch_def decode_block_voice decode_block_regs)

lemma vns_views [simp]:
  "fixed_view (snd (voice_next_sample i s)) = fixed_view s" "noise_view (snd (voice_next_sample i s)) = noise_view s"
  "cd_view (snd (voice_next_sample i s)) = cd_view s" "rev_view (snd (voice_next_sample i s)) = rev_view s"
  "spu_ram (snd (voice_next_sample i s)) = spu_ram s"
  by (simp_all add: voice_next_sample_def Let_def)

lemma vns_voice: "j \<noteq> i \<Longrightarrow> voices (snd (voice_next_sample i s)) j = voices s j"
  and vns_regs: "k \<noteq> i * 8 + 7 \<Longrightarrow> spu_regs (snd (voice_next_sample i s)) k = spu_regs s k"
  by (simp_all add: voice_next_sample_def Let_def fetch_voice fetch_regs)

subsection \<open>The bounds of a voice\<close>

definition voice_ok :: "spu_voice \<Rightarrow> bool" where
  "voice_ok v \<longleftrightarrow> env_ok v \<and> length (samples v) = 28 \<and> length (previous_samples v) = 3
     \<and> 0 \<le> sample_idx v \<and> sample_idx v \<le> 28 \<and> (sample_idx v < 28 \<longrightarrow> phase v < 0x1000) \<and> phase v < 0x4000
     \<and> cur_addr v < SPU_RAM_SIZE \<and> repeat_addr v < SPU_RAM_SIZE"

lemma and_ram_mask: "a AND 0x7FFFF < (0x80000 :: u32)"
proof -
  have "unat (a AND mask 19) < 2 ^ 19" by (rule unat_and_mask_less)
  then show ?thesis by (simp add: word_less_nat_alt mask_eq_exp_minus_1)
qed

lemma length_adpcm_run [simp]: "length (adpcm_run flt sh ns h1 h2) = length ns"
  by (induction flt sh ns h1 h2 rule: adpcm_run.induct) (simp_all add: Let_def)

lemma length_nibbles [simp]: "length (nibbles bs) = 2 * length bs"
  by (induction bs) (simp_all add: nibbles_def)

lemma block_addr_less: "block_addr v < 0x80000"
  using and_ram_mask [of "cur_addr v"] by (simp add: block_addr_def Let_def)

lemma decode_samples_fields [simp]:
  "env_level (decode_samples b v) = env_level v" "adsr_divider (decode_samples b v) = adsr_divider v"
  "adsr_phase (decode_samples b v) = adsr_phase v" "phase (decode_samples b v) = phase v"
  "active (decode_samples b v) = active v" "repeat_addr (decode_samples b v) = repeat_addr v"
  "length (previous_samples (decode_samples b v)) = 3"
  by (simp_all add: decode_samples_def Let_def)

lemma length_decoded: "length b = 16 \<Longrightarrow> length (samples (decode_samples b v)) = 28"
  by (simp add: decode_samples_def Let_def)

text \<open>What a fetched block does to its own voice.\<close>

lemma decode_block_own:
  fixes i s
  defines "v \<equiv> voices s i"
  defines "blk \<equiv> map (\<lambda>k. spu_ram s (unat (block_addr v) + k)) [0..<16]"
  shows "voices (decode_block i s) i = (decode_samples blk v)\<lparr>vflags := blk ! 1, sample_idx := 0,
     cur_addr := (block_addr v + 16) AND 0x7FFFF,
     repeat_addr := (if blk ! 1 AND 0x04 \<noteq> 0 then block_addr v else repeat_addr v)\<rparr>"
  unfolding decode_block_def Let_def blk_def v_def by (simp add: upd_voice_def decode_samples_def Let_def)

lemma wrap_fields:
  "sample_idx (voice_wrap v) = sample_idx v" "phase (voice_wrap v) = phase v" "samples (voice_wrap v) = samples v"
  "previous_samples (voice_wrap v) = previous_samples v" "repeat_addr (voice_wrap v) = repeat_addr v"
  "active (voice_wrap v) = active v"
  by (simp_all add: voice_wrap_def Let_def)

lemma wrap_env: "env_ok v \<Longrightarrow> env_ok (voice_wrap v)"
  by (simp add: voice_wrap_def env_ok_def Let_def)

lemma fetch_own:
  assumes "voice_ok (voices s i)"
  shows "voice_ok (voices (voice_fetch i s) i \<lparr>phase := 0\<rparr>)" "phase (voices (voice_fetch i s) i) = phase (voices s i)"
    "sample_idx (voices (voice_fetch i s) i) = (if sample_idx (voices s i) = 28 then 0 else sample_idx (voices s i))"
    "active (voices (voice_fetch i s) i) = active (voices s i)"
proof -
  let ?v = "voices s i"
  have "voice_ok (voices (voice_fetch i s) i \<lparr>phase := 0\<rparr>) \<and> phase (voices (voice_fetch i s) i) = phase ?v
    \<and> sample_idx (voices (voice_fetch i s) i) = (if sample_idx ?v = 28 then 0 else sample_idx ?v)
    \<and> active (voices (voice_fetch i s) i) = active ?v"
  proof (cases "sample_idx ?v \<ge> 28")
    case True
    then have "sample_idx ?v = 28" using assms by (simp add: voice_ok_def)
    moreover have "env_ok (voice_wrap ?v)" using assms by (intro wrap_env) (simp add: voice_ok_def)
    ultimately show ?thesis using assms True
      by (simp add: voice_fetch_def decode_block_own wrap_fields voice_ok_def env_ok_def length_decoded
          and_ram_mask block_addr_less)
  qed (use assms in \<open>simp add: voice_fetch_def voice_ok_def env_ok_def\<close>)
  then show "voice_ok (voices (voice_fetch i s) i \<lparr>phase := 0\<rparr>)" "phase (voices (voice_fetch i s) i) = phase ?v"
    "sample_idx (voices (voice_fetch i s) i) = (if sample_idx ?v = 28 then 0 else sample_idx ?v)"
    "active (voices (voice_fetch i s) i) = active ?v" by blast+
qed

lemma pitch_range: "0 < voice_pitch i s \<and> voice_pitch i s < 0x4000"
proof -
  let ?p = "ucast (voice_reg i 2 s) AND 0x3FFF :: u32"
  have "unat (ucast (voice_reg i 2 s) AND mask 14 :: u32) < 2 ^ 14" by (rule unat_and_mask_less)
  then have "?p < 0x4000" by (simp add: word_less_nat_alt mask_eq_exp_minus_1)
  then show ?thesis by (auto simp: voice_pitch_def Let_def word_gt_0)
qed

lemma phase_add:
  assumes "ph < (0x4000 :: u32)" "p < 0x4000"
  shows "uint (ph + p) = uint ph + uint p"
proof -
  have "uint ph < 16384" using assms(1) unfolding word_less_def by simp
  moreover have "uint p < 16384" using assms(2) unfolding word_less_def by simp
  ultimately have "uint ph + uint p < 32768" by linarith
  also have "\<dots> < 2 ^ LENGTH(32)" by simp
  finally show ?thesis by (rule uint_add_lem [THEN iffD1])
qed

lemma voice_advance_ok:
  assumes v: "voice_ok (v\<lparr>phase := 0\<rparr>)" "sample_idx v < 28" "phase v < 0x4000" "0 < sample_idx v \<Longrightarrow> phase v < 0x1000"
    and p: "p < 0x4000"
  shows "voice_ok (voice_advance p v)" "voice_pos (voice_advance p v) = voice_pos v + uint p"
proof -
  obtain ph idx where w: "phase_walk (phase v + p) (sample_idx v) = (ph, idx)" by (rule prod.exhaust)
  have i: "0 \<le> sample_idx v" using v(1) by (simp add: voice_ok_def)
  have u: "uint (phase v + p) = uint (phase v) + uint p" using v(3) p by (rule phase_add)
  note pos = phase_walk_pos [OF w i v(2)]
  have b: "uint (phase v) < 16384" "0 < sample_idx v \<Longrightarrow> uint (phase v) < 4096" "uint p < 16384" "0 \<le> uint ph"
    using v(3,4) p by (simp_all add: word_less_def)
  have "idx \<le> 28" "uint ph < 16384" using pos u b v(2) i by (cases "sample_idx v = 0"; auto)+
  moreover have "idx < 28 \<longrightarrow> ph < 0x1000" "0 \<le> idx" using pos i by (auto simp: word_less_def)
  ultimately have "idx \<le> 28" "ph < 0x4000" "idx < 28 \<longrightarrow> ph < 0x1000" "0 \<le> idx" by (simp_all add: word_less_def)
  then show "voice_ok (voice_advance p v)" using v(1)
    by (simp add: voice_ok_def voice_advance_def w env_ok_def)
  show "voice_pos (voice_advance p v) = voice_pos v + uint p" using pos u by (simp add: voice_pos_def voice_advance_def w)
qed

lemma envelope_fields [simp]:
  "sample_idx (voice_envelope raw v) = sample_idx v" "phase (voice_envelope raw v) = phase v"
  "samples (voice_envelope raw v) = samples v" "previous_samples (voice_envelope raw v) = previous_samples v"
  "cur_addr (voice_envelope raw v) = cur_addr v" "repeat_addr (voice_envelope raw v) = repeat_addr v"
  by (simp_all add: voice_envelope_def adsr_run_def Let_def split: option.split prod.split)

lemma envelope_ok: "env_ok v \<Longrightarrow> env_ok (voice_envelope raw v)"
  using adsr_run_ok [of v raw] by (simp add: voice_envelope_def Let_def env_ok_def)

text \<open>The state of a voice after one output sample, through the steps of \<open>voice_next_sample\<close>.\<close>

definition after_envelope :: "nat \<Rightarrow> spu \<Rightarrow> spu_voice" where
  "after_envelope i s = voice_envelope (adsr_raw i (voice_fetch i s)) (voices (voice_fetch i s) i)"

lemma vns_own:
  assumes "active (voices s i)"
  shows "\<exists>p. 0 < p \<and> p < 0x4000 \<and> voices (snd (voice_next_sample i s)) i = voice_advance p (after_envelope i s)
     \<and> p = voice_pitch i (voice_fetch i s)"
  using pitch_range [of i "voice_fetch i s"] assms
  by (simp add: voice_next_sample_def Let_def after_envelope_def voice_pitch_def voice_reg_def)

lemma after_envelope_ok:
  assumes ok: "voice_ok (voices s i)"
  shows "voice_ok ((after_envelope i s)\<lparr>phase := 0\<rparr>)" "sample_idx (after_envelope i s) < 28"
    "phase (after_envelope i s) < 0x4000" "0 < sample_idx (after_envelope i s) \<Longrightarrow> phase (after_envelope i s) < 0x1000"
    "voice_pos (after_envelope i s) = voice_pos (voices s i) - (if sample_idx (voices s i) = 28 then 28 * 4096 else 0)"
proof -
  note f = fetch_own [OF ok]
  have "env_ok (voices (voice_fetch i s) i)" using f(1) by (simp add: voice_ok_def env_ok_def)
  then have "env_ok (after_envelope i s)" unfolding after_envelope_def by (rule envelope_ok)
  then show "voice_ok ((after_envelope i s)\<lparr>phase := 0\<rparr>)" using f(1)
    by (simp add: voice_ok_def after_envelope_def env_ok_def)
  show "sample_idx (after_envelope i s) < 28" "phase (after_envelope i s) < 0x4000"
    "0 < sample_idx (after_envelope i s) \<Longrightarrow> phase (after_envelope i s) < 0x1000"
    "voice_pos (after_envelope i s) = voice_pos (voices s i) - (if sample_idx (voices s i) = 28 then 28 * 4096 else 0)"
    using ok f by (auto simp: after_envelope_def voice_ok_def voice_pos_def split: if_splits)
qed

lemma vns_ok: "voice_ok (voices s i) \<Longrightarrow> voice_ok (voices (snd (voice_next_sample i s)) i)"
proof (cases "active (voices s i)")
  case True
  assume ok: "voice_ok (voices s i)"
  obtain p where "p < 0x4000" "voices (snd (voice_next_sample i s)) i = voice_advance p (after_envelope i s)"
    using vns_own [OF True] by blast
  then show ?thesis using voice_advance_ok(1) [OF after_envelope_ok(1-4) [OF ok]] by simp
qed (simp add: voice_next_sample_def)

lemma vns_voices_ok: "(\<forall>j. voice_ok (voices s j)) \<Longrightarrow> (\<forall>j. voice_ok (voices (snd (voice_next_sample i s)) j))"
  by (metis vns_ok vns_voice)

subsection \<open>The control registers and the frame of a render\<close>

text \<open>The registers above the voices', and the indices of the ones the mixer reads.\<close>

definition ctl_view :: "spu \<Rightarrow> nat \<Rightarrow> u16" where
  "ctl_view s = (\<lambda>k. spu_regs s (k + 192))"

lemma reg_idx [simp]:
  "reg_index 0x1F801D80 = 192" "reg_index 0x1F801D82 = 193" "reg_index 0x1F801DA2 = 209" "reg_index 0x1F801DA4 = 210"
  "reg_index 0x1F801DAA = 213" "reg_index 0x1F801DB0 = 216" "reg_index 0x1F801DB2 = 217"
  "reg_index 0x1F801D94 = 202" "reg_index 0x1F801D96 = 203" "reg_index 0x1F801D98 = 204" "reg_index 0x1F801D9A = 205"
  by code_simp+

lemma ctl_rreg: "ctl_view s = ctl_view t \<Longrightarrow> 192 \<le> reg_index a \<Longrightarrow> rreg a s = rreg a t"
  by (drule fun_cong [of _ _ "reg_index a - 192"]) (simp add: ctl_view_def rreg_def)

lemma ctl_mbase: "ctl_view s = ctl_view t \<Longrightarrow> rev_mbase s = rev_mbase t"
  by (simp add: rev_mbase_def ctl_rreg [of s t])

lemma ctl_same [simp]:
  "ctl_view (spu_irq_check a n s) = ctl_view s" "ctl_view (ram_put16 a v s) = ctl_view s"
  "ctl_view (upd_voice i f s) = ctl_view s"
  by (simp_all add: ctl_view_def)

lemma vns_ctl: "i < 24 \<Longrightarrow> ctl_view (snd (voice_next_sample i s)) = ctl_view s"
  by (rule ext) (simp add: ctl_view_def vns_regs)

lemma noise_clock_views [simp]:
  "fixed_view (noise_clock c s) = fixed_view s" "cd_view (noise_clock c s) = cd_view s"
  "rev_view (noise_clock c s) = rev_view s" "ctl_view (noise_clock c s) = ctl_view s"
  "voices (noise_clock c s) = voices s" "capture_pos (noise_clock c s) = capture_pos s"
  "spu_ram (noise_clock c s) = spu_ram s" "spu_regs (noise_clock c s) = spu_regs s"
  by (simp_all add: noise_clock_def Let_def view_defs ctl_view_def)

lemma capture_write_views [simp]:
  "fixed_view (capture_write b v s) = fixed_view s" "cd_view (capture_write b v s) = cd_view s"
  "rev_view (capture_write b v s) = rev_view s" "ctl_view (capture_write b v s) = ctl_view s"
  "voices (capture_write b v s) = voices s" "noise_view (capture_write b v s) = noise_view s"
  "capture_pos (capture_write b v s) = capture_pos s" "spu_regs (capture_write b v s) = spu_regs s"
  by (simp_all add: capture_write_def Let_def)

lemma capture_frame_views [simp]:
  "fixed_view (capture_frame cd a b s) = fixed_view s" "cd_view (capture_frame cd a b s) = cd_view s"
  "rev_view (capture_frame cd a b s) = rev_view s" "ctl_view (capture_frame cd a b s) = ctl_view s"
  "voices (capture_frame cd a b s) = voices s" "spu_regs (capture_frame cd a b s) = spu_regs s"
  "noise_view (capture_frame cd a b s) = (noise_lfsr s, noise_timer s, (capture_pos s + 2) AND 0x3FF)"
proof -
  define t where "t = capture_write 0xC00 b (capture_write 0x800 a (capture_write 0x400 (snd cd) (capture_write 0 (fst cd) s)))"
  have t: "capture_frame cd a b s = t\<lparr>capture_pos := (capture_pos t + 2) AND 0x3FF\<rparr>"
    by (simp add: capture_frame_def t_def Let_def)
  have n: "noise_view t = noise_view s" by (simp add: t_def)
  have "fixed_view t = fixed_view s" "cd_view t = cd_view s" "rev_view t = rev_view s" "ctl_view t = ctl_view s"
    "voices t = voices s" "spu_regs t = spu_regs s" by (simp_all add: t_def)
  then show "fixed_view (capture_frame cd a b s) = fixed_view s" "cd_view (capture_frame cd a b s) = cd_view s"
    "rev_view (capture_frame cd a b s) = rev_view s" "ctl_view (capture_frame cd a b s) = ctl_view s"
    "voices (capture_frame cd a b s) = voices s" "spu_regs (capture_frame cd a b s) = spu_regs s"
    unfolding t by (simp_all add: view_defs ctl_view_def)
  show "noise_view (capture_frame cd a b s) = (noise_lfsr s, noise_timer s, (capture_pos s + 2) AND 0x3FF)"
    using n unfolding t by (simp add: noise_view_def)
qed

text \<open>The reverb reads and writes sound RAM; its own variables change at the end of a step.\<close>

definition rest_view :: "spu \<Rightarrow> _" where
  "rest_view s = (fixed_view s, noise_view s, cd_view s, spu_regs s, voices s)"

lemma rest_view_fields:
  assumes "rest_view s = rest_view t"
  shows "fixed_view s = fixed_view t" "noise_view s = noise_view t" "cd_view s = cd_view t"
    "spu_regs s = spu_regs t" "voices s = voices t" "ctl_view s = ctl_view t"
  using assms by (simp_all add: rest_view_def ctl_view_def)

definition both_views :: "spu \<Rightarrow> _" where
  "both_views s = (rest_view s, rev_view s)"

lemma put16_both [simp]: "both_views (ram_put16 a v s) = both_views s"
  by (simp add: both_views_def rest_view_def)

lemma irq_check_both [simp]: "both_views (spu_irq_check a n s) = both_views s"
  by (simp add: both_views_def rest_view_def)

lemma rev_read_both [simp]: "both_views (snd (rev_read r d s)) = both_views s"
  by (simp add: rev_read_def Let_def)

lemma rev_write_both [simp]: "both_views (rev_write r v w s) = both_views s"
  by (simp add: rev_write_def Let_def)

lemma reflect_both [simp]: "both_views (rev_reflect m d x w s) = both_views s"
  by (simp add: rev_reflect_def Let_def case_prod_unfold)

lemma comb_both [simp]: "both_views (snd (rev_comb a b c d s)) = both_views s"
  by (simp add: rev_comb_def Let_def case_prod_unfold)

lemma allpass_both [simp]: "both_views (snd (rev_allpass m d v x w s)) = both_views s"
  by (simp add: rev_allpass_def Let_def case_prod_unfold)

lemma both_rest: "both_views s = both_views t \<Longrightarrow> rest_view s = rest_view t"
  and both_rev: "both_views s = both_views t \<Longrightarrow> rev_view s = rev_view t"
  by (simp_all add: both_views_def)

text \<open>The ten stages of a reverb step before it stores its result.\<close>

definition reverb_stages :: "int \<Rightarrow> int \<Rightarrow> bool \<Rightarrow> spu \<Rightarrow> int \<times> int \<times> spu" where
  "reverb_stages in_l in_r wren s =
     (let lin = rev_mul (rvol 0x1F801DFC s) in_l;
          rin = rev_mul (rvol 0x1F801DFE s) in_r;
          s = rev_reflect 0x1F801DD4 0x1F801DE0 lin wren s;
          s = rev_reflect 0x1F801DD6 0x1F801DE2 rin wren s;
          s = rev_reflect 0x1F801DE4 0x1F801DF2 lin wren s;
          s = rev_reflect 0x1F801DE6 0x1F801DF0 rin wren s;
          (l, s) = rev_comb 0x1F801DD8 0x1F801DDC 0x1F801DE8 0x1F801DEC s;
          (r, s) = rev_comb 0x1F801DDA 0x1F801DDE 0x1F801DEA 0x1F801DEE s;
          (l, s) = rev_allpass 0x1F801DF4 0x1F801DC0 0x1F801DD0 l wren s;
          (r, s) = rev_allpass 0x1F801DF6 0x1F801DC0 0x1F801DD0 r wren s;
          (l, s) = rev_allpass 0x1F801DF8 0x1F801DC2 0x1F801DD2 l wren s;
          (r, s) = rev_allpass 0x1F801DFA 0x1F801DC2 0x1F801DD2 r wren s
      in (l, r, s))"

lemma reverb_step_stages:
  "reverb_step in_l in_r wren s =
     (let (l, r, s) = reverb_stages in_l in_r wren s
      in rev_advance (s\<lparr>rev_out_l := rev_mul (rvol 0x1F801D84 s) (clamp16 l),
                        rev_out_r := rev_mul (rvol 0x1F801D86 s) (clamp16 r)\<rparr>))"
  unfolding reverb_step_def reverb_stages_def Let_def case_prod_unfold prod.sel ..

lemma stages_both: "both_views (snd (snd (reverb_stages in_l in_r wren s))) = both_views s"
  by (simp add: reverb_stages_def Let_def case_prod_unfold)

lemma rev_out_range: "\<bar>rev_mul (rvol a s) (clamp16 x)\<bar> \<le> 32768"
proof -
  have "\<bar>rvol a s\<bar> \<le> 32768" using sint_u16 [of "rreg a s"] by (auto simp: rvol_def)
  moreover have "\<bar>clamp16 x\<bar> \<le> 32768" using clamp16_range [of x] by auto
  ultimately have "- 32768 \<le> drop_bit 15 (rvol a s * clamp16 x) \<and> drop_bit 15 (rvol a s * clamp16 x) \<le> 32768"
    by (rule drop15_product)
  then show ?thesis unfolding rev_mul_def by linarith
qed

lemma reverb_step_rest: "rest_view (reverb_step a b w s) = rest_view s"
proof -
  have "rest_view (snd (snd (reverb_stages a b w s))) = rest_view s" by (rule both_rest) (rule stages_both)
  then show ?thesis
    by (simp add: reverb_step_stages case_prod_unfold Let_def rev_advance_def rest_view_def view_defs)
qed

lemma reverb_frame_rest: "rest_view (snd (reverb_frame w a b s)) = rest_view s"
proof (cases "rev_phase s")
  case True
  have "rest_view (t\<lparr>rev_phase := x\<rparr>) = rest_view t" for t x by (simp add: rest_view_def view_defs)
  then show ?thesis using True by (simp add: reverb_frame_def Let_def reverb_step_rest)
qed (simp add: reverb_frame_def rest_view_def view_defs)

text \<open>The queue of CD frames.\<close>

lemma cd_input_views [simp]:
  "fixed_view (snd (cd_input b s)) = fixed_view s" "noise_view (snd (cd_input b s)) = noise_view s"
  "rev_view (snd (cd_input b s)) = rev_view s" "spu_regs (snd (cd_input b s)) = spu_regs s"
  "voices (snd (cd_input b s)) = voices s" "spu_ram (snd (cd_input b s)) = spu_ram s"
  by (simp_all add: cd_input_def cd_audio_pop_def Let_def view_defs)

text \<open>The sweeps.\<close>

definition sweepless_view :: "spu \<Rightarrow> _" where
  "sweepless_view s = (transfer_addr s, noise_view s, cd_view s, rev_view s, spu_regs s, voices s, spu_ram s,
     host_sfx_percent s, host_music_percent s)"

lemma sweeps_views [simp]:
  "sweepless_view (step_main_sweeps s) = sweepless_view s" "sweepless_view (step_voice_sweeps s) = sweepless_view s"
  by (simp_all add: sweepless_view_def step_main_sweeps_def step_voice_sweeps_def view_defs)

text \<open>The walk over the voices.\<close>

lemma mix_fold:
  assumes "\<And>i t. i < 24 \<Longrightarrow> P t \<Longrightarrow> P (snd (voice_next_sample i t))" "P s" "\<forall>i \<in> set is. i < 24"
  shows "P (snd (fold (mix_voice eon) is (a, s)))"
  using assms(2,3)
proof (induction "is" arbitrary: a s)
  case (Cons i "is")
  have "mix_voice eon i (a, s) = (fst (mix_voice eon i (a, s)), snd (voice_next_sample i s))"
    by (simp add: mix_voice_def case_prod_unfold Let_def)
  then have "fold (mix_voice eon) (i # is) (a, s)
      = fold (mix_voice eon) is (fst (mix_voice eon i (a, s)), snd (voice_next_sample i s))"
    by (metis fold_Cons o_apply)
  then show ?case using Cons by (simp add: assms(1))
qed simp

lemma mix_voices_views:
  "fixed_view (snd (mix_voices eon s)) = fixed_view s" "noise_view (snd (mix_voices eon s)) = noise_view s"
  "cd_view (snd (mix_voices eon s)) = cd_view s" "rev_view (snd (mix_voices eon s)) = rev_view s"
  "ctl_view (snd (mix_voices eon s)) = ctl_view s" "spu_ram (snd (mix_voices eon s)) = spu_ram s"
proof -
  have "(\<lambda>t. fixed_view t = fixed_view s \<and> noise_view t = noise_view s \<and> cd_view t = cd_view s \<and> rev_view t = rev_view s
      \<and> ctl_view t = ctl_view s \<and> spu_ram t = spu_ram s) (snd (fold (mix_voice eon) [0..<24] (no_sums, s)))"
    by (rule mix_fold) (simp_all add: vns_ctl)
  then show "fixed_view (snd (mix_voices eon s)) = fixed_view s" "noise_view (snd (mix_voices eon s)) = noise_view s"
    "cd_view (snd (mix_voices eon s)) = cd_view s" "rev_view (snd (mix_voices eon s)) = rev_view s"
    "ctl_view (snd (mix_voices eon s)) = ctl_view s" "spu_ram (snd (mix_voices eon s)) = spu_ram s"
    unfolding mix_voices_def by blast+
qed

end
