(* ===== verification/SpuState.thy ===== *)
theory SpuState
  imports SpuProps SpuSnap
begin

unbundle bit_operations_syntax

section \<open>The bounds every state of the sound processor keeps\<close>

text \<open>
  The invariant of the variables, its preservation by the mixer, the registers and the ports, and the states
  reachable from power-on, with the ring of CD frames as a bounded queue.
\<close>

subsection \<open>The invariant\<close>

definition xfer_ok :: "u32 \<Rightarrow> bool" where
  "xfer_ok t \<longleftrightarrow> t < SPU_RAM_SIZE \<and> even t"

definition noise_ok :: "spu \<Rightarrow> bool" where
  "noise_ok s \<longleftrightarrow> noise_lfsr s \<noteq> 0xFFFF \<and> 0 \<le> noise_timer s \<and> noise_timer s < 0x20000
     \<and> capture_pos s < 0x400 \<and> even (capture_pos s)"

definition cd_ok :: "spu \<Rightarrow> bool" where
  "cd_ok s \<longleftrightarrow> unat (cd_read_pos s) < 352800 \<and> unat (cd_write_pos s) < 352800 \<and> unat (cd_frame_count s) \<le> 352800
     \<and> unat (cd_write_pos s) = (unat (cd_read_pos s) + unat (cd_frame_count s)) mod 352800"

definition rev_ok :: "spu \<Rightarrow> bool" where
  "rev_ok s \<longleftrightarrow> xfer_ok (rev_cur s) \<and> \<bar>rev_in_hold_l s\<bar> \<le> 819200 \<and> \<bar>rev_in_hold_r s\<bar> \<le> 819200
     \<and> \<bar>rev_out_l s\<bar> \<le> 32768 \<and> \<bar>rev_out_r s\<bar> \<le> 32768"

definition voices_ok :: "spu \<Rightarrow> bool" where
  "voices_ok s \<longleftrightarrow> (\<forall>i. voice_ok (voices s i))"

definition spu_ok :: "spu \<Rightarrow> bool" where
  "spu_ok s \<longleftrightarrow> voices_ok s \<and> xfer_ok (transfer_addr s) \<and> noise_ok s \<and> cd_ok s \<and> rev_ok s"

lemma ok_cong:
  "noise_view s = noise_view t \<Longrightarrow> noise_ok s = noise_ok t" "cd_view s = cd_view t \<Longrightarrow> cd_ok s = cd_ok t"
  "rev_view s = rev_view t \<Longrightarrow> rev_ok s = rev_ok t" "voices s = voices t \<Longrightarrow> voices_ok s = voices_ok t"
  by (simp_all add: view_defs noise_ok_def cd_ok_def rev_ok_def voices_ok_def)

lemma fixed_transfer: "fixed_view s = fixed_view t \<Longrightarrow> transfer_addr s = transfer_addr t"
  by (simp add: fixed_view_def)

lemma mbase_ok: "xfer_ok (rev_mbase s)"
proof -
  define w :: u32 where "w = push_bit 3 (ucast (rreg 0x1F801DA2 s))"
  have "unat (w AND 0x7FFFE) \<le> unat (0x7FFFE :: u32)" by (metis word_and_le1 word_le_nat_alt)
  moreover have "even (w AND 0x7FFFE)" by (simp add: even_and_iff)
  ultimately show ?thesis by (simp add: xfer_ok_def rev_mbase_def word_less_nat_alt flip: w_def)
qed

lemma and_even_ok: "xfer_ok (w AND 0x7FFFE)"
proof -
  have "unat (w AND 0x7FFFE) \<le> unat (0x7FFFE :: u32)" by (metis word_and_le1 word_le_nat_alt)
  then show ?thesis by (simp add: xfer_ok_def even_and_iff word_less_nat_alt)
qed

lemma rev_advance_ok: "xfer_ok (rev_cur (rev_advance s))"
  using and_even_ok mbase_ok by (simp add: rev_advance_def Let_def)

subsection \<open>A frame keeps it\<close>

lemma noise_clock_ok:
  assumes "noise_ok s" shows "noise_ok (noise_clock c s)"
proof -
  have "noise_lfsr (noise_clock c s) \<noteq> 0xFFFF"
    using assms noise_lock [of "noise_lfsr s"] by (auto simp: noise_clock_def noise_ok_def Let_def)
  then show ?thesis using assms noise_timer_range [of s c] by (simp add: noise_ok_def)
qed

lemma capture_frame_ok:
  assumes "noise_ok s" shows "noise_ok (capture_frame cd a b s)"
proof -
  note v = capture_frame_views(7) [of cd a b s, unfolded noise_view_def, simplified]
  have c: "capture_pos (capture_frame cd a b s) = (capture_pos s + 2) AND 0x3FF"
    "noise_lfsr (capture_frame cd a b s) = noise_lfsr s" "noise_timer (capture_frame cd a b s) = noise_timer s"
    using v by simp_all
  have "unat ((capture_pos s + 2) AND mask 10) < 2 ^ 10" by (rule unat_and_mask_less)
  then have lt: "(capture_pos s + 2) AND 0x3FF < (0x400 :: u32)" by (simp add: word_less_nat_alt mask_eq_exp_minus_1)
  have "even ((capture_pos s + 2) AND 0x3FF)" using assms by (simp add: even_and_iff noise_ok_def)
  then show ?thesis using assms lt c by (simp add: noise_ok_def)
qed

subsection \<open>The CD input queue\<close>

text \<open>The frames waiting, oldest first; the code keeps them in a ring of 352800 frames.\<close>

definition cd_at :: "spu \<Rightarrow> nat \<Rightarrow> i16 \<times> i16" where
  "cd_at s k = (cd_ring s (k * 2), cd_ring s (k * 2 + 1))"

definition cd_first :: "spu \<Rightarrow> nat \<Rightarrow> (i16 \<times> i16) list" where
  "cd_first s n = map (\<lambda>k. cd_at s ((unat (cd_read_pos s) + k) mod 352800)) [0..<n]"

definition cd_queue :: "spu \<Rightarrow> (i16 \<times> i16) list" where
  "cd_queue s = cd_first s (unat (cd_frame_count s))"

definition cd_filled :: "spu \<Rightarrow> nat \<Rightarrow> bool" where
  "cd_filled s n \<longleftrightarrow> unat (cd_read_pos s) < 352800 \<and> n \<le> 352800
     \<and> unat (cd_write_pos s) = (unat (cd_read_pos s) + n) mod 352800"

lemma cd_filled_ok: "cd_ok s \<longleftrightarrow> cd_filled s (unat (cd_frame_count s))"
  unfolding cd_ok_def cd_filled_def by (metis mod_less_divisor zero_less_numeral)

lemma ring_next:
  assumes "unat (p :: u32) < 352800" "n \<le> 352800" "unat (q :: u32) = n"
  shows "unat ((p + q) mod 352800) = (unat p + n) mod 352800"
proof -
  have "unat (p + q) = unat p + n" using assms by (simp add: unat_word_ariths)
  then show ?thesis by (simp add: unat_mod)
qed

lemma ring_distinct:
  assumes "k < n" "n < (N :: nat)"
  shows "(r + k) mod N \<noteq> (r + n) mod N"
proof
  assume "(r + k) mod N = (r + n) mod N"
  then have "N dvd (r + n) - (r + k)" using assms(1) by (subst mod_eq_dvd_iff_nat [symmetric]) simp_all
  then have "N dvd n - k" by simp
  then show False using assms nat_dvd_not_less [of "n - k" N] by simp
qed

lemma cd_put_filled:
  assumes "cd_filled s n" "n < 352800"
  shows "cd_filled (cd_put fr s) (Suc n)" "cd_first (cd_put fr s) (Suc n) = cd_first s n @ [fr]"
proof -
  let ?w = "unat (cd_write_pos s)" and ?r = "unat (cd_read_pos s)"
  have w: "?w = (?r + n) mod 352800" "?w < 352800" using assms(1) by (simp_all add: cd_filled_def)
  have nx: "unat ((cd_write_pos s + 1) mod 352800) = (?w + 1) mod 352800" by (rule ring_next) (use w in simp_all)
  show "cd_filled (cd_put fr s) (Suc n)" using assms nx w(1) by (simp add: cd_filled_def cd_put_def Let_def mod_simps)
  have at: "cd_at (cd_put fr s) k = (if k = ?w then fr else cd_at s k)" for k
  proof -
    have "k * 2 \<noteq> ?w * 2 + 1" "k * 2 + 1 \<noteq> ?w * 2" by presburger+
    then show ?thesis by (simp add: cd_at_def cd_put_def Let_def)
  qed
  have "(?r + k) mod 352800 \<noteq> ?w" if "k < n" for k using ring_distinct [OF that assms(2)] w(1) by simp
  moreover have "cd_read_pos (cd_put fr s) = cd_read_pos s" by (simp add: cd_put_def Let_def)
  ultimately show "cd_first (cd_put fr s) (Suc n) = cd_first s n @ [fr]"
    using w(1) by (simp add: cd_first_def at)
qed

lemma cd_puts_filled:
  "cd_filled s n \<Longrightarrow> n + length fs \<le> 352800 \<Longrightarrow>
     cd_filled (fold cd_put fs s) (n + length fs) \<and> cd_first (fold cd_put fs s) (n + length fs) = cd_first s n @ fs"
proof (induction fs arbitrary: s n)
  case (Cons f fs)
  have "cd_filled (cd_put f s) (Suc n)" "cd_first (cd_put f s) (Suc n) = cd_first s n @ [f]"
    using cd_put_filled [of s n f] Cons.prems by simp_all
  then show ?case using Cons.IH [of "cd_put f s" "Suc n"] Cons.prems by simp
qed simp

lemma cd_first_drop:
  assumes "cd_filled s n" "d \<le> n" "cd_ring t = cd_ring s"
    "unat (cd_read_pos t) = (unat (cd_read_pos s) + d) mod 352800" "cd_write_pos t = cd_write_pos s"
  shows "cd_filled t (n - d)" "cd_first t (n - d) = drop d (cd_first s n)"
proof -
  have "((r + d) mod 352800 + (n - d)) mod 352800 = (r + n) mod 352800" for r
    using assms(2) by (simp only: mod_add_left_eq) simp
  moreover have "n - d \<le> 352800" using assms(1) by (auto simp add: cd_filled_def)
  ultimately show "cd_filled t (n - d)" using assms by (simp add: cd_filled_def del: Nat.add_diff_assoc)
  show "cd_first t (n - d) = drop d (cd_first s n)"
    by (rule nth_equalityI) (use assms in \<open>simp_all add: cd_first_def cd_at_def mod_simps ac_simps less_diff_conv\<close>)
qed

lemma cd_make_room_view:
  assumes ok: "cd_ok s" and n: "unat n \<le> 352800"
  shows "cd_filled (cd_make_room n s) (unat (cd_frame_count (cd_make_room n s)))"
    "unat (cd_frame_count (cd_make_room n s)) = min (unat (cd_frame_count s)) (352800 - unat n)"
    "cd_queue (cd_make_room n s) = drop (length (cd_queue s) + unat n - 352800) (cd_queue s)"
proof -
  let ?c = "unat (cd_frame_count s)"
  have f: "cd_filled s ?c" "?c \<le> 352800" using ok by (simp_all add: cd_filled_ok cd_filled_def)
  have sum: "unat (cd_frame_count s + n) = ?c + unat n" using f(2) n by (simp add: unat_word_ariths)
  have len: "length (cd_queue s) = ?c" by (simp add: cd_queue_def cd_first_def)
  have "cd_filled (cd_make_room n s) (unat (cd_frame_count (cd_make_room n s)))
    \<and> unat (cd_frame_count (cd_make_room n s)) = min ?c (352800 - unat n)
    \<and> cd_queue (cd_make_room n s) = drop (length (cd_queue s) + unat n - 352800) (cd_queue s)"
  proof (cases "cd_frame_count s + n > 352800")
    case True
    define d where "d = (cd_frame_count s + n) - 352800"
    have d: "unat d = ?c + unat n - 352800" unfolding d_def sum [symmetric]
      using True by (subst unat_sub) (simp_all add: word_le_nat_alt word_less_nat_alt)
    have dc: "unat d \<le> ?c" using d n by simp
    define t where "t = cd_make_room n s"
    have t: "cd_ring t = cd_ring s" "cd_write_pos t = cd_write_pos s"
      "cd_read_pos t = (cd_read_pos s + d) mod 352800" "cd_frame_count t = cd_frame_count s - d"
      using True by (simp_all add: t_def cd_make_room_def Let_def d_def)
    have c: "unat (cd_frame_count t) = ?c - unat d" unfolding t(4) using dc by (subst unat_sub) (simp_all add: word_le_nat_alt)
    have r: "unat (cd_read_pos t) = (unat (cd_read_pos s) + unat d) mod 352800"
      unfolding t(3) using f(1) dc f(2) by (intro ring_next) (simp_all add: cd_filled_def)
    note e = cd_first_drop [OF f(1) dc t(1) r t(2)]
    show ?thesis unfolding t_def [symmetric] using e c d len f(2) n by (simp add: cd_queue_def)
  next
    case False
    then have "?c + unat n \<le> 352800" using sum by (simp add: word_less_nat_alt)
    then show ?thesis using False f len by (simp add: cd_make_room_def)
  qed
  then show "cd_filled (cd_make_room n s) (unat (cd_frame_count (cd_make_room n s)))"
    "unat (cd_frame_count (cd_make_room n s)) = min ?c (352800 - unat n)"
    "cd_queue (cd_make_room n s) = drop (length (cd_queue s) + unat n - 352800) (cd_queue s)" by blast+
qed

lemma cd_put_fields [simp]:
  "cd_frame_count (cd_put fr s) = cd_frame_count s" "fixed_view (cd_put fr s) = fixed_view s"
  "noise_view (cd_put fr s) = noise_view s" "rev_view (cd_put fr s) = rev_view s"
  "voices (cd_put fr s) = voices s" "spu_regs (cd_put fr s) = spu_regs s" "spu_ram (cd_put fr s) = spu_ram s"
  by (simp_all add: cd_put_def Let_def view_defs)

lemma cd_puts_fields [simp]:
  "cd_frame_count (fold cd_put fs s) = cd_frame_count s" "fixed_view (fold cd_put fs s) = fixed_view s"
  "noise_view (fold cd_put fs s) = noise_view s" "rev_view (fold cd_put fs s) = rev_view s"
  "voices (fold cd_put fs s) = voices s" "spu_regs (fold cd_put fs s) = spu_regs s" "spu_ram (fold cd_put fs s) = spu_ram s"
  by (induction fs arbitrary: s) simp_all

text \<open>A push appends its frames and, over the limit, forgets the oldest; a pop takes the oldest.\<close>

lemma cd_push_queue:
  assumes ok: "cd_ok s" and len: "length fs < 2 ^ 31"
  shows "cd_ok (spu_cd_audio_push fs s)"
    "cd_queue (spu_cd_audio_push fs s) = drop (length (cd_queue s @ fs) - 352800) (cd_queue s @ fs)"
proof -
  have c: "length (cd_queue s) = unat (cd_frame_count s)" "unat (cd_frame_count s) \<le> 352800"
    using ok by (simp_all add: cd_queue_def cd_first_def cd_ok_def)
  have "cd_ok (spu_cd_audio_push fs s) \<and>
    cd_queue (spu_cd_audio_push fs s) = drop (length (cd_queue s @ fs) - 352800) (cd_queue s @ fs)"
  proof (cases "fs = []")
    case True
    then show ?thesis using ok c by (simp add: spu_cd_audio_push_def)
  next
    case False
    define n where "n = (word_of_nat (length fs) :: u32)"
    have n: "unat n = length fs" using len by (simp add: n_def unat_of_nat)
    define skip where "skip = (if n > 352800 then n - 352800 else 0)"
    define m where "m = n - skip"
    have m: "unat m = min (length fs) 352800" "unat skip = length fs - 352800"
      using n by (auto simp: m_def skip_def word_less_nat_alt word_le_nat_alt unat_sub)
    define gs where "gs = drop (unat skip) fs"
    have gl: "length gs = unat m" using m by (simp add: gs_def)
    define s0 where "s0 = s\<lparr>cd_overflow_frames := cd_overflow_frames s + ucast skip\<rparr>"
    have s0: "cd_ok s0" "cd_queue s0 = cd_queue s" "cd_frame_count s0 = cd_frame_count s"
      using ok by (simp_all add: s0_def cd_ok_def cd_queue_def cd_first_def cd_at_def)
    define r where "r = cd_make_room m s0"
    note rv = cd_make_room_view [OF s0(1), of m, folded r_def]
    have ml: "unat m \<le> 352800" using m by simp
    note r = rv(1) [OF ml] rv(2) [OF ml] rv(3) [OF ml]
    have fit: "unat (cd_frame_count r) + length gs \<le> 352800" using r(2) gl ml by simp
    note p = cd_puts_filled [OF r(1) fit]
    define t where "t = fold cd_put gs r"
    have push: "spu_cd_audio_push fs s = t\<lparr>cd_frame_count := cd_frame_count t + m, cd_push_frames := cd_push_frames t + ucast m\<rparr>"
      using False by (simp add: spu_cd_audio_push_def Let_def n_def skip_def m_def gs_def s0_def r_def t_def)
    have cnt: "unat (cd_frame_count t + m) = unat (cd_frame_count r) + length gs"
      using fit gl by (simp add: t_def unat_word_ariths)
    have "cd_queue (spu_cd_audio_push fs s) = cd_first t (unat (cd_frame_count r) + length gs)"
      unfolding push by (simp add: cd_queue_def cd_first_def cd_at_def cnt)
    also have "\<dots> = cd_queue r @ gs" using p by (simp add: t_def cd_queue_def)
    also have "\<dots> = drop (length (cd_queue s @ fs) - 352800) (cd_queue s @ fs)"
      using c m r(3) s0(2) by (simp add: gs_def min_def)
    finally have q: "cd_queue (spu_cd_audio_push fs s) = drop (length (cd_queue s @ fs) - 352800) (cd_queue s @ fs)" .
    have "cd_filled (spu_cd_audio_push fs s) (unat (cd_frame_count (spu_cd_audio_push fs s)))"
      unfolding push using p cnt by (simp add: cd_filled_def t_def)
    then show ?thesis using q by (simp add: cd_filled_ok)
  qed
  then show "cd_ok (spu_cd_audio_push fs s)"
    "cd_queue (spu_cd_audio_push fs s) = drop (length (cd_queue s @ fs) - 352800) (cd_queue s @ fs)" by blast+
qed

lemma cd_pop_queue:
  assumes ok: "cd_ok s"
  shows "cd_ok (snd (cd_audio_pop s))"
    "fst (cd_audio_pop s) = (if cd_queue s = [] then None else Some (hd (cd_queue s)))"
    "cd_queue (snd (cd_audio_pop s)) = tl (cd_queue s)"
proof -
  let ?c = "unat (cd_frame_count s)"
  have f: "cd_filled s ?c" using ok by (simp add: cd_filled_ok)
  have "cd_ok (snd (cd_audio_pop s)) \<and> fst (cd_audio_pop s) = (if cd_queue s = [] then None else Some (hd (cd_queue s)))
    \<and> cd_queue (snd (cd_audio_pop s)) = tl (cd_queue s)"
  proof (cases "cd_frame_count s = 0")
    case True
    then show ?thesis using ok by (simp add: cd_audio_pop_def cd_queue_def cd_first_def)
  next
    case False
    then have pos: "1 \<le> ?c" by (simp add: unat_gt_0 Suc_le_eq)
    define t where "t = snd (cd_audio_pop s)"
    have t: "cd_ring t = cd_ring s" "cd_write_pos t = cd_write_pos s"
      "cd_read_pos t = (cd_read_pos s + 1) mod 352800" "cd_frame_count t = cd_frame_count s - 1"
      using False by (simp_all add: t_def cd_audio_pop_def Let_def)
    have c: "unat (cd_frame_count t) = ?c - 1" unfolding t(4) using pos by (subst unat_sub) (simp_all add: word_le_nat_alt)
    have r: "unat (cd_read_pos t) = (unat (cd_read_pos s) + 1) mod 352800"
      unfolding t(3) using f by (intro ring_next) (simp_all add: cd_filled_def)
    note e = cd_first_drop [OF f pos t(1) r t(2)]
    have "cd_queue s \<noteq> []" "hd (cd_queue s) = cd_at s (unat (cd_read_pos s))"
      using pos f by (simp_all add: cd_queue_def cd_first_def hd_map cd_filled_def upt_conv_Cons)
    then show ?thesis unfolding t_def [symmetric] using False e c
      by (simp add: cd_filled_ok cd_queue_def drop_Suc cd_audio_pop_def Let_def cd_at_def)
  qed
  then show "cd_ok (snd (cd_audio_pop s))" "fst (cd_audio_pop s) = (if cd_queue s = [] then None else Some (hd (cd_queue s)))"
    "cd_queue (snd (cd_audio_pop s)) = tl (cd_queue s)" by blast+
qed

subsection \<open>The sums of the mixer\<close>

text \<open>Each voice adds at most one sample's range, so 24 of them and the CD stay far inside 32 bits.\<close>

definition sums_le :: "int \<Rightarrow> voice_sums \<Rightarrow> bool" where
  "sums_le b a \<longleftrightarrow> \<bar>vs_l a\<bar> \<le> b \<and> \<bar>vs_r a\<bar> \<le> b \<and> \<bar>vs_send_l a\<bar> \<le> b \<and> \<bar>vs_send_r a\<bar> \<le> b"

lemma abs_sum_le: "\<bar>x :: int\<bar> \<le> b \<Longrightarrow> \<bar>y\<bar> \<le> c \<Longrightarrow> \<bar>x + y\<bar> \<le> b + c"
  by linarith

lemma i16_product: "\<bar>drop_bit 15 (sint (x :: i16) * sint (y :: i16))\<bar> \<le> 32768"
proof -
  have "\<bar>sint x\<bar> \<le> 32768" "\<bar>sint y\<bar> \<le> 32768" using sint_u16 [of x] sint_u16 [of y] by auto
  then show ?thesis using drop15_product [of "sint x" 32768 "sint y"] by linarith
qed

lemma add_voice_le: "sums_le b a \<Longrightarrow> sums_le (b + 32768) (add_voice eon v x vl vr a)"
  using i16_product [of x vl] i16_product [of x vr]
  unfolding sums_le_def add_voice_def Let_def by (auto intro: abs_sum_le)

lemma mix_fold_le: "sums_le b a \<Longrightarrow> sums_le (b + 32768 * int (length is)) (fst (fold (mix_voice eon) is (a, s)))"
proof (induction "is" arbitrary: a b s)
  case (Cons i "is")
  let ?p = "mix_voice eon i (a, s)"
  have "sums_le (b + 32768) (fst ?p)" using add_voice_le [OF Cons.prems] by (simp add: mix_voice_def case_prod_unfold Let_def)
  from Cons.IH [OF this, of "snd ?p"] show ?case by (simp add: algebra_simps)
qed simp

lemma mix_voices_le: "sums_le 786432 (fst (mix_voices eon s))"
  using mix_fold_le [of 0 no_sums "[0..<24]" eon s] by (simp add: mix_voices_def sums_le_def no_sums_def)

lemma mix_voices_ok: "voices_ok s \<Longrightarrow> voices_ok (snd (mix_voices eon s))"
  unfolding mix_voices_def by (rule mix_fold) (simp_all add: voices_ok_def vns_voices_ok)

lemma cd_gain_le: "\<bar>cd_gain on x (sint (vol :: i16))\<bar> \<le> 32768"
  using i16_product [of x vol] by (simp add: cd_gain_def)

subsection \<open>Frames, renders and ports keep the invariant\<close>

lemma reverb_frame_ok:
  assumes ok: "rev_ok s" and send: "\<bar>a\<bar> \<le> 819200" "\<bar>b\<bar> \<le> 819200"
  shows "rev_ok (snd (reverb_frame w a b s))"
proof (cases "rev_phase s")
  case True
  define x where "x = clamp16 (drop_bit 1 (rev_in_hold_l s + a))"
  define y where "y = clamp16 (drop_bit 1 (rev_in_hold_r s + b))"
  define t where "t = snd (snd (reverb_stages x y w s))"
  have "rev_view t = rev_view s" unfolding t_def by (rule both_rev) (rule stages_both)
  then have hold: "rev_in_hold_l t = rev_in_hold_l s" "rev_in_hold_r t = rev_in_hold_r s" by (simp_all add: rev_view_def)
  obtain l r where st: "reverb_stages x y w s = (l, r, t)" unfolding t_def by (metis prod.collapse)
  define u where "u = t\<lparr>rev_out_l := rev_mul (rvol 0x1F801D84 t) (clamp16 l), rev_out_r := rev_mul (rvol 0x1F801D86 t) (clamp16 r)\<rparr>"
  have "snd (reverb_frame w a b s) = (rev_advance u)\<lparr>rev_phase := False\<rparr>"
    unfolding reverb_frame_def Let_def reverb_step_stages x_def [symmetric] y_def [symmetric] st using True by (simp add: u_def)
  moreover have "rev_ok ((rev_advance u)\<lparr>rev_phase := False\<rparr>)"
    using ok hold rev_advance_ok [of u] rev_out_range [of "0x1F801D84" t l] rev_out_range [of "0x1F801D86" t r]
    by (simp add: rev_ok_def) (simp add: rev_advance_def u_def Let_def)
  ultimately show ?thesis by simp
next
  case False
  then show ?thesis using assms by (simp add: reverb_frame_def rev_ok_def)
qed

definition b_cd_small :: "block \<Rightarrow> bool" where
  "b_cd_small b \<longleftrightarrow> \<bar>b_cd_l b\<bar> \<le> 32768 \<and> \<bar>b_cd_r b\<bar> \<le> 32768"

lemma cd_gain_small: "\<bar>vol\<bar> \<le> 32768 \<Longrightarrow> \<bar>cd_gain on x vol\<bar> \<le> 32768"
proof -
  assume "\<bar>vol\<bar> \<le> 32768"
  moreover have "\<bar>sint x\<bar> \<le> 32768" using sint_u16 [of x] by auto
  ultimately show ?thesis using drop15_product [of "sint x" 32768 vol] by (simp add: cd_gain_def abs_le_iff)
qed

lemma block_of_small: "b_cd_small (block_of s)"
  using sint_u16 [of "rreg 0x1F801DB0 s"] sint_u16 [of "rreg 0x1F801DB2 s"] by (auto simp: b_cd_small_def block_of_def rvol_def)

lemma cd_input_ok: "cd_ok s \<Longrightarrow> cd_ok (snd (cd_input b s))"
proof -
  assume ok: "cd_ok s"
  have "cd_ok (snd (cd_audio_pop s))" by (rule cd_pop_queue(1) [OF ok])
  moreover have "cd_ok (t\<lparr>cd_underflow_frames := x\<rparr>) = cd_ok t" for t x by (simp add: cd_ok_def)
  ultimately show ?thesis by (auto simp: cd_input_def split: option.split prod.split)
qed

lemma finish_frame_ok:
  assumes ok: "spu_ok s" and a: "sums_le 786432 a" and b: "b_cd_small b"
  shows "spu_ok (snd (finish_frame b l r (a, s)))"
proof -
  define c where "c = snd (cd_input b s)"
  define d where "d = noise_clock (b_ctrl b) (capture_frame (fst (cd_input b s)) (vs_v1 a) (vs_v3 a) c)"
  define x where "x = vs_send_l a + (if b_cd_rev b then cd_gain (b_cd_on b) (fst (fst (cd_input b s))) (b_cd_l b) else 0)"
  define y where "y = vs_send_r a + (if b_cd_rev b then cd_gain (b_cd_on b) (snd (fst (cd_input b s))) (b_cd_r b) else 0)"
  have fin: "snd (finish_frame b l r (a, s)) = snd (reverb_frame (b_rev_wren b) x y d)"
    by (simp add: finish_frame_def Let_def case_prod_unfold c_def d_def x_def y_def)
  have "cd_ok c" unfolding c_def by (rule cd_input_ok) (use ok in \<open>simp add: spu_ok_def\<close>)
  moreover have v: "noise_view c = noise_view s" "rev_view d = rev_view s" "voices d = voices s" "cd_view d = cd_view c"
    "fixed_view d = fixed_view s" by (simp_all add: c_def d_def)
  moreover have "noise_ok c" using ok ok_cong(1) [OF v(1)] by (simp add: spu_ok_def)
  then have "noise_ok d" unfolding d_def by (intro noise_clock_ok capture_frame_ok)
  ultimately have d: "cd_ok d" "noise_ok d" "rev_ok d" "voices_ok d" "fixed_view d = fixed_view s"
    using ok ok_cong(2) [OF v(4)] ok_cong(3) [OF v(2)] ok_cong(4) [OF v(3)] by (simp_all add: spu_ok_def)
  have "\<bar>x\<bar> \<le> 786432 + 32768" unfolding x_def
    by (rule abs_sum_le) (use a b cd_gain_small [of "b_cd_l b" "b_cd_on b"] in \<open>simp_all add: sums_le_def b_cd_small_def\<close>)
  moreover have "\<bar>y\<bar> \<le> 786432 + 32768" unfolding y_def
    by (rule abs_sum_le) (use a b cd_gain_small [of "b_cd_r b" "b_cd_on b"] in \<open>simp_all add: sums_le_def b_cd_small_def\<close>)
  ultimately have "\<bar>x\<bar> \<le> 819200" "\<bar>y\<bar> \<le> 819200" by simp_all
  then have "rev_ok (snd (reverb_frame (b_rev_wren b) x y d))" by (intro reverb_frame_ok d)
  moreover note rest = rest_view_fields [OF reverb_frame_rest [of "b_rev_wren b" x y d]]
  ultimately show ?thesis unfolding fin using d ok fixed_transfer [OF rest(1)] fixed_transfer [OF d(5)]
    by (simp add: spu_ok_def ok_cong(1) [OF rest(2)] ok_cong(2) [OF rest(3)] ok_cong(4) [OF rest(5)])
qed

lemma sweepless_ok: "sweepless_view s = sweepless_view t \<Longrightarrow> spu_ok s = spu_ok t"
  by (simp add: sweepless_view_def spu_ok_def ok_cong [of s t])

lemma mix_ok: "spu_ok s \<Longrightarrow> spu_ok (snd (mix_voices eon s))"
  using mix_voices_views [of eon s]
  by (simp add: spu_ok_def mix_voices_ok ok_cong(1-3) [of "snd (mix_voices eon s)" s] fixed_transfer [of "snd (mix_voices eon s)" s])

lemma no_sums_le: "sums_le 786432 no_sums"
  by (simp add: sums_le_def no_sums_def)

lemma spu_frame_ok:
  assumes ok: "spu_ok s" and b: "b_cd_small b"
  shows "spu_ok (snd (spu_frame b s))"
proof (cases "b_enabled b")
  case True
  define t where "t = (if b_any b then step_voice_sweeps (step_main_sweeps s) else step_main_sweeps s)"
  have t: "spu_ok t" using ok sweepless_ok [of t s] by (simp add: t_def)
  define p where "p = (if b_any b then mix_voices (b_eon b) t else (no_sums, t))"
  have p: "spu_ok (snd p)" "sums_le 786432 (fst p)"
    using t mix_ok [OF t] mix_voices_le no_sums_le by (simp_all add: p_def)
  have "spu_frame b s = finish_frame b (main_volume 0 s) (main_volume 1 s) (fst p, snd p)"
    using True by (simp add: spu_frame_def Let_def t_def p_def)
  then show ?thesis using finish_frame_ok [OF p b] by simp
next
  case False
  then show ?thesis using ok by (simp add: spu_frame_def)
qed

text \<open>The silent copy of the loop is the general one for a block without voices.\<close>

lemma silent_frame:
  assumes "b_enabled b" "\<not> b_any b"
  shows "spu_frame_silent b s = spu_frame b s"
  using assms
  by (simp add: spu_frame_silent_def spu_frame_def finish_frame_def capture_frame_def no_sums_def Let_def case_prod_unfold)

lemma render_block_frames:
  "render_block n s = (let (fs, t) = run_frames (spu_frame (block_of s)) n s in (map (host_finish_mix s) fs, t))"
proof -
  have "(if b_enabled (block_of s) \<and> \<not> b_any (block_of s) then spu_frame_silent (block_of s) else spu_frame (block_of s))
      = spu_frame (block_of s)"
    by (auto intro!: ext silent_frame)
  then show ?thesis by (simp only: render_block_def Let_def)
qed

lemma run_frames_inv:
  assumes "\<And>t. P t \<Longrightarrow> P (snd (step t))" "P s"
  shows "P (snd (run_frames step n s))"
  using assms(2) by (induction n arbitrary: s) (simp_all add: case_prod_unfold Let_def assms(1))

lemma render_block_ok: "spu_ok s \<Longrightarrow> spu_ok (snd (render_block n s))"
  unfolding render_block_frames Let_def case_prod_unfold snd_conv
  by (rule run_frames_inv) (rule spu_frame_ok [OF _ block_of_small])

lemma spu_render_ok: "spu_ok s \<Longrightarrow> spu_ok (snd (spu_render n s))"
proof (induction n s rule: spu_render.induct)
  case (1 n s)
  show ?case
  proof (cases "n = 0 \<or> \<not> (host_custom s \<and> n > 2048)")
    case True
    then show ?thesis using 1(2) render_block_ok [of s n] by (subst spu_render.simps) auto
  next
    case False
    obtain xs t where b: "render_block 2048 s = (xs, t)" by (rule prod.exhaust)
    have "spu_ok t" using render_block_ok [OF 1(2), of 2048] b by simp
    then have "spu_ok (snd (spu_render (n - 2048) t))" using 1(1) False b by fastforce
    then show ?thesis using False b by (subst spu_render.simps) (simp add: Let_def case_prod_unfold)
  qed
qed

text \<open>The registers, the DMA port and the host's calls.\<close>

lemma xfer_mod: "even t \<Longrightarrow> even k \<Longrightarrow> xfer_ok ((t + k) mod 0x80000)"
proof -
  assume e: "even t" "even k"
  have m: "(t + k) mod 0x80000 = take_bit 19 (t + k)" by (simp add: take_bit_eq_mod)
  have "unat (take_bit 19 (t + k)) < 2 ^ 19" using unat_and_mask_less [of "t + k" 19] by (simp add: take_bit_eq_mask)
  then show ?thesis unfolding m xfer_ok_def using e by (simp add: word_less_nat_alt even_take_bit_eq)
qed

text \<open>An operation that touches nothing the invariant speaks of.\<close>

definition ok_view :: "spu \<Rightarrow> _" where
  "ok_view s = (voices s, transfer_addr s, noise_view s, cd_view s, rev_view s)"

lemma ok_view_ok: "ok_view s = ok_view t \<Longrightarrow> spu_ok s = spu_ok t"
  by (simp add: ok_view_def spu_ok_def ok_cong [of s t])

lemma irq_check_ok [simp]: "spu_ok (spu_irq_check a n s) = spu_ok s"
  and put16_ok [simp]: "spu_ok (ram_put16 b v s) = spu_ok s"
  by (rule ok_view_ok; simp add: ok_view_def)+

lemma upd_voice_ok: "spu_ok s \<Longrightarrow> voice_ok (f (voices s i)) \<Longrightarrow> spu_ok (upd_voice i f s)"
  by (simp add: spu_ok_def voices_ok_def ok_cong(1-3) [of "upd_voice i f s" s] fixed_transfer [of "upd_voice i f s" s])
    (metis upd_voice_sel)

lemma voice_of_ok: "spu_ok s \<Longrightarrow> voice_ok (voices s i)"
  by (simp add: spu_ok_def voices_ok_def)

lemma transfer_ok: "spu_ok s \<Longrightarrow> xfer_ok t \<Longrightarrow> spu_ok (s\<lparr>transfer_addr := t\<rparr>)"
  by (simp add: spu_ok_def voices_ok_def noise_ok_def cd_ok_def rev_ok_def)

lemma voice_zero_ok: "voice_ok voice_zero"
  by (simp add: voice_ok_def voice_zero_def env_ok_def)

lemma keyed_ok: "voice_ok (voice_zero\<lparr>active := True, cur_addr := a AND 0x7FFFF, repeat_addr := r AND 0x7FFFF,
    sample_idx := 28, env_level := 0, adsr_divider := 0, adsr_phase := 0\<rparr>)"
  using voice_zero_ok and_ram_mask by (simp add: voice_ok_def env_ok_def voice_zero_def)

lemma key_on_voice_ok: "spu_ok s \<Longrightarrow> spu_ok (key_on_voice m i s)"
proof -
  assume ok: "spu_ok s"
  show ?thesis
  proof (cases "bit m i")
    case True
    define t where "t = upd_voice i (\<lambda>_. voice_zero\<lparr>active := True,
               cur_addr := push_bit 3 (ucast (voice_reg i 3 s)) AND (SPU_RAM_SIZE - 1),
               repeat_addr := push_bit 3 (ucast (voice_reg i 7 s)) AND (SPU_RAM_SIZE - 1),
               sample_idx := SPU_BLOCK_SAMPLES, env_level := 0, adsr_divider := 0, adsr_phase := ADSR_ATTACK\<rparr>) s"
    have "spu_ok t" unfolding t_def using keyed_ok by (intro upd_voice_ok [OF ok]) simp
    moreover have "key_on_voice m i s = t\<lparr>key_on_count := key_on_count s + 1, endx_latch := endx_latch s AND NOT (push_bit i 1)\<rparr>"
      using True by (simp add: key_on_voice_def t_def)
    ultimately show ?thesis using ok_view_ok [of "key_on_voice m i s" t] by (simp add: ok_view_def view_defs)
  qed (simp add: key_on_voice_def ok)
qed

lemma key_off_voice_ok: "spu_ok s \<Longrightarrow> spu_ok (key_off_voice m i s)"
proof -
  assume ok: "spu_ok s"
  have "voice_ok ((voices s i)\<lparr>adsr_phase := ADSR_RELEASE, adsr_divider := 0\<rparr>)"
    using voice_of_ok [OF ok, of i] by (simp add: voice_ok_def env_ok_def)
  then show ?thesis using ok by (auto simp: key_off_voice_def intro: upd_voice_ok)
qed

lemma fold_ok: "(\<And>i t. spu_ok t \<Longrightarrow> spu_ok (f i t)) \<Longrightarrow> spu_ok s \<Longrightarrow> spu_ok (fold f is s)"
  by (induction "is" arbitrary: s) simp_all

lemma key_on_ok: "spu_ok s \<Longrightarrow> spu_ok (key_on m s)"
  and key_off_ok: "spu_ok s \<Longrightarrow> spu_ok (key_off m s)"
  unfolding key_on_def key_off_def by (rule fold_ok, rule key_on_voice_ok key_off_voice_ok, assumption+)+

lemma write_voice_reg_ok: "spu_ok s \<Longrightarrow> spu_ok (write_voice_reg idx v s)"
proof -
  assume ok: "spu_ok s"
  define t where "t = (if idx < 192 \<and> idx mod 8 = 7
    then upd_voice (idx div 8) (\<lambda>x. x\<lparr>repeat_addr := push_bit 3 (ucast v) AND (SPU_RAM_SIZE - 1)\<rparr>) s else s)"
  have "voice_ok ((voices s (idx div 8))\<lparr>repeat_addr := push_bit 3 (ucast v) AND 0x7FFFF\<rparr>)"
    using voice_of_ok [OF ok, of "idx div 8"] by (simp add: voice_ok_def env_ok_def and_ram_mask)
  then have t: "spu_ok t" using ok by (auto simp: t_def intro: upd_voice_ok)
  have "ok_view (write_voice_reg idx v s) = ok_view t"
    by (simp add: write_voice_reg_def Let_def ok_view_def view_defs flip: t_def)
  then show ?thesis using t ok_view_ok by blast
qed

lemma rev_cur_ok: "spu_ok s \<Longrightarrow> xfer_ok c \<Longrightarrow> spu_ok (s\<lparr>rev_cur := c\<rparr>)"
  by (simp add: spu_ok_def voices_ok_def noise_ok_def cd_ok_def rev_ok_def)

lemma even_push3: "even (push_bit 3 (w :: u32))"
  by (simp add: push_bit_eq_mult)

lemma set_transfer_ok: "spu_ok s \<Longrightarrow> spu_ok (set_transfer_addr v s)"
  by (auto simp: set_transfer_addr_def Let_def xfer_ok_def even_push3 not_le intro!: transfer_ok)

lemma fifo_write_ok: "spu_ok s \<Longrightarrow> spu_ok (fifo_write v s)"
  by (auto simp: fifo_write_def Let_def intro!: transfer_ok xfer_mod) (simp_all add: spu_ok_def xfer_ok_def)

lemma spu_write_ok: "spu_ok s \<Longrightarrow> spu_ok (spu_write addr value s)"
proof -
  assume ok: "spu_ok s"
  define t where "t = write_voice_reg (reg_index addr) (ucast value) (s\<lparr>spu_regs := (spu_regs s)(reg_index addr := ucast value)\<rparr>)"
  have "ok_view (s\<lparr>spu_regs := r\<rparr>) = ok_view s" for r by (simp add: ok_view_def view_defs)
  then have t: "spu_ok t" unfolding t_def using ok_view_ok ok by (intro write_voice_reg_ok) blast
  have latch: "spu_ok (t\<lparr>kon_latch := x\<rparr>)" "spu_ok (t\<lparr>koff_latch := x\<rparr>)" "spu_ok (t\<lparr>irq_flag := False\<rparr>)"
    "spu_ok (write_main_volume ch w t)" for x ch w
    using t by (simp_all add: spu_ok_def voices_ok_def noise_ok_def cd_ok_def rev_ok_def write_main_volume_def)
  show ?thesis unfolding spu_write_def Let_def t_def [symmetric]
    using ok t latch by (auto intro: key_on_ok key_off_ok rev_cur_ok mbase_ok set_transfer_ok fifo_write_ok)
qed

lemma dma_write_ok: "spu_ok s \<Longrightarrow> spu_ok (spu_dma_write w s)"
  by (auto simp: spu_dma_write_def Let_def intro!: transfer_ok xfer_mod) (simp_all add: spu_ok_def xfer_ok_def)

lemma dma_read_ok: "spu_ok s \<Longrightarrow> spu_ok (snd (spu_dma_read s))"
  by (auto simp: spu_dma_read_def Let_def intro!: transfer_ok xfer_mod) (simp_all add: spu_ok_def xfer_ok_def)

lemma cd_push_ok: "spu_ok s \<Longrightarrow> length fs < 2 ^ 31 \<Longrightarrow> spu_ok (spu_cd_audio_push fs s)"
proof -
  assume ok: "spu_ok s" and len: "length fs < 2 ^ 31"
  define v where "v t = (voices t, transfer_addr t, noise_view t, rev_view t)" for t
  have put: "v (fold cd_put gs t) = v t" for gs t
    using fixed_transfer [of "fold cd_put gs t" t] by (simp add: v_def)
  have upd: "v (t\<lparr>cd_frame_count := x, cd_push_frames := y\<rparr>) = v t" "v (t\<lparr>cd_overflow_frames := z\<rparr>) = v t"
    "v (cd_make_room n t) = v t" for t x y z n
    by (simp_all add: v_def view_defs cd_make_room_def Let_def)
  have "v (spu_cd_audio_push fs s) = v s"
    by (simp only: spu_cd_audio_push_def Let_def upd put if_distrib [of v] if_cancel)
  then show ?thesis using ok cd_push_queue(1) [OF _ len, of s]
    by (simp add: spu_ok_def v_def ok_cong(1,3,4) [of "spu_cd_audio_push fs s" s])
qed

lemma cd_reset_ok: "spu_ok s \<Longrightarrow> spu_ok (spu_cd_audio_reset s)"
  by (simp add: spu_ok_def voices_ok_def noise_ok_def cd_ok_def rev_ok_def spu_cd_audio_reset_def)

lemma host_volume_ok: "spu_ok s \<Longrightarrow> spu_ok (spu_set_host_mix_volume a b s)"
  by (simp add: spu_ok_def voices_ok_def noise_ok_def cd_ok_def rev_ok_def spu_set_host_mix_volume_def)

lemma spu_init_ok: "spu_ok (spu_init s)"
  by (simp add: spu_ok_def voices_ok_def noise_ok_def cd_ok_def rev_ok_def xfer_ok_def spu_init_def
      spu_cd_audio_reset_def voice_zero_ok)

text \<open>A state within the bounds fits the wire, and loading its snapshot keeps the bounds.\<close>

lemma spu_ok_wire: "spu_ok s \<Longrightarrow> spu_wire s"
  by (auto simp: spu_ok_def spu_wire_def voices_ok_def voice_ok_def voice_wire_def noise_ok_def rev_ok_def)

lemma loaded_ok: "spu_ok u \<Longrightarrow> spu_ok s \<Longrightarrow> spu_ok (spu_loaded u s)"
  by (simp add: spu_ok_def voices_ok_def noise_ok_def cd_ok_def rev_ok_def spu_loaded_def)

subsection \<open>Reachable states\<close>

text \<open>
  What acts on the sound processor: the guest's writes and its DMA (a read of a register changes nothing), the
  host's renders, gains and frames of music, and the loading of a snapshot: sound RAM is replaced by the
  bytes of its section, and the rest is read by \<open>spu_snapshot_read\<close> from what \<open>spu_snapshot_write\<close> made of
  a state the processor can reach. The bytes of any other snapshot are restored without a check, so loading
  one is not among the steps.
\<close>

inductive spu_step :: "spu \<Rightarrow> spu \<Rightarrow> bool" where
  Reg_write: "spu_step s (spu_write addr value s)"
| Dma_write: "spu_step s (spu_dma_write w s)"
| Dma_read: "spu_step s (snd (spu_dma_read s))"
| Render: "spu_step s (snd (spu_render n s))"
| Cd_push: "length fs < 2 ^ 31 \<Longrightarrow> spu_step s (spu_cd_audio_push fs s)"
| Cd_reset: "spu_step s (spu_cd_audio_reset s)"
| Host_volume: "spu_step s (spu_set_host_mix_volume sfx music s)"
| Ram_load: "spu_step s (s\<lparr>spu_ram := r\<rparr>)"

inductive spu_reachable :: "spu \<Rightarrow> bool" where
  Spu_power_on: "spu_reachable (spu_init s)"
| Spu_step: "spu_reachable s \<Longrightarrow> spu_step s t \<Longrightarrow> spu_reachable t"
| Spu_load: "spu_reachable u \<Longrightarrow> spu_reachable s \<Longrightarrow> spu_reachable (snd (spu_snapshot_read (spu_snapshot_write u) s))"

lemma ram_load_ok: "spu_ok s \<Longrightarrow> spu_ok (s\<lparr>spu_ram := r\<rparr>)"
  by (simp add: spu_ok_def voices_ok_def noise_ok_def cd_ok_def rev_ok_def)

lemma spu_step_ok: "spu_step s t \<Longrightarrow> spu_ok s \<Longrightarrow> spu_ok t"
  by (induction rule: spu_step.induct)
    (simp_all add: spu_write_ok dma_write_ok dma_read_ok spu_render_ok cd_push_ok cd_reset_ok host_volume_ok
      ram_load_ok)

lemma spu_reachable_ok: "spu_reachable s \<Longrightarrow> spu_ok s"
  by (induction rule: spu_reachable.induct) (simp_all add: spu_init_ok spu_step_ok spu_snapshot_restores spu_ok_wire loaded_ok)

end
