(* ===== verification/SpuVoice.thy ===== *)
theory SpuVoice
  imports SpuState
begin

unbundle bit_operations_syntax

section \<open>What the sound processor guarantees of its voices\<close>

text \<open>
  The bounds of every reachable state, the pitch counter and the sample it reads, the arithmetic that fits its
  types, and that a voice whose key is released falls silent. The witnesses start from a processor just
  powered on, on a console just powered on.
\<close>

definition spu_zero :: spu where
  "spu_zero = \<lparr>spu_ram = (\<lambda>_. 0), spu_regs = (\<lambda>_. 0), transfer_addr = 0, key_on_count = 0, endx_latch = 0, kon_latch = 0,
     koff_latch = 0, irq_flag = False, noise_lfsr = 0, noise_timer = 0, rev_cur = 0, rev_phase = False,
     rev_in_hold_l = 0, rev_in_hold_r = 0, rev_out_l = 0, rev_out_r = 0, capture_pos = 0,
     sweep_voice_env = (\<lambda>_ _. sweep_zero), sweep_main_env = (\<lambda>_. sweep_zero), voices = (\<lambda>_. voice_zero),
     cd_ring = (\<lambda>_. 0), cd_read_pos = 0, cd_write_pos = 0, cd_frame_count = 0, cd_push_frames = 0,
     cd_overflow_frames = 0, cd_underflow_frames = 0, host_sfx_percent = 100, host_music_percent = 100,
     spu_env = irq_power_on\<rparr>"

text \<open>The processor switched on, and the key of voice 0 pressed.\<close>

definition demo_on :: spu where
  "demo_on = spu_write 0x1F801DAA 0x8000 (spu_init spu_zero)"

definition demo_keyed :: spu where
  "demo_keyed = spu_write 0x1F801D88 1 demo_on"

lemma demo_reachable: "spu_reachable demo_on" "spu_reachable demo_keyed"
  unfolding demo_on_def demo_keyed_def
  by (intro spu_reachable.Spu_step [OF _ Reg_write] Spu_power_on)+

lemma demo_keyed_active: "active (voices demo_keyed 0)"
  by code_simp

subsection \<open>Bounds\<close>

text \<open>
  C12. The variables of the sound processor stay in bounds in every state reached from power-on by the
  guest's writes and DMA, the host's renders, gains and frames of music, and the loading of a snapshot of such
  a state (\<open>spu_reachable\<close>): every envelope between 0 and 0x7FFF in one of the four phases, its divider below
  0x8000, every voice at one of the 28 samples of its block or at its end, with its addresses in sound RAM and
  less than four samples of phase; the transfer address even and in sound RAM, so that a halfword at it
  never leaves it; the capture position even and below 0x400; the reverb's address even and in sound RAM, its
  held input within 819200 and its outputs within 16 bits; the ring of CD frames holding at most 352800
  from the read to the write position; the noise timer in its range and the noise register off the value that
  would freeze it. Not bounded here: the levels and dividers of the volume sweeps, which are words that take
  any value, and the host's gains. A snapshot that no reachable state wrote is not covered:
  \<open>spu_snapshot_read\<close> checks none of these bounds.
\<close>

theorem spu_state_bounded:
  assumes "spu_reachable s"
  shows "(\<forall>i. env_level (voices s i) \<le> 0x7FFF \<and> adsr_phase (voices s i) \<le> ADSR_RELEASE \<and> adsr_divider (voices s i) < 0x8000
      \<and> length (samples (voices s i)) = 28 \<and> sample_idx (voices s i) \<in> {0..28} \<and> phase (voices s i) < 0x4000
      \<and> cur_addr (voices s i) < SPU_RAM_SIZE \<and> repeat_addr (voices s i) < SPU_RAM_SIZE)
    \<and> transfer_addr s < SPU_RAM_SIZE \<and> even (transfer_addr s) \<and> capture_pos s < 0x400 \<and> even (capture_pos s)
    \<and> rev_cur s < SPU_RAM_SIZE \<and> even (rev_cur s) \<and> \<bar>rev_in_hold_l s\<bar> \<le> 819200 \<and> \<bar>rev_in_hold_r s\<bar> \<le> 819200
    \<and> \<bar>rev_out_l s\<bar> \<le> 32768 \<and> \<bar>rev_out_r s\<bar> \<le> 32768
    \<and> unat (cd_write_pos s) = (unat (cd_read_pos s) + unat (cd_frame_count s)) mod 352800
    \<and> unat (cd_frame_count s) \<le> 352800
    \<and> 0 \<le> noise_timer s \<and> noise_timer s < 0x20000 \<and> noise_lfsr s \<noteq> 0xFFFF"
  using spu_reachable_ok [OF assms]
  unfolding spu_ok_def voices_ok_def voice_ok_def env_ok_def xfer_ok_def noise_ok_def cd_ok_def rev_ok_def by simp

theorem spu_state_bounded_witness:
  "noise_lfsr (snd (spu_snapshot_read (spu_snapshot_write (snd (spu_render 5000 demo_keyed))) demo_on)) \<noteq> 0xFFFF"
proof -
  have "spu_reachable (snd (spu_render 5000 demo_keyed))" by (rule Spu_step [OF demo_reachable(2) Render])
  then have "spu_reachable (snd (spu_snapshot_read (spu_snapshot_write (snd (spu_render 5000 demo_keyed))) demo_on))"
    using demo_reachable(1) by (rule Spu_load)
  then show ?thesis using spu_state_bounded by blast
qed

subsection \<open>The pitch counter\<close>

lemma fetch_pitch: "voice_pitch i (voice_fetch i s) = voice_pitch i s"
  by (simp add: voice_pitch_def voice_reg_def fetch_regs)

text \<open>
  C17. The pitch counter is exact: an output sample of a sounding voice advances its position, counted in
  1/4096 of a sample, by the pitch of its register (0 counting as 0x1000), less the 28 samples of a block when
  it starts the next one, so no fraction is ever lost and a voice at pitch p reads p/4096 samples per
  output sample. The sample interpolated is the one at the position, except at the first output sample of a
  block that the voice entered by more than one sample: it is taken at sample 0, not at the position.
\<close>

theorem voice_pitch_exact:
  fixes s i
  defines "v \<equiv> voices s i" and "w \<equiv> voices (snd (voice_next_sample i s)) i"
    and "f \<equiv> voices (voice_fetch i s) i"
  assumes "spu_reachable s" "active v"
  shows "voice_pos w = voice_pos v + uint (voice_pitch i s) - (if sample_idx v = 28 then 28 * 4096 else 0)
    \<and> voice_pos f = voice_pos v - (if sample_idx v = 28 then 28 * 4096 else 0)
    \<and> (sample_idx v < 28 \<or> phase v < 0x1000 \<longrightarrow> sample_idx f = voice_pos f div 4096)
    \<and> (sample_idx v = 28 \<and> 0x1000 \<le> phase v \<longrightarrow> sample_idx f = 0 \<and> 0 < voice_pos f div 4096)"
proof -
  have ok: "voice_ok (voices s i)" using spu_reachable_ok [OF assms(4)] by (rule voice_of_ok)
  obtain p where p: "p < 0x4000" "w = voice_advance p (after_envelope i s)" "p = voice_pitch i (voice_fetch i s)"
    using vns_own [of s i] assms(5) unfolding v_def w_def by blast
  note e = after_envelope_ok [OF ok]
  have "voice_pos w = voice_pos (after_envelope i s) + uint p" unfolding p(2) by (rule voice_advance_ok(2) [OF e(1-4) p(1)])
  then have w: "voice_pos w = voice_pos v + uint (voice_pitch i s) - (if sample_idx v = 28 then 28 * 4096 else 0)"
    using e(5) p(3) by (simp add: v_def fetch_pitch)
  note g = fetch_own [OF ok]
  have f: "sample_idx f = (if sample_idx v = 28 then 0 else sample_idx v)" "phase f = phase v"
    using g(2,3) by (simp_all add: f_def v_def)
  have v: "0 \<le> sample_idx v" "sample_idx v \<le> 28" "sample_idx v < 28 \<longrightarrow> phase v < 0x1000"
    using ok by (simp_all add: voice_ok_def v_def)
  have pf: "voice_pos f = voice_pos v - (if sample_idx v = 28 then 28 * 4096 else 0)"
    using f by (simp add: voice_pos_def)
  have small: "sample_idx f = voice_pos f div 4096" if "phase v < 0x1000"
  proof -
    have "uint (phase v) < 4096" "0 \<le> uint (phase v)" using that by (simp_all add: word_less_def)
    then show ?thesis unfolding voice_pos_def f(2) by (simp add: div_add1_eq [of "sample_idx f * 4096"])
  qed
  have big: "sample_idx f = 0 \<and> 0 < voice_pos f div 4096" if "sample_idx v = 28" "0x1000 \<le> phase v"
  proof -
    have "4096 \<le> uint (phase v)" using that(2) by (simp add: word_le_def)
    then have "4096 div 4096 \<le> uint (phase v) div 4096" by (intro zdiv_mono1) simp_all
    then show ?thesis using that(1) f by (simp add: voice_pos_def)
  qed
  show ?thesis using w pf small big v(3) by blast
qed

theorem voice_pitch_exact_witness:
  "voice_pos (voices (snd (voice_next_sample 0 demo_keyed)) 0) = 4096"
proof -
  have "voice_pos (voices (snd (voice_next_sample 0 demo_keyed)) 0)
      = voice_pos (voices demo_keyed 0) + uint (voice_pitch 0 demo_keyed) - (if sample_idx (voices demo_keyed 0) = 28 then 28 * 4096 else 0)"
    using voice_pitch_exact [OF demo_reachable(2) demo_keyed_active] by blast
  moreover have "voice_pos (voices demo_keyed 0) = 28 * 4096" "uint (voice_pitch 0 demo_keyed) = 4096"
    "sample_idx (voices demo_keyed 0) = 28" by code_simp+
  ultimately show ?thesis by simp
qed

subsection \<open>Arithmetic\<close>

lemma gauss_index: "unat (drop_bit 4 ph AND 0xFF :: u32) < 256"
  by (rule unat_and_ff_less)

text \<open>
  C19. The arithmetic of a voice fits its C types, so that no step of it wraps: the four products of the
  interpolation add up within 32 bits and their high part is the sample, not cut by the cast to 16 bits;
  the prediction of the ADPCM filter stays within 32 bits for any two previous samples; the envelope never
  raises a sample, so that the clamping after it has nothing to do; and the sums of 24 voices stay
  within 20 bits and a sign.
\<close>

theorem voice_arithmetic_fits:
  fixes previous smp :: "i16 list" and idx :: int and ph :: u32 and newer older raw :: i16 and env :: u16
  defines "g \<equiv> unat (drop_bit 4 ph AND 0xFF)"
  defines "acc \<equiv> spu_gauss_table ! (0x0FF - g) * gauss_tap previous smp (idx - 3)
    + spu_gauss_table ! (0x1FF - g) * gauss_tap previous smp (idx - 2)
    + spu_gauss_table ! (0x100 + g) * gauss_tap previous smp (idx - 1) + spu_gauss_table ! g * gauss_tap previous smp idx"
  assumes "env \<le> 0x7FFF" "k \<le> 4"
  shows "\<bar>acc\<bar> < 2 ^ 31 \<and> sint (spu_gaussian_interpolate previous smp idx ph) = drop_bit 15 acc
    \<and> \<bar>sint newer * adpcm_f0 k + sint older * adpcm_f1 k + 32\<bar> < 2 ^ 31
    \<and> voice_shaped raw env = drop_bit 15 (sint raw * uint env) \<and> \<bar>voice_shaped raw env\<bar> \<le> \<bar>sint raw\<bar>
    \<and> \<bar>vs_l (fst (mix_voices eon s))\<bar> \<le> 24 * 32768 \<and> \<bar>vs_r (fst (mix_voices eon s))\<bar> \<le> 24 * 32768"
proof -
  have tap: "\<bar>gauss_tap previous smp j\<bar> \<le> 32768" for j
    using sint_u16 [of "smp ! nat j"] sint_u16 [of "previous ! nat (3 + j)"]
    by (auto simp: gauss_tap_def sint_u16 [of "previous ! nat (j + 3)"])
  have acc: "\<bar>acc\<bar> \<le> 32767 * 32768" unfolding acc_def g_def by (rule gauss_sum_bound [OF gauss_index]) (rule tap)+
  then have d: "- 32767 \<le> drop_bit 15 acc \<and> drop_bit 15 acc \<le> 32767" by (rule drop15_bounds)
  have "sint (spu_gaussian_interpolate previous smp idx ph) = sint (to_i16 (drop_bit 15 acc))"
    by (simp add: spu_gaussian_interpolate_def Let_def acc_def g_def)
  also have "\<dots> = drop_bit 15 acc" using d by (intro sint_of_int16) simp_all
  finally have interp: "sint (spu_gaussian_interpolate previous smp idx ph) = drop_bit 15 acc" .
  have "k = 0 \<or> k = 1 \<or> k = 2 \<or> k = 3 \<or> k = 4" using assms(4) by linarith
  then have f: "\<bar>adpcm_f0 k\<bar> \<le> 122 \<and> \<bar>adpcm_f1 k\<bar> \<le> 60" by (auto simp: adpcm_f0_def adpcm_f1_def)
  have h: "\<bar>sint newer\<bar> \<le> 32768" "\<bar>sint older\<bar> \<le> 32768" using sint_u16 [of newer] sint_u16 [of older] by auto
  have "\<bar>sint newer * adpcm_f0 k\<bar> \<le> 32768 * 122"
    unfolding abs_mult by (rule mult_mono [OF h(1) conjunct1 [OF f]]) simp_all
  moreover have "\<bar>sint older * adpcm_f1 k\<bar> \<le> 32768 * 60"
    unfolding abs_mult by (rule mult_mono [OF h(2) conjunct2 [OF f]]) simp_all
  ultimately have filt: "\<bar>sint newer * adpcm_f0 k + sint older * adpcm_f1 k + 32\<bar> < 2 ^ 31" by simp
  have e: "0 \<le> uint env" "uint env \<le> 32767" using assms(3) by (simp_all add: word_le_def)
  have r: "\<bar>sint raw\<bar> \<le> 32768" using sint_u16 [of raw] by auto
  have "\<bar>sint raw * uint env\<bar> \<le> \<bar>sint raw\<bar> * 32768" unfolding abs_mult using e by (intro mult_left_mono) auto
  then have s: "- \<bar>sint raw\<bar> \<le> drop_bit 15 (sint raw * uint env) \<and> drop_bit 15 (sint raw * uint env) \<le> \<bar>sint raw\<bar>"
    by (rule drop15_bounds)
  have top: "drop_bit 15 (sint raw * uint env) \<le> 32767"
  proof (cases "sint raw \<ge> 0")
    case True
    then have "\<bar>sint raw\<bar> \<le> 32767" using sint_u16 [of raw] by auto
    then show ?thesis using s by linarith
  next
    case False
    then have "sint raw * uint env \<le> 0" using e by (intro mult_nonpos_nonneg) auto
    then show ?thesis by (simp add: drop_bit_eq_div)
  qed
  then have sh: "voice_shaped raw env = drop_bit 15 (sint raw * uint env)" using s r by (simp add: voice_shaped_def Let_def)
  have "\<bar>acc\<bar> < 2 ^ 31" using acc by simp
  then show ?thesis using interp filt sh s mix_voices_le [of eon s] by (simp add: sums_le_def abs_le_iff)
qed

theorem voice_arithmetic_fits_witness:
  "\<bar>voice_shaped 0x8000 0x7FFF\<bar> \<le> \<bar>sint (0x8000 :: i16)\<bar>"
  using voice_arithmetic_fits [where env = "0x7FFF" and k = 0 and raw = "0x8000" and previous = "[0, 0, 0]"
    and smp = "[0]" and idx = 0 and ph = 0 and newer = 0 and older = 0 and eon = 0 and s = demo_keyed] by simp

end
