(* ===== verification/SpuRender.thy ===== *)
theory SpuRender
  imports SpuVoice
begin

unbundle bit_operations_syntax

section \<open>The render loop\<close>

text \<open>
  The frames of a render: a walk over the voices that leaves each voice to its own step, the release of a
  voice until it is off, and the renders a host may cut its frames into.
\<close>

subsection \<open>The release of a voice\<close>

text \<open>A walk over some of the voices keeps what each of their samples keeps.\<close>

lemma mix_fold_on:
  assumes "\<And>j t. j \<in> set js \<Longrightarrow> P t \<Longrightarrow> P (snd (voice_next_sample j t))" "P s"
  shows "P (snd (fold (mix_voice eon) js (a, s)))"
  using assms
proof (induction js arbitrary: a s)
  case (Cons j js)
  have "mix_voice eon j (a, s) = (fst (mix_voice eon j (a, s)), snd (voice_next_sample j s))"
    by (simp add: mix_voice_def case_prod_unfold Let_def)
  then have "fold (mix_voice eon) (j # js) (a, s)
      = fold (mix_voice eon) js (fst (mix_voice eon j (a, s)), snd (voice_next_sample j s))"
    by (metis fold_Cons o_apply)
  then show ?case using Cons by simp
qed simp

text \<open>What the other voices leave alone of voice \<open>i\<close>: its state and its envelope registers.\<close>

lemma vns_other:
  "j \<noteq> i \<Longrightarrow> voices (snd (voice_next_sample j t)) i = voices t i \<and> adsr_raw i (snd (voice_next_sample j t)) = adsr_raw i t"
proof -
  assume "j \<noteq> i"
  moreover have "i * 8 + 4 \<noteq> j * 8 + 7" "i * 8 + 5 \<noteq> j * 8 + 7" by presburger+
  ultimately show ?thesis by (simp add: vns_voice adsr_raw_def voice_reg_def vns_regs)
qed

lemma vns_raw: "adsr_raw i (snd (voice_next_sample j t)) = adsr_raw i t"
proof -
  have "i * 8 + 4 \<noteq> j * 8 + 7" "i * 8 + 5 \<noteq> j * 8 + 7" by presburger+
  then show ?thesis by (simp add: adsr_raw_def voice_reg_def vns_regs)
qed

lemma mix_others:
  "i \<notin> set js \<Longrightarrow> voices (snd (fold (mix_voice eon) js (a, s))) i = voices s i
     \<and> adsr_raw i (snd (fold (mix_voice eon) js (a, s))) = adsr_raw i s"
  using mix_fold_on [of js "\<lambda>t. voices t i = voices s i \<and> adsr_raw i t = adsr_raw i s" s eon a]
  by (metis vns_other)

lemma mix_voices_one:
  assumes "i < 24"
  obtains t where "voices t i = voices s i" "adsr_raw i t = adsr_raw i s"
    "voices (snd (mix_voices eon s)) i = voices (snd (voice_next_sample i t)) i"
    "adsr_raw i (snd (mix_voices eon s)) = adsr_raw i s"
proof -
  have split: "[0..<24] = [0..<i] @ i # [Suc i..<24]" using assms upt_add_eq_append [of 0 i "24 - i"] by (simp add: upt_conv_Cons)
  define p where "p = fold (mix_voice eon) [0..<i] (no_sums, s)"
  define t where "t = snd p"
  have t: "voices t i = voices s i" "adsr_raw i t = adsr_raw i s"
    using mix_others [of i "[0..<i]" eon no_sums s] by (simp_all add: t_def p_def)
  obtain a where "mix_voice eon i p = (a, snd (voice_next_sample i t))"
    by (simp add: mix_voice_def case_prod_unfold Let_def t_def)
  then have m: "mix_voices eon s = fold (mix_voice eon) [Suc i..<24] (a, snd (voice_next_sample i t))"
    unfolding mix_voices_def split by (simp add: p_def)
  show thesis
    by (rule that [OF t]) (use mix_others [of i "[Suc i..<24]" eon a] t vns_raw in \<open>simp_all add: m\<close>)
qed

text \<open>The release of voice \<open>i\<close>: at most \<open>k\<close> frames until it is off.\<close>

definition fading :: "nat \<Rightarrow> spu_voice \<Rightarrow> bool" where
  "fading k v \<longleftrightarrow> (active v \<longrightarrow> adsr_phase v = ADSR_RELEASE \<and> release_left v \<le> k)"

lemma release_left_pos: "env_ok v \<Longrightarrow> 0 < release_left v"
proof -
  assume "env_ok v"
  then have "0 \<le> uint (env_level v)" "uint (adsr_divider v) < 32768" by (simp_all add: env_ok_def word_less_def)
  then show ?thesis unfolding release_left_def by (auto simp: zero_less_nat_eq intro!: add_nonneg_pos)
qed

lemma fetch_release:
  "env_level (voices (voice_fetch i s) i) = 0 \<and> adsr_phase (voices (voice_fetch i s) i) = ADSR_RELEASE
     \<or> (env_level (voices (voice_fetch i s) i) = env_level (voices s i)
        \<and> adsr_phase (voices (voice_fetch i s) i) = adsr_phase (voices s i)
        \<and> adsr_divider (voices (voice_fetch i s) i) = adsr_divider (voices s i))"
  by (auto simp: voice_fetch_def decode_block_own voice_wrap_def Let_def)

lemma advance_fading [simp]: "fading k (voice_advance p v) = fading k v"
  by (simp add: fading_def voice_advance_def case_prod_unfold Let_def release_left_def)

lemma fetch_raw: "adsr_raw i (voice_fetch j t) = adsr_raw i t"
proof -
  have "i * 8 + 4 \<noteq> j * 8 + 7" "i * 8 + 5 \<noteq> j * 8 + 7" by presburger+
  then show ?thesis by (simp add: adsr_raw_def voice_reg_def fetch_regs)
qed

lemma vns_fading:
  assumes ok: "voice_ok (voices s i)" and rr: "release_rate (adsr_raw i s) \<noteq> 31" and f: "fading k (voices s i)"
  shows "fading (k - 1) (voices (snd (voice_next_sample i s)) i)"
proof (cases "active (voices s i)")
  case True
  let ?v = "voices s i" and ?f = "voices (voice_fetch i s) i" and ?raw = "adsr_raw i s"
  have env: "env_ok ?f" "env_ok ?v" using fetch_own(1) [OF ok] ok by (simp_all add: voice_ok_def env_ok_def)
  have rel: "adsr_phase ?v = ADSR_RELEASE" "release_left ?v \<le> k" using True f by (simp_all add: fading_def)
  have ph: "adsr_phase ?f = ADSR_RELEASE" using fetch_release [of i s] rel(1) by auto
  note st = release_step [OF env(1) ph rr]
  have ae: "after_envelope i s = voice_envelope ?raw ?f" by (simp add: after_envelope_def fetch_raw)
  have "fading (k - 1) (after_envelope i s)"
  proof (cases "env_level ?f = 0")
    case True
    then show ?thesis using st(1,2) by (simp add: ae voice_envelope_def Let_def fading_def)
  next
    case False
    then have "release_left ?f = release_left ?v" using fetch_release [of i s] by (simp add: release_left_def)
    then have "release_left (adsr_run ?raw ?f) < release_left ?v" using st(3) False by simp
    then have "release_left (adsr_run ?raw ?f) \<le> k - 1" using rel(2) by linarith
    then show ?thesis using st(1) by (simp add: ae voice_envelope_def Let_def fading_def)
  qed
  then show ?thesis using vns_own [OF True] by auto
qed (simp add: voice_next_sample_def fading_def)

text \<open>What the rest of a frame leaves alone.\<close>

lemma finish_frame_voices:
  "voices (snd (finish_frame b l r (a, s))) = voices s \<and> spu_regs (snd (finish_frame b l r (a, s))) = spu_regs s"
  using rest_view_fields(4,5) [OF reverb_frame_rest]
  by (simp add: finish_frame_def Let_def case_prod_unfold)

definition fading_spu :: "nat \<Rightarrow> u32 \<Rightarrow> nat \<Rightarrow> spu \<Rightarrow> bool" where
  "fading_spu i raw k s \<longleftrightarrow> spu_ok s \<and> spucnt s AND 0x8000 \<noteq> 0 \<and> adsr_raw i s = raw \<and> fading k (voices s i)"

lemma spu_frame_fading:
  assumes f: "fading_spu i raw k s" and i: "i < 24" and rr: "release_rate raw \<noteq> 31"
    and b: "b_enabled b" "b_cd_small b" "b_any b \<or> \<not> active (voices s i)"
  shows "fading_spu i raw (k - 1) (snd (spu_frame b s))" "b_any b \<or> \<not> active (voices (snd (spu_frame b s)) i)"
proof -
  define t where "t = (if b_any b then step_voice_sweeps (step_main_sweeps s) else step_main_sweeps s)"
  have t: "voices t = voices s" "spu_regs t = spu_regs s" using sweeps_views
    by (simp_all add: t_def step_voice_sweeps_def step_main_sweeps_def)
  define p where "p = (if b_any b then mix_voices (b_eon b) t else (no_sums, t))"
  have fr: "spu_frame b s = finish_frame b (main_volume 0 s) (main_volume 1 s) (fst p, snd p)"
    using b(1) by (simp add: spu_frame_def Let_def t_def p_def)
  have regs: "voices (snd (spu_frame b s)) = voices (snd p)" "spu_regs (snd (spu_frame b s)) = spu_regs (snd p)"
    unfolding fr using finish_frame_voices by blast+
  have raw: "adsr_raw i t = raw" using f t by (simp add: fading_spu_def adsr_raw_def voice_reg_def)
  have cnt: "spucnt (snd p) = spucnt s" unfolding p_def
    using ctl_rreg [of "snd (mix_voices (b_eon b) t)" t "0x1F801DAA"] mix_voices_views(5) t by (simp add: rreg_def)
  have v: "adsr_raw i (snd p) = raw \<and> fading (k - 1) (voices (snd p) i)"
  proof (cases "b_any b")
    case True
    obtain u where u: "voices u i = voices t i" "adsr_raw i u = adsr_raw i t"
      "voices (snd (mix_voices (b_eon b) t)) i = voices (snd (voice_next_sample i u)) i"
      "adsr_raw i (snd (mix_voices (b_eon b) t)) = adsr_raw i t" by (rule mix_voices_one [OF i])
    have "fading (k - 1) (voices (snd (voice_next_sample i u)) i)"
      by (rule vns_fading) (use f u t raw rr in \<open>simp_all add: fading_spu_def voice_of_ok\<close>)
    then show ?thesis using True u raw by (simp add: p_def)
  next
    case False
    then show ?thesis using b(3) raw t by (simp add: p_def fading_def)
  qed
  have "spu_ok (snd (spu_frame b s))" using f b(2) by (intro spu_frame_ok) (simp_all add: fading_spu_def)
  then show "fading_spu i raw (k - 1) (snd (spu_frame b s))"
    using v regs cnt f by (simp add: fading_spu_def adsr_raw_def voice_reg_def rreg_def)
  show "b_any b \<or> \<not> active (voices (snd (spu_frame b s)) i)" using b(3) t by (auto simp: regs p_def)
qed

lemma run_frames_fading:
  assumes "fading_spu i raw k s" "i < 24" "release_rate raw \<noteq> 31" "b_enabled b" "b_cd_small b" "b_any b \<or> \<not> active (voices s i)"
  shows "fading_spu i raw (k - n) (snd (run_frames (spu_frame b) n s))"
  using assms
proof (induction n arbitrary: k s)
  case (Suc n)
  note st = spu_frame_fading [OF Suc.prems]
  show ?case using Suc.IH [OF st(1) Suc.prems(2-5) st(2)] by (simp add: case_prod_unfold Let_def)
qed simp

lemma render_block_fading:
  assumes "fading_spu i raw k s" "i < 24" "release_rate raw \<noteq> 31"
  shows "fading_spu i raw (k - n) (snd (render_block n s))"
proof -
  have "b_enabled (block_of s)" "b_any (block_of s) \<or> \<not> active (voices s i)"
    using assms(1,2) by (auto simp: b_enabled_def block_of_def fading_spu_def)
  then show ?thesis using run_frames_fading [OF assms _ block_of_small] by (simp add: render_block_frames case_prod_unfold Let_def)
qed

lemma spu_render_fading:
  "fading_spu i raw k s \<Longrightarrow> i < 24 \<Longrightarrow> release_rate raw \<noteq> 31 \<Longrightarrow> fading_spu i raw (k - n) (snd (spu_render n s))"
proof (induction n s arbitrary: k rule: spu_render.induct)
  case (1 n s)
  show ?case
  proof (cases "n = 0 \<or> \<not> (host_custom s \<and> n > 2048)")
    case True
    then show ?thesis using 1(2) render_block_fading [OF 1(2-4), of n] by (subst spu_render.simps) auto
  next
    case False
    obtain xs t where b: "render_block 2048 s = (xs, t)" by (rule prod.exhaust)
    have "fading_spu i raw (k - 2048) t" using render_block_fading [OF 1(2-4), of 2048] b by simp
    then have "fading_spu i raw (k - 2048 - (n - 2048)) (snd (spu_render (n - 2048) t))"
      using 1(1) [OF _ _ b [symmetric] refl _ 1(3,4)] False by blast
    moreover have "k - 2048 - (n - 2048) = k - n" using False by simp
    ultimately have "fading_spu i raw (k - n) (snd (spu_render (n - 2048) t))" by (simp only:)
    then show ?thesis using False b by (subst spu_render.simps) (simp add: Let_def case_prod_unfold)
  qed
qed

text \<open>Releasing a key.\<close>

lemma key_off_voice_other:
  "j \<noteq> i \<Longrightarrow> voices (key_off_voice m j s) i = voices s i" "spu_regs (key_off_voice m j s) = spu_regs s"
  by (simp_all add: key_off_voice_def)

lemma key_off_fold:
  "distinct js \<Longrightarrow> voices (fold (key_off_voice m) js s) i = (if i \<in> set js \<and> bit m i \<and> active (voices s i)
     then (voices s i)\<lparr>adsr_phase := ADSR_RELEASE, adsr_divider := 0\<rparr> else voices s i)
   \<and> spu_regs (fold (key_off_voice m) js s) = spu_regs s"
proof (induction js arbitrary: s)
  case (Cons j js)
  then show ?case by (cases "j = i") (auto simp: key_off_voice_other, auto simp: key_off_voice_def)
qed simp

lemma key_off_view:
  assumes "i < 24" "bit m i"
  shows "voices (key_off m s) i = (if active (voices s i) then (voices s i)\<lparr>adsr_phase := ADSR_RELEASE, adsr_divider := 0\<rparr> else voices s i)"
    "spu_regs (key_off m s) = spu_regs s"
  using key_off_fold [of "[0..<24]" m s i] assms by (simp_all add: key_off_def)

text \<open>
  C13. A voice whose key is released falls silent: with the processor on and a release rate other than 31,
  the one that never moves, it is off after (level + 1) * 32768 frames at the latest, however the host cuts
  the frames into renders and whatever the sample data, the interrupt, the reverb and the other voices do.
\<close>

theorem released_voice_falls_silent:
  assumes "spu_reachable s" "i < 24" "bit m i" "spucnt s AND 0x8000 \<noteq> 0" "release_rate (adsr_raw i s) \<noteq> 31"
    and "(unat (env_level (voices s i)) + 1) * 32768 \<le> n"
  shows "\<not> active (voices (snd (spu_render n (key_off m s))) i)"
proof -
  let ?s = "key_off m s" and ?t = "snd (spu_render n (key_off m s))"
  define k where "k = (unat (env_level (voices s i)) + 1) * 32768"
  note off = key_off_view [OF assms(2,3), of s]
  have "release_left ((voices s i)\<lparr>adsr_phase := ADSR_RELEASE, adsr_divider := 0\<rparr>) = k"
  proof -
    have "int k = uint (env_level (voices s i)) * 32768 + 32768" by (simp add: k_def)
    then have "nat (uint (env_level (voices s i)) * 32768 + 32768) = k" by (metis nat_int)
    then show ?thesis by (simp add: release_left_def)
  qed
  then have "fading k (voices ?s i)" by (simp add: fading_def off)
  moreover have "spu_ok ?s" by (intro key_off_ok spu_reachable_ok assms)
  ultimately have "fading_spu i (adsr_raw i s) k ?s" using assms(4) off(2)
    by (simp add: fading_spu_def adsr_raw_def voice_reg_def rreg_def)
  from spu_render_fading [OF this assms(2,5)] have "fading (k - n) (voices ?t i)" "spu_ok ?t"
    by (simp_all add: fading_spu_def)
  moreover have "k - n = 0" using assms(6) by (simp add: k_def)
  ultimately show ?thesis using release_left_pos [of "voices ?t i"] voice_of_ok [of ?t i]
    by (auto simp: fading_def voice_ok_def)
qed

theorem released_voice_falls_silent_witness:
  "\<not> active (voices (snd (spu_render 40000 (key_off 1 demo_keyed))) 0)"
proof -
  have "spucnt demo_keyed AND 0x8000 \<noteq> 0" "release_rate (adsr_raw 0 demo_keyed) \<noteq> 31"
    "unat (env_level (voices demo_keyed 0)) = 0" by code_simp+
  then show ?thesis using released_voice_falls_silent [OF demo_reachable(2), of 0 1 40000] by simp
qed

subsection \<open>Slicing a render\<close>

text \<open>The volume registers of a voice that hold a level, not a sweep.\<close>

definition volumes_direct :: "spu \<Rightarrow> bool" where
  "volumes_direct s \<longleftrightarrow> (\<forall>v < 24. voice_reg v 0 s AND 0x8000 = 0 \<and> voice_reg v 1 s AND 0x8000 = 0)"

text \<open>The parts of the state a block is computed from, which its frames keep.\<close>

definition block_view :: "spu \<Rightarrow> _" where
  "block_view s = (ctl_view s, \<lambda>v r. if v < 24 \<and> r < 2 then voice_reg v r s else 0, host_sfx_percent s, host_music_percent s)"

definition full_block :: "spu \<Rightarrow> block" where
  "full_block s = (block_of s)\<lparr>b_any := True\<rparr>"

lemma block_view_direct: "block_view s = block_view t \<Longrightarrow> volumes_direct s \<Longrightarrow> volumes_direct t"
proof -
  assume v: "block_view s = block_view t" "volumes_direct s"
  then have e: "(\<lambda>v r. if v < 24 \<and> r < 2 then voice_reg v r s else 0) = (\<lambda>v r. if v < 24 \<and> r < 2 then voice_reg v r t else 0)"
    by (simp add: block_view_def)
  have "voice_reg v r s = voice_reg v r t" if "v < 24" "r < 2" for v r
    using fun_cong [OF fun_cong [OF e, of v], of r] that by simp
  then show ?thesis using v(2) by (simp add: volumes_direct_def)
qed

lemma block_view_block: "block_view s = block_view t \<Longrightarrow> full_block s = full_block t"
  using ctl_rreg [of s t] by (simp add: block_view_def full_block_def block_of_def rvol_def reg_pair_def)

lemma block_view_host: "block_view s = block_view t \<Longrightarrow> host_finish_mix s = host_finish_mix t \<and> host_custom s = host_custom t"
  by (simp add: block_view_def host_finish_mix_def host_custom_def host_sample_def fun_eq_iff)

lemma vns_block_view: "i < 24 \<Longrightarrow> block_view (snd (voice_next_sample i s)) = block_view s"
proof -
  assume "i < 24"
  have "voice_reg v r (snd (voice_next_sample i s)) = voice_reg v r s" if "r < 2" for v r
  proof -
    have "v * 8 + r \<noteq> i * 8 + 7" using that by presburger
    then show ?thesis by (simp add: voice_reg_def vns_regs)
  qed
  moreover have "host_sfx_percent (snd (voice_next_sample i s)) = host_sfx_percent s"
    "host_music_percent (snd (voice_next_sample i s)) = host_music_percent s"
    using vns_views(1) [of i s] by (simp_all add: fixed_view_def)
  ultimately show ?thesis using \<open>i < 24\<close> by (auto simp: block_view_def vns_ctl fun_eq_iff)
qed

lemma mix_block_view: "block_view (snd (mix_voices eon s)) = block_view s"
proof -
  have "(\<lambda>t. block_view t = block_view s) (snd (fold (mix_voice eon) [0..<24] (no_sums, s)))"
    by (rule mix_fold) (simp_all add: vns_block_view)
  then show ?thesis by (simp add: mix_voices_def)
qed

lemma finish_block_view: "block_view (snd (finish_frame b l r (a, s))) = block_view s"
proof -
  define u where "u = snd (finish_frame b l r (a, s))"
  have "fixed_view u = fixed_view s" "spu_regs u = spu_regs s"
    using rest_view_fields(1,4) [OF reverb_frame_rest] by (simp_all add: u_def finish_frame_def Let_def case_prod_unfold)
  then show ?thesis unfolding u_def [symmetric]
    by (simp add: block_view_def fixed_view_def ctl_view_def voice_reg_def cong: if_cong)
qed

lemma sweeps_block_view:
  "block_view (step_main_sweeps s) = block_view s" "block_view (step_voice_sweeps s) = block_view s"
  by (simp_all add: block_view_def step_main_sweeps_def step_voice_sweeps_def ctl_view_def voice_reg_def cong: if_cong)

lemma spu_frame_block_view: "block_view (snd (spu_frame b s)) = block_view s"
proof (cases "b_enabled b")
  case True
  define t where "t = (if b_any b then step_voice_sweeps (step_main_sweeps s) else step_main_sweeps s)"
  define p where "p = (if b_any b then mix_voices (b_eon b) t else (no_sums, t))"
  have "spu_frame b s = finish_frame b (main_volume 0 s) (main_volume 1 s) (fst p, snd p)"
    using True by (simp add: spu_frame_def Let_def t_def p_def)
  moreover have "block_view (snd p) = block_view s" by (simp add: p_def t_def mix_block_view sweeps_block_view)
  ultimately show ?thesis by (simp only: finish_block_view)
qed (simp add: spu_frame_def)

text \<open>A direct volume has no sweep, and a walk over silent voices adds nothing.\<close>

lemma direct_sweeps: "volumes_direct s \<Longrightarrow> step_voice_sweeps s = s"
proof -
  assume "volumes_direct s"
  then have "(\<lambda>v ch. if v < 24 \<and> ch < 2 then sweep_env_step (voice_reg v ch s) (sweep_voice_env s v ch) else sweep_voice_env s v ch)
      = sweep_voice_env s"
    by (intro ext) (auto simp: volumes_direct_def sweep_env_step_def less_2_cases_iff)
  then show ?thesis by (simp add: step_voice_sweeps_def)
qed

lemma silent_walk: "\<forall>v \<in> set js. \<not> active (voices s v) \<Longrightarrow> fold (mix_voice eon) js (no_sums, s) = (no_sums, s)"
  by (induction js) (simp_all add: mix_voice_def voice_next_sample_def add_voice_def no_sums_def Let_def)

lemma any_flags:
  "b_cd_on (b\<lparr>b_any := x\<rparr>) = b_cd_on b" "b_cd_rev (b\<lparr>b_any := x\<rparr>) = b_cd_rev b" "b_rev_wren (b\<lparr>b_any := x\<rparr>) = b_rev_wren b"
  "b_ctrl (b\<lparr>b_any := x\<rparr>) = b_ctrl b" "b_cd_l (b\<lparr>b_any := x\<rparr>) = b_cd_l b" "b_cd_r (b\<lparr>b_any := x\<rparr>) = b_cd_r b"
  "b_eon (b\<lparr>b_any := x\<rparr>) = b_eon b"
  by (simp_all add: b_cd_on_def b_cd_rev_def b_rev_wren_def)

lemma spu_frame_full:
  assumes "volumes_direct s" "b_enabled b \<Longrightarrow> \<not> b_any b \<Longrightarrow> \<forall>v < 24. \<not> active (voices s v)"
  shows "spu_frame b s = spu_frame (b\<lparr>b_any := True\<rparr>) s"
proof (cases "b_any b \<or> \<not> b_enabled b")
  case True
  show ?thesis
  proof (cases "b_any b")
    case True
    then have "b\<lparr>b_any := True\<rparr> = b" by (intro block.equality) simp_all
    then show ?thesis by (simp only:)
  next
    case False
    then show ?thesis using True by (simp add: spu_frame_def b_enabled_def)
  qed
next
  case False
  define t where "t = step_main_sweeps s"
  have "block_view t = block_view s" by (simp add: t_def sweeps_block_view)
  then have "volumes_direct t" using assms(1) block_view_direct by metis
  then have sw: "step_voice_sweeps t = t" by (rule direct_sweeps)
  have "mix_voices (b_eon b) t = (no_sums, t)" unfolding mix_voices_def
    by (rule silent_walk) (use assms(2) False in \<open>simp add: t_def step_main_sweeps_def\<close>)
  moreover have "finish_frame (b\<lparr>b_any := True\<rparr>) = finish_frame b"
    by (rule ext)+ (simp only: finish_frame_def cd_input_def any_flags)
  ultimately show ?thesis using False sw by (simp add: spu_frame_def t_def [symmetric] b_enabled_def)
qed

text \<open>A voice that is off stays off in a frame.\<close>

lemma vns_inactive: "\<forall>v < 24. \<not> active (voices s v) \<Longrightarrow> i < 24 \<Longrightarrow> snd (voice_next_sample i s) = s"
  by (simp add: voice_next_sample_def)

lemma spu_frame_off:
  assumes "volumes_direct s" "b_enabled b" "\<not> b_any b"
  shows "voices (snd (spu_frame b s)) = voices s"
  using assms finish_frame_voices by (simp add: spu_frame_def Let_def step_main_sweeps_def)

lemma run_frames_full:
  assumes "volumes_direct s" "b_enabled b \<Longrightarrow> \<not> b_any b \<Longrightarrow> \<forall>v < 24. \<not> active (voices s v)"
  shows "run_frames (spu_frame b) n s = run_frames (spu_frame (b\<lparr>b_any := True\<rparr>)) n s"
  using assms
proof (induction n arbitrary: s)
  case (Suc n)
  define t where "t = snd (spu_frame b s)"
  have t: "volumes_direct t" using block_view_direct [OF _ Suc.prems(1)] spu_frame_block_view unfolding t_def by metis
  have "\<forall>v < 24. \<not> active (voices t v)" if "b_enabled b" "\<not> b_any b"
    using Suc.prems(2) [OF that] spu_frame_off [OF Suc.prems(1) that] by (simp add: t_def)
  from Suc.IH [OF t this] show ?case using spu_frame_full [OF Suc.prems] by (simp add: t_def case_prod_unfold Let_def)
qed simp

lemma run_frames_block_view: "block_view (snd (run_frames (spu_frame b) n s)) = block_view s"
  by (induction n arbitrary: s) (simp_all add: case_prod_unfold Let_def spu_frame_block_view)

lemma run_frames_add:
  "run_frames f (m + n) s = (let (xs, t) = run_frames f m s; (ys, u) = run_frames f n t in (xs @ ys, u))"
  by (induction m arbitrary: s) (simp_all add: case_prod_unfold Let_def)

definition straight :: "nat \<Rightarrow> spu \<Rightarrow> (i16 \<times> i16) list \<times> spu" where
  "straight n s = (let (fs, t) = run_frames (spu_frame (full_block s)) n s in (map (host_finish_mix s) fs, t))"

lemma straight_block_view: "block_view (snd (straight n s)) = block_view s"
  by (simp add: straight_def case_prod_unfold Let_def run_frames_block_view)

lemma straight_add:
  "straight (m + n) s = (let (xs, t) = straight m s; (ys, u) = straight n t in (xs @ ys, u))"
proof -
  define t where "t = snd (straight m s)"
  have v: "block_view t = block_view s" by (simp add: t_def straight_block_view)
  note b = block_view_block [OF v] block_view_host [OF v]
  have "t = snd (run_frames (spu_frame (full_block s)) m s)" by (simp add: t_def straight_def case_prod_unfold Let_def)
  then show ?thesis using b unfolding straight_def run_frames_add by (simp add: case_prod_unfold Let_def)
qed

lemma render_block_straight: "volumes_direct s \<Longrightarrow> render_block n s = straight n s"
  unfolding render_block_frames straight_def full_block_def
  by (subst run_frames_full) (auto simp: block_of_def b_enabled_def)

lemma spu_render_straight: "volumes_direct s \<Longrightarrow> spu_render n s = straight n s"
proof (induction n s rule: spu_render.induct)
  case (1 n s)
  show ?case
  proof (cases "n = 0 \<or> \<not> (host_custom s \<and> n > 2048)")
    case True
    then show ?thesis using render_block_straight [OF 1(2)] by (subst spu_render.simps) (auto simp: straight_def)
  next
    case False
    obtain xs t where b: "render_block 2048 s = (xs, t)" by (rule prod.exhaust)
    then have st: "straight 2048 s = (xs, t)" using render_block_straight [OF 1(2)] by simp
    have "block_view t = block_view s" using straight_block_view [of 2048 s] st by simp
    then have d: "volumes_direct t" using 1(2) block_view_direct by metis
    have "spu_render (n - 2048) t = straight (n - 2048) t" using 1(1) [OF _ _ b [symmetric] refl d] False by simp
    moreover have "straight (2048 + (n - 2048)) s = (let (ys, u) = straight (n - 2048) t in (xs @ ys, u))"
      unfolding straight_add st by simp
    ultimately show ?thesis using False b by (subst spu_render.simps) (simp add: Let_def case_prod_unfold)
  qed
qed

text \<open>
  C11. The output does not depend on how the host slices it: while the volume registers of the voices hold
  levels and not sweeps, a render of m + n frames is a render of m frames followed by one of n frames, in the
  samples and in the state they leave. The loop for blocks without a voice is one with the general loop, and the
  chunks of 2048 frames of the custom gains are not audible.
\<close>

theorem spu_render_sliced:
  assumes "volumes_direct s"
  shows "spu_render (m + n) s = (let (xs, t) = spu_render m s; (ys, u) = spu_render n t in (xs @ ys, u))"
proof -
  obtain xs t where m: "straight m s = (xs, t)" by (rule prod.exhaust)
  have "block_view t = block_view s" using straight_block_view [of m s] m by simp
  then have "volumes_direct t" using assms block_view_direct by metis
  then show ?thesis using assms m by (simp add: spu_render_straight straight_add)
qed

theorem spu_render_sliced_witness:
  "length (fst (spu_render 2 demo_keyed)) = length (fst (spu_render 1 demo_keyed))
     + length (fst (spu_render 1 (snd (spu_render 1 demo_keyed))))"
proof -
  have "list_all (\<lambda>v. voice_reg v 0 demo_keyed AND 0x8000 = 0 \<and> voice_reg v 1 demo_keyed AND 0x8000 = 0) [0..<24]"
    by code_simp
  then have "volumes_direct demo_keyed" by (simp only: volumes_direct_def list_all_iff) simp
  from spu_render_sliced [OF this, of 1 1] show ?thesis by (simp only: one_add_one case_prod_unfold Let_def fst_conv length_append)
qed

end
