(* ===== verification/SpuPorts.thy ===== *)
theory SpuPorts
  imports SpuVoice
begin

unbundle bit_operations_syntax

section \<open>Addresses and ports of the sound processor\<close>

text \<open>
  The interrupt on an address of sound RAM, the reverb's work area, the queue of CD frames and the DMA port.
\<close>

subsection \<open>The interrupt on an address\<close>

lemma low_19: "unat (a AND 0x7FFFF :: u32) = unat a mod 0x80000"
proof -
  have "a AND 0x7FFFF = take_bit 19 a" by (simp add: take_bit_eq_mask mask_eq_exp_minus_1)
  then show ?thesis by (simp add: take_bit_eq_mod unat_mod)
qed

lemma low_16: "unat (a AND 0xFFFF :: u32) = unat a mod 0x10000"
proof -
  have "a AND 0xFFFF = take_bit 16 a" by (simp add: take_bit_eq_mask mask_eq_exp_minus_1)
  then show ?thesis by (simp add: take_bit_eq_mod unat_mod)
qed

text \<open>The units from the first to the last are the units of the bytes in between.\<close>

lemma units_of_bytes:
  assumes "0 < len"
  shows "(a :: nat) div 8 \<le> n \<and> n \<le> (a + len - 1) div 8 \<longleftrightarrow> (\<exists>k < len. (a + k) div 8 = n)"
proof
  assume n: "a div 8 \<le> n \<and> n \<le> (a + len - 1) div 8"
  then have "n * 8 \<le> a + len - 1" by (metis div_times_less_eq_dividend le_trans mult_le_mono1)
  moreover have "(a + (n * 8 - a)) div 8 = n"
  proof (cases "n * 8 \<le> a")
    case True
    then have "n \<le> a div 8" by (simp add: less_eq_div_iff_mult_less_eq)
    then show ?thesis using True n by simp
  qed simp
  ultimately show "\<exists>k < len. (a + k) div 8 = n" using assms by (intro exI [of _ "n * 8 - a"]) simp
next
  assume "\<exists>k < len. (a + k) div 8 = n"
  then show "a div 8 \<le> n \<and> n \<le> (a + len - 1) div 8" by (auto intro: div_le_mono)
qed

lemma unit_wraps: "((a mod 0x80000 + k) div 8) mod 0x10000 = ((a + k) mod 0x80000) div (8 :: nat)"
proof -
  have "x div 8 mod 65536 = x mod 0x80000 div (8 :: nat)" for x
    using mod_mult2_eq [of x 8 65536] by simp
  then have "((a mod 0x80000 + k) div 8) mod 0x10000 = (a mod 0x80000 + k) mod 0x80000 div 8" .
  then show ?thesis by (simp only: mod_add_left_eq)
qed

lemma irq_units_set:
  assumes "0 < len" "len \<le> 0x80000"
  shows "set (irq_units addr len) = (\<lambda>k. word_of_nat ((unat addr mod 0x80000 + k) div 8)) ` {..<unat len}"
proof -
  define a where "a = unat addr mod 0x80000"
  have a: "unat (addr AND 0x7FFFF) = a" "a < 0x80000" by (simp_all add: low_19 a_def)
  have l: "0 < unat len" "unat len \<le> 0x80000" using assms by (simp_all add: word_gt_0 unat_gt_0 word_le_nat_alt)
  have s: "unat ((addr AND 0x7FFFF) + len) = a + unat len" using a l by (simp add: unat_word_ariths)
  then have "unat ((addr AND 0x7FFFF) + len - 1) = a + unat len - 1" using l
    by (subst unat_sub) (simp_all add: word_le_nat_alt)
  then have "irq_units addr len = map word_of_nat [a div 8..<Suc ((a + unat len - 1) div 8)]"
    by (simp add: irq_units_def Let_def a drop_bit_eq_div unat_div)
  then have "set (irq_units addr len) = word_of_nat ` {n. a div 8 \<le> n \<and> n \<le> (a + unat len - 1) div 8}"
    by (auto simp: less_Suc_eq_le)
  also have "\<dots> = word_of_nat ` {n. \<exists>k < unat len. (a + k) div 8 = n}" unfolding units_of_bytes [OF l(1)] ..
  finally show ?thesis by (auto simp: a_def)
qed

definition irq_hit :: "u32 \<Rightarrow> u32 \<Rightarrow> spu \<Rightarrow> bool" where
  "irq_hit addr len s \<longleftrightarrow> spucnt s AND 0x0040 \<noteq> 0
     \<and> (\<exists>k < unat len. ((unat addr + k) mod 0x80000) div 8 = unat (rreg 0x1F801DA4 s))"

lemma irq_units_hit:
  assumes "0 < len" "len \<le> 0x80000"
  shows "(\<exists>u \<in> set (irq_units addr len). u AND 0xFFFF = ucast (t :: u16))
    \<longleftrightarrow> (\<exists>k < unat len. ((unat addr + k) mod 0x80000) div 8 = unat t)"
proof -
  have "word_of_nat ((unat addr mod 0x80000 + k) div 8) AND 0xFFFF = (ucast t :: u32)
      \<longleftrightarrow> ((unat addr + k) mod 0x80000) div 8 = unat t" if "k < unat len" for k
  proof -
    have "k < 0x80000" using that assms(2) by (simp add: word_le_nat_alt)
    then have "(unat addr mod 0x80000 + k) div 8 < 2 ^ 32" by (simp add: div_less_iff_less_mult trans_less_add1)
    then have "unat (word_of_nat ((unat addr mod 0x80000 + k) div 8) :: u32) = (unat addr mod 0x80000 + k) div 8"
      by (simp add: unat_of_nat)
    then show ?thesis by (simp add: word_unat_eq_iff low_16 unit_wraps unsigned_ucast_eq take_bit_nat_eq_self)
  qed
  then show ?thesis unfolding irq_units_set [OF assms] by auto
qed

text \<open>
  C15. The interrupt on an address: an access of \<open>len\<close> bytes of sound RAM, counted round its end, latches it and
  raises line 9 exactly when SPUCNT has it enabled, it is not latched yet, and one of the bytes is in the unit of
  8 that the register names. Nothing else changes, and a latched interrupt raises nothing.
\<close>

theorem spu_irq_on_access:
  assumes "len \<le> 0x80000"
  shows "irq_flag (spu_irq_check addr len s) = (irq_flag s \<or> irq_hit addr len s)
    \<and> i_stat (spu_env (spu_irq_check addr len s))
        = (if irq_hit addr len s \<and> \<not> irq_flag s then i_stat (spu_env s) OR push_bit 9 1 else i_stat (spu_env s))
    \<and> (spu_irq_check addr len s)\<lparr>irq_flag := irq_flag s, spu_env := spu_env s\<rparr> = s"
proof (cases "len = 0 \<or> spucnt s AND 0x0040 = 0")
  case True
  then show ?thesis by (auto simp: spu_irq_check_def irq_hit_def)
next
  case False
  let ?P = "\<lambda>u. u AND 0xFFFF = (ucast (rreg 0x1F801DA4 s) :: u32)"
  have hit: "irq_hit addr len s \<longleftrightarrow> (\<exists>u \<in> set (irq_units addr len). ?P u)"
    using irq_units_hit [OF _ assms, of addr "rreg 0x1F801DA4 s"] False by (simp add: irq_hit_def word_gt_0)
  show ?thesis
  proof (cases "find ?P (irq_units addr len)")
    case None
    then have "\<not> irq_hit addr len s" using hit by (auto simp: find_None_iff)
    then show ?thesis using None by (simp add: spu_irq_check_def)
  next
    case (Some u)
    then have "irq_hit addr len s" using hit by (auto simp: find_Some_iff)
    then show ?thesis using Some False by (simp add: spu_irq_check_def)
  qed
qed

theorem spu_irq_on_access_witness:
  "irq_flag (spu_irq_check 0x1000 16 (demo_on\<lparr>spu_regs := (\<lambda>k. if k = 210 then 0x201 else 0x40)\<rparr>))"
proof -
  let ?s = "demo_on\<lparr>spu_regs := (\<lambda>k. if k = 210 then 0x201 else 0x40)\<rparr>"
  have "irq_hit 0x1000 16 ?s" unfolding irq_hit_def by (rule conjI, simp add: rreg_def) (intro exI [of _ 8], simp add: rreg_def)
  then show ?thesis using spu_irq_on_access [of 16 "0x1000" ?s] by simp
qed

subsection \<open>The reverb's work area\<close>

lemma low_even: "unat (w AND 0x7FFFE :: u32) = 2 * (unat w div 2 mod 0x40000)"
proof -
  have "n AND 0x7FFFE = 2 * (n div 2 AND 0x3FFFF)" for n :: nat by (subst and_rec) simp
  moreover have "m AND 0x3FFFF = m mod 0x40000" for m :: nat
    using take_bit_eq_mask [of 18 m] by (simp add: mask_eq_exp_minus_1 take_bit_eq_mod)
  ultimately show ?thesis by (simp add: unsigned_and_eq)
qed

lemma mbase_even: "even (unat (rev_mbase s))" "unat (rev_mbase s) < 0x80000"
  by (simp_all add: rev_mbase_def low_even)

text \<open>The address is in the work area whatever the registers and the bias.\<close>

lemma rev_ea_inside:
  "unat (rev_mbase s) \<le> unat (rev_ea reg bias s) \<and> unat (rev_ea reg bias s) < 0x80000 \<and> even (unat (rev_ea reg bias s))"
proof -
  define b where "b = unat (rev_mbase s)"
  have b: "even b" "b < 0x80000" using mbase_even [of s] by (simp_all add: b_def)
  define size where "size = uint (SPU_RAM_SIZE - rev_mbase s)"
  have "unat (SPU_RAM_SIZE - rev_mbase s) = 0x80000 - b" using b(2)
    by (subst unat_sub) (simp_all add: b_def word_le_nat_alt)
  then have size: "size = 0x80000 - int b" using b(2) by (simp add: size_def uint_nat of_nat_diff)
  define rel where "rel = (uint (rev_cur s) - uint (rev_mbase s) + push_bit 3 (uint (rreg reg s)) + bias) smod size"
  define r where "r = (if rel < 0 then rel + size else rel)"
  have "rel \<in> {- \<bar>size\<bar> + 1..\<bar>size\<bar> - 1}" unfolding rel_def by (rule smod_int_range) (use size b(2) in simp)
  then have r: "0 \<le> r" "r < size" using size b(2) by (auto simp: r_def)
  define n where "n = nat r"
  have n: "int n = r" "b + n < 0x80000" using r size by (simp_all add: n_def)
  have "rev_ea reg bias s = (rev_mbase s + word_of_int r) AND 0x7FFFE"
    by (simp only: rev_ea_def Let_def r_def rel_def size_def)
  moreover have "unat (rev_mbase s + word_of_int r) = b + n"
  proof -
    have "word_of_int r = (word_of_nat n :: u32)" by (simp flip: n(1))
    then have "rev_mbase s + word_of_int r = word_of_nat (b + n)" by (simp add: b_def)
    moreover have "unat (word_of_nat (b + n) :: u32) = b + n" using n(2) by (simp only: unat_of_nat) simp
    ultimately show ?thesis by simp
  qed
  ultimately have "unat (rev_ea reg bias s) = 2 * ((b + n) div 2 mod 0x40000)" by (simp add: low_even)
  also have "\<dots> = 2 * ((b + n) div 2)" using n(2) by simp
  finally have e: "unat (rev_ea reg bias s) = 2 * ((b + n) div 2)" .
  have "b \<le> 2 * ((b + n) div 2)" using b(1) by (auto elim!: evenE)
  then show ?thesis using e n(2) unfolding b_def by simp
qed

text \<open>A state that differs from \<open>s\<close> in RAM only inside the work area, and nowhere when writing is off.\<close>

definition only_work :: "bool \<Rightarrow> spu \<Rightarrow> spu \<Rightarrow> bool" where
  "only_work wren s t \<longleftrightarrow> spu_regs t = spu_regs s \<and> rev_cur t = rev_cur s
     \<and> (\<forall>k. k < unat (rev_mbase s) \<or> 0x80000 \<le> k \<or> \<not> wren \<longrightarrow> spu_ram t k = spu_ram s k)"

lemma only_work_refl: "only_work wren s s"
  by (simp add: only_work_def)

lemma only_work_read: "only_work wren s t \<Longrightarrow> only_work wren s (snd (rev_read r d t))"
  by (simp add: only_work_def rev_read_def Let_def)

lemma put16_ram: "unat a < 0x80000 \<Longrightarrow> even (unat a) \<Longrightarrow> k \<noteq> unat a \<Longrightarrow> k \<noteq> unat a + 1 \<Longrightarrow> spu_ram (ram_put16 a v s) k = spu_ram s k"
  by (simp add: ram_put16_def unat_word_ariths)

lemma only_work_write: "only_work wren s t \<Longrightarrow> only_work wren s (rev_write r v wren t)"
proof -
  assume w: "only_work wren s t"
  define a where "a = rev_ea r 0 t"
  have "rev_mbase t = rev_mbase s" using w by (simp add: only_work_def rev_mbase_def rreg_def)
  then have a: "unat (rev_mbase s) \<le> unat a" "unat a < 0x80000" "even (unat a)"
    using rev_ea_inside [of t r 0] by (simp_all add: a_def)
  then have "unat a + 1 < 0x80000" by presburger
  then show ?thesis using w a put16_ram [OF a(2,3)]
    by (auto simp: only_work_def rev_write_def Let_def simp flip: a_def)
qed

lemma only_work_reflect: "only_work wren s t \<Longrightarrow> only_work wren s (rev_reflect m d x wren t)"
  by (simp add: rev_reflect_def Let_def case_prod_unfold only_work_read only_work_write)

lemma only_work_comb: "only_work wren s t \<Longrightarrow> only_work wren s (snd (rev_comb a b c d t))"
  by (simp add: rev_comb_def Let_def case_prod_unfold only_work_read)

lemma only_work_allpass: "only_work wren s t \<Longrightarrow> only_work wren s (snd (rev_allpass m d v x wren t))"
  by (simp add: rev_allpass_def Let_def case_prod_unfold only_work_read only_work_write)

lemma only_work_stages: "only_work wren s (snd (snd (reverb_stages in_l in_r wren s)))"
  by (simp add: reverb_stages_def Let_def case_prod_unfold only_work_reflect only_work_comb only_work_allpass only_work_refl)

lemma advance_cur: "rev_cur (rev_advance u) = max (rev_mbase u) ((rev_cur u + 2) AND 0x7FFFE)"
  by (auto simp: rev_advance_def Let_def max_def)

lemma out_mbase: "rev_mbase (t\<lparr>rev_out_l := x, rev_out_r := y\<rparr>) = rev_mbase t"
  by (simp add: rev_mbase_def rreg_def)

text \<open>
  C14. The reverb stays in its work area: for any registers and any bias its addresses are even and between
  mBASE and the end of sound RAM; a step changes no byte outside, and none at all while SPUCNT forbids it
  to write; and it leaves its buffer address in the area, two bytes on or back at mBASE.
\<close>

theorem reverb_stays_in_work_area:
  shows "(\<forall>reg bias. unat (rev_mbase s) \<le> unat (rev_ea reg bias s) \<and> unat (rev_ea reg bias s) + 1 < 0x80000)
    \<and> (\<forall>k. k < unat (rev_mbase s) \<or> 0x80000 \<le> k \<or> \<not> wren \<longrightarrow> spu_ram (reverb_step in_l in_r wren s) k = spu_ram s k)
    \<and> rev_cur (reverb_step in_l in_r wren s) = max (rev_mbase s) ((rev_cur s + 2) AND 0x7FFFE)"
proof -
  define t where "t = snd (snd (reverb_stages in_l in_r wren s))"
  have t: "only_work wren s t" unfolding t_def by (rule only_work_stages)
  obtain l r where st: "reverb_stages in_l in_r wren s = (l, r, t)" unfolding t_def by (metis prod.collapse)
  have "rev_mbase t = rev_mbase s" using t by (simp add: only_work_def rev_mbase_def rreg_def)
  then have "spu_ram (reverb_step in_l in_r wren s) = spu_ram t
      \<and> rev_cur (reverb_step in_l in_r wren s) = max (rev_mbase s) ((rev_cur t + 2) AND 0x7FFFE)"
    unfolding reverb_step_stages st
    by (simp add: advance_cur out_mbase) (simp add: rev_advance_def Let_def)
  moreover have "unat (rev_mbase s) \<le> unat (rev_ea reg bias s) \<and> unat (rev_ea reg bias s) + 1 < 0x80000" for reg bias
    using rev_ea_inside [of s reg bias] by presburger
  ultimately show ?thesis using t by (simp add: only_work_def)
qed

theorem reverb_stays_in_work_area_witness:
  "spu_ram (reverb_step 100 100 True (demo_on\<lparr>spu_regs := (\<lambda>_. 0x8000)\<rparr>)) 0x1000 = spu_ram demo_on 0x1000"
proof -
  let ?s = "demo_on\<lparr>spu_regs := (\<lambda>_. 0x8000)\<rparr>"
  have "unat (rev_mbase ?s) = 0x40000" by (simp add: rev_mbase_def rreg_def)
  then have "spu_ram (reverb_step 100 100 True ?s) 0x1000 = spu_ram ?s 0x1000"
    using reverb_stays_in_work_area [of ?s True 100 100] by auto
  then show ?thesis by simp
qed

subsection \<open>The CD input queue\<close>

text \<open>
  C16. The CD input is a queue of 352800 frames: the ring with its two positions and its count behaves as a
  list to which a push appends its frames, forgetting the oldest over the limit, and from which a pop takes the
  oldest; a reset empties it, and it never holds more.
\<close>

theorem cd_input_is_a_queue:
  assumes "spu_reachable s" "length fs < 2 ^ 31"
  shows "cd_queue (spu_cd_audio_push fs s) = drop (length (cd_queue s @ fs) - 352800) (cd_queue s @ fs)
    \<and> fst (cd_audio_pop s) = (if cd_queue s = [] then None else Some (hd (cd_queue s)))
    \<and> cd_queue (snd (cd_audio_pop s)) = tl (cd_queue s)
    \<and> cd_queue (spu_cd_audio_reset s) = [] \<and> length (cd_queue s) \<le> 352800"
proof -
  have ok: "cd_ok s" using spu_reachable_ok [OF assms(1)] by (simp add: spu_ok_def)
  then have "length (cd_queue s) \<le> 352800" by (simp add: cd_queue_def cd_first_def cd_ok_def)
  then show ?thesis using cd_push_queue(2) [OF ok assms(2)] cd_pop_queue(2,3) [OF ok]
    by (simp add: cd_queue_def cd_first_def spu_cd_audio_reset_def)
qed

theorem cd_input_is_a_queue_witness:
  "cd_queue (spu_cd_audio_push [(1, 2), (3, 4)] demo_on) = [(1, 2), (3, 4)]"
proof -
  have "unat (cd_frame_count demo_on) = 0" by code_simp
  then have "cd_queue demo_on = []" by (simp add: cd_queue_def cd_first_def)
  then show ?thesis using cd_input_is_a_queue [OF demo_reachable(1), of "[(1, 2), (3, 4)]"] by simp
qed

subsection \<open>Sound RAM through the DMA port\<close>

text \<open>The word at a byte address of sound RAM, and the words read one after another.\<close>

definition sound_half :: "spu \<Rightarrow> nat \<Rightarrow> i16" where
  "sound_half s a = ucast (spu_ram s a) OR push_bit 8 (ucast (spu_ram s (a + 1)))"

definition sound_word :: "spu \<Rightarrow> nat \<Rightarrow> u32" where
  "sound_word s a = ucast (sound_half s a) OR push_bit 16 (ucast (sound_half s (a + 2)))"

primrec dma_reads :: "nat \<Rightarrow> spu \<Rightarrow> u32 list \<times> spu" where
  "dma_reads 0 s = ([], s)"
| "dma_reads (Suc n) s = (let (ws, s) = dma_reads n s; (w, s) = spu_dma_read s in (ws @ [w], s))"

definition nth_word :: "nat \<Rightarrow> nat \<Rightarrow> nat" where
  "nth_word a k = (a + 4 * k) mod 0x80000"

lemma nth_word_dvd: "4 dvd a \<Longrightarrow> 4 dvd nth_word a k"
  by (simp add: nth_word_def dvd_mod)

lemma nth_word_less: "nth_word a k < 0x80000"
  by (simp add: nth_word_def)

lemma nth_word_distinct:
  assumes "j < k" "k < 0x20000"
  shows "nth_word a j \<noteq> nth_word a k"
proof
  assume "nth_word a j = nth_word a k"
  then have "(a + 4 * k) mod 0x80000 = (a + 4 * j) mod 0x80000" by (simp add: nth_word_def)
  then have "0x80000 dvd (a + 4 * k) - (a + 4 * j)" using assms(1) by (subst mod_eq_dvd_iff_nat [symmetric]) simp_all
  then show False using assms nat_dvd_not_less [of "4 * k - 4 * j" "0x80000"] by simp
qed

lemma word_addrs:
  assumes "unat (t :: u32) = a" "4 dvd a" "a < 0x80000"
  shows "t + 3 < 0x80000" "unat (t + 1) = a + 1" "unat (t + 2) = a + 2" "unat (t + 2 + 1) = a + 3"
    "unat ((t + 4) mod 0x80000) = (a + 4) mod 0x80000"
proof -
  have "a + 3 < 0x80000" using assms(2,3) by (auto elim!: dvdE)
  then have "unat (t + 3) = a + 3" "unat (t + 4) = a + 4" "unat (t + 1) = a + 1" "unat (t + 2) = a + 2" "unat (t + 2 + 1) = a + 3"
    using assms(1) by (simp_all add: unat_word_ariths)
  then show "t + 3 < 0x80000" "unat (t + 1) = a + 1" "unat (t + 2) = a + 2" "unat (t + 2 + 1) = a + 3"
    "unat ((t + 4) mod 0x80000) = (a + 4) mod 0x80000"
    using \<open>a + 3 < 0x80000\<close> by (simp_all add: word_less_nat_alt unat_mod)
qed

lemma half_bytes: "ucast (ucast (v AND 0xFF) :: u8) OR push_bit 8 (ucast (ucast (drop_bit 8 v AND 0xFF) :: u8)) = (v :: u16)"
  unfolding mask8_eq
proof (rule bit_word_eqI)
  fix n assume "n < LENGTH(16)"
  then consider "n < 8" | "8 \<le> n" "n < 16" by fastforce
  then show "bit (ucast (ucast (v AND mask 8) :: u8) OR push_bit 8 (ucast (ucast (drop_bit 8 v AND mask 8) :: u8)) :: u16) n = bit v n"
    by cases (auto simp: bit_simps)
qed

lemma word_halves: "ucast (ucast (w :: u32) :: u16) OR push_bit 16 (ucast (ucast (drop_bit 16 w) :: u16)) = w"
proof (rule bit_word_eqI)
  fix n assume "n < LENGTH(32)"
  then consider "n < 16" | "16 \<le> n" "n < 32" by fastforce
  then show "bit (ucast (ucast (w :: u32) :: u16) OR push_bit 16 (ucast (ucast (drop_bit 16 w) :: u16)) :: u32) n = bit w n"
    by cases (auto simp: bit_simps)
qed

lemma ram_word:
  assumes "unat t = a" "4 dvd a" "a < 0x80000"
  shows "ucast (ram_get16 t s) OR push_bit 16 (ucast (ram_get16 (t + 2) s)) = sound_word s a"
  using word_addrs(2-4) [OF assms] assms(1) by (simp add: sound_word_def sound_half_def ram_get16_def numeral_3_eq_3)

text \<open>A word written is read back, and the words at other addresses stay.\<close>

lemma dma_write_word:
  assumes t: "unat (transfer_addr s) = a" "4 dvd a" "a < 0x80000"
  shows "sound_word (spu_dma_write w s) a = w" "b \<noteq> a \<Longrightarrow> 4 dvd b \<Longrightarrow> sound_word (spu_dma_write w s) b = sound_word s b"
    "unat (transfer_addr (spu_dma_write w s)) = (a + 4) mod 0x80000"
proof -
  note d = word_addrs [OF t]
  have r: "spu_ram (spu_dma_write w s) = (spu_ram s)(a := ucast (ucast w AND 0xFF :: u16), a + 1 := ucast (drop_bit 8 (ucast w) AND 0xFF :: u16),
     a + 2 := ucast (ucast (drop_bit 16 w) AND 0xFF :: u16), a + 3 := ucast (drop_bit 8 (ucast (drop_bit 16 w)) AND 0xFF :: u16))"
    using d t(1) by (simp add: spu_dma_write_def Let_def ram_put16_def)
  show "sound_word (spu_dma_write w s) a = w" using half_bytes [of "ucast w"] half_bytes [of "ucast (drop_bit 16 w)"] word_halves [of w]
    by (simp add: sound_word_def sound_half_def r)
  show "sound_word (spu_dma_write w s) b = sound_word s b" if "b \<noteq> a" "4 dvd b"
  proof -
    have "{b, b + 1, b + 2, b + 3} \<inter> {a, a + 1, a + 2, a + 3} = {}" using that t(2) by (auto elim!: dvdE) presburger+
    then have "spu_ram (spu_dma_write w s) k = spu_ram s k" if "k \<in> {b, b + 1, b + 2, b + 3}" for k
      using that by (auto simp: r)
    then show ?thesis by (simp add: sound_word_def sound_half_def)
  qed
  show "unat (transfer_addr (spu_dma_write w s)) = (a + 4) mod 0x80000"
    using d(5) by (simp add: spu_dma_write_def Let_def)
qed

lemma dma_read_word:
  assumes t: "unat (transfer_addr s) = a" "4 dvd a" "a < 0x80000"
  shows "fst (spu_dma_read s) = sound_word s a" "spu_ram (snd (spu_dma_read s)) = spu_ram s"
    "unat (transfer_addr (snd (spu_dma_read s))) = (a + 4) mod 0x80000"
proof -
  have "ram_get16 x (spu_irq_check y n s) = ram_get16 x s" for x y n by (simp add: ram_get16_def)
  then show "fst (spu_dma_read s) = sound_word s a"
    using word_addrs(1) [OF t] ram_word [OF t, of s] by (simp add: spu_dma_read_def Let_def)
  show "spu_ram (snd (spu_dma_read s)) = spu_ram s" "unat (transfer_addr (snd (spu_dma_read s))) = (a + 4) mod 0x80000"
    using word_addrs(5) [OF t] by (simp_all add: spu_dma_read_def Let_def)
qed

lemma nth_word_Suc: "(nth_word a n + 4) mod 0x80000 = nth_word a (Suc n)"
  by (simp add: nth_word_def mod_simps ac_simps)

lemma dma_writes:
  assumes "unat (transfer_addr s) = a" "4 dvd a" "a < 0x80000"
  shows "length ws \<le> 0x20000 \<Longrightarrow> unat (transfer_addr (fold spu_dma_write ws s)) = nth_word a (length ws)
     \<and> (\<forall>k < length ws. sound_word (fold spu_dma_write ws s) (nth_word a k) = ws ! k)"
proof (induction ws rule: rev_induct)
  case (snoc w ws)
  define t where "t = fold spu_dma_write ws s"
  let ?n = "length ws"
  have t: "unat (transfer_addr t) = nth_word a ?n" "\<forall>k < ?n. sound_word t (nth_word a k) = ws ! k"
    using snoc by (simp_all add: t_def)
  note st = dma_write_word [OF t(1) nth_word_dvd [OF assms(2)] nth_word_less]
  have "nth_word a k \<noteq> nth_word a ?n" if "k < ?n" for k by (rule nth_word_distinct) (use that snoc.prems in simp_all)
  then have "sound_word (spu_dma_write w t) (nth_word a k) = ws ! k" if "k < ?n" for k
    using st(2) [OF _ nth_word_dvd [OF assms(2)]] t(2) that by simp
  then show ?case using st(1,3) by (auto simp: nth_append nth_word_Suc less_Suc_eq simp flip: t_def)
qed (use assms in \<open>simp add: nth_word_def\<close>)

lemma dma_reads_words:
  assumes "unat (transfer_addr s) = a" "4 dvd a" "a < 0x80000"
  shows "fst (dma_reads n s) = map (\<lambda>k. sound_word s (nth_word a k)) [0..<n]
     \<and> unat (transfer_addr (snd (dma_reads n s))) = nth_word a n \<and> spu_ram (snd (dma_reads n s)) = spu_ram s"
proof (induction n)
  case (Suc n)
  define t where "t = snd (dma_reads n s)"
  have t: "unat (transfer_addr t) = nth_word a n" "spu_ram t = spu_ram s" using Suc by (simp_all add: t_def)
  note st = dma_read_word [OF t(1) nth_word_dvd [OF assms(2)] nth_word_less]
  have "dma_reads (Suc n) s = (fst (dma_reads n s) @ [fst (spu_dma_read t)], snd (spu_dma_read t))"
    by (simp add: case_prod_unfold Let_def t_def)
  then show ?case using st Suc t(2) by (simp add: nth_word_Suc sound_word_def sound_half_def)
qed (use assms in \<open>simp add: nth_word_def\<close>)

lemma set_transfer_at: "unat (transfer_addr (set_transfer_addr v s)) = 8 * unat v"
  and set_transfer_ram: "spu_ram (set_transfer_addr v s) = spu_ram s"
proof -
  have "unat v < 0x10000" using unsigned_less [of v] by simp
  then have "unat (push_bit 3 (ucast v) :: u32) = 8 * unat v"
    by (simp add: push_bit_eq_mult unat_word_ariths unsigned_ucast_eq take_bit_nat_eq_self)
  moreover have "8 * unat v < 0x80000" using \<open>unat v < 0x10000\<close> by simp
  ultimately show "unat (transfer_addr (set_transfer_addr v s)) = 8 * unat v"
    by (simp add: set_transfer_addr_def Let_def word_le_nat_alt)
qed (simp add: set_transfer_addr_def Let_def)

text \<open>
  Sound RAM keeps what the DMA port writes: up to 0x20000 words written from any transfer address, which
  is the whole of sound RAM and goes round its end, are read back in order from the same address.
\<close>

theorem spu_dma_roundtrip:
  assumes "length ws \<le> 0x20000"
  shows "fst (dma_reads (length ws) (set_transfer_addr v (fold spu_dma_write ws (set_transfer_addr v s)))) = ws"
proof -
  let ?w = "fold spu_dma_write ws (set_transfer_addr v s)"
  have a: "4 dvd 8 * unat v" "8 * unat v < 0x80000" using unsigned_less [of v] by simp_all
  note w = dma_writes [OF set_transfer_at a assms, of s]
  note r = dma_reads_words [OF set_transfer_at a, of "length ws" ?w]
  have "sound_word (set_transfer_addr v ?w) k = sound_word ?w k" for k by (simp add: sound_word_def sound_half_def set_transfer_ram)
  then show ?thesis using w conjunct1 [OF r] by (intro nth_equalityI) simp_all
qed

theorem spu_dma_roundtrip_witness:
  "fst (dma_reads (length [1, 2, 3 :: u32]) (set_transfer_addr 0xFFFF (fold spu_dma_write [1, 2, 3] (set_transfer_addr 0xFFFF demo_on)))) = [1, 2, 3]"
  by (rule spu_dma_roundtrip) simp

end
