(* ===== verification/SpuDma.thy ===== *)
theory SpuDma
  imports SpuPorts DmaProps
begin

unbundle bit_operations_syntax

section \<open>The sound processor behind DMA channel 4\<close>

text \<open>
  The two ends put together: the DMA model with the modelled sound processor as the state behind its ports,
  sharing the interrupt lines of the machine.
\<close>

text \<open>The port functions \<open>dma.c\<close> calls, on a machine whose outside state is the sound processor.\<close>

definition sound_put :: "u32 \<Rightarrow> spu gsys \<Rightarrow> spu gsys" where
  "sound_put w g =
     (let c = spu_dma_write w ((ext g)\<lparr>spu_env := tenv (tmr g)\<rparr>) in upd_env (\<lambda>_. spu_env c) (g\<lparr>ext := c\<rparr>))"

definition sound_get :: "spu gsys \<Rightarrow> u32 \<times> spu gsys" where
  "sound_get g =
     (let (w, c) = spu_dma_read ((ext g)\<lparr>spu_env := tenv (tmr g)\<rparr>) in (w, upd_env (\<lambda>_. spu_env c) (g\<lparr>ext := c\<rparr>)))"

text \<open>Ports that are those functions, with traces and bookkeeping hooks that leave memory and the processor alone.\<close>

definition sound_ports :: "spu dports \<Rightarrow> bool" where
  "sound_ports p \<longleftrightarrow> spu_put p = sound_put \<and> spu_get p = sound_get
     \<and> (\<forall>a b c g. ram (audio_event p a b c g) = ram g \<and> ext (audio_event p a b c g) = ext g)
     \<and> (\<forall>a c. gte_invalidate (devs p) a c = c) \<and> (\<forall>a v n c. ram_note (devs p) a v n c = c)"

text \<open>Sound RAM and the transfer address, which is all a DMA access of the processor reads.\<close>

definition sound_view :: "spu \<Rightarrow> (nat \<Rightarrow> u8) \<times> u32" where
  "sound_view c = (spu_ram c, transfer_addr c)"

lemma sound_view_env [simp]: "sound_view (c\<lparr>spu_env := e\<rparr>) = sound_view c"
  by (simp add: sound_view_def)

lemma sound_view_word: "sound_view c = sound_view d \<Longrightarrow> sound_word c a = sound_word d a"
  by (simp add: sound_view_def sound_word_def sound_half_def)

lemma dma_write_ram: "spu_ram (spu_dma_write w c) =
    (if transfer_addr c + 3 < SPU_RAM_SIZE
     then (spu_ram c)(unat (transfer_addr c) := ucast (ucast w AND 0xFF :: u16), unat (transfer_addr c + 1) := ucast (drop_bit 8 (ucast w) AND 0xFF :: u16),
       unat (transfer_addr c + 2) := ucast (ucast (drop_bit 16 w) AND 0xFF :: u16),
       unat (transfer_addr c + 2 + 1) := ucast (drop_bit 8 (ucast (drop_bit 16 w)) AND 0xFF :: u16))
     else spu_ram c)"
  and dma_write_at: "transfer_addr (spu_dma_write w c) = (transfer_addr c + 4) mod SPU_RAM_SIZE"
  by (simp_all add: spu_dma_write_def Let_def ram_put16_def)

lemma dma_write_view: "sound_view c = sound_view d \<Longrightarrow> sound_view (spu_dma_write w c) = sound_view (spu_dma_write w d)"
  by (simp only: sound_view_def dma_write_ram dma_write_at prod.inject)

lemma dma_writes_view: "sound_view c = sound_view d \<Longrightarrow> sound_view (fold spu_dma_write ws c) = sound_view (fold spu_dma_write ws d)"
proof (induction ws arbitrary: c d)
  case (Cons w ws)
  show ?case using Cons.IH [OF dma_write_view [OF Cons.prems]] by simp
qed simp

lemma upd_env_memory [simp]:
  "ram (upd_env f g) = ram g" "ext (upd_env f g) = ext g" "plain_stores (upd_env f g) = plain_stores g"
  by (simp_all add: upd_env_def plain_stores_def cache_isolated_def)

lemma sound_put_fields:
  "ram (sound_put w g) = ram g" "sound_view (ext (sound_put w g)) = sound_view (spu_dma_write w (ext g))"
  "plain_stores (sound_put w g) = plain_stores g"
proof -
  show "ram (sound_put w g) = ram g" by (simp add: sound_put_def Let_def)
  have "plain_stores (g\<lparr>ext := c\<rparr>) = plain_stores g" for c by (simp add: plain_stores_def cache_isolated_def)
  then show "plain_stores (sound_put w g) = plain_stores g" by (simp add: sound_put_def Let_def)
  show "sound_view (ext (sound_put w g)) = sound_view (spu_dma_write w (ext g))"
    using dma_write_view [of "(ext g)\<lparr>spu_env := tenv (tmr g)\<rparr>" "ext g" w] by (simp add: sound_put_def Let_def)
qed

lemma sound_get_fields:
  assumes "unat (transfer_addr (ext g)) = a" "4 dvd a" "a < 0x80000"
  shows "fst (sound_get g) = sound_word (ext g) a" "ram (snd (sound_get g)) = ram g"
    "spu_ram (ext (snd (sound_get g))) = spu_ram (ext g)"
    "unat (transfer_addr (ext (snd (sound_get g)))) = (a + 4) mod 0x80000"
    "plain_stores (snd (sound_get g)) = plain_stores g"
proof -
  let ?c = "(ext g)\<lparr>spu_env := tenv (tmr g)\<rparr>"
  have t: "unat (transfer_addr ?c) = a" using assms(1) by simp
  note r = dma_read_word [OF t assms(2,3)]
  have w: "sound_word ?c a = sound_word (ext g) a" by (rule sound_view_word) simp
  have "plain_stores (g\<lparr>ext := c\<rparr>) = plain_stores g" for c by (simp add: plain_stores_def cache_isolated_def)
  then show "fst (sound_get g) = sound_word (ext g) a" "ram (snd (sound_get g)) = ram g"
    "spu_ram (ext (snd (sound_get g))) = spu_ram (ext g)"
    "unat (transfer_addr (ext (snd (sound_get g)))) = (a + 4) mod 0x80000"
    "plain_stores (snd (sound_get g)) = plain_stores g"
    using r w by (simp_all add: sound_get_def case_prod_unfold Let_def)
qed

text \<open>The word addresses of guest RAM, and the words a transfer moves.\<close>

definition ram_slot :: "nat \<Rightarrow> u32" where
  "ram_slot j = of_nat (4 * j)"

lemma slot_read: "j < 0x80000 \<Longrightarrow> psx_read_word_raw d (ram_slot j) g = (get32 (ram g) (ram_slot j), g)"
  unfolding ram_slot_def by (rule ram_read)

lemma slot_store:
  assumes "plain_stores g" "j < 0x80000"
  shows "plain_stores (psx_write_word_raw d (ram_slot j) v g)"
    and "i < 0x80000 \<Longrightarrow> get32 (ram (psx_write_word_raw d (ram_slot j) v g)) (ram_slot i) = (if i = j then v else get32 (ram g) (ram_slot i))"
  unfolding ram_slot_def by (rule ram_store [OF assms], assumption?)+

lemma slot_next: "Suc j < 0x80000 \<Longrightarrow> next_addr False (ram_slot j) = ram_slot (Suc j)"
  using ram_at_low(1) [of "Suc j"] by (simp add: next_addr_def ram_slot_def algebra_simps)

definition guest_words :: "'x gsys \<Rightarrow> nat \<Rightarrow> nat \<Rightarrow> u32 list" where
  "guest_words g j n = map (\<lambda>i. get32 (ram g) (ram_slot (j + i))) [0..<n]"

lemma guest_words_Suc: "guest_words g j (Suc n) = get32 (ram g) (ram_slot j) # guest_words g (Suc j) n"
  unfolding guest_words_def upt_conv_Cons [OF zero_less_Suc] map_Suc_upt [symmetric] by (simp add: comp_def)

lemma guest_words_ram: "ram g = ram h \<Longrightarrow> guest_words g j n = guest_words h j n"
  by (simp add: guest_words_def)

lemma ram_to_spu_moves:
  assumes p: "sound_ports p"
  shows "j + n \<le> 0x80000 \<Longrightarrow>
    sound_view (ext (gs (snd (ram_to_spu p False n (ram_slot j) s)))) = sound_view (fold spu_dma_write (guest_words (gs s) j n) (ext (gs s)))
    \<and> ram (gs (snd (ram_to_spu p False n (ram_slot j) s))) = ram (gs s)"
proof (induction n arbitrary: j s)
  case 0
  then show ?case by (simp add: guest_words_def)
next
  case (Suc n)
  have j: "j < 0x80000" using Suc.prems by simp
  define w where "w = get32 (ram (gs s)) (ram_slot j)"
  define t where "t = upd_gs (sound_put w) s"
  have step: "ram_to_spu p False (Suc n) (ram_slot j) s = ram_to_spu p False n (next_addr False (ram_slot j)) t"
    using p by (simp only: ram_to_spu.simps dma_load_def slot_read [OF j] prod.case Let_def t_def w_def sound_ports_def) simp
  have t: "ram (gs t) = ram (gs s)" "sound_view (ext (gs t)) = sound_view (spu_dma_write w (ext (gs s)))"
    using sound_put_fields by (simp_all add: t_def)
  have gw: "guest_words (gs s) j (Suc n) = w # guest_words (gs t) (Suc j) n"
    using guest_words_ram [OF t(1)] by (simp add: guest_words_Suc w_def)
  show ?case
  proof (cases n)
    case 0
    then show ?thesis unfolding step gw using t by (simp add: guest_words_def)
  next
    case (Suc m)
    then have "next_addr False (ram_slot j) = ram_slot (Suc j)" "Suc j + n \<le> 0x80000" using Suc.prems by (auto intro!: slot_next)
    then show ?thesis unfolding step gw using Suc.IH [of "Suc j" t] t dma_writes_view [OF t(2)] by simp
  qed
qed

lemma store_keeps_ext:
  assumes "sound_ports p" "plain_stores g" "j < 0x80000"
  shows "ext (psx_write_word_raw (devs p) (ram_slot j) v g) = ext g"
  using write_ram [OF ram_word_phys(2) [OF ram_at_word [OF assms(3)]] assms(2), of "devs p" v] assms(1)
  by (simp add: note_ram_def count_store_def sound_ports_def ram_slot_def del: of_nat_mult of_nat_numeral)

lemma nth_word_step: "nth_word ((a + 4) mod 0x80000) i = nth_word a (Suc i)"
  by (simp add: nth_word_def mod_simps ac_simps)

lemma spu_to_ram_moves:
  assumes p: "sound_ports p"
  shows "k + n \<le> 0x80000 \<Longrightarrow> plain_stores (gs s) \<Longrightarrow> unat (transfer_addr (ext (gs s))) = a \<Longrightarrow> 4 dvd a \<Longrightarrow> a < 0x80000 \<Longrightarrow>
    guest_words (gs (snd (spu_to_ram p False n (ram_slot k) s))) k n = map (\<lambda>i. sound_word (ext (gs s)) (nth_word a i)) [0..<n]
    \<and> (\<forall>b < k. get32 (ram (gs (snd (spu_to_ram p False n (ram_slot k) s)))) (ram_slot b) = get32 (ram (gs s)) (ram_slot b))"
proof (induction n arbitrary: k s a)
  case 0
  then show ?case by (simp add: guest_words_def)
next
  case (Suc n)
  have k: "k < 0x80000" using Suc.prems(1) by simp
  define g where "g = snd (sound_get (gs s))"
  note f = sound_get_fields [OF Suc.prems(3-5), folded g_def]
  define w where "w = sound_word (ext (gs s)) a"
  define t where "t = dma_store p (ram_slot k) w (s\<lparr>gs := g\<rparr>)"
  have step: "spu_to_ram p False (Suc n) (ram_slot k) s = spu_to_ram p False n (next_addr False (ram_slot k)) t"
    using p f(1) by (simp only: spu_to_ram.simps sound_ports_def case_prod_unfold Let_def t_def w_def g_def)
  have pl: "plain_stores g" using f(5) Suc.prems(2) by simp
  have gt: "gs t = psx_write_word_raw (devs p) (ram_slot k) w g" by (simp add: t_def dma_store_def)
  note st = slot_store [OF pl k, where d = "devs p" and v = w, folded gt]
  have e: "ext (gs t) = ext g" unfolding gt by (rule store_keeps_ext [OF p pl k])
  have rd: "get32 (ram (gs t)) (ram_slot b) = (if b = k then w else get32 (ram (gs s)) (ram_slot b))" if "b \<le> k" for b
    using st(2) [of b] that k f(2) by simp
  have word: "sound_word (ext (gs t)) b = sound_word (ext (gs s)) b" for b
    using f(3) e by (simp add: sound_word_def sound_half_def)
  have a: "(a + 4) mod 0x80000 < 0x80000" "4 dvd (a + 4) mod 0x80000" using Suc.prems(4) by (simp_all add: dvd_mod)
  have shift: "map (\<lambda>i. sound_word (ext (gs s)) (nth_word a i)) [0..<Suc n]
      = w # map (\<lambda>i. sound_word (ext (gs t)) (nth_word ((a + 4) mod 0x80000) i)) [0..<n]"
    unfolding upt_conv_Cons [OF zero_less_Suc] map_Suc_upt [symmetric]
    using Suc.prems(4,5) by (simp add: comp_def word nth_word_step w_def) (simp add: nth_word_def)
  show ?case
  proof (cases n)
    case 0
    then show ?thesis unfolding step shift using rd by (simp add: guest_words_Suc) (simp add: guest_words_def)
  next
    case (Suc m)
    then have nx: "next_addr False (ram_slot k) = ram_slot (Suc k)" "Suc k + n \<le> 0x80000" using Suc.prems(1) by (auto intro!: slot_next)
    have "unat (transfer_addr (ext (gs t))) = (a + 4) mod 0x80000" using f(4) e by simp
    from Suc.IH [OF nx(2) st(1) this a(2,1)] show ?thesis unfolding step nx(1) shift guest_words_Suc using rd by auto
  qed
qed

text \<open>Channel 4 over those ports.\<close>

definition channel_words :: "spu dports \<Rightarrow> spu dsys \<Rightarrow> nat" where
  "channel_words p s = unat (transfer_word_count p 4 s)"

lemma chan4_up:
  assumes "sound_ports p" "chcr_of 4 s AND 1 \<noteq> 0" "\<not> chan_step 4 s" "chan_addr 4 s = ram_slot j" "j + channel_words p s \<le> 0x80000"
  shows "sound_view (ext (gs (snd (execute_ch4_spu p s)))) = sound_view (fold spu_dma_write (guest_words (gs s) j (channel_words p s)) (ext (gs s)))"
    "ram (gs (snd (execute_ch4_spu p s))) = ram (gs s)"
  using ram_to_spu_moves [OF assms(1,5), of s] assms
  by (simp_all add: execute_ch4_spu_def case_prod_unfold Let_def set_madr_def upd_chan_def sound_ports_def channel_words_def)

lemma chan4_down:
  assumes "sound_ports p" "chcr_of 4 s AND 1 = 0" "\<not> chan_step 4 s" "chan_addr 4 s = ram_slot k"
  shows "ram (gs (snd (execute_ch4_spu p s))) = ram (gs (snd (spu_to_ram p False (channel_words p s) (ram_slot k) s)))"
  using assms
  by (simp add: execute_ch4_spu_def case_prod_unfold Let_def set_madr_def upd_chan_def sound_ports_def channel_words_def)

text \<open>
  C18. Sound data survives the trip through DMA channel 4: a block of guest RAM the channel sends to sound RAM, of
  up to the whole of it, stands there word for word from the transfer address, round the end of sound RAM; and
  when the transfer address is set back and the channel runs in the other direction, to any place in guest RAM,
  the same words arrive there in order.
\<close>

theorem sound_block_survives_dma:
  assumes p: "sound_ports p"
    and up: "ext (gs s) = set_transfer_addr v c" "chcr_of 4 s AND 1 \<noteq> 0" "\<not> chan_step 4 s" "chan_addr 4 s = of_nat (4 * j)"
      "j + channel_words p s \<le> 0x80000" "channel_words p s \<le> 0x20000" "gs t = gs (snd (execute_ch4_spu p s))"
    and down: "ext (gs u) = set_transfer_addr v (ext (gs t))" "plain_stores (gs u)" "chcr_of 4 u AND 1 = 0" "\<not> chan_step 4 u"
      "chan_addr 4 u = of_nat (4 * k)" "channel_words p u = channel_words p s" "k + channel_words p s \<le> 0x80000"
  shows "map (\<lambda>i. sound_word (ext (gs t)) (nth_word (8 * unat v) i)) [0..<channel_words p s] = guest_words (gs s) j (channel_words p s)
    \<and> guest_words (gs (snd (execute_ch4_spu p u))) k (channel_words p s) = guest_words (gs s) j (channel_words p s)"
proof -
  define n where "n = channel_words p s"
  define ws where "ws = guest_words (gs s) j n"
  have len: "length ws = n" by (simp add: ws_def guest_words_def)
  have a: "4 dvd 8 * unat v" "8 * unat v < 0x80000" using unsigned_less [of v] by simp_all
  have "sound_view (ext (gs t)) = sound_view (fold spu_dma_write ws (set_transfer_addr v c))"
    using chan4_up(1) [OF p up(2,3) up(4) [folded ram_slot_def] up(5)] up(1,7) by (simp add: ws_def n_def)
  then have "sound_word (ext (gs t)) b = sound_word (fold spu_dma_write ws (set_transfer_addr v c)) b" for b
    by (rule sound_view_word)
  then have there: "map (\<lambda>i. sound_word (ext (gs t)) (nth_word (8 * unat v) i)) [0..<n] = ws"
    using dma_writes [OF set_transfer_at a, of ws c] up(6) len by (intro nth_equalityI) (simp_all add: n_def)
  have view: "sound_word (ext (gs u)) b = sound_word (ext (gs t)) b" for b
    using down(1) by (simp add: sound_word_def sound_half_def set_transfer_ram)
  have tr: "unat (transfer_addr (ext (gs u))) = 8 * unat v" unfolding down(1) by (rule set_transfer_at)
  have "k + n \<le> 0x80000" using down(7) by (simp add: n_def)
  from spu_to_ram_moves [OF p this down(2) tr a] have "guest_words (gs (snd (spu_to_ram p False n (ram_slot k) u))) k n = ws"
    using there by (simp only: view)
  moreover have "ram (gs (snd (execute_ch4_spu p u))) = ram (gs (snd (spu_to_ram p False n (ram_slot k) u)))"
    using chan4_down [OF p down(3,4) down(5) [folded ram_slot_def]] by (simp only: down(6) n_def)
  ultimately have "guest_words (gs (snd (execute_ch4_spu p u))) k n = ws" using guest_words_ram by metis
  then show ?thesis using there by (simp add: n_def ws_def)
qed

text \<open>A machine with the sound processor behind its ports.\<close>

definition sound_devices :: "spu devices" where
  "sound_devices = \<lparr>mmio_sync = id, sio_poll = id,
     sio_read = (\<lambda>_ g. (0, g)), sio_write = (\<lambda>_ _. id), dev_dma_read = (\<lambda>_ g. (0, g)), dev_dma_write = (\<lambda>_ _. id),
     dev_dma_write_masked = (\<lambda>_ _ _. id), cdrom_read = (\<lambda>_ g. (0, g)), cdrom_write = (\<lambda>_ _. id), gpu_read = (\<lambda>g. (0, g)),
     gpu_stat = (\<lambda>g. (0, g)), gpu_gp0 = (\<lambda>_. id), gpu_gp1 = (\<lambda>_. id), dev_mdec_read = (\<lambda>_ g. (0, g)),
     dev_mdec_write = (\<lambda>_ _. id), spu_read = (\<lambda>_ g. (0, g)), spu_write = (\<lambda>_ _. id), hold_imask7 = (\<lambda>_. False),
     imask_handoff = (\<lambda>_ _. id), ram_note = (\<lambda>_ _ _. id), gte_invalidate = (\<lambda>_. id)\<rparr>"

definition sound_demo_ports :: "spu dports" where
  "sound_demo_ports = \<lparr>devs = sound_devices, gp0_source = (\<lambda>_. id), ws_begin = id, ws_prepass = (\<lambda>_. id), ws_end = id,
     gp0_node = (\<lambda>_ _. id), flap_last = False, spu_put = sound_put, spu_get = sound_get,
     audio_event = (\<lambda>_ _ _. id), cd_ready = (\<lambda>_. False), cd_get = (\<lambda>g. (0, g)), cd_sector_words = (\<lambda>_. 0x200),
     cd_setloc_lba = (\<lambda>_. 0),
     cd_debug_snapshot = (\<lambda>_. \<lparr>cb_mode_reg = 0, cb_sector_read_pos = 0, cb_sector_available = 0,
        cb_sector_size = 0, cb_last_sector_lba = 0, cb_last_sector_size = 0, cb_last_sector_mode = 0\<rparr>),
     overlay_before = (\<lambda>_ _. id), overlay_on = (\<lambda>_ _. id), mark_exec = (\<lambda>_ _. id), mdec_view = (\<lambda>_. quiet_host)\<rparr>"

definition sound_guest :: "spu \<Rightarrow> spu gsys" where
  "sound_guest c = \<lparr>ram = (\<lambda>k. of_nat k), scratchpad = (\<lambda>_. 0), bios_rom = (\<lambda>_. 0), mod_memory = (\<lambda>_. 1),
     mod_memory_used = 5, mod_gpu_memory = (\<lambda>_. 0), mod_gpu_memory_used = 0, mem_ctrl = (\<lambda>_. 0),
     ram_size_reg = 0, cache_ctrl = 0, sr_cell = None, kseg2_ignored_reads = 0,
     kseg2_ignored_writes = 0, io_openbus_reads = 0, io_openbus_writes = 0, guest_store_count = 0,
     game_started = False, last_store_pc = 0, evcb_protect = False,
     tmr = timers_demo\<lparr>tenv := irq_power_on\<rparr>, ext = c\<rparr>"

text \<open>Channel 4 set up for 16 words from word \<open>a\<close> of RAM, to the processor or from it.\<close>

definition sound_machine :: "u32 \<Rightarrow> u32 \<Rightarrow> spu \<Rightarrow> spu dsys" where
  "sound_machine a dir c = \<lparr>dma = demo_dma\<lparr>chan := (\<lambda>_. \<lparr>madr = a, bcr = 16, chcr = dir\<rparr>)\<rparr>,
     mdc = mdec_init collecting_mdec, gs = sound_guest c\<rparr>"

definition demo_upload :: "spu dsys" where
  "demo_upload = sound_machine 0x100 1 (set_transfer_addr 0x200 demo_on)"

definition demo_download :: "spu dsys" where
  "demo_download = sound_machine 0x400 0 (set_transfer_addr 0x200 (ext (gs (snd (execute_ch4_spu sound_demo_ports demo_upload)))))"

theorem sound_block_survives_dma_witness:
  "guest_words (gs (snd (execute_ch4_spu sound_demo_ports demo_download))) 0x100 16 = guest_words (sound_guest demo_on) 0x40 16"
proof -
  have p: "sound_ports sound_demo_ports" by (simp add: sound_ports_def sound_demo_ports_def sound_devices_def)
  have c: "channel_words sound_demo_ports (sound_machine a d x) = 16" if "d = 0 \<or> d = 1" for a d x
    using that by (auto simp: channel_words_def transfer_word_count_def sound_machine_def)
  have m: "chcr_of 4 (sound_machine a d x) = d" "chan_addr 4 (sound_machine a d x) = a AND 0x1FFFFC" "gs (sound_machine a d x) = sound_guest x" for a d x
    by (simp_all add: chcr_of_def chan_addr_def sound_machine_def)
  have pl: "plain_stores (sound_guest x)" for x by (simp add: sound_guest_def plain_stores_def cache_isolated_def)
  have g: "ext (sound_guest x) = x" "guest_words (sound_guest x) j n = guest_words (sound_guest y) j n" for x y j n
    by (simp_all add: sound_guest_def guest_words_def)
  have cu: "channel_words sound_demo_ports demo_upload = 16" "channel_words sound_demo_ports demo_download = 16"
    by (simp_all add: demo_upload_def demo_download_def c)
  have "guest_words (gs (snd (execute_ch4_spu sound_demo_ports demo_download))) 0x100 (channel_words sound_demo_ports demo_upload)
      = guest_words (gs demo_upload) 0x40 (channel_words sound_demo_ports demo_upload)"
    by (rule conjunct2 [OF sound_block_survives_dma [OF p, where t = "snd (execute_ch4_spu sound_demo_ports demo_upload)" and v = "0x200" and c = demo_on]])
      (simp_all add: c demo_upload_def demo_download_def m g pl chan_step_def)
  then show ?thesis using g(2) by (simp add: cu) (simp add: demo_upload_def m)
qed
end
