(* ===== verification/Spec2Isabelle.thy ===== *)
theory Spec2Isabelle
  imports Prelude Crc32 Sha256 TraceRings Irq Timers GuestMem Interp PstWire Mdec MdecProps Dma DmaProps
    HashConfirm SnapRing InputHist MemCard CardBus PadBus PadProps PadTap Sio SioSnap SioProps SioPort
    Spu SpuSnap SpuEnv SpuProps SpuState SpuVoice SpuRender SpuPorts SpuDma
begin

text \<open>
  The hardware core of the PlayStation runtime under \<open>src/psxrecomp/runtime\<close>, on which the
  recompiled game runs: the devices the guest cycle clock drives, the memory map through which the
  CPU reaches them, the reference interpreter, and the checksums and diagnostic rings they share.

  The parts and how they interact. The clock calls \<open>timers_advance\<close> and \<open>dma_advance\<close> with the
  cycles that passed, and asks \<open>timers_cycles_to_irq\<close> and \<open>dma_cycles_to_irq\<close> how far it may run
  before the next interrupt; the serial port answers \<open>sio_advance\<close> and \<open>sio_cycles_to_irq\<close> the same
  way. The devices raise their bits of \<open>I_STAT\<close> through \<open>psx_irq_raise\<close>, which
  logs the raise and mirrors the interrupt line into bit 10 of the CAUSE cell; the interpreter reads
  that line in \<open>interp_check_interrupts\<close>. Loads and stores of the CPU and of the DMA channels go
  through the raw accessors of \<open>memory.c\<close>, which route the register window to the devices. The
  DMA channels 0 and 1 feed and drain the motion decoder. The serial port carries the bytes of two kinds
  of device, controllers and memory cards, each a state machine over one byte at a time; the cards keep
  their images in host files. Beside the devices stand three parts of the netplay layer that decide
  alone: the commit digests, the ring of snapshots and the history of inputs. The sound processor renders
  blocks of frames for the host, reached by the guest through its registers and DMA channel 4, and fed by
  the CD with frames of music; it interrupts on an address of its RAM through \<open>psx_irq_raise\<close>.

  Theories, in dependency order:
    \<^item> Prelude: machine integers, fact collections, the interface contracts (locales) several
      components implement: \<open>byte_sink\<close> (a checksum fed in chunks), \<open>bulk_clock\<close> (a device advanced
      by many cycles at once), \<open>record_ring\<close> (a ring of the last records), \<open>word_memory\<close>.
    \<^item> Crc32 (\<open>crc32.c\<close>) and Sha256 (\<open>psx_sha256.c\<close>): the table-driven checksums. The slicing-by-8
      loop is proved equal to the bit-serial CRC, and both are shown independent of how the input
      is split.
    \<^item> TraceRings (\<open>device_trace.c\<close>, \<open>event_ring.c\<close>): what the rings hold and hand out.
    \<^item> Irq (\<open>interrupts.c\<close>, the register writers of \<open>memory.c\<close>): \<open>I_STAT\<close>, \<open>I_MASK\<close>, CAUSE.IP2. The
      record \<open>irq_env\<close> is carried by every device that can interrupt.
    \<^item> Timers (\<open>timers.c\<close>): the bulk advance against ticking one count at a time, slicing, the
      horizon, the registers and the saved state.
    \<^item> GuestMem (\<open>memory.c\<close>, \<open>mod_memory.h\<close>): the raw accessors at three widths, the address
      regions, the register window, the arenas for mods.
    \<^item> Interp (\<open>psx_interpreter.c\<close>): the reference interpreter, each instruction, exceptions, the
      interrupt check, breakpoints and the instruction trace.
    \<^item> PstWire (\<open>pst_wire.h\<close>): the little-endian cursors of the snapshots, with the locale
      \<open>wire_codec\<close> that every field and every device record interprets.
    \<^item> Mdec and MdecProps (\<open>mdec.c\<close>): the motion decoder. The transform with its shortcuts and its
      SSE2 form equal the matrix product and fit a machine integer; a decode accounts for every
      halfword in and byte out; queues stay in their allocations; a burst is its words.
    \<^item> Dma and DmaProps (\<open>dma.c\<close>): the controller over the modelled memory, interrupt lines, timers
      and decoder. Interrupt edges, slicing, termination of an advance, the horizon, the ordering
      table drawn by the linked-list channel, and the snapshot.
    \<^item> HashConfirm (\<open>netplay_hash_confirm.c\<close>), SnapRing (\<open>netplay_snap_ring.c\<close>), InputHist
      (\<open>netplay_input_hist.c\<close>): what the watermark of confirmed ticks means, the snapshot ring as a
      bounded map from ticks to blobs, and the frames invented for inputs not yet received.
    \<^item> MemCard (\<open>memcard.c\<close>): the card images, their formatting, summaries and host files (a
      parameter). CardBus (\<open>mc_process_byte\<close> of \<open>sio.c\<close>): the card's protocol; a sector written over
      the bus is read back over it.
    \<^item> PadBus, PadProps and PadTap (\<open>pad_process_byte\<close> of \<open>sio.c\<close> and the host's pad calls): the
      controllers and the multitap. Polls, rumble, bulk polls, and that host requests wait for the bus.
    \<^item> Sio, SioSnap, SioProps and SioPort (the rest of \<open>sio.c\<close>): the port over the two, and its snapshot, which restores
      what it saved. The bounds every reachable state
      keeps, the horizon, what the drop of the select line does, and that a guest driving the
      registers sees exactly the protocol of the device it addresses. The locale \<open>byte_device\<close> is
      the contract of a protocol fed a byte at a time that ends; pads and card interpret it.
    \<^item> Spu (\<open>spu.c\<close>, \<open>spu_gauss.h\<close>): the whole sound processor, from the blocks of a voice to the mixer's
      output. SpuSnap: its snapshot, and that reading restores what was written. SpuEnv: the arithmetic of the envelopes, the pitch counter, the interpolation and the noise.
      SpuProps and SpuState: what each operation leaves alone and the bounds every reachable state keeps.
      SpuVoice: those bounds, the pitch counter and the fit of the C types. SpuRender: the release of a voice
      and the slicing of renders. SpuPorts: the interrupt on an address, the reverb's work area, the queue
      of CD frames and the DMA port. SpuDma: the DMA model with the sound processor behind channel 4.

  State correspondence. A C struct is a record with the fields in order; the static variables of a file
  are one record (\<open>timers\<close>, \<open>dma_state\<close>, \<open>mdec\<close>, the machine of Interp); arrays are functions of the
  index where the code indexes them, lists where it walks them. Unsigned integers are words of their
  width, so that wrap-around is the C one; \<open>int\<close> computations of the decoder are integers with a
  theorem that they fit. A path that does not return (\<open>psx_fatal_halt\<close>, a loop that does not end) is
  \<open>None\<close>.

  Bounds and fuel. The capacity doubling of the decoder runs 32 rounds, enough to pass any 32-bit
  count. The render loop recurses on its frames, and the loop that takes whole samples off the phase of a
  voice on the phase. A decode recurses on the number of halfwords, each block consuming at least one. The word loops of
  the DMA channels recurse on the words remaining. The linked-list walk is cut at 0x40001 nodes as in the
  code. The nesting of delay slots in the interpreter is a fuel argument and \<open>interp_delay_slot_depth\<close>
  shows that two levels suffice when the delay slot holds no branch; \<open>interp_register_zero\<close> shows that it runs
  out only at a chain of as many branches in each other's delay slots (\<open>slot_chain\<close>).

  Parameters. What a device does that is not modelled (GPU, CD-ROM) is a function in
  the records \<open>devices\<close> (behind the register window) and \<open>dports\<close> (behind the DMA channels), and so is
  the sound processor, whose own model SpuDma puts behind channel 4; the bus of
  the interpreter is the record \<open>bus\<close>. The host's files are the record \<open>host_fs\<close>, and the guest words and
  switches the serial port reads \<open>sio_host\<close>. The host's counters and \<open>realloc\<close> are the record \<open>mdec_host\<close>. A
  theorem that needs something of such a parameter names it as a hypothesis (\<open>gpu_keeps_ram\<close>), and its
  witness has a concrete function for it.

  Snapshots and reachable states. The readers of the snapshots of the serial port and the sound processor
  check the length and nothing else. The states \<open>sio_reachable\<close> and \<open>spu_reachable\<close> therefore close under
  loading what a reachable state wrote (\<open>Load\<close>, \<open>Spu_load\<close>); the bytes of any other snapshot, older ones
  without the rumble section included, are outside them, and may leave the bounds.

  Not modelled: the interrupt delivery loop (host \<open>longjmp\<close> and fibers), the dirty-page bitmap and the
  guards of \<open>memory.c\<close> for recompiled text, the SSE2 colour row encoder and the start-up self-checks of
  the decoder, the JSON rendering of the rings, the trace rings and counters of the serial
  port, the event ring, debug views and float shadow of the sound processor, the GPU and CD-ROM devices, the sessions and rollback of netplay (sockets, threads and the
  external recomp-net calls), the overlay, debug and host layers.
\<close>

end
